(* ===== verification/Wattcloud_Prelude.thy ===== *)
theory Wattcloud_Prelude
  imports Main "HOL-Library.Word"
begin

text \<open>
  Shared vocabulary of the development: bytes and fixed-width integers, Rust's \<open>Result\<close>
  (as a sum, \<open>Inl\<close> is the error) with the \<open>?\<close> operator, slices and in-place copies into a
  buffer, little- and big-endian codecs with their round trips, checked and saturating
  arithmetic, decimal formatting for the messages built with \<open>format!\<close>, and the locale
  \<open>fixed_codec\<close> for records laid out in a fixed number of bytes.

  Sizes of the code (\<open>usize\<close>) are \<^typ>\<open>nat\<close>: they are lengths of in-memory buffers, which
  Rust bounds by \<open>isize::MAX\<close>, so the sums the code forms of them do not overflow a 64-bit
  \<open>usize\<close>.  Counters and fields that the code keeps at a width are words of that width, or
  naturals with the saturation written out.
\<close>

named_theorems codec_simps "lengths and round trips of the byte codecs"

type_synonym u8 = "8 word"
type_synonym u16 = "16 word"
type_synonym u32 = "32 word"
type_synonym bytes = "u8 list"

subsection \<open>Results\<close>

text \<open>The \<open>?\<close> operator: run the continuation on a success, return the error otherwise.\<close>

definition and_then :: "'e + 'a \<Rightarrow> ('a \<Rightarrow> 'e + 'b) \<Rightarrow> 'e + 'b" where
  "and_then r f = (case r of Inl e \<Rightarrow> Inl e | Inr x \<Rightarrow> f x)"

definition map_err :: "('e \<Rightarrow> 'f) \<Rightarrow> 'e + 'a \<Rightarrow> 'f + 'a" where
  "map_err f r = (case r of Inl e \<Rightarrow> Inl (f e) | Inr x \<Rightarrow> Inr x)"

definition ok_or :: "'e \<Rightarrow> 'a option \<Rightarrow> 'e + 'a" where
  "ok_or e r = (case r of None \<Rightarrow> Inl e | Some x \<Rightarrow> Inr x)"

lemma and_then_simps [simp]:
  "and_then (Inl e) f = Inl e"
  "and_then (Inr x) f = f x"
  by (simp_all add: and_then_def)

lemma map_err_simps [simp]:
  "map_err g (Inl e) = Inl (g e)"
  "map_err g (Inr x) = Inr x"
  by (simp_all add: map_err_def)

lemma ok_or_simps [simp]:
  "ok_or e None = Inl e"
  "ok_or e (Some x) = Inr x"
  by (simp_all add: ok_or_def)

lemma and_then_Inr_conv: "and_then r f = Inr y \<longleftrightarrow> (\<exists>x. r = Inr x \<and> f x = Inr y)"
  by (cases r) auto

lemma map_err_Inr_conv [simp]: "map_err g r = Inr x \<longleftrightarrow> r = Inr x"
  by (cases r) auto

lemma ok_or_Inr_conv [simp]: "ok_or e r = Inr x \<longleftrightarrow> r = Some x"
  by (cases r) auto

text \<open>The loop \<open>for x in xs { out.push(f(x)?) }\<close>.\<close>

primrec try_map :: "('a \<Rightarrow> 'e + 'b) \<Rightarrow> 'a list \<Rightarrow> 'e + 'b list" where
  "try_map f [] = Inr []"
| "try_map f (x # xs) = and_then (f x) (\<lambda>y. and_then (try_map f xs) (\<lambda>ys. Inr (y # ys)))"

lemma try_map_map: "try_map f (map g xs) = try_map (\<lambda>x. f (g x)) xs"
  by (induction xs) auto

lemma try_map_cong: "(\<And>x. x \<in> set xs \<Longrightarrow> f x = g x) \<Longrightarrow> try_map f xs = try_map g xs"
  by (induction xs) auto

subsection \<open>Slices and buffers\<close>

text \<open>\<open>data[a..b]\<close>, for \<open>a \<le> b \<le> data.len()\<close> (the code's guards give the bounds).\<close>

definition slice :: "nat \<Rightarrow> nat \<Rightarrow> 'a list \<Rightarrow> 'a list" where
  "slice a b xs = take (b - a) (drop a xs)"

text \<open>\<open>buf[off..off + src.len()].copy_from_slice(src)\<close>.\<close>

definition copy_at :: "nat \<Rightarrow> 'a list \<Rightarrow> 'a list \<Rightarrow> 'a list" where
  "copy_at off src buf = take off buf @ src @ drop (off + length src) buf"

lemma length_slice [simp]: "length (slice a b xs) = min (b - a) (length xs - a)"
  by (simp add: slice_def min.commute)

lemma slice_append_exact [simp]:
  "a = length xs \<Longrightarrow> b = length xs + length ys \<Longrightarrow> slice a b (xs @ ys @ zs) = ys"
  by (simp add: slice_def)

lemma slice_append_exact' [simp]:
  "a = length xs \<Longrightarrow> b = length xs + length ys \<Longrightarrow> slice a b (xs @ ys) = ys"
  by (simp add: slice_def)

lemma slice_take: "b \<le> n \<Longrightarrow> slice a b (take n xs) = slice a b xs"
  by (cases "a \<le> b") (auto simp: slice_def drop_take min_def)

lemma slice_drop: "slice a b (drop n xs) = slice (n + a) (n + b) xs"
  by (simp add: slice_def add.commute)

lemma slice_0: "slice 0 b xs = take b xs"
  by (simp add: slice_def)

lemma slice_split: "a \<le> b \<Longrightarrow> b \<le> c \<Longrightarrow> slice a b xs @ slice b c xs = slice a c xs"
proof -
  assume ab: "a \<le> b" and bc: "b \<le> c"
  have "c - a = (b - a) + (c - b)" using ab bc by simp
  then have "take (c - a) (drop a xs) = take (b - a) (drop a xs) @ take (c - b) (drop (b - a) (drop a xs))"
    by (simp only: take_add)
  then show ?thesis using ab by (simp add: slice_def)
qed

lemma slice_full: "b = length xs \<Longrightarrow> slice a b xs = drop a xs"
  by (simp add: slice_def)

text \<open>Filling a zeroed buffer from the front.\<close>

lemma copy_at_prefix:
  assumes "length pre = off" and "length src = n" and "n \<le> k"
  shows "copy_at off src (pre @ replicate k z) = (pre @ src) @ replicate (k - n) z"
  using assms by (simp add: copy_at_def)

lemma length_copy_at [simp]:
  "off + length src \<le> length buf \<Longrightarrow> length (copy_at off src buf) = length buf"
  by (simp add: copy_at_def)

subsection \<open>Little- and big-endian integers\<close>

text \<open>\<open>to_le_bytes\<close>/\<open>from_le_bytes\<close> at a width of \<open>n\<close> bytes, through naturals.\<close>

fun le_encode :: "nat \<Rightarrow> nat \<Rightarrow> bytes" where
  "le_encode 0 k = []"
| "le_encode (Suc n) k = word_of_nat (k mod 256) # le_encode n (k div 256)"

fun le_decode :: "bytes \<Rightarrow> nat" where
  "le_decode [] = 0"
| "le_decode (b # bs) = unat b + 256 * le_decode bs"

lemma length_le_encode [simp, codec_simps]: "length (le_encode n k) = n"
  by (induction n arbitrary: k) auto

lemma unat_word_of_nat_u8: "unat (word_of_nat (k mod 256) :: u8) = k mod 256"
  by (simp add: unat_of_nat)

lemma le_decode_encode: "le_decode (le_encode n k) = k mod 256 ^ n"
proof (induction n arbitrary: k)
  case 0
  then show ?case by simp
next
  case (Suc n)
  have "le_decode (le_encode (Suc n) k) = k mod 256 + 256 * (k div 256 mod 256 ^ n)"
    by (simp add: Suc.IH unat_of_nat)
  also have "\<dots> = k mod (256 * 256 ^ n)"
    by (simp add: mod_mult2_eq)
  finally show ?case by simp
qed

lemma le_decode_bound: "le_decode bs < 256 ^ length bs"
proof (induction bs)
  case Nil
  then show ?case by simp
next
  case (Cons b bs)
  have "unat b < 256" using unsigned_less [of b] by simp
  with Cons.IH show ?case by simp
qed

lemma le_encode_decode: "le_encode (length bs) (le_decode bs) = bs"
proof (induction bs)
  case Nil
  then show ?case by simp
next
  case (Cons b bs)
  have b: "unat b < 256" using unsigned_less [of b] by simp
  then have "(unat b + 256 * le_decode bs) div 256 = le_decode bs" by simp
  with b Cons.IH show ?case by simp
qed

definition u16_to_le :: "u16 \<Rightarrow> bytes" where "u16_to_le w = le_encode 2 (unat w)"
definition u16_from_le :: "bytes \<Rightarrow> u16" where "u16_from_le bs = word_of_nat (le_decode bs)"
definition u32_to_le :: "u32 \<Rightarrow> bytes" where "u32_to_le w = le_encode 4 (unat w)"
definition u32_from_le :: "bytes \<Rightarrow> u32" where "u32_from_le bs = word_of_nat (le_decode bs)"
definition u32_to_be :: "u32 \<Rightarrow> bytes" where "u32_to_be w = rev (u32_to_le w)"
definition u32_from_be :: "bytes \<Rightarrow> u32" where "u32_from_be bs = u32_from_le (rev bs)"

lemma length_u_codecs [simp, codec_simps]:
  "length (u16_to_le a) = 2" "length (u32_to_le b) = 4" "length (u32_to_be b) = 4"
  by (simp_all add: u16_to_le_def u32_to_le_def u32_to_be_def)

lemma u16_from_to_le [simp, codec_simps]: "u16_from_le (u16_to_le w) = w"
proof -
  have "unat w < 2 ^ 16" using unsigned_less [of w, where 'a = nat] by simp
  then have "unat w mod 256 ^ 2 = unat w" by simp
  then show ?thesis by (simp add: u16_from_le_def u16_to_le_def le_decode_encode)
qed

lemma u32_from_to_le [simp, codec_simps]: "u32_from_le (u32_to_le w) = w"
proof -
  have "unat w < 2 ^ 32" using unsigned_less [of w, where 'a = nat] by simp
  then have "unat w mod 256 ^ 4 = unat w" by simp
  then show ?thesis by (simp add: u32_from_le_def u32_to_le_def le_decode_encode)
qed

lemma u32_from_to_be [simp, codec_simps]: "u32_from_be (u32_to_be w) = w"
  by (simp add: u32_from_be_def u32_to_be_def)

lemma u16_to_from_le [codec_simps]: "length bs = 2 \<Longrightarrow> u16_to_le (u16_from_le bs) = bs"
  using le_decode_bound [of bs] le_encode_decode [of bs]
  by (simp add: u16_to_le_def u16_from_le_def unat_of_nat)

lemma u32_to_from_le [codec_simps]: "length bs = 4 \<Longrightarrow> u32_to_le (u32_from_le bs) = bs"
  using le_decode_bound [of bs] le_encode_decode [of bs]
  by (simp add: u32_to_le_def u32_from_le_def unat_of_nat)

lemma u32_to_from_be [codec_simps]: "length bs = 4 \<Longrightarrow> u32_to_be (u32_from_be bs) = bs"
  by (simp add: u32_to_be_def u32_from_be_def u32_to_from_le)

lemma u32_to_le_inject [simp]: "u32_to_le a = u32_to_le b \<longleftrightarrow> a = b"
  by (metis u32_from_to_le)

lemma unat_u32_from_le_to_le_nat:
  "k < 2 ^ 32 \<Longrightarrow> unat (u32_from_le (u32_to_le (word_of_nat k))) = k"
  by (simp add: unat_of_nat)

subsection \<open>Checked and saturating arithmetic\<close>

definition checked_add1_u32 :: "u32 \<Rightarrow> u32 option" where
  "checked_add1_u32 w = (if unat w + 1 < 2 ^ 32 then Some (w + 1) else None)"

abbreviation u64_max :: nat where "u64_max \<equiv> 18446744073709551615"

text \<open>\<open>u64::saturating_add\<close> on naturals within \<open>u64\<close>.\<close>

definition sat_add64 :: "nat \<Rightarrow> nat \<Rightarrow> nat" where
  "sat_add64 a b = min (a + b) u64_max"

lemma checked_add1_u32_Some:
  "checked_add1_u32 w = Some v \<longleftrightarrow> unat w + 1 < 2 ^ 32 \<and> v = w + 1"
  by (auto simp: checked_add1_u32_def)

lemma checked_add1_u32_unat:
  assumes "checked_add1_u32 w = Some v"
  shows "unat v = unat w + 1"
proof -
  from assms have "unat w + 1 < 2 ^ 32" and v: "v = w + 1"
    by (auto simp: checked_add1_u32_Some)
  then have "unat (w + 1) = unat w + 1"
    using unat_word_ariths(1) [of w 1] by simp
  then show ?thesis using v by simp
qed

lemma sat_add64_le_max: "sat_add64 a b \<le> u64_max"
  by (simp add: sat_add64_def)

lemma sat_add64_exact: "sat_add64 a b \<le> c \<Longrightarrow> c < u64_max \<Longrightarrow> sat_add64 a b = a + b"
  by (simp add: sat_add64_def min_def split: if_splits)

lemma sat_add64_mono: "a \<le> u64_max \<Longrightarrow> a \<le> sat_add64 a b"
  by (simp add: sat_add64_def)

subsection \<open>Strings and decimal formatting\<close>

text \<open>\<open>str::as_bytes\<close>: a string is the list of its UTF-8 code units.\<close>

definition as_bytes :: "string \<Rightarrow> bytes" where
  "as_bytes s = map (\<lambda>c. word_of_nat (of_char c)) s"

definition of_bytes :: "bytes \<Rightarrow> string" where
  "of_bytes bs = map (\<lambda>b. char_of (unat b)) bs"

lemma length_as_bytes [simp]: "length (as_bytes s) = length s"
  by (simp add: as_bytes_def)

lemma of_bytes_as_bytes [simp]: "of_bytes (as_bytes s) = s"
proof -
  have "char_of (unat (word_of_nat (of_char c) :: u8)) = c" for c :: char
  proof -
    have "(of_char c :: nat) < 256" by (rule nat_of_char_less_256)
    then show ?thesis by (simp add: unat_of_nat)
  qed
  then show ?thesis by (simp add: of_bytes_def as_bytes_def comp_def)
qed

lemma as_bytes_of_bytes [simp]: "as_bytes (of_bytes bs) = bs"
proof -
  have "word_of_nat (of_char (char_of (unat b) :: char)) = b" for b :: u8
  proof -
    have "unat b < 256" using unsigned_less [of b] by simp
    then show ?thesis by simp
  qed
  then show ?thesis by (simp add: of_bytes_def as_bytes_def comp_def map_idI)
qed

lemma as_bytes_inject [simp]: "as_bytes s = as_bytes t \<longleftrightarrow> s = t"
  by (metis of_bytes_as_bytes)

fun show_nat :: "nat \<Rightarrow> string" where
  "show_nat n =
     (if n < 10 then [char_of (48 + n)] else show_nat (n div 10) @ [char_of (48 + n mod 10)])"

declare show_nat.simps [simp del]

text \<open>\<open>std::str::from_utf8\<close>: well-formed UTF-8 (Unicode table 3-7), kept as its code units.\<close>

definition cont_byte :: "u8 \<Rightarrow> bool" where "cont_byte b \<longleftrightarrow> 0x80 \<le> b \<and> b \<le> 0xBF"

fun valid_utf8 :: "bytes \<Rightarrow> bool" where
  "valid_utf8 [] = True"
| "valid_utf8 (b0 # bs) =
     (if b0 < 0x80 then valid_utf8 bs
      else case bs of
        [] \<Rightarrow> False
      | b1 # bs1 \<Rightarrow>
          if 0xC2 \<le> b0 \<and> b0 \<le> 0xDF then cont_byte b1 \<and> valid_utf8 bs1
          else case bs1 of
            [] \<Rightarrow> False
          | b2 # bs2 \<Rightarrow>
              if 0xE0 \<le> b0 \<and> b0 \<le> 0xEF then
                cont_byte b1 \<and> (b0 = 0xE0 \<longrightarrow> 0xA0 \<le> b1) \<and> (b0 = 0xED \<longrightarrow> b1 \<le> 0x9F) \<and> cont_byte b2 \<and> valid_utf8 bs2
              else case bs2 of
                [] \<Rightarrow> False
              | b3 # bs3 \<Rightarrow>
                  0xF0 \<le> b0 \<and> b0 \<le> 0xF4 \<and> cont_byte b1 \<and> (b0 = 0xF0 \<longrightarrow> 0x90 \<le> b1) \<and>
                  (b0 = 0xF4 \<longrightarrow> b1 \<le> 0x8F) \<and> cont_byte b2 \<and> cont_byte b3 \<and> valid_utf8 bs3)"

definition from_utf8 :: "bytes \<Rightarrow> string option" where
  "from_utf8 bs = (if valid_utf8 bs then Some (of_bytes bs) else None)"

lemma valid_utf8_ascii: "list_all (\<lambda>b. b < 0x80) bs \<Longrightarrow> valid_utf8 bs"
  by (induction bs) auto

lemma from_utf8_Some: "from_utf8 bs = Some s \<Longrightarrow> as_bytes s = bs"
  by (auto simp: from_utf8_def split: if_splits)

text \<open>
  \<open>str::trim\<close>: the UTF-8 encodings of the characters with the Unicode property \<open>White_Space\<close> are
  stripped from both ends.
\<close>

definition utf8_whitespace :: "string list" where
  "utf8_whitespace = map of_bytes ([[9], [10], [11], [12], [13], [32], [0xC2, 0x85], [0xC2, 0xA0], [0xE1, 0x9A, 0x80]] @
     map (\<lambda>b. [0xE2, 0x80, b]) [0x80, 0x81, 0x82, 0x83, 0x84, 0x85, 0x86, 0x87, 0x88, 0x89, 0x8A, 0xA8, 0xA9, 0xAF] @
     [[0xE2, 0x81, 0x9F], [0xE3, 0x80, 0x80]])"

fun trim_with :: "nat \<Rightarrow> string list \<Rightarrow> string \<Rightarrow> string" where
  "trim_with 0 ws s = s"
| "trim_with (Suc n) ws s =
     (case find (\<lambda>w. take (length w) s = w) ws of
        None \<Rightarrow> s
      | Some w \<Rightarrow> trim_with n ws (drop (length w) s))"

definition trim_start :: "string \<Rightarrow> string" where
  "trim_start s = trim_with (length s) utf8_whitespace s"

definition trim_end :: "string \<Rightarrow> string" where
  "trim_end s = rev (trim_with (length s) (map rev utf8_whitespace) (rev s))"

definition trim :: "string \<Rightarrow> string" where
  "trim s = trim_end (trim_start s)"

text \<open>\<open>trim_end_matches(c)\<close>, \<open>contains\<close> and \<open>splitn\<close> of \<open>str\<close>.\<close>

definition trim_end_matches :: "char \<Rightarrow> string \<Rightarrow> string" where
  "trim_end_matches c s = rev (dropWhile (\<lambda>x. x = c) (rev s))"

fun contains :: "string \<Rightarrow> string \<Rightarrow> bool" where
  "contains needle [] = (needle = [])"
| "contains needle (c # cs) = (take (length needle) (c # cs) = needle \<or> contains needle cs)"

fun splitn :: "nat \<Rightarrow> char \<Rightarrow> string \<Rightarrow> string list" where
  "splitn 0 c s = []"
| "splitn (Suc 0) c s = [s]"
| "splitn (Suc (Suc n)) c s =
     (case dropWhile (\<lambda>x. x \<noteq> c) s of
        [] \<Rightarrow> [s]
      | _ # rest \<Rightarrow> takeWhile (\<lambda>x. x \<noteq> c) s # splitn (Suc n) c rest)"

definition strip_prefix :: "string \<Rightarrow> string \<Rightarrow> string option" where
  "strip_prefix p s = (if take (length p) s = p then Some (drop (length p) s) else None)"

lemma strip_prefix_append [simp]: "strip_prefix p (p @ s) = Some s"
  by (simp add: strip_prefix_def)

lemma splitn_append: "c \<notin> set a \<Longrightarrow> splitn (Suc (Suc n)) c (a @ c # b) = a # splitn (Suc n) c b"
proof -
  assume "c \<notin> set a"
  then have "dropWhile (\<lambda>x. x \<noteq> c) (a @ c # b) = c # b" "takeWhile (\<lambda>x. x \<noteq> c) (a @ c # b) = a"
    by (auto simp: dropWhile_append1 takeWhile_append1 dropWhile_append takeWhile_append)
  then show ?thesis by simp
qed

text \<open>A text that starts and ends with a visible ASCII character is not changed by \<open>trim\<close>.\<close>

definition graphic :: "char \<Rightarrow> bool" where
  "graphic c \<longleftrightarrow> 32 < (of_char c :: nat) \<and> (of_char c :: nat) < 127"

lemma whitespace_not_graphic: "w \<in> set utf8_whitespace \<Longrightarrow> w \<noteq> [] \<and> \<not> graphic (hd w) \<and> \<not> graphic (last w)"
  by (auto simp: utf8_whitespace_def of_bytes_def graphic_def)

lemma trim_with_id: "s \<noteq> [] \<Longrightarrow> (\<And>w. w \<in> set ws \<Longrightarrow> w \<noteq> [] \<and> \<not> graphic (hd w)) \<Longrightarrow> graphic (hd s) \<Longrightarrow> trim_with n ws s = s"
proof (cases n)
  case (Suc m)
  assume s: "s \<noteq> []" "graphic (hd s)" and ws: "\<And>w. w \<in> set ws \<Longrightarrow> w \<noteq> [] \<and> \<not> graphic (hd w)"
  have "take (length w) s \<noteq> w" if "w \<in> set ws" for w
    using ws [OF that] s by (cases w; cases s) auto
  then have "find (\<lambda>w. take (length w) s = w) ws = None" by (auto simp: find_None_iff)
  then show ?thesis using Suc by simp
qed simp

lemma trim_graphic: "s \<noteq> [] \<Longrightarrow> graphic (hd s) \<Longrightarrow> graphic (last s) \<Longrightarrow> trim s = s"
proof -
  assume s: "s \<noteq> []" "graphic (hd s)" "graphic (last s)"
  have "trim_start s = s"
    unfolding trim_start_def using s whitespace_not_graphic by (intro trim_with_id) auto
  moreover have "trim_with n (map rev utf8_whitespace) (rev s) = rev s" for n
    using s whitespace_not_graphic by (intro trim_with_id) (auto simp: hd_rev)
  ultimately show ?thesis by (simp add: trim_def trim_end_def)
qed

subsection \<open>Searching and updating lists\<close>

text \<open>\<open>iter_mut().find(p)\<close> followed by an update of the element found.\<close>

fun update_first :: "('a \<Rightarrow> bool) \<Rightarrow> ('a \<Rightarrow> 'a) \<Rightarrow> 'a list \<Rightarrow> 'a list option" where
  "update_first p f [] = None"
| "update_first p f (x # xs) = (if p x then Some (f x # xs) else map_option ((#) x) (update_first p f xs))"

lemma update_first_None: "update_first p f xs = None \<longleftrightarrow> (\<forall>x\<in>set xs. \<not> p x)"
  by (induction xs) auto

lemma update_first_map:
  "update_first p f xs = Some ys \<Longrightarrow> (\<And>x y. x \<in> set xs \<Longrightarrow> y \<in> set xs \<Longrightarrow> p x \<Longrightarrow> p y \<Longrightarrow> k x = k y) \<Longrightarrow>
     distinct (map k xs) \<Longrightarrow> ys = map (\<lambda>x. if p x then f x else x) xs"
proof (induction xs arbitrary: ys)
  case (Cons x xs)
  show ?case
  proof (cases "p x")
    case True
    then have "\<not> p y" if "y \<in> set xs" for y
      using Cons.prems(2) [of x y] Cons.prems(3) that by auto
    then show ?thesis using True Cons.prems(1) by (auto intro!: map_idI [symmetric])
  next
    case False
    then show ?thesis using Cons by auto
  qed
qed simp

text \<open>\<open>max_by\<close> keeps the later of equal elements, \<open>min_by\<close> the earlier.\<close>

fun max_by :: "('a \<Rightarrow> 'a \<Rightarrow> bool) \<Rightarrow> 'a list \<Rightarrow> 'a option" where
  "max_by gt [] = None"
| "max_by gt (x # xs) = Some (foldl (\<lambda>acc y. if gt acc y then acc else y) x xs)"

fun min_by :: "('a \<Rightarrow> 'a \<Rightarrow> bool) \<Rightarrow> 'a list \<Rightarrow> 'a option" where
  "min_by gt [] = None"
| "min_by gt (x # xs) = Some (foldl (\<lambda>acc y. if gt acc y then y else acc) x xs)"

lemma max_by_Some:
  assumes "\<And>a. \<not> gt a a" and "\<And>a b. gt a b \<Longrightarrow> \<not> gt b a" and "\<And>a b c. \<not> gt a b \<Longrightarrow> \<not> gt b c \<Longrightarrow> \<not> gt a c"
    and "max_by gt xs = Some m"
  shows "m \<in> set xs \<and> (\<forall>y\<in>set xs. \<not> gt y m)"
proof -
  let ?F = "foldl (\<lambda>acc y. if gt acc y then acc else y)"
  have "?F x ys \<in> set (x # ys) \<and> (\<forall>y\<in>set (x # ys). \<not> gt y (?F x ys))" for x ys
  proof (induction ys arbitrary: x)
    case Nil
    then show ?case using assms(1) by simp
  next
    case (Cons z zs)
    define x' where "x' = (if gt x z then x else z)"
    have F: "?F x (z # zs) = ?F x' zs" by (simp add: x'_def)
    have x': "x' = x \<or> x' = z" "\<not> gt x x'" "\<not> gt z x'" using assms(1,2) by (auto simp: x'_def)
    have IH: "?F x' zs \<in> set (x' # zs)" "\<forall>y\<in>set (x' # zs). \<not> gt y (?F x' zs)" using Cons.IH [of x'] by blast+
    have "\<not> gt x (?F x' zs)" "\<not> gt z (?F x' zs)" using x'(2,3) IH(2) assms(3) by (meson list.set_intros(1))+
    then show ?case unfolding F using IH x'(1) by auto
  qed
  with assms(4) show ?thesis by (cases xs) auto
qed

lemma min_by_Some:
  assumes "\<And>a. \<not> gt a a" and "\<And>a b. gt a b \<Longrightarrow> \<not> gt b a" and "\<And>a b c. \<not> gt a b \<Longrightarrow> \<not> gt b c \<Longrightarrow> \<not> gt a c"
    and "min_by gt xs = Some m"
  shows "m \<in> set xs \<and> (\<forall>y\<in>set xs. \<not> gt m y)"
proof -
  let ?F = "foldl (\<lambda>acc y. if gt acc y then y else acc)"
  have "?F x ys \<in> set (x # ys) \<and> (\<forall>y\<in>set (x # ys). \<not> gt (?F x ys) y)" for x ys
  proof (induction ys arbitrary: x)
    case Nil
    then show ?case using assms(1) by simp
  next
    case (Cons z zs)
    define x' where "x' = (if gt x z then z else x)"
    have F: "?F x (z # zs) = ?F x' zs" by (simp add: x'_def)
    have x': "x' = x \<or> x' = z" "\<not> gt x' x" "\<not> gt x' z" using assms(1,2) by (auto simp: x'_def)
    have IH: "?F x' zs \<in> set (x' # zs)" "\<forall>y\<in>set (x' # zs). \<not> gt (?F x' zs) y" using Cons.IH [of x'] by blast+
    have "\<not> gt (?F x' zs) x" "\<not> gt (?F x' zs) z" using x'(2,3) IH(2) assms(3) by (meson list.set_intros(1))+
    then show ?case unfolding F using IH x'(1) by auto
  qed
  with assms(4) show ?thesis by (cases xs) auto
qed

text \<open>\<open>{byte:#04x}\<close>: a byte as \<open>0x\<close> and two lower-case hexadecimal digits.\<close>

definition hex_digit :: "nat \<Rightarrow> char" where
  "hex_digit n = (if n < 10 then char_of (48 + n) else char_of (87 + n))"

definition show_hex_byte :: "u8 \<Rightarrow> string" where
  "show_hex_byte b = ''0x'' @ [hex_digit (unat b div 16), hex_digit (unat b mod 16)]"

text \<open>\<open>Iterator::position\<close>.\<close>

primrec position :: "('a \<Rightarrow> bool) \<Rightarrow> 'a list \<Rightarrow> nat option" where
  "position p [] = None"
| "position p (x # xs) = (if p x then Some 0 else map_option Suc (position p xs))"

subsection \<open>Records of a fixed number of bytes\<close>

text \<open>
  The interface of a field or record that is laid out in exactly \<open>width\<close> bytes: \<open>enc\<close> writes
  the values that satisfy \<open>wf\<close>, \<open>dec\<close> reads them back or fails.  A table of such records is
  written by concatenation and read by fixed strides; the lemmas below hold for every provider.
\<close>

locale fixed_codec =
  fixes width :: nat
    and wf :: "'a \<Rightarrow> bool"
    and enc :: "'a \<Rightarrow> bytes"
    and dec :: "bytes \<Rightarrow> 'e + 'a"
  assumes enc_length: "wf x \<Longrightarrow> length (enc x) = width"
    and dec_enc: "wf x \<Longrightarrow> dec (enc x) = Inr x"
    and dec_sound: "dec bs = Inr x \<Longrightarrow> wf x \<and> enc x = bs"
begin

primrec dec_table :: "nat \<Rightarrow> bytes \<Rightarrow> 'e + 'a list" where
  "dec_table 0 bs = Inr []"
| "dec_table (Suc n) bs =
     and_then (dec (take width bs)) (\<lambda>x.
     and_then (dec_table n (drop width bs)) (\<lambda>xs. Inr (x # xs)))"

lemma enc_table_length:
  "list_all wf xs \<Longrightarrow> length (concat (map enc xs)) = width * length xs"
  by (induction xs) (auto simp: enc_length)

lemma dec_table_enc:
  "list_all wf xs \<Longrightarrow> dec_table (length xs) (concat (map enc xs) @ rest) = Inr xs"
  by (induction xs) (auto simp: enc_length dec_enc)

lemma dec_table_sound:
  "dec_table n bs = Inr xs \<Longrightarrow>
     length xs = n \<and> list_all wf xs \<and> concat (map enc xs) = take (width * n) bs"
proof (induction n arbitrary: bs xs)
  case 0
  then show ?case by simp
next
  case (Suc n)
  then obtain y ys where y: "dec (take width bs) = Inr y"
    and ys: "dec_table n (drop width bs) = Inr ys" and xs: "xs = y # ys"
    by (auto simp: and_then_Inr_conv)
  from dec_sound [OF y] Suc.IH [OF ys] show ?case
    using take_add [of width "width * n" bs] by (simp add: xs)
qed

text \<open>Reading record \<open>i\<close> at offset \<open>base + i * width\<close>, as the parsing loops do.\<close>

lemma dec_table_strides:
  "try_map (\<lambda>i. dec (slice (base + i * width) (base + i * width + width) bs)) [0..<n] =
     dec_table n (drop base bs)"
proof (induction n arbitrary: base)
  case 0
  then show ?case by simp
next
  case (Suc n)
  have up: "[0..<Suc n] = 0 # map Suc [0..<n]" by (simp add: upt_conv_Cons map_Suc_upt)
  have "try_map (\<lambda>i. dec (slice (base + i * width) (base + i * width + width) bs)) (map Suc [0..<n]) =
    try_map (\<lambda>i. dec (slice (base + width + i * width) (base + width + i * width + width) bs)) [0..<n]"
    by (simp add: try_map_map add.assoc)
  then show ?case
    using Suc.IH [of "base + width"] by (simp only: up try_map.simps) (simp add: slice_def add.commute)
qed

text \<open>Writing record \<open>i\<close> at offset \<open>base + i * width\<close> of a zeroed buffer.\<close>

lemma write_strides:
  "list_all wf xs \<Longrightarrow> length pre = base \<Longrightarrow> width * length xs \<le> k \<Longrightarrow>
     foldl (\<lambda>buf (i, x). copy_at (base + i * width) (enc x) buf) (pre @ replicate k z) (enumerate 0 xs) =
     (pre @ concat (map enc xs)) @ replicate (k - width * length xs) z"
proof (induction xs rule: rev_induct)
  case Nil
  then show ?case by simp
next
  case (snoc x xs)
  then have "foldl (\<lambda>buf (i, x). copy_at (base + i * width) (enc x) buf) (pre @ replicate k z) (enumerate 0 xs) =
     (pre @ concat (map enc xs)) @ replicate (k - width * length xs) z"
    by simp
  then show ?case
    using snoc.prems copy_at_prefix [of "pre @ concat (map enc xs)" "base + length xs * width" "enc x" width "k - width * length xs" z]
    by (simp add: enumerate_append_eq enc_table_length enc_length mult.commute add.commute)
qed

lemma enc_inject: "wf x \<Longrightarrow> wf y \<Longrightarrow> enc x = enc y \<Longrightarrow> x = y"
  by (metis dec_enc sum.inject(2))

end

text \<open>A little-endian \<open>u32\<close> is such a record; so are the device slots of the vault header.\<close>

definition u32_dec :: "bytes \<Rightarrow> unit + u32" where
  "u32_dec bs = (if length bs = 4 then Inr (u32_from_le bs) else Inl ())"

interpretation u32_le: fixed_codec 4 "\<lambda>_. True" u32_to_le u32_dec
  by unfold_locales (auto simp: u32_dec_def u32_to_from_le split: if_splits)

subsection \<open>Consumers of a byte stream\<close>

text \<open>
  The interface of a component that is fed a byte stream in pieces of any size.  Its single law
  says that a piece may be cut anywhere; so what it produces depends on the bytes of the stream
  and not on how the network split them.
\<close>

definition feed_of :: "('s \<Rightarrow> bytes \<Rightarrow> 's \<times> ('e + 'o list)) \<Rightarrow> 's \<Rightarrow> bytes \<Rightarrow> 'e + 's \<times> 'o list" where
  "feed_of push s d = (case push s d of (s', Inl e) \<Rightarrow> Inl e | (s', Inr x) \<Rightarrow> Inr (s', x))"

primrec feed_all :: "('s \<Rightarrow> bytes \<Rightarrow> 'e + 's \<times> 'o list) \<Rightarrow> 's \<Rightarrow> bytes list \<Rightarrow> 'e + 's \<times> 'o list" where
  "feed_all feed s [] = Inr (s, [])"
| "feed_all feed s (d # ds) =
     and_then (feed s d) (\<lambda>(s1, o1). and_then (feed_all feed s1 ds) (\<lambda>(s2, o2). Inr (s2, o1 @ o2)))"

locale stream_consumer =
  fixes feed :: "'s \<Rightarrow> bytes \<Rightarrow> 'e + 's \<times> 'o list"
  assumes feed_append: "feed s (a @ b) =
    and_then (feed s a) (\<lambda>(s1, o1). and_then (feed s1 b) (\<lambda>(s2, o2). Inr (s2, o1 @ o2)))"
begin

lemma feed_all_concat: "ds \<noteq> [] \<Longrightarrow> feed_all feed s ds = feed s (concat ds)"
proof (induction ds arbitrary: s)
  case Nil
  then show ?case by simp
next
  case (Cons d ds)
  show ?case
  proof (cases "ds = []")
    case True
    then show ?thesis by (cases "feed s d") auto
  next
    case False
    then show ?thesis using Cons.IH by (simp add: feed_append)
  qed
qed

lemma feed_all_split_independent:
  assumes "concat ds = concat es" and "ds \<noteq> []" and "es \<noteq> []"
  shows "feed_all feed s ds = feed_all feed s es"
  using assms by (simp add: feed_all_concat)

end

end
