(* ===== verification/Crypto_Prims.thy ===== *)
theory Crypto_Prims
  imports Wattcloud_Prelude
begin

text \<open>
  The cryptographic layer of the SDK (\<open>sdk-core/src/crypto\<close>): the error type, the wrappers of
  \<open>symmetric.rs\<close>, \<open>hashing.rs\<close>, \<open>kdf.rs\<close> and the hybrid KEM of \<open>pqc.rs\<close>.

  The algorithms themselves (AES-GCM, HMAC, HKDF, BLAKE2b, X25519, ML-KEM, Argon2) are crates
  outside the repository.  They are the fields of the record \<open>prims\<close>, a parameter of every
  definition that calls them; what the code relies on is stated by the predicates \<open>aead_correct\<close>,
  \<open>mac_lengths\<close> and \<open>kem_correct\<close>.  Randomness drawn from the operating system is an
  explicit argument of the definition that draws it.
\<close>

subsection \<open>Errors\<close>

datatype CryptoError =
    EncryptionFailed
  | DecryptionFailed
  | InvalidKeyMaterial
  | KdfFailed
  | KemEncapFailed
  | KemDecapFailed
  | MacVerificationFailed
  | InvalidNonceLength
  | InvalidFormat string
  | UnsupportedVersion u8
  | KeyCommitmentFailed
  | Argon2ParamsOutOfBounds string

datatype AuthError =
    AuthFailed | SessionExpired | MfaRequired | InvalidCredentials | AccountLocked
  | AuthRateLimited nat | AccountPendingApproval | RegistrationIncomplete | TwoFaSetupRequired
  | PasswordChangeRequired | ChallengeFailed | RecoveryFailed | EmailNotVerified

text \<open>\<open>Invalid message_key message\<close>.\<close>

datatype ValidationError = Invalid string string

datatype VaultError =
    InvalidHeader string
  | VaultUnsupportedVersion u16
  | HmacVerificationFailed
  | DeviceSlotNotFound
  | DeviceSlotsFull nat
  | VaultCrypto CryptoError

datatype EnrollmentError =
    EnrollmentCrypto CryptoError
  | HmacMismatch
  | InvalidInput string

datatype ShareRelayError =
    ShareNotFound | ShareRevoked | ShareUnauthorized | ShareRateLimited | ShareTooLarge
  | ShareConflict | ShareUnexpected u16

datatype SdkError =
    SdkCrypto CryptoError
  | SdkAuth AuthError
  | SdkValidation ValidationError
  | SdkVault VaultError
  | SdkEnrollment EnrollmentError
  | SdkApi string
  | SdkStorage string
  | SdkSession string
  | SdkHttp u16 string
  | SdkShareRelay ShareRelayError

subsection \<open>Third-party primitives\<close>

text \<open>
  \<open>aead_seal key nonce plaintext\<close> and \<open>aead_open key nonce ciphertext\<close> for a 32-byte key and a
  12-byte nonce; \<open>hkdf_expand ikm info len\<close> without salt; \<open>mlkem_encap pk coins\<close> with the
  encapsulation randomness, \<open>mlkem_keygen seed\<close> the (secret, public) pair drawn from the seeded
  generator; \<open>argon2_hash password salt memory iterations lanes\<close>.
\<close>

record prims =
  aead_seal :: "bytes \<Rightarrow> bytes \<Rightarrow> bytes \<Rightarrow> bytes option"
  aead_open :: "bytes \<Rightarrow> bytes \<Rightarrow> bytes \<Rightarrow> bytes option"
  hmac_raw :: "bytes \<Rightarrow> bytes \<Rightarrow> bytes"
  hkdf_expand :: "bytes \<Rightarrow> bytes \<Rightarrow> nat \<Rightarrow> bytes option"
  sha256_raw :: "bytes \<Rightarrow> bytes"
  shake256_raw :: "bytes \<Rightarrow> nat \<Rightarrow> bytes"
  blake2b_raw :: "bytes \<Rightarrow> bytes"
  x25519_base :: "bytes \<Rightarrow> bytes"
  x25519_dh :: "bytes \<Rightarrow> bytes \<Rightarrow> bytes"
  mlkem_keygen :: "bytes \<Rightarrow> bytes \<times> bytes"
  mlkem_encap :: "bytes \<Rightarrow> bytes \<Rightarrow> (bytes \<times> bytes) option"
  mlkem_decap :: "bytes \<Rightarrow> bytes \<Rightarrow> bytes option"
  argon2_hash :: "bytes \<Rightarrow> bytes \<Rightarrow> u32 \<Rightarrow> u32 \<Rightarrow> u32 \<Rightarrow> bytes option"

text \<open>The plaintext limit of AES-GCM, in bytes (\<open>P_MAX\<close> of the \<open>aes-gcm\<close> crate).\<close>

abbreviation aead_limit :: nat where "aead_limit \<equiv> 2 ^ 36"

text \<open>
  Documented behaviour of the primitives.  Sealing succeeds below the size limit, adds a 16-byte
  tag, and opening inverts it; opening never yields more than the ciphertext without its tag.
\<close>

definition aead_correct :: "prims \<Rightarrow> bool" where
  "aead_correct P \<longleftrightarrow>
     (\<forall>k n m. length k = 32 \<longrightarrow> length n = 12 \<longrightarrow> length m \<le> aead_limit \<longrightarrow>
        (\<exists>c. aead_seal P k n m = Some c)) \<and>
     (\<forall>k n m c. aead_seal P k n m = Some c \<longrightarrow>
        length c = length m + 16 \<and> aead_open P k n c = Some m) \<and>
     (\<forall>k n m c. aead_open P k n c = Some m \<longrightarrow> length c = length m + 16)"

definition mac_lengths :: "prims \<Rightarrow> bool" where
  "mac_lengths P \<longleftrightarrow>
     (\<forall>k d. length (hmac_raw P k d) = 32) \<and>
     (\<forall>d. length (blake2b_raw P d) = 32) \<and>
     (\<forall>d. length (sha256_raw P d) = 32) \<and>
     (\<forall>k i n. n \<le> 255 * 32 \<longrightarrow> (\<exists>okm. hkdf_expand P k i n = Some okm \<and> length okm = n))"

text \<open>
  A recipient key pair that decapsulates what is encapsulated to it: X25519 agreement commutes
  for the pair and ML-KEM recovers the shared secret (up to the failure probability of the
  scheme, which the hypothesis leaves out).
\<close>

definition kem_correct :: "prims \<Rightarrow> bytes \<Rightarrow> bytes \<Rightarrow> bytes \<Rightarrow> bytes \<Rightarrow> bool" where
  "kem_correct P mlkem_pub mlkem_sec x25519_pub x25519_sec \<longleftrightarrow>
     length mlkem_pub = 1568 \<and> length mlkem_sec = 3168 \<and>
     length x25519_pub = 32 \<and> length x25519_sec = 32 \<and>
     (\<forall>e. length e = 32 \<longrightarrow> length (x25519_base P e) = 32 \<and>
        x25519_dh P e x25519_pub = x25519_dh P x25519_sec (x25519_base P e)) \<and>
     (\<forall>coins. length coins = 32 \<longrightarrow> (\<exists>ct ss. mlkem_encap P mlkem_pub coins = Some (ct, ss))) \<and>
     (\<forall>coins ct ss. mlkem_encap P mlkem_pub coins = Some (ct, ss) \<longrightarrow>
        length ct = 1568 \<and> mlkem_decap P mlkem_sec ct = Some ss)"

lemma aead_correct_sealD:
  assumes "aead_correct P" and "aead_seal P k n m = Some c"
  shows "length c = length m + 16" and "aead_open P k n c = Some m"
  using assms by (auto simp: aead_correct_def)

lemma aead_correct_openD:
  "aead_correct P \<Longrightarrow> aead_open P k n c = Some m \<Longrightarrow> length c = length m + 16"
  by (auto simp: aead_correct_def)

lemma aead_correct_sealE:
  assumes "aead_correct P" and "length k = 32" and "length n = 12" and "length m \<le> aead_limit"
  obtains c where "aead_seal P k n m = Some c" and "length c = length m + 16"
    and "aead_open P k n c = Some m"
proof -
  obtain c where c: "aead_seal P k n m = Some c"
    using assms unfolding aead_correct_def by blast
  from that [OF c aead_correct_sealD [OF assms(1) c]] show thesis .
qed

lemma mac_lengths_simps:
  assumes "mac_lengths P"
  shows "length (hmac_raw P k d) = 32" and "length (blake2b_raw P d) = 32"
    and "length (sha256_raw P d) = 32"
  using assms by (simp_all add: mac_lengths_def)

lemma mac_lengths_hkdfE:
  assumes "mac_lengths P" and "n \<le> 255 * 32"
  obtains okm where "hkdf_expand P k i n = Some okm" and "length okm = n"
  using assms unfolding mac_lengths_def by blast

subsection \<open>Keys and nonces\<close>

text \<open>
  \<open>SymmetricKey\<close>, \<open>X25519SecretKey\<close> and \<open>Nonce12\<close> wrap arrays of 32, 32 and 12 bytes; the
  wrappers are the byte lists, and \<open>from_slice\<close> is where the length is checked.
\<close>

definition SymmetricKey_from_slice :: "bytes \<Rightarrow> CryptoError + bytes" where
  "SymmetricKey_from_slice s = (if length s = 32 then Inr s else Inl InvalidKeyMaterial)"

definition MlKemSecretKey_from_slice :: "bytes \<Rightarrow> CryptoError + bytes" where
  "MlKemSecretKey_from_slice s = (if length s \<noteq> 3168 then Inl InvalidKeyMaterial else Inr s)"

definition Nonce12_from_slice :: "bytes \<Rightarrow> CryptoError + bytes" where
  "Nonce12_from_slice s = (if length s = 12 then Inr s else Inl InvalidNonceLength)"

lemma SymmetricKey_from_slice_Inr [simp]:
  "SymmetricKey_from_slice s = Inr k \<longleftrightarrow> length s = 32 \<and> k = s"
  by (auto simp: SymmetricKey_from_slice_def)

lemma Nonce12_from_slice_Inr [simp]:
  "Nonce12_from_slice s = Inr n \<longleftrightarrow> length s = 12 \<and> n = s"
  by (auto simp: Nonce12_from_slice_def)

subsection \<open>symmetric.rs\<close>

definition aes_gcm_encrypt_with_nonce :: "prims \<Rightarrow> bytes \<Rightarrow> bytes \<Rightarrow> bytes \<Rightarrow> CryptoError + bytes" where
  "aes_gcm_encrypt_with_nonce P plaintext key nonce =
     (if length key \<noteq> 32 then Inl InvalidKeyMaterial
      else ok_or EncryptionFailed (aead_seal P key nonce plaintext))"

definition aes_gcm_decrypt :: "prims \<Rightarrow> bytes \<Rightarrow> bytes \<Rightarrow> bytes \<Rightarrow> CryptoError + bytes" where
  "aes_gcm_decrypt P ciphertext nonce key =
     (if length key \<noteq> 32 then Inl InvalidKeyMaterial
      else ok_or DecryptionFailed (aead_open P key nonce ciphertext))"

text \<open>The nonce is drawn by the caller's randomness, here the argument \<open>nonce\<close>.\<close>

definition aes_gcm_encrypt :: "prims \<Rightarrow> bytes \<Rightarrow> bytes \<Rightarrow> bytes \<Rightarrow> CryptoError + bytes \<times> bytes" where
  "aes_gcm_encrypt P nonce plaintext key =
     and_then (aes_gcm_encrypt_with_nonce P plaintext key nonce) (\<lambda>ct. Inr (ct, nonce))"

text \<open>The loop \<open>for i in 0..4 { nonce[i] ^= idx_bytes[i] }\<close>.\<close>

definition v7_chunk_nonce :: "bytes \<Rightarrow> u32 \<Rightarrow> bytes" where
  "v7_chunk_nonce file_iv chunk_index =
     (let idx_bytes = u32_to_le chunk_index
      in foldl (\<lambda>nonce i. nonce[i := xor (nonce ! i) (idx_bytes ! i)]) file_iv [0..<4])"

lemma v7_chunk_nonce_length [simp]: "length (v7_chunk_nonce iv i) = length iv"
  by (simp add: v7_chunk_nonce_def Let_def upt_rec)

lemma v7_chunk_nonce_zip:
  assumes "length iv = 12"
  shows "v7_chunk_nonce iv i = map2 xor (take 4 iv) (u32_to_le i) @ drop 4 iv"
proof (rule nth_equalityI)
  show "length (v7_chunk_nonce iv i) = length (map2 xor (take 4 iv) (u32_to_le i) @ drop 4 iv)"
    using assms by simp
  fix j
  assume "j < length (v7_chunk_nonce iv i)"
  then have "j < 12" using assms by simp
  then show "v7_chunk_nonce iv i ! j = (map2 xor (take 4 iv) (u32_to_le i) @ drop 4 iv) ! j"
    using assms
    by (cases "j < 4")
      (auto simp: v7_chunk_nonce_def Let_def upt_rec nth_append nth_list_update less_Suc_eq numeral_eq_Suc)
qed

lemma v7_chunk_nonce_inject:
  assumes "length iv = 12"
  shows "v7_chunk_nonce iv i = v7_chunk_nonce iv j \<longleftrightarrow> i = j"
proof
  assume "v7_chunk_nonce iv i = v7_chunk_nonce iv j"
  then have eq: "map2 xor (take 4 iv) (u32_to_le i) = map2 xor (take 4 iv) (u32_to_le j)"
    using assms by (simp add: v7_chunk_nonce_zip)
  have "u32_to_le i = u32_to_le j"
  proof (rule nth_equalityI)
    fix n
    assume "n < length (u32_to_le i)"
    then have n: "n < 4" by simp
    then have "xor (take 4 iv ! n) (u32_to_le i ! n) = xor (take 4 iv ! n) (u32_to_le j ! n)"
      using arg_cong [OF eq, of "\<lambda>xs. xs ! n"] assms by simp
    then have "xor (take 4 iv ! n) (xor (take 4 iv ! n) (u32_to_le i ! n))
      = xor (take 4 iv ! n) (xor (take 4 iv ! n) (u32_to_le j ! n))" by simp
    then show "u32_to_le i ! n = u32_to_le j ! n"
      by (simp add: xor.assoc [symmetric])
  qed simp
  then show "i = j" by simp
qed simp

subsection \<open>hashing.rs\<close>

definition blake2b_256 :: "prims \<Rightarrow> bytes \<Rightarrow> bytes" where
  "blake2b_256 P data = blake2b_raw P data"

definition sha256 :: "prims \<Rightarrow> bytes \<Rightarrow> bytes" where
  "sha256 P data = sha256_raw P data"

definition shake256 :: "prims \<Rightarrow> bytes \<Rightarrow> nat \<Rightarrow> bytes" where
  "shake256 P data output_len = shake256_raw P data output_len"

text \<open>HMAC accepts a key of any length, so \<open>new_from_slice\<close> does not fail.\<close>

definition hmac_sha256 :: "prims \<Rightarrow> bytes \<Rightarrow> bytes \<Rightarrow> CryptoError + bytes" where
  "hmac_sha256 P key data = Inr (hmac_raw P key data)"

definition derive_siv_nonce :: "prims \<Rightarrow> bytes \<Rightarrow> bytes \<Rightarrow> CryptoError + bytes" where
  "derive_siv_nonce P key plaintext =
     and_then (hmac_sha256 P key plaintext) (\<lambda>hash. Inr (take 12 hash))"

text \<open>\<open>ct_eq\<close> accumulates the differences of all bytes without leaving early.\<close>

definition constant_time_eq :: "bytes \<Rightarrow> bytes \<Rightarrow> bool" where
  "constant_time_eq a b =
     (if length a \<noteq> length b then False
      else foldl (\<lambda>acc (x, y). acc \<and> xor x y = 0) True (zip a b))"

lemma foldl_and_conv: "foldl (\<lambda>acc p. acc \<and> Q p) c xs \<longleftrightarrow> c \<and> (\<forall>p\<in>set xs. Q p)"
  by (induction xs arbitrary: c) auto

lemma xor_eq_0_u8: "xor x y = (0 :: u8) \<longleftrightarrow> x = y"
proof
  assume "xor x y = 0"
  then have "xor x (xor x y) = x" by simp
  then show "x = y" by (simp add: xor.assoc [symmetric])
qed simp

lemma constant_time_eq_iff [simp]: "constant_time_eq a b \<longleftrightarrow> a = b"
proof (cases "length a = length b")
  case True
  have "(\<lambda>acc (x, y). acc \<and> xor x y = 0) = (\<lambda>acc p. acc \<and> (case p of (x, y) \<Rightarrow> x = (y :: u8)))"
    by (auto simp: fun_eq_iff xor_eq_0_u8)
  then have "constant_time_eq a b \<longleftrightarrow> (\<forall>(x, y)\<in>set (zip a b). x = y)"
    using True by (simp add: constant_time_eq_def foldl_and_conv)
  also have "\<dots> \<longleftrightarrow> a = b"
    using True by (auto simp: list_eq_iff_zip_eq set_zip)
  finally show ?thesis .
next
  case False
  then show ?thesis by (auto simp: constant_time_eq_def)
qed

text \<open>The streaming MAC object: its key and the bytes absorbed so far.\<close>

record Hmac =
  mac_key :: bytes
  mac_data :: bytes

definition Hmac_new :: "bytes \<Rightarrow> Hmac" where
  "Hmac_new key = \<lparr>mac_key = key, mac_data = []\<rparr>"

definition Hmac_update :: "bytes \<Rightarrow> Hmac \<Rightarrow> Hmac" where
  "Hmac_update data h = h\<lparr>mac_data := mac_data h @ data\<rparr>"

definition Hmac_finalize :: "prims \<Rightarrow> Hmac \<Rightarrow> bytes" where
  "Hmac_finalize P h = hmac_raw P (mac_key h) (mac_data h)"

lemma Hmac_sel [simp]:
  "mac_key (Hmac_new k) = k" "mac_data (Hmac_new k) = []"
  "mac_key (Hmac_update d h) = mac_key h" "mac_data (Hmac_update d h) = mac_data h @ d"
  by (simp_all add: Hmac_new_def Hmac_update_def)

lemma Hmac_update_append: "Hmac_update b (Hmac_update a h) = Hmac_update (a @ b) h"
  by (simp add: Hmac_update_def)

subsection \<open>kdf.rs\<close>

definition hkdf_sha256 :: "prims \<Rightarrow> bytes \<Rightarrow> bytes \<Rightarrow> nat \<Rightarrow> CryptoError + bytes" where
  "hkdf_sha256 P ikm info output_len = ok_or KdfFailed (hkdf_expand P ikm info output_len)"

lemma hkdf_sha256_ok:
  assumes "mac_lengths P" and "n \<le> 255 * 32"
  obtains okm where "hkdf_sha256 P ikm info n = Inr okm" and "length okm = n"
  using mac_lengths_hkdfE [OF assms, of ikm info] by (auto simp: hkdf_sha256_def)

definition ARGON2_MAX_MEMORY_KIB :: u32 where "ARGON2_MAX_MEMORY_KIB = 262144"
definition ARGON2_MAX_ITERATIONS :: u32 where "ARGON2_MAX_ITERATIONS = 10"
definition ARGON2_MAX_PARALLELISM :: u32 where "ARGON2_MAX_PARALLELISM = 8"

definition argon2id_derive_with_params ::
  "prims \<Rightarrow> bytes \<Rightarrow> bytes \<Rightarrow> u32 \<Rightarrow> u32 \<Rightarrow> u32 \<Rightarrow> CryptoError + bytes" where
  "argon2id_derive_with_params P password salt memory_kb iterations parallelism =
     (if length salt \<noteq> 32 then Inl (InvalidFormat ''salt must be 32 bytes'')
      else if memory_kb > ARGON2_MAX_MEMORY_KIB then
        Inl (Argon2ParamsOutOfBounds (''memory_kb '' @ show_nat (unat memory_kb) @
          '' exceeds maximum '' @ show_nat (unat ARGON2_MAX_MEMORY_KIB) @ '' KiB''))
      else if iterations > ARGON2_MAX_ITERATIONS then
        Inl (Argon2ParamsOutOfBounds (''iterations '' @ show_nat (unat iterations) @
          '' exceeds maximum '' @ show_nat (unat ARGON2_MAX_ITERATIONS)))
      else if parallelism > ARGON2_MAX_PARALLELISM then
        Inl (Argon2ParamsOutOfBounds (''parallelism '' @ show_nat (unat parallelism) @
          '' exceeds maximum '' @ show_nat (unat ARGON2_MAX_PARALLELISM)))
      else ok_or KdfFailed (argon2_hash P password salt memory_kb iterations parallelism))"

definition argon2id_derive :: "prims \<Rightarrow> bytes \<Rightarrow> bytes \<Rightarrow> CryptoError + bytes" where
  "argon2id_derive P password salt = argon2id_derive_with_params P password salt 65536 3 4"

text \<open>The two halves of the 64-byte Argon2 output.\<close>

definition auth_material :: "bytes \<Rightarrow> bytes" where "auth_material a = slice 0 32 a"
definition enc_material :: "bytes \<Rightarrow> bytes" where "enc_material a = slice 32 64 a"

definition derive_auth_hash :: "prims \<Rightarrow> bytes \<Rightarrow> CryptoError + bytes" where
  "derive_auth_hash P argon_output =
     hkdf_sha256 P (auth_material argon_output) (as_bytes ''SecureCloud Auth v1'') 32"

definition derive_encryption_key :: "prims \<Rightarrow> bytes \<Rightarrow> CryptoError + bytes" where
  "derive_encryption_key P argon_output =
     and_then (hkdf_sha256 P (enc_material argon_output) (as_bytes ''SecureCloud Encryption v1'') 32)
       SymmetricKey_from_slice"

definition derive_client_kek_half :: "prims \<Rightarrow> bytes \<Rightarrow> CryptoError + bytes" where
  "derive_client_kek_half P argon_output =
     and_then (hkdf_sha256 P (enc_material argon_output) (as_bytes ''SecureCloud KEKHalf v2'') 32)
       SymmetricKey_from_slice"

definition derive_kek_v2 :: "prims \<Rightarrow> bytes \<Rightarrow> bytes \<Rightarrow> CryptoError + bytes" where
  "derive_kek_v2 P client_kek_half server_shard =
     (if length server_shard \<noteq> 32 then Inl InvalidKeyMaterial
      else and_then (hkdf_sha256 P (client_kek_half @ server_shard) (as_bytes ''SecureCloud KEKv2'') 32)
        SymmetricKey_from_slice)"

text \<open>A master secret is \<open>version(1) || secret(32) || checksum(4)\<close>.\<close>

definition secret_bytes :: "bytes \<Rightarrow> bytes" where "secret_bytes ms = slice 1 33 ms"

definition derive_recovery_kek :: "prims \<Rightarrow> bytes \<Rightarrow> CryptoError + bytes" where
  "derive_recovery_kek P master_secret =
     and_then (hkdf_sha256 P (secret_bytes master_secret) (as_bytes ''SecureCloud RecoveryKEK v1'') 32)
       SymmetricKey_from_slice"

definition derive_filename_key_from_master :: "prims \<Rightarrow> bytes \<Rightarrow> CryptoError + bytes" where
  "derive_filename_key_from_master P master_secret =
     and_then (hkdf_sha256 P (secret_bytes master_secret) (as_bytes ''SecureCloud Filename v1'') 32)
       SymmetricKey_from_slice"

record HybridKeypair =
  mlkem_public_key :: bytes
  mlkem_secret_key :: bytes
  x25519_public_key :: bytes
  x25519_secret_key :: bytes

definition derive_keypair_from_master :: "prims \<Rightarrow> bytes \<Rightarrow> CryptoError + HybridKeypair" where
  "derive_keypair_from_master P master_secret =
     (let version = hd master_secret; secret = secret_bytes master_secret in
      if version \<noteq> 0x02 \<and> version \<noteq> 0x05 then Inl (UnsupportedVersion version)
      else
        let mlkem_seed =
              (if version = 0x05
               then shake256_raw P (secret @ as_bytes ''SecureCloud ML-KEM-1024 Seed v2'') 32
               else take 32 (sha256_raw P (secret @ as_bytes ''SecureCloud ML-KEM-1024 Seed'')));
            (mlkem_dk, mlkem_ek) = mlkem_keygen P mlkem_seed;
            x25519_sec = take 32 (sha256_raw P (secret @ as_bytes ''SecureCloud X25519 Seed''))
        in Inr \<lparr>mlkem_public_key = mlkem_ek, mlkem_secret_key = mlkem_dk,
                 x25519_public_key = x25519_base P x25519_sec, x25519_secret_key = x25519_sec\<rparr>)"

subsection \<open>pqc.rs\<close>

record HybridEncapResultV6 =
  eph_x25519_pub :: bytes
  mlkem_ciphertext :: bytes
  encrypted_file_key :: bytes
  enc_content_key :: bytes
  enc_hmac_key :: bytes

text \<open>
  The draws of one encapsulation from the operating system: the ephemeral X25519 secret, the
  ML-KEM coins, the content key and the wrapping IV.
\<close>

record encap_rand =
  rnd_eph :: bytes
  rnd_coins :: bytes
  rnd_content_key :: bytes
  rnd_wrapping_iv :: bytes

definition encap_rand_ok :: "encap_rand \<Rightarrow> bool" where
  "encap_rand_ok r \<longleftrightarrow> length (rnd_eph r) = 32 \<and> length (rnd_coins r) = 32 \<and>
     length (rnd_content_key r) = 32 \<and> length (rnd_wrapping_iv r) = 12"

definition V6 :: bytes where "V6 = as_bytes ''SecureCloud v6''"

definition hybrid_encapsulate_v6 ::
  "prims \<Rightarrow> encap_rand \<Rightarrow> bytes \<Rightarrow> bytes \<Rightarrow> CryptoError + HybridEncapResultV6" where
  "hybrid_encapsulate_v6 P r mlkem_pub x25519_pub =
     (let eph_pub = x25519_base P (rnd_eph r);
          x25519_ss = x25519_dh P (rnd_eph r) x25519_pub in
      if length mlkem_pub \<noteq> 1568 then Inl InvalidKeyMaterial
      else and_then (ok_or KemEncapFailed (mlkem_encap P mlkem_pub (rnd_coins r))) (\<lambda>(mlkem_ct, mlkem_ss).
        let combined_ikm = x25519_ss @ mlkem_ss in
        and_then (ok_or KdfFailed (hkdf_expand P combined_ikm V6 64)) (\<lambda>derived.
        let wrapping_key = slice 0 32 derived;
            hmac_bytes = slice 32 64 derived;
            content_key = rnd_content_key r;
            wrapping_iv = rnd_wrapping_iv r in
        if length wrapping_key \<noteq> 32 then Inl InvalidKeyMaterial
        else and_then (ok_or EncryptionFailed (aead_seal P wrapping_key wrapping_iv content_key)) (\<lambda>wrapped.
        Inr \<lparr>eph_x25519_pub = eph_pub, mlkem_ciphertext = mlkem_ct,
              encrypted_file_key = wrapping_iv @ wrapped,
              enc_content_key = content_key, enc_hmac_key = hmac_bytes\<rparr>))))"

definition hybrid_decapsulate_v6 ::
  "prims \<Rightarrow> bytes \<Rightarrow> bytes \<Rightarrow> bytes \<Rightarrow> bytes \<Rightarrow> bytes \<Rightarrow> CryptoError + bytes \<times> bytes" where
  "hybrid_decapsulate_v6 P eph_pub mlkem_ct efk mlkem_sec x25519_sec =
     (if length eph_pub \<noteq> 32 then Inl InvalidKeyMaterial
      else let x25519_ss = x25519_dh P x25519_sec eph_pub in
      if length mlkem_sec \<noteq> 3168 then Inl InvalidKeyMaterial
      else if length mlkem_ct \<noteq> 1568 then Inl (InvalidFormat ''mlkem_ct must be 1568 bytes'')
      else and_then (ok_or KemDecapFailed (mlkem_decap P mlkem_sec mlkem_ct)) (\<lambda>mlkem_ss.
        let combined_ikm = x25519_ss @ mlkem_ss in
        and_then (ok_or KdfFailed (hkdf_expand P combined_ikm V6 64)) (\<lambda>derived.
        let wrapping_key = slice 0 32 derived;
            hmac_bytes = slice 32 64 derived in
        if length efk \<noteq> 60 then Inl (InvalidFormat ''encrypted_file_key must be 60 bytes'')
        else if length wrapping_key \<noteq> 32 then Inl InvalidKeyMaterial
        else and_then (ok_or DecryptionFailed (aead_open P wrapping_key (take 12 efk) (drop 12 efk)))
          (\<lambda>content_key_vec.
        if length content_key_vec \<noteq> 32 then Inl InvalidKeyMaterial
        else and_then (SymmetricKey_from_slice content_key_vec) (\<lambda>content_key.
        Inr (content_key, hmac_bytes))))))"

lemma hybrid_encapsulate_v6_ok:
  assumes "aead_correct P" and "mac_lengths P"
    and "kem_correct P mlkem_pub mlkem_sec x25519_pub x25519_sec" and "encap_rand_ok r"
  obtains e where "hybrid_encapsulate_v6 P r mlkem_pub x25519_pub = Inr e"
    and "length (eph_x25519_pub e) = 32" and "length (mlkem_ciphertext e) = 1568"
    and "length (encrypted_file_key e) = 60" and "enc_content_key e = rnd_content_key r"
    and "hybrid_decapsulate_v6 P (eph_x25519_pub e) (mlkem_ciphertext e) (encrypted_file_key e)
           mlkem_sec x25519_sec = Inr (rnd_content_key r, enc_hmac_key e)"
proof -
  from assms(4) have r: "length (rnd_eph r) = 32" "length (rnd_coins r) = 32"
    "length (rnd_content_key r) = 32" "length (rnd_wrapping_iv r) = 12"
    by (simp_all add: encap_rand_ok_def)
  from assms(3) r(2) obtain ct ss where enc: "mlkem_encap P mlkem_pub (rnd_coins r) = Some (ct, ss)"
    unfolding kem_correct_def by blast
  from assms(3) enc have kem: "length mlkem_pub = 1568" "length mlkem_sec = 3168"
    "length ct = 1568" "mlkem_decap P mlkem_sec ct = Some ss"
    unfolding kem_correct_def by blast+
  from assms(3) r(1) have dh: "length (x25519_base P (rnd_eph r)) = 32"
    "x25519_dh P x25519_sec (x25519_base P (rnd_eph r)) = x25519_dh P (rnd_eph r) x25519_pub"
    unfolding kem_correct_def by auto
  obtain d where d: "hkdf_expand P (x25519_dh P (rnd_eph r) x25519_pub @ ss) V6 64 = Some d"
    and dl: "length d = 64"
    using mac_lengths_hkdfE [OF assms(2), of 64] by auto
  obtain w where w: "aead_seal P (slice 0 32 d) (rnd_wrapping_iv r) (rnd_content_key r) = Some w"
    and wl: "length w = 48"
    and wo: "aead_open P (slice 0 32 d) (rnd_wrapping_iv r) w = Some (rnd_content_key r)"
    using aead_correct_sealE [OF assms(1), of "slice 0 32 d" "rnd_wrapping_iv r" "rnd_content_key r"]
      dl r by auto
  define e where "e = \<lparr>eph_x25519_pub = x25519_base P (rnd_eph r), mlkem_ciphertext = ct,
    encrypted_file_key = rnd_wrapping_iv r @ w, enc_content_key = rnd_content_key r,
    enc_hmac_key = slice 32 64 d\<rparr>"
  have sel: "eph_x25519_pub e = x25519_base P (rnd_eph r)" "mlkem_ciphertext e = ct"
    "encrypted_file_key e = rnd_wrapping_iv r @ w" "enc_content_key e = rnd_content_key r"
    "enc_hmac_key e = slice 32 64 d"
    by (simp_all add: e_def)
  have "hybrid_encapsulate_v6 P r mlkem_pub x25519_pub = Inr e"
    by (simp add: hybrid_encapsulate_v6_def Let_def kem enc d dl w e_def)
  moreover have "hybrid_decapsulate_v6 P (eph_x25519_pub e) (mlkem_ciphertext e)
      (encrypted_file_key e) mlkem_sec x25519_sec = Inr (rnd_content_key r, enc_hmac_key e)"
    by (simp add: sel hybrid_decapsulate_v6_def Let_def SymmetricKey_from_slice_def kem dh d dl wl wo r)
  ultimately show thesis
    by (intro that [of e]) (simp_all add: sel kem dh wl r)
qed

subsection \<open>A concrete instance\<close>

text \<open>
  Primitives simple enough to compute with, which satisfy every hypothesis above.  They are
  only used to show that theorems with such hypotheses apply.
\<close>

definition toy_prims :: prims where
  "toy_prims = \<lparr>
     aead_seal = (\<lambda>k n m. if length m \<le> aead_limit then Some (m @ replicate 16 0) else None),
     aead_open = (\<lambda>k n c. if 16 \<le> length c then Some (take (length c - 16) c) else None),
     hmac_raw = (\<lambda>k d. replicate 31 0 @ [sum_list d]),
     hkdf_expand = (\<lambda>k i n. if n \<le> 255 * 32 then Some (take n (k @ i @ replicate n 0)) else None),
     sha256_raw = (\<lambda>d. replicate 31 0 @ [sum_list d]),
     shake256_raw = (\<lambda>d n. replicate n 0),
     blake2b_raw = (\<lambda>d. replicate 31 0 @ [sum_list d]),
     x25519_base = (\<lambda>s. s),
     x25519_dh = (\<lambda>s p. map2 xor s p),
     mlkem_keygen = (\<lambda>s. (replicate 3168 0, replicate 1568 0)),
     mlkem_encap = (\<lambda>pk r. Some (take 1568 (r @ replicate 1568 0), take 32 (r @ replicate 1568 0))),
     mlkem_decap = (\<lambda>sk ct. Some (take 32 ct)),
     argon2_hash = (\<lambda>pw salt m t p. Some (take 64 (pw @ salt @ replicate 64 0)))\<rparr>"

lemma aead_correct_toy: "aead_correct toy_prims"
  by (auto simp: aead_correct_def toy_prims_def split: if_splits)

lemma mac_lengths_toy: "mac_lengths toy_prims"
  by (auto simp: mac_lengths_def toy_prims_def)

lemma kem_correct_toy:
  assumes "length x = 32"
  shows "kem_correct toy_prims (replicate 1568 0) (replicate 3168 0) x x"
proof -
  have "map2 xor e x = map2 xor x e" if "length e = 32" for e
    using that assms by (intro nth_equalityI) (simp_all add: xor.commute)
  then show ?thesis using assms by (auto simp: kem_correct_def toy_prims_def)
qed

lemma toy_sel:
  "aead_seal toy_prims k n m = (if length m \<le> aead_limit then Some (m @ replicate 16 0) else None)"
  "aead_open toy_prims k n c = (if 16 \<le> length c then Some (take (length c - 16) c) else None)"
  "hmac_raw toy_prims k d = replicate 31 0 @ [sum_list d]"
  "blake2b_raw toy_prims d = replicate 31 0 @ [sum_list d]"
  "sha256_raw toy_prims d = replicate 31 0 @ [sum_list d]"
  "hkdf_expand toy_prims k i l = (if l \<le> 255 * 32 then Some (take l (k @ i @ replicate l 0)) else None)"
  by (simp_all add: toy_prims_def)

lemmas toy_ok = aead_correct_toy mac_lengths_toy kem_correct_toy

end
