(* ===== verification/Wire_Format.thy ===== *)
theory Wire_Format
  imports Crypto_Prims
begin

text \<open>
  The V7 chunked file format (\<open>sdk-core/src/crypto/wire_format.rs\<close>): the header, the streaming
  encryptor and decryptor, the share-link variant of the decryptor, the one-shot routines, the
  manifest encryptor of share links, the size formula and the footer trimmer.

  A method on \<open>&mut self\<close> is a function that returns the new state beside its result, so the
  state left behind by an error is part of the model.  The parsing loops of the decryptors run
  over a position in the internal buffer, as in the code; \<open>decode_body\<close> is the reference they
  are proved equal to, a recursion over the unread bytes.
\<close>

subsection \<open>Constants\<close>

definition FILE_FORMAT_V7 :: u8 where "FILE_FORMAT_V7 = 0x07"
definition V7_HEADER_MIN :: nat where "V7_HEADER_MIN = 1709"
definition V7_FRAME_OVERHEAD :: nat where "V7_FRAME_OVERHEAD = 32"
definition V7_FOOTER_LEN :: nat where "V7_FOOTER_LEN = 32"
definition V7_ENCRYPT_CHUNK_SIZE :: nat where "V7_ENCRYPT_CHUNK_SIZE = 512 * 1024"
definition CHUNK_HMAC_V1 :: bytes where "CHUNK_HMAC_V1 = as_bytes ''chunk-hmac-v1''"

subsection \<open>Header\<close>

record V7EncryptInit =
  ei_file_iv :: bytes
  ei_eph_x25519_pub :: bytes
  ei_mlkem_ct :: bytes
  ei_encrypted_file_key :: bytes
  ei_key_commitment :: bytes
  ei_content_key :: bytes

record V7DecryptInit =
  di_file_iv :: bytes
  di_content_key :: bytes
  di_header_end :: nat

text \<open>The draws of one encryption: those of the encapsulation and the file IV.\<close>

record file_rand =
  rnd_encap :: encap_rand
  rnd_file_iv :: bytes

definition file_rand_ok :: "file_rand \<Rightarrow> bool" where
  "file_rand_ok r \<longleftrightarrow> encap_rand_ok (rnd_encap r) \<and> length (rnd_file_iv r) = 12"

definition encrypt_file_v7_init ::
  "prims \<Rightarrow> file_rand \<Rightarrow> bytes \<Rightarrow> bytes \<Rightarrow> CryptoError + V7EncryptInit" where
  "encrypt_file_v7_init P r mlkem_pub x25519_pub =
     and_then (hybrid_encapsulate_v6 P (rnd_encap r) mlkem_pub x25519_pub) (\<lambda>kem_result.
     let file_iv = rnd_file_iv r;
         kc_input = enc_content_key kem_result @ file_iv;
         key_commitment = blake2b_256 P kc_input
     in Inr \<lparr>ei_file_iv = file_iv, ei_eph_x25519_pub = eph_x25519_pub kem_result,
              ei_mlkem_ct = mlkem_ciphertext kem_result,
              ei_encrypted_file_key = encrypted_file_key kem_result,
              ei_key_commitment = key_commitment, ei_content_key = enc_content_key kem_result\<rparr>)"

definition encrypt_file_v7_chunk :: "prims \<Rightarrow> bytes \<Rightarrow> bytes \<Rightarrow> bytes \<Rightarrow> u32 \<Rightarrow> CryptoError + bytes" where
  "encrypt_file_v7_chunk P chunk_data content_key file_iv chunk_index =
     aes_gcm_encrypt_with_nonce P chunk_data content_key (v7_chunk_nonce file_iv chunk_index)"

definition decrypt_file_v7_chunk :: "prims \<Rightarrow> bytes \<Rightarrow> bytes \<Rightarrow> bytes \<Rightarrow> u32 \<Rightarrow> CryptoError + bytes" where
  "decrypt_file_v7_chunk P ciphertext content_key file_iv chunk_index =
     aes_gcm_decrypt P ciphertext (v7_chunk_nonce file_iv chunk_index) content_key"

definition compute_v7_hmac :: "prims \<Rightarrow> bytes \<Rightarrow> bytes \<Rightarrow> CryptoError + bytes" where
  "compute_v7_hmac P content_key chunks_data =
     and_then (hkdf_sha256 P content_key CHUNK_HMAC_V1 32) (\<lambda>hmac_key_bytes.
     Inr (Hmac_finalize P (Hmac_update chunks_data (Hmac_new hmac_key_bytes))))"

text \<open>The header bytes, laid out the same way by \<open>V7StreamEncryptor::new\<close> and \<open>encrypt_file_v7\<close>.\<close>

definition header_bytes :: "V7EncryptInit \<Rightarrow> bytes" where
  "header_bytes init =
     [FILE_FORMAT_V7] @ ei_file_iv init @ ei_eph_x25519_pub init @ ei_mlkem_ct init @
     u32_to_le (word_of_nat (length (ei_encrypted_file_key init))) @
     ei_encrypted_file_key init @ ei_key_commitment init"

definition decrypt_file_v7_init :: "prims \<Rightarrow> bytes \<Rightarrow> bytes \<Rightarrow> bytes \<Rightarrow> CryptoError + V7DecryptInit" where
  "decrypt_file_v7_init P encrypted mlkem_sec x25519_sec =
     (if length encrypted < V7_HEADER_MIN then Inl (InvalidFormat ''v7 data too short'')
      else let version = encrypted ! 0 in
      if version \<noteq> FILE_FORMAT_V7 then Inl (UnsupportedVersion version)
      else and_then (Nonce12_from_slice (slice 1 13 encrypted)) (\<lambda>file_iv.
        let eph_pub = slice 13 45 encrypted;
            mlkem_ct = slice 45 1613 encrypted;
            efk_len = unat (u32_from_le (slice 1613 1617 encrypted)) in
        if efk_len \<noteq> 60 then Inl (InvalidFormat ''unexpected efk_len (expected 60)'')
        else let efk_end = 1617 + efk_len in
        if length encrypted < efk_end + 32 then Inl (InvalidFormat ''v7 header truncated'')
        else
          let efk = slice 1617 efk_end encrypted;
              stored_commitment = slice efk_end (efk_end + 32) encrypted in
          and_then (hybrid_decapsulate_v6 P eph_pub mlkem_ct efk mlkem_sec x25519_sec) (\<lambda>(content_key, _).
          let computed_commitment = blake2b_256 P (content_key @ file_iv) in
          if \<not> constant_time_eq computed_commitment stored_commitment then Inl MacVerificationFailed
          else Inr \<lparr>di_file_iv = file_iv, di_content_key = content_key, di_header_end = efk_end + 32\<rparr>)))"

subsection \<open>Streaming decryptor\<close>

record V7StreamDecryptor =
  d_file_iv :: bytes
  d_content_key :: bytes
  d_hmac :: Hmac
  d_chunk_index :: u32
  d_buf :: bytes

definition StreamDecryptor_new ::
  "prims \<Rightarrow> bytes \<Rightarrow> bytes \<Rightarrow> bytes \<Rightarrow> CryptoError + V7StreamDecryptor \<times> nat" where
  "StreamDecryptor_new P header mlkem_sec x25519_sec =
     (if length header < V7_HEADER_MIN then Inl (InvalidFormat ''v7 header prefix too short'')
      else and_then (decrypt_file_v7_init P (take V7_HEADER_MIN header) mlkem_sec x25519_sec) (\<lambda>init.
        and_then (hkdf_sha256 P (di_content_key init) CHUNK_HMAC_V1 32) (\<lambda>hmac_key_bytes.
        let leftover = drop V7_HEADER_MIN header in
        Inr (\<lparr>d_file_iv = di_file_iv init, d_content_key = di_content_key init,
               d_hmac = Hmac_new hmac_key_bytes, d_chunk_index = 0, d_buf = leftover\<rparr>,
             di_header_end init))))"

text \<open>
  The loop of \<open>push\<close>: \<open>pos\<close> is the position in the buffer and \<open>plaintext\<close> the output so far.  The
  result is the state with either an error or the final output and position.
\<close>

function StreamDecryptor_loop ::
  "prims \<Rightarrow> nat \<Rightarrow> bytes \<Rightarrow> V7StreamDecryptor \<Rightarrow> V7StreamDecryptor \<times> (CryptoError + bytes \<times> nat)" where
  "StreamDecryptor_loop P pos plaintext s =
     (if length (d_buf s) - pos < 4 then (s, Inr (plaintext, pos))
      else let chunk_len = unat (u32_from_le (slice pos (pos + 4) (d_buf s))) in
      if chunk_len < 12 then (s, Inl (InvalidFormat ''v7 chunk_len too small''))
      else if length (d_buf s) - pos < 4 + chunk_len then (s, Inr (plaintext, pos))
      else
        let frame_start = pos + 4; ct_start = frame_start + 12; ct_end = frame_start + chunk_len;
            ct = slice ct_start ct_end (d_buf s);
            s1 = s\<lparr>d_hmac := Hmac_update ct (Hmac_update (u32_to_le (d_chunk_index s)) (d_hmac s))\<rparr>
        in case aes_gcm_decrypt P ct (v7_chunk_nonce (d_file_iv s) (d_chunk_index s)) (d_content_key s) of
             Inl e \<Rightarrow> (s1, Inl e)
           | Inr chunk_pt \<Rightarrow>
               (case checked_add1_u32 (d_chunk_index s) of
                  None \<Rightarrow> (s1, Inl (InvalidFormat ''V7 decrypt: chunk_index overflow (>2^32 chunks)''))
                | Some i \<Rightarrow> StreamDecryptor_loop P ct_end (plaintext @ chunk_pt) (s1\<lparr>d_chunk_index := i\<rparr>)))"
  by pat_completeness auto
termination
  by (relation "measure (\<lambda>(P, pos, plaintext, s). length (d_buf s) - pos)") auto

declare StreamDecryptor_loop.simps [simp del]

definition StreamDecryptor_push ::
  "prims \<Rightarrow> V7StreamDecryptor \<Rightarrow> bytes \<Rightarrow> V7StreamDecryptor \<times> (CryptoError + bytes)" where
  "StreamDecryptor_push P s data =
     (let s0 = s\<lparr>d_buf := d_buf s @ data\<rparr> in
      case StreamDecryptor_loop P 0 [] s0 of
        (s1, Inl e) \<Rightarrow> (s1, Inl e)
      | (s1, Inr (plaintext, pos)) \<Rightarrow>
          (if pos > 0 then s1\<lparr>d_buf := drop pos (d_buf s1)\<rparr> else s1, Inr plaintext))"

definition StreamDecryptor_finalize :: "prims \<Rightarrow> V7StreamDecryptor \<Rightarrow> bytes \<Rightarrow> CryptoError + unit" where
  "StreamDecryptor_finalize P s stored_hmac =
     (if d_buf s \<noteq> [] then Inl (InvalidFormat ''v7 stream ended mid-frame'')
      else if length stored_hmac \<noteq> V7_FOOTER_LEN then Inl (InvalidFormat ''v7 footer wrong length'')
      else let computed = Hmac_finalize P (d_hmac s) in
      if constant_time_eq computed stored_hmac then Inr () else Inl MacVerificationFailed)"

subsection \<open>Streaming encryptor\<close>

record V7StreamEncryptor =
  e_file_iv :: bytes
  e_content_key :: bytes
  e_hmac :: Hmac
  e_chunk_index :: u32

definition StreamEncryptor_new ::
  "prims \<Rightarrow> file_rand \<Rightarrow> bytes \<Rightarrow> bytes \<Rightarrow> CryptoError + V7StreamEncryptor \<times> bytes" where
  "StreamEncryptor_new P r mlkem_pub x25519_pub =
     and_then (encrypt_file_v7_init P r mlkem_pub x25519_pub) (\<lambda>init.
     and_then (hkdf_sha256 P (ei_content_key init) CHUNK_HMAC_V1 32) (\<lambda>hmac_key_bytes.
     Inr (\<lparr>e_file_iv = ei_file_iv init, e_content_key = ei_content_key init,
            e_hmac = Hmac_new hmac_key_bytes, e_chunk_index = 0\<rparr>,
          header_bytes init)))"

text \<open>A wire frame; \<open>(12 + ct.len()) as u32\<close> truncates to 32 bits.\<close>

definition frame_bytes :: "bytes \<Rightarrow> bytes \<Rightarrow> bytes" where
  "frame_bytes nonce ct = u32_to_le (word_of_nat (12 + length ct)) @ nonce @ ct"

definition StreamEncryptor_push ::
  "prims \<Rightarrow> V7StreamEncryptor \<Rightarrow> bytes \<Rightarrow> V7StreamEncryptor \<times> (CryptoError + bytes)" where
  "StreamEncryptor_push P s plaintext =
     (case encrypt_file_v7_chunk P plaintext (e_content_key s) (e_file_iv s) (e_chunk_index s) of
        Inl e \<Rightarrow> (s, Inl e)
      | Inr ct \<Rightarrow>
          let nonce = v7_chunk_nonce (e_file_iv s) (e_chunk_index s);
              s1 = s\<lparr>e_hmac := Hmac_update ct (Hmac_update (u32_to_le (e_chunk_index s)) (e_hmac s))\<rparr>;
              frame = frame_bytes nonce ct
          in case checked_add1_u32 (e_chunk_index s) of
               None \<Rightarrow> (s1, Inl (InvalidFormat ''V7 encrypt: chunk_index overflow (>2^32 chunks)''))
             | Some i \<Rightarrow> (s1\<lparr>e_chunk_index := i\<rparr>, Inr frame))"

definition StreamEncryptor_position :: "V7StreamEncryptor \<Rightarrow> u32" where
  "StreamEncryptor_position s = e_chunk_index s"

definition StreamEncryptor_finalize :: "prims \<Rightarrow> V7StreamEncryptor \<Rightarrow> bytes" where
  "StreamEncryptor_finalize P s = Hmac_finalize P (e_hmac s)"

subsection \<open>Share-link decryptor\<close>

record V7ShareDecryptor =
  sh_file_iv :: bytes
  sh_content_key :: bytes
  sh_hmac :: Hmac
  sh_chunk_index :: u32
  sh_buf :: bytes

definition ShareDecryptor_new :: "prims \<Rightarrow> bytes \<Rightarrow> bytes \<Rightarrow> CryptoError + V7ShareDecryptor \<times> nat" where
  "ShareDecryptor_new P header content_key_bytes =
     (if length header < V7_HEADER_MIN then Inl (InvalidFormat ''v7 header prefix too short'')
      else let version = header ! 0 in
      if version \<noteq> FILE_FORMAT_V7 then Inl (UnsupportedVersion version)
      else and_then (Nonce12_from_slice (slice 1 13 header)) (\<lambda>file_iv.
        let commitment_offset = 1 + 12 + 32 + 1568 + 4 + 60;
            stored_commitment = slice commitment_offset (commitment_offset + 32) header in
        and_then (SymmetricKey_from_slice content_key_bytes) (\<lambda>content_key.
        let computed = blake2b_256 P (content_key @ file_iv) in
        if \<not> constant_time_eq computed stored_commitment then Inl KeyCommitmentFailed
        else and_then (hkdf_sha256 P content_key CHUNK_HMAC_V1 32) (\<lambda>hmac_key_bytes.
          let leftover = drop V7_HEADER_MIN header in
          Inr (\<lparr>sh_file_iv = file_iv, sh_content_key = content_key, sh_hmac = Hmac_new hmac_key_bytes,
                 sh_chunk_index = 0, sh_buf = leftover\<rparr>, V7_HEADER_MIN)))))"

function ShareDecryptor_loop ::
  "prims \<Rightarrow> nat \<Rightarrow> bytes \<Rightarrow> V7ShareDecryptor \<Rightarrow> V7ShareDecryptor \<times> (CryptoError + bytes \<times> nat)" where
  "ShareDecryptor_loop P pos plaintext s =
     (if length (sh_buf s) - pos < 4 then (s, Inr (plaintext, pos))
      else let chunk_len = unat (u32_from_le (slice pos (pos + 4) (sh_buf s))) in
      if chunk_len < 12 then (s, Inl (InvalidFormat ''v7 chunk_len too small''))
      else if length (sh_buf s) - pos < 4 + chunk_len then (s, Inr (plaintext, pos))
      else
        let frame_start = pos + 4; ct_start = frame_start + 12; ct_end = frame_start + chunk_len;
            ct = slice ct_start ct_end (sh_buf s);
            s1 = s\<lparr>sh_hmac := Hmac_update ct (Hmac_update (u32_to_le (sh_chunk_index s)) (sh_hmac s))\<rparr>
        in case aes_gcm_decrypt P ct (v7_chunk_nonce (sh_file_iv s) (sh_chunk_index s)) (sh_content_key s) of
             Inl e \<Rightarrow> (s1, Inl e)
           | Inr chunk_pt \<Rightarrow>
               (case checked_add1_u32 (sh_chunk_index s) of
                  None \<Rightarrow> (s1, Inl (InvalidFormat ''V7 decrypt: chunk_index overflow (>2^32 chunks)''))
                | Some i \<Rightarrow> ShareDecryptor_loop P ct_end (plaintext @ chunk_pt) (s1\<lparr>sh_chunk_index := i\<rparr>)))"
  by pat_completeness auto
termination
  by (relation "measure (\<lambda>(P, pos, plaintext, s). length (sh_buf s) - pos)") auto

declare ShareDecryptor_loop.simps [simp del]

definition ShareDecryptor_push ::
  "prims \<Rightarrow> V7ShareDecryptor \<Rightarrow> bytes \<Rightarrow> V7ShareDecryptor \<times> (CryptoError + bytes)" where
  "ShareDecryptor_push P s data =
     (let s0 = s\<lparr>sh_buf := sh_buf s @ data\<rparr> in
      case ShareDecryptor_loop P 0 [] s0 of
        (s1, Inl e) \<Rightarrow> (s1, Inl e)
      | (s1, Inr (plaintext, pos)) \<Rightarrow>
          (if pos > 0 then s1\<lparr>sh_buf := drop pos (sh_buf s1)\<rparr> else s1, Inr plaintext))"

definition ShareDecryptor_finalize :: "prims \<Rightarrow> V7ShareDecryptor \<Rightarrow> bytes \<Rightarrow> CryptoError + unit" where
  "ShareDecryptor_finalize P s stored_hmac =
     (if sh_buf s \<noteq> [] then Inl (InvalidFormat ''v7 stream ended mid-frame'')
      else if length stored_hmac \<noteq> V7_FOOTER_LEN then Inl (InvalidFormat ''v7 footer wrong length'')
      else let computed = Hmac_finalize P (sh_hmac s) in
      if constant_time_eq computed stored_hmac then Inr () else Inl MacVerificationFailed)"

subsection \<open>Manifest encryption for share links\<close>

text \<open>
  The loop of \<open>encrypt_manifest_v7\<close> over \<open>offset\<close>, with the bytes written so far and the MAC; it
  runs at least once, so that an empty manifest still has one frame.
\<close>

definition MANIFEST_CHUNK_SIZE :: nat where "MANIFEST_CHUNK_SIZE = 512 * 1024"

function manifest_loop ::
  "prims \<Rightarrow> bytes \<Rightarrow> bytes \<Rightarrow> bytes \<Rightarrow> u32 \<Rightarrow> nat \<Rightarrow> Hmac \<Rightarrow> bytes \<Rightarrow> CryptoError + Hmac \<times> bytes" where
  "manifest_loop P manifest content_key file_iv chunk_index offset hmac out =
     (let end_pos = min (offset + MANIFEST_CHUNK_SIZE) (length manifest);
          plaintext = slice offset end_pos manifest in
      and_then (encrypt_file_v7_chunk P plaintext content_key file_iv chunk_index) (\<lambda>ct.
      let nonce = v7_chunk_nonce file_iv chunk_index;
          hmac' = Hmac_update ct (Hmac_update (u32_to_le chunk_index) hmac);
          out' = out @ frame_bytes nonce ct in
      case checked_add1_u32 chunk_index of
        None \<Rightarrow> Inl (InvalidFormat ''V7 manifest encrypt: chunk_index overflow'')
      | Some i \<Rightarrow>
          if end_pos \<ge> length manifest then Inr (hmac', out')
          else manifest_loop P manifest content_key file_iv i end_pos hmac' out'))"
  by pat_completeness auto
termination
  by (relation "measure (\<lambda>(P, m, k, iv, i, offset, h, out). length m - offset)")
    (auto simp: MANIFEST_CHUNK_SIZE_def)

declare manifest_loop.simps [simp del]

definition encrypt_manifest_v7 :: "prims \<Rightarrow> bytes \<Rightarrow> bytes \<Rightarrow> bytes \<Rightarrow> CryptoError + bytes" where
  "encrypt_manifest_v7 P file_iv manifest content_key =
     (let key_commitment = blake2b_256 P (content_key @ file_iv);
          out = [FILE_FORMAT_V7] @ file_iv @ replicate 32 0 @ replicate 1568 0 @
                u32_to_le 60 @ replicate 60 0 @ key_commitment in
      and_then (hkdf_sha256 P content_key CHUNK_HMAC_V1 32) (\<lambda>hmac_key.
      and_then (manifest_loop P manifest content_key file_iv 0 0 (Hmac_new hmac_key) out)
        (\<lambda>(hmac, out'). Inr (out' @ Hmac_finalize P hmac))))"

subsection \<open>One-shot encryption and decryption\<close>

text \<open>
  The loop over \<open>plaintext_chunks.iter().enumerate()\<close>: the index \<open>i as u32\<close> is not checked and
  wraps after \<open>2 ^ 32\<close> chunks.
\<close>

fun encrypt_chunks ::
  "prims \<Rightarrow> bytes \<Rightarrow> bytes \<Rightarrow> nat \<Rightarrow> bytes list \<Rightarrow> bytes \<Rightarrow> bytes \<Rightarrow> CryptoError + bytes \<times> bytes" where
  "encrypt_chunks P content_key file_iv i [] out hmac_input = Inr (out, hmac_input)"
| "encrypt_chunks P content_key file_iv i (chunk # chunks) out hmac_input =
     (let chunk_index = word_of_nat i in
      and_then (encrypt_file_v7_chunk P chunk content_key file_iv chunk_index) (\<lambda>ct.
      let nonce = v7_chunk_nonce file_iv chunk_index in
      encrypt_chunks P content_key file_iv (i + 1) chunks
        (out @ frame_bytes nonce ct) (hmac_input @ u32_to_le chunk_index @ ct)))"

definition encrypt_file_v7 :: "prims \<Rightarrow> file_rand \<Rightarrow> bytes \<Rightarrow> bytes \<Rightarrow> bytes list \<Rightarrow> CryptoError + bytes" where
  "encrypt_file_v7 P r mlkem_pub x25519_pub plaintext_chunks =
     and_then (encrypt_file_v7_init P r mlkem_pub x25519_pub) (\<lambda>init.
     and_then (encrypt_chunks P (ei_content_key init) (ei_file_iv init) 0 plaintext_chunks
                 (header_bytes init) []) (\<lambda>(out, hmac_input).
     and_then (compute_v7_hmac P (ei_content_key init) hmac_input) (\<lambda>hmac.
     Inr (out @ hmac))))"

text \<open>
  A computation that may also panic: \<open>Panic\<close> is Rust's out-of-range slice.  The loop reads the
  nonce from the wire instead of deriving it.
\<close>

datatype 'a outcome = Panic | Done 'a

function decrypt_chunks ::
  "prims \<Rightarrow> bytes \<Rightarrow> bytes \<Rightarrow> nat \<Rightarrow> u32 \<Rightarrow> bytes \<Rightarrow> bytes \<Rightarrow> (CryptoError + nat \<times> bytes \<times> bytes) outcome" where
  "decrypt_chunks P content_key encrypted pos chunk_index plaintext hmac_input =
     (if pos + V7_FOOTER_LEN < length encrypted then
        if pos + 4 > length encrypted then Done (Inl (InvalidFormat ''truncated chunk_len''))
        else
          let chunk_len = unat (u32_from_le (slice pos (pos + 4) encrypted)); pos1 = pos + 4 in
          if pos1 + chunk_len > length encrypted then Done (Inl (InvalidFormat ''truncated chunk''))
          else if pos1 + 12 > length encrypted then Panic
          else if pos1 + 12 > pos1 + chunk_len then Panic
          else
            let nonce_bytes = slice pos1 (pos1 + 12) encrypted;
                ct = slice (pos1 + 12) (pos1 + chunk_len) encrypted;
                hmac_input' = hmac_input @ u32_to_le chunk_index @ ct in
            case and_then (Nonce12_from_slice nonce_bytes) (\<lambda>nonce. aes_gcm_decrypt P ct nonce content_key) of
              Inl e \<Rightarrow> Done (Inl e)
            | Inr chunk_pt \<Rightarrow>
                decrypt_chunks P content_key encrypted (pos1 + chunk_len) (chunk_index + 1)
                  (plaintext @ chunk_pt) hmac_input'
      else Done (Inr (pos, plaintext, hmac_input)))"
  by pat_completeness auto
termination
  by (relation "measure (\<lambda>(P, k, enc, pos, i, pt, h). length enc - pos)") (auto simp: V7_FOOTER_LEN_def)

declare decrypt_chunks.simps [simp del]

definition decrypt_file_v7 :: "prims \<Rightarrow> bytes \<Rightarrow> bytes \<Rightarrow> bytes \<Rightarrow> (CryptoError + bytes) outcome" where
  "decrypt_file_v7 P encrypted mlkem_sec x25519_sec =
     (case decrypt_file_v7_init P encrypted mlkem_sec x25519_sec of
        Inl e \<Rightarrow> Done (Inl e)
      | Inr init \<Rightarrow>
          (case decrypt_chunks P (di_content_key init) encrypted (di_header_end init) 0 [] [] of
             Panic \<Rightarrow> Panic
           | Done (Inl e) \<Rightarrow> Done (Inl e)
           | Done (Inr (pos, plaintext, hmac_input)) \<Rightarrow>
               if pos + V7_FOOTER_LEN \<noteq> length encrypted
               then Done (Inl (InvalidFormat ''unexpected trailing bytes''))
               else Done (and_then (compute_v7_hmac P (di_content_key init) hmac_input) (\<lambda>computed_hmac.
                 if \<not> constant_time_eq computed_hmac (slice pos (pos + V7_FOOTER_LEN) encrypted)
                 then Inl MacVerificationFailed else Inr plaintext))))"

subsection \<open>Size formula and footer trimmer\<close>

text \<open>\<open>u64\<close> arithmetic; \<open>div_ceil\<close> panics on a zero chunk size.\<close>

definition v7_cipher_size :: "nat \<Rightarrow> u32 \<Rightarrow> nat outcome" where
  "v7_cipher_size plaintext_len chunk_size =
     (if plaintext_len = 0 then Done (V7_HEADER_MIN + V7_FOOTER_LEN)
      else if chunk_size = 0 then Panic
      else let cs = unat chunk_size; n = (plaintext_len + cs - 1) div cs in
      Done ((V7_HEADER_MIN + n * V7_FRAME_OVERHEAD + plaintext_len + V7_FOOTER_LEN) mod 2 ^ 64))"

record FooterTrimmer =
  t_trailing :: bytes
  t_keep :: nat

definition FooterTrimmer_new :: "nat \<Rightarrow> FooterTrimmer" where
  "FooterTrimmer_new keep = \<lparr>t_trailing = [], t_keep = keep\<rparr>"

definition FooterTrimmer_push :: "FooterTrimmer \<Rightarrow> bytes \<Rightarrow> FooterTrimmer \<times> bytes" where
  "FooterTrimmer_push t bs =
     (let trailing = t_trailing t @ bs in
      if length trailing > t_keep t then
        let release_len = length trailing - t_keep t;
            released = take release_len trailing
        in (t\<lparr>t_trailing := drop release_len trailing\<rparr>, released)
      else (t\<lparr>t_trailing := trailing\<rparr>, []))"

definition FooterTrimmer_finalize :: "FooterTrimmer \<Rightarrow> CryptoError + bytes \<times> bytes" where
  "FooterTrimmer_finalize t =
     (if length (t_trailing t) < t_keep t then
        Inl (InvalidFormat (''stream too short for footer: got '' @ show_nat (length (t_trailing t)) @
               '' bytes, need '' @ show_nat (t_keep t)))
      else let split = length (t_trailing t) - t_keep t in
        Inr (take split (t_trailing t), drop split (t_trailing t)))"

subsection \<open>The reference decoder\<close>

text \<open>
  Frames are read off the front of the unread bytes until they do not hold a complete frame.  The
  result is the chunk index and MAC reached, with an error or the output and the unread rest.
\<close>

function decode_body ::
  "prims \<Rightarrow> bytes \<Rightarrow> bytes \<Rightarrow> u32 \<Rightarrow> Hmac \<Rightarrow> bytes \<Rightarrow> bytes \<Rightarrow> (u32 \<times> Hmac) \<times> (CryptoError + bytes \<times> bytes)" where
  "decode_body P iv key i h pt rest =
     (if length rest < 4 then ((i, h), Inr (pt, rest))
      else let n = unat (u32_from_le (take 4 rest)) in
      if n < 12 then ((i, h), Inl (InvalidFormat ''v7 chunk_len too small''))
      else if length rest < 4 + n then ((i, h), Inr (pt, rest))
      else
        let ct = slice 16 (4 + n) rest; h' = Hmac_update ct (Hmac_update (u32_to_le i) h) in
        case aes_gcm_decrypt P ct (v7_chunk_nonce iv i) key of
          Inl e \<Rightarrow> ((i, h'), Inl e)
        | Inr p \<Rightarrow>
            (case checked_add1_u32 i of
               None \<Rightarrow> ((i, h'), Inl (InvalidFormat ''V7 decrypt: chunk_index overflow (>2^32 chunks)''))
             | Some i' \<Rightarrow> decode_body P iv key i' h' (pt @ p) (drop (4 + n) rest)))"
  by pat_completeness auto
termination
  by (relation "measure (\<lambda>(P, iv, key, i, h, pt, rest). length rest)") auto

declare decode_body.simps [simp del]

lemma decode_body_acc:
  "decode_body P iv key i h (p0 @ pt) rest =
     (case decode_body P iv key i h pt rest of
        (ih, Inl e) \<Rightarrow> (ih, Inl e)
      | (ih, Inr (pt', rest')) \<Rightarrow> (ih, Inr (p0 @ pt', rest')))"
proof (induction P iv key i h pt rest rule: decode_body.induct)
  case (1 P iv key i h pt rest)
  show ?case
    using 1 by (subst (1 2) decode_body.simps)
      (simp add: Let_def split: sum.splits option.splits)
qed

lemma decode_body_suffix:
  "decode_body P iv key i h pt rest = (ih, Inr (pt', rest')) \<Longrightarrow>
     length rest' \<le> length rest \<and> rest' = drop (length rest - length rest') rest"
proof (induction P iv key i h pt rest rule: decode_body.induct)
  case (1 P iv key i h pt rest)
  show ?case
    using 1(2) 1(1)
    by (subst (asm) decode_body.simps)
      (fastforce simp: Let_def split: if_splits sum.splits option.splits)
qed

lemma decode_body_append:
  "decode_body P iv key i h pt (a @ b) =
     (case decode_body P iv key i h pt a of
        (ih, Inl e) \<Rightarrow> (ih, Inl e)
      | ((i', h'), Inr (pt', rest)) \<Rightarrow> decode_body P iv key i' h' pt' (rest @ b))"
proof (induction P iv key i h pt a rule: decode_body.induct)
  case (1 P iv key i h pt a)
  define n where "n = unat (u32_from_le (take 4 a))"
  show ?case
  proof (cases "length a < 4 \<or> \<not> n < 12 \<and> length a < 4 + n")
    case True
    then have "decode_body P iv key i h pt a = ((i, h), Inr (pt, a))"
      by (subst decode_body.simps) (auto simp: Let_def n_def)
    then show ?thesis by simp
  next
    case False
    then have four: "take 4 (a @ b) = take 4 a" by simp
    show ?thesis
    proof (cases "n < 12")
      case True
      then show ?thesis using False
        by (subst (1 2) decode_body.simps) (simp add: Let_def four flip: n_def)
    next
      case big: False
      define ct where "ct = slice 16 (4 + n) a"
      have ct: "slice 16 (4 + n) (a @ b) = ct"
        using False big by (simp add: ct_def slice_def)
      have dr: "drop (4 + n) (a @ b) = drop (4 + n) a @ b" using False big by simp
      have la: "\<not> length (a @ b) < 4" "\<not> length (a @ b) < 4 + n" "\<not> length a < 4" "\<not> length a < 4 + n"
        using False big by auto
      note IH = 1 [OF la(3) n_def _ _ ct_def refl, OF big la(4)]
      show ?thesis
        by (subst (1 2) decode_body.simps)
          (simp only: Let_def four ct dr la big if_False IH flip: n_def ct_def, simp add: IH split: sum.split option.split)
    qed
  qed
qed

lemma StreamDecryptor_loop_decode:
  assumes "pos \<le> length (d_buf s)"
  shows "StreamDecryptor_loop P pos pt s =
     (case decode_body P (d_file_iv s) (d_content_key s) (d_chunk_index s) (d_hmac s) pt (drop pos (d_buf s)) of
        ((i, h), Inl e) \<Rightarrow> (s\<lparr>d_hmac := h, d_chunk_index := i\<rparr>, Inl e)
      | ((i, h), Inr (pt', rest)) \<Rightarrow>
          (s\<lparr>d_hmac := h, d_chunk_index := i\<rparr>, Inr (pt', length (d_buf s) - length rest)))"
  using assms
proof (induction P pos pt s rule: StreamDecryptor_loop.induct)
  case (1 P pos pt s)
  let ?rest = "drop pos (d_buf s)"
  define n where "n = unat (u32_from_le (take 4 ?rest))"
  have n': "unat (u32_from_le (slice pos (pos + 4) (d_buf s))) = n"
    by (simp add: n_def slice_def)
  show ?case
  proof (cases "length ?rest < 4 \<or> n < 12 \<or> length ?rest < 4 + n")
    case True
    then show ?thesis
      using 1(2) by (subst StreamDecryptor_loop.simps, subst decode_body.simps)
        (auto simp: Let_def n' simp flip: n_def)
  next
    case False
    define ct where "ct = slice 16 (4 + n) ?rest"
    have ct': "slice (pos + 4 + 12) (pos + 4 + n) (d_buf s) = ct"
      by (simp add: ct_def slice_drop add.assoc)
    have ct'': "slice (16 + pos) (pos + 4 + n) (d_buf s) = ct"
      using ct' by (simp add: add.commute)
    have dr: "drop (4 + n + pos) (d_buf s) = drop (pos + 4 + n) (d_buf s)"
      by (simp add: add.commute add.left_commute)
    have le: "pos + 4 + n \<le> length (d_buf s)" using False 1(2) by auto
    note IH = 1(1) [unfolded n', OF _ refl _ _ refl refl refl refl refl, unfolded ct']
    show ?thesis
    proof (cases "aes_gcm_decrypt P ct (v7_chunk_nonce (d_file_iv s) (d_chunk_index s)) (d_content_key s)")
      case (Inl e)
      then show ?thesis
        using False le by (subst StreamDecryptor_loop.simps, subst decode_body.simps)
          (simp add: Let_def n' ct'' flip: n_def ct_def)
    next
      case (Inr p)
      show ?thesis
      proof (cases "checked_add1_u32 (d_chunk_index s)")
        case None
        then show ?thesis
          using False le Inr by (subst StreamDecryptor_loop.simps, subst decode_body.simps)
            (simp add: Let_def n' ct'' flip: n_def ct_def)
      next
        case (Some i')
        then show ?thesis
          using False le Inr IH [OF _ _ _ Inr Some]
          by (subst StreamDecryptor_loop.simps, subst decode_body.simps)
            (simp add: Let_def n' ct'' dr flip: n_def ct_def split: prod.split sum.split)
      qed
    qed
  qed
qed

subsection \<open>The loops agree with the reference\<close>

text \<open>One call of \<open>push\<close> is one run of the reference decoder over the buffered and the new bytes.\<close>

lemma StreamDecryptor_push_decode:
  "StreamDecryptor_push P s data =
     (case decode_body P (d_file_iv s) (d_content_key s) (d_chunk_index s) (d_hmac s) [] (d_buf s @ data) of
        ((i, h), Inl e) \<Rightarrow> (s\<lparr>d_hmac := h, d_chunk_index := i, d_buf := d_buf s @ data\<rparr>, Inl e)
      | ((i, h), Inr (pt, rest)) \<Rightarrow> (s\<lparr>d_hmac := h, d_chunk_index := i, d_buf := rest\<rparr>, Inr pt))"
proof -
  obtain i h r where run: "decode_body P (d_file_iv s) (d_content_key s) (d_chunk_index s) (d_hmac s)
      [] (d_buf s @ data) = ((i, h), r)"
    by (metis surj_pair)
  show ?thesis
  proof (cases r)
    case (Inl e)
    then show ?thesis
      using run by (simp add: StreamDecryptor_push_def StreamDecryptor_loop_decode)
  next
    case (Inr y)
    obtain pt rest where y: "y = (pt, rest)" by (cases y)
    from decode_body_suffix [OF run [unfolded Inr y]]
    have suf: "drop (length (d_buf s) + length data - length rest) (d_buf s @ data) = rest"
      by (simp only: length_append)
    then have "rest = d_buf s @ data" if "length (d_buf s) + length data \<le> length rest"
      using that by simp
    then show ?thesis
      using run suf by (auto simp: StreamDecryptor_push_def StreamDecryptor_loop_decode Inr y Let_def simp del: drop_append)
  qed
qed

lemma StreamDecryptor_feed_append:
  "feed_of (StreamDecryptor_push P) s (a @ b) =
     and_then (feed_of (StreamDecryptor_push P) s a) (\<lambda>(s1, o1).
     and_then (feed_of (StreamDecryptor_push P) s1 b) (\<lambda>(s2, o2). Inr (s2, o1 @ o2)))"
proof -
  let ?D = "decode_body P (d_file_iv s) (d_content_key s)"
  obtain i h r where run: "?D (d_chunk_index s) (d_hmac s) [] (d_buf s @ a) = ((i, h), r)"
    by (metis surj_pair)
  have split: "?D (d_chunk_index s) (d_hmac s) [] (d_buf s @ a @ b) =
    (case r of Inl e \<Rightarrow> ((i, h), Inl e) | Inr (pt, rest) \<Rightarrow> ?D i h pt (rest @ b))"
    using decode_body_append [of P "d_file_iv s" "d_content_key s" "d_chunk_index s" "d_hmac s" "[]" "d_buf s @ a" b]
    by (simp add: run split: sum.split)
  have acc: "?D i h pt rest = (case ?D i h [] rest of
      (ih, Inl e) \<Rightarrow> (ih, Inl e) | (ih, Inr (pt', rest')) \<Rightarrow> (ih, Inr (pt @ pt', rest')))" for pt rest
    using decode_body_acc [of P "d_file_iv s" "d_content_key s" i h pt "[]" rest] by simp
  show ?thesis
  proof (cases r)
    case (Inl e)
    then show ?thesis by (simp add: feed_of_def StreamDecryptor_push_decode run split)
  next
    case (Inr y)
    obtain pt rest where y: "y = (pt, rest)" by (cases y)
    obtain i2 h2 r2 where run2: "?D i h [] (rest @ b) = ((i2, h2), r2)" by (metis surj_pair)
    show ?thesis
      by (cases r2) (auto simp: feed_of_def StreamDecryptor_push_decode run split Inr y
          run2 acc [of pt "rest @ b"])
  qed
qed

interpretation stream_dec: stream_consumer "feed_of (StreamDecryptor_push P)" for P
  by unfold_locales (rule StreamDecryptor_feed_append)

definition share_view :: "V7StreamDecryptor \<Rightarrow> V7ShareDecryptor" where
  "share_view s = \<lparr>sh_file_iv = d_file_iv s, sh_content_key = d_content_key s, sh_hmac = d_hmac s,
     sh_chunk_index = d_chunk_index s, sh_buf = d_buf s\<rparr>"

lemma share_view_sel [simp]:
  "sh_file_iv (share_view s) = d_file_iv s" "sh_content_key (share_view s) = d_content_key s"
  "sh_hmac (share_view s) = d_hmac s" "sh_chunk_index (share_view s) = d_chunk_index s"
  "sh_buf (share_view s) = d_buf s"
  by (simp_all add: share_view_def)

lemma share_view_upd:
  "(share_view s)\<lparr>sh_hmac := h\<rparr> = share_view (s\<lparr>d_hmac := h\<rparr>)"
  "(share_view s)\<lparr>sh_chunk_index := i\<rparr> = share_view (s\<lparr>d_chunk_index := i\<rparr>)"
  "(share_view s)\<lparr>sh_buf := b\<rparr> = share_view (s\<lparr>d_buf := b\<rparr>)"
  by (simp_all add: share_view_def)

lemma ShareDecryptor_loop_view:
  "ShareDecryptor_loop P pos pt (share_view s) = map_prod share_view id (StreamDecryptor_loop P pos pt s)"
proof (induction P pos pt s rule: StreamDecryptor_loop.induct)
  case (1 P pos pt s)
  define n where "n = unat (u32_from_le (slice pos (pos + 4) (d_buf s)))"
  show ?case
  proof (cases "length (d_buf s) - pos < 4 \<or> n < 12 \<or> length (d_buf s) - pos < 4 + n")
    case True
    then show ?thesis
      by (subst ShareDecryptor_loop.simps, subst StreamDecryptor_loop.simps) (auto simp: Let_def n_def)
  next
    case False
    define ct where "ct = slice (pos + 4 + 12) (pos + 4 + n) (d_buf s)"
    have ct': "slice (16 + pos) (pos + 4 + n) (d_buf s) = ct"
      by (simp add: ct_def add.commute)
    note IH = 1 [OF _ n_def _ _ refl refl refl ct_def refl]
    show ?thesis
      using False
      by (subst ShareDecryptor_loop.simps, subst StreamDecryptor_loop.simps)
        (simp add: Let_def IH ct' share_view_upd id_def flip: n_def split: sum.split option.split)
  qed
qed

lemma ShareDecryptor_push_view:
  "ShareDecryptor_push P (share_view s) data = map_prod share_view id (StreamDecryptor_push P s data)"
  by (auto simp: ShareDecryptor_push_def StreamDecryptor_push_def Let_def share_view_upd
      ShareDecryptor_loop_view map_prod_def split: prod.split sum.split)

lemma share_view_surj: "\<exists>s. sh = share_view s"
proof
  show "sh = share_view \<lparr>d_file_iv = sh_file_iv sh, d_content_key = sh_content_key sh,
    d_hmac = sh_hmac sh, d_chunk_index = sh_chunk_index sh, d_buf = sh_buf sh\<rparr>"
    by (simp add: share_view_def)
qed

lemma ShareDecryptor_feed_view:
  "feed_of (ShareDecryptor_push P) (share_view s) d =
     and_then (feed_of (StreamDecryptor_push P) s d) (\<lambda>(s', pt). Inr (share_view s', pt))"
  by (simp add: feed_of_def ShareDecryptor_push_view split: prod.split sum.split)

interpretation share_dec: stream_consumer "feed_of (ShareDecryptor_push P)" for P
proof
  fix sh a b
  obtain s where sh: "sh = share_view s" using share_view_surj by blast
  show "feed_of (ShareDecryptor_push P) sh (a @ b) =
     and_then (feed_of (ShareDecryptor_push P) sh a) (\<lambda>(s1, o1).
     and_then (feed_of (ShareDecryptor_push P) s1 b) (\<lambda>(s2, o2). Inr (s2, o1 @ o2)))"
    by (auto simp: sh ShareDecryptor_feed_view StreamDecryptor_feed_append and_then_def split: sum.split)
qed

subsection \<open>Encryption and decryption of frames\<close>

text \<open>The state an encryptor reaches, and the frames it emits, by feeding it one chunk at a time.\<close>

abbreviation encrypt_all :: "prims \<Rightarrow> V7StreamEncryptor \<Rightarrow> bytes list \<Rightarrow> CryptoError + V7StreamEncryptor \<times> bytes" where
  "encrypt_all P \<equiv> feed_all (feed_of (StreamEncryptor_push P))"

definition chunk_ok :: "bytes \<Rightarrow> bool" where
  "chunk_ok c \<longleftrightarrow> length c + 28 < 2 ^ 32"

lemma StreamEncryptor_feedD:
  assumes "feed_of (StreamEncryptor_push P) e c = Inr (e', fr)"
  obtains ct where "length (e_content_key e) = 32"
    and "aead_seal P (e_content_key e) (v7_chunk_nonce (e_file_iv e) (e_chunk_index e)) c = Some ct"
    and "checked_add1_u32 (e_chunk_index e) = Some (e_chunk_index e')"
    and "e' = e\<lparr>e_hmac := Hmac_update ct (Hmac_update (u32_to_le (e_chunk_index e)) (e_hmac e)),
                 e_chunk_index := e_chunk_index e'\<rparr>"
    and "fr = frame_bytes (v7_chunk_nonce (e_file_iv e) (e_chunk_index e)) ct"
  using assms
  by (auto simp: feed_of_def StreamEncryptor_push_def encrypt_file_v7_chunk_def
      aes_gcm_encrypt_with_nonce_def Let_def ok_or_def split: if_splits sum.splits option.splits)

lemma decode_frame:
  assumes "aead_correct P" and "length key = 32" and "length iv = 12" and "chunk_ok c"
    and "aead_seal P key (v7_chunk_nonce iv i) c = Some ct" and "checked_add1_u32 i = Some i'"
  shows "decode_body P iv key i h pt (frame_bytes (v7_chunk_nonce iv i) ct @ rest) =
    decode_body P iv key i' (Hmac_update ct (Hmac_update (u32_to_le i) h)) (pt @ c) rest"
proof -
  let ?fr = "frame_bytes (v7_chunk_nonce iv i) ct"
  note aead = aead_correct_sealD [OF assms(1) assms(5)]
  have lt: "12 + length ct < 2 ^ 32" using aead(1) assms(4) by (simp add: chunk_ok_def)
  have n: "unat (u32_from_le (take 4 (?fr @ rest))) = 12 + length ct"
    using lt by (simp add: frame_bytes_def unat_of_nat del: of_nat_add)
  have ct: "slice 16 (4 + (12 + length ct)) (?fr @ rest) = ct"
    using assms(3) by (simp add: frame_bytes_def slice_def)
  have dr: "drop (4 + (12 + length ct)) (?fr @ rest) = rest"
    using assms(3) by (simp add: frame_bytes_def)
  have len: "\<not> length (?fr @ rest) < 4" "\<not> length (?fr @ rest) < 4 + (12 + length ct)"
    using assms(3) by (simp_all add: frame_bytes_def)
  have open_ct: "aes_gcm_decrypt P ct (v7_chunk_nonce iv i) key = Inr c"
    using aead(2) assms(2) by (simp add: aes_gcm_decrypt_def)
  show ?thesis
    by (subst decode_body.simps) (simp only: n ct dr len Let_def if_False open_ct sum.case assms(6) option.case, simp)
qed

lemma length_frame_bytes: "length (frame_bytes nonce ct) = 4 + length nonce + length ct"
  by (simp add: frame_bytes_def)

lemma encrypt_all_decode:
  assumes "aead_correct P" and "length (e_file_iv e) = 12" and "list_all chunk_ok cs"
    and "encrypt_all P e cs = Inr (e', frs)"
  shows "decode_body P (e_file_iv e) (e_content_key e) (e_chunk_index e) (e_hmac e) pt (frs @ rest) =
      decode_body P (e_file_iv e) (e_content_key e) (e_chunk_index e') (e_hmac e') (pt @ concat cs) rest
    \<and> length frs = sum_list (map (\<lambda>c. length c + V7_FRAME_OVERHEAD) cs)
    \<and> e_file_iv e' = e_file_iv e \<and> e_content_key e' = e_content_key e"
  using assms(2-4)
proof (induction cs arbitrary: e pt frs)
  case Nil
  then show ?case by simp
next
  case (Cons c cs)
  then obtain e1 fr frs1 where step: "feed_of (StreamEncryptor_push P) e c = Inr (e1, fr)"
    and tail: "encrypt_all P e1 cs = Inr (e', frs1)" and frs: "frs = fr @ frs1"
    by (auto simp: and_then_Inr_conv)
  from step obtain ct where key: "length (e_content_key e) = 32"
    and seal: "aead_seal P (e_content_key e) (v7_chunk_nonce (e_file_iv e) (e_chunk_index e)) c = Some ct"
    and idx: "checked_add1_u32 (e_chunk_index e) = Some (e_chunk_index e1)"
    and e1: "e1 = e\<lparr>e_hmac := Hmac_update ct (Hmac_update (u32_to_le (e_chunk_index e)) (e_hmac e)),
                    e_chunk_index := e_chunk_index e1\<rparr>"
    and fr: "fr = frame_bytes (v7_chunk_nonce (e_file_iv e) (e_chunk_index e)) ct"
    by (rule StreamEncryptor_feedD)
  have e1': "e_file_iv e1 = e_file_iv e" "e_content_key e1 = e_content_key e"
    "e_hmac e1 = Hmac_update ct (Hmac_update (u32_to_le (e_chunk_index e)) (e_hmac e))"
    by (subst e1, simp)+
  have c: "chunk_ok c" and cs: "list_all chunk_ok cs" using Cons.prems by simp_all
  have "length ct = length c + 16" using aead_correct_sealD [OF assms(1) seal] by simp
  then have "length fr = length c + V7_FRAME_OVERHEAD"
    using Cons.prems(1) by (simp add: fr length_frame_bytes V7_FRAME_OVERHEAD_def)
  moreover note Cons.IH [OF _ cs tail, unfolded e1', OF Cons.prems(1), of "pt @ c"]
  moreover have "decode_body P (e_file_iv e) (e_content_key e) (e_chunk_index e) (e_hmac e) pt (fr @ frs1 @ rest)
      = decode_body P (e_file_iv e) (e_content_key e) (e_chunk_index e1)
          (Hmac_update ct (Hmac_update (u32_to_le (e_chunk_index e)) (e_hmac e))) (pt @ c) (frs1 @ rest)"
    unfolding fr by (rule decode_frame [OF assms(1) key Cons.prems(1) c seal idx])
  ultimately show ?case by (simp add: frs)
qed

lemma checked_add1_u32_ok: "unat i + 1 < 2 ^ 32 \<Longrightarrow> checked_add1_u32 i = Some (i + 1) \<and> unat (i + 1) = unat i + 1"
  using checked_add1_u32_unat [of i "i + 1"] by (simp add: checked_add1_u32_def)

lemma encrypt_all_total:
  assumes "aead_correct P" and "length (e_file_iv e) = 12" and "length (e_content_key e) = 32"
    and "list_all chunk_ok cs" and "unat (e_chunk_index e) + length cs < 2 ^ 32"
  shows "\<exists>e' frs. encrypt_all P e cs = Inr (e', frs)"
  using assms(2-)
proof (induction cs arbitrary: e)
  case Nil
  then show ?case by simp
next
  case (Cons c cs)
  have "length c \<le> aead_limit" using Cons.prems(3) by (simp add: chunk_ok_def)
  then obtain ct where ct: "aead_seal P (e_content_key e) (v7_chunk_nonce (e_file_iv e) (e_chunk_index e)) c = Some ct"
    using aead_correct_sealE [OF assms(1) Cons.prems(2), of "v7_chunk_nonce (e_file_iv e) (e_chunk_index e)" c]
      Cons.prems(1) by auto
  have idx: "checked_add1_u32 (e_chunk_index e) = Some (e_chunk_index e + 1)"
    and un: "unat (e_chunk_index e + 1) = unat (e_chunk_index e) + 1"
    using checked_add1_u32_ok [of "e_chunk_index e"] Cons.prems(4) by simp_all
  define e1 where "e1 = e\<lparr>e_hmac := Hmac_update ct (Hmac_update (u32_to_le (e_chunk_index e)) (e_hmac e)),
    e_chunk_index := e_chunk_index e + 1\<rparr>"
  have step: "\<exists>fr. feed_of (StreamEncryptor_push P) e c = Inr (e1, fr)"
    using Cons.prems(2) by (simp add: feed_of_def StreamEncryptor_push_def encrypt_file_v7_chunk_def
        aes_gcm_encrypt_with_nonce_def ct idx Let_def e1_def)
  have "\<exists>e' frs. encrypt_all P e1 cs = Inr (e', frs)"
    using Cons.prems by (intro Cons.IH) (simp_all add: e1_def un)
  then show ?case using step by (auto simp: and_then_Inr_conv)
qed

subsection \<open>Header round trips\<close>

lemma encrypt_file_v7_init_ok:
  assumes "aead_correct P" and "mac_lengths P"
    and "kem_correct P mlkem_pub mlkem_sec x25519_pub x25519_sec" and "file_rand_ok r"
  obtains init where "encrypt_file_v7_init P r mlkem_pub x25519_pub = Inr init"
    and "ei_file_iv init = rnd_file_iv r" and "ei_content_key init = rnd_content_key (rnd_encap r)"
    and "length (header_bytes init) = V7_HEADER_MIN"
    and "\<And>rest. decrypt_file_v7_init P (header_bytes init @ rest) mlkem_sec x25519_sec =
      Inr \<lparr>di_file_iv = rnd_file_iv r, di_content_key = rnd_content_key (rnd_encap r), di_header_end = 1709\<rparr>"
    and "\<exists>mid. length mid = 1664 \<and> header_bytes init = [FILE_FORMAT_V7] @ rnd_file_iv r @ mid
      @ blake2b_256 P (rnd_content_key (rnd_encap r) @ rnd_file_iv r)"
proof -
  let ?ck = "rnd_content_key (rnd_encap r)" and ?iv = "rnd_file_iv r"
  from assms(4) have rr: "encap_rand_ok (rnd_encap r)" and iv: "length ?iv = 12"
    by (simp_all add: file_rand_ok_def)
  obtain e where e: "hybrid_encapsulate_v6 P (rnd_encap r) mlkem_pub x25519_pub = Inr e"
    and l: "length (eph_x25519_pub e) = 32" "length (mlkem_ciphertext e) = 1568"
      "length (encrypted_file_key e) = 60"
    and ck: "enc_content_key e = ?ck"
    and dec: "hybrid_decapsulate_v6 P (eph_x25519_pub e) (mlkem_ciphertext e) (encrypted_file_key e)
           mlkem_sec x25519_sec = Inr (?ck, enc_hmac_key e)"
    by (rule hybrid_encapsulate_v6_ok [OF assms(1-3) rr])
  define init where "init = \<lparr>ei_file_iv = ?iv, ei_eph_x25519_pub = eph_x25519_pub e,
              ei_mlkem_ct = mlkem_ciphertext e, ei_encrypted_file_key = encrypted_file_key e,
              ei_key_commitment = blake2b_256 P (?ck @ ?iv), ei_content_key = ?ck\<rparr>"
  have kc: "length (blake2b_256 P (?ck @ ?iv)) = 32"
    using mac_lengths_simps [OF assms(2)] by (simp add: blake2b_256_def)
  have hdr: "header_bytes init = [FILE_FORMAT_V7] @ ?iv @ eph_x25519_pub e @ mlkem_ciphertext e @
     u32_to_le 60 @ encrypted_file_key e @ blake2b_256 P (?ck @ ?iv)"
    by (simp add: header_bytes_def init_def l)
  have parts: "slice 1 13 (header_bytes init @ rest) = ?iv"
    "slice 13 45 (header_bytes init @ rest) = eph_x25519_pub e"
    "slice 45 1613 (header_bytes init @ rest) = mlkem_ciphertext e"
    "slice 1613 1617 (header_bytes init @ rest) = u32_to_le 60"
    "slice 1617 1677 (header_bytes init @ rest) = encrypted_file_key e"
    "slice 1677 1709 (header_bytes init @ rest) = blake2b_256 P (?ck @ ?iv)"
    "(header_bytes init @ rest) ! 0 = FILE_FORMAT_V7" for rest
    by (simp_all add: hdr slice_def iv l kc)
  have len: "length (header_bytes init) = 1709" by (simp add: hdr iv l kc)
  have sel: "ei_file_iv init = ?iv" "ei_content_key init = ?ck" by (simp_all add: init_def)
  show thesis
  proof (rule that [of init])
    show "encrypt_file_v7_init P r mlkem_pub x25519_pub = Inr init"
      by (simp add: encrypt_file_v7_init_def e ck init_def Let_def)
    show "decrypt_file_v7_init P (header_bytes init @ rest) mlkem_sec x25519_sec =
      Inr \<lparr>di_file_iv = ?iv, di_content_key = ?ck, di_header_end = 1709\<rparr>" for rest
      using iv by (simp add: decrypt_file_v7_init_def V7_HEADER_MIN_def Let_def parts parts [unfolded One_nat_def] len Nonce12_from_slice_def dec)
    show "\<exists>mid. length mid = 1664 \<and> header_bytes init = [FILE_FORMAT_V7] @ ?iv @ mid
      @ blake2b_256 P (?ck @ ?iv)"
      by (rule exI [of _ "eph_x25519_pub e @ mlkem_ciphertext e @ u32_to_le 60 @ encrypted_file_key e"])
        (simp add: hdr l)
  qed (simp_all add: sel len V7_HEADER_MIN_def)
qed


text \<open>The decryptor that an encryptor's header starts, before any frame is read.\<close>

definition decryptor_for :: "V7StreamEncryptor \<Rightarrow> V7StreamDecryptor" where
  "decryptor_for e = \<lparr>d_file_iv = e_file_iv e, d_content_key = e_content_key e, d_hmac = e_hmac e,
     d_chunk_index = e_chunk_index e, d_buf = []\<rparr>"

lemma StreamEncryptor_new_ok:
  assumes "aead_correct P" and "mac_lengths P"
    and "kem_correct P mlkem_pub mlkem_sec x25519_pub x25519_sec" and "file_rand_ok r"
  obtains e header hk where "StreamEncryptor_new P r mlkem_pub x25519_pub = Inr (e, header)"
    and "length header = V7_HEADER_MIN" and "e_file_iv e = rnd_file_iv r"
    and "e_content_key e = rnd_content_key (rnd_encap r)" and "e_chunk_index e = 0" 
    and "hkdf_sha256 P (e_content_key e) CHUNK_HMAC_V1 32 = Inr hk" and "e_hmac e = Hmac_new hk"
    and "\<And>rest. StreamDecryptor_new P (header @ rest) mlkem_sec x25519_sec =
           Inr ((decryptor_for e)\<lparr>d_buf := rest\<rparr>, V7_HEADER_MIN)"
    and "\<And>rest. ShareDecryptor_new P (header @ rest) (rnd_content_key (rnd_encap r)) =
           Inr (share_view ((decryptor_for e)\<lparr>d_buf := rest\<rparr>), V7_HEADER_MIN)"
    and "\<And>rest. decrypt_file_v7_init P (header @ rest) mlkem_sec x25519_sec =
      Inr \<lparr>di_file_iv = e_file_iv e, di_content_key = e_content_key e, di_header_end = 1709\<rparr>"
proof -
  let ?ck = "rnd_content_key (rnd_encap r)" and ?iv = "rnd_file_iv r"
  obtain init where init: "encrypt_file_v7_init P r mlkem_pub x25519_pub = Inr init"
    and iv: "ei_file_iv init = ?iv" and ck: "ei_content_key init = ?ck"
    and len: "length (header_bytes init) = V7_HEADER_MIN"
    and dec: "\<And>rest. decrypt_file_v7_init P (header_bytes init @ rest) mlkem_sec x25519_sec =
      Inr \<lparr>di_file_iv = ?iv, di_content_key = ?ck, di_header_end = 1709\<rparr>"
    and ex_mid: "\<exists>mid. length mid = 1664 \<and> header_bytes init = [FILE_FORMAT_V7] @ ?iv @ mid
      @ blake2b_256 P (?ck @ ?iv)"
    using encrypt_file_v7_init_ok [OF assms] by metis
  obtain hk where hk: "hkdf_sha256 P ?ck CHUNK_HMAC_V1 32 = Inr hk"
    using hkdf_sha256_ok [OF assms(2), of 32 ?ck CHUNK_HMAC_V1] by auto
  define e where "e = \<lparr>e_file_iv = ?iv, e_content_key = ?ck, e_hmac = Hmac_new hk, e_chunk_index = 0\<rparr>"
  have lens: "length ?iv = 12" "length ?ck = 32" "length (blake2b_256 P (?ck @ ?iv)) = 32"
    using assms(4) mac_lengths_simps [OF assms(2)]
    by (simp_all add: file_rand_ok_def encap_rand_ok_def blake2b_256_def)
  from ex_mid obtain mid where mid: "length mid = 1664"
    and shape: "header_bytes init = [FILE_FORMAT_V7] @ ?iv @ mid @ blake2b_256 P (?ck @ ?iv)"
    by blast
  have parts: "slice (Suc 0) 13 (header_bytes init @ rest) = ?iv"
    "slice 1677 1709 (header_bytes init @ rest) = blake2b_256 P (?ck @ ?iv)"
    "(header_bytes init @ rest) ! 0 = FILE_FORMAT_V7" for rest
    by (simp_all add: shape slice_def lens mid)
  note len' = len [unfolded V7_HEADER_MIN_def]
  show thesis
  proof (rule that [of e "header_bytes init" hk])
    show "StreamEncryptor_new P r mlkem_pub x25519_pub = Inr (e, header_bytes init)"
      by (simp add: StreamEncryptor_new_def init iv ck hk e_def)
    show "StreamDecryptor_new P (header_bytes init @ rest) mlkem_sec x25519_sec =
           Inr ((decryptor_for e)\<lparr>d_buf := rest\<rparr>, V7_HEADER_MIN)" for rest
      using dec [of "[]"]
      by (simp add: StreamDecryptor_new_def len hk decryptor_for_def e_def Let_def V7_HEADER_MIN_def len')
    show "ShareDecryptor_new P (header_bytes init @ rest) ?ck =
           Inr (share_view ((decryptor_for e)\<lparr>d_buf := rest\<rparr>), V7_HEADER_MIN)" for rest
      using lens
      by (simp add: ShareDecryptor_new_def parts hk decryptor_for_def e_def Let_def V7_HEADER_MIN_def len'
          Nonce12_from_slice_def SymmetricKey_from_slice_def share_view_def)
  qed (simp_all add: dec e_def hk len)
qed

subsection \<open>The footer trimmer\<close>

lemma FooterTrimmer_push_eq:
  "FooterTrimmer_push t bs =
     (let all = t_trailing t @ bs; n = length all - t_keep t in
      (t\<lparr>t_trailing := drop n all\<rparr>, take n all))"
  by (auto simp: FooterTrimmer_push_def Let_def)

abbreviation FooterTrimmer_feed :: "FooterTrimmer \<Rightarrow> bytes \<Rightarrow> CryptoError + FooterTrimmer \<times> bytes" where
  "FooterTrimmer_feed t bs \<equiv> Inr (FooterTrimmer_push t bs)"

lemma keep_last_append:
  fixes xs b :: "'a list" and k :: nat
  defines "n \<equiv> length xs - k"
  shows "take (length (xs @ b) - k) (xs @ b) = take n xs @ take (length (drop n xs @ b) - k) (drop n xs @ b)"
    and "drop (length (xs @ b) - k) (xs @ b) = drop (length (drop n xs @ b) - k) (drop n xs @ b)"
proof -
  have "take (length (xs @ b) - k) (xs @ b) = take n xs @ take (length (drop n xs @ b) - k) (drop n xs @ b) \<and>
    drop (length (xs @ b) - k) (xs @ b) = drop (length (drop n xs @ b) - k) (drop n xs @ b)"
  proof (cases "length xs \<le> k")
    case True
    then have "n = 0" by (simp add: n_def)
    then show ?thesis by simp
  next
    case False
    define x1 x2 where "x1 = take n xs" and "x2 = drop n xs"
    have xs: "xs = x1 @ x2" by (simp add: x1_def x2_def)
    have l: "length x1 = n" "length x2 = k" using False by (simp_all add: x1_def x2_def n_def)
    have "length (xs @ b) - k = n + length b" using False by (simp add: n_def)
    then show ?thesis by (simp add: xs l)
  qed
  then show "take (length (xs @ b) - k) (xs @ b) = take n xs @ take (length (drop n xs @ b) - k) (drop n xs @ b)"
    and "drop (length (xs @ b) - k) (xs @ b) = drop (length (drop n xs @ b) - k) (drop n xs @ b)"
    by blast+
qed

lemma FooterTrimmer_feed_append:
  "FooterTrimmer_feed t (a @ b) =
     and_then (FooterTrimmer_feed t a) (\<lambda>(t1, o1).
     and_then (FooterTrimmer_feed t1 b) (\<lambda>(t2, o2). Inr (t2, o1 @ o2)))"
  using keep_last_append [where xs = "t_trailing t @ a" and k = "t_keep t" and b = b]
  by (simp add: FooterTrimmer_push_eq Let_def del: take_append drop_append drop_drop length_append length_drop)

interpretation trimmer: stream_consumer FooterTrimmer_feed
  by unfold_locales (rule FooterTrimmer_feed_append)

subsection \<open>One-shot routines against the streaming ones\<close>

lemma encrypt_chunks_stream:
  assumes "i + length cs < 2 ^ 32" and "e_chunk_index e = word_of_nat i"
    and "hmac_input = mac_data (e_hmac e)"
  shows "encrypt_chunks P (e_content_key e) (e_file_iv e) i cs out hmac_input =
    and_then (encrypt_all P e cs) (\<lambda>(e', frs). Inr (out @ frs, mac_data (e_hmac e')))"
  using assms
proof (induction cs arbitrary: i e out hmac_input)
  case Nil
  then show ?case by simp
next
  case (Cons c cs)
  have idx: "checked_add1_u32 (e_chunk_index e) = Some (word_of_nat (i + 1))"
    using Cons.prems by (simp add: checked_add1_u32_def unat_of_nat)
  show ?case
  proof (cases "encrypt_file_v7_chunk P c (e_content_key e) (e_file_iv e) (e_chunk_index e)")
    case (Inl err)
    then show ?thesis using Cons.prems by (simp add: feed_of_def StreamEncryptor_push_def Let_def)
  next
    case (Inr ct)
    define e1 where "e1 = e\<lparr>e_hmac := Hmac_update ct (Hmac_update (u32_to_le (e_chunk_index e)) (e_hmac e)),
      e_chunk_index := word_of_nat (i + 1)\<rparr>"
    define fr where "fr = frame_bytes (v7_chunk_nonce (e_file_iv e) (e_chunk_index e)) ct"
    have step: "feed_of (StreamEncryptor_push P) e c = Inr (e1, fr)"
      by (simp add: feed_of_def StreamEncryptor_push_def Inr idx Let_def e1_def fr_def del: of_nat_Suc of_nat_add)
    have "encrypt_chunks P (e_content_key e1) (e_file_iv e1) (i + 1) cs (out @ fr) (mac_data (e_hmac e1)) =
      and_then (encrypt_all P e1 cs) (\<lambda>(e', frs). Inr ((out @ fr) @ frs, mac_data (e_hmac e')))"
      using Cons.prems(1) by (intro Cons.IH) (simp_all add: e1_def)
    moreover have "encrypt_chunks P (e_content_key e) (e_file_iv e) i (c # cs) out hmac_input =
      encrypt_chunks P (e_content_key e1) (e_file_iv e1) (i + 1) cs (out @ fr) (mac_data (e_hmac e1))"
      using Cons.prems(2,3) Inr by (simp add: Let_def e1_def fr_def)
    ultimately show ?thesis
      by (cases "encrypt_all P e1 cs") (auto simp: step)
  qed
qed

lemma encrypt_all_mac_key:
  "encrypt_all P e cs = Inr (e', frs) \<Longrightarrow> mac_key (e_hmac e') = mac_key (e_hmac e)"
proof (induction cs arbitrary: e frs)
  case (Cons c cs)
  then obtain e1 fr frs1 where step: "feed_of (StreamEncryptor_push P) e c = Inr (e1, fr)"
    and tail: "encrypt_all P e1 cs = Inr (e', frs1)"
    by (auto simp: and_then_Inr_conv)
  from step have "mac_key (e_hmac e1) = mac_key (e_hmac e)"
    by (auto simp: feed_of_def StreamEncryptor_push_def Let_def split: sum.splits option.splits)
  with Cons.IH [OF tail] show ?case by simp
qed simp

lemma encrypt_file_v7_stream:
  assumes "mac_lengths P" and "length cs < 2 ^ 32"
  shows "encrypt_file_v7 P r mlkem_pub x25519_pub cs =
    and_then (StreamEncryptor_new P r mlkem_pub x25519_pub) (\<lambda>(e, header).
    and_then (encrypt_all P e cs) (\<lambda>(e', frs).
    Inr (header @ frs @ StreamEncryptor_finalize P e')))"
proof (cases "encrypt_file_v7_init P r mlkem_pub x25519_pub")
  case (Inl err)
  then show ?thesis by (simp add: encrypt_file_v7_def StreamEncryptor_new_def)
next
  case (Inr init)
  obtain hk where hk: "hkdf_sha256 P (ei_content_key init) CHUNK_HMAC_V1 32 = Inr hk"
    using hkdf_sha256_ok [OF assms(1), of 32 "ei_content_key init" CHUNK_HMAC_V1] by auto
  define e where "e = \<lparr>e_file_iv = ei_file_iv init, e_content_key = ei_content_key init,
    e_hmac = Hmac_new hk, e_chunk_index = 0\<rparr>"
  have new: "StreamEncryptor_new P r mlkem_pub x25519_pub = Inr (e, header_bytes init)"
    by (simp add: StreamEncryptor_new_def Inr hk e_def)
  have run: "encrypt_chunks P (ei_content_key init) (ei_file_iv init) 0 cs (header_bytes init) [] =
    and_then (encrypt_all P e cs) (\<lambda>(e', frs). Inr (header_bytes init @ frs, mac_data (e_hmac e')))"
    using encrypt_chunks_stream [of 0 cs e "[]" P "header_bytes init"] assms(2) by (simp add: e_def)
  have "mac_key (e_hmac e') = hk" if "encrypt_all P e cs = Inr (e', frs)" for e' frs
    using encrypt_all_mac_key [OF that] by (simp add: e_def)
  then show ?thesis
    by (cases "encrypt_all P e cs")
      (auto simp: encrypt_file_v7_def Inr new run compute_v7_hmac_def hk StreamEncryptor_finalize_def Hmac_finalize_def)
qed

lemma decrypt_chunks_frame:
  assumes "aead_correct P" and "length key = 32" and "length iv = 12" and "chunk_ok c"
    and "aead_seal P key (v7_chunk_nonce iv i) c = Some ct" and "32 \<le> length rest"
  defines "fr \<equiv> frame_bytes (v7_chunk_nonce iv i) ct"
  shows "decrypt_chunks P key (pre @ fr @ rest) (length pre) i pt hm =
    decrypt_chunks P key ((pre @ fr) @ rest) (length (pre @ fr)) (i + 1) (pt @ c) (hm @ u32_to_le i @ ct)"
proof -
  let ?enc = "pre @ fr @ rest" and ?pos = "length pre"
  note aead = aead_correct_sealD [OF assms(1) assms(5)]
  have lt: "12 + length ct < 2 ^ 32" using aead(1) assms(4) by (simp add: chunk_ok_def)
  have lfr: "length fr = 16 + length ct" using assms(3) by (simp add: fr_def length_frame_bytes)
  have n: "unat (u32_from_le (slice ?pos (?pos + 4) ?enc)) = 12 + length ct"
    using lt by (simp add: fr_def frame_bytes_def slice_def unat_of_nat del: of_nat_add)
  have no: "slice (?pos + 4) (?pos + 4 + 12) ?enc = v7_chunk_nonce iv i"
    using assms(3) by (simp add: fr_def frame_bytes_def slice_def)
  have ct: "slice (?pos + 4 + 12) (?pos + 4 + (12 + length ct)) ?enc = ct"
    using assms(3) by (simp add: fr_def frame_bytes_def slice_def)
  have bounds: "?pos + V7_FOOTER_LEN < length ?enc" "\<not> ?pos + 4 > length ?enc"
    "\<not> ?pos + 4 + (12 + length ct) > length ?enc" "\<not> ?pos + 4 + 12 > length ?enc"
    "\<not> ?pos + 4 + 12 > ?pos + 4 + (12 + length ct)"
    using assms(6) by (simp_all add: V7_FOOTER_LEN_def lfr)
  have dec: "and_then (Nonce12_from_slice (v7_chunk_nonce iv i)) (\<lambda>nonce. aes_gcm_decrypt P ct nonce key) = Inr c"
    using aead(2) assms(2,3) by (simp add: aes_gcm_decrypt_def Nonce12_from_slice_def)
  have pos: "?pos + 4 + (12 + length ct) = length (pre @ fr)" by (simp add: lfr)
  show ?thesis
    by (subst decrypt_chunks.simps)
      (simp only: n no ct bounds dec Let_def if_True if_False sum.case, simp only: pos append_assoc)
qed

lemma encrypt_all_decrypt_chunks:
  assumes "aead_correct P" and "length (e_file_iv e) = 12" and "list_all chunk_ok cs"
    and "encrypt_all P e cs = Inr (e', frs)" and "32 \<le> length rest"
  shows "decrypt_chunks P (e_content_key e) (pre @ frs @ rest) (length pre) (e_chunk_index e) pt (mac_data (e_hmac e)) =
    decrypt_chunks P (e_content_key e) ((pre @ frs) @ rest) (length (pre @ frs)) (e_chunk_index e')
      (pt @ concat cs) (mac_data (e_hmac e'))"
  using assms(2-4)
proof (induction cs arbitrary: e pt frs pre)
  case Nil
  then show ?case by simp
next
  case (Cons c cs)
  then obtain e1 fr frs1 where step: "feed_of (StreamEncryptor_push P) e c = Inr (e1, fr)"
    and tail: "encrypt_all P e1 cs = Inr (e', frs1)" and frs: "frs = fr @ frs1"
    by (auto simp: and_then_Inr_conv)
  from step obtain ct where key: "length (e_content_key e) = 32"
    and seal: "aead_seal P (e_content_key e) (v7_chunk_nonce (e_file_iv e) (e_chunk_index e)) c = Some ct"
    and idx: "checked_add1_u32 (e_chunk_index e) = Some (e_chunk_index e1)"
    and e1: "e1 = e\<lparr>e_hmac := Hmac_update ct (Hmac_update (u32_to_le (e_chunk_index e)) (e_hmac e)),
                    e_chunk_index := e_chunk_index e1\<rparr>"
    and fr: "fr = frame_bytes (v7_chunk_nonce (e_file_iv e) (e_chunk_index e)) ct"
    by (rule StreamEncryptor_feedD)
  have e1': "e_file_iv e1 = e_file_iv e" "e_content_key e1 = e_content_key e"
    "mac_data (e_hmac e1) = mac_data (e_hmac e) @ u32_to_le (e_chunk_index e) @ ct"
    by (subst e1, simp)+
  have idx1: "e_chunk_index e + 1 = e_chunk_index e1" using idx by (simp add: checked_add1_u32_Some)
  have c: "chunk_ok c" and cs: "list_all chunk_ok cs" using Cons.prems by simp_all
  have "32 \<le> length (frs1 @ rest)" using assms(5) by simp
  from decrypt_chunks_frame [OF assms(1) key Cons.prems(1) c seal this, folded fr, of pre pt "mac_data (e_hmac e)"]
  show ?case
    using Cons.IH [OF _ cs tail, unfolded e1', OF Cons.prems(1), of "pre @ fr" "pt @ c"]
    by (simp add: frs idx1)
qed

text \<open>
  Round trip of the one-shot routines: for every list of chunks that fit a frame, encrypting
  to a recipient succeeds and the recipient's secret keys decrypt the file to the concatenation
  of the chunks, without an error or a panic.
\<close>

theorem file_v7_roundtrip:
  assumes "aead_correct P" and "mac_lengths P"
    and "kem_correct P mlkem_pub mlkem_sec x25519_pub x25519_sec" and "file_rand_ok r"
    and "length cs < 2 ^ 32" and "list_all chunk_ok cs"
  shows "\<exists>blob. encrypt_file_v7 P r mlkem_pub x25519_pub cs = Inr blob \<and>
    decrypt_file_v7 P blob mlkem_sec x25519_sec = Done (Inr (concat cs))"
proof -
  obtain e header hk where new: "StreamEncryptor_new P r mlkem_pub x25519_pub = Inr (e, header)"
    and hl: "length header = V7_HEADER_MIN" and iv: "e_file_iv e = rnd_file_iv r"
    and ck: "e_content_key e = rnd_content_key (rnd_encap r)" and ix: "e_chunk_index e = 0"
    and hk: "hkdf_sha256 P (e_content_key e) CHUNK_HMAC_V1 32 = Inr hk" and mac: "e_hmac e = Hmac_new hk"
    and dinit: "\<And>rest. decrypt_file_v7_init P (header @ rest) mlkem_sec x25519_sec =
      Inr \<lparr>di_file_iv = e_file_iv e, di_content_key = e_content_key e, di_header_end = 1709\<rparr>"
    by (rule StreamEncryptor_new_ok [OF assms(1-4)]) blast
  have lens: "length (e_file_iv e) = 12" "length (e_content_key e) = 32"
    using assms(4) by (simp_all add: iv ck file_rand_ok_def encap_rand_ok_def)
  obtain e' frs where run: "encrypt_all P e cs = Inr (e', frs)"
    using encrypt_all_total [OF assms(1) lens assms(6)] assms(5) ix by auto
  define footer where "footer = StreamEncryptor_finalize P e'"
  have fl: "length footer = 32"
    using mac_lengths_simps [OF assms(2)] by (simp add: footer_def StreamEncryptor_finalize_def Hmac_finalize_def)
  have enc: "encrypt_file_v7 P r mlkem_pub x25519_pub cs = Inr (header @ frs @ footer)"
    by (simp add: encrypt_file_v7_stream [OF assms(2,5)] new run footer_def)
  have hl': "length header = 1709" using hl by (simp add: V7_HEADER_MIN_def)
  have "decrypt_chunks P (e_content_key e) (header @ frs @ footer) 1709 0 [] [] =
    decrypt_chunks P (e_content_key e) ((header @ frs) @ footer) (length (header @ frs)) (e_chunk_index e')
      (concat cs) (mac_data (e_hmac e'))"
    using encrypt_all_decrypt_chunks [OF assms(1) lens(1) assms(6) run, of footer header "[]"] fl
    by (simp add: hl' ix mac)
  also have "\<dots> = Done (Inr (length (header @ frs), concat cs, mac_data (e_hmac e')))"
    by (subst decrypt_chunks.simps) (simp add: fl V7_FOOTER_LEN_def)
  finally have body: "decrypt_chunks P (e_content_key e) (header @ frs @ footer) 1709 0 [] [] = \<dots>" .
  have foot: "hmac_raw P hk (mac_data (e_hmac e')) = footer"
    using encrypt_all_mac_key [OF run] by (simp add: footer_def StreamEncryptor_finalize_def Hmac_finalize_def mac)
  have "decrypt_file_v7 P (header @ frs @ footer) mlkem_sec x25519_sec = Done (Inr (concat cs))"
    by (simp add: decrypt_file_v7_def dinit body V7_FOOTER_LEN_def fl hl' compute_v7_hmac_def hk
        Hmac_finalize_def slice_def foot)
  with enc show ?thesis by blast
qed

definition toy_rand :: file_rand where
  "toy_rand = \<lparr>rnd_encap = \<lparr>rnd_eph = replicate 32 1, rnd_coins = replicate 32 2,
     rnd_content_key = replicate 32 3, rnd_wrapping_iv = replicate 12 4\<rparr>, rnd_file_iv = replicate 12 5\<rparr>"

lemma toy_rand_ok: "file_rand_ok toy_rand"
  by (simp add: toy_rand_def file_rand_ok_def encap_rand_ok_def)

lemma toy_chunk_ok: "list_all chunk_ok [[1, 2, 3], [4, 5]]"
  by (simp add: chunk_ok_def)

theorem file_v7_roundtrip_witness:
  "\<exists>blob. encrypt_file_v7 toy_prims toy_rand (replicate 1568 0) (replicate 32 9) [[1, 2, 3], [4, 5]] = Inr blob \<and>
    decrypt_file_v7 toy_prims blob (replicate 3168 0) (replicate 32 9) = Done (Inr [1, 2, 3, 4, 5])"
  using file_v7_roundtrip [OF aead_correct_toy mac_lengths_toy kem_correct_toy [of "replicate 32 9"]
      toy_rand_ok _ toy_chunk_ok] by simp

text \<open>
  The share-link decryptor behaves exactly as the regular streaming decryptor: on the same
  state, any sequence of pushes gives the same plaintext or the same error, leads to the same
  state, and the final check of the footer has the same verdict.
\<close>

theorem share_decryptor_equiv:
  "feed_all (feed_of (ShareDecryptor_push P)) (share_view s) ds =
     and_then (feed_all (feed_of (StreamDecryptor_push P)) s ds) (\<lambda>(s', pt). Inr (share_view s', pt)) \<and>
   ShareDecryptor_finalize P (share_view s) footer = StreamDecryptor_finalize P s footer"
proof
  show "feed_all (feed_of (ShareDecryptor_push P)) (share_view s) ds =
     and_then (feed_all (feed_of (StreamDecryptor_push P)) s ds) (\<lambda>(s', pt). Inr (share_view s', pt))"
    by (induction ds arbitrary: s) (auto simp: ShareDecryptor_feed_view and_then_def split: sum.split)
qed (simp add: ShareDecryptor_finalize_def StreamDecryptor_finalize_def)

text \<open>
  C9. What a streaming decryptor outputs does not depend on how the network cuts the ciphertext:
  two non-empty sequences of pieces with the same bytes give the same plaintext, the same final
  state, or the same error; likewise for the share-link decryptor.
\<close>

theorem decrypt_split_independent:
  assumes "concat ds = concat es" and "ds \<noteq> []" and "es \<noteq> []"
  shows "feed_all (feed_of (StreamDecryptor_push P)) s ds = feed_all (feed_of (StreamDecryptor_push P)) s es \<and>
    feed_all (feed_of (ShareDecryptor_push P)) sh ds = feed_all (feed_of (ShareDecryptor_push P)) sh es"
  using stream_dec.feed_all_split_independent [OF assms] share_dec.feed_all_split_independent [OF assms]
  by blast

theorem decrypt_split_independent_witness:
  "feed_all (feed_of (StreamDecryptor_push toy_prims))
     (decryptor_for \<lparr>e_file_iv = [], e_content_key = [], e_hmac = Hmac_new [], e_chunk_index = 0\<rparr>) [[0], [0, 0, 0]] =
   feed_all (feed_of (StreamDecryptor_push toy_prims))
     (decryptor_for \<lparr>e_file_iv = [], e_content_key = [], e_hmac = Hmac_new [], e_chunk_index = 0\<rparr>) [[0, 0, 0, 0]]"
  using decrypt_split_independent [of "[[0], [0, 0, 0]]" "[[0, 0, 0, 0]]"] by simp

subsection \<open>Nonces, truncation and malformed frames\<close>

text \<open>The frames a caller obtains from a sequence of pushes, going on after an error if it likes.\<close>

primrec emitted_frames :: "prims \<Rightarrow> V7StreamEncryptor \<Rightarrow> bytes list \<Rightarrow> bytes list" where
  "emitted_frames P e [] = []"
| "emitted_frames P e (c # cs) =
     (case StreamEncryptor_push P e c of
        (e', Inl err) \<Rightarrow> emitted_frames P e' cs
      | (e', Inr fr) \<Rightarrow> fr # emitted_frames P e' cs)"

lemma StreamEncryptor_push_cases:
  assumes "length (e_file_iv e) = 12" and "StreamEncryptor_push P e c = (e', res)"
  shows "e_file_iv e' = e_file_iv e \<and> e_content_key e' = e_content_key e \<and>
    (case res of Inl _ \<Rightarrow> e_chunk_index e' = e_chunk_index e
     | Inr fr \<Rightarrow> e_chunk_index e < e_chunk_index e' \<and>
         slice 4 16 fr = v7_chunk_nonce (e_file_iv e) (e_chunk_index e))"
  using assms checked_add1_u32_unat [of "e_chunk_index e"]
  by (auto simp: StreamEncryptor_push_def Let_def frame_bytes_def slice_def word_less_nat_alt
      split: sum.splits option.splits)

lemma emitted_frames_nonces:
  assumes "length (e_file_iv e) = 12"
  shows "\<exists>js. map (slice 4 16) (emitted_frames P e cs) = map (v7_chunk_nonce (e_file_iv e)) js \<and>
    sorted_wrt (<) js \<and> (\<forall>j\<in>set js. e_chunk_index e \<le> j)"
  using assms
proof (induction cs arbitrary: e)
  case Nil
  then show ?case by simp
next
  case (Cons c cs)
  obtain e' res where push: "StreamEncryptor_push P e c = (e', res)" by (cases "StreamEncryptor_push P e c")
  note facts = StreamEncryptor_push_cases [OF Cons.prems push]
  then have iv: "e_file_iv e' = e_file_iv e" by simp
  from Cons.IH [of e'] Cons.prems iv obtain js where
    js: "map (slice 4 16) (emitted_frames P e' cs) = map (v7_chunk_nonce (e_file_iv e)) js"
      "sorted_wrt (<) js" "\<forall>j\<in>set js. e_chunk_index e' \<le> j"
    by auto
  show ?case
  proof (cases res)
    case (Inl err)
    then show ?thesis using js facts push by auto
  next
    case (Inr fr)
    then have "sorted_wrt (<) (e_chunk_index e # js)" "\<forall>j\<in>set (e_chunk_index e # js). e_chunk_index e \<le> j"
      using js facts by fastforce+
    moreover have "map (slice 4 16) (emitted_frames P e (c # cs)) =
      map (v7_chunk_nonce (e_file_iv e)) (e_chunk_index e # js)"
      using js facts push Inr by simp
    ultimately show ?thesis by blast
  qed
qed

text \<open>
  C7. No two frames that one encryption session emits carry the same AES-GCM nonce (all are
  sealed under the session's content key), whatever the chunks and however often the caller goes
  on after an error; the 32-bit chunk counter never wraps back to a used nonce.
\<close>

theorem frame_nonces_distinct:
  assumes "length (e_file_iv e) = 12"
  shows "distinct (map (slice 4 16) (emitted_frames P e cs))"
proof -
  obtain js where "map (slice 4 16) (emitted_frames P e cs) = map (v7_chunk_nonce (e_file_iv e)) js"
    and "sorted_wrt (<) js"
    using emitted_frames_nonces [OF assms] by blast
  moreover have "inj_on (v7_chunk_nonce (e_file_iv e)) (set js)"
    by (rule inj_onI) (simp add: v7_chunk_nonce_inject [OF assms])
  ultimately show ?thesis
    by (simp add: distinct_map strict_sorted_iff)
qed

definition toy_encryptor :: V7StreamEncryptor where
  "toy_encryptor = \<lparr>e_file_iv = replicate 12 5, e_content_key = replicate 32 3,
     e_hmac = Hmac_new (replicate 32 0), e_chunk_index = 0\<rparr>"

theorem frame_nonces_distinct_witness:
  "distinct (map (slice 4 16) (emitted_frames toy_prims toy_encryptor [[1], [2], [3]]))"
  by (rule frame_nonces_distinct) (simp add: toy_encryptor_def)

lemma encrypt_all_mac_data:
  "encrypt_all P e cs = Inr (e', frs) \<Longrightarrow> cs \<noteq> [] \<Longrightarrow> length (mac_data (e_hmac e)) < length (mac_data (e_hmac e'))"
proof (induction cs arbitrary: e frs)
  case (Cons c cs)
  then obtain e1 fr frs1 where step: "feed_of (StreamEncryptor_push P) e c = Inr (e1, fr)"
    and tail: "encrypt_all P e1 cs = Inr (e', frs1)"
    by (auto simp: and_then_Inr_conv)
  from step have "length (mac_data (e_hmac e)) < length (mac_data (e_hmac e1))"
    by (auto simp: feed_of_def StreamEncryptor_push_def Let_def split: sum.splits option.splits)
  with Cons.IH [OF tail] tail show ?case by (cases "cs = []") auto
qed simp

lemma decryptor_for_run:
  assumes "aead_correct P" and "length (e_file_iv e) = 12" and "list_all chunk_ok cs"
    and "encrypt_all P e cs = Inr (e', frs)"
  shows "feed_of (StreamDecryptor_push P) (decryptor_for e) frs = Inr (decryptor_for e', concat cs)"
proof -
  have "decode_body P iv key i h pt [] = ((i, h), Inr (pt, []))" for iv key i h pt
    by (subst decode_body.simps) simp
  then show ?thesis
    using encrypt_all_decode [OF assms, of "[]" "[]"]
    by (simp add: feed_of_def StreamDecryptor_push_decode decryptor_for_def)
qed

text \<open>
  C8. Truncation: when the last frames of a file are dropped and its footer is kept, the decryptor
  decrypts the remaining frames and the final check rejects them with a MAC failure, unless HMAC
  maps the two different inputs to the same tag.
\<close>

theorem truncated_file_rejected:
  assumes "aead_correct P" and "mac_lengths P" and "length (e_file_iv e) = 12" and "list_all chunk_ok cs"
    and "encrypt_all P e cs = Inr (e1, frs1)" and "encrypt_all P e1 ds = Inr (e2, frs2)" and "ds \<noteq> []"
  shows "\<exists>s. feed_of (StreamDecryptor_push P) (decryptor_for e) frs1 = Inr (s, concat cs) \<and>
    StreamDecryptor_finalize P s (StreamEncryptor_finalize P e2) =
      (if hmac_raw P (mac_key (e_hmac e)) (mac_data (e_hmac e1)) = hmac_raw P (mac_key (e_hmac e)) (mac_data (e_hmac e2))
       then Inr () else Inl MacVerificationFailed) \<and>
    mac_data (e_hmac e1) \<noteq> mac_data (e_hmac e2)"
proof -
  have "mac_key (e_hmac e1) = mac_key (e_hmac e)" "mac_key (e_hmac e2) = mac_key (e_hmac e)"
    using encrypt_all_mac_key [OF assms(5)] encrypt_all_mac_key [OF assms(6)] by simp_all
  then have "StreamDecryptor_finalize P (decryptor_for e1) (StreamEncryptor_finalize P e2) =
      (if hmac_raw P (mac_key (e_hmac e)) (mac_data (e_hmac e1)) = hmac_raw P (mac_key (e_hmac e)) (mac_data (e_hmac e2))
       then Inr () else Inl MacVerificationFailed)"
    using mac_lengths_simps [OF assms(2)]
    by (simp add: StreamDecryptor_finalize_def decryptor_for_def StreamEncryptor_finalize_def
        Hmac_finalize_def V7_FOOTER_LEN_def)
  moreover have "mac_data (e_hmac e1) \<noteq> mac_data (e_hmac e2)"
    using encrypt_all_mac_data [OF assms(6,7)] by auto
  ultimately show ?thesis
    using decryptor_for_run [OF assms(1,3-5)] by blast
qed

lemma u32_to_le_0: "u32_to_le 0 = [0, 0, 0, 0]"
  by code_simp

lemma toy_run:
  "encrypt_all toy_prims toy_encryptor [] = Inr (toy_encryptor, [])"
  "\<exists>e frs. encrypt_all toy_prims toy_encryptor [[7]] = Inr (e, frs) \<and>
     mac_data (e_hmac e) = [0, 0, 0, 0, 7] @ replicate 16 0"
  by (simp_all add: toy_encryptor_def toy_sel feed_of_def StreamEncryptor_push_def Let_def
      encrypt_file_v7_chunk_def aes_gcm_encrypt_with_nonce_def checked_add1_u32_def u32_to_le_0)

theorem truncated_file_rejected_witness:
  "\<exists>e2 frs2. encrypt_all toy_prims toy_encryptor [[7]] = Inr (e2, frs2) \<and>
     StreamDecryptor_finalize toy_prims (decryptor_for toy_encryptor) (StreamEncryptor_finalize toy_prims e2)
       = Inl MacVerificationFailed"
proof -
  obtain e2 frs2 where run: "encrypt_all toy_prims toy_encryptor [[7]] = Inr (e2, frs2)"
    and data: "mac_data (e_hmac e2) = [0, 0, 0, 0, 7] @ replicate 16 0"
    using toy_run(2) by blast
  have iv: "length (e_file_iv toy_encryptor) = 12" by (simp add: toy_encryptor_def)
  have "feed_of (StreamDecryptor_push toy_prims) (decryptor_for toy_encryptor) [] =
    Inr (decryptor_for toy_encryptor, concat [])"
    using decryptor_for_run [OF aead_correct_toy iv _ toy_run(1)] by simp
  then have "StreamDecryptor_finalize toy_prims (decryptor_for toy_encryptor) (StreamEncryptor_finalize toy_prims e2)
       = Inl MacVerificationFailed"
    using truncated_file_rejected [OF aead_correct_toy mac_lengths_toy iv _ toy_run(1) run]
    by (auto simp: data toy_sel toy_encryptor_def sum_list_replicate)
  with run show ?thesis by blast
qed

text \<open>
  A frame length below 12 in the first frame: the streaming decryptor reports it as a format
  error, while the one-shot \<open>decrypt_file_v7\<close> has no such check and panics on the slice
  \<open>[pos + 12..pos + chunk_len]\<close>.
\<close>

theorem short_frame_panics:
  assumes "decrypt_file_v7_init P enc mlkem_sec x25519_sec = Inr init"
    and "V7_HEADER_MIN + V7_FOOTER_LEN < length enc"
    and "unat (u32_from_le (slice V7_HEADER_MIN (V7_HEADER_MIN + 4) enc)) < 12"
  shows "decrypt_file_v7 P enc mlkem_sec x25519_sec = Panic \<and>
    snd (StreamDecryptor_push P (s\<lparr>d_buf := []\<rparr>) (drop V7_HEADER_MIN enc)) =
      Inl (InvalidFormat ''v7 chunk_len too small'')"
proof
  have he: "di_header_end init = 1709"
    using assms(1) by (auto simp: decrypt_file_v7_init_def Let_def and_then_def split: if_splits sum.splits)
  define n where "n = unat (u32_from_le (slice 1709 1713 enc))"
  have n: "n < 12" and len: "1741 < length enc"
    using assms(2,3) by (simp_all add: n_def V7_HEADER_MIN_def V7_FOOTER_LEN_def)
  have "decrypt_chunks P (di_content_key init) enc 1709 0 [] [] = Panic"
    using n len by (subst decrypt_chunks.simps) (simp add: V7_FOOTER_LEN_def Let_def flip: n_def)
  then show "decrypt_file_v7 P enc mlkem_sec x25519_sec = Panic"
    by (simp add: decrypt_file_v7_def assms(1) he)
  have "take 4 (drop 1709 enc) = slice 1709 1713 enc" by (simp add: slice_def)
  then show "snd (StreamDecryptor_push P (s\<lparr>d_buf := []\<rparr>) (drop V7_HEADER_MIN enc)) =
      Inl (InvalidFormat ''v7 chunk_len too small'')"
    using n len
    by (simp add: StreamDecryptor_push_decode V7_HEADER_MIN_def, subst decode_body.simps)
      (simp add: Let_def flip: n_def)
qed

text \<open>A recipient's header followed by forty zero bytes is such an input.\<close>

theorem short_frame_panics_witness:
  "\<exists>enc. decrypt_file_v7 toy_prims enc (replicate 3168 0) (replicate 32 9) = Panic"
proof -
  obtain init where hl: "length (header_bytes init) = V7_HEADER_MIN"
    and dec: "\<And>rest. decrypt_file_v7_init toy_prims (header_bytes init @ rest) (replicate 3168 0) (replicate 32 9) =
      Inr \<lparr>di_file_iv = rnd_file_iv toy_rand, di_content_key = rnd_content_key (rnd_encap toy_rand), di_header_end = 1709\<rparr>"
    by (rule encrypt_file_v7_init_ok [OF aead_correct_toy mac_lengths_toy
          kem_correct_toy [of "replicate 32 9"] toy_rand_ok]) auto
  let ?enc = "header_bytes init @ replicate 40 0"
  have "slice V7_HEADER_MIN (V7_HEADER_MIN + 4) ?enc = u32_to_le 0"
    using hl by (simp add: slice_def u32_to_le_0 numeral_eq_Suc)
  then have "unat (u32_from_le (slice V7_HEADER_MIN (V7_HEADER_MIN + 4) ?enc)) < 12"
    by simp
  then show ?thesis
    using short_frame_panics [OF dec [of "replicate 40 0"]] hl by (auto simp: V7_FOOTER_LEN_def)
qed

text \<open>
  The footer trimmer: whatever the pieces, the bytes it releases are the stream without its
  last \<open>keep\<close> bytes, and \<open>finalize\<close> returns those \<open>keep\<close> bytes with an empty remaining body, or
  an error exactly when the stream is shorter.
\<close>

theorem footer_trimmer_spec:
  "\<exists>t. feed_all FooterTrimmer_feed (FooterTrimmer_new keep) ds =
         Inr (t, take (length (concat ds) - keep) (concat ds)) \<and>
     FooterTrimmer_finalize t =
       (if length (concat ds) < keep
        then Inl (InvalidFormat (''stream too short for footer: got '' @ show_nat (length (concat ds)) @
               '' bytes, need '' @ show_nat keep))
        else Inr ([], drop (length (concat ds) - keep) (concat ds)))"
proof (cases "ds = []")
  case True
  then show ?thesis by (simp add: FooterTrimmer_new_def FooterTrimmer_finalize_def)
next
  case False
  define n where "n = length (concat ds) - keep"
  let ?t = "\<lparr>t_trailing = drop n (concat ds), t_keep = keep\<rparr>"
  have "feed_all FooterTrimmer_feed (FooterTrimmer_new keep) ds = FooterTrimmer_feed (FooterTrimmer_new keep) (concat ds)"
    by (rule trimmer.feed_all_concat [OF False])
  then have "feed_all FooterTrimmer_feed (FooterTrimmer_new keep) ds = Inr (?t, take n (concat ds))"
    by (simp add: FooterTrimmer_push_eq FooterTrimmer_new_def Let_def n_def)
  moreover have "FooterTrimmer_finalize ?t =
       (if length (concat ds) < keep
        then Inl (InvalidFormat (''stream too short for footer: got '' @ show_nat (length (concat ds)) @
               '' bytes, need '' @ show_nat keep))
        else Inr ([], drop n (concat ds)))"
    by (auto simp: FooterTrimmer_finalize_def n_def Let_def)
  ultimately show ?thesis unfolding n_def by blast
qed

end
