(* ===== verification/Streaming.thy ===== *)
theory Streaming
  imports Wire_Format
begin

text \<open>
  The BYO streaming layer (\<open>sdk-core/src/byo/streaming\<close>): the upload flow that encrypts a file
  chunk by chunk, the download flow that buffers the header, holds back the footer and decrypts
  the body, and the writer that regroups bytes into parts of a fixed size.  The main theorem is
  the end-to-end round trip through both flows, for every way the network may cut the ciphertext.
\<close>

subsection \<open>Upload flow\<close>

record ByoUploadFlow =
  u_encryptor :: V7StreamEncryptor
  u_last_pushed :: bool

definition UploadFlow_new ::
  "prims \<Rightarrow> file_rand \<Rightarrow> bytes \<Rightarrow> bytes \<Rightarrow> nat \<Rightarrow> (SdkError + ByoUploadFlow \<times> bytes \<times> nat) outcome" where
  "UploadFlow_new P r mlkem_pub x25519_pub plaintext_len =
     (case StreamEncryptor_new P r mlkem_pub x25519_pub of
        Inl e \<Rightarrow> Done (Inl (SdkCrypto e))
      | Inr (encryptor, header) \<Rightarrow>
          (case v7_cipher_size plaintext_len (word_of_nat V7_ENCRYPT_CHUNK_SIZE) of
             Panic \<Rightarrow> Panic
           | Done total_size \<Rightarrow>
               Done (Inr (\<lparr>u_encryptor = encryptor, u_last_pushed = (plaintext_len = 0)\<rparr>,
                          header, total_size))))"

definition UploadFlow_push_chunk ::
  "prims \<Rightarrow> ByoUploadFlow \<Rightarrow> bytes \<Rightarrow> bool \<Rightarrow> ByoUploadFlow \<times> (SdkError + bytes)" where
  "UploadFlow_push_chunk P flow plaintext is_last =
     (if \<not> is_last \<and> length plaintext \<noteq> V7_ENCRYPT_CHUNK_SIZE then
        (flow, Inl (SdkValidation (Invalid ''invalid_byo_chunk_size''
           (''non-final upload chunk must be exactly '' @ show_nat V7_ENCRYPT_CHUNK_SIZE @
            '' bytes, got '' @ show_nat (length plaintext)))))
      else if u_last_pushed flow then
        (flow, Inl (SdkValidation (Invalid ''upload_already_finalized''
           ''push_chunk called after the final chunk was already supplied'')))
      else
        let flow1 = (if is_last then flow\<lparr>u_last_pushed := True\<rparr> else flow)
        in case StreamEncryptor_push P (u_encryptor flow1) plaintext of
             (enc, Inl e) \<Rightarrow> (flow1\<lparr>u_encryptor := enc\<rparr>, Inl (SdkCrypto e))
           | (enc, Inr frame) \<Rightarrow> (flow1\<lparr>u_encryptor := enc\<rparr>, Inr frame))"

definition UploadFlow_finalize :: "prims \<Rightarrow> ByoUploadFlow \<Rightarrow> SdkError + bytes" where
  "UploadFlow_finalize P flow =
     (if \<not> u_last_pushed flow then
        Inl (SdkCrypto (InvalidFormat ''ByoUploadFlow::finalize called before push_chunk(_, is_last=true)''))
      else Inr (StreamEncryptor_finalize P (u_encryptor flow)))"

text \<open>
  The caller's loop, as the module documents it: slice the plaintext at multiples of the chunk
  size, mark the last chunk, and write header, frames and footer to the provider.
\<close>

function upload_frames :: "prims \<Rightarrow> ByoUploadFlow \<Rightarrow> bytes \<Rightarrow> nat \<Rightarrow> SdkError + ByoUploadFlow \<times> bytes" where
  "upload_frames P flow plaintext offset =
     (if offset < length plaintext then
        let end_pos = min (offset + V7_ENCRYPT_CHUNK_SIZE) (length plaintext);
            chunk = slice offset end_pos plaintext;
            is_last = (end_pos = length plaintext)
        in case UploadFlow_push_chunk P flow chunk is_last of
             (flow1, Inl e) \<Rightarrow> Inl e
           | (flow1, Inr frame) \<Rightarrow>
               and_then (upload_frames P flow1 plaintext end_pos) (\<lambda>(flow2, frames). Inr (flow2, frame @ frames))
      else Inr (flow, []))"
  by pat_completeness auto
termination
  by (relation "measure (\<lambda>(P, flow, pt, offset). length pt - offset)") (auto simp: V7_ENCRYPT_CHUNK_SIZE_def)

declare upload_frames.simps [simp del]

definition upload_file ::
  "prims \<Rightarrow> file_rand \<Rightarrow> bytes \<Rightarrow> bytes \<Rightarrow> bytes \<Rightarrow> (SdkError + bytes \<times> nat) outcome" where
  "upload_file P r mlkem_pub x25519_pub plaintext =
     (case UploadFlow_new P r mlkem_pub x25519_pub (length plaintext) of
        Panic \<Rightarrow> Panic
      | Done (Inl e) \<Rightarrow> Done (Inl e)
      | Done (Inr (flow, header, total_size)) \<Rightarrow>
          Done (and_then (upload_frames P flow plaintext 0) (\<lambda>(flow1, frames).
                and_then (UploadFlow_finalize P flow1) (\<lambda>footer.
                Inr (header @ frames @ footer, total_size)))))"

subsection \<open>Download flow\<close>

datatype DownloadState =
    Header (hdr_buf: bytes) bytes bytes
  | Body FooterTrimmer V7StreamDecryptor
  | Finished

definition DownloadFlow_new :: "bytes \<Rightarrow> bytes \<Rightarrow> DownloadState" where
  "DownloadFlow_new mlkem_sec x25519_sec = Header [] mlkem_sec x25519_sec"

definition DownloadFlow_push :: "prims \<Rightarrow> DownloadState \<Rightarrow> bytes \<Rightarrow> DownloadState \<times> (SdkError + bytes)" where
  "DownloadFlow_push P state data =
     (case state of
        Header buf0 mlkem_sec x25519_sec \<Rightarrow>
          let buf = buf0 @ data in
          if length buf < V7_HEADER_MIN then (Header buf mlkem_sec x25519_sec, Inr [])
          else
            (case StreamDecryptor_new P (take V7_HEADER_MIN buf) mlkem_sec x25519_sec of
               Inl e \<Rightarrow> (Finished, Inl (SdkCrypto e))
             | Inr (decryptor, header_end) \<Rightarrow>
                 let trimmer = FooterTrimmer_new V7_FOOTER_LEN;
                     post_header = drop V7_HEADER_MIN buf;
                     (trimmer1, released) = FooterTrimmer_push trimmer post_header
                 in case StreamDecryptor_push P decryptor released of
                      (decryptor1, Inl e) \<Rightarrow> (Finished, Inl (SdkCrypto e))
                    | (decryptor1, Inr initial_plaintext) \<Rightarrow> (Body trimmer1 decryptor1, Inr initial_plaintext))
      | Body trimmer decryptor \<Rightarrow>
          let (trimmer1, body_bytes) = FooterTrimmer_push trimmer data
          in case StreamDecryptor_push P decryptor body_bytes of
               (decryptor1, Inl e) \<Rightarrow> (Body trimmer1 decryptor1, Inl (SdkCrypto e))
             | (decryptor1, Inr pt) \<Rightarrow> (Body trimmer1 decryptor1, Inr pt)
      | Finished \<Rightarrow> (Finished, Inl (SdkCrypto (InvalidFormat ''push called after finalize''))))"

definition DownloadFlow_finalize :: "prims \<Rightarrow> DownloadState \<Rightarrow> SdkError + unit" where
  "DownloadFlow_finalize P state =
     (case state of
        Body trimmer decryptor \<Rightarrow>
          and_then (map_err SdkCrypto (FooterTrimmer_finalize trimmer)) (\<lambda>(remaining_body, footer).
          if remaining_body \<noteq> [] then
            (case StreamDecryptor_push P decryptor remaining_body of
               (decryptor1, Inl e) \<Rightarrow> Inl (SdkCrypto e)
             | (decryptor1, Inr _) \<Rightarrow> map_err SdkCrypto (StreamDecryptor_finalize P decryptor1 footer))
          else map_err SdkCrypto (StreamDecryptor_finalize P decryptor footer))
      | Header buf mlkem_sec x25519_sec \<Rightarrow>
          Inl (SdkCrypto (InvalidFormat ''stream too short: V7 header was never complete''))
      | Finished \<Rightarrow> Inl (SdkCrypto (InvalidFormat ''finalize called twice'')))"

text \<open>The caller's loop: push every piece, then finalize; the plaintext counts only if all succeed.\<close>

definition download_file :: "prims \<Rightarrow> bytes \<Rightarrow> bytes \<Rightarrow> bytes list \<Rightarrow> SdkError + bytes" where
  "download_file P mlkem_sec x25519_sec pieces =
     and_then (feed_all (feed_of (DownloadFlow_push P)) (DownloadFlow_new mlkem_sec x25519_sec) pieces)
       (\<lambda>(state, plaintext). and_then (DownloadFlow_finalize P state) (\<lambda>_. Inr plaintext))"

subsection \<open>Chunk writer\<close>

record ChunkWriter =
  cw_buf :: bytes
  cw_used :: nat
  cw_bytes_flushed :: nat
  cw_chunk_index :: nat
  cw_flush_at :: nat

definition ChunkWriter_new :: "nat \<Rightarrow> SdkError + ChunkWriter" where
  "ChunkWriter_new flush_at =
     (if flush_at = 0 then Inl (SdkCrypto (InvalidFormat ''ChunkWriter: flush_at must be non-zero''))
      else Inr \<lparr>cw_buf = replicate flush_at 0, cw_used = 0, cw_bytes_flushed = 0, cw_chunk_index = 0,
                 cw_flush_at = flush_at\<rparr>)"

text \<open>
  The callback \<open>put_chunk\<close> acts on a world \<open>'w\<close> that the writer does not see: the provider.
\<close>

type_synonym 'w put_chunk = "'w \<Rightarrow> nat \<Rightarrow> bytes \<Rightarrow> 'w \<times> (SdkError + unit)"

definition ChunkWriter_flush :: "'w put_chunk \<Rightarrow> ChunkWriter \<Rightarrow> 'w \<Rightarrow> ChunkWriter \<times> 'w \<times> (SdkError + unit)" where
  "ChunkWriter_flush put cw w =
     (let used = cw_used cw; idx = cw_chunk_index cw in
      if used > length (cw_buf cw) then
        (cw, w, Inl (SdkCrypto (InvalidFormat ''ChunkWriter: flush buffer index out of range'')))
      else
        let (w1, result) = put w idx (take used (cw_buf cw))
        in (cw\<lparr>cw_buf := replicate used 0 @ drop used (cw_buf cw),
               cw_bytes_flushed := cw_bytes_flushed cw + used, cw_used := 0,
               cw_chunk_index := cw_chunk_index cw + 1\<rparr>, w1, result))"

text \<open>The loop of \<open>write\<close>; \<open>None\<close> is a loop that makes no progress.\<close>

partial_function (option) ChunkWriter_write_loop ::
  "'w put_chunk \<Rightarrow> bytes \<Rightarrow> nat \<Rightarrow> ChunkWriter \<Rightarrow> 'w \<Rightarrow> (ChunkWriter \<times> 'w \<times> (SdkError + unit)) option" where
  "ChunkWriter_write_loop put bs offset cw w =
     (if offset < length bs then
        let room = cw_flush_at cw - cw_used cw;
            n = min (length bs - offset) room
        in
        if cw_used cw + n > length (cw_buf cw) then
          Some (cw, w, Inl (SdkCrypto (InvalidFormat ''ChunkWriter: write destination out of range'')))
        else
          let cw1 = cw\<lparr>cw_buf := copy_at (cw_used cw) (slice offset (offset + n) bs) (cw_buf cw),
                       cw_used := cw_used cw + n\<rparr>
          in if cw_used cw1 = cw_flush_at cw1 then
               let (cw2, w2, result) = ChunkWriter_flush put cw1 w
               in if isl result then Some (cw2, w2, result)
                  else ChunkWriter_write_loop put bs (offset + n) cw2 w2
             else ChunkWriter_write_loop put bs (offset + n) cw1 w
      else Some (cw, w, Inr ()))"

definition ChunkWriter_write ::
  "'w put_chunk \<Rightarrow> ChunkWriter \<Rightarrow> bytes \<Rightarrow> 'w \<Rightarrow> (ChunkWriter \<times> 'w \<times> (SdkError + unit)) option" where
  "ChunkWriter_write put cw bs w = ChunkWriter_write_loop put bs 0 cw w"

definition ChunkWriter_finish :: "'w put_chunk \<Rightarrow> ChunkWriter \<Rightarrow> 'w \<Rightarrow> ChunkWriter \<times> 'w \<times> (SdkError + unit)" where
  "ChunkWriter_finish put cw w =
     (if cw_used cw > 0 then ChunkWriter_flush put cw w else (cw, w, Inr ()))"

subsection \<open>The download flow consumes a stream\<close>

text \<open>The body stage as one step: trim, then decrypt.\<close>

definition body_feed :: "prims \<Rightarrow> FooterTrimmer \<Rightarrow> V7StreamDecryptor \<Rightarrow> bytes \<Rightarrow>
    CryptoError + (FooterTrimmer \<times> V7StreamDecryptor) \<times> bytes" where
  "body_feed P t d bs = (let (t1, released) = FooterTrimmer_push t bs in
     and_then (feed_of (StreamDecryptor_push P) d released) (\<lambda>(d1, pt). Inr ((t1, d1), pt)))"

lemma body_feed_append:
  "body_feed P t d (a @ b) =
     and_then (body_feed P t d a) (\<lambda>((t1, d1), o1).
     and_then (body_feed P t1 d1 b) (\<lambda>(td2, o2). Inr (td2, o1 @ o2)))"
proof -
  obtain t1 r1 where a: "FooterTrimmer_push t a = (t1, r1)" by (cases "FooterTrimmer_push t a")
  obtain t2 r2 where b: "FooterTrimmer_push t1 b = (t2, r2)" by (cases "FooterTrimmer_push t1 b")
  have "FooterTrimmer_push t (a @ b) = (t2, r1 @ r2)"
    using FooterTrimmer_feed_append [of t a b] by (simp add: a b)
  then show ?thesis
    by (auto simp: body_feed_def a b StreamDecryptor_feed_append and_then_def split: sum.split)
qed

lemma DownloadFlow_feed_Body:
  "feed_of (DownloadFlow_push P) (Body t d) bs =
     map_err SdkCrypto (and_then (body_feed P t d bs) (\<lambda>((t1, d1), pt). Inr (Body t1 d1, pt)))"
  by (auto simp: feed_of_def DownloadFlow_push_def body_feed_def Let_def map_err_def
      split: prod.splits sum.splits)

lemma DownloadFlow_feed_Header:
  "feed_of (DownloadFlow_push P) (Header buf sk xk) bs =
     (if length (buf @ bs) < V7_HEADER_MIN then Inr (Header (buf @ bs) sk xk, [])
      else map_err SdkCrypto (and_then (StreamDecryptor_new P (take V7_HEADER_MIN (buf @ bs)) sk xk) (\<lambda>(d, _).
        and_then (body_feed P (FooterTrimmer_new V7_FOOTER_LEN) d (drop V7_HEADER_MIN (buf @ bs)))
          (\<lambda>((t1, d1), pt). Inr (Body t1 d1, pt)))))"
  by (auto simp: feed_of_def DownloadFlow_push_def body_feed_def Let_def map_err_def
      split: prod.splits sum.splits)

lemma DownloadFlow_feed_append:
  "feed_of (DownloadFlow_push P) s (a @ b) =
     and_then (feed_of (DownloadFlow_push P) s a) (\<lambda>(s1, o1).
     and_then (feed_of (DownloadFlow_push P) s1 b) (\<lambda>(s2, o2). Inr (s2, o1 @ o2)))"
proof (cases s)
  case (Body t d)
  then show ?thesis
    by (auto simp: DownloadFlow_feed_Body body_feed_append and_then_def map_err_def split: sum.split)
next
  case Finished
  then show ?thesis by (simp add: feed_of_def DownloadFlow_push_def)
next
  case (Header buf sk xk)
  show ?thesis
  proof (cases "length (buf @ a) < V7_HEADER_MIN")
    case True
    then show ?thesis
      unfolding Header
      by (simp add: DownloadFlow_feed_Header [of P buf sk xk a])
        (simp add: DownloadFlow_feed_Header and_then_def map_err_def split: sum.split)
  next
    case False
    then have "take V7_HEADER_MIN (buf @ a @ b) = take V7_HEADER_MIN (buf @ a)"
      and "drop V7_HEADER_MIN (buf @ a @ b) = drop V7_HEADER_MIN (buf @ a) @ b"
      and "\<not> length (buf @ a @ b) < V7_HEADER_MIN"
      by (simp_all flip: append_assoc del: append_assoc)
    then show ?thesis
      using False unfolding Header
      by (auto simp: DownloadFlow_feed_Header DownloadFlow_feed_Body body_feed_append and_then_def map_err_def
          simp del: append_assoc take_append drop_append length_append split: sum.split)
  qed
qed

interpretation download: stream_consumer "feed_of (DownloadFlow_push P)" for P
  by unfold_locales (rule DownloadFlow_feed_append)

subsection \<open>Chunking\<close>

function chunks_from :: "nat \<Rightarrow> 'a list \<Rightarrow> 'a list list" where
  "chunks_from n xs = (if n = 0 \<or> xs = [] then [] else take n xs # chunks_from n (drop n xs))"
  by pat_completeness auto
termination
  by (relation "measure (\<lambda>(n, xs). length xs)") auto

declare chunks_from.simps [simp del]

lemma chunks_from_Nil [simp]: "chunks_from n [] = []"
  by (subst chunks_from.simps) simp

lemma concat_chunks_from: "0 < n \<Longrightarrow> concat (chunks_from n xs) = xs"
  by (induction n xs rule: chunks_from.induct) (subst chunks_from.simps, auto)

lemma chunks_from_bound: "c \<in> set (chunks_from n xs) \<Longrightarrow> c \<noteq> [] \<and> length c \<le> n"
proof (induction n xs rule: chunks_from.induct)
  case (1 n xs)
  show ?case
    using 1(2) 1(1) by (subst (asm) chunks_from.simps) (auto split: if_splits)
qed

lemma length_chunks_from: "0 < n \<Longrightarrow> length (chunks_from n xs) = (length xs + n - 1) div n"
proof (induction n xs rule: chunks_from.induct)
  case (1 n xs)
  show ?case
  proof (cases "xs = []")
    case True
    then show ?thesis using 1(2) by simp
  next
    case False
    then have IH: "length (chunks_from n (drop n xs)) = (length xs - n + n - 1) div n"
      using 1 by simp
    have step: "length (chunks_from n xs) = Suc (length (chunks_from n (drop n xs)))"
      using False 1(2) by (subst chunks_from.simps) simp
    have pos: "1 \<le> length xs" using False by (simp add: Suc_le_eq)
    show ?thesis
    proof (cases "length xs \<le> n")
      case True
      then have "(length xs + n - 1) div n = 1"
        using pos 1(2) by (intro div_nat_eqI) simp_all
      then show ?thesis using True IH step 1(2) by simp
    next
      case more: False
      then have eq: "length xs + n - 1 = (length xs - 1) + n" and "length xs - n + n - 1 = length xs - 1"
        using pos by simp_all
      then have "length (chunks_from n xs) = Suc ((length xs - 1) div n)" using step IH by simp
      also have "\<dots> = (length xs - 1 + n) div n"
        using 1(2) div_add_self2 [of n "length xs - 1"] by simp
      finally show ?thesis by (simp only: eq)
    qed
  qed
qed

lemma sum_list_chunk_sizes: "sum_list (map (\<lambda>c. length c + k) cs) = length (concat cs) + k * length cs"
  by (induction cs) auto


subsection \<open>The upload loop is chunked encryption\<close>

lemma upload_frames_encrypt:
  assumes "offset < length pt" and "\<not> u_last_pushed flow"
    and "encrypt_all P (u_encryptor flow) (chunks_from V7_ENCRYPT_CHUNK_SIZE (drop offset pt)) = Inr (e', frs)"
  shows "upload_frames P flow pt offset = Inr (\<lparr>u_encryptor = e', u_last_pushed = True\<rparr>, frs)"
  using assms
proof (induction P flow pt offset arbitrary: frs rule: upload_frames.induct)
  case (1 P flow pt offset)
  let ?CS = V7_ENCRYPT_CHUNK_SIZE
  have cs: "0 < ?CS" by (simp add: V7_ENCRYPT_CHUNK_SIZE_def)
  define c where "c = take ?CS (drop offset pt)"
  define ep where "ep = min (offset + ?CS) (length pt)"
  have split: "chunks_from ?CS (drop offset pt) = c # chunks_from ?CS (drop ep pt)"
    using cs 1(2) by (subst chunks_from.simps) (auto simp: c_def ep_def min_def add.commute)
  have sl: "slice offset ep pt = c" using 1(2) by (auto simp: slice_def c_def ep_def min_def)
  obtain enc1 fr frs1 where step: "feed_of (StreamEncryptor_push P) (u_encryptor flow) c = Inr (enc1, fr)"
    and tail: "encrypt_all P enc1 (chunks_from ?CS (drop ep pt)) = Inr (e', frs1)" and frs: "frs = fr @ frs1"
    using 1(4) by (auto simp: split and_then_Inr_conv)
  from step have push: "StreamEncryptor_push P (u_encryptor flow) c = (enc1, Inr fr)"
    by (auto simp: feed_of_def split: prod.splits sum.splits)
  define fl1 where "fl1 = (if ep = length pt then flow\<lparr>u_last_pushed := True\<rparr> else flow)\<lparr>u_encryptor := enc1\<rparr>"
  have "ep \<noteq> length pt \<Longrightarrow> length c = ?CS" by (auto simp: c_def ep_def min_def split: if_splits)
  then have pc: "UploadFlow_push_chunk P flow c (ep = length pt) = (fl1, Inr fr)"
    using 1(3) push by (auto simp: UploadFlow_push_chunk_def Let_def fl1_def)
  have "upload_frames P fl1 pt ep = Inr (\<lparr>u_encryptor = e', u_last_pushed = True\<rparr>, frs1)"
  proof (cases "ep = length pt")
    case True
    then show ?thesis
      using tail by (subst upload_frames.simps) (simp add: fl1_def)
  next
    case False
    then have "ep < length pt" by (simp add: ep_def)
    then show ?thesis
      using 1(1) [OF 1(2) ep_def sl [symmetric] refl, unfolded pc, OF refl refl] 1(3) tail False
      by (simp add: fl1_def)
  qed
  then show ?case
    using 1(2) by (subst upload_frames.simps) (simp add: Let_def sl pc frs flip: ep_def)
qed

subsection \<open>End-to-end round trip\<close>

lemma chunks_from_ok: "list_all chunk_ok (chunks_from V7_ENCRYPT_CHUNK_SIZE xs)"
  using chunks_from_bound [of _ V7_ENCRYPT_CHUNK_SIZE xs]
  by (fastforce simp: list_all_iff chunk_ok_def V7_ENCRYPT_CHUNK_SIZE_def)

lemma chunk_count_bound:
  assumes "length xs \<le> (2 ^ 32 - 1) * V7_ENCRYPT_CHUNK_SIZE"
  shows "length (chunks_from V7_ENCRYPT_CHUNK_SIZE xs) < 2 ^ 32"
proof -
  have "(length xs + V7_ENCRYPT_CHUNK_SIZE - 1) div V7_ENCRYPT_CHUNK_SIZE
    \<le> ((2 ^ 32 - 1) * V7_ENCRYPT_CHUNK_SIZE + V7_ENCRYPT_CHUNK_SIZE - 1) div V7_ENCRYPT_CHUNK_SIZE"
    using assms by (intro div_le_mono) simp
  also have "\<dots> < 2 ^ 32" by (simp add: V7_ENCRYPT_CHUNK_SIZE_def)
  finally show ?thesis by (simp add: length_chunks_from V7_ENCRYPT_CHUNK_SIZE_def)
qed

lemma v7_cipher_size_exact:
  assumes "length xs \<le> (2 ^ 32 - 1) * V7_ENCRYPT_CHUNK_SIZE"
    and "length frs = sum_list (map (\<lambda>c. length c + V7_FRAME_OVERHEAD) (chunks_from V7_ENCRYPT_CHUNK_SIZE xs))"
  shows "v7_cipher_size (length xs) (word_of_nat V7_ENCRYPT_CHUNK_SIZE) =
    Done (V7_HEADER_MIN + length frs + V7_FOOTER_LEN)"
proof -
  let ?n = "(length xs + V7_ENCRYPT_CHUNK_SIZE - 1) div V7_ENCRYPT_CHUNK_SIZE"
  have n: "length (chunks_from V7_ENCRYPT_CHUNK_SIZE xs) = ?n"
    by (simp add: length_chunks_from V7_ENCRYPT_CHUNK_SIZE_def)
  have cs0: "0 < V7_ENCRYPT_CHUNK_SIZE" by (simp add: V7_ENCRYPT_CHUNK_SIZE_def)
  have frs: "length frs = length xs + 32 * ?n"
    using assms(2) cs0 by (simp add: sum_list_chunk_sizes concat_chunks_from n V7_FRAME_OVERHEAD_def)
  have "?n < 2 ^ 32" using chunk_count_bound [OF assms(1)] by (simp add: n)
  then have small: "1709 + ?n * 32 + length xs + 32 < 2 ^ 64"
    using assms(1) by (simp add: V7_ENCRYPT_CHUNK_SIZE_def)
  have un: "unat (word_of_nat V7_ENCRYPT_CHUNK_SIZE :: u32) = V7_ENCRYPT_CHUNK_SIZE"
    by (simp add: V7_ENCRYPT_CHUNK_SIZE_def unat_of_nat)
  then have "(word_of_nat V7_ENCRYPT_CHUNK_SIZE :: u32) \<noteq> 0"
    by (metis V7_ENCRYPT_CHUNK_SIZE_def mult_eq_0_iff unsigned_0 zero_neq_numeral)
  then show ?thesis
    using small frs un
    by (simp add: v7_cipher_size_def V7_HEADER_MIN_def V7_FOOTER_LEN_def V7_FRAME_OVERHEAD_def Let_def
        V7_ENCRYPT_CHUNK_SIZE_def)
qed

lemma download_blob:
  assumes "aead_correct P" and "mac_lengths P" and "length header = V7_HEADER_MIN"
    and "StreamDecryptor_new P header sk xk = Inr (decryptor_for e, V7_HEADER_MIN)"
    and "length (e_file_iv e) = 12" and "list_all chunk_ok cs" and "encrypt_all P e cs = Inr (e', frs)"
    and "concat pieces = header @ frs @ StreamEncryptor_finalize P e'"
  shows "download_file P sk xk pieces = Inr (concat cs)"
proof -
  define footer where "footer = StreamEncryptor_finalize P e'"
  have fl: "length footer = 32"
    using mac_lengths_simps [OF assms(2)] by (simp add: footer_def StreamEncryptor_finalize_def Hmac_finalize_def)
  have ne: "pieces \<noteq> []" using assms(3,8) by (auto simp: V7_HEADER_MIN_def)
  have trim: "FooterTrimmer_push (FooterTrimmer_new V7_FOOTER_LEN) (frs @ footer) =
    (\<lparr>t_trailing = footer, t_keep = 32\<rparr>, frs)"
    using fl by (simp add: FooterTrimmer_push_eq FooterTrimmer_new_def V7_FOOTER_LEN_def Let_def)
  have body: "body_feed P (FooterTrimmer_new V7_FOOTER_LEN) (decryptor_for e) (frs @ footer) =
    Inr ((\<lparr>t_trailing = footer, t_keep = 32\<rparr>, decryptor_for e'), concat cs)"
    by (simp add: body_feed_def trim decryptor_for_run [OF assms(1,5-7)])
  have "feed_all (feed_of (DownloadFlow_push P)) (DownloadFlow_new sk xk) pieces =
    feed_of (DownloadFlow_push P) (Header [] sk xk) (header @ frs @ footer)"
    using download.feed_all_concat [OF ne] assms(8) by (simp add: DownloadFlow_new_def footer_def)
  also have "\<dots> = Inr (Body \<lparr>t_trailing = footer, t_keep = 32\<rparr> (decryptor_for e'), concat cs)"
    using assms(3,4) body by (simp add: DownloadFlow_feed_Header)
  finally show ?thesis
    using fl
    by (simp add: download_file_def DownloadFlow_finalize_def FooterTrimmer_finalize_def StreamDecryptor_finalize_def
        decryptor_for_def V7_FOOTER_LEN_def footer_def StreamEncryptor_finalize_def)
qed

text \<open>
  C1. End-to-end round trip: for every file below the chunk-counter limit (about 2 PiB), the upload
  flow succeeds, the ciphertext has exactly the size it declared to the provider beforehand, and
  the download flow, fed that ciphertext in any pieces, returns the file.
\<close>

theorem upload_download_roundtrip:
  assumes "aead_correct P" and "mac_lengths P"
    and "kem_correct P mlkem_pub mlkem_sec x25519_pub x25519_sec" and "file_rand_ok r"
    and "length plaintext \<le> (2 ^ 32 - 1) * V7_ENCRYPT_CHUNK_SIZE"
  shows "\<exists>blob. upload_file P r mlkem_pub x25519_pub plaintext = Done (Inr (blob, length blob)) \<and>
    (\<forall>pieces. concat pieces = blob \<longrightarrow> download_file P mlkem_sec x25519_sec pieces = Inr plaintext)"
proof -
  let ?cs = "chunks_from V7_ENCRYPT_CHUNK_SIZE plaintext"
  obtain e header where new: "StreamEncryptor_new P r mlkem_pub x25519_pub = Inr (e, header)"
    and hl: "length header = V7_HEADER_MIN" and iv: "e_file_iv e = rnd_file_iv r"
    and ck: "e_content_key e = rnd_content_key (rnd_encap r)" and ix: "e_chunk_index e = 0"
    and dnew: "\<And>rest. StreamDecryptor_new P (header @ rest) mlkem_sec x25519_sec =
           Inr ((decryptor_for e)\<lparr>d_buf := rest\<rparr>, V7_HEADER_MIN)"
    by (rule StreamEncryptor_new_ok [OF assms(1-4)]) blast
  have lens: "length (e_file_iv e) = 12" "length (e_content_key e) = 32"
    using assms(4) by (simp_all add: iv ck file_rand_ok_def encap_rand_ok_def)
  have cat: "concat ?cs = plaintext" by (simp add: concat_chunks_from V7_ENCRYPT_CHUNK_SIZE_def)
  obtain e' frs where run: "encrypt_all P e ?cs = Inr (e', frs)"
    using encrypt_all_total [OF assms(1) lens chunks_from_ok [of plaintext]] chunk_count_bound [OF assms(5)] ix by auto
  define footer where "footer = StreamEncryptor_finalize P e'"
  have fl: "length footer = V7_FOOTER_LEN"
    using mac_lengths_simps [OF assms(2)]
    by (simp add: footer_def StreamEncryptor_finalize_def Hmac_finalize_def V7_FOOTER_LEN_def)
  have size: "v7_cipher_size (length plaintext) (word_of_nat V7_ENCRYPT_CHUNK_SIZE) = Done (length (header @ frs @ footer))"
    using v7_cipher_size_exact [OF assms(5), of frs] encrypt_all_decode [OF assms(1) lens(1) chunks_from_ok run, of "[]" "[]"]
    by (simp add: hl fl)
  define flow where "flow = \<lparr>u_encryptor = e, u_last_pushed = (plaintext = [])\<rparr>"
  have frames: "upload_frames P flow plaintext 0 = Inr (\<lparr>u_encryptor = e', u_last_pushed = True\<rparr>, frs)"
  proof (cases "plaintext = []")
    case True
    then show ?thesis using run by (subst upload_frames.simps) (simp add: flow_def)
  next
    case False
    then show ?thesis using upload_frames_encrypt [of 0 plaintext flow P e' frs] run by (simp add: flow_def)
  qed
  have up: "upload_file P r mlkem_pub x25519_pub plaintext = Done (Inr (header @ frs @ footer, length (header @ frs @ footer)))"
    using frames size by (simp add: upload_file_def UploadFlow_new_def new flow_def UploadFlow_finalize_def footer_def)
  have "StreamDecryptor_new P header mlkem_sec x25519_sec = Inr (decryptor_for e, V7_HEADER_MIN)"
    using dnew [of "[]"] by (simp add: decryptor_for_def)
  from download_blob [OF assms(1,2) hl this lens(1) chunks_from_ok run]
  have "\<forall>pieces. concat pieces = header @ frs @ footer \<longrightarrow> download_file P mlkem_sec x25519_sec pieces = Inr plaintext"
    by (simp add: cat footer_def)
  with up show ?thesis by blast
qed

theorem upload_download_roundtrip_witness:
  "\<exists>blob. upload_file toy_prims toy_rand (replicate 1568 0) (replicate 32 9) [1, 2, 3] = Done (Inr (blob, length blob)) \<and>
     download_file toy_prims (replicate 3168 0) (replicate 32 9) [take 5 blob, drop 5 blob] = Inr [1, 2, 3]"
  using upload_download_roundtrip [OF aead_correct_toy mac_lengths_toy kem_correct_toy [of "replicate 32 9"]
      toy_rand_ok, of "[1, 2, 3]"]
  by (force simp: V7_ENCRYPT_CHUNK_SIZE_def)

subsection \<open>The chunk writer\<close>

function full_parts :: "nat \<Rightarrow> 'a list \<Rightarrow> 'a list list" where
  "full_parts n xs = (if n = 0 \<or> length xs < n then [] else take n xs # full_parts n (drop n xs))"
  by pat_completeness auto
termination
  by (relation "measure (\<lambda>(n, xs). length xs)") auto

function last_part :: "nat \<Rightarrow> 'a list \<Rightarrow> 'a list" where
  "last_part n xs = (if n = 0 \<or> length xs < n then xs else last_part n (drop n xs))"
  by pat_completeness auto
termination
  by (relation "measure (\<lambda>(n, xs). length xs)") auto

declare full_parts.simps [simp del] last_part.simps [simp del]

lemma parts_short: "length xs < n \<Longrightarrow> full_parts n xs = [] \<and> last_part n xs = xs"
  by (subst full_parts.simps, subst last_part.simps) simp

lemma parts_full:
  "0 < n \<Longrightarrow> length p = n \<Longrightarrow> full_parts n (p @ xs) = p # full_parts n xs \<and> last_part n (p @ xs) = last_part n xs"
  by (subst full_parts.simps, subst last_part.simps) simp

lemma length_last_part: "0 < n \<Longrightarrow> length (last_part n xs) < n"
  by (induction n xs rule: last_part.induct) (subst last_part.simps, auto)

lemma parts_append:
  assumes "0 < n"
  shows "full_parts n (a @ b) = full_parts n a @ full_parts n (last_part n a @ b) \<and>
    last_part n (a @ b) = last_part n (last_part n a @ b)"
proof (induction n a rule: full_parts.induct)
  case (1 n a)
  show ?case
  proof (cases "n = 0 \<or> length a < n")
    case True
    then show ?thesis by (auto simp: full_parts.simps [of n a] last_part.simps [of n a])
  next
    case False
    then show ?thesis
      using 1 by (simp add: full_parts.simps [of n a] last_part.simps [of n a]
          full_parts.simps [of n "a @ b"] last_part.simps [of n "a @ b"])
  qed
qed

lemma chunks_from_parts:
  "0 < n \<Longrightarrow> chunks_from n xs = full_parts n xs @ (if last_part n xs = [] then [] else [last_part n xs])"
proof (induction n xs rule: full_parts.induct)
  case (1 n xs)
  show ?case
  proof (cases "length xs < n")
    case True
    then show ?thesis
      by (cases "xs = []") (simp_all add: parts_short chunks_from.simps [of n xs] 1(2))
  next
    case False
    then have "xs \<noteq> []" using 1(2) by auto
    then show ?thesis
      using 1 False by (simp add: chunks_from.simps [of n xs] full_parts.simps [of n xs] last_part.simps [of n xs])
  qed
qed

lemma not_isl_unit: "\<not> isl (r :: 'e + unit) \<Longrightarrow> r = Inr ()"
  by (cases r) auto

text \<open>The provider's view: the parts in order with consecutive indices, up to the first error.\<close>

fun put_seq :: "'w put_chunk \<Rightarrow> 'w \<Rightarrow> nat \<Rightarrow> bytes list \<Rightarrow> 'w \<times> (SdkError + unit)" where
  "put_seq put w i [] = (w, Inr ())"
| "put_seq put w i (c # cs) =
     (let (w1, r) = put w i c in if isl r then (w1, r) else put_seq put w1 (i + 1) cs)"

lemma put_seq_append:
  "put_seq put w i (as @ bs) =
     (let (w1, r) = put_seq put w i as in if isl r then (w1, r) else put_seq put w1 (i + length as) bs)"
  by (induction as arbitrary: w i) (auto simp: Let_def split: prod.split)

definition cw_ok :: "ChunkWriter \<Rightarrow> bool" where
  "cw_ok cw \<longleftrightarrow> cw_used cw < cw_flush_at cw \<and> length (cw_buf cw) = cw_flush_at cw"

definition pending :: "ChunkWriter \<Rightarrow> bytes" where
  "pending cw = take (cw_used cw) (cw_buf cw)"

lemma length_pending: "cw_ok cw \<Longrightarrow> length (pending cw) = cw_used cw"
  by (simp add: cw_ok_def pending_def)

definition cw_done :: "'w put_chunk \<Rightarrow> ChunkWriter \<Rightarrow> 'w \<Rightarrow> bytes \<Rightarrow> ChunkWriter \<Rightarrow> 'w \<Rightarrow> SdkError + unit \<Rightarrow> bool" where
  "cw_done put cw w all cw' w' r \<longleftrightarrow>
     put_seq put w (cw_chunk_index cw) (full_parts (cw_flush_at cw) all) = (w', r) \<and>
     (isl r \<or> cw_ok cw' \<and> cw_flush_at cw' = cw_flush_at cw \<and> pending cw' = last_part (cw_flush_at cw) all \<and>
        cw_chunk_index cw' = cw_chunk_index cw + length (full_parts (cw_flush_at cw) all))"

lemma ChunkWriter_flush_ok:
  assumes "cw_used cw \<le> length (cw_buf cw)"
  shows "ChunkWriter_flush put cw w = (let (w1, r) = put w (cw_chunk_index cw) (pending cw) in
    (cw\<lparr>cw_buf := replicate (cw_used cw) 0 @ drop (cw_used cw) (cw_buf cw),
        cw_bytes_flushed := cw_bytes_flushed cw + cw_used cw, cw_used := 0,
        cw_chunk_index := cw_chunk_index cw + 1\<rparr>, w1, r))"
  using assms by (simp add: ChunkWriter_flush_def pending_def Let_def split: prod.split)

text \<open>One turn of the loop: \<open>k\<close> bytes are copied behind the pending ones.\<close>

lemma ChunkWriter_write_step:
  assumes "cw_ok cw" and "offset < length bs"
  defines "k \<equiv> min (length bs - offset) (cw_flush_at cw - cw_used cw)"
  defines "cw1 \<equiv> cw\<lparr>cw_buf := copy_at (cw_used cw) (slice offset (offset + k) bs) (cw_buf cw),
      cw_used := cw_used cw + k\<rparr>"
  shows "0 < k" and "offset + k \<le> length bs" and "length (cw_buf cw1) = cw_flush_at cw"
    and "pending cw1 @ drop (offset + k) bs = pending cw @ drop offset bs"
    and "cw_used cw1 \<le> cw_flush_at cw" and "cw_flush_at cw1 = cw_flush_at cw"
    and "cw_chunk_index cw1 = cw_chunk_index cw"
    and "ChunkWriter_write_loop put bs offset cw w =
      (if cw_used cw1 = cw_flush_at cw then
         let (cw2, w2, result) = ChunkWriter_flush put cw1 w
         in if isl result then Some (cw2, w2, result) else ChunkWriter_write_loop put bs (offset + k) cw2 w2
       else ChunkWriter_write_loop put bs (offset + k) cw1 w)"
proof -
  note ok = assms(1) [unfolded cw_ok_def]
  show k: "0 < k" "offset + k \<le> length bs" using assms(2) ok by (auto simp: k_def)
  have room: "cw_used cw + k \<le> length (cw_buf cw)" using ok by (auto simp: k_def)
  have sl: "length (slice offset (offset + k) bs) = k" using k(2) by simp
  show "length (cw_buf cw1) = cw_flush_at cw" using room sl ok by (simp add: cw1_def)
  have "drop offset bs = slice offset (offset + k) bs @ drop (offset + k) bs"
    by (metis append_take_drop_id add_diff_cancel_left' drop_drop add.commute slice_def)
  then show "pending cw1 @ drop (offset + k) bs = pending cw @ drop offset bs"
    using room sl by (simp add: pending_def cw1_def copy_at_def)
  show "cw_used cw1 \<le> cw_flush_at cw" "cw_flush_at cw1 = cw_flush_at cw" "cw_chunk_index cw1 = cw_chunk_index cw"
    using room ok by (simp_all add: cw1_def)
  show "ChunkWriter_write_loop put bs offset cw w =
      (if cw_used cw1 = cw_flush_at cw then
         let (cw2, w2, result) = ChunkWriter_flush put cw1 w
         in if isl result then Some (cw2, w2, result) else ChunkWriter_write_loop put bs (offset + k) cw2 w2
       else ChunkWriter_write_loop put bs (offset + k) cw1 w)"
    using assms(2) room by (subst ChunkWriter_write_loop.simps, unfold Let_def, fold k_def) (simp add: cw1_def)
qed

lemma ChunkWriter_write_loop_ok:
  assumes "cw_ok cw" and "offset \<le> length bs"
  shows "\<exists>cw' w' r. ChunkWriter_write_loop put bs offset cw w = Some (cw', w', r) \<and>
    cw_done put cw w (pending cw @ drop offset bs) cw' w' r"
  using assms
proof (induction "length bs - offset" arbitrary: offset cw w rule: less_induct)
  case less
  let ?n = "cw_flush_at cw" and ?all = "pending cw @ drop offset bs"
  have used: "cw_used cw < ?n" and n0: "0 < ?n" using less.prems(1) by (auto simp: cw_ok_def)
  show ?case
  proof (cases "offset < length bs")
    case False
    then have "full_parts ?n ?all = [] \<and> last_part ?n ?all = pending cw"
      using parts_short [of "pending cw" ?n] used length_pending [OF less.prems(1)] by simp
    then show ?thesis
      using False less.prems(1) by (subst ChunkWriter_write_loop.simps) (simp add: cw_done_def)
  next
    case True
    define k where "k = min (length bs - offset) (?n - cw_used cw)"
    define cw1 where "cw1 = cw\<lparr>cw_buf := copy_at (cw_used cw) (slice offset (offset + k) bs) (cw_buf cw),
      cw_used := cw_used cw + k\<rparr>"
    note step = ChunkWriter_write_step [OF less.prems(1) True, folded k_def, folded cw1_def]
    note k = step(1,2) and buf1 = step(3) and all = step(4) and le = step(5) and same = step(6,7) and loop = step(8)
    have dec: "length bs - (offset + k) < length bs - offset" using True k by simp
    show ?thesis
    proof (cases "cw_used cw1 = ?n")
      case full: True
      obtain w1 r where put: "put w (cw_chunk_index cw) (pending cw1) = (w1, r)" by force
      obtain cw2 where fl: "ChunkWriter_flush put cw1 w = (cw2, w1, r)" and cw2: "cw_ok cw2" "pending cw2 = []"
        "cw_flush_at cw2 = ?n" "cw_chunk_index cw2 = cw_chunk_index cw + 1"
        using ChunkWriter_flush_ok [of cw1 put w] put full buf1 same n0 by (simp add: cw_ok_def pending_def)
      have "length (pending cw1) = ?n" using full buf1 by (simp add: pending_def)
      then have parts: "full_parts ?n ?all = pending cw1 # full_parts ?n (drop (offset + k) bs)"
        "last_part ?n ?all = last_part ?n (drop (offset + k) bs)"
        using parts_full [OF n0, of "pending cw1" "drop (offset + k) bs"] by (simp_all add: all)
      obtain cw' w' r' where "ChunkWriter_write_loop put bs (offset + k) cw2 w1 = Some (cw', w', r')"
        "cw_done put cw2 w1 (drop (offset + k) bs) cw' w' r'"
        using less.hyps [OF dec cw2(1) k(2), of w1] cw2(2) by auto
      then show ?thesis
        using full by (cases "isl r") (simp_all add: loop fl cw_done_def parts put cw2)
    next
      case False
      then have "cw_ok cw1" using le buf1 same by (simp add: cw_ok_def)
      from less.hyps [OF dec this k(2), of w] show ?thesis
        using False by (simp add: loop cw_done_def same all)
    qed
  qed
qed

fun ChunkWriter_write_all ::
  "'w put_chunk \<Rightarrow> ChunkWriter \<Rightarrow> bytes list \<Rightarrow> 'w \<Rightarrow> (ChunkWriter \<times> 'w \<times> (SdkError + unit)) option" where
  "ChunkWriter_write_all put cw [] w = Some (cw, w, Inr ())"
| "ChunkWriter_write_all put cw (b # bs) w =
     (case ChunkWriter_write put cw b w of
        None \<Rightarrow> None
      | Some (cw1, w1, r) \<Rightarrow> if isl r then Some (cw1, w1, r) else ChunkWriter_write_all put cw1 bs w1)"

text \<open>The documented use: write every frame, then finish, stopping at the first error.\<close>

definition write_parts :: "'w put_chunk \<Rightarrow> ChunkWriter \<Rightarrow> bytes list \<Rightarrow> 'w \<Rightarrow> ('w \<times> (SdkError + unit)) option" where
  "write_parts put cw frames w =
     (case ChunkWriter_write_all put cw frames w of
        None \<Rightarrow> None
      | Some (cw1, w1, r) \<Rightarrow>
          if isl r then Some (w1, r) else (case ChunkWriter_finish put cw1 w1 of (cw2, w2, r2) \<Rightarrow> Some (w2, r2)))"

lemma cw_done_trans:
  assumes "0 < cw_flush_at cw" and "cw_done put cw w a cw1 w1 r1" and "\<not> isl r1"
    and "cw_done put cw1 w1 (pending cw1 @ b) cw2 w2 r2"
  shows "cw_done put cw w (a @ b) cw2 w2 r2"
  using assms parts_append [OF assms(1), of a b]
  by (auto simp: cw_done_def put_seq_append Let_def split: prod.splits if_splits)

lemma ChunkWriter_write_all_ok:
  assumes "cw_ok cw"
  shows "\<exists>cw' w' r. ChunkWriter_write_all put cw ds w = Some (cw', w', r) \<and>
    cw_done put cw w (pending cw @ concat ds) cw' w' r"
  using assms
proof (induction ds arbitrary: cw w)
  case Nil
  then show ?case
    using parts_short [of "pending cw" "cw_flush_at cw"] length_pending [OF Nil] by (simp add: cw_done_def cw_ok_def)
next
  case (Cons d ds)
  obtain cw1 w1 r1 where run: "ChunkWriter_write put cw d w = Some (cw1, w1, r1)"
    and done1: "cw_done put cw w (pending cw @ d) cw1 w1 r1"
    using ChunkWriter_write_loop_ok [OF Cons.prems, of 0 d put w] by (auto simp: ChunkWriter_write_def)
  have n0: "0 < cw_flush_at cw" using Cons.prems by (auto simp: cw_ok_def)
  show ?case
  proof (cases "isl r1")
    case True
    then have "cw_done put cw w (pending cw @ concat (d # ds)) cw1 w1 r1"
      using done1 parts_append [OF n0, of "pending cw @ d" "concat ds"]
      by (auto simp: cw_done_def put_seq_append)
    then show ?thesis using True run by simp
  next
    case False
    then have "cw_ok cw1" using done1 by (auto simp: cw_done_def)
    from Cons.IH [OF this, of w1] show ?thesis
      using run False cw_done_trans [OF n0 done1 False] by auto
  qed
qed

text \<open>
  The chunk writer delivers the byte stream to the provider in parts of exactly \<open>flush_at\<close>
  bytes, a shorter last part, and consecutive indices from 0, however the caller cuts its writes
  and whatever the provider answers; it terminates and stops at the provider's first error, which
  it returns.
\<close>

theorem chunk_writer_parts:
  assumes "ChunkWriter_new flush_at = Inr cw"
  shows "write_parts put cw ds w = Some (put_seq put w 0 (chunks_from flush_at (concat ds)))"
proof -
  have cw: "cw_ok cw" "pending cw = []" "cw_flush_at cw = flush_at" "cw_chunk_index cw = 0" and n0: "0 < flush_at"
    using assms by (auto simp: ChunkWriter_new_def cw_ok_def pending_def split: if_splits)
  obtain cw1 w1 r1 where run: "ChunkWriter_write_all put cw ds w = Some (cw1, w1, r1)"
    and d: "cw_done put cw w (concat ds) cw1 w1 r1"
    using ChunkWriter_write_all_ok [OF cw(1), of put ds w] cw(2) by auto
  show ?thesis
  proof (cases "isl r1")
    case True
    then show ?thesis
      using d run by (simp add: write_parts_def cw_done_def cw chunks_from_parts [OF n0] put_seq_append)
  next
    case False
    then have "cw_ok cw1" and p: "pending cw1 = last_part flush_at (concat ds)"
      using d by (auto simp: cw_done_def cw)
    then have "cw_used cw1 = length (last_part flush_at (concat ds))" and "cw_used cw1 \<le> length (cw_buf cw1)"
      using length_pending [of cw1] by (auto simp: cw_ok_def)
    then show ?thesis
      using d run False p
      by (auto simp: write_parts_def ChunkWriter_finish_def ChunkWriter_flush_ok cw_done_def cw
          chunks_from_parts [OF n0] put_seq_append Let_def dest: not_isl_unit split: prod.split)
  qed
qed

theorem chunk_writer_parts_witness:
  "\<exists>cw. ChunkWriter_new 2 = Inr cw \<and>
     write_parts (\<lambda>w i d. (w @ [(i, d)], Inr ())) cw [[1], [2, 3, 4], [5]] [] =
       Some ([(0, [1, 2]), (1, [3, 4]), (2, [5])], Inr ())"
proof -
  obtain cw where cw: "ChunkWriter_new 2 = Inr cw" by (simp add: ChunkWriter_new_def)
  have "chunks_from 2 [1, 2, 3, 4, 5 :: u8] = [[1, 2], [3, 4], [5]]" by (simp add: chunks_from.simps)
  then show ?thesis
    using cw chunk_writer_parts [OF cw, of "\<lambda>w i d. (w @ [(i, d)], Inr ())" "[[1], [2, 3, 4], [5]]" "[]"] by simp
qed

subsection \<open>Share links\<close>

definition manifest_chunks :: "bytes \<Rightarrow> bytes list" where
  "manifest_chunks m = (if m = [] then [[]] else chunks_from MANIFEST_CHUNK_SIZE m)"

lemma manifest_loop_encrypt:
  assumes "offset \<le> length m"
    and "encrypt_all P \<lparr>e_file_iv = iv, e_content_key = ck, e_hmac = h, e_chunk_index = i\<rparr>
           (manifest_chunks (drop offset m)) = Inr (e', frs)"
  shows "manifest_loop P m ck iv i offset h out = Inr (e_hmac e', out @ frs)"
  using assms
proof (induction P m ck iv i offset h out arbitrary: frs rule: manifest_loop.induct)
  case (1 P m ck iv i offset h out)
  let ?CS = MANIFEST_CHUNK_SIZE
  have cs: "0 < ?CS" by (simp add: MANIFEST_CHUNK_SIZE_def)
  define e where "e = \<lparr>e_file_iv = iv, e_content_key = ck, e_hmac = h, e_chunk_index = i\<rparr>"
  define c where "c = take ?CS (drop offset m)"
  define ep where "ep = min (offset + ?CS) (length m)"
  define rest where "rest = (if ep < length m then manifest_chunks (drop ep m) else [])"
  have split: "manifest_chunks (drop offset m) = c # rest"
  proof (cases "drop offset m = []")
    case True
    then show ?thesis by (simp add: manifest_chunks_def c_def rest_def ep_def)
  next
    case False
    then show ?thesis
      using cs by (auto simp: manifest_chunks_def c_def rest_def ep_def chunks_from.simps [of ?CS "drop offset m"] add.commute)
  qed
  have sl: "slice offset ep m = c" using 1(2) by (auto simp: slice_def c_def ep_def min_def)
  obtain e1 fr frs1 where step: "feed_of (StreamEncryptor_push P) e c = Inr (e1, fr)"
    and tail: "encrypt_all P e1 rest = Inr (e', frs1)" and frs: "frs = fr @ frs1"
    using 1(3) by (auto simp: split e_def and_then_Inr_conv)
  from step obtain ct where ct: "encrypt_file_v7_chunk P c ck iv i = Inr ct"
    and idx: "checked_add1_u32 i = Some (e_chunk_index e1)"
    and e1: "e1 = \<lparr>e_file_iv = iv, e_content_key = ck, e_hmac = Hmac_update ct (Hmac_update (u32_to_le i) h),
                   e_chunk_index = e_chunk_index e1\<rparr>"
    and fr: "fr = frame_bytes (v7_chunk_nonce iv i) ct"
    by (auto simp: feed_of_def StreamEncryptor_push_def e_def Let_def split: sum.splits option.splits)
  show ?case
  proof (cases "ep < length m")
    case False
    then have "frs1 = [] \<and> e' = e1" using tail by (simp add: rest_def)
    moreover have "e_hmac e1 = Hmac_update ct (Hmac_update (u32_to_le i) h)" by (subst e1) simp
    ultimately show ?thesis
      using False by (subst manifest_loop.simps) (simp add: Let_def sl ct idx frs fr flip: ep_def)
  next
    case True
    have "manifest_loop P m ck iv (e_chunk_index e1) ep (Hmac_update ct (Hmac_update (u32_to_le i) h)) (out @ fr)
      = Inr (e_hmac e', (out @ fr) @ frs1)"
      unfolding fr
      by (rule 1(1) [OF ep_def sl [symmetric] refl refl refl idx]) (use True tail e1 in \<open>simp_all add: rest_def\<close>)
    then show ?thesis
      using True by (subst manifest_loop.simps) (simp add: Let_def sl ct idx frs fr flip: ep_def)
  qed
qed

lemma manifest_chunks_ok:
  assumes "length m \<le> (2 ^ 32 - 1) * MANIFEST_CHUNK_SIZE"
  shows "list_all chunk_ok (manifest_chunks m)" and "concat (manifest_chunks m) = m"
    and "length (manifest_chunks m) < 2 ^ 32"
proof -
  have eq: "MANIFEST_CHUNK_SIZE = V7_ENCRYPT_CHUNK_SIZE" by (simp add: MANIFEST_CHUNK_SIZE_def V7_ENCRYPT_CHUNK_SIZE_def)
  show "list_all chunk_ok (manifest_chunks m)"
    using chunks_from_ok [of m] by (simp add: manifest_chunks_def eq chunk_ok_def)
  show "concat (manifest_chunks m) = m"
    by (simp add: manifest_chunks_def concat_chunks_from MANIFEST_CHUNK_SIZE_def)
  show "length (manifest_chunks m) < 2 ^ 32"
    using chunk_count_bound [of m] assms by (simp add: manifest_chunks_def eq)
qed

text \<open>
  Share links: a bundle manifest encrypted under the key of a share link is a V7 blob whose
  header the share-link decryptor accepts with that key, and whose body, in any pieces, decrypts
  to the manifest with a footer that verifies.
\<close>

theorem share_manifest_roundtrip:
  assumes "aead_correct P" and "mac_lengths P" and "length ck = 32" and "length iv = 12"
    and "length m \<le> (2 ^ 32 - 1) * MANIFEST_CHUNK_SIZE"
  shows "\<exists>header body footer d. encrypt_manifest_v7 P iv m ck = Inr (header @ body @ footer) \<and>
    length header = V7_HEADER_MIN \<and> ShareDecryptor_new P header ck = Inr (d, V7_HEADER_MIN) \<and>
    (\<forall>pieces. pieces \<noteq> [] \<and> concat pieces = body \<longrightarrow>
       (\<exists>d'. feed_all (feed_of (ShareDecryptor_push P)) d pieces = Inr (d', m) \<and>
             ShareDecryptor_finalize P d' footer = Inr ()))"
proof -
  obtain hk where hk: "hkdf_sha256 P ck CHUNK_HMAC_V1 32 = Inr hk"
    using hkdf_sha256_ok [OF assms(2), of 32 ck CHUNK_HMAC_V1] by auto
  define e where "e = \<lparr>e_file_iv = iv, e_content_key = ck, e_hmac = Hmac_new hk, e_chunk_index = 0\<rparr>"
  note cs = manifest_chunks_ok [OF assms(5)]
  have lens: "length (e_file_iv e) = 12" "length (e_content_key e) = 32" using assms(3,4) by (simp_all add: e_def)
  obtain e' frs where run: "encrypt_all P e (manifest_chunks m) = Inr (e', frs)"
    using encrypt_all_total [OF assms(1) lens cs(1)] cs(3) by (auto simp: e_def)
  define header where "header = [FILE_FORMAT_V7] @ iv @ replicate 32 0 @ replicate 1568 0 @
                u32_to_le 60 @ replicate 60 0 @ blake2b_256 P (ck @ iv)"
  define footer where "footer = Hmac_finalize P (e_hmac e')"
  have kc: "length (blake2b_256 P (ck @ iv)) = 32"
    using mac_lengths_simps [OF assms(2)] by (simp add: blake2b_256_def)
  have hl: "length header = V7_HEADER_MIN" using assms(4) kc by (simp add: header_def V7_HEADER_MIN_def)
  have fl: "length footer = 32" using mac_lengths_simps [OF assms(2)] by (simp add: footer_def Hmac_finalize_def)
  have enc: "encrypt_manifest_v7 P iv m ck = Inr (header @ frs @ footer)"
    using manifest_loop_encrypt [of 0 m P iv ck "Hmac_new hk" 0 e' frs header] run
    by (simp add: encrypt_manifest_v7_def Let_def hk header_def footer_def e_def)
  have "slice (Suc 0) 13 header = iv" "slice 1677 1709 header = blake2b_256 P (ck @ iv)" "header ! 0 = FILE_FORMAT_V7"
    using assms(4) kc by (simp_all add: header_def slice_def)
  then have new: "ShareDecryptor_new P header ck = Inr (share_view (decryptor_for e), V7_HEADER_MIN)"
    using assms(3,4) hl by (simp add: ShareDecryptor_new_def Let_def hk V7_HEADER_MIN_def Nonce12_from_slice_def
        SymmetricKey_from_slice_def share_view_def decryptor_for_def e_def)
  have "feed_all (feed_of (ShareDecryptor_push P)) (share_view (decryptor_for e)) pieces =
      Inr (share_view (decryptor_for e'), m) \<and>
    ShareDecryptor_finalize P (share_view (decryptor_for e')) footer = Inr ()"
    if "pieces \<noteq> [] \<and> concat pieces = frs" for pieces
    using that decryptor_for_run [OF assms(1) lens(1) cs(1) run] fl
    by (simp add: share_dec.feed_all_concat ShareDecryptor_feed_view cs(2) ShareDecryptor_finalize_def
        V7_FOOTER_LEN_def footer_def) (simp add: decryptor_for_def)
  with enc hl new show ?thesis by blast
qed

theorem share_manifest_roundtrip_witness:
  "\<exists>header body footer d d'.
    encrypt_manifest_v7 toy_prims (replicate 12 5) [104, 105] (replicate 32 3) = Inr (header @ body @ footer) \<and>
    ShareDecryptor_new toy_prims header (replicate 32 3) = Inr (d, V7_HEADER_MIN) \<and>
    feed_all (feed_of (ShareDecryptor_push toy_prims)) d [body] = Inr (d', [104, 105]) \<and>
    ShareDecryptor_finalize toy_prims d' footer = Inr ()"
proof -
  have "length [104, 105 :: u8] \<le> (2 ^ 32 - 1) * MANIFEST_CHUNK_SIZE" by (simp add: MANIFEST_CHUNK_SIZE_def)
  from share_manifest_roundtrip [OF aead_correct_toy mac_lengths_toy _ _ this, of "replicate 32 3" "replicate 12 5"]
  obtain header body footer d where
    "encrypt_manifest_v7 toy_prims (replicate 12 5) [104, 105] (replicate 32 3) = Inr (header @ body @ footer)"
    "ShareDecryptor_new toy_prims header (replicate 32 3) = Inr (d, V7_HEADER_MIN)"
    and all: "\<forall>pieces. pieces \<noteq> [] \<and> concat pieces = body \<longrightarrow>
       (\<exists>d'. feed_all (feed_of (ShareDecryptor_push toy_prims)) d pieces = Inr (d', [104, 105]) \<and>
             ShareDecryptor_finalize toy_prims d' footer = Inr ())"
    by auto
  moreover have "\<exists>d'. feed_all (feed_of (ShareDecryptor_push toy_prims)) d [body] = Inr (d', [104, 105]) \<and>
             ShareDecryptor_finalize toy_prims d' footer = Inr ()"
    using all [rule_format, of "[body]"] by simp
  ultimately show ?thesis by blast
qed

end
