(* ===== verification/Vault_Format.thy ===== *)
theory Vault_Format
  imports Crypto_Prims
begin

text \<open>
  The vault header (\<open>sdk-core/src/byo/vault_format.rs\<close>): device slots, the 1227-byte v2 layout,
  the 839-byte v1 layout that is only read, and the queries on the slots.  The serializer fills a
  zeroed buffer at fixed offsets, the parsers read slices at the same offsets.  The device slots
  are a provider of the interface \<open>fixed_codec\<close>.
\<close>

definition VAULT_MAGIC :: bytes where "VAULT_MAGIC = as_bytes ''SCVAULT'' @ [0]"
definition VAULT_FORMAT_VERSION :: u16 where "VAULT_FORMAT_VERSION = 2"
definition VAULT_FORMAT_VERSION_V1 :: u16 where "VAULT_FORMAT_VERSION_V1 = 1"
definition VAULT_HEADER_SIZE :: nat where "VAULT_HEADER_SIZE = 1227"
definition VAULT_HEADER_SIZE_V1 :: nat where "VAULT_HEADER_SIZE_V1 = 839"
definition VAULT_DEVICE_SLOT_SIZE :: nat where "VAULT_DEVICE_SLOT_SIZE = 125"
definition VAULT_DEVICE_SLOT_SIZE_V1 :: nat where "VAULT_DEVICE_SLOT_SIZE_V1 = 77"
definition VAULT_MAX_DEVICES :: nat where "VAULT_MAX_DEVICES = 8"
definition VAULT_HMAC_OFFSET :: nat where "VAULT_HMAC_OFFSET = 1195"
definition VAULT_HMAC_OFFSET_V1 :: nat where "VAULT_HMAC_OFFSET_V1 = 807"
definition VAULT_REVOCATION_EPOCH_OFFSET :: nat where "VAULT_REVOCATION_EPOCH_OFFSET = 1191"

lemmas vault_consts = VAULT_HEADER_SIZE_def VAULT_HEADER_SIZE_V1_def VAULT_DEVICE_SLOT_SIZE_def
  VAULT_DEVICE_SLOT_SIZE_V1_def VAULT_MAX_DEVICES_def VAULT_HMAC_OFFSET_def VAULT_HMAC_OFFSET_V1_def
  VAULT_REVOCATION_EPOCH_OFFSET_def

subsection \<open>Device slots\<close>

datatype SlotStatus = Empty | Active

definition SlotStatus_byte :: "SlotStatus \<Rightarrow> u8" where
  "SlotStatus_byte st = (case st of Empty \<Rightarrow> 0x00 | Active \<Rightarrow> 0x01)"

definition SlotStatus_from_byte :: "u8 \<Rightarrow> VaultError + SlotStatus" where
  "SlotStatus_from_byte b =
     (if b = 0x00 then Inr Empty else if b = 0x01 then Inr Active
      else Inl (InvalidHeader (''invalid slot status byte: '' @ show_hex_byte b)))"

record DeviceSlot =
  status :: SlotStatus
  device_id :: bytes
  wrap_iv :: bytes
  encrypted_payload :: bytes
  signing_key_wrapped :: bytes

definition DeviceSlot_empty :: DeviceSlot where
  "DeviceSlot_empty = \<lparr>status = Empty, device_id = replicate 16 0, wrap_iv = replicate 12 0,
     encrypted_payload = replicate 48 0, signing_key_wrapped = replicate 48 0\<rparr>"

definition DeviceSlot_active :: "bytes \<Rightarrow> bytes \<Rightarrow> bytes \<Rightarrow> DeviceSlot" where
  "DeviceSlot_active did iv payload = \<lparr>status = Active, device_id = did, wrap_iv = iv,
     encrypted_payload = payload, signing_key_wrapped = replicate 48 0\<rparr>"

definition DeviceSlot_active_with_signing_key :: "bytes \<Rightarrow> bytes \<Rightarrow> bytes \<Rightarrow> bytes \<Rightarrow> DeviceSlot" where
  "DeviceSlot_active_with_signing_key did iv payload skw = \<lparr>status = Active, device_id = did, wrap_iv = iv,
     encrypted_payload = payload, signing_key_wrapped = skw\<rparr>"

definition has_signing_key :: "DeviceSlot \<Rightarrow> bool" where
  "has_signing_key s \<longleftrightarrow> signing_key_wrapped s \<noteq> replicate 48 0"

definition DeviceSlot_to_bytes :: "DeviceSlot \<Rightarrow> bytes" where
  "DeviceSlot_to_bytes s =
     (let buf = replicate VAULT_DEVICE_SLOT_SIZE 0;
          buf = copy_at 0 [SlotStatus_byte (status s)] buf;
          buf = copy_at 1 (device_id s) buf;
          buf = copy_at 17 (wrap_iv s) buf;
          buf = copy_at 29 (encrypted_payload s) buf
      in copy_at 77 (signing_key_wrapped s) buf)"

definition DeviceSlot_from_bytes :: "bytes \<Rightarrow> VaultError + DeviceSlot" where
  "DeviceSlot_from_bytes data =
     (if length data \<noteq> VAULT_DEVICE_SLOT_SIZE then
        Inl (InvalidHeader (''device slot must be '' @ show_nat VAULT_DEVICE_SLOT_SIZE @ '' bytes, got '' @
               show_nat (length data)))
      else and_then (SlotStatus_from_byte (data ! 0)) (\<lambda>st.
        Inr \<lparr>status = st, device_id = slice 1 17 data, wrap_iv = slice 17 29 data,
              encrypted_payload = slice 29 77 data, signing_key_wrapped = slice 77 125 data\<rparr>))"

definition DeviceSlot_from_bytes_v1 :: "bytes \<Rightarrow> VaultError + DeviceSlot" where
  "DeviceSlot_from_bytes_v1 data =
     (if length data \<noteq> VAULT_DEVICE_SLOT_SIZE_V1 then
        Inl (InvalidHeader (''v1 device slot must be '' @ show_nat VAULT_DEVICE_SLOT_SIZE_V1 @ '' bytes, got '' @
               show_nat (length data)))
      else and_then (SlotStatus_from_byte (data ! 0)) (\<lambda>st.
        Inr \<lparr>status = st, device_id = slice 1 17 data, wrap_iv = slice 17 29 data,
              encrypted_payload = slice 29 77 data, signing_key_wrapped = replicate 48 0\<rparr>))"

subsection \<open>Header\<close>

record VaultHeader =
  format_version :: u16
  argon2_memory_kb :: u32
  argon2_iterations :: u32
  argon2_parallelism :: u32
  master_salt :: bytes
  vault_id :: bytes
  pass_wrap_iv :: bytes
  pass_wrapped_vault_key :: bytes
  recovery_wrap_iv :: bytes
  recovery_wrapped_vault_key :: bytes
  device_slots :: "DeviceSlot list"
  revocation_epoch :: u32
  header_hmac :: bytes

text \<open>\<open>.filter(|s| s.status == Active).count() as u8\<close> truncates to 8 bits.\<close>

definition active_count :: "DeviceSlot list \<Rightarrow> u8" where
  "active_count slots = word_of_nat (length (filter (\<lambda>s. status s = Active) slots))"

definition VaultHeader_parse_v2 :: "bytes \<Rightarrow> VaultError + VaultHeader" where
  "VaultHeader_parse_v2 data =
     (if length data < VAULT_HEADER_SIZE then
        Inl (InvalidHeader (''v2 header must be at least '' @ show_nat VAULT_HEADER_SIZE @ '' bytes, got '' @
               show_nat (length data)))
      else
        let declared_active_count = data ! 190 in
        and_then (try_map (\<lambda>i. DeviceSlot_from_bytes
            (slice (191 + i * VAULT_DEVICE_SLOT_SIZE) (191 + i * VAULT_DEVICE_SLOT_SIZE + VAULT_DEVICE_SLOT_SIZE) data))
            [0..<VAULT_MAX_DEVICES]) (\<lambda>slots.
        if length slots \<noteq> VAULT_MAX_DEVICES then
          Inl (InvalidHeader (''expected '' @ show_nat VAULT_MAX_DEVICES @ '' device slots, got '' @
                 show_nat (length slots)))
        else
          let actual_active_count = active_count slots in
          if declared_active_count \<noteq> actual_active_count then
            Inl (InvalidHeader (''active_device_count byte '' @ show_nat (unat declared_active_count) @
                   '' disagrees with actual slot statuses ('' @ show_nat (unat actual_active_count) @ '')''))
          else
            Inr \<lparr>format_version = u16_from_le (slice 8 10 data),
                  argon2_memory_kb = u32_from_le (slice 10 14 data),
                  argon2_iterations = u32_from_le (slice 14 18 data),
                  argon2_parallelism = u32_from_le (slice 18 22 data),
                  master_salt = slice 22 54 data, vault_id = slice 54 70 data,
                  pass_wrap_iv = slice 70 82 data, pass_wrapped_vault_key = slice 82 130 data,
                  recovery_wrap_iv = slice 130 142 data, recovery_wrapped_vault_key = slice 142 190 data,
                  device_slots = slots,
                  revocation_epoch = u32_from_le (slice VAULT_REVOCATION_EPOCH_OFFSET (VAULT_REVOCATION_EPOCH_OFFSET + 4) data),
                  header_hmac = slice VAULT_HMAC_OFFSET (VAULT_HMAC_OFFSET + 32) data\<rparr>))"

definition VaultHeader_parse_v1 :: "bytes \<Rightarrow> VaultError + VaultHeader" where
  "VaultHeader_parse_v1 data =
     (if length data < VAULT_HEADER_SIZE_V1 then
        Inl (InvalidHeader (''v1 header must be at least '' @ show_nat VAULT_HEADER_SIZE_V1 @ '' bytes, got '' @
               show_nat (length data)))
      else
        and_then (try_map (\<lambda>i. DeviceSlot_from_bytes_v1
            (slice (191 + i * VAULT_DEVICE_SLOT_SIZE_V1) (191 + i * VAULT_DEVICE_SLOT_SIZE_V1 + VAULT_DEVICE_SLOT_SIZE_V1) data))
            [0..<VAULT_MAX_DEVICES]) (\<lambda>slots.
        if length slots \<noteq> VAULT_MAX_DEVICES then Inl (InvalidHeader ''v1 device slots parse failed'')
        else
          Inr \<lparr>format_version = u16_from_le (slice 8 10 data),
                argon2_memory_kb = u32_from_le (slice 10 14 data),
                argon2_iterations = u32_from_le (slice 14 18 data),
                argon2_parallelism = u32_from_le (slice 18 22 data),
                master_salt = slice 22 54 data, vault_id = slice 54 70 data,
                pass_wrap_iv = slice 70 82 data, pass_wrapped_vault_key = slice 82 130 data,
                recovery_wrap_iv = slice 130 142 data, recovery_wrapped_vault_key = slice 142 190 data,
                device_slots = slots, revocation_epoch = 0,
                header_hmac = slice VAULT_HMAC_OFFSET_V1 (VAULT_HMAC_OFFSET_V1 + 32) data\<rparr>))"

definition VaultHeader_parse :: "bytes \<Rightarrow> VaultError + VaultHeader" where
  "VaultHeader_parse data =
     (if length data < 10 then Inl (InvalidHeader ''header too short to read version'')
      else if length data < 8 \<or> slice 0 8 data \<noteq> VAULT_MAGIC then Inl (InvalidHeader ''invalid vault magic bytes'')
      else let fv = u16_from_le (slice 8 10 data) in
      if fv = VAULT_FORMAT_VERSION then VaultHeader_parse_v2 data
      else if fv = VAULT_FORMAT_VERSION_V1 then VaultHeader_parse_v1 data
      else Inl (VaultUnsupportedVersion fv))"

definition VaultHeader_to_bytes :: "VaultHeader \<Rightarrow> bytes" where
  "VaultHeader_to_bytes h =
     (let buf = replicate VAULT_HEADER_SIZE 0;
          buf = copy_at 0 VAULT_MAGIC buf;
          buf = copy_at 8 (u16_to_le VAULT_FORMAT_VERSION) buf;
          buf = copy_at 10 (u32_to_le (argon2_memory_kb h)) buf;
          buf = copy_at 14 (u32_to_le (argon2_iterations h)) buf;
          buf = copy_at 18 (u32_to_le (argon2_parallelism h)) buf;
          buf = copy_at 22 (master_salt h) buf;
          buf = copy_at 54 (vault_id h) buf;
          buf = copy_at 70 (pass_wrap_iv h) buf;
          buf = copy_at 82 (pass_wrapped_vault_key h) buf;
          buf = copy_at 130 (recovery_wrap_iv h) buf;
          buf = copy_at 142 (recovery_wrapped_vault_key h) buf;
          buf = copy_at 190 [active_count (device_slots h)] buf;
          buf = foldl (\<lambda>b (i, slot). copy_at (191 + i * VAULT_DEVICE_SLOT_SIZE) (DeviceSlot_to_bytes slot) b)
                  buf (enumerate 0 (device_slots h));
          buf = copy_at VAULT_REVOCATION_EPOCH_OFFSET (u32_to_le (revocation_epoch h)) buf
      in copy_at VAULT_HMAC_OFFSET (header_hmac h) buf)"

definition header_bytes_for_hmac :: "VaultHeader \<Rightarrow> bytes" where
  "header_bytes_for_hmac h = slice 0 VAULT_HMAC_OFFSET (VaultHeader_to_bytes h)"

definition active_device_slots :: "VaultHeader \<Rightarrow> DeviceSlot list" where
  "active_device_slots h = filter (\<lambda>s. status s = Active) (device_slots h)"

definition find_device_slot :: "VaultHeader \<Rightarrow> bytes \<Rightarrow> nat option" where
  "find_device_slot h did = position (\<lambda>s. status s = Active \<and> device_id s = did) (device_slots h)"

definition first_empty_slot :: "VaultHeader \<Rightarrow> nat option" where
  "first_empty_slot h = position (\<lambda>s. status s = Empty) (device_slots h)"

definition active_slot_count :: "VaultHeader \<Rightarrow> nat" where
  "active_slot_count h = length (filter (\<lambda>s. status s = Active) (device_slots h))"

definition needs_migration :: "VaultHeader \<Rightarrow> bool" where
  "needs_migration h \<longleftrightarrow> format_version h < VAULT_FORMAT_VERSION"

subsection \<open>Well-formed values\<close>

text \<open>The array lengths that the Rust types carry.\<close>

definition slot_ok :: "DeviceSlot \<Rightarrow> bool" where
  "slot_ok s \<longleftrightarrow> length (device_id s) = 16 \<and> length (wrap_iv s) = 12 \<and>
     length (encrypted_payload s) = 48 \<and> length (signing_key_wrapped s) = 48"

definition header_ok :: "VaultHeader \<Rightarrow> bool" where
  "header_ok h \<longleftrightarrow> length (master_salt h) = 32 \<and> length (vault_id h) = 16 \<and>
     length (pass_wrap_iv h) = 12 \<and> length (pass_wrapped_vault_key h) = 48 \<and>
     length (recovery_wrap_iv h) = 12 \<and> length (recovery_wrapped_vault_key h) = 48 \<and>
     length (device_slots h) = VAULT_MAX_DEVICES \<and> list_all slot_ok (device_slots h) \<and>
     length (header_hmac h) = 32"

lemma SlotStatus_from_to_byte [simp]: "SlotStatus_from_byte (SlotStatus_byte st) = Inr st"
  by (cases st) (simp_all add: SlotStatus_from_byte_def SlotStatus_byte_def)

lemma SlotStatus_to_from_byte: "SlotStatus_from_byte b = Inr st \<Longrightarrow> SlotStatus_byte st = b"
  by (auto simp: SlotStatus_from_byte_def SlotStatus_byte_def split: if_splits)

lemma DeviceSlot_to_bytes_append:
  assumes "slot_ok s"
  shows "DeviceSlot_to_bytes s = [SlotStatus_byte (status s)] @ device_id s @ wrap_iv s @
    encrypted_payload s @ signing_key_wrapped s"
proof -
  have z: "replicate VAULT_DEVICE_SLOT_SIZE (0 :: u8) = [] @ replicate 125 0"
    by (simp add: vault_consts)
  show ?thesis
    using assms unfolding DeviceSlot_to_bytes_def Let_def z
    by (simp add: slot_ok_def copy_at_def)
qed

interpretation slots: fixed_codec VAULT_DEVICE_SLOT_SIZE slot_ok DeviceSlot_to_bytes DeviceSlot_from_bytes
proof
  fix s
  assume ok: "slot_ok s"
  then show "length (DeviceSlot_to_bytes s) = VAULT_DEVICE_SLOT_SIZE"
    by (simp add: DeviceSlot_to_bytes_append slot_ok_def vault_consts)
  show "DeviceSlot_from_bytes (DeviceSlot_to_bytes s) = Inr s"
    using ok by (simp add: DeviceSlot_from_bytes_def DeviceSlot_to_bytes_append slot_ok_def vault_consts slice_def)
next
  fix bs s
  assume "DeviceSlot_from_bytes bs = Inr s"
  then have len: "length bs = 125" and st: "SlotStatus_from_byte (bs ! 0) = Inr (status s)"
    and s: "device_id s = slice 1 17 bs" "wrap_iv s = slice 17 29 bs" "encrypted_payload s = slice 29 77 bs"
      "signing_key_wrapped s = slice 77 125 bs"
    by (auto simp: DeviceSlot_from_bytes_def vault_consts and_then_Inr_conv split: if_splits)
  have ok: "slot_ok s" using len by (simp add: slot_ok_def s)
  have "[bs ! 0] = slice 0 1 bs" using len by (cases bs) (simp_all add: slice_def)
  then have "DeviceSlot_to_bytes s = slice 0 125 bs"
    using SlotStatus_to_from_byte [OF st]
    by (simp add: DeviceSlot_to_bytes_append [OF ok] s slice_split flip: One_nat_def)
  then show "slot_ok s \<and> DeviceSlot_to_bytes s = bs" using ok len by (simp add: slice_def)
qed

text \<open>The fields before the slot table, 191 bytes.\<close>

definition header_prefix :: "VaultHeader \<Rightarrow> bytes" where
  "header_prefix h = VAULT_MAGIC @ u16_to_le VAULT_FORMAT_VERSION @ u32_to_le (argon2_memory_kb h) @
     u32_to_le (argon2_iterations h) @ u32_to_le (argon2_parallelism h) @ master_salt h @ vault_id h @
     pass_wrap_iv h @ pass_wrapped_vault_key h @ recovery_wrap_iv h @ recovery_wrapped_vault_key h @
     [active_count (device_slots h)]"

lemma length_VAULT_MAGIC [simp]: "length VAULT_MAGIC = 8"
  by (simp add: VAULT_MAGIC_def)

lemma length_header_prefix: "header_ok h \<Longrightarrow> length (header_prefix h) = 191"
  by (simp add: header_prefix_def header_ok_def)

lemma VaultHeader_to_bytes_append:
  assumes "header_ok h"
  shows "VaultHeader_to_bytes h = header_prefix h @ concat (map DeviceSlot_to_bytes (device_slots h)) @
    u32_to_le (revocation_epoch h) @ header_hmac h"
proof -
  let ?slots = "concat (map DeviceSlot_to_bytes (device_slots h))"
  have ok: "list_all slot_ok (device_slots h)" "length (device_slots h) = 8" "length (header_hmac h) = 32"
    using assms by (simp_all add: header_ok_def vault_consts)
  have pre: "copy_at 190 [active_count (device_slots h)] (copy_at 142 (recovery_wrapped_vault_key h)
      (copy_at 130 (recovery_wrap_iv h) (copy_at 82 (pass_wrapped_vault_key h) (copy_at 70 (pass_wrap_iv h)
      (copy_at 54 (vault_id h) (copy_at 22 (master_salt h) (copy_at 18 (u32_to_le (argon2_parallelism h))
      (copy_at 14 (u32_to_le (argon2_iterations h)) (copy_at 10 (u32_to_le (argon2_memory_kb h))
      (copy_at 8 (u16_to_le VAULT_FORMAT_VERSION) (copy_at 0 VAULT_MAGIC (replicate VAULT_HEADER_SIZE 0))))))))))))
    = header_prefix h @ replicate 1036 0"
    using assms by (simp add: header_ok_def header_prefix_def copy_at_def vault_consts)
  have sl: "length ?slots = 1000" using slots.enc_table_length [OF ok(1)] ok(2) by (simp add: vault_consts)
  have "foldl (\<lambda>b (i, slot). copy_at (191 + i * VAULT_DEVICE_SLOT_SIZE) (DeviceSlot_to_bytes slot) b)
                  (header_prefix h @ replicate 1036 0) (enumerate 0 (device_slots h)) =
    (header_prefix h @ ?slots) @ replicate 36 0"
    using slots.write_strides [OF ok(1) length_header_prefix [OF assms], of 1036 0] ok(2) by (simp add: vault_consts)
  then show ?thesis
    using length_header_prefix [OF assms] sl ok(3)
    by (simp add: VaultHeader_to_bytes_def Let_def pre) (simp add: copy_at_def vault_consts)
qed

lemma length_VaultHeader_to_bytes: "header_ok h \<Longrightarrow> length (VaultHeader_to_bytes h) = VAULT_HEADER_SIZE"
  using slots.enc_table_length [of "device_slots h"] length_header_prefix [of h]
  by (simp add: VaultHeader_to_bytes_append header_ok_def vault_consts)

lemma VaultHeader_parse_v2_sound:
  assumes "VaultHeader_parse_v2 data = Inr h" and "slice 0 8 data = VAULT_MAGIC"
    and "u16_from_le (slice 8 10 data) = VAULT_FORMAT_VERSION"
  shows "header_ok h \<and> VaultHeader_to_bytes h = take VAULT_HEADER_SIZE data \<and> format_version h = VAULT_FORMAT_VERSION"
proof -
  from assms(1) have len: "1227 \<le> length data"
    by (auto simp: VaultHeader_parse_v2_def vault_consts split: if_splits)
  from assms(1) have tab: "slots.dec_table VAULT_MAX_DEVICES (drop 191 data) = Inr (device_slots h)"
    and cnt: "data ! 190 = active_count (device_slots h)"
    and f: "format_version h = u16_from_le (slice 8 10 data)" "argon2_memory_kb h = u32_from_le (slice 10 14 data)"
      "argon2_iterations h = u32_from_le (slice 14 18 data)" "argon2_parallelism h = u32_from_le (slice 18 22 data)"
      "master_salt h = slice 22 54 data" "vault_id h = slice 54 70 data" "pass_wrap_iv h = slice 70 82 data"
      "pass_wrapped_vault_key h = slice 82 130 data" "recovery_wrap_iv h = slice 130 142 data"
      "recovery_wrapped_vault_key h = slice 142 190 data" "revocation_epoch h = u32_from_le (slice 1191 1195 data)"
      "header_hmac h = slice 1195 1227 data"
    by (auto simp: VaultHeader_parse_v2_def Let_def slots.dec_table_strides and_then_Inr_conv
        VAULT_REVOCATION_EPOCH_OFFSET_def VAULT_HMAC_OFFSET_def split: if_splits)
  from slots.dec_table_sound [OF tab]
  have tab': "length (device_slots h) = VAULT_MAX_DEVICES" "list_all slot_ok (device_slots h)"
    "concat (map DeviceSlot_to_bytes (device_slots h)) = slice 191 1191 data"
    by (simp_all add: slice_def vault_consts)
  have ok: "header_ok h" using len tab' by (simp add: header_ok_def f)
  have one: "[data ! 190] = slice 190 191 data" using len
    by (simp add: slice_def take_Suc_conv_app_nth Cons_nth_drop_Suc [symmetric])
  have nums: "u32_to_le (u32_from_le (slice a (a + 4) data)) = slice a (a + 4) data" if "a + 4 \<le> 1227" for a
    using len that by (intro u32_to_from_le) simp
  have vers: "u16_to_le VAULT_FORMAT_VERSION = slice 8 10 data"
    using len assms(3) u16_to_from_le [of "slice 8 10 data"] by simp
  have "VaultHeader_to_bytes h = slice 0 1227 data"
    unfolding VaultHeader_to_bytes_append [OF ok] header_prefix_def
    using nums [of 10] nums [of 14] nums [of 18] nums [of 1191]
    by (simp add: f tab'(3) vers one slice_split flip: cnt assms(2))
  then show ?thesis using ok assms(3) f(1) by (simp add: slice_0 vault_consts)
qed

lemma VaultHeader_parse_v2_complete:
  assumes "header_ok h"
  shows "VaultHeader_parse (VaultHeader_to_bytes h @ rest) = Inr (h\<lparr>format_version := VAULT_FORMAT_VERSION\<rparr>)"
proof -
  let ?data = "VaultHeader_to_bytes h @ rest" and ?slots = "concat (map DeviceSlot_to_bytes (device_slots h))"
  have ok: "list_all slot_ok (device_slots h)" "length (device_slots h) = VAULT_MAX_DEVICES"
    using assms by (simp_all add: header_ok_def)
  have len: "1227 \<le> length ?data" using length_VaultHeader_to_bytes [OF assms] by (simp add: vault_consts)
  have sl: "length ?slots = 1000" using slots.enc_table_length [OF ok(1)] ok(2) by (simp add: vault_consts)
  have data: "?data = header_prefix h @ ?slots @ u32_to_le (revocation_epoch h) @ header_hmac h @ rest"
    by (simp add: VaultHeader_to_bytes_append [OF assms])
  have pl: "length (header_prefix h) = 191" by (rule length_header_prefix [OF assms])
  have low: "slice a b ?data = slice a b (header_prefix h)" if "b \<le> 191" for a b
    using that pl by (simp add: data slice_def)
  have lens: "length (master_salt h) = 32" "length (vault_id h) = 16" "length (pass_wrap_iv h) = 12"
    "length (pass_wrapped_vault_key h) = 48" "length (recovery_wrap_iv h) = 12"
    "length (recovery_wrapped_vault_key h) = 48" "length (header_hmac h) = 32"
    using assms by (simp_all add: header_ok_def)
  have parts: "slice 0 8 ?data = VAULT_MAGIC" "slice 8 10 ?data = u16_to_le VAULT_FORMAT_VERSION"
    "slice 10 14 ?data = u32_to_le (argon2_memory_kb h)" "slice 14 18 ?data = u32_to_le (argon2_iterations h)"
    "slice 18 22 ?data = u32_to_le (argon2_parallelism h)" "slice 22 54 ?data = master_salt h"
    "slice 54 70 ?data = vault_id h" "slice 70 82 ?data = pass_wrap_iv h"
    "slice 82 130 ?data = pass_wrapped_vault_key h" "slice 130 142 ?data = recovery_wrap_iv h"
    "slice 142 190 ?data = recovery_wrapped_vault_key h"
    by (simp_all add: low) (simp_all add: header_prefix_def slice_def lens)
  have tail: "?data ! 190 = active_count (device_slots h)"
    "slice 1191 1195 ?data = u32_to_le (revocation_epoch h)" "slice 1195 1227 ?data = header_hmac h"
    "slots.dec_table VAULT_MAX_DEVICES (drop 191 ?data) = Inr (device_slots h)"
    using slots.dec_table_enc [OF ok(1)] pl sl
    by (simp_all add: data header_prefix_def slice_def lens nth_append flip: ok(2))
  have "VaultHeader_parse_v2 ?data = Inr (h\<lparr>format_version := VAULT_FORMAT_VERSION\<rparr>)"
    using len
    by (simp add: VaultHeader_parse_v2_def Let_def parts tail ok(2) slots.dec_table_strides VAULT_HEADER_SIZE_def
        VAULT_REVOCATION_EPOCH_OFFSET_def VAULT_HMAC_OFFSET_def del: drop_append)
  then show ?thesis using len by (simp add: VaultHeader_parse_def Let_def parts)
qed

text \<open>
  C5. Round trips of the vault header: parsing what the serializer wrote gives the header back (at
  version 2, with anything after it ignored), and serializing what the parser accepted as version
  2 gives back the 1227 bytes it read.  So two headers with the same bytes are equal, and no
  accepted byte of a version 2 header is ignored.
\<close>

theorem vault_header_roundtrip:
  "(header_ok h \<longrightarrow> VaultHeader_parse (VaultHeader_to_bytes h @ rest) = Inr (h\<lparr>format_version := VAULT_FORMAT_VERSION\<rparr>)) \<and>
   (VaultHeader_parse data = Inr g \<and> \<not> needs_migration g \<longrightarrow>
      header_ok g \<and> VaultHeader_to_bytes g = take VAULT_HEADER_SIZE data)"
proof (intro conjI impI)
  assume "header_ok h"
  then show "VaultHeader_parse (VaultHeader_to_bytes h @ rest) = Inr (h\<lparr>format_version := VAULT_FORMAT_VERSION\<rparr>)"
    by (rule VaultHeader_parse_v2_complete)
next
  assume g: "VaultHeader_parse data = Inr g \<and> \<not> needs_migration g"
  have v1: "u16_from_le (slice 8 10 data) = 1 \<Longrightarrow> VaultHeader_parse_v1 data = Inr g \<Longrightarrow> needs_migration g"
    by (auto simp: VaultHeader_parse_v1_def needs_migration_def VAULT_FORMAT_VERSION_def and_then_Inr_conv
        split: if_splits)
  with g have "VaultHeader_parse_v2 data = Inr g" "slice 0 8 data = VAULT_MAGIC"
    "u16_from_le (slice 8 10 data) = VAULT_FORMAT_VERSION"
    by (auto simp: VaultHeader_parse_def Let_def VAULT_FORMAT_VERSION_V1_def split: if_splits)
  from VaultHeader_parse_v2_sound [OF this]
  show "header_ok g" "VaultHeader_to_bytes g = take VAULT_HEADER_SIZE data" by simp_all
qed

definition sample_header :: VaultHeader where
  "sample_header = \<lparr>format_version = 2, argon2_memory_kb = 131072, argon2_iterations = 3, argon2_parallelism = 4,
     master_salt = replicate 32 0x42, vault_id = replicate 16 1, pass_wrap_iv = replicate 12 2,
     pass_wrapped_vault_key = replicate 48 3, recovery_wrap_iv = replicate 12 4,
     recovery_wrapped_vault_key = replicate 48 5,
     device_slots = DeviceSlot_active (replicate 16 7) (replicate 12 8) (replicate 48 9) # replicate 7 DeviceSlot_empty,
     revocation_epoch = 0, header_hmac = replicate 32 6\<rparr>"

lemma sample_header_ok: "header_ok sample_header"
  by (simp add: header_ok_def sample_header_def slot_ok_def DeviceSlot_active_def DeviceSlot_empty_def
      vault_consts list_all_iff)

theorem vault_header_roundtrip_witness:
  "VaultHeader_parse (VaultHeader_to_bytes sample_header @ [1, 2]) = Inr sample_header \<and>
   VaultHeader_to_bytes sample_header = take VAULT_HEADER_SIZE (VaultHeader_to_bytes sample_header @ [1, 2])"
proof -
  have p: "VaultHeader_parse (VaultHeader_to_bytes sample_header @ [1, 2]) = Inr sample_header"
    using vault_header_roundtrip [of sample_header "[1, 2]" "[]" sample_header] sample_header_ok
    by (simp add: VAULT_FORMAT_VERSION_def sample_header_def)
  moreover have "\<not> needs_migration sample_header"
    by (simp add: needs_migration_def sample_header_def VAULT_FORMAT_VERSION_def)
  ultimately show ?thesis
    using vault_header_roundtrip [of sample_header "[]" "VaultHeader_to_bytes sample_header @ [1, 2]" sample_header]
    by simp
qed

end
