(* ===== verification/Vault_Crypto.thy ===== *)
theory Vault_Crypto
  imports Vault_Format
begin

text \<open>
  Vault cryptography (\<open>vault_crypto.rs\<close>, \<open>vault_body.rs\<close>, \<open>per_vault_key.rs\<close>): derivation and
  wrapping of the vault key, the header MAC, body encryption, device signing keys, the
  domain-separated keys of the single vaults, and the migration of a version 1 vault file.
\<close>

subsection \<open>Key derivation and wrapping\<close>

definition argon2id_derive_byo :: "prims \<Rightarrow> bytes \<Rightarrow> bytes \<Rightarrow> CryptoError + bytes" where
  "argon2id_derive_byo P password salt = argon2id_derive_with_params P password salt 131072 3 4"

definition derive_vault_kek :: "prims \<Rightarrow> bytes \<Rightarrow> CryptoError + bytes" where
  "derive_vault_kek P argon_output =
     and_then (hkdf_sha256 P (auth_material argon_output) (as_bytes ''SecureCloud BYO VaultKEK v1'') 32)
       SymmetricKey_from_slice"

definition derive_client_kek_half_from_byo :: "prims \<Rightarrow> bytes \<Rightarrow> CryptoError + bytes" where
  "derive_client_kek_half_from_byo P argon_output =
     and_then (hkdf_sha256 P (enc_material argon_output) (as_bytes ''SecureCloud KEKHalf v2'') 32)
       SymmetricKey_from_slice"

definition derive_byo_kek :: "prims \<Rightarrow> bytes \<Rightarrow> bytes \<Rightarrow> CryptoError + bytes" where
  "derive_byo_kek P client_kek_half shard =
     (if length shard \<noteq> 32 then Inl InvalidKeyMaterial
      else and_then (hkdf_sha256 P (client_kek_half @ shard) (as_bytes ''SecureCloud KEKv2'') 32)
        SymmetricKey_from_slice)"

definition derive_recovery_vault_kek :: "prims \<Rightarrow> bytes \<Rightarrow> CryptoError + bytes" where
  "derive_recovery_vault_kek P recovery_key_secret =
     (if length recovery_key_secret \<noteq> 32 then Inl InvalidKeyMaterial
      else and_then (hkdf_sha256 P recovery_key_secret (as_bytes ''SecureCloud BYO RecoveryVaultKEK v1'') 32)
        SymmetricKey_from_slice)"

definition wrap_vault_key :: "prims \<Rightarrow> bytes \<Rightarrow> bytes \<Rightarrow> bytes \<Rightarrow> CryptoError + bytes \<times> bytes" where
  "wrap_vault_key P nonce vault_key wrapping_key =
     and_then (aes_gcm_encrypt_with_nonce P vault_key wrapping_key nonce) (\<lambda>ciphertext.
     if length ciphertext \<noteq> 48 then
       Inl (InvalidFormat (''wrapped vault_key must be 48 bytes (32 ct + 16 tag), got '' @ show_nat (length ciphertext)))
     else Inr (nonce, ciphertext))"

definition unwrap_vault_key :: "prims \<Rightarrow> bytes \<Rightarrow> bytes \<Rightarrow> bytes \<Rightarrow> CryptoError + bytes" where
  "unwrap_vault_key P iv wrapped unwrapping_key =
     and_then (aes_gcm_decrypt P wrapped iv unwrapping_key) SymmetricKey_from_slice"

subsection \<open>Header MAC\<close>

definition compute_header_hmac :: "prims \<Rightarrow> bytes \<Rightarrow> bytes \<Rightarrow> CryptoError + bytes" where
  "compute_header_hmac P vault_key prefix =
     (if length prefix \<noteq> VAULT_HMAC_OFFSET then
        Inl (InvalidFormat (''v2 header prefix must be '' @ show_nat VAULT_HMAC_OFFSET @ '' bytes for HMAC, got '' @
               show_nat (length prefix)))
      else hmac_sha256 P vault_key prefix)"

definition compute_header_hmac_v1 :: "prims \<Rightarrow> bytes \<Rightarrow> bytes \<Rightarrow> CryptoError + bytes" where
  "compute_header_hmac_v1 P vault_key prefix =
     (if length prefix \<noteq> VAULT_HMAC_OFFSET_V1 then
        Inl (InvalidFormat (''v1 header prefix must be '' @ show_nat VAULT_HMAC_OFFSET_V1 @ '' bytes for HMAC, got '' @
               show_nat (length prefix)))
      else hmac_sha256 P vault_key prefix)"

definition verify_header_hmac :: "prims \<Rightarrow> bytes \<Rightarrow> bytes \<Rightarrow> bytes \<Rightarrow> CryptoError + bool" where
  "verify_header_hmac P vault_key prefix expected_hmac =
     and_then (compute_header_hmac P vault_key prefix) (\<lambda>computed. Inr (constant_time_eq computed expected_hmac))"

definition verify_header_hmac_v1 :: "prims \<Rightarrow> bytes \<Rightarrow> bytes \<Rightarrow> bytes \<Rightarrow> CryptoError + bool" where
  "verify_header_hmac_v1 P vault_key prefix expected_hmac =
     and_then (compute_header_hmac_v1 P vault_key prefix) (\<lambda>computed. Inr (constant_time_eq computed expected_hmac))"

subsection \<open>Vault body\<close>

definition encrypt_vault_body :: "prims \<Rightarrow> bytes \<Rightarrow> bytes \<Rightarrow> bytes \<Rightarrow> CryptoError + bytes \<times> bytes" where
  "encrypt_vault_body P nonce sqlite_bytes vault_key =
     and_then (aes_gcm_encrypt_with_nonce P sqlite_bytes vault_key nonce) (\<lambda>ciphertext. Inr (nonce, ciphertext))"

definition decrypt_vault_body :: "prims \<Rightarrow> bytes \<Rightarrow> bytes \<Rightarrow> bytes \<Rightarrow> CryptoError + bytes" where
  "decrypt_vault_body P body_iv body_ciphertext vault_key = aes_gcm_decrypt P body_ciphertext body_iv vault_key"

definition encrypt_body :: "prims \<Rightarrow> bytes \<Rightarrow> bytes \<Rightarrow> bytes \<Rightarrow> CryptoError + bytes" where
  "encrypt_body P nonce plaintext aead_key =
     and_then (aes_gcm_encrypt_with_nonce P plaintext aead_key nonce) (\<lambda>ct. Inr (nonce @ ct))"

definition decrypt_body :: "prims \<Rightarrow> bytes \<Rightarrow> bytes \<Rightarrow> CryptoError + bytes" where
  "decrypt_body P blob aead_key =
     (if length blob < 28 then Inl (InvalidFormat ''vault body blob too short (need at least 28 bytes)'')
      else aes_gcm_decrypt P (drop 12 blob) (take 12 blob) aead_key)"

subsection \<open>Fresh vaults and device signing keys\<close>

record NewVaultKeys =
  nv_vault_key :: bytes
  nv_shard :: bytes
  nv_vault_id :: bytes
  nv_master_salt :: bytes

text \<open>The four draws, in the order of the code.\<close>

definition generate_vault_keys :: "bytes \<Rightarrow> bytes \<Rightarrow> bytes \<Rightarrow> bytes \<Rightarrow> CryptoError + NewVaultKeys" where
  "generate_vault_keys vk sh vid salt =
     Inr \<lparr>nv_vault_key = vk, nv_shard = sh, nv_vault_id = vid, nv_master_salt = salt\<rparr>"

definition BYO_DEVICE_SIGNING_KEY_V2 :: bytes where
  "BYO_DEVICE_SIGNING_KEY_V2 = as_bytes ''SecureCloud BYO DeviceSigningKey v2''"

definition seal_device_signing_key :: "prims \<Rightarrow> bytes \<Rightarrow> bytes \<Rightarrow> bytes \<Rightarrow> CryptoError + bytes" where
  "seal_device_signing_key P vault_key did seed =
     and_then (hkdf_sha256 P vault_key BYO_DEVICE_SIGNING_KEY_V2 32) (\<lambda>wrapping_key_bytes.
     and_then (SymmetricKey_from_slice wrapping_key_bytes) (\<lambda>wrapping_key.
     let nonce = take 12 did in
     and_then (aes_gcm_encrypt_with_nonce P seed wrapping_key nonce) (\<lambda>ct.
     if length ct \<noteq> 48 then Inl (InvalidFormat ''seal_device_signing_key: unexpected ciphertext length'')
     else Inr ct)))"

definition unseal_device_signing_key :: "prims \<Rightarrow> bytes \<Rightarrow> bytes \<Rightarrow> bytes \<Rightarrow> CryptoError + bytes" where
  "unseal_device_signing_key P vault_key did wrapped =
     and_then (hkdf_sha256 P vault_key BYO_DEVICE_SIGNING_KEY_V2 32) (\<lambda>wrapping_key_bytes.
     and_then (SymmetricKey_from_slice wrapping_key_bytes) (\<lambda>wrapping_key.
     let nonce = take 12 did in
     and_then (aes_gcm_decrypt P wrapped nonce wrapping_key) (\<lambda>plaintext.
     if length plaintext \<noteq> 32 then Inl InvalidKeyMaterial else Inr plaintext)))"

subsection \<open>Migration\<close>

fun CryptoError_to_string :: "CryptoError \<Rightarrow> string" where
  "CryptoError_to_string EncryptionFailed = ''Encryption failed''"
| "CryptoError_to_string DecryptionFailed = ''Decryption failed''"
| "CryptoError_to_string InvalidKeyMaterial = ''Invalid key material''"
| "CryptoError_to_string KdfFailed = ''Key derivation failed''"
| "CryptoError_to_string KemEncapFailed = ''KEM encapsulation failed''"
| "CryptoError_to_string KemDecapFailed = ''KEM decapsulation failed''"
| "CryptoError_to_string MacVerificationFailed = ''MAC verification failed''"
| "CryptoError_to_string InvalidNonceLength = ''Invalid nonce length''"
| "CryptoError_to_string (InvalidFormat m) = ''Invalid ciphertext format: '' @ m"
| "CryptoError_to_string (UnsupportedVersion v) = ''Unsupported format version: '' @ show_nat (unat v)"
| "CryptoError_to_string KeyCommitmentFailed = ''Key commitment verification failed''"
| "CryptoError_to_string (Argon2ParamsOutOfBounds m) = ''Argon2 parameters out of bounds: '' @ m"

fun VaultError_to_string :: "VaultError \<Rightarrow> string" where
  "VaultError_to_string (InvalidHeader m) = ''invalid vault header: '' @ m"
| "VaultError_to_string (VaultUnsupportedVersion v) = ''unsupported vault format version: '' @ show_nat (unat v)"
| "VaultError_to_string HmacVerificationFailed = ''vault header HMAC verification failed''"
| "VaultError_to_string DeviceSlotNotFound = ''no active device slot found for device''"
| "VaultError_to_string (DeviceSlotsFull n) = ''all device slots full (max '' @ show_nat n @ '')''"
| "VaultError_to_string (VaultCrypto e) = ''cryptographic error: '' @ CryptoError_to_string e"

definition migrate_vault_v1_to_v2 :: "prims \<Rightarrow> bytes \<Rightarrow> bytes \<Rightarrow> CryptoError + bytes" where
  "migrate_vault_v1_to_v2 P vault_bytes vault_key =
     (if length vault_bytes < VAULT_HEADER_SIZE_V1 then
        Inl (InvalidFormat ''vault_v1_to_v2: input too short for v1 header'')
      else
        and_then (map_err (\<lambda>e. InvalidFormat (VaultError_to_string e))
          (VaultHeader_parse (take (max VAULT_HEADER_SIZE_V1 (min (length vault_bytes) VAULT_HEADER_SIZE)) vault_bytes)))
          (\<lambda>header.
        if \<not> needs_migration header then Inr vault_bytes
        else
          let v1_prefix = take VAULT_HMAC_OFFSET_V1 vault_bytes in
          and_then (verify_header_hmac_v1 P vault_key v1_prefix (header_hmac header)) (\<lambda>verified.
          if \<not> verified then Inl MacVerificationFailed
          else
            let v2_header_bytes = VaultHeader_to_bytes header;
                hmac_region = take VAULT_HMAC_OFFSET v2_header_bytes in
            and_then (compute_header_hmac P vault_key hmac_region) (\<lambda>new_hmac.
            let header' = header\<lparr>header_hmac := new_hmac\<rparr>;
                body = drop VAULT_HEADER_SIZE_V1 vault_bytes in
            Inr (VaultHeader_to_bytes header' @ body)))))"

subsection \<open>Keys of the single vaults\<close>

definition build_info :: "bytes \<Rightarrow> string \<Rightarrow> bytes" where
  "build_info domain provider_id = domain @ [0x00] @ as_bytes provider_id"

definition BYO_MANIFEST_AEAD_V1 :: bytes where "BYO_MANIFEST_AEAD_V1 = as_bytes ''SecureCloud BYO manifest-aead v1''"
definition BYO_PER_VAULT_AEAD_V1 :: bytes where "BYO_PER_VAULT_AEAD_V1 = as_bytes ''SecureCloud BYO per-vault-aead v1''"
definition BYO_PER_VAULT_WAL_V1 :: bytes where "BYO_PER_VAULT_WAL_V1 = as_bytes ''SecureCloud BYO per-vault-wal v1''"
definition BYO_PER_VAULT_JOURNAL_AEAD_V1 :: bytes where
  "BYO_PER_VAULT_JOURNAL_AEAD_V1 = as_bytes ''SecureCloud BYO per-vault-journal-aead v1''"
definition BYO_PER_VAULT_JOURNAL_HMAC_V1 :: bytes where
  "BYO_PER_VAULT_JOURNAL_HMAC_V1 = as_bytes ''SecureCloud BYO per-vault-journal-hmac v1''"

definition derive_manifest_aead_key :: "prims \<Rightarrow> bytes \<Rightarrow> CryptoError + bytes" where
  "derive_manifest_aead_key P vault_key =
     and_then (hkdf_sha256 P vault_key BYO_MANIFEST_AEAD_V1 32) SymmetricKey_from_slice"

definition derive_per_vault_aead_key :: "prims \<Rightarrow> bytes \<Rightarrow> string \<Rightarrow> CryptoError + bytes" where
  "derive_per_vault_aead_key P vault_key provider_id =
     (if provider_id = [] then Inl InvalidKeyMaterial
      else and_then (hkdf_sha256 P vault_key (build_info BYO_PER_VAULT_AEAD_V1 provider_id) 32) SymmetricKey_from_slice)"

definition derive_per_vault_wal_key :: "prims \<Rightarrow> bytes \<Rightarrow> string \<Rightarrow> CryptoError + bytes" where
  "derive_per_vault_wal_key P vault_key provider_id =
     (if provider_id = [] then Inl InvalidKeyMaterial
      else and_then (hkdf_sha256 P vault_key (build_info BYO_PER_VAULT_WAL_V1 provider_id) 32) SymmetricKey_from_slice)"

definition derive_per_vault_journal_aead_key :: "prims \<Rightarrow> bytes \<Rightarrow> string \<Rightarrow> CryptoError + bytes" where
  "derive_per_vault_journal_aead_key P vault_key provider_id =
     (if provider_id = [] then Inl InvalidKeyMaterial
      else and_then (hkdf_sha256 P vault_key (build_info BYO_PER_VAULT_JOURNAL_AEAD_V1 provider_id) 32)
        SymmetricKey_from_slice)"

definition derive_per_vault_journal_hmac_key :: "prims \<Rightarrow> bytes \<Rightarrow> string \<Rightarrow> CryptoError + bytes" where
  "derive_per_vault_journal_hmac_key P vault_key provider_id =
     (if provider_id = [] then Inl InvalidKeyMaterial
      else and_then (hkdf_sha256 P vault_key (build_info BYO_PER_VAULT_JOURNAL_HMAC_V1 provider_id) 32)
        SymmetricKey_from_slice)"

record JournalKeys =
  jk_aead :: bytes
  jk_hmac :: bytes

definition derive_per_vault_journal_keys :: "prims \<Rightarrow> bytes \<Rightarrow> string \<Rightarrow> CryptoError + JournalKeys" where
  "derive_per_vault_journal_keys P vault_key provider_id =
     and_then (derive_per_vault_journal_aead_key P vault_key provider_id) (\<lambda>aead.
     and_then (derive_per_vault_journal_hmac_key P vault_key provider_id) (\<lambda>hmac.
     Inr \<lparr>jk_aead = aead, jk_hmac = hmac\<rparr>))"

text \<open>The HKDF info strings of the four per-vault keys of a provider.\<close>

definition per_vault_domains :: "bytes list" where
  "per_vault_domains = [BYO_PER_VAULT_AEAD_V1, BYO_PER_VAULT_WAL_V1, BYO_PER_VAULT_JOURNAL_AEAD_V1,
     BYO_PER_VAULT_JOURNAL_HMAC_V1]"

subsection \<open>Properties\<close>

lemma domain_no_nul: "d \<in> set per_vault_domains \<union> {BYO_MANIFEST_AEAD_V1} \<Longrightarrow> 0 \<notin> set d"
  by (auto simp: per_vault_domains_def BYO_PER_VAULT_AEAD_V1_def BYO_PER_VAULT_WAL_V1_def
      BYO_PER_VAULT_JOURNAL_AEAD_V1_def BYO_PER_VAULT_JOURNAL_HMAC_V1_def BYO_MANIFEST_AEAD_V1_def as_bytes_def)

lemma takeWhile_build_info: "0 \<notin> set d \<Longrightarrow> takeWhile (\<lambda>b. b \<noteq> 0) (build_info d p) = d"
  by (simp add: build_info_def takeWhile_append1 takeWhile_tail) (metis takeWhile_eq_all_conv)

text \<open>
  Domain separation of the per-vault keys: the HKDF info strings of different purposes or of
  different providers are different, whatever bytes a provider id holds, and none of them is the
  info string of the manifest key.
\<close>

theorem per_vault_info_separated:
  assumes "d \<in> set per_vault_domains" and "d' \<in> set per_vault_domains"
  shows "(build_info d p = build_info d' p' \<longleftrightarrow> d = d' \<and> p = p') \<and> build_info d p \<noteq> BYO_MANIFEST_AEAD_V1"
proof -
  have nul: "0 \<notin> set d" "0 \<notin> set d'" "0 \<notin> set BYO_MANIFEST_AEAD_V1"
    using assms domain_no_nul by blast+
  have "d = d' \<and> p = p'" if "build_info d p = build_info d' p'"
  proof -
    from that have "d = d'" using takeWhile_build_info [OF nul(1), of p] takeWhile_build_info [OF nul(2), of p'] by simp
    with that show ?thesis by (simp add: build_info_def)
  qed
  moreover have "0 \<in> set (build_info d p)" by (simp add: build_info_def)
  ultimately show ?thesis using nul(3) by metis
qed

theorem per_vault_info_separated_witness:
  "build_info BYO_PER_VAULT_WAL_V1 ''a'' \<noteq> build_info BYO_PER_VAULT_WAL_V1 ''b''"
  using per_vault_info_separated [of BYO_PER_VAULT_WAL_V1 BYO_PER_VAULT_WAL_V1 "''a''" "''b''"]
  by (simp add: per_vault_domains_def)

text \<open>
  Opening a vault: what \<open>wrap_vault_key\<close>, \<open>encrypt_body\<close> and \<open>seal_device_signing_key\<close>
  produce under a key is recovered by their inverses under the same key.
\<close>

theorem vault_keys_roundtrip:
  assumes "aead_correct P" and "mac_lengths P" and "length vk = 32" and "length wk = 32" and "length nonce = 12"
    and "length body \<le> aead_limit" and "length did = 16" and "length seed = 32"
  shows "\<exists>wrapped blob sealed.
    wrap_vault_key P nonce vk wk = Inr (nonce, wrapped) \<and> length wrapped = 48 \<and> unwrap_vault_key P nonce wrapped wk = Inr vk \<and>
    encrypt_body P nonce body vk = Inr blob \<and> decrypt_body P blob vk = Inr body \<and>
    seal_device_signing_key P vk did seed = Inr sealed \<and> length sealed = 48 \<and>
    unseal_device_signing_key P vk did sealed = Inr seed"
proof -
  obtain w where w: "aead_seal P wk nonce vk = Some w" "length w = length vk + 16" "aead_open P wk nonce w = Some vk"
    using aead_correct_sealE [OF assms(1,4,5), of vk] assms(3) by auto
  obtain b where b: "aead_seal P vk nonce body = Some b" "length b = length body + 16" "aead_open P vk nonce b = Some body"
    using aead_correct_sealE [OF assms(1,3,5,6)] by auto
  obtain hk where hk: "hkdf_sha256 P vk BYO_DEVICE_SIGNING_KEY_V2 32 = Inr hk" "length hk = 32"
    using hkdf_sha256_ok [OF assms(2), of 32 vk BYO_DEVICE_SIGNING_KEY_V2] by auto
  obtain s where s: "aead_seal P hk (take 12 did) seed = Some s" "length s = length seed + 16"
    "aead_open P hk (take 12 did) s = Some seed"
    using aead_correct_sealE [OF assms(1) hk(2), of "take 12 did" seed] assms(7,8) by auto
  show ?thesis
    using assms w b hk s
    by (intro exI [of _ w] exI [of _ "nonce @ b"] exI [of _ s])
      (simp add: wrap_vault_key_def unwrap_vault_key_def encrypt_body_def decrypt_body_def seal_device_signing_key_def
        unseal_device_signing_key_def aes_gcm_encrypt_with_nonce_def aes_gcm_decrypt_def SymmetricKey_from_slice_def Let_def)
qed

theorem vault_keys_roundtrip_witness:
  "\<exists>wrapped. wrap_vault_key toy_prims (replicate 12 1) (replicate 32 2) (replicate 32 3) = Inr (replicate 12 1, wrapped) \<and>
     unwrap_vault_key toy_prims (replicate 12 1) wrapped (replicate 32 3) = Inr (replicate 32 2)"
  using vault_keys_roundtrip [OF toy_ok(1,2), of "replicate 32 2" "replicate 32 3" "replicate 12 1" "[]"
      "replicate 16 4" "replicate 32 5"] by auto

lemma VaultHeader_parse_v1_sound:
  assumes "VaultHeader_parse_v1 data = Inr h"
  shows "header_ok h \<and> (\<forall>s\<in>set (device_slots h). \<not> has_signing_key s) \<and> revocation_epoch h = 0"
proof -
  have slot: "slot_ok s \<and> \<not> has_signing_key s" if "DeviceSlot_from_bytes_v1 bs = Inr s" for bs s
    using that by (auto simp: DeviceSlot_from_bytes_v1_def slot_ok_def has_signing_key_def vault_consts
        and_then_Inr_conv split: if_splits)
  have slots: "list_all (\<lambda>s. slot_ok s \<and> \<not> has_signing_key s) ss"
    if "try_map (\<lambda>i. DeviceSlot_from_bytes_v1 (f i)) is = Inr ss" for f "is" ss
    using that slot by (induction "is" arbitrary: ss) (auto simp: and_then_Inr_conv)
  show ?thesis
    using assms
    by (auto simp: VaultHeader_parse_v1_def header_ok_def vault_consts and_then_Inr_conv list_all_iff
        dest!: slots split: if_splits)
qed

lemma parse_v1_take: "VaultHeader_parse data = Inr h \<Longrightarrow> needs_migration h \<Longrightarrow> VaultHeader_parse_v1 data = Inr h"
  by (auto simp: VaultHeader_parse_def VaultHeader_parse_v2_def needs_migration_def Let_def and_then_Inr_conv
      split: if_splits)

text \<open>
  C6. Migration from version 1: when the version 1 MAC verifies, the result is a version 2 file
  with the same fields, no signing keys, revocation epoch 0, a version 2 MAC that verifies under
  the vault key, and the body byte for byte; when it does not verify, nothing is re-signed and the
  migration fails; a version 2 file is returned unchanged.
\<close>

theorem migrate_vault_correct:
  assumes "mac_lengths P" and "VAULT_HEADER_SIZE_V1 \<le> length vb"
    and "VaultHeader_parse (take (max VAULT_HEADER_SIZE_V1 (min (length vb) VAULT_HEADER_SIZE)) vb) = Inr h"
  shows "(\<not> needs_migration h \<longrightarrow> migrate_vault_v1_to_v2 P vb vk = Inr vb) \<and>
    (needs_migration h \<and> hmac_raw P vk (take VAULT_HMAC_OFFSET_V1 vb) \<noteq> header_hmac h \<longrightarrow>
       migrate_vault_v1_to_v2 P vb vk = Inl MacVerificationFailed) \<and>
    (needs_migration h \<and> hmac_raw P vk (take VAULT_HMAC_OFFSET_V1 vb) = header_hmac h \<longrightarrow>
       (\<exists>out mac. migrate_vault_v1_to_v2 P vb vk = Inr out \<and>
          VaultHeader_parse out = Inr (h\<lparr>format_version := VAULT_FORMAT_VERSION, header_hmac := mac\<rparr>) \<and>
          verify_header_hmac P vk (take VAULT_HMAC_OFFSET out) mac = Inr True \<and>
          drop VAULT_HEADER_SIZE out = drop VAULT_HEADER_SIZE_V1 vb \<and>
          (\<forall>s\<in>set (device_slots h). \<not> has_signing_key s) \<and> revocation_epoch h = 0))"
proof -
  have v1len: "length (take VAULT_HMAC_OFFSET_V1 vb) = VAULT_HMAC_OFFSET_V1"
    using assms(2) by (simp add: vault_consts)
  have good: "\<exists>out mac. migrate_vault_v1_to_v2 P vb vk = Inr out \<and>
          VaultHeader_parse out = Inr (h\<lparr>format_version := VAULT_FORMAT_VERSION, header_hmac := mac\<rparr>) \<and>
          verify_header_hmac P vk (take VAULT_HMAC_OFFSET out) mac = Inr True \<and>
          drop VAULT_HEADER_SIZE out = drop VAULT_HEADER_SIZE_V1 vb \<and>
          (\<forall>s\<in>set (device_slots h). \<not> has_signing_key s) \<and> revocation_epoch h = 0"
    if nm: "needs_migration h" and ok: "hmac_raw P vk (take VAULT_HMAC_OFFSET_V1 vb) = header_hmac h"
  proof -
    note h = VaultHeader_parse_v1_sound [OF parse_v1_take [OF assms(3) nm]]
    define mac where "mac = hmac_raw P vk (take VAULT_HMAC_OFFSET (VaultHeader_to_bytes h))"
    define h' where "h' = h\<lparr>header_hmac := mac\<rparr>"
    define out where "out = VaultHeader_to_bytes h' @ drop VAULT_HEADER_SIZE_V1 vb"
    have ml: "length mac = 32" using mac_lengths_simps [OF assms(1)] by (simp add: mac_def)
    have ok': "header_ok h'" using h ml by (simp add: h'_def header_ok_def)
    have lens: "length (VaultHeader_to_bytes h) = 1227" "length (VaultHeader_to_bytes h') = 1227"
      using length_VaultHeader_to_bytes h ok' by (simp_all add: vault_consts)
    have rlen: "length (take VAULT_HMAC_OFFSET (VaultHeader_to_bytes h)) = VAULT_HMAC_OFFSET"
      using lens by (simp add: vault_consts)
    have "header_prefix h' = header_prefix h" "device_slots h' = device_slots h" "revocation_epoch h' = revocation_epoch h"
      by (simp_all add: h'_def header_prefix_def)
    then have same: "take VAULT_HMAC_OFFSET (VaultHeader_to_bytes h') = take VAULT_HMAC_OFFSET (VaultHeader_to_bytes h)"
      using VaultHeader_to_bytes_append [OF ok'] VaultHeader_to_bytes_append [of h] h lens ml
      by (simp add: vault_consts header_ok_def)
    have "migrate_vault_v1_to_v2 P vb vk = Inr out"
      using assms(2) nm ok v1len rlen
      by (simp add: migrate_vault_v1_to_v2_def assms(3) verify_header_hmac_v1_def compute_header_hmac_v1_def
          compute_header_hmac_def hmac_sha256_def Let_def out_def h'_def mac_def)
    moreover have "VaultHeader_parse out = Inr (h\<lparr>format_version := VAULT_FORMAT_VERSION, header_hmac := mac\<rparr>)"
      using VaultHeader_parse_v2_complete [OF ok'] by (simp add: out_def h'_def)
    moreover have "verify_header_hmac P vk (take VAULT_HMAC_OFFSET out) mac = Inr True"
      using same lens by (simp add: verify_header_hmac_def compute_header_hmac_def hmac_sha256_def out_def mac_def vault_consts)
    moreover have "drop VAULT_HEADER_SIZE out = drop VAULT_HEADER_SIZE_V1 vb"
      using lens by (simp add: out_def vault_consts)
    ultimately show ?thesis using h by blast
  qed
  have bad: "migrate_vault_v1_to_v2 P vb vk = Inl MacVerificationFailed"
    if "needs_migration h" "hmac_raw P vk (take VAULT_HMAC_OFFSET_V1 vb) \<noteq> header_hmac h"
    using assms(2) that v1len
    by (simp add: migrate_vault_v1_to_v2_def assms(3) verify_header_hmac_v1_def compute_header_hmac_v1_def
        hmac_sha256_def Let_def)
  have "migrate_vault_v1_to_v2 P vb vk = Inr vb" if "\<not> needs_migration h"
    using assms(2) that by (simp add: migrate_vault_v1_to_v2_def assms(3))
  with good bad show ?thesis by blast
qed

text \<open>A version 1 file with eight empty slots and a valid MAC under the toy primitives.\<close>

definition sample_v1_prefix :: bytes where
  "sample_v1_prefix = VAULT_MAGIC @ u16_to_le 1 @ replicate 797 0"

definition sample_v1 :: bytes where
  "sample_v1 = sample_v1_prefix @ hmac_raw toy_prims (replicate 32 1) sample_v1_prefix @ [1, 2, 3]"

lemma slice_zeros:
  "length xs \<le> a \<Longrightarrow> a \<le> b \<Longrightarrow> b \<le> length xs + n \<Longrightarrow> slice a b (xs @ replicate n 0 @ ys) = replicate (b - a) 0"
  by (simp add: slice_def)

lemma sample_v1_parse:
  "\<exists>h. VaultHeader_parse (take (max VAULT_HEADER_SIZE_V1 (min (length sample_v1) VAULT_HEADER_SIZE)) sample_v1) = Inr h \<and>
     needs_migration h \<and> header_hmac h = hmac_raw toy_prims (replicate 32 1) sample_v1_prefix \<and>
     VAULT_HEADER_SIZE_V1 \<le> length sample_v1 \<and> take VAULT_HMAC_OFFSET_V1 sample_v1 = sample_v1_prefix"
proof -
  let ?mac = "hmac_raw toy_prims (replicate 32 1) sample_v1_prefix"
  have lm: "length ?mac = 32" by (simp add: toy_sel)
  have eq: "sample_v1 = (VAULT_MAGIC @ u16_to_le 1) @ replicate 797 0 @ ?mac @ [1, 2, 3]"
    by (simp only: sample_v1_def, simp only: sample_v1_prefix_def append_assoc)
  have len: "length sample_v1 = 842" using lm by (simp add: eq)
  have tk: "take (max VAULT_HEADER_SIZE_V1 (min (length sample_v1) VAULT_HEADER_SIZE)) sample_v1 = sample_v1"
    using len by (simp add: vault_consts)
  have z: "slice a b sample_v1 = replicate (b - a) 0" if "10 \<le> a" "a \<le> b" "b \<le> 807" for a b
    unfolding eq using that by (intro slice_zeros) simp_all
  have parts: "slice 0 8 sample_v1 = VAULT_MAGIC" "slice 8 10 sample_v1 = u16_to_le 1" "slice 807 839 sample_v1 = ?mac"
    using lm by (simp_all add: eq slice_def)
  have zz: "DeviceSlot_from_bytes_v1 (slice (191 + i * 77) (191 + i * 77 + 77) sample_v1) = Inr DeviceSlot_empty" if "i < 8" for i
    using that by (subst z) (simp_all add: DeviceSlot_from_bytes_v1_def DeviceSlot_empty_def SlotStatus_from_byte_def
        vault_consts slice_def)
  have "try_map (\<lambda>i. DeviceSlot_from_bytes_v1 (slice (191 + i * 77) (191 + i * 77 + 77) sample_v1)) [0..<8] =
    try_map (\<lambda>i. Inr DeviceSlot_empty) [0..<8]"
    by (rule try_map_cong, rule zz) simp
  then have slots: "try_map (\<lambda>i. DeviceSlot_from_bytes_v1 (slice (191 + i * 77) (191 + i * 77 + 77) sample_v1)) [0..<8] =
    Inr (replicate 8 DeviceSlot_empty)"
    by (simp add: upt_rec numeral_eq_Suc)
  have v1: "VaultHeader_parse sample_v1 = VaultHeader_parse_v1 sample_v1"
    using len by (simp add: VaultHeader_parse_def Let_def parts VAULT_FORMAT_VERSION_def VAULT_FORMAT_VERSION_V1_def)
  obtain h where "VaultHeader_parse_v1 sample_v1 = Inr h" "format_version h = 1" "header_hmac h = ?mac"
    using len slots parts by (simp add: VaultHeader_parse_v1_def vault_consts)
  moreover have "take VAULT_HMAC_OFFSET_V1 sample_v1 = sample_v1_prefix"
    by (simp add: sample_v1_def sample_v1_prefix_def vault_consts)
  ultimately show ?thesis
    using len by (auto simp: tk v1 needs_migration_def VAULT_FORMAT_VERSION_def vault_consts)
qed

theorem migrate_vault_correct_witness:
  "\<exists>out. migrate_vault_v1_to_v2 toy_prims sample_v1 (replicate 32 1) = Inr out \<and> drop VAULT_HEADER_SIZE out = [1, 2, 3]"
proof -
  obtain h where h: "VaultHeader_parse (take (max VAULT_HEADER_SIZE_V1 (min (length sample_v1) VAULT_HEADER_SIZE)) sample_v1) = Inr h"
    "needs_migration h" "header_hmac h = hmac_raw toy_prims (replicate 32 1) sample_v1_prefix"
    "VAULT_HEADER_SIZE_V1 \<le> length sample_v1" "take VAULT_HMAC_OFFSET_V1 sample_v1 = sample_v1_prefix"
    using sample_v1_parse by blast
  have "drop VAULT_HEADER_SIZE_V1 sample_v1 = [1, 2, 3]"
    by (simp add: sample_v1_def sample_v1_prefix_def toy_sel vault_consts)
  then show ?thesis
    using migrate_vault_correct [OF toy_ok(2) h(4,1), of "replicate 32 1"] h(2,3,5) by auto
qed

end
