(* ===== verification/Vault_Journal.thy ===== *)
theory Vault_Journal
  imports Vault_Crypto
begin

text \<open>
  The mutation journal of a vault (\<open>sdk-core/src/byo/vault_journal.rs\<close>): entries are encrypted,
  authenticated and appended; the parser walks the file with an offset and stops at the first
  entry it cannot authenticate.
\<close>

definition JOURNAL_MAGIC :: bytes where "JOURNAL_MAGIC = [0x53, 0x43, 0x4a, 0x4e, 0x52, 0x4c, 0x00, 0x01]"
definition ENTRY_TYPE_INSERT :: u8 where "ENTRY_TYPE_INSERT = 0x01"
definition ENTRY_TYPE_UPDATE :: u8 where "ENTRY_TYPE_UPDATE = 0x02"
definition ENTRY_TYPE_DELETE :: u8 where "ENTRY_TYPE_DELETE = 0x03"
definition MAX_ENTRY_DATA_LEN :: nat where "MAX_ENTRY_DATA_LEN = 16 * 1024 * 1024"

definition ALLOWED_JOURNAL_TABLES :: "string list" where
  "ALLOWED_JOURNAL_TABLES = [''files'', ''folders'', ''favorites'', ''trash'', ''share_tokens'', ''vault_meta'',
     ''key_versions'', ''collections'', ''collection_files'', ''share_audit'']"

datatype JournalError =
    TooShort | BadMagic | TableTooLong | BadTableName string | BadEntryType u8 | BadIvLen u8
  | JournalHmacMismatch | JournalCrypto CryptoError | Truncated

record JournalEntry =
  entry_type :: u8
  table :: string
  row_id :: u32
  entry_data :: bytes

subsection \<open>Serializer\<close>

text \<open>The bytes of an entry that its HMAC covers.\<close>

definition entry_body :: "u8 \<Rightarrow> string \<Rightarrow> u32 \<Rightarrow> bytes \<Rightarrow> bytes \<Rightarrow> bytes" where
  "entry_body et tab rid nonce ciphertext =
     [et] @ [word_of_nat (length (as_bytes tab))] @ as_bytes tab @ u32_to_le rid @ [12] @ nonce @
     u32_to_le (word_of_nat (length ciphertext)) @ ciphertext"

definition serialize_entry ::
  "prims \<Rightarrow> bytes \<Rightarrow> JournalKeys \<Rightarrow> u8 \<Rightarrow> string \<Rightarrow> u32 \<Rightarrow> bytes \<Rightarrow> JournalError + bytes" where
  "serialize_entry P nonce keys et tab rid plaintext_data =
     (let table_bytes = as_bytes tab in
      if length table_bytes > 255 then Inl TableTooLong
      else if tab \<notin> set ALLOWED_JOURNAL_TABLES then Inl (BadTableName tab)
      else and_then (map_err JournalCrypto (aes_gcm_encrypt_with_nonce P plaintext_data (jk_aead keys) nonce)) (\<lambda>ciphertext.
        let entry = entry_body et tab rid nonce ciphertext in
        and_then (map_err JournalCrypto (hmac_sha256 P (jk_hmac keys) entry)) (\<lambda>hmac. Inr (entry @ hmac))))"

definition build_journal_file :: "bytes list \<Rightarrow> bytes" where
  "build_journal_file entries = foldl (\<lambda>out e. out @ e) JOURNAL_MAGIC entries"

subsection \<open>Parser\<close>

text \<open>\<open>data.get(i)\<close>.\<close>

definition get_byte :: "bytes \<Rightarrow> nat \<Rightarrow> JournalError + u8" where
  "get_byte data i = (if i < length data then Inr (data ! i) else Inl Truncated)"

text \<open>One turn of the loop: the entry that starts at \<open>entry_start\<close> and the offset behind it.\<close>

definition parse_entry :: "prims \<Rightarrow> JournalKeys \<Rightarrow> bytes \<Rightarrow> nat \<Rightarrow> JournalError + JournalEntry \<times> nat" where
  "parse_entry P keys data entry_start =
     and_then (get_byte data entry_start) (\<lambda>et.
     if et \<notin> {ENTRY_TYPE_INSERT, ENTRY_TYPE_UPDATE, ENTRY_TYPE_DELETE} then Inl (BadEntryType et)
     else let offset = entry_start + 1 in
     and_then (get_byte data offset) (\<lambda>tl.
     let table_len = unat tl; offset = offset + 1 in
     if offset + table_len > length data then Inl Truncated
     else
       let table_slice = slice offset (offset + table_len) data in
     and_then (ok_or (BadTableName ''<non-utf8>'') (from_utf8 table_slice)) (\<lambda>tab.
     if tab \<notin> set ALLOWED_JOURNAL_TABLES then Inl (BadTableName tab)
     else let offset = offset + table_len in
     if offset + 4 > length data then Inl Truncated
     else let rid = u32_from_le (slice offset (offset + 4) data); offset = offset + 4 in
     and_then (get_byte data offset) (\<lambda>iv_len.
     if iv_len \<noteq> 12 then Inl (BadIvLen iv_len)
     else let offset = offset + 1 in
     if offset + 12 > length data then Inl Truncated
     else let nonce = slice offset (offset + 12) data; offset = offset + 12 in
     if offset + 4 > length data then Inl Truncated
     else let data_len = unat (u32_from_le (slice offset (offset + 4) data)) in
     if data_len > MAX_ENTRY_DATA_LEN then Inl Truncated
     else let offset = offset + 4 in
     if offset + data_len + 32 > length data then Inl Truncated
     else
       let enc_data = slice offset (offset + data_len) data;
           offset = offset + data_len;
           entry_bytes = slice entry_start offset data;
           stored_hmac = slice offset (offset + 32) data;
           offset = offset + 32 in
     and_then (map_err JournalCrypto (hmac_sha256 P (jk_hmac keys) entry_bytes)) (\<lambda>expected_hmac.
     if \<not> constant_time_eq expected_hmac stored_hmac then Inl JournalHmacMismatch
     else
     and_then (map_err JournalCrypto (aes_gcm_decrypt P enc_data nonce (jk_aead keys))) (\<lambda>plaintext.
     Inr (\<lparr>entry_type = et, table = tab, row_id = rid, entry_data = plaintext\<rparr>, offset)))))))"

lemma parse_entry_progress: "parse_entry P keys data off = Inr (e, off') \<Longrightarrow> off < off' \<and> off' \<le> length data"
  by (auto simp: parse_entry_def Let_def and_then_Inr_conv split: if_splits)

function parse_entries :: "prims \<Rightarrow> JournalKeys \<Rightarrow> bytes \<Rightarrow> nat \<Rightarrow> JournalEntry list \<Rightarrow> JournalError + JournalEntry list" where
  "parse_entries P keys data offset entries =
     (if offset < length data then
        (case parse_entry P keys data offset of
           Inl e \<Rightarrow> Inl e
         | Inr (entry, offset') \<Rightarrow> parse_entries P keys data offset' (entries @ [entry]))
      else Inr entries)"
  by pat_completeness auto
termination
  by (relation "measure (\<lambda>(P, keys, data, offset, entries). length data - offset)")
    (auto dest: parse_entry_progress)

declare parse_entries.simps [simp del]

definition parse_journal :: "prims \<Rightarrow> JournalKeys \<Rightarrow> bytes \<Rightarrow> JournalError + JournalEntry list" where
  "parse_journal P keys data =
     (if length data < length JOURNAL_MAGIC then Inl TooShort
      else if \<not> constant_time_eq (take (length JOURNAL_MAGIC) data) JOURNAL_MAGIC then Inl BadMagic
      else parse_entries P keys data (length JOURNAL_MAGIC) [])"

subsection \<open>Properties\<close>

text \<open>An authenticated entry on disk, and the conditions the parser imposes on it.\<close>

definition sealed_entry :: "prims \<Rightarrow> JournalKeys \<Rightarrow> JournalEntry \<Rightarrow> bytes \<Rightarrow> bytes \<Rightarrow> bytes" where
  "sealed_entry P keys e nonce ct =
     (let body = entry_body (entry_type e) (table e) (row_id e) nonce ct in body @ hmac_raw P (jk_hmac keys) body)"

definition entry_accepted :: "prims \<Rightarrow> JournalKeys \<Rightarrow> JournalEntry \<Rightarrow> bytes \<Rightarrow> bytes \<Rightarrow> bool" where
  "entry_accepted P keys e nonce ct \<longleftrightarrow>
     entry_type e \<in> {ENTRY_TYPE_INSERT, ENTRY_TYPE_UPDATE, ENTRY_TYPE_DELETE} \<and>
     table e \<in> set ALLOWED_JOURNAL_TABLES \<and> length nonce = 12 \<and> length ct \<le> MAX_ENTRY_DATA_LEN \<and>
     length (jk_aead keys) = 32 \<and> aead_open P (jk_aead keys) nonce ct = Some (entry_data e)"

lemma allowed_table: "tab \<in> set ALLOWED_JOURNAL_TABLES \<Longrightarrow> length tab < 256 \<and> from_utf8 (as_bytes tab) = Some tab"
proof -
  have "list_all (\<lambda>tab. length tab < 256 \<and> list_all (\<lambda>b. b < 0x80) (as_bytes tab)) ALLOWED_JOURNAL_TABLES"
    by (simp add: ALLOWED_JOURNAL_TABLES_def as_bytes_def)
  moreover assume "tab \<in> set ALLOWED_JOURNAL_TABLES"
  ultimately show ?thesis by (auto simp: list_all_iff from_utf8_def intro: valid_utf8_ascii)
qed

lemma length_entry_body: "length (entry_body et tab rid nonce ct) = 11 + length tab + length nonce + length ct"
  by (simp add: entry_body_def)

lemma unat_word_of_nat_u8_lt: "n < 256 \<Longrightarrow> unat (word_of_nat n :: u8) = n"
  by (simp add: unat_of_nat)

lemma unat_word_of_nat_u32_lt: "n < 2 ^ 32 \<Longrightarrow> unat (word_of_nat n :: u32) = n"
  by (simp add: unat_of_nat)

lemma parse_entry_complete:
  assumes "mac_lengths P" and "entry_accepted P keys e nonce ct"
  shows "parse_entry P keys (pre @ sealed_entry P keys e nonce ct @ rest) (length pre) =
    Inr (e, length pre + length (sealed_entry P keys e nonce ct))"
proof -
  define n where "n = length pre"
  define l where "l = length (table e)"
  define body where "body = entry_body (entry_type e) (table e) (row_id e) nonce ct"
  define mac where "mac = hmac_raw P (jk_hmac keys) body"
  let ?data = "pre @ body @ mac @ rest"
  note acc = assms(2) [unfolded entry_accepted_def]
  have ml: "length mac = 32" using mac_lengths_simps [OF assms(1)] by (simp add: mac_def)
  have tab: "l < 256" "from_utf8 (as_bytes (table e)) = Some (table e)"
    using acc allowed_table by (auto simp: l_def)
  have ctl: "length ct < 2 ^ 32" using acc by (simp add: MAX_ENTRY_DATA_LEN_def)
  have bl: "length body = 23 + l + length ct" using acc by (simp add: body_def length_entry_body l_def)
  have g: "get_byte ?data n = Inr (entry_type e)" "get_byte ?data (n + 1) = Inr (word_of_nat l)"
    "get_byte ?data (n + 1 + 1 + l + 4) = Inr 12"
    using bl ml by (simp_all add: get_byte_def n_def body_def entry_body_def nth_append l_def nth_Cons')
  have s: "slice (n + 1 + 1) (n + 1 + 1 + l) ?data = as_bytes (table e)"
    "slice (n + 1 + 1 + l) (n + 1 + 1 + l + 4) ?data = u32_to_le (row_id e)"
    "slice (n + 1 + 1 + l + 4 + 1) (n + 1 + 1 + l + 4 + 1 + 12) ?data = nonce"
    "slice (n + 1 + 1 + l + 4 + 1 + 12) (n + 1 + 1 + l + 4 + 1 + 12 + 4) ?data = u32_to_le (word_of_nat (length ct))"
    using acc by (simp_all add: n_def l_def body_def entry_body_def slice_def drop_Cons')
  have s2: "slice (n + 1 + 1 + l + 4 + 1 + 12 + 4) (n + 1 + 1 + l + 4 + 1 + 12 + 4 + length ct) ?data = ct"
    using acc by (simp add: n_def l_def body_def entry_body_def slice_def drop_Cons')
  have e: "n + 1 + 1 + l + 4 + 1 + 12 + 4 + length ct = n + length body" by (simp add: bl)
  have s3: "slice n (n + length body) ?data = body" "slice (n + length body) (n + length body + 32) ?data = mac"
    using ml by (simp_all add: n_def slice_def)
  have dl: "length ?data = n + 55 + l + length ct + length rest" using bl ml by (simp add: n_def)
  have checks: "(entry_type e \<notin> {ENTRY_TYPE_INSERT, ENTRY_TYPE_UPDATE, ENTRY_TYPE_DELETE}) = False"
    "(n + 1 + 1 + l > length ?data) = False" "(table e \<notin> set ALLOWED_JOURNAL_TABLES) = False"
    "(n + 1 + 1 + l + 4 > length ?data) = False" "((12 :: u8) \<noteq> 12) = False"
    "(n + 1 + 1 + l + 4 + 1 + 12 > length ?data) = False"
    "(n + 1 + 1 + l + 4 + 1 + 12 + 4 > length ?data) = False" "(length ct > MAX_ENTRY_DATA_LEN) = False"
    "(n + 1 + 1 + l + 4 + 1 + 12 + 4 + length ct + 32 > length ?data) = False"
    "unat (word_of_nat l :: u8) = l" "unat (word_of_nat (length ct) :: u32) = length ct"
    using acc dl tab ctl by (simp_all add: unat_word_of_nat_u8_lt unat_word_of_nat_u32_lt)
  have crypt: "hmac_sha256 P (jk_hmac keys) body = Inr mac" "aes_gcm_decrypt P ct nonce (jk_aead keys) = Inr (entry_data e)"
    using acc by (simp_all add: hmac_sha256_def mac_def aes_gcm_decrypt_def)
  have "parse_entry P keys ?data n = Inr (e, n + length body + 32)"
    unfolding parse_entry_def Let_def
    by (simp only: g and_then_simps checks if_False s u32_from_to_le ok_or_simps tab(2) s2,
        simp only: e s3 crypt map_err_simps and_then_simps constant_time_eq_iff if_False not_True_eq_False, simp)
  then show ?thesis
    using ml by (simp add: sealed_entry_def Let_def n_def flip: body_def mac_def)
qed

lemma parse_entry_sound:
  assumes "parse_entry P keys data off = Inr (e, off')"
  shows "\<exists>nonce ct. entry_accepted P keys e nonce ct \<and> slice off off' data = sealed_entry P keys e nonce ct"
proof -
  define l where "l = unat (data ! (off + 1))"
  define o1 where "o1 = off + 1 + 1 + l"
  define k where "k = unat (u32_from_le (slice (o1 + 4 + 1 + 12) (o1 + 4 + 1 + 12 + 4) data))"
  define o2 where "o2 = o1 + 4 + 1 + 12 + 4 + k"
  define nonce where "nonce = slice (o1 + 4 + 1) (o1 + 4 + 1 + 12) data"
  define ct where "ct = slice (o1 + 4 + 1 + 12 + 4) o2 data"
  from assms obtain pt tab where
    c: "off < length data" "data ! off \<in> {ENTRY_TYPE_INSERT, ENTRY_TYPE_UPDATE, ENTRY_TYPE_DELETE}"
      "off + 1 < length data" "from_utf8 (slice (off + 1 + 1) o1 data) = Some tab" "tab \<in> set ALLOWED_JOURNAL_TABLES"
      "o1 + 4 < length data" "data ! (o1 + 4) = 12" "k \<le> MAX_ENTRY_DATA_LEN" "o2 + 32 \<le> length data"
      "hmac_raw P (jk_hmac keys) (slice off o2 data) = slice o2 (o2 + 32) data"
      "aes_gcm_decrypt P ct nonce (jk_aead keys) = Inr pt"
    and e: "e = \<lparr>entry_type = data ! off, table = tab, row_id = u32_from_le (slice o1 (o1 + 4) data), entry_data = pt\<rparr>"
    and off': "off' = o2 + 32"
    unfolding parse_entry_def Let_def get_byte_def hmac_sha256_def
    by (auto simp add: and_then_Inr_conv l_def o1_def k_def o2_def nonce_def ct_def split: if_splits)
  have one: "[data ! i] = slice i (i + 1) data" if "i < length data" for i
    using that by (simp add: slice_def take_Suc_conv_app_nth Cons_nth_drop_Suc [symmetric])
  have tab: "as_bytes tab = slice (off + 1 + 1) o1 data" using from_utf8_Some [OF c(4)] .
  have tl: "length (as_bytes tab) = l" using tab c(6) by (simp add: o1_def del: length_as_bytes)
  have ctl: "length ct = k" using c(9) by (simp add: ct_def o2_def)
  have b1: "[data ! off] = slice off (off + 1) data" using c(1) by (rule one)
  have b2: "[word_of_nat (length (as_bytes tab))] = slice (off + 1) (off + 1 + 1) data"
    unfolding tl l_def using one [OF c(3)] by simp
  have b4: "u32_to_le (u32_from_le (slice o1 (o1 + 4) data)) = slice o1 (o1 + 4) data"
    using c(6) by (intro u32_to_from_le) simp
  have b5: "[12] = slice (o1 + 4) (o1 + 4 + 1) data" using one [OF c(6)] c(7) by simp
  have b7: "u32_to_le (word_of_nat (length ct)) = slice (o1 + 4 + 1 + 12) (o1 + 4 + 1 + 12 + 4) data"
    using u32_to_from_le [of "slice (o1 + 4 + 1 + 12) (o1 + 4 + 1 + 12 + 4) data"] c(9) by (simp add: ctl k_def o2_def)
  have "entry_body (data ! off) tab (u32_from_le (slice o1 (o1 + 4) data)) nonce ct =
    slice off (off + 1) data @ slice (off + 1) (off + 1 + 1) data @ slice (off + 1 + 1) o1 data @
    slice o1 (o1 + 4) data @ slice (o1 + 4) (o1 + 4 + 1) data @ slice (o1 + 4 + 1) (o1 + 4 + 1 + 12) data @
    slice (o1 + 4 + 1 + 12) (o1 + 4 + 1 + 12 + 4) data @ slice (o1 + 4 + 1 + 12 + 4) o2 data"
    unfolding entry_body_def b1 b2 b4 b5 b7 by (simp only: tab nonce_def ct_def)
  also have "\<dots> = slice off o2 data"
    by (simp add: slice_split o1_def o2_def)
  finally have body: "entry_body (data ! off) tab (u32_from_le (slice o1 (o1 + 4) data)) nonce ct = slice off o2 data" .
  have "sealed_entry P keys e nonce ct = slice off o2 data @ slice o2 (o2 + 32) data"
    using c(10) by (simp add: sealed_entry_def e body)
  also have "\<dots> = slice off off' data" by (simp add: slice_split off' o1_def o2_def)
  finally have "slice off off' data = sealed_entry P keys e nonce ct" by simp
  moreover have "entry_accepted P keys e nonce ct"
    using c ctl by (auto simp: entry_accepted_def e nonce_def o2_def aes_gcm_decrypt_def split: if_splits)
  ultimately show ?thesis by blast
qed

lemma build_journal_file_concat: "build_journal_file es = JOURNAL_MAGIC @ concat es"
proof -
  have "foldl (\<lambda>out e. out @ e) pre es = pre @ concat es" for pre
    by (induction es arbitrary: pre) auto
  then show ?thesis by (simp add: build_journal_file_def)
qed

text \<open>The file that holds the given entries with the given nonces and ciphertexts.\<close>

definition journal_of :: "prims \<Rightarrow> JournalKeys \<Rightarrow> JournalEntry list \<Rightarrow> (bytes \<times> bytes) list \<Rightarrow> bytes" where
  "journal_of P keys es ps = build_journal_file (map2 (\<lambda>e (nonce, ct). sealed_entry P keys e nonce ct) es ps)"

lemma parse_entries_complete:
  assumes "mac_lengths P" and "list_all2 (\<lambda>e (nonce, ct). entry_accepted P keys e nonce ct) es ps"
  shows "parse_entries P keys (pre @ concat (map2 (\<lambda>e (nonce, ct). sealed_entry P keys e nonce ct) es ps))
    (length pre) acc = Inr (acc @ es)"
  using assms(2)
proof (induction es ps arbitrary: pre acc rule: list_all2_induct)
  case Nil
  then show ?case by (subst parse_entries.simps) simp
next
  case (Cons e es p ps)
  obtain nonce ct where p: "p = (nonce, ct)" by (cases p)
  let ?rest = "concat (map2 (\<lambda>e (nonce, ct). sealed_entry P keys e nonce ct) es ps)"
  have "entry_accepted P keys e nonce ct" using Cons(1) p by simp
  note step = parse_entry_complete [OF assms(1) this, of pre ?rest]
  have "0 < length (sealed_entry P keys e nonce ct)" by (simp add: sealed_entry_def Let_def entry_body_def)
  then show ?case
    using Cons(3) [of "pre @ sealed_entry P keys e nonce ct" "acc @ [e]"] step
    by (subst parse_entries.simps) (simp add: p)
qed

lemma parse_entries_sound:
  assumes "parse_entries P keys data off acc = Inr out" and "off \<le> length data"
  shows "\<exists>es ps. out = acc @ es \<and> list_all2 (\<lambda>e (nonce, ct). entry_accepted P keys e nonce ct) es ps \<and>
    drop off data = concat (map2 (\<lambda>e (nonce, ct). sealed_entry P keys e nonce ct) es ps)"
  using assms
proof (induction P keys data off acc rule: parse_entries.induct)
  case (1 P keys data off acc)
  show ?case
  proof (cases "off < length data")
    case False
    then show ?thesis
      using 1(2,3) by (intro exI [of _ "[]"] exI [of _ "[]"], subst (asm) parse_entries.simps) simp
  next
    case True
    then obtain e off' where pe: "parse_entry P keys data off = Inr (e, off')"
      and tail: "parse_entries P keys data off' (acc @ [e]) = Inr out"
      using 1(2) by (auto simp: parse_entries.simps [of P keys data off acc] split: sum.splits)
    note prog = parse_entry_progress [OF pe]
    obtain nonce ct where acc: "entry_accepted P keys e nonce ct" and raw: "slice off off' data = sealed_entry P keys e nonce ct"
      using parse_entry_sound [OF pe] by blast
    obtain es ps where "out = (acc @ [e]) @ es" "list_all2 (\<lambda>e (nonce, ct). entry_accepted P keys e nonce ct) es ps"
      "drop off' data = concat (map2 (\<lambda>e (nonce, ct). sealed_entry P keys e nonce ct) es ps)"
      using 1(1) [OF True pe refl tail] prog by auto
    moreover have "drop off data = slice off off' data @ drop off' data"
      using prog by (metis append_take_drop_id drop_drop le_add_diff_inverse2 less_imp_le_nat slice_def)
    ultimately show ?thesis
      using acc raw by (intro exI [of _ "e # es"] exI [of _ "(nonce, ct) # ps"]) simp
  qed
qed

lemma parse_journal_complete:
  assumes "mac_lengths P" and "list_all2 (\<lambda>e (nonce, ct). entry_accepted P keys e nonce ct) es ps"
  shows "parse_journal P keys (journal_of P keys es ps) = Inr es"
  using parse_entries_complete [OF assms, of JOURNAL_MAGIC "[]"]
  by (simp add: parse_journal_def journal_of_def build_journal_file_concat)

text \<open>
  C12. The journal parser accepts exactly the files made of authenticated entries: it returns
  entries \<open>es\<close> if and only if the file is the magic followed by one sealed entry for each of them,
  where every entry has a known type, a table of the allow-list, a ciphertext of at most 16 MiB
  that opens to its data, and an HMAC over all its bytes.
\<close>

theorem parse_journal_iff:
  assumes "mac_lengths P"
  shows "parse_journal P keys data = Inr es \<longleftrightarrow>
    (\<exists>ps. list_all2 (\<lambda>e (nonce, ct). entry_accepted P keys e nonce ct) es ps \<and> data = journal_of P keys es ps)"
proof
  assume p: "parse_journal P keys data = Inr es"
  then have magic: "length JOURNAL_MAGIC \<le> length data" "take (length JOURNAL_MAGIC) data = JOURNAL_MAGIC"
    and run: "parse_entries P keys data (length JOURNAL_MAGIC) [] = Inr es"
    by (auto simp: parse_journal_def split: if_splits)
  then show "\<exists>ps. list_all2 (\<lambda>e (nonce, ct). entry_accepted P keys e nonce ct) es ps \<and> data = journal_of P keys es ps"
    using parse_entries_sound [OF run magic(1)] append_take_drop_id [of "length JOURNAL_MAGIC" data]
    by (auto simp: journal_of_def build_journal_file_concat)
next
  assume "\<exists>ps. list_all2 (\<lambda>e (nonce, ct). entry_accepted P keys e nonce ct) es ps \<and> data = journal_of P keys es ps"
  then show "parse_journal P keys data = Inr es"
    using parse_journal_complete [OF assms] by blast
qed

definition sample_keys :: JournalKeys where
  "sample_keys = \<lparr>jk_aead = replicate 32 1, jk_hmac = replicate 32 2\<rparr>"

definition sample_entry :: JournalEntry where
  "sample_entry = \<lparr>entry_type = ENTRY_TYPE_INSERT, table = ''files'', row_id = 7, entry_data = [123, 125]\<rparr>"

lemma sample_entry_accepted: "entry_accepted toy_prims sample_keys sample_entry (replicate 12 0) ([123, 125] @ replicate 16 0)"
  by (simp add: entry_accepted_def sample_keys_def sample_entry_def toy_sel ALLOWED_JOURNAL_TABLES_def MAX_ENTRY_DATA_LEN_def)

theorem parse_journal_iff_witness:
  "parse_journal toy_prims sample_keys
     (journal_of toy_prims sample_keys [sample_entry] [(replicate 12 0, [123, 125] @ replicate 16 0)]) = Inr [sample_entry]"
  using parse_journal_iff [OF mac_lengths_toy, of sample_keys _ "[sample_entry]"] sample_entry_accepted
  by (simp del: append.simps) blast

lemma serialize_entry_ok:
  assumes "aead_correct P" and "length (jk_aead keys) = 32" and "length nonce = 12" and "length d \<le> aead_limit"
    and "tab \<in> set ALLOWED_JOURNAL_TABLES"
  obtains ct where "aead_open P (jk_aead keys) nonce ct = Some d" and "length ct = length d + 16"
    and "\<And>et rid. serialize_entry P nonce keys et tab rid d =
      Inr (sealed_entry P keys \<lparr>entry_type = et, table = tab, row_id = rid, entry_data = d\<rparr> nonce ct)"
proof -
  obtain ct where ct: "aead_seal P (jk_aead keys) nonce d = Some ct" "length ct = length d + 16"
    "aead_open P (jk_aead keys) nonce ct = Some d"
    using aead_correct_sealE [OF assms(1-4)] by auto
  have "length tab < 256" using allowed_table [OF assms(5)] by simp
  then have "serialize_entry P nonce keys et tab rid d =
      Inr (sealed_entry P keys \<lparr>entry_type = et, table = tab, row_id = rid, entry_data = d\<rparr> nonce ct)" for et rid
    using assms(2,5) ct by (simp add: serialize_entry_def Let_def aes_gcm_encrypt_with_nonce_def hmac_sha256_def sealed_entry_def)
  with ct that show thesis by blast
qed

text \<open>
  Journal round trip: entries of the allow-listed tables with at most 16 MiB of ciphertext
  each, serialized one by one under fresh nonces and built into a file, parse back to themselves.
\<close>

theorem journal_roundtrip:
  assumes "aead_correct P" and "mac_lengths P" and "length (jk_aead keys) = 32"
    and "length nonces = length es" and "\<forall>nonce\<in>set nonces. length nonce = 12"
    and "\<forall>e\<in>set es. entry_type e \<in> {ENTRY_TYPE_INSERT, ENTRY_TYPE_UPDATE, ENTRY_TYPE_DELETE} \<and>
      table e \<in> set ALLOWED_JOURNAL_TABLES \<and> length (entry_data e) + 16 \<le> MAX_ENTRY_DATA_LEN"
  shows "\<exists>bs. try_map (\<lambda>(nonce, e). serialize_entry P nonce keys (entry_type e) (table e) (row_id e) (entry_data e))
      (zip nonces es) = Inr bs \<and> parse_journal P keys (build_journal_file bs) = Inr es"
proof -
  have "\<exists>ps. try_map (\<lambda>(nonce, e). serialize_entry P nonce keys (entry_type e) (table e) (row_id e) (entry_data e))
      (zip nonces es) = Inr (map2 (\<lambda>e (nonce, ct). sealed_entry P keys e nonce ct) es ps) \<and>
    list_all2 (\<lambda>e (nonce, ct). entry_accepted P keys e nonce ct) es ps"
    using assms(4-6)
  proof (induction nonces es rule: list_induct2)
    case Nil
    then show ?case by simp
  next
    case (Cons nonce nonces e es)
    then have ok: "length nonce = 12" "length (entry_data e) \<le> aead_limit" "table e \<in> set ALLOWED_JOURNAL_TABLES"
      "length (entry_data e) + 16 \<le> MAX_ENTRY_DATA_LEN"
      by (auto simp: MAX_ENTRY_DATA_LEN_def)
    obtain ct where ct: "aead_open P (jk_aead keys) nonce ct = Some (entry_data e)" "length ct = length (entry_data e) + 16"
      "serialize_entry P nonce keys (entry_type e) (table e) (row_id e) (entry_data e) = Inr (sealed_entry P keys e nonce ct)"
      using serialize_entry_ok [OF assms(1,3) ok(1-3)] by (metis JournalEntry.surjective unit.exhaust)
    obtain ps where ps: "try_map (\<lambda>(nonce, e). serialize_entry P nonce keys (entry_type e) (table e) (row_id e) (entry_data e))
      (zip nonces es) = Inr (map2 (\<lambda>e (nonce, ct). sealed_entry P keys e nonce ct) es ps)"
      "list_all2 (\<lambda>e (nonce, ct). entry_accepted P keys e nonce ct) es ps"
      using Cons.IH Cons.prems by auto
    have "entry_accepted P keys e nonce ct"
      using Cons.prems ct ok assms(3) by (simp add: entry_accepted_def)
    then show ?case using ct ps by (intro exI [of _ "(nonce, ct) # ps"]) simp
  qed
  then show ?thesis
    using parse_journal_complete [OF assms(2), of keys es] by (auto simp: journal_of_def)
qed

theorem journal_roundtrip_witness:
  "\<exists>bs. try_map (\<lambda>(nonce, e). serialize_entry toy_prims nonce sample_keys (entry_type e) (table e) (row_id e) (entry_data e))
      (zip [replicate 12 0] [sample_entry]) = Inr bs \<and>
    parse_journal toy_prims sample_keys (build_journal_file bs) = Inr [sample_entry]"
  using journal_roundtrip [OF aead_correct_toy mac_lengths_toy, of sample_keys "[replicate 12 0]" "[sample_entry]"]
  by (simp add: sample_keys_def sample_entry_def ALLOWED_JOURNAL_TABLES_def MAX_ENTRY_DATA_LEN_def)

text \<open>
  The serializer has no size limit where the parser has one: an entry whose ciphertext exceeds
  16 MiB (and fits a \<open>u32\<close>) is serialized without error, but a journal that holds it is rejected
  as truncated.
\<close>

theorem oversize_entry_unreadable:
  assumes "aead_correct P" and "mac_lengths P" and "length (jk_aead keys) = 32" and "length nonce = 12"
    and "tab \<in> set ALLOWED_JOURNAL_TABLES" and "et \<in> {ENTRY_TYPE_INSERT, ENTRY_TYPE_UPDATE, ENTRY_TYPE_DELETE}"
    and "MAX_ENTRY_DATA_LEN < length d + 16" and "length d + 16 < 2 ^ 32"
  shows "\<exists>b. serialize_entry P nonce keys et tab rid d = Inr b \<and>
    parse_journal P keys (build_journal_file [b]) = Inl Truncated"
proof -
  let ?e = "\<lparr>entry_type = et, table = tab, row_id = rid, entry_data = d\<rparr>"
  have dl: "length d \<le> aead_limit" using assms(8) by simp
  obtain ct where ct: "length ct = length d + 16"
    "serialize_entry P nonce keys et tab rid d = Inr (sealed_entry P keys ?e nonce ct)"
    by (rule serialize_entry_ok [OF assms(1,3,4) dl assms(5)]) blast
  note tab = allowed_table [OF assms(5)]
  let ?l = "length tab" and ?data = "build_journal_file [sealed_entry P keys ?e nonce ct]"
  have data: "?data = JOURNAL_MAGIC @ [et] @ [word_of_nat ?l] @ as_bytes tab @ u32_to_le rid @ [12] @ nonce @
      u32_to_le (word_of_nat (length ct)) @ ct @ hmac_raw P (jk_hmac keys) (entry_body et tab rid nonce ct)"
    by (simp add: build_journal_file_concat sealed_entry_def Let_def entry_body_def)
  have lm: "length JOURNAL_MAGIC = 8" by (simp add: JOURNAL_MAGIC_def)
  have g: "get_byte ?data 8 = Inr et" "get_byte ?data (8 + 1) = Inr (word_of_nat ?l)" "get_byte ?data (8 + 1 + 1 + ?l + 4) = Inr 12"
    using lm by (simp_all add: data get_byte_def nth_append nth_Cons')
  have s: "slice (8 + 1 + 1) (8 + 1 + 1 + ?l) ?data = as_bytes tab"
    "slice (8 + 1 + 1 + ?l + 4 + 1 + 12) (8 + 1 + 1 + ?l + 4 + 1 + 12 + 4) ?data = u32_to_le (word_of_nat (length ct))"
    using lm assms(4) by (simp_all add: data slice_def drop_Cons')
  have checks: "(et \<notin> {ENTRY_TYPE_INSERT, ENTRY_TYPE_UPDATE, ENTRY_TYPE_DELETE}) = False"
    "(8 + 1 + 1 + ?l > length ?data) = False" "(tab \<notin> set ALLOWED_JOURNAL_TABLES) = False"
    "(8 + 1 + 1 + ?l + 4 > length ?data) = False" "((12 :: u8) \<noteq> 12) = False"
    "(8 + 1 + 1 + ?l + 4 + 1 + 12 > length ?data) = False"
    "(8 + 1 + 1 + ?l + 4 + 1 + 12 + 4 > length ?data) = False" "(length ct > MAX_ENTRY_DATA_LEN) = True"
    "unat (word_of_nat ?l :: u8) = ?l"
    using assms tab ct(1) lm by (simp_all add: data unat_word_of_nat_u8_lt)
  have ctl: "unat (word_of_nat (length ct) :: u32) = length ct"
    by (rule unat_word_of_nat_u32_lt) (simp only: ct(1) assms(8))
  have "parse_entry P keys ?data 8 = Inl Truncated"
    unfolding parse_entry_def Let_def
    by (simp only: g and_then_simps checks ctl if_False if_True s u32_from_to_le ok_or_simps conjunct2 [OF tab])
  moreover have "8 < length ?data" and "take 8 ?data = JOURNAL_MAGIC" using lm by (simp_all add: data)
  ultimately have "parse_journal P keys ?data = Inl Truncated"
    using lm by (simp add: parse_journal_def parse_entries.simps [of P keys ?data 8])
  with ct show ?thesis by blast
qed

theorem oversize_entry_unreadable_witness:
  "\<exists>b. serialize_entry toy_prims (replicate 12 0) sample_keys ENTRY_TYPE_INSERT ''files'' 1 (replicate 16777216 0) = Inr b \<and>
     parse_journal toy_prims sample_keys (build_journal_file [b]) = Inl Truncated"
  using oversize_entry_unreadable [OF aead_correct_toy mac_lengths_toy, of sample_keys "replicate 12 0" "''files''"
      ENTRY_TYPE_INSERT "replicate 16777216 0" 1]
  by (simp add: sample_keys_def ALLOWED_JOURNAL_TABLES_def MAX_ENTRY_DATA_LEN_def)

end
