(* ===== verification/Vault_Manifest.thy ===== *)
theory Vault_Manifest
  imports Vault_Crypto "HOL-Library.Multiset" "HOL-Library.Char_ord" "HOL-Library.List_Lexorder"
begin

text \<open>
  The provider registry of a vault (\<open>sdk-core/src/byo/manifest.rs\<close>): entries with tombstones, the
  last-writer-wins merge of several replicas, the choice of the primary provider, validation, and
  the mutation helpers.  Times are seconds in a \<open>u64\<close>.

  The merge collects the entries in a \<open>HashMap\<close> whose iteration order is unspecified; the order
  is the parameter \<open>order\<close>, of which only \<open>iteration_order\<close> is assumed.  JSON encoding is a crate
  outside the repository and a parameter of the two functions that call it.
\<close>

definition MAX_CLOCK_SKEW_SECS :: nat where "MAX_CLOCK_SKEW_SECS = 3600"

record ManifestEntry =
  provider_id :: string
  provider_type :: string
  display_name :: string
  config_json :: string
  is_primary :: bool
  sftp_host_key_fingerprint :: "string option"
  vault_version_hint :: "string option"
  created_at :: nat
  updated_at :: nat
  tombstone :: bool

record Manifest =
  manifest_version :: nat
  providers :: "ManifestEntry list"

datatype ManifestError =
    ManifestEncryption CryptoError
  | ManifestDecryption CryptoError
  | ManifestSerialize string
  | ManifestDeserialize string
  | InvariantViolated string

definition active_providers :: "Manifest \<Rightarrow> ManifestEntry list" where
  "active_providers m = filter (\<lambda>e. \<not> tombstone e) (providers m)"

definition primary_provider :: "Manifest \<Rightarrow> ManifestEntry option" where
  "primary_provider m = find (\<lambda>e. \<not> tombstone e \<and> is_primary e) (providers m)"

definition find_entry :: "Manifest \<Rightarrow> string \<Rightarrow> ManifestEntry option" where
  "find_entry m pid = find (\<lambda>e. provider_id e = pid) (providers m)"

subsection \<open>Encryption\<close>

definition encrypt_manifest ::
  "prims \<Rightarrow> (Manifest \<Rightarrow> string + bytes) \<Rightarrow> bytes \<Rightarrow> bytes \<Rightarrow> Manifest \<Rightarrow> ManifestError + bytes" where
  "encrypt_manifest P to_json nonce vault_key manifest =
     and_then (map_err ManifestSerialize (to_json manifest)) (\<lambda>json.
     and_then (map_err ManifestEncryption (derive_manifest_aead_key P vault_key)) (\<lambda>key.
     map_err ManifestEncryption (encrypt_body P nonce json key)))"

definition decrypt_manifest ::
  "prims \<Rightarrow> (bytes \<Rightarrow> string + Manifest) \<Rightarrow> bytes \<Rightarrow> bytes \<Rightarrow> ManifestError + Manifest" where
  "decrypt_manifest P from_json vault_key body_blob =
     and_then (map_err ManifestDecryption (derive_manifest_aead_key P vault_key)) (\<lambda>key.
     and_then (map_err ManifestDecryption (decrypt_body P body_blob key)) (\<lambda>json_bytes.
     map_err ManifestDeserialize (from_json json_bytes)))"

subsection \<open>Merge\<close>

definition entry_is_better :: "ManifestEntry \<Rightarrow> ManifestEntry \<Rightarrow> bool" where
  "entry_is_better candidate current =
     (if updated_at candidate > updated_at current then True
      else if updated_at candidate = updated_at current then tombstone candidate \<and> \<not> tombstone current
      else False)"

text \<open>\<open>entry(id).or_insert_with(..)\<close> and the replacement of a worse winner, on the map's values.\<close>

fun upsert :: "ManifestEntry \<Rightarrow> ManifestEntry list \<Rightarrow> ManifestEntry list" where
  "upsert e [] = [e]"
| "upsert e (w # ws) =
     (if provider_id w = provider_id e then (if entry_is_better e w then e else w) # ws else w # upsert e ws)"

definition skewed :: "nat \<Rightarrow> ManifestEntry \<Rightarrow> bool" where
  "skewed now e \<longleftrightarrow> now \<noteq> u64_max \<and> updated_at e > sat_add64 now MAX_CLOCK_SKEW_SECS"

fun collect_entries :: "nat \<Rightarrow> ManifestEntry list \<Rightarrow> ManifestEntry list \<Rightarrow> ManifestError + ManifestEntry list" where
  "collect_entries now [] by_id = Inr by_id"
| "collect_entries now (e # es) by_id =
     (if skewed now e then
        Inl (InvariantViolated (''provider '' @ provider_id e @ '' has updated_at '' @ show_nat (updated_at e) @
          '' which is more than '' @ show_nat MAX_CLOCK_SKEW_SECS @ '' seconds in the future (now='' @ show_nat now @
          ''); possible clock skew or hostile manifest''))
      else collect_entries now es (upsert e by_id))"

text \<open>\<open>a.updated_at.cmp(&b.updated_at).then(a.provider_id.cmp(&b.provider_id))\<close> and its mirror on \<open>created_at\<close>.\<close>

definition gt_updated :: "ManifestEntry \<Rightarrow> ManifestEntry \<Rightarrow> bool" where
  "gt_updated a b \<longleftrightarrow> updated_at a > updated_at b \<or> updated_at a = updated_at b \<and> provider_id a > provider_id b"

definition gt_created :: "ManifestEntry \<Rightarrow> ManifestEntry \<Rightarrow> bool" where
  "gt_created a b \<longleftrightarrow> created_at a > created_at b \<or> created_at a = created_at b \<and> provider_id a > provider_id b"

definition enforce_primary_uniqueness :: "ManifestEntry list \<Rightarrow> ManifestEntry list" where
  "enforce_primary_uniqueness ps =
     (let indexed = enumerate 0 ps;
          primary_indices = map fst (filter (\<lambda>(i, e). \<not> tombstone e \<and> is_primary e) indexed) in
      if length primary_indices \<le> 1 then
        if primary_indices = [] then
          (case min_by (\<lambda>(i, a) (j, b). gt_created a b) (filter (\<lambda>(i, e). \<not> tombstone e) indexed) of
             None \<Rightarrow> ps
           | Some (idx, e) \<Rightarrow> ps[idx := (ps ! idx)\<lparr>is_primary := True\<rparr>])
        else ps
      else
        (case max_by (\<lambda>a b. gt_updated (ps ! a) (ps ! b)) primary_indices of
           None \<Rightarrow> ps
         | Some winner_idx \<Rightarrow>
             let cleared = foldl (\<lambda>qs idx. qs[idx := (qs ! idx)\<lparr>is_primary := False\<rparr>]) ps primary_indices
             in cleared[winner_idx := (cleared ! winner_idx)\<lparr>is_primary := True\<rparr>]))"

subsection \<open>Validation\<close>

fun validate_entries :: "nat \<Rightarrow> string list \<Rightarrow> ManifestEntry list \<Rightarrow> ManifestError + unit" where
  "validate_entries now seen [] = Inr ()"
| "validate_entries now seen (e # es) =
     (if provider_id e = [] then Inl (InvariantViolated ''provider_id must not be empty'')
      else if CHR 0x00 \<in> set (provider_id e) then Inl (InvariantViolated ''provider_id must not contain NUL bytes'')
      else if length (provider_id e) > 64 then
        Inl (InvariantViolated (''provider_id too long ('' @ show_nat (length (provider_id e)) @ '' > 64 bytes)''))
      else if provider_id e \<in> set seen then
        Inl (InvariantViolated (''duplicate provider_id: '' @ provider_id e))
      else if skewed now e then
        Inl (InvariantViolated (''provider '' @ provider_id e @ '' has updated_at '' @ show_nat (updated_at e) @
          '' which is more than '' @ show_nat MAX_CLOCK_SKEW_SECS @ '' seconds in the future''))
      else if tombstone e \<and> is_primary e then
        Inl (InvariantViolated (''provider '' @ provider_id e @ '' is both tombstoned and primary'' @
          of_bytes [0x20, 0xE2, 0x80, 0x94] @ '' invariant violation''))
      else validate_entries now (provider_id e # seen) es)"

definition validate_manifest :: "Manifest \<Rightarrow> nat \<Rightarrow> ManifestError + unit" where
  "validate_manifest manifest now =
     and_then (validate_entries now [] (providers manifest)) (\<lambda>_.
     let primary_count = length (filter (\<lambda>e. \<not> tombstone e \<and> is_primary e) (providers manifest));
         active_count = length (filter (\<lambda>e. \<not> tombstone e) (providers manifest)) in
     if active_count = 0 \<and> primary_count = 0 then Inr ()
     else if primary_count = 1 then Inr ()
     else if primary_count = 0 then Inl (InvariantViolated ''no active primary provider'')
     else Inl (InvariantViolated (''multiple primary providers ('' @ show_nat primary_count @ '')'')))"

definition merge_manifests ::
  "(ManifestEntry list \<Rightarrow> ManifestEntry list) \<Rightarrow> Manifest list \<Rightarrow> nat \<Rightarrow> nat option \<Rightarrow> ManifestError + Manifest" where
  "merge_manifests order manifests now min_acceptable_version =
     (if manifests = [] then Inl (InvariantViolated ''merge_manifests: no manifests provided'')
      else
        and_then (collect_entries now (concat (map providers manifests)) []) (\<lambda>by_id.
        let ps = enforce_primary_uniqueness (order by_id);
            max_version = Max (set (map manifest_version manifests));
            version = sat_add64 max_version 1;
            merged = \<lparr>manifest_version = version, providers = ps\<rparr> in
        case min_acceptable_version of
          Some floor \<Rightarrow>
            if version < floor then
              Inl (InvariantViolated (''merged manifest_version '' @ show_nat version @ '' is less than min_acceptable_version '' @
                show_nat floor @ ''; possible manifest rollback attack''))
            else and_then (validate_manifest merged now) (\<lambda>_. Inr merged)
        | None \<Rightarrow> and_then (validate_manifest merged now) (\<lambda>_. Inr merged)))"

definition iteration_order :: "(ManifestEntry list \<Rightarrow> ManifestEntry list) \<Rightarrow> bool" where
  "iteration_order order \<longleftrightarrow> (\<forall>xs. mset (order xs) = mset xs)"

subsection \<open>Mutations\<close>

definition manifest_add_provider :: "Manifest \<Rightarrow> ManifestEntry \<Rightarrow> ManifestError + Manifest" where
  "manifest_add_provider m e =
     (if \<exists>p\<in>set (providers m). provider_id p = provider_id e \<and> \<not> tombstone p then
        Inl (InvariantViolated (''provider '' @ provider_id e @ '' already exists (non-tombstone)''))
      else Inr (m\<lparr>providers := providers m @ [e]\<rparr>))"

definition not_found :: "string \<Rightarrow> ManifestError" where
  "not_found pid = InvariantViolated (''provider '' @ pid @ '' not found or tombstoned'')"

definition manifest_rename_provider :: "Manifest \<Rightarrow> string \<Rightarrow> string \<Rightarrow> nat \<Rightarrow> ManifestError + Manifest" where
  "manifest_rename_provider m pid new_name now =
     (let trimmed = trim new_name in
      if trimmed = [] then Inl (InvariantViolated ''display name must not be empty'')
      else and_then (ok_or (not_found pid)
          (update_first (\<lambda>p. provider_id p = pid \<and> \<not> tombstone p) (\<lambda>p. p\<lparr>display_name := trimmed, updated_at := now\<rparr>)
             (providers m)))
        (\<lambda>ps. Inr (m\<lparr>providers := ps\<rparr>)))"

definition manifest_set_primary_provider :: "Manifest \<Rightarrow> string \<Rightarrow> nat \<Rightarrow> ManifestError + Manifest" where
  "manifest_set_primary_provider m pid now =
     (let found = (\<exists>p\<in>set (providers m). provider_id p = pid \<and> \<not> tombstone p) in
      if \<not> found then Inl (not_found pid)
      else Inr (m\<lparr>providers := map (\<lambda>p. if provider_id p = pid \<and> \<not> tombstone p
                                        then p\<lparr>is_primary := True, updated_at := now\<rparr>
                                        else p\<lparr>is_primary := False\<rparr>) (providers m)\<rparr>))"

definition manifest_update_provider_config :: "Manifest \<Rightarrow> string \<Rightarrow> string \<Rightarrow> nat \<Rightarrow> ManifestError + Manifest" where
  "manifest_update_provider_config m pid new_config_json now =
     and_then (ok_or (not_found pid)
        (update_first (\<lambda>p. provider_id p = pid \<and> \<not> tombstone p) (\<lambda>p. p\<lparr>config_json := new_config_json, updated_at := now\<rparr>)
           (providers m)))
      (\<lambda>ps. Inr (m\<lparr>providers := ps\<rparr>))"

definition manifest_tombstone_provider :: "Manifest \<Rightarrow> string \<Rightarrow> nat \<Rightarrow> ManifestError + Manifest" where
  "manifest_tombstone_provider m pid now =
     (if \<exists>p\<in>set (providers m). provider_id p = pid \<and> is_primary p then
        Inl (InvariantViolated ''cannot tombstone the primary provider'')
      else and_then (ok_or (InvariantViolated (''provider '' @ pid @ '' not found or already tombstoned''))
          (update_first (\<lambda>p. provider_id p = pid \<and> \<not> tombstone p)
             (\<lambda>p. p\<lparr>tombstone := True, is_primary := False, updated_at := now\<rparr>) (providers m)))
        (\<lambda>ps. Inr (m\<lparr>providers := ps\<rparr>)))"

subsection \<open>The merged entries\<close>

text \<open>
  The last writers among a set of entries: one per provider, and no entry of the same provider is
  newer, or as new and removed while the last writer is not.
\<close>

definition winners_of :: "ManifestEntry set \<Rightarrow> ManifestEntry list \<Rightarrow> bool" where
  "winners_of E ws \<longleftrightarrow> distinct (map provider_id ws) \<and> set ws \<subseteq> E \<and> provider_id ` set ws = provider_id ` E \<and>
     (\<forall>w\<in>set ws. \<forall>e\<in>E. provider_id e = provider_id w \<longrightarrow>
        updated_at e < updated_at w \<or> updated_at e = updated_at w \<and> (tombstone e \<longrightarrow> tombstone w))"

text \<open>The comparison of the code decides this order.\<close>

lemma not_better_iff: "\<not> entry_is_better e w \<longleftrightarrow>
    updated_at e < updated_at w \<or> updated_at e = updated_at w \<and> (tombstone e \<longrightarrow> tombstone w)"
  by (auto simp: entry_is_better_def)

lemma winners_of_better: "winners_of E ws \<longleftrightarrow>
    distinct (map provider_id ws) \<and> set ws \<subseteq> E \<and> provider_id ` set ws = provider_id ` E \<and>
    (\<forall>w\<in>set ws. \<forall>e\<in>E. provider_id e = provider_id w \<longrightarrow> \<not> entry_is_better e w)"
  by (simp add: winners_of_def not_better_iff)

lemma entry_is_better_irrefl [simp]: "\<not> entry_is_better e e"
  by (simp add: entry_is_better_def)

lemma entry_is_better_asym: "entry_is_better a b \<Longrightarrow> \<not> entry_is_better b a"
  by (auto simp: entry_is_better_def split: if_splits)

lemma not_better_trans: "\<not> entry_is_better a b \<Longrightarrow> \<not> entry_is_better b c \<Longrightarrow> \<not> entry_is_better a c"
  by (auto simp: entry_is_better_def split: if_splits)

lemma upsert_ids: "provider_id ` set (upsert e ws) = insert (provider_id e) (provider_id ` set ws)"
  by (induction ws) auto

lemma upsert_set: "set (upsert e ws) \<subseteq> insert e (set ws)"
  by (induction ws) auto

lemma upsert_distinct: "distinct (map provider_id ws) \<Longrightarrow> distinct (map provider_id (upsert e ws))"
proof (induction ws)
  case (Cons w ws)
  then show ?case using upsert_ids [of e ws] by auto
qed simp

lemma upsert_beats:
  "distinct (map provider_id ws) \<Longrightarrow> r \<in> set (upsert e ws) \<Longrightarrow>
     (provider_id e = provider_id r \<longrightarrow> \<not> entry_is_better e r) \<and>
     (\<forall>w\<in>set ws. provider_id w = provider_id r \<longrightarrow> \<not> entry_is_better w r)"
proof (induction ws)
  case (Cons w ws)
  have same: "a = b" if "a \<in> set (w # ws)" "b \<in> set (w # ws)" "provider_id a = provider_id b" for a b
    using Cons.prems(1) that unfolding distinct_map inj_on_def by blast
  show ?case
  proof (cases "provider_id w = provider_id e")
    case True
    have "provider_id r \<noteq> provider_id w" if "r \<in> set ws"
      using Cons.prems(1) imageI [OF that, of provider_id] by auto
    then consider "r = e" "entry_is_better e w" | "r = w" "\<not> entry_is_better e w" | "r \<in> set ws" "provider_id r \<noteq> provider_id e"
      using Cons.prems(2) True by (auto split: if_splits)
    then show ?thesis
      using True same [of w] same [of r] Cons.prems(1) entry_is_better_asym
      by cases (metis entry_is_better_irrefl list.set_intros(1,2) set_ConsD)+
  next
    case False
    have r: "r = w \<or> r \<in> set (upsert e ws)" using False Cons.prems(2) by simp
    show ?thesis
    proof (cases "r = w")
      case True
      then show ?thesis using False same [of _ w] entry_is_better_irrefl by (metis list.set_intros(1))
    next
      case neq: False
      then have "provider_id r \<in> insert (provider_id e) (provider_id ` set ws)"
        using r imageI [of r "set (upsert e ws)" provider_id] upsert_ids [of e ws] by simp
      then have "provider_id w \<noteq> provider_id r" using False Cons.prems(1) by auto
      then show ?thesis using r neq Cons.IH Cons.prems(1) by auto
    qed
  qed
qed auto

lemma winners_upsert: "winners_of E ws \<Longrightarrow> winners_of (insert e E) (upsert e ws)"
proof -
  assume W: "winners_of E ws"
  then have D: "distinct (map provider_id ws)" and I: "provider_id ` set ws = provider_id ` E"
    and B: "\<And>w x. w \<in> set ws \<Longrightarrow> x \<in> E \<Longrightarrow> provider_id x = provider_id w \<Longrightarrow> \<not> entry_is_better x w"
    by (auto simp: winners_of_better)
  have "\<not> entry_is_better x r" if r: "r \<in> set (upsert e ws)" and x: "x \<in> insert e E" and id: "provider_id x = provider_id r" for x r
  proof (cases "x = e")
    case True
    then show ?thesis using upsert_beats [OF D r] id by simp
  next
    case False
    then have "provider_id x \<in> provider_id ` set ws" using x I by auto
    then obtain w where w: "w \<in> set ws" "provider_id w = provider_id x" by auto
    then have "\<not> entry_is_better x w" using B [of w x] x False by simp
    moreover have "\<not> entry_is_better w r" using upsert_beats [OF D r] w id by simp
    ultimately show ?thesis by (rule not_better_trans)
  qed
  moreover have "set (upsert e ws) \<subseteq> insert e E" using upsert_set [of e ws] W by (auto simp: winners_of_better)
  ultimately show ?thesis using upsert_distinct [OF D] upsert_ids [of e ws] I by (simp add: winners_of_better)
qed

lemma collect_entries_winners:
  "collect_entries now es ws = Inr rs \<Longrightarrow> winners_of E ws \<Longrightarrow>
     winners_of (set es \<union> E) rs \<and> (\<forall>e\<in>set es. \<not> skewed now e)"
proof (induction es arbitrary: ws E)
  case (Cons e es)
  then show ?case using winners_upsert [of E ws e] by (fastforce split: if_splits)
qed simp

lemma collect_entries_total: "(\<And>e. e \<in> set es \<Longrightarrow> \<not> skewed now e) \<Longrightarrow> \<exists>rs. collect_entries now es ws = Inr rs"
  by (induction es arbitrary: ws) auto

lemma collect_entries_skewed: "e \<in> set es \<Longrightarrow> skewed now e \<Longrightarrow> \<exists>msg. collect_entries now es ws = Inl (InvariantViolated msg)"
  by (induction es arbitrary: ws) auto

lemma winners_perm: "mset ws' = mset ws \<Longrightarrow> winners_of E ws \<Longrightarrow> winners_of E ws'"
proof -
  assume M: "mset ws' = mset ws" and W: "winners_of E ws"
  have "mset (map provider_id ws') = mset (map provider_id ws)" using M by simp
  then have "distinct (map provider_id ws') = distinct (map provider_id ws)"
    by (metis distinct_count_atmost_1 set_mset_mset)
  then show ?thesis using W mset_eq_setD [OF M] by (simp add: winners_of_better)
qed

subsection \<open>The election of the primary\<close>

text \<open>The provider that \<open>enforce_primary_uniqueness\<close> leaves primary, and its effect on one entry.\<close>

definition claims_primary :: "ManifestEntry \<Rightarrow> bool" where
  "claims_primary e \<longleftrightarrow> \<not> tombstone e \<and> is_primary e"

definition elected :: "ManifestEntry list \<Rightarrow> string option" where
  "elected ps =
     (case max_by gt_updated (filter claims_primary ps) of
        Some e \<Rightarrow> Some (provider_id e)
      | None \<Rightarrow> map_option provider_id (min_by gt_created (filter (\<lambda>e. \<not> tombstone e) ps)))"

definition mark_primary :: "string option \<Rightarrow> ManifestEntry \<Rightarrow> ManifestEntry" where
  "mark_primary w e = (if tombstone e then e else e\<lparr>is_primary := (w = Some (provider_id e))\<rparr>)"

lemma foldl_map_commute:
  "(\<And>a b. f (g a b) = h (f a) (f b)) \<Longrightarrow> f (foldl g x xs) = foldl h (f x) (map f xs)"
  by (induction xs arbitrary: x) simp_all

lemma max_by_map: "map_option f (max_by (\<lambda>a b. gt (f a) (f b)) xs) = max_by gt (map f xs)"
  by (cases xs) (simp_all add: foldl_map_commute [where h = "\<lambda>acc y. if gt acc y then acc else y"])

lemma min_by_map: "map_option f (min_by (\<lambda>a b. gt (f a) (f b)) xs) = min_by gt (map f xs)"
  by (cases xs) (simp_all add: foldl_map_commute [where h = "\<lambda>acc y. if gt acc y then y else acc"])

lemma map_filter_enumerate: "map snd (filter (\<lambda>(i, e). p e) (enumerate n ps)) = filter p ps"
  by (induction ps arbitrary: n) auto

lemma enumerate_nth: "(i, e) \<in> set (enumerate 0 ps) \<longleftrightarrow> i < length ps \<and> e = ps ! i"
  by (auto simp: in_set_enumerate_eq)

lemma fold_choice_mem: "(\<And>a b. g a b \<in> {a, b}) \<Longrightarrow> foldl g x xs \<in> insert x (set xs)"
proof (induction xs arbitrary: x)
  case (Cons y ys)
  have "foldl g (g x y) ys \<in> insert (g x y) (set ys)" by (rule Cons.IH) (rule Cons.prems)
  then show ?case using Cons.prems [of x y] by auto
qed simp

lemma max_by_mem: "max_by gt xs = Some m \<Longrightarrow> m \<in> set xs"
proof (cases xs)
  case (Cons x ys)
  have "foldl (\<lambda>acc y. if gt acc y then acc else y) x ys \<in> insert x (set ys)" by (rule fold_choice_mem) simp
  moreover assume "max_by gt xs = Some m"
  ultimately show ?thesis using Cons by simp
qed simp

lemma min_by_mem: "min_by gt xs = Some m \<Longrightarrow> m \<in> set xs"
proof (cases xs)
  case (Cons x ys)
  have "foldl (\<lambda>acc y. if gt acc y then y else acc) x ys \<in> insert x (set ys)" by (rule fold_choice_mem) simp
  moreover assume "min_by gt xs = Some m"
  ultimately show ?thesis using Cons by simp
qed simp

lemma keep_not_primary: "\<not> is_primary e \<Longrightarrow> e\<lparr>is_primary := False\<rparr> = e"
  by (cases e) simp

lemma keep_primary: "is_primary e \<Longrightarrow> e\<lparr>is_primary := True\<rparr> = e"
  by (cases e) simp

lemma clear_all_nth:
  "i < length ps \<Longrightarrow> foldl (\<lambda>qs idx. qs[idx := (qs ! idx)\<lparr>is_primary := False\<rparr>]) ps is ! i =
     (if i \<in> set is then (ps ! i)\<lparr>is_primary := False\<rparr> else ps ! i)"
proof (induction "is" arbitrary: ps)
  case (Cons k ks)
  then show ?case by (cases "i = k") simp_all
qed simp

lemma clear_all_length [simp]:
  "length (foldl (\<lambda>qs idx. qs[idx := (qs ! idx)\<lparr>is_primary := False\<rparr>]) ps is) = length ps"
  by (induction "is" arbitrary: ps) auto

definition claim_indices :: "ManifestEntry list \<Rightarrow> nat list" where
  "claim_indices ps = map fst (filter (\<lambda>(i, e). \<not> tombstone e \<and> is_primary e) (enumerate 0 ps))"

lemma claim_indices_set: "set (claim_indices ps) = {i. i < length ps \<and> claims_primary (ps ! i)}"
  by (force simp: claim_indices_def claims_primary_def enumerate_nth image_iff)

lemma claim_indices_map: "map ((!) ps) (claim_indices ps) = filter claims_primary ps"
proof -
  have "map ((!) ps) (claim_indices ps) = map snd (filter (\<lambda>(i, e). \<not> tombstone e \<and> is_primary e) (enumerate 0 ps))"
    by (auto simp: claim_indices_def enumerate_nth)
  also have "\<dots> = filter (\<lambda>e. \<not> tombstone e \<and> is_primary e) ps"
    by (rule map_filter_enumerate [of "\<lambda>e. \<not> tombstone e \<and> is_primary e"])
  also have "\<dots> = filter claims_primary ps" by (simp add: claims_primary_def [abs_def])
  finally show ?thesis .
qed

lemma marks_eq:
  assumes "\<And>i. i < length ps \<Longrightarrow> qs ! i = mark_primary w (ps ! i)" "length qs = length ps"
  shows "qs = map (mark_primary w) ps"
  using assms by (intro nth_equalityI) simp_all

lemma id_index: "distinct (map provider_id ps) \<Longrightarrow> i < length ps \<Longrightarrow> j < length ps \<Longrightarrow>
   provider_id (ps ! i) = provider_id (ps ! j) \<longleftrightarrow> i = j"
  by (metis distinct_conv_nth length_map nth_map)

lemma enforce_unfold:
  "enforce_primary_uniqueness ps =
     (if length (claim_indices ps) \<le> 1 then
        if claim_indices ps = [] then
          (case min_by (\<lambda>(i, a) (j, b). gt_created a b) (filter (\<lambda>(i, e). \<not> tombstone e) (enumerate 0 ps)) of
             None \<Rightarrow> ps
           | Some (idx, e) \<Rightarrow> ps[idx := (ps ! idx)\<lparr>is_primary := True\<rparr>])
        else ps
      else
        (case max_by (\<lambda>a b. gt_updated (ps ! a) (ps ! b)) (claim_indices ps) of
           None \<Rightarrow> ps
         | Some k \<Rightarrow>
             let cleared = foldl (\<lambda>qs idx. qs[idx := (qs ! idx)\<lparr>is_primary := False\<rparr>]) ps (claim_indices ps)
             in cleared[k := (cleared ! k)\<lparr>is_primary := True\<rparr>]))"
  unfolding enforce_primary_uniqueness_def claim_indices_def Let_def ..

lemma enforce_no_claim:
  assumes D: "distinct (map provider_id ps)" and N: "claim_indices ps = []"
  shows "enforce_primary_uniqueness ps = map (mark_primary (elected ps)) ps"
proof -
  let ?act = "filter (\<lambda>(i, e). \<not> tombstone e) (enumerate 0 ps)"
  have none: "filter claims_primary ps = []" using claim_indices_map [of ps] N by simp
  then have nc: "\<not> claims_primary e" if "e \<in> set ps" for e using that by (auto simp: filter_empty_conv)
  have eq: "min_by gt_created (filter (\<lambda>e. \<not> tombstone e) ps) = map_option snd (min_by (\<lambda>(i, a) (j, b). gt_created a b) ?act)"
    using min_by_map [of snd gt_created ?act] map_filter_enumerate [of "\<lambda>e. \<not> tombstone e" 0 ps]
    by (simp add: case_prod_unfold)
  show ?thesis
  proof (cases "min_by (\<lambda>(i, a) (j, b). gt_created a b) ?act")
    case None
    then have "filter (\<lambda>e. \<not> tombstone e) ps = []" using eq by (cases "filter (\<lambda>e. \<not> tombstone e) ps") auto
    then have "mark_primary w e = e" if "e \<in> set ps" for w e
      using that by (auto simp: filter_empty_conv mark_primary_def)
    then show ?thesis using None N by (simp add: enforce_unfold map_idI)
  next
    case (Some x)
    obtain k e where x: "x = (k, e)" by (cases x)
    have ke: "k < length ps" "e = ps ! k" "\<not> tombstone e"
      using min_by_mem [OF Some] x by (auto simp: enumerate_nth)
    have el: "elected ps = Some (provider_id e)" using eq Some x by (simp add: elected_def none)
    have "ps[k := (ps ! k)\<lparr>is_primary := True\<rparr>] = map (mark_primary (elected ps)) ps"
    proof (rule marks_eq)
      fix i assume i: "i < length ps"
      show "ps[k := (ps ! k)\<lparr>is_primary := True\<rparr>] ! i = mark_primary (elected ps) (ps ! i)"
        using ke i el id_index [OF D ke(1) i] nc [OF nth_mem [OF i]]
        by (cases "i = k") (auto simp: mark_primary_def claims_primary_def keep_not_primary)
    qed simp
    then show ?thesis using Some x N by (simp add: enforce_unfold)
  qed
qed

lemma claim_winner:
  assumes "claim_indices ps \<noteq> []"
  obtains k where "max_by (\<lambda>a b. gt_updated (ps ! a) (ps ! b)) (claim_indices ps) = Some k" "k < length ps"
    "claims_primary (ps ! k)" "elected ps = Some (provider_id (ps ! k))"
proof -
  obtain k where k: "max_by (\<lambda>a b. gt_updated (ps ! a) (ps ! b)) (claim_indices ps) = Some k"
    using assms by (cases "claim_indices ps") auto
  have "max_by gt_updated (filter claims_primary ps) = Some (ps ! k)"
    using max_by_map [of "(!) ps" gt_updated "claim_indices ps"] claim_indices_map [of ps] k by simp
  then have "elected ps = Some (provider_id (ps ! k))" by (simp add: elected_def)
  then show ?thesis using that k max_by_mem [OF k] by (auto simp: claim_indices_set)
qed

lemma enforce_claims:
  assumes D: "distinct (map provider_id ps)" and N: "claim_indices ps \<noteq> []"
  shows "enforce_primary_uniqueness ps = map (mark_primary (elected ps)) ps"
proof -
  obtain k where k: "max_by (\<lambda>a b. gt_updated (ps ! a) (ps ! b)) (claim_indices ps) = Some k"
    and kl: "k < length ps" "claims_primary (ps ! k)" and el: "elected ps = Some (provider_id (ps ! k))"
    using claim_winner [OF N] .
  have CS: "i \<in> set (claim_indices ps) \<longleftrightarrow> claims_primary (ps ! i)" if "i < length ps" for i
    using that by (simp add: claim_indices_set)
  show ?thesis
  proof (cases "length (claim_indices ps) \<le> 1")
    case True
    then obtain j where j: "claim_indices ps = [j]" using N by (cases "claim_indices ps") auto
    have only: "claims_primary (ps ! i) \<longleftrightarrow> i = k" if "i < length ps" for i
      using CS [OF that] CS [OF kl(1)] kl(2) j by auto
    have "ps = map (mark_primary (elected ps)) ps"
    proof (rule marks_eq)
      fix i assume i: "i < length ps"
      show "ps ! i = mark_primary (elected ps) (ps ! i)"
        using only [OF i] el id_index [OF D kl(1) i]
        by (intro sym [of _ "ps ! i"]) (auto simp: mark_primary_def claims_primary_def keep_primary intro: keep_not_primary)
    qed simp
    then show ?thesis using j by (simp add: enforce_unfold)
  next
    case False
    let ?c = "foldl (\<lambda>qs idx. qs[idx := (qs ! idx)\<lparr>is_primary := False\<rparr>]) ps (claim_indices ps)"
    have "?c[k := (?c ! k)\<lparr>is_primary := True\<rparr>] = map (mark_primary (elected ps)) ps"
    proof (rule marks_eq)
      fix i assume i: "i < length ps"
      show "?c[k := (?c ! k)\<lparr>is_primary := True\<rparr>] ! i = mark_primary (elected ps) (ps ! i)"
        using i kl el id_index [OF D kl(1) i] CS [OF i]
        by (cases "i = k") (auto simp: clear_all_nth CS mark_primary_def claims_primary_def keep_not_primary)
    qed simp
    then show ?thesis using k False unfolding enforce_unfold by (simp add: Let_def)
  qed
qed

lemma enforce_primary_marks:
  "distinct (map provider_id ps) \<Longrightarrow> enforce_primary_uniqueness ps = map (mark_primary (elected ps)) ps"
  using enforce_no_claim enforce_claims by blast

lemma mark_primary_fields [simp]:
  "provider_id (mark_primary w e) = provider_id e" "tombstone (mark_primary w e) = tombstone e"
  "updated_at (mark_primary w e) = updated_at e" "created_at (mark_primary w e) = created_at e"
  by (simp_all add: mark_primary_def)

text \<open>The election does not depend on the order of the entries.\<close>

lemma gt_updated_order:
  "\<not> gt_updated a a" "gt_updated a b \<Longrightarrow> \<not> gt_updated b a" "\<not> gt_updated a b \<Longrightarrow> \<not> gt_updated b c \<Longrightarrow> \<not> gt_updated a c"
  "\<not> gt_updated a b \<Longrightarrow> \<not> gt_updated b a \<Longrightarrow> provider_id a = provider_id b"
  by (auto simp: gt_updated_def)

lemma gt_created_order:
  "\<not> gt_created a a" "gt_created a b \<Longrightarrow> \<not> gt_created b a" "\<not> gt_created a b \<Longrightarrow> \<not> gt_created b c \<Longrightarrow> \<not> gt_created a c"
  "\<not> gt_created a b \<Longrightarrow> \<not> gt_created b a \<Longrightarrow> provider_id a = provider_id b"
  by (auto simp: gt_created_def)

lemma max_by_None [simp]: "max_by gt xs = None \<longleftrightarrow> xs = []"
  by (cases xs) auto

lemma min_by_None [simp]: "min_by gt xs = None \<longleftrightarrow> xs = []"
  by (cases xs) auto

lemma max_by_updated_set:
  "set xs = set ys \<Longrightarrow> map_option provider_id (max_by gt_updated xs) = map_option provider_id (max_by gt_updated ys)"
proof (cases "max_by gt_updated xs"; cases "max_by gt_updated ys")
  fix a b assume s: "set xs = set ys" and a: "max_by gt_updated xs = Some a" and b: "max_by gt_updated ys = Some b"
  have "provider_id a = provider_id b"
    using max_by_Some [OF gt_updated_order(1-3) a] max_by_Some [OF gt_updated_order(1-3) b] s
    by (intro gt_updated_order(4)) auto
  then show ?thesis by (simp add: a b)
qed auto

lemma min_by_created_set:
  "set xs = set ys \<Longrightarrow> map_option provider_id (min_by gt_created xs) = map_option provider_id (min_by gt_created ys)"
proof (cases "min_by gt_created xs"; cases "min_by gt_created ys")
  fix a b assume s: "set xs = set ys" and a: "min_by gt_created xs = Some a" and b: "min_by gt_created ys = Some b"
  have "provider_id a = provider_id b"
    using min_by_Some [OF gt_created_order(1-3) a] min_by_Some [OF gt_created_order(1-3) b] s
    by (intro gt_created_order(4)) auto
  then show ?thesis by (simp add: a b)
qed auto

lemma elected_alt:
  "elected ps = (if filter claims_primary ps = [] then map_option provider_id (min_by gt_created (filter (\<lambda>e. \<not> tombstone e) ps))
                 else map_option provider_id (max_by gt_updated (filter claims_primary ps)))"
  by (auto simp: elected_def split: option.splits)

lemma elected_set: "set xs = set ys \<Longrightarrow> elected xs = elected ys"
  unfolding elected_alt
  by (intro if_cong max_by_updated_set min_by_created_set) (auto simp: filter_empty_conv)

text \<open>
  The election, said on the entries: among the active entries that claim to be primary the one
  updated last, or without a claim the active entry created first; the provider's name decides ties,
  the greater for claims and the smaller otherwise.
\<close>

definition takes_primary :: "ManifestEntry list \<Rightarrow> ManifestEntry \<Rightarrow> bool" where
  "takes_primary ws w \<longleftrightarrow> \<not> tombstone w \<and>
     (if \<exists>v\<in>set ws. \<not> tombstone v \<and> is_primary v
      then is_primary w \<and> (\<forall>v\<in>set ws. \<not> tombstone v \<and> is_primary v \<longrightarrow>
        updated_at v < updated_at w \<or> updated_at v = updated_at w \<and> provider_id v \<le> provider_id w)
      else (\<forall>v\<in>set ws. \<not> tombstone v \<longrightarrow>
        created_at w < created_at v \<or> created_at w = created_at v \<and> provider_id w \<le> provider_id v))"

lemma not_gt_updated: "\<not> gt_updated v w \<longleftrightarrow> updated_at v < updated_at w \<or> updated_at v = updated_at w \<and> provider_id v \<le> provider_id w"
  by (auto simp: gt_updated_def)

lemma not_gt_created: "\<not> gt_created w v \<longleftrightarrow> created_at w < created_at v \<or> created_at w = created_at v \<and> provider_id w \<le> provider_id v"
  by (auto simp: gt_created_def)

lemma elected_iff:
  assumes D: "distinct (map provider_id ws)" and w: "w \<in> set ws" "\<not> tombstone w"
  shows "elected ws = Some (provider_id w) \<longleftrightarrow> takes_primary ws w"
proof -
  have same: "a \<in> set ws \<Longrightarrow> provider_id a = provider_id w \<Longrightarrow> a = w" for a
    using D w(1) by (auto simp: distinct_map inj_on_def)
  show ?thesis
  proof (cases "filter claims_primary ws = []")
    case True
    then have claim: "\<not> (\<exists>v\<in>set ws. \<not> tombstone v \<and> is_primary v)" by (auto simp: filter_empty_conv claims_primary_def)
    obtain a where a: "min_by gt_created (filter (\<lambda>e. \<not> tombstone e) ws) = Some a"
      using w by (cases "min_by gt_created (filter (\<lambda>e. \<not> tombstone e) ws)") (auto simp: filter_empty_conv)
    note A = min_by_Some [OF gt_created_order(1-3) a]
    have "elected ws = Some (provider_id w) \<longleftrightarrow> a = w" using True a A same by (auto simp: elected_alt)
    also have "\<dots> \<longleftrightarrow> (\<forall>v\<in>set ws. \<not> tombstone v \<longrightarrow> \<not> gt_created w v)"
    proof
      assume least: "\<forall>v\<in>set ws. \<not> tombstone v \<longrightarrow> \<not> gt_created w v"
      have "\<not> gt_created a w" using A w by simp
      then show "a = w" using A least by (intro same) (auto intro!: gt_created_order(4))
    qed (use A in auto)
    finally show ?thesis unfolding takes_primary_def not_gt_created if_not_P [OF claim] using w(2) by simp
  next
    case False
    then have claim: "\<exists>v\<in>set ws. \<not> tombstone v \<and> is_primary v" by (auto simp: filter_empty_conv claims_primary_def)
    obtain a where a: "max_by gt_updated (filter claims_primary ws) = Some a"
      using False by (cases "max_by gt_updated (filter claims_primary ws)") auto
    note A = max_by_Some [OF gt_updated_order(1-3) a]
    have "elected ws = Some (provider_id w) \<longleftrightarrow> a = w" using False a A same by (auto simp: elected_alt)
    also have "\<dots> \<longleftrightarrow> claims_primary w \<and> (\<forall>v\<in>set ws. claims_primary v \<longrightarrow> \<not> gt_updated v w)"
    proof
      assume latest: "claims_primary w \<and> (\<forall>v\<in>set ws. claims_primary v \<longrightarrow> \<not> gt_updated v w)"
      then have "\<not> gt_updated w a" using A w by simp
      then show "a = w" using A latest by (intro same) (auto intro!: gt_updated_order(4))
    qed (use A in auto)
    finally show ?thesis using claim w(2) by (auto simp: takes_primary_def not_gt_updated claims_primary_def)
  qed
qed

lemma mark_primary_takes:
  assumes "distinct (map provider_id ws)" and "w \<in> set ws"
  shows "mark_primary (elected ws) w = (if tombstone w then w else w\<lparr>is_primary := takes_primary ws w\<rparr>)"
  using elected_iff [OF assms] by (simp add: mark_primary_def)

subsection \<open>What the merge returns\<close>

lemma validate_entries_iff:
  "validate_entries now seen es = Inr () \<longleftrightarrow>
     distinct (map provider_id es) \<and> (\<forall>e\<in>set es. provider_id e \<noteq> [] \<and> CHR 0x00 \<notin> set (provider_id e) \<and> length (provider_id e) \<le> 64 \<and>
       provider_id e \<notin> set seen \<and> \<not> skewed now e \<and> \<not> (tombstone e \<and> is_primary e))"
proof (induction es arbitrary: seen)
  case (Cons e es)
  show ?case by (simp add: Cons.IH) (auto simp: not_le image_iff)
qed simp

text \<open>The invariant that \<open>validate_manifest\<close> decides.\<close>

definition valid_manifest :: "nat \<Rightarrow> Manifest \<Rightarrow> bool" where
  "valid_manifest now m \<longleftrightarrow>
     distinct (map provider_id (providers m)) \<and>
     (\<forall>e\<in>set (providers m). provider_id e \<noteq> [] \<and> CHR 0x00 \<notin> set (provider_id e) \<and> length (provider_id e) \<le> 64 \<and>
        \<not> skewed now e \<and> \<not> (tombstone e \<and> is_primary e)) \<and>
     (active_providers m = [] \<or> length (filter claims_primary (providers m)) = 1)"

lemma and_then_unit: "and_then r f = Inr y \<longleftrightarrow> r = Inr () \<and> f () = Inr y"
  by (cases r) (auto simp: and_then_def)

lemma validate_manifest_iff: "validate_manifest m now = Inr () \<longleftrightarrow> valid_manifest now m"
proof -
  let ?p = "filter claims_primary (providers m)"
  have "active_providers m = [] \<Longrightarrow> ?p = []" by (auto simp: active_providers_def filter_empty_conv claims_primary_def)
  then show ?thesis
    unfolding validate_manifest_def and_then_unit validate_entries_iff valid_manifest_def Let_def
      active_providers_def claims_primary_def [symmetric] by auto
qed

definition inputs :: "Manifest list \<Rightarrow> ManifestEntry set" where
  "inputs ms = (\<Union>m\<in>set ms. set (providers m))"

definition merged_version :: "Manifest list \<Rightarrow> nat" where
  "merged_version ms = sat_add64 (Max (set (map manifest_version ms))) 1"

definition above_floor :: "nat option \<Rightarrow> nat \<Rightarrow> bool" where
  "above_floor floor v \<longleftrightarrow> (case floor of None \<Rightarrow> True | Some f \<Rightarrow> f \<le> v)"

lemma merge_unfold:
  "ms \<noteq> [] \<Longrightarrow> merge_manifests order ms now floor =
     and_then (collect_entries now (concat (map providers ms)) []) (\<lambda>by_id.
       let merged = \<lparr>manifest_version = merged_version ms, providers = enforce_primary_uniqueness (order by_id)\<rparr> in
       if above_floor floor (merged_version ms) then and_then (validate_manifest merged now) (\<lambda>_. Inr merged)
       else Inl (InvariantViolated (''merged manifest_version '' @ show_nat (merged_version ms) @
         '' is less than min_acceptable_version '' @ show_nat (the floor) @ ''; possible manifest rollback attack'')))"
  by (cases floor; cases "collect_entries now (concat (map providers ms)) []")
    (auto simp: merge_manifests_def merged_version_def above_floor_def Let_def and_then_def)

lemma collect_winners: "collect_entries now (concat (map providers ms)) [] = Inr rs \<Longrightarrow> winners_of (inputs ms) rs"
  using collect_entries_winners [of now "concat (map providers ms)" "[]" rs "{}"]
  by (simp add: winners_of_better [of "{}"] inputs_def)

lemma merge_ok:
  assumes O: "iteration_order order" and M: "merge_manifests order ms now floor = Inr m"
  obtains ws where "winners_of (inputs ms) ws" "providers m = map (mark_primary (elected ws)) ws"
    "manifest_version m = merged_version ms" "above_floor floor (merged_version ms)" "valid_manifest now m"
    "\<forall>e\<in>inputs ms. \<not> skewed now e" "ms \<noteq> []"
proof -
  have ne: "ms \<noteq> []" using M by (auto simp: merge_manifests_def)
  obtain rs where rs: "collect_entries now (concat (map providers ms)) [] = Inr rs"
    using M by (cases "collect_entries now (concat (map providers ms)) []") (auto simp: merge_unfold [OF ne] and_then_def)
  have W: "winners_of (inputs ms) (order rs)"
    using winners_perm [OF _ collect_winners [OF rs]] O by (simp add: iteration_order_def)
  then have E: "enforce_primary_uniqueness (order rs) = map (mark_primary (elected (order rs))) (order rs)"
    by (intro enforce_primary_marks) (simp add: winners_of_better)
  have S: "\<forall>e\<in>inputs ms. \<not> skewed now e"
    using collect_entries_winners [OF rs, of "{}"] by (simp add: winners_of_better [of "{}"] inputs_def)
  have m: "m = \<lparr>manifest_version = merged_version ms, providers = map (mark_primary (elected (order rs))) (order rs)\<rparr>"
    "above_floor floor (merged_version ms)" "validate_manifest m now = Inr ()"
    using M rs by (auto simp: merge_unfold [OF ne] and_then_unit E Let_def split: if_splits)
  show ?thesis using that [of "order rs"] W S ne m validate_manifest_iff [of m now] by simp
qed

lemma winners_nonempty_active: "active_providers m \<noteq> [] \<longleftrightarrow> (\<exists>e\<in>set (providers m). \<not> tombstone e)"
  by (auto simp: active_providers_def filter_empty_conv)

lemma elected_active:
  assumes "\<not> tombstone e" "e \<in> set ws" "distinct (map provider_id ws)"
  obtains k where "k < length ws" "\<not> tombstone (ws ! k)" "elected ws = Some (provider_id (ws ! k))"
proof (cases "filter claims_primary ws = []")
  case True
  obtain a where a: "min_by gt_created (filter (\<lambda>e. \<not> tombstone e) ws) = Some a"
    using assms by (cases "min_by gt_created (filter (\<lambda>e. \<not> tombstone e) ws)") (auto simp: filter_empty_conv)
  then have "a \<in> set ws" "\<not> tombstone a" using min_by_mem [OF a] by auto
  then show ?thesis using that a True by (auto simp: elected_alt in_set_conv_nth)
next
  case False
  then obtain a where a: "max_by gt_updated (filter claims_primary ws) = Some a"
    by (cases "max_by gt_updated (filter claims_primary ws)") auto
  then have "a \<in> set ws" "\<not> tombstone a" using max_by_mem [OF a] by (auto simp: claims_primary_def)
  then show ?thesis using that a False by (auto simp: elected_alt in_set_conv_nth)
qed

lemma marked_one_primary:
  assumes D: "distinct (map provider_id ws)" and A: "e \<in> set ws" "\<not> tombstone e"
  shows "length (filter claims_primary (map (mark_primary (elected ws)) ws)) = 1"
proof -
  obtain k where k: "k < length ws" "\<not> tombstone (ws ! k)" "elected ws = Some (provider_id (ws ! k))"
    using elected_active [OF A(2,1) D] .
  have "claims_primary (mark_primary (elected ws) (ws ! i)) \<longleftrightarrow> i = k" if "i < length ws" for i
    using k id_index [OF D k(1) that] by (auto simp: claims_primary_def mark_primary_def)
  then have "{i. i < length ws \<and> claims_primary (map (mark_primary (elected ws)) ws ! i)} = {k}" using k(1) by auto
  then show ?thesis by (simp add: length_filter_conv_card)
qed

lemma winners_valid:
  assumes W: "winners_of E ws"
    and E: "\<And>e. e \<in> E \<Longrightarrow> provider_id e \<noteq> [] \<and> CHR 0x00 \<notin> set (provider_id e) \<and> length (provider_id e) \<le> 64 \<and>
              \<not> skewed now e \<and> \<not> (tombstone e \<and> is_primary e)"
  shows "valid_manifest now \<lparr>manifest_version = v, providers = map (mark_primary (elected ws)) ws\<rparr>"
proof -
  have D: "distinct (map provider_id ws)" and S: "set ws \<subseteq> E" using W by (auto simp: winners_of_better)
  have "\<not> skewed now (mark_primary w e)" if "\<not> skewed now e" for w e using that by (simp add: skewed_def)
  moreover have "\<not> (tombstone (mark_primary w e) \<and> is_primary (mark_primary w e))" if "\<not> (tombstone e \<and> is_primary e)" for w e
    using that by (auto simp: mark_primary_def)
  moreover have "(\<forall>e\<in>set ws. tombstone e) \<or> length (filter claims_primary (map (mark_primary (elected ws)) ws)) = 1"
    using marked_one_primary [OF D] by blast
  ultimately show ?thesis
    using D S E by (auto simp: valid_manifest_def active_providers_def o_def filter_empty_conv subset_eq)
qed

subsection \<open>Properties\<close>

text \<open>Sample manifests, for the applications of the theorems.\<close>

definition sample_entry :: "string \<Rightarrow> nat \<Rightarrow> bool \<Rightarrow> bool \<Rightarrow> string \<Rightarrow> ManifestEntry" where
  "sample_entry pid t prim tomb cfg = \<lparr>provider_id = pid, provider_type = ''s3'', display_name = pid, config_json = cfg,
     is_primary = prim, sftp_host_key_fingerprint = None, vault_version_hint = None, created_at = 1, updated_at = t,
     tombstone = tomb\<rparr>"

definition sample_old :: Manifest where
  "sample_old = \<lparr>manifest_version = 3, providers = [sample_entry ''a'' 10 True False ''x'', sample_entry ''b'' 10 False False ''x'']\<rparr>"

definition sample_new :: Manifest where
  "sample_new = \<lparr>manifest_version = 4, providers = [sample_entry ''a'' 10 True False ''x'', sample_entry ''b'' 20 False True ''x'']\<rparr>"

definition sample_merged :: Manifest where
  "sample_merged = \<lparr>manifest_version = 5, providers = [sample_entry ''a'' 10 True False ''x'', sample_entry ''b'' 20 False True ''x'']\<rparr>"

definition sample_other :: Manifest where
  "sample_other = \<lparr>manifest_version = 3, providers = [sample_entry ''a'' 10 True False ''y'']\<rparr>"

lemmas sample_eval = merge_manifests_def sample_old_def sample_new_def sample_merged_def sample_other_def sample_entry_def
  entry_is_better_def skewed_def sat_add64_def MAX_CLOCK_SKEW_SECS_def enforce_primary_uniqueness_def
  validate_manifest_def and_then_def

lemma sample_orders: "iteration_order id" "iteration_order rev"
  by (simp_all add: iteration_order_def)

lemma sample_merges:
  "merge_manifests id [sample_old, sample_new] 100 (Some 4) = Inr sample_merged"
  "merge_manifests rev [sample_new, sample_old] 100 (Some 4) = Inr (sample_merged\<lparr>providers := rev (providers sample_merged)\<rparr>)"
  by (simp_all add: sample_eval)

lemma sample_inputs: "inputs [sample_old, sample_new] =
   {sample_entry ''a'' 10 True False ''x'', sample_entry ''b'' 10 False False ''x'', sample_entry ''b'' 20 False True ''x''}"
  by (auto simp: inputs_def sample_old_def sample_new_def)

lemma sample_valid: "validate_manifest sample_old 100 = Inr ()" "validate_manifest sample_new 100 = Inr ()"
  by (simp_all add: sample_eval)


text \<open>
  Merging never fails on sound inputs: if every manifest of a non-empty list passes validation
  and the version floor is met, the merge returns a manifest, whatever order the hash map yields.
\<close>
theorem merge_manifests_total:
  assumes "iteration_order order" and "ms \<noteq> []" and "\<forall>m\<in>set ms. validate_manifest m now = Inr ()"
    and "above_floor floor (sat_add64 (Max (set (map manifest_version ms))) 1)"
  shows "\<exists>m. merge_manifests order ms now floor = Inr m"
proof -
  have E: "provider_id e \<noteq> [] \<and> CHR 0x00 \<notin> set (provider_id e) \<and> length (provider_id e) \<le> 64 \<and>
            \<not> skewed now e \<and> \<not> (tombstone e \<and> is_primary e)" if "e \<in> inputs ms" for e
    using that assms(3) by (auto simp: validate_manifest_iff valid_manifest_def inputs_def)
  obtain rs where rs: "collect_entries now (concat (map providers ms)) [] = Inr rs"
    using collect_entries_total [of "concat (map providers ms)" now "[]"] E by (auto simp: inputs_def)
  have W: "winners_of (inputs ms) (order rs)"
    using winners_perm [OF _ collect_winners [OF rs]] assms(1) by (simp add: iteration_order_def)
  have "enforce_primary_uniqueness (order rs) = map (mark_primary (elected (order rs))) (order rs)"
    using W by (intro enforce_primary_marks) (simp add: winners_of_better)
  then show ?thesis
    using rs assms(4) winners_valid [OF W E]
    by (simp add: merge_unfold [OF assms(2)] Let_def validate_manifest_iff [symmetric] merged_version_def)
qed

theorem merge_manifests_total_witness:
  "\<exists>m. merge_manifests rev [sample_old, sample_new] 100 (Some 5) = Inr m"
proof (rule merge_manifests_total [OF sample_orders(2)])
  show "\<forall>m\<in>set [sample_old, sample_new]. validate_manifest m 100 = Inr ()" using sample_valid by simp
  show "above_floor (Some 5) (sat_add64 (Max (set (map manifest_version [sample_old, sample_new]))) 1)"
    by (simp add: above_floor_def sample_old_def sample_new_def sat_add64_def)
qed simp

text \<open>
  C10. The merge of provider manifests.  It succeeds on any non-empty list of manifests that pass
  validation and whose version reaches the rollback floor.  A result consists of one
  entry for each provider of the inputs, the one written last: no input entry of the provider has a later
  timestamp, nor the same one with a removal that the winner lacks.  The winners are changed in \<open>is_primary\<close> only, and only
  when active: primary is the claimant updated last, or without a claimant the provider created first,
  ties decided by name, and no other.  The version is one above the highest input version, saturating.
\<close>
theorem merge_manifests_spec:
  assumes "iteration_order order" and "ms \<noteq> []"
  shows "((\<forall>m\<in>set ms. validate_manifest m now = Inr ()) \<and> above_floor floor (sat_add64 (Max (set (map manifest_version ms))) 1) \<longrightarrow>
      (\<exists>m. merge_manifests order ms now floor = Inr m)) \<and>
    (\<forall>m. merge_manifests order ms now floor = Inr m \<longrightarrow>
      (\<exists>ws. distinct (map provider_id ws) \<and> set ws \<subseteq> inputs ms \<and> provider_id ` set ws = provider_id ` inputs ms \<and>
         (\<forall>w\<in>set ws. \<forall>e\<in>inputs ms. provider_id e = provider_id w \<longrightarrow>
            updated_at e < updated_at w \<or> updated_at e = updated_at w \<and> (tombstone e \<longrightarrow> tombstone w)) \<and>
         providers m = map (\<lambda>w. if tombstone w then w else w\<lparr>is_primary := takes_primary ws w\<rparr>) ws) \<and>
      (active_providers m \<noteq> [] \<longrightarrow> length (filter claims_primary (providers m)) = 1) \<and>
      manifest_version m = sat_add64 (Max (set (map manifest_version ms))) 1)"
proof (intro conjI impI allI)
  assume "(\<forall>m\<in>set ms. validate_manifest m now = Inr ()) \<and> above_floor floor (sat_add64 (Max (set (map manifest_version ms))) 1)"
  then show "\<exists>m. merge_manifests order ms now floor = Inr m" using merge_manifests_total [OF assms] by blast
next
  fix m assume "merge_manifests order ms now floor = Inr m"
  then obtain ws where W: "winners_of (inputs ms) ws" "providers m = map (mark_primary (elected ws)) ws"
    and R: "manifest_version m = merged_version ms" "valid_manifest now m"
    by (rule merge_ok [OF assms(1)])
  have D: "distinct (map provider_id ws)" using W(1) by (simp add: winners_of_def)
  have "providers m = map (\<lambda>w. if tombstone w then w else w\<lparr>is_primary := takes_primary ws w\<rparr>) ws"
    using mark_primary_takes [OF D] by (simp add: W(2))
  then show "\<exists>ws. distinct (map provider_id ws) \<and> set ws \<subseteq> inputs ms \<and> provider_id ` set ws = provider_id ` inputs ms \<and>
         (\<forall>w\<in>set ws. \<forall>e\<in>inputs ms. provider_id e = provider_id w \<longrightarrow>
            updated_at e < updated_at w \<or> updated_at e = updated_at w \<and> (tombstone e \<longrightarrow> tombstone w)) \<and>
         providers m = map (\<lambda>w. if tombstone w then w else w\<lparr>is_primary := takes_primary ws w\<rparr>) ws"
    using W(1) unfolding winners_of_def by blast
  show "manifest_version m = sat_add64 (Max (set (map manifest_version ms))) 1" using R(1) by (simp add: merged_version_def)
  show "length (filter claims_primary (providers m)) = 1" if "active_providers m \<noteq> []" using R(2) that by (auto simp: valid_manifest_def)
qed

theorem merge_manifests_spec_witness:
  "\<exists>m. merge_manifests rev [sample_old, sample_new] 100 (Some 5) = Inr m \<and> manifest_version m = 5 \<and>
     (\<exists>p\<in>set (providers m). provider_id p = ''b'' \<and> updated_at p = 20 \<and> tombstone p) \<and>
     (\<exists>p\<in>set (providers m). provider_id p = ''a'' \<and> is_primary p)"
proof -
  have floor: "above_floor (Some 5) (sat_add64 (Max (set (map manifest_version [sample_old, sample_new]))) 1)"
    by (simp add: above_floor_def sample_old_def sample_new_def sat_add64_def)
  note spec = merge_manifests_spec [OF sample_orders(2), of "[sample_old, sample_new]" 100 "Some 5"]
  obtain m where m: "merge_manifests rev [sample_old, sample_new] 100 (Some 5) = Inr m"
    using spec floor sample_valid by auto
  then obtain ws where W: "set ws \<subseteq> inputs [sample_old, sample_new]"
      "provider_id ` set ws = provider_id ` inputs [sample_old, sample_new]"
    and L: "\<forall>w\<in>set ws. \<forall>e\<in>inputs [sample_old, sample_new]. provider_id e = provider_id w \<longrightarrow>
        updated_at e < updated_at w \<or> updated_at e = updated_at w \<and> (tombstone e \<longrightarrow> tombstone w)"
    and P: "providers m = map (\<lambda>w. if tombstone w then w else w\<lparr>is_primary := takes_primary ws w\<rparr>) ws"
    and V: "manifest_version m = 5"
    using spec by (force simp: sample_old_def sample_new_def sat_add64_def)
  have "''b'' \<in> provider_id ` set ws" "''a'' \<in> provider_id ` set ws" unfolding W(2) sample_inputs by (auto simp: sample_entry_def)
  then obtain b a where b: "b \<in> set ws" "provider_id b = ''b''" and a: "a \<in> set ws" "provider_id a = ''a''" by auto
  have in3: "w \<in> {sample_entry ''a'' 10 True False ''x'', sample_entry ''b'' 10 False False ''x'', sample_entry ''b'' 20 False True ''x''}"
    if "w \<in> set ws" for w using that W(1) unfolding sample_inputs by blast
  have "sample_entry ''b'' 20 False True ''x'' \<in> inputs [sample_old, sample_new]" unfolding sample_inputs by simp
  from L [rule_format, OF b(1) this] have b': "updated_at b = 20" "tombstone b"
    using in3 [OF b(1)] b(2) by (auto simp: sample_entry_def)
  have a': "a = sample_entry ''a'' 10 True False ''x''" using in3 [OF a(1)] a(2) by (auto simp: sample_entry_def)
  have t: "takes_primary ws a"
    using a(1) in3 unfolding takes_primary_def a' by (fastforce simp: sample_entry_def)
  have "\<not> tombstone a" by (simp add: a' sample_entry_def)
  then have "a\<lparr>is_primary := takes_primary ws a\<rparr> \<in> set (providers m)" unfolding P using a(1) by force
  then have "\<exists>p\<in>set (providers m). provider_id p = ''a'' \<and> is_primary p" by (rule bexI [rotated]) (simp add: t a(2))
  moreover have "\<exists>p\<in>set (providers m). provider_id p = ''b'' \<and> updated_at p = 20 \<and> tombstone p"
    using b b' by (auto simp: P intro!: bexI [of _ b])
  ultimately show ?thesis using m V by blast
qed

definition no_ties :: "ManifestEntry set \<Rightarrow> bool" where
  "no_ties E \<longleftrightarrow> (\<forall>a\<in>E. \<forall>b\<in>E. provider_id a = provider_id b \<and> updated_at a = updated_at b \<and>
     tombstone a = tombstone b \<longrightarrow> a = b)"

lemma winners_unique_set:
  assumes T: "no_ties E"
    and W: "winners_of E ws" "winners_of E ws'"
  shows "set ws \<subseteq> set ws'"
proof
  fix a assume a: "a \<in> set ws"
  then have "provider_id a \<in> provider_id ` set ws'" using W by (auto simp: winners_of_better)
  then obtain b where b: "b \<in> set ws'" "provider_id a = provider_id b" by auto
  have "a \<in> E" "b \<in> E" using a b W by (auto simp: winners_of_better)
  moreover have "\<not> entry_is_better a b" "\<not> entry_is_better b a"
    using a b W calculation by (auto simp: winners_of_better)
  ultimately have "a = b" using T b(2) by (auto simp: no_ties_def entry_is_better_def split: if_splits)
  then show "a \<in> set ws'" using b by simp
qed

text \<open>
  C11. Replicas converge: when entries of one provider that agree in timestamp and tombstone are
  equal, merging the same manifests in any order, with any hash-map order, gives the same set of
  entries and the same version.
\<close>
theorem merge_manifests_convergent:
  assumes "iteration_order order" and "iteration_order order'" and "mset ms = mset ms'"
    and "no_ties (inputs ms)"
    and "merge_manifests order ms now floor = Inr m" and "merge_manifests order' ms' now floor = Inr m'"
  shows "set (providers m) = set (providers m') \<and> manifest_version m = manifest_version m'"
proof -
  have S: "set ms' = set ms" using assms(3) by (metis mset_eq_setD)
  then have I: "inputs ms' = inputs ms" by (simp add: inputs_def)
  obtain ws where W: "winners_of (inputs ms) ws" "providers m = map (mark_primary (elected ws)) ws"
    and v: "manifest_version m = merged_version ms" using merge_ok [OF assms(1,5)] .
  obtain ws' where W': "winners_of (inputs ms') ws'" "providers m' = map (mark_primary (elected ws')) ws'"
    and v': "manifest_version m' = merged_version ms'" using merge_ok [OF assms(2,6)] .
  have E: "set ws = set ws'"
    using winners_unique_set [OF assms(4)] W(1) W'(1) I by (simp add: subset_antisym)
  then show ?thesis using W W' v v' S elected_set [OF E] by (simp add: merged_version_def)
qed

theorem merge_manifests_convergent_witness:
  "set (providers sample_merged) = set (rev (providers sample_merged))"
proof -
  have "no_ties (inputs [sample_old, sample_new])"
    unfolding no_ties_def sample_inputs by (auto simp: sample_entry_def)
  moreover have "mset [sample_old, sample_new] = mset [sample_new, sample_old]" by simp
  ultimately show ?thesis
    using merge_manifests_convergent [OF sample_orders _ _ sample_merges] by simp
qed

text \<open>
  The merge is not commutative in general: two manifests that carry different configurations of
  one provider with the same timestamp merge to different configurations in the two orders.
\<close>
theorem merge_not_commutative:
  "merge_manifests id [sample_old, sample_other] 100 None =
     Inr \<lparr>manifest_version = 4, providers = [sample_entry ''a'' 10 True False ''x'', sample_entry ''b'' 10 False False ''x'']\<rparr> \<and>
   merge_manifests id [sample_other, sample_old] 100 None =
     Inr \<lparr>manifest_version = 4, providers = [sample_entry ''a'' 10 True False ''y'', sample_entry ''b'' 10 False False ''x'']\<rparr>"
  by (simp add: sample_eval)

text \<open>
  A removal is not undone by stale replicas: if some input tombstones a provider and no input
  entry of that provider is newer, the merged entry of that provider is tombstoned.
\<close>
theorem tombstone_not_resurrected:
  assumes "iteration_order order" and "merge_manifests order ms now floor = Inr m"
    and "t \<in> inputs ms" and "tombstone t"
    and "\<forall>e\<in>inputs ms. provider_id e = provider_id t \<longrightarrow> updated_at e \<le> updated_at t"
  shows "\<exists>r\<in>set (providers m). provider_id r = provider_id t \<and> tombstone r"
proof -
  obtain ws where W: "winners_of (inputs ms) ws" "providers m = map (mark_primary (elected ws)) ws"
    using merge_ok [OF assms(1,2)] .
  have "provider_id t \<in> provider_id ` set ws" using W(1) assms(3) by (simp add: winners_of_better)
  then obtain w where w: "w \<in> set ws" "provider_id w = provider_id t" by auto
  have "w \<in> inputs ms" using w W(1) by (auto simp: winners_of_better)
  then have "updated_at w \<le> updated_at t" using w assms(5) by simp
  moreover have "\<not> entry_is_better t w" using W(1) w assms(3) by (simp add: winners_of_better)
  ultimately have "tombstone w" using assms(4) by (auto simp: entry_is_better_def split: if_splits)
  then show ?thesis using w W(2) by force
qed

theorem tombstone_not_resurrected_witness:
  "\<exists>r\<in>set (providers sample_merged). provider_id r = ''b'' \<and> tombstone r"
proof -
  have "provider_id (sample_entry ''b'' 20 False True ''x'') = ''b''" by (simp add: sample_entry_def)
  then show ?thesis
    using tombstone_not_resurrected [OF sample_orders(1) sample_merges(1), of "sample_entry ''b'' 20 False True ''x''"]
    by (simp add: sample_inputs) (simp add: sample_entry_def)
qed

lemma validate_entries_error: "validate_entries now seen es = Inl err \<Longrightarrow> \<exists>msg. err = InvariantViolated msg"
  by (induction es arbitrary: seen) (auto split: if_splits)

lemma validate_manifest_error: "validate_manifest m now = Inl err \<Longrightarrow> \<exists>msg. err = InvariantViolated msg"
  using validate_entries_error [of now "[]" "providers m"]
  by (cases "validate_entries now [] (providers m)") (auto simp: validate_manifest_def and_then_def Let_def split: if_splits)

lemma not_skewed_now: "now \<le> u64_max \<Longrightarrow> updated_at e = now \<Longrightarrow> \<not> skewed now e"
  by (auto simp: skewed_def sat_add64_def min_def)

lemma update_first_validity:
  assumes V: "valid_manifest now m" and N: "now \<le> u64_max"
    and U: "update_first (\<lambda>p. provider_id p = pid \<and> \<not> tombstone p) f (providers m) = Some ps"
    and F: "\<And>p. provider_id (f p) = provider_id p \<and> updated_at (f p) = now"
    and P: "\<And>p. p \<in> set (providers m) \<Longrightarrow> provider_id p = pid \<Longrightarrow> \<not> tombstone p \<Longrightarrow>
              claims_primary (f p) = claims_primary p \<and> \<not> (tombstone (f p) \<and> is_primary (f p))"
  shows "valid_manifest now (m\<lparr>providers := ps\<rparr>) \<and> map provider_id ps = map provider_id (providers m)"
proof -
  let ?c = "\<lambda>p. provider_id p = pid \<and> \<not> tombstone p"
  let ?g = "\<lambda>p. if ?c p then f p else p"
  have D: "distinct (map provider_id (providers m))" using V by (simp add: valid_manifest_def)
  have ps: "ps = map ?g (providers m)" by (rule update_first_map [OF U _ D]) simp
  have S: "\<not> skewed now (f p)" for p using F [of p] N by (simp add: not_skewed_now)
  have ids: "map provider_id ps = map provider_id (providers m)" using F by (simp add: ps)
  have C: "claims_primary (?g p) = claims_primary p" if "p \<in> set (providers m)" for p using P [OF that] by simp
  have fl: "length (filter claims_primary ps) = length (filter claims_primary (providers m))"
    using C by (simp add: ps filter_map o_def cong: filter_cong)
  have "active_providers m = [] \<Longrightarrow> ps = providers m"
    by (simp add: ps active_providers_def filter_empty_conv map_idI)
  moreover have "provider_id q \<noteq> [] \<and> CHR 0x00 \<notin> set (provider_id q) \<and> length (provider_id q) \<le> 64 \<and>
       \<not> skewed now q \<and> \<not> (tombstone q \<and> is_primary q)" if "q \<in> set ps" for q
    using that V F S P by (auto simp: ps valid_manifest_def)
  ultimately show ?thesis using V D ids fl by (auto simp: valid_manifest_def active_providers_def)
qed

lemma ok_or_update: "and_then (ok_or e (update_first p f xs)) (\<lambda>ps. Inr (m\<lparr>providers := ps\<rparr>)) = Inr m' \<longleftrightarrow>
   (\<exists>ps. update_first p f xs = Some ps \<and> m' = m\<lparr>providers := ps\<rparr>)"
  by (cases "update_first p f xs") (auto simp: and_then_def ok_or_def)

lemma primary_none: "primary_provider m = None \<Longrightarrow> filter claims_primary (providers m) = []"
  by (auto simp: primary_provider_def find_None_iff filter_empty_conv claims_primary_def)

lemma set_primary_validity:
  assumes V: "valid_manifest now m" and N: "now \<le> u64_max" and S: "manifest_set_primary_provider m pid now = Inr m'"
  shows "valid_manifest now m' \<and> map provider_id (providers m') = map provider_id (providers m) \<and>
     (\<exists>p. primary_provider m' = Some p \<and> provider_id p = pid)"
proof -
  let ?g = "\<lambda>p. if provider_id p = pid \<and> \<not> tombstone p then p\<lparr>is_primary := True, updated_at := now\<rparr> else p\<lparr>is_primary := False\<rparr>"
  have m': "m' = m\<lparr>providers := map ?g (providers m)\<rparr>"
    and ex: "\<exists>p\<in>set (providers m). provider_id p = pid \<and> \<not> tombstone p"
    using S by (auto simp: manifest_set_primary_provider_def Let_def split: if_splits)
  have D: "distinct (map provider_id (providers m))" using V by (simp add: valid_manifest_def)
  obtain k where k: "k < length (providers m)" "provider_id (providers m ! k) = pid" "\<not> tombstone (providers m ! k)"
    using ex by (auto simp: in_set_conv_nth)
  have c: "claims_primary (?g (providers m ! i)) \<longleftrightarrow> i = k" if "i < length (providers m)" for i
    using k id_index [OF D k(1) that] by (auto simp: claims_primary_def)
  then have "{i. i < length (providers m) \<and> claims_primary (map ?g (providers m) ! i)} = {k}" using k(1) by auto
  then have one: "length (filter claims_primary (map ?g (providers m))) = 1" by (simp add: length_filter_conv_card)
  have ids: "map provider_id (map ?g (providers m)) = map provider_id (providers m)" by simp
  have "\<not> skewed now (?g p)" if "p \<in> set (providers m)" for p
    using that V not_skewed_now [OF N, of "?g p"] by (auto simp: skewed_def valid_manifest_def)
  then have "\<not> skewed now q" if "q \<in> set (map ?g (providers m))" for q
    using that unfolding set_map by blast
  moreover have "provider_id q \<noteq> [] \<and> CHR 0x00 \<notin> set (provider_id q) \<and> length (provider_id q) \<le> 64 \<and> \<not> (tombstone q \<and> is_primary q)"
    if "q \<in> set (map ?g (providers m))" for q
    using that V by (auto simp: valid_manifest_def)
  ultimately have "valid_manifest now m'"
    using D one by (simp add: valid_manifest_def m' ids del: map_map set_map)
  moreover have "length (filter claims_primary (providers m')) = 1" unfolding m' using one by simp
  then have "primary_provider m' \<noteq> None" using primary_none [of m'] by fastforce
  moreover have "provider_id p = pid" if "primary_provider m' = Some p" for p
    using that by (auto simp: primary_provider_def m' find_Some_iff split: if_splits)
  moreover have "map provider_id (providers m') = map provider_id (providers m)" using ids by (simp add: m')
  ultimately show ?thesis by blast
qed

text \<open>
  The edits of a manifest keep it valid: renaming a provider, changing its configuration,
  making it primary and tombstoning it, each at the current time, turn a valid manifest into a valid
  one with the same providers, and the provider made primary is the one \<open>primary_provider\<close> finds
  afterwards.  The primary provider cannot be tombstoned.
\<close>
theorem manifest_edits_valid:
  assumes "validate_manifest m now = Inr ()" and "now \<le> u64_max"
  shows "(manifest_rename_provider m pid name now = Inr m1 \<longrightarrow>
            validate_manifest m1 now = Inr () \<and> map provider_id (providers m1) = map provider_id (providers m)) \<and>
     (manifest_update_provider_config m pid cfg now = Inr m2 \<longrightarrow>
            validate_manifest m2 now = Inr () \<and> map provider_id (providers m2) = map provider_id (providers m)) \<and>
     (manifest_set_primary_provider m pid now = Inr m3 \<longrightarrow>
            validate_manifest m3 now = Inr () \<and> (\<exists>p. primary_provider m3 = Some p \<and> provider_id p = pid)) \<and>
     (manifest_tombstone_provider m pid now = Inr m4 \<longrightarrow>
            validate_manifest m4 now = Inr () \<and> map provider_id (providers m4) = map provider_id (providers m)) \<and>
     (\<forall>p. primary_provider m = Some p \<longrightarrow>
            manifest_tombstone_provider m (provider_id p) now = Inl (InvariantViolated ''cannot tombstone the primary provider''))"
proof -
  have V: "valid_manifest now m" using assms(1) by (simp add: validate_manifest_iff)
  note U = update_first_validity [OF V assms(2)]
  have "manifest_rename_provider m pid name now = Inr m1 \<longrightarrow>
            valid_manifest now m1 \<and> map provider_id (providers m1) = map provider_id (providers m)"
    using U [where pid = pid and f = "\<lambda>p. p\<lparr>display_name := trim name, updated_at := now\<rparr>"]
    by (auto simp: manifest_rename_provider_def Let_def ok_or_update claims_primary_def split: if_splits)
  moreover have "manifest_update_provider_config m pid cfg now = Inr m2 \<longrightarrow>
            valid_manifest now m2 \<and> map provider_id (providers m2) = map provider_id (providers m)"
    using U [where pid = pid and f = "\<lambda>p. p\<lparr>config_json := cfg, updated_at := now\<rparr>"]
    by (auto simp: manifest_update_provider_config_def ok_or_update claims_primary_def)
  moreover have "manifest_tombstone_provider m pid now = Inr m4 \<longrightarrow>
            valid_manifest now m4 \<and> map provider_id (providers m4) = map provider_id (providers m)"
    using U [where pid = pid and f = "\<lambda>p. p\<lparr>tombstone := True, is_primary := False, updated_at := now\<rparr>"]
    by (auto simp: manifest_tombstone_provider_def ok_or_update claims_primary_def split: if_splits)
  moreover have "manifest_tombstone_provider m (provider_id p) now = Inl (InvariantViolated ''cannot tombstone the primary provider'')"
    if "primary_provider m = Some p" for p
    using that by (auto simp: manifest_tombstone_provider_def primary_provider_def find_Some_iff)
  ultimately show ?thesis
    using set_primary_validity [OF V assms(2), of pid m3] by (simp add: validate_manifest_iff)
qed

theorem manifest_edits_valid_witness:
  "\<exists>m. manifest_set_primary_provider sample_old ''b'' 100 = Inr m \<and> validate_manifest m 100 = Inr () \<and>
     (\<exists>p. primary_provider m = Some p \<and> provider_id p = ''b'')"
proof -
  obtain m where m: "manifest_set_primary_provider sample_old ''b'' 100 = Inr m"
    by (simp add: manifest_set_primary_provider_def sample_old_def sample_entry_def)
  moreover have "(100::nat) \<le> u64_max" by simp
  ultimately show ?thesis using manifest_edits_valid [OF sample_valid(1), where pid = "''b''"] by blast
qed

text \<open>
  Adding a provider whose id is already tombstoned is accepted but leaves two entries with that
  id, a manifest that \<open>validate_manifest\<close> (and so every later merge that keeps it) rejects; adding one
  with a fresh id to a valid manifest keeps it valid.
\<close>
theorem add_provider_validity:
  assumes "validate_manifest m now = Inr ()" and "manifest_add_provider m e = Inr m'"
  shows "(find_entry m (provider_id e) \<noteq> None \<longrightarrow> (\<exists>msg. validate_manifest m' now = Inl (InvariantViolated msg))) \<and>
     (find_entry m (provider_id e) = None \<and> validate_entries now [] [e] = Inr () \<and>
        (claims_primary e \<longleftrightarrow> active_providers m = [] \<and> \<not> tombstone e) \<longrightarrow> validate_manifest m' now = Inr ())"
proof -
  have V: "valid_manifest now m" using assms(1) by (simp add: validate_manifest_iff)
  have m': "m' = m\<lparr>providers := providers m @ [e]\<rparr>"
    using assms(2) by (auto simp: manifest_add_provider_def split: if_splits)
  have F: "find_entry m (provider_id e) = None \<longleftrightarrow> provider_id e \<notin> provider_id ` set (providers m)"
    by (auto simp: find_entry_def find_None_iff image_iff)
  have "\<not> valid_manifest now m'" if "find_entry m (provider_id e) \<noteq> None"
    using that by (simp add: F m' valid_manifest_def)
  then have "\<exists>msg. validate_manifest m' now = Inl (InvariantViolated msg)" if "find_entry m (provider_id e) \<noteq> None"
    using that validate_manifest_error [of m' now] validate_manifest_iff [of m' now] by (cases "validate_manifest m' now") auto
  moreover have "valid_manifest now m'"
    if "find_entry m (provider_id e) = None" "validate_entries now [] [e] = Inr ()"
      "claims_primary e \<longleftrightarrow> active_providers m = [] \<and> \<not> tombstone e"
    using that V unfolding F validate_entries_iff m' valid_manifest_def active_providers_def
    by (auto simp: filter_empty_conv claims_primary_def)
  ultimately show ?thesis by (simp add: validate_manifest_iff)
qed

theorem add_provider_validity_witness:
  "\<exists>msg. validate_manifest (sample_new\<lparr>providers := providers sample_new @ [sample_entry ''b'' 30 False False ''z'']\<rparr>) 100 =
     Inl (InvariantViolated msg)"
proof -
  have "manifest_add_provider sample_new (sample_entry ''b'' 30 False False ''z'') =
      Inr (sample_new\<lparr>providers := providers sample_new @ [sample_entry ''b'' 30 False False ''z'']\<rparr>)"
    "find_entry sample_new (provider_id (sample_entry ''b'' 30 False False ''z'')) \<noteq> None"
    by (simp_all add: manifest_add_provider_def find_entry_def sample_new_def sample_entry_def)
  then show ?thesis using add_provider_validity [OF sample_valid(2)] by blast
qed

end
