(* ===== verification/Wasm_Base.thy ===== *)
theory Wasm_Base
  imports Vault_Crypto
begin

text \<open>
  What the browser bindings share: JavaScript values and the helpers of \<open>sdk-wasm/src/util.rs\<close>, the
  passkey wraps of \<open>crypto/webauthn.rs\<close>, and the hybrid key pair of \<open>crypto/pqc.rs\<close>.  Base64 is the crate
  \<open>base64\<close>: its two engines are the fields of \<open>b64_engines\<close>, and \<open>b64_ok\<close> says that decoding inverts encoding.
\<close>

subsection \<open>JavaScript values\<close>

datatype JsValue =
    JsNull
  | JsBool bool
  | JsNumber int
  | JsString string
  | JsBytes bytes
  | JsArray "JsValue list"
  | JsObject "(string \<times> JsValue) list"

text \<open>\<open>Reflect::set\<close> on a plain object: an existing property keeps its place.\<close>

fun js_fields_set :: "(string \<times> JsValue) list \<Rightarrow> string \<Rightarrow> JsValue \<Rightarrow> (string \<times> JsValue) list" where
  "js_fields_set [] k v = [(k, v)]"
| "js_fields_set ((k', v') # fs) k v = (if k' = k then (k, v) # fs else (k', v') # js_fields_set fs k v)"

fun js_set :: "JsValue \<Rightarrow> string \<Rightarrow> JsValue \<Rightarrow> JsValue" where
  "js_set (JsObject fs) k v = JsObject (js_fields_set fs k v)"
| "js_set o' k v = o'"

fun js_get :: "JsValue \<Rightarrow> string \<Rightarrow> JsValue option" where
  "js_get (JsObject fs) k = map_of fs k"
| "js_get v k = None"

definition js_error :: "string \<Rightarrow> JsValue" where
  "js_error msg = js_set (JsObject []) ''error'' (JsString msg)"

definition js_object :: "(string \<times> JsValue) list \<Rightarrow> JsValue" where
  "js_object fs = foldl (\<lambda>obj (k, v). js_set obj k v) (JsObject []) fs"

text \<open>Each binding ends in an object or in \<open>{ error }\<close>.\<close>

definition js_result :: "('a \<Rightarrow> JsValue) \<Rightarrow> string + 'a \<Rightarrow> JsValue" where
  "js_result f r = (case r of Inl e \<Rightarrow> js_error e | Inr x \<Rightarrow> f x)"

lemma js_result_simps [simp]: "js_result f (Inl e) = js_error e" "js_result f (Inr x) = f x"
  by (simp_all add: js_result_def)

definition is_js_error :: "JsValue \<Rightarrow> bool" where
  "is_js_error v \<longleftrightarrow> js_get v ''error'' \<noteq> None"

lemma is_js_error_js_error [simp]: "is_js_error (js_error m)"
  by (simp add: is_js_error_def js_error_def)

lemma map_of_js_fields_set: "map_of (js_fields_set fs k v) = (map_of fs)(k \<mapsto> v)"
  by (induction fs k v rule: js_fields_set.induct) (auto simp: fun_eq_iff)

lemma js_get_object_aux:
  "js_get (foldl (\<lambda>obj (k, v). js_set obj k v) (JsObject fs) gs) x = (map_of fs ++ map_of (rev gs)) x"
  by (induction gs arbitrary: fs) (auto simp: map_of_js_fields_set map_add_def split: option.split)

lemma js_get_object: "distinct (map fst gs) \<Longrightarrow> js_get (js_object gs) x = map_of gs x"
proof -
  assume "distinct (map fst gs)"
  then have "map_of (rev gs) = map_of gs"
    by (intro map_of_inject_set [THEN iffD2]) (simp_all add: rev_map [symmetric])
  then show ?thesis by (simp add: js_object_def js_get_object_aux)
qed

text \<open>The field of an object as JavaScript reads it.\<close>

definition js_str :: "JsValue \<Rightarrow> string \<Rightarrow> string" where
  "js_str v k = (case js_get v k of Some (JsString s) \<Rightarrow> s | _ \<Rightarrow> [])"

subsection \<open>util.rs\<close>

record b64_engines =
  standard_encode :: "bytes \<Rightarrow> string"
  standard_decode :: "string \<Rightarrow> bytes option"
  url_encode :: "bytes \<Rightarrow> string"
  url_decode :: "string \<Rightarrow> bytes option"

definition b64_ok :: "b64_engines \<Rightarrow> bool" where
  "b64_ok E \<longleftrightarrow> (\<forall>bs. standard_decode E (standard_encode E bs) = Some bs) \<and>
     (\<forall>bs. url_decode E (url_encode E bs) = Some bs)"

definition b64_encode :: "b64_engines \<Rightarrow> bytes \<Rightarrow> string" where
  "b64_encode E data = standard_encode E data"

definition b64_decode :: "b64_engines \<Rightarrow> string \<Rightarrow> bytes option" where
  "b64_decode E s = standard_decode E s"

definition b64url_encode_nopad :: "b64_engines \<Rightarrow> bytes \<Rightarrow> string" where
  "b64url_encode_nopad E data = url_encode E data"

definition b64url_decode_lenient :: "b64_engines \<Rightarrow> string \<Rightarrow> bytes option" where
  "b64url_decode_lenient E s = (case url_decode E s of Some b \<Rightarrow> Some b | None \<Rightarrow> standard_decode E s)"

lemma b64_okD [simp]:
  assumes "b64_ok E"
  shows "b64_decode E (b64_encode E bs) = Some bs" and "b64url_decode_lenient E (b64url_encode_nopad E bs) = Some bs"
    and "url_decode E (url_encode E bs) = Some bs"
  using assms by (simp_all add: b64_ok_def b64_decode_def b64_encode_def b64url_decode_lenient_def b64url_encode_nopad_def)

text \<open>\<open>match b64_decode(..) { Err(_) => return js_error(msg) }\<close> and \<open>try_into()\<close> to an array.\<close>

definition decode_or :: "b64_engines \<Rightarrow> string \<Rightarrow> string \<Rightarrow> string + bytes" where
  "decode_or E msg s = (case b64_decode E s of None \<Rightarrow> Inl msg | Some b \<Rightarrow> Inr b)"

definition array_or :: "nat \<Rightarrow> string \<Rightarrow> bytes \<Rightarrow> string + bytes" where
  "array_or n msg b = (if length b = n then Inr b else Inl msg)"

abbreviation e_str :: "CryptoError + 'a \<Rightarrow> string + 'a" where
  "e_str \<equiv> map_err CryptoError_to_string"

lemma decode_or_encode [simp]: "b64_ok E \<Longrightarrow> decode_or E msg (b64_encode E bs) = Inr bs"
  by (simp add: decode_or_def)

lemma decode_or_Inr: "decode_or E msg s = Inr b \<longleftrightarrow> b64_decode E s = Some b"
  by (auto simp: decode_or_def split: option.splits)

lemma array_or_Inr [simp]: "array_or n msg b = Inr c \<longleftrightarrow> length b = n \<and> c = b"
  by (auto simp: array_or_def)

lemma array_or_ok [simp]: "length b = n \<Longrightarrow> array_or n msg b = Inr b"
  by (simp add: array_or_def)

text \<open>\<open>Result::ok\<close>.\<close>

definition result_ok :: "'e + 'a \<Rightarrow> 'a option" where
  "result_ok r = (case r of Inl _ \<Rightarrow> None | Inr x \<Rightarrow> Some x)"

lemma result_ok_simps [simp]: "result_ok (Inl e) = None" "result_ok (Inr x) = Some x"
  by (simp_all add: result_ok_def)

text \<open>The stand-in engines: every byte is its own character.\<close>

definition toy_b64 :: b64_engines where
  "toy_b64 = \<lparr>standard_encode = of_bytes, standard_decode = (\<lambda>s. Some (as_bytes s)),
     url_encode = of_bytes, url_decode = (\<lambda>s. Some (as_bytes s))\<rparr>"

lemma b64_ok_toy: "b64_ok toy_b64"
  by (simp add: b64_ok_def toy_b64_def as_bytes_of_bytes)

subsection \<open>webauthn.rs\<close>

definition DEVICE_KEY_WRAP_V1 :: bytes where "DEVICE_KEY_WRAP_V1 = as_bytes ''Wattcloud device key v1''"
definition VAULT_KEY_WRAP_V1 :: bytes where "VAULT_KEY_WRAP_V1 = as_bytes ''Wattcloud vault_key wrap v1''"

definition derive_wrapping_key_from_prf :: "prims \<Rightarrow> bytes \<Rightarrow> CryptoError + bytes" where
  "derive_wrapping_key_from_prf P prf_output =
     (if prf_output = [] then Inl InvalidKeyMaterial
      else and_then (hkdf_sha256 P prf_output DEVICE_KEY_WRAP_V1 32) (\<lambda>bs.
        if length bs = 32 then Inr bs else Inl KdfFailed))"

definition derive_vault_key_wrapping_key_from_prf :: "prims \<Rightarrow> bytes \<Rightarrow> CryptoError + bytes" where
  "derive_vault_key_wrapping_key_from_prf P prf_output =
     (if prf_output = [] then Inl InvalidKeyMaterial
      else and_then (hkdf_sha256 P prf_output VAULT_KEY_WRAP_V1 32) (\<lambda>bs.
        if length bs = 32 then Inr bs else Inl KdfFailed))"

definition wrap_device_key :: "prims \<Rightarrow> bytes \<Rightarrow> bytes \<Rightarrow> bytes \<Rightarrow> CryptoError + bytes" where
  "wrap_device_key P rnd device_key wrapping_key =
     (if length device_key \<noteq> 32 then Inl InvalidKeyMaterial
      else and_then (aes_gcm_encrypt P rnd device_key wrapping_key) (\<lambda>(ct, nonce). Inr (nonce @ ct)))"

definition unwrap_device_key :: "prims \<Rightarrow> bytes \<Rightarrow> bytes \<Rightarrow> CryptoError + bytes" where
  "unwrap_device_key P wrapped wrapping_key =
     (if length wrapped < 12 + 16 then Inl DecryptionFailed
      else and_then (aes_gcm_decrypt P (drop 12 wrapped) (take 12 wrapped) wrapping_key) (\<lambda>plaintext.
        if length plaintext \<noteq> 32 then Inl InvalidKeyMaterial else Inr plaintext))"

definition wrap_vault_key_with_prf :: "prims \<Rightarrow> bytes \<Rightarrow> bytes \<Rightarrow> bytes \<Rightarrow> CryptoError + bytes" where
  "wrap_vault_key_with_prf P rnd vk wrapping_key =
     (if length vk \<noteq> 32 then Inl InvalidKeyMaterial
      else and_then (aes_gcm_encrypt P rnd vk wrapping_key) (\<lambda>(ct, nonce). Inr (nonce @ ct)))"

definition unwrap_vault_key_with_prf :: "prims \<Rightarrow> bytes \<Rightarrow> bytes \<Rightarrow> CryptoError + bytes" where
  "unwrap_vault_key_with_prf P wrapped wrapping_key =
     (if length wrapped < 12 + 16 then Inl DecryptionFailed
      else and_then (aes_gcm_decrypt P (drop 12 wrapped) (take 12 wrapped) wrapping_key) (\<lambda>plaintext.
        if length plaintext \<noteq> 32 then Inl InvalidKeyMaterial else Inr plaintext))"

lemma prf_wrap_roundtrip:
  assumes "aead_correct P" and "length wk = 32" and "length rnd = 12" and "length vk = 32"
  obtains w where "wrap_vault_key_with_prf P rnd vk wk = Inr w" and "unwrap_vault_key_with_prf P w wk = Inr vk"
proof -
  have "length vk \<le> aead_limit" using assms(4) by simp
  then obtain c where c: "aead_seal P wk rnd vk = Some c" "length c = length vk + 16" "aead_open P wk rnd c = Some vk"
    by (rule aead_correct_sealE [OF assms(1,2,3)])
  show thesis
    by (rule that [of "rnd @ c"])
      (use c assms in \<open>simp_all add: wrap_vault_key_with_prf_def unwrap_vault_key_with_prf_def aes_gcm_encrypt_def
        aes_gcm_encrypt_with_nonce_def aes_gcm_decrypt_def\<close>)
qed

lemma derive_prf_key:
  assumes "mac_lengths P" and "po \<noteq> []"
  obtains wk where "derive_vault_key_wrapping_key_from_prf P po = Inr wk" and "length wk = 32"
proof -
  obtain k where "hkdf_sha256 P po VAULT_KEY_WRAP_V1 32 = Inr k" "length k = 32"
    by (rule hkdf_sha256_ok [OF assms(1), of 32 po VAULT_KEY_WRAP_V1]) simp
  then show thesis using assms(2) by (intro that [of k]) (simp_all add: derive_vault_key_wrapping_key_from_prf_def)
qed

subsection \<open>pqc.rs\<close>

definition generate_hybrid_keypair :: "prims \<Rightarrow> bytes \<Rightarrow> bytes \<Rightarrow> CryptoError + HybridKeypair" where
  "generate_hybrid_keypair P rnd_mlkem rnd_x25519 =
     (let (mlkem_dk, mlkem_ek) = mlkem_keygen P rnd_mlkem in
      Inr \<lparr>mlkem_public_key = mlkem_ek, mlkem_secret_key = mlkem_dk,
           x25519_public_key = x25519_base P rnd_x25519, x25519_secret_key = rnd_x25519\<rparr>)"

end
