(* ===== verification/Wasm_Vault.thy ===== *)
theory Wasm_Vault
  imports Wasm_Base
begin

text \<open>
  The vault sessions of the browser bindings (\<open>sdk-wasm/src/vault_session.rs\<close> and the vault functions of
  \<open>sdk-wasm/src/byo.rs\<close>): keys live in a registry inside WebAssembly memory and JavaScript holds only a
  number.  Every exported function is a definition that takes the registry and returns the value
  handed to JavaScript, with the new registry where it changes; the draws of the random generator
  are in \<open>wasm_rand\<close>.
\<close>

subsection \<open>The registry\<close>

record VaultSession =
  vs_vault_key :: bytes
  vs_client_kek_half :: bytes
  vs_kek :: "bytes option"

record VaultStore =
  vault_sessions :: "u32 \<Rightarrow> VaultSession option"
  session_counter :: u32

definition vault_store_init :: VaultStore where
  "vault_store_init = \<lparr>vault_sessions = Map.empty, session_counter = 1\<rparr>"

text \<open>\<open>fetch_add\<close> wraps.\<close>

definition store_vault_session :: "VaultSession \<Rightarrow> VaultStore \<Rightarrow> u32 \<times> VaultStore" where
  "store_vault_session session st =
     (let sid = session_counter st in
      (sid, st\<lparr>vault_sessions := (vault_sessions st)(sid \<mapsto> session), session_counter := sid + 1\<rparr>))"

definition with_vault_session :: "VaultStore \<Rightarrow> u32 \<Rightarrow> (VaultSession \<Rightarrow> 'a) \<Rightarrow> 'a option" where
  "with_vault_session st sid f = map_option f (vault_sessions st sid)"

definition with_vault_session_mut :: "VaultStore \<Rightarrow> u32 \<Rightarrow> (VaultSession \<Rightarrow> 'a \<times> VaultSession) \<Rightarrow> 'a option \<times> VaultStore" where
  "with_vault_session_mut st sid f =
     (case vault_sessions st sid of None \<Rightarrow> (None, st)
      | Some s \<Rightarrow> (let (x, s') = f s in (Some x, st\<lparr>vault_sessions := (vault_sessions st)(sid \<mapsto> s')\<rparr>)))"

definition close_vault_session :: "u32 \<Rightarrow> VaultStore \<Rightarrow> VaultStore" where
  "close_vault_session sid st = st\<lparr>vault_sessions := (vault_sessions st)(sid := None)\<rparr>"

text \<open>\<open>match result { None => "vault session not found", Some(Err(e)) => .., Some(Ok(x)) => .. }\<close>.\<close>

definition session_result :: "('a \<Rightarrow> JsValue) \<Rightarrow> (string + 'a) option \<Rightarrow> JsValue" where
  "session_result f r = (case r of None \<Rightarrow> js_error ''vault session not found'' | Some q \<Rightarrow> js_result f q)"

record wasm_rand =
  wr_vault_key :: bytes
  wr_shard :: bytes
  wr_vault_id :: bytes
  wr_salt :: bytes
  wr_getrandom_ok :: bool
  wr_nonce :: bytes
  wr_nonce2 :: bytes
  wr_half :: bytes
  wr_mlkem :: bytes
  wr_x25519 :: bytes

definition wasm_rand_ok :: "wasm_rand \<Rightarrow> bool" where
  "wasm_rand_ok r \<longleftrightarrow> length (wr_vault_key r) = 32 \<and> length (wr_shard r) = 32 \<and> length (wr_vault_id r) = 16 \<and>
     length (wr_salt r) = 32 \<and> length (wr_nonce r) = 12 \<and> length (wr_nonce2 r) = 12 \<and> length (wr_half r) = 32"

definition session_object :: "VaultSession \<Rightarrow> VaultStore \<Rightarrow> JsValue \<times> VaultStore" where
  "session_object s st =
     (let (sid, st') = store_vault_session s st in (js_object [(''session_id'', JsNumber (uint sid))], st'))"

subsection \<open>Opening and closing\<close>

definition byo_vault_open ::
  "prims \<Rightarrow> b64_engines \<Rightarrow> string \<Rightarrow> string \<Rightarrow> u32 \<Rightarrow> u32 \<Rightarrow> u32 \<Rightarrow> string \<Rightarrow> string \<Rightarrow> VaultStore \<Rightarrow> JsValue \<times> VaultStore" where
  "byo_vault_open P E password salt_b64 memory_kb iterations parallelism wrap_iv_b64 wrapped_vault_key_b64 st =
     (case
        (and_then (decode_or E ''invalid base64 salt'' salt_b64) (\<lambda>salt.
         and_then (e_str (argon2id_derive_with_params P (as_bytes password) salt memory_kb iterations parallelism)) (\<lambda>argon_output.
         and_then (e_str (derive_vault_kek P argon_output)) (\<lambda>vault_kek.
         and_then (e_str (derive_client_kek_half_from_byo P argon_output)) (\<lambda>client_kek_half.
         and_then (decode_or E ''invalid base64 wrap_iv'' wrap_iv_b64) (\<lambda>iv_bytes.
         and_then (array_or 12 ''wrap_iv must be 12 bytes'' iv_bytes) (\<lambda>iv.
         and_then (decode_or E ''invalid base64 wrapped_vault_key'' wrapped_vault_key_b64) (\<lambda>wrapped.
         and_then (array_or 48 ''wrapped_vault_key must be 48 bytes'' wrapped) (\<lambda>wrapped_arr.
         and_then (e_str (unwrap_vault_key P iv wrapped_arr vault_kek)) (\<lambda>vault_key.
         Inr \<lparr>vs_vault_key = vault_key, vs_client_kek_half = client_kek_half, vs_kek = None\<rparr>))))))))))
      of Inl e \<Rightarrow> (js_error e, st) | Inr session \<Rightarrow> session_object session st)"

definition byo_vault_close :: "u32 \<Rightarrow> VaultStore \<Rightarrow> VaultStore" where
  "byo_vault_close sid st = close_vault_session sid st"

text \<open>The keys of a new vault, the client half and the key wrapped under the passphrase.\<close>

definition vault_create_keys ::
  "prims \<Rightarrow> wasm_rand \<Rightarrow> string \<Rightarrow> u32 \<Rightarrow> u32 \<Rightarrow> u32 \<Rightarrow> string + NewVaultKeys \<times> bytes \<times> bytes \<times> bytes" where
  "vault_create_keys P R password memory_kb iterations parallelism =
     and_then (e_str (generate_vault_keys (wr_vault_key R) (wr_shard R) (wr_vault_id R) (wr_salt R))) (\<lambda>keys.
     and_then (e_str (argon2id_derive_with_params P (as_bytes password) (nv_master_salt keys) memory_kb iterations parallelism)) (\<lambda>argon_output.
     and_then (e_str (derive_vault_kek P argon_output)) (\<lambda>vault_kek.
     and_then (e_str (derive_client_kek_half_from_byo P argon_output)) (\<lambda>client_kek_half.
     and_then (e_str (wrap_vault_key P (wr_nonce R) (nv_vault_key keys) vault_kek)) (\<lambda>(pass_nonce, pass_wrapped).
     Inr (keys, client_kek_half, pass_nonce, pass_wrapped))))))"

definition byo_vault_create ::
  "prims \<Rightarrow> b64_engines \<Rightarrow> wasm_rand \<Rightarrow> string \<Rightarrow> u32 \<Rightarrow> u32 \<Rightarrow> u32 \<Rightarrow> VaultStore \<Rightarrow> JsValue \<times> VaultStore" where
  "byo_vault_create P E R password memory_kb iterations parallelism st =
     (case vault_create_keys P R password memory_kb iterations parallelism of
        Inl e \<Rightarrow> (js_error e, st)
      | Inr (keys, client_kek_half, pass_nonce, pass_wrapped) \<Rightarrow>
          let (sid, st') = store_vault_session
                \<lparr>vs_vault_key = nv_vault_key keys, vs_client_kek_half = client_kek_half, vs_kek = None\<rparr> st in
          (js_object [(''session_id'', JsNumber (uint sid)),
             (''shard_b64'', JsString (b64_encode E (nv_shard keys))),
             (''vault_id_b64'', JsString (b64_encode E (nv_vault_id keys))),
             (''master_salt_b64'', JsString (b64_encode E (nv_master_salt keys))),
             (''pass_wrap_iv_b64'', JsString (b64_encode E pass_nonce)),
             (''pass_wrapped_key_b64'', JsString (b64_encode E pass_wrapped))], st'))"

text \<open>The secret part of a recovery key: bytes 1 to 32 of a full key, or a bare 32-byte secret.\<close>

definition recovery_secret :: "bytes \<Rightarrow> string + bytes" where
  "recovery_secret rec_key_bytes =
     (if length rec_key_bytes \<ge> 33 then Inr (slice 1 33 rec_key_bytes)
      else if length rec_key_bytes = 32 then Inr rec_key_bytes
      else Inl ''recovery_key must be 32 or 37 bytes'')"

definition byo_vault_open_recovery ::
  "prims \<Rightarrow> b64_engines \<Rightarrow> wasm_rand \<Rightarrow> string \<Rightarrow> string \<Rightarrow> string \<Rightarrow> VaultStore \<Rightarrow> JsValue \<times> VaultStore" where
  "byo_vault_open_recovery P E R recovery_key_b64 wrap_iv_b64 wrapped_key_b64 st =
     (case
        (and_then (decode_or E ''invalid base64 recovery_key'' recovery_key_b64) (\<lambda>rec_key_bytes.
         and_then (recovery_secret rec_key_bytes) (\<lambda>secret.
         and_then (e_str (derive_recovery_vault_kek P secret)) (\<lambda>recovery_kek.
         and_then (decode_or E ''invalid base64 wrap_iv'' wrap_iv_b64) (\<lambda>iv_bytes.
         and_then (array_or 12 ''wrap_iv must be 12 bytes'' iv_bytes) (\<lambda>iv.
         and_then (decode_or E ''invalid base64 wrapped_key'' wrapped_key_b64) (\<lambda>wrapped.
         and_then (array_or 48 ''wrapped_key must be 48 bytes'' wrapped) (\<lambda>wrapped_arr.
         and_then (e_str (unwrap_vault_key P iv wrapped_arr recovery_kek)) (\<lambda>vault_key.
         Inr \<lparr>vs_vault_key = vault_key, vs_client_kek_half = wr_half R, vs_kek = None\<rparr>)))))))))
      of Inl e \<Rightarrow> (js_error e, st) | Inr session \<Rightarrow> session_object session st)"

definition byo_vault_load_session_from_wrapped_vault_key ::
  "prims \<Rightarrow> b64_engines \<Rightarrow> string \<Rightarrow> string \<Rightarrow> VaultStore \<Rightarrow> JsValue \<times> VaultStore" where
  "byo_vault_load_session_from_wrapped_vault_key P E wrapped_b64 prf_output_b64 st =
     (case
        (and_then (decode_or E ''invalid base64 wrapped_vault_key'' wrapped_b64) (\<lambda>wrapped.
         and_then (decode_or E ''invalid base64 prf_output'' prf_output_b64) (\<lambda>prf_bytes.
         and_then (e_str (derive_vault_key_wrapping_key_from_prf P prf_bytes)) (\<lambda>wrapping_key.
         and_then (e_str (unwrap_vault_key_with_prf P wrapped wrapping_key)) (\<lambda>vk_bytes.
         and_then (array_or 32 ''unwrapped vault_key is not 32 bytes'' vk_bytes) (\<lambda>vk_arr.
         Inr \<lparr>vs_vault_key = vk_arr, vs_client_kek_half = replicate 32 0, vs_kek = None\<rparr>))))))
      of Inl e \<Rightarrow> (js_error e, st) | Inr session \<Rightarrow> session_object session st)"

subsection \<open>Wrapping the key of a session\<close>

definition byo_vault_wrap_session_vault_key_with_prf ::
  "prims \<Rightarrow> b64_engines \<Rightarrow> wasm_rand \<Rightarrow> VaultStore \<Rightarrow> u32 \<Rightarrow> string \<Rightarrow> JsValue" where
  "byo_vault_wrap_session_vault_key_with_prf P E R st sid prf_output_b64 =
     js_result (\<lambda>v. v)
       (and_then (decode_or E ''invalid base64 prf_output'' prf_output_b64) (\<lambda>prf_bytes.
        and_then (e_str (derive_vault_key_wrapping_key_from_prf P prf_bytes)) (\<lambda>wrapping_key.
        case with_vault_session st sid (\<lambda>sess. e_str (wrap_vault_key_with_prf P (wr_nonce R) (vs_vault_key sess) wrapping_key)) of
          Some (Inr wrapped) \<Rightarrow> Inr (js_object [(''wrapped_b64'', JsString (b64_encode E wrapped))])
        | Some (Inl msg) \<Rightarrow> Inl msg
        | None \<Rightarrow> Inl ''unknown session_id'')))"

definition wrapped_object :: "b64_engines \<Rightarrow> string \<Rightarrow> string \<Rightarrow> bytes \<times> bytes \<Rightarrow> JsValue" where
  "wrapped_object E iv_name key_name = (\<lambda>(nonce, wrapped).
     js_object [(iv_name, JsString (b64_encode E nonce)), (key_name, JsString (b64_encode E wrapped))])"

definition byo_vault_rewrap :: "prims \<Rightarrow> b64_engines \<Rightarrow> wasm_rand \<Rightarrow> VaultStore \<Rightarrow> u32 \<Rightarrow> string \<Rightarrow> JsValue" where
  "byo_vault_rewrap P E R st sid new_wrapping_key_b64 =
     session_result (wrapped_object E ''wrap_iv_b64'' ''wrapped_key_b64'')
       (with_vault_session st sid (\<lambda>sess.
          and_then (decode_or E ''invalid base64 new_wrapping_key'' new_wrapping_key_b64) (\<lambda>wk_bytes.
          and_then (e_str (SymmetricKey_from_slice wk_bytes)) (\<lambda>wrapping_key.
          e_str (wrap_vault_key P (wr_nonce R) (vs_vault_key sess) wrapping_key)))))"

definition byo_vault_wrap_recovery :: "prims \<Rightarrow> b64_engines \<Rightarrow> wasm_rand \<Rightarrow> VaultStore \<Rightarrow> u32 \<Rightarrow> string \<Rightarrow> JsValue" where
  "byo_vault_wrap_recovery P E R st sid recovery_key_b64 =
     js_result (\<lambda>v. v)
       (and_then (decode_or E ''invalid base64 recovery_key'' recovery_key_b64) (\<lambda>rec_key_bytes.
        and_then (recovery_secret rec_key_bytes) (\<lambda>secret.
        Inr (session_result (wrapped_object E ''rec_wrap_iv_b64'' ''rec_wrapped_key_b64'')
          (with_vault_session st sid (\<lambda>sess.
             and_then (e_str (derive_recovery_vault_kek P secret)) (\<lambda>recovery_kek.
             e_str (wrap_vault_key P (wr_nonce R) (vs_vault_key sess) recovery_kek))))))))"

definition byo_vault_rewrap_with_passphrase ::
  "prims \<Rightarrow> b64_engines \<Rightarrow> wasm_rand \<Rightarrow> VaultStore \<Rightarrow> u32 \<Rightarrow> string \<Rightarrow> u32 \<Rightarrow> u32 \<Rightarrow> u32 \<Rightarrow> JsValue" where
  "byo_vault_rewrap_with_passphrase P E R st sid new_password memory_kb iterations parallelism =
     (if \<not> wr_getrandom_ok R then js_error ''failed to generate random salt''
      else js_result (\<lambda>v. v)
        (and_then (e_str (argon2id_derive_with_params P (as_bytes new_password) (wr_salt R) memory_kb iterations parallelism)) (\<lambda>argon_output.
         and_then (e_str (derive_vault_kek P argon_output)) (\<lambda>new_vault_kek.
         Inr (session_result
           (\<lambda>(nonce, wrapped). js_object [(''wrap_iv_b64'', JsString (b64_encode E nonce)),
              (''wrapped_key_b64'', JsString (b64_encode E wrapped)), (''master_salt_b64'', JsString (b64_encode E (wr_salt R)))])
           (with_vault_session st sid (\<lambda>sess. e_str (wrap_vault_key P (wr_nonce R) (vs_vault_key sess) new_vault_kek))))))))"

subsection \<open>Using the key of a session\<close>

definition header_length_error :: "nat \<Rightarrow> string" where
  "header_length_error n = ''header_prefix length '' @ show_nat n @ '' is neither v1 ('' @ show_nat VAULT_HMAC_OFFSET_V1 @
     '') nor v2 ('' @ show_nat VAULT_HMAC_OFFSET @ '')''"

definition byo_vault_verify_header_hmac :: "prims \<Rightarrow> b64_engines \<Rightarrow> VaultStore \<Rightarrow> u32 \<Rightarrow> string \<Rightarrow> string \<Rightarrow> JsValue" where
  "byo_vault_verify_header_hmac P E st sid header_prefix_b64 expected_hmac_b64 =
     session_result (\<lambda>valid. js_object [(''valid'', JsBool valid)])
       (with_vault_session st sid (\<lambda>sess.
          and_then (decode_or E ''invalid base64 header_prefix'' header_prefix_b64) (\<lambda>header_prefix.
          and_then (decode_or E ''invalid base64 expected_hmac'' expected_hmac_b64) (\<lambda>hmac_bytes.
          and_then (array_or 32 ''expected_hmac must be 32 bytes'' hmac_bytes) (\<lambda>expected.
          if length header_prefix = VAULT_HMAC_OFFSET
          then e_str (verify_header_hmac P (vs_vault_key sess) header_prefix expected)
          else if length header_prefix = VAULT_HMAC_OFFSET_V1
          then e_str (verify_header_hmac_v1 P (vs_vault_key sess) header_prefix expected)
          else Inl (header_length_error (length header_prefix)))))))"

definition byo_vault_compute_header_hmac :: "prims \<Rightarrow> b64_engines \<Rightarrow> VaultStore \<Rightarrow> u32 \<Rightarrow> string \<Rightarrow> JsValue" where
  "byo_vault_compute_header_hmac P E st sid header_prefix_b64 =
     session_result (\<lambda>hmac. js_object [(''hmac_b64'', JsString (b64_encode E hmac))])
       (with_vault_session st sid (\<lambda>sess.
          and_then (decode_or E ''invalid base64 header_prefix'' header_prefix_b64) (\<lambda>header_prefix.
          if length header_prefix = VAULT_HMAC_OFFSET
          then e_str (compute_header_hmac P (vs_vault_key sess) header_prefix)
          else if length header_prefix = VAULT_HMAC_OFFSET_V1
          then e_str (compute_header_hmac_v1 P (vs_vault_key sess) header_prefix)
          else Inl (header_length_error (length header_prefix)))))"

definition byo_vault_decrypt_body :: "prims \<Rightarrow> VaultStore \<Rightarrow> u32 \<Rightarrow> bytes \<Rightarrow> bytes option" where
  "byo_vault_decrypt_body P st sid nonce_and_ct =
     (if length nonce_and_ct < 12 then None
      else Option.bind (with_vault_session st sid (\<lambda>sess.
        result_ok (decrypt_vault_body P (take 12 nonce_and_ct) (drop 12 nonce_and_ct) (vs_vault_key sess)))) (\<lambda>x. x))"

definition byo_vault_encrypt_body :: "prims \<Rightarrow> wasm_rand \<Rightarrow> VaultStore \<Rightarrow> u32 \<Rightarrow> bytes \<Rightarrow> bytes option" where
  "byo_vault_encrypt_body P R st sid sqlite_bytes =
     Option.bind (with_vault_session st sid (\<lambda>sess.
       map_option (\<lambda>(nonce, ct). nonce @ ct) (result_ok (encrypt_vault_body P (wr_nonce R) sqlite_bytes (vs_vault_key sess))))) (\<lambda>x. x)"

definition byo_vault_derive_kek :: "prims \<Rightarrow> b64_engines \<Rightarrow> u32 \<Rightarrow> string \<Rightarrow> VaultStore \<Rightarrow> JsValue \<times> VaultStore" where
  "byo_vault_derive_kek P E sid shard_b64 st =
     (let (result, st') = with_vault_session_mut st sid (\<lambda>sess.
        case and_then (decode_or E ''invalid base64 shard'' shard_b64) (\<lambda>shard_bytes.
               e_str (derive_byo_kek P (vs_client_kek_half sess) shard_bytes)) of
          Inl e \<Rightarrow> (Inl e, sess)
        | Inr kek \<Rightarrow> (Inr (), sess\<lparr>vs_kek := Some kek\<rparr>)) in
      (session_result (\<lambda>_. JsObject []) result, st'))"

definition KEY_VERSIONS_WRAP_INFO :: bytes where
  "KEY_VERSIONS_WRAP_INFO = as_bytes ''SecureCloud BYO key_versions wrap v1''"

definition derive_key_versions_wrap_key :: "prims \<Rightarrow> VaultSession \<Rightarrow> string + bytes" where
  "derive_key_versions_wrap_key P sess =
     and_then (e_str (hkdf_sha256 P (vs_vault_key sess) KEY_VERSIONS_WRAP_INFO 32)) (\<lambda>bs.
     array_or 32 ''hkdf output length mismatch'' bs)"

definition vault_aes_encrypt_with_subkey :: "prims \<Rightarrow> bytes \<Rightarrow> bytes \<Rightarrow> bytes \<Rightarrow> string + bytes" where
  "vault_aes_encrypt_with_subkey P rnd plaintext key =
     and_then (e_str (aes_gcm_encrypt P rnd plaintext key)) (\<lambda>(ct, nonce). Inr (nonce @ ct))"

definition vault_aes_decrypt :: "prims \<Rightarrow> bytes \<Rightarrow> bytes \<Rightarrow> string + bytes" where
  "vault_aes_decrypt P encrypted key =
     (if length encrypted < 12 then Inl ''encrypted key too short''
      else e_str (aes_gcm_decrypt P (drop 12 encrypted) (take 12 encrypted) key))"

definition byo_vault_load_keys :: "prims \<Rightarrow> b64_engines \<Rightarrow> VaultStore \<Rightarrow> u32 \<Rightarrow> bytes \<Rightarrow> bytes \<Rightarrow> JsValue" where
  "byo_vault_load_keys P E st sid mlkem_sk_encrypted x25519_sk_encrypted =
     session_result (\<lambda>(mlkem, x25519). js_object [(''mlkem_sk_b64'', JsString (b64_encode E mlkem)),
         (''x25519_sk_b64'', JsString (b64_encode E x25519))])
       (with_vault_session st sid (\<lambda>sess.
          and_then (derive_key_versions_wrap_key P sess) (\<lambda>k_wrap.
          and_then (vault_aes_decrypt P mlkem_sk_encrypted k_wrap) (\<lambda>mlkem_sk.
          and_then (vault_aes_decrypt P x25519_sk_encrypted k_wrap) (\<lambda>x25519_sk.
          Inr (mlkem_sk, x25519_sk))))))"

definition byo_vault_generate_keypair_wrapped :: "prims \<Rightarrow> b64_engines \<Rightarrow> wasm_rand \<Rightarrow> VaultStore \<Rightarrow> u32 \<Rightarrow> JsValue" where
  "byo_vault_generate_keypair_wrapped P E R st sid =
     session_result (\<lambda>(mlkem_pk_b64, mlkem_sk_ct, x25519_pk_b64, x25519_sk_ct).
         js_object [(''mlkem_public_key_b64'', JsString mlkem_pk_b64), (''mlkem_private_key_encrypted'', JsBytes mlkem_sk_ct),
           (''x25519_public_key_b64'', JsString x25519_pk_b64), (''x25519_private_key_encrypted'', JsBytes x25519_sk_ct)])
       (with_vault_session st sid (\<lambda>sess.
          and_then (derive_key_versions_wrap_key P sess) (\<lambda>k_wrap.
          and_then (e_str (generate_hybrid_keypair P (wr_mlkem R) (wr_x25519 R))) (\<lambda>keypair.
          and_then (vault_aes_encrypt_with_subkey P (wr_nonce R) (mlkem_secret_key keypair) k_wrap) (\<lambda>mlkem_sk_wrapped.
          and_then (vault_aes_encrypt_with_subkey P (wr_nonce2 R) (x25519_secret_key keypair) k_wrap) (\<lambda>x25519_sk_wrapped.
          Inr (b64_encode E (mlkem_public_key keypair), mlkem_sk_wrapped,
               b64_encode E (x25519_public_key keypair), x25519_sk_wrapped)))))))"

definition byo_vault_derive_subkey :: "prims \<Rightarrow> VaultStore \<Rightarrow> u32 \<Rightarrow> string \<Rightarrow> bytes option" where
  "byo_vault_derive_subkey P st sid purpose =
     Option.bind (with_vault_session st sid (\<lambda>sess. result_ok (hkdf_sha256 P (vs_vault_key sess) (as_bytes purpose) 32))) (\<lambda>x. x)"

definition byo_vault_seal_device_signing_key :: "prims \<Rightarrow> b64_engines \<Rightarrow> VaultStore \<Rightarrow> u32 \<Rightarrow> string \<Rightarrow> string \<Rightarrow> JsValue" where
  "byo_vault_seal_device_signing_key P E st sid device_id_b64 seed_b64 =
     session_result (\<lambda>wrapped. js_object [(''wrapped'', JsString (b64_encode E wrapped))])
       (with_vault_session st sid (\<lambda>sess.
          and_then (decode_or E ''invalid base64 device_id'' device_id_b64) (\<lambda>device_id_bytes.
          and_then (array_or 16 ''device_id must be 16 bytes'' device_id_bytes) (\<lambda>did.
          and_then (decode_or E ''invalid base64 seed'' seed_b64) (\<lambda>seed_bytes.
          and_then (array_or 32 ''seed must be 32 bytes'' seed_bytes) (\<lambda>seed.
          e_str (seal_device_signing_key P (vs_vault_key sess) did seed)))))))"

definition byo_vault_unseal_device_signing_key :: "prims \<Rightarrow> b64_engines \<Rightarrow> VaultStore \<Rightarrow> u32 \<Rightarrow> string \<Rightarrow> string \<Rightarrow> JsValue" where
  "byo_vault_unseal_device_signing_key P E st sid device_id_b64 wrapped_b64 =
     session_result (\<lambda>seed. js_object [(''seed'', JsString (b64_encode E seed))])
       (with_vault_session st sid (\<lambda>sess.
          and_then (decode_or E ''invalid base64 device_id'' device_id_b64) (\<lambda>device_id_bytes.
          and_then (array_or 16 ''device_id must be 16 bytes'' device_id_bytes) (\<lambda>did.
          and_then (decode_or E ''invalid base64 wrapped'' wrapped_b64) (\<lambda>wrapped_bytes.
          and_then (array_or 48 ''wrapped must be 48 bytes'' wrapped_bytes) (\<lambda>wrapped.
          e_str (unseal_device_signing_key P (vs_vault_key sess) did wrapped)))))))"

definition byo_vault_migrate_v1_to_v2 :: "prims \<Rightarrow> VaultStore \<Rightarrow> u32 \<Rightarrow> bytes \<Rightarrow> bytes option" where
  "byo_vault_migrate_v1_to_v2 P st sid vault_bytes =
     Option.bind (with_vault_session st sid (\<lambda>sess. result_ok (migrate_vault_v1_to_v2 P vault_bytes (vs_vault_key sess)))) (\<lambda>x. x)"

subsection \<open>Histories of sessions\<close>

datatype vault_call =
    VOpen string string u32 u32 u32 string string
  | VCreate string u32 u32 u32
  | VOpenRecovery string string string
  | VLoadWrapped string string
  | VDeriveKek u32 string
  | VClose u32

text \<open>The calls that change the registry; the others only read a session.\<close>

fun vault_step :: "prims \<Rightarrow> b64_engines \<Rightarrow> wasm_rand \<times> vault_call \<Rightarrow> VaultStore \<Rightarrow> JsValue \<times> VaultStore" where
  "vault_step P E (R, VOpen pw salt m t p iv w) st = byo_vault_open P E pw salt m t p iv w st"
| "vault_step P E (R, VCreate pw m t p) st = byo_vault_create P E R pw m t p st"
| "vault_step P E (R, VOpenRecovery k iv w) st = byo_vault_open_recovery P E R k iv w st"
| "vault_step P E (R, VLoadWrapped w prf_b64) st = byo_vault_load_session_from_wrapped_vault_key P E w prf_b64 st"
| "vault_step P E (R, VDeriveKek sid shard) st = byo_vault_derive_kek P E sid shard st"
| "vault_step P E (R, VClose sid) st = (JsNull, byo_vault_close sid st)"

definition vault_run :: "prims \<Rightarrow> b64_engines \<Rightarrow> (wasm_rand \<times> vault_call) list \<Rightarrow> VaultStore \<Rightarrow> VaultStore" where
  "vault_run P E cs st = fold (\<lambda>c st. snd (vault_step P E c st)) cs st"

definition returns_session :: "JsValue \<Rightarrow> u32 \<Rightarrow> bool" where
  "returns_session v sid \<longleftrightarrow> js_get v ''session_id'' = Some (JsNumber (uint sid))"

lemma vault_run_simps [simp]:
  "vault_run P E [] st = st" "vault_run P E (c # cs) st = vault_run P E cs (snd (vault_step P E c st))"
  by (simp_all add: vault_run_def)

lemma vault_run_append: "vault_run P E (as @ bs) st = vault_run P E bs (vault_run P E as st)"
  by (simp add: vault_run_def)

lemma js_error_no_session [simp]: "\<not> returns_session (js_error e) sid"
  by (simp add: returns_session_def js_error_def)

lemma plain_no_session [simp]: "\<not> returns_session JsNull sid" "\<not> returns_session (JsObject []) sid"
  by (simp_all add: returns_session_def)

lemma returns_session_inj: "returns_session v a \<Longrightarrow> returns_session v b \<Longrightarrow> a = b"
  by (simp add: returns_session_def unsigned_word_eqI)

text \<open>
  The contract of every function that opens a session: it fails without effect, or stores one
  session under the counter and returns that number.
\<close>

locale session_opener =
  fixes opener :: "VaultStore \<Rightarrow> JsValue \<times> VaultStore"
  assumes opens: "(\<exists>e. \<forall>st. opener st = (js_error e, st)) \<or>
    (\<exists>s. \<forall>st. snd (opener st) = st\<lparr>vault_sessions := (vault_sessions st)(session_counter st \<mapsto> s),
        session_counter := session_counter st + 1\<rparr> \<and>
      returns_session (fst (opener st)) (session_counter st))"
begin

lemma opener_cases:
  obtains (failed) e where "opener st = (js_error e, st)"
  | (opened) s where "vault_sessions (snd (opener st)) = (vault_sessions st)(session_counter st \<mapsto> s)"
      and "session_counter (snd (opener st)) = session_counter st + 1"
      and "returns_session (fst (opener st)) (session_counter st)"
  using opens by (elim disjE exE) (force, simp)

lemma opener_keeps:
  "sid \<noteq> session_counter st \<Longrightarrow> vault_sessions (snd (opener st)) sid = vault_sessions st sid"
  by (cases rule: opener_cases [of st]) simp_all

lemma opener_counter:
  "session_counter (snd (opener st)) = session_counter st + (if \<exists>sid. returns_session (fst (opener st)) sid then 1 else 0)"
  by (cases rule: opener_cases [of st]) auto

lemma opener_id:
  assumes "returns_session (fst (opener st)) sid"
  shows "sid = session_counter st" and "vault_sessions (snd (opener st)) sid \<noteq> None"
proof -
  have "sid = session_counter st \<and> vault_sessions (snd (opener st)) sid \<noteq> None"
    using assms by (cases rule: opener_cases [of st]) (auto dest: returns_session_inj)
  then show "sid = session_counter st" and "vault_sessions (snd (opener st)) sid \<noteq> None" by auto
qed

end

lemma session_object_opens:
  "(\<exists>e. \<forall>st. (case r of Inl e \<Rightarrow> (js_error e, st) | Inr s \<Rightarrow> session_object s st) = (js_error e, st)) \<or>
    (\<exists>s. \<forall>st. snd (case r of Inl e \<Rightarrow> (js_error e, st) | Inr s \<Rightarrow> session_object s st) =
        st\<lparr>vault_sessions := (vault_sessions st)(session_counter st \<mapsto> s), session_counter := session_counter st + 1\<rparr> \<and>
      returns_session (fst (case r of Inl e \<Rightarrow> (js_error e, st) | Inr s \<Rightarrow> session_object s st)) (session_counter st))"
  by (cases r) (auto simp: session_object_def store_vault_session_def Let_def returns_session_def js_get_object)

interpretation vopen: session_opener "byo_vault_open P E pw salt m t p iv w" for P E pw salt m t p iv w
  by unfold_locales (unfold byo_vault_open_def, rule session_object_opens)

interpretation vrecover: session_opener "byo_vault_open_recovery P E R k iv w" for P E R k iv w
  by unfold_locales (unfold byo_vault_open_recovery_def, rule session_object_opens)

interpretation vload: session_opener "byo_vault_load_session_from_wrapped_vault_key P E w po" for P E w po
  by unfold_locales (unfold byo_vault_load_session_from_wrapped_vault_key_def, rule session_object_opens)

interpretation vcreate: session_opener "byo_vault_create P E R pw m t p" for P E R pw m t p
proof (unfold_locales, cases "vault_create_keys P R pw m t p")
  case (Inl e)
  then show "(\<exists>e. \<forall>st. byo_vault_create P E R pw m t p st = (js_error e, st)) \<or>
    (\<exists>s. \<forall>st. snd (byo_vault_create P E R pw m t p st) =
        st\<lparr>vault_sessions := (vault_sessions st)(session_counter st \<mapsto> s), session_counter := session_counter st + 1\<rparr> \<and>
      returns_session (fst (byo_vault_create P E R pw m t p st)) (session_counter st))"
    by (auto simp: byo_vault_create_def)
next
  case (Inr x)
  obtain keys half n w where "x = (keys, half, n, w)" by (cases x)
  with Inr show "(\<exists>e. \<forall>st. byo_vault_create P E R pw m t p st = (js_error e, st)) \<or>
    (\<exists>s. \<forall>st. snd (byo_vault_create P E R pw m t p st) =
        st\<lparr>vault_sessions := (vault_sessions st)(session_counter st \<mapsto> s), session_counter := session_counter st + 1\<rparr> \<and>
      returns_session (fst (byo_vault_create P E R pw m t p st)) (session_counter st))"
    by (auto simp: byo_vault_create_def store_vault_session_def Let_def returns_session_def js_get_object)
qed

lemma byo_vault_derive_kek_cases:
  "byo_vault_derive_kek P E sid shard_b64 st =
     (case vault_sessions st sid of None \<Rightarrow> (js_error ''vault session not found'', st)
      | Some s \<Rightarrow>
          (case and_then (decode_or E ''invalid base64 shard'' shard_b64) (\<lambda>b. e_str (derive_byo_kek P (vs_client_kek_half s) b)) of
             Inl e \<Rightarrow> (js_error e, st)
           | Inr k \<Rightarrow> (JsObject [], st\<lparr>vault_sessions := (vault_sessions st)(sid \<mapsto> s\<lparr>vs_kek := Some k\<rparr>)\<rparr>)))"
  by (simp add: byo_vault_derive_kek_def with_vault_session_mut_def session_result_def fun_upd_idem
      split: option.split sum.split)

lemma vault_step_cases:
  obtains (failed) e where "vault_step P E (R, c) st = (js_error e, st)"
  | (opened) s where "\<And>sid. c \<noteq> VClose sid"
      and "vault_sessions (snd (vault_step P E (R, c) st)) = (vault_sessions st)(session_counter st \<mapsto> s)"
      and "session_counter (snd (vault_step P E (R, c) st)) = session_counter st + 1"
      and "returns_session (fst (vault_step P E (R, c) st)) (session_counter st)"
  | (kek) sid s k where "\<And>sid. c \<noteq> VClose sid" and "vault_step P E (R, c) st = (JsObject [],
        st\<lparr>vault_sessions := (vault_sessions st)(sid \<mapsto> s\<lparr>vs_kek := Some k\<rparr>)\<rparr>)" and "vault_sessions st sid = Some s"
  | (closed) sid where "c = VClose sid" and "vault_step P E (R, c) st = (JsNull, close_vault_session sid st)"
proof (cases c)
  case (VOpen pw salt m t p iv w)
  then show ?thesis using failed opened by (cases rule: vopen.opener_cases [of P E pw salt m t p iv w st]) simp_all
next
  case (VCreate pw m t p)
  then show ?thesis using failed opened by (cases rule: vcreate.opener_cases [of P E R pw m t p st]) simp_all
next
  case (VOpenRecovery k iv w)
  then show ?thesis using failed opened by (cases rule: vrecover.opener_cases [of P E R k iv w st]) simp_all
next
  case (VLoadWrapped w po)
  then show ?thesis using failed opened by (cases rule: vload.opener_cases [of P E w po st]) simp_all
next
  case (VDeriveKek sid shard)
  show ?thesis
  proof (cases "vault_sessions st sid")
    case None
    then show ?thesis using VDeriveKek failed by (simp add: byo_vault_derive_kek_cases)
  next
    case (Some s)
    then show ?thesis
      using VDeriveKek failed kek [where sid = sid and s = s]
      by (cases "and_then (decode_or E ''invalid base64 shard'' shard) (\<lambda>b. e_str (derive_byo_kek P (vs_client_kek_half s) b))")
        (simp_all add: byo_vault_derive_kek_cases)
  qed
next
  case (VClose sid)
  then show ?thesis using closed by (simp add: byo_vault_close_def)
qed

text \<open>After \<open>n\<close> sessions every number in use is between 1 and \<open>n\<close>.\<close>

definition numbered :: "nat \<Rightarrow> VaultStore \<Rightarrow> bool" where
  "numbered n st \<longleftrightarrow> unat (session_counter st) = Suc n \<and>
     (\<forall>sid s. vault_sessions st sid = Some s \<longrightarrow> 0 < unat sid \<and> unat sid \<le> n)"

lemma numbered_init: "numbered 0 vault_store_init"
  by (simp add: numbered_def vault_store_init_def)

lemma unat_Suc_u32: "unat (w :: u32) = Suc n \<Longrightarrow> Suc n < 2 ^ 32 - 1 \<Longrightarrow> unat (w + 1) = Suc (Suc n)"
  by (simp add: unat_word_ariths)

lemma vault_step_numbered:
  assumes "numbered n st" and "Suc n < 2 ^ 32 - 1"
  obtains n' where "n' \<in> {n, Suc n}" and "numbered n' (snd (vault_step P E c st))"
proof -
  obtain R d where c: "c = (R, d)" by (cases c)
  show thesis
  proof (cases rule: vault_step_cases [of P E R d st])
    case (failed e)
    then show thesis using assms by (intro that [of n]) (simp_all add: c)
  next
    case (opened s)
    then show thesis using assms
      by (intro that [of "Suc n"]) (auto simp: c numbered_def unat_Suc_u32 split: if_splits)
  next
    case (kek sid s k)
    then show thesis using assms by (intro that [of n]) (auto simp: c numbered_def)
  next
    case (closed sid)
    then show thesis using assms by (intro that [of n]) (auto simp: c numbered_def close_vault_session_def)
  qed
qed

lemma vault_run_numbered:
  "numbered n st \<Longrightarrow> n + length cs < 2 ^ 32 - 1 \<Longrightarrow> \<exists>n'. n \<le> n' \<and> n' \<le> n + length cs \<and> numbered n' (vault_run P E cs st)"
proof (induction cs arbitrary: n st)
  case (Cons c cs)
  have "Suc n < 2 ^ 32 - 1" using Cons.prems(2) by simp
  then obtain n1 where n1: "n1 \<in> {n, Suc n}" "numbered n1 (snd (vault_step P E c st))"
    by (rule vault_step_numbered [OF Cons.prems(1)])
  then obtain n' where "n1 \<le> n'" "n' \<le> n1 + length cs" "numbered n' (vault_run P E cs (snd (vault_step P E c st)))"
    using Cons.IH [OF n1(2)] Cons.prems(2) by auto
  moreover have "n \<le> n1" "n1 \<le> Suc n" using n1(1) by auto
  ultimately show ?case by (intro exI [of _ n']) simp
qed auto

lemma vault_step_session_kept:
  assumes "numbered n st" and "unat sid \<le> n" and "snd c \<noteq> VClose sid" and "vault_sessions st sid = Some s"
  shows "\<exists>k. vault_sessions (snd (vault_step P E c st)) sid = Some (s\<lparr>vs_kek := k\<rparr>)"
proof -
  obtain R d where c: "c = (R, d)" by (cases c)
  have ne: "sid \<noteq> session_counter st" using assms(1,2) by (auto simp: numbered_def)
  show ?thesis
  proof (cases rule: vault_step_cases [of P E R d st])
    case (kek sid' s' k)
    then show ?thesis using assms(4) by (cases "sid = sid'") (auto simp: c intro: exI [of _ "vs_kek s"])
  qed (use assms ne in \<open>auto simp: c close_vault_session_def intro: exI [of _ "vs_kek s"]\<close>)
qed

lemma vault_step_session_absent:
  assumes "numbered n st" and "unat sid \<le> n" and "vault_sessions st sid = None"
  shows "vault_sessions (snd (vault_step P E c st)) sid = None"
proof -
  obtain R d where c: "c = (R, d)" by (cases c)
  have ne: "sid \<noteq> session_counter st" using assms(1,2) by (auto simp: numbered_def)
  show ?thesis
    by (cases rule: vault_step_cases [of P E R d st]) (use assms ne in \<open>auto simp: c close_vault_session_def\<close>)
qed

lemma vault_run_absent:
  "numbered n st \<Longrightarrow> unat sid \<le> n \<Longrightarrow> n + length cs < 2 ^ 32 - 1 \<Longrightarrow> vault_sessions st sid = None \<Longrightarrow>
   vault_sessions (vault_run P E cs st) sid = None"
proof (induction cs arbitrary: n st)
  case (Cons c cs)
  have "Suc n < 2 ^ 32 - 1" using Cons.prems(3) by simp
  then obtain n1 where n1: "n1 \<in> {n, Suc n}" "numbered n1 (snd (vault_step P E c st))"
    by (rule vault_step_numbered [OF Cons.prems(1)])
  have "vault_sessions (snd (vault_step P E c st)) sid = None"
    by (rule vault_step_session_absent [OF Cons.prems(1,2,4)])
  then show ?case using Cons.IH [OF n1(2)] n1(1) Cons.prems(2,3) by auto
qed simp

lemma vault_run_session:
  "numbered n st \<Longrightarrow> unat sid \<le> n \<Longrightarrow> n + length cs < 2 ^ 32 - 1 \<Longrightarrow> vault_sessions st sid = Some s \<Longrightarrow>
   (if VClose sid \<in> snd ` set cs then vault_sessions (vault_run P E cs st) sid = None
    else \<exists>k. vault_sessions (vault_run P E cs st) sid = Some (s\<lparr>vs_kek := k\<rparr>))"
proof (induction cs arbitrary: n st s)
  case Nil
  then show ?case by (auto intro: exI [of _ "vs_kek s"])
next
  case (Cons c cs)
  let ?st = "snd (vault_step P E c st)"
  have "Suc n < 2 ^ 32 - 1" using Cons.prems(3) by simp
  then obtain n1 where n1: "n1 \<in> {n, Suc n}" "numbered n1 ?st"
    by (rule vault_step_numbered [OF Cons.prems(1)])
  have b: "unat sid \<le> n1" "n1 + length cs < 2 ^ 32 - 1" using n1(1) Cons.prems(2,3) by auto
  show ?case
  proof (cases "snd c = VClose sid")
    case True
    then have "vault_sessions ?st sid = None" by (cases c) (simp add: byo_vault_close_def close_vault_session_def)
    then show ?thesis using True vault_run_absent [OF n1(2) b] by simp
  next
    case False
    obtain k where "vault_sessions ?st sid = Some (s\<lparr>vs_kek := k\<rparr>)"
      using vault_step_session_kept [OF Cons.prems(1,2) False Cons.prems(4)] by blast
    from Cons.IH [OF n1(2) b this] show ?thesis using False by auto
  qed
qed

text \<open>A number that names no session is refused by everything that uses a session.\<close>

lemma absent_session_refused:
  assumes "vault_sessions st sid = None"
  shows "byo_vault_encrypt_body P R st sid x = None" and "byo_vault_decrypt_body P st sid x = None"
    and "byo_vault_derive_subkey P st sid y = None" and "byo_vault_migrate_v1_to_v2 P st sid x = None"
    and "is_js_error (byo_vault_load_keys P E st sid x z)" and "is_js_error (byo_vault_generate_keypair_wrapped P E R st sid)"
    and "is_js_error (byo_vault_rewrap P E R st sid y)" and "is_js_error (byo_vault_wrap_recovery P E R st sid y)"
    and "is_js_error (byo_vault_rewrap_with_passphrase P E R st sid y m t p)"
    and "is_js_error (byo_vault_wrap_session_vault_key_with_prf P E R st sid y)"
    and "is_js_error (byo_vault_verify_header_hmac P E st sid y u)" and "is_js_error (byo_vault_compute_header_hmac P E st sid y)"
    and "is_js_error (byo_vault_seal_device_signing_key P E st sid y u)"
    and "is_js_error (byo_vault_unseal_device_signing_key P E st sid y u)"
    and "byo_vault_derive_kek P E sid y st = (js_error ''vault session not found'', st)"
  using assms
  by (simp_all add: byo_vault_encrypt_body_def byo_vault_decrypt_body_def byo_vault_derive_subkey_def byo_vault_migrate_v1_to_v2_def
      byo_vault_load_keys_def byo_vault_generate_keypair_wrapped_def byo_vault_rewrap_def byo_vault_wrap_recovery_def
      byo_vault_rewrap_with_passphrase_def byo_vault_wrap_session_vault_key_with_prf_def byo_vault_verify_header_hmac_def
      byo_vault_compute_header_hmac_def byo_vault_seal_device_signing_key_def byo_vault_unseal_device_signing_key_def
      byo_vault_derive_kek_cases with_vault_session_def session_result_def js_result_def and_then_def split: sum.split)

lemma vault_step_fresh:
  assumes "numbered n st" and "Suc n < 2 ^ 32 - 1" and "vault_step P E c st = (v, st')" and "returns_session v sid"
  shows "vault_sessions st sid = None" and "unat sid = Suc n" and "numbered (Suc n) st'"
    and "\<exists>s. vault_sessions st' sid = Some s"
proof -
  obtain R d where c: "c = (R, d)" by (cases c)
  have v: "fst (vault_step P E (R, d) st) = v" "snd (vault_step P E (R, d) st) = st'" using assms(3) c by simp_all
  have "sid = session_counter st \<and> session_counter st' = session_counter st + 1 \<and>
      (\<exists>s. vault_sessions st' = (vault_sessions st)(session_counter st \<mapsto> s))"
    using assms(4) v
    by (cases rule: vault_step_cases [of P E R d st]) (auto dest: returns_session_inj)
  then show "vault_sessions st sid = None" and "unat sid = Suc n" and "numbered (Suc n) st'"
    and "\<exists>s. vault_sessions st' sid = Some s"
    using assms(1,2) by (fastforce simp: numbered_def unat_Suc_u32 split: if_splits)+
qed

text \<open>
  C27.  Over every history of fewer than 2^32 - 1 calls from module start: the number returned for a
  session was never in use before; as long as that number is not closed the session keeps the
  vault key it was opened with, whatever other calls are made; and once it is closed the number
  names nothing for the rest of the history and is refused.
\<close>

theorem vault_sessions_isolated:
  assumes "length cs < 2 ^ 32 - 1" and "cs = before @ c # after"
    and "vault_step P E c (vault_run P E before vault_store_init) = (v, st)" and "returns_session v sid"
  shows "vault_sessions (vault_run P E before vault_store_init) sid = None \<and>
    (\<forall>pre c' post. before = pre @ c' # post \<longrightarrow> \<not> returns_session (fst (vault_step P E c' (vault_run P E pre vault_store_init))) sid) \<and>
    (\<exists>s. vault_sessions st sid = Some s \<and>
      (if VClose sid \<in> snd ` set after
       then (\<forall>R x. byo_vault_encrypt_body P R (vault_run P E after st) sid x = None) \<and>
         (\<forall>x. byo_vault_decrypt_body P (vault_run P E after st) sid x = None)
       else \<exists>k. vault_sessions (vault_run P E after st) sid = Some (s\<lparr>vs_kek := k\<rparr>)))"
proof -
  have len: "0 + length before < 2 ^ 32 - 1" "length before + Suc (length after) < 2 ^ 32 - 1"
    using assms(1,2) by simp_all
  obtain n where n: "n \<le> length before" "numbered n (vault_run P E before vault_store_init)"
    using vault_run_numbered [OF numbered_init len(1)] by auto
  then have "Suc n < 2 ^ 32 - 1" using len(2) by simp
  note fr = vault_step_fresh [OF n(2) this assms(3,4)]
  have "\<not> returns_session (fst (vault_step P E c' (vault_run P E pre vault_store_init))) sid"
    if before: "before = pre @ c' # post" for pre c' post
  proof
    let ?t = "vault_run P E pre vault_store_init"
    assume r: "returns_session (fst (vault_step P E c' ?t)) sid"
    obtain m where m: "m \<le> length pre" "numbered m ?t"
      using vault_run_numbered [OF numbered_init, of pre P E] len(1) before by auto
    then have "Suc m < 2 ^ 32 - 1" using len(2) before by simp
    note fr' = vault_step_fresh [OF m(2) this surjective_pairing r]
    have "Suc m + length post < 2 ^ 32 - 1" using m(1) len(1) before by simp
    then obtain n' where n': "Suc m \<le> n'" "numbered n' (vault_run P E post (snd (vault_step P E c' ?t)))"
      using vault_run_numbered [OF fr'(3), of post P E] by blast
    then have "n' = n" using n(2) before by (simp add: numbered_def vault_run_append)
    then show False using n'(1) fr(2) fr'(2) by simp
  qed
  moreover obtain s where s: "vault_sessions st sid = Some s" using fr(4) by blast
  moreover have "Suc n + length after < 2 ^ 32 - 1" using n(1) len(2) by simp
  from vault_run_session [OF fr(3) _ this s] fr(2) s
  have "if VClose sid \<in> snd ` set after then vault_sessions (vault_run P E after st) sid = None
      else \<exists>k. vault_sessions (vault_run P E after st) sid = Some (s\<lparr>vs_kek := k\<rparr>)" by simp
  ultimately show ?thesis using fr(1) by (auto simp: absent_session_refused split: if_splits)
qed

subsection \<open>Every way in leads to the same key\<close>

definition opens_with :: "JsValue \<times> VaultStore \<Rightarrow> bytes \<Rightarrow> bool" where
  "opens_with r vk \<longleftrightarrow> (\<exists>sid s. returns_session (fst r) sid \<and> vault_sessions (snd r) sid = Some s \<and> vs_vault_key s = vk)"

lemma session_object_opens_with: "opens_with (session_object s st) vk \<longleftrightarrow> vs_vault_key s = vk"
  by (auto simp: opens_with_def session_object_def store_vault_session_def Let_def returns_session_def js_get_object
      dest: unsigned_word_eqI [OF sym] split: if_splits)

lemma hkdf_key:
  assumes "mac_lengths P"
  obtains k where "and_then (hkdf_sha256 P ikm info 32) SymmetricKey_from_slice = Inr k" and "length k = 32"
proof -
  obtain k where "hkdf_sha256 P ikm info 32 = Inr k" "length k = 32"
    by (rule hkdf_sha256_ok [OF assms, of 32 ikm info]) simp
  then show thesis by (intro that [of k]) (simp_all add: SymmetricKey_from_slice_def)
qed

lemma wrap_vault_key_ok:
  assumes "aead_correct P" and "length wk = 32" and "length n = 12" and "length vk = 32"
  obtains w where "wrap_vault_key P n vk wk = Inr (n, w)" and "length w = 48" and "unwrap_vault_key P n w wk = Inr vk"
proof -
  have "length vk \<le> aead_limit" using assms(4) by simp
  then obtain w where w: "aead_seal P wk n vk = Some w" "length w = length vk + 16" "aead_open P wk n w = Some vk"
    by (rule aead_correct_sealE [OF assms(1,2,3)])
  show thesis
    by (rule that [of w]) (use w assms in \<open>simp_all add: wrap_vault_key_def unwrap_vault_key_def
        aes_gcm_encrypt_with_nonce_def aes_gcm_decrypt_def SymmetricKey_from_slice_def\<close>)
qed

lemma vault_create_keys_ok:
  assumes "aead_correct P" and "mac_lengths P" and "wasm_rand_ok R"
    and "argon2id_derive_with_params P (as_bytes pw) (wr_salt R) m t p = Inr ao"
  obtains kek half w where "derive_vault_kek P ao = Inr kek" and "derive_client_kek_half_from_byo P ao = Inr half"
    and "length w = 48" and "unwrap_vault_key P (wr_nonce R) w kek = Inr (wr_vault_key R)"
    and "vault_create_keys P R pw m t p = Inr (\<lparr>nv_vault_key = wr_vault_key R, nv_shard = wr_shard R,
        nv_vault_id = wr_vault_id R, nv_master_salt = wr_salt R\<rparr>, half, wr_nonce R, w)"
proof -
  obtain kek where k: "derive_vault_kek P ao = Inr kek" "length kek = 32"
    unfolding derive_vault_kek_def by (rule hkdf_key [OF assms(2)])
  obtain half where h: "derive_client_kek_half_from_byo P ao = Inr half"
    unfolding derive_client_kek_half_from_byo_def by (rule hkdf_key [OF assms(2)])
  have r: "length (wr_nonce R) = 12" "length (wr_vault_key R) = 32" using assms(3) by (simp_all add: wasm_rand_ok_def)
  obtain w where w: "wrap_vault_key P (wr_nonce R) (wr_vault_key R) kek = Inr (wr_nonce R, w)" "length w = 48"
      "unwrap_vault_key P (wr_nonce R) w kek = Inr (wr_vault_key R)"
    by (rule wrap_vault_key_ok [OF assms(1) k(2) r])
  show thesis
    by (rule that [OF k(1) h w(2,3)]) (use assms(4) k h w in \<open>simp add: vault_create_keys_def generate_vault_keys_def\<close>)
qed

lemma open_password:
  assumes "b64_ok E" and "argon2id_derive_with_params P (as_bytes pw) salt m t p = Inr ao"
    and "derive_vault_kek P ao = Inr kek" and "derive_client_kek_half_from_byo P ao = Inr half"
    and "length n = 12" and "length w = 48" and "unwrap_vault_key P n w kek = Inr vk"
  shows "opens_with (byo_vault_open P E pw (b64_encode E salt) m t p (b64_encode E n) (b64_encode E w) st) vk"
  using assms by (simp add: byo_vault_open_def session_object_opens_with)

lemma create_opens:
  assumes "aead_correct P" and "mac_lengths P" and "b64_ok E" and "wasm_rand_ok R"
    and "argon2id_derive_with_params P (as_bytes pw) (wr_salt R) m t p = Inr ao"
    and "byo_vault_create P E R pw m t p st0 = (v, st1)"
  shows "opens_with (v, st1) (wr_vault_key R)"
    and "opens_with (byo_vault_open P E pw (js_str v ''master_salt_b64'') m t p (js_str v ''pass_wrap_iv_b64'')
      (js_str v ''pass_wrapped_key_b64'') st) (wr_vault_key R)"
proof -
  obtain kek half w where k: "derive_vault_kek P ao = Inr kek" "derive_client_kek_half_from_byo P ao = Inr half"
    "length w = 48" "unwrap_vault_key P (wr_nonce R) w kek = Inr (wr_vault_key R)"
    and c: "vault_create_keys P R pw m t p = Inr (\<lparr>nv_vault_key = wr_vault_key R, nv_shard = wr_shard R,
        nv_vault_id = wr_vault_id R, nv_master_salt = wr_salt R\<rparr>, half, wr_nonce R, w)"
    by (rule vault_create_keys_ok [OF assms(1,2,4,5)])
  from assms(6) c
  have v: "js_str v ''master_salt_b64'' = b64_encode E (wr_salt R)" "js_str v ''pass_wrap_iv_b64'' = b64_encode E (wr_nonce R)"
      "js_str v ''pass_wrapped_key_b64'' = b64_encode E w" and o: "opens_with (v, st1) (wr_vault_key R)"
    by (auto simp: byo_vault_create_def store_vault_session_def Let_def js_str_def js_get_object opens_with_def returns_session_def)
  show "opens_with (v, st1) (wr_vault_key R)" by (rule o)
  have "length (wr_nonce R) = 12" using assms(4) by (simp add: wasm_rand_ok_def)
  then show "opens_with (byo_vault_open P E pw (js_str v ''master_salt_b64'') m t p (js_str v ''pass_wrap_iv_b64'')
      (js_str v ''pass_wrapped_key_b64'') st) (wr_vault_key R)"
    unfolding v by (intro open_password [OF assms(3,5) k(1,2) _ k(3,4)])
qed

lemma recovery_opens:
  assumes "aead_correct P" and "mac_lengths P" and "b64_ok E" and "wasm_rand_ok R" and "33 \<le> length rk"
    and "vault_sessions st sid = Some s" and "length (vs_vault_key s) = 32"
    and "r = byo_vault_wrap_recovery P E R st sid (b64_encode E rk)"
  shows "opens_with (byo_vault_open_recovery P E R' (b64_encode E rk) (js_str r ''rec_wrap_iv_b64'') (js_str r ''rec_wrapped_key_b64'') st')
    (vs_vault_key s)"
proof -
  have sec: "recovery_secret rk = Inr (slice 1 33 rk)" "length (slice 1 33 rk) = 32"
    using assms(5) by (simp_all add: recovery_secret_def)
  obtain kek where k: "derive_recovery_vault_kek P (slice 1 33 rk) = Inr kek" "length kek = 32"
    using hkdf_key [OF assms(2), of "slice 1 33 rk" "as_bytes ''SecureCloud BYO RecoveryVaultKEK v1''"] sec(2)
    unfolding derive_recovery_vault_kek_def by auto
  have n: "length (wr_nonce R) = 12" using assms(4) by (simp add: wasm_rand_ok_def)
  obtain w where w: "wrap_vault_key P (wr_nonce R) (vs_vault_key s) kek = Inr (wr_nonce R, w)" "length w = 48"
      "unwrap_vault_key P (wr_nonce R) w kek = Inr (vs_vault_key s)"
    by (rule wrap_vault_key_ok [OF assms(1) k(2) n assms(7)])
  have "r = js_object [(''rec_wrap_iv_b64'', JsString (b64_encode E (wr_nonce R))), (''rec_wrapped_key_b64'', JsString (b64_encode E w))]"
    using assms(3,6,8) sec(1) k(1) w(1)
    by (simp add: byo_vault_wrap_recovery_def with_vault_session_def session_result_def wrapped_object_def)
  then have "js_str r ''rec_wrap_iv_b64'' = b64_encode E (wr_nonce R)" "js_str r ''rec_wrapped_key_b64'' = b64_encode E w"
    by (simp_all add: js_str_def js_get_object)
  then show ?thesis
    using assms(3) sec k n w by (simp add: byo_vault_open_recovery_def session_object_opens_with)
qed

lemma passkey_opens:
  assumes "aead_correct P" and "mac_lengths P" and "b64_ok E" and "wasm_rand_ok R" and "po \<noteq> []"
    and "vault_sessions st sid = Some s" and "length (vs_vault_key s) = 32"
    and "r = byo_vault_wrap_session_vault_key_with_prf P E R st sid (b64_encode E po)"
  shows "opens_with (byo_vault_load_session_from_wrapped_vault_key P E (js_str r ''wrapped_b64'') (b64_encode E po) st') (vs_vault_key s)"
proof -
  obtain wk where wk: "derive_vault_key_wrapping_key_from_prf P po = Inr wk" "length wk = 32"
    by (rule derive_prf_key [OF assms(2,5)])
  have n: "length (wr_nonce R) = 12" using assms(4) by (simp add: wasm_rand_ok_def)
  obtain w where w: "wrap_vault_key_with_prf P (wr_nonce R) (vs_vault_key s) wk = Inr w"
      "unwrap_vault_key_with_prf P w wk = Inr (vs_vault_key s)"
    by (rule prf_wrap_roundtrip [OF assms(1) wk(2) n assms(7)])
  have "js_str r ''wrapped_b64'' = b64_encode E w"
    using assms(3,6,8) wk(1) w(1)
    by (simp add: byo_vault_wrap_session_vault_key_with_prf_def with_vault_session_def js_str_def js_get_object)
  then show ?thesis
    using assms(3,7) wk w by (simp add: byo_vault_load_session_from_wrapped_vault_key_def session_object_opens_with)
qed

lemma rewrap_opens:
  assumes "aead_correct P" and "mac_lengths P" and "b64_ok E" and "wasm_rand_ok R" and "wr_getrandom_ok R"
    and "argon2id_derive_with_params P (as_bytes pw) (wr_salt R) m t p = Inr ao"
    and "vault_sessions st sid = Some s" and "length (vs_vault_key s) = 32"
    and "r = byo_vault_rewrap_with_passphrase P E R st sid pw m t p"
  shows "opens_with (byo_vault_open P E pw (js_str r ''master_salt_b64'') m t p (js_str r ''wrap_iv_b64'') (js_str r ''wrapped_key_b64'') st')
    (vs_vault_key s)"
proof -
  obtain kek where k: "derive_vault_kek P ao = Inr kek" "length kek = 32"
    unfolding derive_vault_kek_def by (rule hkdf_key [OF assms(2)])
  obtain half where h: "derive_client_kek_half_from_byo P ao = Inr half"
    unfolding derive_client_kek_half_from_byo_def by (rule hkdf_key [OF assms(2)])
  have n: "length (wr_nonce R) = 12" using assms(4) by (simp add: wasm_rand_ok_def)
  obtain w where w: "wrap_vault_key P (wr_nonce R) (vs_vault_key s) kek = Inr (wr_nonce R, w)" "length w = 48"
      "unwrap_vault_key P (wr_nonce R) w kek = Inr (vs_vault_key s)"
    by (rule wrap_vault_key_ok [OF assms(1) k(2) n assms(8)])
  have r: "js_str r ''master_salt_b64'' = b64_encode E (wr_salt R)" "js_str r ''wrap_iv_b64'' = b64_encode E (wr_nonce R)"
      "js_str r ''wrapped_key_b64'' = b64_encode E w"
    using assms(5,6,7,9) k(1) w(1)
    by (simp_all add: byo_vault_rewrap_with_passphrase_def with_vault_session_def session_result_def js_str_def js_get_object)
  show ?thesis unfolding r by (rule open_password [OF assms(3,6) k(1) h n w(2,3)])
qed

lemma body_shared:
  assumes "aead_correct P" and "wasm_rand_ok R" and "length body \<le> aead_limit"
    and "vault_sessions st sid = Some s" and "length (vs_vault_key s) = 32"
    and "vault_sessions st' sid' = Some s'" and "vs_vault_key s' = vs_vault_key s"
  shows "\<exists>blob. byo_vault_encrypt_body P R st sid body = Some blob \<and> byo_vault_decrypt_body P st' sid' blob = Some body"
proof -
  have n: "length (wr_nonce R) = 12" using assms(2) by (simp add: wasm_rand_ok_def)
  obtain c where c: "aead_seal P (vs_vault_key s) (wr_nonce R) body = Some c"
      "aead_open P (vs_vault_key s) (wr_nonce R) c = Some body"
    by (rule aead_correct_sealE [OF assms(1,5) n assms(3)])
  then show ?thesis
    using assms(4-7) n
    by (intro exI [of _ "wr_nonce R @ c"])
      (simp add: byo_vault_encrypt_body_def byo_vault_decrypt_body_def with_vault_session_def encrypt_vault_body_def
        decrypt_vault_body_def aes_gcm_encrypt_with_nonce_def aes_gcm_decrypt_def)
qed

text \<open>
  C2.  A vault that was created can be opened again in every way the bindings offer, and every way
  leads to a session with the same vault key: with the passphrase and what creation returned;
  with the recovery key, from any session of the vault; with the passkey; and, after a change of
  the passphrase, with the new one.  A body encrypted in any such session is decrypted in any other.
\<close>

theorem vault_reopens:
  assumes "aead_correct P" and "mac_lengths P" and "b64_ok E" and "wasm_rand_ok R" and "wasm_rand_ok R'" and "wr_getrandom_ok R'"
    and "argon2id_derive_with_params P (as_bytes pw) (wr_salt R) m t p = Inr ao"
    and "argon2id_derive_with_params P (as_bytes pw') (wr_salt R') m t p = Inr ao'"
    and "33 \<le> length rk" and "po \<noteq> []" and "length body \<le> aead_limit"
    and "byo_vault_create P E R pw m t p st0 = (v, st1)"
  shows "\<exists>vk. opens_with (v, st1) vk \<and>
    opens_with (byo_vault_open P E pw (js_str v ''master_salt_b64'') m t p (js_str v ''pass_wrap_iv_b64'') (js_str v ''pass_wrapped_key_b64'') st) vk \<and>
    (\<forall>st2 sid2 s2. vault_sessions st2 sid2 = Some s2 \<and> vs_vault_key s2 = vk \<longrightarrow>
      (let r = byo_vault_wrap_recovery P E R' st2 sid2 (b64_encode E rk) in
       opens_with (byo_vault_open_recovery P E R'' (b64_encode E rk) (js_str r ''rec_wrap_iv_b64'') (js_str r ''rec_wrapped_key_b64'') st) vk) \<and>
      (let r = byo_vault_wrap_session_vault_key_with_prf P E R' st2 sid2 (b64_encode E po) in
       opens_with (byo_vault_load_session_from_wrapped_vault_key P E (js_str r ''wrapped_b64'') (b64_encode E po) st) vk) \<and>
      (let r = byo_vault_rewrap_with_passphrase P E R' st2 sid2 pw' m t p in
       opens_with (byo_vault_open P E pw' (js_str r ''master_salt_b64'') m t p (js_str r ''wrap_iv_b64'') (js_str r ''wrapped_key_b64'') st) vk) \<and>
      (\<forall>st3 sid3 s3. vault_sessions st3 sid3 = Some s3 \<and> vs_vault_key s3 = vk \<longrightarrow>
        (\<exists>blob. byo_vault_encrypt_body P R' st2 sid2 body = Some blob \<and> byo_vault_decrypt_body P st3 sid3 blob = Some body)))"
proof -
  have vk: "length (wr_vault_key R) = 32" using assms(4) by (simp add: wasm_rand_ok_def)
  note created = create_opens [OF assms(1-4,7,12)]
  have ways: "opens_with (byo_vault_open_recovery P E R'' (b64_encode E rk)
        (js_str (byo_vault_wrap_recovery P E R' st2 sid2 (b64_encode E rk)) ''rec_wrap_iv_b64'')
        (js_str (byo_vault_wrap_recovery P E R' st2 sid2 (b64_encode E rk)) ''rec_wrapped_key_b64'') st) (wr_vault_key R)"
      "opens_with (byo_vault_load_session_from_wrapped_vault_key P E
        (js_str (byo_vault_wrap_session_vault_key_with_prf P E R' st2 sid2 (b64_encode E po)) ''wrapped_b64'') (b64_encode E po) st)
        (wr_vault_key R)"
      "opens_with (byo_vault_open P E pw' (js_str (byo_vault_rewrap_with_passphrase P E R' st2 sid2 pw' m t p) ''master_salt_b64'') m t p
        (js_str (byo_vault_rewrap_with_passphrase P E R' st2 sid2 pw' m t p) ''wrap_iv_b64'')
        (js_str (byo_vault_rewrap_with_passphrase P E R' st2 sid2 pw' m t p) ''wrapped_key_b64'') st) (wr_vault_key R)"
      "vault_sessions st3 sid3 = Some s3 \<Longrightarrow> vs_vault_key s3 = wr_vault_key R \<Longrightarrow>
        \<exists>blob. byo_vault_encrypt_body P R' st2 sid2 body = Some blob \<and> byo_vault_decrypt_body P st3 sid3 blob = Some body"
    if s: "vault_sessions st2 sid2 = Some s2" and eq: "vs_vault_key s2 = wr_vault_key R" for st2 sid2 s2 st3 sid3 s3
    using recovery_opens [OF assms(1-3,5,9) s _ refl, of R'' st] passkey_opens [OF assms(1-3,5,10) s _ refl, of st]
      rewrap_opens [OF assms(1-3,5,6,8) s _ refl, of st] body_shared [OF assms(1,5,11) s] vk eq
    by simp_all
  show ?thesis
    unfolding Let_def
    by (rule exI [of _ "wr_vault_key R"], intro conjI allI impI; (elim conjE)?; (rule created ways; assumption))
qed

subsection \<open>Concrete sessions\<close>

definition demo_rand :: wasm_rand where
  "demo_rand = \<lparr>wr_vault_key = replicate 32 1, wr_shard = replicate 32 2, wr_vault_id = replicate 16 3,
     wr_salt = replicate 32 4, wr_getrandom_ok = True, wr_nonce = replicate 12 5, wr_nonce2 = replicate 12 6,
     wr_half = replicate 32 7, wr_mlkem = replicate 32 8, wr_x25519 = replicate 32 9\<rparr>"

lemma demo_rand_ok: "wasm_rand_ok demo_rand" "wr_getrandom_ok demo_rand"
  by (simp_all add: demo_rand_def wasm_rand_ok_def)

lemma demo_argon:
  "argon2id_derive_with_params toy_prims (as_bytes pw) (wr_salt demo_rand) 65536 3 4 =
     Inr (take 64 (as_bytes pw @ replicate 32 4 @ replicate 64 0))"
  by (simp add: argon2id_derive_with_params_def demo_rand_def toy_prims_def ARGON2_MAX_MEMORY_KIB_def
      ARGON2_MAX_ITERATIONS_def ARGON2_MAX_PARALLELISM_def)

theorem vault_reopens_witness:
  "\<exists>vk. opens_with (byo_vault_create toy_prims toy_b64 demo_rand ''pass'' 65536 3 4 vault_store_init) vk \<and>
     (let v = fst (byo_vault_create toy_prims toy_b64 demo_rand ''pass'' 65536 3 4 vault_store_init) in
      opens_with (byo_vault_open toy_prims toy_b64 ''pass'' (js_str v ''master_salt_b64'') 65536 3 4
        (js_str v ''pass_wrap_iv_b64'') (js_str v ''pass_wrapped_key_b64'') vault_store_init) vk)"
  using vault_reopens [OF toy_ok(1,2) b64_ok_toy demo_rand_ok(1) demo_rand_ok demo_argon [of "''pass''"] demo_argon [of "''new''"], of "replicate 37 0" "[1]" "[]",
      OF _ _ _ surjective_pairing [of "byo_vault_create toy_prims toy_b64 demo_rand ''pass'' 65536 3 4 vault_store_init"],
      of vault_store_init demo_rand]
  by (auto simp: Let_def)

lemma demo_create_session:
  "returns_session (fst (vault_step toy_prims toy_b64 (demo_rand, VCreate ''pass'' 65536 3 4) vault_store_init)) 1"
proof -
  obtain kek half w where
    "vault_create_keys toy_prims demo_rand ''pass'' 65536 3 4 = Inr (\<lparr>nv_vault_key = wr_vault_key demo_rand, nv_shard = wr_shard demo_rand,
        nv_vault_id = wr_vault_id demo_rand, nv_master_salt = wr_salt demo_rand\<rparr>, half, wr_nonce demo_rand, w)"
    by (rule vault_create_keys_ok [OF toy_ok(1,2) demo_rand_ok(1) demo_argon])
  then show ?thesis
    by (simp add: byo_vault_create_def store_vault_session_def vault_store_init_def returns_session_def js_get_object)
qed

theorem vault_sessions_isolated_witness:
  "let c = (demo_rand, VCreate ''pass'' 65536 3 4); st = snd (vault_step toy_prims toy_b64 c vault_store_init) in
   (\<exists>s. vault_sessions st 1 = Some s) \<and>
   byo_vault_encrypt_body toy_prims demo_rand (vault_run toy_prims toy_b64 [(demo_rand, VClose 1)] st) 1 [] = None"
  using vault_sessions_isolated [of "[(demo_rand, VCreate ''pass'' 65536 3 4), (demo_rand, VClose 1)]" "[]"
      "(demo_rand, VCreate ''pass'' 65536 3 4)" "[(demo_rand, VClose 1)]" toy_prims toy_b64,
      OF _ _ _ demo_create_session]
  by (auto simp: Let_def)

end
