(* ===== verification/Wasm_Keys.thy ===== *)
theory Wasm_Keys
  imports Wasm_Vault
begin

text \<open>
  The functions of \<open>sdk-wasm/src/byo.rs\<close> that take keys as base64 text instead of a session, and that
  the sessions of \<open>Wasm_Vault\<close> compute the same.
\<close>

subsection \<open>Deriving and wrapping\<close>

definition derived_keys_object :: "b64_engines \<Rightarrow> bytes \<times> bytes \<times> bytes \<Rightarrow> JsValue" where
  "derived_keys_object E = (\<lambda>(vault_kek, client_kek_half, argon_output).
     js_object [(''vault_kek'', JsString (b64_encode E vault_kek)), (''client_kek_half'', JsString (b64_encode E client_kek_half)),
       (''argon_output'', JsString (b64_encode E argon_output))])"

definition byo_derive_vault_keys :: "prims \<Rightarrow> b64_engines \<Rightarrow> string \<Rightarrow> string \<Rightarrow> u32 \<Rightarrow> u32 \<Rightarrow> u32 \<Rightarrow> JsValue" where
  "byo_derive_vault_keys P E password salt_b64 memory_kb iterations parallelism =
     js_result (derived_keys_object E)
       (and_then (decode_or E ''invalid base64 salt'' salt_b64) (\<lambda>salt.
        and_then (e_str (argon2id_derive_with_params P (as_bytes password) salt memory_kb iterations parallelism)) (\<lambda>argon_output.
        and_then (e_str (derive_vault_kek P argon_output)) (\<lambda>vault_kek.
        and_then (e_str (derive_client_kek_half_from_byo P argon_output)) (\<lambda>client_kek_half.
        Inr (vault_kek, client_kek_half, argon_output))))))"

definition byo_derive_vault_keys_default :: "prims \<Rightarrow> b64_engines \<Rightarrow> string \<Rightarrow> string \<Rightarrow> JsValue" where
  "byo_derive_vault_keys_default P E password salt_b64 =
     js_result (derived_keys_object E)
       (and_then (decode_or E ''invalid base64 salt'' salt_b64) (\<lambda>salt.
        and_then (e_str (argon2id_derive_byo P (as_bytes password) salt)) (\<lambda>argon_output.
        and_then (e_str (derive_vault_kek P argon_output)) (\<lambda>vault_kek.
        and_then (e_str (derive_client_kek_half_from_byo P argon_output)) (\<lambda>client_kek_half.
        Inr (vault_kek, client_kek_half, argon_output))))))"

definition byo_unwrap_vault_key :: "prims \<Rightarrow> b64_engines \<Rightarrow> string \<Rightarrow> string \<Rightarrow> string \<Rightarrow> JsValue" where
  "byo_unwrap_vault_key P E wrap_iv_b64 wrapped_key_b64 unwrapping_key_b64 =
     js_result (\<lambda>vault_key. js_object [(''vault_key'', JsString (b64_encode E vault_key))])
       (and_then (decode_or E ''invalid base64 wrap_iv'' wrap_iv_b64) (\<lambda>iv_bytes.
        and_then (array_or 12 ''wrap_iv must be 12 bytes'' iv_bytes) (\<lambda>iv.
        and_then (decode_or E ''invalid base64 wrapped_key'' wrapped_key_b64) (\<lambda>wrapped.
        and_then (array_or 48 ''wrapped_key must be 48 bytes'' wrapped) (\<lambda>wrapped_arr.
        and_then (decode_or E ''invalid base64 unwrapping_key'' unwrapping_key_b64) (\<lambda>key_bytes.
        and_then (e_str (SymmetricKey_from_slice key_bytes)) (\<lambda>unwrapping_key.
        e_str (unwrap_vault_key P iv wrapped_arr unwrapping_key))))))))"

definition byo_derive_kek :: "prims \<Rightarrow> b64_engines \<Rightarrow> string \<Rightarrow> string \<Rightarrow> JsValue" where
  "byo_derive_kek P E client_kek_half_b64 shard_b64 =
     js_result (\<lambda>kek. js_object [(''kek'', JsString (b64_encode E kek))])
       (and_then (decode_or E ''invalid base64 client_kek_half'' client_kek_half_b64) (\<lambda>half_bytes.
        and_then (decode_or E ''invalid base64 shard'' shard_b64) (\<lambda>shard_bytes.
        and_then (e_str (SymmetricKey_from_slice half_bytes)) (\<lambda>half.
        e_str (derive_byo_kek P half shard_bytes)))))"

definition byo_derive_recovery_vault_kek :: "prims \<Rightarrow> b64_engines \<Rightarrow> string \<Rightarrow> JsValue" where
  "byo_derive_recovery_vault_kek P E recovery_key_b64 =
     js_result (\<lambda>kek. js_object [(''recovery_vault_kek'', JsString (b64_encode E kek))])
       (and_then (decode_or E ''invalid base64 recovery_key'' recovery_key_b64) (\<lambda>bs.
        if length bs \<noteq> 32 then Inl ''recovery_key secret must be 32 bytes''
        else e_str (derive_recovery_vault_kek P bs)))"

definition byo_wrap_vault_key :: "prims \<Rightarrow> b64_engines \<Rightarrow> wasm_rand \<Rightarrow> string \<Rightarrow> string \<Rightarrow> JsValue" where
  "byo_wrap_vault_key P E R vault_key_b64 wrapping_key_b64 =
     js_result (wrapped_object E ''wrap_iv'' ''wrapped_key'')
       (and_then (decode_or E ''invalid base64 vault_key'' vault_key_b64) (\<lambda>vk_bytes.
        and_then (e_str (SymmetricKey_from_slice vk_bytes)) (\<lambda>vault_key.
        and_then (decode_or E ''invalid base64 wrapping_key'' wrapping_key_b64) (\<lambda>wk_bytes.
        and_then (e_str (SymmetricKey_from_slice wk_bytes)) (\<lambda>wrapping_key.
        e_str (wrap_vault_key P (wr_nonce R) vault_key wrapping_key))))))"

definition byo_generate_vault_keys :: "b64_engines \<Rightarrow> wasm_rand \<Rightarrow> JsValue" where
  "byo_generate_vault_keys E R =
     js_result (\<lambda>keys. js_object [(''vault_key'', JsString (b64_encode E (nv_vault_key keys))),
         (''shard'', JsString (b64_encode E (nv_shard keys))), (''vault_id'', JsString (b64_encode E (nv_vault_id keys))),
         (''master_salt'', JsString (b64_encode E (nv_master_salt keys)))])
       (e_str (generate_vault_keys (wr_vault_key R) (wr_shard R) (wr_vault_id R) (wr_salt R)))"

subsection \<open>Header and body\<close>

definition byo_parse_vault_header :: "b64_engines \<Rightarrow> bytes \<Rightarrow> JsValue" where
  "byo_parse_vault_header E vault_bytes =
     js_result (\<lambda>header. js_object [
         (''format_version'', JsNumber (uint (format_version header))),
         (''argon2_memory_kb'', JsNumber (uint (argon2_memory_kb header))),
         (''argon2_iterations'', JsNumber (uint (argon2_iterations header))),
         (''argon2_parallelism'', JsNumber (uint (argon2_parallelism header))),
         (''master_salt'', JsString (b64_encode E (master_salt header))),
         (''vault_id'', JsString (b64_encode E (vault_id header))),
         (''pass_wrap_iv'', JsString (b64_encode E (pass_wrap_iv header))),
         (''pass_wrapped_vault_key'', JsString (b64_encode E (pass_wrapped_vault_key header))),
         (''recovery_wrap_iv'', JsString (b64_encode E (recovery_wrap_iv header))),
         (''recovery_wrapped_vault_key'', JsString (b64_encode E (recovery_wrapped_vault_key header))),
         (''device_slots'', JsArray (map (\<lambda>slot. js_object [
             (''status'', JsNumber (uint (SlotStatus_byte (status slot)))),
             (''device_id'', JsString (b64_encode E (device_id slot))),
             (''wrap_iv'', JsString (b64_encode E (wrap_iv slot))),
             (''encrypted_payload'', JsString (b64_encode E (encrypted_payload slot)))]) (device_slots header))),
         (''num_active_slots'', JsNumber (int (active_slot_count header))),
         (''header_hmac'', JsString (b64_encode E (header_hmac header)))])
       (map_err VaultError_to_string (VaultHeader_parse vault_bytes))"

definition byo_compute_header_hmac :: "prims \<Rightarrow> b64_engines \<Rightarrow> string \<Rightarrow> string \<Rightarrow> JsValue" where
  "byo_compute_header_hmac P E vault_key_b64 header_prefix_b64 =
     js_result (\<lambda>hmac. js_object [(''hmac'', JsString (b64_encode E hmac))])
       (and_then (decode_or E ''invalid base64 vault_key'' vault_key_b64) (\<lambda>key_bytes.
        and_then (e_str (SymmetricKey_from_slice key_bytes)) (\<lambda>vault_key.
        and_then (decode_or E ''invalid base64 header_prefix'' header_prefix_b64) (\<lambda>header_prefix.
        if length header_prefix = VAULT_HMAC_OFFSET then e_str (compute_header_hmac P vault_key header_prefix)
        else if length header_prefix = VAULT_HMAC_OFFSET_V1 then e_str (compute_header_hmac_v1 P vault_key header_prefix)
        else Inl (header_length_error (length header_prefix))))))"

definition byo_verify_header_hmac :: "prims \<Rightarrow> b64_engines \<Rightarrow> string \<Rightarrow> string \<Rightarrow> string \<Rightarrow> JsValue" where
  "byo_verify_header_hmac P E vault_key_b64 header_prefix_b64 expected_hmac_b64 =
     js_result (\<lambda>valid. js_object [(''valid'', JsBool valid)])
       (and_then (decode_or E ''invalid base64 vault_key'' vault_key_b64) (\<lambda>key_bytes.
        and_then (e_str (SymmetricKey_from_slice key_bytes)) (\<lambda>vault_key.
        and_then (decode_or E ''invalid base64 header_prefix'' header_prefix_b64) (\<lambda>header_prefix.
        and_then (decode_or E ''invalid base64 expected_hmac'' expected_hmac_b64) (\<lambda>hmac_bytes.
        and_then (array_or 32 ''expected_hmac must be 32 bytes'' hmac_bytes) (\<lambda>expected.
        if length header_prefix = VAULT_HMAC_OFFSET then e_str (verify_header_hmac P vault_key header_prefix expected)
        else if length header_prefix = VAULT_HMAC_OFFSET_V1 then e_str (verify_header_hmac_v1 P vault_key header_prefix expected)
        else Inl (header_length_error (length header_prefix))))))))"

definition byo_encrypt_vault_body :: "prims \<Rightarrow> b64_engines \<Rightarrow> wasm_rand \<Rightarrow> bytes \<Rightarrow> string \<Rightarrow> bytes option" where
  "byo_encrypt_vault_body P E R sqlite_bytes vault_key_b64 =
     Option.bind (b64_decode E vault_key_b64) (\<lambda>key_bytes.
     Option.bind (result_ok (SymmetricKey_from_slice key_bytes)) (\<lambda>vault_key.
     Option.bind (result_ok (encrypt_vault_body P (wr_nonce R) sqlite_bytes vault_key)) (\<lambda>(nonce, ciphertext).
     Some (nonce @ ciphertext))))"

definition byo_decrypt_vault_body :: "prims \<Rightarrow> b64_engines \<Rightarrow> bytes \<Rightarrow> string \<Rightarrow> bytes option" where
  "byo_decrypt_vault_body P E nonce_and_ct vault_key_b64 =
     (if length nonce_and_ct < 12 then None
      else Option.bind (b64_decode E vault_key_b64) (\<lambda>key_bytes.
        Option.bind (result_ok (SymmetricKey_from_slice key_bytes)) (\<lambda>vault_key.
        result_ok (decrypt_vault_body P (take 12 nonce_and_ct) (drop 12 nonce_and_ct) vault_key))))"

definition byo_migrate_vault_v1_to_v2 :: "prims \<Rightarrow> b64_engines \<Rightarrow> bytes \<Rightarrow> string \<Rightarrow> bytes option" where
  "byo_migrate_vault_v1_to_v2 P E vault_bytes vault_key_b64 =
     Option.bind (b64_decode E vault_key_b64) (\<lambda>vault_key_bytes.
     Option.bind (result_ok (SymmetricKey_from_slice vault_key_bytes)) (\<lambda>vault_key.
     result_ok (migrate_vault_v1_to_v2 P vault_bytes vault_key)))"

subsection \<open>Device signing keys\<close>

definition byo_seal_device_signing_key :: "prims \<Rightarrow> b64_engines \<Rightarrow> string \<Rightarrow> string \<Rightarrow> string \<Rightarrow> JsValue" where
  "byo_seal_device_signing_key P E vault_key_b64 device_id_b64 seed_b64 =
     js_result (\<lambda>wrapped. js_object [(''wrapped'', JsString (b64_encode E wrapped))])
       (and_then (decode_or E ''invalid base64 vault_key'' vault_key_b64) (\<lambda>vault_key_bytes.
        and_then (e_str (SymmetricKey_from_slice vault_key_bytes)) (\<lambda>vault_key.
        and_then (decode_or E ''invalid base64 device_id'' device_id_b64) (\<lambda>device_id_bytes.
        and_then (array_or 16 ''device_id must be 16 bytes'' device_id_bytes) (\<lambda>did.
        and_then (decode_or E ''invalid base64 seed'' seed_b64) (\<lambda>seed_bytes.
        and_then (array_or 32 ''seed must be 32 bytes'' seed_bytes) (\<lambda>seed.
        e_str (seal_device_signing_key P vault_key did seed))))))))"

definition byo_unseal_device_signing_key :: "prims \<Rightarrow> b64_engines \<Rightarrow> string \<Rightarrow> string \<Rightarrow> string \<Rightarrow> JsValue" where
  "byo_unseal_device_signing_key P E vault_key_b64 device_id_b64 wrapped_b64 =
     js_result (\<lambda>seed. js_object [(''seed'', JsString (b64_encode E seed))])
       (and_then (decode_or E ''invalid base64 vault_key'' vault_key_b64) (\<lambda>vault_key_bytes.
        and_then (e_str (SymmetricKey_from_slice vault_key_bytes)) (\<lambda>vault_key.
        and_then (decode_or E ''invalid base64 device_id'' device_id_b64) (\<lambda>device_id_bytes.
        and_then (array_or 16 ''device_id must be 16 bytes'' device_id_bytes) (\<lambda>did.
        and_then (decode_or E ''invalid base64 wrapped'' wrapped_b64) (\<lambda>wrapped_bytes.
        and_then (array_or 48 ''wrapped must be 48 bytes'' wrapped_bytes) (\<lambda>wrapped.
        e_str (unseal_device_signing_key P vault_key did wrapped))))))))"

subsection \<open>Sessions compute what the key functions compute\<close>

lemma b64_inj: "b64_ok E \<Longrightarrow> b64_encode E a = b64_encode E b \<longleftrightarrow> a = b"
  using b64_okD(1) by (metis option.inject)

lemma session_body_api:
  assumes "b64_ok E" and "vault_sessions st sid = Some s" and "length (vs_vault_key s) = 32" and "k = b64_encode E (vs_vault_key s)"
  shows "byo_vault_encrypt_body P R st sid x = byo_encrypt_vault_body P E R x k"
    and "byo_vault_decrypt_body P st sid x = byo_decrypt_vault_body P E x k"
    and "byo_vault_migrate_v1_to_v2 P st sid x = byo_migrate_vault_v1_to_v2 P E x k"
  using assms
  by (auto simp: byo_vault_encrypt_body_def byo_encrypt_vault_body_def byo_vault_decrypt_body_def byo_decrypt_vault_body_def
      byo_vault_migrate_v1_to_v2_def byo_migrate_vault_v1_to_v2_def with_vault_session_def SymmetricKey_from_slice_def
      map_option_case split: option.split)

lemma session_header_api:
  assumes "b64_ok E" and "vault_sessions st sid = Some s" and "length (vs_vault_key s) = 32" and "k = b64_encode E (vs_vault_key s)"
  shows "byo_vault_verify_header_hmac P E st sid a b = byo_verify_header_hmac P E k a b"
    and "byo_vault_seal_device_signing_key P E st sid a b = byo_seal_device_signing_key P E k a b"
    and "byo_vault_unseal_device_signing_key P E st sid a b = byo_unseal_device_signing_key P E k a b"
  using assms
  by (simp_all add: SymmetricKey_from_slice_def byo_vault_verify_header_hmac_def byo_verify_header_hmac_def byo_vault_seal_device_signing_key_def
      byo_seal_device_signing_key_def byo_vault_unseal_device_signing_key_def byo_unseal_device_signing_key_def
      with_vault_session_def session_result_def)

lemma js_get_result:
  "js_get (js_result f r) a = (case r of Inl _ \<Rightarrow> if a = ''error'' then js_get (js_result f r) a else None | Inr x \<Rightarrow> js_get (f x) a)"
  by (cases r) (simp_all add: js_error_def)

lemma session_hmac_api:
  assumes "b64_ok E" and "vault_sessions st sid = Some s" and "length (vs_vault_key s) = 32" and "k = b64_encode E (vs_vault_key s)"
  shows "js_get (byo_vault_compute_header_hmac P E st sid a) ''hmac_b64'' = js_get (byo_compute_header_hmac P E k a) ''hmac''"
  using assms(1,2,3) unfolding assms(4)
  by (simp add: byo_vault_compute_header_hmac_def byo_compute_header_hmac_def with_vault_session_def session_result_def
      SymmetricKey_from_slice_def js_get_result [where f = "\<lambda>hmac. js_object [(_, JsString (b64_encode E hmac))]"] js_get_object
      split: sum.split)

lemma session_rewrap_api:
  assumes "b64_ok E" and "vault_sessions st sid = Some s" and "length (vs_vault_key s) = 32" and "k = b64_encode E (vs_vault_key s)"
  shows "js_get (byo_vault_rewrap P E R st sid a) ''wrap_iv_b64'' = js_get (byo_wrap_vault_key P E R k a) ''wrap_iv''"
    and "js_get (byo_vault_rewrap P E R st sid a) ''wrapped_key_b64'' = js_get (byo_wrap_vault_key P E R k a) ''wrapped_key''"
proof -
  let ?r = "and_then (SymmetricKey_from_slice (the (b64_decode E a))) (\<lambda>wk. wrap_vault_key P (wr_nonce R) (vs_vault_key s) wk)"
  have "js_get (byo_vault_rewrap P E R st sid a) ''wrap_iv_b64'' = js_get (byo_wrap_vault_key P E R k a) ''wrap_iv'' \<and>
    js_get (byo_vault_rewrap P E R st sid a) ''wrapped_key_b64'' = js_get (byo_wrap_vault_key P E R k a) ''wrapped_key''"
    using assms(1,2,3) unfolding assms(4)
    by (cases "b64_decode E a"; cases ?r)
      (auto simp: byo_vault_rewrap_def byo_wrap_vault_key_def with_vault_session_def session_result_def decode_or_def
        SymmetricKey_from_slice_def [of "vs_vault_key s"] wrapped_object_def js_get_object js_error_def and_then_def map_err_def
        split: sum.splits prod.splits)
  then show "js_get (byo_vault_rewrap P E R st sid a) ''wrap_iv_b64'' = js_get (byo_wrap_vault_key P E R k a) ''wrap_iv''"
    and "js_get (byo_vault_rewrap P E R st sid a) ''wrapped_key_b64'' = js_get (byo_wrap_vault_key P E R k a) ''wrapped_key''"
    by simp_all
qed

lemma js_get_result_Some:
  "a \<noteq> ''error'' \<Longrightarrow> js_get (js_result f r) a = Some v \<longleftrightarrow> (\<exists>x. r = Inr x \<and> js_get (f x) a = Some v)"
  by (cases r) (simp_all add: js_error_def)

lemma derive_vault_keys_iff:
  assumes "b64_ok E"
  shows "js_get (byo_derive_vault_keys P E pw salt m t p) ''vault_kek'' = Some (JsString (b64_encode E kek)) \<longleftrightarrow>
    (\<exists>sb ao half. b64_decode E salt = Some sb \<and> argon2id_derive_with_params P (as_bytes pw) sb m t p = Inr ao \<and>
       derive_vault_kek P ao = Inr kek \<and> derive_client_kek_half_from_byo P ao = Inr half)"
  unfolding byo_derive_vault_keys_def
  by (auto simp: js_get_result_Some and_then_Inr_conv decode_or_Inr derived_keys_object_def js_get_object b64_inj [OF assms])

lemma unwrap_vault_key_iff:
  assumes "b64_ok E" and "length kek = 32"
  shows "js_get (byo_unwrap_vault_key P E iv w (b64_encode E kek)) ''vault_key'' = Some (JsString (b64_encode E vk)) \<longleftrightarrow>
    (\<exists>ivb wb. b64_decode E iv = Some ivb \<and> length ivb = 12 \<and> b64_decode E w = Some wb \<and> length wb = 48 \<and>
       unwrap_vault_key P ivb wb kek = Inr vk)"
  using assms unfolding byo_unwrap_vault_key_def
  by (auto simp: js_get_result_Some and_then_Inr_conv decode_or_Inr js_get_object b64_inj SymmetricKey_from_slice_def)

lemma opens_with_error [simp]: "\<not> opens_with (js_error e, st) vk"
  by (simp add: opens_with_def)

lemma vault_open_iff:
  "opens_with (byo_vault_open P E pw salt m t p iv w st) vk \<longleftrightarrow>
    (\<exists>sb ao kek half ivb wb. b64_decode E salt = Some sb \<and> argon2id_derive_with_params P (as_bytes pw) sb m t p = Inr ao \<and>
       derive_vault_kek P ao = Inr kek \<and> derive_client_kek_half_from_byo P ao = Inr half \<and>
       b64_decode E iv = Some ivb \<and> length ivb = 12 \<and> b64_decode E w = Some wb \<and> length wb = 48 \<and>
       unwrap_vault_key P ivb wb kek = Inr vk)"
  (is "?l \<longleftrightarrow> ?r")
proof
  assume ?l
  then show ?r
    unfolding byo_vault_open_def
    by (auto simp: session_object_opens_with and_then_Inr_conv decode_or_Inr split: sum.splits)
next
  assume ?r
  then show ?l by (auto simp: byo_vault_open_def decode_or_def session_object_opens_with)
qed

lemma derive_vault_kek_length: "derive_vault_kek P ao = Inr kek \<Longrightarrow> length kek = 32"
  by (auto simp: derive_vault_kek_def and_then_Inr_conv)

text \<open>
   Keeping the vault key in a session changes no result: for a session that holds a 32-byte key,
  encrypting and decrypting the body, checking the header MAC, sealing and unsealing a signing key
  and migrating return exactly what the functions given that key in base64 return; the MAC and the
  rewrapped key are the same under other field names; and opening a session accepts exactly the
  inputs for which deriving the keys and then unwrapping the vault key succeed, with that vault key.
\<close>

theorem session_equals_key_api:
  assumes "b64_ok E" and "vault_sessions st sid = Some s" and "length (vs_vault_key s) = 32" and "k = b64_encode E (vs_vault_key s)"
  shows "byo_vault_encrypt_body P R st sid x = byo_encrypt_vault_body P E R x k \<and>
    byo_vault_decrypt_body P st sid x = byo_decrypt_vault_body P E x k \<and>
    byo_vault_migrate_v1_to_v2 P st sid x = byo_migrate_vault_v1_to_v2 P E x k \<and>
    byo_vault_verify_header_hmac P E st sid a b = byo_verify_header_hmac P E k a b \<and>
    byo_vault_seal_device_signing_key P E st sid a b = byo_seal_device_signing_key P E k a b \<and>
    byo_vault_unseal_device_signing_key P E st sid a b = byo_unseal_device_signing_key P E k a b \<and>
    js_get (byo_vault_compute_header_hmac P E st sid a) ''hmac_b64'' = js_get (byo_compute_header_hmac P E k a) ''hmac'' \<and>
    js_get (byo_vault_rewrap P E R st sid a) ''wrap_iv_b64'' = js_get (byo_wrap_vault_key P E R k a) ''wrap_iv'' \<and>
    js_get (byo_vault_rewrap P E R st sid a) ''wrapped_key_b64'' = js_get (byo_wrap_vault_key P E R k a) ''wrapped_key'' \<and>
    (opens_with (byo_vault_open P E pw salt m t p iv w st') vk \<longleftrightarrow>
      (\<exists>kek. js_get (byo_derive_vault_keys P E pw salt m t p) ''vault_kek'' = Some (JsString (b64_encode E kek)) \<and>
        js_get (byo_unwrap_vault_key P E iv w (b64_encode E kek)) ''vault_key'' = Some (JsString (b64_encode E vk))))"
proof (intro conjI)
  show "opens_with (byo_vault_open P E pw salt m t p iv w st') vk \<longleftrightarrow>
      (\<exists>kek. js_get (byo_derive_vault_keys P E pw salt m t p) ''vault_kek'' = Some (JsString (b64_encode E kek)) \<and>
        js_get (byo_unwrap_vault_key P E iv w (b64_encode E kek)) ''vault_key'' = Some (JsString (b64_encode E vk)))"
    unfolding vault_open_iff derive_vault_keys_iff [OF assms(1)]
    using unwrap_vault_key_iff [OF assms(1) derive_vault_kek_length] by blast
qed (rule session_body_api [OF assms] session_header_api [OF assms] session_hmac_api [OF assms] session_rewrap_api [OF assms])+

theorem session_equals_key_api_witness:
  "let st = \<lparr>vault_sessions = [7 \<mapsto> \<lparr>vs_vault_key = replicate 32 1, vs_client_kek_half = replicate 32 2, vs_kek = None\<rparr>], session_counter = 8\<rparr> in
   byo_vault_encrypt_body toy_prims demo_rand st 7 [1, 2] = byo_encrypt_vault_body toy_prims toy_b64 demo_rand [1, 2] (b64_encode toy_b64 (replicate 32 1))"
  using session_equals_key_api [OF b64_ok_toy, of
      "\<lparr>vault_sessions = [7 \<mapsto> \<lparr>vs_vault_key = replicate 32 1, vs_client_kek_half = replicate 32 2, vs_kek = None\<rparr>], session_counter = 8\<rparr>" 7
      "\<lparr>vs_vault_key = replicate 32 1, vs_client_kek_half = replicate 32 2, vs_kek = None\<rparr>", OF _ _ refl]
  by simp

end
