(* ===== verification/Json_Value.thy ===== *)
theory Json_Value
  imports Wattcloud_Prelude
begin

text \<open>
  JSON values as the code sees them through \<open>serde_json::Value\<close>: the accessors the SFTP relay and
  its client use.  Numbers are integers, or (for anything with a fraction or exponent)
  \<open>f64\<close> values \<open>Float m e\<close> \<open>=\<close> \<open>m * 2^e\<close>.
  Printing and parsing text is the work of the \<open>serde_json\<close> crate: the components take a
  \<open>json_codec\<close> as a parameter, and \<open>codec_ok\<close> states that parsing inverts printing.
\<close>

datatype Value =
    Null
  | Bool bool
  | Number int
  | Float int int
  | String string
  | Array "Value list"
  | Object "(string \<times> Value) list"

fun Value_get :: "string \<Rightarrow> Value \<Rightarrow> Value option" where
  "Value_get key (Object fields) = map_of fields key"
| "Value_get key _ = None"

text \<open>The index expression \<open>v["key"]\<close> yields \<open>Null\<close> for an absent key or a value that is no object.\<close>

definition Value_index :: "Value \<Rightarrow> string \<Rightarrow> Value" where
  "Value_index v key = (case Value_get key v of Some x \<Rightarrow> x | None \<Rightarrow> Null)"

fun as_str :: "Value \<Rightarrow> string option" where
  "as_str (String s) = Some s"
| "as_str _ = None"

fun as_bool :: "Value \<Rightarrow> bool option" where
  "as_bool (Bool b) = Some b"
| "as_bool _ = None"

fun as_u64 :: "Value \<Rightarrow> nat option" where
  "as_u64 (Number n) = (if 0 \<le> n \<and> n < 2 ^ 64 then Some (nat n) else None)"
| "as_u64 _ = None"

fun as_i64 :: "Value \<Rightarrow> int option" where
  "as_i64 (Number n) = (if - (2 ^ 63) \<le> n \<and> n < 2 ^ 63 then Some n else None)"
| "as_i64 _ = None"

fun as_array :: "Value \<Rightarrow> Value list option" where
  "as_array (Array vs) = Some vs"
| "as_array _ = None"

text \<open>The reader of a \<open>u32\<close> field.\<close>

definition u32_of_value :: "Value \<Rightarrow> u32 option" where
  "u32_of_value v = (case v of Number n \<Rightarrow> if 0 \<le> n \<and> n < 2 ^ 32 then Some (word_of_int n) else None | _ \<Rightarrow> None)"

record json_codec =
  json_to_string :: "Value \<Rightarrow> string"
  json_from_str :: "string \<Rightarrow> Value option"

text \<open>
  An object is a \<open>BTreeMap\<close>: its keys are strictly ascending in byte order, the order of the list.
  A struct is written as the object of its fields in that order; the order of the fields in the
  text is not observable by the other side.
\<close>

fun str_lt :: "string \<Rightarrow> string \<Rightarrow> bool" where
  "str_lt [] ys = (ys \<noteq> [])"
| "str_lt (x # xs) [] = False"
| "str_lt (x # xs) (y # ys) = ((of_char x :: nat) < of_char y \<or> x = y \<and> str_lt xs ys)"

fun value_ok :: "Value \<Rightarrow> bool" where
  "value_ok (Number n) \<longleftrightarrow> - (2 ^ 63) \<le> n \<and> n < 2 ^ 64"
| "value_ok (Array vs) \<longleftrightarrow> (\<forall>v\<in>set vs. value_ok v)"
| "value_ok (Object fs) \<longleftrightarrow> sorted_wrt str_lt (map fst fs) \<and> (\<forall>(k, v)\<in>set fs. value_ok v)"
| "value_ok _ \<longleftrightarrow> True"

definition codec_ok :: "json_codec \<Rightarrow> bool" where
  "codec_ok J \<longleftrightarrow> (\<forall>v. value_ok v \<longrightarrow> json_from_str J (json_to_string J v) = Some v)"

lemma codec_okD: "codec_ok J \<Longrightarrow> value_ok v \<Longrightarrow> json_from_str J (json_to_string J v) = Some v"
  by (simp add: codec_ok_def)

subsection \<open>A concrete instance\<close>

text \<open>
  A prefix code, simple enough to compute with, that satisfies \<open>codec_ok\<close>: a list is written as
  its elements, each after the mark \<open>1\<close>, and ended by \<open>0\<close>.
\<close>

fun put_list :: "('a \<Rightarrow> string) \<Rightarrow> 'a list \<Rightarrow> string" where
  "put_list f [] = ''0''"
| "put_list f (x # xs) = CHR ''1'' # f x @ put_list f xs"

lemma put_list_cong [fundef_cong]: "xs = ys \<Longrightarrow> (\<And>x. x \<in> set ys \<Longrightarrow> f x = g x) \<Longrightarrow> put_list f xs = put_list g ys"
  by (induction xs arbitrary: ys) auto

definition put_int :: "int \<Rightarrow> string" where
  "put_int n = (if n < 0 then CHR ''-'' else CHR ''+'') # put_list (\<lambda>c. [c]) (replicate (nat \<bar>n\<bar>) CHR ''1'')"

fun put_value :: "Value \<Rightarrow> string" where
  "put_value Null = ''n''"
| "put_value (Bool b) = (if b then ''t'' else ''f'')"
| "put_value (Number n) = ''i'' @ put_int n"
| "put_value (Float m e) = ''r'' @ put_int m @ put_int e"
| "put_value (String s) = ''s'' @ put_list (\<lambda>c. [c]) s"
| "put_value (Array vs) = ''a'' @ put_list put_value vs"
| "put_value (Object fs) = ''o'' @ put_list (\<lambda>(k, v). put_list (\<lambda>c. [c]) k @ put_value v) fs"

fun take_chars :: "string \<Rightarrow> (string \<times> string) option" where
  "take_chars (m # cs) =
     (if m = CHR ''0'' then Some ([], cs)
      else case cs of [] \<Rightarrow> None | c # cs' \<Rightarrow> map_option (\<lambda>(s, r). (c # s, r)) (take_chars cs'))"
| "take_chars [] = None"

fun take_int :: "string \<Rightarrow> (int \<times> string) option" where
  "take_int [] = None"
| "take_int (m # cs) = map_option (\<lambda>(s, r). (if m = CHR ''-'' then - int (length s) else int (length s), r)) (take_chars cs)"

primrec take_list :: "nat \<Rightarrow> (string \<Rightarrow> ('a \<times> string) option) \<Rightarrow> string \<Rightarrow> ('a list \<times> string) option" where
  "take_list 0 g cs = None"
| "take_list (Suc n) g cs =
     (case cs of
        [] \<Rightarrow> None
      | m # cs1 \<Rightarrow>
          if m = CHR ''0'' then Some ([], cs1)
          else Option.bind (g cs1) (\<lambda>(x, cs2). map_option (\<lambda>(xs, r). (x # xs, r)) (take_list n g cs2)))"

primrec take_value :: "nat \<Rightarrow> string \<Rightarrow> (Value \<times> string) option" where
  "take_value 0 cs = None"
| "take_value (Suc n) cs =
     (case cs of
        [] \<Rightarrow> None
      | m # cs1 \<Rightarrow>
          if m = CHR ''n'' then Some (Null, cs1)
          else if m = CHR ''t'' then Some (Bool True, cs1)
          else if m = CHR ''f'' then Some (Bool False, cs1)
          else if m = CHR ''i'' then map_option (\<lambda>(k, r). (Number k, r)) (take_int cs1)
          else if m = CHR ''r'' then
            Option.bind (take_int cs1) (\<lambda>(a, r1). map_option (\<lambda>(b, r2). (Float a b, r2)) (take_int r1))
          else if m = CHR ''s'' then map_option (\<lambda>(s, r). (String s, r)) (take_chars cs1)
          else if m = CHR ''a'' then map_option (\<lambda>(vs, r). (Array vs, r)) (take_list n (take_value n) cs1)
          else map_option (\<lambda>(fs, r). (Object fs, r))
                 (take_list n (\<lambda>cs. Option.bind (take_chars cs) (\<lambda>(k, r1). map_option (\<lambda>(v, r2). ((k, v), r2)) (take_value n r1))) cs1))"

lemma take_chars_put: "take_chars (put_list (\<lambda>c. [c]) s @ r) = Some (s, r)"
  by (induction s) auto

lemma take_int_put: "take_int (put_int n @ r) = Some (n, r)"
  by (simp add: put_int_def take_chars_put)

lemma take_list_put:
  assumes "\<And>x r. x \<in> set xs \<Longrightarrow> g (f x @ r) = Some (x, r)" and "length xs < n"
  shows "take_list n g (put_list f xs @ r) = Some (xs, r)"
  using assms
proof (induction xs arbitrary: n)
  case Nil
  then show ?case by (cases n) auto
next
  case (Cons x xs)
  then obtain m where "n = Suc m" "length xs < m" by (cases n) auto
  with Cons show ?case by simp
qed

lemma put_list_length: "length xs < length (put_list f xs)" "x \<in> set xs \<Longrightarrow> length (f x) < length (put_list f xs)"
  by (induction xs) auto

text \<open>The length of the text is fuel enough to read a value back.\<close>

lemma take_value_put: "length (put_value v) \<le> n \<Longrightarrow> take_value n (put_value v @ r) = Some (v, r)"
proof (induction v arbitrary: n r rule: put_value.induct)
  case 1
  then show ?case by (cases n) simp_all
next
  case (2 b)
  then show ?case by (cases n; cases b) simp_all
next
  case (3 k)
  then show ?case by (cases n) (simp_all add: take_int_put)
next
  case (4 a b)
  then show ?case by (cases n) (simp_all add: take_int_put)
next
  case (5 s)
  then show ?case by (cases n) (simp_all add: take_chars_put)
next
  case (6 vs)
  then obtain m where n: "n = Suc m" "length (put_list put_value vs) \<le> m" by (cases n) auto
  then have "take_list m (take_value m) (put_list put_value vs @ r) = Some (vs, r)"
    using 6(1) put_list_length [where xs = vs and f = put_value] by (intro take_list_put) fastforce+
  then show ?case by (simp add: n)
next
  case (7 fs)
  let ?f = "\<lambda>(k, v). put_list (\<lambda>c. [c]) k @ put_value v"
  obtain m where n: "n = Suc m" "length (put_list ?f fs) \<le> m" using 7(2) by (cases n) auto
  let ?g = "\<lambda>cs. Option.bind (take_chars cs) (\<lambda>(k, r1). map_option (\<lambda>(v, r2). ((k, v), r2)) (take_value m r1))"
  have g: "?g (?f kv @ r) = Some (kv, r)" if kv: "kv \<in> set fs" for kv r
  proof -
    obtain k v where [simp]: "kv = (k, v)" by fastforce
    have "length (put_value v) \<le> m" using put_list_length(2) [OF kv, of ?f] n by simp
    then have "take_value m (put_value v @ r) = Some (v, r)" using 7(1) [OF kv] by simp
    then show ?thesis by (simp add: take_chars_put)
  qed
  have "length fs < m" using put_list_length(1) [where xs = fs and f = ?f] n by simp
  then have "take_list m ?g (put_list ?f fs @ r) = Some (fs, r)" using g by (intro take_list_put)
  then show ?case by (simp add: n)
qed

definition toy_codec :: json_codec where
  "toy_codec = \<lparr>json_to_string = put_value,
     json_from_str = (\<lambda>s. case take_value (Suc (length s)) s of Some (v, []) \<Rightarrow> Some v | _ \<Rightarrow> None)\<rparr>"


lemma codec_ok_toy: "codec_ok toy_codec"
proof -
  have "take_value (Suc (length (put_value v))) (put_value v) = Some (v, [])" for v
    using take_value_put [of v "Suc (length (put_value v))" "[]"] by (simp del: take_value.simps)
  then show ?thesis by (simp add: codec_ok_def toy_codec_def del: take_value.simps)
qed

end
