(* ===== verification/Multi_Vault.thy ===== *)
theory Multi_Vault
  imports Json_Value
begin

text \<open>
  Several vaults at once (\<open>sdk-core/src/byo\<close>): the plans for unlocking and saving (\<open>multi_vault.rs\<close>), the plan
  of a move between two providers, the journalled form of its steps and the decisions of its recovery after a
  crash (\<open>cross_provider_move\<close>).  All of it is pure: the host executes the plans.
\<close>

subsection \<open>Unlock and save plans\<close>

datatype VaultBodySource = Cloud | Cache

record UnlockStep =
  us_provider_id :: string
  us_source :: VaultBodySource
  us_is_primary :: bool

record UnlockPlan =
  vault_steps :: "UnlockStep list"
  manifest_sync_targets :: "string list"
  fail_closed :: bool

definition unlock_step :: "string list \<Rightarrow> string list \<Rightarrow> string \<Rightarrow> string \<Rightarrow> UnlockStep option" where
  "unlock_step online cached primary_id pid =
     map_option (\<lambda>source. \<lparr>us_provider_id = pid, us_source = source, us_is_primary = (pid = primary_id)\<rparr>)
       (if pid \<in> set online then Some Cloud else if pid \<in> set cached then Some Cache else None)"

definition UnlockPlan_build :: "string list \<Rightarrow> string list \<Rightarrow> string list \<Rightarrow> string \<Rightarrow> string list \<Rightarrow> UnlockPlan" where
  "UnlockPlan_build provider_ids online_ids cached_ids primary_id sync_targets =
     (let steps = List.map_filter (unlock_step online_ids cached_ids primary_id) provider_ids in
      \<lparr>vault_steps = steps, manifest_sync_targets = sync_targets,
       fail_closed = (steps = [] \<and> provider_ids \<noteq> [])\<rparr>)"

definition available_provider_ids :: "UnlockPlan \<Rightarrow> string list" where
  "available_provider_ids plan = map us_provider_id (vault_steps plan)"

definition read_only_provider_ids :: "UnlockPlan \<Rightarrow> string list" where
  "read_only_provider_ids plan = map us_provider_id (filter (\<lambda>s. us_source s = Cache) (vault_steps plan))"

record SavePlan =
  vault_uploads :: "string list"
  manifest_upload_targets :: "string list"

definition SavePlan_build :: "string list \<Rightarrow> string list \<Rightarrow> SavePlan" where
  "SavePlan_build dirty_provider_ids online_ids =
     \<lparr>vault_uploads = filter (\<lambda>pid. pid \<in> set online_ids) dirty_provider_ids, manifest_upload_targets = online_ids\<rparr>"

lemma available_provider_ids_eq:
  "available_provider_ids (UnlockPlan_build ps online cached prim sync) = filter (\<lambda>p. p \<in> set online \<or> p \<in> set cached) ps"
  by (induction ps) (auto simp: UnlockPlan_build_def available_provider_ids_def unlock_step_def Let_def List.map_filter_simps)

lemma read_only_provider_ids_eq:
  "read_only_provider_ids (UnlockPlan_build ps online cached prim sync) = filter (\<lambda>p. p \<notin> set online \<and> p \<in> set cached) ps"
  by (induction ps) (auto simp: UnlockPlan_build_def read_only_provider_ids_def unlock_step_def Let_def List.map_filter_simps)

lemma fail_closed_iff:
  "fail_closed (UnlockPlan_build ps online cached prim sync) \<longleftrightarrow> ps \<noteq> [] \<and> set ps \<inter> (set online \<union> set cached) = {}"
proof -
  have "List.map_filter (unlock_step online cached prim) ps = [] \<longleftrightarrow> (\<forall>p\<in>set ps. p \<notin> set online \<and> p \<notin> set cached)"
    by (induction ps) (auto simp: List.map_filter_simps unlock_step_def split: option.splits)
  then show ?thesis by (auto simp: UnlockPlan_build_def Let_def)
qed

text \<open>
  What is written is what was unlocked from the cloud: a vault unlocked from the cache is never
  uploaded while its provider stays offline, so a stale body cannot overwrite the provider's.
\<close>

lemma save_disjoint_read_only:
  "set (vault_uploads (SavePlan_build dirty online)) \<inter>
     set (read_only_provider_ids (UnlockPlan_build ps online cached prim sync)) = {}"
  by (auto simp: SavePlan_build_def read_only_provider_ids_eq)

subsection \<open>Share revocations\<close>

record ShareRevokeStep =
  rv_share_id :: string
  rv_variant :: string
  rv_provider_id :: string
  rv_provider_ref :: string
  rv_owner_token :: "string option"

record MoveShareRow = ShareRevokeStep +
  sr_file_id :: nat
  sr_revoked :: bool

definition plan_share_revocations :: "nat list \<Rightarrow> MoveShareRow list \<Rightarrow> ShareRevokeStep list" where
  "plan_share_revocations file_ids share_rows =
     map ShareRevokeStep.truncate (filter (\<lambda>r. \<not> sr_revoked r \<and> sr_file_id r \<in> set file_ids) share_rows)"

subsection \<open>Move plans\<close>

datatype MoveStep =
    DownloadSourceBlob string string
  | UploadDestBlob string
  | InsertDestVaultRow string "nat option"
  | DeleteSourceBlob string string
  | DeleteSourceVaultRow string nat

record CrossProviderMovePlan =
  mp_file_id :: nat
  pre_revokes :: "ShareRevokeStep list"
  mp_steps :: "MoveStep list"
  source_provider_ref :: string
  mp_description :: string

definition CrossProviderMovePlan_build ::
  "nat \<Rightarrow> string \<Rightarrow> string \<Rightarrow> string \<Rightarrow> nat option \<Rightarrow> string \<Rightarrow> ShareRevokeStep list \<Rightarrow> CrossProviderMovePlan" where
  "CrossProviderMovePlan_build file_id src_ref src dst dest_folder_id display revokes =
     \<lparr>mp_file_id = file_id, pre_revokes = revokes,
      mp_steps = [DownloadSourceBlob src src_ref, UploadDestBlob dst, InsertDestVaultRow dst dest_folder_id,
                  DeleteSourceBlob src src_ref, DeleteSourceVaultRow src file_id],
      source_provider_ref = src_ref,
      mp_description = ''Move '' @ [CHR 0x27] @ display @ [CHR 0x27] @ '' from '' @ src @ '' to '' @ dst\<rparr>"

record FolderCreateStep =
  fc_provider_id :: string
  fc_parent_folder_id :: "nat option"
  fc_name_encrypted_hint :: string

record CrossProviderFolderMovePlan =
  folder_creates :: "FolderCreateStep list"
  file_moves :: "CrossProviderMovePlan list"
  source_folder_deletes :: "nat list"
  fm_src_provider_id :: string
  fm_dst_provider_id :: string

definition CrossProviderFolderMovePlan_build ::
  "string \<Rightarrow> string \<Rightarrow> nat list \<Rightarrow> (nat \<times> string \<times> nat option \<times> string) list \<Rightarrow> FolderCreateStep list \<Rightarrow> CrossProviderFolderMovePlan" where
  "CrossProviderFolderMovePlan_build src dst folder_ids_bfs files creates =
     \<lparr>folder_creates = creates,
      file_moves = map (\<lambda>(fid, pref, dest_folder, name). CrossProviderMovePlan_build fid pref src dst dest_folder name []) files,
      source_folder_deletes = rev folder_ids_bfs, fm_src_provider_id = src, fm_dst_provider_id = dst\<rparr>"

definition total_items :: "CrossProviderFolderMovePlan \<Rightarrow> nat" where
  "total_items p = length (folder_creates p) + length (file_moves p) + length (source_folder_deletes p)"

lemma total_items_build: "total_items (CrossProviderFolderMovePlan_build src dst folders files creates) = length creates + length files + length folders"
  by (simp add: total_items_def CrossProviderFolderMovePlan_build_def)

text \<open>
  Leaves first: with parents before their children in the breadth-first list, every folder is
  deleted after all its subfolders.
\<close>

lemma folder_deletes_leaves_first:
  assumes "sorted_wrt (\<lambda>a b. parent a \<noteq> Some b) bfs"
  shows "sorted_wrt (\<lambda>a b. parent b \<noteq> Some a) (source_folder_deletes (CrossProviderFolderMovePlan_build src dst bfs files creates))"
  using assms by (simp add: CrossProviderFolderMovePlan_build_def sorted_wrt_rev)

subsection \<open>The journalled form of a step\<close>

definition opt_u64_value :: "nat option \<Rightarrow> Value" where
  "opt_u64_value o' = (case o' of None \<Rightarrow> Null | Some n \<Rightarrow> Number (int n))"

fun MoveStep_value :: "MoveStep \<Rightarrow> Value" where
  "MoveStep_value (DownloadSourceBlob p r) = Object [(''DownloadSourceBlob'', Object [(''provider_id'', String p), (''provider_ref'', String r)])]"
| "MoveStep_value (UploadDestBlob p) = Object [(''UploadDestBlob'', Object [(''provider_id'', String p)])]"
| "MoveStep_value (InsertDestVaultRow p f) =
     Object [(''InsertDestVaultRow'', Object [(''dest_folder_id'', opt_u64_value f), (''provider_id'', String p)])]"
| "MoveStep_value (DeleteSourceBlob p r) = Object [(''DeleteSourceBlob'', Object [(''provider_id'', String p), (''provider_ref'', String r)])]"
| "MoveStep_value (DeleteSourceVaultRow p f) =
     Object [(''DeleteSourceVaultRow'', Object [(''file_id'', Number (int f)), (''provider_id'', String p)])]"

definition str_of :: "string \<Rightarrow> Value \<Rightarrow> string option" where
  "str_of k v = Option.bind (Value_get k v) as_str"

definition u64_of :: "string \<Rightarrow> Value \<Rightarrow> nat option" where
  "u64_of k v = Option.bind (Value_get k v) as_u64"

text \<open>A missing field of type \<open>Option<u64>\<close> is \<open>None\<close>, as is \<open>null\<close>.\<close>

definition opt_u64_of :: "string \<Rightarrow> Value \<Rightarrow> nat option option" where
  "opt_u64_of k v = (case Value_get k v of None \<Rightarrow> Some None | Some Null \<Rightarrow> Some None | Some x \<Rightarrow> map_option Some (as_u64 x))"

definition MoveStep_of_fields :: "string \<Rightarrow> Value \<Rightarrow> MoveStep option" where
  "MoveStep_of_fields tag b =
     (if tag = ''DownloadSourceBlob'' then
        Option.bind (str_of ''provider_id'' b) (\<lambda>p. map_option (DownloadSourceBlob p) (str_of ''provider_ref'' b))
      else if tag = ''UploadDestBlob'' then map_option UploadDestBlob (str_of ''provider_id'' b)
      else if tag = ''InsertDestVaultRow'' then
        Option.bind (str_of ''provider_id'' b) (\<lambda>p. map_option (InsertDestVaultRow p) (opt_u64_of ''dest_folder_id'' b))
      else if tag = ''DeleteSourceBlob'' then
        Option.bind (str_of ''provider_id'' b) (\<lambda>p. map_option (DeleteSourceBlob p) (str_of ''provider_ref'' b))
      else if tag = ''DeleteSourceVaultRow'' then
        Option.bind (str_of ''provider_id'' b) (\<lambda>p. map_option (DeleteSourceVaultRow p) (u64_of ''file_id'' b))
      else None)"

fun MoveStep_of_value :: "Value \<Rightarrow> MoveStep option" where
  "MoveStep_of_value (Object [(tag, b)]) = MoveStep_of_fields tag b"
| "MoveStep_of_value v = None"

definition to_wal_entry :: "json_codec \<Rightarrow> MoveStep \<Rightarrow> bytes" where
  "to_wal_entry J s = as_bytes (json_to_string J (MoveStep_value s))"

definition from_wal_entry :: "json_codec \<Rightarrow> bytes \<Rightarrow> MoveStep option" where
  "from_wal_entry J bs = Option.bind (json_from_str J (of_bytes bs)) MoveStep_of_value"

fun step_ok :: "MoveStep \<Rightarrow> bool" where
  "step_ok (InsertDestVaultRow p (Some f)) \<longleftrightarrow> f < 2 ^ 64"
| "step_ok (DeleteSourceVaultRow p f) \<longleftrightarrow> f < 2 ^ 64"
| "step_ok _ \<longleftrightarrow> True"

lemma str_lt_keys:
  "str_lt ''provider_id'' ''provider_ref''" "str_lt ''dest_folder_id'' ''provider_id''" "str_lt ''file_id'' ''provider_id''"
  by code_simp+

lemma MoveStep_of_value_value: "step_ok s \<Longrightarrow> MoveStep_of_value (MoveStep_value s) = Some s"
  by (cases s rule: step_ok.cases)
    (simp_all add: MoveStep_of_fields_def str_of_def u64_of_def opt_u64_of_def opt_u64_value_def)

lemma MoveStep_value_ok: "step_ok s \<Longrightarrow> value_ok (MoveStep_value s)"
  by (cases s rule: step_ok.cases) (simp_all add: str_lt_keys opt_u64_value_def)

lemma wal_entry_roundtrip:
  assumes "codec_ok J" and "step_ok s"
  shows "from_wal_entry J (to_wal_entry J s) = Some s"
  using assms
  by (simp add: from_wal_entry_def to_wal_entry_def of_bytes_as_bytes codec_okD MoveStep_value_ok MoveStep_of_value_value)

subsection \<open>Recovery after a crash\<close>

datatype ReplayDecision = Skip | Retry string string | Abort

fun decide_replay :: "MoveStep \<Rightarrow> bool \<Rightarrow> bool option \<Rightarrow> ReplayDecision" where
  "decide_replay (DeleteSourceBlob p r) dst_file_exists src_blob_exists =
     (if \<not> dst_file_exists then Abort
      else case src_blob_exists of Some False \<Rightarrow> Skip | _ \<Rightarrow> Retry p r)"
| "decide_replay _ dst_file_exists src_blob_exists = Abort"

datatype ReconcileAction = DeleteBlob string string

definition plan_reconcile :: "MoveStep list \<Rightarrow> bool \<Rightarrow> bool option \<Rightarrow> ReconcileAction list" where
  "plan_reconcile pending dst_file_exists src_blob_exists =
     List.map_filter (\<lambda>s. case decide_replay s dst_file_exists src_blob_exists of Retry p r \<Rightarrow> Some (DeleteBlob p r) | _ \<Rightarrow> None) pending"

lemma set_map_filter: "y \<in> set (List.map_filter f xs) \<longleftrightarrow> (\<exists>x\<in>set xs. f x = Some y)"
  by (induction xs) (auto simp: List.map_filter_simps split: option.splits)

lemma plan_reconcile_deletes:
  "DeleteBlob p r \<in> set (plan_reconcile pending d report) \<longleftrightarrow>
     d \<and> report \<noteq> Some False \<and> DeleteSourceBlob p r \<in> set pending"
proof -
  have "(case decide_replay s d report of Retry p r \<Rightarrow> Some (DeleteBlob p r) | _ \<Rightarrow> None) = Some (DeleteBlob p r) \<longleftrightarrow>
      d \<and> report \<noteq> Some False \<and> s = DeleteSourceBlob p r" for s
    by (cases s; cases report) (auto split: if_splits bool.splits ReplayDecision.splits)
  then show ?thesis by (auto simp: plan_reconcile_def set_map_filter)
qed

text \<open>Reconciliation, said on the journal: the pending deletions in their order, or nothing.\<close>

fun deletion :: "MoveStep \<Rightarrow> ReconcileAction option" where
  "deletion (DeleteSourceBlob p r) = Some (DeleteBlob p r)"
| "deletion _ = None"

lemma plan_reconcile_eq:
  "plan_reconcile pending committed report =
     (if committed \<and> report \<noteq> Some False then List.map_filter deletion pending else [])"
proof -
  have "(\<lambda>s. case decide_replay s committed report of Retry p r \<Rightarrow> Some (DeleteBlob p r) | _ \<Rightarrow> None) =
      (if committed \<and> report \<noteq> Some False then deletion else (\<lambda>s. None))" (is "?act = _")
  proof
    show "?act s = (if committed \<and> report \<noteq> Some False then deletion else (\<lambda>s. None)) s" for s
      by (cases s) (auto split: option.splits bool.splits)
  qed
  moreover have "List.map_filter (\<lambda>s. None) pending = []" by (induction pending) (simp_all add: List.map_filter_simps)
  ultimately show ?thesis unfolding plan_reconcile_def by (simp split: if_splits)
qed

text \<open>
  In a plan nothing of the source is deleted before the row at the destination is written, which
  comes after the upload, and the deletions name the source only.
\<close>

lemma plan_deletes_last:
  assumes "steps = mp_steps (CrossProviderMovePlan_build file_id src_ref src dst folder name revokes)"
    and "k < length steps" and "steps ! k = DeleteSourceBlob p r \<or> steps ! k = DeleteSourceVaultRow p f"
  shows "p = src \<and> (\<exists>i<k. steps ! i = InsertDestVaultRow dst folder \<and> (\<exists>j<i. steps ! j = UploadDestBlob dst))"
proof -
  have "k \<in> {0, 1, 2, 3, 4}" using assms(1,2) by (auto simp: CrossProviderMovePlan_build_def)
  then have "k \<in> {3, 4} \<and> p = src" using assms(1,3) by (auto simp: CrossProviderMovePlan_build_def)
  then show ?thesis
    by (intro conjI exI [of _ 2] exI [of _ 1]) (auto simp: assms(1) CrossProviderMovePlan_build_def)
qed

text \<open>
  The flag of \<open>plan_reconcile\<close> stands for one file: with the pending deletions of two files in one
  call, the row of the first lets the only copy of the second be deleted.  The host asks for each
  entry with its own flag.
\<close>

lemma plan_reconcile_shared_flag:
  "DeleteBlob p r \<in> set (plan_reconcile [DeleteSourceBlob q s, DeleteSourceBlob p r] True None)"
  by (simp add: plan_reconcile_deletes)

end
