(* ===== verification/Vault_Sync.thy ===== *)
theory Vault_Sync
  imports Json_Value Complex_Main
begin

text \<open>
  The merge of table rows after a conflict (\<open>sdk-core/src/byo/merge_rows.rs\<close>) and the backoff of the
  liveness probes (\<open>sdk-core/src/byo/offline_monitor.rs\<close>).  Both compute with \<open>f64\<close>: a value is the dyadic
  number \<open>m * 2^e\<close> of a pair, and the conversion of an integer rounds to 53 significant bits, ties
  to even.
\<close>

subsection \<open>Doubles\<close>

type_synonym f64 = "int \<times> int"

fun bit_length :: "nat \<Rightarrow> nat" where
  "bit_length n = (if n = 0 then 0 else Suc (bit_length (n div 2)))"

declare bit_length.simps [simp del]

definition round53 :: "nat \<Rightarrow> nat" where
  "round53 n =
     (let k = bit_length n - 53; q = n div 2 ^ k; r = n mod 2 ^ k; half = 2 ^ (k - 1) in
      if k = 0 then n
      else if r > half \<or> r = half \<and> odd q then (q + 1) * 2 ^ k
      else q * 2 ^ k)"

definition f64_of_int :: "int \<Rightarrow> f64" where
  "f64_of_int n = (if n < 0 then - int (round53 (nat (- n))) else int (round53 (nat n)), 0)"

definition f64_less :: "f64 \<Rightarrow> f64 \<Rightarrow> bool" where
  "f64_less x y =
     (let k = min (snd x) (snd y) in fst x * 2 ^ nat (snd x - k) < fst y * 2 ^ nat (snd y - k))"

lemma bit_length_le: "bit_length n \<le> k \<longleftrightarrow> n < 2 ^ k"
proof (induction k arbitrary: n)
  case 0 then show ?case by (subst bit_length.simps) simp
next
  case (Suc k)
  show ?case
  proof (cases "n = 0")
    case False
    then have "bit_length n \<le> Suc k \<longleftrightarrow> n div 2 < 2 ^ k" by (subst bit_length.simps) (simp add: Suc.IH)
    then show ?thesis by auto
  qed (simp add: bit_length.simps)
qed

lemma round53_exact: "n < 2 ^ 53 \<Longrightarrow> round53 n = n"
  using bit_length_le [of n 53] by (simp add: round53_def)

lemma f64_less_irrefl [simp]: "\<not> f64_less x x"
  by (simp add: f64_less_def Let_def)


lemma f64_less_int: "\<bar>a\<bar> < 2 ^ 53 \<Longrightarrow> \<bar>b\<bar> < 2 ^ 53 \<Longrightarrow> f64_less (f64_of_int a) (f64_of_int b) \<longleftrightarrow> a < b"
proof -
  assume "\<bar>a\<bar> < 2 ^ 53" "\<bar>b\<bar> < 2 ^ 53"
  then have "nat \<bar>a\<bar> < 2 ^ 53" "nat \<bar>b\<bar> < 2 ^ 53" by (simp_all add: nat_less_iff)
  then show ?thesis by (auto simp: f64_less_def f64_of_int_def round53_exact)
qed

subsection \<open>Row merge\<close>

fun as_f64 :: "Value \<Rightarrow> f64 option" where
  "as_f64 (Number n) = Some (f64_of_int n)"
| "as_f64 (Float m e) = Some (m, e)"
| "as_f64 _ = None"

datatype MergeOp = Insert Value | Update Value | MSkip

definition extract_id :: "Value \<Rightarrow> int option" where
  "extract_id row = Option.bind (Value_get ''id'' row) as_i64"

text \<open>\<open>as_str().unwrap_or("")\<close>.\<close>

definition str_or_empty :: "Value \<Rightarrow> string" where
  "str_or_empty v = (case as_str v of Some s \<Rightarrow> s | None \<Rightarrow> [])"

fun row_newer_fields :: "string list \<Rightarrow> Value \<Rightarrow> Value \<Rightarrow> bool" where
  "row_newer_fields [] remote local = False"
| "row_newer_fields (field # rest) remote local =
     (case (Value_get field remote, Value_get field local) of
        (Some rv, Some lv) \<Rightarrow>
          (case (as_f64 rv, as_f64 lv) of
             (Some r_num, Some l_num) \<Rightarrow> f64_less l_num r_num
           | _ \<Rightarrow>
             (let rs = str_or_empty rv; ls = str_or_empty lv in
              if ls = [] then row_newer_fields rest remote local
              else if rs \<noteq> [] then str_lt ls rs
              else row_newer_fields rest remote local))
      | _ \<Rightarrow> row_newer_fields rest remote local)"

definition row_newer :: "Value \<Rightarrow> Value \<Rightarrow> bool" where
  "row_newer remote local = row_newer_fields [''updated_at'', ''created_at''] remote local"

definition local_row :: "Value list \<Rightarrow> Value \<Rightarrow> Value option" where
  "local_row local_rows remote =
     Option.bind (extract_id remote) (\<lambda>i. find (\<lambda>r. extract_id r = Some i) local_rows)"

definition merge_op :: "Value list \<Rightarrow> bool \<Rightarrow> Value \<Rightarrow> MergeOp" where
  "merge_op local_rows is_key_versions remote =
     (case local_row local_rows remote of
        None \<Rightarrow> Insert remote
      | Some l \<Rightarrow> if is_key_versions then MSkip else if row_newer remote l then Update remote else MSkip)"

definition merge_rows :: "Value list \<Rightarrow> Value list \<Rightarrow> bool \<Rightarrow> MergeOp list" where
  "merge_rows local_rows remote_rows is_key_versions = map (merge_op local_rows is_key_versions) remote_rows"

lemma str_lt_irrefl [simp]: "\<not> str_lt s s"
  by (induction s) auto

lemma str_lt_Nil [simp]: "\<not> str_lt s []"
  by (cases s) simp_all


lemma row_newer_fields_irrefl: "\<not> row_newer_fields fs r r"
  by (induction fs) (auto simp: Let_def split: option.splits)

lemma row_newer_irrefl [simp]: "\<not> row_newer r r"
  by (simp add: row_newer_def row_newer_fields_irrefl)






















text \<open>
  A remote row without a readable number is inserted again by every merge.
\<close>

lemma merge_without_id: "extract_id r = None \<Longrightarrow> merge_rows ls [r] kv = [Insert r]"
  by (simp add: merge_rows_def merge_op_def local_row_def)

subsection \<open>Liveness probes\<close>

datatype ProviderStatus = Connected | Offline

record ProviderMonitor =
  pm_fail_count :: u32
  pm_status :: ProviderStatus

definition ProviderMonitor_new :: ProviderMonitor where
  "ProviderMonitor_new = \<lparr>pm_fail_count = 0, pm_status = Connected\<rparr>"

definition ProviderMonitor_record_success :: "ProviderMonitor \<Rightarrow> bool \<times> ProviderMonitor" where
  "ProviderMonitor_record_success m =
     (let m = m\<lparr>pm_fail_count := 0\<rparr> in
      if pm_status m = Offline then (True, m\<lparr>pm_status := Connected\<rparr>) else (False, m))"

definition sat_add32 :: "u32 \<Rightarrow> u32 \<Rightarrow> u32" where
  "sat_add32 a b = (if unat a + unat b < 2 ^ 32 then a + b else - 1)"

definition ProviderMonitor_record_failure :: "ProviderMonitor \<Rightarrow> bool \<times> ProviderMonitor" where
  "ProviderMonitor_record_failure m =
     (let m = m\<lparr>pm_fail_count := sat_add32 (pm_fail_count m) 1\<rparr> in
      if pm_status m = Connected then (True, m\<lparr>pm_status := Offline\<rparr>) else (False, m))"

text \<open>
  \<open>1.5.powi(e)\<close> is \<open>3^e / 2^e\<close> exactly for exponents up to six; the product is rounded, the cast to
  \<open>u64\<close> truncates and saturates.
\<close>

definition ProviderMonitor_next_interval_ms :: "ProviderMonitor \<Rightarrow> nat \<Rightarrow> nat \<Rightarrow> nat" where
  "ProviderMonitor_next_interval_ms m base_ms max_ms =
     (let exponent = min (unat (pm_fail_count m)) 6;
          interval = min u64_max (round53 (round53 base_ms * 3 ^ exponent) div 2 ^ exponent) in
      min interval max_ms)"

definition probe :: "bool \<Rightarrow> ProviderMonitor \<Rightarrow> bool \<times> ProviderMonitor" where
  "probe success m = (if success then ProviderMonitor_record_success m else ProviderMonitor_record_failure m)"

definition probes :: "bool list \<Rightarrow> ProviderMonitor" where
  "probes rs = fold (\<lambda>r m. snd (probe r m)) rs ProviderMonitor_new"

text \<open>The number of failures at the end of a history.\<close>

definition trailing_failures :: "bool list \<Rightarrow> nat" where
  "trailing_failures rs = length (takeWhile Not (rev rs))"

lemma probes_snoc [simp]: "probes (rs @ [r]) = snd (probe r (probes rs))"
  by (simp add: probes_def)

lemma trailing_snoc [simp]: "trailing_failures (rs @ [r]) = (if r then 0 else Suc (trailing_failures rs))"
  by (simp add: trailing_failures_def)

lemma unat_sat_add32: "unat (sat_add32 a 1) = min (Suc (unat a)) (2 ^ 32 - 1)"
proof -
  have "unat (a + 1) = Suc (unat a)" if "unat a + 1 < 2 ^ 32"
    using that by (simp add: unat_word_ariths)
  moreover have "unat a < 2 ^ 32" using unsigned_less [of a] by simp
  ultimately show ?thesis by (auto simp: sat_add32_def unsigned_minus_1_eq_mask mask_eq_exp_minus_1)
qed

lemma probes_state:
  "pm_status (probes rs) = (if rs = [] \<or> last rs then Connected else Offline) \<and>
   unat (pm_fail_count (probes rs)) = min (trailing_failures rs) (2 ^ 32 - 1)"
proof (induction rs rule: rev_induct)
  case Nil
  show ?case by (simp add: probes_def ProviderMonitor_new_def trailing_failures_def)
next
  case (snoc r rs)
  show ?case
    using snoc by (auto simp: probe_def ProviderMonitor_record_success_def ProviderMonitor_record_failure_def Let_def unat_sat_add32 min_def)
qed

text \<open>
  After any history of probes the monitor is connected exactly if the last probe succeeded, a
  probe reports a change exactly if it changes the status, and the next probe follows after the base
  interval times one and a half to the number of trailing failures, up to six, cut off at the
  maximum.  The intervals never shrink while failures go on.
\<close>

theorem monitor_backoff:
  assumes "base \<le> 2 ^ 43"
  shows "(pm_status (probes rs) = Connected \<longleftrightarrow> rs = [] \<or> last rs) \<and>
    (fst (probe r (probes rs)) \<longleftrightarrow> pm_status (probes (rs @ [r])) \<noteq> pm_status (probes rs)) \<and>
    ProviderMonitor_next_interval_ms (probes rs) base mx =
      min (base * 3 ^ min (trailing_failures rs) 6 div 2 ^ min (trailing_failures rs) 6) mx \<and>
    ProviderMonitor_next_interval_ms (probes rs) base mx \<le> ProviderMonitor_next_interval_ms (probes (rs @ [False])) base mx"
proof -
  have next_eq: "ProviderMonitor_next_interval_ms (probes rs) base mx =
      min (base * 3 ^ min (trailing_failures rs) 6 div 2 ^ min (trailing_failures rs) 6) mx" for rs
  proof -
    let ?e = "min (trailing_failures rs) 6"
    have e: "min (unat (pm_fail_count (probes rs))) 6 = ?e" using probes_state [of rs] by simp
    have "base * 3 ^ ?e \<le> 2 ^ 43 * 3 ^ 6"
      using assms by (intro mult_mono power_increasing) simp_all
    then have small: "base * 3 ^ ?e < 2 ^ 53" by simp
    have b: "base < 2 ^ 53" using assms by simp
    have "base * 3 ^ ?e div 2 ^ ?e \<le> u64_max"
      using small by (intro order.trans [OF div_le_dividend]) simp
    then have "min u64_max (base * 3 ^ ?e div 2 ^ ?e) = base * 3 ^ ?e div 2 ^ ?e" by (rule min_absorb2)
    then show ?thesis
      unfolding ProviderMonitor_next_interval_ms_def Let_def e round53_exact [OF b] round53_exact [OF small] by simp
  qed
  have mono: "base * 3 ^ e div 2 ^ e \<le> base * 3 ^ Suc e div 2 ^ Suc e" for e
  proof -
    have "base * 3 ^ e div 2 ^ e = base * 3 ^ e * 2 div (2 ^ e * 2)" by (rule div_mult_mult2 [symmetric]) simp
    also have "\<dots> \<le> base * 3 ^ e * 3 div (2 ^ e * 2)" by (rule div_le_mono) simp
    finally show ?thesis by (simp add: ac_simps)
  qed
  have "ProviderMonitor_next_interval_ms (probes rs) base mx \<le> ProviderMonitor_next_interval_ms (probes (rs @ [False])) base mx"
  proof (cases "trailing_failures rs < 6")
    case True
    then have "min (trailing_failures rs) 6 = trailing_failures rs" "min (Suc (trailing_failures rs)) 6 = Suc (trailing_failures rs)" by simp_all
    then show ?thesis using mono [of "trailing_failures rs"] unfolding next_eq trailing_snoc if_False by (simp add: min.coboundedI1)
  qed (simp del: probes_snoc add: next_eq min_def)
  moreover have "fst (probe r (probes rs)) \<longleftrightarrow> pm_status (probes (rs @ [r])) \<noteq> pm_status (probes rs)"
    by (cases "pm_status (probes rs)")
      (auto simp: probe_def ProviderMonitor_record_success_def ProviderMonitor_record_failure_def Let_def)
  ultimately show ?thesis using probes_state [of rs] next_eq by simp
qed

theorem monitor_backoff_witness:
  "ProviderMonitor_next_interval_ms (probes (replicate 6 False)) 30000 300000 = 300000"
  using monitor_backoff [of 30000 "replicate 6 False" False 300000] by (simp add: trailing_failures_def)
end
