(* ===== verification/Wasm_Plans.thy ===== *)
theory Wasm_Plans
  imports Wasm_Keys Vault_Manifest Vault_Journal Multi_Vault Vault_Sync
begin

text \<open>
  The bindings for several vaults (\<open>sdk-wasm/src/byo_vault.rs\<close>) with the share-audit payload of
  \<open>byo/share_audit.rs\<close>: manifests, bodies, journals and plans as JavaScript sees them.  JSON text is
  written and read by the parameter \<open>J\<close>; \<open>X\<close> is the text of the parser's error message.  The derived
  \<open>Serialize\<close> and \<open>Deserialize\<close> of the structs are written out on values.
\<close>

subsection \<open>Numbers from JavaScript\<close>

datatype js_f64 = Finite int int | Infinite bool | NaN

fun is_finite :: "js_f64 \<Rightarrow> bool" where
  "is_finite (Finite m e) = True"
| "is_finite _ = False"

fun f64_le_zero :: "js_f64 \<Rightarrow> bool" where
  "f64_le_zero (Finite m e) \<longleftrightarrow> m \<le> 0"
| "f64_le_zero (Infinite negative) \<longleftrightarrow> negative"
| "f64_le_zero NaN \<longleftrightarrow> False"

fun f64_lt_zero :: "js_f64 \<Rightarrow> bool" where
  "f64_lt_zero (Finite m e) \<longleftrightarrow> m < 0"
| "f64_lt_zero (Infinite negative) \<longleftrightarrow> negative"
| "f64_lt_zero NaN \<longleftrightarrow> False"

text \<open>\<open>x as u64\<close> truncates towards zero and saturates; not a number becomes 0.\<close>

fun f64_as_u64 :: "js_f64 \<Rightarrow> nat" where
  "f64_as_u64 (Finite m e) =
     (if m < 0 then 0 else min u64_max (if e \<ge> 0 then nat m * 2 ^ nat e else nat m div 2 ^ nat (- e)))"
| "f64_as_u64 (Infinite negative) = (if negative then 0 else u64_max)"
| "f64_as_u64 NaN = 0"

text \<open>\<open>u64::MAX as f64\<close> is \<open>2^64\<close>.\<close>

fun f64_le_u64_max :: "js_f64 \<Rightarrow> bool" where
  "f64_le_u64_max (Finite m e) \<longleftrightarrow> \<not> f64_less (1, 64) (m, e)"
| "f64_le_u64_max (Infinite negative) \<longleftrightarrow> negative"
| "f64_le_u64_max NaN \<longleftrightarrow> False"

abbreviation f64_nat :: "nat \<Rightarrow> js_f64" where
  "f64_nat n \<equiv> Finite (int n) 0"

subsection \<open>JSON forms of the manifest\<close>

definition opt_string_value :: "string option \<Rightarrow> Value" where
  "opt_string_value s = (case s of None \<Rightarrow> Null | Some t \<Rightarrow> String t)"

definition ManifestEntry_value :: "ManifestEntry \<Rightarrow> Value" where
  "ManifestEntry_value e = Object
     [(''config_json'', String (config_json e)), (''created_at'', Number (int (created_at e))),
      (''display_name'', String (display_name e)), (''is_primary'', Bool (is_primary e)),
      (''provider_id'', String (provider_id e)), (''provider_type'', String (provider_type e)),
      (''sftp_host_key_fingerprint'', opt_string_value (sftp_host_key_fingerprint e)), (''tombstone'', Bool (tombstone e)),
      (''updated_at'', Number (int (updated_at e))), (''vault_version_hint'', opt_string_value (vault_version_hint e))]"

definition Manifest_value :: "Manifest \<Rightarrow> Value" where
  "Manifest_value m = Object
     [(''manifest_version'', Number (int (manifest_version m))), (''providers'', Array (map ManifestEntry_value (providers m)))]"

definition bool_of :: "string \<Rightarrow> Value \<Rightarrow> bool option" where
  "bool_of k v = Option.bind (Value_get k v) as_bool"

text \<open>\<open>#[serde(default)]\<close>: an absent field takes the default, a present one must have the type.\<close>

definition default_bool_of :: "string \<Rightarrow> Value \<Rightarrow> bool option" where
  "default_bool_of k v = (case Value_get k v of None \<Rightarrow> Some False | Some x \<Rightarrow> as_bool x)"

definition opt_string_of :: "string \<Rightarrow> Value \<Rightarrow> string option option" where
  "opt_string_of k v = (case Value_get k v of None \<Rightarrow> Some None | Some Null \<Rightarrow> Some None | Some x \<Rightarrow> map_option Some (as_str x))"

definition ManifestEntry_of_value :: "Value \<Rightarrow> ManifestEntry option" where
  "ManifestEntry_of_value v =
     Option.bind (str_of ''provider_id'' v) (\<lambda>pid.
     Option.bind (str_of ''provider_type'' v) (\<lambda>ptype.
     Option.bind (str_of ''display_name'' v) (\<lambda>name.
     Option.bind (str_of ''config_json'' v) (\<lambda>config.
     Option.bind (bool_of ''is_primary'' v) (\<lambda>prim.
     Option.bind (opt_string_of ''sftp_host_key_fingerprint'' v) (\<lambda>fp.
     Option.bind (opt_string_of ''vault_version_hint'' v) (\<lambda>hint.
     Option.bind (u64_of ''created_at'' v) (\<lambda>created.
     Option.bind (u64_of ''updated_at'' v) (\<lambda>updated.
     Option.bind (default_bool_of ''tombstone'' v) (\<lambda>tomb.
     Some \<lparr>provider_id = pid, provider_type = ptype, display_name = name, config_json = config, is_primary = prim,
       sftp_host_key_fingerprint = fp, vault_version_hint = hint, created_at = created, updated_at = updated,
       tombstone = tomb\<rparr>))))))))))"

text \<open>Reading a sequence fails with its first unreadable element.\<close>

fun all_of :: "('a \<Rightarrow> 'b option) \<Rightarrow> 'a list \<Rightarrow> 'b list option" where
  "all_of f [] = Some []"
| "all_of f (x # xs) = Option.bind (f x) (\<lambda>y. map_option ((#) y) (all_of f xs))"

definition array_of :: "(Value \<Rightarrow> 'b option) \<Rightarrow> Value \<Rightarrow> 'b list option" where
  "array_of f v = Option.bind (as_array v) (all_of f)"

definition Manifest_of_value :: "Value \<Rightarrow> Manifest option" where
  "Manifest_of_value v =
     Option.bind (u64_of ''manifest_version'' v) (\<lambda>ver.
     Option.bind (Option.bind (Value_get ''providers'' v) (array_of ManifestEntry_of_value)) (\<lambda>ps.
     Some \<lparr>manifest_version = ver, providers = ps\<rparr>))"

definition manifest_ok :: "Manifest \<Rightarrow> bool" where
  "manifest_ok m \<longleftrightarrow> manifest_version m < 2 ^ 64 \<and>
     (\<forall>e\<in>set (providers m). created_at e < 2 ^ 64 \<and> updated_at e < 2 ^ 64)"

lemma opt_string_value_of: "opt_string_of k (Object fs) = Some s" if "map_of fs k = Some (opt_string_value s)"
  using that by (cases s) (auto simp: opt_string_of_def opt_string_value_def)

lemma ManifestEntry_roundtrip:
  assumes "created_at e < 2 ^ 64" and "updated_at e < 2 ^ 64"
  shows "ManifestEntry_of_value (ManifestEntry_value e) = Some e"
proof -
  have "opt_string_of ''sftp_host_key_fingerprint'' (ManifestEntry_value e) = Some (sftp_host_key_fingerprint e)"
    "opt_string_of ''vault_version_hint'' (ManifestEntry_value e) = Some (vault_version_hint e)"
    unfolding ManifestEntry_value_def by (rule opt_string_value_of, simp)+
  then show ?thesis
    using assms by (simp add: ManifestEntry_of_value_def str_of_def bool_of_def u64_of_def default_bool_of_def ManifestEntry_value_def)
qed

lemma all_of_map: "(\<And>x. x \<in> set xs \<Longrightarrow> f (g x) = Some x) \<Longrightarrow> all_of f (map g xs) = Some xs"
  by (induction xs) auto

lemma Manifest_roundtrip: "manifest_ok m \<Longrightarrow> Manifest_of_value (Manifest_value m) = Some m"
  by (simp add: Manifest_of_value_def Manifest_value_def u64_of_def array_of_def manifest_ok_def all_of_map ManifestEntry_roundtrip)

lemma str_lt_manifest_keys:
  "sorted_wrt str_lt [''config_json'', ''created_at'', ''display_name'', ''is_primary'', ''provider_id'', ''provider_type'',
     ''sftp_host_key_fingerprint'', ''tombstone'', ''updated_at'', ''vault_version_hint'']"
  "str_lt ''manifest_version'' ''providers''"
  by code_simp+

lemma opt_string_value_ok [simp]: "value_ok (opt_string_value s)"
  by (cases s) (simp_all add: opt_string_value_def)

lemma ManifestEntry_value_ok: "created_at e < 2 ^ 64 \<Longrightarrow> updated_at e < 2 ^ 64 \<Longrightarrow> value_ok (ManifestEntry_value e)"
  using str_lt_manifest_keys(1) by (simp add: ManifestEntry_value_def)

lemma Manifest_value_ok: "manifest_ok m \<Longrightarrow> value_ok (Manifest_value m)"
  using str_lt_manifest_keys(2) by (auto simp: Manifest_value_def manifest_ok_def ManifestEntry_value_ok)

text \<open>\<open>serde_json::to_string\<close>, \<open>to_vec\<close>, \<open>from_str\<close> and \<open>from_slice\<close> of a manifest.\<close>

definition manifest_to_string :: "json_codec \<Rightarrow> Manifest \<Rightarrow> string" where
  "manifest_to_string J m = json_to_string J (Manifest_value m)"

definition manifest_to_vec :: "json_codec \<Rightarrow> Manifest \<Rightarrow> string + bytes" where
  "manifest_to_vec J m = Inr (as_bytes (manifest_to_string J m))"

definition parse_as :: "json_codec \<Rightarrow> (string \<Rightarrow> string) \<Rightarrow> (Value \<Rightarrow> 'a option) \<Rightarrow> string \<Rightarrow> string + 'a" where
  "parse_as J X of_value s = (case Option.bind (json_from_str J s) of_value of None \<Rightarrow> Inl (X s) | Some x \<Rightarrow> Inr x)"

definition manifest_from_slice :: "json_codec \<Rightarrow> (string \<Rightarrow> string) \<Rightarrow> bytes \<Rightarrow> string + Manifest" where
  "manifest_from_slice J X bs = parse_as J X Manifest_of_value (of_bytes bs)"

definition parse_arg :: "json_codec \<Rightarrow> (string \<Rightarrow> string) \<Rightarrow> string \<Rightarrow> (Value \<Rightarrow> 'a option) \<Rightarrow> string \<Rightarrow> string + 'a" where
  "parse_arg J X what of_value s = map_err (\<lambda>e. what @ '' parse error: '' @ e) (parse_as J X of_value s)"

definition strings_of :: "Value \<Rightarrow> string list option" where
  "strings_of = array_of as_str"

lemma parse_as_manifest [simp]:
  "codec_ok J \<Longrightarrow> manifest_ok m \<Longrightarrow> parse_as J X Manifest_of_value (manifest_to_string J m) = Inr m"
  by (simp add: parse_as_def manifest_to_string_def codec_okD Manifest_value_ok Manifest_roundtrip)

lemma parse_arg_manifest [simp]:
  "codec_ok J \<Longrightarrow> manifest_ok m \<Longrightarrow> parse_arg J X what Manifest_of_value (manifest_to_string J m) = Inr m"
  by (simp add: parse_arg_def)

lemma manifest_slice_roundtrip:
  assumes "codec_ok J" and "manifest_ok m"
  shows "manifest_to_vec J m = Inr bs \<Longrightarrow> manifest_from_slice J X bs = Inr m"
  using assms by (auto simp: manifest_to_vec_def manifest_from_slice_def)

subsection \<open>Manifest bindings\<close>

fun ManifestError_to_string :: "ManifestError \<Rightarrow> string" where
  "ManifestError_to_string (ManifestEncryption e) = ''manifest encryption failed: '' @ CryptoError_to_string e"
| "ManifestError_to_string (ManifestDecryption e) = ''manifest decryption failed: '' @ CryptoError_to_string e"
| "ManifestError_to_string (ManifestSerialize e) = ''manifest JSON serialization failed: '' @ e"
| "ManifestError_to_string (ManifestDeserialize e) = ''manifest JSON deserialization failed: '' @ e"
| "ManifestError_to_string (InvariantViolated e) = ''manifest invariant violated: '' @ e"

text \<open>The match on the result of \<open>with_vault_session\<close> in this module.\<close>

definition found_result :: "('a \<Rightarrow> JsValue) \<Rightarrow> (string + 'a) option \<Rightarrow> JsValue" where
  "found_result f r = (case r of None \<Rightarrow> js_error ''session not found'' | Some q \<Rightarrow> js_result f q)"

definition data_object :: "b64_engines \<Rightarrow> string \<Rightarrow> bytes \<Rightarrow> JsValue" where
  "data_object E name bs = js_object [(name, JsString (b64_encode E bs))]"

definition manifest_object :: "json_codec \<Rightarrow> Manifest \<Rightarrow> JsValue" where
  "manifest_object J m = js_object [(''manifest_json'', JsString (manifest_to_string J m))]"

definition byo_manifest_encrypt ::
  "prims \<Rightarrow> b64_engines \<Rightarrow> json_codec \<Rightarrow> (string \<Rightarrow> string) \<Rightarrow> bytes \<Rightarrow> VaultStore \<Rightarrow> u32 \<Rightarrow> string \<Rightarrow> JsValue" where
  "byo_manifest_encrypt P E J X nonce st sid manifest_json =
     js_result (\<lambda>v. v) (and_then (parse_arg J X ''manifest'' Manifest_of_value manifest_json) (\<lambda>manifest.
       Inr (found_result (data_object E ''data'') (with_vault_session st sid (\<lambda>sess.
         map_err ManifestError_to_string (encrypt_manifest P (manifest_to_vec J) nonce (vs_vault_key sess) manifest))))))"

definition byo_manifest_decrypt ::
  "prims \<Rightarrow> b64_engines \<Rightarrow> json_codec \<Rightarrow> (string \<Rightarrow> string) \<Rightarrow> VaultStore \<Rightarrow> u32 \<Rightarrow> string \<Rightarrow> JsValue" where
  "byo_manifest_decrypt P E J X st sid body_blob_b64 =
     js_result (\<lambda>v. v) (and_then (decode_or E ''invalid base64 input'' body_blob_b64) (\<lambda>blob.
       Inr (found_result (manifest_object J) (with_vault_session st sid (\<lambda>sess.
         map_err ManifestError_to_string (decrypt_manifest P (manifest_from_slice J X) (vs_vault_key sess) blob))))))"

definition MAX_MANIFEST_SIZE_BYTES :: nat where "MAX_MANIFEST_SIZE_BYTES = 1024 * 1024"
definition MAX_MANIFEST_PROVIDERS :: nat where "MAX_MANIFEST_PROVIDERS = 256"

fun parse_manifests :: "json_codec \<Rightarrow> (string \<Rightarrow> string) \<Rightarrow> nat \<Rightarrow> string list \<Rightarrow> string + Manifest list" where
  "parse_manifests J X i [] = Inr []"
| "parse_manifests J X i (s # ss) =
     (if length s > MAX_MANIFEST_SIZE_BYTES then Inl ''manifest too large''
      else and_then (parse_arg J X (''manifest['' @ show_nat i @ '']'') Manifest_of_value s) (\<lambda>m.
        if length (providers m) > MAX_MANIFEST_PROVIDERS then Inl ''manifest: too many providers''
        else and_then (parse_manifests J X (i + 1) ss) (\<lambda>ms. Inr (m # ms))))"

definition byo_manifest_merge ::
  "(ManifestEntry list \<Rightarrow> ManifestEntry list) \<Rightarrow> json_codec \<Rightarrow> (string \<Rightarrow> string) \<Rightarrow> string \<Rightarrow> js_f64 \<Rightarrow> js_f64 \<Rightarrow> JsValue" where
  "byo_manifest_merge order J X manifest_jsons_json now_unix_secs min_acceptable_version =
     (let now = (if f64_le_zero now_unix_secs then u64_max else f64_as_u64 now_unix_secs);
          min_ver = (if f64_le_zero min_acceptable_version then None else Some (f64_as_u64 min_acceptable_version)) in
      js_result (manifest_object J)
        (and_then (parse_arg J X ''input'' strings_of manifest_jsons_json) (\<lambda>json_strs.
         and_then (parse_manifests J X 0 json_strs) (\<lambda>manifests.
         map_err ManifestError_to_string (merge_manifests order manifests now min_ver)))))"

definition byo_manifest_validate :: "json_codec \<Rightarrow> (string \<Rightarrow> string) \<Rightarrow> string \<Rightarrow> js_f64 \<Rightarrow> JsValue" where
  "byo_manifest_validate J X manifest_json now_unix_secs =
     (if length manifest_json > MAX_MANIFEST_SIZE_BYTES then js_error ''manifest too large''
      else
        let now = (if f64_lt_zero now_unix_secs then u64_max else f64_as_u64 now_unix_secs) in
        js_result (\<lambda>_. JsObject [])
          (and_then (parse_arg J X ''manifest'' Manifest_of_value manifest_json) (\<lambda>manifest.
           map_err ManifestError_to_string (validate_manifest manifest now))))"

text \<open>The five edits share their frame: parse, change, print.\<close>

definition edit_manifest :: "json_codec \<Rightarrow> (string \<Rightarrow> string) \<Rightarrow> string \<Rightarrow> (Manifest \<Rightarrow> string + Manifest) \<Rightarrow> JsValue" where
  "edit_manifest J X manifest_json f =
     js_result (manifest_object J) (and_then (parse_arg J X ''manifest'' Manifest_of_value manifest_json) f)"

definition byo_manifest_add_provider :: "json_codec \<Rightarrow> (string \<Rightarrow> string) \<Rightarrow> string \<Rightarrow> string \<Rightarrow> JsValue" where
  "byo_manifest_add_provider J X manifest_json entry_json =
     edit_manifest J X manifest_json (\<lambda>manifest.
       and_then (parse_arg J X ''entry'' ManifestEntry_of_value entry_json) (\<lambda>entry.
       map_err ManifestError_to_string (manifest_add_provider manifest entry)))"

definition byo_manifest_rename_provider :: "json_codec \<Rightarrow> (string \<Rightarrow> string) \<Rightarrow> string \<Rightarrow> string \<Rightarrow> string \<Rightarrow> js_f64 \<Rightarrow> JsValue" where
  "byo_manifest_rename_provider J X manifest_json pid new_name now_unix_secs =
     edit_manifest J X manifest_json (\<lambda>manifest.
       map_err ManifestError_to_string (manifest_rename_provider manifest pid new_name (f64_as_u64 now_unix_secs)))"

definition byo_manifest_update_provider_config :: "json_codec \<Rightarrow> (string \<Rightarrow> string) \<Rightarrow> string \<Rightarrow> string \<Rightarrow> string \<Rightarrow> js_f64 \<Rightarrow> JsValue" where
  "byo_manifest_update_provider_config J X manifest_json pid new_config_json now_unix_secs =
     edit_manifest J X manifest_json (\<lambda>manifest.
       map_err ManifestError_to_string (manifest_update_provider_config manifest pid new_config_json (f64_as_u64 now_unix_secs)))"

definition byo_manifest_set_primary_provider :: "json_codec \<Rightarrow> (string \<Rightarrow> string) \<Rightarrow> string \<Rightarrow> string \<Rightarrow> js_f64 \<Rightarrow> JsValue" where
  "byo_manifest_set_primary_provider J X manifest_json pid now_unix_secs =
     edit_manifest J X manifest_json (\<lambda>manifest.
       map_err ManifestError_to_string (manifest_set_primary_provider manifest pid (f64_as_u64 now_unix_secs)))"

definition byo_manifest_tombstone_provider :: "json_codec \<Rightarrow> (string \<Rightarrow> string) \<Rightarrow> string \<Rightarrow> string \<Rightarrow> js_f64 \<Rightarrow> JsValue" where
  "byo_manifest_tombstone_provider J X manifest_json pid now_unix_secs =
     edit_manifest J X manifest_json (\<lambda>manifest.
       map_err ManifestError_to_string (manifest_tombstone_provider manifest pid (f64_as_u64 now_unix_secs)))"

subsection \<open>Bodies and derived keys\<close>

definition byo_vault_body_encrypt ::
  "prims \<Rightarrow> b64_engines \<Rightarrow> bytes \<Rightarrow> VaultStore \<Rightarrow> u32 \<Rightarrow> string \<Rightarrow> string \<Rightarrow> JsValue" where
  "byo_vault_body_encrypt P E nonce st sid pid sqlite_b64 =
     js_result (\<lambda>v. v) (and_then (decode_or E ''invalid base64 input'' sqlite_b64) (\<lambda>sqlite_bytes.
       Inr (found_result (data_object E ''data'') (with_vault_session st sid (\<lambda>sess.
         e_str (and_then (derive_per_vault_aead_key P (vs_vault_key sess) pid) (\<lambda>aead_key.
         encrypt_body P nonce sqlite_bytes aead_key)))))))"

definition byo_vault_body_decrypt :: "prims \<Rightarrow> b64_engines \<Rightarrow> VaultStore \<Rightarrow> u32 \<Rightarrow> string \<Rightarrow> string \<Rightarrow> JsValue" where
  "byo_vault_body_decrypt P E st sid pid body_blob_b64 =
     js_result (\<lambda>v. v) (and_then (decode_or E ''invalid base64 input'' body_blob_b64) (\<lambda>blob.
       Inr (found_result (data_object E ''data'') (with_vault_session st sid (\<lambda>sess.
         e_str (and_then (derive_per_vault_aead_key P (vs_vault_key sess) pid) (\<lambda>aead_key.
         decrypt_body P blob aead_key)))))))"

definition byo_derive_per_vault_wal_key :: "prims \<Rightarrow> b64_engines \<Rightarrow> VaultStore \<Rightarrow> u32 \<Rightarrow> string \<Rightarrow> JsValue" where
  "byo_derive_per_vault_wal_key P E st sid pid =
     found_result (data_object E ''key_b64'')
       (with_vault_session st sid (\<lambda>sess. e_str (derive_per_vault_wal_key P (vs_vault_key sess) pid)))"

definition byo_derive_per_vault_journal_keys :: "prims \<Rightarrow> b64_engines \<Rightarrow> VaultStore \<Rightarrow> u32 \<Rightarrow> string \<Rightarrow> JsValue" where
  "byo_derive_per_vault_journal_keys P E st sid pid =
     found_result (\<lambda>keys. js_object [(''aead_key_b64'', JsString (b64_encode E (jk_aead keys))),
         (''hmac_key_b64'', JsString (b64_encode E (jk_hmac keys)))])
       (with_vault_session st sid (\<lambda>sess. e_str (derive_per_vault_journal_keys P (vs_vault_key sess) pid)))"

definition byo_derive_manifest_aead_key :: "prims \<Rightarrow> b64_engines \<Rightarrow> VaultStore \<Rightarrow> u32 \<Rightarrow> JsValue" where
  "byo_derive_manifest_aead_key P E st sid =
     found_result (data_object E ''key_b64'')
       (with_vault_session st sid (\<lambda>sess. e_str (derive_manifest_aead_key P (vs_vault_key sess))))"

subsection \<open>Plans\<close>

fun VaultBodySource_value :: "VaultBodySource \<Rightarrow> Value" where
  "VaultBodySource_value Cloud = String ''Cloud''"
| "VaultBodySource_value Cache = String ''Cache''"

definition UnlockStep_value :: "UnlockStep \<Rightarrow> Value" where
  "UnlockStep_value s = Object [(''is_primary'', Bool (us_is_primary s)), (''provider_id'', String (us_provider_id s)),
     (''source'', VaultBodySource_value (us_source s))]"

definition provider_id_object :: "string \<Rightarrow> Value" where
  "provider_id_object pid = Object [(''provider_id'', String pid)]"

definition UnlockPlan_value :: "UnlockPlan \<Rightarrow> Value" where
  "UnlockPlan_value p = Object [(''fail_closed'', Bool (fail_closed p)),
     (''manifest_sync_targets'', Array (map provider_id_object (manifest_sync_targets p))),
     (''vault_steps'', Array (map UnlockStep_value (vault_steps p)))]"

definition SavePlan_value :: "SavePlan \<Rightarrow> Value" where
  "SavePlan_value p = Object [(''manifest_upload_targets'', Array (map String (manifest_upload_targets p))),
     (''vault_uploads'', Array (map provider_id_object (vault_uploads p)))]"

definition ShareRevokeStep_value :: "ShareRevokeStep \<Rightarrow> Value" where
  "ShareRevokeStep_value r = Object [(''owner_token'', opt_string_value (rv_owner_token r)), (''provider_id'', String (rv_provider_id r)),
     (''provider_ref'', String (rv_provider_ref r)), (''share_id'', String (rv_share_id r)), (''variant'', String (rv_variant r))]"

definition CrossProviderMovePlan_value :: "CrossProviderMovePlan \<Rightarrow> Value" where
  "CrossProviderMovePlan_value p = Object [(''description'', String (mp_description p)), (''file_id'', Number (int (mp_file_id p))),
     (''pre_revokes'', Array (map ShareRevokeStep_value (pre_revokes p))),
     (''source_provider_ref'', String (source_provider_ref p)), (''steps'', Array (map MoveStep_value (mp_steps p)))]"

definition plan_object :: "json_codec \<Rightarrow> Value \<Rightarrow> JsValue" where
  "plan_object J v = js_object [(''plan_json'', JsString (json_to_string J v))]"

definition byo_plan_unlock :: "json_codec \<Rightarrow> (string \<Rightarrow> string) \<Rightarrow> string \<Rightarrow> string \<Rightarrow> string \<Rightarrow> JsValue" where
  "byo_plan_unlock J X manifest_json online_ids_json cached_ids_json =
     js_result (plan_object J)
       (and_then (parse_arg J X ''manifest'' Manifest_of_value manifest_json) (\<lambda>manifest.
        and_then (parse_arg J X ''online_ids'' strings_of online_ids_json) (\<lambda>online_ids.
        and_then (parse_arg J X ''cached_ids'' strings_of cached_ids_json) (\<lambda>cached_ids.
        let provider_ids = map provider_id (active_providers manifest);
            primary_id = (case primary_provider manifest of None \<Rightarrow> [] | Some e \<Rightarrow> provider_id e) in
        Inr (UnlockPlan_value (UnlockPlan_build provider_ids online_ids cached_ids primary_id online_ids))))))"

definition byo_plan_save :: "json_codec \<Rightarrow> (string \<Rightarrow> string) \<Rightarrow> string \<Rightarrow> string \<Rightarrow> JsValue" where
  "byo_plan_save J X dirty_ids_json online_ids_json =
     js_result (plan_object J)
       (and_then (parse_arg J X ''dirty_ids'' strings_of dirty_ids_json) (\<lambda>dirty_ids.
        and_then (parse_arg J X ''online_ids'' strings_of online_ids_json) (\<lambda>online_ids.
        Inr (SavePlan_value (SavePlan_build dirty_ids online_ids)))))"

text \<open>\<open>show_f64\<close> is the \<open>Display\<close> of \<open>f64\<close>.\<close>

definition byo_plan_cross_provider_move ::
  "json_codec \<Rightarrow> (js_f64 \<Rightarrow> string) \<Rightarrow> js_f64 \<Rightarrow> string \<Rightarrow> string \<Rightarrow> string \<Rightarrow> js_f64 \<Rightarrow> string \<Rightarrow> JsValue" where
  "byo_plan_cross_provider_move J show_f64 file_id src_ref src dst dest_folder_id display =
     (if \<not> (is_finite file_id \<and> \<not> f64_lt_zero file_id \<and> f64_le_u64_max file_id)
      then js_error (''file_id out of range: '' @ show_f64 file_id)
      else if \<not> is_finite dest_folder_id then js_error (''dest_folder_id out of range: '' @ show_f64 dest_folder_id)
      else
        let dest_folder = (if f64_lt_zero dest_folder_id then None else Some (f64_as_u64 dest_folder_id)) in
        plan_object J (CrossProviderMovePlan_value
          (CrossProviderMovePlan_build (f64_as_u64 file_id) src_ref src dst dest_folder display [])))"

definition blob_report :: "string \<Rightarrow> bool option" where
  "blob_report s = (if s = ''true'' then Some True else if s = ''false'' then Some False else None)"

definition decode_step :: "json_codec \<Rightarrow> (string \<Rightarrow> string) \<Rightarrow> bytes \<Rightarrow> string + MoveStep" where
  "decode_step J X bs = map_err (\<lambda>e. ''step decode: '' @ e) (parse_as J X MoveStep_of_value (of_bytes bs))"

definition byo_cross_provider_move_decide_replay ::
  "b64_engines \<Rightarrow> json_codec \<Rightarrow> (string \<Rightarrow> string) \<Rightarrow> string \<Rightarrow> bool \<Rightarrow> string \<Rightarrow> JsValue" where
  "byo_cross_provider_move_decide_replay E J X step_bytes_b64 dst_file_exists src_blob_exists_str =
     js_result (\<lambda>decision. case decision of
         Skip \<Rightarrow> js_object [(''decision'', JsString ''Skip'')]
       | Abort \<Rightarrow> js_object [(''decision'', JsString ''Abort'')]
       | Retry p r \<Rightarrow> js_object [(''decision'', JsString ''Retry''), (''provider_id'', JsString p), (''provider_ref'', JsString r)])
       (and_then (decode_or E ''step_bytes_b64 decode failed'' step_bytes_b64) (\<lambda>bytes.
        and_then (decode_step J X bytes) (\<lambda>step.
        Inr (decide_replay step dst_file_exists (blob_report src_blob_exists_str)))))"

fun action_object :: "ReconcileAction \<Rightarrow> JsValue" where
  "action_object (DeleteBlob p r) =
     js_object [(''type'', JsString ''DeleteBlob''), (''provider_id'', JsString p), (''provider_ref'', JsString r)]"

definition byo_cross_provider_move_plan_reconcile ::
  "b64_engines \<Rightarrow> json_codec \<Rightarrow> (string \<Rightarrow> string) \<Rightarrow> string \<Rightarrow> bool \<Rightarrow> string \<Rightarrow> JsValue" where
  "byo_cross_provider_move_plan_reconcile E J X steps_json dst_file_exists src_blob_exists_str =
     js_result (\<lambda>actions. js_object [(''actions'', JsArray (map action_object actions))])
       (and_then (map_err (\<lambda>e. ''steps_json parse: '' @ e) (parse_as J X strings_of steps_json)) (\<lambda>b64_list.
        and_then (try_map (\<lambda>b64. and_then (decode_or E ''step b64 decode failed'' b64) (decode_step J X)) b64_list) (\<lambda>steps.
        Inr (plan_reconcile steps dst_file_exists (blob_report src_blob_exists_str)))))"

subsection \<open>Row merge\<close>

fun MergeOp_value :: "MergeOp \<Rightarrow> Value" where
  "MergeOp_value (Insert row) = Object [(''op'', String ''insert''), (''row'', row)]"
| "MergeOp_value (Update row) = Object [(''op'', String ''update''), (''row'', row)]"
| "MergeOp_value MSkip = Object [(''op'', String ''skip'')]"

definition byo_merge_rows :: "json_codec \<Rightarrow> (string \<Rightarrow> string) \<Rightarrow> string \<Rightarrow> string \<Rightarrow> bool \<Rightarrow> JsValue" where
  "byo_merge_rows J X local_rows_json remote_rows_json is_key_versions =
     js_result (\<lambda>ops. js_object [(''ops_json'', JsString (json_to_string J (Array (map MergeOp_value ops))))])
       (and_then (parse_arg J X ''local_rows'' as_array local_rows_json) (\<lambda>local_rows.
        and_then (parse_arg J X ''remote_rows'' as_array remote_rows_json) (\<lambda>remote_rows.
        Inr (merge_rows local_rows remote_rows is_key_versions))))"

subsection \<open>Journal bindings\<close>

text \<open>\<open>{t:#x}\<close>: no leading zero.\<close>

definition show_hex :: "u8 \<Rightarrow> string" where
  "show_hex b = ''0x'' @ (if unat b < 16 then [] else [hex_digit (unat b div 16)]) @ [hex_digit (unat b mod 16)]"

fun JournalError_to_string :: "JournalError \<Rightarrow> string" where
  "JournalError_to_string TooShort = ''journal too short''"
| "JournalError_to_string BadMagic = ''invalid journal magic''"
| "JournalError_to_string TableTooLong = ''table name exceeds 255 bytes''"
| "JournalError_to_string (BadTableName t) = ''table name not in allowlist: '' @ t"
| "JournalError_to_string (BadEntryType t) = ''unknown entry type: '' @ show_hex t"
| "JournalError_to_string (BadIvLen l) = ''unexpected iv_len: '' @ show_nat (unat l)"
| "JournalError_to_string JournalHmacMismatch = ''HMAC mismatch '' @ of_bytes [0xE2, 0x80, 0x94] @ '' journal discarded''"
| "JournalError_to_string (JournalCrypto e) = ''crypto error: '' @ CryptoError_to_string e"
| "JournalError_to_string Truncated = ''journal truncated''"

definition entry_type_of :: "string \<Rightarrow> string + u8" where
  "entry_type_of s =
     (if s = ''INSERT'' then Inr ENTRY_TYPE_INSERT
      else if s = ''UPDATE'' then Inr ENTRY_TYPE_UPDATE
      else if s = ''DELETE'' then Inr ENTRY_TYPE_DELETE
      else Inl (''unknown entry_type: '' @ s))"

definition entry_type_str :: "u8 \<Rightarrow> string" where
  "entry_type_str t =
     (if t = ENTRY_TYPE_INSERT then ''INSERT'' else if t = ENTRY_TYPE_UPDATE then ''UPDATE''
      else if t = ENTRY_TYPE_DELETE then ''DELETE'' else ''UNKNOWN'')"

definition journal_keys :: "prims \<Rightarrow> VaultSession \<Rightarrow> string \<Rightarrow> CryptoError + JournalKeys" where
  "journal_keys P sess pid =
     map_err (\<lambda>e. InvalidFormat (CryptoError_to_string e)) (derive_per_vault_journal_keys P (vs_vault_key sess) pid)"

definition byo_journal_append ::
  "prims \<Rightarrow> b64_engines \<Rightarrow> bytes \<Rightarrow> VaultStore \<Rightarrow> u32 \<Rightarrow> string \<Rightarrow> string \<Rightarrow> string \<Rightarrow> u32 \<Rightarrow> string \<Rightarrow> JsValue" where
  "byo_journal_append P E nonce st sid pid entry_type_s tab rid data_json =
     js_result (\<lambda>v. v) (and_then (entry_type_of entry_type_s) (\<lambda>et.
       Inr (found_result (\<lambda>b64. js_object [(''entry_b64'', JsString b64)]) (with_vault_session st sid (\<lambda>sess.
         e_str (and_then (journal_keys P sess pid) (\<lambda>keys.
         and_then (map_err (\<lambda>e. InvalidFormat (JournalError_to_string e))
             (serialize_entry P nonce keys et tab rid (as_bytes data_json))) (\<lambda>entry_bytes.
         Inr (b64_encode E entry_bytes)))))))))"

text \<open>
  \<open>String::from_utf8_lossy\<close>: each maximal part of an ill-formed sequence becomes U+FFFD.  \<open>utf8_seq\<close>
  tells whether the bytes start with a character and how many bytes it, or the ill-formed part, has.
\<close>

definition second_ok :: "u8 \<Rightarrow> u8 \<Rightarrow> bool" where
  "second_ok b0 b1 \<longleftrightarrow> cont_byte b1 \<and> (b0 = 0xE0 \<longrightarrow> 0xA0 \<le> b1) \<and> (b0 = 0xED \<longrightarrow> b1 \<le> 0x9F) \<and>
     (b0 = 0xF0 \<longrightarrow> 0x90 \<le> b1) \<and> (b0 = 0xF4 \<longrightarrow> b1 \<le> 0x8F)"

fun leading_conts :: "nat \<Rightarrow> bytes \<Rightarrow> nat" where
  "leading_conts (Suc n) (b # bs) = (if cont_byte b then Suc (leading_conts n bs) else 0)"
| "leading_conts _ _ = 0"

definition utf8_width :: "u8 \<Rightarrow> nat" where
  "utf8_width b0 =
     (if b0 < 0x80 then 1 else if 0xC2 \<le> b0 \<and> b0 \<le> 0xDF then 2 else if 0xE0 \<le> b0 \<and> b0 \<le> 0xEF then 3
      else if 0xF0 \<le> b0 \<and> b0 \<le> 0xF4 then 4 else 0)"

fun utf8_seq :: "bytes \<Rightarrow> bool \<times> nat" where
  "utf8_seq [] = (True, 0)"
| "utf8_seq (b0 # bs) =
     (let w = utf8_width b0 in
      if w = 1 then (True, 1)
      else if w = 0 then (False, 1)
      else case bs of
        [] \<Rightarrow> (False, 1)
      | b1 # bs1 \<Rightarrow>
          if \<not> second_ok b0 b1 then (False, 1)
          else let k = leading_conts (w - 2) bs1 in (k = w - 2, 2 + k))"

lemma utf8_seq_pos: "bs \<noteq> [] \<Longrightarrow> 0 < snd (utf8_seq bs)"
  by (cases bs) (auto simp: Let_def split: list.splits)

function from_utf8_lossy :: "bytes \<Rightarrow> bytes" where
  "from_utf8_lossy bs =
     (if bs = [] then []
      else let (ok, n) = utf8_seq bs in
        (if ok then take n bs else [0xEF, 0xBF, 0xBD]) @ from_utf8_lossy (drop n bs))"
  by pat_completeness auto
termination
proof (relation "measure length")
  show "((drop n bs), bs) \<in> measure length" if "bs \<noteq> []" "p = utf8_seq bs" "(ok, n) = p" for bs p ok n
  proof -
    have "0 < n" using utf8_seq_pos [OF that(1)] that(2,3) by (metis snd_conv)
    then show ?thesis using that(1) by simp
  qed
qed simp

declare from_utf8_lossy.simps [simp del]

lemma valid_utf8_cases:
  assumes "valid_utf8 (b0 # bs)"
  obtains "b0 < 0x80" "valid_utf8 bs"
  | b1 r where "\<not> b0 < 0x80" "0xC2 \<le> b0 \<and> b0 \<le> 0xDF" "bs = b1 # r" "cont_byte b1" "valid_utf8 r"
  | b1 b2 r where "\<not> b0 < 0x80" "\<not> (0xC2 \<le> b0 \<and> b0 \<le> 0xDF)" "0xE0 \<le> b0 \<and> b0 \<le> 0xEF" "bs = b1 # b2 # r"
      "cont_byte b1" "b0 = 0xE0 \<longrightarrow> 0xA0 \<le> b1" "b0 = 0xED \<longrightarrow> b1 \<le> 0x9F" "cont_byte b2" "valid_utf8 r"
  | b1 b2 b3 r where "\<not> b0 < 0x80" "\<not> (0xC2 \<le> b0 \<and> b0 \<le> 0xDF)" "\<not> (0xE0 \<le> b0 \<and> b0 \<le> 0xEF)" "0xF0 \<le> b0 \<and> b0 \<le> 0xF4"
      "bs = b1 # b2 # b3 # r" "cont_byte b1" "b0 = 0xF0 \<longrightarrow> 0x90 \<le> b1" "b0 = 0xF4 \<longrightarrow> b1 \<le> 0x8F"
      "cont_byte b2" "cont_byte b3" "valid_utf8 r"
proof (cases "b0 < 0x80")
  case True then show ?thesis using that(1) assms by simp
next
  case n1: False
  show ?thesis
  proof (cases "0xC2 \<le> b0 \<and> b0 \<le> 0xDF")
    case True then show ?thesis using that(2) [OF n1 True] assms n1 by (simp split: list.splits)
  next
    case n2: False
    show ?thesis
    proof (cases "0xE0 \<le> b0 \<and> b0 \<le> 0xEF")
      case True then show ?thesis using that(3) [OF n1 n2 True] assms n1 n2 by (simp split: list.splits if_split_asm)
    next
      case n3: False
      then show ?thesis using that(4) [OF n1 n2 n3] assms n1 n2 by (simp split: list.splits if_split_asm)
    qed
  qed
qed

lemma second_ok_cases:
  "0xC2 \<le> b0 \<and> b0 \<le> 0xDF \<Longrightarrow> second_ok b0 b1 \<longleftrightarrow> cont_byte b1"
  "0xE0 \<le> b0 \<and> b0 \<le> 0xEF \<Longrightarrow> second_ok b0 b1 \<longleftrightarrow> cont_byte b1 \<and> (b0 = 0xE0 \<longrightarrow> 0xA0 \<le> b1) \<and> (b0 = 0xED \<longrightarrow> b1 \<le> 0x9F)"
  "0xF0 \<le> b0 \<and> b0 \<le> 0xF4 \<Longrightarrow> second_ok b0 b1 \<longleftrightarrow> cont_byte b1 \<and> (b0 = 0xF0 \<longrightarrow> 0x90 \<le> b1) \<and> (b0 = 0xF4 \<longrightarrow> b1 \<le> 0x8F)"
proof -
  have "b0 \<noteq> 0xE0 \<and> b0 \<noteq> 0xED \<and> b0 \<noteq> 0xF0 \<and> b0 \<noteq> 0xF4" if "b0 \<le> 0xDF" using that by (intro conjI notI) simp_all
  then show "0xC2 \<le> b0 \<and> b0 \<le> 0xDF \<Longrightarrow> second_ok b0 b1 \<longleftrightarrow> cont_byte b1" by (simp add: second_ok_def)
  have "b0 \<noteq> 0xF0 \<and> b0 \<noteq> 0xF4" if "b0 \<le> 0xEF" using that by (intro conjI notI) simp_all
  then show "0xE0 \<le> b0 \<and> b0 \<le> 0xEF \<Longrightarrow> second_ok b0 b1 \<longleftrightarrow> cont_byte b1 \<and> (b0 = 0xE0 \<longrightarrow> 0xA0 \<le> b1) \<and> (b0 = 0xED \<longrightarrow> b1 \<le> 0x9F)"
    by (simp add: second_ok_def)
  have "b0 \<noteq> 0xE0 \<and> b0 \<noteq> 0xED" if "0xF0 \<le> b0" using that by (intro conjI notI) simp_all
  then show "0xF0 \<le> b0 \<and> b0 \<le> 0xF4 \<Longrightarrow> second_ok b0 b1 \<longleftrightarrow> cont_byte b1 \<and> (b0 = 0xF0 \<longrightarrow> 0x90 \<le> b1) \<and> (b0 = 0xF4 \<longrightarrow> b1 \<le> 0x8F)"
    by (simp add: second_ok_def)
qed

lemma utf8_seq_valid:
  assumes "valid_utf8 bs" and "bs \<noteq> []"
  shows "fst (utf8_seq bs) \<and> valid_utf8 (drop (snd (utf8_seq bs)) bs)"
proof -
  obtain b0 cs where bs: "bs = b0 # cs" using assms(2) by (auto simp: neq_Nil_conv)
  note v = assms(1) [unfolded bs]
  show ?thesis
  proof (cases rule: valid_utf8_cases [OF v])
    case 1
    then have "utf8_width b0 = 1" by (simp only: utf8_width_def if_True)
    then show ?thesis using 1 by (simp add: bs)
  next
    case (2 b1 r)
    then have "utf8_width b0 = 2" by (simp only: utf8_width_def if_True if_False conj_absorb)
    then show ?thesis using 2 second_ok_cases(1) [of b0 b1] by (simp add: bs)
  next
    case (3 b1 b2 r)
    then have "utf8_width b0 = 3" by (simp only: utf8_width_def if_True if_False conj_absorb)
    moreover have "second_ok b0 b1" using 3 second_ok_cases(2) [of b0 b1] by blast
    ultimately show ?thesis using 3 by (simp add: bs del: valid_utf8.simps)
  next
    case (4 b1 b2 b3 r)
    then have "utf8_width b0 = 4" by (simp only: utf8_width_def if_True if_False conj_absorb)
    moreover have "second_ok b0 b1" using 4 second_ok_cases(3) [of b0 b1] by blast
    ultimately show ?thesis using 4 by (simp add: bs numeral_eq_Suc del: valid_utf8.simps)
  qed
qed

lemma from_utf8_lossy_valid: "valid_utf8 bs \<Longrightarrow> from_utf8_lossy bs = bs"
proof (induction bs rule: from_utf8_lossy.induct)
  case (1 bs)
  show ?case
  proof (cases "bs = []")
    case False
    note v = utf8_seq_valid [OF 1(2) False]
    have "from_utf8_lossy (drop (snd (utf8_seq bs)) bs) = drop (snd (utf8_seq bs)) bs"
      using 1(1) [OF False refl _ conjunct2 [OF v], of "fst (utf8_seq bs)"] by simp
    then show ?thesis using conjunct1 [OF v] False by (subst from_utf8_lossy.simps) (simp add: case_prod_beta)
  qed (simp add: from_utf8_lossy.simps)
qed

definition journal_entry_object :: "JournalEntry \<Rightarrow> JsValue" where
  "journal_entry_object e = js_object [(''entry_type'', JsString (entry_type_str (entry_type e))), (''table'', JsString (table e)),
     (''row_id'', JsNumber (uint (row_id e))), (''data'', JsString (of_bytes (from_utf8_lossy (entry_data e))))]"

definition byo_journal_parse :: "prims \<Rightarrow> b64_engines \<Rightarrow> VaultStore \<Rightarrow> u32 \<Rightarrow> string \<Rightarrow> string \<Rightarrow> JsValue" where
  "byo_journal_parse P E st sid pid journal_b64 =
     js_result (\<lambda>v. v) (and_then (decode_or E ''invalid base64 input'' journal_b64) (\<lambda>journal_bytes.
       Inr (found_result (\<lambda>es. js_object [(''entries'', JsArray (map journal_entry_object es))]) (with_vault_session st sid (\<lambda>sess.
         e_str (and_then (journal_keys P sess pid) (\<lambda>keys.
         map_err (\<lambda>e. InvalidFormat (JournalError_to_string e)) (parse_journal P keys journal_bytes))))))))"

subsection \<open>Share audit\<close>

definition SHARE_AUDIT_TABLE :: string where "SHARE_AUDIT_TABLE = ''share_audit''"

datatype ShareDirection = Outbound | Inbound

fun ShareDirection_value :: "ShareDirection \<Rightarrow> Value" where
  "ShareDirection_value Outbound = String ''outbound''"
| "ShareDirection_value Inbound = String ''inbound''"

text \<open>\<open>skip_serializing_if\<close> leaves an absent hint out.  Encoding these fields cannot fail.\<close>

definition build_share_audit_payload :: "json_codec \<Rightarrow> ShareDirection \<Rightarrow> string \<Rightarrow> string option \<Rightarrow> nat \<Rightarrow> bytes" where
  "build_share_audit_payload J direction file_ref counterparty_hint ts_ms =
     as_bytes (json_to_string J (Object
       ((case counterparty_hint of None \<Rightarrow> [] | Some h \<Rightarrow> [(''counterparty_hint'', String h)]) @
        [(''direction'', ShareDirection_value direction), (''file_ref'', String file_ref), (''ts'', Number (int ts_ms))])))"

definition direction_of :: "string \<Rightarrow> string + ShareDirection" where
  "direction_of s =
     (if s = ''outbound'' then Inr Outbound else if s = ''inbound'' then Inr Inbound else Inl (''unknown direction: '' @ s))"

definition byo_share_audit_payload :: "json_codec \<Rightarrow> string \<Rightarrow> string \<Rightarrow> string \<Rightarrow> js_f64 \<Rightarrow> JsValue" where
  "byo_share_audit_payload J direction_str file_ref counterparty_hint ts_ms =
     js_result (\<lambda>s. js_object [(''data_json'', JsString s)])
       (and_then (direction_of direction_str) (\<lambda>direction.
        if \<not> is_finite ts_ms \<or> f64_lt_zero ts_ms then Inl ''ts_ms must be a non-negative finite number''
        else
          let hint = (if counterparty_hint = [] then None else Some counterparty_hint) in
          Inr (of_bytes (build_share_audit_payload J direction file_ref hint (f64_as_u64 ts_ms)))))"

subsection \<open>Round trips across sessions\<close>

lemma derived_key:
  assumes "mac_lengths P"
  obtains k where "and_then (hkdf_sha256 P vk info 32) SymmetricKey_from_slice = Inr k" and "length k = 32"
proof -
  obtain okm where "hkdf_sha256 P vk info 32 = Inr okm" "length okm = 32"
    by (rule hkdf_sha256_ok [OF assms, of 32 vk info]) simp
  then show thesis using that [of okm] by (simp add: SymmetricKey_from_slice_def)
qed

lemma body_roundtrip:
  assumes "aead_correct P" and "length k = 32" and "length nonce = 12" and "length body \<le> aead_limit"
  obtains blob where "encrypt_body P nonce body k = Inr blob" and "decrypt_body P blob k = Inr body"
proof -
  obtain b where "aead_seal P k nonce body = Some b" "length b = length body + 16" "aead_open P k nonce b = Some body"
    using aead_correct_sealE [OF assms(1-4)] by auto
  then show thesis
    using that [of "nonce @ b"] assms
    by (simp add: encrypt_body_def decrypt_body_def aes_gcm_encrypt_with_nonce_def aes_gcm_decrypt_def Let_def)
qed

lemma js_str_object1 [simp]: "js_str (js_object [(k, JsString v)]) k = v"
  by (simp add: js_str_def js_get_object)

lemma found_result_session [simp]: "vault_sessions st sid = Some s \<Longrightarrow> found_result f (with_vault_session st sid g) = js_result f (g s)"
  by (simp add: found_result_def with_vault_session_def)

lemma manifest_over_bindings:
  assumes "aead_correct P" and "mac_lengths P" and "b64_ok E" and "codec_ok J" and "manifest_ok m" and "length nonce = 12"
    and "length (manifest_to_string J m) \<le> aead_limit"
    and "vault_sessions st sid = Some s" and "vault_sessions st' sid' = Some s'" and "vs_vault_key s' = vs_vault_key s"
  shows "byo_manifest_decrypt P E J X st' sid'
      (js_str (byo_manifest_encrypt P E J X nonce st sid (manifest_to_string J m)) ''data'') = manifest_object J m"
proof -
  obtain k where k: "derive_manifest_aead_key P (vs_vault_key s) = Inr k" "length k = 32"
    by (rule derived_key [OF assms(2), of "vs_vault_key s" BYO_MANIFEST_AEAD_V1]) (simp add: derive_manifest_aead_key_def)
  obtain blob where "encrypt_body P nonce (as_bytes (manifest_to_string J m)) k = Inr blob"
      "decrypt_body P blob k = Inr (as_bytes (manifest_to_string J m))"
    by (rule body_roundtrip [OF assms(1) k(2) assms(6), of "as_bytes (manifest_to_string J m)"]) (use assms(7) in simp_all)
  then show ?thesis
    using assms k
    by (simp add: byo_manifest_decrypt_def byo_manifest_encrypt_def encrypt_manifest_def decrypt_manifest_def
        manifest_to_vec_def manifest_from_slice_def data_object_def)
qed

lemma body_over_bindings:
  assumes "aead_correct P" and "mac_lengths P" and "b64_ok E" and "length nonce = 12" and "length body \<le> aead_limit" and "pid \<noteq> []"
    and "vault_sessions st sid = Some s" and "vault_sessions st' sid' = Some s'" and "vs_vault_key s' = vs_vault_key s"
  shows "byo_vault_body_decrypt P E st' sid' pid
      (js_str (byo_vault_body_encrypt P E nonce st sid pid (b64_encode E body)) ''data'') = data_object E ''data'' body"
proof -
  obtain k where k: "derive_per_vault_aead_key P (vs_vault_key s) pid = Inr k" "length k = 32"
    by (rule derived_key [OF assms(2), of "vs_vault_key s" "build_info BYO_PER_VAULT_AEAD_V1 pid"])
      (simp add: derive_per_vault_aead_key_def assms(6))
  obtain blob where "encrypt_body P nonce body k = Inr blob" "decrypt_body P blob k = Inr body"
    by (rule body_roundtrip [OF assms(1) k(2) assms(4,5)])
  then show ?thesis
    using assms k by (simp add: byo_vault_body_decrypt_def byo_vault_body_encrypt_def data_object_def)
qed

text \<open>A row for the journal as the caller of the binding gives it, with the nonce drawn for it.\<close>

record journal_row =
  jr_nonce :: bytes
  jr_type :: string
  jr_table :: string
  jr_row_id :: u32
  jr_data :: string

definition journal_row_ok :: "journal_row \<Rightarrow> bool" where
  "journal_row_ok r \<longleftrightarrow> length (jr_nonce r) = 12 \<and> jr_type r \<in> {''INSERT'', ''UPDATE'', ''DELETE''} \<and>
     jr_table r \<in> set ALLOWED_JOURNAL_TABLES \<and> length (jr_data r) + 16 \<le> MAX_ENTRY_DATA_LEN \<and> valid_utf8 (as_bytes (jr_data r))"

definition appended :: "prims \<Rightarrow> b64_engines \<Rightarrow> VaultStore \<Rightarrow> u32 \<Rightarrow> string \<Rightarrow> journal_row \<Rightarrow> bytes" where
  "appended P E st sid pid r =
     the (b64_decode E (js_str (byo_journal_append P E (jr_nonce r) st sid pid (jr_type r) (jr_table r) (jr_row_id r) (jr_data r)) ''entry_b64''))"

definition row_object :: "journal_row \<Rightarrow> JsValue" where
  "row_object r = js_object [(''entry_type'', JsString (jr_type r)), (''table'', JsString (jr_table r)),
     (''row_id'', JsNumber (uint (jr_row_id r))), (''data'', JsString (jr_data r))]"

definition row_entry :: "journal_row \<Rightarrow> JournalEntry" where
  "row_entry r = \<lparr>entry_type = (case entry_type_of (jr_type r) of Inr t \<Rightarrow> t | Inl _ \<Rightarrow> 0), table = jr_table r, row_id = jr_row_id r,
     entry_data = as_bytes (jr_data r)\<rparr>"

lemma entry_type_roundtrip:
  "t \<in> {''INSERT'', ''UPDATE'', ''DELETE''} \<Longrightarrow> \<exists>b. entry_type_of t = Inr b \<and> entry_type_str b = t \<and>
     b \<in> {ENTRY_TYPE_INSERT, ENTRY_TYPE_UPDATE, ENTRY_TYPE_DELETE}"
  by (auto simp: entry_type_of_def entry_type_str_def ENTRY_TYPE_INSERT_def ENTRY_TYPE_UPDATE_def ENTRY_TYPE_DELETE_def)

lemma row_entry_object: "journal_row_ok r \<Longrightarrow> journal_entry_object (row_entry r) = row_object r"
  using entry_type_roundtrip [of "jr_type r"]
  by (auto simp: journal_row_ok_def journal_entry_object_def row_entry_def row_object_def from_utf8_lossy_valid)

lemma append_row:
  assumes "b64_ok E" and "vault_sessions st sid = Some s" and "derive_per_vault_journal_keys P (vs_vault_key s) pid = Inr keys"
    and "journal_row_ok r" and "e = row_entry r"
    and "serialize_entry P (jr_nonce r) keys (entry_type e) (table e) (row_id e) (entry_data e) = Inr bs"
  shows "appended P E st sid pid r = bs"
  using assms entry_type_roundtrip [of "jr_type r"]
  by (auto simp: appended_def byo_journal_append_def journal_row_ok_def row_entry_def journal_keys_def)

lemma try_map_eq_map: "try_map f xs = Inr ys \<Longrightarrow> (\<And>x y. x \<in> set xs \<Longrightarrow> f x = Inr y \<Longrightarrow> g x = y) \<Longrightarrow> ys = map g xs"
  by (induction xs arbitrary: ys) (auto simp: and_then_Inr_conv)

lemma zip_map_both: "zip (map f xs) (map g xs) = map (\<lambda>x. (f x, g x)) xs"
  by (induction xs) simp_all

lemma journal_over_bindings:
  assumes "aead_correct P" and "mac_lengths P" and "b64_ok E" and "pid \<noteq> []" and "\<forall>r\<in>set rows. journal_row_ok r"
    and "vault_sessions st sid = Some s" and "vault_sessions st' sid' = Some s'" and "vs_vault_key s' = vs_vault_key s"
  shows "byo_journal_parse P E st' sid' pid (b64_encode E (build_journal_file (map (appended P E st sid pid) rows))) =
    js_object [(''entries'', JsArray (map row_object rows))]"
proof -
  obtain k where k: "derive_per_vault_journal_aead_key P (vs_vault_key s) pid = Inr k" "length k = 32"
    by (rule derived_key [OF assms(2), of "vs_vault_key s" "build_info BYO_PER_VAULT_JOURNAL_AEAD_V1 pid"])
      (simp add: derive_per_vault_journal_aead_key_def assms(4))
  obtain h where h: "derive_per_vault_journal_hmac_key P (vs_vault_key s) pid = Inr h"
    by (rule derived_key [OF assms(2), of "vs_vault_key s" "build_info BYO_PER_VAULT_JOURNAL_HMAC_V1 pid"])
      (simp add: derive_per_vault_journal_hmac_key_def assms(4))
  define keys where "keys = \<lparr>jk_aead = k, jk_hmac = h\<rparr>"
  have keys: "derive_per_vault_journal_keys P (vs_vault_key s) pid = Inr keys"
    by (simp add: derive_per_vault_journal_keys_def k h keys_def)
  have ok: "entry_type (row_entry r) \<in> {ENTRY_TYPE_INSERT, ENTRY_TYPE_UPDATE, ENTRY_TYPE_DELETE} \<and>
      table (row_entry r) \<in> set ALLOWED_JOURNAL_TABLES \<and> length (entry_data (row_entry r)) + 16 \<le> MAX_ENTRY_DATA_LEN"
    if "r \<in> set rows" for r
    using that assms(5) entry_type_roundtrip [of "jr_type r"] by (auto simp: journal_row_ok_def row_entry_def)
  let ?f = "\<lambda>(nonce, e). serialize_entry P nonce keys (entry_type e) (table e) (row_id e) (entry_data e)"
  have "\<exists>bs. try_map ?f (zip (map jr_nonce rows) (map row_entry rows)) = Inr bs \<and>
      parse_journal P keys (build_journal_file bs) = Inr (map row_entry rows)"
    by (rule journal_roundtrip [OF assms(1,2)]) (use assms(5) ok k in \<open>auto simp: keys_def journal_row_ok_def\<close>)
  then obtain bs where bs: "try_map ?f (map (\<lambda>r. (jr_nonce r, row_entry r)) rows) = Inr bs"
      "parse_journal P keys (build_journal_file bs) = Inr (map row_entry rows)"
    unfolding zip_map_both by blast
  have "try_map (\<lambda>r. ?f (jr_nonce r, row_entry r)) rows = Inr bs" using bs(1) by (simp add: try_map_map)
  then have "bs = map (appended P E st sid pid) rows"
    by (rule try_map_eq_map) (use append_row [OF assms(3,6) keys] assms(5) in simp)
  moreover have "map journal_entry_object (map row_entry rows) = map row_object rows"
    using assms(5) by (simp add: row_entry_object)
  ultimately show ?thesis
    using bs(2) keys assms(3,7,8) by (simp add: byo_journal_parse_def journal_keys_def cong: map_cong)
qed

text \<open>
  C15.  What one session of the browser writes, any later session of the same vault reads: the manifest
  text, the body of a provider's vault and the rows appended to its journal come back unchanged,
  through base64, JSON, encryption and authentication.
\<close>

theorem vault_files_over_bindings:
  assumes "aead_correct P" and "mac_lengths P" and "b64_ok E" and "codec_ok J"
    and "vault_sessions st sid = Some s" and "vault_sessions st' sid' = Some s'" and "vs_vault_key s' = vs_vault_key s"
    and "length nonce = 12" and "pid \<noteq> []" and "length body \<le> aead_limit"
    and "manifest_ok m" and "length (manifest_to_string J m) \<le> aead_limit"
    and "\<forall>r\<in>set rows. journal_row_ok r"
  shows "byo_manifest_decrypt P E J X st' sid'
      (js_str (byo_manifest_encrypt P E J X nonce st sid (manifest_to_string J m)) ''data'') = manifest_object J m \<and>
    byo_vault_body_decrypt P E st' sid' pid
      (js_str (byo_vault_body_encrypt P E nonce st sid pid (b64_encode E body)) ''data'') = data_object E ''data'' body \<and>
    byo_journal_parse P E st' sid' pid (b64_encode E (build_journal_file (map (appended P E st sid pid) rows))) =
      js_object [(''entries'', JsArray (map row_object rows))]"
  using manifest_over_bindings [OF assms(1-4,11,8,12,5-7)] body_over_bindings [OF assms(1-3,8,10,9,5-7)]
    journal_over_bindings [OF assms(1-3,9,13,5-7)] by blast

definition demo_store :: VaultStore where
  "demo_store = snd (store_vault_session \<lparr>vs_vault_key = replicate 32 1, vs_client_kek_half = [], vs_kek = None\<rparr> vault_store_init)"

definition demo_row :: journal_row where
  "demo_row = \<lparr>jr_nonce = replicate 12 3, jr_type = ''INSERT'', jr_table = ''files'', jr_row_id = 7, jr_data = ''{}''\<rparr>"

theorem vault_files_over_bindings_witness:
  "byo_journal_parse toy_prims toy_b64 demo_store 1 ''p''
     (b64_encode toy_b64 (build_journal_file (map (appended toy_prims toy_b64 demo_store 1 ''p'') [demo_row]))) =
   js_object [(''entries'', JsArray [row_object demo_row])]"
proof -
  have s: "vault_sessions demo_store 1 = Some \<lparr>vs_vault_key = replicate 32 1, vs_client_kek_half = [], vs_kek = None\<rparr>"
    by (simp add: demo_store_def store_vault_session_def vault_store_init_def Let_def)
  have r: "\<forall>r\<in>set [demo_row]. journal_row_ok r"
    by (simp add: demo_row_def journal_row_ok_def ALLOWED_JOURNAL_TABLES_def MAX_ENTRY_DATA_LEN_def as_bytes_def)
  have m: "manifest_ok \<lparr>manifest_version = 0, providers = []\<rparr>" by (simp add: manifest_ok_def)
  have l: "length (manifest_to_string toy_codec \<lparr>manifest_version = 0, providers = []\<rparr>) \<le> aead_limit"
    by (simp add: manifest_to_string_def Manifest_value_def toy_codec_def put_int_def)
  show ?thesis
    using vault_files_over_bindings [OF toy_ok(1,2) b64_ok_toy codec_ok_toy s s refl, of "replicate 12 0" "''p''" "[]", OF _ _ _ m l r]
    by simp
qed

subsection \<open>Recovery of moves\<close>

lemma decode_step_entry: "codec_ok J \<Longrightarrow> step_ok s \<Longrightarrow> decode_step J X (to_wal_entry J s) = Inr s"
  by (simp add: decode_step_def parse_as_def to_wal_entry_def of_bytes_as_bytes codec_okD MoveStep_value_ok MoveStep_of_value_value)

lemma parse_strings:
  assumes "codec_ok J"
  shows "parse_as J X strings_of (json_to_string J (Array (map String ss))) = Inr ss"
proof -
  have "array_of as_str (Array (map String ss)) = Some ss" by (induction ss) (auto simp: array_of_def)
  then show ?thesis using assms by (simp add: parse_as_def strings_of_def codec_okD)
qed

lemma try_map_entries:
  assumes "b64_ok E" and "codec_ok J" and "\<forall>s\<in>set pending. step_ok s"
  shows "try_map (\<lambda>b64. and_then (decode_or E msg b64) (decode_step J X)) (map (\<lambda>s. b64_encode E (to_wal_entry J s)) pending) = Inr pending"
  using assms(3) by (induction pending) (simp_all add: assms(1,2) decode_step_entry)

text \<open>
  C13.  Recovery of a cross-provider move from its journal, as the host sees it.  Of the steps that were
  journalled with \<open>to_wal_entry\<close> and are handed back in base64, a deletion of a source blob is to be retried, with its
  own provider and reference, exactly when the row at the destination exists and the blob is not known to be gone;
  it is skipped when the blob is known to be gone and refused while the row is missing, when the source
  has the only copy; no other step is ever retried.  The list form yields these deletions in
  journal order and nothing else.  In every plan a deletion comes after the row at the destination is written, which comes after
  the upload, and names the source; so no recovery of a plan's steps deletes anything but the moved blob.
\<close>

theorem move_recovery_over_bindings:
  assumes "b64_ok E" and "codec_ok J" and "\<forall>s\<in>set pending. step_ok s"
  shows "(\<forall>step\<in>set pending.
      byo_cross_provider_move_decide_replay E J X (b64_encode E (to_wal_entry J step)) committed report =
        (case step of
           DeleteSourceBlob p r \<Rightarrow>
             if \<not> committed then js_object [(''decision'', JsString ''Abort'')]
             else if report = ''false'' then js_object [(''decision'', JsString ''Skip'')]
             else js_object [(''decision'', JsString ''Retry''), (''provider_id'', JsString p), (''provider_ref'', JsString r)]
         | _ \<Rightarrow> js_object [(''decision'', JsString ''Abort'')])) \<and>
    byo_cross_provider_move_plan_reconcile E J X
        (json_to_string J (Array (map String (map (\<lambda>s. b64_encode E (to_wal_entry J s)) pending)))) committed report =
      js_object [(''actions'', JsArray (if committed \<and> report \<noteq> ''false'' then map action_object (List.map_filter deletion pending) else []))] \<and>
    (\<forall>file_id ref src dst folder name revokes steps.
      steps = mp_steps (CrossProviderMovePlan_build file_id ref src dst folder name revokes) \<longrightarrow>
        (\<forall>k p r f. k < length steps \<and> (steps ! k = DeleteSourceBlob p r \<or> steps ! k = DeleteSourceVaultRow p f) \<longrightarrow>
           p = src \<and> (\<exists>i<k. steps ! i = InsertDestVaultRow dst folder \<and> (\<exists>j<i. steps ! j = UploadDestBlob dst))) \<and>
        (set pending \<subseteq> set steps \<longrightarrow> set (List.map_filter deletion pending) \<subseteq> {DeleteBlob src ref}))"
proof (intro conjI allI impI ballI)
  fix step assume "step \<in> set pending"
  then have "decode_step J X (to_wal_entry J step) = Inr step" using assms(2,3) by (simp add: decode_step_entry)
  then show "byo_cross_provider_move_decide_replay E J X (b64_encode E (to_wal_entry J step)) committed report =
        (case step of
           DeleteSourceBlob p r \<Rightarrow>
             if \<not> committed then js_object [(''decision'', JsString ''Abort'')]
             else if report = ''false'' then js_object [(''decision'', JsString ''Skip'')]
             else js_object [(''decision'', JsString ''Retry''), (''provider_id'', JsString p), (''provider_ref'', JsString r)]
         | _ \<Rightarrow> js_object [(''decision'', JsString ''Abort'')])"
    using assms(1) by (cases step) (simp_all add: byo_cross_provider_move_decide_replay_def blob_report_def)
next
  show "byo_cross_provider_move_plan_reconcile E J X
        (json_to_string J (Array (map String (map (\<lambda>s. b64_encode E (to_wal_entry J s)) pending)))) committed report =
      js_object [(''actions'', JsArray (if committed \<and> report \<noteq> ''false'' then map action_object (List.map_filter deletion pending) else []))]"
    using try_map_entries [OF assms, of "''step b64 decode failed''" X] parse_strings [OF assms(2)]
    by (simp add: byo_cross_provider_move_plan_reconcile_def plan_reconcile_eq blob_report_def del: map_map)
next
  fix file_id ref src dst folder name revokes steps k p r f
  assume steps: "steps = mp_steps (CrossProviderMovePlan_build file_id ref src dst folder name revokes)"
    and k: "k < length steps \<and> (steps ! k = DeleteSourceBlob p r \<or> steps ! k = DeleteSourceVaultRow p f)"
  from plan_deletes_last [OF steps conjunct1 [OF k] conjunct2 [OF k]]
  show "p = src" "\<exists>i<k. steps ! i = InsertDestVaultRow dst folder \<and> (\<exists>j<i. steps ! j = UploadDestBlob dst)" by blast+
next
  fix file_id ref src dst folder name revokes steps
  assume "steps = mp_steps (CrossProviderMovePlan_build file_id ref src dst folder name revokes)" "set pending \<subseteq> set steps"
  then show "set (List.map_filter deletion pending) \<subseteq> {DeleteBlob src ref}"
    by (fastforce simp: set_map_filter CrossProviderMovePlan_build_def)
qed

theorem move_recovery_over_bindings_witness:
  "let entry = b64_encode toy_b64 (to_wal_entry toy_codec (DeleteSourceBlob ''s'' ''r'')) in
   byo_cross_provider_move_decide_replay toy_b64 toy_codec (\<lambda>s. []) entry False ''unknown'' = js_object [(''decision'', JsString ''Abort'')] \<and>
   byo_cross_provider_move_decide_replay toy_b64 toy_codec (\<lambda>s. []) entry True ''unknown'' =
     js_object [(''decision'', JsString ''Retry''), (''provider_id'', JsString ''s''), (''provider_ref'', JsString ''r'')]"
  using move_recovery_over_bindings [OF b64_ok_toy codec_ok_toy, of "[DeleteSourceBlob ''s'' ''r'']" "\<lambda>s. []", THEN conjunct1]
  by (simp add: Let_def)

end
