(* ===== verification/Enroll_Protocol.thy ===== *)
theory Enroll_Protocol
  imports Crypto_Prims
begin

text \<open>
  Device enrolment between two devices of a user (\<open>sdk-core/src/byo/enrollment.rs\<close> with
  \<open>crypto/asymmetric.rs\<close>): ephemeral X25519 agreement bound to the channel, the six-digit short
  authentication string, and the authenticated envelopes that carry the shard and the provider
  configuration.  The random draws are arguments.  The devices exchange the public keys and the
  envelopes over the relay's enrolment channel.
\<close>

subsection \<open>Key agreement\<close>

definition generate_x25519_keypair :: "prims \<Rightarrow> bytes \<Rightarrow> CryptoError + bytes \<times> bytes" where
  "generate_x25519_keypair P secret = Inr (x25519_base P secret, secret)"

definition x25519_agree :: "prims \<Rightarrow> bytes \<Rightarrow> bytes \<Rightarrow> CryptoError + bytes" where
  "x25519_agree P own_secret their_pub =
     (if length their_pub \<noteq> 32 then Inl InvalidKeyMaterial else Inr (x25519_dh P own_secret their_pub))"

definition BYO_ENROLL_ENC_V1 :: bytes where "BYO_ENROLL_ENC_V1 = as_bytes ''SCEnroll Enc v1''"
definition BYO_ENROLL_MAC_V1 :: bytes where "BYO_ENROLL_MAC_V1 = as_bytes ''SCEnroll MAC v1''"
definition BYO_ENROLL_SAS_V1 :: bytes where "BYO_ENROLL_SAS_V1 = as_bytes ''SCEnroll SAS v1''"

record EnrollmentSession =
  enc_key :: bytes
  es_mac_key :: bytes
  sas_code :: u32

text \<open>\<open>{:06}\<close>: decimal, padded with zeros to six digits.\<close>

definition to_string_padded :: "u32 \<Rightarrow> string" where
  "to_string_padded code = (let s = show_nat (unat code) in replicate (6 - length s) CHR ''0'' @ s)"

definition enrollment_initiate :: "prims \<Rightarrow> bytes \<Rightarrow> bytes \<Rightarrow> EnrollmentError + bytes \<times> bytes \<times> bytes" where
  "enrollment_initiate P rnd_secret rnd_channel =
     and_then (map_err EnrollmentCrypto (generate_x25519_keypair P rnd_secret)) (\<lambda>(eph_pk, eph_sk).
       Inr (eph_sk, eph_pk, rnd_channel))"

definition enrollment_join :: "prims \<Rightarrow> bytes \<Rightarrow> EnrollmentError + bytes \<times> bytes" where
  "enrollment_join P rnd_secret =
     and_then (map_err EnrollmentCrypto (generate_x25519_keypair P rnd_secret)) (\<lambda>(eph_pk, eph_sk).
       Inr (eph_sk, eph_pk))"

definition enrollment_derive_session :: "prims \<Rightarrow> bytes \<Rightarrow> bytes \<Rightarrow> bytes \<Rightarrow> EnrollmentError + EnrollmentSession" where
  "enrollment_derive_session P eph_sk peer_pk channel_id =
     and_then (map_err EnrollmentCrypto (x25519_agree P eph_sk peer_pk)) (\<lambda>shared.
     and_then (map_err EnrollmentCrypto (hkdf_sha256 P shared (BYO_ENROLL_ENC_V1 @ channel_id) 32)) (\<lambda>enc_key_bytes.
     and_then (map_err EnrollmentCrypto (hkdf_sha256 P shared (BYO_ENROLL_MAC_V1 @ channel_id) 32)) (\<lambda>mac_key_bytes.
     and_then (map_err EnrollmentCrypto (hkdf_sha256 P shared (BYO_ENROLL_SAS_V1 @ channel_id) 6)) (\<lambda>sas_bytes.
     if length (take 4 sas_bytes) \<noteq> 4 then Inl (InvalidInput ''SAS derivation output too short'')
     else
       let sas_raw = u32_from_be (take 4 sas_bytes); sas = sas_raw mod 1000000 in
       and_then (map_err EnrollmentCrypto (SymmetricKey_from_slice enc_key_bytes)) (\<lambda>ek.
       and_then (map_err EnrollmentCrypto (SymmetricKey_from_slice mac_key_bytes)) (\<lambda>mk.
       Inr \<lparr>enc_key = ek, es_mac_key = mk, sas_code = sas\<rparr>))))))"

subsection \<open>Shard envelopes\<close>

record ShardEnvelope =
  sh_nonce :: bytes
  sh_ciphertext :: bytes
  sh_hmac :: bytes

definition ShardEnvelope_to_bytes :: "ShardEnvelope \<Rightarrow> bytes" where
  "ShardEnvelope_to_bytes e = sh_nonce e @ sh_ciphertext e @ sh_hmac e"

definition ShardEnvelope_from_bytes :: "bytes \<Rightarrow> EnrollmentError + ShardEnvelope" where
  "ShardEnvelope_from_bytes data =
     (if length data \<noteq> 92 then Inl (InvalidInput ''envelope must be exactly 92 bytes'')
      else
        let nonce_bytes = take 12 data;
            hmac = drop (length data - 32) data;
            ciphertext = slice 12 (length data - 32) data in
        if length ciphertext < 16 then Inl (InvalidInput ''ciphertext too short (must include GCM tag)'')
        else Inr \<lparr>sh_nonce = nonce_bytes, sh_ciphertext = ciphertext, sh_hmac = hmac\<rparr>)"

definition encrypt_shard_for_transfer :: "prims \<Rightarrow> bytes \<Rightarrow> bytes \<Rightarrow> bytes \<Rightarrow> bytes \<Rightarrow> EnrollmentError + ShardEnvelope" where
  "encrypt_shard_for_transfer P nonce shard ek mk =
     and_then (map_err EnrollmentCrypto (aes_gcm_encrypt_with_nonce P shard ek nonce)) (\<lambda>ciphertext.
     and_then (map_err EnrollmentCrypto (hmac_sha256 P mk (nonce @ ciphertext))) (\<lambda>hmac.
     Inr \<lparr>sh_nonce = nonce, sh_ciphertext = ciphertext, sh_hmac = hmac\<rparr>))"

definition decrypt_shard_from_transfer :: "prims \<Rightarrow> ShardEnvelope \<Rightarrow> bytes \<Rightarrow> bytes \<Rightarrow> EnrollmentError + bytes" where
  "decrypt_shard_from_transfer P envelope ek mk =
     and_then (map_err EnrollmentCrypto (hmac_sha256 P mk (sh_nonce envelope @ sh_ciphertext envelope))) (\<lambda>computed_hmac.
     if \<not> constant_time_eq (sh_hmac envelope) computed_hmac then Inl HmacMismatch
     else and_then (map_err EnrollmentCrypto (aes_gcm_decrypt P (sh_ciphertext envelope) (sh_nonce envelope) ek)) (\<lambda>plaintext.
       map_err EnrollmentCrypto (SymmetricKey_from_slice plaintext)))"

subsection \<open>Payload envelopes\<close>

definition MAX_PAYLOAD_PLAINTEXT_LEN :: nat where "MAX_PAYLOAD_PLAINTEXT_LEN = 64 * 1024"

record PayloadEnvelope =
  pl_nonce :: bytes
  pl_ciphertext :: bytes
  pl_hmac :: bytes

definition ct_len_be :: "bytes \<Rightarrow> bytes" where
  "ct_len_be ciphertext = u32_to_be (word_of_nat (length ciphertext))"

definition PayloadEnvelope_to_bytes :: "PayloadEnvelope \<Rightarrow> bytes" where
  "PayloadEnvelope_to_bytes e = pl_nonce e @ ct_len_be (pl_ciphertext e) @ pl_ciphertext e @ pl_hmac e"

definition PayloadEnvelope_from_bytes :: "bytes \<Rightarrow> EnrollmentError + PayloadEnvelope" where
  "PayloadEnvelope_from_bytes data =
     (if length data < 16 + 16 + 32 then Inl (InvalidInput ''payload envelope too short (< nonce+len+tag+hmac)'')
      else
        let nonce_bytes = take 12 data;
            ct_len = unat (u32_from_be (slice 12 16 data)) in
        if ct_len < 16 then Inl (InvalidInput ''ciphertext too short (must include GCM tag)'')
        else if ct_len - 16 > MAX_PAYLOAD_PLAINTEXT_LEN then Inl (InvalidInput ''payload envelope exceeds max plaintext size'')
        else if length data \<noteq> 16 + ct_len + 32 then Inl (InvalidInput ''payload envelope length does not match ct_len'')
        else Inr \<lparr>pl_nonce = nonce_bytes, pl_ciphertext = slice 16 (16 + ct_len) data, pl_hmac = drop (16 + ct_len) data\<rparr>)"

definition encrypt_payload_for_transfer :: "prims \<Rightarrow> bytes \<Rightarrow> bytes \<Rightarrow> bytes \<Rightarrow> bytes \<Rightarrow> EnrollmentError + PayloadEnvelope" where
  "encrypt_payload_for_transfer P nonce payload ek mk =
     (if length payload > MAX_PAYLOAD_PLAINTEXT_LEN then Inl (InvalidInput ''payload exceeds max plaintext size'')
      else
        and_then (map_err EnrollmentCrypto (aes_gcm_encrypt_with_nonce P payload ek nonce)) (\<lambda>ciphertext.
        and_then (map_err EnrollmentCrypto (hmac_sha256 P mk (nonce @ ct_len_be ciphertext @ ciphertext))) (\<lambda>hmac.
        Inr \<lparr>pl_nonce = nonce, pl_ciphertext = ciphertext, pl_hmac = hmac\<rparr>)))"

definition decrypt_payload_from_transfer :: "prims \<Rightarrow> PayloadEnvelope \<Rightarrow> bytes \<Rightarrow> bytes \<Rightarrow> EnrollmentError + bytes" where
  "decrypt_payload_from_transfer P envelope ek mk =
     and_then (map_err EnrollmentCrypto
       (hmac_sha256 P mk (pl_nonce envelope @ ct_len_be (pl_ciphertext envelope) @ pl_ciphertext envelope))) (\<lambda>computed_hmac.
     if \<not> constant_time_eq (pl_hmac envelope) computed_hmac then Inl HmacMismatch
     else and_then (map_err EnrollmentCrypto (aes_gcm_decrypt P (pl_ciphertext envelope) (pl_nonce envelope) ek)) (\<lambda>plaintext.
       if length plaintext > MAX_PAYLOAD_PLAINTEXT_LEN
       then Inl (InvalidInput ''decrypted payload exceeds max plaintext size'')
       else Inr plaintext))"

text \<open>What the receiving device does with the bytes of a message.\<close>

definition receive_shard :: "prims \<Rightarrow> EnrollmentSession \<Rightarrow> bytes \<Rightarrow> EnrollmentError + bytes" where
  "receive_shard P s data =
     and_then (ShardEnvelope_from_bytes data) (\<lambda>e. decrypt_shard_from_transfer P e (enc_key s) (es_mac_key s))"

definition receive_payload :: "prims \<Rightarrow> EnrollmentSession \<Rightarrow> bytes \<Rightarrow> EnrollmentError + bytes" where
  "receive_payload P s data =
     and_then (PayloadEnvelope_from_bytes data) (\<lambda>e. decrypt_payload_from_transfer P e (enc_key s) (es_mac_key s))"

subsection \<open>Parsing is exact\<close>

definition shard_envelope_ok :: "ShardEnvelope \<Rightarrow> bool" where
  "shard_envelope_ok e \<longleftrightarrow> length (sh_nonce e) = 12 \<and> length (sh_ciphertext e) = 48 \<and> length (sh_hmac e) = 32"

definition payload_envelope_ok :: "PayloadEnvelope \<Rightarrow> bool" where
  "payload_envelope_ok e \<longleftrightarrow> length (pl_nonce e) = 12 \<and> 16 \<le> length (pl_ciphertext e) \<and>
     length (pl_ciphertext e) \<le> MAX_PAYLOAD_PLAINTEXT_LEN + 16 \<and> length (pl_hmac e) = 32"

lemma shard_from_bytes_iff:
  "ShardEnvelope_from_bytes data = Inr e \<longleftrightarrow> shard_envelope_ok e \<and> data = ShardEnvelope_to_bytes e"
proof
  assume A: "ShardEnvelope_from_bytes data = Inr e"
  then have l: "length data = 92" by (simp add: ShardEnvelope_from_bytes_def split: if_splits)
  then have e: "e = \<lparr>sh_nonce = take 12 data, sh_ciphertext = slice 12 60 data, sh_hmac = drop 60 data\<rparr>"
    using A by (simp add: ShardEnvelope_from_bytes_def Let_def)
  have "take 12 data @ slice 12 60 data @ drop 60 data = data"
    using slice_split [of 0 12 60 data] by (simp add: slice_0 append_assoc [symmetric] del: append_assoc)
  then show "shard_envelope_ok e \<and> data = ShardEnvelope_to_bytes e"
    using l by (simp add: e shard_envelope_ok_def ShardEnvelope_to_bytes_def)
next
  assume "shard_envelope_ok e \<and> data = ShardEnvelope_to_bytes e"
  then show "ShardEnvelope_from_bytes data = Inr e"
    by (cases e) (simp add: shard_envelope_ok_def ShardEnvelope_to_bytes_def ShardEnvelope_from_bytes_def Let_def slice_def)
qed

lemma ct_len_be_length [simp]: "length (ct_len_be c) = 4"
  by (simp add: ct_len_be_def)

lemma ct_len_be_decode: "length c < 2 ^ 32 \<Longrightarrow> unat (u32_from_be (ct_len_be c)) = length c"
  by (simp add: ct_len_be_def unat_of_nat)

lemma payload_from_bytes_iff:
  "PayloadEnvelope_from_bytes data = Inr e \<longleftrightarrow> payload_envelope_ok e \<and> data = PayloadEnvelope_to_bytes e"
proof
  assume A: "PayloadEnvelope_from_bytes data = Inr e"
  let ?n = "unat (u32_from_be (slice 12 16 data))"
  have l: "length data = 16 + ?n + 32" "16 \<le> ?n" "?n \<le> MAX_PAYLOAD_PLAINTEXT_LEN + 16"
    and e: "e = \<lparr>pl_nonce = take 12 data, pl_ciphertext = slice 16 (16 + ?n) data, pl_hmac = drop (16 + ?n) data\<rparr>"
    using A by (auto simp: PayloadEnvelope_from_bytes_def Let_def split: if_splits)
  have ct: "length (slice 16 (16 + ?n) data) = ?n" using l by simp
  have "ct_len_be (slice 16 (16 + ?n) data) = slice 12 16 data"
    using l by (simp add: ct_len_be_def ct u32_to_from_be)
  moreover have "take 12 data @ slice 12 16 data @ slice 16 (16 + ?n) data @ drop (16 + ?n) data = data"
    using slice_split [of 0 12 16 data] slice_split [of 0 16 "16 + ?n" data]
    by (simp add: slice_0 append_assoc [symmetric] del: append_assoc)
  ultimately show "payload_envelope_ok e \<and> data = PayloadEnvelope_to_bytes e"
    using l ct by (simp add: e payload_envelope_ok_def PayloadEnvelope_to_bytes_def)
next
  assume A: "payload_envelope_ok e \<and> data = PayloadEnvelope_to_bytes e"
  then have "length (pl_ciphertext e) < 2 ^ 32" by (simp add: payload_envelope_ok_def MAX_PAYLOAD_PLAINTEXT_LEN_def)
  then have "unat (u32_from_be (ct_len_be (pl_ciphertext e))) = length (pl_ciphertext e)" by (rule ct_len_be_decode)
  moreover have "slice 12 16 data = ct_len_be (pl_ciphertext e)"
    using A by (simp add: payload_envelope_ok_def PayloadEnvelope_to_bytes_def slice_def)
  ultimately show "PayloadEnvelope_from_bytes data = Inr e"
    using A by (cases e) (auto simp: payload_envelope_ok_def PayloadEnvelope_to_bytes_def PayloadEnvelope_from_bytes_def Let_def slice_def)
qed

subsection \<open>The short authentication string\<close>

lemma show_nat_length: "n < 10 ^ k \<Longrightarrow> 0 < k \<Longrightarrow> length (show_nat n) \<le> k"
proof (induction n arbitrary: k rule: show_nat.induct)
  case (1 n)
  show ?case
  proof (cases "n < 10")
    case True
    then show ?thesis using 1 by (simp add: show_nat.simps [of n])
  next
    case False
    then obtain j where k: "k = Suc j" "0 < j" using 1 by (cases k; cases "k - 1") auto
    then have "n div 10 < 10 ^ j" using 1 by (simp add: less_mult_imp_div_less mult.commute)
    then show ?thesis using 1(1) [OF False, of j] k False by (simp add: show_nat.simps [of n])
  qed
qed

lemma sas_lt: "unat ((w :: u32) mod 1000000) < 1000000"
  by (simp add: unat_mod)

lemma to_string_padded_length: "unat c < 1000000 \<Longrightarrow> length (to_string_padded c) = 6"
  using show_nat_length [of "unat c" 6] by (simp add: to_string_padded_def Let_def)

subsection \<open>Sessions\<close>

text \<open>X25519: a public key has 32 bytes and the agreement of two key pairs commutes.\<close>

definition x25519_commutes :: "prims \<Rightarrow> bytes \<Rightarrow> bytes \<Rightarrow> bool" where
  "x25519_commutes P a b \<longleftrightarrow>
     length (x25519_base P a) = 32 \<and> length (x25519_base P b) = 32 \<and>
     x25519_dh P a (x25519_base P b) = x25519_dh P b (x25519_base P a)"

definition session_keys_ok :: "EnrollmentSession \<Rightarrow> bool" where
  "session_keys_ok s \<longleftrightarrow> length (enc_key s) = 32 \<and> length (es_mac_key s) = 32 \<and> unat (sas_code s) < 1000000"

lemma derive_session_ok:
  assumes "enrollment_derive_session P sk pk ch = Inr s"
  shows "length pk = 32" and "session_keys_ok s"
  using assms
  by (auto simp: enrollment_derive_session_def x25519_agree_def and_then_Inr_conv Let_def session_keys_ok_def
      unat_mod split: if_splits)

lemma derive_session_total:
  assumes "mac_lengths P" and "length pk = 32"
  obtains s where "enrollment_derive_session P sk pk ch = Inr s"
proof -
  let ?k = "x25519_dh P sk pk"
  obtain a where a: "hkdf_expand P ?k (BYO_ENROLL_ENC_V1 @ ch) 32 = Some a" "length a = 32"
    by (rule mac_lengths_hkdfE [OF assms(1), of 32 ?k "BYO_ENROLL_ENC_V1 @ ch"]) simp
  obtain b where b: "hkdf_expand P ?k (BYO_ENROLL_MAC_V1 @ ch) 32 = Some b" "length b = 32"
    by (rule mac_lengths_hkdfE [OF assms(1), of 32 ?k "BYO_ENROLL_MAC_V1 @ ch"]) simp
  obtain c where c: "hkdf_expand P ?k (BYO_ENROLL_SAS_V1 @ ch) 6 = Some c" "length c = 6"
    by (rule mac_lengths_hkdfE [OF assms(1), of 6 ?k "BYO_ENROLL_SAS_V1 @ ch"]) simp
  show thesis
    using that a b c assms(2)
    by (simp add: enrollment_derive_session_def x25519_agree_def hkdf_sha256_def Let_def SymmetricKey_from_slice_def)
qed

lemma derive_session_agree:
  assumes "x25519_commutes P a b"
  shows "enrollment_derive_session P a (x25519_base P b) ch = enrollment_derive_session P b (x25519_base P a) ch"
  using assms by (simp add: x25519_commutes_def enrollment_derive_session_def x25519_agree_def)

subsection \<open>Envelopes of a session\<close>

text \<open>The message under the MAC of an envelope: everything in front of the tag.\<close>

definition shard_mac_input :: "ShardEnvelope \<Rightarrow> bytes" where
  "shard_mac_input e = sh_nonce e @ sh_ciphertext e"

definition payload_mac_input :: "PayloadEnvelope \<Rightarrow> bytes" where
  "payload_mac_input e = pl_nonce e @ ct_len_be (pl_ciphertext e) @ pl_ciphertext e"

lemma decrypt_shard_iff:
  "decrypt_shard_from_transfer P e ek mk = Inr x \<longleftrightarrow>
     sh_hmac e = hmac_raw P mk (shard_mac_input e) \<and> length ek = 32 \<and>
     aead_open P ek (sh_nonce e) (sh_ciphertext e) = Some x \<and> length x = 32"
  by (auto simp: decrypt_shard_from_transfer_def and_then_Inr_conv hmac_sha256_def aes_gcm_decrypt_def
      shard_mac_input_def split: if_splits)

lemma decrypt_payload_iff:
  "decrypt_payload_from_transfer P e ek mk = Inr x \<longleftrightarrow>
     pl_hmac e = hmac_raw P mk (payload_mac_input e) \<and> length ek = 32 \<and>
     aead_open P ek (pl_nonce e) (pl_ciphertext e) = Some x \<and> length x \<le> MAX_PAYLOAD_PLAINTEXT_LEN"
  by (auto simp: decrypt_payload_from_transfer_def and_then_Inr_conv hmac_sha256_def aes_gcm_decrypt_def
      payload_mac_input_def not_less split: if_splits)

lemma to_bytes_mac_input:
  "ShardEnvelope_to_bytes e = shard_mac_input e @ sh_hmac e"
  "PayloadEnvelope_to_bytes f = payload_mac_input f @ pl_hmac f"
  by (simp_all add: ShardEnvelope_to_bytes_def shard_mac_input_def PayloadEnvelope_to_bytes_def payload_mac_input_def)

lemma receive_shard_iff:
  "receive_shard P s data = Inr x \<longleftrightarrow>
     (\<exists>e. shard_envelope_ok e \<and> data = ShardEnvelope_to_bytes e \<and>
        decrypt_shard_from_transfer P e (enc_key s) (es_mac_key s) = Inr x)"
  by (auto simp: receive_shard_def and_then_Inr_conv shard_from_bytes_iff)

lemma receive_payload_iff:
  "receive_payload P s data = Inr x \<longleftrightarrow>
     (\<exists>e. payload_envelope_ok e \<and> data = PayloadEnvelope_to_bytes e \<and>
        decrypt_payload_from_transfer P e (enc_key s) (es_mac_key s) = Inr x)"
  by (auto simp: receive_payload_def and_then_Inr_conv payload_from_bytes_iff)

lemma encrypt_shard_iff:
  "encrypt_shard_for_transfer P n x ek mk = Inr e \<longleftrightarrow>
     length ek = 32 \<and> sh_nonce e = n \<and> aead_seal P ek n x = Some (sh_ciphertext e) \<and>
     sh_hmac e = hmac_raw P mk (shard_mac_input e)"
  by (cases e) (auto simp: encrypt_shard_for_transfer_def and_then_Inr_conv aes_gcm_encrypt_with_nonce_def
      hmac_sha256_def shard_mac_input_def split: if_splits)

lemma encrypt_payload_iff:
  "encrypt_payload_for_transfer P n x ek mk = Inr e \<longleftrightarrow>
     length x \<le> MAX_PAYLOAD_PLAINTEXT_LEN \<and> length ek = 32 \<and> pl_nonce e = n \<and>
     aead_seal P ek n x = Some (pl_ciphertext e) \<and> pl_hmac e = hmac_raw P mk (payload_mac_input e)"
  by (cases e) (auto simp: encrypt_payload_for_transfer_def and_then_Inr_conv aes_gcm_encrypt_with_nonce_def
      hmac_sha256_def payload_mac_input_def split: if_splits)

lemma shard_transfer:
  assumes "aead_correct P" and "mac_lengths P" and "session_keys_ok s" and "length n = 12" and "length x = 32"
  obtains e where "encrypt_shard_for_transfer P n x (enc_key s) (es_mac_key s) = Inr e"
    and "length (ShardEnvelope_to_bytes e) = 92" and "receive_shard P s (ShardEnvelope_to_bytes e) = Inr x"
proof -
  have k: "length (enc_key s) = 32" and l: "length x \<le> aead_limit"
    using assms(3,5) by (auto simp: session_keys_ok_def)
  obtain c where c: "aead_seal P (enc_key s) n x = Some c" "length c = length x + 16"
      "aead_open P (enc_key s) n c = Some x"
    by (rule aead_correct_sealE [OF assms(1) k assms(4) l])
  define e where "e = \<lparr>sh_nonce = n, sh_ciphertext = c, sh_hmac = hmac_raw P (es_mac_key s) (n @ c)\<rparr>"
  have ok: "shard_envelope_ok e"
    using assms c by (simp add: e_def shard_envelope_ok_def mac_lengths_simps)
  have "encrypt_shard_for_transfer P n x (enc_key s) (es_mac_key s) = Inr e"
    using c k by (simp add: encrypt_shard_iff e_def shard_mac_input_def)
  moreover have "length (ShardEnvelope_to_bytes e) = 92"
    using ok by (simp add: shard_envelope_ok_def ShardEnvelope_to_bytes_def)
  moreover have "decrypt_shard_from_transfer P e (enc_key s) (es_mac_key s) = Inr x"
    using c k assms(5) by (simp add: decrypt_shard_iff e_def shard_mac_input_def)
  then have "receive_shard P s (ShardEnvelope_to_bytes e) = Inr x"
    using ok receive_shard_iff by blast
  ultimately show thesis by (rule that)
qed

lemma payload_transfer:
  assumes "aead_correct P" and "mac_lengths P" and "session_keys_ok s" and "length n = 12"
    and "length x \<le> MAX_PAYLOAD_PLAINTEXT_LEN"
  obtains e where "encrypt_payload_for_transfer P n x (enc_key s) (es_mac_key s) = Inr e"
    and "length (PayloadEnvelope_to_bytes e) = length x + 64"
    and "receive_payload P s (PayloadEnvelope_to_bytes e) = Inr x"
proof -
  have k: "length (enc_key s) = 32" and l: "length x \<le> aead_limit"
    using assms(3,5) by (auto simp: session_keys_ok_def MAX_PAYLOAD_PLAINTEXT_LEN_def)
  obtain c where c: "aead_seal P (enc_key s) n x = Some c" "length c = length x + 16"
      "aead_open P (enc_key s) n c = Some x"
    by (rule aead_correct_sealE [OF assms(1) k assms(4) l])
  define e where "e = \<lparr>pl_nonce = n, pl_ciphertext = c, pl_hmac = hmac_raw P (es_mac_key s) (n @ ct_len_be c @ c)\<rparr>"
  have ok: "payload_envelope_ok e"
    using assms c by (simp add: e_def payload_envelope_ok_def mac_lengths_simps)
  have "encrypt_payload_for_transfer P n x (enc_key s) (es_mac_key s) = Inr e"
    using c k assms(5) by (simp add: encrypt_payload_iff e_def payload_mac_input_def)
  moreover have "length (PayloadEnvelope_to_bytes e) = length x + 64"
    using c assms(2,4) by (simp add: PayloadEnvelope_to_bytes_def e_def mac_lengths_simps)
  moreover have "decrypt_payload_from_transfer P e (enc_key s) (es_mac_key s) = Inr x"
    using c k assms(5) by (simp add: decrypt_payload_iff e_def payload_mac_input_def)
  then have "receive_payload P s (PayloadEnvelope_to_bytes e) = Inr x"
    using ok receive_payload_iff by blast
  ultimately show thesis by (rule that)
qed

subsection \<open>Properties\<close>

text \<open>
   The existing device and the new device derive the same session from each other's public
  key and the channel id, so they show the same six-digit code; the shard sealed by one travels
  in an envelope of exactly 92 bytes and the configuration, up to 64 KiB, in one of 64 bytes
  more than its size, and the other recovers both.
\<close>

theorem enrollment_transfer:
  assumes "aead_correct P" and "mac_lengths P" and "x25519_commutes P r1 r2"
    and "enrollment_initiate P r1 rc = Inr (sk1, pk1, ch)" and "enrollment_join P r2 = Inr (sk2, pk2)"
    and "length n1 = 12" and "length n2 = 12" and "length shard = 32"
    and "length config \<le> MAX_PAYLOAD_PLAINTEXT_LEN"
  shows "\<exists>s e f. enrollment_derive_session P sk1 pk2 ch = Inr s \<and> enrollment_derive_session P sk2 pk1 ch = Inr s \<and>
    length (to_string_padded (sas_code s)) = 6 \<and>
    encrypt_shard_for_transfer P n1 shard (enc_key s) (es_mac_key s) = Inr e \<and>
    length (ShardEnvelope_to_bytes e) = 92 \<and> receive_shard P s (ShardEnvelope_to_bytes e) = Inr shard \<and>
    encrypt_payload_for_transfer P n2 config (enc_key s) (es_mac_key s) = Inr f \<and>
    length (PayloadEnvelope_to_bytes f) = length config + 64 \<and>
    receive_payload P s (PayloadEnvelope_to_bytes f) = Inr config"
proof -
  have k: "sk1 = r1" "pk1 = x25519_base P r1" "sk2 = r2" "pk2 = x25519_base P r2"
    using assms(4,5) by (auto simp: enrollment_initiate_def enrollment_join_def generate_x25519_keypair_def)
  have "length pk2 = 32" using assms(3) by (simp add: k x25519_commutes_def)
  then obtain s where s: "enrollment_derive_session P sk1 pk2 ch = Inr s"
    by (rule derive_session_total [OF assms(2)])
  then have s': "enrollment_derive_session P sk2 pk1 ch = Inr s"
    using derive_session_agree [OF assms(3)] by (simp add: k)
  have ok: "session_keys_ok s" by (rule derive_session_ok [OF s])
  then have "length (to_string_padded (sas_code s)) = 6"
    by (simp add: to_string_padded_length session_keys_ok_def)
  moreover obtain e where "encrypt_shard_for_transfer P n1 shard (enc_key s) (es_mac_key s) = Inr e"
      "length (ShardEnvelope_to_bytes e) = 92" "receive_shard P s (ShardEnvelope_to_bytes e) = Inr shard"
    by (rule shard_transfer [OF assms(1,2) ok assms(6,8)])
  moreover obtain f where "encrypt_payload_for_transfer P n2 config (enc_key s) (es_mac_key s) = Inr f"
      "length (PayloadEnvelope_to_bytes f) = length config + 64"
      "receive_payload P s (PayloadEnvelope_to_bytes f) = Inr config"
    by (rule payload_transfer [OF assms(1,2) ok assms(7,9)])
  ultimately show ?thesis using s s' by blast
qed

lemma toy_commutes: "x25519_commutes toy_prims (replicate 32 1) (replicate 32 2)"
  by (simp add: x25519_commutes_def toy_prims_def zip_replicate xor.commute)

theorem enrollment_transfer_witness:
  "\<exists>s e f. enrollment_derive_session toy_prims (replicate 32 1) (replicate 32 2) (replicate 16 7) = Inr s \<and>
    enrollment_derive_session toy_prims (replicate 32 2) (replicate 32 1) (replicate 16 7) = Inr s \<and>
    length (to_string_padded (sas_code s)) = 6 \<and>
    encrypt_shard_for_transfer toy_prims (replicate 12 3) (replicate 32 9) (enc_key s) (es_mac_key s) = Inr e \<and>
    length (ShardEnvelope_to_bytes e) = 92 \<and>
    receive_shard toy_prims s (ShardEnvelope_to_bytes e) = Inr (replicate 32 9) \<and>
    encrypt_payload_for_transfer toy_prims (replicate 12 4) (as_bytes ''{}'') (enc_key s) (es_mac_key s) = Inr f \<and>
    length (PayloadEnvelope_to_bytes f) = length (as_bytes ''{}'') + 64 \<and>
    receive_payload toy_prims s (PayloadEnvelope_to_bytes f) = Inr (as_bytes ''{}'')"
  by (rule enrollment_transfer [OF toy_ok(1,2) toy_commutes, of "replicate 16 7"])
    (simp_all add: enrollment_initiate_def enrollment_join_def generate_x25519_keypair_def toy_prims_def
      MAX_PAYLOAD_PLAINTEXT_LEN_def as_bytes_def)


lemma sealed_pair_shard:
  assumes "aead_correct P" and "encrypt_shard_for_transfer P n shard ek mk = Inr e"
    and "aead_open P ek (sh_nonce e) (sh_ciphertext e) = Some x"
  shows "x = shard"
  using assms aead_correct_sealD(2) [OF assms(1)] by (auto simp: encrypt_shard_iff)

lemma sealed_pair_payload:
  assumes "aead_correct P" and "encrypt_payload_for_transfer P n config ek mk = Inr f"
    and "aead_open P ek (pl_nonce f) (pl_ciphertext f) = Some x"
  shows "x = config"
  using assms aead_correct_sealD(2) [OF assms(1)] by (auto simp: encrypt_payload_iff)

lemma mac_input_inject:
  assumes "length (sh_nonce e) = 12" and "length (sh_nonce e') = 12"
    and "length (pl_nonce f) = 12" and "length (pl_nonce f') = 12"
  shows "shard_mac_input e = shard_mac_input e' \<longleftrightarrow> sh_nonce e = sh_nonce e' \<and> sh_ciphertext e = sh_ciphertext e'"
    and "payload_mac_input f = payload_mac_input f' \<longleftrightarrow> pl_nonce f = pl_nonce f' \<and> pl_ciphertext f = pl_ciphertext f'"
    and "shard_mac_input e = payload_mac_input f \<longleftrightarrow>
      sh_nonce e = pl_nonce f \<and> sh_ciphertext e = ct_len_be (pl_ciphertext f) @ pl_ciphertext f"
  using assms by (auto simp: shard_mac_input_def payload_mac_input_def)

text \<open>
  C26.  Whatever bytes a device of the session accepts as the shard are a nonce, a ciphertext and the MAC
  of both under the session's key, and the ciphertext opens to the result.  The result is the shard that was
  sent, unless the received bytes carry a valid MAC over a message the session never
  authenticated, or they are exactly the payload envelope, replayed as a shard: one key
  authenticates both kinds without a tag, so a payload envelope of 92 bytes passes the length and the MAC check
  of the shard, and only the cipher tells them apart.  The same holds of the payload.
\<close>

theorem tampered_transfer_rejected:
  assumes "aead_correct P"
    and "encrypt_shard_for_transfer P n1 shard (enc_key s) (es_mac_key s) = Inr e" and "length n1 = 12"
    and "encrypt_payload_for_transfer P n2 config (enc_key s) (es_mac_key s) = Inr f" and "length n2 = 12"
    and "sent = {shard_mac_input e, payload_mac_input f}"
  shows "(receive_shard P s data = Inr x \<longrightarrow>
      (\<exists>n c. length n = 12 \<and> length c = 48 \<and> data = n @ c @ hmac_raw P (es_mac_key s) (n @ c) \<and>
         aead_open P (enc_key s) n c = Some x \<and>
         (x = shard \<or> n @ c \<notin> sent \<or> n = pl_nonce f \<and> c = ct_len_be (pl_ciphertext f) @ pl_ciphertext f))) \<and>
    (receive_payload P s data = Inr x \<longrightarrow>
      (\<exists>n c. length n = 12 \<and> data = n @ ct_len_be c @ c @ hmac_raw P (es_mac_key s) (n @ ct_len_be c @ c) \<and>
         aead_open P (enc_key s) n c = Some x \<and>
         (x = config \<or> n @ ct_len_be c @ c \<notin> sent \<or> n = sh_nonce e \<and> ct_len_be c @ c = sh_ciphertext e)))"
proof (intro conjI impI)
  have n: "length (sh_nonce e) = 12" "length (pl_nonce f) = 12"
    using assms(2-5) by (auto simp: encrypt_shard_iff encrypt_payload_iff)
  {
    assume "receive_shard P s data = Inr x"
    then obtain d where d: "shard_envelope_ok d" "data = shard_mac_input d @ hmac_raw P (es_mac_key s) (shard_mac_input d)"
        "aead_open P (enc_key s) (sh_nonce d) (sh_ciphertext d) = Some x"
      by (auto simp: receive_shard_iff decrypt_shard_iff to_bytes_mac_input)
    have nd: "length (sh_nonce d) = 12" "length (sh_ciphertext d) = 48" using d(1) by (simp_all add: shard_envelope_ok_def)
    have "x = shard" if "shard_mac_input d = shard_mac_input e"
      using that mac_input_inject(1) [OF nd(1) n(1) n(2) n(2)] d(3) by (intro sealed_pair_shard [OF assms(1,2)]) simp
    then have "x = shard \<or> shard_mac_input d \<notin> sent \<or>
        sh_nonce d = pl_nonce f \<and> sh_ciphertext d = ct_len_be (pl_ciphertext f) @ pl_ciphertext f"
      using mac_input_inject(3) [OF nd(1) nd(1) n(2) n(2)] by (auto simp: assms(6))
    then show "\<exists>n c. length n = 12 \<and> length c = 48 \<and> data = n @ c @ hmac_raw P (es_mac_key s) (n @ c) \<and>
         aead_open P (enc_key s) n c = Some x \<and>
         (x = shard \<or> n @ c \<notin> sent \<or> n = pl_nonce f \<and> c = ct_len_be (pl_ciphertext f) @ pl_ciphertext f)"
      using d(2,3) nd unfolding shard_mac_input_def by auto
  next
    assume "receive_payload P s data = Inr x"
    then obtain d where d: "payload_envelope_ok d" "data = payload_mac_input d @ hmac_raw P (es_mac_key s) (payload_mac_input d)"
        "aead_open P (enc_key s) (pl_nonce d) (pl_ciphertext d) = Some x"
      by (auto simp: receive_payload_iff decrypt_payload_iff to_bytes_mac_input)
    have nd: "length (pl_nonce d) = 12" using d(1) by (simp add: payload_envelope_ok_def)
    have "x = config" if "payload_mac_input d = payload_mac_input f"
      using that mac_input_inject(2) [OF n(1) n(1) nd n(2)] d(3) by (intro sealed_pair_payload [OF assms(1,4)]) simp
    moreover have "pl_nonce d = sh_nonce e \<and> ct_len_be (pl_ciphertext d) @ pl_ciphertext d = sh_ciphertext e"
      if "payload_mac_input d = shard_mac_input e"
      using mac_input_inject(3) [OF n(1) n(1) nd n(2)] that by auto
    ultimately have "x = config \<or> payload_mac_input d \<notin> sent \<or>
        pl_nonce d = sh_nonce e \<and> ct_len_be (pl_ciphertext d) @ pl_ciphertext d = sh_ciphertext e"
      by (auto simp: assms(6))
    then show "\<exists>n c. length n = 12 \<and> data = n @ ct_len_be c @ c @ hmac_raw P (es_mac_key s) (n @ ct_len_be c @ c) \<and>
         aead_open P (enc_key s) n c = Some x \<and>
         (x = config \<or> n @ ct_len_be c @ c \<notin> sent \<or> n = sh_nonce e \<and> ct_len_be c @ c = sh_ciphertext e)"
      using d(2,3) nd unfolding payload_mac_input_def by auto
  }
qed

text \<open>A session with fixed keys, and the two envelopes it sends.\<close>

definition demo_session :: EnrollmentSession where
  "demo_session = \<lparr>enc_key = replicate 32 1, es_mac_key = replicate 32 2, sas_code = 123456\<rparr>"

definition demo_shard_envelope :: ShardEnvelope where
  "demo_shard_envelope = \<lparr>sh_nonce = replicate 12 3, sh_ciphertext = replicate 32 9 @ replicate 16 0,
     sh_hmac = hmac_raw toy_prims (replicate 32 2) (replicate 12 3 @ replicate 32 9 @ replicate 16 0)\<rparr>"

definition demo_payload_envelope :: PayloadEnvelope where
  "demo_payload_envelope = \<lparr>pl_nonce = replicate 12 4, pl_ciphertext = [5] @ replicate 16 0,
     pl_hmac = hmac_raw toy_prims (replicate 32 2)
       (replicate 12 4 @ ct_len_be ([5] @ replicate 16 0) @ [5] @ replicate 16 0)\<rparr>"

lemma demo_shard_envelope_sent:
  "encrypt_shard_for_transfer toy_prims (replicate 12 3) (replicate 32 9) (enc_key demo_session) (es_mac_key demo_session)
     = Inr demo_shard_envelope"
  by (simp add: encrypt_shard_iff demo_shard_envelope_def demo_session_def toy_sel shard_mac_input_def)

lemma demo_payload_envelope_sent:
  "encrypt_payload_for_transfer toy_prims (replicate 12 4) [5] (enc_key demo_session) (es_mac_key demo_session)
     = Inr demo_payload_envelope"
  by (simp add: encrypt_payload_iff demo_payload_envelope_def demo_session_def toy_sel payload_mac_input_def
      MAX_PAYLOAD_PLAINTEXT_LEN_def)

lemma demo_shard_received: "receive_shard toy_prims demo_session (ShardEnvelope_to_bytes demo_shard_envelope) = Inr (replicate 32 9)"
  unfolding receive_shard_iff
  by (rule exI [of _ demo_shard_envelope])
    (simp add: shard_envelope_ok_def decrypt_shard_iff demo_shard_envelope_def demo_session_def toy_sel shard_mac_input_def)

text \<open>The additive MAC of the stand-in primitives can be forged: two changed bytes of the shard keep their sum.\<close>

definition demo_forged_envelope :: ShardEnvelope where
  "demo_forged_envelope = demo_shard_envelope\<lparr>sh_ciphertext := [8, 10] @ replicate 30 9 @ replicate 16 0\<rparr>"

lemma demo_forged_received:
  "receive_shard toy_prims demo_session (ShardEnvelope_to_bytes demo_forged_envelope) = Inr ([8, 10] @ replicate 30 9)"
  unfolding receive_shard_iff
  by (rule exI [of _ demo_forged_envelope])
    (simp add: shard_envelope_ok_def decrypt_shard_iff demo_forged_envelope_def demo_shard_envelope_def demo_session_def
      toy_sel shard_mac_input_def sum_list_replicate)

theorem tampered_transfer_rejected_witness:
  "receive_shard toy_prims demo_session (ShardEnvelope_to_bytes demo_forged_envelope) = Inr ([8, 10] @ replicate 30 9) \<and>
   (\<exists>n c. length n = 12 \<and> length c = 48 \<and>
      ShardEnvelope_to_bytes demo_forged_envelope = n @ c @ hmac_raw toy_prims (es_mac_key demo_session) (n @ c) \<and>
      (n @ c \<notin> {shard_mac_input demo_shard_envelope, payload_mac_input demo_payload_envelope} \<or> n = pl_nonce demo_payload_envelope))"
proof -
  have "[8, 10] @ replicate 30 9 \<noteq> replicate 32 (9 :: u8)" by (simp add: numeral_eq_Suc)
  then show ?thesis
    using tampered_transfer_rejected [OF toy_ok(1) demo_shard_envelope_sent _ demo_payload_envelope_sent _ refl,
        of "ShardEnvelope_to_bytes demo_forged_envelope" "[8, 10] @ replicate 30 9"] demo_forged_received
    by (simp only: length_replicate) blast
qed

text \<open>
  C28.  The shapes of what enrolment hands on.  A session is derived exactly from a peer key of 32
  bytes; its keys have 32 bytes and its code is below one million.  An accepted shard is a
  32-byte key taken from exactly 92 bytes, and an accepted payload is at most 64 KiB, taken from
  64 bytes more; both need session keys of the right size.
\<close>

theorem enrollment_shapes:
  assumes "aead_correct P" and "mac_lengths P"
  shows "((\<exists>s. enrollment_derive_session P sk pk ch = Inr s) \<longleftrightarrow> length pk = 32) \<and>
    (enrollment_derive_session P sk pk ch = Inr s \<longrightarrow>
      length (enc_key s) = 32 \<and> length (es_mac_key s) = 32 \<and> unat (sas_code s) < 1000000) \<and>
    (receive_shard P t data = Inr x \<longrightarrow> length x = 32 \<and> length data = 92 \<and> length (enc_key t) = 32) \<and>
    (receive_payload P t data = Inr y \<longrightarrow>
      length y \<le> 65536 \<and> length data = length y + 64 \<and> length (enc_key t) = 32)"
proof (intro conjI impI)
  show "(\<exists>s. enrollment_derive_session P sk pk ch = Inr s) \<longleftrightarrow> length pk = 32"
    using derive_session_total [OF assms(2)] derive_session_ok(1) by metis
next
  assume "enrollment_derive_session P sk pk ch = Inr s"
  then show "length (enc_key s) = 32" "length (es_mac_key s) = 32" "unat (sas_code s) < 1000000"
    using derive_session_ok(2) by (simp_all add: session_keys_ok_def)
next
  assume "receive_shard P t data = Inr x"
  then show "length x = 32" "length data = 92" "length (enc_key t) = 32"
    by (auto simp: receive_shard_iff decrypt_shard_iff shard_envelope_ok_def ShardEnvelope_to_bytes_def)
next
  assume "receive_payload P t data = Inr y"
  then show "length y \<le> 65536" "length data = length y + 64" "length (enc_key t) = 32"
    using aead_correct_openD [OF assms(1)]
    by (auto simp: receive_payload_iff decrypt_payload_iff payload_envelope_ok_def PayloadEnvelope_to_bytes_def
        MAX_PAYLOAD_PLAINTEXT_LEN_def)
qed

theorem enrollment_shapes_witness:
  "(\<exists>s. enrollment_derive_session toy_prims (replicate 32 1) (replicate 32 2) (replicate 16 7) = Inr s) \<and>
   \<not> (\<exists>s. enrollment_derive_session toy_prims (replicate 32 1) (replicate 31 2) (replicate 16 7) = Inr s) \<and>
   length (replicate 32 (9 :: u8)) = 32 \<and> length (ShardEnvelope_to_bytes demo_shard_envelope) = 92 \<and>
   length (enc_key demo_session) = 32"
  using enrollment_shapes [OF toy_ok(1,2), of "replicate 32 1" "replicate 32 2" "replicate 16 7" demo_session]
    enrollment_shapes [OF toy_ok(1,2), of "replicate 32 1" "replicate 31 2" "replicate 16 7" demo_session demo_session
      "ShardEnvelope_to_bytes demo_shard_envelope" "replicate 32 9"] demo_shard_received
  by simp

end
