(* ===== verification/Wasm_Enroll.thy ===== *)
theory Wasm_Enroll
  imports Wasm_Base Enroll_Protocol
begin

text \<open>
  Enrolment sessions of the browser bindings (\<open>sdk-wasm/src/enrollment_session.rs\<close> and the enrolment
  functions of \<open>sdk-wasm/src/byo.rs\<close>): the ephemeral secret, the session keys and the received shard stay
  in a registry; JavaScript sees public keys, the code and envelopes.  The end-to-end property runs
  two devices against each other.
\<close>

fun EnrollmentError_to_string :: "EnrollmentError \<Rightarrow> string" where
  "EnrollmentError_to_string (EnrollmentCrypto e) = ''enrollment crypto error: '' @ CryptoError_to_string e"
| "EnrollmentError_to_string HmacMismatch = ''HMAC verification failed''"
| "EnrollmentError_to_string (InvalidInput msg) = ''invalid input: '' @ msg"

abbreviation en_str :: "EnrollmentError + 'a \<Rightarrow> string + 'a" where
  "en_str \<equiv> map_err EnrollmentError_to_string"

subsection \<open>The registry\<close>

record WasmEnrollmentSession =
  we_eph_sk :: "bytes option"
  we_channel_id :: bytes
  we_enc_key :: "bytes option"
  we_mac_key :: "bytes option"
  we_received_shard :: "bytes option"

record EnrollStore =
  enroll_sessions :: "u32 \<Rightarrow> WasmEnrollmentSession option"
  enroll_counter :: u32

definition enroll_store_init :: EnrollStore where
  "enroll_store_init = \<lparr>enroll_sessions = Map.empty, enroll_counter = 1\<rparr>"

definition store_enrollment_session :: "WasmEnrollmentSession \<Rightarrow> EnrollStore \<Rightarrow> u32 \<times> EnrollStore" where
  "store_enrollment_session session st =
     (let sid = enroll_counter st in
      (sid, st\<lparr>enroll_sessions := (enroll_sessions st)(sid \<mapsto> session), enroll_counter := sid + 1\<rparr>))"

definition with_enrollment_session_mut ::
  "EnrollStore \<Rightarrow> u32 \<Rightarrow> (WasmEnrollmentSession \<Rightarrow> 'a \<times> WasmEnrollmentSession) \<Rightarrow> 'a option \<times> EnrollStore" where
  "with_enrollment_session_mut st sid f =
     (case enroll_sessions st sid of None \<Rightarrow> (None, st)
      | Some s \<Rightarrow> (let (x, s') = f s in (Some x, st\<lparr>enroll_sessions := (enroll_sessions st)(sid \<mapsto> s')\<rparr>)))"

definition close_enrollment_session :: "u32 \<Rightarrow> EnrollStore \<Rightarrow> EnrollStore" where
  "close_enrollment_session sid st = st\<lparr>enroll_sessions := (enroll_sessions st)(sid := None)\<rparr>"

definition enroll_result :: "('a \<Rightarrow> JsValue) \<Rightarrow> (string + 'a) option \<Rightarrow> JsValue" where
  "enroll_result f r = (case r of None \<Rightarrow> js_error ''unknown enrollment session'' | Some q \<Rightarrow> js_result f q)"

subsection \<open>Opening a session\<close>

definition new_enrollment_session :: "bytes \<Rightarrow> bytes \<Rightarrow> WasmEnrollmentSession" where
  "new_enrollment_session eph_sk channel_id =
     \<lparr>we_eph_sk = Some eph_sk, we_channel_id = channel_id, we_enc_key = None, we_mac_key = None, we_received_shard = None\<rparr>"

definition byo_enrollment_open :: "prims \<Rightarrow> b64_engines \<Rightarrow> bytes \<Rightarrow> bytes \<Rightarrow> EnrollStore \<Rightarrow> JsValue \<times> EnrollStore" where
  "byo_enrollment_open P E rnd_secret rnd_channel st =
     (case enrollment_initiate P rnd_secret rnd_channel of
        Inl e \<Rightarrow> (js_error (EnrollmentError_to_string e), st)
      | Inr (eph_sk, eph_pk, channel_id) \<Rightarrow>
          let (sid, st') = store_enrollment_session (new_enrollment_session eph_sk channel_id) st in
          (js_object [(''eph_pk'', JsString (b64_encode E eph_pk)), (''channel_id'', JsString (b64url_encode_nopad E channel_id)),
             (''session_id'', JsNumber (uint sid))], st'))"

definition byo_enrollment_join :: "prims \<Rightarrow> b64_engines \<Rightarrow> bytes \<Rightarrow> string \<Rightarrow> EnrollStore \<Rightarrow> JsValue \<times> EnrollStore" where
  "byo_enrollment_join P E rnd_secret channel_id_b64 st =
     (case b64url_decode_lenient E channel_id_b64 of
        None \<Rightarrow> (js_error ''invalid base64 channel_id'', st)
      | Some channel_id_bytes \<Rightarrow>
          if length channel_id_bytes \<noteq> 16 then (js_error ''channel_id must decode to exactly 16 bytes'', st)
          else
            (case enrollment_join P rnd_secret of
               Inl e \<Rightarrow> (js_error (EnrollmentError_to_string e), st)
             | Inr (eph_sk, eph_pk) \<Rightarrow>
                 let (sid, st') = store_enrollment_session (new_enrollment_session eph_sk channel_id_bytes) st in
                 (js_object [(''eph_pk'', JsString (b64_encode E eph_pk)), (''session_id'', JsNumber (uint sid))], st')))"

text \<open>The secret is taken before the derivation, so a failed derivation loses it too.\<close>

definition byo_enrollment_derive_keys :: "prims \<Rightarrow> b64_engines \<Rightarrow> u32 \<Rightarrow> string \<Rightarrow> EnrollStore \<Rightarrow> JsValue \<times> EnrollStore" where
  "byo_enrollment_derive_keys P E sid peer_pk_b64 st =
     (case b64_decode E peer_pk_b64 of
        None \<Rightarrow> (js_error ''invalid base64 peer_pk'', st)
      | Some peer_pk_bytes \<Rightarrow>
          let (result, st') = with_enrollment_session_mut st sid (\<lambda>session.
                case we_eph_sk session of
                  None \<Rightarrow> (Inl ''eph_sk already consumed or session not found'', session)
                | Some eph_sk \<Rightarrow>
                    let session = session\<lparr>we_eph_sk := None\<rparr> in
                    (case en_str (enrollment_derive_session P eph_sk peer_pk_bytes (we_channel_id session)) of
                       Inl e \<Rightarrow> (Inl e, session)
                     | Inr derived \<Rightarrow>
                         (Inr (sas_code derived), session\<lparr>we_enc_key := Some (enc_key derived), we_mac_key := Some (es_mac_key derived)\<rparr>))) in
          (enroll_result (\<lambda>sas. js_object [(''sas_code'', JsNumber (uint sas))]) result, st'))"

subsection \<open>Transfers in a session\<close>

definition session_transfer_keys :: "string \<Rightarrow> WasmEnrollmentSession \<Rightarrow> string + bytes \<times> bytes" where
  "session_transfer_keys enc_msg session =
     (case we_enc_key session of None \<Rightarrow> Inl enc_msg
      | Some ek \<Rightarrow> (case we_mac_key session of None \<Rightarrow> Inl ''session mac_key not set'' | Some mk \<Rightarrow> Inr (ek, mk)))"

definition enc_key_missing :: string where
  "enc_key_missing = ''session enc_key not set (call byo_enrollment_derive_keys first)''"

definition byo_enrollment_session_encrypt_shard ::
  "prims \<Rightarrow> b64_engines \<Rightarrow> bytes \<Rightarrow> u32 \<Rightarrow> string \<Rightarrow> EnrollStore \<Rightarrow> JsValue \<times> EnrollStore" where
  "byo_enrollment_session_encrypt_shard P E rnd_nonce sid shard_b64 st =
     (case and_then (decode_or E ''invalid base64 shard'' shard_b64) (\<lambda>b. e_str (SymmetricKey_from_slice b)) of
        Inl e \<Rightarrow> (js_error e, st)
      | Inr shard \<Rightarrow>
          let (result, st') = with_enrollment_session_mut st sid (\<lambda>session.
                (and_then (session_transfer_keys enc_key_missing session) (\<lambda>(ek, mk).
                   en_str (encrypt_shard_for_transfer P rnd_nonce shard ek mk)), session)) in
          (enroll_result (\<lambda>envelope. js_object [(''envelope_b64'', JsString (b64_encode E (ShardEnvelope_to_bytes envelope)))]) result, st'))"

definition byo_enrollment_session_decrypt_shard ::
  "prims \<Rightarrow> b64_engines \<Rightarrow> u32 \<Rightarrow> string \<Rightarrow> EnrollStore \<Rightarrow> JsValue \<times> EnrollStore" where
  "byo_enrollment_session_decrypt_shard P E sid envelope_b64 st =
     (case and_then (decode_or E ''invalid base64 envelope'' envelope_b64) (\<lambda>b. en_str (ShardEnvelope_from_bytes b)) of
        Inl e \<Rightarrow> (js_error e, st)
      | Inr envelope \<Rightarrow>
          let (result, st') = with_enrollment_session_mut st sid (\<lambda>session.
                case and_then (session_transfer_keys ''session enc_key not set'' session) (\<lambda>(ek, mk).
                       en_str (decrypt_shard_from_transfer P envelope ek mk)) of
                  Inl e \<Rightarrow> (Inl e, session)
                | Inr shard \<Rightarrow> (Inr (), session\<lparr>we_received_shard := Some shard\<rparr>)) in
          (enroll_result (\<lambda>_. JsObject []) result, st'))"

definition byo_enrollment_session_get_shard :: "b64_engines \<Rightarrow> u32 \<Rightarrow> EnrollStore \<Rightarrow> JsValue \<times> EnrollStore" where
  "byo_enrollment_session_get_shard E sid st =
     (let (result, st') = with_enrollment_session_mut st sid (\<lambda>session.
            (we_received_shard session, session\<lparr>we_received_shard := None\<rparr>)) in
      (case result of None \<Rightarrow> js_error ''unknown enrollment session''
       | Some None \<Rightarrow> js_error ''no shard stored in session''
       | Some (Some shard_bytes) \<Rightarrow> js_object [(''shard_b64'', JsString (b64_encode E shard_bytes))], st'))"

definition byo_enrollment_close :: "u32 \<Rightarrow> EnrollStore \<Rightarrow> EnrollStore" where
  "byo_enrollment_close sid st = close_enrollment_session sid st"

definition byo_enrollment_session_encrypt_payload ::
  "prims \<Rightarrow> b64_engines \<Rightarrow> bytes \<Rightarrow> u32 \<Rightarrow> string \<Rightarrow> EnrollStore \<Rightarrow> JsValue \<times> EnrollStore" where
  "byo_enrollment_session_encrypt_payload P E rnd_nonce sid payload_b64 st =
     (case decode_or E ''invalid base64 payload'' payload_b64 of
        Inl e \<Rightarrow> (js_error e, st)
      | Inr payload_bytes \<Rightarrow>
          let (result, st') = with_enrollment_session_mut st sid (\<lambda>session.
                (and_then (session_transfer_keys enc_key_missing session) (\<lambda>(ek, mk).
                   en_str (encrypt_payload_for_transfer P rnd_nonce payload_bytes ek mk)), session)) in
          (enroll_result (\<lambda>envelope. js_object [(''envelope_b64'', JsString (b64_encode E (PayloadEnvelope_to_bytes envelope)))]) result, st'))"

definition byo_enrollment_session_decrypt_payload ::
  "prims \<Rightarrow> b64_engines \<Rightarrow> u32 \<Rightarrow> string \<Rightarrow> EnrollStore \<Rightarrow> JsValue \<times> EnrollStore" where
  "byo_enrollment_session_decrypt_payload P E sid envelope_b64 st =
     (case and_then (decode_or E ''invalid base64 envelope'' envelope_b64) (\<lambda>b. en_str (PayloadEnvelope_from_bytes b)) of
        Inl e \<Rightarrow> (js_error e, st)
      | Inr envelope \<Rightarrow>
          let (result, st') = with_enrollment_session_mut st sid (\<lambda>session.
                (and_then (session_transfer_keys ''session enc_key not set'' session) (\<lambda>(ek, mk).
                   en_str (decrypt_payload_from_transfer P envelope ek mk)), session)) in
          (enroll_result (\<lambda>payload. js_object [(''payload_b64'', JsString (b64_encode E payload))]) result, st'))"

subsection \<open>A session with its keys\<close>

definition keyed_session :: "bytes \<Rightarrow> EnrollmentSession \<Rightarrow> bytes option \<Rightarrow> WasmEnrollmentSession" where
  "keyed_session ch d received =
     \<lparr>we_eph_sk = None, we_channel_id = ch, we_enc_key = Some (enc_key d), we_mac_key = Some (es_mac_key d), we_received_shard = received\<rparr>"

lemma derive_keys_ok:
  assumes "b64_ok E" and "enroll_sessions st sid = Some (new_enrollment_session sk ch)"
    and "enrollment_derive_session P sk pk ch = Inr d"
  shows "byo_enrollment_derive_keys P E sid (b64_encode E pk) st =
    (js_object [(''sas_code'', JsNumber (uint (sas_code d)))],
     st\<lparr>enroll_sessions := (enroll_sessions st)(sid \<mapsto> keyed_session ch d None)\<rparr>)"
  using assms
  by (simp add: byo_enrollment_derive_keys_def with_enrollment_session_mut_def new_enrollment_session_def keyed_session_def
      enroll_result_def)

lemma derive_keys_twice:
  assumes "b64_ok E" and "enroll_sessions st sid = Some (keyed_session ch d r)"
  shows "byo_enrollment_derive_keys P E sid (b64_encode E pk) st =
    (js_error ''eph_sk already consumed or session not found'', st)"
  using assms
  by (simp add: byo_enrollment_derive_keys_def with_enrollment_session_mut_def keyed_session_def enroll_result_def fun_upd_idem)

lemma transfer_keys_keyed [simp]: "session_transfer_keys msg (keyed_session ch d r) = Inr (enc_key d, es_mac_key d)"
  by (simp add: session_transfer_keys_def keyed_session_def)

lemma encrypt_shard_keyed:
  assumes "b64_ok E" and "enroll_sessions st sid = Some (keyed_session ch d r)" and "length shard = 32"
    and "encrypt_shard_for_transfer P n shard (enc_key d) (es_mac_key d) = Inr e"
  shows "byo_enrollment_session_encrypt_shard P E n sid (b64_encode E shard) st =
    (js_object [(''envelope_b64'', JsString (b64_encode E (ShardEnvelope_to_bytes e)))], st)"
  using assms
  by (simp add: byo_enrollment_session_encrypt_shard_def with_enrollment_session_mut_def enroll_result_def
      SymmetricKey_from_slice_def fun_upd_idem)

lemma decrypt_shard_keyed:
  assumes "b64_ok E" and "enroll_sessions st sid = Some (keyed_session ch d r)" and "receive_shard P d data = Inr shard"
  shows "byo_enrollment_session_decrypt_shard P E sid (b64_encode E data) st =
    (JsObject [], st\<lparr>enroll_sessions := (enroll_sessions st)(sid \<mapsto> keyed_session ch d (Some shard))\<rparr>)"
proof -
  obtain e where "ShardEnvelope_from_bytes data = Inr e"
      "decrypt_shard_from_transfer P e (enc_key d) (es_mac_key d) = Inr shard"
    using assms(3) by (auto simp: receive_shard_def and_then_Inr_conv)
  then show ?thesis
    using assms(1,2)
    by (simp add: byo_enrollment_session_decrypt_shard_def with_enrollment_session_mut_def enroll_result_def)
      (simp add: keyed_session_def)
qed

lemma get_shard_keyed:
  assumes "enroll_sessions st sid = Some (keyed_session ch d r)"
  shows "byo_enrollment_session_get_shard E sid st =
    (case r of None \<Rightarrow> js_error ''no shard stored in session'' | Some x \<Rightarrow> js_object [(''shard_b64'', JsString (b64_encode E x))],
     st\<lparr>enroll_sessions := (enroll_sessions st)(sid \<mapsto> keyed_session ch d None)\<rparr>)"
  using assms
  by (simp add: byo_enrollment_session_get_shard_def with_enrollment_session_mut_def keyed_session_def split: option.split)

lemma encrypt_payload_keyed:
  assumes "b64_ok E" and "enroll_sessions st sid = Some (keyed_session ch d r)"
    and "encrypt_payload_for_transfer P n payload (enc_key d) (es_mac_key d) = Inr e"
  shows "byo_enrollment_session_encrypt_payload P E n sid (b64_encode E payload) st =
    (js_object [(''envelope_b64'', JsString (b64_encode E (PayloadEnvelope_to_bytes e)))], st)"
  using assms
  by (simp add: byo_enrollment_session_encrypt_payload_def with_enrollment_session_mut_def enroll_result_def fun_upd_idem)

lemma decrypt_payload_keyed:
  assumes "b64_ok E" and "enroll_sessions st sid = Some (keyed_session ch d r)" and "receive_payload P d data = Inr payload"
  shows "byo_enrollment_session_decrypt_payload P E sid (b64_encode E data) st =
    (js_object [(''payload_b64'', JsString (b64_encode E payload))], st)"
proof -
  obtain e where "PayloadEnvelope_from_bytes data = Inr e"
      "decrypt_payload_from_transfer P e (enc_key d) (es_mac_key d) = Inr payload"
    using assms(3) by (auto simp: receive_payload_def and_then_Inr_conv)
  then show ?thesis
    using assms(1,2)
    by (simp add: byo_enrollment_session_decrypt_payload_def with_enrollment_session_mut_def enroll_result_def fun_upd_idem)
qed

lemma open_session:
  "byo_enrollment_open P E r1 rc A =
    (js_object [(''eph_pk'', JsString (b64_encode E (x25519_base P r1))), (''channel_id'', JsString (b64url_encode_nopad E rc)),
       (''session_id'', JsNumber (uint (enroll_counter A)))],
     A\<lparr>enroll_sessions := (enroll_sessions A)(enroll_counter A \<mapsto> new_enrollment_session r1 rc), enroll_counter := enroll_counter A + 1\<rparr>)"
  by (simp add: byo_enrollment_open_def enrollment_initiate_def generate_x25519_keypair_def store_enrollment_session_def Let_def)

lemma join_session:
  assumes "b64_ok E" and "length rc = 16"
  shows "byo_enrollment_join P E r2 (b64url_encode_nopad E rc) B =
    (js_object [(''eph_pk'', JsString (b64_encode E (x25519_base P r2))), (''session_id'', JsNumber (uint (enroll_counter B)))],
     B\<lparr>enroll_sessions := (enroll_sessions B)(enroll_counter B \<mapsto> new_enrollment_session r2 rc), enroll_counter := enroll_counter B + 1\<rparr>)"
  using assms
  by (simp add: byo_enrollment_join_def enrollment_join_def generate_x25519_keypair_def store_enrollment_session_def Let_def)

lemma js_str_object: "distinct (map fst fs) \<Longrightarrow> map_of fs k = Some (JsString x) \<Longrightarrow> js_str (js_object fs) k = x"
  by (simp add: js_str_def js_get_object)

lemma sessions_agree:
  assumes "mac_lengths P" and "x25519_commutes P a b"
  obtains d where "enrollment_derive_session P a (x25519_base P b) ch = Inr d"
    and "enrollment_derive_session P b (x25519_base P a) ch = Inr d" and "session_keys_ok d"
proof -
  have "length (x25519_base P b) = 32" using assms(2) by (simp add: x25519_commutes_def)
  then obtain d where d: "enrollment_derive_session P a (x25519_base P b) ch = Inr d"
    by (rule derive_session_total [OF assms(1)])
  then show thesis
    using that derive_session_agree [OF assms(2), of ch] derive_session_ok(2) [OF d] by simp
qed

text \<open>
  C25.  Two devices that enrol through the bindings: the first opens a session, the second joins with
  the channel id it was shown, each derives keys from the other's public key, and both show the
  same code.  The shard sealed by the first is accepted by the second, handed out exactly once, and
  the configuration arrives as well; deriving keys a second time is refused without effect.
\<close>

theorem enrollment_over_bindings:
  assumes "aead_correct P" and "mac_lengths P" and "b64_ok E" and "x25519_commutes P r1 r2"
    and "length rc = 16" and "length n1 = 12" and "length n2 = 12" and "length shard = 32"
    and "length config \<le> MAX_PAYLOAD_PLAINTEXT_LEN"
    and "byo_enrollment_open P E r1 rc A = (v1, A1)" and "a = enroll_counter A"
    and "byo_enrollment_join P E r2 (js_str v1 ''channel_id'') B = (v2, B1)" and "b = enroll_counter B"
    and "byo_enrollment_derive_keys P E a (js_str v2 ''eph_pk'') A1 = (v3, A2)"
    and "byo_enrollment_derive_keys P E b (js_str v1 ''eph_pk'') B1 = (v4, B2)"
    and "byo_enrollment_session_encrypt_shard P E n1 a (b64_encode E shard) A2 = (v5, A3)"
    and "byo_enrollment_session_encrypt_payload P E n2 a (b64_encode E config) A3 = (v6, A4)"
    and "byo_enrollment_session_decrypt_shard P E b (js_str v5 ''envelope_b64'') B2 = (v7, B3)"
    and "byo_enrollment_session_decrypt_payload P E b (js_str v6 ''envelope_b64'') B3 = (v8, B4)"
    and "byo_enrollment_session_get_shard E b B4 = (v9, B5)"
  shows "js_get v1 ''session_id'' = Some (JsNumber (uint a)) \<and> js_get v2 ''session_id'' = Some (JsNumber (uint b)) \<and>
    v3 = v4 \<and> (\<exists>sas. js_get v3 ''sas_code'' = Some (JsNumber sas) \<and> 0 \<le> sas \<and> sas < 1000000) \<and>
    js_str v9 ''shard_b64'' = b64_encode E shard \<and> js_str v8 ''payload_b64'' = b64_encode E config \<and>
    fst (byo_enrollment_session_get_shard E b B5) = js_error ''no shard stored in session'' \<and>
    byo_enrollment_derive_keys P E a (js_str v2 ''eph_pk'') A2 = (js_error ''eph_sk already consumed or session not found'', A2)"
proof -
  let ?pk1 = "x25519_base P r1" and ?pk2 = "x25519_base P r2"
  have v1: "js_str v1 ''channel_id'' = b64url_encode_nopad E rc" "js_str v1 ''eph_pk'' = b64_encode E ?pk1"
      "js_get v1 ''session_id'' = Some (JsNumber (uint a))"
    and A1: "enroll_sessions A1 a = Some (new_enrollment_session r1 rc)"
    using assms(10,11) by (auto simp: open_session js_str_object js_get_object)
  have v2: "js_str v2 ''eph_pk'' = b64_encode E ?pk2" "js_get v2 ''session_id'' = Some (JsNumber (uint b))"
    and B1: "enroll_sessions B1 b = Some (new_enrollment_session r2 rc)"
    using assms(12,13) by (auto simp: v1 join_session [OF assms(3,5)] js_str_object js_get_object)
  obtain d where d: "enrollment_derive_session P r1 ?pk2 rc = Inr d" "enrollment_derive_session P r2 ?pk1 rc = Inr d"
      and ok: "session_keys_ok d"
    by (rule sessions_agree [OF assms(2,4)])
  obtain e where e: "encrypt_shard_for_transfer P n1 shard (enc_key d) (es_mac_key d) = Inr e"
      "receive_shard P d (ShardEnvelope_to_bytes e) = Inr shard"
    by (rule shard_transfer [OF assms(1,2) ok assms(6,8)])
  obtain f where f: "encrypt_payload_for_transfer P n2 config (enc_key d) (es_mac_key d) = Inr f"
      "receive_payload P d (PayloadEnvelope_to_bytes f) = Inr config"
    by (rule payload_transfer [OF assms(1,2) ok assms(7,9)])
  have v3: "v3 = js_object [(''sas_code'', JsNumber (uint (sas_code d)))]" "enroll_sessions A2 a = Some (keyed_session rc d None)"
    using assms(14) derive_keys_ok [OF assms(3) A1 d(1)] by (auto simp: v2)
  have v4: "v4 = js_object [(''sas_code'', JsNumber (uint (sas_code d)))]" "enroll_sessions B2 b = Some (keyed_session rc d None)"
    using assms(15) derive_keys_ok [OF assms(3) B1 d(2)] by (auto simp: v1)
  have v5: "js_str v5 ''envelope_b64'' = b64_encode E (ShardEnvelope_to_bytes e)" "A3 = A2"
    using assms(16) encrypt_shard_keyed [OF assms(3) v3(2) assms(8) e(1)] by (auto simp: js_str_object)
  have v6: "js_str v6 ''envelope_b64'' = b64_encode E (PayloadEnvelope_to_bytes f)"
    using assms(17) encrypt_payload_keyed [OF assms(3) v3(2) f(1)] by (auto simp: js_str_object v5)
  have B3: "enroll_sessions B3 b = Some (keyed_session rc d (Some shard))"
    using assms(18) decrypt_shard_keyed [OF assms(3) v4(2) e(2)] by (auto simp: v5)
  have v8: "js_str v8 ''payload_b64'' = b64_encode E config" "B4 = B3"
    using assms(19) decrypt_payload_keyed [OF assms(3) B3 f(2)] by (auto simp: v6 js_str_object)
  have v9: "js_str v9 ''shard_b64'' = b64_encode E shard" "enroll_sessions B5 b = Some (keyed_session rc d None)"
    using assms(20) get_shard_keyed [OF B3, of E] by (auto simp: v8 js_str_object)
  have twice: "fst (byo_enrollment_session_get_shard E b B5) = js_error ''no shard stored in session''"
    by (simp add: get_shard_keyed [OF v9(2)])
  have "uint (sas_code d) < 1000000" using ok uint_nat [of "sas_code d"] unfolding session_keys_ok_def by linarith
  then have "\<exists>sas. js_get v3 ''sas_code'' = Some (JsNumber sas) \<and> 0 \<le> sas \<and> sas < 1000000"
    by (intro exI [of _ "uint (sas_code d)"]) (simp add: v3 js_get_object)
  moreover have "byo_enrollment_derive_keys P E a (js_str v2 ''eph_pk'') A2 = (js_error ''eph_sk already consumed or session not found'', A2)"
    unfolding v2(1) by (rule derive_keys_twice [OF assms(3) v3(2)])
  moreover have "v3 = v4" using v3(1) v4(1) by simp
  ultimately show ?thesis using v1(3) v2(2) v8(1) v9(1) twice by blast
qed

theorem enrollment_over_bindings_witness:
  "let (v1, A1) = byo_enrollment_open toy_prims toy_b64 (replicate 32 1) (replicate 16 7) enroll_store_init;
       (v2, B1) = byo_enrollment_join toy_prims toy_b64 (replicate 32 2) (js_str v1 ''channel_id'') enroll_store_init;
       (v3, A2) = byo_enrollment_derive_keys toy_prims toy_b64 1 (js_str v2 ''eph_pk'') A1;
       (v4, B2) = byo_enrollment_derive_keys toy_prims toy_b64 1 (js_str v1 ''eph_pk'') B1;
       (v5, A3) = byo_enrollment_session_encrypt_shard toy_prims toy_b64 (replicate 12 3) 1 (b64_encode toy_b64 (replicate 32 9)) A2;
       (v6, A4) = byo_enrollment_session_encrypt_payload toy_prims toy_b64 (replicate 12 4) 1 (b64_encode toy_b64 [5]) A3;
       (v7, B3) = byo_enrollment_session_decrypt_shard toy_prims toy_b64 1 (js_str v5 ''envelope_b64'') B2;
       (v8, B4) = byo_enrollment_session_decrypt_payload toy_prims toy_b64 1 (js_str v6 ''envelope_b64'') B3;
       (v9, B5) = byo_enrollment_session_get_shard toy_b64 1 B4 in
   v3 = v4 \<and> js_str v9 ''shard_b64'' = b64_encode toy_b64 (replicate 32 9) \<and> js_str v8 ''payload_b64'' = b64_encode toy_b64 [5]"
proof -
  have "1 = enroll_counter enroll_store_init" by (simp add: enroll_store_init_def)
  note w = enrollment_over_bindings [OF toy_ok(1,2) b64_ok_toy toy_commutes, of "replicate 16 7" "replicate 12 3" "replicate 12 4"
      "replicate 32 9" "[5]", OF _ _ _ _ _ _ this _ this]
  show ?thesis
    unfolding Let_def by (clarsimp split: prod.split) (drule (8) w [rotated 5], simp_all add: MAX_PAYLOAD_PLAINTEXT_LEN_def)
qed

end
