(* ===== verification/Wasm_Share.thy ===== *)
theory Wasm_Share
  imports Wasm_Base Wire_Format
begin

text \<open>
  Share links: the fragment of the URL that carries the key (\<open>sdk-core/src/byo/share.rs\<close>) and the bindings
  that create a fragment from a file header and decrypt a shared file piece by piece
  (\<open>sdk-wasm/src/byo.rs\<close>).  Argon2id with its parameters is the argument \<open>A\<close>:
  \<open>A memory iterations lanes output_len password salt\<close>.
\<close>

subsection \<open>share.rs\<close>

datatype ShareError = InvalidFragment string | WrongPassword | ShareCrypto CryptoError

fun ShareError_to_string :: "ShareError \<Rightarrow> string" where
  "ShareError_to_string (InvalidFragment m) = ''invalid fragment: '' @ m"
| "ShareError_to_string WrongPassword = ''wrong password or corrupted data''"
| "ShareError_to_string (ShareCrypto e) = ''crypto error: '' @ CryptoError_to_string e"

type_synonym argon2_into = "u32 \<Rightarrow> u32 \<Rightarrow> u32 \<Rightarrow> nat \<Rightarrow> bytes \<Rightarrow> bytes \<Rightarrow> bytes option"

definition SHARE_ARGON2_MEMORY_KB :: u32 where "SHARE_ARGON2_MEMORY_KB = 131072"
definition SHARE_ARGON2_ITERATIONS :: u32 where "SHARE_ARGON2_ITERATIONS = 3"
definition SHARE_ARGON2_PARALLELISM :: u32 where "SHARE_ARGON2_PARALLELISM = 4"
definition SHARE_ARGON2_OUTPUT_LEN :: nat where "SHARE_ARGON2_OUTPUT_LEN = 32"

definition argon2id_share_key :: "argon2_into \<Rightarrow> bytes \<Rightarrow> bytes \<Rightarrow> ShareError + bytes" where
  "argon2id_share_key A password salt =
     ok_or (ShareCrypto KdfFailed)
       (A SHARE_ARGON2_MEMORY_KB SHARE_ARGON2_ITERATIONS SHARE_ARGON2_PARALLELISM SHARE_ARGON2_OUTPUT_LEN password salt)"

text \<open>Argon2id returns the requested number of bytes for a salt of at least eight.\<close>

definition argon2_total :: "argon2_into \<Rightarrow> bool" where
  "argon2_total A \<longleftrightarrow> (\<forall>pw salt. 8 \<le> length salt \<longrightarrow>
     (\<exists>out. A SHARE_ARGON2_MEMORY_KB SHARE_ARGON2_ITERATIONS SHARE_ARGON2_PARALLELISM SHARE_ARGON2_OUTPUT_LEN pw salt = Some out \<and>
        length out = SHARE_ARGON2_OUTPUT_LEN))"

definition encode_variant_a :: "b64_engines \<Rightarrow> bytes \<Rightarrow> string" where
  "encode_variant_a E content_key = ''k='' @ url_encode E content_key"

definition decode_variant_a :: "b64_engines \<Rightarrow> string \<Rightarrow> ShareError + bytes" where
  "decode_variant_a E fragment =
     (case strip_prefix ''k='' fragment of
        None \<Rightarrow> Inl (InvalidFragment ''missing k= prefix'')
      | Some encoded \<Rightarrow>
          (case url_decode E encoded of
             None \<Rightarrow> Inl (InvalidFragment ''base64url decode failed'')
           | Some bs \<Rightarrow> if length bs = 32 then Inr bs else Inl (InvalidFragment ''content_key must be 32 bytes'')))"

text \<open>The draws are the salt and the nonce.\<close>

definition wrap_key_with_password ::
  "prims \<Rightarrow> b64_engines \<Rightarrow> argon2_into \<Rightarrow> bytes \<Rightarrow> bytes \<Rightarrow> bytes \<Rightarrow> string \<Rightarrow> ShareError + string \<times> string" where
  "wrap_key_with_password P E A rnd_salt rnd_nonce content_key password =
     and_then (argon2id_share_key A (as_bytes password) rnd_salt) (\<lambda>share_key_bytes.
     and_then (map_err ShareCrypto (SymmetricKey_from_slice share_key_bytes)) (\<lambda>share_key.
     and_then (map_err ShareCrypto (aes_gcm_encrypt_with_nonce P content_key share_key rnd_nonce)) (\<lambda>ciphertext.
     Inr (url_encode E rnd_salt, url_encode E (rnd_nonce @ ciphertext)))))"

definition unwrap_key_with_password ::
  "prims \<Rightarrow> b64_engines \<Rightarrow> argon2_into \<Rightarrow> string \<Rightarrow> string \<Rightarrow> string \<Rightarrow> ShareError + bytes" where
  "unwrap_key_with_password P E A salt_b64url encrypted_ck_b64url password =
     (case url_decode E salt_b64url of
        None \<Rightarrow> Inl (InvalidFragment ''salt base64url decode failed'')
      | Some salt \<Rightarrow>
          if length salt \<noteq> 16 then Inl (InvalidFragment ''salt must be 16 bytes'')
          else
            (case url_decode E encrypted_ck_b64url of
               None \<Rightarrow> Inl (InvalidFragment ''encrypted_ck base64url decode failed'')
             | Some enc_bytes \<Rightarrow>
                 if length enc_bytes < 12 then Inl (InvalidFragment ''encrypted_ck too short'')
                 else
                   and_then (map_err ShareCrypto (Nonce12_from_slice (take 12 enc_bytes))) (\<lambda>nonce.
                   and_then (argon2id_share_key A (as_bytes password) salt) (\<lambda>share_key_bytes.
                   and_then (map_err ShareCrypto (SymmetricKey_from_slice share_key_bytes)) (\<lambda>share_key.
                   and_then (map_err (\<lambda>_. WrongPassword) (aes_gcm_decrypt P (drop 12 enc_bytes) nonce share_key)) (\<lambda>plaintext.
                   if length plaintext = 32 then Inr plaintext
                   else Inl (InvalidFragment ''decrypted key must be 32 bytes'')))))))"

lemma variant_a_roundtrip:
  "b64_ok E \<Longrightarrow> length ck = 32 \<Longrightarrow> decode_variant_a E (encode_variant_a E ck) = Inr ck"
  by (simp add: decode_variant_a_def encode_variant_a_def strip_prefix_def)

lemma password_roundtrip:
  assumes "aead_correct P" and "b64_ok E" and "argon2_total A" and "length salt = 16" and "length n = 12" and "length ck = 32"
  obtains s e where "wrap_key_with_password P E A salt n ck pw = Inr (s, e)" and "unwrap_key_with_password P E A s e pw = Inr ck"
proof -
  have "8 \<le> length salt" using assms(4) by simp
  then obtain k where k: "argon2id_share_key A (as_bytes pw) salt = Inr k" "length k = 32"
    using assms(3) unfolding argon2_total_def argon2id_share_key_def SHARE_ARGON2_OUTPUT_LEN_def by fastforce
  have "length ck \<le> aead_limit" using assms(6) by simp
  then obtain c where c: "aead_seal P k n ck = Some c" "aead_open P k n c = Some ck"
    by (rule aead_correct_sealE [OF assms(1) k(2) assms(5)])
  show thesis
    by (rule that [of "url_encode E salt" "url_encode E (n @ c)"])
      (use assms(2,4,5,6) k c in \<open>simp_all add: wrap_key_with_password_def unwrap_key_with_password_def
        SymmetricKey_from_slice_def Nonce12_from_slice_def aes_gcm_encrypt_with_nonce_def aes_gcm_decrypt_def\<close>)
qed

subsection \<open>Fragments from a file header\<close>

definition X25519SecretKey_from_slice :: "bytes \<Rightarrow> CryptoError + bytes" where
  "X25519SecretKey_from_slice s = (if length s = 32 then Inr s else Inl InvalidKeyMaterial)"

definition header_init :: "prims \<Rightarrow> b64_engines \<Rightarrow> string \<Rightarrow> string \<Rightarrow> string \<Rightarrow> string + V7DecryptInit" where
  "header_init P E mlkem_sec_b64 x25519_sec_b64 header_b64 =
     and_then (decode_or E ''mlkem decode: invalid base64'' mlkem_sec_b64) (\<lambda>mlkem_bytes.
     and_then (e_str (MlKemSecretKey_from_slice mlkem_bytes)) (\<lambda>mlkem_sec.
     and_then (decode_or E ''x25519 decode: invalid base64'' x25519_sec_b64) (\<lambda>x25519_bytes.
     and_then (e_str (X25519SecretKey_from_slice x25519_bytes)) (\<lambda>x25519_sec.
     and_then (decode_or E ''header decode: invalid base64'' header_b64) (\<lambda>header.
     e_str (decrypt_file_v7_init P header mlkem_sec x25519_sec))))))"

definition quoted :: "string \<Rightarrow> string" where
  "quoted s = [CHR 0x27] @ s @ [CHR 0x27]"

definition byo_create_share_fragment ::
  "prims \<Rightarrow> b64_engines \<Rightarrow> argon2_into \<Rightarrow> bytes \<Rightarrow> bytes \<Rightarrow> string \<Rightarrow> string \<Rightarrow> string \<Rightarrow> string \<Rightarrow> string option \<Rightarrow> JsValue" where
  "byo_create_share_fragment P E A rnd_salt rnd_nonce mlkem_sec_b64 x25519_sec_b64 header_b64 variant password =
     js_result JsString
       (and_then (header_init P E mlkem_sec_b64 x25519_sec_b64 header_b64) (\<lambda>init.
        if variant = ''A'' then Inr (encode_variant_a E (di_content_key init))
        else if variant = ''A+'' then
          (case password of None \<Rightarrow> Inl ''password required for variant A+''
           | Some pwd \<Rightarrow>
               and_then (map_err ShareError_to_string (wrap_key_with_password P E A rnd_salt rnd_nonce (di_content_key init) pwd))
                 (\<lambda>(salt_b64, enc_b64). Inr (''s='' @ salt_b64 @ ''&e='' @ enc_b64)))
        else Inl (''unknown variant: '' @ variant @ ''; use '' @ quoted ''A'' @ '' or '' @ quoted ''A+'')))"

definition byo_bundle_extract_file_key :: "prims \<Rightarrow> b64_engines \<Rightarrow> string \<Rightarrow> string \<Rightarrow> string \<Rightarrow> JsValue" where
  "byo_bundle_extract_file_key P E mlkem_sec_b64 x25519_sec_b64 header_b64 =
     js_result (\<lambda>init. JsString (b64_encode E (di_content_key init))) (header_init P E mlkem_sec_b64 x25519_sec_b64 header_b64)"

definition byo_share_encode_variant_a :: "b64_engines \<Rightarrow> string \<Rightarrow> JsValue" where
  "byo_share_encode_variant_a E content_key_b64 =
     js_result JsString
       (and_then (decode_or E ''b64 decode failed: invalid base64'' content_key_b64) (\<lambda>ck_bytes.
        and_then (array_or 32 ''content_key must be 32 bytes'' ck_bytes) (\<lambda>ck. Inr (encode_variant_a E ck))))"

definition byo_share_decode_variant_a :: "b64_engines \<Rightarrow> string \<Rightarrow> JsValue" where
  "byo_share_decode_variant_a E fragment =
     js_result (\<lambda>ck. JsString (b64_encode E ck)) (map_err ShareError_to_string (decode_variant_a E fragment))"

definition byo_share_wrap_key :: "prims \<Rightarrow> b64_engines \<Rightarrow> argon2_into \<Rightarrow> bytes \<Rightarrow> bytes \<Rightarrow> string \<Rightarrow> string \<Rightarrow> JsValue" where
  "byo_share_wrap_key P E A rnd_salt rnd_nonce content_key_b64 password =
     js_result (\<lambda>(salt_b64, enc_b64). js_object [(''salt_b64url'', JsString salt_b64), (''encrypted_ck_b64url'', JsString enc_b64)])
       (and_then (decode_or E ''b64 decode failed: invalid base64'' content_key_b64) (\<lambda>ck_bytes.
        and_then (array_or 32 ''content_key must be 32 bytes'' ck_bytes) (\<lambda>ck.
        map_err ShareError_to_string (wrap_key_with_password P E A rnd_salt rnd_nonce ck password))))"

definition byo_share_unwrap_key :: "prims \<Rightarrow> b64_engines \<Rightarrow> argon2_into \<Rightarrow> string \<Rightarrow> string \<Rightarrow> string \<Rightarrow> JsValue" where
  "byo_share_unwrap_key P E A salt_b64url encrypted_ck_b64url password =
     js_result (\<lambda>ck. JsString (b64_encode E ck))
       (map_err ShareError_to_string (unwrap_key_with_password P E A salt_b64url encrypted_ck_b64url password))"

subsection \<open>Streaming decryption\<close>

type_synonym ShareStreamStore = "string \<Rightarrow> V7ShareDecryptor option"

text \<open>\<open>{b:02x}\<close> of the sixteen drawn bytes; \<open>None\<close> stands for a generator that fails.\<close>

definition share_session_id :: "bytes option \<Rightarrow> string" where
  "share_session_id rnd =
     (case rnd of None \<Rightarrow> ''csprng-unavailable''
      | Some bs \<Rightarrow> concat (map (\<lambda>b. [hex_digit (unat b div 16), hex_digit (unat b mod 16)]) bs))"

definition byo_share_stream_init ::
  "prims \<Rightarrow> b64_engines \<Rightarrow> bytes option \<Rightarrow> bytes \<Rightarrow> string \<Rightarrow> ShareStreamStore \<Rightarrow> JsValue \<times> ShareStreamStore" where
  "byo_share_stream_init P E rnd header content_key_b64 st =
     (case and_then (decode_or E ''content_key: invalid base64'' content_key_b64) (\<lambda>ck.
             if length ck \<noteq> 32 then Inl ''content_key must be 32 bytes''
             else e_str (ShareDecryptor_new P header ck)) of
        Inl e \<Rightarrow> (js_error e, st)
      | Inr (dec, _) \<Rightarrow>
          let sid = share_session_id rnd in (js_object [(''sessionId'', JsString sid)], st(sid \<mapsto> dec)))"

text \<open>A failed push leaves the decryptor as the failure left it.\<close>

definition byo_share_stream_push :: "prims \<Rightarrow> string \<Rightarrow> bytes \<Rightarrow> ShareStreamStore \<Rightarrow> JsValue \<times> ShareStreamStore" where
  "byo_share_stream_push P sid chunk st =
     (case st sid of
        None \<Rightarrow> (js_error ''unknown share session'', st)
      | Some dec \<Rightarrow>
          (case ShareDecryptor_push P dec chunk of
             (dec', Inr pt) \<Rightarrow> (JsBytes pt, st(sid \<mapsto> dec'))
           | (dec', Inl e) \<Rightarrow> (js_error (CryptoError_to_string e), st(sid \<mapsto> dec'))))"

definition byo_share_stream_close :: "prims \<Rightarrow> string \<Rightarrow> bytes \<Rightarrow> ShareStreamStore \<Rightarrow> JsValue \<times> ShareStreamStore" where
  "byo_share_stream_close P sid footer st =
     (case st sid of
        None \<Rightarrow> (js_error ''unknown share session'', st(sid := None))
      | Some dec \<Rightarrow>
          (case ShareDecryptor_finalize P dec footer of
             Inr _ \<Rightarrow> (js_object [(''ok'', JsBool True)], st(sid := None))
           | Inl e \<Rightarrow> (js_error (CryptoError_to_string e), st(sid := None))))"

definition byo_encrypt_manifest_v7 :: "prims \<Rightarrow> b64_engines \<Rightarrow> bytes \<Rightarrow> bytes \<Rightarrow> string \<Rightarrow> JsValue" where
  "byo_encrypt_manifest_v7 P E rnd_iv manifest_bytes content_key_b64 =
     js_result JsBytes
       (and_then (decode_or E ''content_key: invalid base64'' content_key_b64) (\<lambda>ck_bytes.
        if length ck_bytes \<noteq> 32 then Inl ''content_key must be 32 bytes''
        else and_then (e_str (SymmetricKey_from_slice ck_bytes)) (\<lambda>content_key.
          e_str (encrypt_manifest_v7 P rnd_iv manifest_bytes content_key))))"

definition byo_v7_share_decrypt :: "prims \<Rightarrow> b64_engines \<Rightarrow> bytes \<Rightarrow> string \<Rightarrow> JsValue" where
  "byo_v7_share_decrypt P E ciphertext content_key_b64 =
     js_result JsBytes
       (and_then (decode_or E ''content_key: invalid base64'' content_key_b64) (\<lambda>ck_bytes.
        if length ck_bytes \<noteq> 32 then Inl ''content_key must be 32 bytes''
        else if length ciphertext < V7_HEADER_MIN + 32 then Inl ''ciphertext too short to be valid V7''
        else and_then (e_str (ShareDecryptor_new P (take V7_HEADER_MIN ciphertext) ck_bytes)) (\<lambda>(dec, _).
          let body = slice V7_HEADER_MIN (length ciphertext - 32) ciphertext in
          (case ShareDecryptor_push P dec body of
             (_, Inl e) \<Rightarrow> Inl (CryptoError_to_string e)
           | (dec', Inr plaintext) \<Rightarrow>
               let footer = drop (length ciphertext - 32) ciphertext in
               (case ShareDecryptor_finalize P dec' footer of
                  Inl e \<Rightarrow> Inl (CryptoError_to_string e) | Inr _ \<Rightarrow> Inr plaintext)))))"

text \<open>The loop of the download page: every piece of the body is pushed in turn.\<close>

primrec share_stream_pushes :: "prims \<Rightarrow> string \<Rightarrow> bytes list \<Rightarrow> ShareStreamStore \<Rightarrow> JsValue list \<times> ShareStreamStore" where
  "share_stream_pushes P sid [] st = ([], st)"
| "share_stream_pushes P sid (d # ds) st =
     (let (v, st1) = byo_share_stream_push P sid d st; (vs, st2) = share_stream_pushes P sid ds st1 in (v # vs, st2))"

lemma stream_pushes_feed:
  "feed_all (feed_of (ShareDecryptor_push P)) dec ds = Inr (dec', out) \<Longrightarrow> st sid = Some dec \<Longrightarrow>
   \<exists>ps. share_stream_pushes P sid ds st = (map JsBytes ps, st(sid \<mapsto> dec')) \<and> concat ps = out"
proof (induction ds arbitrary: dec out st)
  case Nil
  then show ?case by (auto simp: fun_upd_idem)
next
  case (Cons d ds)
  then obtain dec1 o1 o2 where 1: "feed_of (ShareDecryptor_push P) dec d = Inr (dec1, o1)"
    and 2: "feed_all (feed_of (ShareDecryptor_push P)) dec1 ds = Inr (dec', o2)" and out: "out = o1 @ o2"
    by (auto simp: and_then_Inr_conv)
  have push: "byo_share_stream_push P sid d st = (JsBytes o1, st(sid \<mapsto> dec1))"
    using 1 Cons.prems(2) by (auto simp: byo_share_stream_push_def feed_of_def split: prod.splits sum.splits)
  obtain ps where "share_stream_pushes P sid ds (st(sid \<mapsto> dec1)) = (map JsBytes ps, st(sid \<mapsto> dec'))" "concat ps = o2"
    using Cons.IH [OF 2, of "st(sid \<mapsto> dec1)"] by (auto simp del: fun_upd_apply simp: fun_upd_same)
  then show ?case by (intro exI [of _ "o1 # ps"]) (simp add: push out del: fun_upd_apply)
qed

text \<open>A file as the encryptor writes it, and the decryptor a share link starts on it.\<close>

lemma shared_file_decrypts:
  assumes "aead_correct P" and "mac_lengths P" and "kem_correct P mlkem_pub mlkem_sec x25519_pub x25519_sec" and "file_rand_ok r"
    and "length cs < 2 ^ 32" and "list_all chunk_ok cs"
  obtains header frs footer dec dec' where "encrypt_file_v7 P r mlkem_pub x25519_pub cs = Inr (header @ frs @ footer)"
    and "length header = V7_HEADER_MIN" and "length footer = 32"
    and "decrypt_file_v7_init P header mlkem_sec x25519_sec =
      Inr \<lparr>di_file_iv = rnd_file_iv r, di_content_key = rnd_content_key (rnd_encap r), di_header_end = 1709\<rparr>"
    and "ShareDecryptor_new P header (rnd_content_key (rnd_encap r)) = Inr (dec, V7_HEADER_MIN)"
    and "\<forall>ds. ds \<noteq> [] \<and> concat ds = frs \<longrightarrow> feed_all (feed_of (ShareDecryptor_push P)) dec ds = Inr (dec', concat cs)"
    and "ShareDecryptor_finalize P dec' footer = Inr ()"
proof -
  obtain e header hk where new: "StreamEncryptor_new P r mlkem_pub x25519_pub = Inr (e, header)"
    and hl: "length header = V7_HEADER_MIN" and iv: "e_file_iv e = rnd_file_iv r"
    and ck: "e_content_key e = rnd_content_key (rnd_encap r)" and ix: "e_chunk_index e = 0"
    and share: "\<And>rest. ShareDecryptor_new P (header @ rest) (rnd_content_key (rnd_encap r)) =
           Inr (share_view ((decryptor_for e)\<lparr>d_buf := rest\<rparr>), V7_HEADER_MIN)"
    and dinit: "\<And>rest. decrypt_file_v7_init P (header @ rest) mlkem_sec x25519_sec =
      Inr \<lparr>di_file_iv = e_file_iv e, di_content_key = e_content_key e, di_header_end = 1709\<rparr>"
    by (rule StreamEncryptor_new_ok [OF assms(1-4)]) blast
  have lens: "length (e_file_iv e) = 12" "length (e_content_key e) = 32"
    using assms(4) by (simp_all add: iv ck file_rand_ok_def encap_rand_ok_def)
  obtain e' frs where run: "encrypt_all P e cs = Inr (e', frs)"
    using encrypt_all_total [OF assms(1) lens assms(6)] assms(5) ix by auto
  define footer where "footer = StreamEncryptor_finalize P e'"
  have "decryptor_for e\<lparr>d_buf := []\<rparr> = decryptor_for e" by (simp add: decryptor_for_def)
  then have dec: "ShareDecryptor_new P header (rnd_content_key (rnd_encap r)) = Inr (share_view (decryptor_for e), V7_HEADER_MIN)"
    using share [of "[]"] by simp
  have feed: "feed_all (feed_of (ShareDecryptor_push P)) (share_view (decryptor_for e)) ds = Inr (share_view (decryptor_for e'), concat cs)"
    if "ds \<noteq> []" "concat ds = frs" for ds
    using that decryptor_for_run [OF assms(1) lens(1) assms(6) run]
    by (simp add: share_dec.feed_all_concat ShareDecryptor_feed_view)
  have fl: "length footer = 32"
    using mac_lengths_simps [OF assms(2)] by (simp add: footer_def StreamEncryptor_finalize_def Hmac_finalize_def)
  then have fin: "ShareDecryptor_finalize P (share_view (decryptor_for e')) footer = Inr ()"
    by (simp add: ShareDecryptor_finalize_def decryptor_for_def V7_FOOTER_LEN_def footer_def StreamEncryptor_finalize_def)
  have enc: "encrypt_file_v7 P r mlkem_pub x25519_pub cs = Inr (header @ frs @ footer)"
    by (simp add: encrypt_file_v7_stream [OF assms(2,5)] new run footer_def)
  show thesis
    by (rule that [OF enc hl fl _ dec _ fin]) (use dinit [of "[]"] iv ck feed in simp_all)
qed

lemma share_key_committed:
  assumes "ShareDecryptor_new P header ck = Inr x" and "ShareDecryptor_new P header ck' = Inr y"
  shows "blake2b_256 P (ck @ slice 1 13 header) = blake2b_256 P (ck' @ slice 1 13 header)"
  using assms by (auto simp: ShareDecryptor_new_def and_then_Inr_conv Let_def split: if_splits)

lemma decrypt_init_iv: "decrypt_file_v7_init P header mk xk = Inr i \<Longrightarrow> di_file_iv i = slice 1 13 header"
  by (auto simp: decrypt_file_v7_init_def and_then_Inr_conv Let_def split: if_splits prod.splits)

lemma stream_init_accepts:
  assumes "b64_ok E" and "\<not> is_js_error (fst (byo_share_stream_init P E rnd header (b64_encode E ck) st))"
  obtains x where "ShareDecryptor_new P header ck = Inr x"
  using assms by (auto simp: byo_share_stream_init_def and_then_Inr_conv split: sum.splits if_splits prod.splits)

lemma one_shot_decrypts:
  assumes "b64_ok E" and "length ck = 32" and "length hdr = V7_HEADER_MIN" and "length ft = 32"
    and "ShareDecryptor_new P hdr ck = Inr (dec, m)" and "feed_of (ShareDecryptor_push P) dec frs = Inr (dec', out)"
    and "ShareDecryptor_finalize P dec' ft = Inr ()"
  shows "byo_v7_share_decrypt P E (hdr @ frs @ ft) (b64_encode E ck) = JsBytes out"
proof -
  have "ShareDecryptor_push P dec frs = (dec', Inr out)"
    using assms(6) by (auto simp: feed_of_def split: prod.splits sum.splits)
  then show ?thesis using assms(1-5,7) by (simp add: byo_v7_share_decrypt_def Let_def slice_def)
qed

lemma fragment_keys:
  assumes "aead_correct P" and "b64_ok E" and "argon2_total A" and "length salt = 16" and "length n = 12"
    and "length mlkem_sec = 3168" and "length x25519_sec = 32"
    and "decrypt_file_v7_init P header mlkem_sec x25519_sec = Inr i" and "length (di_content_key i) = 32"
  obtains f s e where
    "byo_create_share_fragment P E A salt n (b64_encode E mlkem_sec) (b64_encode E x25519_sec) (b64_encode E header) ''A'' None = JsString f"
    and "byo_share_decode_variant_a E f = JsString (b64_encode E (di_content_key i))"
    and "byo_create_share_fragment P E A salt n (b64_encode E mlkem_sec) (b64_encode E x25519_sec) (b64_encode E header) ''A+'' (Some pw) =
      JsString (''s='' @ s @ ''&e='' @ e)"
    and "byo_share_unwrap_key P E A s e pw = JsString (b64_encode E (di_content_key i))"
proof -
  obtain s e where se: "wrap_key_with_password P E A salt n (di_content_key i) pw = Inr (s, e)"
      "unwrap_key_with_password P E A s e pw = Inr (di_content_key i)"
    by (rule password_roundtrip [OF assms(1-5,9)])
  have h: "header_init P E (b64_encode E mlkem_sec) (b64_encode E x25519_sec) (b64_encode E header) = Inr i"
    using assms by (simp add: header_init_def MlKemSecretKey_from_slice_def X25519SecretKey_from_slice_def)
  show thesis
    by (rule that [of "encode_variant_a E (di_content_key i)" s e])
      (use se h variant_a_roundtrip [OF assms(2,9)] in \<open>simp_all add: byo_create_share_fragment_def byo_share_decode_variant_a_def
        byo_share_unwrap_key_def\<close>)
qed

text \<open>
  C4.  A share link gives its recipient the file.  For every file the owner encrypted, the fragment
  made from the header with the owner's keys decodes to a key, plain or under the password; with
  that key and the header a stream is started, the body can be pushed in any pieces, the outputs
  join to the file, closing with the footer confirms it and forgets the session; the one-shot
  function returns the same bytes.  A different key is refused at the start unless BLAKE2b collides.
\<close>

theorem share_link_delivers:
  assumes "aead_correct P" and "mac_lengths P" and "b64_ok E" and "argon2_total A"
    and "kem_correct P mlkem_pub mlkem_sec x25519_pub x25519_sec" and "file_rand_ok r" and "length salt = 16" and "length n = 12"
    and "length cs < 2 ^ 32" and "list_all chunk_ok cs" and "encrypt_file_v7 P r mlkem_pub x25519_pub cs = Inr blob"
    and "header = take V7_HEADER_MIN blob" and "footer = drop (length blob - 32) blob"
    and "body \<noteq> []" and "concat body = slice V7_HEADER_MIN (length blob - 32) blob" and "sid = share_session_id rnd"
  shows "\<exists>f s e k dec ps dec'.
    byo_create_share_fragment P E A salt n (b64_encode E mlkem_sec) (b64_encode E x25519_sec) (b64_encode E header) ''A'' None = JsString f \<and>
    byo_share_decode_variant_a E f = JsString k \<and>
    byo_create_share_fragment P E A salt n (b64_encode E mlkem_sec) (b64_encode E x25519_sec) (b64_encode E header) ''A+'' (Some pw) =
      JsString (''s='' @ s @ ''&e='' @ e) \<and>
    byo_share_unwrap_key P E A s e pw = JsString k \<and>
    byo_share_stream_init P E rnd header k st = (js_object [(''sessionId'', JsString sid)], st(sid \<mapsto> dec)) \<and>
    share_stream_pushes P sid body (st(sid \<mapsto> dec)) = (map JsBytes ps, st(sid \<mapsto> dec')) \<and> concat ps = concat cs \<and>
    byo_share_stream_close P sid footer (st(sid \<mapsto> dec')) = (js_object [(''ok'', JsBool True)], st(sid := None)) \<and>
    byo_v7_share_decrypt P E blob k = JsBytes (concat cs) \<and>
    (\<forall>ck. \<not> is_js_error (fst (byo_share_stream_init P E rnd header (b64_encode E ck) st)) \<longrightarrow>
      blake2b_256 P (ck @ rnd_file_iv r) = blake2b_256 P (rnd_content_key (rnd_encap r) @ rnd_file_iv r))"
proof -
  let ?ck = "rnd_content_key (rnd_encap r)"
  obtain hdr frs ft dec dec' where enc: "encrypt_file_v7 P r mlkem_pub x25519_pub cs = Inr (hdr @ frs @ ft)"
    and len: "length hdr = V7_HEADER_MIN" "length ft = 32"
    and init: "decrypt_file_v7_init P hdr mlkem_sec x25519_sec = Inr \<lparr>di_file_iv = rnd_file_iv r, di_content_key = ?ck, di_header_end = 1709\<rparr>"
    and dec: "ShareDecryptor_new P hdr ?ck = Inr (dec, V7_HEADER_MIN)"
    and feed: "\<forall>ds. ds \<noteq> [] \<and> concat ds = frs \<longrightarrow> feed_all (feed_of (ShareDecryptor_push P)) dec ds = Inr (dec', concat cs)"
    and fin: "ShareDecryptor_finalize P dec' ft = Inr ()"
    by (rule shared_file_decrypts [OF assms(1,2,5,6,9,10)])
  have blob: "blob = hdr @ frs @ ft" using enc assms(11) by simp
  then have parts: "header = hdr" "footer = ft" "concat body = frs" "slice V7_HEADER_MIN (length blob - 32) blob = frs"
    using assms(12,13,15) len by (simp_all add: slice_def)
  have keys: "length mlkem_sec = 3168" "length x25519_sec = 32" "length ?ck = 32"
    using assms(5,6) by (simp_all add: kem_correct_def file_rand_ok_def encap_rand_ok_def)
  obtain f s e where frag: "byo_create_share_fragment P E A salt n (b64_encode E mlkem_sec) (b64_encode E x25519_sec) (b64_encode E hdr) ''A'' None = JsString f"
      "byo_share_decode_variant_a E f = JsString (b64_encode E ?ck)"
      "byo_create_share_fragment P E A salt n (b64_encode E mlkem_sec) (b64_encode E x25519_sec) (b64_encode E hdr) ''A+'' (Some pw) =
        JsString (''s='' @ s @ ''&e='' @ e)" "byo_share_unwrap_key P E A s e pw = JsString (b64_encode E ?ck)"
    using fragment_keys [OF assms(1,3,4,7,8) keys(1,2) init, of pw] keys(3) by auto
  have start: "byo_share_stream_init P E rnd header (b64_encode E ?ck) st = (js_object [(''sessionId'', JsString sid)], st(sid \<mapsto> dec))"
    using assms(3,16) keys(3) dec by (simp add: byo_share_stream_init_def parts Let_def)
  have "feed_all (feed_of (ShareDecryptor_push P)) dec body = Inr (dec', concat cs)" using feed assms(14) parts(3) by blast
  then obtain ps where ps: "share_stream_pushes P sid body (st(sid \<mapsto> dec)) = (map JsBytes ps, st(sid \<mapsto> dec'))" "concat ps = concat cs"
    using stream_pushes_feed [of P dec body dec' "concat cs" "st(sid \<mapsto> dec)" sid] by (auto simp del: fun_upd_apply simp: fun_upd_same)
  have close: "byo_share_stream_close P sid footer (st(sid \<mapsto> dec')) = (js_object [(''ok'', JsBool True)], st(sid := None))"
    using fin by (simp add: byo_share_stream_close_def parts)
  have "feed_of (ShareDecryptor_push P) dec frs = Inr (dec', concat cs)"
    using feed [THEN spec, of "[frs]"] share_dec.feed_all_concat [of "[frs]" P dec] by simp
  then have one: "byo_v7_share_decrypt P E blob (b64_encode E ?ck) = JsBytes (concat cs)"
    unfolding blob by (rule one_shot_decrypts [OF assms(3) keys(3) len dec _ fin])
  have other: "blake2b_256 P (ck @ rnd_file_iv r) = blake2b_256 P (?ck @ rnd_file_iv r)"
    if accepted: "\<not> is_js_error (fst (byo_share_stream_init P E rnd header (b64_encode E ck) st))" for ck
  proof -
    obtain x where "ShareDecryptor_new P header ck = Inr x" by (rule stream_init_accepts [OF assms(3) accepted])
    then have "ShareDecryptor_new P hdr ck = Inr x" using parts(1) by simp
    then show ?thesis using share_key_committed [OF _ dec] decrypt_init_iv [OF init] by simp
  qed
  show ?thesis using frag start ps close one other unfolding parts(1) by blast
qed

definition toy_argon2 :: argon2_into where
  "toy_argon2 m t p len pw salt = Some (take len (pw @ salt @ replicate len 0))"

lemma toy_argon2_total: "argon2_total toy_argon2"
  by (auto simp: argon2_total_def toy_argon2_def)

lemma toy_encrypt: "\<exists>blob. encrypt_file_v7 toy_prims toy_rand (replicate 1568 0) (replicate 32 9) [[1, 2, 3], [4, 5]] = Inr blob"
proof -
  have l: "length (replicate 32 (9 :: u8)) = 32" "length [[1, 2, 3], [4, 5 :: u8]] < 2 ^ 32" by simp_all
  obtain hdr frs ft where "encrypt_file_v7 toy_prims toy_rand (replicate 1568 0) (replicate 32 9) [[1, 2, 3], [4, 5]] = Inr (hdr @ frs @ ft)"
    by (rule shared_file_decrypts [OF toy_ok(1,2) kem_correct_toy [OF l(1)] toy_rand_ok l(2) toy_chunk_ok])
  then show ?thesis by (rule exI)
qed

theorem share_link_delivers_witness:
  "\<exists>blob k. encrypt_file_v7 toy_prims toy_rand (replicate 1568 0) (replicate 32 9) [[1, 2, 3], [4, 5]] = Inr blob \<and>
     byo_v7_share_decrypt toy_prims toy_b64 blob k = JsBytes [1, 2, 3, 4, 5]"
proof -
  obtain blob where b: "encrypt_file_v7 toy_prims toy_rand (replicate 1568 0) (replicate 32 9) [[1, 2, 3], [4, 5]] = Inr blob"
    using toy_encrypt by blast
  have "length [[1, 2, 3], [4, 5 :: u8]] < 2 ^ 32" "length (replicate 16 (0 :: u8)) = 16" "length (replicate 12 (0 :: u8)) = 12"
      "length (replicate 32 (9 :: u8)) = 32" "concat [slice V7_HEADER_MIN (length blob - 32) blob] = slice V7_HEADER_MIN (length blob - 32) blob"
    by simp_all
  from share_link_delivers [OF toy_ok(1,2) b64_ok_toy toy_argon2_total kem_correct_toy [OF this(4)] toy_rand_ok this(2,3,1) toy_chunk_ok b
      refl refl _ this(5) refl]
  show ?thesis using b by force
qed

end
