(* ===== verification/Relay_Base.thy ===== *)
theory Relay_Base
  imports Wattcloud_Prelude "HOL-Library.AList"
begin

text \<open>
  What the components of the relay (\<open>src/byo-relay\<close>) share: hash maps, IP addresses with the
  rate-limit bucketing of \<open>rate_limit.rs\<close>, and clocks.

  A \<open>HashMap\<close> is an association list with distinct keys: \<open>map_of\<close> is \<open>get\<close>, \<open>AList.update\<close> is
  \<open>insert\<close>, \<open>AList.delete\<close> is \<open>remove\<close>, \<open>length\<close> is \<open>len\<close>.  A \<open>RwLock\<close> makes each method that takes
  the write lock once a single step on the map it guards, so a method is a function from the state
  to the state; lock poisoning cannot occur, since no code panics while it holds a lock.

  An \<open>Instant\<close> is an integer number of nanoseconds.  Wall-clock times are seconds.
\<close>

type_synonym ('k, 'v) hmap = "('k \<times> 'v) list"
type_synonym instant = int

abbreviation hm_keys :: "('k, 'v) hmap \<Rightarrow> 'k set" where "hm_keys m \<equiv> fst ` set m"
abbreviation hm_ok :: "('k, 'v) hmap \<Rightarrow> bool" where "hm_ok m \<equiv> distinct (map fst m)"

definition hm_retain :: "('k \<Rightarrow> 'v \<Rightarrow> bool) \<Rightarrow> ('k, 'v) hmap \<Rightarrow> ('k, 'v) hmap" where
  "hm_retain p m = filter (\<lambda>(k, v). p k v) m"

definition get_or :: "'v \<Rightarrow> ('k, 'v) hmap \<Rightarrow> 'k \<Rightarrow> 'v" where
  "get_or d m k = (case map_of m k of None \<Rightarrow> d | Some v \<Rightarrow> v)"

lemma hm_retain_ok [simp]: "hm_ok m \<Longrightarrow> hm_ok (hm_retain p m)"
  by (simp add: hm_retain_def distinct_map_filter)

lemma hm_update_ok [simp]: "hm_ok m \<Longrightarrow> hm_ok (AList.update k v m)"
  by (rule distinct_update)

lemma hm_delete_ok [simp]: "hm_ok m \<Longrightarrow> hm_ok (AList.delete k m)"
  by (rule distinct_delete)

lemma hm_get_update [simp]: "map_of (AList.update k v m) k' = (if k' = k then Some v else map_of m k')"
  by (simp add: update_conv')

lemma hm_get_delete [simp]: "map_of (AList.delete k m) k' = (if k' = k then None else map_of m k')"
  by (simp add: delete_conv')

lemma hm_get_retain:
  "hm_ok m \<Longrightarrow> map_of (hm_retain p m) k = (case map_of m k of None \<Rightarrow> None | Some v \<Rightarrow> if p k v then Some v else None)"
proof (induction m)
  case (Cons kv m)
  then have "fst kv \<notin> hm_keys (hm_retain p m)" by (auto simp: hm_retain_def)
  then have "map_of (hm_retain p m) (fst kv) = None" by (simp add: map_of_eq_None_iff)
  with Cons show ?case by (cases kv) (auto simp: hm_retain_def split: option.splits)
qed (simp add: hm_retain_def)

lemma get_or_update [simp]: "get_or d (AList.update k v m) k' = (if k' = k then v else get_or d m k')"
  by (simp add: get_or_def)

lemma get_or_delete [simp]: "get_or d (AList.delete k m) k' = (if k' = k then d else get_or d m k')"
  by (simp add: get_or_def)

lemma hm_keys_update [simp]: "hm_keys (AList.update k v m) = insert k (hm_keys m)"
  by (simp add: dom_update)

lemma hm_mem_keys: "k \<in> hm_keys m \<longleftrightarrow> map_of m k \<noteq> None"
  by (simp add: map_of_eq_None_iff)

lemma hm_SomeI: "hm_ok m \<Longrightarrow> (k, v) \<in> set m \<Longrightarrow> map_of m k = Some v"
  by (simp add: map_of_is_SomeI)

lemma hm_ex: "hm_ok m \<Longrightarrow> list_ex (\<lambda>(_, v). p v) m \<longleftrightarrow> (\<exists>k v. map_of m k = Some v \<and> p v)"
  by (auto simp: list_ex_iff dest: map_of_SomeD intro: hm_SomeI)

lemma hm_findD: "hm_ok m \<Longrightarrow> find (\<lambda>(_, v). p v) m = Some (k, v) \<Longrightarrow> map_of m k = Some v \<and> p v"
  by (auto simp: find_Some_iff) (metis hm_SomeI nth_mem)

lemma hm_find_None: "hm_ok m \<Longrightarrow> find (\<lambda>(_, v). p v) m = None \<longleftrightarrow> (\<forall>k v. map_of m k = Some v \<longrightarrow> \<not> p v)"
  by (auto simp: find_None_iff dest: map_of_SomeD intro: hm_SomeI)

lemma hm_second:
  assumes "hm_ok m" and "1 < length (filter (\<lambda>(_, v). p v) m)"
  shows "\<exists>j w. j \<noteq> i \<and> map_of m j = Some w \<and> p w"
proof -
  let ?f = "filter (\<lambda>(_, v). p v) m"
  have "distinct (map fst ?f)" using assms(1) by (simp add: distinct_map_filter)
  then have "card (fst ` set ?f) = length ?f" by (metis distinct_card length_map list.set_map)
  then have "\<not> fst ` set ?f \<subseteq> {i}" using assms(2) by (metis card_mono card.empty card_insert_le_m1 finite.emptyI finite_insert
      is_singletonI is_singleton_altdef leD le_less_trans less_one less_numeral_extra(4))
  then show ?thesis using assms(1) by (auto intro: hm_SomeI)
qed

subsection \<open>Comparison without early exit\<close>

lemma or_eq_zero: "or a b = (0 :: 'a :: len word) \<longleftrightarrow> a = 0 \<and> b = 0"
  by (auto simp: bit_eq_iff bit_or_iff)

lemma xor_eq_zero: "xor a b = (0 :: 'a :: len word) \<longleftrightarrow> a = b"
  by (auto simp: bit_eq_iff bit_xor_iff)

lemma foldl_diff_zero:
  "length xs = length ys \<Longrightarrow> foldl (\<lambda>diff (a, b). or diff (xor a b)) d (zip xs ys) = (0 :: 'a :: len word) \<longleftrightarrow> d = 0 \<and> xs = ys"
  by (induction xs ys arbitrary: d rule: list_induct2) (auto simp: or_eq_zero xor_eq_zero)

subsection \<open>Text\<close>

definition to_ascii_lowercase :: "string \<Rightarrow> string" where
  "to_ascii_lowercase = map (\<lambda>c. let n = of_char c :: nat in if 65 \<le> n \<and> n \<le> 90 then char_of (n + 32) else c)"

subsection \<open>Addresses and buckets\<close>

text \<open>\<open>std::net::IpAddr\<close> by its octets: four for IPv4, sixteen for IPv6.\<close>

datatype IpAddr = IpV4 bytes | IpV6 bytes

datatype IpBucket = BucketV4 bytes | V6Slash64 bytes

fun IpBucket_from :: "IpAddr \<Rightarrow> IpBucket" where
  "IpBucket_from (IpV4 v4) = BucketV4 v4"
| "IpBucket_from (IpV6 octets) = V6Slash64 (take 8 octets)"

subsection \<open>Clocks\<close>

definition from_secs :: "nat \<Rightarrow> int" where
  "from_secs n = int n * 1000000000"

text \<open>\<open>Instant::duration_since\<close> saturates at zero.\<close>

definition duration_since :: "instant \<Rightarrow> instant \<Rightarrow> int" where
  "duration_since now earlier = max 0 (now - earlier)"

end
