(* ===== verification/Share_Store.thy ===== *)
theory Share_Store
  imports Relay_Base
begin

text \<open>
  The persistent share store (\<open>byo-relay/src/share_store.rs\<close>): the SQLite tables \<open>shares\<close> and
  \<open>blobs\<close> and the directory of blob files.

  Each SQL statement of the code is written out on the tables.  SQLite itself is outside the
  repository: statements fail only where the schema makes them fail (the foreign key of \<open>blobs\<close>, an
  integer overflow of \<open>SUM\<close>), and a transaction that is dropped leaves the tables unchanged.  The file
  system may fail: creating a directory succeeds or not, and removing one either succeeds or leaves
  some files, both as arguments.
\<close>

declare map_of_eq_Some_iff [simp del] Some_eq_map_of_iff [simp del]

datatype ShareKind = KindFile | KindFolder | KindCollection

fun ShareKind_as_str :: "ShareKind \<Rightarrow> string" where
  "ShareKind_as_str KindFile = ''file''"
| "ShareKind_as_str KindFolder = ''folder''"
| "ShareKind_as_str KindCollection = ''collection''"

definition ShareKind_parse :: "string \<Rightarrow> ShareKind option" where
  "ShareKind_parse s =
     (if s = ''file'' then Some KindFile
      else if s = ''folder'' then Some KindFolder
      else if s = ''collection'' then Some KindCollection
      else None)"

record ShareMeta =
  kind :: ShareKind
  created_at :: int
  expires_at :: int
  revoked :: bool
  sealed :: bool
  token_nonce :: bytes
  total_bytes :: int

record ShareRow = ShareMeta +
  bundle_token :: "bytes option"

datatype StoreError = Sqlite | Io | Conflict | NotFound | InvalidKind | LockPoisoned

type_synonym dir = "(string, bytes) hmap"

record ShareStore =
  shares :: "(string, ShareRow) hmap"
  blobs :: "(string \<times> string, int \<times> int) hmap"
  dirs :: "(string, dir) hmap"

definition UNSEALED_MAX_LIFETIME_SECS :: int where "UNSEALED_MAX_LIFETIME_SECS = 4 * 3600"

definition i64_max :: int where "i64_max = 9223372036854775807"

definition ShareStore_empty :: ShareStore where
  "ShareStore_empty = \<lparr>shares = [], blobs = [], dirs = []\<rparr>"

subsection \<open>Operations\<close>

definition create_share :: "bool \<Rightarrow> int \<Rightarrow> string \<Rightarrow> ShareKind \<Rightarrow> int \<Rightarrow> bytes \<Rightarrow> ShareStore \<Rightarrow> (StoreError + unit) \<times> ShareStore" where
  "create_share mkdir_ok now share_id k expires nonce st =
     (if map_of (shares st) share_id \<noteq> None then (Inl Conflict, st)
      else
        let row = \<lparr>kind = k, created_at = now, expires_at = expires, revoked = False, sealed = False, token_nonce = nonce,
                   total_bytes = 0, bundle_token = None\<rparr>;
            st = st\<lparr>shares := AList.update share_id row (shares st)\<rparr> in
        if \<not> mkdir_ok then (Inl Io, st)
        else (Inr (), st\<lparr>dirs := AList.update share_id (get_or [] (dirs st) share_id) (dirs st)\<rparr>))"

definition mark_sealed :: "string \<Rightarrow> ShareStore \<Rightarrow> (StoreError + unit) \<times> ShareStore" where
  "mark_sealed share_id st =
     (case map_of (shares st) share_id of
        None \<Rightarrow> (Inl NotFound, st)
      | Some row \<Rightarrow> (Inr (), st\<lparr>shares := AList.update share_id (row\<lparr>sealed := True, bundle_token := None\<rparr>) (shares st)\<rparr>))"

definition set_bundle_token :: "string \<Rightarrow> bytes \<Rightarrow> ShareStore \<Rightarrow> (StoreError + unit) \<times> ShareStore" where
  "set_bundle_token share_id token st =
     (case map_of (shares st) share_id of
        None \<Rightarrow> (Inl NotFound, st)
      | Some row \<Rightarrow>
          if sealed row then (Inl NotFound, st)
          else (Inr (), st\<lparr>shares := AList.update share_id (row\<lparr>bundle_token := Some token\<rparr>) (shares st)\<rparr>))"

definition token_diff :: "bytes \<Rightarrow> bytes \<Rightarrow> u8" where
  "token_diff xs ys = foldl (\<lambda>diff (a, b). or diff (xor a b)) 0 (zip xs ys)"

definition verify_bundle_token :: "string \<Rightarrow> bytes \<Rightarrow> int \<Rightarrow> ShareStore \<Rightarrow> StoreError + bool" where
  "verify_bundle_token share_id presented now st =
     (case map_of (shares st) share_id of
        None \<Rightarrow> Inr False
      | Some row \<Rightarrow>
          if sealed row \<or> revoked row then Inr False
          else if expires_at row \<le> now \<or> created_at row + UNSEALED_MAX_LIFETIME_SECS \<le> now then Inr False
          else (case bundle_token row of
                  None \<Rightarrow> Inr False
                | Some stored \<Rightarrow>
                    if length stored \<noteq> length presented then Inr False
                    else Inr (token_diff stored presented = 0)))"

definition meta_of :: "ShareRow \<Rightarrow> ShareMeta" where
  "meta_of row =
     \<lparr>kind = kind row, created_at = created_at row, expires_at = expires_at row, revoked = revoked row, sealed = sealed row,
      token_nonce = (if length (token_nonce row) = 16 then token_nonce row else replicate 16 0), total_bytes = total_bytes row\<rparr>"

definition get_meta :: "string \<Rightarrow> ShareStore \<Rightarrow> StoreError + ShareMeta option" where
  "get_meta share_id st = Inr (map_option meta_of (map_of (shares st) share_id))"

text \<open>\<open>SELECT COALESCE(SUM(bytes), 0) FROM blobs WHERE share_id=?1\<close>; an overflow is an error.\<close>

definition blob_sum :: "string \<Rightarrow> (string \<times> string, int \<times> int) hmap \<Rightarrow> int" where
  "blob_sum share_id bs = sum_list (map (\<lambda>((s, _), (n, _)). if s = share_id then n else 0) bs)"

definition update_total :: "string \<Rightarrow> ShareStore \<Rightarrow> StoreError + ShareStore" where
  "update_total share_id st =
     (let s = blob_sum share_id (blobs st) in
      if s > i64_max then Inl Sqlite
      else (case map_of (shares st) share_id of
              None \<Rightarrow> Inr st
            | Some row \<Rightarrow> Inr (st\<lparr>shares := AList.update share_id (row\<lparr>total_bytes := s\<rparr>) (shares st)\<rparr>)))"

definition record_blob :: "int \<Rightarrow> string \<Rightarrow> string \<Rightarrow> int \<Rightarrow> ShareStore \<Rightarrow> (StoreError + unit) \<times> ShareStore" where
  "record_blob now share_id blob_id n st =
     (if map_of (shares st) share_id = None then (Inl Sqlite, st)
      else (case update_total share_id (st\<lparr>blobs := AList.update (share_id, blob_id) (n, now) (blobs st)\<rparr>) of
              Inl e \<Rightarrow> (Inl e, st)
            | Inr st' \<Rightarrow> (Inr (), st')))"

text \<open>\<open>remove_dir_all\<close>: \<open>None\<close> when it succeeds, otherwise the files it left behind.\<close>

definition remove_dir :: "dir option \<Rightarrow> string \<Rightarrow> ShareStore \<Rightarrow> ShareStore" where
  "remove_dir left share_id st =
     (case left of
        None \<Rightarrow> st\<lparr>dirs := AList.delete share_id (dirs st)\<rparr>
      | Some files \<Rightarrow> st\<lparr>dirs := AList.update share_id files (dirs st)\<rparr>)"

definition drop_blobs :: "string \<Rightarrow> (string \<times> string, int \<times> int) hmap \<Rightarrow> (string \<times> string, int \<times> int) hmap" where
  "drop_blobs share_id bs = filter (\<lambda>((s, _), _). s \<noteq> share_id) bs"

definition revoke_share :: "dir option \<Rightarrow> string \<Rightarrow> ShareStore \<Rightarrow> (StoreError + unit) \<times> ShareStore" where
  "revoke_share left share_id st =
     (case map_of (shares st) share_id of
        None \<Rightarrow> (Inl NotFound, st)
      | Some row \<Rightarrow>
          let st = st\<lparr>shares := AList.update share_id (row\<lparr>revoked := True, total_bytes := 0\<rparr>) (shares st),
                      blobs := drop_blobs share_id (blobs st)\<rparr> in
          (Inr (), if map_of (dirs st) share_id = None then st else remove_dir left share_id st))"

definition blob_file :: "string \<Rightarrow> string" where "blob_file blob_id = blob_id @ ''.v7''"

definition read_file :: "string \<Rightarrow> string \<Rightarrow> ShareStore \<Rightarrow> bytes option" where
  "read_file share_id name st = (case map_of (dirs st) share_id of None \<Rightarrow> None | Some d \<Rightarrow> map_of d name)"

definition write_file :: "string \<Rightarrow> string \<Rightarrow> bytes \<Rightarrow> ShareStore \<Rightarrow> ShareStore" where
  "write_file share_id name content st =
     st\<lparr>dirs := AList.update share_id (AList.update name content (get_or [] (dirs st) share_id)) (dirs st)\<rparr>"

definition remove_file :: "string \<Rightarrow> string \<Rightarrow> ShareStore \<Rightarrow> ShareStore" where
  "remove_file share_id name st =
     (case map_of (dirs st) share_id of
        None \<Rightarrow> st
      | Some d \<Rightarrow> st\<lparr>dirs := AList.update share_id (AList.delete name d) (dirs st)\<rparr>)"

text \<open>\<open>unlink_ok\<close>: the final removal of the file succeeds; its failure is ignored.\<close>

definition delete_blob :: "bool \<Rightarrow> string \<Rightarrow> string \<Rightarrow> ShareStore \<Rightarrow> (StoreError + unit) \<times> ShareStore" where
  "delete_blob unlink_ok share_id blob_id st =
     (case update_total share_id (st\<lparr>blobs := AList.delete (share_id, blob_id) (blobs st)\<rparr>) of
        Inl e \<Rightarrow> (Inl e, st)
      | Inr st \<Rightarrow> (Inr (), if unlink_ok then remove_file share_id (blob_file blob_id) st else st))"

text \<open>\<open>ORDER BY blob_id\<close>: the order is bytewise, as of \<open>sort_key\<close> on strings.\<close>

definition list_blobs :: "((string \<times> int) list \<Rightarrow> (string \<times> int) list) \<Rightarrow> string \<Rightarrow> ShareStore \<Rightarrow> StoreError + (string \<times> int) list" where
  "list_blobs order_by_id share_id st =
     Inr (order_by_id (map (\<lambda>((_, b), (n, _)). (b, n)) (filter (\<lambda>((s, _), _). s = share_id) (blobs st))))"

definition victim :: "int \<Rightarrow> ShareRow \<Rightarrow> bool" where
  "victim now row \<longleftrightarrow> revoked row \<or> expires_at row \<le> now \<or> \<not> sealed row \<and> created_at row \<le> now - UNSEALED_MAX_LIFETIME_SECS"

fun purge_dirs :: "(string \<Rightarrow> dir option) \<Rightarrow> (string \<times> int) list \<Rightarrow> ShareStore \<Rightarrow> string list \<times> int \<times> ShareStore" where
  "purge_dirs left [] st = ([], 0, st)"
| "purge_dirs left ((share_id, n) # vs) st =
     (if map_of (dirs st) share_id = None then
        (case purge_dirs left vs st of (ids, freed, st') \<Rightarrow> (share_id # ids, n + freed, st'))
      else (case left share_id of
              None \<Rightarrow>
                (case purge_dirs left vs (remove_dir None share_id st) of (ids, freed, st') \<Rightarrow> (share_id # ids, n + freed, st'))
            | Some files \<Rightarrow> purge_dirs left vs (remove_dir (Some files) share_id st)))"

text \<open>\<open>DELETE FROM shares\<close>; the foreign key cascades to \<open>blobs\<close>.\<close>

definition delete_row :: "string \<Rightarrow> ShareStore \<Rightarrow> ShareStore" where
  "delete_row share_id st =
     st\<lparr>shares := AList.delete share_id (shares st), blobs := drop_blobs share_id (blobs st)\<rparr>"

definition purge_expired_and_revoked :: "(string \<Rightarrow> dir option) \<Rightarrow> int \<Rightarrow> ShareStore \<Rightarrow> (string list \<times> int) \<times> ShareStore" where
  "purge_expired_and_revoked left now st =
     (let victims = map (\<lambda>(s, row). (s, total_bytes row)) (filter (\<lambda>(_, row). victim now row) (shares st)) in
      case purge_dirs left victims st of
        (to_clear, freed, st) \<Rightarrow> ((to_clear, freed), foldl (\<lambda>st s. delete_row s st) st to_clear))"

definition total_live_bytes :: "int \<Rightarrow> ShareStore \<Rightarrow> StoreError + int" where
  "total_live_bytes now st =
     (let s = sum_list (map (\<lambda>(_, row). if \<not> revoked row \<and> expires_at row > now then total_bytes row else 0) (shares st)) in
      if s > i64_max then Inl Sqlite else Inr s)"

subsection \<open>Lookup and sums on the tables\<close>

lemma drop_blobs_alt: "drop_blobs s bs = hm_retain (\<lambda>k _. fst k \<noteq> s) bs"
  unfolding drop_blobs_def hm_retain_def by (rule filter_cong) auto

lemma drop_blobs_ok [simp]: "hm_ok bs \<Longrightarrow> hm_ok (drop_blobs s bs)"
  by (simp add: drop_blobs_alt)

lemma hm_get_drop_blobs [simp]: "map_of (drop_blobs s bs) k = (if fst k = s then None else map_of bs k)"
  by (induction bs) (auto simp: drop_blobs_def)

lemma blob_sum_update_other: "s \<noteq> fst k \<Longrightarrow> blob_sum s (AList.update k v bs) = blob_sum s bs"
  by (induction bs) (auto simp: blob_sum_def split: prod.splits)

lemma blob_sum_delete_other: "s \<noteq> fst k \<Longrightarrow> blob_sum s (AList.delete k bs) = blob_sum s bs"
  by (induction bs) (auto simp: blob_sum_def)

lemma blob_sum_drop [simp]: "blob_sum s (drop_blobs t bs) = (if s = t then 0 else blob_sum s bs)"
  by (induction bs) (auto simp: blob_sum_def drop_blobs_def)

lemmas blob_sum_simps = blob_sum_update_other blob_sum_delete_other blob_sum_drop

lemma read_write_file [simp]:
  "read_file s n (write_file s' n' c st) = (if s = s' \<and> n = n' then Some c else read_file s n st)"
  by (auto simp: read_file_def write_file_def get_or_def split: option.splits)

lemma read_remove_file [simp]:
  "read_file s n (remove_file s' n' st) = (if s = s' \<and> n = n' then None else read_file s n st)"
  by (auto simp: read_file_def remove_file_def split: option.splits)

lemma read_remove_dir_other: "s \<noteq> s' \<Longrightarrow> read_file s n (remove_dir left s' st) = read_file s n st"
  by (auto simp: read_file_def remove_dir_def split: option.splits)

subsection \<open>Invariant and life cycle\<close>

text \<open>
  The tables have unique keys, every blob belongs to a share, a sealed share has no upload token, and
  the stored total of a share is the sum of its blobs.
\<close>

definition row_ok :: "ShareStore \<Rightarrow> string \<Rightarrow> ShareRow \<Rightarrow> bool" where
  "row_ok st share_id row \<longleftrightarrow>
     (sealed row \<longrightarrow> bundle_token row = None) \<and> total_bytes row = blob_sum share_id (blobs st)"

definition store_inv :: "ShareStore \<Rightarrow> bool" where
  "store_inv st \<longleftrightarrow>
     hm_ok (shares st) \<and> hm_ok (blobs st) \<and>
     (\<forall>s b v. map_of (blobs st) (s, b) = Some v \<longrightarrow> (\<exists>row. map_of (shares st) s = Some row)) \<and>
     (\<forall>s row. map_of (shares st) s = Some row \<longrightarrow> row_ok st s row)"

lemma store_invI:
  assumes "hm_ok (shares st)" and "hm_ok (blobs st)"
    and "\<And>s b v. map_of (blobs st) (s, b) = Some v \<Longrightarrow> \<exists>row. map_of (shares st) s = Some row"
    and "\<And>s row. map_of (shares st) s = Some row \<Longrightarrow> row_ok st s row"
  shows "store_inv st"
  using assms unfolding store_inv_def by blast

lemma store_invD:
  assumes "store_inv st"
  shows "hm_ok (shares st)" and "hm_ok (blobs st)"
    and "map_of (blobs st) (s, b) = Some v \<Longrightarrow> \<exists>row. map_of (shares st) s = Some row"
    and "map_of (shares st) s = Some row \<Longrightarrow> row_ok st s row"
  using assms unfolding store_inv_def by blast+

text \<open>The life cycle of a share id: it is free, being uploaded, published, or revoked.\<close>

datatype SharePhase = Free | Uploading | Published | Withdrawn

definition phase :: "ShareStore \<Rightarrow> string \<Rightarrow> SharePhase" where
  "phase st share_id =
     (case map_of (shares st) share_id of
        None \<Rightarrow> Free
      | Some row \<Rightarrow> if revoked row then Withdrawn else if sealed row then Published else Uploading)"

definition closed :: "SharePhase \<Rightarrow> bool" where "closed p \<longleftrightarrow> p = Published \<or> p = Withdrawn"

definition phase_next :: "SharePhase \<Rightarrow> SharePhase \<Rightarrow> bool" where
  "phase_next p q \<longleftrightarrow> p = q \<or> p = Free \<and> q = Uploading \<or> p = Uploading \<and> q = Published \<or> p \<noteq> Free \<and> q = Withdrawn"

text \<open>What a recipient of a share could be served.\<close>

definition content :: "ShareStore \<Rightarrow> string \<Rightarrow> string \<Rightarrow> bytes option" where
  "content st share_id blob_id =
     (if phase st share_id = Published then read_file share_id (blob_file blob_id) st else None)"

lemma store_inv_empty [simp]: "store_inv ShareStore_empty"
  by (simp add: store_inv_def ShareStore_empty_def)

text \<open>
  The contract of an operation on one share: it keeps the invariant, moves that share along the life
  cycle only, and leaves the rows, blobs and files of every other share alone.
\<close>

locale share_op =
  fixes op :: "ShareStore \<Rightarrow> ShareStore" and share_id :: string
  assumes keeps_inv: "store_inv st \<Longrightarrow> store_inv (op st)"
    and advances: "phase_next (phase st share_id) (phase (op st) share_id)"
    and other_rows: "s \<noteq> share_id \<Longrightarrow> map_of (shares (op st)) s = map_of (shares st) s"
    and other_blobs: "s \<noteq> share_id \<Longrightarrow> map_of (blobs (op st)) (s, b) = map_of (blobs st) (s, b)"
    and other_files: "s \<noteq> share_id \<Longrightarrow> read_file s n (op st) = read_file s n st"
begin

lemma other_phase: "s \<noteq> share_id \<Longrightarrow> phase (op st) s = phase st s"
  by (simp add: phase_def other_rows)

lemma other_content: "s \<noteq> share_id \<Longrightarrow> content (op st) s b = content st s b"
  by (simp add: content_def other_phase other_files)

lemma phase_step: "phase_next (phase st s) (phase (op st) s)"
  using advances [of st] other_phase [of s st] by (cases "s = share_id") (auto simp: phase_next_def)

lemma closed_stays: "closed (phase st s) \<Longrightarrow> closed (phase (op st) s)"
  using phase_step [of st s] by (auto simp: phase_next_def closed_def)

lemma withdrawn_stays: "phase st s = Withdrawn \<Longrightarrow> phase (op st) s = Withdrawn"
  using phase_step [of st s] by (auto simp: phase_next_def)

end

text \<open>Updating one row and the blobs of its share, with the sum kept right, keeps the invariant.\<close>

lemma store_inv_row:
  assumes "store_inv st"
    and "sealed row \<Longrightarrow> bundle_token row = None" and "total_bytes row = blob_sum s bs"
    and "hm_ok bs" and "\<And>t b. t \<noteq> s \<Longrightarrow> map_of bs (t, b) = map_of (blobs st) (t, b)"
    and "\<And>t. t \<noteq> s \<Longrightarrow> blob_sum t bs = blob_sum t (blobs st)"
  shows "store_inv (st\<lparr>shares := AList.update s row (shares st), blobs := bs\<rparr>)"
  (is "store_inv ?st")
proof (rule store_invI)
  show "hm_ok (shares ?st)" "hm_ok (blobs ?st)" using store_invD(1) [OF assms(1)] assms(4) by simp_all
  show "\<exists>r. map_of (shares ?st) t = Some r" if "map_of (blobs ?st) (t, b) = Some v" for t b v
    using that assms(5) [of t b] store_invD(3) [OF assms(1), of t b v] by auto
  show "row_ok ?st t r" if "map_of (shares ?st) t = Some r" for t r
    using that assms(2,3,6) store_invD(4) [OF assms(1), of t r] by (auto simp: row_ok_def split: if_splits)
qed

lemma store_inv_row':
  assumes "store_inv st" and "sealed row \<Longrightarrow> bundle_token row = None" and "total_bytes row = blob_sum s (blobs st)"
  shows "store_inv (st\<lparr>shares := AList.update s row (shares st)\<rparr>)"
  using store_inv_row [OF assms(1,2), of s "blobs st"] assms(3) store_invD(2) [OF assms(1)] by simp

lemma store_inv_cong: "shares a = shares b \<Longrightarrow> blobs a = blobs b \<Longrightarrow> store_inv a = store_inv b"
  by (simp add: store_inv_def row_ok_def)

lemma store_inv_dirs [simp]: "store_inv (st\<lparr>dirs := d\<rparr>) = store_inv st"
  by (simp add: store_inv_def row_ok_def)

lemma phase_dirs [simp]: "phase (st\<lparr>dirs := d\<rparr>) s = phase st s"
  by (simp add: phase_def)

lemma read_file_tables [simp]: "read_file s n (st\<lparr>shares := r\<rparr>) = read_file s n st" "read_file s n (st\<lparr>blobs := b\<rparr>) = read_file s n st"
  by (simp_all add: read_file_def)

lemma row_totalD: "store_inv st \<Longrightarrow> map_of (shares st) s = Some row \<Longrightarrow> total_bytes row = blob_sum s (blobs st)"
  using store_invD(4) by (auto simp: row_ok_def)

lemma row_tokenD: "store_inv st \<Longrightarrow> map_of (shares st) s = Some row \<Longrightarrow> sealed row \<Longrightarrow> bundle_token row = None"
  using store_invD(4) by (auto simp: row_ok_def)

lemma no_row_no_blobs:
  assumes "store_inv st" and "map_of (shares st) s = None"
  shows "blob_sum s (blobs st) = 0"
proof -
  have "fst k \<noteq> s" if "(k, v) \<in> set (blobs st)" for k v
  proof -
    have "map_of (blobs st) (fst k, snd k) \<noteq> None" using that by (simp add: map_of_eq_None_iff image_iff) force
    then show ?thesis using assms store_invD(3) [OF assms(1), of "fst k" "snd k"] by auto
  qed
  then have "map (\<lambda>((t, _), (n, _)). if t = s then n else 0) (blobs st) = map (\<lambda>_. 0) (blobs st)"
    by (force intro!: map_cong)
  then show ?thesis unfolding blob_sum_def by (simp only: sum_list_const_mult sum_list_0)
qed

subsection \<open>The operations meet the contract\<close>

interpretation create: share_op "\<lambda>st. snd (create_share mkdir_ok now share_id k expires nonce st)" share_id
  for mkdir_ok now share_id k expires nonce
  by unfold_locales
    (auto simp: create_share_def Let_def phase_def phase_next_def read_file_def get_or_def no_row_no_blobs intro!: store_inv_row'
      split: option.splits)

interpretation seal: share_op "\<lambda>st. snd (mark_sealed share_id st)" share_id for share_id
  by unfold_locales
    (auto simp: mark_sealed_def phase_def phase_next_def row_totalD intro!: store_inv_row' split: option.splits)

interpretation token: share_op "\<lambda>st. snd (set_bundle_token share_id tok st)" share_id for share_id tok
  by unfold_locales
    (auto simp: set_bundle_token_def phase_def phase_next_def row_totalD intro!: store_inv_row' split: option.splits)

lemma update_total_other:
  "update_total s st = Inr st' \<Longrightarrow> t \<noteq> s \<Longrightarrow> map_of (shares st') t = map_of (shares st) t"
  by (auto simp: update_total_def Let_def split: if_splits option.splits)

lemma update_total_frame:
  "update_total s st = Inr st' \<Longrightarrow> blobs st' = blobs st \<and> dirs st' = dirs st \<and> phase st' s = phase st s"
  by (auto simp: update_total_def Let_def phase_def split: if_splits option.splits)

lemma update_total_inv:
  assumes "store_inv st" and "hm_ok bs" and "\<And>t b. t \<noteq> s \<Longrightarrow> map_of bs (t, b) = map_of (blobs st) (t, b)"
    and "\<And>t. t \<noteq> s \<Longrightarrow> blob_sum t bs = blob_sum t (blobs st)"
    and "map_of (shares st) s = None \<Longrightarrow> bs = blobs st"
    and "update_total s (st\<lparr>blobs := bs\<rparr>) = Inr st'"
  shows "store_inv st'"
proof (cases "map_of (shares st) s")
  case None
  then show ?thesis using assms by (auto simp: update_total_def Let_def split: if_splits)
next
  case (Some row)
  have "store_inv (st\<lparr>shares := AList.update s (row\<lparr>total_bytes := blob_sum s bs\<rparr>) (shares st), blobs := bs\<rparr>)"
    using row_tokenD [OF assms(1) Some] by (intro store_inv_row assms) auto
  then show ?thesis
    using assms(6) Some by (auto simp: update_total_def Let_def split: if_splits elim!: store_inv_cong [THEN iffD1, rotated 2])
qed


text \<open>Operations that change the blobs of one share and then recompute its total.\<close>

lemma share_op_total:
  fixes op :: "ShareStore \<Rightarrow> ShareStore" and s :: string
  assumes f: "\<And>m. hm_ok m \<Longrightarrow> hm_ok (f m)" "\<And>t b m. t \<noteq> s \<Longrightarrow> map_of (f m) (t, b) = map_of m (t, b)"
      "\<And>t m. t \<noteq> s \<Longrightarrow> blob_sum t (f m) = blob_sum t m"
    and inert: "\<And>st :: ShareStore. store_inv st \<Longrightarrow> map_of (shares st) s = None \<Longrightarrow> op st \<noteq> st \<Longrightarrow> f (blobs st) = blobs st"
    and op: "\<And>st. op st = st \<or> (\<exists>st'. update_total s (st\<lparr>blobs := f (blobs st)\<rparr>) = Inr st' \<and>
        shares (op st) = shares st' \<and> blobs (op st) = blobs st' \<and> (\<forall>t n. t \<noteq> s \<longrightarrow> read_file t n (op st) = read_file t n st'))"
  shows "share_op op s"
proof
  fix st :: ShareStore
  consider "op st = st"
    | st' where "op st \<noteq> st" "update_total s (st\<lparr>blobs := f (blobs st)\<rparr>) = Inr st'" "shares (op st) = shares st'" "blobs (op st) = blobs st'"
        "\<And>t n. t \<noteq> s \<Longrightarrow> read_file t n (op st) = read_file t n st'"
    using op [of st] by blast
  note C = this
  show "store_inv (op st)" if inv: "store_inv st"
    using C
  proof cases
    case (2 st')
    have "store_inv st'"
      by (rule update_total_inv [OF inv _ _ _ _ 2(2)]) (use f store_invD(2) [OF inv] inert [OF inv _ 2(1)] in auto)
    then show ?thesis using store_inv_cong 2(3,4) by metis
  qed (use inv in simp)
  show "phase_next (phase st s) (phase (op st) s)"
    using C
  proof cases
    case (2 st')
    have "phase (op st) s = phase st' s" using 2(3) by (simp add: phase_def)
    then show ?thesis using update_total_frame [OF 2(2)] by (simp add: phase_next_def phase_def)
  qed (simp add: phase_next_def)
  show "map_of (shares (op st)) t = map_of (shares st) t" if "t \<noteq> s" for t
    using C by cases (use that update_total_other in \<open>fastforce+\<close>)
  show "map_of (blobs (op st)) (t, b) = map_of (blobs st) (t, b)" if "t \<noteq> s" for t b
    using C by cases (use that update_total_frame f in \<open>fastforce+\<close>)
  show "read_file t n (op st) = read_file t n st" if "t \<noteq> s" for t n
    using C
  proof cases
    case (2 st')
    then show ?thesis using that update_total_frame [OF 2(2)] by (simp add: read_file_def)
  qed simp
qed

interpretation rec: share_op "\<lambda>st. snd (record_blob now share_id blob_id n st)" share_id for now share_id blob_id n
  by (rule share_op_total [where f = "AList.update (share_id, blob_id) (n, now)"])
    (auto simp: record_blob_def blob_sum_simps split: sum.splits if_splits)

lemma no_row_no_blob:
  assumes "store_inv st" and "map_of (shares st) s = None"
  shows "AList.delete (s, b) (blobs st) = blobs st"
proof (rule delete_id)
  show "(s, b) \<notin> hm_keys (blobs st)" using store_invD(3) [OF assms(1), of s b] assms(2) unfolding hm_mem_keys by auto
qed

interpretation del: share_op "\<lambda>st. snd (delete_blob unlink_ok share_id blob_id st)" share_id for unlink_ok share_id blob_id
  by (rule share_op_total [where f = "AList.delete (share_id, blob_id)"])
    (auto simp: delete_blob_def blob_sum_simps no_row_no_blob remove_file_def read_file_def split: sum.splits if_splits option.splits)

interpretation rev: share_op "\<lambda>st. snd (revoke_share left share_id st)" share_id for left share_id
proof
  fix st :: ShareStore
  show "store_inv (snd (revoke_share left share_id st))" if inv: "store_inv st"
  proof (cases "map_of (shares st) share_id")
    case (Some row)
    have "store_inv (st\<lparr>shares := AList.update share_id (row\<lparr>revoked := True, total_bytes := 0\<rparr>) (shares st),
        blobs := drop_blobs share_id (blobs st)\<rparr>)"
      using store_invD(2) [OF inv] row_tokenD [OF inv Some] by (intro store_inv_row [OF inv]) auto
    then show ?thesis using Some by (auto simp: revoke_share_def Let_def remove_dir_def split: option.splits)
  qed (use inv in \<open>simp add: revoke_share_def\<close>)
qed (auto simp: revoke_share_def Let_def remove_dir_def phase_def phase_next_def read_file_def split: option.splits)

interpretation wr: share_op "write_file share_id name c" share_id for share_id name c
  by unfold_locales (auto simp: write_file_def phase_next_def read_file_def)

interpretation rm: share_op "remove_file share_id name" share_id for share_id name
  by unfold_locales (auto simp: remove_file_def phase_next_def read_file_def split: option.splits)


subsection \<open>The sweep\<close>

definition clearable :: "(string \<Rightarrow> dir option) \<Rightarrow> ShareStore \<Rightarrow> string \<Rightarrow> bool" where
  "clearable left st s \<longleftrightarrow> map_of (dirs st) s = None \<or> left s = None"

lemma remove_dir_tables [simp]:
  "shares (remove_dir l s st) = shares st" "blobs (remove_dir l s st) = blobs st"
  by (simp_all add: remove_dir_def split: option.splits)

lemma remove_dir_get [simp]: "map_of (dirs (remove_dir l s st)) t = (if t = s then l else map_of (dirs st) t)"
  by (simp add: remove_dir_def split: option.splits)

lemma clearable_remove_dir: "s \<noteq> t \<Longrightarrow> clearable left (remove_dir l t st) s = clearable left st s"
  by (simp add: clearable_def remove_dir_def split: option.splits)

lemma purge_dirs_spec:
  assumes "distinct (map fst vs)" and "purge_dirs left vs st = (ids, freed, st')"
  shows "ids = filter (clearable left st) (map fst vs) \<and>
     freed = sum_list (map snd (filter (clearable left st \<circ> fst) vs)) \<and> shares st' = shares st \<and> blobs st' = blobs st \<and>
     (\<forall>s. map_of (dirs st') s = (if s \<in> set ids then None else if s \<in> fst ` set vs then left s else map_of (dirs st) s))"
  using assms
proof (induction left vs st arbitrary: ids freed st' rule: purge_dirs.induct)
  case (2 left share_id n vs st)
  have fresh: "share_id \<notin> set (map fst vs)" and dist: "distinct (map fst vs)" using 2(4) by auto
  have same: "clearable left (remove_dir l share_id st) a = clearable left st a" if "a \<in> set (map fst vs)" for a l
    using that fresh by (metis clearable_remove_dir)
  have cong: "filter (clearable left (remove_dir l share_id st)) (map fst vs) = filter (clearable left st) (map fst vs)"
    "filter (clearable left (remove_dir l share_id st) \<circ> fst) vs = filter (clearable left st \<circ> fst) vs" for l
    by (rule filter_cong, use same in \<open>simp_all add: rev_image_eqI\<close>)+
  show ?case
  proof (cases "map_of (dirs st) share_id = None")
    case True
    obtain i f t where r: "purge_dirs left vs st = (i, f, t)" by (metis prod_cases3)
    from 2(1) [OF True dist r] 2(5) True r fresh show ?thesis by (force simp: clearable_def [of _ _ share_id])
  next
    case F: False
    show ?thesis
    proof (cases "left share_id")
      case None
      obtain i f t where r: "purge_dirs left vs (remove_dir None share_id st) = (i, f, t)" by (metis prod_cases3)
      have e: "ids = share_id # i" "freed = n + f" "st' = t" using 2(5) F None r by simp_all
      have cl: "clearable left st share_id" using None by (simp add: clearable_def)
      note IH = 2(2) [OF F None dist r, unfolded cong]
      show ?thesis using IH cl fresh by (simp add: e o_def)
    next
      case (Some files)
      have r: "purge_dirs left vs (remove_dir (Some files) share_id st) = (ids, freed, st')" using 2(5) F Some by simp
      have cl: "\<not> clearable left st share_id" using Some F by (simp add: clearable_def)
      show ?thesis using 2(3) [OF F Some dist r, unfolded cong] cl fresh Some by (simp add: o_def)
    qed
  qed
qed simp


lemma delete_row_get [simp]:
  "map_of (shares (delete_row s st)) t = (if t = s then None else map_of (shares st) t)"
  "map_of (blobs (delete_row s st)) k = (if fst k = s then None else map_of (blobs st) k)"
  "blob_sum t (blobs (delete_row s st)) = (if t = s then 0 else blob_sum t (blobs st))"
  "dirs (delete_row s st) = dirs st"
  by (simp_all add: delete_row_def)

lemma delete_row_inv:
  assumes "store_inv st"
  shows "store_inv (delete_row s st)"
proof (rule store_invI)
  show "hm_ok (shares (delete_row s st))" "hm_ok (blobs (delete_row s st))"
    using store_invD(1,2) [OF assms] by (simp_all add: delete_row_def)
  show "\<exists>r. map_of (shares (delete_row s st)) t = Some r" if "map_of (blobs (delete_row s st)) (t, b) = Some v" for t b v
    using that store_invD(3) [OF assms, of t b v] by (auto split: if_splits)
  show "row_ok (delete_row s st) t r" if "map_of (shares (delete_row s st)) t = Some r" for t r
    using that store_invD(4) [OF assms, of t r] by (auto simp: row_ok_def split: if_splits)
qed

lemma delete_rows:
  fixes st :: ShareStore and ids :: "string list"
  defines "st' \<equiv> foldl (\<lambda>st s. delete_row s st) st ids"
  shows "(store_inv st \<longrightarrow> store_inv st') \<and> dirs st' = dirs st \<and>
     map_of (shares st') t = (if t \<in> set ids then None else map_of (shares st) t) \<and>
     map_of (blobs st') (t, b) = (if t \<in> set ids then None else map_of (blobs st) (t, b))"
  unfolding st'_def by (induction ids arbitrary: st) (auto simp: delete_row_inv)

definition purged :: "(string \<Rightarrow> dir option) \<Rightarrow> int \<Rightarrow> ShareStore \<Rightarrow> string \<Rightarrow> bool" where
  "purged left now st s \<longleftrightarrow> (\<exists>row. map_of (shares st) s = Some row \<and> victim now row) \<and> clearable left st s"

lemma purge_spec:
  assumes inv: "store_inv st" and run: "purge_expired_and_revoked left now st = ((ids, freed), st')"
  shows "store_inv st'" and "distinct ids" and "\<And>s. s \<in> set ids \<longleftrightarrow> purged left now st s"
    and "freed = (\<Sum>s\<leftarrow>ids. blob_sum s (blobs st))"
    and "\<And>s. map_of (shares st') s = (if s \<in> set ids then None else map_of (shares st) s)"
    and "\<And>s b. map_of (blobs st') (s, b) = (if s \<in> set ids then None else map_of (blobs st) (s, b))"
    and "\<And>s. s \<in> set ids \<Longrightarrow> map_of (dirs st') s = None"
    and "\<And>s row. map_of (shares st) s = Some row \<Longrightarrow> \<not> victim now row \<Longrightarrow> map_of (dirs st') s = map_of (dirs st) s"
    and "\<And>s. map_of (shares st) s = None \<Longrightarrow> map_of (dirs st') s = map_of (dirs st) s"
proof -
  define vs where "vs = map (\<lambda>(s, row). (s, total_bytes row)) (filter (\<lambda>(_, row). victim now row) (shares st))"
  have ok: "hm_ok (shares st)" using store_invD(1) [OF inv] .
  have fsts: "map fst vs = map fst (filter (\<lambda>(_, row). victim now row) (shares st))" unfolding vs_def by (induction "shares st") auto
  then have dist: "distinct (map fst vs)" using ok by (simp add: distinct_map_filter)
  have vs: "s \<in> fst ` set vs \<longleftrightarrow> (\<exists>row. map_of (shares st) s = Some row \<and> victim now row)" for s
    using map_of_eq_Some_iff [OF ok] by (force simp: vs_def image_iff)
  have tot: "snd v = blob_sum (fst v) (blobs st)" if "v \<in> set vs" for v
    using that map_of_eq_Some_iff [OF ok] row_totalD [OF inv] by (auto simp: vs_def)
  obtain i f t where r: "purge_dirs left vs st = (i, f, t)" by (metis prod_cases3)
  note P = purge_dirs_spec [OF dist r]
  have e: "ids = i" "freed = f" "st' = foldl (\<lambda>st s. delete_row s st) t i"
    using run r by (auto simp: purge_expired_and_revoked_def simp flip: vs_def)
  note D = delete_rows [of t i, folded e(3)]
  have "store_inv t" using inv store_inv_cong [of t st] P by blast
  then show "store_inv st'" using D by blast
  show "distinct ids" using P dist e by simp
  show mem: "s \<in> set ids \<longleftrightarrow> purged left now st s" for s using P vs [of s] e by (auto simp: purged_def)
  have "freed = (\<Sum>v\<leftarrow>filter (clearable left st \<circ> fst) vs. snd v)" using P e by simp
  also have "\<dots> = (\<Sum>v\<leftarrow>filter (clearable left st \<circ> fst) vs. blob_sum (fst v) (blobs st))"
    by (rule arg_cong [of _ _ sum_list], rule map_cong) (auto simp: tot)
  also have "\<dots> = (\<Sum>s\<leftarrow>ids. blob_sum s (blobs st))" using P e by (simp add: filter_map o_def)
  finally show "freed = (\<Sum>s\<leftarrow>ids. blob_sum s (blobs st))" .
  show "map_of (shares st') s = (if s \<in> set ids then None else map_of (shares st) s)" for s using D P e by simp
  show "map_of (blobs st') (s, b) = (if s \<in> set ids then None else map_of (blobs st) (s, b))" for s b using D P e by simp
  show "map_of (dirs st') s = None" if "s \<in> set ids" for s using that D P e by simp
  show "map_of (dirs st') s = map_of (dirs st) s" if "map_of (shares st) s = Some row" "\<not> victim now row" for s row
    using that D P e vs [of s] mem [of s] by (auto simp: purged_def)
  show "map_of (dirs st') s = map_of (dirs st) s" if "map_of (shares st) s = None" for s
    using that D P e vs [of s] mem [of s] by (auto simp: purged_def)
qed


subsection \<open>Histories\<close>

datatype StoreOp =
    OpCreate bool int string ShareKind int bytes
  | OpSeal string
  | OpToken string bytes
  | OpRecord int string string int
  | OpRevoke "dir option" string
  | OpDelete bool string string
  | OpWrite string string bytes
  | OpUnlink string string
  | OpPurge "string \<Rightarrow> dir option" int

fun store_apply :: "ShareStore \<Rightarrow> StoreOp \<Rightarrow> ShareStore" where
  "store_apply st (OpCreate ok now s k e n) = snd (create_share ok now s k e n st)"
| "store_apply st (OpSeal s) = snd (mark_sealed s st)"
| "store_apply st (OpToken s t) = snd (set_bundle_token s t st)"
| "store_apply st (OpRecord now s b n) = snd (record_blob now s b n st)"
| "store_apply st (OpRevoke l s) = snd (revoke_share l s st)"
| "store_apply st (OpDelete ok s b) = snd (delete_blob ok s b st)"
| "store_apply st (OpWrite s n c) = write_file s n c st"
| "store_apply st (OpUnlink s n) = remove_file s n st"
| "store_apply st (OpPurge l now) = snd (purge_expired_and_revoked l now st)"

lemma purge_frame:
  assumes "store_inv st"
  shows "store_inv (snd (purge_expired_and_revoked l now st))"
    and "phase (snd (purge_expired_and_revoked l now st)) s = (if purged l now st s then Free else phase st s)"
proof -
  obtain ids freed st' where r: "purge_expired_and_revoked l now st = ((ids, freed), st')" by (metis prod.collapse)
  note P = purge_spec [OF assms r]
  show "store_inv (snd (purge_expired_and_revoked l now st))" using P(1) r by simp
  show "phase (snd (purge_expired_and_revoked l now st)) s = (if purged l now st s then Free else phase st s)"
    using P(3,5) [of s] r by (simp add: phase_def)
qed

lemma store_apply_inv: "store_inv st \<Longrightarrow> store_inv (store_apply st op)"
  by (cases op)
    (simp_all add: create.keeps_inv seal.keeps_inv token.keeps_inv rec.keeps_inv rev.keeps_inv del.keeps_inv wr.keeps_inv rm.keeps_inv
      purge_frame(1))

lemma phase_next_refl [simp]: "phase_next p p"
  by (simp add: phase_next_def)

lemma store_apply_phase:
  "store_inv st \<Longrightarrow> phase_next (phase st s) (phase (store_apply st op) s) \<or> phase (store_apply st op) s = Free"
  by (cases op)
    (simp_all add: create.phase_step seal.phase_step token.phase_step rec.phase_step rev.phase_step del.phase_step wr.phase_step rm.phase_step
      purge_frame(2))

lemma store_run_inv: "store_inv st \<Longrightarrow> store_inv (foldl store_apply st ops)"
  by (induction ops arbitrary: st) (simp_all add: store_apply_inv)

lemma closed_until_free:
  assumes "store_inv st" and "closed (phase st s)"
    and "\<And>i. i \<le> length ops \<Longrightarrow> phase (foldl store_apply st (take i ops)) s \<noteq> Free"
  shows "closed (phase (foldl store_apply st ops) s) \<and>
     (phase st s = Withdrawn \<longrightarrow> phase (foldl store_apply st ops) s = Withdrawn)"
  using assms
proof (induction ops arbitrary: st)
  case (Cons op ops)
  have "phase (store_apply st op) s \<noteq> Free" using Cons(4) [of 1] by simp
  then have step: "phase_next (phase st s) (phase (store_apply st op) s)" using store_apply_phase [OF Cons(2)] by blast
  have "closed (phase (foldl store_apply (store_apply st op) ops) s) \<and>
     (phase (store_apply st op) s = Withdrawn \<longrightarrow> phase (foldl store_apply (store_apply st op) ops) s = Withdrawn)"
  proof (rule Cons.IH)
    show "phase (foldl store_apply (store_apply st op) (take i ops)) s \<noteq> Free" if "i \<le> length ops" for i
      using Cons(4) [of "Suc i"] that by simp
  qed (use step Cons(2,3) in \<open>auto simp: store_apply_inv phase_next_def closed_def\<close>)
  then show ?case using step by (auto simp: phase_next_def)
qed simp

lemma token_needs_uploading:
  "verify_bundle_token s t now st = Inr True \<Longrightarrow> phase st s = Uploading"
  by (auto simp: verify_bundle_token_def phase_def split: option.splits if_splits)

lemma token_diff_zero: "length xs = length ys \<Longrightarrow> token_diff xs ys = 0 \<longleftrightarrow> xs = ys"
  by (simp add: token_diff_def foldl_diff_zero)

lemma verify_bundle_token_iff:
  "verify_bundle_token s t now st = Inr True \<longleftrightarrow>
     (\<exists>row. map_of (shares st) s = Some row \<and> \<not> sealed row \<and> \<not> revoked row \<and> now < expires_at row \<and>
        now < created_at row + UNSEALED_MAX_LIFETIME_SECS \<and> bundle_token row = Some t)"
  by (auto simp: verify_bundle_token_def token_diff_zero split: option.splits if_splits)

lemma verify_bundle_token_total: "verify_bundle_token s t now st \<noteq> Inr True \<Longrightarrow> verify_bundle_token s t now st = Inr False"
  by (auto simp: verify_bundle_token_def split: option.splits if_splits)

subsection \<open>Properties\<close>

text \<open>
  C35. The index is consistent after every history of store operations, failed directory operations
  included: share ids and blob keys are unique, every blob row belongs to a share, the recorded total
  of a share is the sum of the sizes of its blobs, and a sealed share holds no upload token.
\<close>
theorem share_store_consistent:
  fixes ops :: "StoreOp list"
  defines "st \<equiv> foldl store_apply ShareStore_empty ops"
  shows "distinct (map fst (shares st)) \<and> distinct (map fst (blobs st)) \<and>
     (\<forall>s b v. map_of (blobs st) (s, b) = Some v \<longrightarrow> (\<exists>row. map_of (shares st) s = Some row)) \<and>
     (\<forall>s row. map_of (shares st) s = Some row \<longrightarrow>
        total_bytes row = blob_sum s (blobs st) \<and> (sealed row \<longrightarrow> bundle_token row = None))"
  using store_run_inv [OF store_inv_empty, of ops] unfolding st_def [symmetric] store_inv_def row_ok_def by blast

definition sample_ops :: "StoreOp list" where
  "sample_ops = [OpCreate True 10 ''s'' KindFolder 500 (replicate 16 1), OpToken ''s'' [7], OpRecord 11 ''s'' ''a'' 40,
     OpRecord 12 ''s'' ''b'' 2, OpRecord 13 ''s'' ''a'' 5, OpSeal ''s'']"

lemma sample_ops_run:
  "shares (foldl store_apply ShareStore_empty sample_ops) =
     [(''s'', \<lparr>kind = KindFolder, created_at = 10, expires_at = 500, revoked = False, sealed = True, token_nonce = replicate 16 1,
        total_bytes = 7, bundle_token = None\<rparr>)] \<and>
   blobs (foldl store_apply ShareStore_empty sample_ops) = [((''s'', ''a''), (5, 13)), ((''s'', ''b''), (2, 12))]"
  by (simp add: sample_ops_def ShareStore_empty_def create_share_def set_bundle_token_def record_blob_def update_total_def blob_sum_def
      mark_sealed_def i64_max_def)

theorem share_store_consistent_witness:
  "blob_sum ''s'' (blobs (foldl store_apply ShareStore_empty sample_ops)) = 7"
  using share_store_consistent [of sample_ops, THEN conjunct2, THEN conjunct2, THEN conjunct2, rule_format, of "''s''"] sample_ops_run
  by simp

text \<open>
  C36. The upload window of a share closes for good: an upload token is accepted exactly when the share
  is unsealed, unrevoked, within its expiry and four-hour window and the token is the stored one; once
  a share is sealed or revoked, no later history of operations makes any token acceptable again, and
  nothing of a revoked share can be served, until the sweep frees its id.
\<close>
theorem upload_window_closes:
  fixes before after :: "StoreOp list"
  defines "st \<equiv> foldl store_apply ShareStore_empty before"
  shows "(verify_bundle_token s t now st = Inr True \<longleftrightarrow>
       (\<exists>row. map_of (shares st) s = Some row \<and> \<not> sealed row \<and> \<not> revoked row \<and> now < expires_at row \<and>
          now < created_at row + 14400 \<and> bundle_token row = Some t)) \<and>
     (closed (phase st s) \<and> (\<forall>i\<le>length after. phase (foldl store_apply st (take i after)) s \<noteq> Free) \<longrightarrow>
       verify_bundle_token s t now (foldl store_apply st after) = Inr False \<and>
       (phase st s = Withdrawn \<longrightarrow> content (foldl store_apply st after) s b = None))"
proof -
  have inv: "store_inv st" unfolding st_def by (simp add: store_run_inv)
  note T = verify_bundle_token_iff [of s t now st, unfolded UNSEALED_MAX_LIFETIME_SECS_def]
  show ?thesis
  proof (intro conjI impI, goal_cases)
    case 1
    show ?case using T by simp
  next
    case 2
    then have "closed (phase (foldl store_apply st after) s)" using closed_until_free [OF inv] by blast
    then have "verify_bundle_token s t now (foldl store_apply st after) \<noteq> Inr True"
      using token_needs_uploading [of s t now "foldl store_apply st after"] by (auto simp: closed_def)
    then show ?case by (rule verify_bundle_token_total)
  next
    case 3
    then have "phase (foldl store_apply st after) s = Withdrawn" using closed_until_free [OF inv] by blast
    then show ?case by (simp add: content_def)
  qed
qed

theorem upload_window_closes_witness:
  "verify_bundle_token ''s'' [7] 20 (foldl store_apply (foldl store_apply ShareStore_empty sample_ops) [OpToken ''s'' [7], OpSeal ''s'']) = Inr False"
proof -
  have "closed (phase (foldl store_apply ShareStore_empty sample_ops) ''s'')"
    using sample_ops_run by (simp add: phase_def closed_def)
  moreover have "phase (foldl store_apply (foldl store_apply ShareStore_empty sample_ops) (take i [OpToken ''s'' [7], OpSeal ''s''])) ''s'' \<noteq> Free"
    if "i \<le> 2" for i
  proof -
    have "i = 0 \<or> i = 1 \<or> i = 2" using that by auto
    then show ?thesis using sample_ops_run by (auto simp: phase_def set_bundle_token_def mark_sealed_def)
  qed
  ultimately show ?thesis
    using upload_window_closes [where before = sample_ops and after = "[OpToken ''s'' [7], OpSeal ''s'']" and s = "''s''" and t = "[7]" and now = 20]
    by simp
qed

text \<open>
  The sweep removes exactly the shares that are revoked, expired, or unsealed for more than four
  hours and whose directory is gone or can be removed: their row, their blob rows and their directory;
  it reports each of them once together with the sum of their blob sizes, keeps the index consistent,
  leaves a share whose directory could not be removed in the index, and does not touch the row, the
  blobs or the files of any live share.
\<close>
theorem sweep_exact:
  assumes "purge_expired_and_revoked left now (foldl store_apply ShareStore_empty ops) = ((ids, freed), st')"
  defines "st \<equiv> foldl store_apply ShareStore_empty ops"
  shows "store_inv st' \<and> distinct ids \<and> freed = (\<Sum>s\<leftarrow>ids. blob_sum s (blobs st)) \<and>
     (\<forall>s. s \<in> set ids \<longleftrightarrow>
        (\<exists>row. map_of (shares st) s = Some row \<and>
           (revoked row \<or> expires_at row \<le> now \<or> \<not> sealed row \<and> created_at row + 14400 \<le> now)) \<and>
        (map_of (dirs st) s = None \<or> left s = None)) \<and>
     (\<forall>s\<in>set ids. map_of (shares st') s = None \<and> (\<forall>b. map_of (blobs st') (s, b) = None) \<and> map_of (dirs st') s = None) \<and>
     (\<forall>s. s \<notin> set ids \<longrightarrow> map_of (shares st') s = map_of (shares st) s \<and> (\<forall>b. map_of (blobs st') (s, b) = map_of (blobs st) (s, b))) \<and>
     (\<forall>s row. map_of (shares st) s = Some row \<and> sealed row \<and> \<not> revoked row \<and> now < expires_at row \<longrightarrow>
        (\<forall>b. content st' s b = content st s b))"
proof -
  have inv: "store_inv st" unfolding st_def by (simp add: store_run_inv)
  note P = purge_spec [OF inv assms(1) [folded st_def]]
  have mem: "s \<in> set ids \<longleftrightarrow> (\<exists>row. map_of (shares st) s = Some row \<and>
      (revoked row \<or> expires_at row \<le> now \<or> \<not> sealed row \<and> created_at row + 14400 \<le> now)) \<and> (map_of (dirs st) s = None \<or> left s = None)" for s
    unfolding P(3) purged_def victim_def clearable_def UNSEALED_MAX_LIFETIME_SECS_def by (simp add: algebra_simps)
  have live: "content st' s b = content st s b"
    if "map_of (shares st) s = Some row" "sealed row" "\<not> revoked row" "now < expires_at row" for s row b
  proof -
    have v: "\<not> victim now row" using that by (simp add: victim_def)
    then have "s \<notin> set ids" using that P(3) [of s] by (simp add: purged_def)
    then show ?thesis using P(5) [of s] P(8) [OF that(1) v] by (simp add: content_def phase_def read_file_def)
  qed
  have gone: "\<forall>s\<in>set ids. map_of (shares st') s = None \<and> (\<forall>b. map_of (blobs st') (s, b) = None) \<and> map_of (dirs st') s = None"
    and kept: "\<forall>s. s \<notin> set ids \<longrightarrow> map_of (shares st') s = map_of (shares st) s \<and> (\<forall>b. map_of (blobs st') (s, b) = map_of (blobs st) (s, b))"
    using P(5-7) by simp_all
  from P(1,2,4) mem gone kept live show ?thesis by blast
qed

theorem sweep_exact_witness:
  "purge_expired_and_revoked (\<lambda>_. None) 500 (foldl store_apply ShareStore_empty sample_ops) =
     (([''s''], 7), ShareStore_empty) \<and> blob_sum ''s'' (blobs (foldl store_apply ShareStore_empty sample_ops)) = 7"
proof -
  have "purge_expired_and_revoked (\<lambda>_. None) 500 (foldl store_apply ShareStore_empty sample_ops) = (([''s''], 7), ShareStore_empty)"
    by (simp add: sample_ops_def ShareStore_empty_def create_share_def set_bundle_token_def record_blob_def update_total_def blob_sum_def
      mark_sealed_def i64_max_def purge_expired_and_revoked_def victim_def remove_dir_def delete_row_def drop_blobs_def get_or_def)
  from this sweep_exact [OF this] show ?thesis by simp
qed

end
