(* ===== verification/Rate_Limit.thy ===== *)
theory Rate_Limit
  imports Relay_Base
begin

text \<open>
  The limiters of \<open>byo-relay/src/rate_limit.rs\<close>: sliding windows keyed by address bucket or by any
  key, the daily byte budget, concurrent-connection counters with their guards, the SFTP
  failure and host-spray tracker, the share trackers and the slow-start rate.

  Each method that reads \<open>Instant::now()\<close> or the wall clock takes the time as argument.  The locale
  \<open>window_limiter\<close> states what a sliding window promises and proves that its decisions are those of
  a reference that keeps the whole log.
\<close>

subsection \<open>Sliding windows\<close>

record SlidingWindowLimiter =
  sw_state :: "(IpBucket, instant list) hmap"
  sw_window :: int
  sw_max_per_window :: nat

definition SlidingWindowLimiter_new :: "nat \<Rightarrow> nat \<Rightarrow> SlidingWindowLimiter" where
  "SlidingWindowLimiter_new window_secs max_per_window =
     \<lparr>sw_state = [], sw_window = from_secs window_secs, sw_max_per_window = max_per_window\<rparr>"

definition sliding_check_and_record :: "int \<Rightarrow> nat \<Rightarrow> instant \<Rightarrow> IpAddr \<Rightarrow> (IpBucket, instant list) hmap \<Rightarrow>
    bool \<times> (IpBucket, instant list) hmap" where
  "sliding_check_and_record window max_per_window now ip state =
     (let bucket = IpBucket_from ip;
          cutoff = now - window;
          timestamps = filter (\<lambda>t. t > cutoff) (get_or [] state bucket) in
      if length timestamps \<ge> max_per_window then (False, AList.update bucket timestamps state)
      else
        let state = AList.update bucket (timestamps @ [now]) state in
        (True, if length state > 1024 then hm_retain (\<lambda>_ v. v \<noteq> []) state else state))"

definition SlidingWindowLimiter_check_and_record :: "instant \<Rightarrow> IpAddr \<Rightarrow> SlidingWindowLimiter \<Rightarrow> bool \<times> SlidingWindowLimiter" where
  "SlidingWindowLimiter_check_and_record now ip l =
     (case sliding_check_and_record (sw_window l) (sw_max_per_window l) now ip (sw_state l) of
        (ok, state) \<Rightarrow> (ok, l\<lparr>sw_state := state\<rparr>))"

record 'k SlidingWindowLimiterByKey =
  bk_state :: "('k, instant list) hmap"
  bk_window :: int
  bk_max_per_window :: nat
  bk_max_keys :: "nat option"

definition SlidingWindowLimiterByKey_new_with_cap :: "nat \<Rightarrow> nat \<Rightarrow> nat option \<Rightarrow> 'k SlidingWindowLimiterByKey" where
  "SlidingWindowLimiterByKey_new_with_cap window_secs max_per_window max_keys =
     \<lparr>bk_state = [], bk_window = from_secs window_secs, bk_max_per_window = max_per_window, bk_max_keys = max_keys\<rparr>"

definition SlidingWindowLimiterByKey_new :: "nat \<Rightarrow> nat \<Rightarrow> 'k SlidingWindowLimiterByKey" where
  "SlidingWindowLimiterByKey_new window_secs max_per_window =
     SlidingWindowLimiterByKey_new_with_cap window_secs max_per_window None"

definition keyed_check_and_record :: "int \<Rightarrow> nat \<Rightarrow> nat option \<Rightarrow> instant \<Rightarrow> 'k \<Rightarrow> ('k, instant list) hmap \<Rightarrow>
    bool \<times> ('k, instant list) hmap" where
  "keyed_check_and_record window max_per_window max_keys now key state =
     (let cutoff = now - window in
      case map_of state key of
        Some ts \<Rightarrow>
          let timestamps = filter (\<lambda>t. t > cutoff) ts in
          if length timestamps \<ge> max_per_window then (False, AList.update key timestamps state)
          else (True, AList.update key (timestamps @ [now]) state)
      | None \<Rightarrow>
          if (case max_keys of Some m \<Rightarrow> length state \<ge> m | None \<Rightarrow> False) then (True, state)
          else (True, AList.update key [now] state))"

definition SlidingWindowLimiterByKey_check_and_record :: "instant \<Rightarrow> 'k \<Rightarrow> 'k SlidingWindowLimiterByKey \<Rightarrow>
    bool \<times> 'k SlidingWindowLimiterByKey" where
  "SlidingWindowLimiterByKey_check_and_record now key l =
     (case keyed_check_and_record (bk_window l) (bk_max_per_window l) (bk_max_keys l) now key (bk_state l) of
        (ok, state) \<Rightarrow> (ok, l\<lparr>bk_state := state\<rparr>))"

definition ChannelJoinLimiter_new :: SlidingWindowLimiter where
  "ChannelJoinLimiter_new = SlidingWindowLimiter_new 60 10"

definition AuthChallengeLimiter_new :: "nat \<Rightarrow> SlidingWindowLimiter" where
  "AuthChallengeLimiter_new max_per_min = SlidingWindowLimiter_new 60 max_per_min"

datatype ShareCreationDecision = Allow | HourCapExceeded | DayCapExceeded

record ShareCreationRateLimiter =
  hour :: "IpBucket SlidingWindowLimiterByKey"
  day_window :: "IpBucket SlidingWindowLimiterByKey"

definition ShareCreationRateLimiter_new :: "nat \<Rightarrow> nat \<Rightarrow> ShareCreationRateLimiter" where
  "ShareCreationRateLimiter_new per_hour per_day =
     \<lparr>hour = SlidingWindowLimiterByKey_new_with_cap 3600 per_hour (Some 50000),
      day_window = SlidingWindowLimiterByKey_new_with_cap 86400 per_day (Some 50000)\<rparr>"

text \<open>The two limiters read the clock one after the other.\<close>

definition ShareCreationRateLimiter_check_and_record :: "instant \<Rightarrow> instant \<Rightarrow> IpAddr \<Rightarrow> ShareCreationRateLimiter \<Rightarrow>
    ShareCreationDecision \<times> ShareCreationRateLimiter" where
  "ShareCreationRateLimiter_check_and_record now now' ip l =
     (let bucket = IpBucket_from ip in
      case SlidingWindowLimiterByKey_check_and_record now bucket (hour l) of
        (False, h) \<Rightarrow> (HourCapExceeded, l\<lparr>hour := h\<rparr>)
      | (True, h) \<Rightarrow>
          (case SlidingWindowLimiterByKey_check_and_record now' bucket (day_window l) of
             (False, d) \<Rightarrow> (DayCapExceeded, l\<lparr>hour := h, day_window := d\<rparr>)
           | (True, d) \<Rightarrow> (Allow, l\<lparr>hour := h, day_window := d\<rparr>)))"

subsection \<open>Byte budgets\<close>

record DailyByteCount =
  count_day :: int
  count_bytes :: nat

record ByteBudgetTracker =
  bb_state :: "(IpBucket, DailyByteCount) hmap"
  limit_per_day :: nat
  bb_max_keys :: nat

definition ByteBudgetTracker_new :: "nat \<Rightarrow> ByteBudgetTracker" where
  "ByteBudgetTracker_new limit = \<lparr>bb_state = [], limit_per_day = limit, bb_max_keys = 50000\<rparr>"

definition ByteBudgetTracker_try_consume :: "IpAddr \<Rightarrow> nat \<Rightarrow> int \<Rightarrow> ByteBudgetTracker \<Rightarrow> bool \<times> ByteBudgetTracker" where
  "ByteBudgetTracker_try_consume ip bs now_unix_secs t =
     (if limit_per_day t = 0 then (True, t)
      else
        let bucket = IpBucket_from ip;
            today = now_unix_secs div 86400;
            state = (if length (bb_state t) \<ge> bb_max_keys t then hm_retain (\<lambda>_ v. count_day v \<ge> today - 1) (bb_state t)
                     else bb_state t);
            entry = get_or \<lparr>count_day = today, count_bytes = 0\<rparr> state bucket;
            entry = (if count_day entry \<noteq> today then \<lparr>count_day = today, count_bytes = 0\<rparr> else entry) in
        if sat_add64 (count_bytes entry) bs > limit_per_day t then
          (False, t\<lparr>bb_state := AList.update bucket entry state\<rparr>)
        else
          (True, t\<lparr>bb_state := AList.update bucket (entry\<lparr>count_bytes := sat_add64 (count_bytes entry) bs\<rparr>) state\<rparr>))"

definition ByteBudgetTracker_remaining :: "IpAddr \<Rightarrow> int \<Rightarrow> ByteBudgetTracker \<Rightarrow> nat" where
  "ByteBudgetTracker_remaining ip now_unix_secs t =
     (if limit_per_day t = 0 then u64_max
      else
        let bucket = IpBucket_from ip;
            today = now_unix_secs div 86400 in
        case map_of (bb_state t) bucket of
          Some e \<Rightarrow> if count_day e = today then limit_per_day t - count_bytes e else limit_per_day t
        | None \<Rightarrow> limit_per_day t)"

record ShareBytesPerShareTracker =
  sb_state :: "(string, (instant \<times> nat) list) hmap"
  sb_window :: int
  max_bytes_per_window :: nat
  sb_max_keys :: nat

definition ShareBytesPerShareTracker_new :: "nat \<Rightarrow> ShareBytesPerShareTracker" where
  "ShareBytesPerShareTracker_new max_bytes_per_hour =
     \<lparr>sb_state = [], sb_window = from_secs 3600, max_bytes_per_window = max_bytes_per_hour, sb_max_keys = 50000\<rparr>"

text \<open>\<open>None\<close> is the overflow of \<open>sum()\<close>, which panics in a checked build.\<close>

definition ShareBytesPerShareTracker_try_consume :: "instant \<Rightarrow> string \<Rightarrow> nat \<Rightarrow> ShareBytesPerShareTracker \<Rightarrow>
    (bool \<times> ShareBytesPerShareTracker) option" where
  "ShareBytesPerShareTracker_try_consume now share_id bs t =
     (if max_bytes_per_window t = 0 then Some (True, t)
      else
        let cutoff = now - sb_window t in
        case map_of (sb_state t) share_id of
          Some es \<Rightarrow>
            let entries = filter (\<lambda>(i, _). i > cutoff) es;
                used = sum_list (map snd entries) in
            if used > u64_max then None
            else if sat_add64 used bs > max_bytes_per_window t then
              Some (False, t\<lparr>sb_state := AList.update share_id entries (sb_state t)\<rparr>)
            else Some (True, t\<lparr>sb_state := AList.update share_id (entries @ [(now, bs)]) (sb_state t)\<rparr>)
        | None \<Rightarrow>
            if length (sb_state t) \<ge> sb_max_keys t then Some (True, t)
            else Some (True, t\<lparr>sb_state := AList.update share_id [(now, bs)] (sb_state t)\<rparr>))"

subsection \<open>Connection slots\<close>

record SftpConnectionTracker =
  sc_state :: "(IpBucket, nat) hmap"
  max_per_ip :: nat

definition SftpConnectionTracker_with_max :: "nat \<Rightarrow> SftpConnectionTracker" where
  "SftpConnectionTracker_with_max n = \<lparr>sc_state = [], max_per_ip = max n 1\<rparr>"

definition SftpConnectionTracker_new :: SftpConnectionTracker where
  "SftpConnectionTracker_new = SftpConnectionTracker_with_max 5"

text \<open>The guard is the bucket it releases.\<close>

definition SftpConnectionTracker_try_acquire :: "IpAddr \<Rightarrow> SftpConnectionTracker \<Rightarrow> IpBucket option \<times> SftpConnectionTracker" where
  "SftpConnectionTracker_try_acquire ip t =
     (let bucket = IpBucket_from ip;
          count = get_or 0 (sc_state t) bucket in
      if count \<ge> max_per_ip t then (None, t\<lparr>sc_state := AList.update bucket count (sc_state t)\<rparr>)
      else (Some bucket, t\<lparr>sc_state := AList.update bucket (count + 1) (sc_state t)\<rparr>))"

definition SftpConnectionGuard_drop :: "IpBucket \<Rightarrow> SftpConnectionTracker \<Rightarrow> SftpConnectionTracker" where
  "SftpConnectionGuard_drop bucket t =
     (case map_of (sc_state t) bucket of
        Some count \<Rightarrow>
          if count - 1 = 0 then t\<lparr>sc_state := AList.delete bucket (sc_state t)\<rparr>
          else t\<lparr>sc_state := AList.update bucket (count - 1) (sc_state t)\<rparr>
      | None \<Rightarrow> t)"

subsection \<open>SFTP failures and host spray\<close>

record FailureState =
  fail_count :: nat
  window_start :: instant
  blocked_until :: "instant option"

record HostState =
  hs_hosts :: "string list"
  hs_window_start :: instant

record SftpAuthFailureTracker =
  failures :: "(IpBucket, FailureState) hmap"
  hosts :: "(IpBucket, HostState) hmap"
  failure_limit :: nat
  failure_window :: int

definition DEFAULT_FAILURE_WINDOW :: int where "DEFAULT_FAILURE_WINDOW = from_secs (10 * 60)"
definition DEFAULT_FAILURE_LIMIT :: nat where "DEFAULT_FAILURE_LIMIT = 5"
definition FAILURE_BLOCK_DURATION :: int where "FAILURE_BLOCK_DURATION = from_secs (60 * 60)"
definition HOST_WINDOW :: int where "HOST_WINDOW = from_secs (60 * 60)"
definition HOST_LIMIT :: nat where "HOST_LIMIT = 5"
definition HOST_BLOCK_DURATION :: int where "HOST_BLOCK_DURATION = from_secs (60 * 60)"

definition SftpAuthFailureTracker_with_config :: "nat \<Rightarrow> int \<Rightarrow> SftpAuthFailureTracker" where
  "SftpAuthFailureTracker_with_config limit window =
     \<lparr>failures = [], hosts = [], failure_limit = limit, failure_window = window\<rparr>"

definition SftpAuthFailureTracker_new :: SftpAuthFailureTracker where
  "SftpAuthFailureTracker_new = SftpAuthFailureTracker_with_config DEFAULT_FAILURE_LIMIT DEFAULT_FAILURE_WINDOW"

definition still_blocked :: "instant \<Rightarrow> FailureState \<Rightarrow> bool" where
  "still_blocked now s = (case blocked_until s of Some u \<Rightarrow> now < u | None \<Rightarrow> False)"

definition is_blocked :: "instant \<Rightarrow> IpAddr \<Rightarrow> SftpAuthFailureTracker \<Rightarrow> bool" where
  "is_blocked now ip t = (case map_of (failures t) (IpBucket_from ip) of Some s \<Rightarrow> still_blocked now s | None \<Rightarrow> False)"

definition fresh_failure :: "instant \<Rightarrow> FailureState" where
  "fresh_failure now = \<lparr>fail_count = 0, window_start = now, blocked_until = None\<rparr>"

definition apply_block :: "IpBucket \<Rightarrow> instant \<Rightarrow> SftpAuthFailureTracker \<Rightarrow> SftpAuthFailureTracker" where
  "apply_block bucket now t =
     (let state = get_or (fresh_failure now) (failures t) bucket in
      t\<lparr>failures := AList.update bucket (state\<lparr>blocked_until := Some (now + HOST_BLOCK_DURATION)\<rparr>) (failures t)\<rparr>)"

definition record_host :: "instant \<Rightarrow> IpAddr \<Rightarrow> string \<Rightarrow> SftpAuthFailureTracker \<Rightarrow> bool \<times> SftpAuthFailureTracker" where
  "record_host now ip host t =
     (let bucket = IpBucket_from ip;
          state = get_or \<lparr>hs_hosts = [], hs_window_start = now\<rparr> (hosts t) bucket;
          state = (if duration_since now (hs_window_start state) > HOST_WINDOW
                   then \<lparr>hs_hosts = [], hs_window_start = now\<rparr> else state);
          state = state\<lparr>hs_hosts := List.insert host (hs_hosts state)\<rparr>;
          t = t\<lparr>hosts := AList.update bucket state (hosts t)\<rparr> in
      if length (hs_hosts state) > HOST_LIMIT then (True, apply_block bucket now t) else (False, t))"

definition record_failure :: "instant \<Rightarrow> IpAddr \<Rightarrow> SftpAuthFailureTracker \<Rightarrow> SftpAuthFailureTracker" where
  "record_failure now ip t =
     (let bucket = IpBucket_from ip;
          state = get_or (fresh_failure now) (failures t) bucket in
      if still_blocked now state then t\<lparr>failures := AList.update bucket state (failures t)\<rparr>
      else
        let state = (if duration_since now (window_start state) > failure_window t then fresh_failure now else state);
            state = state\<lparr>fail_count := fail_count state + 1\<rparr>;
            state = (if fail_count state \<ge> failure_limit t
                     then state\<lparr>blocked_until := Some (now + FAILURE_BLOCK_DURATION)\<rparr> else state) in
        t\<lparr>failures := AList.update bucket state (failures t)\<rparr>)"

definition refund_failure :: "IpAddr \<Rightarrow> SftpAuthFailureTracker \<Rightarrow> SftpAuthFailureTracker" where
  "refund_failure ip t =
     (let bucket = IpBucket_from ip in
      case map_of (failures t) bucket of
        Some state \<Rightarrow> t\<lparr>failures := AList.update bucket (state\<lparr>fail_count := fail_count state - 1\<rparr>) (failures t)\<rparr>
      | None \<Rightarrow> t)"

subsection \<open>Share storage and pacing\<close>

record ShareStoragePerIpTracker =
  totals :: "(IpBucket, nat) hmap"
  by_share :: "(string, IpBucket \<times> nat) hmap"
  max_bytes_per_ip :: nat

definition ShareStoragePerIpTracker_new :: "nat \<Rightarrow> ShareStoragePerIpTracker" where
  "ShareStoragePerIpTracker_new limit = \<lparr>totals = [], by_share = [], max_bytes_per_ip = limit\<rparr>"

definition would_accept :: "IpAddr \<Rightarrow> nat \<Rightarrow> ShareStoragePerIpTracker \<Rightarrow> bool" where
  "would_accept ip additional_bytes t =
     (if max_bytes_per_ip t = 0 then True
      else sat_add64 (get_or 0 (totals t) (IpBucket_from ip)) additional_bytes \<le> max_bytes_per_ip t)"

definition storage_register :: "IpAddr \<Rightarrow> string \<Rightarrow> nat \<Rightarrow> ShareStoragePerIpTracker \<Rightarrow> ShareStoragePerIpTracker" where
  "storage_register ip share_id bs t =
     (if max_bytes_per_ip t = 0 \<or> bs = 0 then t
      else
        let bucket = IpBucket_from ip;
            (resolved_bucket, shares) =
              (case map_of (by_share t) share_id of
                 Some (existing_bucket, tot) \<Rightarrow>
                   (existing_bucket, AList.update share_id (existing_bucket, sat_add64 tot bs) (by_share t))
               | None \<Rightarrow> (bucket, AList.update share_id (bucket, bs) (by_share t)));
            entry = get_or 0 (totals t) resolved_bucket in
        t\<lparr>by_share := shares, totals := AList.update resolved_bucket (sat_add64 entry bs) (totals t)\<rparr>)"

definition storage_release :: "string \<Rightarrow> ShareStoragePerIpTracker \<Rightarrow> ShareStoragePerIpTracker" where
  "storage_release share_id t =
     (case map_of (by_share t) share_id of
        None \<Rightarrow> t
      | Some (bucket, bs) \<Rightarrow>
          let t = t\<lparr>by_share := AList.delete share_id (by_share t)\<rparr> in
          (case map_of (totals t) bucket of
             None \<Rightarrow> t
           | Some tot \<Rightarrow>
               if tot - bs = 0 then t\<lparr>totals := AList.delete bucket (totals t)\<rparr>
               else t\<lparr>totals := AList.update bucket (tot - bs) (totals t)\<rparr>))"

definition storage_used :: "IpAddr \<Rightarrow> ShareStoragePerIpTracker \<Rightarrow> nat" where
  "storage_used ip t = get_or 0 (totals t) (IpBucket_from ip)"

text \<open>The percentage computed from the block counts that \<open>statvfs\<close> returns.\<close>

definition sat_mul64 :: "nat \<Rightarrow> nat \<Rightarrow> nat" where
  "sat_mul64 a b = min (a * b) u64_max"

definition disk_usage_percent :: "nat \<Rightarrow> nat \<Rightarrow> nat \<Rightarrow> nat" where
  "disk_usage_percent f_blocks f_bavail f_frsize =
     (let total = sat_mul64 f_blocks f_frsize;
          free = sat_mul64 f_bavail f_frsize in
      if total = 0 then 0 else min (((total - free) * 100) div total) 100)"

text \<open>\<open>now_unix.saturating_sub(created_at_unix)\<close> on \<open>i64\<close>.\<close>

definition sat_sub_i64 :: "int \<Rightarrow> int \<Rightarrow> int" where
  "sat_sub_i64 a b = max (- 9223372036854775808) (min 9223372036854775807 (a - b))"

definition share_slow_start_bps :: "int \<Rightarrow> int \<Rightarrow> nat \<Rightarrow> nat \<Rightarrow> nat option" where
  "share_slow_start_bps created_at_unix now_unix slow_start_secs slow_start_max_bps =
     (if slow_start_secs = 0 \<or> slow_start_max_bps = 0 then None
      else
        let age = sat_sub_i64 now_unix created_at_unix in
        if age < 0 \<or> nat age \<ge> slow_start_secs then None else Some slow_start_max_bps)"

subsection \<open>What a sliding window promises\<close>

text \<open>
  A sequence of timed attempts, the decisions of a limiter on it, and the decisions of the reference
  that keeps every admitted attempt and counts those of the last \<open>w\<close> nanoseconds.
\<close>

fun check_run :: "(instant \<Rightarrow> 'k \<Rightarrow> 's \<Rightarrow> bool \<times> 's) \<Rightarrow> 's \<Rightarrow> (instant \<times> 'k) list \<Rightarrow> bool list" where
  "check_run check s [] = []"
| "check_run check s ((t, k) # es) = (case check t k s of (ok, s') \<Rightarrow> ok # check_run check s' es)"

fun log_run :: "int \<Rightarrow> nat \<Rightarrow> (instant \<times> 'k) list \<Rightarrow> (instant \<times> 'k) list \<Rightarrow> bool list" where
  "log_run w n log [] = []"
| "log_run w n log ((t, k) # es) =
     (let ok = length (filter (\<lambda>(a, k'). k' = k \<and> t - w < a) log) < n
      in ok # log_run w n (if ok then log @ [(t, k)] else log) es)"

definition admitted :: "(instant \<times> 'k) list \<Rightarrow> bool list \<Rightarrow> (instant \<times> 'k) list" where
  "admitted es oks = map fst (filter snd (zip es oks))"

definition in_window :: "int \<Rightarrow> instant \<Rightarrow> 'k \<Rightarrow> (instant \<times> 'k) list \<Rightarrow> nat" where
  "in_window w t k log = length (filter (\<lambda>(a, k'). k' = k \<and> t - w < a \<and> a \<le> t) log)"

lemma admitted_simps [simp]:
  "admitted [] oks = []" "admitted (e # es) (ok # oks) = (if ok then e # admitted es oks else admitted es oks)"
  by (simp_all add: admitted_def)

lemma filter_count_mono: "(\<And>x. x \<in> set xs \<Longrightarrow> p x \<Longrightarrow> q x) \<Longrightarrow> length (filter p xs) \<le> length (filter q xs)"
  by (induction xs) (auto intro: le_SucI)

lemma log_run_length [simp]: "length (log_run w n log es) = length es"
  by (induction w n log es rule: log_run.induct) (simp_all add: Let_def)

lemma log_run_bound:
  "sorted (map fst es) \<Longrightarrow> (\<And>t k. in_window w t k log \<le> n) \<Longrightarrow>
     (\<And>x e. x \<in> set log \<Longrightarrow> e \<in> set es \<Longrightarrow> fst x \<le> fst e) \<Longrightarrow>
     in_window w t k (log @ admitted es (log_run w n log es)) \<le> n"
proof (induction w n log es arbitrary: t k rule: log_run.induct)
  case (2 w n log a i es)
  let ?ok = "length (filter (\<lambda>(b, k'). k' = i \<and> a - w < b) log) < n"
  let ?log = "if ?ok then log @ [(a, i)] else log"
  have le: "fst x \<le> a" if "x \<in> set log" for x using 2(4) [OF that, of "(a, i)"] by simp
  have "in_window w t k ?log \<le> n" for t k
  proof (cases "?ok \<and> k = i \<and> t - w < a \<and> a \<le> t")
    case True
    have "in_window w t k log \<le> length (filter (\<lambda>(b, k'). k' = i \<and> a - w < b) log)"
      using True unfolding in_window_def by (intro filter_count_mono) auto
    then show ?thesis using True by (simp add: in_window_def)
  next
    case False
    then have "in_window w t k ?log = in_window w t k log" by (auto simp: in_window_def)
    then show ?thesis using 2(3) by simp
  qed
  moreover have "fst x \<le> fst e" if "x \<in> set ?log" "e \<in> set es" for x e
    using that 2(2) 2(4) [of x e] by (auto split: if_splits)
  ultimately have "in_window w t k (?log @ admitted es (log_run w n ?log es)) \<le> n"
    using 2(1) [OF refl] 2(2) by simp
  then show ?case by (simp add: Let_def split: if_splits)
qed (simp add: admitted_def)

text \<open>
  The interface: \<open>key\<close> buckets an attempt, \<open>stamps\<close> are the times on record for a key, \<open>covered\<close> says
  that the limiter tracks the key.
\<close>

locale window_limiter =
  fixes check :: "instant \<Rightarrow> 'a \<Rightarrow> 's \<Rightarrow> bool \<times> 's"
    and key :: "'a \<Rightarrow> 'k"
    and stamps :: "'s \<Rightarrow> 'k \<Rightarrow> instant list"
    and covered :: "'s \<Rightarrow> 'k \<Rightarrow> bool"
    and window :: int
    and lim :: nat
  assumes admits: "covered s (key x) \<Longrightarrow> fst (check t x s) \<longleftrightarrow> length (filter (\<lambda>a. a > t - window) (stamps s (key x))) < lim"
    and records: "covered s (key x) \<Longrightarrow> stamps (snd (check t x s)) (key x) =
        filter (\<lambda>a. a > t - window) (stamps s (key x)) @ (if fst (check t x s) then [t] else [])"
    and frame: "covered s k \<Longrightarrow> k \<noteq> key x \<Longrightarrow> stamps (snd (check t x s)) k = stamps s k"
    and keeps: "covered s k \<Longrightarrow> covered (snd (check t x s)) k"
begin

definition agrees :: "'s \<Rightarrow> (instant \<times> 'k) list \<Rightarrow> instant \<Rightarrow> 'k \<Rightarrow> bool" where
  "agrees s log t k \<longleftrightarrow> (\<forall>t'\<ge>t. filter (\<lambda>a. a > t' - window) (stamps s k) =
      map fst (filter (\<lambda>(a, k'). k' = k \<and> t' - window < a) log))"

lemma check_agrees:
  assumes C: "covered s (key x)" "covered s k" and A: "agrees s log t (key x)" "agrees s log t k"
  shows "fst (check t x s) \<longleftrightarrow> length (filter (\<lambda>(a, k'). k' = key x \<and> t - window < a) log) < lim"
    and "agrees (snd (check t x s)) (if fst (check t x s) then log @ [(t, key x)] else log) t k"
proof -
  have "filter (\<lambda>a. a > t - window) (stamps s (key x)) = map fst (filter (\<lambda>(a, k'). k' = key x \<and> t - window < a) log)"
    using A(1) by (simp add: agrees_def)
  then show "fst (check t x s) \<longleftrightarrow> length (filter (\<lambda>(a, k'). k' = key x \<and> t - window < a) log) < lim"
    using admits [OF C(1)] by simp
  show "agrees (snd (check t x s)) (if fst (check t x s) then log @ [(t, key x)] else log) t k"
  proof (cases "k = key x")
    case True
    have F: "filter (\<lambda>a. t' - window < a) (filter (\<lambda>a. t - window < a) (stamps s k)) = filter (\<lambda>a. t' - window < a) (stamps s k)"
      if "t \<le> t'" for t' using that by (auto intro!: filter_cong)
    show ?thesis using A(2) records [OF C(1), of t] True F by (auto simp: agrees_def)
  next
    case False
    then show ?thesis using A(2) frame [OF C(2)] by (simp add: agrees_def)
  qed
qed

lemma run_eq_log:
  "sorted (map fst es) \<Longrightarrow> (\<And>e. e \<in> set es \<Longrightarrow> covered s (key (snd e))) \<Longrightarrow>
     (\<And>e. e \<in> set es \<Longrightarrow> agrees s log (fst (hd es)) (key (snd e))) \<Longrightarrow>
     check_run check s es = log_run window lim log (map (apsnd key) es)"
proof (induction es arbitrary: s log)
  case (Cons e es)
  obtain t x where e: "e = (t, x)" by (cases e)
  let ?s = "snd (check t x s)" and ?log = "if fst (check t x s) then log @ [(t, key x)] else log"
  have C: "covered s (key x)" and A: "agrees s log t (key x)" using Cons.prems(2,3) [of e] e by auto
  note step = check_agrees [OF C _ A]
  have "agrees ?s ?log (fst (hd es)) (key (snd f))" if f: "f \<in> set es" for f
  proof -
    have "covered s (key (snd f))" "agrees s log t (key (snd f))" using Cons.prems(2,3) [of f] f e by auto
    then have "agrees ?s ?log t (key (snd f))" by (rule step(2))
    moreover have "t \<le> fst (hd es)" using Cons.prems(1) e f by (cases es) auto
    ultimately show ?thesis by (auto simp: agrees_def)
  qed
  then have "check_run check ?s es = log_run window lim ?log (map (apsnd key) es)"
    using Cons.prems(1,2) keeps by (intro Cons.IH) auto
  then show ?case using step(1) [OF C A] by (simp add: e case_prod_unfold Let_def)
qed simp

lemma exact:
  assumes "sorted (map fst es)" and "\<And>k. covered s k \<and> stamps s k = []"
  shows "check_run check s es = log_run window lim [] (map (apsnd key) es)"
  using assms by (intro run_eq_log) (auto simp: agrees_def)

lemma never_exceeds:
  assumes "sorted (map fst es)" and "\<And>k. covered s k \<and> stamps s k = []"
  shows "in_window window t k (admitted (map (apsnd key) es) (check_run check s es)) \<le> lim"
  using log_run_bound [of "map (apsnd key) es" window "[]" lim t k] assms exact [OF assms]
  by (simp add: in_window_def o_def)

end

lemma sliding_stamps:
  assumes "hm_ok s"
  shows "get_or [] (snd (sliding_check_and_record w n t ip s)) k =
     (if k = IpBucket_from ip
      then filter (\<lambda>a. a > t - w) (get_or [] s k) @ (if fst (sliding_check_and_record w n t ip s) then [t] else [])
      else get_or [] s k)"
  using assms
  by (auto simp: sliding_check_and_record_def Let_def get_or_def hm_get_retain split: option.splits)

interpretation sliding: window_limiter "sliding_check_and_record w n" IpBucket_from "get_or []" "\<lambda>s _. hm_ok s" w n for w n
proof unfold_locales
  fix s :: "(IpBucket, instant list) hmap" and x t k assume ok: "hm_ok s"
  show "fst (sliding_check_and_record w n t x s) \<longleftrightarrow> length (filter (\<lambda>a. a > t - w) (get_or [] s (IpBucket_from x))) < n"
    by (simp add: sliding_check_and_record_def Let_def)
  show "hm_ok (snd (sliding_check_and_record w n t x s))"
    using ok by (simp add: sliding_check_and_record_def Let_def)
qed (simp_all add: sliding_stamps)

interpretation keyed: window_limiter "keyed_check_and_record w (Suc m) None" id "get_or []" "\<lambda>_ _. True" w "Suc m" for w m
  by unfold_locales (auto simp: keyed_check_and_record_def Let_def get_or_def split: option.splits)

subsection \<open>The daily byte budget\<close>

text \<open>A run of reservations, with the log of those that were granted: day, bucket, bytes.\<close>

fun budget_run :: "ByteBudgetTracker \<Rightarrow> (int \<times> IpAddr \<times> nat) list \<Rightarrow> ByteBudgetTracker \<times> (int \<times> IpBucket \<times> nat) list" where
  "budget_run t [] = (t, [])"
| "budget_run t ((now, ip, bs) # es) =
     (case ByteBudgetTracker_try_consume ip bs now t of
        (ok, t1) \<Rightarrow>
          (case budget_run t1 es of
             (t2, log) \<Rightarrow> (t2, if ok then (now div 86400, IpBucket_from ip, bs) # log else log)))"

definition consumed :: "IpBucket \<Rightarrow> int \<Rightarrow> (int \<times> IpBucket \<times> nat) list \<Rightarrow> nat" where
  "consumed b d log = sum_list (map (\<lambda>(d', b', n). n) (filter (\<lambda>(d', b', n). d' = d \<and> b' = b) log))"

definition booked :: "ByteBudgetTracker \<Rightarrow> IpBucket \<Rightarrow> int \<Rightarrow> nat" where
  "booked t b d = (case map_of (bb_state t) b of Some e \<Rightarrow> if count_day e = d then count_bytes e else 0 | None \<Rightarrow> 0)"

lemma consumed_simps [simp]:
  "consumed b d [] = 0"
  "consumed b d ((d', b', n) # log) = (if d' = d \<and> b' = b then n else 0) + consumed b d log"
  "consumed b d (log @ log') = consumed b d log + consumed b d log'"
  by (simp_all add: consumed_def)

definition up_to :: "int \<Rightarrow> ByteBudgetTracker \<Rightarrow> bool" where
  "up_to d t \<longleftrightarrow> hm_ok (bb_state t) \<and> (\<forall>b e. map_of (bb_state t) b = Some e \<longrightarrow> count_day e \<le> d)"

lemma try_consume_step:
  assumes R: "ByteBudgetTracker_try_consume ip bs now t = (ok, t')"
    and L: "0 < limit_per_day t" "limit_per_day t < u64_max" and U: "up_to (now div 86400) t"
  shows "up_to (now div 86400) t' \<and> limit_per_day t' = limit_per_day t \<and>
     (ok \<longleftrightarrow> booked t (IpBucket_from ip) (now div 86400) + bs \<le> limit_per_day t) \<and>
     (\<forall>d\<ge>now div 86400. booked t' b d = booked t b d + (if ok \<and> b = IpBucket_from ip \<and> d = now div 86400 then bs else 0))"
proof -
  let ?b = "IpBucket_from ip" and ?today = "now div 86400"
  define st where "st = (if length (bb_state t) \<ge> bb_max_keys t then hm_retain (\<lambda>_ v. count_day v \<ge> ?today - 1) (bb_state t) else bb_state t)"
  define e0 where "e0 = get_or \<lparr>count_day = ?today, count_bytes = 0\<rparr> st ?b"
  define e where "e = (if count_day e0 \<noteq> ?today then \<lparr>count_day = ?today, count_bytes = 0\<rparr> else e0)"
  have ok: "hm_ok (bb_state t)" using U by (simp add: up_to_def)
  have sok: "hm_ok st" using ok by (simp add: st_def)
  have su: "count_day x \<le> ?today" if "map_of st b = Some x" for b x
    using map_of_SomeD [OF that] U by (auto simp: st_def up_to_def hm_retain_def split: if_splits)
  have bk: "booked t b d = (case map_of st b of Some e \<Rightarrow> if count_day e = d then count_bytes e else 0 | None \<Rightarrow> 0)"
    if "?today \<le> d" for b d
    using that ok by (auto simp: booked_def st_def hm_get_retain split: option.splits)
  have e: "count_day e = ?today" "count_bytes e = booked t ?b ?today"
    using bk [of ?today ?b] by (auto simp: e_def e0_def get_or_def split: option.splits)
  have sat: "sat_add64 (count_bytes e) bs > limit_per_day t \<longleftrightarrow> \<not> count_bytes e + bs \<le> limit_per_day t"
    "\<not> sat_add64 (count_bytes e) bs > limit_per_day t \<Longrightarrow> sat_add64 (count_bytes e) bs = count_bytes e + bs"
    using L(2) by (auto simp: sat_add64_def min_def split: if_splits)
  have T: "ByteBudgetTracker_try_consume ip bs now t =
     (if sat_add64 (count_bytes e) bs > limit_per_day t then (False, t\<lparr>bb_state := AList.update ?b e st\<rparr>)
      else (True, t\<lparr>bb_state := AList.update ?b (e\<lparr>count_bytes := sat_add64 (count_bytes e) bs\<rparr>) st\<rparr>))"
    unfolding ByteBudgetTracker_try_consume_def Let_def st_def [symmetric] e0_def [symmetric] e_def [symmetric]
    using L(1) by simp
  have same: "booked (t\<lparr>bb_state := AList.update ?b x st\<rparr>) b d =
      (if b = ?b then (if count_day x = d then count_bytes x else 0) else booked t b d)" if "?today \<le> d" for x d
    using bk [OF that, of b] by (auto simp: booked_def)
  have late: "booked t ?b d = 0" if "?today < d" for d
    using that bk [of d ?b] su [of ?b] by (auto split: option.splits)
  have upd: "up_to ?today (t\<lparr>bb_state := AList.update ?b x st\<rparr>)" if "count_day x = ?today" for x
    using that sok su by (auto simp: up_to_def)
  show ?thesis
  proof (cases "count_bytes e + bs \<le> limit_per_day t")
    case True
    let ?x = "e\<lparr>count_bytes := count_bytes e + bs\<rparr>"
    have "ok" "t' = t\<lparr>bb_state := AList.update ?b ?x st\<rparr>" using R True sat unfolding T by auto
    then show ?thesis using True e same [of _ ?x] late upd [of ?x] by (cases "b = ?b") (auto simp: le_less)
  next
    case False
    have "\<not> ok" "t' = t\<lparr>bb_state := AList.update ?b e st\<rparr>" using R False sat unfolding T by auto
    then show ?thesis using False e same [of _ e] late upd [of e] by (cases "b = ?b") (auto simp: le_less)
  qed
qed

lemma booked_init [simp]: "booked (ByteBudgetTracker_new n) b d = 0"
  by (simp add: booked_def ByteBudgetTracker_new_def)


lemma up_to_mono: "up_to d t \<Longrightarrow> d \<le> d' \<Longrightarrow> up_to d' t"
  by (fastforce simp: up_to_def)

lemma budget_run_books:
  "sorted (map fst es) \<Longrightarrow> 0 < limit_per_day t \<Longrightarrow> limit_per_day t < u64_max \<Longrightarrow>
     up_to (now div 86400) t \<Longrightarrow> (\<And>e. e \<in> set es \<Longrightarrow> now \<le> fst e \<and> fst e \<le> fin) \<Longrightarrow> now \<le> fin \<Longrightarrow> budget_run t es = (t', log) \<Longrightarrow>
     limit_per_day t' = limit_per_day t \<and> booked t' b (fin div 86400) = booked t b (fin div 86400) + consumed b (fin div 86400) log \<and>
     (\<forall>d. now div 86400 \<le> d \<longrightarrow> booked t b d \<le> limit_per_day t \<longrightarrow> booked t b d + consumed b d log \<le> limit_per_day t) \<and>
     (\<forall>d. d < now div 86400 \<longrightarrow> consumed b d log = 0)"
proof (induction es arbitrary: t now log)
  case (Cons x es)
  obtain n ip bs where x: "x = (n, ip, bs)" by (cases x)
  obtain ok t1 where c: "ByteBudgetTracker_try_consume ip bs n t = (ok, t1)" by fastforce
  obtain log' where r: "budget_run t1 es = (t', log')" and log: "log = (if ok then (n div 86400, IpBucket_from ip, bs) # log' else log')"
    using Cons.prems(7) x c by (auto split: prod.splits)
  have le: "now \<le> n" "n \<le> fin" "now div 86400 \<le> n div 86400" "n div 86400 \<le> fin div 86400"
    using Cons.prems(5) [of x] x by (auto intro: zdiv_mono1)
  have U: "up_to (n div 86400) t" using up_to_mono [OF Cons.prems(4) le(3)] .
  note S = try_consume_step [OF c Cons.prems(2,3) U, of b]
  have IH: "limit_per_day t' = limit_per_day t1 \<and> booked t' b (fin div 86400) = booked t1 b (fin div 86400) + consumed b (fin div 86400) log' \<and>
     (\<forall>d. n div 86400 \<le> d \<longrightarrow> booked t1 b d \<le> limit_per_day t1 \<longrightarrow> booked t1 b d + consumed b d log' \<le> limit_per_day t1) \<and>
     (\<forall>d. d < n div 86400 \<longrightarrow> consumed b d log' = 0)"
    using Cons.prems(1-3,5) x S le r by (intro Cons.IH) auto
  have "booked t b d + consumed b d log \<le> limit_per_day t" if "now div 86400 \<le> d" "booked t b d \<le> limit_per_day t" for d
  proof (cases "n div 86400 \<le> d")
    case True
    then have "booked t1 b d \<le> limit_per_day t1" using S that by auto
    then have "booked t1 b d + consumed b d log' \<le> limit_per_day t" using IH True S by auto
    then show ?thesis using S True by (auto simp: log)
  next
    case False
    then show ?thesis using IH that by (auto simp: log)
  qed
  then show ?case using IH S le by (auto simp: log)
qed simp


subsection \<open>Storage per address\<close>

definition share_bytes :: "ShareStoragePerIpTracker \<Rightarrow> IpBucket \<Rightarrow> nat" where
  "share_bytes t b = sum_list (map (snd \<circ> snd) (filter (\<lambda>(_, b', _). b' = b) (by_share t)))"

definition all_bytes :: "ShareStoragePerIpTracker \<Rightarrow> nat" where
  "all_bytes t = sum_list (map (snd \<circ> snd) (by_share t))"

definition storage_inv :: "ShareStoragePerIpTracker \<Rightarrow> bool" where
  "storage_inv t \<longleftrightarrow> hm_ok (by_share t) \<and> (\<forall>b. get_or 0 (totals t) b = share_bytes t b) \<and> all_bytes t \<le> u64_max"

lemma sum_by_update:
  fixes f :: "'v \<Rightarrow> nat"
  assumes "hm_ok m"
  shows "sum_list (map (\<lambda>(_, v). f v) (AList.update k v m)) + (case map_of m k of None \<Rightarrow> 0 | Some v' \<Rightarrow> f v') =
     sum_list (map (\<lambda>(_, v). f v) m) + f v"
  using assms by (induction m) auto

lemma sum_by_delete:
  fixes f :: "'v \<Rightarrow> nat"
  assumes "hm_ok m"
  shows "sum_list (map (\<lambda>(_, v). f v) (AList.delete k m)) + (case map_of m k of None \<Rightarrow> 0 | Some v' \<Rightarrow> f v') =
     sum_list (map (\<lambda>(_, v). f v) m)"
proof (use assms in \<open>induction m\<close>)
  case (Cons kv m)
  obtain k' v' where kv: "kv = (k', v')" by (cases kv)
  have "k' \<notin> hm_keys m" using Cons.prems kv by simp
  then have "AList.delete k' m = m" by (simp add: delete_id)
  then show ?case using Cons kv by auto
qed simp

lemma sum_filter_case: "sum_list (map g (filter p xs)) = sum_list (map (\<lambda>x. if p x then g x else (0::nat)) xs)"
  by (induction xs) auto

lemma share_bytes_alt: "share_bytes t b = sum_list (map (\<lambda>(_, v). case v of (b', n) \<Rightarrow> if b' = b then n else 0) (by_share t))"
  unfolding share_bytes_def sum_filter_case by (intro arg_cong [where f = sum_list] map_cong) auto

lemma all_bytes_alt: "all_bytes t = sum_list (map (\<lambda>(_, v). case v of (b', n) \<Rightarrow> n) (by_share t))"
  unfolding all_bytes_def by (intro arg_cong [where f = sum_list] map_cong) auto

lemma share_bytes_le: "share_bytes t b \<le> all_bytes t"
  unfolding share_bytes_alt all_bytes_alt by (intro sum_list_mono) auto

lemma share_le: "map_of (by_share t) s = Some (b, n) \<Longrightarrow> n \<le> share_bytes t b"
  unfolding share_bytes_alt
  by (rule member_le_sum_list) (force simp: image_iff dest: map_of_SomeD)+

lemma register_inv:
  fixes s :: string and ip :: IpAddr
  assumes I: "storage_inv t" and fit: "all_bytes t + bs \<le> u64_max" and on: "max_bytes_per_ip t \<noteq> 0"
  defines "b \<equiv> (case map_of (by_share t) s of Some (b, _) \<Rightarrow> b | None \<Rightarrow> IpBucket_from ip)"
  shows "storage_inv (storage_register ip s bs t) \<and> all_bytes (storage_register ip s bs t) = all_bytes t + bs \<and>
     (\<forall>b'. share_bytes (storage_register ip s bs t) b' = share_bytes t b' + (if b' = b then bs else 0))"
proof (cases "bs = 0")
  case False
  let ?old = "case map_of (by_share t) s of Some (_, n) \<Rightarrow> n | None \<Rightarrow> 0"
  have ok: "hm_ok (by_share t)" using I by (simp add: storage_inv_def)
  have old: "?old \<le> all_bytes t"
    using share_le [of t s] share_bytes_le [of t] by (fastforce split: option.splits intro: le_trans)
  have T: "get_or 0 (totals t) b \<le> all_bytes t" using I share_bytes_le [of t b] by (simp add: storage_inv_def)
  have R: "storage_register ip s bs t = t\<lparr>by_share := AList.update s (b, ?old + bs) (by_share t),
      totals := AList.update b (get_or 0 (totals t) b + bs) (totals t)\<rparr>"
    using False on old T fit by (auto simp: storage_register_def Let_def b_def sat_add64_def min_def split: option.splits)
  have "share_bytes (storage_register ip s bs t) b' = share_bytes t b' + (if b' = b then bs else 0)" for b'
    using sum_by_update [OF ok, of "\<lambda>v. case v of (b'', n) \<Rightarrow> if b'' = b' then n else 0" s "(b, ?old + bs)"]
    unfolding R share_bytes_alt by (auto simp: b_def split: option.splits if_splits)
  moreover have "all_bytes (storage_register ip s bs t) = all_bytes t + bs"
    using sum_by_update [OF ok, of "\<lambda>v. case v of (b'', n) \<Rightarrow> n" s "(b, ?old + bs)"]
    unfolding R all_bytes_alt by (auto simp: b_def split: option.splits)
  ultimately show ?thesis using I fit ok by (auto simp: storage_inv_def R)
qed (use I in \<open>simp add: storage_register_def\<close>)

lemma release_inv:
  assumes I: "storage_inv t"
  shows "storage_inv (storage_release s t) \<and> map_of (by_share (storage_release s t)) s = None \<and>
     (\<forall>b. share_bytes (storage_release s t) b =
        share_bytes t b - (case map_of (by_share t) s of Some (b', n) \<Rightarrow> if b' = b then n else 0 | None \<Rightarrow> 0))"
proof (cases "map_of (by_share t) s")
  case (Some bn)
  obtain b0 n where bn: "bn = (b0, n)" by (cases bn)
  have ok: "hm_ok (by_share t)" using I by (simp add: storage_inv_def)
  have B: "by_share (storage_release s t) = AList.delete s (by_share t)"
    by (simp add: storage_release_def Some bn Let_def split: option.splits)
  have G: "get_or 0 (totals (storage_release s t)) b = get_or 0 (totals t) b - (if b = b0 then n else 0)" for b
    by (auto simp: storage_release_def Some bn Let_def get_or_def split: option.splits)
  have S: "share_bytes (storage_release s t) b + (if b0 = b then n else 0) = share_bytes t b" for b
    using sum_by_delete [OF ok, of "\<lambda>v. case v of (b'', n) \<Rightarrow> if b'' = b then n else 0" s] Some bn
    unfolding share_bytes_alt B by simp
  have "all_bytes (storage_release s t) \<le> all_bytes t"
    using sum_by_delete [OF ok, of "\<lambda>v. case v of (b'', n) \<Rightarrow> n" s] unfolding all_bytes_alt B by linarith
  moreover have "share_bytes (storage_release s t) b = share_bytes t b - (if b0 = b then n else 0)" for b
    using S [of b] by simp
  ultimately show ?thesis using I ok G by (auto simp: storage_inv_def B Some bn)
qed (use I in \<open>simp add: storage_release_def\<close>)


subsection \<open>Connection slots\<close>

text \<open>The tracker with the guards that are alive, by bucket.\<close>

definition slots_inv :: "SftpConnectionTracker \<Rightarrow> IpBucket list \<Rightarrow> bool" where
  "slots_inv t gs \<longleftrightarrow> (\<forall>b. get_or 0 (sc_state t) b = count_list gs b \<and> count_list gs b \<le> max_per_ip t)"

inductive slot_step :: "SftpConnectionTracker \<times> IpBucket list \<Rightarrow> SftpConnectionTracker \<times> IpBucket list \<Rightarrow> bool" where
  acquire: "SftpConnectionTracker_try_acquire ip t = (Some g, t') \<Longrightarrow> slot_step (t, gs) (t', g # gs)"
| refuse: "SftpConnectionTracker_try_acquire ip t = (None, t') \<Longrightarrow> slot_step (t, gs) (t', gs)"
| release: "g \<in> set gs \<Longrightarrow> slot_step (t, gs) (SftpConnectionGuard_drop g t, remove1 g gs)"

inductive_cases slot_stepE: "slot_step c c'"

lemma count_list_remove1: "count_list (remove1 g gs) b = count_list gs b - (if b = g then 1 else 0)"
  by (induction gs) (auto simp: count_list_0_iff)

lemma drop_max [simp]: "max_per_ip (SftpConnectionGuard_drop g t) = max_per_ip t"
  by (simp add: SftpConnectionGuard_drop_def split: option.splits)

lemma slot_step_inv: "slot_step c c' \<Longrightarrow> slots_inv (fst c) (snd c) \<Longrightarrow> slots_inv (fst c') (snd c') \<and> max_per_ip (fst c') = max_per_ip (fst c)"
proof (induction rule: slot_step.induct)
  case (acquire ip t g t' gs)
  then show ?case by (auto simp: slots_inv_def SftpConnectionTracker_try_acquire_def Let_def not_le split: if_splits)
next
  case (refuse ip t t' gs)
  then show ?case by (auto simp: slots_inv_def SftpConnectionTracker_try_acquire_def Let_def split: if_splits)
next
  case (release g gs t)
  then have "count_list gs g \<noteq> 0" by (simp add: count_list_0_iff)
  moreover have G: "get_or 0 (sc_state t) b = count_list gs b \<and> count_list gs b \<le> max_per_ip t" for b
    using release(2) by (simp add: slots_inv_def)
  ultimately have "map_of (sc_state t) g = Some (count_list gs g)"
    using G [of g] by (cases "map_of (sc_state t) g") (simp_all add: get_or_def)
  then have "get_or 0 (sc_state (SftpConnectionGuard_drop g t)) b = count_list (remove1 g gs) b" for b
    using G [of b] by (simp add: SftpConnectionGuard_drop_def count_list_remove1)
  moreover have "count_list (remove1 g gs) b \<le> max_per_ip t" for b
    using G [of b] by (auto simp: count_list_remove1)
  ultimately show ?case by (simp add: slots_inv_def)
qed


subsection \<open>Concurrent downloads of a share\<close>

text \<open>
  \<open>try_acquire\<close> is not one atomic step: it adds one to the counter, compares the previous value, and
  takes the one back when the share was full.  The step relation interleaves these atomic accesses of
  any number of requests; a configuration is the tracker, the guards alive, and the requests that
  are between their \<open>fetch_add\<close> and their \<open>fetch_sub\<close>.
\<close>

record ShareConcurrencyTracker =
  conc_state :: "(string, nat) hmap"
  max_concurrent :: nat

definition ShareConcurrencyTracker_new :: "nat \<Rightarrow> ShareConcurrencyTracker" where
  "ShareConcurrencyTracker_new n = \<lparr>conc_state = [], max_concurrent = max n 1\<rparr>"

definition conc_fetch_add :: "string \<Rightarrow> ShareConcurrencyTracker \<Rightarrow> nat \<times> ShareConcurrencyTracker" where
  "conc_fetch_add share_id t =
     (let prev = get_or 0 (conc_state t) share_id in (prev, t\<lparr>conc_state := AList.update share_id (prev + 1) (conc_state t)\<rparr>))"

definition conc_fetch_sub :: "string \<Rightarrow> ShareConcurrencyTracker \<Rightarrow> ShareConcurrencyTracker" where
  "conc_fetch_sub share_id t =
     t\<lparr>conc_state := AList.update share_id (get_or 0 (conc_state t) share_id - 1) (conc_state t)\<rparr>"

inductive conc_step :: "ShareConcurrencyTracker \<times> string list \<times> string list \<Rightarrow>
    ShareConcurrencyTracker \<times> string list \<times> string list \<Rightarrow> bool" where
  conc_acquire: "conc_fetch_add s t = (prev, t') \<Longrightarrow> prev < max_concurrent t \<Longrightarrow>
     conc_step (t, guards, failing) (t', s # guards, failing)"
| conc_full: "conc_fetch_add s t = (prev, t') \<Longrightarrow> prev \<ge> max_concurrent t \<Longrightarrow>
     conc_step (t, guards, failing) (t', guards, s # failing)"
| conc_undo: "s \<in> set failing \<Longrightarrow> conc_step (t, guards, failing) (conc_fetch_sub s t, guards, remove1 s failing)"
| conc_drop: "s \<in> set guards \<Longrightarrow> conc_step (t, guards, failing) (conc_fetch_sub s t, remove1 s guards, failing)"

definition conc_inv :: "nat \<Rightarrow> ShareConcurrencyTracker \<times> string list \<times> string list \<Rightarrow> bool" where
  "conc_inv n c = (case c of (t, guards, failing) \<Rightarrow> max_concurrent t = n \<and>
     (\<forall>s. get_or 0 (conc_state t) s = count_list guards s + count_list failing s \<and> count_list guards s \<le> n))"

lemma count_list_pos: "s \<in> set xs \<Longrightarrow> 1 \<le> count_list xs s"
  by (metis count_list_0_iff less_one not_le)

lemma conc_step_inv: "conc_step c c' \<Longrightarrow> conc_inv n c \<Longrightarrow> conc_inv n c'"
proof (induction rule: conc_step.induct)
  case (conc_acquire s t prev t' guards failing)
  then have "get_or 0 (conc_state t) s = count_list guards s + count_list failing s" "prev = get_or 0 (conc_state t) s"
    by (auto simp: conc_inv_def conc_fetch_add_def Let_def)
  then have "count_list guards s < n" using conc_acquire by (simp add: conc_inv_def)
  then show ?case using conc_acquire by (auto simp: conc_inv_def conc_fetch_add_def Let_def)
next
  case (conc_full s t prev t' guards failing)
  then show ?case by (auto simp: conc_inv_def conc_fetch_add_def Let_def)
next
  case (conc_undo s failing t guards)
  then show ?case using count_list_pos [OF conc_undo.hyps] by (simp add: conc_inv_def conc_fetch_sub_def count_list_remove1)
next
  case (conc_drop s guards t failing)
  show ?case
    using conc_drop.prems count_list_pos [OF conc_drop.hyps]
    by (auto simp: conc_inv_def conc_fetch_sub_def count_list_remove1 intro: le_trans [OF diff_le_self])
qed

lemma conc_reach_inv: "conc_step\<^sup>*\<^sup>* c c' \<Longrightarrow> conc_inv n c \<Longrightarrow> conc_inv n c'"
  by (induction rule: rtranclp_induct) (auto intro: conc_step_inv)

subsection \<open>The SFTP lock-out\<close>

datatype sftp_event = Failure instant IpAddr | Refund IpAddr | Host instant IpAddr string

fun sftp_apply :: "sftp_event \<Rightarrow> SftpAuthFailureTracker \<Rightarrow> SftpAuthFailureTracker" where
  "sftp_apply (Failure now ip) t = record_failure now ip t"
| "sftp_apply (Refund ip) t = refund_failure ip t"
| "sftp_apply (Host now ip host) t = snd (record_host now ip host t)"

fun event_time :: "sftp_event \<Rightarrow> instant option" where
  "event_time (Failure now ip) = Some now"
| "event_time (Refund ip) = None"
| "event_time (Host now ip host) = Some now"

definition locked :: "IpBucket \<Rightarrow> instant \<Rightarrow> SftpAuthFailureTracker \<Rightarrow> bool" where
  "locked b u t \<longleftrightarrow> (\<exists>s v. map_of (failures t) b = Some s \<and> blocked_until s = Some v \<and> u \<le> v)"

lemma locked_blocked: "locked (IpBucket_from ip) u t \<Longrightarrow> now < u \<Longrightarrow> is_blocked now ip t"
  by (auto simp: locked_def is_blocked_def still_blocked_def)

lemma locked_apply_block: "locked b u t \<Longrightarrow> u \<le> now + HOST_BLOCK_DURATION \<Longrightarrow> locked b u (apply_block b' now t)"
  by (auto simp: locked_def apply_block_def Let_def get_or_def)

lemma locked_sftp_apply:
  assumes L: "locked b u t" and T: "\<And>now. event_time e = Some now \<Longrightarrow> now < u \<and> u \<le> now + HOST_BLOCK_DURATION"
  shows "locked b u (sftp_apply e t)"
proof (cases e)
  case (Failure now ip)
  then have "now < u" using T by simp
  then show ?thesis
    using L Failure by (auto simp: record_failure_def Let_def locked_def get_or_def still_blocked_def)
next
  case (Refund ip)
  then show ?thesis using L by (auto simp: refund_failure_def Let_def locked_def split: option.splits)
next
  case (Host now ip host)
  have "locked b u (t\<lparr>hosts := x\<rparr>)" for x using L by (simp add: locked_def)
  then show ?thesis using T Host by (simp add: record_host_def Let_def locked_apply_block)
qed

lemma failures_lock:
  assumes "map_of (failures t) b = Some \<lparr>fail_count = k, window_start = t0, blocked_until = None\<rparr>"
    and "IpBucket_from ip = b" and "ts \<noteq> []" and "k + length ts = failure_limit t"
    and "\<And>x. x \<in> set ts \<Longrightarrow> t0 \<le> x \<and> x - t0 \<le> failure_window t"
  shows "locked b (last ts + FAILURE_BLOCK_DURATION) (foldl (\<lambda>t now. record_failure now ip t) t ts)"
  using assms
proof (induction ts arbitrary: t k)
  case (Cons x xs)
  have x: "t0 \<le> x" "x - t0 \<le> failure_window t" using Cons.prems(5) by auto
  let ?t = "record_failure x ip t"
  let ?s = "\<lparr>fail_count = k + 1, window_start = t0,
     blocked_until = (if k + 1 \<ge> failure_limit t then Some (x + FAILURE_BLOCK_DURATION) else None)\<rparr>"
  have r: "?t = t\<lparr>failures := AList.update b ?s (failures t)\<rparr>"
    using Cons.prems(1,2) x by (simp add: record_failure_def Let_def get_or_def still_blocked_def duration_since_def)
  show ?case
  proof (cases "xs = []")
    case True
    then show ?thesis using r Cons.prems(4) by (simp add: locked_def)
  next
    case False
    then have "k + 1 < failure_limit t" using Cons.prems(4) by (cases xs) auto
    then have "locked b (last xs + FAILURE_BLOCK_DURATION) (foldl (\<lambda>t now. record_failure now ip t) ?t xs)"
      using r Cons.prems False by (intro Cons.IH [where k = "k + 1"]) auto
    then show ?thesis using False by simp
  qed
qed simp


subsection \<open>Properties\<close>

lemma sliding_run_state:
  "check_run SlidingWindowLimiter_check_and_record l es =
     check_run (sliding_check_and_record (sw_window l) (sw_max_per_window l)) (sw_state l) es"
proof (induction es arbitrary: l)
  case (Cons e es)
  then show ?case by (cases e) (simp add: SlidingWindowLimiter_check_and_record_def case_prod_unfold)
qed simp

lemma keyed_run_state:
  "check_run SlidingWindowLimiterByKey_check_and_record l es =
     check_run (keyed_check_and_record (bk_window l) (bk_max_per_window l) (bk_max_keys l)) (bk_state l) es"
proof (induction es arbitrary: l)
  case (Cons e es)
  then show ?case by (cases e) (simp add: SlidingWindowLimiterByKey_check_and_record_def case_prod_unfold)
qed simp

text \<open>
  C16. The per-address sliding window is exact: on every sequence of attempts in time order, a new
  limiter admits an attempt exactly when fewer than \<open>n\<close> attempts of the same bucket (the IPv4 address
  or the IPv6 /64) were admitted in the window before it, whatever entries it evicts; so no window
  of that length ever contains more than \<open>n\<close> admitted attempts of one bucket.
\<close>
theorem sliding_window_exact:
  assumes "sorted (map fst es)"
  shows "check_run SlidingWindowLimiter_check_and_record (SlidingWindowLimiter_new secs n) es =
       log_run (from_secs secs) n [] (map (apsnd IpBucket_from) es) \<and>
     in_window (from_secs secs) t b (admitted (map (apsnd IpBucket_from) es)
       (check_run SlidingWindowLimiter_check_and_record (SlidingWindowLimiter_new secs n) es)) \<le> n"
  unfolding sliding_run_state
  using sliding.exact [OF assms, of "[]" "from_secs secs" n] sliding.never_exceeds [OF assms, of "[]" "from_secs secs" t b n]
  by (simp add: SlidingWindowLimiter_new_def get_or_def)

theorem sliding_window_exact_witness:
  "check_run SlidingWindowLimiter_check_and_record (SlidingWindowLimiter_new 1 2)
     [(0, IpV6 [1,2,3,4,5,6,7,8,0,0,0,0,0,0,0,1]), (1, IpV4 [1,2,3,4]), (2, IpV6 [1,2,3,4,5,6,7,8,9,9,9,9,9,9,9,9]),
      (3, IpV6 [1,2,3,4,5,6,7,8,7,7,7,7,7,7,7,7]), (1000000000, IpV6 [1,2,3,4,5,6,7,8,0,0,0,0,0,0,0,1])] = [True, True, True, False, True]"
  by (subst sliding_window_exact [THEN conjunct1]) (simp_all add: from_secs_def Let_def)

text \<open>
  The generic sliding window without a key cap is exact in the same way for every limit of at
  least one, for any type of keys.
\<close>
theorem keyed_window_exact:
  assumes "sorted (map fst es)" and "0 < n"
  shows "check_run SlidingWindowLimiterByKey_check_and_record (SlidingWindowLimiterByKey_new secs n) es =
       log_run (from_secs secs) n [] es \<and>
     in_window (from_secs secs) t k (admitted es
       (check_run SlidingWindowLimiterByKey_check_and_record (SlidingWindowLimiterByKey_new secs n) es)) \<le> n"
proof -
  obtain m where n: "n = Suc m" using assms(2) by (cases n) auto
  have "map (apsnd id) es = es" by (simp add: map_idI)
  then show ?thesis
    unfolding keyed_run_state
    using keyed.exact [OF assms(1), of "[]" "from_secs secs" m] keyed.never_exceeds [OF assms(1), of "[]" "from_secs secs" t k m]
    by (simp add: n SlidingWindowLimiterByKey_new_def SlidingWindowLimiterByKey_new_with_cap_def get_or_def)
qed

theorem keyed_window_exact_witness:
  "check_run SlidingWindowLimiterByKey_check_and_record (SlidingWindowLimiterByKey_new 1 1)
     [(0, ''a''), (1, ''b''), (5, ''a''), (1000000000, ''a'')] = [True, True, False, True]"
  by (subst keyed_window_exact [THEN conjunct1]) (simp_all add: from_secs_def Let_def)

text \<open>
  The daily byte budget is never exceeded: for a positive limit below \<open>u64::MAX\<close> and a clock that
  does not run backwards, the bytes granted to one bucket on one UTC day sum to at most the limit,
  also when the tracker prunes old entries, and \<open>remaining\<close> reports what is left of it.
\<close>
theorem byte_budget_bound:
  assumes "sorted (map fst es)" and "0 < limit" and "limit < u64_max"
    and "budget_run (ByteBudgetTracker_new limit) es = (t, log)"
  shows "consumed b d log \<le> limit \<and>
     (\<forall>ip now. (\<forall>e\<in>set es. fst e \<le> now) \<longrightarrow>
        ByteBudgetTracker_remaining ip now t = limit - consumed (IpBucket_from ip) (now div 86400) log)"
proof (cases "es = []")
  case False
  define t0 where "t0 = ByteBudgetTracker_new limit"
  have t0: "limit_per_day t0 = limit" "booked t0 b d = 0" "up_to d t0" for b d
    by (simp_all add: t0_def) (simp_all add: ByteBudgetTracker_new_def up_to_def)
  have fst_le: "fst (hd es) \<le> fst e" if "e \<in> set es" for e
    using assms(1) that by (cases es) (auto dest: bspec)
  note B = budget_run_books [OF assms(1), where t = t0 and now = "fst (hd es)" and log = log and t' = t, unfolded t0, simplified, OF assms(2,3)]
  have run: "budget_run t0 es = (t, log)" using assms(4) by (simp add: t0_def)
  obtain fin where fin: "\<And>e. e \<in> set es \<Longrightarrow> fst e \<le> fin"
    using Max_ge [of "fst ` set es"] by (metis List.finite_set finite_imageI image_eqI)
  have "fst (hd es) \<le> fin" using fin False by simp
  then have "consumed b d log \<le> limit"
    using B [of fin b] t0(3) fst_le fin run by (cases "fst (hd es) div 86400 \<le> d") auto
  moreover have "ByteBudgetTracker_remaining ip now t = limit - consumed (IpBucket_from ip) (now div 86400) log"
    if "\<forall>e\<in>set es. fst e \<le> now" for ip now
  proof -
    have "limit_per_day t = limit \<and> booked t (IpBucket_from ip) (now div 86400) = consumed (IpBucket_from ip) (now div 86400) log"
      using B [of now "IpBucket_from ip"] t0(3) that fst_le False run by auto
    then show ?thesis
      using assms(2) by (auto simp: ByteBudgetTracker_remaining_def booked_def Let_def split: option.splits)
  qed
  ultimately show ?thesis by blast
qed (use assms in \<open>auto simp: ByteBudgetTracker_remaining_def ByteBudgetTracker_new_def\<close>)

theorem byte_budget_bound_witness:
  "consumed (BucketV4 [1,2,3,4]) 0 [(0, BucketV4 [1,2,3,4], 60), (0, BucketV4 [1,2,3,4], 40)] \<le> 100"
  using byte_budget_bound [of "[(0, IpV4 [1,2,3,4], 60), (5, IpV4 [1,2,3,4], 50), (6, IpV4 [1,2,3,4], 40)]" 100]
  by (simp add: ByteBudgetTracker_new_def ByteBudgetTracker_try_consume_def Let_def get_or_def sat_add64_def)

text \<open>
  The reference for the storage tracker: a map from the shares that are alive to the bucket of their
  first registration and all their bytes; a bucket uses the sum over its shares.
\<close>

datatype storage_op = Register IpAddr string nat | Release string

fun storage_apply :: "ShareStoragePerIpTracker \<Rightarrow> storage_op \<Rightarrow> ShareStoragePerIpTracker" where
  "storage_apply t (Register ip s n) = storage_register ip s n t"
| "storage_apply t (Release s) = storage_release s t"

fun ref_apply :: "(string \<rightharpoonup> IpBucket \<times> nat) \<Rightarrow> storage_op \<Rightarrow> (string \<rightharpoonup> IpBucket \<times> nat)" where
  "ref_apply m (Register ip s n) =
     (if n = 0 then m else m(s \<mapsto> (case m s of None \<Rightarrow> (IpBucket_from ip, n) | Some (b, k) \<Rightarrow> (b, k + n))))"
| "ref_apply m (Release s) = m(s := None)"

fun op_bytes :: "storage_op \<Rightarrow> nat" where
  "op_bytes (Register ip s n) = n"
| "op_bytes (Release s) = 0"

definition ref_used :: "(string \<rightharpoonup> IpBucket \<times> nat) \<Rightarrow> IpBucket \<Rightarrow> nat" where
  "ref_used m b = (\<Sum>s\<in>dom m. case the (m s) of (b', n) \<Rightarrow> if b' = b then n else 0)"

lemma sum_list_hmap: "hm_ok m \<Longrightarrow> sum_list (map (\<lambda>(_, v). f v) m) = (\<Sum>k\<in>dom (map_of m). (f (the (map_of m k)) :: nat))"
proof (induction m)
  case (Cons kv m)
  obtain k v where kv: "kv = (k, v)" by (cases kv)
  have k: "k \<notin> dom (map_of m)" using Cons.prems kv by (simp add: dom_map_of_conv_image_fst)
  have "(\<Sum>x\<in>dom (map_of kvm). f (the (map_of kvm x))) = f v + (\<Sum>x\<in>dom (map_of m). f (the (map_of m x)))"
    if "kvm = kv # m" for kvm
  proof -
    have "dom (map_of kvm) = insert k (dom (map_of m))" using that kv by auto
    moreover have "(\<Sum>x\<in>dom (map_of m). f (the (map_of kvm x))) = (\<Sum>x\<in>dom (map_of m). f (the (map_of m x)))"
      using k that kv by (intro sum.cong) auto
    ultimately show ?thesis using k that kv by (simp add: finite_dom_map_of)
  qed
  from this [OF refl] have dom_sum: "(\<Sum>x\<in>dom (map_of (kv # m)). f (the (map_of (kv # m) x))) =
      f v + (\<Sum>x\<in>dom (map_of m). f (the (map_of m x)))" .
  have "sum_list (map (\<lambda>(_, v). f v) (kv # m)) = f v + (\<Sum>x\<in>dom (map_of m). f (the (map_of m x)))"
    using Cons kv by simp
  then show ?case unfolding dom_sum .
qed simp

lemma share_bytes_ref: "hm_ok (by_share t) \<Longrightarrow> share_bytes t b = ref_used (map_of (by_share t)) b"
  unfolding share_bytes_alt ref_used_def by (rule sum_list_hmap)

lemma storage_apply_step:
  assumes I: "storage_inv t" and on: "max_bytes_per_ip t \<noteq> 0" and fit: "all_bytes t + op_bytes a \<le> u64_max"
  shows "storage_inv (storage_apply t a) \<and> max_bytes_per_ip (storage_apply t a) = max_bytes_per_ip t \<and>
     all_bytes (storage_apply t a) \<le> all_bytes t + op_bytes a \<and>
     map_of (by_share (storage_apply t a)) = ref_apply (map_of (by_share t)) a"
proof (cases a)
  case (Register ip s n)
  have "sat_add64 k n = k + n" if "map_of (by_share t) s = Some (b, k)" for b k
    using share_le [OF that] share_bytes_le [of t b] fit Register by (simp add: sat_add64_def)
  then have "map_of (by_share (storage_register ip s n t)) = ref_apply (map_of (by_share t)) a"
    using on Register by (auto simp: storage_register_def Let_def update_conv' split: option.splits)
  moreover have "max_bytes_per_ip (storage_register ip s n t) = max_bytes_per_ip t"
    by (simp add: storage_register_def Let_def case_prod_unfold)
  ultimately show ?thesis using register_inv [OF I _ on, where bs = n and s = s and ip = ip] fit Register by simp
next
  case (Release s)
  have "map_of (by_share (storage_release s t)) = (map_of (by_share t))(s := None)"
    by (auto simp: storage_release_def Let_def delete_conv' split: option.splits)
  moreover have "max_bytes_per_ip (storage_release s t) = max_bytes_per_ip t"
    by (simp add: storage_release_def Let_def split: option.splits)
  moreover have "all_bytes (storage_release s t) \<le> all_bytes t"
    using sum_by_delete [of "by_share t" "\<lambda>v. case v of (b'', n) \<Rightarrow> n" s] I
    unfolding all_bytes_alt storage_inv_def
    by (auto simp: storage_release_def Let_def split: option.splits)
  ultimately show ?thesis using release_inv [OF I, of s] Release by simp
qed

lemma storage_run:
  "storage_inv t \<Longrightarrow> max_bytes_per_ip t \<noteq> 0 \<Longrightarrow> all_bytes t + sum_list (map op_bytes as) \<le> u64_max \<Longrightarrow>
     storage_inv (foldl storage_apply t as) \<and>
     map_of (by_share (foldl storage_apply t as)) = foldl ref_apply (map_of (by_share t)) as"
proof (induction as arbitrary: t)
  case (Cons a as)
  have "storage_inv (storage_apply t a) \<and> max_bytes_per_ip (storage_apply t a) = max_bytes_per_ip t \<and>
     all_bytes (storage_apply t a) \<le> all_bytes t + op_bytes a \<and>
     map_of (by_share (storage_apply t a)) = ref_apply (map_of (by_share t)) a"
    using Cons.prems by (intro storage_apply_step) auto
  then show ?case using Cons.IH [of "storage_apply t a"] Cons.prems by simp
qed simp

text \<open>
  The storage accounting refines its reference: after any sequence of registrations and
  releases whose bytes together fit a \<open>u64\<close>, the bytes charged to an address are exactly the bytes of
  the shares first uploaded from its bucket that have not been released; in particular releasing
  every share returns the charge to zero.
\<close>
theorem storage_accounting:
  assumes "limit \<noteq> 0" and "sum_list (map op_bytes as) \<le> u64_max"
  shows "storage_used ip (foldl storage_apply (ShareStoragePerIpTracker_new limit) as) =
     ref_used (foldl ref_apply Map.empty as) (IpBucket_from ip)"
proof -
  let ?t = "foldl storage_apply (ShareStoragePerIpTracker_new limit) as"
  have "storage_inv ?t \<and> map_of (by_share ?t) = foldl ref_apply Map.empty as"
    using storage_run [of "ShareStoragePerIpTracker_new limit" as] assms
    by (simp add: storage_inv_def ShareStoragePerIpTracker_new_def share_bytes_def all_bytes_def get_or_def)
  then show ?thesis
    using share_bytes_ref [of ?t "IpBucket_from ip"] by (simp add: storage_used_def storage_inv_def)
qed

theorem storage_accounting_witness:
  "storage_used (IpV4 [1,2,3,4]) (foldl storage_apply (ShareStoragePerIpTracker_new 100)
     [Register (IpV4 [1,2,3,4]) ''a'' 5, Register (IpV4 [9,9,9,9]) ''a'' 6, Register (IpV4 [1,2,3,4]) ''b'' 7, Release ''b'']) = 11"
  by (subst storage_accounting) (simp_all add: ref_used_def)

text \<open>
  SFTP connection slots: in every reachable configuration the counter of a bucket equals the
  number of its guards that are alive, and no bucket ever holds more than the configured number of
  connections.
\<close>
theorem sftp_slots_bounded:
  assumes "slot_step\<^sup>*\<^sup>* (SftpConnectionTracker_with_max n, []) (t, gs)"
  shows "get_or 0 (sc_state t) b = count_list gs b \<and> count_list gs b \<le> max n 1"
proof -
  have "slots_inv (fst c) (snd c) \<and> max_per_ip (fst c) = max n 1"
    if "slot_step\<^sup>*\<^sup>* (SftpConnectionTracker_with_max n, []) c" for c
    using that
  proof (induction rule: rtranclp_induct)
    case base
    show ?case by (simp add: slots_inv_def SftpConnectionTracker_with_max_def get_or_def)
  next
    case (step c c')
    then show ?case using slot_step_inv [of c c'] by simp
  qed
  from this [OF assms] show ?thesis by (auto simp: slots_inv_def)
qed

theorem sftp_slots_bounded_witness:
  "\<exists>t. slot_step\<^sup>*\<^sup>* (SftpConnectionTracker_with_max 5, []) (t, [BucketV4 [1,2,3,4]]) \<and>
     get_or 0 (sc_state t) (BucketV4 [1,2,3,4]) = 1"
proof -
  obtain t where "SftpConnectionTracker_try_acquire (IpV4 [1,2,3,4]) (SftpConnectionTracker_with_max 5) = (Some (BucketV4 [1,2,3,4]), t)"
    by (simp add: SftpConnectionTracker_try_acquire_def SftpConnectionTracker_with_max_def get_or_def Let_def)
  then have r: "slot_step\<^sup>*\<^sup>* (SftpConnectionTracker_with_max 5, []) (t, [BucketV4 [1,2,3,4]])"
    by (intro r_into_rtranclp slot_step.acquire)
  show ?thesis using r sftp_slots_bounded [OF r, of "BucketV4 [1,2,3,4]"] by auto
qed

text \<open>
  Concurrent downloads of a share: under every interleaving of the atomic additions,
  comparisons and subtractions of any number of requests, at most the configured number of guards
  of one share is alive, and the counter is the guards plus the requests that are about to give up.
\<close>
theorem share_concurrency_bounded:
  assumes "conc_step\<^sup>*\<^sup>* (ShareConcurrencyTracker_new n, [], []) (t, guards, failing)"
  shows "count_list guards s \<le> max n 1 \<and> get_or 0 (conc_state t) s = count_list guards s + count_list failing s"
  using conc_reach_inv [OF assms, of "max n 1"]
  by (simp add: conc_inv_def ShareConcurrencyTracker_new_def get_or_def)

theorem share_concurrency_bounded_witness:
  "\<exists>t. conc_step\<^sup>*\<^sup>* (ShareConcurrencyTracker_new 1, [], []) (t, [''a''], [''a'']) \<and> get_or 0 (conc_state t) ''a'' = 2"
proof -
  define t1 where "t1 = snd (conc_fetch_add ''a'' (ShareConcurrencyTracker_new 1))"
  define t2 where "t2 = snd (conc_fetch_add ''a'' t1)"
  note d = t1_def t2_def conc_fetch_add_def ShareConcurrencyTracker_new_def get_or_def
  have "conc_step (ShareConcurrencyTracker_new 1, [], []) (t1, [''a''], [])"
    by (rule conc_step.conc_acquire [where prev = 0]) (simp_all add: d)
  moreover have "conc_step (t1, [''a''], []) (t2, [''a''], [''a''])"
    by (rule conc_step.conc_full [where prev = 1]) (simp_all add: d)
  ultimately have r: "conc_step\<^sup>*\<^sup>* (ShareConcurrencyTracker_new 1, [], []) (t2, [''a''], [''a''])" by simp
  show ?thesis using r share_concurrency_bounded [OF r, of "''a''"] by auto
qed

text \<open>
  C17. The SFTP lock-out: as many recorded failures of one bucket as the limit, all within the
  failure window of the first, block every address of that bucket for the hour after the last one,
  whatever failures, refunds and host contacts of any address happen in that hour.
\<close>
theorem sftp_lockout:
  assumes "map_of (failures t) (IpBucket_from ip) = None" and "length ts = failure_limit t" and "ts \<noteq> []"
    and "\<forall>x\<in>set ts. hd ts \<le> x \<and> x - hd ts \<le> failure_window t"
    and "\<forall>e\<in>set es. \<forall>now. event_time e = Some now \<longrightarrow> last ts \<le> now \<and> now < last ts + FAILURE_BLOCK_DURATION"
    and "IpBucket_from ip' = IpBucket_from ip" and "now < last ts + FAILURE_BLOCK_DURATION"
  shows "is_blocked now ip' (foldl (\<lambda>t e. sftp_apply e t) (foldl (\<lambda>t now. record_failure now ip t) t ts) es)"
proof -
  let ?b = "IpBucket_from ip" and ?u = "last ts + FAILURE_BLOCK_DURATION"
  obtain x xs where ts: "ts = x # xs" using assms(3) by (cases ts) auto
  have F: "record_failure x ip t = record_failure x ip (t\<lparr>failures := AList.update ?b (fresh_failure x) (failures t)\<rparr>)"
    using assms(1)
    by (simp add: record_failure_def Let_def get_or_def fresh_failure_def still_blocked_def duration_since_def)
  have "locked ?b ?u (foldl (\<lambda>t now. record_failure now ip t) (t\<lparr>failures := AList.update ?b (fresh_failure x) (failures t)\<rparr>) ts)"
    using assms(2-4) ts by (intro failures_lock [where k = 0 and ?t0.0 = x]) (auto simp: fresh_failure_def)
  then have L: "locked ?b ?u (foldl (\<lambda>t now. record_failure now ip t) t ts)" using ts F by simp
  have "locked ?b ?u (foldl (\<lambda>t e. sftp_apply e t) s es)" if "locked ?b ?u s" for s
    using that assms(5)
  proof (induction es arbitrary: s)
    case (Cons e es)
    have "locked ?b ?u (sftp_apply e s)"
      using Cons.prems by (intro locked_sftp_apply) (auto simp: FAILURE_BLOCK_DURATION_def HOST_BLOCK_DURATION_def)
    then show ?case using Cons.IH Cons.prems by simp
  qed simp
  from locked_blocked [OF _ assms(7), of ip'] this [OF L] show ?thesis using assms(6) by simp
qed

theorem sftp_lockout_witness:
  "is_blocked 3600000000003 (IpV4 [1,2,3,4])
     (foldl (\<lambda>t e. sftp_apply e t)
       (foldl (\<lambda>t now. record_failure now (IpV4 [1,2,3,4]) t) SftpAuthFailureTracker_new [0, 1, 2, 3, 4])
       [Refund (IpV4 [1,2,3,4]), Refund (IpV4 [1,2,3,4]), Host 5 (IpV4 [1,2,3,4]) ''h'', Failure 6 (IpV4 [1,2,3,4])])"
  by (rule sftp_lockout)
    (simp_all add: SftpAuthFailureTracker_new_def SftpAuthFailureTracker_with_config_def DEFAULT_FAILURE_LIMIT_def
      DEFAULT_FAILURE_WINDOW_def FAILURE_BLOCK_DURATION_def from_secs_def)

end
