(* ===== verification/Net_Filter.thy ===== *)
theory Net_Filter
  imports Relay_Base
begin

unbundle bit_operations_syntax

text \<open>
  Addresses the relay may talk to and addresses it attributes requests to:
  \<open>byo-relay/src/ip_filter.rs\<close> (the SSRF filter), \<open>dns.rs\<close> (resolution with validation, the resolver
  is a parameter) and \<open>client_ip.rs\<close> (the client behind trusted proxies).  The predicates and the
  parser of \<open>std::net\<close> that the code calls are written out first.
\<close>

subsection \<open>Addresses of the standard library\<close>

definition is_loopback4 :: "bytes \<Rightarrow> bool" where "is_loopback4 o4 \<longleftrightarrow> o4 ! 0 = 127"

definition is_private4 :: "bytes \<Rightarrow> bool" where
  "is_private4 o4 \<longleftrightarrow> o4 ! 0 = 10 \<or> o4 ! 0 = 172 \<and> o4 ! 1 AND 0xF0 = 16 \<or> o4 ! 0 = 192 \<and> o4 ! 1 = 168"

definition is_link_local4 :: "bytes \<Rightarrow> bool" where "is_link_local4 o4 \<longleftrightarrow> o4 ! 0 = 169 \<and> o4 ! 1 = 254"
definition is_broadcast4 :: "bytes \<Rightarrow> bool" where "is_broadcast4 o4 \<longleftrightarrow> o4 = [255, 255, 255, 255]"
definition is_unspecified4 :: "bytes \<Rightarrow> bool" where "is_unspecified4 o4 \<longleftrightarrow> o4 = [0, 0, 0, 0]"
definition is_multicast4 :: "bytes \<Rightarrow> bool" where "is_multicast4 o4 \<longleftrightarrow> o4 ! 0 AND 0xF0 = 224"

definition segment :: "bytes \<Rightarrow> nat \<Rightarrow> u16" where
  "segment o6 i = push_bit 8 (ucast (o6 ! (2 * i))) OR ucast (o6 ! (2 * i + 1))"

definition is_loopback6 :: "bytes \<Rightarrow> bool" where "is_loopback6 o6 \<longleftrightarrow> o6 = replicate 15 0 @ [1]"
definition is_unspecified6 :: "bytes \<Rightarrow> bool" where "is_unspecified6 o6 \<longleftrightarrow> o6 = replicate 16 0"

definition to_ipv4_mapped :: "bytes \<Rightarrow> bytes option" where
  "to_ipv4_mapped o6 = (if take 12 o6 = replicate 10 0 @ [0xFF, 0xFF] then Some (drop 12 o6) else None)"

text \<open>The parser of \<open>std::net\<close>: each reader returns its value and the rest, or fails without consuming.\<close>

definition digit_value :: "nat \<Rightarrow> char \<Rightarrow> nat option" where
  "digit_value radix c =
     (let n = of_char c :: nat;
          d = (if 48 \<le> n \<and> n \<le> 57 then n - 48 else if 97 \<le> n \<and> n \<le> 122 then n - 87 else if 65 \<le> n \<and> n \<le> 90 then n - 55 else 36)
      in if d < radix then Some d else None)"

fun read_digits :: "nat \<Rightarrow> string \<Rightarrow> nat list \<times> string" where
  "read_digits radix [] = ([], [])"
| "read_digits radix (c # cs) =
     (case digit_value radix c of
        None \<Rightarrow> ([], c # cs)
      | Some d \<Rightarrow> (case read_digits radix cs of (ds, rest) \<Rightarrow> (d # ds, rest)))"

definition read_number :: "nat \<Rightarrow> nat \<Rightarrow> bool \<Rightarrow> nat \<Rightarrow> string \<Rightarrow> (nat \<times> string) option" where
  "read_number radix max_digits allow_zero_prefix max_value s =
     (case read_digits radix s of (ds, rest) \<Rightarrow>
        let v = foldl (\<lambda>a d. a * radix + d) 0 ds in
        if ds = [] \<or> length ds > max_digits \<or> v > max_value then None
        else if \<not> allow_zero_prefix \<and> hd ds = 0 \<and> length ds > 1 then None
        else Some (v, rest))"

definition read_separator :: "char \<Rightarrow> nat \<Rightarrow> (string \<Rightarrow> ('a \<times> string) option) \<Rightarrow> string \<Rightarrow> ('a \<times> string) option" where
  "read_separator sep i inner s =
     (if i = 0 then inner s else (case s of c # cs \<Rightarrow> if c = sep then inner cs else None | [] \<Rightarrow> None))"

fun read_octets :: "nat \<Rightarrow> nat \<Rightarrow> string \<Rightarrow> (bytes \<times> string) option" where
  "read_octets i 0 s = Some ([], s)"
| "read_octets i (Suc n) s =
     (case read_separator CHR ''.'' i (read_number 10 3 False 255) s of
        None \<Rightarrow> None
      | Some (v, s1) \<Rightarrow> map_option (\<lambda>(vs, s2). (of_nat v # vs, s2)) (read_octets (i + 1) n s1))"

definition read_ipv4_addr :: "string \<Rightarrow> (bytes \<times> string) option" where
  "read_ipv4_addr s = read_octets 0 4 s"

text \<open>\<open>read_groups\<close> with \<open>k\<close> slots left of \<open>i + k\<close>: the octets read, and whether they end in an IPv4 part.\<close>

fun read_groups :: "nat \<Rightarrow> nat \<Rightarrow> string \<Rightarrow> bytes \<times> bool \<times> string" where
  "read_groups i 0 s = ([], False, s)"
| "read_groups i (Suc k) s =
     (case (if k > 0 then read_separator CHR '':'' i read_ipv4_addr s else None) of
        Some (v4, s1) \<Rightarrow> (v4, True, s1)
      | None \<Rightarrow>
          (case read_separator CHR '':'' i (read_number 16 4 True 65535) s of
             None \<Rightarrow> ([], False, s)
           | Some (g, s1) \<Rightarrow>
               (case read_groups (i + 1) k s1 of
                  (gs, v4, s2) \<Rightarrow> (of_nat (g div 256) # of_nat (g mod 256) # gs, v4, s2))))"

definition read_ipv6_addr :: "string \<Rightarrow> (bytes \<times> string) option" where
  "read_ipv6_addr s =
     (case read_groups 0 8 s of (head, head_ipv4, s1) \<Rightarrow>
        if length head = 16 then Some (head, s1)
        else if head_ipv4 then None
        else (case s1 of
                CHR '':'' # CHR '':'' # s2 \<Rightarrow>
                  (case read_groups 0 (7 - length head div 2) s2 of
                     (tail, _, s3) \<Rightarrow> Some (head @ replicate (16 - length head - length tail) 0 @ tail, s3))
              | _ \<Rightarrow> None))"

definition parse_ip :: "string \<Rightarrow> IpAddr option" where
  "parse_ip s =
     (case read_ipv4_addr s of
        Some (v4, rest) \<Rightarrow> if rest = [] then Some (IpV4 v4) else None
      | None \<Rightarrow>
          (case read_ipv6_addr s of
             Some (v6, rest) \<Rightarrow> if rest = [] then Some (IpV6 v6) else None
           | None \<Rightarrow> None))"

definition ip_wf :: "IpAddr \<Rightarrow> bool" where
  "ip_wf ip = (case ip of IpV4 o4 \<Rightarrow> length o4 = 4 | IpV6 o6 \<Rightarrow> length o6 = 16)"

subsection \<open>The SSRF filter\<close>

definition is_shared_address_space :: "bytes \<Rightarrow> bool" where
  "is_shared_address_space o4 \<longleftrightarrow> o4 ! 0 = 100 \<and> o4 ! 1 AND 0xC0 = 64"

definition is_documentation_v4 :: "bytes \<Rightarrow> bool" where
  "is_documentation_v4 o4 \<longleftrightarrow>
     (o4 ! 0, o4 ! 1, o4 ! 2) \<in> {(192, 0, 2), (198, 51, 100), (203, 0, 113)}"

definition is_ipv4_blocked :: "bytes \<Rightarrow> bool" where
  "is_ipv4_blocked ip =
     (if is_loopback4 ip then True
      else if is_private4 ip then True
      else if is_link_local4 ip then True
      else if is_shared_address_space ip then True
      else if is_broadcast4 ip then True
      else if is_unspecified4 ip then True
      else if is_documentation_v4 ip then True
      else if is_multicast4 ip then True
      else if ip ! 0 = 198 \<and> (ip ! 1 = 18 \<or> ip ! 1 = 19) then True
      else if ip ! 0 = 192 \<and> ip ! 1 = 0 \<and> ip ! 2 = 0 then True
      else False)"

definition is_ipv6_link_local :: "bytes \<Rightarrow> bool" where
  "is_ipv6_link_local ip \<longleftrightarrow> segment ip 0 AND 0xFFC0 = 0xFE80"

definition is_ipv6_unique_local :: "bytes \<Rightarrow> bool" where
  "is_ipv6_unique_local ip \<longleftrightarrow> segment ip 0 AND 0xFE00 = 0xFC00"

definition is_ipv6_discard :: "bytes \<Rightarrow> bool" where
  "is_ipv6_discard ip \<longleftrightarrow> segment ip 0 = 0x0100 \<and> segment ip 1 = 0 \<and> segment ip 2 = 0 \<and> segment ip 3 = 0"

definition is_6to4_blocked :: "bytes \<Rightarrow> bool" where
  "is_6to4_blocked ip =
     (if segment ip 0 \<noteq> 0x2002 then False
      else
        let v4_high = segment ip 1; v4_low = segment ip 2 in
        is_ipv4_blocked [ucast (drop_bit 8 v4_high), ucast (v4_high AND 0xFF), ucast (drop_bit 8 v4_low), ucast (v4_low AND 0xFF)])"

definition is_ipv4_mapped_blocked :: "bytes \<Rightarrow> bool" where
  "is_ipv4_mapped_blocked ip = (case to_ipv4_mapped ip of Some v4 \<Rightarrow> is_ipv4_blocked v4 | None \<Rightarrow> False)"

definition is_ipv6_blocked :: "bytes \<Rightarrow> bool" where
  "is_ipv6_blocked ip =
     (if is_loopback6 ip then True
      else if is_unspecified6 ip then True
      else if is_ipv6_link_local ip then True
      else if is_ipv6_unique_local ip then True
      else if is_ipv6_discard ip then True
      else if is_6to4_blocked ip then True
      else if is_ipv4_mapped_blocked ip then True
      else False)"

fun is_ip_blocked :: "IpAddr \<Rightarrow> bool" where
  "is_ip_blocked (IpV4 v4) = is_ipv4_blocked v4"
| "is_ip_blocked (IpV6 v6) = is_ipv6_blocked v6"

subsection \<open>Resolution\<close>

datatype SsrfError = BlockedIp IpAddr | NoRecords string | DnsError string | InvalidHostname

text \<open>The resolver answers a lookup with its addresses or an error text.\<close>

definition resolve_and_validate :: "(string \<Rightarrow> string + IpAddr list) \<Rightarrow> string \<Rightarrow> SsrfError + IpAddr list" where
  "resolve_and_validate lookup_ip hostname =
     (case parse_ip hostname of
        Some ip \<Rightarrow> if is_ip_blocked ip then Inl (BlockedIp ip) else Inr [ip]
      | None \<Rightarrow>
          if hostname = [] \<or> length hostname > 253 then Inl InvalidHostname
          else and_then (map_err DnsError (lookup_ip hostname)) (\<lambda>addrs.
            if addrs = [] then Inl (NoRecords hostname)
            else (case find is_ip_blocked addrs of
                    Some addr \<Rightarrow> Inl (BlockedIp addr)
                  | None \<Rightarrow> Inr addrs)))"

subsection \<open>The client behind the proxies\<close>

text \<open>\<open>str::split(',')\<close>: the pieces between the separators, at least one.\<close>

fun split_on :: "char \<Rightarrow> string \<Rightarrow> string list" where
  "split_on sep [] = [[]]"
| "split_on sep (c # cs) =
     (if c = sep then [] # split_on sep cs
      else (case split_on sep cs of [] \<Rightarrow> [[c]] | p # ps \<Rightarrow> (c # p) # ps))"

fun first_untrusted :: "IpAddr list \<Rightarrow> string list \<Rightarrow> IpAddr option" where
  "first_untrusted trusted [] = None"
| "first_untrusted trusted (e # es) =
     (case parse_ip e of
        Some ip \<Rightarrow> if ip \<notin> set trusted then Some ip else first_untrusted trusted es
      | None \<Rightarrow> first_untrusted trusted es)"

text \<open>The header value is \<open>None\<close> when it is absent or not a string.\<close>

definition extract_client_ip :: "IpAddr \<Rightarrow> string option \<Rightarrow> IpAddr list \<Rightarrow> IpAddr" where
  "extract_client_ip peer x_forwarded_for trusted_proxies =
     (if peer \<notin> set trusted_proxies then peer
      else (case x_forwarded_for of
              None \<Rightarrow> peer
            | Some xff \<Rightarrow>
                (case first_untrusted trusted_proxies (map trim (rev (split_on CHR '','' xff))) of
                   Some ip \<Rightarrow> ip
                 | None \<Rightarrow> peer)))"

subsection \<open>Parsed addresses\<close>

lemma read_octets_length: "read_octets i n s = Some (vs, r) \<Longrightarrow> length vs = n"
  by (induction i n s arbitrary: vs r rule: read_octets.induct) (auto split: option.splits)

lemma read_groups_length: "read_groups i k s = (gs, v4, r) \<Longrightarrow> length gs \<le> 2 * k \<and> even (length gs)"
proof (induction i k s arbitrary: gs v4 r rule: read_groups.induct)
  case (2 i k s)
  show ?case
  proof (cases "if k > 0 then read_separator CHR '':'' i read_ipv4_addr s else None")
    case (Some a)
    obtain o4 s1 where a: "a = (o4, s1)" by (cases a)
    have "k > 0" using Some by (cases "k > 0") auto
    moreover have "length o4 = 4"
      using Some a \<open>k > 0\<close> by (auto simp: read_separator_def read_ipv4_addr_def split: if_splits list.splits dest: read_octets_length)
    ultimately show ?thesis using 2(2) Some a by simp
  next
    case None
    then show ?thesis using 2 by (auto split: option.splits prod.splits)
  qed
qed simp

lemma parse_ip_wf: "parse_ip s = Some ip \<Longrightarrow> ip_wf ip"
proof -
  assume P: "parse_ip s = Some ip"
  have six: "length o6 = 16" if "read_ipv6_addr s = Some (o6, r)" for o6 r
    using that read_groups_length [of 0 8 s] read_groups_length [of 0 "7 - length h div 2" for h]
    by (fastforce simp: read_ipv6_addr_def split: prod.splits if_splits list.splits char.splits bool.splits)
  show ?thesis
    using P six by (auto simp: parse_ip_def ip_wf_def read_ipv4_addr_def split: option.splits prod.splits if_splits dest: read_octets_length)
qed

subsection \<open>The filter as a table of prefixes\<close>

definition v4_value :: "bytes \<Rightarrow> nat" where
  "v4_value o4 = foldl (\<lambda>a b. a * 256 + unat b) 0 o4"

definition in_cidr :: "bytes \<Rightarrow> bytes \<times> nat \<Rightarrow> bool" where
  "in_cidr o4 = (\<lambda>(base, len). v4_value o4 div 2 ^ (32 - len) = v4_value base div 2 ^ (32 - len))"

definition blocked_cidrs :: "(bytes \<times> nat) list" where
  "blocked_cidrs =
     [([127, 0, 0, 0], 8), ([10, 0, 0, 0], 8), ([172, 16, 0, 0], 12), ([192, 168, 0, 0], 16), ([169, 254, 0, 0], 16),
      ([100, 64, 0, 0], 10), ([255, 255, 255, 255], 32), ([0, 0, 0, 0], 32), ([192, 0, 2, 0], 24), ([198, 51, 100, 0], 24),
      ([203, 0, 113, 0], 24), ([224, 0, 0, 0], 4), ([198, 18, 0, 0], 15), ([192, 0, 0, 0], 24)]"

lemma mask_tests:
  "(b :: u8) AND 0xF0 = 16 \<longleftrightarrow> unat b div 16 = 1"
  "(b :: u8) AND 0xF0 = 224 \<longleftrightarrow> unat b div 16 = 14"
  "(b :: u8) AND 0xC0 = 64 \<longleftrightarrow> unat b div 64 = 1"
proof -
  have "list_all (\<lambda>n. ((word_of_nat n :: u8) AND 0xF0 = 16 \<longleftrightarrow> n div 16 = 1) \<and> ((word_of_nat n :: u8) AND 0xF0 = 224 \<longleftrightarrow> n div 16 = 14) \<and>
      ((word_of_nat n :: u8) AND 0xC0 = 64 \<longleftrightarrow> n div 64 = 1)) [0..<256]"
    by code_simp
  then have "\<forall>n<256. ((word_of_nat n :: u8) AND 0xF0 = 16 \<longleftrightarrow> n div 16 = 1) \<and> ((word_of_nat n :: u8) AND 0xF0 = 224 \<longleftrightarrow> n div 16 = 14) \<and>
      ((word_of_nat n :: u8) AND 0xC0 = 64 \<longleftrightarrow> n div 64 = 1)"
    by (simp add: list_all_iff)
  moreover have "unat b < 256" using unsigned_less [of b] by simp
  moreover have "(word_of_nat (unat b) :: u8) = b" by simp
  ultimately show "(b :: u8) AND 0xF0 = 16 \<longleftrightarrow> unat b div 16 = 1"
    "(b :: u8) AND 0xF0 = 224 \<longleftrightarrow> unat b div 16 = 14" "(b :: u8) AND 0xC0 = 64 \<longleftrightarrow> unat b div 64 = 1"
    by metis+
qed


lemma v4_value4: "v4_value [a, b, c, d] = ((unat a * 256 + unat b) * 256 + unat c) * 256 + unat d"
  by (simp add: v4_value_def)

lemma u8_less: "unat (b :: u8) < 256"
  using unsigned_less [of b] by simp

lemma v4_div:
  fixes a b c d :: u8
  defines "v \<equiv> v4_value [a, b, c, d]"
  shows "v div 16777216 = unat a" "v div 65536 = unat a * 256 + unat b" "v div 256 = (unat a * 256 + unat b) * 256 + unat c"
    "v div 268435456 = unat a div 16" "v div 1048576 = unat a * 16 + unat b div 16" "v div 4194304 = unat a * 4 + unat b div 64"
    "v div 131072 = unat a * 128 + unat b div 2"
proof -
  note l = u8_less [of a] u8_less [of b] u8_less [of c] u8_less [of d]
  have D: "(x * 256 + r) div 256 = x" if "r < 256" for x r :: nat using that by simp
  show 3: "v div 256 = (unat a * 256 + unat b) * 256 + unat c" unfolding v_def v4_value4 by (rule D [OF l(4)])
  have "v div 65536 = v div 256 div 256" by (simp add: div_mult2_eq [symmetric])
  then show 2: "v div 65536 = unat a * 256 + unat b" unfolding 3 by (simp only: D [OF l(3)])
  have "v div 16777216 = v div 65536 div 256" by (simp add: div_mult2_eq [symmetric])
  then show 1: "v div 16777216 = unat a" unfolding 2 by (simp only: D [OF l(2)])
  have "v div 268435456 = v div 16777216 div 16" by (simp add: div_mult2_eq [symmetric])
  then show "v div 268435456 = unat a div 16" using 1 by simp
  have "v div 1048576 = v div 65536 div 16" by (simp add: div_mult2_eq [symmetric])
  then show "v div 1048576 = unat a * 16 + unat b div 16" using 2 by simp
  have "v div 4194304 = v div 65536 div 64" by (simp add: div_mult2_eq [symmetric])
  then show "v div 4194304 = unat a * 4 + unat b div 64" using 2 by simp
  have "v div 131072 = v div 65536 div 2" by (simp add: div_mult2_eq [symmetric])
  then show "v div 131072 = unat a * 128 + unat b div 2" using 2 by simp
qed


lemma u8_eq_unat: "(b :: u8) = numeral k \<longleftrightarrow> unat b = unat (numeral k :: u8)"
  by (simp add: word_unat_eq_iff)

lemma u8_zero_unat: "(b :: u8) = 0 \<longleftrightarrow> unat b = 0"
  by (simp add: unat_eq_0)

lemma in_cidr_unfold:
  fixes a b c d :: u8
  shows "in_cidr [a, b, c, d] ([p, q, r, s], 4) \<longleftrightarrow> unat a div 16 = unat p div 16"
    "in_cidr [a, b, c, d] ([p, q, r, s], 8) \<longleftrightarrow> a = p"
    "in_cidr [a, b, c, d] ([p, q, r, s], 10) \<longleftrightarrow> a = p \<and> unat b div 64 = unat q div 64"
    "in_cidr [a, b, c, d] ([p, q, r, s], 12) \<longleftrightarrow> a = p \<and> unat b div 16 = unat q div 16"
    "in_cidr [a, b, c, d] ([p, q, r, s], 15) \<longleftrightarrow> a = p \<and> unat b div 2 = unat q div 2"
    "in_cidr [a, b, c, d] ([p, q, r, s], 16) \<longleftrightarrow> a = p \<and> b = q"
    "in_cidr [a, b, c, d] ([p, q, r, s], 24) \<longleftrightarrow> a = p \<and> b = q \<and> c = r"
    "in_cidr [a, b, c, d] ([p, q, r, s], 32) \<longleftrightarrow> a = p \<and> b = q \<and> c = r \<and> d = s"
proof -
  have pair: "x * m + y = x' * m + y' \<longleftrightarrow> x = x' \<and> y = y'" if "y < m" "y' < m" for x x' y y' m :: nat
  proof
    assume e: "x * m + y = x' * m + y'"
    from arg_cong [OF e, of "\<lambda>z. z mod m"] arg_cong [OF e, of "\<lambda>z. z div m"] show "x = x' \<and> y = y'" using that by simp
  qed simp
  note l = u8_less [of b] u8_less [of c] u8_less [of d] u8_less [of q] u8_less [of r] u8_less [of s]
  have dl: "unat x div 64 < 4" "unat x div 16 < 16" "unat x div 2 < 128" for x :: u8
    using u8_less [of x] by (simp_all add: div_less_iff_less_mult)
  have unat_u8: "x = y \<longleftrightarrow> unat x = unat y" for x y :: u8 by (rule word_unat_eq_iff)
  have dv: "2 ^ (32 - 4) = (268435456 :: nat)" "2 ^ (32 - 8) = (16777216 :: nat)" "2 ^ (32 - 10) = (4194304 :: nat)"
    "2 ^ (32 - 12) = (1048576 :: nat)" "2 ^ (32 - 15) = (131072 :: nat)" "2 ^ (32 - 16) = (65536 :: nat)"
    "2 ^ (32 - 24) = (256 :: nat)" "2 ^ (32 - 32) = (1 :: nat)" by simp_all
  show "in_cidr [a, b, c, d] ([p, q, r, s], 4) \<longleftrightarrow> unat a div 16 = unat p div 16"
    "in_cidr [a, b, c, d] ([p, q, r, s], 8) \<longleftrightarrow> a = p"
    "in_cidr [a, b, c, d] ([p, q, r, s], 10) \<longleftrightarrow> a = p \<and> unat b div 64 = unat q div 64"
    "in_cidr [a, b, c, d] ([p, q, r, s], 12) \<longleftrightarrow> a = p \<and> unat b div 16 = unat q div 16"
    "in_cidr [a, b, c, d] ([p, q, r, s], 15) \<longleftrightarrow> a = p \<and> unat b div 2 = unat q div 2"
    "in_cidr [a, b, c, d] ([p, q, r, s], 16) \<longleftrightarrow> a = p \<and> b = q"
    "in_cidr [a, b, c, d] ([p, q, r, s], 24) \<longleftrightarrow> a = p \<and> b = q \<and> c = r"
    "in_cidr [a, b, c, d] ([p, q, r, s], 32) \<longleftrightarrow> a = p \<and> b = q \<and> c = r \<and> d = s"
    using l by (simp_all only: in_cidr_def prod.case dv v4_div pair dl unat_u8 conj_assoc) (simp_all only: v4_value4 pair div_by_1 unat_u8 conj_assoc)
qed


lemma four_octets: "length o4 = 4 \<Longrightarrow> \<exists>a b c d. o4 = [a, b, c, d]"
  by (auto simp: numeral_eq_Suc length_Suc_conv)

lemma is_ipv4_blocked_cidr:
  assumes "length o4 = 4"
  shows "is_ipv4_blocked o4 \<longleftrightarrow> (\<exists>r\<in>set blocked_cidrs. in_cidr o4 r)"
proof -
  obtain a b c d where o: "o4 = [a, b, c, d]" using four_octets [OF assms] by blast
  have "unat b div 2 = 9 \<longleftrightarrow> b = 18 \<or> b = 19" by (simp add: word_unat_eq_iff) linarith
  then show ?thesis
    unfolding is_ipv4_blocked_def is_loopback4_def is_private4_def is_link_local4_def is_shared_address_space_def is_broadcast4_def
      is_unspecified4_def is_documentation_v4_def is_multicast4_def blocked_cidrs_def o
    by (auto simp: in_cidr_unfold mask_tests)
qed

lemma segment0: "segment (x # y # zs) 0 = push_bit 8 (ucast x) OR ucast y"
  by (simp add: segment_def)

lemma segment_Suc: "segment (x # y # zs) (Suc i) = segment zs i"
  by (simp add: segment_def)

lemma segment_bytes: "ucast (drop_bit 8 (push_bit 8 (ucast (x :: u8)) OR ucast (y :: u8) :: u16)) = x"
  "ucast ((push_bit 8 (ucast (x :: u8)) OR ucast (y :: u8) :: u16) AND 0xFF) = y"
proof -
  show "ucast (drop_bit 8 (push_bit 8 (ucast (x :: u8)) OR ucast (y :: u8) :: u16)) = x"
    by (rule bit_word_eqI) (auto simp: bit_simps dest: bit_imp_le_length)
  have M: "w AND 0xFF = take_bit 8 w" for w :: u16 by (simp add: take_bit_eq_mask mask_eq_exp_minus_1)
  show "ucast ((push_bit 8 (ucast (x :: u8)) OR ucast (y :: u8) :: u16) AND 0xFF) = y"
    unfolding M by (rule bit_word_eqI) (auto simp: bit_simps)
qed

lemma zeros: "replicate 10 (0 :: u8) = [0, 0, 0, 0, 0, 0, 0, 0, 0, 0]"
  "replicate 15 (0 :: u8) = [0, 0, 0, 0, 0, 0, 0, 0, 0, 0, 0, 0, 0, 0, 0]"
  "replicate 16 (0 :: u8) = [0, 0, 0, 0, 0, 0, 0, 0, 0, 0, 0, 0, 0, 0, 0, 0]"
  by (simp_all add: numeral_eq_Suc)

lemma mapped_blocked: "length v4 = 4 \<Longrightarrow> is_ipv6_blocked (replicate 10 0 @ [0xFF, 0xFF] @ v4) = is_ipv4_blocked v4"
  by (auto dest!: four_octets simp: is_ipv6_blocked_def is_loopback6_def is_unspecified6_def is_ipv6_link_local_def is_ipv6_unique_local_def
      is_ipv6_discard_def is_6to4_blocked_def is_ipv4_mapped_blocked_def to_ipv4_mapped_def segment_def zeros)

lemma sixtofour_blocked: "length v4 = 4 \<Longrightarrow> length rest = 10 \<Longrightarrow> is_ipv6_blocked ([0x20, 0x02] @ v4 @ rest) = is_ipv4_blocked v4"
proof -
  assume "length v4 = 4" "length rest = 10"
  then obtain a b c d where v4: "v4 = [a, b, c, d]" using four_octets by blast
  have s0: "segment ([0x20, 0x02] @ v4 @ rest) 0 = 0x2002" by (simp add: segment_def)
  have six: "is_6to4_blocked ([0x20, 0x02] @ v4 @ rest) = is_ipv4_blocked v4"
    unfolding is_6to4_blocked_def s0 Let_def by (simp add: v4 segment_def segment_bytes del: drop_bit_or)
  have "\<not> is_ipv4_mapped_blocked ([0x20, 0x02] @ v4 @ rest)"
    by (simp add: is_ipv4_mapped_blocked_def to_ipv4_mapped_def zeros)
  then show ?thesis
    unfolding is_ipv6_blocked_def six is_ipv6_link_local_def is_ipv6_unique_local_def is_ipv6_discard_def s0
    by (simp add: is_loopback6_def is_unspecified6_def zeros)
qed


subsection \<open>Properties\<close>

text \<open>
  The SSRF filter is a table of prefixes: an IPv4 address is blocked exactly when it lies in one
  of the fourteen reserved CIDR ranges, and wrapping the address in an IPv4-mapped or a 6to4 IPv6
  address, with any interface identifier, does not change the verdict.
\<close>
theorem ip_filter_table:
  assumes "length v4 = 4" and "length rest = 10"
  shows "(is_ip_blocked (IpV4 v4) \<longleftrightarrow> (\<exists>r\<in>set blocked_cidrs. in_cidr v4 r)) \<and>
     is_ip_blocked (IpV6 (replicate 10 0 @ [0xFF, 0xFF] @ v4)) = is_ip_blocked (IpV4 v4) \<and>
     is_ip_blocked (IpV6 ([0x20, 0x02] @ v4 @ rest)) = is_ip_blocked (IpV4 v4)"
  using is_ipv4_blocked_cidr [OF assms(1)] mapped_blocked [OF assms(1)] sixtofour_blocked [OF assms] by simp

theorem ip_filter_table_witness:
  "is_ip_blocked (IpV6 ([0x20, 0x02] @ [172, 31, 255, 255] @ replicate 10 9)) \<and> \<not> is_ip_blocked (IpV6 ([0x20, 0x02] @ [172, 32, 0, 1] @ replicate 10 9))"
  using ip_filter_table [of "[172, 31, 255, 255]" "replicate 10 9"] ip_filter_table [of "[172, 32, 0, 1]" "replicate 10 9"]
  by (simp add: blocked_cidrs_def in_cidr_unfold)

text \<open>
  A host name resolves only to addresses the filter lets through: whatever the resolver
  answers, a successful resolution returns a non-empty list of addresses, none of which is blocked;
  an address literal is returned as itself without a lookup.
\<close>
theorem resolve_only_public:
  assumes "resolve_and_validate lookup_ip host = Inr addrs"
  shows "addrs \<noteq> [] \<and> (\<forall>a\<in>set addrs. \<not> is_ip_blocked a) \<and>
     (\<forall>ip. parse_ip host = Some ip \<longrightarrow> addrs = [ip] \<and> ip_wf ip) \<and>
     (parse_ip host = None \<longrightarrow> lookup_ip host = Inr addrs \<and> 0 < length host \<and> length host \<le> 253)"
proof (cases "parse_ip host")
  case None
  then show ?thesis
    using assms by (cases "lookup_ip host") (auto simp: resolve_and_validate_def find_None_iff split: if_splits option.splits)
next
  case (Some ip)
  then show ?thesis using assms parse_ip_wf by (auto simp: resolve_and_validate_def split: if_splits)
qed

lemma read_ipv4_unfold: "read_ipv4_addr s = read_octets 0 (Suc (Suc (Suc (Suc 0)))) s"
  by (simp add: read_ipv4_addr_def numeral_eq_Suc)

lemma sample_parse: "parse_ip ''8.8.8.8'' = Some (IpV4 [8, 8, 8, 8])"
proof -
  have "digit_value 10 (CHR ''8'') = Some 8" "digit_value 10 (CHR ''.'') = None" by (simp_all add: digit_value_def)
  then show ?thesis by (simp add: parse_ip_def read_ipv4_unfold read_separator_def read_number_def)
qed

theorem resolve_only_public_witness:
  "resolve_and_validate (\<lambda>_. Inl ''down'') ''8.8.8.8'' = Inr [IpV4 [8, 8, 8, 8]] \<and> \<not> is_ip_blocked (IpV4 [8, 8, 8, 8])"
proof -
  have "resolve_and_validate (\<lambda>_. Inl ''down'') ''8.8.8.8'' = Inr [IpV4 [8, 8, 8, 8]]"
    by (simp add: resolve_and_validate_def sample_parse is_ipv4_blocked_cidr blocked_cidrs_def in_cidr_unfold)
  from this resolve_only_public [OF this] show ?thesis by simp
qed

lemma split_on_nonempty: "split_on sep s \<noteq> []"
  by (induction s) (auto split: list.splits)

lemma split_on_append: "split_on sep (a @ sep # b) = split_on sep a @ split_on sep b"
proof (induction a)
  case (Cons c a)
  then show ?case using split_on_nonempty [of sep a] by (auto split: list.splits)
qed simp

lemma split_on_single: "sep \<notin> set s \<Longrightarrow> split_on sep s = [s]"
  by (induction s) auto

text \<open>
  The client address cannot be forged: a peer that is no trusted proxy is itself the client
  whatever header it sends, and behind a trusted proxy the address the proxy appended is the client,
  whatever the client put in front of it; the result is never a trusted proxy unless it is the peer.
\<close>
theorem client_ip_not_spoofable:
  "(peer \<notin> set trusted \<longrightarrow> extract_client_ip peer xff trusted = peer) \<and>
   (peer \<in> set trusted \<and> CHR '','' \<notin> set appended \<and> parse_ip (trim appended) = Some ip \<and> ip \<notin> set trusted \<longrightarrow>
      extract_client_ip peer (Some (forged @ '','' @ appended)) trusted = ip) \<and>
   (extract_client_ip peer xff trusted \<in> set trusted \<longrightarrow> extract_client_ip peer xff trusted = peer)"
proof -
  have F: "first_untrusted trusted es = Some a \<Longrightarrow> a \<notin> set trusted" for es a
    by (induction es) (auto split: option.splits if_splits)
  have "extract_client_ip peer (Some (forged @ '','' @ appended)) trusted = ip"
    if "peer \<in> set trusted" "CHR '','' \<notin> set appended" "parse_ip (trim appended) = Some ip" "ip \<notin> set trusted"
    using that by (simp add: extract_client_ip_def split_on_append split_on_single)
  then show ?thesis using F by (auto simp: extract_client_ip_def split: option.splits)
qed

theorem client_ip_not_spoofable_witness:
  "extract_client_ip (IpV4 [127, 0, 0, 1]) (Some (''10.0.0.1, junk'' @ '','' @ ''8.8.8.8'')) [IpV4 [127, 0, 0, 1]] = IpV4 [8, 8, 8, 8]"
  using client_ip_not_spoofable [of "IpV4 [127, 0, 0, 1]" "[IpV4 [127, 0, 0, 1]]" None "''8.8.8.8''" "IpV4 [8, 8, 8, 8]" "''10.0.0.1, junk''"]
  by (simp add: trim_graphic graphic_def sample_parse)

end
