(* ===== verification/Relay_Auth.thy ===== *)
theory Relay_Auth
  imports Rate_Limit Net_Filter Crypto_Prims
begin

text \<open>
  Proof-of-work authentication of the relay (\<open>byo-relay/src/relay_auth.rs\<close>): challenges with their
  single-use store, the proof-of-work check, purpose-scoped cookies, and the set of consumed cookie
  ids.

  SHA-256 is a field of the record of primitives.  The JSON web tokens of the crate \<open>jsonwebtoken\<close>
  are two parameters, encoding and decoding at a time; \<open>jwt_correct\<close> is the documented behaviour of
  its default \<open>Validation\<close>, which accepts a token for 60 seconds after its expiry.  Random values
  (nonces, UUIDs) are arguments.  A handler returns \<open>Inl\<close> a status code or \<open>Inr\<close> its payload.
\<close>

subsection \<open>Hexadecimal\<close>

definition hex_encode :: "bytes \<Rightarrow> string" where
  "hex_encode bs = concat (map (\<lambda>b. [hex_digit (unat b div 16), hex_digit (unat b mod 16)]) bs)"

fun hex_decode :: "string \<Rightarrow> bytes option" where
  "hex_decode [] = Some []"
| "hex_decode [c] = None"
| "hex_decode (c # d # cs) =
     (case (digit_value 16 c, digit_value 16 d, hex_decode cs) of
        (Some h, Some l, Some bs) \<Rightarrow> Some (of_nat (h * 16 + l) # bs)
      | _ \<Rightarrow> None)"

subsection \<open>Cookies and purposes\<close>

definition RELAY_COOKIE_NAME_SFTP :: string where "RELAY_COOKIE_NAME_SFTP = ''relay_auth_sftp''"
definition RELAY_COOKIE_NAME_ENROLL :: string where "RELAY_COOKIE_NAME_ENROLL = ''relay_auth_enroll''"
definition RELAY_COOKIE_NAME_SHARE :: string where "RELAY_COOKIE_NAME_SHARE = ''relay_auth_share''"
definition RELAY_COOKIE_NAME_STATS :: string where "RELAY_COOKIE_NAME_STATS = ''relay_auth_stats''"

definition cookie_name_for_purpose :: "string \<Rightarrow> string" where
  "cookie_name_for_purpose purpose =
     (if strip_prefix ''sftp:'' purpose \<noteq> None then RELAY_COOKIE_NAME_SFTP
      else if strip_prefix ''enroll:'' purpose \<noteq> None then RELAY_COOKIE_NAME_ENROLL
      else if strip_prefix ''share:'' purpose \<noteq> None then RELAY_COOKIE_NAME_SHARE
      else RELAY_COOKIE_NAME_STATS)"

definition is_ascii_alphanumeric :: "char \<Rightarrow> bool" where
  "is_ascii_alphanumeric c =
     (let n = of_char c :: nat in 48 \<le> n \<and> n \<le> 57 \<or> 65 \<le> n \<and> n \<le> 90 \<or> 97 \<le> n \<and> n \<le> 122)"

definition is_lower_hex :: "char \<Rightarrow> bool" where
  "is_lower_hex c = (let n = of_char c :: nat in 48 \<le> n \<and> n \<le> 57 \<or> 97 \<le> n \<and> n \<le> 102)"

definition is_valid_purpose :: "string \<Rightarrow> bool" where
  "is_valid_purpose purpose =
     (case strip_prefix ''sftp:'' purpose of
        Some rest \<Rightarrow> length rest = 32 \<and> list_all is_lower_hex rest
      | None \<Rightarrow>
     (case strip_prefix ''enroll:'' purpose of
        Some rest \<Rightarrow> length rest = 22 \<and> list_all (\<lambda>c. is_ascii_alphanumeric c \<or> c = CHR ''-'' \<or> c = CHR ''_'') rest
      | None \<Rightarrow>
     (case strip_prefix ''share:'' purpose of
        Some rest \<Rightarrow> rest = ''b2'' \<or> rest = ''bundle:init''
      | None \<Rightarrow>
     (case strip_prefix ''admin:'' purpose of
        Some rest \<Rightarrow> rest = ''claim'' \<or> rest = ''redeem''
      | None \<Rightarrow> purpose = ''stats''))))"

definition derive_enrollment_purpose :: "string \<Rightarrow> string" where
  "derive_enrollment_purpose channel_id = ''enroll:'' @ channel_id"

subsection \<open>Proof of work\<close>

definition leading_zeros8 :: "u8 \<Rightarrow> nat" where
  "leading_zeros8 b = length (takeWhile (\<lambda>i. \<not> bit b i) [7, 6, 5, 4, 3, 2, 1, 0])"

fun pow_leading_zero_bits :: "bytes \<Rightarrow> nat" where
  "pow_leading_zero_bits [] = 0"
| "pow_leading_zero_bits (b # bs) = (if b = 0 then 8 + pow_leading_zero_bits bs else leading_zeros8 b)"

definition u64_to_le :: "64 word \<Rightarrow> bytes" where
  "u64_to_le w = map (\<lambda>i. ucast (drop_bit (8 * i) w)) [0..<8]"

definition verify_pow :: "prims \<Rightarrow> string \<Rightarrow> string \<Rightarrow> nat \<Rightarrow> 64 word \<Rightarrow> bool" where
  "verify_pow P nonce_hex purpose difficulty answer =
     (case hex_decode nonce_hex of
        None \<Rightarrow> False
      | Some nonce \<Rightarrow> pow_leading_zero_bits (sha256_raw P (nonce @ as_bytes purpose @ u64_to_le answer)) \<ge> difficulty)"

subsection \<open>Challenges\<close>

definition CHALLENGE_TTL_SECS :: nat where "CHALLENGE_TTL_SECS = 60"

record ChallengeEntry =
  nonce_hex :: string
  ch_purpose :: string
  ch_created_at :: instant
  ch_client_ip :: IpAddr

type_synonym ChallengeStore = "(string, ChallengeEntry) hmap"

definition challenge_ttl :: int where "challenge_ttl = from_secs CHALLENGE_TTL_SECS"

definition ChallengeStore_insert :: "instant \<Rightarrow> string \<Rightarrow> string \<Rightarrow> string \<Rightarrow> IpAddr \<Rightarrow> ChallengeStore \<Rightarrow> ChallengeStore" where
  "ChallengeStore_insert now nonce_id purpose nonce client_ip entries =
     AList.update nonce_id \<lparr>nonce_hex = nonce, ch_purpose = purpose, ch_created_at = now, ch_client_ip = client_ip\<rparr>
       (hm_retain (\<lambda>_ v. duration_since now (ch_created_at v) < challenge_ttl) entries)"

definition ChallengeStore_take :: "instant \<Rightarrow> string \<Rightarrow> ChallengeStore \<Rightarrow> ChallengeEntry option \<times> ChallengeStore" where
  "ChallengeStore_take now nonce_id entries =
     (case map_of entries nonce_id of
        None \<Rightarrow> (None, entries)
      | Some entry \<Rightarrow>
          let entries = AList.delete nonce_id entries in
          if duration_since now (ch_created_at entry) \<ge> challenge_ttl then (None, entries) else (Some entry, entries))"

definition consume_and_verify :: "prims \<Rightarrow> instant \<Rightarrow> string \<Rightarrow> IpAddr \<Rightarrow> string \<Rightarrow> nat \<Rightarrow> 64 word \<Rightarrow> ChallengeStore \<Rightarrow>
    (unit + unit) \<times> ChallengeStore" where
  "consume_and_verify P now nonce_id requester_ip expected_purpose difficulty answer entries =
     (case ChallengeStore_take now nonce_id entries of
        (None, entries) \<Rightarrow> (Inl (), entries)
      | (Some entry, entries) \<Rightarrow>
          if ch_client_ip entry \<noteq> requester_ip then (Inl (), entries)
          else if ch_purpose entry \<noteq> expected_purpose then (Inl (), entries)
          else if \<not> verify_pow P (nonce_hex entry) (ch_purpose entry) difficulty answer then (Inl (), entries)
          else (Inr (), entries))"

subsection \<open>Consumed cookies\<close>

type_synonym JtiConsumedSet = "(string, int) hmap"

definition JtiConsumedSet_try_consume :: "int \<Rightarrow> string \<Rightarrow> int \<Rightarrow> JtiConsumedSet \<Rightarrow> bool \<times> JtiConsumedSet" where
  "JtiConsumedSet_try_consume now jti exp entries =
     (let entries = hm_retain (\<lambda>_ e. e > now) entries in
      if map_of entries jti \<noteq> None then (False, entries) else (True, AList.update jti exp entries))"

record RelayClaims =
  claim_jti :: string
  claim_purpose :: string
  claim_iat :: int
  claim_exp :: int

datatype RelayError = Unauthenticated | TokenExpired

datatype jwt_error = ExpiredSignature | OtherJwtError

record jwt =
  jwt_encode :: "bytes \<Rightarrow> RelayClaims \<Rightarrow> string option"
  jwt_decode :: "bytes \<Rightarrow> int \<Rightarrow> string \<Rightarrow> jwt_error + RelayClaims"

definition jwt_leeway :: int where "jwt_leeway = 60"

definition jwt_correct :: "jwt \<Rightarrow> bool" where
  "jwt_correct J \<longleftrightarrow> (\<forall>key c tok now. jwt_encode J key c = Some tok \<longrightarrow>
     jwt_decode J key now tok = (if claim_exp c < now - jwt_leeway then Inl ExpiredSignature else Inr c))"

definition verify_relay_cookie :: "jwt \<Rightarrow> int \<Rightarrow> (string, string) hmap \<Rightarrow> string \<Rightarrow> bytes \<Rightarrow> RelayError + RelayClaims" where
  "verify_relay_cookie J now cookies cookie_name signing_key =
     and_then (ok_or Unauthenticated (map_of cookies cookie_name)) (\<lambda>value.
     map_err (\<lambda>e. if e = ExpiredSignature then TokenExpired else Unauthenticated) (jwt_decode J signing_key now value))"

subsection \<open>Handlers\<close>

record AuthConfig =
  trusted_proxies :: "IpAddr list"
  pow_difficulty_bits :: nat
  relay_signing_key :: bytes
  relay_cookie_ttl_secs :: nat

record AuthState =
  challenge_store :: ChallengeStore
  auth_challenge_limiter :: SlidingWindowLimiter
  jti_consumed :: JtiConsumedSet

definition get_challenge :: "AuthConfig \<Rightarrow> instant \<Rightarrow> instant \<Rightarrow> IpAddr \<Rightarrow> string option \<Rightarrow> string \<Rightarrow> string \<Rightarrow> bytes \<Rightarrow> AuthState \<Rightarrow>
    (nat + string \<times> string \<times> nat) \<times> AuthState" where
  "get_challenge cfg now now' peer xff purpose_param uuid nonce_bytes st =
     (let client_ip = extract_client_ip peer xff (trusted_proxies cfg) in
      case SlidingWindowLimiter_check_and_record now client_ip (auth_challenge_limiter st) of
        (False, l) \<Rightarrow> (Inl 429, st\<lparr>auth_challenge_limiter := l\<rparr>)
      | (True, l) \<Rightarrow>
          let st = st\<lparr>auth_challenge_limiter := l\<rparr>;
              purpose = trim purpose_param in
          if \<not> is_valid_purpose purpose then (Inl 400, st)
          else
            let nonce = hex_encode nonce_bytes in
            (Inr (uuid, nonce, pow_difficulty_bits cfg),
             st\<lparr>challenge_store := ChallengeStore_insert now' uuid purpose nonce client_ip (challenge_store st)\<rparr>))"

definition STATS_COOKIE_TTL_SECS :: int where "STATS_COOKIE_TTL_SECS = 120"

definition post_relay_auth :: "prims \<Rightarrow> jwt \<Rightarrow> AuthConfig \<Rightarrow> instant \<Rightarrow> int \<Rightarrow> IpAddr \<Rightarrow> string option \<Rightarrow> string \<Rightarrow> 64 word \<Rightarrow> string \<Rightarrow>
    AuthState \<Rightarrow> (nat + string \<times> string \<times> int) \<times> AuthState" where
  "post_relay_auth P J cfg now now_unix peer xff nonce_id answer uuid st =
     (let requester_ip = extract_client_ip peer xff (trusted_proxies cfg) in
      case ChallengeStore_take now nonce_id (challenge_store st) of
        (None, s) \<Rightarrow> (Inl 400, st\<lparr>challenge_store := s\<rparr>)
      | (Some challenge, s) \<Rightarrow>
          let st = st\<lparr>challenge_store := s\<rparr> in
          if ch_client_ip challenge \<noteq> requester_ip then (Inl 403, st)
          else if \<not> verify_pow P (nonce_hex challenge) (ch_purpose challenge) (pow_difficulty_bits cfg) answer then (Inl 403, st)
          else
            let ttl = (if ch_purpose challenge = ''stats'' then STATS_COOKIE_TTL_SECS else int (relay_cookie_ttl_secs cfg));
                claims = \<lparr>claim_jti = uuid, claim_purpose = ch_purpose challenge, claim_iat = now_unix, claim_exp = now_unix + ttl\<rparr> in
            (case jwt_encode J (relay_signing_key cfg) claims of
               Some tok \<Rightarrow> (Inr (cookie_name_for_purpose (claim_purpose claims), tok, ttl), st)
             | None \<Rightarrow> (Inl 500, st)))"

subsection \<open>Challenges are single-use\<close>

declare map_of_eq_Some_iff [simp del] Some_eq_map_of_iff [simp del]

lemma digit_value_hex: "n < 16 \<Longrightarrow> digit_value 16 (hex_digit n) = Some n"
  by (cases "n < 10") (simp_all add: digit_value_def hex_digit_def Let_def)

lemma hex_roundtrip: "hex_decode (hex_encode bs) = Some bs"
proof (induction bs)
  case (Cons b bs)
  have "unat b div 16 < 16" "unat b mod 16 < 16" using u8_less [of b] by auto
  then show ?case using Cons by (simp add: hex_encode_def digit_value_hex)
qed (simp add: hex_encode_def)

datatype challenge_event =
    Issue instant string string string IpAddr
  | Answer instant string

fun challenge_run :: "ChallengeStore \<Rightarrow> challenge_event list \<Rightarrow> (challenge_event \<times> ChallengeEntry option) list" where
  "challenge_run s [] = []"
| "challenge_run s (Issue now nid purpose nonce ip # es) =
     (Issue now nid purpose nonce ip, None) # challenge_run (ChallengeStore_insert now nid purpose nonce ip s) es"
| "challenge_run s (Answer now nid # es) =
     (case ChallengeStore_take now nid s of (r, s') \<Rightarrow> (Answer now nid, r) # challenge_run s' es)"

fun issues :: "string \<Rightarrow> challenge_event \<Rightarrow> bool" where
  "issues i (Issue now nid purpose nonce ip) \<longleftrightarrow> nid = i"
| "issues i (Answer now nid) \<longleftrightarrow> False"

fun answered :: "string \<Rightarrow> challenge_event \<times> ChallengeEntry option \<Rightarrow> bool" where
  "answered i (Answer now nid, Some e) \<longleftrightarrow> nid = i"
| "answered i _ \<longleftrightarrow> False"

lemma insert_get:
  assumes "hm_ok s"
  shows "map_of (ChallengeStore_insert now nid purpose nonce ip s) i =
     (if i = nid then Some \<lparr>nonce_hex = nonce, ch_purpose = purpose, ch_created_at = now, ch_client_ip = ip\<rparr>
      else case map_of s i of Some v \<Rightarrow> if duration_since now (ch_created_at v) < challenge_ttl then Some v else None | None \<Rightarrow> None)"
  using assms by (simp add: ChallengeStore_insert_def hm_get_retain)

lemma insert_ok [simp]: "hm_ok s \<Longrightarrow> hm_ok (ChallengeStore_insert now nid purpose nonce ip s)"
  by (simp add: ChallengeStore_insert_def)

lemma take_ok: "hm_ok s \<Longrightarrow> hm_ok (snd (ChallengeStore_take now nid s))"
  by (simp add: ChallengeStore_take_def Let_def split: option.splits)

lemma take_get: "map_of (snd (ChallengeStore_take now nid s)) i = (if i = nid then None else map_of s i)"
  by (simp add: ChallengeStore_take_def Let_def split: option.splits)

lemma take_Some: "fst (ChallengeStore_take now nid s) = Some e \<longleftrightarrow>
    map_of s nid = Some e \<and> duration_since now (ch_created_at e) < challenge_ttl"
  by (auto simp: ChallengeStore_take_def Let_def split: option.splits)

lemma challenge_run_count:
  "hm_ok s \<Longrightarrow> length (filter (answered i) (challenge_run s es)) \<le>
     length (filter (issues i) es) + (if map_of s i = None then 0 else 1)"
proof (induction s es rule: challenge_run.induct)
  case (2 s now nid purpose nonce ip es)
  show ?case
  proof (cases "nid = i")
    case True
    then show ?thesis using 2 by (simp add: insert_get)
  next
    case False
    then have "map_of s i = None \<Longrightarrow> map_of (ChallengeStore_insert now nid purpose nonce ip s) i = None"
      using 2(2) by (simp add: insert_get)
    then show ?thesis using 2 False by (auto split: if_splits)
  qed
next
  case (3 s now nid es)
  obtain r s' where t: "ChallengeStore_take now nid s = (r, s')" by fastforce
  have s': "map_of s' i = (if i = nid then None else map_of s i)" "hm_ok s'"
    using take_get [of now nid s i] take_ok [OF 3(2), of now nid] t by simp_all
  have r: "r = Some e \<Longrightarrow> map_of s nid \<noteq> None" for e using take_Some [of now nid s e] t by simp
  show ?case using 3(1) [OF t [symmetric] s'(2)] s'(1) r t by (cases r) (auto split: if_splits)
qed simp

definition from_issue :: "challenge_event list \<Rightarrow> string \<Rightarrow> ChallengeEntry \<Rightarrow> bool" where
  "from_issue es nid e \<longleftrightarrow> Issue (ch_created_at e) nid (ch_purpose e) (nonce_hex e) (ch_client_ip e) \<in> set es"

lemma challenge_run_source:
  assumes "hm_ok s" and "(Answer now nid, Some e) \<in> set (challenge_run s es)"
  shows "(map_of s nid = Some e \<or> from_issue es nid e) \<and> duration_since now (ch_created_at e) < challenge_ttl"
  using assms
proof (induction s es rule: challenge_run.induct)
  case (2 s t nid' purpose nonce ip es)
  then have "(map_of (ChallengeStore_insert t nid' purpose nonce ip s) nid = Some e \<or> from_issue es nid e) \<and>
      duration_since now (ch_created_at e) < challenge_ttl" by simp
  then show ?case using 2(2) by (auto simp: insert_get from_issue_def split: if_splits option.splits)
next
  case (3 s t nid' es)
  obtain r s' where t: "ChallengeStore_take t nid' s = (r, s')" by fastforce
  have s': "map_of s' nid = (if nid = nid' then None else map_of s nid)" "hm_ok s'"
    using take_get [of t nid' s nid] take_ok [OF 3(2), of t nid'] t by simp_all
  show ?case
  proof (cases "(Answer now nid, Some e) \<in> set (challenge_run s' es)")
    case True
    then show ?thesis using 3(1) [OF t [symmetric] s'(2)] s'(1) by (auto simp: from_issue_def split: if_splits)
  next
    case False
    then show ?thesis using 3(3) t take_Some [of t nid' s e] by auto
  qed
qed simp


subsection \<open>Consumed cookies\<close>

fun jti_run :: "JtiConsumedSet \<Rightarrow> (int \<times> string \<times> int) list \<Rightarrow> bool list" where
  "jti_run s [] = []"
| "jti_run s ((now, jti, exp) # es) = (case JtiConsumedSet_try_consume now jti exp s of (ok, s') \<Rightarrow> ok # jti_run s' es)"

lemma try_consume_get:
  assumes "hm_ok s"
  shows "fst (JtiConsumedSet_try_consume now jti exp s) \<longleftrightarrow> \<not> (\<exists>e. map_of s jti = Some e \<and> now < e)"
    and "map_of (snd (JtiConsumedSet_try_consume now jti exp s)) i =
      (if i = jti \<and> fst (JtiConsumedSet_try_consume now jti exp s) then Some exp
       else case map_of s i of Some e \<Rightarrow> if now < e then Some e else None | None \<Rightarrow> None)"
    and "hm_ok (snd (JtiConsumedSet_try_consume now jti exp s))"
  using assms by (auto simp: JtiConsumedSet_try_consume_def Let_def hm_get_retain split: option.splits)

lemma jti_run_blocked:
  "hm_ok s \<Longrightarrow> map_of s jti = Some exp \<Longrightarrow> sorted (map fst es) \<Longrightarrow> j < length es \<Longrightarrow> fst (snd (es ! j)) = jti \<Longrightarrow>
     fst (es ! j) < exp \<Longrightarrow> \<not> jti_run s es ! j"
proof (induction es arbitrary: s j)
  case (Cons e es)
  obtain now i x where e: "e = (now, i, x)" by (cases e)
  obtain ok s' where c: "JtiConsumedSet_try_consume now i x s = (ok, s')" by fastforce
  note G = try_consume_get [OF Cons.prems(1), of now i x, unfolded c fst_conv snd_conv]
  show ?case
  proof (cases j)
    case 0
    then show ?thesis using Cons.prems e c G(1) by auto
  next
    case (Suc k)
    have "now \<le> fst (es ! k)" using Cons.prems(3,4) e Suc by auto
    then have "now < exp" using Cons.prems(6) Suc by simp
    then have "map_of s' jti = Some exp" using G(1,2) Cons.prems(2) by (auto split: if_splits)
    then show ?thesis using Cons.IH [of s' k] Cons.prems G(3) e c Suc by simp
  qed
qed simp

lemma jti_run_single:
  "hm_ok s \<Longrightarrow> sorted (map fst es) \<Longrightarrow> i < j \<Longrightarrow> j < length es \<Longrightarrow> fst (snd (es ! i)) = fst (snd (es ! j)) \<Longrightarrow>
     fst (es ! j) < snd (snd (es ! i)) \<Longrightarrow> jti_run s es ! i \<Longrightarrow> \<not> jti_run s es ! j"
proof (induction es arbitrary: s i j)
  case (Cons e es)
  obtain now k x where e: "e = (now, k, x)" by (cases e)
  obtain ok s' where c: "JtiConsumedSet_try_consume now k x s = (ok, s')" by fastforce
  note G = try_consume_get [OF Cons.prems(1), of now k x, unfolded c fst_conv snd_conv]
  obtain j' where j: "j = Suc j'" using Cons.prems(3) by (cases j) auto
  show ?case
  proof (cases i)
    case 0
    then have "map_of s' k = Some x" using Cons.prems(7) G(2) e c by simp
    then show ?thesis using jti_run_blocked [OF G(3), of k x es j'] Cons.prems e c j 0 by simp
  next
    case (Suc i')
    then show ?thesis using Cons.IH [OF G(3), of i' j'] Cons.prems e c j by simp
  qed
qed simp


subsection \<open>Properties\<close>

text \<open>
  Challenges are single-use, fresh and bound to their request: over any history of issued
  challenges and answers, an id is answered successfully at most as often as it was issued, and every
  successful answer returns the purpose, nonce and client address of a challenge issued under
  that id less than 60 seconds earlier.
\<close>
theorem challenge_single_use:
  "length (filter (answered i) (challenge_run [] es)) \<le> length (filter (issues i) es) \<and>
   (\<forall>now nid e. (Answer now nid, Some e) \<in> set (challenge_run [] es) \<longrightarrow>
      from_issue es nid e \<and> duration_since now (ch_created_at e) < from_secs 60)"
  using challenge_run_count [of "[]" i es] challenge_run_source [of "[]" _ _ _ es]
  by (auto simp: challenge_ttl_def CHALLENGE_TTL_SECS_def)

theorem challenge_single_use_witness:
  "from_issue [Issue 0 ''n'' ''stats'' ''00'' (IpV4 [1,2,3,4]), Answer 5 ''n'', Answer 6 ''n''] ''n''
     \<lparr>nonce_hex = ''00'', ch_purpose = ''stats'', ch_created_at = 0, ch_client_ip = IpV4 [1,2,3,4]\<rparr>"
  using challenge_single_use [of "''n''" "[Issue 0 ''n'' ''stats'' ''00'' (IpV4 [1,2,3,4]), Answer 5 ''n'', Answer 6 ''n'']"]
  by (simp add: ChallengeStore_insert_def ChallengeStore_take_def hm_retain_def Let_def duration_since_def challenge_ttl_def
      CHALLENGE_TTL_SECS_def from_secs_def)

text \<open>
  A relay cookie is issued only for a solved challenge: it requires a pending challenge of that
  id requested by the same client address less than 60 seconds ago and an answer whose hash has the
  configured number of leading zero bits; the cookie carries the purpose of the challenge, expires
  after the configured time (120 seconds for statistics), is filed under the cookie name of its
  purpose, and verifies there until it expires.  Whatever the outcome, the challenge is gone.
\<close>
theorem relay_cookie_issued:
  assumes "post_relay_auth P J cfg now now_unix peer xff nonce_id answer uuid st = (r, st')"
  shows "map_of (challenge_store st') nonce_id = None \<and>
     (\<forall>name tok ttl. r = Inr (name, tok, ttl) \<longrightarrow>
        (\<exists>ch. map_of (challenge_store st) nonce_id = Some ch \<and> duration_since now (ch_created_at ch) < from_secs 60 \<and>
           ch_client_ip ch = extract_client_ip peer xff (trusted_proxies cfg) \<and>
           verify_pow P (nonce_hex ch) (ch_purpose ch) (pow_difficulty_bits cfg) answer \<and>
           ttl = (if ch_purpose ch = ''stats'' then 120 else int (relay_cookie_ttl_secs cfg)) \<and>
           name = cookie_name_for_purpose (ch_purpose ch) \<and>
           (jwt_correct J \<longrightarrow> (\<forall>t\<le>now_unix + ttl. verify_relay_cookie J t [(name, tok)] name (relay_signing_key cfg) =
              Inr \<lparr>claim_jti = uuid, claim_purpose = ch_purpose ch, claim_iat = now_unix, claim_exp = now_unix + ttl\<rparr>))))"
proof (cases "ChallengeStore_take now nonce_id (challenge_store st)")
  case (Pair c s)
  have gone: "map_of s nonce_id = None" using take_get [of now nonce_id "challenge_store st" nonce_id] Pair by simp
  show ?thesis
  proof (cases c)
    case None
    then show ?thesis using assms Pair gone by (auto simp: post_relay_auth_def Let_def)
  next
    case (Some ch)
    have ch: "map_of (challenge_store st) nonce_id = Some ch" "duration_since now (ch_created_at ch) < from_secs 60"
      using take_Some [of now nonce_id "challenge_store st" ch] Pair Some by (auto simp: challenge_ttl_def CHALLENGE_TTL_SECS_def)
    show ?thesis
      using assms Pair Some gone ch
      by (auto simp: post_relay_auth_def Let_def STATS_COOKIE_TTL_SECS_def verify_relay_cookie_def ok_or_def jwt_correct_def jwt_leeway_def
          map_err_def split: if_splits option.splits)
  qed
qed

text \<open>A token scheme with one token, which shows that \<open>jwt_correct\<close> can hold.\<close>

definition toy_jwt :: jwt where
  "toy_jwt = \<lparr>jwt_encode = (\<lambda>key c. if c = \<lparr>claim_jti = ''u'', claim_purpose = ''share:b2'', claim_iat = 1000, claim_exp = 1300\<rparr> then Some ''tok'' else None),
     jwt_decode = (\<lambda>key now tok. if tok \<noteq> ''tok'' then Inl OtherJwtError else if 1300 < now - jwt_leeway then Inl ExpiredSignature
       else Inr \<lparr>claim_jti = ''u'', claim_purpose = ''share:b2'', claim_iat = 1000, claim_exp = 1300\<rparr>)\<rparr>"

lemma toy_jwt_correct: "jwt_correct toy_jwt"
  by (auto simp: jwt_correct_def toy_jwt_def split: if_splits)

definition sample_cfg :: AuthConfig where
  "sample_cfg = \<lparr>trusted_proxies = [], pow_difficulty_bits = 0, relay_signing_key = [1], relay_cookie_ttl_secs = 300\<rparr>"

definition sample_auth :: AuthState where
  "sample_auth = \<lparr>challenge_store = [(''n'', \<lparr>nonce_hex = ''00'', ch_purpose = ''share:b2'', ch_created_at = 0, ch_client_ip = IpV4 [1,2,3,4]\<rparr>)],
     auth_challenge_limiter = AuthChallengeLimiter_new 10, jti_consumed = []\<rparr>"

theorem relay_cookie_issued_witness:
  "verify_relay_cookie toy_jwt 1300 [(RELAY_COOKIE_NAME_SHARE, ''tok'')] RELAY_COOKIE_NAME_SHARE [1] =
     Inr \<lparr>claim_jti = ''u'', claim_purpose = ''share:b2'', claim_iat = 1000, claim_exp = 1300\<rparr>"
proof -
  have name: "cookie_name_for_purpose ''share:b2'' = RELAY_COOKIE_NAME_SHARE"
    by (simp add: cookie_name_for_purpose_def strip_prefix_def)
  have pow: "verify_pow toy_prims ''00'' ''share:b2'' 0 7" by (simp add: verify_pow_def digit_value_def)
  have "post_relay_auth toy_prims toy_jwt sample_cfg 5 1000 (IpV4 [1,2,3,4]) None ''n'' 7 ''u'' sample_auth =
      (Inr (RELAY_COOKIE_NAME_SHARE, ''tok'', 300), sample_auth\<lparr>challenge_store := []\<rparr>)"
    by (simp add: post_relay_auth_def ChallengeStore_take_def extract_client_ip_def sample_cfg_def sample_auth_def Let_def pow name
        duration_since_def challenge_ttl_def CHALLENGE_TTL_SECS_def from_secs_def toy_jwt_def)
  from relay_cookie_issued [OF this] toy_jwt_correct show ?thesis by (auto simp: sample_cfg_def sample_auth_def)
qed

text \<open>
  C40. A cookie id is consumed at most once before the cookie expires: over any history of
  consumptions in clock order, after one of them succeeded no later one of the same id succeeds at a
  time before the expiry recorded with it.  From the expiry on the id is forgotten, while a token is
  still accepted for the 60 seconds of leeway, so in that minute the cookie can be used again.
\<close>
theorem cookie_single_use:
  "(\<forall>es i j. sorted (map fst es) \<and> i < j \<and> j < length es \<and> fst (snd (es ! i)) = fst (snd (es ! j)) \<and>
      fst (es ! j) < snd (snd (es ! i)) \<and> jti_run [] es ! i \<longrightarrow> \<not> jti_run [] es ! j) \<and>
   (jwt_correct J \<and> jwt_encode J key c = Some tok \<and> t1 < claim_exp c \<and> claim_exp c \<le> t2 \<and> t2 \<le> claim_exp c + 60 \<longrightarrow>
      verify_relay_cookie J t1 [(name, tok)] name key = Inr c \<and> verify_relay_cookie J t2 [(name, tok)] name key = Inr c \<and>
      jti_run [] [(t1, claim_jti c, claim_exp c), (t2, claim_jti c, claim_exp c)] = [True, True])"
  using jti_run_single [of "[]"]
  by (auto simp: verify_relay_cookie_def ok_or_def map_err_def jwt_correct_def jwt_leeway_def JtiConsumedSet_try_consume_def Let_def hm_retain_def)

theorem cookie_single_use_witness:
  "jti_run [] [(1200, ''u'', 1300), (1310, ''u'', 1300)] = [True, True] \<and> \<not> jti_run [] [(1200, ''u'', 1300), (1299, ''u'', 1300)] ! 1"
proof -
  have "jwt_encode toy_jwt [1] \<lparr>claim_jti = ''u'', claim_purpose = ''share:b2'', claim_iat = 1000, claim_exp = 1300\<rparr> = Some ''tok''"
    by (simp add: toy_jwt_def)
  then have "jti_run [] [(1200, ''u'', 1300), (1310, ''u'', 1300)] = [True, True]"
    using cookie_single_use [where J = toy_jwt and key = "[1]" and tok = "''tok''" and ?t1.0 = 1200 and ?t2.0 = 1310
        and c = "\<lparr>claim_jti = ''u'', claim_purpose = ''share:b2'', claim_iat = 1000, claim_exp = 1300\<rparr>"] toy_jwt_correct by simp
  moreover have "\<not> jti_run [] [(1200, ''u'', 1300), (1299, ''u'', 1300)] ! 1"
  proof -
    have "jti_run [] [(1200, ''u'', 1300), (1299, ''u'', 1300)] ! 0"
      by (simp add: JtiConsumedSet_try_consume_def hm_retain_def)
    then show ?thesis
      using cookie_single_use [THEN conjunct1, rule_format, of "[(1200, ''u'', 1300), (1299, ''u'', 1300)]" 0 1] by simp
  qed
  ultimately show ?thesis by blast
qed

end
