(* ===== verification/Share_Relay.thy ===== *)
theory Share_Relay
  imports Share_Store Relay_Auth
begin

text \<open>
  The share relay (\<open>byo-relay/src/share_relay.rs\<close>): the HTTP handlers for single-file shares, bundles
  and recipients, and the sweeper, over the share store, the rate limiters and the relay cookies.

  A handler takes the configuration, what it reads from outside (\<open>Env\<close>) and the request, and returns
  the response and the new state.  Random values (nonces, tokens, ids) are arguments.  A response body
  streams the file that was opened, with the bandwidth cap that applies to it.
\<close>

subsection \<open>Configuration, state, requests\<close>

definition MAX_EXPIRES_SECS :: nat where "MAX_EXPIRES_SECS = 30 * 24 * 3600"
definition V7_MARKER :: u8 where "V7_MARKER = 7"
definition V7_MIN_SIZE :: nat where "V7_MIN_SIZE = 1709 + 32"
definition SHARE_GET_PER_SHARE_LIMIT :: nat where "SHARE_GET_PER_SHARE_LIMIT = 10"
definition SHARE_GET_PER_IP_LIMIT :: nat where "SHARE_GET_PER_IP_LIMIT = 60"
definition SHARE_LIMITER_MAX_KEYS :: nat where "SHARE_LIMITER_MAX_KEYS = 50000"
definition HEADROOM_RATE_KEY :: string where "HEADROOM_RATE_KEY = ''__headroom__''"

definition REASON_DISK_WATERMARK :: string where "REASON_DISK_WATERMARK = ''disk-watermark''"
definition REASON_RATE_HOUR :: string where "REASON_RATE_HOUR = ''rate-hour''"
definition REASON_RATE_DAY :: string where "REASON_RATE_DAY = ''rate-day''"
definition REASON_IP_STORAGE_FULL :: string where "REASON_IP_STORAGE_FULL = ''ip-storage-full''"
definition REASON_DAILY_BYTES :: string where "REASON_DAILY_BYTES = ''per-ip-daily-budget''"
definition REASON_TOO_LARGE :: string where "REASON_TOO_LARGE = ''too-large''"
definition REASON_BYTES_HOUR :: string where "REASON_BYTES_HOUR = ''bytes-hour''"
definition REASON_CONCURRENT :: string where "REASON_CONCURRENT = ''concurrent''"
definition REASON_FETCH_RATE :: string where "REASON_FETCH_RATE = ''fetch-rate''"

record ShareGetLimiter =
  per_share :: "string SlidingWindowLimiterByKey"
  per_ip :: "IpBucket SlidingWindowLimiterByKey"

definition ShareGetLimiter_default :: ShareGetLimiter where
  "ShareGetLimiter_default =
     \<lparr>per_share = SlidingWindowLimiterByKey_new_with_cap 60 SHARE_GET_PER_SHARE_LIMIT (Some SHARE_LIMITER_MAX_KEYS),
      per_ip = SlidingWindowLimiterByKey_new_with_cap 60 SHARE_GET_PER_IP_LIMIT (Some SHARE_LIMITER_MAX_KEYS)\<rparr>"

definition ShareGetLimiter_check_and_record :: "instant \<Rightarrow> instant \<Rightarrow> string \<Rightarrow> IpAddr \<Rightarrow> ShareGetLimiter \<Rightarrow> bool \<times> ShareGetLimiter" where
  "ShareGetLimiter_check_and_record now now' share_id ip l =
     (case SlidingWindowLimiterByKey_check_and_record now share_id (per_share l) of
        (False, s) \<Rightarrow> (False, l\<lparr>per_share := s\<rparr>)
      | (True, s) \<Rightarrow>
          (case SlidingWindowLimiterByKey_check_and_record now' (IpBucket_from ip) (per_ip l) of
             (ok, i) \<Rightarrow> (ok, l\<lparr>per_share := s, per_ip := i\<rparr>)))"

record ShareConfig = AuthConfig +
  share_signing_key :: bytes
  share_max_blob_bytes :: nat
  disk_watermark_percent :: nat
  share_slow_start_secs :: nat
  share_slow_start_max_bps :: nat

record AppState = AuthState +
  share_store :: ShareStore
  share_create_limiter :: ShareCreationRateLimiter
  share_storage_tracker :: ShareStoragePerIpTracker
  share_byte_budget :: ByteBudgetTracker
  share_get_limiter :: ShareGetLimiter
  share_download_bytes :: ShareBytesPerShareTracker
  share_concurrency :: ShareConcurrencyTracker

text \<open>
  What a handler reads from outside: the Unix clock when it starts and when the body has arrived, the
  monotonic clock, the disk usage, and the outcome of each file operation.  \<open>e_tmp\<close> is what an
  aborted transfer leaves in its temporary file.
\<close>

record Env =
  e_now :: int
  e_end :: int
  e_inst :: instant
  e_inst2 :: instant
  e_disk :: "nat option"
  e_mkdir :: bool
  e_create :: bool
  e_write :: "nat \<Rightarrow> bool"
  e_flush :: bool
  e_rename :: bool
  e_unlink :: bool
  e_rmdir :: "dir option"
  e_open :: bool
  e_stat :: bool
  e_tmp :: bytes

text \<open>A request: peer address, cookies, the headers the handlers read, and the chunks of the body (\<open>None\<close> is a transport error).\<close>

record Request =
  r_peer :: IpAddr
  r_xff :: "string option"
  r_cookies :: "(string, string) hmap"
  x_share_id :: "string option"
  x_expires_in :: "string option"
  x_owner_token :: "string option"
  x_bundle_token :: "string option"
  content_length_header :: "string option"
  r_body :: "bytes option list"

datatype Response =
    Status nat
  | LimitRejection nat string "nat option"
  | ShareCreateResponse string int string
  | CreateBundleResponse string int string string
  | StreamResponse bytes "nat option"
  | ShareMetaResponse string int int nat "(string \<times> int) list"
  | HeadroomResponse nat nat nat nat nat
  | Panicked

subsection \<open>Validation and tokens\<close>

definition uuid_char :: "char \<Rightarrow> bool" where
  "uuid_char c \<longleftrightarrow> is_ascii_alphanumeric c \<or> c = CHR ''-''"

definition is_valid_share_id :: "string \<Rightarrow> bool" where
  "is_valid_share_id s \<longleftrightarrow> length s = 36 \<and> list_all uuid_char s"

definition is_valid_client_blob_id :: "string \<Rightarrow> bool" where
  "is_valid_client_blob_id s \<longleftrightarrow> length s = 36 \<and> list_all uuid_char s \<and> s \<noteq> ''main'' \<and> s \<noteq> ''_manifest''"

definition is_valid_public_blob_id :: "string \<Rightarrow> bool" where
  "is_valid_public_blob_id s \<longleftrightarrow> (if s = ''main'' \<or> s = ''_manifest'' then True else length s = 36 \<and> list_all uuid_char s)"

text \<open>\<open>str::parse\<close> at an unsigned type with maximum \<open>bound\<close>.\<close>

definition parse_uint :: "nat \<Rightarrow> string \<Rightarrow> nat option" where
  "parse_uint bound s =
     (let ds = (if take 1 s = ''+'' then drop 1 s else s) in
      if ds = [] then None
      else (case those (map (digit_value 10) ds) of
              None \<Rightarrow> None
            | Some ns \<Rightarrow> let n = foldl (\<lambda>a d. a * 10 + d) 0 ns in if n > bound then None else Some n))"

definition u32_max :: nat where "u32_max = 4294967295"

definition content_length :: "Request \<Rightarrow> nat option" where
  "content_length req = Option.bind (content_length_header req) (parse_uint u64_max)"

definition compute_owner_token :: "prims \<Rightarrow> bytes \<Rightarrow> string \<Rightarrow> bytes \<Rightarrow> string" where
  "compute_owner_token P signing_key share_id nonce =
     hex_encode (hmac_raw P signing_key (as_bytes share_id @ nonce @ as_bytes '':owner''))"

text \<open>\<open>verify_slice\<close> compares the whole tag.\<close>

definition verify_owner_token :: "prims \<Rightarrow> bytes \<Rightarrow> string \<Rightarrow> bytes \<Rightarrow> string \<Rightarrow> bool" where
  "verify_owner_token P signing_key share_id nonce presented =
     (case hex_decode presented of
        Some bs \<Rightarrow> bs = hmac_raw P signing_key (as_bytes share_id @ nonce @ as_bytes '':owner'')
      | None \<Rightarrow> False)"

subsection \<open>Receiving a body\<close>

datatype StreamError = Transport | InvalidV7 | StreamIo | BudgetExceeded | TooLarge

fun stream_loop :: "(nat \<Rightarrow> bool) \<Rightarrow> nat \<Rightarrow> (nat \<Rightarrow> 'b \<Rightarrow> bool \<times> 'b) \<Rightarrow> bytes option list \<Rightarrow> bytes \<Rightarrow> bool \<Rightarrow> 'b \<Rightarrow>
    (StreamError + bytes) \<times> 'b" where
  "stream_loop write_ok max_bytes budget_check [] written marker_checked b = (Inr written, b)"
| "stream_loop write_ok max_bytes budget_check (None # cs) written marker_checked b = (Inl Transport, b)"
| "stream_loop write_ok max_bytes budget_check (Some chunk # cs) written marker_checked b =
     (if chunk = [] then stream_loop write_ok max_bytes budget_check cs written marker_checked b
      else if \<not> marker_checked \<and> hd chunk \<noteq> V7_MARKER then (Inl InvalidV7, b)
      else if max_bytes > 0 \<and> sat_add64 (length written) (length chunk) > max_bytes then (Inl TooLarge, b)
      else (case budget_check (length chunk) b of
              (False, b) \<Rightarrow> (Inl BudgetExceeded, b)
            | (True, b) \<Rightarrow>
                if \<not> write_ok (length written) then (Inl StreamIo, b)
                else stream_loop write_ok max_bytes budget_check cs (written @ chunk) True b))"

definition stream_body_to_file_capped :: "bool \<Rightarrow> (nat \<Rightarrow> bool) \<Rightarrow> bool \<Rightarrow> bytes option list \<Rightarrow> nat \<Rightarrow> (nat \<Rightarrow> 'b \<Rightarrow> bool \<times> 'b) \<Rightarrow> 'b \<Rightarrow>
    (StreamError + bytes) \<times> 'b" where
  "stream_body_to_file_capped create_ok write_ok flush_ok body max_bytes budget_check b =
     (if \<not> create_ok then (Inl StreamIo, b)
      else (case stream_loop write_ok max_bytes budget_check body [] False b of
              (Inl e, b) \<Rightarrow> (Inl e, b)
            | (Inr written, b) \<Rightarrow> if flush_ok then (Inr written, b) else (Inl StreamIo, b)))"


definition u64_as_i64 :: "nat \<Rightarrow> int" where
  "u64_as_i64 n = (let m = int n mod 2 ^ 64 in if m \<ge> 2 ^ 63 then m - 2 ^ 64 else m)"

definition tmp_file :: "string \<Rightarrow> string" where "tmp_file blob_id = blob_file blob_id @ ''.tmp''"

definition rename_file :: "string \<Rightarrow> string \<Rightarrow> string \<Rightarrow> ShareStore \<Rightarrow> ShareStore" where
  "rename_file share_id a b st =
     (case read_file share_id a st of
        None \<Rightarrow> st
      | Some c \<Rightarrow> remove_file share_id a (write_file share_id b c st))"

definition unlink :: "Env \<Rightarrow> string \<Rightarrow> string \<Rightarrow> ShareStore \<Rightarrow> ShareStore" where
  "unlink env share_id name st = (if e_unlink env then remove_file share_id name st else st)"

definition on_store :: "(ShareStore \<Rightarrow> ShareStore) \<Rightarrow> AppState \<Rightarrow> AppState" where
  "on_store f st = st\<lparr>share_store := f (share_store st)\<rparr>"

definition client_ip_of :: "ShareConfig \<Rightarrow> Request \<Rightarrow> IpAddr" where
  "client_ip_of cfg req = extract_client_ip (r_peer req) (r_xff req) (trusted_proxies cfg)"

definition receive_body :: "ShareConfig \<Rightarrow> Env \<Rightarrow> IpAddr \<Rightarrow> string \<Rightarrow> string \<Rightarrow> Request \<Rightarrow> AppState \<Rightarrow> (StreamError + bytes) \<times> AppState" where
  "receive_body cfg env client_ip share_id tmp req st =
     (let created = e_create env \<and> map_of (dirs (share_store st)) share_id \<noteq> None in
      case stream_body_to_file_capped created (e_write env) (e_flush env) (r_body req) (share_max_blob_bytes cfg)
             (\<lambda>n. ByteBudgetTracker_try_consume client_ip n (e_now env)) (share_byte_budget st) of
        (Inr w, b) \<Rightarrow> (Inr w, on_store (write_file share_id tmp w) (st\<lparr>share_byte_budget := b\<rparr>))
      | (Inl e, b) \<Rightarrow>
          (Inl e, on_store (if created then write_file share_id tmp (e_tmp env) else id) (st\<lparr>share_byte_budget := b\<rparr>)))"

definition rollback :: "Env \<Rightarrow> string \<Rightarrow> string \<Rightarrow> ShareStore \<Rightarrow> ShareStore" where
  "rollback env share_id tmp st = snd (revoke_share (e_rmdir env) share_id (unlink env share_id tmp st))"

subsection \<open>Single-file shares\<close>

definition disk_full :: "ShareConfig \<Rightarrow> Env \<Rightarrow> bool" where
  "disk_full cfg env = (case e_disk env of Some pct \<Rightarrow> pct \<ge> disk_watermark_percent cfg | None \<Rightarrow> False)"

definition authorize :: "jwt \<Rightarrow> ShareConfig \<Rightarrow> Env \<Rightarrow> string \<Rightarrow> Request \<Rightarrow> AppState \<Rightarrow> bool \<times> AppState" where
  "authorize J cfg env purpose req st =
     (case verify_relay_cookie J (e_now env) (r_cookies req) RELAY_COOKIE_NAME_SHARE (relay_signing_key cfg) of
        Inl _ \<Rightarrow> (False, st)
      | Inr claims \<Rightarrow>
          if claim_purpose claims \<noteq> purpose then (False, st)
          else (case JtiConsumedSet_try_consume (e_now env) (claim_jti claims) (claim_exp claims) (jti_consumed st) of
                  (ok, s) \<Rightarrow> (ok, st\<lparr>jti_consumed := s\<rparr>)))"

fun b2_stream_error :: "StreamError \<Rightarrow> Response" where
  "b2_stream_error BudgetExceeded = LimitRejection 507 REASON_DAILY_BYTES (Some 86400)"
| "b2_stream_error TooLarge = LimitRejection 413 REASON_TOO_LARGE None"
| "b2_stream_error Transport = Status 400"
| "b2_stream_error InvalidV7 = Status 400"
| "b2_stream_error StreamIo = Status 500"

definition upload_b2_finish :: "prims \<Rightarrow> ShareConfig \<Rightarrow> Env \<Rightarrow> IpAddr \<Rightarrow> string \<Rightarrow> int \<Rightarrow> bytes \<Rightarrow> Request \<Rightarrow> AppState \<Rightarrow> Response \<times> AppState" where
  "upload_b2_finish P cfg env client_ip share_id expires nonce req st =
     (let tmp = tmp_file ''main'' in
      case receive_body cfg env client_ip share_id tmp req st of
        (Inl e, st) \<Rightarrow> (b2_stream_error e, on_store (rollback env share_id tmp) st)
      | (Inr w, st) \<Rightarrow>
          if length w < V7_MIN_SIZE then (Status 400, on_store (rollback env share_id tmp) st)
          else if \<not> e_rename env then (Status 500, on_store (rollback env share_id tmp) st)
          else
            let st = on_store (rename_file share_id tmp (blob_file ''main'')) st in
            (case record_blob (e_end env) share_id ''main'' (u64_as_i64 (length w)) (share_store st) of
               (Inl _, s) \<Rightarrow> (Status 500, st\<lparr>share_store := snd (revoke_share (e_rmdir env) share_id s)\<rparr>)
             | (Inr _, s) \<Rightarrow>
                 (case mark_sealed share_id s of
                    (Inl _, s) \<Rightarrow> (Status 500, st\<lparr>share_store := snd (revoke_share (e_rmdir env) share_id s)\<rparr>)
                  | (Inr _, s) \<Rightarrow>
                      (ShareCreateResponse share_id expires (compute_owner_token P (share_signing_key cfg) share_id nonce),
                       st\<lparr>share_store := s, share_storage_tracker := storage_register client_ip share_id (length w) (share_storage_tracker st)\<rparr>))))"

definition upload_b2_share :: "prims \<Rightarrow> jwt \<Rightarrow> ShareConfig \<Rightarrow> Env \<Rightarrow> bytes \<Rightarrow> Request \<Rightarrow> AppState \<Rightarrow> Response \<times> AppState" where
  "upload_b2_share P J cfg env nonce req st =
     (let client_ip = client_ip_of cfg req in
      case authorize J cfg env ''share:b2'' req st of
        (False, st) \<Rightarrow> (Status 401, st)
      | (True, st) \<Rightarrow>
     (case x_share_id req of None \<Rightarrow> (Status 400, st) | Some share_id \<Rightarrow>
     (case Option.bind (x_expires_in req) (parse_uint u32_max) of None \<Rightarrow> (Status 400, st) | Some expires_in_secs \<Rightarrow>
      if \<not> is_valid_share_id share_id then (Status 400, st)
      else if disk_full cfg env then (LimitRejection 507 REASON_DISK_WATERMARK (Some 300), st)
      else if (case content_length req of Some len \<Rightarrow> len > share_max_blob_bytes cfg | None \<Rightarrow> False) then
        (LimitRejection 413 REASON_TOO_LARGE None, st)
      else
     (case ShareCreationRateLimiter_check_and_record (e_inst env) (e_inst2 env) client_ip (share_create_limiter st) of
        (HourCapExceeded, l) \<Rightarrow> (LimitRejection 429 REASON_RATE_HOUR (Some 3600), st\<lparr>share_create_limiter := l\<rparr>)
      | (DayCapExceeded, l) \<Rightarrow> (LimitRejection 429 REASON_RATE_DAY (Some 86400), st\<lparr>share_create_limiter := l\<rparr>)
      | (Allow, l) \<Rightarrow>
          let st = st\<lparr>share_create_limiter := l\<rparr> in
          if (case content_length req of Some len \<Rightarrow> \<not> would_accept client_ip len (share_storage_tracker st) | None \<Rightarrow> False) then
            (LimitRejection 507 REASON_IP_STORAGE_FULL None, st)
          else
            let expires = e_now env + int (min expires_in_secs MAX_EXPIRES_SECS) in
            (case create_share (e_mkdir env) (e_now env) share_id KindFile expires nonce (share_store st) of
               (Inl Conflict, s) \<Rightarrow> (Status 409, st\<lparr>share_store := s\<rparr>)
             | (Inl _, s) \<Rightarrow> (Status 500, st\<lparr>share_store := s\<rparr>)
             | (Inr _, s) \<Rightarrow> upload_b2_finish P cfg env client_ip share_id expires nonce req (st\<lparr>share_store := s\<rparr>))))))"

definition conc_try_acquire :: "string \<Rightarrow> ShareConcurrencyTracker \<Rightarrow> bool \<times> ShareConcurrencyTracker" where
  "conc_try_acquire share_id t =
     (case conc_fetch_add share_id t of
        (prev, t) \<Rightarrow> if prev \<ge> max_concurrent t then (False, conc_fetch_sub share_id t) else (True, t))"

definition serve_blob :: "ShareConfig \<Rightarrow> Env \<Rightarrow> string \<Rightarrow> string \<Rightarrow> ShareMeta \<Rightarrow> AppState \<Rightarrow> Response \<times> AppState" where
  "serve_blob cfg env share_id blob_id meta st =
     (if \<not> e_open env then (Status 404, st)
      else (case read_file share_id (blob_file blob_id) (share_store st) of
        None \<Rightarrow> (Status 404, st)
      | Some file \<Rightarrow>
          if \<not> e_stat env then (Status 500, st)
          else (case ShareBytesPerShareTracker_try_consume (e_inst env) share_id (length file) (share_download_bytes st) of
                  None \<Rightarrow> (Panicked, st)
                | Some (False, t) \<Rightarrow> (LimitRejection 429 REASON_BYTES_HOUR (Some 3600), st\<lparr>share_download_bytes := t\<rparr>)
                | Some (True, t) \<Rightarrow>
                    let st = st\<lparr>share_download_bytes := t\<rparr> in
                    (case conc_try_acquire share_id (share_concurrency st) of
                       (False, c) \<Rightarrow> (LimitRejection 429 REASON_CONCURRENT (Some 5), st\<lparr>share_concurrency := c\<rparr>)
                     | (True, c) \<Rightarrow>
                         (StreamResponse file (share_slow_start_bps (created_at meta) (e_now env) (share_slow_start_secs cfg) (share_slow_start_max_bps cfg)),
                          st\<lparr>share_concurrency := c\<rparr>)))))"

definition get_b2_share :: "ShareConfig \<Rightarrow> Env \<Rightarrow> string \<Rightarrow> Request \<Rightarrow> AppState \<Rightarrow> Response \<times> AppState" where
  "get_b2_share cfg env share_id req st =
     (case ShareGetLimiter_check_and_record (e_inst env) (e_inst2 env) share_id (client_ip_of cfg req) (share_get_limiter st) of
        (False, l) \<Rightarrow> (LimitRejection 429 REASON_FETCH_RATE (Some 60), st\<lparr>share_get_limiter := l\<rparr>)
      | (True, l) \<Rightarrow>
          let st = st\<lparr>share_get_limiter := l\<rparr> in
          (case get_meta share_id (share_store st) of
             Inr (Some meta) \<Rightarrow>
               if revoked meta \<or> expires_at meta \<le> e_now env \<or> \<not> sealed meta then (Status 404, st)
               else if kind meta \<noteq> KindFile then (Status 404, st)
               else serve_blob cfg env share_id ''main'' meta st
           | _ \<Rightarrow> (Status 404, st)))"

definition revoke_b2_share :: "prims \<Rightarrow> ShareConfig \<Rightarrow> Env \<Rightarrow> string \<Rightarrow> Request \<Rightarrow> AppState \<Rightarrow> Response \<times> AppState" where
  "revoke_b2_share P cfg env share_id req st =
     (case x_owner_token req of
        None \<Rightarrow> (Status 401, st)
      | Some token \<Rightarrow>
     (case get_meta share_id (share_store st) of
        Inr (Some meta) \<Rightarrow>
          if \<not> verify_owner_token P (share_signing_key cfg) share_id (token_nonce meta) token then (Status 403, st)
          else (case revoke_share (e_rmdir env) share_id (share_store st) of
                  (Inr _, s) \<Rightarrow>
                    (Status 204, st\<lparr>share_store := s, share_storage_tracker := storage_release share_id (share_storage_tracker st)\<rparr>)
                | (Inl NotFound, s) \<Rightarrow> (Status 404, st\<lparr>share_store := s\<rparr>)
                | (Inl _, s) \<Rightarrow> (Status 500, st\<lparr>share_store := s\<rparr>))
      | _ \<Rightarrow> (Status 404, st)))"

subsection \<open>Bundles\<close>

definition init_bundle :: "prims \<Rightarrow> jwt \<Rightarrow> ShareConfig \<Rightarrow> Env \<Rightarrow> string \<Rightarrow> bytes \<Rightarrow> bytes \<Rightarrow> string \<Rightarrow> nat \<Rightarrow> Request \<Rightarrow> AppState \<Rightarrow> Response \<times> AppState" where
  "init_bundle P J cfg env uuid nonce bundle_token_bytes kind_str expires_in_secs req st =
     (let client_ip = client_ip_of cfg req in
      case authorize J cfg env ''share:bundle:init'' req st of
        (False, st) \<Rightarrow> (Status 401, st)
      | (True, st) \<Rightarrow>
     (case (if kind_str = ''folder'' then Some KindFolder else if kind_str = ''collection'' then Some KindCollection else None) of
        None \<Rightarrow> (Status 400, st)
      | Some k \<Rightarrow>
      if disk_full cfg env then (LimitRejection 507 REASON_DISK_WATERMARK (Some 300), st)
      else
     (case ShareCreationRateLimiter_check_and_record (e_inst env) (e_inst2 env) client_ip (share_create_limiter st) of
        (HourCapExceeded, l) \<Rightarrow> (LimitRejection 429 REASON_RATE_HOUR (Some 3600), st\<lparr>share_create_limiter := l\<rparr>)
      | (DayCapExceeded, l) \<Rightarrow> (LimitRejection 429 REASON_RATE_DAY (Some 86400), st\<lparr>share_create_limiter := l\<rparr>)
      | (Allow, l) \<Rightarrow>
          let st = st\<lparr>share_create_limiter := l\<rparr>;
              expires = e_now env + int (min expires_in_secs MAX_EXPIRES_SECS) in
          (case create_share (e_mkdir env) (e_now env) uuid k expires nonce (share_store st) of
             (Inl _, s) \<Rightarrow> (Status 500, st\<lparr>share_store := s\<rparr>)
           | (Inr _, s) \<Rightarrow>
               (case set_bundle_token uuid bundle_token_bytes s of
                  (Inl _, s) \<Rightarrow> (Status 500, st\<lparr>share_store := snd (revoke_share (e_rmdir env) uuid s)\<rparr>)
                | (Inr _, s) \<Rightarrow>
                    (CreateBundleResponse uuid expires (compute_owner_token P (share_signing_key cfg) uuid nonce) (hex_encode bundle_token_bytes),
                     st\<lparr>share_store := s\<rparr>))))))"

text \<open>The token check that \<open>upload_bundle_blob\<close> and \<open>seal_bundle\<close> share; \<open>None\<close> lets the request through.\<close>

definition bundle_gate :: "Env \<Rightarrow> string \<Rightarrow> Request \<Rightarrow> AppState \<Rightarrow> Response option" where
  "bundle_gate env share_id req st =
     (case Option.bind (x_bundle_token req) hex_decode of
        None \<Rightarrow> Some (Status 401)
      | Some presented \<Rightarrow>
          if length presented \<noteq> 32 then Some (Status 401)
          else (case verify_bundle_token share_id presented (e_now env) (share_store st) of
                  Inl _ \<Rightarrow> Some (Status 500)
                | Inr False \<Rightarrow> Some (Status 401)
                | Inr True \<Rightarrow>
                    (case get_meta share_id (share_store st) of
                       Inr (Some meta) \<Rightarrow> if kind meta = KindFile then Some (Status 400) else None
                     | _ \<Rightarrow> Some (Status 404))))"

definition upload_bundle_start :: "ShareConfig \<Rightarrow> Env \<Rightarrow> string \<Rightarrow> string \<Rightarrow> Request \<Rightarrow> AppState \<Rightarrow> Response option" where
  "upload_bundle_start cfg env share_id blob_id req st =
     (if \<not> is_valid_share_id share_id then Some (Status 400)
      else if \<not> is_valid_client_blob_id blob_id then Some (Status 400)
      else (case bundle_gate env share_id req st of
              Some r \<Rightarrow> Some r
            | None \<Rightarrow>
                (case content_length req of
                   None \<Rightarrow> None
                 | Some len \<Rightarrow>
                     if len > share_max_blob_bytes cfg then Some (LimitRejection 413 REASON_TOO_LARGE None)
                     else if \<not> would_accept (client_ip_of cfg req) len (share_storage_tracker st) then
                       Some (LimitRejection 507 REASON_IP_STORAGE_FULL None)
                     else None)))"

definition upload_bundle_finish :: "ShareConfig \<Rightarrow> Env \<Rightarrow> string \<Rightarrow> string \<Rightarrow> Request \<Rightarrow> AppState \<Rightarrow> Response \<times> AppState" where
  "upload_bundle_finish cfg env share_id blob_id req st =
     (let client_ip = client_ip_of cfg req;
          tmp = tmp_file blob_id in
      case receive_body cfg env client_ip share_id tmp req st of
        (Inl BudgetExceeded, st) \<Rightarrow>
          (LimitRejection 507 REASON_DAILY_BYTES (Some 86400), on_store (unlink env share_id tmp) st)
      | (Inl TooLarge, st) \<Rightarrow>
          (LimitRejection 413 REASON_TOO_LARGE None,
           on_store (\<lambda>s. snd (delete_blob (e_unlink env) share_id blob_id (unlink env share_id tmp s))) st)
      | (Inl _, st) \<Rightarrow>
          (Status 400, on_store (\<lambda>s. snd (delete_blob (e_unlink env) share_id blob_id (unlink env share_id tmp s))) st)
      | (Inr w, st) \<Rightarrow>
          if length w < V7_MIN_SIZE then (Status 400, on_store (unlink env share_id tmp) st)
          else if \<not> e_rename env then (Status 500, on_store (unlink env share_id tmp) st)
          else
            let st = on_store (rename_file share_id tmp (blob_file blob_id)) st in
            (case record_blob (e_end env) share_id blob_id (u64_as_i64 (length w)) (share_store st) of
               (Inl _, s) \<Rightarrow> (Status 500, st\<lparr>share_store := snd (delete_blob (e_unlink env) share_id blob_id s)\<rparr>)
             | (Inr _, s) \<Rightarrow>
                 (Status 204, st\<lparr>share_store := s,
                    share_storage_tracker := storage_register client_ip share_id (length w) (share_storage_tracker st)\<rparr>)))"

definition upload_bundle_blob :: "ShareConfig \<Rightarrow> Env \<Rightarrow> string \<Rightarrow> string \<Rightarrow> Request \<Rightarrow> AppState \<Rightarrow> Response \<times> AppState" where
  "upload_bundle_blob cfg env share_id blob_id req st =
     (case upload_bundle_start cfg env share_id blob_id req st of
        Some r \<Rightarrow> (r, st)
      | None \<Rightarrow> upload_bundle_finish cfg env share_id blob_id req st)"

definition seal_bundle :: "ShareConfig \<Rightarrow> Env \<Rightarrow> string \<Rightarrow> Request \<Rightarrow> AppState \<Rightarrow> Response \<times> AppState" where
  "seal_bundle cfg env share_id req st =
     (let client_ip = client_ip_of cfg req;
          tmp = tmp_file ''_manifest'' in
      if \<not> is_valid_share_id share_id then (Status 400, st)
      else
     (case bundle_gate env share_id req st of
        Some r \<Rightarrow> (r, st)
      | None \<Rightarrow>
     (case receive_body cfg env client_ip share_id tmp req st of
        (Inl BudgetExceeded, st) \<Rightarrow>
          (LimitRejection 507 REASON_DAILY_BYTES (Some 86400), on_store (unlink env share_id tmp) st)
      | (Inl TooLarge, st) \<Rightarrow> (LimitRejection 413 REASON_TOO_LARGE None, on_store (unlink env share_id tmp) st)
      | (Inl _, st) \<Rightarrow> (Status 400, on_store (unlink env share_id tmp) st)
      | (Inr w, st) \<Rightarrow>
          if length w < V7_MIN_SIZE then (Status 400, on_store (unlink env share_id tmp) st)
          else if \<not> e_rename env then (Status 500, on_store (unlink env share_id tmp) st)
          else
            let st = on_store (rename_file share_id tmp (blob_file ''_manifest'')) st in
            (case record_blob (e_end env) share_id ''_manifest'' (u64_as_i64 (length w)) (share_store st) of
               (Inl _, s) \<Rightarrow> (Status 500, st\<lparr>share_store := snd (delete_blob (e_unlink env) share_id ''_manifest'' s)\<rparr>)
             | (Inr _, s) \<Rightarrow>
                 (case mark_sealed share_id s of
                    (Inl _, s) \<Rightarrow> (Status 500, st\<lparr>share_store := snd (delete_blob (e_unlink env) share_id ''_manifest'' s)\<rparr>)
                  | (Inr _, s) \<Rightarrow>
                      (Status 204, st\<lparr>share_store := s,
                         share_storage_tracker := storage_register client_ip share_id (length w) (share_storage_tracker st)\<rparr>))))))"

subsection \<open>Recipient endpoints, headroom, sweeper\<close>

definition get_share_meta :: "((string \<times> int) list \<Rightarrow> (string \<times> int) list) \<Rightarrow> ShareConfig \<Rightarrow> Env \<Rightarrow> string \<Rightarrow> Request \<Rightarrow> AppState \<Rightarrow> Response \<times> AppState" where
  "get_share_meta order_by_id cfg env share_id req st =
     (case ShareGetLimiter_check_and_record (e_inst env) (e_inst2 env) share_id (client_ip_of cfg req) (share_get_limiter st) of
        (False, l) \<Rightarrow> (Status 429, st\<lparr>share_get_limiter := l\<rparr>)
      | (True, l) \<Rightarrow>
          let st = st\<lparr>share_get_limiter := l\<rparr> in
          (case get_meta share_id (share_store st) of
             Inr (Some meta) \<Rightarrow>
               if revoked meta \<or> expires_at meta \<le> e_now env \<or> \<not> sealed meta then (Status 404, st)
               else (case list_blobs order_by_id share_id (share_store st) of
                       Inl _ \<Rightarrow> (Status 500, st)
                     | Inr bs \<Rightarrow>
                         (ShareMetaResponse (ShareKind_as_str (kind meta)) (expires_at meta) (total_bytes meta) (length bs) bs, st))
           | _ \<Rightarrow> (Status 404, st)))"

definition get_share_blob :: "ShareConfig \<Rightarrow> Env \<Rightarrow> string \<Rightarrow> string \<Rightarrow> Request \<Rightarrow> AppState \<Rightarrow> Response \<times> AppState" where
  "get_share_blob cfg env share_id blob_id req st =
     (if \<not> is_valid_share_id share_id \<or> \<not> is_valid_public_blob_id blob_id then (Status 400, st)
      else
     (case ShareGetLimiter_check_and_record (e_inst env) (e_inst2 env) share_id (client_ip_of cfg req) (share_get_limiter st) of
        (False, l) \<Rightarrow> (LimitRejection 429 REASON_FETCH_RATE (Some 60), st\<lparr>share_get_limiter := l\<rparr>)
      | (True, l) \<Rightarrow>
          let st = st\<lparr>share_get_limiter := l\<rparr> in
          (case get_meta share_id (share_store st) of
             Inr (Some meta) \<Rightarrow>
               if revoked meta \<or> expires_at meta \<le> e_now env \<or> \<not> sealed meta then (Status 404, st)
               else serve_blob cfg env share_id blob_id meta st
           | _ \<Rightarrow> (Status 404, st))))"

text \<open>\<open>statvfs\<close> as the block counts \<open>f_bavail\<close>, \<open>f_blocks\<close>, \<open>f_frsize\<close>, or \<open>None\<close> when the call fails.\<close>

definition filesystem_headroom :: "(nat \<times> nat \<times> nat) option \<Rightarrow> (nat \<times> nat) option" where
  "filesystem_headroom statvfs =
     (case statvfs of
        None \<Rightarrow> None
      | Some (f_bavail, f_blocks, f_frsize) \<Rightarrow> Some (sat_mul64 f_bavail f_frsize, sat_mul64 f_blocks f_frsize))"

definition get_share_headroom :: "(nat \<times> nat \<times> nat) option \<Rightarrow> ShareConfig \<Rightarrow> Env \<Rightarrow> Request \<Rightarrow> AppState \<Rightarrow> Response \<times> AppState" where
  "get_share_headroom statvfs cfg env req st =
     (let client_ip = client_ip_of cfg req in
      case ShareGetLimiter_check_and_record (e_inst env) (e_inst2 env) HEADROOM_RATE_KEY client_ip (share_get_limiter st) of
        (False, l) \<Rightarrow> (Status 429, st\<lparr>share_get_limiter := l\<rparr>)
      | (True, l) \<Rightarrow>
          let st = st\<lparr>share_get_limiter := l\<rparr>;
              (free_bytes, all_bytes) = (case filesystem_headroom statvfs of Some fa \<Rightarrow> fa | None \<Rightarrow> (0, 0));
              used = (case total_live_bytes (e_now env) (share_store st) of Inr n \<Rightarrow> n | Inl _ \<Rightarrow> 0) in
          (HeadroomResponse free_bytes all_bytes (nat (max used 0))
             (ByteBudgetTracker_remaining client_ip (e_now env) (share_byte_budget st)) (limit_per_day (share_byte_budget st)), st))"

definition sweeper_tick :: "(string \<Rightarrow> dir option) \<Rightarrow> int \<Rightarrow> AppState \<Rightarrow> AppState" where
  "sweeper_tick left now st =
     (case purge_expired_and_revoked left now (share_store st) of
        ((ids, _), s) \<Rightarrow>
          st\<lparr>share_store := s, share_storage_tracker := foldl (\<lambda>t i. storage_release i t) (share_storage_tracker st) ids\<rparr>)"

subsection \<open>The handlers as sequences of store operations\<close>

fun op_share :: "StoreOp \<Rightarrow> string option" where
  "op_share (OpCreate _ _ s _ _ _) = Some s"
| "op_share (OpSeal s) = Some s"
| "op_share (OpToken s _) = Some s"
| "op_share (OpRecord _ s _ _) = Some s"
| "op_share (OpRevoke _ s) = Some s"
| "op_share (OpDelete _ s _) = Some s"
| "op_share (OpWrite s _ _) = Some s"
| "op_share (OpUnlink s _) = Some s"
| "op_share (OpPurge _ _) = None"

definition via :: "string \<Rightarrow> ShareStore \<Rightarrow> ShareStore \<Rightarrow> bool" where
  "via s st st' \<longleftrightarrow> (\<exists>ops. (\<forall>op\<in>set ops. op_share op = Some s) \<and> st' = foldl store_apply st ops)"

named_theorems via_intros \<open>store operations on one share\<close>

lemma via_refl [via_intros, simp]: "via s st st"
  unfolding via_def by (rule exI [of _ "[]"]) simp

lemma via_trans: "via s a b \<Longrightarrow> via s b c \<Longrightarrow> via s a c"
  unfolding via_def by (metis Un_iff foldl_append set_append)

lemma via_op: "via s st a \<Longrightarrow> op_share op = Some s \<Longrightarrow> via s st (store_apply a op)"
  by (erule via_trans) (auto simp: via_def intro!: exI [of _ "[op]"])

lemma via_steps [via_intros]:
  "via s st a \<Longrightarrow> via s st (snd (create_share ok now s k e n a))"
  "via s st a \<Longrightarrow> via s st (snd (mark_sealed s a))"
  "via s st a \<Longrightarrow> via s st (snd (set_bundle_token s tok a))"
  "via s st a \<Longrightarrow> via s st (snd (record_blob now s b m a))"
  "via s st a \<Longrightarrow> via s st (snd (revoke_share l s a))"
  "via s st a \<Longrightarrow> via s st (snd (delete_blob ok s b a))"
  "via s st a \<Longrightarrow> via s st (write_file s f c a)"
  "via s st a \<Longrightarrow> via s st (remove_file s f a)"
  using via_op [of s st a "OpCreate ok now s k e n"] via_op [of s st a "OpSeal s"] via_op [of s st a "OpToken s tok"]
    via_op [of s st a "OpRecord now s b m"] via_op [of s st a "OpRevoke l s"] via_op [of s st a "OpDelete ok s b"]
    via_op [of s st a "OpWrite s f c"] via_op [of s st a "OpUnlink s f"] by simp_all

lemma via_files [via_intros]:
  "via s st a \<Longrightarrow> via s st (unlink env s f a)"
  "via s st a \<Longrightarrow> via s st (rename_file s f g a)"
  "via s st a \<Longrightarrow> via s st (rollback env s f a)"
  by (auto simp: unlink_def rename_file_def rollback_def intro!: via_steps split: option.splits)

lemma via_eqs:
  "create_share ok now s k e n a = (r, a') \<Longrightarrow> via s st a \<Longrightarrow> via s st a'"
  "mark_sealed s a = (r, a') \<Longrightarrow> via s st a \<Longrightarrow> via s st a'"
  "set_bundle_token s tok a = (r, a') \<Longrightarrow> via s st a \<Longrightarrow> via s st a'"
  "record_blob now s b m a = (r, a') \<Longrightarrow> via s st a \<Longrightarrow> via s st a'"
  "revoke_share l s a = (r, a') \<Longrightarrow> via s st a \<Longrightarrow> via s st a'"
  using via_steps(1-5) [of s st a] by (metis snd_conv)+

lemma store_apply_other:
  assumes "op_share op = Some s" and "t \<noteq> s"
  shows "map_of (shares (store_apply st op)) t = map_of (shares st) t"
    and "map_of (blobs (store_apply st op)) (t, b) = map_of (blobs st) (t, b)"
    and "read_file t n (store_apply st op) = read_file t n st"
  using assms
  by (cases op; simp add: create.other_rows seal.other_rows token.other_rows rec.other_rows rev.other_rows del.other_rows wr.other_rows
      rm.other_rows create.other_blobs seal.other_blobs token.other_blobs rec.other_blobs rev.other_blobs del.other_blobs wr.other_blobs
      rm.other_blobs create.other_files seal.other_files token.other_files rec.other_files rev.other_files del.other_files wr.other_files
      rm.other_files)+

lemma via_inv: "via s st st' \<Longrightarrow> store_inv st \<Longrightarrow> store_inv st'"
  by (auto simp: via_def store_run_inv)

lemma via_other:
  assumes "via s st st'" and "t \<noteq> s"
  shows "map_of (shares st') t = map_of (shares st) t" and "map_of (blobs st') (t, b) = map_of (blobs st) (t, b)"
    and "read_file t n st' = read_file t n st"
proof -
  obtain ops where ops: "\<forall>op\<in>set ops. op_share op = Some s" and st': "st' = foldl store_apply st ops" using assms(1) by (auto simp: via_def)
  have "map_of (shares st') t = map_of (shares st) t \<and> map_of (blobs st') (t, b) = map_of (blobs st) (t, b) \<and> read_file t n st' = read_file t n st"
    using ops unfolding st' by (induction ops arbitrary: st) (simp_all add: store_apply_other assms(2))
  then show "map_of (shares st') t = map_of (shares st) t" "map_of (blobs st') (t, b) = map_of (blobs st) (t, b)"
    "read_file t n st' = read_file t n st" by auto
qed

lemma via_content: "via s st st' \<Longrightarrow> t \<noteq> s \<Longrightarrow> content st' t b = content st t b \<and> phase st' t = phase st t"
  by (simp add: content_def phase_def via_other)

lemma receive_body_via:
  assumes "receive_body cfg env ip s tmp req st = (r, st')"
  shows "via s (share_store st) (share_store st') \<and> jti_consumed st' = jti_consumed st \<and>
    share_storage_tracker st' = share_storage_tracker st \<and> share_get_limiter st' = share_get_limiter st"
  using assms by (auto simp: receive_body_def Let_def on_store_def intro!: via_intros split: prod.splits sum.splits if_splits)

lemma on_store_simps [simp]:
  "share_store (on_store f st) = f (share_store st)" "share_storage_tracker (on_store f st) = share_storage_tracker st"
  "share_byte_budget (on_store f st) = share_byte_budget st" "share_get_limiter (on_store f st) = share_get_limiter st"
  by (simp_all add: on_store_def)

lemma upload_b2_finish_via:
  assumes "upload_b2_finish P cfg env ip s e n req st = (r, st')"
  shows "via s (share_store st) (share_store st')"
proof (cases "receive_body cfg env ip s (tmp_file ''main'') req st")
  case (Pair x st1)
  note v = receive_body_via [OF Pair, THEN conjunct1]
  show ?thesis
    using assms v by (auto simp: upload_b2_finish_def Pair Let_def intro!: via_intros elim!: via_eqs
        split: sum.splits prod.splits if_splits)
qed

lemma upload_bundle_finish_via:
  assumes "upload_bundle_finish cfg env s b req st = (r, st')"
  shows "via s (share_store st) (share_store st')"
proof (cases "receive_body cfg env (client_ip_of cfg req) s (tmp_file b) req st")
  case (Pair x st1)
  note v = receive_body_via [OF Pair, THEN conjunct1]
  show ?thesis
    using assms v by (auto simp: upload_bundle_finish_def Pair Let_def intro!: via_intros elim!: via_eqs
        split: sum.splits prod.splits if_splits StreamError.splits)
qed

lemma seal_bundle_via:
  assumes "seal_bundle cfg env s req st = (r, st')"
  shows "via s (share_store st) (share_store st')"
proof (cases "receive_body cfg env (client_ip_of cfg req) s (tmp_file ''_manifest'') req st")
  case (Pair x st1)
  note v = receive_body_via [OF Pair, THEN conjunct1]
  show ?thesis
    using assms v by (auto simp: seal_bundle_def Pair Let_def intro!: via_intros elim!: via_eqs
        split: sum.splits prod.splits if_splits StreamError.splits option.splits)
qed

lemma serve_blob_store:
  "serve_blob cfg env s b m st = (r, st') \<Longrightarrow> share_store st' = share_store st \<and> share_storage_tracker st' = share_storage_tracker st"
  by (auto simp: serve_blob_def Let_def split: if_splits option.splits prod.splits bool.splits)

lemma get_store:
  "get_b2_share cfg env s req st = (r, st') \<Longrightarrow> share_store st' = share_store st \<and> share_storage_tracker st' = share_storage_tracker st"
  "get_share_blob cfg env s b req st = (r, st') \<Longrightarrow> share_store st' = share_store st \<and> share_storage_tracker st' = share_storage_tracker st"
  "get_share_meta ord cfg env s req st = (r, st') \<Longrightarrow> share_store st' = share_store st \<and> share_storage_tracker st' = share_storage_tracker st"
  "get_share_headroom vfs cfg env req st = (r, st') \<Longrightarrow> share_store st' = share_store st \<and> share_storage_tracker st' = share_storage_tracker st"
  by (auto simp: get_b2_share_def get_share_blob_def get_share_meta_def get_share_headroom_def Let_def
      dest!: serve_blob_store split: prod.splits bool.splits sum.splits option.splits if_splits)

lemma authorize_frame:
  "authorize J cfg env p req st = (ok, st') \<Longrightarrow> share_store st' = share_store st \<and> share_storage_tracker st' = share_storage_tracker st"
  by (auto simp: authorize_def split: sum.splits if_splits prod.splits)

lemma upload_b2_share_via:
  assumes "upload_b2_share P J cfg env nonce req st = (r, st')" and "x_share_id req = Some s"
  shows "via s (share_store st) (share_store st')"
proof (cases "authorize J cfg env ''share:b2'' req st")
  case (Pair ok st1)
  note A = authorize_frame [OF Pair]
  show ?thesis
    using assms A
    by (auto simp: upload_b2_share_def Pair Let_def intro!: via_intros dest!: upload_b2_finish_via elim!: via_eqs via_trans [rotated]
        split: option.splits if_splits prod.splits ShareCreationDecision.splits sum.splits StoreError.splits bool.splits)
qed

lemma upload_b2_share_no_id:
  assumes "upload_b2_share P J cfg env nonce req st = (r, st')" and "x_share_id req = None"
  shows "share_store st' = share_store st \<and> share_storage_tracker st' = share_storage_tracker st"
  using assms by (auto simp: upload_b2_share_def Let_def dest!: authorize_frame split: prod.splits bool.splits)

lemma init_bundle_via:
  assumes "init_bundle P J cfg env s nonce tok k secs req st = (r, st')"
  shows "via s (share_store st) (share_store st') \<and> share_storage_tracker st' = share_storage_tracker st"
proof (cases "authorize J cfg env ''share:bundle:init'' req st")
  case (Pair ok st1)
  note A = authorize_frame [OF Pair]
  show ?thesis
    using assms A
    by (auto simp: init_bundle_def Pair Let_def intro!: via_intros elim!: via_eqs
        split: option.splits if_splits prod.splits ShareCreationDecision.splits sum.splits bool.splits)
qed

lemma revoke_b2_share_via:
  "revoke_b2_share P cfg env s req st = (r, st') \<Longrightarrow> via s (share_store st) (share_store st')"
  by (auto simp: revoke_b2_share_def intro!: via_intros elim!: via_eqs split: option.splits sum.splits if_splits prod.splits StoreError.splits)

subsection \<open>Successful uploads\<close>

lemma stream_loop_Inr:
  assumes "stream_loop wo mx bc cs written mk b = (Inr w, b')"
  shows "None \<notin> set cs \<and> w = written @ concat (map the cs) \<and>
     (0 < mx \<and> mx < u64_max \<and> length written \<le> mx \<longrightarrow> length w \<le> mx) \<and>
     (\<not> mk \<and> written = [] \<and> w \<noteq> [] \<longrightarrow> hd w = V7_MARKER)"
  using assms
proof (induction wo mx bc cs written mk b rule: stream_loop.induct)
  case (3 wo mx bc chunk cs written mk b)
  show ?case
  proof (cases "chunk = []")
    case False
    then obtain b1 where step: "bc (length chunk) b = (True, b1)" "wo (length written)" "mk \<or> hd chunk = V7_MARKER"
        "\<not> (mx > 0 \<and> sat_add64 (length written) (length chunk) > mx)"
        "stream_loop wo mx bc cs (written @ chunk) True b1 = (Inr w, b')"
      using 3(3) by (auto split: if_splits prod.splits bool.splits)
    have "None \<notin> set cs \<and> w = (written @ chunk) @ concat (map the cs) \<and>
        (0 < mx \<and> mx < u64_max \<and> length (written @ chunk) \<le> mx \<longrightarrow> length w \<le> mx)"
      using 3(2) [OF False _ _ step(1) [symmetric] _ _ step(5)] step by auto
    moreover have "0 < mx \<and> mx < u64_max \<longrightarrow> length (written @ chunk) \<le> mx" using step(4) by (auto simp: sat_add64_def)
    ultimately show ?thesis using step(3) False by (auto simp: hd_append)
  qed (use 3 in auto)
qed auto

lemma stream_body_Inr:
  assumes "stream_body_to_file_capped co wo fo cs mx bc b = (Inr w, b')"
  shows "co \<and> None \<notin> set cs \<and> w = concat (map the cs) \<and> (0 < mx \<and> mx < u64_max \<longrightarrow> length w \<le> mx) \<and> (w \<noteq> [] \<longrightarrow> hd w = V7_MARKER)"
  using assms stream_loop_Inr [of wo mx bc cs "[]" False b]
  by (auto simp: stream_body_to_file_capped_def split: if_splits prod.splits sum.splits)

text \<open>A body the relay accepts as a blob: complete, marked as V7, long enough and within the size limit.\<close>

definition accepted_body :: "ShareConfig \<Rightarrow> Request \<Rightarrow> bytes \<Rightarrow> bool" where
  "accepted_body cfg req w \<longleftrightarrow> None \<notin> set (r_body req) \<and> w = concat (map the (r_body req)) \<and> V7_MIN_SIZE \<le> length w \<and>
     hd w = V7_MARKER \<and> (0 < share_max_blob_bytes cfg \<and> share_max_blob_bytes cfg < u64_max \<longrightarrow> length w \<le> share_max_blob_bytes cfg)"

lemma receive_body_Inr:
  assumes "receive_body cfg env ip s tmp req st = (Inr w, st')" and "V7_MIN_SIZE \<le> length w"
  shows "accepted_body cfg req w \<and> share_store st' = write_file s tmp w (share_store st)"
proof -
  obtain b' where B: "stream_body_to_file_capped (e_create env \<and> map_of (dirs (share_store st)) s \<noteq> None) (e_write env) (e_flush env) (r_body req)
      (share_max_blob_bytes cfg) (\<lambda>n. ByteBudgetTracker_try_consume ip n (e_now env)) (share_byte_budget st) = (Inr w, b')"
    and S: "share_store st' = write_file s tmp w (share_store st)"
    using assms(1) unfolding receive_body_def Let_def by (auto split: prod.splits sum.splits)
  have "w \<noteq> []" using assms(2) by (auto simp: V7_MIN_SIZE_def)
  then show ?thesis using stream_body_Inr [OF B] S assms(2) unfolding accepted_body_def by blast
qed

lemma tmp_ne_blob [simp]: "tmp_file a \<noteq> blob_file b" "blob_file b \<noteq> tmp_file a"
proof -
  have "last (tmp_file a) \<noteq> last (blob_file b)" by (simp add: tmp_file_def blob_file_def)
  then show "tmp_file a \<noteq> blob_file b" "blob_file b \<noteq> tmp_file a" by metis+
qed

lemma read_rename:
  assumes "read_file s a st = Some c"
  shows "read_file s' n (rename_file s a b st) =
    (if s' = s \<and> n = a then None else if s' = s \<and> n = b then Some c else read_file s' n st)"
  using assms by (auto simp: rename_file_def)

lemma rename_tables [simp]:
  "shares (rename_file s a b st) = shares st" "blobs (rename_file s a b st) = blobs st"
  by (auto simp: rename_file_def remove_file_def write_file_def split: option.splits)

lemma write_tables [simp]: "shares (write_file s a c st) = shares st" "blobs (write_file s a c st) = blobs st"
  by (simp_all add: write_file_def)

lemma record_blob_Inr:
  assumes "record_blob now s b n st = (Inr u, st')"
  shows "\<exists>row. map_of (shares st) s = Some row \<and>
     map_of (shares st') s = Some (row\<lparr>total_bytes := blob_sum s (AList.update (s, b) (n, now) (blobs st))\<rparr>) \<and>
     blobs st' = AList.update (s, b) (n, now) (blobs st) \<and> dirs st' = dirs st \<and>
     blob_sum s (AList.update (s, b) (n, now) (blobs st)) \<le> i64_max"
  using assms by (auto simp: record_blob_def update_total_def Let_def split: if_splits option.splits sum.splits)

lemma mark_sealed_Inr:
  assumes "mark_sealed s st = (Inr u, st')"
  shows "\<exists>row. map_of (shares st) s = Some row \<and> map_of (shares st') s = Some (row\<lparr>sealed := True, bundle_token := None\<rparr>) \<and>
     blobs st' = blobs st \<and> dirs st' = dirs st"
  using assms by (auto simp: mark_sealed_def split: option.splits)

lemma create_share_Inr:
  assumes "create_share ok now s k e n st = (Inr u, st')"
  shows "map_of (shares st) s = None \<and> map_of (shares st') s = Some \<lparr>kind = k, created_at = now, expires_at = e, revoked = False,
     sealed = False, token_nonce = n, total_bytes = 0, bundle_token = None\<rparr> \<and> blobs st' = blobs st"
  using assms by (auto simp: create_share_def Let_def split: if_splits)

lemma read_file_dirs: "dirs a = dirs b \<Longrightarrow> read_file s n a = read_file s n b"
  by (simp add: read_file_def)

lemma b2_stream_error_not_created: "b2_stream_error e \<noteq> ShareCreateResponse s x t"
  by (cases e) simp_all

lemma upload_b2_finish_steps:
  assumes "upload_b2_finish P cfg env ip s e n req st = (ShareCreateResponse s' e' tok, st')"
  obtains w st1 s2 s3 where "receive_body cfg env ip s (tmp_file ''main'') req st = (Inr w, st1)" and "V7_MIN_SIZE \<le> length w"
    and "record_blob (e_end env) s ''main'' (u64_as_i64 (length w)) (rename_file s (tmp_file ''main'') (blob_file ''main'') (share_store st1)) = (Inr (), s2)"
    and "mark_sealed s s2 = (Inr (), s3)" and "s' = s" and "e' = e" and "tok = compute_owner_token P (share_signing_key cfg) s n"
    and "share_store st' = s3" and "share_storage_tracker st' = storage_register ip s (length w) (share_storage_tracker st1)"
proof (cases "receive_body cfg env ip s (tmp_file ''main'') req st")
  case (Pair x st1)
  show ?thesis
  proof (cases x)
    case (Inl er)
    then show ?thesis using assms Pair by (simp add: upload_b2_finish_def b2_stream_error_not_created)
  next
    case (Inr w)
    then show ?thesis
      using assms Pair that [of w st1]
      by (auto simp: upload_b2_finish_def Let_def split: if_splits prod.splits sum.splits)
  qed
qed

lemma upload_b2_finish_created:
  assumes "upload_b2_finish P cfg env ip s e n req st = (ShareCreateResponse s' e' tok, st')"
    and row: "map_of (shares (share_store st)) s = Some row" and live: "\<not> revoked row"
  shows "s' = s \<and> e' = e \<and> tok = compute_owner_token P (share_signing_key cfg) s n \<and>
    (\<exists>w. accepted_body cfg req w \<and> content (share_store st') s ''main'' = Some w \<and>
       (\<exists>n. map_of (shares (share_store st')) s = Some (row\<lparr>total_bytes := n, sealed := True, bundle_token := None\<rparr>)) \<and>
       share_storage_tracker st' = storage_register ip s (length w) (share_storage_tracker st))"
proof -
  let ?tmp = "tmp_file ''main''"
  from upload_b2_finish_steps [OF assms(1)]
  obtain w st1 s2 s3 where R: "receive_body cfg env ip s ?tmp req st = (Inr w, st1)" and big: "V7_MIN_SIZE \<le> length w"
    and rec: "record_blob (e_end env) s ''main'' (u64_as_i64 (length w)) (rename_file s ?tmp (blob_file ''main'') (share_store st1)) = (Inr (), s2)"
    and seal: "mark_sealed s s2 = (Inr (), s3)"
    and res: "s' = s" "e' = e" "tok = compute_owner_token P (share_signing_key cfg) s n"
      "share_store st' = s3" "share_storage_tracker st' = storage_register ip s (length w) (share_storage_tracker st1)"
    by metis
  note B = receive_body_Inr [OF R big]
  obtain r2 where r2: "map_of (shares s2) s = Some r2" "\<exists>m. r2 = row\<lparr>total_bytes := m\<rparr>" and
      d2: "dirs s2 = dirs (rename_file s ?tmp (blob_file ''main'') (share_store st1))"
    using record_blob_Inr [OF rec] B row by auto
  obtain m where r3: "map_of (shares s3) s = Some (row\<lparr>total_bytes := m, sealed := True, bundle_token := None\<rparr>)" and d3: "dirs s3 = dirs s2"
    using mark_sealed_Inr [OF seal] r2 by auto
  have "read_file s (blob_file ''main'') s3 = Some w"
    using read_file_dirs [OF trans [OF d3 d2]] read_rename [of s ?tmp "share_store st1" w] B by simp
  then have "content (share_store st') s ''main'' = Some w" using r3 live res by (simp add: content_def phase_def)
  then show ?thesis using res B r3 receive_body_via [OF R] by auto
qed


lemma upload_b2_share_created:
  assumes "upload_b2_share P J cfg env nonce req st = (ShareCreateResponse s e tok, st')"
  shows "x_share_id req = Some s \<and> is_valid_share_id s \<and> phase (share_store st) s = Free \<and>
    (\<exists>secs. Option.bind (x_expires_in req) (parse_uint u32_max) = Some secs \<and> e = e_now env + int (min secs MAX_EXPIRES_SECS)) \<and>
    tok = compute_owner_token P (share_signing_key cfg) s nonce \<and>
    (\<exists>w n. accepted_body cfg req w \<and> content (share_store st') s ''main'' = Some w \<and>
       map_of (shares (share_store st')) s = Some \<lparr>kind = KindFile, created_at = e_now env, expires_at = e, revoked = False, sealed = True,
         token_nonce = nonce, total_bytes = n, bundle_token = None\<rparr> \<and>
       share_storage_tracker st' = storage_register (client_ip_of cfg req) s (length w) (share_storage_tracker st))"
proof (cases "authorize J cfg env ''share:b2'' req st")
  case (Pair ok st1)
  note A = authorize_frame [OF Pair]
  obtain sid secs l s2 where id: "x_share_id req = Some sid" "is_valid_share_id sid" and
      secs: "Option.bind (x_expires_in req) (parse_uint u32_max) = Some secs" and
      cr: "create_share (e_mkdir env) (e_now env) sid KindFile (e_now env + int (min secs MAX_EXPIRES_SECS)) nonce (share_store st1) = (Inr (), s2)" and
      fin: "upload_b2_finish P cfg env (client_ip_of cfg req) sid (e_now env + int (min secs MAX_EXPIRES_SECS)) nonce req
         (st1\<lparr>share_create_limiter := l, share_store := s2\<rparr>) = (ShareCreateResponse s e tok, st')"
    using assms
    by (auto simp: upload_b2_share_def Pair Let_def
        split: option.splits if_splits prod.splits ShareCreationDecision.splits sum.splits StoreError.splits bool.splits)
  note C = create_share_Inr [OF cr]
  have F: "s = sid" "e = e_now env + int (min secs MAX_EXPIRES_SECS)" "tok = compute_owner_token P (share_signing_key cfg) sid nonce"
    "\<exists>w. accepted_body cfg req w \<and> content (share_store st') sid ''main'' = Some w \<and>
       (\<exists>n. map_of (shares (share_store st')) sid = Some \<lparr>kind = KindFile, created_at = e_now env, expires_at = e, revoked = False, sealed = True,
         token_nonce = nonce, total_bytes = n, bundle_token = None\<rparr>) \<and>
       share_storage_tracker st' = storage_register (client_ip_of cfg req) sid (length w) (share_storage_tracker st1)"
    using upload_b2_finish_created [OF fin] C by auto
  have "phase (share_store st) sid = Free" using C A by (simp add: phase_def)
  then show ?thesis using F(2-4) id secs A unfolding F(1) by auto
qed

lemma serve_blob_Stream:
  assumes "serve_blob cfg env s b m st = (StreamResponse c bps, st')"
  shows "read_file s (blob_file b) (share_store st) = Some c \<and>
    bps = share_slow_start_bps (created_at m) (e_now env) (share_slow_start_secs cfg) (share_slow_start_max_bps cfg)"
  using assms by (auto simp: serve_blob_def Let_def split: if_splits option.splits prod.splits bool.splits)

lemma meta_of_simps [simp]:
  "kind (meta_of row) = kind row" "created_at (meta_of row) = created_at row" "expires_at (meta_of row) = expires_at row"
  "revoked (meta_of row) = revoked row" "sealed (meta_of row) = sealed row" "total_bytes (meta_of row) = total_bytes row"
  by (simp_all add: meta_of_def)

definition live :: "ShareStore \<Rightarrow> string \<Rightarrow> int \<Rightarrow> bool" where
  "live st s now \<longleftrightarrow> (\<exists>row. map_of (shares st) s = Some row \<and> sealed row \<and> \<not> revoked row \<and> now < expires_at row)"

lemma live_phase: "live st s now \<Longrightarrow> phase st s = Published"
  by (auto simp: live_def phase_def)

lemma get_b2_share_Stream:
  assumes "get_b2_share cfg env s req st = (StreamResponse c bps, st')"
  shows "live (share_store st) s (e_now env) \<and> content (share_store st) s ''main'' = Some c"
  using assms serve_blob_Stream
  by (fastforce simp: get_b2_share_def get_meta_def live_def content_def phase_def Let_def split: prod.splits bool.splits option.splits if_splits)

lemma get_share_blob_Stream:
  assumes "get_share_blob cfg env s b req st = (StreamResponse c bps, st')"
  shows "live (share_store st) s (e_now env) \<and> content (share_store st) s b = Some c"
  using assms serve_blob_Stream
  by (fastforce simp: get_share_blob_def get_meta_def live_def content_def phase_def Let_def split: prod.splits bool.splits option.splits if_splits)

lemma get_share_meta_Meta:
  assumes "get_share_meta ord cfg env s req st = (ShareMetaResponse k e n m bs, st')"
  shows "live (share_store st) s (e_now env)"
  using assms
  by (auto simp: get_share_meta_def get_meta_def live_def Let_def split: prod.splits bool.splits option.splits if_splits sum.splits)

end
