(* ===== verification/Share_Lifecycle.thy ===== *)
theory Share_Lifecycle
  imports Share_Relay
begin

text \<open>
  The life of a share over histories of requests: what an upload stored is served until the owner
  revokes it or the sweep removes it, recipients see only live shares, and sealed bundles are closed.
\<close>

subsection \<open>Histories of requests\<close>

text \<open>A history interleaves the requests of any clients with the ticks of the sweeper and the ends of downloads.\<close>

datatype Event =
    UploadB2 Env bytes Request
  | GetB2 Env string Request
  | RevokeB2 Env string Request
  | InitBundle Env string bytes bytes string nat Request
  | UploadBlob Env string string Request
  | SealBundle Env string Request
  | GetMeta "(string \<times> int) list \<Rightarrow> (string \<times> int) list" Env string Request
  | GetBlob Env string string Request
  | Headroom "(nat \<times> nat \<times> nat) option" Env Request
  | DownloadEnd string
  | Sweep "string \<Rightarrow> dir option" int

fun relay_apply :: "prims \<Rightarrow> jwt \<Rightarrow> ShareConfig \<Rightarrow> AppState \<Rightarrow> Event \<Rightarrow> AppState" where
  "relay_apply P J cfg st (UploadB2 env nonce req) = snd (upload_b2_share P J cfg env nonce req st)"
| "relay_apply P J cfg st (GetB2 env s req) = snd (get_b2_share cfg env s req st)"
| "relay_apply P J cfg st (RevokeB2 env s req) = snd (revoke_b2_share P cfg env s req st)"
| "relay_apply P J cfg st (InitBundle env uuid nonce tok k secs req) = snd (init_bundle P J cfg env uuid nonce tok k secs req st)"
| "relay_apply P J cfg st (UploadBlob env s b req) = snd (upload_bundle_blob cfg env s b req st)"
| "relay_apply P J cfg st (SealBundle env s req) = snd (seal_bundle cfg env s req st)"
| "relay_apply P J cfg st (GetMeta ord env s req) = snd (get_share_meta ord cfg env s req st)"
| "relay_apply P J cfg st (GetBlob env s b req) = snd (get_share_blob cfg env s b req st)"
| "relay_apply P J cfg st (Headroom vfs env req) = snd (get_share_headroom vfs cfg env req st)"
| "relay_apply P J cfg st (DownloadEnd s) = st\<lparr>share_concurrency := conc_fetch_sub s (share_concurrency st)\<rparr>"
| "relay_apply P J cfg st (Sweep left now) = sweeper_tick left now st"

lemma create_taken: "phase a s \<noteq> Free \<Longrightarrow> create_share ok now s k e n a = (Inl Conflict, a)"
  by (auto simp: create_share_def phase_def split: option.splits)

lemma upload_b2_taken:
  assumes "upload_b2_share P J cfg env nonce req st = (r, st')" and "x_share_id req = Some s" and "phase (share_store st) s \<noteq> Free"
  shows "share_store st' = share_store st \<and> share_storage_tracker st' = share_storage_tracker st"
proof (cases "authorize J cfg env ''share:b2'' req st")
  case (Pair ok st1)
  note A = authorize_frame [OF Pair]
  have C: "create_share ok now s k e n (share_store st) = (Inl Conflict, share_store st)" for ok now k e n
    using create_taken assms(3) by blast
  show ?thesis
    using assms(1,2) A C
    by (auto simp: upload_b2_share_def Pair Let_def split: option.splits if_splits prod.splits ShareCreationDecision.splits bool.splits)
qed

lemma init_bundle_taken:
  assumes "init_bundle P J cfg env s nonce tok k secs req st = (r, st')" and "phase (share_store st) s \<noteq> Free"
  shows "share_store st' = share_store st"
proof (cases "authorize J cfg env ''share:bundle:init'' req st")
  case (Pair ok st1)
  note A = authorize_frame [OF Pair]
  have C: "create_share ok now s k e n (share_store st) = (Inl Conflict, share_store st)" for ok now k e n
    using create_taken assms(2) by blast
  show ?thesis
    using assms(1) A C
    by (auto simp: init_bundle_def Pair Let_def split: option.splits if_splits prod.splits ShareCreationDecision.splits bool.splits)
qed

lemma bundle_gate_closed: "closed (phase (share_store st) s) \<Longrightarrow> bundle_gate env s req st \<noteq> None"
  using token_needs_uploading [of s _ "e_now env" "share_store st"]
  by (auto simp: bundle_gate_def closed_def split: option.splits sum.splits bool.splits)

lemma upload_bundle_closed:
  "closed (phase (share_store st) s) \<Longrightarrow> upload_bundle_blob cfg env s b req st = (r, st') \<Longrightarrow> st' = st"
  using bundle_gate_closed [of st s env req] by (auto simp: upload_bundle_blob_def upload_bundle_start_def split: if_splits option.splits)

lemma seal_bundle_closed:
  "closed (phase (share_store st) s) \<Longrightarrow> seal_bundle cfg env s req st = (r, st') \<Longrightarrow> st' = st"
  using bundle_gate_closed [of st s env req] by (auto simp: seal_bundle_def Let_def split: if_splits option.splits)

text \<open>The two ways a published share ends: its owner revokes it, or the sweep runs after its expiry.\<close>

fun ends :: "prims \<Rightarrow> ShareConfig \<Rightarrow> ShareStore \<Rightarrow> string \<Rightarrow> Event \<Rightarrow> bool" where
  "ends P cfg a s (RevokeB2 env s' req) \<longleftrightarrow> s' = s \<and>
     (\<exists>row tok. map_of (shares a) s = Some row \<and> x_owner_token req = Some tok \<and>
        verify_owner_token P (share_signing_key cfg) s (token_nonce (meta_of row)) tok)"
| "ends P cfg a s (Sweep left now) \<longleftrightarrow> \<not> live a s now"
| "ends P cfg a s _ \<longleftrightarrow> False"

definition share_view :: "ShareStore \<Rightarrow> string \<Rightarrow> ShareRow option \<times> (string \<Rightarrow> bytes option)" where
  "share_view a s = (map_of (shares a) s, content a s)"

lemma via_view: "via t a a' \<Longrightarrow> t \<noteq> s \<Longrightarrow> share_view a' s = share_view a s"
  using via_other [of t a a' s] via_content [of t a a' s] by (auto simp: share_view_def)

lemma revoke_not_authorised:
  assumes "revoke_b2_share P cfg env s req st = (r, st')" and "\<not> ends P cfg (share_store st) s (RevokeB2 env s req)"
  shows "st' = st \<and> r \<in> {Status 401, Status 403, Status 404}"
  using assms by (auto simp: revoke_b2_share_def get_meta_def split: option.splits if_splits)

lemma sweep_view:
  assumes "store_inv (share_store st)" and "live (share_store st) s now"
  shows "share_view (share_store (sweeper_tick left now st)) s = share_view (share_store st) s"
proof -
  obtain ids freed a where r: "purge_expired_and_revoked left now (share_store st) = ((ids, freed), a)" by (metis prod.collapse)
  obtain row where row: "map_of (shares (share_store st)) s = Some row" "\<not> victim now row" using assms(2) by (auto simp: live_def victim_def)
  note P = purge_spec [OF assms(1) r]
  have "s \<notin> set ids" using P(3) [of s] row by (simp add: purged_def)
  then have "map_of (shares a) s = map_of (shares (share_store st)) s" "map_of (dirs a) s = map_of (dirs (share_store st)) s"
    using P(5) [of s] P(8) [OF row] by simp_all
  then have "share_view a s = share_view (share_store st) s" by (auto simp: share_view_def content_def phase_def read_file_def fun_eq_iff)
  then show ?thesis by (simp add: sweeper_tick_def r)
qed

lemma sweeper_inv: "store_inv (share_store st) \<Longrightarrow> store_inv (share_store (sweeper_tick left now st))"
  using purge_frame(1) [of "share_store st" left now] by (auto simp: sweeper_tick_def split: prod.splits)

lemma upload_bundle_blob_via:
  "upload_bundle_blob cfg env s b req st = (r, st') \<Longrightarrow> via s (share_store st) (share_store st')"
  by (auto simp: upload_bundle_blob_def dest!: upload_bundle_finish_via split: option.splits)

text \<open>Every event works on one share, except the sweep.\<close>

lemma relay_apply_via:
  assumes "\<And>left now. ev \<noteq> Sweep left now"
  shows "\<exists>s. via s (share_store st) (share_store (relay_apply P J cfg st ev))"
proof (cases ev)
  case (UploadB2 env nonce req)
  then show ?thesis
    using upload_b2_share_via [of P J cfg env nonce req st] upload_b2_share_no_id [of P J cfg env nonce req st]
    by (cases "x_share_id req"; cases "upload_b2_share P J cfg env nonce req st") force+
next
  case (InitBundle env uuid nonce tok k secs req)
  then show ?thesis using init_bundle_via by (metis prod.collapse relay_apply.simps(4))
next
  case (RevokeB2 env s req)
  then show ?thesis using revoke_b2_share_via by (metis prod.collapse relay_apply.simps(3))
next
  case (UploadBlob env s b req)
  then show ?thesis using upload_bundle_blob_via by (metis prod.collapse relay_apply.simps(5))
next
  case (SealBundle env s req)
  then show ?thesis using seal_bundle_via by (metis prod.collapse relay_apply.simps(6))
next
  case (GetB2 env s req)
  then show ?thesis using get_store(1) by (metis prod.collapse relay_apply.simps(2) via_refl)
next
  case (GetMeta ord env s req)
  then show ?thesis using get_store(3) by (metis prod.collapse relay_apply.simps(7) via_refl)
next
  case (GetBlob env s b req)
  then show ?thesis using get_store(2) by (metis prod.collapse relay_apply.simps(8) via_refl)
next
  case (Headroom vfs env req)
  then show ?thesis using get_store(4) by (metis prod.collapse relay_apply.simps(9) via_refl)
qed (use assms in auto)

lemma relay_apply_inv:
  assumes "store_inv (share_store st)"
  shows "store_inv (share_store (relay_apply P J cfg st ev))"
proof (cases "\<exists>left now. ev = Sweep left now")
  case True
  then show ?thesis using sweeper_inv [OF assms] by auto
next
  case False
  then show ?thesis using relay_apply_via [of ev st P J cfg] via_inv assms by blast
qed


lemma view_persists:
  assumes inv: "store_inv (share_store st)" and pub: "phase (share_store st) s = Published" and "\<not> ends P cfg (share_store st) s ev"
  shows "share_view (share_store (relay_apply P J cfg st ev)) s = share_view (share_store st) s"
proof -
  have cl: "closed (phase (share_store st) s)" using pub by (simp add: closed_def)
  show ?thesis
  proof (cases ev)
    case (UploadB2 env nonce req)
    obtain r st' where R: "upload_b2_share P J cfg env nonce req st = (r, st')" by (cases "upload_b2_share P J cfg env nonce req st")
    show ?thesis
    proof (cases "x_share_id req")
      case None
      then show ?thesis using upload_b2_share_no_id [OF R] UploadB2 R by simp
    next
      case (Some t)
      then show ?thesis
        using upload_b2_share_via [OF R Some] upload_b2_taken [OF R Some] pub via_view [of t _ _ s] UploadB2 R by (cases "t = s") auto
    qed
  next
    case (InitBundle env t nonce tok k secs req)
    obtain r st' where R: "init_bundle P J cfg env t nonce tok k secs req st = (r, st')" by (cases "init_bundle P J cfg env t nonce tok k secs req st")
    then show ?thesis
      using init_bundle_via [OF R] init_bundle_taken [OF R] pub via_view [of t _ _ s] InitBundle by (cases "t = s") auto
  next
    case (RevokeB2 env t req)
    obtain r st' where R: "revoke_b2_share P cfg env t req st = (r, st')" by (cases "revoke_b2_share P cfg env t req st")
    then show ?thesis
      using revoke_b2_share_via [OF R] revoke_not_authorised [OF R] via_view [of t _ _ s] RevokeB2 assms(3) by (cases "t = s") auto
  next
    case (UploadBlob env t b req)
    obtain r st' where R: "upload_bundle_blob cfg env t b req st = (r, st')" by (cases "upload_bundle_blob cfg env t b req st")
    then show ?thesis
      using upload_bundle_blob_via [OF R] upload_bundle_closed [OF _ R] cl via_view [of t _ _ s] UploadBlob by (cases "t = s") auto
  next
    case (SealBundle env t req)
    obtain r st' where R: "seal_bundle cfg env t req st = (r, st')" by (cases "seal_bundle cfg env t req st")
    then show ?thesis
      using seal_bundle_via [OF R] seal_bundle_closed [OF _ R] cl via_view [of t _ _ s] SealBundle by (cases "t = s") auto
  next
    case (Sweep left now)
    then show ?thesis using sweep_view [OF inv] assms(3) by simp
  next
    case (GetB2 env t req)
    then show ?thesis using get_store(1) [of cfg env t req st] by (cases "get_b2_share cfg env t req st") simp
  next
    case (GetMeta ord env t req)
    then show ?thesis using get_store(3) [of ord cfg env t req st] by (cases "get_share_meta ord cfg env t req st") simp
  next
    case (GetBlob env t b req)
    then show ?thesis using get_store(2) [of cfg env t b req st] by (cases "get_share_blob cfg env t b req st") simp
  next
    case (Headroom vfs env req)
    then show ?thesis using get_store(4) [of vfs cfg env req st] by (cases "get_share_headroom vfs cfg env req st") simp
  qed simp
qed

fun undisturbed :: "prims \<Rightarrow> jwt \<Rightarrow> ShareConfig \<Rightarrow> AppState \<Rightarrow> string \<Rightarrow> Event list \<Rightarrow> bool" where
  "undisturbed P J cfg st s [] \<longleftrightarrow> True"
| "undisturbed P J cfg st s (ev # evs) \<longleftrightarrow> \<not> ends P cfg (share_store st) s ev \<and> undisturbed P J cfg (relay_apply P J cfg st ev) s evs"

lemma view_phase: "share_view a s = share_view b s \<Longrightarrow> phase a s = phase b s"
  by (simp add: share_view_def phase_def)

lemma view_run:
  assumes "store_inv (share_store st)" and "phase (share_store st) s = Published" and "undisturbed P J cfg st s evs"
  shows "share_view (share_store (foldl (relay_apply P J cfg) st evs)) s = share_view (share_store st) s"
  using assms
proof (induction evs arbitrary: st)
  case (Cons ev evs)
  have v: "share_view (share_store (relay_apply P J cfg st ev)) s = share_view (share_store st) s"
    using view_persists Cons.prems by simp
  then show ?case using Cons.IH [of "relay_apply P J cfg st ev"] Cons.prems view_phase [OF v] by (simp add: relay_apply_inv)
qed simp

lemma store_apply_withdrawn:
  "op_share op = Some t \<Longrightarrow> phase a s = Withdrawn \<Longrightarrow> phase (store_apply a op) s = Withdrawn"
  by (cases op) (simp_all add: create.withdrawn_stays seal.withdrawn_stays token.withdrawn_stays rec.withdrawn_stays rev.withdrawn_stays
      del.withdrawn_stays wr.withdrawn_stays rm.withdrawn_stays)

lemma via_withdrawn:
  assumes "via t a a'" and "phase a s = Withdrawn"
  shows "phase a' s = Withdrawn"
proof -
  obtain ops where ops: "\<forall>op\<in>set ops. op_share op = Some t" and a': "a' = foldl store_apply a ops" using assms(1) by (auto simp: via_def)
  show ?thesis using ops assms(2) unfolding a' by (induction ops arbitrary: a) (auto simp: store_apply_withdrawn)
qed

fun is_sweep :: "Event \<Rightarrow> bool" where
  "is_sweep (Sweep _ _) = True"
| "is_sweep _ = False"

lemma withdrawn_run:
  assumes "phase (share_store st) s = Withdrawn" and "\<not> list_ex is_sweep evs"
  shows "phase (share_store (foldl (relay_apply P J cfg) st evs)) s = Withdrawn"
  using assms
proof (induction evs arbitrary: st)
  case (Cons ev evs)
  have "\<And>left now. ev \<noteq> Sweep left now" using Cons.prems(2) by auto
  then obtain t where "via t (share_store st) (share_store (relay_apply P J cfg st ev))" using relay_apply_via by blast
  then show ?case using Cons via_withdrawn by simp
qed simp

lemma relay_run_inv: "store_inv (share_store st) \<Longrightarrow> store_inv (share_store (foldl (relay_apply P J cfg) st evs))"
  by (induction evs arbitrary: st) (simp_all add: relay_apply_inv)

lemma serve_blob_passes:
  assumes "e_open env" and "e_stat env" and "read_file s (blob_file b) (share_store st) = Some w"
    and "ShareBytesPerShareTracker_try_consume (e_inst env) s (length w) (share_download_bytes st) = Some (True, t)"
    and "conc_try_acquire s (share_concurrency st) = (True, c)"
  shows "\<exists>bps st'. serve_blob cfg env s b m st = (StreamResponse w bps, st')"
  using assms by (simp add: serve_blob_def)

lemma get_b2_share_passes:
  assumes "map_of (shares (share_store st)) s = Some row" and "kind row = KindFile" and "live (share_store st) s (e_now env)"
    and "content (share_store st) s ''main'' = Some w"
    and "e_open env" and "e_stat env"
    and "ShareGetLimiter_check_and_record (e_inst env) (e_inst2 env) s (client_ip_of cfg req) (share_get_limiter st) = (True, l)"
    and "ShareBytesPerShareTracker_try_consume (e_inst env) s (length w) (share_download_bytes st) = Some (True, t)"
    and "conc_try_acquire s (share_concurrency st) = (True, c)"
  shows "\<exists>bps st'. get_b2_share cfg env s req st = (StreamResponse w bps, st')"
proof -
  have "read_file s (blob_file ''main'') (share_store st) = Some w" using assms(4) by (simp add: content_def split: if_splits)
  then show ?thesis
    using assms serve_blob_passes [of env s "''main''" "st\<lparr>share_get_limiter := l\<rparr>" w t c cfg]
    by (auto simp: get_b2_share_def get_meta_def live_def)
qed

subsection \<open>Properties\<close>

text \<open>
  C32. Upload and download of a single-file share: a successful upload stores exactly the received
  body, which is complete, starts with the V7 marker, has at least the minimal V7 size and respects
  the size limit.  After any further history of requests of any clients that contains no authorised
  revocation of this share and no sweep after its expiry, whatever the share endpoint streams is that
  body, and it is streamed whenever the share has not expired and the rate, byte and concurrency gates
  let the request pass.  Each handler is one step of the history.
\<close>
theorem share_upload_get:
  assumes start: "share_store init = ShareStore_empty" "st = foldl (relay_apply P J cfg) init before"
    and up: "upload_b2_share P J cfg env nonce req st = (ShareCreateResponse s e tok, st')"
    and quiet: "undisturbed P J cfg st' s evs" and later: "later = foldl (relay_apply P J cfg) st' evs"
  shows "\<exists>w. accepted_body cfg req w \<and>
     (\<forall>env2 req2 c bps st2. get_b2_share cfg env2 s req2 later = (StreamResponse c bps, st2) \<longrightarrow> c = w) \<and>
     (\<forall>env2 req2 l t c. e_now env2 < e \<and> e_open env2 \<and> e_stat env2 \<and>
        ShareGetLimiter_check_and_record (e_inst env2) (e_inst2 env2) s (client_ip_of cfg req2) (share_get_limiter later) = (True, l) \<and>
        ShareBytesPerShareTracker_try_consume (e_inst env2) s (length w) (share_download_bytes later) = Some (True, t) \<and>
        conc_try_acquire s (share_concurrency later) = (True, c) \<longrightarrow>
        (\<exists>bps st2. get_b2_share cfg env2 s req2 later = (StreamResponse w bps, st2)))"
proof -
  have inv: "store_inv (share_store st)" unfolding start(2) by (rule relay_run_inv) (simp add: start(1))
  obtain w n where w: "accepted_body cfg req w" "content (share_store st') s ''main'' = Some w"
    and row: "map_of (shares (share_store st')) s = Some \<lparr>kind = KindFile, created_at = e_now env, expires_at = e, revoked = False,
       sealed = True, token_nonce = nonce, total_bytes = n, bundle_token = None\<rparr>" (is "_ = Some ?row")
    using upload_b2_share_created [OF up] by blast
  have "x_share_id req = Some s" using upload_b2_share_created [OF up] by blast
  then have inv': "store_inv (share_store st')" using via_inv [OF upload_b2_share_via [OF up]] inv by blast
  have "phase (share_store st') s = Published" using row by (simp add: phase_def)
  then have V: "share_view (share_store later) s = share_view (share_store st') s" unfolding later by (rule view_run [OF inv' _ quiet])
  then have L: "map_of (shares (share_store later)) s = Some ?row" "content (share_store later) s ''main'' = Some w"
    using row w by (simp_all add: share_view_def)
  have live: "live (share_store later) s t" if "t < e" for t using L that by (simp add: live_def)
  show ?thesis
  proof (intro exI [of _ w] conjI allI impI, goal_cases)
    case (2 env2 req2 c bps st2)
    then show ?case using L(2) get_b2_share_Stream by fastforce
  next
    case (3 env2 req2 l t c)
    then show ?case using get_b2_share_passes [OF L(1) _ live L(2)] by simp
  qed (rule w(1))
qed


definition sample_share_cfg :: ShareConfig where
  "sample_share_cfg = \<lparr>trusted_proxies = [], pow_difficulty_bits = 0, relay_signing_key = [1], relay_cookie_ttl_secs = 300,
     share_signing_key = [2], share_max_blob_bytes = 5000, disk_watermark_percent = 80, share_slow_start_secs = 0, share_slow_start_max_bps = 0\<rparr>"

definition sample_env :: "int \<Rightarrow> Env" where
  "sample_env t = \<lparr>e_now = t, e_end = t, e_inst = from_secs (nat t), e_inst2 = from_secs (nat t), e_disk = Some 10, e_mkdir = True, e_create = True,
     e_write = (\<lambda>_. True), e_flush = True, e_rename = True, e_unlink = True, e_rmdir = None, e_open = True, e_stat = True, e_tmp = []\<rparr>"

definition sample_id :: string where "sample_id = replicate 36 (CHR ''a'')"

definition sample_blob :: bytes where "sample_blob = replicate 1741 7"

definition sample_req :: Request where
  "sample_req = \<lparr>r_peer = IpV4 [1,2,3,4], r_xff = None, r_cookies = [(RELAY_COOKIE_NAME_SHARE, ''tok'')], x_share_id = Some sample_id,
     x_expires_in = Some ''60'', x_owner_token = None, x_bundle_token = None, content_length_header = None, r_body = [Some sample_blob]\<rparr>"

definition sample_budget :: "nat \<Rightarrow> ByteBudgetTracker" where
  "sample_budget n = (if n = 0 then ByteBudgetTracker_new 100000
     else (ByteBudgetTracker_new 100000)\<lparr>bb_state := [(BucketV4 [1,2,3,4], \<lparr>count_day = 0, count_bytes = n\<rparr>)]\<rparr>)"

definition sample_app :: AppState where
  "sample_app = \<lparr>challenge_store = [], auth_challenge_limiter = AuthChallengeLimiter_new 10, jti_consumed = [], share_store = ShareStore_empty,
     share_create_limiter = ShareCreationRateLimiter_new 10 50, share_storage_tracker = ShareStoragePerIpTracker_new 100000,
     share_byte_budget = sample_budget 0, share_get_limiter = ShareGetLimiter_default,
     share_download_bytes = ShareBytesPerShareTracker_new 100000, share_concurrency = ShareConcurrencyTracker_new 1\<rparr>"

lemma sample_blob_facts: "length sample_blob = 1741" "sample_blob \<noteq> []" "hd sample_blob = 7"
  by (simp_all add: sample_blob_def)

lemma sample_ip: "client_ip_of sample_share_cfg (sample_req\<lparr>x_owner_token := x\<rparr>) = IpV4 [1,2,3,4]"
  by (simp add: client_ip_of_def extract_client_ip_def sample_share_cfg_def sample_req_def)

lemma sample_ip0: "client_ip_of sample_share_cfg sample_req = IpV4 [1,2,3,4]"
  by (simp add: client_ip_of_def extract_client_ip_def sample_share_cfg_def sample_req_def)

lemma sample_id_valid: "is_valid_share_id sample_id"
  by (simp add: is_valid_share_id_def sample_id_def uuid_char_def is_ascii_alphanumeric_def list_all_iff)

lemma sample_expires: "Option.bind (x_expires_in sample_req) (parse_uint u32_max) = Some 60"
  by (simp add: sample_req_def parse_uint_def digit_value_def u32_max_def)

lemma sample_receive:
  assumes "map_of (dirs (share_store st)) s \<noteq> None" and "share_byte_budget st = sample_budget n" and "n < 5000" and "r_body req = [Some sample_blob]"
  shows "receive_body sample_share_cfg (sample_env 1100) (IpV4 [1,2,3,4]) s tmp req st =
     (Inr sample_blob, on_store (write_file s tmp sample_blob) (st\<lparr>share_byte_budget := sample_budget (n + 1741)\<rparr>))"
  using assms sample_blob_facts
  by (simp add: receive_body_def stream_body_to_file_capped_def sample_env_def sample_share_cfg_def V7_MARKER_def sample_budget_def
      ByteBudgetTracker_try_consume_def ByteBudgetTracker_new_def sat_add64_def get_or_def)

lemma sample_authorized:
  "authorize toy_jwt sample_share_cfg (sample_env 1100) ''share:b2'' sample_req sample_app =
     (True, sample_app\<lparr>jti_consumed := [(''u'', 1300)]\<rparr>)"
  by (simp add: authorize_def verify_relay_cookie_def ok_or_def map_err_def toy_jwt_def sample_req_def sample_env_def jwt_leeway_def
      sample_app_def JtiConsumedSet_try_consume_def hm_retain_def)

lemma sample_upload:
  "\<exists>st'. upload_b2_share toy_prims toy_jwt sample_share_cfg (sample_env 1100) (replicate 16 9) sample_req sample_app =
     (ShareCreateResponse sample_id 1160 (compute_owner_token toy_prims [2] sample_id (replicate 16 9)), st') \<and>
     share_get_limiter st' = ShareGetLimiter_default \<and> share_download_bytes st' = ShareBytesPerShareTracker_new 100000 \<and>
     share_concurrency st' = ShareConcurrencyTracker_new 1 \<and> blobs (share_store st') = [((sample_id, ''main''), (1741, 1100))]"
proof -
  have nodisk: "\<not> disk_full sample_share_cfg (sample_env 1100)" by (simp add: disk_full_def sample_env_def sample_share_cfg_def)
  have nolen: "content_length sample_req = None" by (simp add: content_length_def sample_req_def)
  obtain l where lim: "ShareCreationRateLimiter_check_and_record (e_inst (sample_env 1100)) (e_inst2 (sample_env 1100)) (IpV4 [1,2,3,4])
      (share_create_limiter sample_app) = (Allow, l)"
    by (simp add: ShareCreationRateLimiter_check_and_record_def SlidingWindowLimiterByKey_check_and_record_def keyed_check_and_record_def
        ShareCreationRateLimiter_new_def SlidingWindowLimiterByKey_new_with_cap_def sample_app_def Let_def)
  have cr: "create_share True 1100 sample_id KindFile 1160 (replicate 16 9) ShareStore_empty =
      (Inr (), \<lparr>shares = [(sample_id, \<lparr>kind = KindFile, created_at = 1100, expires_at = 1160, revoked = False, sealed = False,
          token_nonce = replicate 16 9, total_bytes = 0, bundle_token = None\<rparr>)], blobs = [], dirs = [(sample_id, [])]\<rparr>)" (is "_ = (_, ?s1)")
    by (simp add: create_share_def ShareStore_empty_def get_or_def)
  let ?st1 = "sample_app\<lparr>jti_consumed := [(''u'', 1300)], share_create_limiter := l, share_store := ?s1\<rparr>"
  have "upload_b2_share toy_prims toy_jwt sample_share_cfg (sample_env 1100) (replicate 16 9) sample_req sample_app =
      upload_b2_finish toy_prims sample_share_cfg (sample_env 1100) (IpV4 [1,2,3,4]) sample_id 1160 (replicate 16 9) sample_req ?st1"
    using lim cr nodisk nolen sample_expires sample_id_valid
    by (simp add: upload_b2_share_def sample_authorized sample_ip0 Let_def)
      (simp add: sample_req_def sample_env_def sample_app_def MAX_EXPIRES_SECS_def)
  moreover have "receive_body sample_share_cfg (sample_env 1100) (IpV4 [1,2,3,4]) sample_id (tmp_file ''main'') sample_req ?st1 =
      (Inr sample_blob, on_store (write_file sample_id (tmp_file ''main'') sample_blob) (?st1\<lparr>share_byte_budget := sample_budget 1741\<rparr>))"
    using sample_receive [of ?st1 sample_id 0 sample_req "tmp_file ''main''"] by (simp add: sample_app_def sample_req_def)
  ultimately show ?thesis
    by (simp add: upload_b2_finish_def sample_blob_facts V7_MIN_SIZE_def record_blob_def update_total_def blob_sum_def u64_as_i64_def i64_max_def
        mark_sealed_def Let_def)
      (simp add: sample_env_def sample_share_cfg_def sample_app_def on_store_def)
qed

lemma sample_accepted: "accepted_body sample_share_cfg sample_req w \<Longrightarrow> w = sample_blob"
  by (simp add: accepted_body_def sample_req_def)

theorem share_upload_get_witness:
  "\<exists>st' bps st2. upload_b2_share toy_prims toy_jwt sample_share_cfg (sample_env 1100) (replicate 16 9) sample_req sample_app =
       (ShareCreateResponse sample_id 1160 (compute_owner_token toy_prims [2] sample_id (replicate 16 9)), st') \<and>
     get_b2_share sample_share_cfg (sample_env 1110) sample_id sample_req st' = (StreamResponse sample_blob bps, st2)"
proof -
  obtain st' where up: "upload_b2_share toy_prims toy_jwt sample_share_cfg (sample_env 1100) (replicate 16 9) sample_req sample_app =
      (ShareCreateResponse sample_id 1160 (compute_owner_token toy_prims [2] sample_id (replicate 16 9)), st')"
    and g: "share_get_limiter st' = ShareGetLimiter_default" "share_download_bytes st' = ShareBytesPerShareTracker_new 100000"
      "share_concurrency st' = ShareConcurrencyTracker_new 1" using sample_upload by blast
  obtain l where L: "ShareGetLimiter_check_and_record (e_inst (sample_env 1110)) (e_inst2 (sample_env 1110)) sample_id (IpV4 [1,2,3,4])
      (share_get_limiter st') = (True, l)"
    by (simp add: g ShareGetLimiter_check_and_record_def ShareGetLimiter_default_def SlidingWindowLimiterByKey_check_and_record_def
        keyed_check_and_record_def SlidingWindowLimiterByKey_new_with_cap_def SHARE_LIMITER_MAX_KEYS_def Let_def)
  obtain t where T: "ShareBytesPerShareTracker_try_consume (e_inst (sample_env 1110)) sample_id (length sample_blob) (share_download_bytes st') = Some (True, t)"
    by (simp add: g ShareBytesPerShareTracker_try_consume_def ShareBytesPerShareTracker_new_def Let_def)
  obtain c where C: "conc_try_acquire sample_id (share_concurrency st') = (True, c)"
    by (simp add: g conc_try_acquire_def conc_fetch_add_def ShareConcurrencyTracker_new_def Let_def get_or_def)
  have start: "share_store sample_app = ShareStore_empty" by (simp add: sample_app_def)
  have runs: "sample_app = foldl (relay_apply toy_prims toy_jwt sample_share_cfg) sample_app []"
    "undisturbed toy_prims toy_jwt sample_share_cfg st' sample_id []" "st' = foldl (relay_apply toy_prims toy_jwt sample_share_cfg) st' []" by simp_all
  from share_upload_get [OF start runs(1) up runs(2,3)]
  obtain w where W: "accepted_body sample_share_cfg sample_req w" and
    pass: "\<forall>env2 req2 l t c. e_now env2 < 1160 \<and> e_open env2 \<and> e_stat env2 \<and>
        ShareGetLimiter_check_and_record (e_inst env2) (e_inst2 env2) sample_id (client_ip_of sample_share_cfg req2) (share_get_limiter st') = (True, l) \<and>
        ShareBytesPerShareTracker_try_consume (e_inst env2) sample_id (length w) (share_download_bytes st') = Some (True, t) \<and>
        conc_try_acquire sample_id (share_concurrency st') = (True, c) \<longrightarrow>
        (\<exists>bps st2. get_b2_share sample_share_cfg env2 sample_id req2 st' = (StreamResponse w bps, st2))" by blast
  have e: "e_now (sample_env 1110) < 1160" "e_open (sample_env 1110)" "e_stat (sample_env 1110)" by (simp_all add: sample_env_def)
  have "\<exists>bps st2. get_b2_share sample_share_cfg (sample_env 1110) sample_id sample_req st' = (StreamResponse sample_blob bps, st2)"
    using pass [rule_format, of "sample_env 1110" sample_req l t c] sample_accepted [OF W] L T C e by (simp add: sample_ip0)
  with up show ?thesis by blast
qed

lemma not_live_404:
  assumes "\<not> live (share_store st) s (e_now env)"
    and "ShareGetLimiter_check_and_record (e_inst env) (e_inst2 env) s (client_ip_of cfg req) (share_get_limiter st) = (True, l)"
  shows "fst (get_b2_share cfg env s req st) = Status 404 \<and> fst (get_share_meta ord cfg env s req st) = Status 404 \<and>
     (is_valid_share_id s \<and> is_valid_public_blob_id b \<longrightarrow> fst (get_share_blob cfg env s b req st) = Status 404)"
  using assms by (auto simp: get_b2_share_def get_share_meta_def get_share_blob_def get_meta_def live_def Let_def split: option.splits)

text \<open>
  Only live shares are served, and nothing distinguishes the others: the three recipient endpoints
  answer with content or metadata only for a share that is sealed, not revoked and not expired, and
  the content is the file of the requested blob; for a missing, unsealed, revoked or expired share
  they all answer 404 once the rate limit is passed; and no recipient request changes the store or the
  quota of any uploader.
\<close>
theorem served_only_live:
  "(get_b2_share cfg env s req st = (StreamResponse c bps, st') \<longrightarrow>
      live (share_store st) s (e_now env) \<and> read_file s (blob_file ''main'') (share_store st) = Some c) \<and>
   (get_share_blob cfg env s b req st = (StreamResponse c bps, st') \<longrightarrow>
      live (share_store st) s (e_now env) \<and> read_file s (blob_file b) (share_store st) = Some c) \<and>
   (get_share_meta ord cfg env s req st = (ShareMetaResponse k e n m bs, st') \<longrightarrow> live (share_store st) s (e_now env)) \<and>
   (\<not> live (share_store st) s (e_now env) \<and>
      fst (ShareGetLimiter_check_and_record (e_inst env) (e_inst2 env) s (client_ip_of cfg req) (share_get_limiter st)) \<longrightarrow>
      fst (get_b2_share cfg env s req st) = Status 404 \<and> fst (get_share_meta ord cfg env s req st) = Status 404 \<and>
      (is_valid_share_id s \<and> is_valid_public_blob_id b \<longrightarrow> fst (get_share_blob cfg env s b req st) = Status 404)) \<and>
   (\<forall>st'. st' \<in> {snd (get_b2_share cfg env s req st), snd (get_share_blob cfg env s b req st), snd (get_share_meta ord cfg env s req st)} \<longrightarrow>
      share_store st' = share_store st \<and> share_storage_tracker st' = share_storage_tracker st)"
proof -
  have C: "content a s b = Some c \<Longrightarrow> read_file s (blob_file b) a = Some c" for a b by (simp add: content_def split: if_splits)
  have get: "get_b2_share cfg env s req st = (StreamResponse c bps, st') \<longrightarrow>
      live (share_store st) s (e_now env) \<and> read_file s (blob_file ''main'') (share_store st) = Some c"
    using get_b2_share_Stream C by blast
  have blob: "get_share_blob cfg env s b req st = (StreamResponse c bps, st') \<longrightarrow>
      live (share_store st) s (e_now env) \<and> read_file s (blob_file b) (share_store st) = Some c"
    using get_share_blob_Stream C by blast
  have same: "share_store (snd x) = share_store st \<and> share_storage_tracker (snd x) = share_storage_tracker st"
    if "x \<in> {get_b2_share cfg env s req st, get_share_blob cfg env s b req st, get_share_meta ord cfg env s req st}" for x
    using that get_store(1-3) by (metis empty_iff insert_iff prod.collapse)
  have opaque: "fst (get_b2_share cfg env s req st) = Status 404 \<and> fst (get_share_meta ord cfg env s req st) = Status 404 \<and>
      (is_valid_share_id s \<and> is_valid_public_blob_id b \<longrightarrow> fst (get_share_blob cfg env s b req st) = Status 404)"
    if "\<not> live (share_store st) s (e_now env)"
      "fst (ShareGetLimiter_check_and_record (e_inst env) (e_inst2 env) s (client_ip_of cfg req) (share_get_limiter st))"
    using that not_live_404 by (metis prod.collapse)
  have same': "\<forall>st'. st' \<in> {snd (get_b2_share cfg env s req st), snd (get_share_blob cfg env s b req st), snd (get_share_meta ord cfg env s req st)} \<longrightarrow>
      share_store st' = share_store st \<and> share_storage_tracker st' = share_storage_tracker st"
    using same by blast
  have meta: "get_share_meta ord cfg env s req st = (ShareMetaResponse k e n m bs, st') \<longrightarrow> live (share_store st) s (e_now env)"
    using get_share_meta_Meta by blast
  from opaque show ?thesis by (intro conjI [OF get conjI [OF blob conjI [OF meta conjI [OF _ same']]]] impI) (elim conjE)
qed

lemma live_row:
  assumes "map_of (shares a) s = Some row" and "\<not> revoked row" and "sealed row"
  shows "live a s t \<longleftrightarrow> t < expires_at row"
  using assms by (simp add: live_def)

theorem served_only_live_witness:
  "fst (get_b2_share sample_share_cfg (sample_env 1110) sample_id sample_req sample_app) = Status 404"
proof -
  have "\<not> live (share_store sample_app) sample_id (e_now (sample_env 1110))" by (simp add: live_def sample_app_def ShareStore_empty_def)
  moreover have "fst (ShareGetLimiter_check_and_record (e_inst (sample_env 1110)) (e_inst2 (sample_env 1110)) sample_id
      (client_ip_of sample_share_cfg sample_req) (share_get_limiter sample_app))"
    by (simp add: sample_ip0 ShareGetLimiter_check_and_record_def ShareGetLimiter_default_def SlidingWindowLimiterByKey_check_and_record_def
        keyed_check_and_record_def SlidingWindowLimiterByKey_new_with_cap_def SHARE_LIMITER_MAX_KEYS_def Let_def sample_app_def)
  ultimately show ?thesis
    using served_only_live [THEN conjunct2, THEN conjunct2, THEN conjunct2, THEN conjunct1, rule_format,
        of sample_app sample_id "sample_env 1110" sample_share_cfg sample_req] by blast
qed

text \<open>
  C33. Revocation: the owner token that an upload returned revokes the share at any later time before
  the sweep, with answer 204; from then on, whatever requests follow, neither share endpoint
  streams anything of it and its metadata is not shown, until the sweep frees the id.  A revocation
  request without a token that verifies changes nothing and is answered 401, 403 or 404.  Each
  handler is one step of the history.
\<close>
theorem share_revocation:
  "(share_store init = ShareStore_empty \<and> length nonce = 16 \<and>
    upload_b2_share P J cfg env nonce req (foldl (relay_apply P J cfg) init before) = (ShareCreateResponse s e tok, st1) \<and>
    undisturbed P J cfg st1 s evs \<and> x_owner_token req' = Some tok \<and> \<not> list_ex is_sweep evs' \<longrightarrow>
      (\<exists>st2. revoke_b2_share P cfg env' s req' (foldl (relay_apply P J cfg) st1 evs) = (Status 204, st2) \<and>
         (let st3 = foldl (relay_apply P J cfg) st2 evs' in
          \<forall>env'' req'' b ord c bps k e n m bs.
            fst (get_b2_share cfg env'' s req'' st3) \<noteq> StreamResponse c bps \<and>
            fst (get_share_blob cfg env'' s b req'' st3) \<noteq> StreamResponse c bps \<and>
            fst (get_share_meta ord cfg env'' s req'' st3) \<noteq> ShareMetaResponse k e n m bs))) \<and>
   (\<not> (\<exists>row tok. map_of (shares (share_store st)) s = Some row \<and> x_owner_token req = Some tok \<and>
         verify_owner_token P (share_signing_key cfg) s (token_nonce (meta_of row)) tok) \<longrightarrow>
      snd (revoke_b2_share P cfg env s req st) = st \<and>
      fst (revoke_b2_share P cfg env s req st) \<in> {Status 401, Status 403, Status 404})"
proof (intro conjI impI, goal_cases)
  case 1
  then have start: "share_store init = ShareStore_empty" and n16: "length nonce = 16" and
    up: "upload_b2_share P J cfg env nonce req (foldl (relay_apply P J cfg) init before) = (ShareCreateResponse s e tok, st1)" and
    quiet: "undisturbed P J cfg st1 s evs" and tok: "x_owner_token req' = Some tok" and evs': "\<not> list_ex is_sweep evs'" by auto
  let ?later = "foldl (relay_apply P J cfg) st1 evs"
  note U = upload_b2_share_created [OF up]
  have sid: "x_share_id req = Some s" and T: "tok = compute_owner_token P (share_signing_key cfg) s nonce" using U by auto
  obtain row where row: "map_of (shares (share_store st1)) s = Some row" "token_nonce row = nonce" "\<not> revoked row" "sealed row"
    using U by auto
  have inv: "store_inv (share_store st1)"
    using via_inv [OF upload_b2_share_via [OF up sid]] relay_run_inv [of init] start by simp
  have "phase (share_store st1) s = Published" using row by (simp add: phase_def)
  from view_run [OF inv this quiet] have row': "map_of (shares (share_store ?later)) s = Some row" using row by (simp add: share_view_def)
  have V: "verify_owner_token P (share_signing_key cfg) s (token_nonce (meta_of row)) tok"
    using row(2) n16 by (simp add: verify_owner_token_def T compute_owner_token_def hex_roundtrip meta_of_def)
  obtain st2 where R: "revoke_b2_share P cfg env' s req' ?later = (Status 204, st2)"
      and ph: "phase (share_store st2) s = Withdrawn"
    using row' V tok by (auto simp: revoke_b2_share_def get_meta_def revoke_share_def Let_def phase_def)
  have W: "\<not> live (share_store (foldl (relay_apply P J cfg) st2 evs')) s t" for t
    using live_phase withdrawn_run [OF ph evs', of P J cfg] by fastforce
  show ?case
    using R W get_b2_share_Stream get_share_blob_Stream get_share_meta_Meta unfolding Let_def by (metis prod.collapse)
next
  case 2
  then show ?case using revoke_not_authorised [of P cfg env s req st] by (metis ends.simps(1) prod.collapse)
next
  case 3
  then show ?case using revoke_not_authorised [of P cfg env s req st] by (metis ends.simps(1) prod.collapse)
qed

theorem share_revocation_witness:
  "\<exists>st1 st2. upload_b2_share toy_prims toy_jwt sample_share_cfg (sample_env 1100) (replicate 16 9) sample_req sample_app =
       (ShareCreateResponse sample_id 1160 (compute_owner_token toy_prims [2] sample_id (replicate 16 9)), st1) \<and>
     revoke_b2_share toy_prims sample_share_cfg (sample_env 1120) sample_id
       (sample_req\<lparr>x_owner_token := Some (compute_owner_token toy_prims [2] sample_id (replicate 16 9))\<rparr>) st1 = (Status 204, st2)"
proof -
  obtain st1 where up: "upload_b2_share toy_prims toy_jwt sample_share_cfg (sample_env 1100) (replicate 16 9) sample_req sample_app =
      (ShareCreateResponse sample_id 1160 (compute_owner_token toy_prims [2] sample_id (replicate 16 9)), st1)" using sample_upload by blast
  have start: "share_store sample_app = ShareStore_empty" by (simp add: sample_app_def)
  show ?thesis
    using share_revocation [where init = sample_app and nonce = "replicate 16 9" and P = toy_prims and J = toy_jwt and cfg = sample_share_cfg and
        env = "sample_env 1100" and req = sample_req and s = sample_id and e = 1160 and tok = "compute_owner_token toy_prims [2] sample_id (replicate 16 9)" and ?st1.0 = st1 and env' = "sample_env 1120" and before = "[]" and evs = "[]" and evs' = "[]" and
        req' = "sample_req\<lparr>x_owner_token := Some (compute_owner_token toy_prims [2] sample_id (replicate 16 9))\<rparr>", THEN conjunct1] up start
    by (auto simp: Let_def)
qed

lemma bundle_gate_401:
  assumes "closed (phase (share_store st) s)"
  shows "bundle_gate env s req st = Some (Status 401)"
proof -
  have "verify_bundle_token s t (e_now env) (share_store st) = Inr False" for t
    using assms token_needs_uploading by (intro verify_bundle_token_total) (force simp: closed_def)
  then show ?thesis by (simp add: bundle_gate_def split: option.splits)
qed

lemma bundle_gate_None:
  assumes "bundle_gate env s req st = None"
  shows "phase (share_store st) s = Uploading \<and> (\<exists>row. map_of (shares (share_store st)) s = Some row \<and> kind row \<noteq> KindFile)"
  using assms token_needs_uploading [of s _ "e_now env" "share_store st"]
  by (auto simp: bundle_gate_def get_meta_def split: option.splits sum.splits bool.splits if_splits)

lemma seal_bundle_steps:
  assumes "seal_bundle cfg env s req st = (Status 204, st')"
  obtains w st1 s2 s3 where "bundle_gate env s req st = None"
    and "receive_body cfg env (client_ip_of cfg req) s (tmp_file ''_manifest'') req st = (Inr w, st1)" and "V7_MIN_SIZE \<le> length w"
    and "record_blob (e_end env) s ''_manifest'' (u64_as_i64 (length w))
       (rename_file s (tmp_file ''_manifest'') (blob_file ''_manifest'') (share_store st1)) = (Inr (), s2)"
    and "mark_sealed s s2 = (Inr (), s3)" and "share_store st' = s3"
    and "share_storage_tracker st' = storage_register (client_ip_of cfg req) s (length w) (share_storage_tracker st1)"
proof (cases "bundle_gate env s req st")
  case (Some r)
  have "r \<noteq> Status 204" using Some by (auto simp: bundle_gate_def split: option.splits if_splits sum.splits bool.splits)
  then show ?thesis using assms Some by (auto simp: seal_bundle_def Let_def split: if_splits)
next
  case None
  show ?thesis
  proof (cases "receive_body cfg env (client_ip_of cfg req) s (tmp_file ''_manifest'') req st")
    case (Pair x st1)
    show ?thesis
      using assms None Pair that
      by (cases x) (auto simp: seal_bundle_def Let_def split: if_splits prod.splits sum.splits StreamError.splits)
  qed
qed

lemma upload_bundle_finish_steps:
  assumes "upload_bundle_finish cfg env s b req st = (Status 204, st')"
  obtains w st1 s2 where "receive_body cfg env (client_ip_of cfg req) s (tmp_file b) req st = (Inr w, st1)" and "V7_MIN_SIZE \<le> length w"
    and "record_blob (e_end env) s b (u64_as_i64 (length w)) (rename_file s (tmp_file b) (blob_file b) (share_store st1)) = (Inr (), s2)"
    and "share_store st' = s2"
    and "share_storage_tracker st' = storage_register (client_ip_of cfg req) s (length w) (share_storage_tracker st1)"
proof (cases "receive_body cfg env (client_ip_of cfg req) s (tmp_file b) req st")
  case (Pair x st1)
  show ?thesis
    using assms Pair that by (cases x) (auto simp: upload_bundle_finish_def Let_def split: if_splits prod.splits sum.splits StreamError.splits)
qed

lemma upload_bundle_finish_204:
  assumes "upload_bundle_finish cfg env s b req st = (Status 204, st')"
  shows "phase (share_store st') s = phase (share_store st) s \<and>
    (\<exists>w. accepted_body cfg req w \<and> read_file s (blob_file b) (share_store st') = Some w)"
proof -
  from upload_bundle_finish_steps [OF assms]
  obtain w st1 s2 where R: "receive_body cfg env (client_ip_of cfg req) s (tmp_file b) req st = (Inr w, st1)" and big: "V7_MIN_SIZE \<le> length w"
    and rec: "record_blob (e_end env) s b (u64_as_i64 (length w)) (rename_file s (tmp_file b) (blob_file b) (share_store st1)) = (Inr (), s2)"
    and st': "share_store st' = s2" by metis
  note B = receive_body_Inr [OF R big]
  obtain row where row: "map_of (shares (share_store st1)) s = Some row" "\<exists>n. map_of (shares s2) s = Some (row\<lparr>total_bytes := n\<rparr>)"
      and d: "dirs s2 = dirs (rename_file s (tmp_file b) (blob_file b) (share_store st1))"
    using record_blob_Inr [OF rec] by auto
  have "read_file s (blob_file b) s2 = Some w"
    using read_file_dirs [OF d] read_rename [of s "tmp_file b" "share_store st1" w] B by simp
  moreover have "phase s2 s = phase (share_store st) s" using row B by (auto simp: phase_def)
  ultimately show ?thesis using B st' by auto
qed

lemma seal_bundle_204:
  assumes "seal_bundle cfg env s req st = (Status 204, st')"
  shows "phase (share_store st) s = Uploading \<and> phase (share_store st') s = Published \<and>
    (\<exists>w. accepted_body cfg req w \<and> content (share_store st') s ''_manifest'' = Some w)"
proof -
  from seal_bundle_steps [OF assms]
  obtain w st1 s2 s3 where gate: "bundle_gate env s req st = None"
    and R: "receive_body cfg env (client_ip_of cfg req) s (tmp_file ''_manifest'') req st = (Inr w, st1)" and big: "V7_MIN_SIZE \<le> length w"
    and rec: "record_blob (e_end env) s ''_manifest'' (u64_as_i64 (length w))
       (rename_file s (tmp_file ''_manifest'') (blob_file ''_manifest'') (share_store st1)) = (Inr (), s2)"
    and seal: "mark_sealed s s2 = (Inr (), s3)" and st': "share_store st' = s3" by metis
  note B = receive_body_Inr [OF R big] and G = bundle_gate_None [OF gate]
  obtain row where row: "map_of (shares (share_store st1)) s = Some row" "\<exists>n. map_of (shares s2) s = Some (row\<lparr>total_bytes := n\<rparr>)"
      and d: "dirs s2 = dirs (rename_file s (tmp_file ''_manifest'') (blob_file ''_manifest'') (share_store st1))"
    using record_blob_Inr [OF rec] by auto
  have d3: "dirs s3 = dirs s2" using mark_sealed_Inr [OF seal] by auto
  have "\<not> revoked row" using G row B by (auto simp: phase_def split: if_splits)
  then have "phase s3 s = Published" using mark_sealed_Inr [OF seal] row by (auto simp: phase_def)
  moreover have "read_file s (blob_file ''_manifest'') s3 = Some w"
    using read_file_dirs [OF trans [OF d3 d]] read_rename [of s "tmp_file ''_manifest''" "share_store st1" w] B by simp
  ultimately show ?thesis using G B st' by (auto simp: content_def)
qed

text \<open>
  C37. Sealing a bundle: a seal publishes the share together with its manifest, and a blob or seal
  request that arrives once the share is sealed or revoked is refused and changes nothing.  The check
  is made only when a blob request starts, though: a blob request that was let through before the seal
  and whose body arrives after it still succeeds, and its body is then served as part of the published
  share, so the content of a sealed share can change.
\<close>
theorem upload_across_seal:
  "(seal_bundle cfg env s req st = (Status 204, st1) \<longrightarrow>
      phase (share_store st1) s = Published \<and> (\<exists>w. accepted_body cfg req w \<and> content (share_store st1) s ''_manifest'' = Some w)) \<and>
   (closed (phase (share_store st) s) \<longrightarrow>
      snd (upload_bundle_blob cfg env s b req st) = st \<and> snd (seal_bundle cfg env s req st) = st \<and>
      fst (upload_bundle_blob cfg env s b req st) \<in> {Status 400, Status 401} \<and> fst (seal_bundle cfg env s req st) \<in> {Status 400, Status 401}) \<and>
   (upload_bundle_start cfg env' s b req' st = None \<and> seal_bundle cfg env s req st = (Status 204, st1) \<and>
      upload_bundle_finish cfg env' s b req' st1 = (Status 204, st2) \<longrightarrow>
      (\<exists>w. accepted_body cfg req' w \<and> content (share_store st2) s b = Some w))"
proof (intro conjI impI, goal_cases)
  case (3)
  then show ?case using upload_bundle_closed by (metis prod.collapse)
next
  case 4
  then show ?case using seal_bundle_closed by (metis prod.collapse)
next
  case 7
  then show ?case using seal_bundle_204 upload_bundle_finish_204 by (metis content_def)
next
  case 5
  then show ?case using bundle_gate_401 [of st s env req] by (simp add: upload_bundle_blob_def upload_bundle_start_def)
next
  case 6
  then show ?case using bundle_gate_401 [of st s env req] by (simp add: seal_bundle_def Let_def)
qed (use seal_bundle_204 in blast)+


definition sample_bundle :: AppState where
  "sample_bundle = sample_app\<lparr>share_store := \<lparr>shares = [(sample_id, \<lparr>kind = KindFolder, created_at = 1000, expires_at = 5000, revoked = False,
     sealed = False, token_nonce = replicate 16 9, total_bytes = 0, bundle_token = Some (replicate 32 5)\<rparr>)], blobs = [], dirs = [(sample_id, [])]\<rparr>\<rparr>"

lemma sample_bundle_store:
  "share_store sample_bundle = \<lparr>shares = [(sample_id, \<lparr>kind = KindFolder, created_at = 1000, expires_at = 5000, revoked = False,
     sealed = False, token_nonce = replicate 16 9, total_bytes = 0, bundle_token = Some (replicate 32 5)\<rparr>)], blobs = [], dirs = [(sample_id, [])]\<rparr>"
  by (simp add: sample_bundle_def)

definition sample_breq :: Request where
  "sample_breq = sample_req\<lparr>x_bundle_token := Some (hex_encode (replicate 32 5))\<rparr>"

lemma sample_gate: "bundle_gate (sample_env 1100) sample_id sample_breq sample_bundle = None"
proof -
  have "verify_bundle_token sample_id (replicate 32 5) 1100 (share_store sample_bundle) = Inr True"
    by (simp add: verify_bundle_token_iff sample_bundle_def UNSEALED_MAX_LIFETIME_SECS_def)
  then show ?thesis
    by (simp add: bundle_gate_def sample_breq_def hex_roundtrip sample_env_def get_meta_def) (simp add: sample_bundle_def)
qed

lemma sample_bip: "client_ip_of sample_share_cfg sample_breq = IpV4 [1,2,3,4]"
  by (simp add: sample_breq_def client_ip_of_def extract_client_ip_def sample_share_cfg_def sample_req_def)

lemma sample_seal:
  "\<exists>st1 row. seal_bundle sample_share_cfg (sample_env 1100) sample_id sample_breq sample_bundle = (Status 204, st1) \<and>
     share_byte_budget st1 = sample_budget 1741 \<and> dirs (share_store st1) = [(sample_id, [(blob_file ''_manifest'', sample_blob)])] \<and>
     map_of (shares (share_store st1)) sample_id = Some row \<and> blobs (share_store st1) = [((sample_id, ''_manifest''), (1741, 1100))]"
proof -
  have "receive_body sample_share_cfg (sample_env 1100) (IpV4 [1,2,3,4]) sample_id (tmp_file ''_manifest'') sample_breq sample_bundle =
      (Inr sample_blob, on_store (write_file sample_id (tmp_file ''_manifest'') sample_blob) (sample_bundle\<lparr>share_byte_budget := sample_budget 1741\<rparr>))"
    using sample_receive [of sample_bundle sample_id 0 sample_breq "tmp_file ''_manifest''"]
    by (simp add: sample_bundle_def sample_breq_def sample_app_def sample_req_def)
  moreover have "e_rename (sample_env 1100)" "e_end (sample_env 1100) = 1100" by (simp_all add: sample_env_def)
  ultimately show ?thesis
    by (simp add: seal_bundle_def sample_id_valid sample_gate sample_bip sample_blob_facts V7_MIN_SIZE_def record_blob_def update_total_def blob_sum_def
        u64_as_i64_def i64_max_def mark_sealed_def sample_bundle_store rename_file_def remove_file_def write_file_def read_file_def on_store_def
        get_or_def Let_def)
qed

theorem upload_across_seal_witness:
  "\<exists>st1 st2. upload_bundle_start sample_share_cfg (sample_env 1100) sample_id (replicate 36 (CHR ''b'')) sample_breq sample_bundle = None \<and>
     seal_bundle sample_share_cfg (sample_env 1100) sample_id sample_breq sample_bundle = (Status 204, st1) \<and>
     content (share_store st1) sample_id (replicate 36 (CHR ''b'')) = None \<and>
     upload_bundle_finish sample_share_cfg (sample_env 1100) sample_id (replicate 36 (CHR ''b'')) sample_breq st1 = (Status 204, st2) \<and>
     content (share_store st2) sample_id (replicate 36 (CHR ''b'')) = Some sample_blob"
proof -
  let ?b = "replicate 36 (CHR ''b'')"
  obtain st1 row where seal: "seal_bundle sample_share_cfg (sample_env 1100) sample_id sample_breq sample_bundle = (Status 204, st1)"
    and bud: "share_byte_budget st1 = sample_budget 1741" and ds: "dirs (share_store st1) = [(sample_id, [(blob_file ''_manifest'', sample_blob)])]"
    and row: "map_of (shares (share_store st1)) sample_id = Some row" and bl: "blobs (share_store st1) = [((sample_id, ''_manifest''), (1741, 1100))]"
    using sample_seal by blast
  have ne: "?b \<noteq> ''_manifest''" "?b \<noteq> ''main''" by (rule notI, drule arg_cong [of _ _ length], simp)+
  have nolen: "content_length sample_breq = None" by (simp add: content_length_def sample_breq_def sample_req_def)
  from ne have start: "upload_bundle_start sample_share_cfg (sample_env 1100) sample_id ?b sample_breq sample_bundle = None"
    by (simp add: upload_bundle_start_def sample_id_valid is_valid_client_blob_id_def sample_gate uuid_char_def is_ascii_alphanumeric_def list_all_iff
        nolen)
  have "receive_body sample_share_cfg (sample_env 1100) (IpV4 [1,2,3,4]) sample_id (tmp_file ?b) sample_breq st1 =
      (Inr sample_blob, on_store (write_file sample_id (tmp_file ?b) sample_blob) (st1\<lparr>share_byte_budget := sample_budget 3482\<rparr>))"
    using sample_receive [of st1 sample_id 1741 sample_breq "tmp_file ?b"] ds bud by (simp add: sample_breq_def sample_req_def)
  moreover have "e_rename (sample_env 1100)" "e_end (sample_env 1100) = 1100" by (simp_all add: sample_env_def)
  ultimately obtain st2 where fin: "upload_bundle_finish sample_share_cfg (sample_env 1100) sample_id ?b sample_breq st1 = (Status 204, st2)"
    using row bl ne by (simp add: upload_bundle_finish_def sample_bip sample_blob_facts V7_MIN_SIZE_def record_blob_def update_total_def blob_sum_def
        u64_as_i64_def i64_max_def Let_def)
  have none: "content (share_store st1) sample_id ?b = None" using ds ne by (simp add: content_def read_file_def blob_file_def)
  have "accepted_body sample_share_cfg sample_breq w \<Longrightarrow> w = sample_blob" for w
    by (simp add: accepted_body_def sample_breq_def sample_req_def)
  then have "content (share_store st2) sample_id ?b = Some sample_blob"
    using upload_across_seal [THEN conjunct2, THEN conjunct2, rule_format, OF conjI [OF start conjI [OF seal fin]]] by blast
  then show ?thesis using start seal fin none by blast
qed

end
