(* ===== verification/Share_Quota.thy ===== *)
theory Share_Quota
  imports Share_Lifecycle
begin

text \<open>
  The per-address storage quota against the store: the charge of a share covers the bytes of its blobs,
  and no charge outlives its share, over every history of requests and sweeps.
\<close>

subsection \<open>The quota covers the store\<close>

definition sizes_ok :: "ShareStore \<Rightarrow> bool" where
  "sizes_ok a \<longleftrightarrow> (\<forall>x\<in>set (blobs a). 0 \<le> fst (snd x))"

text \<open>An effect on one share that adds at most \<open>d\<close> bytes of blobs and keeps the row.\<close>

definition adds :: "int \<Rightarrow> string \<Rightarrow> ShareStore \<Rightarrow> ShareStore \<Rightarrow> bool" where
  "adds d s a a' \<longleftrightarrow> via s a a' \<and> (map_of (shares a) s \<noteq> None \<longrightarrow> map_of (shares a') s \<noteq> None) \<and>
     (sizes_ok a \<longrightarrow> sizes_ok a' \<and> blob_sum s (blobs a') \<le> blob_sum s (blobs a) + d \<and>
        (\<forall>t. t \<noteq> s \<longrightarrow> blob_sum t (blobs a') = blob_sum t (blobs a)))"

lemma blob_sum_Cons: "blob_sum s (((t, b), (n, u)) # m) = (if t = s then n else 0) + blob_sum s m"
  by (simp add: blob_sum_def)

lemma blob_sum_nonneg: "(\<And>x. x \<in> set m \<Longrightarrow> 0 \<le> fst (snd x)) \<Longrightarrow> 0 \<le> blob_sum s m"
  unfolding blob_sum_def by (rule sum_list_nonneg) (fastforce split: if_splits)

lemma blob_sum_update_le:
  "(\<And>x. x \<in> set m \<Longrightarrow> 0 \<le> fst (snd x)) \<Longrightarrow> blob_sum s (AList.update (s, b) (n, u) m) \<le> blob_sum s m + n"
proof (induction m)
  case (Cons x m)
  obtain t c n' u' where x: "x = ((t, c), (n', u'))" by (metis prod_cases4 surj_pair)
  have "0 \<le> n'" using Cons.prems [of x] x by simp
  moreover have "blob_sum s (AList.update (s, b) (n, u) m) \<le> blob_sum s m + n" using Cons by auto
  ultimately show ?case using x by (auto simp: blob_sum_Cons)
qed (simp add: blob_sum_def)

lemma blob_sum_delete_le:
  "(\<And>x. x \<in> set m \<Longrightarrow> 0 \<le> fst (snd x)) \<Longrightarrow> blob_sum s (AList.delete (s, b) m) \<le> blob_sum s m"
proof (induction m)
  case (Cons x m)
  obtain t c n' u' where x: "x = ((t, c), (n', u'))" by (metis prod_cases4 surj_pair)
  have "0 \<le> n'" using Cons.prems [of x] x by simp
  moreover have "blob_sum s (AList.delete (s, b) m) \<le> blob_sum s m" using Cons by auto
  ultimately show ?case using x by (auto simp: blob_sum_Cons)
qed (simp add: blob_sum_def)

lemma set_update_sub: "x \<in> set (AList.update k v m) \<Longrightarrow> x = (k, v) \<or> x \<in> set m"
  by (induction m) (auto split: if_splits)

lemma delete_set_sub: "set (AList.delete k m) \<subseteq> set m"
  by (induction m) auto

lemma adds_refl [simp]: "0 \<le> d \<Longrightarrow> adds d s a a"
  by (simp add: adds_def)

lemma adds_trans: "adds d s a b \<Longrightarrow> adds e s b c \<Longrightarrow> adds (d + e) s a c"
  using via_trans [of s a b c] by (auto simp: adds_def)

lemma adds_same: "via s a b \<Longrightarrow> blobs b = blobs a \<Longrightarrow> (map_of (shares a) s \<noteq> None \<Longrightarrow> map_of (shares b) s \<noteq> None) \<Longrightarrow> adds 0 s a b"
  by (simp add: adds_def sizes_ok_def)

lemma adds_step: "adds d s a b \<Longrightarrow> adds 0 s b c \<Longrightarrow> adds d s a c"
  using adds_trans by fastforce

named_theorems adds_intros \<open>effects on one share\<close>

lemma adds_basic:
  "adds 0 s a (snd (create_share ok now s k e n a))"
  "adds 0 s a (snd (mark_sealed s a))"
  "adds 0 s a (snd (set_bundle_token s tok a))"
  "adds 0 s a (write_file s f c a)"
  "adds 0 s a (remove_file s f a)"
proof -
  show "adds 0 s a (snd (create_share ok now s k e n a))"
    by (rule adds_same [OF via_steps(1) [OF via_refl]]) (auto simp: create_share_def Let_def)
  show "adds 0 s a (snd (mark_sealed s a))"
    by (rule adds_same [OF via_steps(2) [OF via_refl]]) (auto simp: mark_sealed_def split: option.splits)
  show "adds 0 s a (snd (set_bundle_token s tok a))"
    by (rule adds_same [OF via_steps(3) [OF via_refl]]) (auto simp: set_bundle_token_def split: option.splits)
  show "adds 0 s a (write_file s f c a)" by (rule adds_same [OF via_steps(7) [OF via_refl]]) auto
  show "adds 0 s a (remove_file s f a)"
    by (rule adds_same [OF via_steps(8) [OF via_refl]]) (auto simp: remove_file_def split: option.splits)
qed

lemma adds_revoke: "adds 0 s a (snd (revoke_share l s a))"
proof (cases "map_of (shares a) s")
  case (Some row)
  then have b: "blobs (snd (revoke_share l s a)) = drop_blobs s (blobs a)" "map_of (shares (snd (revoke_share l s a))) s \<noteq> None"
    by (simp_all add: revoke_share_def Let_def)
  have "sizes_ok a \<Longrightarrow> 0 \<le> blob_sum s (blobs a)" by (rule blob_sum_nonneg) (auto simp: sizes_ok_def)
  then show ?thesis
    using b via_steps(5) [OF via_refl, of s a l] by (auto simp: adds_def sizes_ok_def drop_blobs_def blob_sum_drop [unfolded drop_blobs_def])
qed (simp add: revoke_share_def)

lemma adds_delete: "adds 0 s a (snd (delete_blob ok s b a))"
proof (cases "update_total s (a\<lparr>blobs := AList.delete (s, b) (blobs a)\<rparr>)")
  case (Inr a1)
  have b: "blobs (snd (delete_blob ok s b a)) = AList.delete (s, b) (blobs a)"
    using Inr update_total_frame [OF Inr] by (simp add: delete_blob_def remove_file_def split: option.splits)
  have r: "map_of (shares a) s \<noteq> None \<Longrightarrow> map_of (shares (snd (delete_blob ok s b a))) s \<noteq> None"
    using Inr by (auto simp: delete_blob_def update_total_def remove_file_def Let_def split: option.splits if_splits)
  have "set (AList.delete (s, b) (blobs a)) \<subseteq> set (blobs a)" using delete_set_sub .
  then have "sizes_ok a \<Longrightarrow> sizes_ok (snd (delete_blob ok s b a))" using b by (auto simp: sizes_ok_def)
  moreover have "sizes_ok a \<Longrightarrow> blob_sum s (AList.delete (s, b) (blobs a)) \<le> blob_sum s (blobs a)"
    by (rule blob_sum_delete_le) (simp add: sizes_ok_def)
  ultimately show ?thesis using b r via_steps(6) [OF via_refl, of s a ok b] by (simp add: adds_def blob_sum_simps)
qed (simp add: delete_blob_def)

lemma adds_record:
  assumes "record_blob now s b n a = (Inr u, a')" and "0 \<le> n"
  shows "adds n s a a'"
proof -
  note R = record_blob_Inr [OF assms(1)]
  have "via s a a'" using via_eqs(4) [OF assms(1) via_refl] .
  moreover have "sizes_ok a \<Longrightarrow> sizes_ok a'" using R assms(2) by (auto simp: sizes_ok_def dest!: set_update_sub)
  moreover have "sizes_ok a \<Longrightarrow> blob_sum s (AList.update (s, b) (n, now) (blobs a)) \<le> blob_sum s (blobs a) + n"
    by (rule blob_sum_update_le) (simp add: sizes_ok_def)
  ultimately show ?thesis using R by (auto simp: adds_def blob_sum_simps)
qed

lemma adds_steps [adds_intros]:
  "adds d s st a \<Longrightarrow> adds d s st (snd (create_share ok now s k e n a))"
  "adds d s st a \<Longrightarrow> adds d s st (snd (mark_sealed s a))"
  "adds d s st a \<Longrightarrow> adds d s st (snd (set_bundle_token s tok a))"
  "adds d s st a \<Longrightarrow> adds d s st (write_file s f c a)"
  "adds d s st a \<Longrightarrow> adds d s st (remove_file s f a)"
  "adds d s st a \<Longrightarrow> adds d s st (snd (revoke_share l s a))"
  "adds d s st a \<Longrightarrow> adds d s st (snd (delete_blob ok s b a))"
  by (erule adds_step, rule adds_basic adds_revoke adds_delete)+

lemma adds_files [adds_intros]:
  "adds d s st a \<Longrightarrow> adds d s st (unlink env s f a)"
  "adds d s st a \<Longrightarrow> adds d s st (rename_file s f g a)"
  "adds d s st a \<Longrightarrow> adds d s st (rollback env s f a)"
  by (auto simp: unlink_def rename_file_def rollback_def intro!: adds_steps split: option.splits)

lemma adds_eqs:
  "create_share ok now s k e n a = (r, a') \<Longrightarrow> adds d s st a \<Longrightarrow> adds d s st a'"
  "mark_sealed s a = (r, a') \<Longrightarrow> adds d s st a \<Longrightarrow> adds d s st a'"
  "set_bundle_token s tok a = (r, a') \<Longrightarrow> adds d s st a \<Longrightarrow> adds d s st a'"
  "revoke_share l s a = (r, a') \<Longrightarrow> adds d s st a \<Longrightarrow> adds d s st a'"
  using adds_steps(1,2,3,6) [of d s st a] by (metis snd_conv)+

lemma adds_create: "create_share ok now s k e n a = (r, a') \<Longrightarrow> adds 0 s a a'"
  using adds_eqs(1) adds_refl order_refl by blast

lemma record_blob_Inl: "record_blob now s b n a = (Inl e, a') \<Longrightarrow> a' = a"
  by (auto simp: record_blob_def split: if_splits sum.splits)

lemma record_then_sealed: "record_blob now s b n a = (Inr u, a') \<Longrightarrow> mark_sealed s a' \<noteq> (Inl e, a2)"
  using record_blob_Inr [of now s b n a u a'] by (auto simp: mark_sealed_def split: option.splits)

lemma receive_body_adds:
  assumes "receive_body cfg env ip s tmp req st = (r, st')"
  shows "adds 0 s (share_store st) (share_store st')"
  using assms by (auto simp: receive_body_def Let_def intro!: adds_intros split: prod.splits sum.splits if_splits)


text \<open>What an event may do to the store and the quota: nothing to the quota, register what it stored, or release what it dropped.\<close>

definition idle :: "string \<Rightarrow> AppState \<Rightarrow> AppState \<Rightarrow> bool" where
  "idle s st st' \<longleftrightarrow> adds 0 s (share_store st) (share_store st') \<and> share_storage_tracker st' = share_storage_tracker st"

definition stores :: "string \<Rightarrow> AppState \<Rightarrow> AppState \<Rightarrow> bool" where
  "stores s st st' \<longleftrightarrow> (\<exists>ip n. 0 < n \<and> n < 2 ^ 63 \<and> adds (u64_as_i64 n) s (share_store st) (share_store st') \<and>
     map_of (shares (share_store st')) s \<noteq> None \<and> blob_sum s (blobs (share_store st')) \<le> i64_max \<and>
     share_storage_tracker st' = storage_register ip s n (share_storage_tracker st))"

definition drops :: "string \<Rightarrow> AppState \<Rightarrow> AppState \<Rightarrow> bool" where
  "drops s st st' \<longleftrightarrow> adds 0 s (share_store st) (share_store st') \<and> blob_sum s (blobs (share_store st')) = 0 \<and>
     share_storage_tracker st' = storage_release s (share_storage_tracker st)"

definition small_body :: "Request \<Rightarrow> bool" where
  "small_body req \<longleftrightarrow> length (concat (map the (r_body req))) < 2 ^ 63"

lemma accepted_small: "accepted_body cfg req w \<Longrightarrow> small_body req \<Longrightarrow> 0 < length w \<and> length w < 2 ^ 63 \<and> 0 \<le> u64_as_i64 (length w)"
proof -
  assume "accepted_body cfg req w" and "small_body req"
  then have "V7_MIN_SIZE \<le> length w" "length w < 2 ^ 63" unfolding accepted_body_def small_body_def by blast+
  then have "0 < length w \<and> length w < 2 ^ 63" unfolding V7_MIN_SIZE_def by linarith
  then show ?thesis by (simp add: u64_as_i64_def Let_def)
qed

lemma upload_b2_finish_failed:
  assumes "upload_b2_finish P cfg env ip s e n req st = (r, st')" and "\<And>s e t. r \<noteq> ShareCreateResponse s e t"
  shows "idle s st st'"
proof (cases "receive_body cfg env ip s (tmp_file ''main'') req st")
  case (Pair x st1)
  note v = receive_body_adds [OF Pair] receive_body_via [OF Pair]
  show ?thesis
    using assms v
    by (auto simp: upload_b2_finish_def idle_def Pair Let_def intro!: adds_intros dest: record_then_sealed dest!: record_blob_Inl
        split: sum.splits prod.splits if_splits)
qed

lemma stored_effect:
  assumes R: "receive_body cfg env ip s tmp req st = (Inr w, st1)" and big: "V7_MIN_SIZE \<le> length w" and small: "small_body req"
    and rec: "record_blob now s b (u64_as_i64 (length w)) (rename_file s tmp f (share_store st1)) = (Inr (), s2)"
  shows "adds (u64_as_i64 (length w)) s (share_store st) s2 \<and> map_of (shares s2) s \<noteq> None \<and> blob_sum s (blobs s2) \<le> i64_max \<and>
     0 < length w \<and> length w < 2 ^ 63 \<and> share_storage_tracker st1 = share_storage_tracker st"
proof -
  have w: "0 < length w" "length w < 2 ^ 63" "0 \<le> u64_as_i64 (length w)" using accepted_small small receive_body_Inr [OF R big] by blast+
  have "adds 0 s (share_store st) (rename_file s tmp f (share_store st1))" using receive_body_adds [OF R] by (rule adds_intros)
  from adds_trans [OF this adds_record [OF rec w(3)]] show ?thesis using record_blob_Inr [OF rec] w receive_body_via [OF R] by auto
qed

lemma upload_b2_finish_effect:
  assumes fin: "upload_b2_finish P cfg env ip s e n req st = (r, st')" and small: "small_body req"
  shows "idle s st st' \<or> stores s st st'"
proof (cases "\<exists>s e t. r = ShareCreateResponse s e t")
  case True
  then obtain s' e' t where fin': "upload_b2_finish P cfg env ip s e n req st = (ShareCreateResponse s' e' t, st')" using fin by auto
  from upload_b2_finish_steps [OF fin']
  obtain w st1 s2 s3 where R: "receive_body cfg env ip s (tmp_file ''main'') req st = (Inr w, st1)" and big: "V7_MIN_SIZE \<le> length w"
    and rec: "record_blob (e_end env) s ''main'' (u64_as_i64 (length w)) (rename_file s (tmp_file ''main'') (blob_file ''main'') (share_store st1)) = (Inr (), s2)"
    and seal: "mark_sealed s s2 = (Inr (), s3)" and res: "share_store st' = s3"
      "share_storage_tracker st' = storage_register ip s (length w) (share_storage_tracker st1)"
    by metis
  note E = stored_effect [OF R big small rec]
  have "adds (u64_as_i64 (length w)) s (share_store st) s3" using adds_eqs(2) [OF seal] E by blast
  then have "stores s st st'"
    unfolding stores_def using E mark_sealed_Inr [OF seal] res by (intro exI [of _ ip] exI [of _ "length w"]) auto
  then show ?thesis by simp
qed (use upload_b2_finish_failed [OF fin] in auto)


lemma idle_trans: "idle s a b \<Longrightarrow> idle s b c \<Longrightarrow> idle s a c"
  using adds_step by (auto simp: idle_def)

lemma idle_stores: "idle s a b \<Longrightarrow> stores s b c \<Longrightarrow> stores s a c"
  using adds_trans [of 0 s "share_store a" "share_store b"] by (fastforce simp: idle_def stores_def)

lemma upload_b2_share_effect:
  assumes up: "upload_b2_share P J cfg env nonce req st = (r, st')" and small: "small_body req"
  shows "\<exists>s. idle s st st' \<or> stores s st st'"
proof (cases "x_share_id req")
  case None
  then show ?thesis using upload_b2_share_no_id [OF up] by (auto simp: idle_def)
next
  case (Some s)
  obtain ok st1 where A: "authorize J cfg env ''share:b2'' req st = (ok, st1)" by (cases "authorize J cfg env ''share:b2'' req st")
  note F = authorize_frame [OF A]
  have "idle s st st' \<or> (\<exists>st2 e. idle s st st2 \<and> upload_b2_finish P cfg env (client_ip_of cfg req) s e nonce req st2 = (r, st'))"
    using up Some F
    by (fastforce simp: upload_b2_share_def A Let_def idle_def dest: adds_create
        split: option.splits if_splits prod.splits ShareCreationDecision.splits sum.splits StoreError.splits bool.splits)
  then show ?thesis using upload_b2_finish_effect [OF _ small] idle_trans idle_stores by blast
qed

lemma init_bundle_effect:
  assumes "init_bundle P J cfg env s nonce tok k secs req st = (r, st')"
  shows "idle s st st'"
proof (cases "authorize J cfg env ''share:bundle:init'' req st")
  case (Pair ok st1)
  note A = authorize_frame [OF Pair]
  show ?thesis
    using assms A
    by (auto simp: init_bundle_def idle_def Pair Let_def intro!: adds_intros elim!: adds_eqs dest!: adds_create
        split: option.splits if_splits prod.splits ShareCreationDecision.splits sum.splits bool.splits)
qed

lemma upload_bundle_finish_effect:
  assumes fin: "upload_bundle_finish cfg env s b req st = (r, st')" and small: "small_body req"
  shows "idle s st st' \<or> stores s st st'"
proof (cases "r = Status 204")
  case True
  from upload_bundle_finish_steps [OF fin [unfolded True]]
  obtain w st1 s2 where R: "receive_body cfg env (client_ip_of cfg req) s (tmp_file b) req st = (Inr w, st1)" and big: "V7_MIN_SIZE \<le> length w"
    and rec: "record_blob (e_end env) s b (u64_as_i64 (length w)) (rename_file s (tmp_file b) (blob_file b) (share_store st1)) = (Inr (), s2)"
    and res: "share_store st' = s2" "share_storage_tracker st' = storage_register (client_ip_of cfg req) s (length w) (share_storage_tracker st1)"
    by metis
  have "stores s st st'"
    unfolding stores_def using stored_effect [OF R big small rec] res by (intro exI [of _ "client_ip_of cfg req"] exI [of _ "length w"]) auto
  then show ?thesis by simp
next
  case False
  obtain x st1 where R: "receive_body cfg env (client_ip_of cfg req) s (tmp_file b) req st = (x, st1)" by fastforce
  have "idle s st st'"
    using fin False receive_body_adds [OF R] receive_body_via [OF R]
    by (auto simp: upload_bundle_finish_def idle_def R Let_def intro!: adds_intros dest!: record_blob_Inl
        split: sum.splits prod.splits if_splits StreamError.splits)
  then show ?thesis by simp
qed

lemma upload_bundle_blob_effect:
  "upload_bundle_blob cfg env s b req st = (r, st') \<Longrightarrow> small_body req \<Longrightarrow> idle s st st' \<or> stores s st st'"
  using upload_bundle_finish_effect by (auto simp: upload_bundle_blob_def idle_def split: option.splits)

lemma seal_bundle_effect:
  assumes fin: "seal_bundle cfg env s req st = (r, st')" and small: "small_body req"
  shows "idle s st st' \<or> stores s st st'"
proof (cases "r = Status 204")
  case True
  from seal_bundle_steps [OF fin [unfolded True]]
  obtain w st1 s2 s3 where R: "receive_body cfg env (client_ip_of cfg req) s (tmp_file ''_manifest'') req st = (Inr w, st1)" and big: "V7_MIN_SIZE \<le> length w"
    and rec: "record_blob (e_end env) s ''_manifest'' (u64_as_i64 (length w))
       (rename_file s (tmp_file ''_manifest'') (blob_file ''_manifest'') (share_store st1)) = (Inr (), s2)"
    and seal: "mark_sealed s s2 = (Inr (), s3)" and res: "share_store st' = s3"
      "share_storage_tracker st' = storage_register (client_ip_of cfg req) s (length w) (share_storage_tracker st1)" by metis
  note E = stored_effect [OF R big small rec]
  have "adds (u64_as_i64 (length w)) s (share_store st) s3" using adds_eqs(2) [OF seal] E by blast
  then have "stores s st st'"
    unfolding stores_def using E mark_sealed_Inr [OF seal] res by (intro exI [of _ "client_ip_of cfg req"] exI [of _ "length w"]) auto
  then show ?thesis by simp
next
  case False
  obtain x st1 where R: "receive_body cfg env (client_ip_of cfg req) s (tmp_file ''_manifest'') req st = (x, st1)" by fastforce
  have "idle s st st'"
    using fin False receive_body_adds [OF R] receive_body_via [OF R]
    by (auto simp: seal_bundle_def idle_def R Let_def intro!: adds_intros dest!: record_blob_Inl dest: record_then_sealed
        split: sum.splits prod.splits if_splits StreamError.splits option.splits)
  then show ?thesis by simp
qed

lemma revoke_b2_share_effect:
  assumes "revoke_b2_share P cfg env s req st = (r, st')"
  shows "idle s st st' \<or> drops s st st'"
proof (cases "ends P cfg (share_store st) s (RevokeB2 env s req)")
  case True
  then obtain row tok where row: "map_of (shares (share_store st)) s = Some row" and tok: "x_owner_token req = Some tok"
    "verify_owner_token P (share_signing_key cfg) s (token_nonce (meta_of row)) tok" by auto
  have "fst (revoke_share (e_rmdir env) s (share_store st)) = Inr ()" "blob_sum s (blobs (snd (revoke_share (e_rmdir env) s (share_store st)))) = 0"
    using row by (simp_all add: revoke_share_def Let_def)
  then have "drops s st st'"
    using assms row tok adds_revoke [of s "share_store st" "e_rmdir env"]
    by (cases "revoke_share (e_rmdir env) s (share_store st)") (auto simp: revoke_b2_share_def get_meta_def drops_def)
  then show ?thesis by simp
qed (use revoke_not_authorised [OF assms] in \<open>auto simp: idle_def\<close>)

definition charged :: "ShareStoragePerIpTracker \<Rightarrow> string \<Rightarrow> int" where
  "charged t s = (case map_of (by_share t) s of Some (_, n) \<Rightarrow> int n | None \<Rightarrow> 0)"

text \<open>
  Blob sizes are not negative, every charge belongs to a share of the index, and, when the quota is
  enabled, the charge of a share covers the bytes of its blobs.
\<close>

definition quota_ok :: "AppState \<Rightarrow> bool" where
  "quota_ok st \<longleftrightarrow> store_inv (share_store st) \<and> sizes_ok (share_store st) \<and>
     (\<forall>s. map_of (by_share (share_storage_tracker st)) s \<noteq> None \<longrightarrow> map_of (shares (share_store st)) s \<noteq> None) \<and>
     (max_bytes_per_ip (share_storage_tracker st) \<noteq> 0 \<longrightarrow>
        (\<forall>s. blob_sum s (blobs (share_store st)) \<le> charged (share_storage_tracker st) s))"

lemma release_by_share: "map_of (by_share (storage_release s t)) s' = (if s' = s then None else map_of (by_share t) s')"
  by (auto simp: storage_release_def Let_def split: option.splits prod.splits)

lemma release_limit [simp]: "max_bytes_per_ip (storage_release s t) = max_bytes_per_ip t"
  by (simp add: storage_release_def Let_def split: option.splits prod.splits)

lemma register_limit [simp]: "max_bytes_per_ip (storage_register ip s n t) = max_bytes_per_ip t"
  by (simp add: storage_register_def Let_def split: option.splits prod.splits)

lemma register_by_share:
  "map_of (by_share (storage_register ip s n t)) s' \<noteq> None \<Longrightarrow> s' = s \<or> map_of (by_share t) s' \<noteq> None"
  by (auto simp: storage_register_def Let_def split: option.splits prod.splits if_splits)

lemma register_charged:
  "max_bytes_per_ip t \<noteq> 0 \<Longrightarrow> 0 < n \<Longrightarrow>
     charged (storage_register ip s n t) s' = (if s' = s then min (charged t s + int n) (int u64_max) else charged t s') \<or>
     u64_max < n"
  by (auto simp: storage_register_def charged_def Let_def sat_add64_def split: option.splits prod.splits)

lemma charged_nonneg [simp]: "0 \<le> charged t s"
  by (simp add: charged_def split: option.splits)

lemma quota_okI:
  assumes "store_inv (share_store st)" and "sizes_ok (share_store st)"
    and "\<And>s. map_of (by_share (share_storage_tracker st)) s \<noteq> None \<Longrightarrow> map_of (shares (share_store st)) s \<noteq> None"
    and "\<And>s. max_bytes_per_ip (share_storage_tracker st) \<noteq> 0 \<Longrightarrow> blob_sum s (blobs (share_store st)) \<le> charged (share_storage_tracker st) s"
  shows "quota_ok st"
  using assms unfolding quota_ok_def by blast

lemma quota_okD:
  assumes "quota_ok st"
  shows "store_inv (share_store st)" and "sizes_ok (share_store st)"
    and "map_of (by_share (share_storage_tracker st)) s \<noteq> None \<Longrightarrow> map_of (shares (share_store st)) s \<noteq> None"
    and "max_bytes_per_ip (share_storage_tracker st) \<noteq> 0 \<Longrightarrow> blob_sum s (blobs (share_store st)) \<le> charged (share_storage_tracker st) s"
  using assms unfolding quota_ok_def by blast+

lemma idle_quota:
  assumes "idle s st st'" and "quota_ok st"
  shows "quota_ok st'"
proof -
  have ad: "adds 0 s (share_store st) (share_store st')" and t: "share_storage_tracker st' = share_storage_tracker st"
    using assms(1) by (simp_all add: idle_def)
  have v: "via s (share_store st) (share_store st')" using ad by (simp add: adds_def)
  have "map_of (shares (share_store st')) u \<noteq> None" if "map_of (shares (share_store st)) u \<noteq> None" for u
    using that ad via_other(1) [OF v, of u] by (cases "u = s") (auto simp: adds_def)
  moreover have "blob_sum u (blobs (share_store st')) \<le> blob_sum u (blobs (share_store st))" for u
    using ad assms(2) by (cases "u = s") (auto simp: adds_def quota_ok_def)
  ultimately show ?thesis
    using assms(2) ad via_inv [OF v] t unfolding quota_ok_def by (fastforce simp: adds_def intro: order_trans)
qed

lemma drops_quota:
  assumes "drops s st st'" and "quota_ok st"
  shows "quota_ok st'"
proof -
  have ad: "adds 0 s (share_store st) (share_store st')" and z: "blob_sum s (blobs (share_store st')) = 0"
    and t: "share_storage_tracker st' = storage_release s (share_storage_tracker st)"
    using assms(1) by (simp_all add: drops_def)
  have v: "via s (share_store st) (share_store st')" using ad by (simp add: adds_def)
  have "map_of (shares (share_store st')) u \<noteq> None" if "map_of (shares (share_store st)) u \<noteq> None" "u \<noteq> s" for u
    using that via_other(1) [OF v, of u] by auto
  moreover have "blob_sum u (blobs (share_store st')) \<le> charged (share_storage_tracker st') u" if "max_bytes_per_ip (share_storage_tracker st) \<noteq> 0" for u
    using ad assms(2) that z by (cases "u = s") (auto simp: adds_def quota_ok_def t charged_def release_by_share)
  ultimately show ?thesis
    using assms(2) ad via_inv [OF v] unfolding quota_ok_def by (simp add: adds_def t release_by_share split: if_splits)
qed

lemma stores_quota:
  assumes "stores s st st'" and "quota_ok st"
  shows "quota_ok st'"
proof -
  obtain ip n where n: "0 < n" "n < 2 ^ 63" and ad: "adds (u64_as_i64 n) s (share_store st) (share_store st')"
    and row: "map_of (shares (share_store st')) s \<noteq> None" and le: "blob_sum s (blobs (share_store st')) \<le> i64_max"
    and t: "share_storage_tracker st' = storage_register ip s n (share_storage_tracker st)"
    using assms(1) unfolding stores_def by blast
  have v: "via s (share_store st) (share_store st')" using ad by (simp add: adds_def)
  have i: "u64_as_i64 n = int n" using n(2) by (simp add: u64_as_i64_def)
  have rows: "map_of (shares (share_store st')) u \<noteq> None" if "u = s \<or> map_of (shares (share_store st)) u \<noteq> None" for u
    using that via_other(1) [OF v, of u] row by (cases "u = s") auto
  have cover: "blob_sum u (blobs (share_store st')) \<le> charged (share_storage_tracker st') u" if on: "max_bytes_per_ip (share_storage_tracker st) \<noteq> 0" for u
  proof -
    have c: "charged (share_storage_tracker st') u =
        (if u = s then min (charged (share_storage_tracker st) s + int n) (int u64_max) else charged (share_storage_tracker st) u)"
      using register_charged [OF on n(1), of ip s u] n(2) by (simp add: t)
    have ch: "blob_sum s (blobs (share_store st)) \<le> charged (share_storage_tracker st) s" for s using assms(2) on by (simp add: quota_ok_def)
    have "i64_max \<le> int u64_max" by (simp add: i64_max_def)
    moreover have "blob_sum s (blobs (share_store st')) \<le> blob_sum s (blobs (share_store st)) + int n"
      using ad assms(2) i by (simp add: adds_def quota_ok_def)
    moreover have "u \<noteq> s \<Longrightarrow> blob_sum u (blobs (share_store st')) = blob_sum u (blobs (share_store st))"
      using ad assms(2) by (simp add: adds_def quota_ok_def)
    ultimately show ?thesis using le ch [of s] ch [of u] unfolding c by (cases "u = s") simp_all
  qed
  show ?thesis
  proof (rule quota_okI)
    show "map_of (shares (share_store st')) u \<noteq> None" if "map_of (by_share (share_storage_tracker st')) u \<noteq> None" for u
      using that register_by_share [of ip s n "share_storage_tracker st" u] quota_okD(3) [OF assms(2), of u] rows [of u] unfolding t by blast
    show "blob_sum u (blobs (share_store st')) \<le> charged (share_storage_tracker st') u"
      if "max_bytes_per_ip (share_storage_tracker st') \<noteq> 0" for u using cover that by (simp add: t)
  qed (use ad quota_okD(1,2) [OF assms(2)] via_inv [OF v] in \<open>auto simp: adds_def\<close>)
qed


lemma purge_dirs_blobs: "blobs (snd (snd (purge_dirs left vs st))) = blobs st"
  by (induction left vs st rule: purge_dirs.induct) (auto split: prod.splits option.splits)

lemma delete_row_sub: "set (blobs (delete_row s a)) \<subseteq> set (blobs a)"
  by (auto simp: delete_row_def drop_blobs_def)

lemma delete_rows_blobs:
  "blob_sum u (blobs (foldl (\<lambda>st s. delete_row s st) a ids)) = (if u \<in> set ids then 0 else blob_sum u (blobs a)) \<and>
   set (blobs (foldl (\<lambda>st s. delete_row s st) a ids)) \<subseteq> set (blobs a)"
proof (induction ids arbitrary: a)
  case (Cons s ids)
  show ?case using Cons.IH [of "delete_row s a"] delete_row_sub [of s a] by auto
qed simp

lemma purge_blobs:
  assumes "purge_expired_and_revoked left now a = ((ids, freed), a')"
  shows "blob_sum u (blobs a') = (if u \<in> set ids then 0 else blob_sum u (blobs a)) \<and> (sizes_ok a \<longrightarrow> sizes_ok a')"
proof -
  define vs where "vs = map (\<lambda>(s, row). (s, total_bytes row)) (filter (\<lambda>(_, row). victim now row) (shares a))"
  obtain i f b where r: "purge_dirs left vs a = (i, f, b)" by (metis prod_cases3)
  have "a' = foldl (\<lambda>st s. delete_row s st) b ids"
    using assms r by (auto simp: purge_expired_and_revoked_def simp flip: vs_def)
  moreover have "blobs b = blobs a" using purge_dirs_blobs [of left vs a] r by simp
  ultimately show ?thesis using delete_rows_blobs [of u b ids] by (auto simp: sizes_ok_def)
qed

lemma release_all:
  "map_of (by_share (foldl (\<lambda>t i. storage_release i t) t ids)) s = (if s \<in> set ids then None else map_of (by_share t) s) \<and>
   max_bytes_per_ip (foldl (\<lambda>t i. storage_release i t) t ids) = max_bytes_per_ip t"
  by (induction ids arbitrary: t) (auto simp: release_by_share)

lemma sweep_quota:
  assumes "quota_ok st"
  shows "quota_ok (sweeper_tick left now st)"
proof -
  obtain ids freed a where r: "purge_expired_and_revoked left now (share_store st) = ((ids, freed), a)" by (metis prod.collapse)
  have inv: "store_inv (share_store st)" using assms by (simp add: quota_ok_def)
  note P = purge_spec [OF inv r] and B = purge_blobs [OF r]
  have st': "share_store (sweeper_tick left now st) = a"
    "share_storage_tracker (sweeper_tick left now st) = foldl (\<lambda>t i. storage_release i t) (share_storage_tracker st) ids"
    by (simp_all add: sweeper_tick_def r)
  have c: "charged (share_storage_tracker (sweeper_tick left now st)) s = (if s \<in> set ids then 0 else charged (share_storage_tracker st) s)" for s
    by (simp add: st' charged_def release_all)
  have "blob_sum s (blobs (share_store st)) \<le> charged (share_storage_tracker st) s" if "max_bytes_per_ip (share_storage_tracker st) \<noteq> 0" for s
    using assms that by (simp add: quota_ok_def)
  then show ?thesis
    using assms P(1,5) B unfolding quota_ok_def c by (simp add: st' release_all)
qed

fun event_small :: "Event \<Rightarrow> bool" where
  "event_small (UploadB2 env nonce req) = small_body req"
| "event_small (UploadBlob env s b req) = small_body req"
| "event_small (SealBundle env s req) = small_body req"
| "event_small _ = True"

lemma idle_same: "share_store st' = share_store st \<and> share_storage_tracker st' = share_storage_tracker st \<Longrightarrow> idle s st st'"
  by (simp add: idle_def)

lemma event_effect:
  assumes "event_small ev" and False: "\<And>left now. ev \<noteq> Sweep left now"
  shows "\<exists>s. idle s st (relay_apply P J cfg st ev) \<or> stores s st (relay_apply P J cfg st ev) \<or> drops s st (relay_apply P J cfg st ev)"
proof (cases ev)
  case (UploadB2 env nonce req)
  then show ?thesis
    using upload_b2_share_effect [of P J cfg env nonce req st] assms(1) by (cases "upload_b2_share P J cfg env nonce req st") auto
next
  case (InitBundle env s nonce tok k secs req)
  then show ?thesis
    using init_bundle_effect [of P J cfg env s nonce tok k secs req st] by (cases "init_bundle P J cfg env s nonce tok k secs req st") auto
next
  case (RevokeB2 env s req)
  then show ?thesis using revoke_b2_share_effect [of P cfg env s req st] by (cases "revoke_b2_share P cfg env s req st") auto
next
  case (UploadBlob env s b req)
  then show ?thesis
    using upload_bundle_blob_effect [of cfg env s b req st] assms(1) by (cases "upload_bundle_blob cfg env s b req st") auto
next
  case (SealBundle env s req)
  then show ?thesis using seal_bundle_effect [of cfg env s req st] assms(1) by (cases "seal_bundle cfg env s req st") auto
next
  case (GetB2 env s req)
  then show ?thesis using get_store(1) [of cfg env s req st] idle_same by (cases "get_b2_share cfg env s req st") auto
next
  case (GetMeta ord env s req)
  then show ?thesis using get_store(3) [of ord cfg env s req st] idle_same by (cases "get_share_meta ord cfg env s req st") auto
next
  case (GetBlob env s b req)
  then show ?thesis using get_store(2) [of cfg env s b req st] idle_same by (cases "get_share_blob cfg env s b req st") auto
next
  case (Headroom vfs env req)
  then show ?thesis using get_store(4) [of vfs cfg env req st] idle_same by (cases "get_share_headroom vfs cfg env req st") auto
qed (use False in \<open>auto simp: idle_def\<close>)

lemma event_quota:
  assumes "quota_ok st" and "event_small ev"
  shows "quota_ok (relay_apply P J cfg st ev) \<and>
    max_bytes_per_ip (share_storage_tracker (relay_apply P J cfg st ev)) = max_bytes_per_ip (share_storage_tracker st)"
proof (cases "\<exists>left now. ev = Sweep left now")
  case True
  then show ?thesis using sweep_quota [OF assms(1)] by (auto simp: sweeper_tick_def release_all split: prod.splits)
next
  case False
  then obtain s where E: "idle s st (relay_apply P J cfg st ev) \<or> stores s st (relay_apply P J cfg st ev) \<or> drops s st (relay_apply P J cfg st ev)"
    using event_effect [OF assms(2), of st P J cfg] by blast
  then have "quota_ok (relay_apply P J cfg st ev)" using idle_quota stores_quota drops_quota assms(1) by blast
  moreover have "max_bytes_per_ip (share_storage_tracker (relay_apply P J cfg st ev)) = max_bytes_per_ip (share_storage_tracker st)"
    using E by (auto simp: idle_def stores_def drops_def)
  ultimately show ?thesis by blast
qed

lemma run_quota:
  "quota_ok st \<Longrightarrow> list_all event_small evs \<Longrightarrow> quota_ok (foldl (relay_apply P J cfg) st evs) \<and>
    max_bytes_per_ip (share_storage_tracker (foldl (relay_apply P J cfg) st evs)) = max_bytes_per_ip (share_storage_tracker st)"
  by (induction evs arbitrary: st) (simp_all add: event_quota)

subsection \<open>Property\<close>

text \<open>
  C34. The storage quota covers the store: starting from an empty relay with the quota enabled, after
  any history of requests with bodies below 2^63 bytes and sweeps, the bytes charged for a share are at
  least the bytes of its blobs and of the recorded total, and a share without a row is charged nothing,
  so the charge of every share is released once it is revoked or swept; the total charged to an address
  is the sum over its shares (\<open>storage_accounting\<close>).  Each handler and each sweep is one step of the history.
\<close>
theorem quota_covers_store:
  assumes "share_store init = ShareStore_empty" and "share_storage_tracker init = ShareStoragePerIpTracker_new limit" and "limit \<noteq> 0"
    and "list_all event_small evs" and "st = foldl (relay_apply P J cfg) init evs"
  shows "blob_sum s (blobs (share_store st)) \<le> charged (share_storage_tracker st) s \<and>
     (\<forall>row. map_of (shares (share_store st)) s = Some row \<longrightarrow> 0 \<le> total_bytes row \<and> total_bytes row \<le> charged (share_storage_tracker st) s) \<and>
     (map_of (shares (share_store st)) s = None \<longrightarrow> charged (share_storage_tracker st) s = 0)"
proof -
  have "quota_ok init" using assms(1,2)
    by (simp add: quota_ok_def sizes_ok_def ShareStore_empty_def ShareStoragePerIpTracker_new_def blob_sum_def store_inv_def)
  from run_quota [OF this assms(4), of P J cfg] have q: "quota_ok st" and l: "max_bytes_per_ip (share_storage_tracker st) \<noteq> 0"
    using assms(2,3,5) by (simp_all add: ShareStoragePerIpTracker_new_def)
  have le: "blob_sum s (blobs (share_store st)) \<le> charged (share_storage_tracker st) s" using q l by (simp add: quota_ok_def)
  have "0 \<le> blob_sum s (blobs (share_store st))" using q by (intro blob_sum_nonneg) (simp add: quota_ok_def sizes_ok_def)
  moreover have "total_bytes row = blob_sum s (blobs (share_store st))" if "map_of (shares (share_store st)) s = Some row" for row
    using row_totalD [OF _ that] q by (simp add: quota_ok_def)
  moreover have "charged (share_storage_tracker st) s = 0" if "map_of (shares (share_store st)) s = None"
    using quota_okD(3) [OF q, of s] that unfolding charged_def by (cases "map_of (by_share (share_storage_tracker st)) s") auto
  ultimately show ?thesis using le by auto
qed

theorem quota_covers_store_witness:
  "\<exists>st. st = foldl (relay_apply toy_prims toy_jwt sample_share_cfg) sample_app [UploadB2 (sample_env 1100) (replicate 16 9) sample_req] \<and>
     1741 \<le> charged (share_storage_tracker st) sample_id"
proof -
  obtain st where up: "upload_b2_share toy_prims toy_jwt sample_share_cfg (sample_env 1100) (replicate 16 9) sample_req sample_app =
      (ShareCreateResponse sample_id 1160 (compute_owner_token toy_prims [2] sample_id (replicate 16 9)), st)"
    and bl: "blobs (share_store st) = [((sample_id, ''main''), (1741, 1100))]" using sample_upload by blast
  have run: "st = foldl (relay_apply toy_prims toy_jwt sample_share_cfg) sample_app [UploadB2 (sample_env 1100) (replicate 16 9) sample_req]"
    using up by simp
  have "share_store sample_app = ShareStore_empty" "share_storage_tracker sample_app = ShareStoragePerIpTracker_new 100000"
    "list_all event_small [UploadB2 (sample_env 1100) (replicate 16 9) sample_req]"
    by (simp_all add: sample_app_def small_body_def sample_req_def sample_blob_facts)
  from quota_covers_store [OF this(1,2) _ this(3) run, of sample_id] bl have "1741 \<le> charged (share_storage_tracker st) sample_id"
    by (simp add: blob_sum_def)
  then show ?thesis using run by blast
qed

end
