(* ===== verification/Share_Throttle.thy ===== *)
theory Share_Throttle
  imports Rate_Limit
begin

text \<open>
  The slow-start throttle of a download (\<open>throttle_stream\<close> of \<open>byo-relay/src/share_relay.rs\<close>).

  The loop reads the monotonic clock once per iteration and sleeps when the bucket is empty; both take
  time.  \<open>lag i\<close> is the time that passes before the \<open>i\<close>-th clock read, and a sleep lasts at least as
  long as it was asked to.  A loop that never finishes is \<open>None\<close>.  Each piece of output is listed with
  the clock value of its iteration.
\<close>

partial_function (option) throttle_chunk :: "(nat \<Rightarrow> nat) \<Rightarrow> nat \<Rightarrow> bytes \<Rightarrow> nat \<Rightarrow> instant \<Rightarrow> instant \<Rightarrow> nat \<Rightarrow>
    ((instant \<times> bytes) list \<times> nat \<times> instant \<times> instant \<times> nat) option" where
  "throttle_chunk lag bps remaining tokens last_refill clock i =
     (if remaining = [] then Some ([], tokens, last_refill, clock, i)
      else
        let now = clock + int (lag i);
            refill = duration_since now last_refill \<ge> from_secs 1;
            tokens = (if refill then bps else tokens);
            last_refill = (if refill then now else last_refill) in
        if tokens = 0 then
          let wait = max 0 (from_secs 1 - duration_since now last_refill);
              woken = now + wait + int (lag (i + 1)) in
          throttle_chunk lag bps remaining bps woken woken (i + 2)
        else
          let n = min tokens (length remaining) in
          Option.bind (throttle_chunk lag bps (drop n remaining) (tokens - n) last_refill now (i + 1))
            (\<lambda>(ys, r). Some ((now, take n remaining) # ys, r)))"

declare throttle_chunk.simps [code]

text \<open>The whole stream; a failed read of the file ends it with an error.\<close>

fun throttle_loop :: "(nat \<Rightarrow> nat) \<Rightarrow> nat \<Rightarrow> bytes option list \<Rightarrow> nat \<Rightarrow> instant \<Rightarrow> instant \<Rightarrow> nat \<Rightarrow> ((instant \<times> bytes) list \<times> bool) option" where
  "throttle_loop lag bps [] tokens last_refill clock i = Some ([], True)"
| "throttle_loop lag bps (None # cs) tokens last_refill clock i = Some ([], False)"
| "throttle_loop lag bps (Some c # cs) tokens last_refill clock i =
     Option.bind (throttle_chunk lag bps c tokens last_refill clock i) (\<lambda>(ys, tokens, last_refill, clock, i).
     Option.bind (throttle_loop lag bps cs tokens last_refill clock i) (\<lambda>(zs, ok). Some (ys @ zs, ok)))"

definition throttle_stream :: "(nat \<Rightarrow> nat) \<Rightarrow> nat \<Rightarrow> instant \<Rightarrow> bytes option list \<Rightarrow> ((instant \<times> bytes) list \<times> bool) option" where
  "throttle_stream lag bps start inner = throttle_loop lag bps inner bps start start 0"

fun carry_guard :: "bytes option list \<Rightarrow> bytes list \<times> bool" where
  "carry_guard [] = ([], True)"
| "carry_guard (None # cs) = ([], False)"
| "carry_guard (Some c # cs) = (case carry_guard cs of (ys, ok) \<Rightarrow> (c # ys, ok))"

subsection \<open>Progress\<close>

definition secs_between :: "instant \<Rightarrow> instant \<Rightarrow> nat" where
  "secs_between a b = nat ((b - a) div from_secs 1)"

text \<open>
  Every prefix of the output stays within the tokens at hand plus \<open>bps\<close> per full second since the
  last refill.
\<close>

fun within :: "nat \<Rightarrow> nat \<Rightarrow> instant \<Rightarrow> nat \<Rightarrow> (instant \<times> bytes) list \<Rightarrow> bool" where
  "within bps tokens last_refill sent [] = True"
| "within bps tokens last_refill sent ((t, p) # ys) \<longleftrightarrow>
     sent + length p \<le> tokens + bps * secs_between last_refill t \<and> within bps tokens last_refill (sent + length p) ys"

lemma secs_step:
  assumes "a + from_secs 1 \<le> b" and "b \<le> t"
  shows "Suc (secs_between b t) \<le> secs_between a t"
proof -
  have s: "from_secs 1 = 1000000000" by (simp add: from_secs_def)
  have "(t - b) div 1000000000 + 1 = (t - b + 1000000000) div 1000000000" by simp
  also have "\<dots> \<le> (t - a) div 1000000000" using assms s by (intro zdiv_mono1) auto
  finally have "(t - b) div 1000000000 + 1 \<le> (t - a) div 1000000000" .
  moreover have "0 \<le> (t - b) div 1000000000" using assms by (simp add: pos_imp_zdiv_nonneg_iff)
  ultimately show ?thesis unfolding secs_between_def s by linarith
qed

lemma within_shift: "within bps T L sent ys \<Longrightarrow> within bps (T + n) L (sent + n) ys"
  by (induction bps T L sent ys rule: within.induct) (auto simp: algebra_simps)

lemma within_weaken:
  "within bps bps L2 sent ys \<Longrightarrow> L + from_secs 1 \<le> L2 \<Longrightarrow> (\<And>t p. (t, p) \<in> set ys \<Longrightarrow> L2 \<le> t) \<Longrightarrow> within bps T L sent ys"
proof (induction ys arbitrary: sent)
  case (Cons y ys)
  obtain t p where y: "y = (t, p)" by (cases y)
  have "Suc (secs_between L2 t) \<le> secs_between L t" by (rule secs_step) (use Cons y in auto)
  then have "bps * Suc (secs_between L2 t) \<le> bps * secs_between L t" by (rule mult_le_mono2)
  then show ?case using Cons y by auto
qed simp

text \<open>What a run of the loop on one chunk guarantees, from \<open>T\<close> tokens refilled at \<open>L\<close> and clock \<open>C\<close>.\<close>

fun good :: "nat \<Rightarrow> nat \<Rightarrow> instant \<Rightarrow> instant \<Rightarrow> bytes \<Rightarrow> (instant \<times> bytes) list \<times> nat \<times> instant \<times> instant \<times> nat \<Rightarrow> bool" where
  "good bps T L C bs (ys, t, l, c, j) \<longleftrightarrow>
     concat (map snd ys) = bs \<and> (\<forall>(u, p)\<in>set ys. p \<noteq> [] \<and> length p \<le> bps \<and> C \<le> u \<and> u \<le> c) \<and> within bps T L 0 ys \<and>
     length bs + t \<le> T + bps * secs_between L l \<and> t \<le> bps \<and> L \<le> l \<and> l \<le> c \<and> C \<le> c"

lemma good_weaken:
  assumes "good bps bps L2 C2 bs r" and "L + from_secs 1 \<le> L2" and "L2 \<le> C2" and "C \<le> C2"
  shows "good bps T L C bs r"
proof -
  obtain ys t l c j where r: "r = (ys, t, l, c, j)" by (metis prod_cases5)
  have g: "within bps bps L2 0 ys" "\<And>u p. (u, p) \<in> set ys \<Longrightarrow> C2 \<le> u" "L2 \<le> l" "length bs + t \<le> bps + bps * secs_between L2 l"
    using assms(1) r by auto
  have "within bps T L 0 ys" using g(1) assms(2) by (rule within_weaken) (use g(2) assms(3) in fastforce)
  moreover have "Suc (secs_between L2 l) \<le> secs_between L l" using assms(2) g(3) by (rule secs_step)
  then have "bps * Suc (secs_between L2 l) \<le> bps * secs_between L l" by (rule mult_le_mono2)
  moreover have "L \<le> L2" using assms(2) by (simp add: from_secs_def)
  ultimately show ?thesis using assms r g by fastforce
qed

lemma good_yield:
  assumes g: "good bps (T - n) L N (drop n bs) (ys, r)" and n: "0 < n" "n \<le> T" "n \<le> length bs" and T: "T \<le> bps" and L: "L \<le> N"
  shows "good bps T L N bs ((N, take n bs) # ys, r)"
proof -
  obtain t l c j where r: "r = (t, l, c, j)" by (metis prod_cases4)
  have w: "within bps (T - n) L 0 ys" using g r by simp
  have "within bps T L n ys" using within_shift [OF w, of n] n by simp
  then show ?thesis using g r n T L by (auto simp: min_def dest!: bspec)
qed

text \<open>One iteration that sends.\<close>

definition send :: "(nat \<Rightarrow> nat) \<Rightarrow> nat \<Rightarrow> bytes \<Rightarrow> nat \<Rightarrow> instant \<Rightarrow> instant \<Rightarrow> nat \<Rightarrow>
    ((instant \<times> bytes) list \<times> nat \<times> instant \<times> instant \<times> nat) option" where
  "send lag bps bs T L N i =
     (let n = min T (length bs) in
      Option.bind (throttle_chunk lag bps (drop n bs) (T - n) L N (i + 1)) (\<lambda>(ys, r). Some ((N, take n bs) # ys, r)))"

lemma throttle_unfold:
  assumes "bs \<noteq> []" and "0 < bps" and "L \<le> C"
  shows "\<exists>T' L' N i'. throttle_chunk lag bps bs T L C i = send lag bps bs T' L' N i' \<and> 0 < T' \<and> C \<le> N \<and> L' \<le> N \<and>
    (T' = T \<and> L' = L \<or> T' = bps \<and> L + from_secs 1 \<le> L')"
proof -
  let ?N = "C + int (lag i)"
  have s: "from_secs 1 = 1000000000" by (simp add: from_secs_def)
  have d: "duration_since ?N L = ?N - L" using assms(3) by (simp add: duration_since_def)
  consider "?N - L \<ge> from_secs 1" | "?N - L < from_secs 1" "0 < T" | "?N - L < from_secs 1" "T = 0" by fastforce
  then show ?thesis
  proof cases
    case 1
    then have "throttle_chunk lag bps bs T L C i = send lag bps bs bps ?N ?N i"
      using assms(1,2) by (subst throttle_chunk.simps) (simp add: d send_def Let_def)
    then show ?thesis using 1 assms(2) by fastforce
  next
    case 2
    then have "throttle_chunk lag bps bs T L C i = send lag bps bs T L ?N i"
      using assms(1) by (subst throttle_chunk.simps) (simp add: d send_def Let_def)
    then show ?thesis using 2 assms(3) by fastforce
  next
    case 3
    define W where "W = ?N + (from_secs 1 - (?N - L)) + int (lag (i + 1))"
    let ?N2 = "W + int (lag (i + 2))"
    have a: "throttle_chunk lag bps bs T L C i = throttle_chunk lag bps bs bps W W (i + 2)"
      using 3 assms(1) by (subst throttle_chunk.simps) (simp add: d W_def Let_def)
    have W: "L + from_secs 1 \<le> W" "C \<le> W" using 3 assms(3) by (simp_all add: W_def s)
    have b: "throttle_chunk lag bps bs bps W W (i + 2) = send lag bps bs bps (if ?N2 - W \<ge> from_secs 1 then ?N2 else W) ?N2 (i + 2)"
      using assms(1,2) by (subst throttle_chunk.simps) (simp add: duration_since_def send_def Let_def)
    show ?thesis
      unfolding a b using W assms(2)
      by (intro exI [of _ bps] exI [of _ "if ?N2 - W \<ge> from_secs 1 then ?N2 else W"] exI [of _ ?N2] exI [of _ "i + 2"]) auto
  qed
qed

lemma throttle_chunk_good:
  assumes "0 < bps" and "T \<le> bps" and "L \<le> C"
  shows "\<exists>r. throttle_chunk lag bps bs T L C i = Some r \<and> good bps T L C bs r"
  using assms
proof (induction "length bs" arbitrary: bs T L C i rule: less_induct)
  case less
  show ?case
  proof (cases "bs = []")
    case True
    then show ?thesis using less.prems by (subst throttle_chunk.simps) simp
  next
    case False
    obtain T' L' N i' where U: "throttle_chunk lag bps bs T L C i = send lag bps bs T' L' N i'" and T': "0 < T'" and N: "C \<le> N" "L' \<le> N"
      and step: "T' = T \<and> L' = L \<or> T' = bps \<and> L + from_secs 1 \<le> L'" using throttle_unfold [OF False less.prems(1,3)] by metis
    let ?n = "min T' (length bs)"
    have n: "0 < ?n" "?n \<le> T'" "?n \<le> length bs" using T' False by auto
    have le: "T' \<le> bps" using step less.prems(2) by auto
    obtain ys r where R: "throttle_chunk lag bps (drop ?n bs) (T' - ?n) L' N (i' + 1) = Some (ys, r)" "good bps (T' - ?n) L' N (drop ?n bs) (ys, r)"
      using less.hyps [of "drop ?n bs" "T' - ?n" L' N "i' + 1"] n le N less.prems(1) by fastforce
    have S: "send lag bps bs T' L' N i' = Some ((N, take ?n bs) # ys, r)" using R(1) by (simp add: send_def Let_def)
    have G: "good bps T' L' N bs ((N, take ?n bs) # ys, r)" by (rule good_yield [OF R(2) n le N(2)])
    have "good bps T L C bs ((N, take ?n bs) # ys, r)"
      using step
    proof
      assume "T' = bps \<and> L + from_secs 1 \<le> L'"
      then show ?thesis using good_weaken [of bps L' N bs] G N by blast
    next
      assume "T' = T \<and> L' = L"
      then show ?thesis using G N by (cases r) (auto dest!: bspec)
    qed
    then show ?thesis using U S by simp
  qed
qed


subsection \<open>Whole streams\<close>

abbreviation sizes :: "(instant \<times> bytes) list \<Rightarrow> nat" where
  "sizes ys \<equiv> sum_list (map (length \<circ> snd) ys)"

lemma sizes_concat: "sizes ys = length (concat (map snd ys))"
  by (induction ys) auto

lemma within_append: "within bps T L s (ys @ zs) \<longleftrightarrow> within bps T L s ys \<and> within bps T L (s + sizes ys) zs"
  by (induction ys arbitrary: s) (auto simp: add.assoc)

lemma secs_add:
  assumes "a \<le> b" and "b \<le> c"
  shows "secs_between a b + secs_between b c \<le> secs_between a c"
proof -
  have s: "from_secs 1 = 1000000000" by (simp add: from_secs_def)
  have "(b - a) div 1000000000 + (c - b) div 1000000000 \<le> (b - a + (c - b)) div 1000000000"
    unfolding div_add1_eq [of "b - a" "c - b"] by simp
  moreover have "0 \<le> (b - a) div 1000000000" "0 \<le> (c - b) div 1000000000" using assms by (simp_all add: pos_imp_zdiv_nonneg_iff)
  ultimately show ?thesis unfolding secs_between_def s by (simp add: nat_add_distrib [symmetric] nat_mono)
qed

lemma within_compose:
  assumes "within bps t l s zs" and "d + t \<le> T + bps * secs_between L l" and "L \<le> l" and "\<And>u p. (u, p) \<in> set zs \<Longrightarrow> l \<le> u"
  shows "within bps T L (d + s) zs"
  using assms(1,4)
proof (induction zs arbitrary: s)
  case (Cons z zs)
  obtain u p where z: "z = (u, p)" by (cases z)
  have "bps * (secs_between L l + secs_between l u) \<le> bps * secs_between L u"
    using secs_add [OF assms(3), of u] Cons.prems(2) [of u p] z by (intro mult_le_mono2) auto
  then have "d + s + length p \<le> T + bps * secs_between L u" using Cons.prems(1) assms(2) z by (simp add: algebra_simps)
  moreover have "within bps T L (d + (s + length p)) zs" using Cons z by auto
  ultimately show ?case by (simp add: z add.assoc)
qed simp

lemma throttle_loop_spec:
  assumes "0 < bps" and "T \<le> bps" and "L \<le> C"
  shows "\<exists>ys. throttle_loop lag bps cs T L C i = Some (ys, snd (carry_guard cs)) \<and> concat (map snd ys) = concat (fst (carry_guard cs)) \<and>
     (\<forall>(u, p)\<in>set ys. p \<noteq> [] \<and> length p \<le> bps \<and> C \<le> u) \<and> within bps T L 0 ys"
  using assms(2,3)
proof (induction cs arbitrary: T L C i)
  case (Cons x cs)
  show ?case
  proof (cases x)
    case (Some c)
    obtain ys t l c' j where R: "throttle_chunk lag bps c T L C i = Some (ys, t, l, c', j)" and G: "good bps T L C c (ys, t, l, c', j)"
      using throttle_chunk_good [OF assms(1) Cons.prems, of lag c i] by (metis prod_cases5)
    have fin: "t \<le> bps" "l \<le> c'" "C \<le> c'" "L \<le> l" "length c + t \<le> T + bps * secs_between L l" using G by simp_all
    obtain zs where Z: "throttle_loop lag bps cs t l c' j = Some (zs, snd (carry_guard cs))" "concat (map snd zs) = concat (fst (carry_guard cs))"
      "\<forall>(u, p)\<in>set zs. p \<noteq> [] \<and> length p \<le> bps \<and> c' \<le> u" "within bps t l 0 zs" using Cons.IH [OF fin(1,2), of j] by blast
    have late: "l \<le> u" if "(u, p) \<in> set zs" for u p using that Z(3) fin(2) by fastforce
    have "within bps T L (length c + 0) zs" by (rule within_compose [OF Z(4) fin(5,4) late])
    moreover have "sizes ys = length c" using G by (simp add: sizes_concat)
    ultimately have w: "within bps T L 0 (ys @ zs)" using G by (simp add: within_append)
    have p: "\<forall>(u, p)\<in>set (ys @ zs). p \<noteq> [] \<and> length p \<le> bps \<and> C \<le> u" using G Z(3) fin(3) by fastforce
    have "throttle_loop lag bps (x # cs) T L C i = Some (ys @ zs, snd (carry_guard (x # cs)))"
      using Some R Z(1) by (simp split: prod.splits)
    moreover have "concat (map snd (ys @ zs)) = concat (fst (carry_guard (x # cs)))"
      using Some G Z(2) by (simp split: prod.splits)
    ultimately show ?thesis using w p by blast
  qed simp
qed simp

lemma within_prefix: "within bps T L s ys \<Longrightarrow> k < length ys \<Longrightarrow> s + sizes (take (Suc k) ys) \<le> T + bps * secs_between L (fst (ys ! k))"
proof (induction ys arbitrary: s k)
  case (Cons y ys)
  then show ?case using Cons.IH [of "s + length (snd y)" "k - 1"] by (cases k; cases y) (auto simp: add.assoc)
qed simp


subsection \<open>Property\<close>

text \<open>
  C38. The slow-start throttle finishes and keeps its rate: whenever slow start applies to a download,
  the throttled stream ends, delivers exactly the bytes of the file up to the first read error in
  pieces of at most \<open>bps\<close> bytes, and at every moment has sent at most \<open>bps\<close> bytes for each started
  second since its start.
\<close>
theorem throttle_complete:
  assumes "share_slow_start_bps created now secs max_bps = Some bps"
  shows "\<exists>ys. throttle_stream lag bps start cs = Some (ys, snd (carry_guard cs)) \<and>
     concat (map snd ys) = concat (fst (carry_guard cs)) \<and> (\<forall>(t, p)\<in>set ys. p \<noteq> [] \<and> length p \<le> bps \<and> start \<le> t) \<and>
     (\<forall>k<length ys. sum_list (map (length \<circ> snd) (take (Suc k) ys)) \<le> bps * (1 + secs_between start (fst (ys ! k))))"
proof -
  have "0 < bps" using assms by (auto simp: share_slow_start_bps_def Let_def split: if_splits)
  from throttle_loop_spec [OF this order_refl order_refl, of lag cs start 0] within_prefix [of bps bps start 0]
  show ?thesis unfolding throttle_stream_def by fastforce
qed

lemma sample_slow_start: "share_slow_start_bps 1000 1100 300 2 = Some 2"
  by (simp add: share_slow_start_bps_def sat_sub_i64_def)

theorem throttle_complete_witness:
  "share_slow_start_bps 1000 1100 300 2 = Some 2 \<and>
   (\<exists>ys. throttle_stream (\<lambda>_. 0) 2 0 [Some [1, 2, 3], Some [4, 5]] = Some (ys, True) \<and> concat (map snd ys) = [1, 2, 3, 4, 5])"
  using throttle_complete [OF sample_slow_start, of "\<lambda>_. 0" 0 "[Some [1, 2, 3], Some [4, 5]]"] sample_slow_start by auto

end
