(* ===== verification/Enrollment_Store.thy ===== *)
theory Enrollment_Store
  imports Relay_Base "HOL-Library.Signed_Division" "HOL-Library.Multiset"
begin

text \<open>
  The store of restricted enrollment (\<open>byo-relay/src/enrollment.rs\<close> with \<open>enrollment_schema.sql\<close>):
  authorized devices, invite codes and the bootstrap token.

  Each SQL statement is written out on the tables.  A statement fails only where the schema makes it
  fail (primary keys, the unique columns \<open>pubkey\<close> and \<open>code_hash\<close>, the foreign key \<open>issued_by\<close>), which
  \<open>From<rusqlite::Error>\<close> turns into \<open>Conflict\<close>; a transaction that is dropped leaves the
  tables unchanged.  The table \<open>bootstrap_token\<close> has at most one row, by its check on \<open>id\<close>.
  The connection is behind one mutex, so each method is one step.

  The locale \<open>enroll_op\<close> is what every operation promises about the devices already enrolled; the
  histories at the end count claims and redemptions.
\<close>

declare map_of_eq_Some_iff [simp del] Some_eq_map_of_iff [simp del]

subsection \<open>Mode\<close>

datatype EnrollmentMode = Open | Restricted

fun EnrollmentMode_as_str :: "EnrollmentMode \<Rightarrow> string" where
  "EnrollmentMode_as_str Open = ''open''"
| "EnrollmentMode_as_str Restricted = ''restricted''"

definition EnrollmentMode_parse :: "string \<Rightarrow> EnrollmentMode option" where
  "EnrollmentMode_parse s =
     (let t = to_ascii_lowercase (trim s) in
      if t = ''open'' then Some Open else if t = ''restricted'' then Some Restricted else None)"

text \<open>The environment variable, \<open>None\<close> when it is unset.\<close>

definition EnrollmentMode_from_env :: "string option \<Rightarrow> EnrollmentMode" where
  "EnrollmentMode_from_env var =
     (case var of
        Some raw \<Rightarrow> (case EnrollmentMode_parse raw of Some mode \<Rightarrow> mode | None \<Rightarrow> Open)
      | None \<Rightarrow> Open)"

subsection \<open>Tables\<close>

datatype EnrollmentStoreError =
    EnrollSqlite | EnrollLockPoisoned | EnrollConflict | InvalidInvite | InvalidBootstrapToken | DeviceNotFound | LastOwner

record Device =
  dev_pubkey :: bytes
  dev_label :: string
  dev_is_owner :: bool
  dev_created_at :: int
  dev_last_seen_hour :: int
  dev_revoked_at :: "int option"

record Invite =
  inv_code_hash :: bytes
  inv_label :: string
  inv_issued_by :: string
  inv_created_at :: int
  inv_expires_at :: int
  inv_used_by :: "string option"
  inv_used_at :: "int option"

record BootstrapToken =
  tok_hash :: bytes
  tok_created_at :: int
  tok_expires_at :: int

record EnrollmentStore =
  devices :: "(string, Device) hmap"
  invites :: "(string, Invite) hmap"
  bootstrap_token :: "BootstrapToken option"

definition EnrollmentStore_empty :: EnrollmentStore where
  "EnrollmentStore_empty = \<lparr>devices = [], invites = [], bootstrap_token = None\<rparr>"

type_synonym 'a store_result = "(EnrollmentStoreError + 'a) \<times> EnrollmentStore"

subsection \<open>Operations\<close>

definition active_owner :: "Device \<Rightarrow> bool" where
  "active_owner d \<longleftrightarrow> dev_is_owner d \<and> dev_revoked_at d = None"

definition count_owners :: "EnrollmentStore \<Rightarrow> nat" where
  "count_owners st = length (filter (\<lambda>(_, d). active_owner d) (devices st))"

definition owner_count :: "EnrollmentStore \<Rightarrow> EnrollmentStoreError + nat" where
  "owner_count st = Inr (count_owners st)"

definition set_bootstrap_token :: "bytes \<Rightarrow> int \<Rightarrow> int \<Rightarrow> EnrollmentStore \<Rightarrow> unit store_result" where
  "set_bootstrap_token token_hash created expires st =
     (Inr (), st\<lparr>bootstrap_token := Some \<lparr>tok_hash = token_hash, tok_created_at = created, tok_expires_at = expires\<rparr>\<rparr>)"

definition has_bootstrap_token :: "int \<Rightarrow> EnrollmentStore \<Rightarrow> EnrollmentStoreError + bool" where
  "has_bootstrap_token now st =
     Inr (case bootstrap_token st of None \<Rightarrow> False | Some t \<Rightarrow> tok_expires_at t > now)"

definition constant_time_eq_slices :: "bytes \<Rightarrow> bytes \<Rightarrow> bool" where
  "constant_time_eq_slices a b =
     (if length a \<noteq> length b then False
      else foldl (\<lambda>diff (x, y). or diff (xor x y)) 0 (zip a b) = (0 :: u8))"

text \<open>\<open>INSERT INTO authorized_devices\<close>: \<open>None\<close> on a duplicate id or public key.\<close>

definition insert_device :: "string \<Rightarrow> bytes \<Rightarrow> string \<Rightarrow> bool \<Rightarrow> int \<Rightarrow> EnrollmentStore \<Rightarrow> EnrollmentStore option" where
  "insert_device device_id pubkey label is_owner now st =
     (if map_of (devices st) device_id \<noteq> None \<or> list_ex (\<lambda>(_, d). dev_pubkey d = pubkey) (devices st) then None
      else Some (st\<lparr>devices := AList.update device_id
             \<lparr>dev_pubkey = pubkey, dev_label = label, dev_is_owner = is_owner, dev_created_at = now,
              dev_last_seen_hour = now sdiv 3600, dev_revoked_at = None\<rparr> (devices st)\<rparr>))"

definition claim_bootstrap :: "bytes \<Rightarrow> string \<Rightarrow> bytes \<Rightarrow> string \<Rightarrow> int \<Rightarrow> EnrollmentStore \<Rightarrow> unit store_result" where
  "claim_bootstrap candidate_hash device_id pubkey label now st =
     (case bootstrap_token st of
        None \<Rightarrow> (Inl InvalidBootstrapToken, st)
      | Some t \<Rightarrow>
          if tok_expires_at t \<le> now then (Inl InvalidBootstrapToken, st)
          else if \<not> constant_time_eq_slices (tok_hash t) candidate_hash then (Inl InvalidBootstrapToken, st)
          else (case insert_device device_id pubkey label True now st of
                  None \<Rightarrow> (Inl EnrollConflict, st)
                | Some st' \<Rightarrow> (Inr (), st'\<lparr>bootstrap_token := None\<rparr>)))"

definition insert_invite :: "string \<Rightarrow> bytes \<Rightarrow> string \<Rightarrow> string \<Rightarrow> int \<Rightarrow> int \<Rightarrow> EnrollmentStore \<Rightarrow> unit store_result" where
  "insert_invite i code_hash label issued_by created expires st =
     (if map_of (invites st) i \<noteq> None \<or> list_ex (\<lambda>(_, v). inv_code_hash v = code_hash) (invites st) \<or>
         map_of (devices st) issued_by = None
      then (Inl EnrollConflict, st)
      else (Inr (), st\<lparr>invites := AList.update i
             \<lparr>inv_code_hash = code_hash, inv_label = label, inv_issued_by = issued_by, inv_created_at = created,
              inv_expires_at = expires, inv_used_by = None, inv_used_at = None\<rparr> (invites st)\<rparr>))"

record InviteRow =
  ir_id :: string
  ir_label :: string
  ir_issued_by :: string
  ir_created_at :: int
  ir_expires_at :: int
  ir_used_by :: "string option"
  ir_used_at :: "int option"

record DeviceRow =
  dr_device_id :: string
  dr_label :: string
  dr_is_owner :: bool
  dr_created_at :: int
  dr_last_seen_hour :: int
  dr_revoked_at :: "int option"

definition invite_row :: "string \<Rightarrow> Invite \<Rightarrow> InviteRow" where
  "invite_row i v = \<lparr>ir_id = i, ir_label = inv_label v, ir_issued_by = inv_issued_by v, ir_created_at = inv_created_at v,
     ir_expires_at = inv_expires_at v, ir_used_by = inv_used_by v, ir_used_at = inv_used_at v\<rparr>"

definition device_row :: "string \<Rightarrow> Device \<Rightarrow> DeviceRow" where
  "device_row i d = \<lparr>dr_device_id = i, dr_label = dev_label d, dr_is_owner = dev_is_owner d, dr_created_at = dev_created_at d,
     dr_last_seen_hour = dev_last_seen_hour d, dr_revoked_at = dev_revoked_at d\<rparr>"

text \<open>\<open>ORDER BY created_at DESC\<close>; rows of the same second stay in the order of insertion.\<close>

definition list_invites :: "EnrollmentStore \<Rightarrow> EnrollmentStoreError + InviteRow list" where
  "list_invites st = Inr (sort_key (\<lambda>r. - ir_created_at r) (map (\<lambda>(i, v). invite_row i v) (invites st)))"

definition revoke_invite :: "string \<Rightarrow> EnrollmentStore \<Rightarrow> unit store_result" where
  "revoke_invite i st = (Inr (), st\<lparr>invites := AList.delete i (invites st)\<rparr>)"

text \<open>\<open>UPDATE invite_codes SET used_by, used_at WHERE id = ?3 AND used_by IS NULL\<close>, with the number of rows.\<close>

definition mark_used :: "string \<Rightarrow> int \<Rightarrow> string \<Rightarrow> EnrollmentStore \<Rightarrow> nat \<times> EnrollmentStore" where
  "mark_used device_id now i st =
     (case map_of (invites st) i of
        None \<Rightarrow> (0, st)
      | Some v \<Rightarrow>
          if inv_used_by v \<noteq> None then (0, st)
          else (1, st\<lparr>invites := AList.update i (v\<lparr>inv_used_by := Some device_id, inv_used_at := Some now\<rparr>) (invites st)\<rparr>))"

definition redeemable :: "bytes \<Rightarrow> int \<Rightarrow> Invite \<Rightarrow> bool" where
  "redeemable candidate_hash now v \<longleftrightarrow>
     inv_code_hash v = candidate_hash \<and> inv_used_by v = None \<and> inv_expires_at v > now"

definition redeem_invite :: "bytes \<Rightarrow> string \<Rightarrow> bytes \<Rightarrow> string \<Rightarrow> int \<Rightarrow> EnrollmentStore \<Rightarrow> string store_result" where
  "redeem_invite candidate_hash device_id pubkey label now st =
     (case find (\<lambda>(_, v). redeemable candidate_hash now v) (invites st) of
        None \<Rightarrow> (Inl InvalidInvite, st)
      | Some (invite_id, _) \<Rightarrow>
          (case mark_used device_id now invite_id st of
             (updated, st1) \<Rightarrow>
               if updated \<noteq> 1 then (Inl InvalidInvite, st)
               else (case insert_device device_id pubkey label False now st1 of
                       None \<Rightarrow> (Inl EnrollConflict, st)
                     | Some st2 \<Rightarrow> (Inr invite_id, st2))))"

definition get_device :: "string \<Rightarrow> EnrollmentStore \<Rightarrow> EnrollmentStoreError + DeviceRow option" where
  "get_device device_id st = Inr (map_option (device_row device_id) (map_of (devices st) device_id))"

definition touch_last_seen :: "string \<Rightarrow> int \<Rightarrow> EnrollmentStore \<Rightarrow> unit store_result" where
  "touch_last_seen device_id now st =
     (let h = now sdiv 3600 in
      case map_of (devices st) device_id of
        None \<Rightarrow> (Inr (), st)
      | Some d \<Rightarrow>
          if dev_last_seen_hour d < h
          then (Inr (), st\<lparr>devices := AList.update device_id (d\<lparr>dev_last_seen_hour := h\<rparr>) (devices st)\<rparr>)
          else (Inr (), st))"

definition list_devices :: "EnrollmentStore \<Rightarrow> EnrollmentStoreError + DeviceRow list" where
  "list_devices st = Inr (sort_key (\<lambda>r. - dr_created_at r) (map (\<lambda>(i, d). device_row i d) (devices st)))"

definition revoke_device :: "string \<Rightarrow> int \<Rightarrow> EnrollmentStore \<Rightarrow> unit store_result" where
  "revoke_device device_id now st =
     (case map_of (devices st) device_id of
        None \<Rightarrow> (Inl DeviceNotFound, st)
      | Some d \<Rightarrow>
          if dev_revoked_at d \<noteq> None then (Inr (), st)
          else if dev_is_owner d \<and> count_owners st \<le> 1 then (Inl LastOwner, st)
          else (Inr (), st\<lparr>devices := AList.update device_id (d\<lparr>dev_revoked_at := Some now\<rparr>) (devices st)\<rparr>))"

subsection \<open>Invariant\<close>

lemma ct_eq_slices [simp]: "constant_time_eq_slices a b \<longleftrightarrow> a = b"
  by (auto simp: constant_time_eq_slices_def foldl_diff_zero)

text \<open>
  Identifiers, public keys and code hashes are unique; invites are issued by enrolled devices; a used
  invite names the member device enrolled with it, at the time of its use and before the expiry of
  the invite, and no two invites name the same device.
\<close>

definition used_ok :: "EnrollmentStore \<Rightarrow> Invite \<Rightarrow> bool" where
  "used_ok st v \<longleftrightarrow>
     (case inv_used_by v of
        None \<Rightarrow> inv_used_at v = None
      | Some i \<Rightarrow> (\<exists>d. map_of (devices st) i = Some d \<and> \<not> dev_is_owner d \<and>
          inv_used_at v = Some (dev_created_at d) \<and> dev_created_at d < inv_expires_at v))"

definition enroll_inv :: "EnrollmentStore \<Rightarrow> bool" where
  "enroll_inv st \<longleftrightarrow>
     hm_ok (devices st) \<and> hm_ok (invites st) \<and>
     (\<forall>i j a b. map_of (devices st) i = Some a \<and> map_of (devices st) j = Some b \<and> dev_pubkey a = dev_pubkey b \<longrightarrow> i = j) \<and>
     (\<forall>i j a b. map_of (invites st) i = Some a \<and> map_of (invites st) j = Some b \<and> inv_code_hash a = inv_code_hash b \<longrightarrow> i = j) \<and>
     (\<forall>i v. map_of (invites st) i = Some v \<longrightarrow> (\<exists>d. map_of (devices st) (inv_issued_by v) = Some d)) \<and>
     (\<forall>i v. map_of (invites st) i = Some v \<longrightarrow> used_ok st v) \<and>
     (\<forall>i j a b u. map_of (invites st) i = Some a \<and> map_of (invites st) j = Some b \<and> inv_used_by a = Some u \<and> inv_used_by b = Some u \<longrightarrow> i = j)"

lemma enroll_invI:
  assumes "hm_ok (devices st)" and "hm_ok (invites st)"
    and "\<And>i j a b. map_of (devices st) i = Some a \<Longrightarrow> map_of (devices st) j = Some b \<Longrightarrow> dev_pubkey a = dev_pubkey b \<Longrightarrow> i = j"
    and "\<And>i j a b. map_of (invites st) i = Some a \<Longrightarrow> map_of (invites st) j = Some b \<Longrightarrow> inv_code_hash a = inv_code_hash b \<Longrightarrow> i = j"
    and "\<And>i v. map_of (invites st) i = Some v \<Longrightarrow> \<exists>d. map_of (devices st) (inv_issued_by v) = Some d"
    and "\<And>i v. map_of (invites st) i = Some v \<Longrightarrow> used_ok st v"
    and "\<And>i j a b u. map_of (invites st) i = Some a \<Longrightarrow> map_of (invites st) j = Some b \<Longrightarrow> inv_used_by a = Some u \<Longrightarrow>
      inv_used_by b = Some u \<Longrightarrow> i = j"
  shows "enroll_inv st"
  unfolding enroll_inv_def using assms by blast

lemma enroll_invD:
  assumes "enroll_inv st"
  shows "hm_ok (devices st)" and "hm_ok (invites st)"
    and "map_of (devices st) i = Some a \<Longrightarrow> map_of (devices st) j = Some b \<Longrightarrow> dev_pubkey a = dev_pubkey b \<Longrightarrow> i = j"
    and "map_of (invites st) i = Some v \<Longrightarrow> map_of (invites st) j = Some w \<Longrightarrow> inv_code_hash v = inv_code_hash w \<Longrightarrow> i = j"
    and "map_of (invites st) i = Some v \<Longrightarrow> \<exists>d. map_of (devices st) (inv_issued_by v) = Some d"
    and "map_of (invites st) i = Some v \<Longrightarrow> used_ok st v"
    and "map_of (invites st) i = Some v \<Longrightarrow> map_of (invites st) j = Some w \<Longrightarrow> inv_used_by v = Some u \<Longrightarrow> inv_used_by w = Some u \<Longrightarrow> i = j"
  using assms unfolding enroll_inv_def by blast+

text \<open>How a device row may change: its identity is fixed, a revocation is final, activity only advances.\<close>

definition device_evolves :: "Device \<Rightarrow> Device \<Rightarrow> bool" where
  "device_evolves d d' \<longleftrightarrow>
     dev_pubkey d' = dev_pubkey d \<and> dev_label d' = dev_label d \<and> dev_is_owner d' = dev_is_owner d \<and>
     dev_created_at d' = dev_created_at d \<and> dev_last_seen_hour d \<le> dev_last_seen_hour d' \<and>
     (dev_revoked_at d \<noteq> None \<longrightarrow> dev_revoked_at d' = dev_revoked_at d)"

lemma device_evolves_refl [simp]: "device_evolves d d"
  by (simp add: device_evolves_def)

lemma device_evolves_trans: "device_evolves a b \<Longrightarrow> device_evolves b c \<Longrightarrow> device_evolves a c"
  by (auto simp: device_evolves_def)

definition devices_evolve :: "EnrollmentStore \<Rightarrow> EnrollmentStore \<Rightarrow> bool" where
  "devices_evolve st st' \<longleftrightarrow>
     (\<forall>i d. map_of (devices st) i = Some d \<longrightarrow> (\<exists>d'. map_of (devices st') i = Some d' \<and> device_evolves d d'))"

lemma devices_evolve_trans: "devices_evolve a b \<Longrightarrow> devices_evolve b c \<Longrightarrow> devices_evolve a c"
  unfolding devices_evolve_def by (meson device_evolves_trans)

lemma devices_evolve_same: "devices st' = devices st \<Longrightarrow> devices_evolve st st'"
  by (simp add: devices_evolve_def)

lemma devices_evolveD:
  "devices_evolve st st' \<Longrightarrow> map_of (devices st) i = Some d \<Longrightarrow> \<exists>d'. map_of (devices st') i = Some d' \<and> device_evolves d d'"
  by (simp add: devices_evolve_def)

lemma used_ok_evolves: "devices_evolve st st' \<Longrightarrow> used_ok st v \<Longrightarrow> used_ok st' v"
  by (auto simp: used_ok_def device_evolves_def dest!: devices_evolveD split: option.splits)

definition has_owner :: "EnrollmentStore \<Rightarrow> bool" where
  "has_owner st \<longleftrightarrow> (\<exists>i d. map_of (devices st) i = Some d \<and> active_owner d)"

lemma count_owners_pos: "hm_ok (devices st) \<Longrightarrow> 0 < count_owners st \<longleftrightarrow> has_owner st"
proof -
  assume "hm_ok (devices st)"
  then have "has_owner st \<longleftrightarrow> list_ex (\<lambda>(_, d). active_owner d) (devices st)" by (simp add: has_owner_def hm_ex)
  also have "\<dots> \<longleftrightarrow> filter (\<lambda>(_, d). active_owner d) (devices st) \<noteq> []" by (auto simp: list_ex_iff filter_empty_conv)
  finally show ?thesis by (simp add: count_owners_def)
qed

subsection \<open>The contract of the operations\<close>

locale enroll_op =
  fixes op :: "EnrollmentStore \<Rightarrow> EnrollmentStore"
  assumes keeps_inv: "enroll_inv st \<Longrightarrow> enroll_inv (op st)"
    and evolves: "enroll_inv st \<Longrightarrow> devices_evolve st (op st)"
    and keeps_owner: "enroll_inv st \<Longrightarrow> has_owner st \<Longrightarrow> has_owner (op st)"
begin

lemma revoked_stays:
  "enroll_inv st \<Longrightarrow> map_of (devices st) i = Some d \<Longrightarrow> dev_revoked_at d = Some t \<Longrightarrow>
     \<exists>d'. map_of (devices (op st)) i = Some d' \<and> dev_revoked_at d' = Some t"
  using devices_evolveD [OF evolves] by (fastforce simp: device_evolves_def)

lemma member_stays_member:
  "enroll_inv st \<Longrightarrow> map_of (devices st) i = Some d \<Longrightarrow> \<not> dev_is_owner d \<Longrightarrow>
     \<exists>d'. map_of (devices (op st)) i = Some d' \<and> \<not> dev_is_owner d'"
  using devices_evolveD [OF evolves] by (fastforce simp: device_evolves_def)

end

lemma enroll_inv_empty [simp]: "enroll_inv EnrollmentStore_empty"
  by (simp add: enroll_inv_def EnrollmentStore_empty_def)

lemma used_ok_token [simp]: "used_ok (st\<lparr>bootstrap_token := t\<rparr>) v = used_ok st v"
  by (simp add: used_ok_def split: option.splits)

lemma enroll_inv_token [simp]: "enroll_inv (st\<lparr>bootstrap_token := t\<rparr>) = enroll_inv st"
  by (simp add: enroll_inv_def)

lemma has_owner_frame [simp]: "has_owner (st\<lparr>bootstrap_token := t\<rparr>) = has_owner st" "has_owner (st\<lparr>invites := is\<rparr>) = has_owner st"
  by (simp_all add: has_owner_def)

lemma devices_evolve_frame [simp]:
  "devices_evolve st (st'\<lparr>bootstrap_token := t\<rparr>) = devices_evolve st st'" "devices_evolve st (st'\<lparr>invites := is\<rparr>) = devices_evolve st st'"
  by (simp_all add: devices_evolve_def)

lemma devices_evolve_refl [simp]: "devices_evolve st st"
  by (simp add: devices_evolve_same)

text \<open>Changing one row within its evolution keeps the invariant.\<close>

lemma row_update:
  assumes inv: "enroll_inv st" and d: "map_of (devices st) i = Some d" and ev: "device_evolves d d'"
  shows "enroll_inv (st\<lparr>devices := AList.update i d' (devices st)\<rparr>)" (is "enroll_inv ?st")
    and "devices_evolve st (st\<lparr>devices := AList.update i d' (devices st)\<rparr>)"
proof -
  show e: "devices_evolve st ?st" using d ev by (auto simp: devices_evolve_def)
  show "enroll_inv ?st"
  proof (rule enroll_invI)
    fix k l a b
    assume "map_of (devices ?st) k = Some a" "map_of (devices ?st) l = Some b" "dev_pubkey a = dev_pubkey b"
    then show "k = l" using d ev enroll_invD(3) [OF inv, of k _ l]
      by (auto simp: device_evolves_def split: if_splits)
  next
    fix k v assume "map_of (invites ?st) k = Some v"
    then show "\<exists>d. map_of (devices ?st) (inv_issued_by v) = Some d" "used_ok ?st v"
      using enroll_invD(5,6) [OF inv, of k v] used_ok_evolves [OF e] by (auto simp: d)
  qed (use enroll_invD(1,2,4,7) [OF inv] in auto)
qed

text \<open>Inserting a fresh device keeps the invariant and the rows before it.\<close>

lemma insert_device_None:
  "hm_ok (devices st) \<Longrightarrow> insert_device i pk l ow now st = None \<longleftrightarrow>
     map_of (devices st) i \<noteq> None \<or> (\<exists>j d. map_of (devices st) j = Some d \<and> dev_pubkey d = pk)"
  by (auto simp: insert_device_def hm_ex)

definition new_device :: "bytes \<Rightarrow> string \<Rightarrow> bool \<Rightarrow> int \<Rightarrow> Device" where
  "new_device pk l ow now = \<lparr>dev_pubkey = pk, dev_label = l, dev_is_owner = ow, dev_created_at = now,
     dev_last_seen_hour = now sdiv 3600, dev_revoked_at = None\<rparr>"

lemma insert_device_Some:
  assumes "hm_ok (devices st)" and "insert_device i pk l ow now st = Some st'"
  shows "st' = st\<lparr>devices := AList.update i (new_device pk l ow now) (devices st)\<rparr>"
    and "map_of (devices st) i = None" and "\<And>j d. map_of (devices st) j = Some d \<Longrightarrow> dev_pubkey d \<noteq> pk"
  using assms by (auto simp: insert_device_def new_device_def hm_ex split: if_splits)

lemma insert_device_inv:
  assumes inv: "enroll_inv st" and s: "insert_device i pk l ow now st = Some st'"
  shows "enroll_inv st'" and "devices_evolve st st'"
proof -
  note ins = insert_device_Some [OF enroll_invD(1) [OF inv] s]
  show e: "devices_evolve st st'" using ins(1,2) by (auto simp: devices_evolve_def)
  show "enroll_inv st'"
  proof (rule enroll_invI)
    fix k m a b
    assume "map_of (devices st') k = Some a" "map_of (devices st') m = Some b" "dev_pubkey a = dev_pubkey b"
    then show "k = m" using ins(1) ins(3) [of k a] ins(3) [of m b] enroll_invD(3) [OF inv, of k a m b]
      by (auto simp: new_device_def split: if_splits)
  next
    fix k v assume "map_of (invites st') k = Some v"
    then show "\<exists>d. map_of (devices st') (inv_issued_by v) = Some d" "used_ok st' v"
      using enroll_invD(5,6) [OF inv, of k v] used_ok_evolves [OF e] ins(1) by auto
  qed (use enroll_invD(1,2,4,7) [OF inv] ins(1) in auto)
qed

lemma insert_device_owner:
  assumes ok: "hm_ok (devices st)" and s: "insert_device i pk l ow now st = Some st'" and o: "has_owner st \<or> ow"
  shows "has_owner st'"
proof (cases ow)
  case True
  then show ?thesis using insert_device_Some(1) [OF ok s]
    by (auto simp: has_owner_def new_device_def active_owner_def intro!: exI [of _ i])
next
  case False
  then obtain j d where d: "map_of (devices st) j = Some d" "active_owner d" using o by (auto simp: has_owner_def)
  then have "map_of (devices st') j = Some d" using insert_device_Some(1,2) [OF ok s] by auto
  then show ?thesis using d(2) by (auto simp: has_owner_def)
qed

text \<open>A successful claim and a successful redemption, in full.\<close>

lemma claim_success:
  "fst (claim_bootstrap h i pk l now st) = Inr () \<longleftrightarrow>
     (\<exists>t. bootstrap_token st = Some t \<and> now < tok_expires_at t \<and> tok_hash t = h \<and> insert_device i pk l True now st \<noteq> None)"
  by (auto simp: claim_bootstrap_def split: option.splits)

lemma claim_state:
  "snd (claim_bootstrap h i pk l now st) =
     (if fst (claim_bootstrap h i pk l now st) = Inr () then (the (insert_device i pk l True now st))\<lparr>bootstrap_token := None\<rparr> else st)"
  by (auto simp: claim_bootstrap_def split: option.splits)

lemma mark_used_Some:
  "mark_used i now k st = (1, st') \<longleftrightarrow>
     (\<exists>v. map_of (invites st) k = Some v \<and> inv_used_by v = None \<and>
        st' = st\<lparr>invites := AList.update k (v\<lparr>inv_used_by := Some i, inv_used_at := Some now\<rparr>) (invites st)\<rparr>)"
  by (auto simp: mark_used_def split: option.splits)

definition used_invite :: "string \<Rightarrow> int \<Rightarrow> Invite \<Rightarrow> Invite" where
  "used_invite i now v = v\<lparr>inv_used_by := Some i, inv_used_at := Some now\<rparr>"

lemma insert_device_invites: "insert_device i pk l ow now (st\<lparr>invites := is\<rparr>) = map_option (\<lambda>s. s\<lparr>invites := is\<rparr>) (insert_device i pk l ow now st)"
  by (simp add: insert_device_def)

lemma redeem_success:
  assumes "enroll_inv st" and "redeem_invite h i pk l now st = (Inr k, st')"
  shows "\<exists>v st1. map_of (invites st) k = Some v \<and> redeemable h now v \<and> insert_device i pk l False now st = Some st1 \<and>
     st' = st1\<lparr>invites := AList.update k (used_invite i now v) (invites st1)\<rparr>"
proof -
  obtain v where f: "find (\<lambda>(_, v). redeemable h now v) (invites st) = Some (k, v)"
    using assms(2) by (auto simp: redeem_invite_def split: option.splits prod.splits if_splits)
  have v: "map_of (invites st) k = Some v" "redeemable h now v" using hm_findD [OF enroll_invD(2) [OF assms(1)] f] by auto
  then have "mark_used i now k st = (1, st\<lparr>invites := AList.update k (used_invite i now v) (invites st)\<rparr>)"
    by (simp add: mark_used_def redeemable_def used_invite_def)
  then obtain st1 where "insert_device i pk l False now st = Some st1"
      "st' = st1\<lparr>invites := AList.update k (used_invite i now v) (invites st)\<rparr>"
    using assms(2) f by (auto simp: redeem_invite_def insert_device_invites split: option.splits)
  moreover have "invites st1 = invites st" using calculation(1) by (auto simp: insert_device_def split: if_splits)
  ultimately show ?thesis using v by auto
qed

lemma redeem_failure: "redeem_invite h i pk l now st = (Inl e, st') \<Longrightarrow> st' = st"
  by (auto simp: redeem_invite_def split: option.splits prod.splits if_splits)

lemma redeem_inv:
  assumes inv: "enroll_inv st" and r: "redeem_invite h i pk l now st = (Inr k, st')"
  shows "enroll_inv st'" and "devices_evolve st st'"
proof -
  obtain v st1 where v: "map_of (invites st) k = Some v" "redeemable h now v" and s: "insert_device i pk l False now st = Some st1"
      and st': "st' = st1\<lparr>invites := AList.update k (used_invite i now v) (invites st1)\<rparr>"
    using redeem_success [OF assms] by blast
  note ins = insert_device_Some [OF enroll_invD(1) [OF inv] s] and inv1 = insert_device_inv [OF inv s]
  show "devices_evolve st st'" using inv1(2) by (simp add: st')
  have v1: "map_of (invites st1) k = Some v" using v ins(1) by simp
  have new: "map_of (devices st1) i = Some (new_device pk l False now)" using ins(1) by simp
  have unused: "inv_used_by w \<noteq> Some i" if "map_of (invites st1) j = Some w" for j w
    using that ins(1,2) enroll_invD(6) [OF inv, of j w] by (auto simp: used_ok_def)
  have same: "\<exists>w'. map_of (invites st1) j = Some w' \<and> inv_code_hash w' = inv_code_hash w" if "map_of (invites st') j = Some w" for j w
    using that v1 by (auto simp: st' used_invite_def split: if_splits)
  show "enroll_inv st'"
  proof (rule enroll_invI)
    fix j m a b
    assume "map_of (invites st') j = Some a" "map_of (invites st') m = Some b" "inv_code_hash a = inv_code_hash b"
    then show "j = m" using same [of j a] same [of m b] enroll_invD(4) [OF inv1(1)] by metis
  next
    fix j m a b u
    assume "map_of (invites st') j = Some a" "map_of (invites st') m = Some b" "inv_used_by a = Some u" "inv_used_by b = Some u"
    then consider "j = m" | "j \<noteq> k" "map_of (invites st1) j = Some a" "m = k" "u = i"
      | "m \<noteq> k" "map_of (invites st1) m = Some b" "j = k" "u = i"
      | "map_of (invites st1) j = Some a" "map_of (invites st1) m = Some b"
      by (auto simp: st' used_invite_def split: if_splits)
    then show "j = m" using \<open>inv_used_by a = Some u\<close> \<open>inv_used_by b = Some u\<close> unused enroll_invD(7) [OF inv1(1)] by cases blast+
  next
    fix j w assume "map_of (invites st') j = Some w"
    then show "\<exists>d. map_of (devices st') (inv_issued_by w) = Some d" "used_ok st' w"
      using v1 v(2) new enroll_invD(5,6) [OF inv1(1), of j w] enroll_invD(5) [OF inv1(1) v1]
      by (auto simp: st' used_invite_def used_ok_def new_device_def redeemable_def split: if_splits option.splits)
  qed (use enroll_invD(1,2,3) [OF inv1(1)] in \<open>auto simp: st'\<close>)
qed

interpretation set_token: enroll_op "\<lambda>st. snd (set_bootstrap_token h c e st)" for h c e
  by unfold_locales (simp_all add: set_bootstrap_token_def)

lemma claim_inv:
  assumes "enroll_inv st"
  shows "enroll_inv (snd (claim_bootstrap h i pk l now st))" and "devices_evolve st (snd (claim_bootstrap h i pk l now st))"
    and "has_owner st \<or> fst (claim_bootstrap h i pk l now st) = Inr () \<Longrightarrow> has_owner (snd (claim_bootstrap h i pk l now st))"
  using assms insert_device_inv [OF assms] insert_device_owner [OF enroll_invD(1) [OF assms]]
  by (auto simp: claim_bootstrap_def split: option.splits if_splits)

interpretation claim: enroll_op "\<lambda>st. snd (claim_bootstrap h i pk l now st)" for h i pk l now
  by unfold_locales (simp_all add: claim_inv)

interpretation redeem: enroll_op "\<lambda>st. snd (redeem_invite h i pk l now st)" for h i pk l now
proof (unfold_locales, goal_cases)
  case (1 st)
  then show ?case using redeem_inv(1) redeem_failure by (metis prod.collapse sum.exhaust_sel)
next
  case (2 st)
  then show ?case using redeem_inv(2) redeem_failure by (metis prod.collapse sum.exhaust_sel devices_evolve_refl)
next
  case (3 st)
  obtain r st' where r: "redeem_invite h i pk l now st = (r, st')" by fastforce
  show ?case
  proof (cases r)
    case (Inl e)
    then show ?thesis using r redeem_failure 3 by fastforce
  next
    case (Inr k)
    then show ?thesis using redeem_success [OF 3(1), of h i pk l now k st'] r insert_device_owner [OF enroll_invD(1) [OF 3(1)]] 3(2)
      by fastforce
  qed
qed

lemma insert_invite_inv:
  assumes inv: "enroll_inv st"
  shows "enroll_inv (snd (insert_invite k h l own c e st))"
proof (cases "fst (insert_invite k h l own c e st)")
  case (Inl x)
  then show ?thesis using inv by (auto simp: insert_invite_def split: if_splits)
next
  case (Inr u)
  define v where "v = \<lparr>inv_code_hash = h, inv_label = l, inv_issued_by = own, inv_created_at = c, inv_expires_at = e, inv_used_by = None, inv_used_at = None\<rparr>"
  have fresh: "map_of (invites st) k = None" "\<And>j w. map_of (invites st) j = Some w \<Longrightarrow> inv_code_hash w \<noteq> h"
      "\<exists>d. map_of (devices st) own = Some d"
    and st': "snd (insert_invite k h l own c e st) = st\<lparr>invites := AList.update k v (invites st)\<rparr>"
    using Inr enroll_invD(2) [OF inv] by (auto simp: insert_invite_def hm_ex v_def split: if_splits)
  have v: "inv_code_hash v = h" "inv_used_by v = None" "inv_issued_by v = own" "inv_used_at v = None" by (simp_all add: v_def)
  show ?thesis unfolding st'
  proof (rule enroll_invI, goal_cases)
    case (4 i j a b)
    then show ?case using fresh(2) [of i a] fresh(2) [of j b] enroll_invD(4) [OF inv, of i a j b] v(1) by (auto split: if_splits)
  next
    case (5 i w)
    then show ?case using fresh(3) enroll_invD(5) [OF inv, of i w] v by (auto split: if_splits)
  next
    case (6 i w)
    then show ?case using enroll_invD(6) [OF inv, of i w] v by (auto simp: used_ok_def split: if_splits option.splits)
  next
    case (7 i j a b u)
    then show ?case using enroll_invD(7) [OF inv, of i a j b u] v by (auto split: if_splits)
  qed (use enroll_invD(1,2,3) [OF inv] in auto)
qed

interpretation mint: enroll_op "\<lambda>st. snd (insert_invite k h l own c e st)" for k h l own c e
proof
  show "enroll_inv st \<Longrightarrow> enroll_inv (snd (insert_invite k h l own c e st))" for st by (rule insert_invite_inv)
qed (simp_all add: insert_invite_def)

lemma revoke_invite_inv:
  assumes inv: "enroll_inv st"
  shows "enroll_inv (st\<lparr>invites := AList.delete k (invites st)\<rparr>)" (is "enroll_inv ?st")
proof -
  have kept: "map_of (invites ?st) j = Some w \<Longrightarrow> map_of (invites st) j = Some w" for j w by (simp split: if_splits)
  note D = enroll_invD [OF inv]
  show ?thesis
  proof (rule enroll_invI)
    show "used_ok ?st w" if "map_of (invites ?st) i = Some w" for i w
      using D(6) [OF kept [OF that]] by (simp add: used_ok_def split: option.splits)
    show "i = j" if "map_of (invites ?st) i = Some v" "map_of (invites ?st) j = Some w" "inv_code_hash v = inv_code_hash w" for i j v w
      using D(4) [OF kept kept] that by blast
    show "i = j" if "map_of (invites ?st) i = Some v" "map_of (invites ?st) j = Some w" "inv_used_by v = Some u" "inv_used_by w = Some u" for i j v w u
      using D(7) [OF kept kept] that by blast
    show "\<exists>d. map_of (devices ?st) (inv_issued_by w) = Some d" if "map_of (invites ?st) i = Some w" for i w
      using D(5) [OF kept [OF that]] by simp
    show "i = j" if "map_of (devices ?st) i = Some v" "map_of (devices ?st) j = Some w" "dev_pubkey v = dev_pubkey w" for i j v w
      using D(3) that by simp
  qed (use D(1,2) in simp_all)
qed

interpretation drop_invite: enroll_op "\<lambda>st. snd (revoke_invite k st)" for k
  by unfold_locales (simp_all add: revoke_invite_def revoke_invite_inv)

interpretation touch: enroll_op "\<lambda>st. snd (touch_last_seen i now st)" for i now
proof (unfold_locales, goal_cases)
  case (1 st)
  then show ?case by (auto simp: touch_last_seen_def Let_def device_evolves_def intro!: row_update(1) split: option.splits)
next
  case (2 st)
  then show ?case by (auto simp: touch_last_seen_def Let_def device_evolves_def intro!: row_update(2) split: option.splits)
next
  case (3 st)
  then obtain j d where d: "map_of (devices st) j = Some d" "active_owner d" by (auto simp: has_owner_def)
  then have "\<exists>d'. map_of (devices (snd (touch_last_seen i now st))) j = Some d' \<and> active_owner d'"
    by (auto simp: touch_last_seen_def Let_def active_owner_def split: option.splits)
  then show ?case by (auto simp: has_owner_def)
qed

lemma revoke_device_cases:
  "revoke_device i now st = (r, st') \<Longrightarrow>
     st' = st \<or> (\<exists>d. map_of (devices st) i = Some d \<and> dev_revoked_at d = None \<and> (dev_is_owner d \<longrightarrow> 1 < count_owners st) \<and>
       st' = st\<lparr>devices := AList.update i (d\<lparr>dev_revoked_at := Some now\<rparr>) (devices st)\<rparr>)"
  by (auto simp: revoke_device_def split: option.splits if_splits)

lemma revoke_device_owner:
  assumes inv: "enroll_inv st" and own: "has_owner st"
  shows "has_owner (snd (revoke_device i now st))"
proof -
  obtain r st' where r: "revoke_device i now st = (r, st')" by fastforce
  have "has_owner st'" if d: "map_of (devices st) i = Some d" "dev_is_owner d \<longrightarrow> 1 < count_owners st"
      and st': "st' = st\<lparr>devices := AList.update i (d\<lparr>dev_revoked_at := Some now\<rparr>) (devices st)\<rparr>" for d
  proof -
    have "\<exists>j w. j \<noteq> i \<and> map_of (devices st) j = Some w \<and> active_owner w"
    proof (cases "dev_is_owner d")
      case True
      then show ?thesis using hm_second [OF enroll_invD(1) [OF inv], of active_owner i] d(2) by (simp add: count_owners_def)
    next
      case False
      obtain j w where w: "map_of (devices st) j = Some w" "active_owner w" using own by (auto simp: has_owner_def)
      then have "j \<noteq> i" using False d(1) by (auto simp: active_owner_def)
      then show ?thesis using w by blast
    qed
    then show ?thesis by (auto simp: st' has_owner_def)
  qed
  then show ?thesis using revoke_device_cases [OF r] own r by auto
qed

interpretation revoke_dev: enroll_op "\<lambda>st. snd (revoke_device i now st)" for i now
proof (unfold_locales, goal_cases)
  case (1 st)
  then show ?case by (auto simp: revoke_device_def device_evolves_def intro!: row_update(1) split: option.splits)
next
  case (2 st)
  then show ?case by (auto simp: revoke_device_def device_evolves_def intro!: row_update(2) split: option.splits)
next
  case (3 st)
  then show ?case by (rule revoke_device_owner)
qed


subsection \<open>Histories\<close>

datatype enroll_event =
    SetToken bytes int int
  | Claim bytes string bytes string int
  | Mint string bytes string string int int
  | DropInvite string
  | Redeem bytes string bytes string int
  | Touch string int
  | RevokeDevice string int

fun enroll_step :: "enroll_event \<Rightarrow> EnrollmentStore \<Rightarrow> bool \<times> EnrollmentStore" where
  "enroll_step (SetToken h c e) st = (case set_bootstrap_token h c e st of (r, st') \<Rightarrow> (\<not> isl r, st'))"
| "enroll_step (Claim h i pk l now) st = (case claim_bootstrap h i pk l now st of (r, st') \<Rightarrow> (\<not> isl r, st'))"
| "enroll_step (Mint k h l own c e) st = (case insert_invite k h l own c e st of (r, st') \<Rightarrow> (\<not> isl r, st'))"
| "enroll_step (DropInvite k) st = (case revoke_invite k st of (r, st') \<Rightarrow> (\<not> isl r, st'))"
| "enroll_step (Redeem h i pk l now) st = (case redeem_invite h i pk l now st of (r, st') \<Rightarrow> (\<not> isl r, st'))"
| "enroll_step (Touch i now) st = (case touch_last_seen i now st of (r, st') \<Rightarrow> (\<not> isl r, st'))"
| "enroll_step (RevokeDevice i now) st = (case revoke_device i now st of (r, st') \<Rightarrow> (\<not> isl r, st'))"

definition enroll_run :: "enroll_event list \<Rightarrow> EnrollmentStore \<Rightarrow> EnrollmentStore" where
  "enroll_run es st = foldl (\<lambda>st e. snd (enroll_step e st)) st es"

text \<open>The events that succeed, in order.\<close>

fun succeeded :: "EnrollmentStore \<Rightarrow> enroll_event list \<Rightarrow> enroll_event list" where
  "succeeded st [] = []"
| "succeeded st (e # es) = (case enroll_step e st of (ok, st') \<Rightarrow> (if ok then [e] else []) @ succeeded st' es)"

interpretation event: enroll_op "\<lambda>st. snd (enroll_step e st)" for e
proof (cases e)
  case (SetToken h c x)
  then show "enroll_op (\<lambda>st. snd (enroll_step e st))" using set_token.enroll_op_axioms by (simp add: case_prod_beta)
next
  case (Claim h i pk l now)
  then show "enroll_op (\<lambda>st. snd (enroll_step e st))" using claim.enroll_op_axioms by (simp add: case_prod_beta)
next
  case (Mint k h l own c x)
  then show "enroll_op (\<lambda>st. snd (enroll_step e st))" using mint.enroll_op_axioms by (simp add: case_prod_beta)
next
  case (DropInvite k)
  then show "enroll_op (\<lambda>st. snd (enroll_step e st))" using drop_invite.enroll_op_axioms by (simp add: case_prod_beta)
next
  case (Redeem h i pk l now)
  then show "enroll_op (\<lambda>st. snd (enroll_step e st))" using redeem.enroll_op_axioms by (simp add: case_prod_beta)
next
  case (Touch i now)
  then show "enroll_op (\<lambda>st. snd (enroll_step e st))" using touch.enroll_op_axioms by (simp add: case_prod_beta)
next
  case (RevokeDevice i now)
  then show "enroll_op (\<lambda>st. snd (enroll_step e st))" using revoke_dev.enroll_op_axioms by (simp add: case_prod_beta)
qed

lemma enroll_run_simps [simp]:
  "enroll_run [] st = st" "enroll_run (e # es) st = enroll_run es (snd (enroll_step e st))"
  "enroll_run (es @ fs) st = enroll_run fs (enroll_run es st)"
  by (simp_all add: enroll_run_def)

interpretation history: enroll_op "enroll_run es" for es
proof (unfold_locales, goal_cases)
  case (1 st)
  then show ?case by (induction es arbitrary: st) (simp_all add: event.keeps_inv)
next
  case (2 st)
  then show ?case
  proof (induction es arbitrary: st)
    case (Cons e es)
    then show ?case using Cons.IH [OF event.keeps_inv] event.evolves devices_evolve_trans by fastforce
  qed simp
next
  case (3 st)
  then show ?case by (induction es arbitrary: st) (simp_all add: event.keeps_inv event.keeps_owner)
qed

subsection \<open>Codes and tokens are single-use\<close>

fun redeems :: "bytes \<Rightarrow> enroll_event \<Rightarrow> bool" where
  "redeems h (Redeem h' i pk l now) \<longleftrightarrow> h' = h" | "redeems h _ \<longleftrightarrow> False"

fun mints :: "bytes \<Rightarrow> enroll_event \<Rightarrow> bool" where
  "mints h (Mint k h' l own c x) \<longleftrightarrow> h' = h" | "mints h _ \<longleftrightarrow> False"

fun claims_with :: "bytes \<Rightarrow> enroll_event \<Rightarrow> bool" where
  "claims_with h (Claim h' i pk l now) \<longleftrightarrow> h' = h" | "claims_with h _ \<longleftrightarrow> False"

fun sets_token :: "bytes \<Rightarrow> enroll_event \<Rightarrow> bool" where
  "sets_token h (SetToken h' c x) \<longleftrightarrow> h' = h" | "sets_token h _ \<longleftrightarrow> False"

definition open_invite :: "EnrollmentStore \<Rightarrow> bytes \<Rightarrow> bool" where
  "open_invite st h \<longleftrightarrow> (\<exists>k v. map_of (invites st) k = Some v \<and> inv_code_hash v = h \<and> inv_used_by v = None)"

definition open_token :: "EnrollmentStore \<Rightarrow> bytes \<Rightarrow> bool" where
  "open_token st h \<longleftrightarrow> (\<exists>t. bootstrap_token st = Some t \<and> tok_hash t = h)"

lemma insert_device_frame: "insert_device i pk l ow now st = Some st' \<Longrightarrow> invites st' = invites st \<and> bootstrap_token st' = bootstrap_token st"
  by (auto simp: insert_device_def split: if_splits)

text \<open>How one event changes the invites.\<close>

lemma step_invites:
  assumes inv: "enroll_inv st" and v: "map_of (invites (snd (enroll_step e st))) k = Some v"
  shows "map_of (invites st) k = Some v \<or>
    fst (enroll_step e st) \<and> (\<exists>h l own c x. e = Mint k h l own c x \<and>
       v = \<lparr>inv_code_hash = h, inv_label = l, inv_issued_by = own, inv_created_at = c, inv_expires_at = x, inv_used_by = None, inv_used_at = None\<rparr>) \<or>
    (\<exists>h i pk l now w. e = Redeem h i pk l now \<and> map_of (invites st) k = Some w \<and> v = used_invite i now w)"
proof (cases e)
  case (Redeem h i pk l now)
  obtain r st' where r: "redeem_invite h i pk l now st = (r, st')" by fastforce
  show ?thesis
  proof (cases r)
    case (Inl x)
    then show ?thesis using Redeem r redeem_failure v by fastforce
  next
    case (Inr k')
    then show ?thesis using Redeem r v redeem_success [OF inv, of h i pk l now k' st'] insert_device_frame
      by (fastforce split: if_splits)
  qed
next
  case (Claim h i pk l now)
  then show ?thesis using v by (auto simp: claim_bootstrap_def dest!: insert_device_frame split: option.splits if_splits)
qed (use v in \<open>auto simp: set_bootstrap_token_def insert_invite_def revoke_invite_def touch_last_seen_def revoke_device_def Let_def
      split: option.splits if_splits\<close>)

lemma open_invite_step:
  assumes "enroll_inv st" and "open_invite (snd (enroll_step e st)) h" and "\<not> (mints h e \<and> fst (enroll_step e st))"
  shows "open_invite st h"
proof -
  obtain k v where v: "map_of (invites (snd (enroll_step e st))) k = Some v" "inv_code_hash v = h" "inv_used_by v = None"
    using assms(2) by (auto simp: open_invite_def)
  then show ?thesis using step_invites [OF assms(1) v(1)] assms(3) by (auto simp: open_invite_def used_invite_def)
qed

lemma redeem_closes:
  assumes "enroll_inv st" and "redeem_invite h i pk l now st = (Inr k, st')"
  shows "open_invite st h" and "\<not> open_invite st' h"
proof -
  obtain v st1 where v: "map_of (invites st) k = Some v" "redeemable h now v" and s: "insert_device i pk l False now st = Some st1"
      and st': "st' = st1\<lparr>invites := AList.update k (used_invite i now v) (invites st1)\<rparr>"
    using redeem_success [OF assms] by blast
  show "open_invite st h" using v by (auto simp: open_invite_def redeemable_def)
  have "invites st1 = invites st" using insert_device_frame [OF s] by simp
  moreover have "j = k" if "map_of (invites st) j = Some w" "inv_code_hash w = h" for j w
    using enroll_invD(4) [OF assms(1) that(1) v(1)] that(2) v(2) by (simp add: redeemable_def)
  ultimately show "\<not> open_invite st' h" by (auto simp: open_invite_def st' used_invite_def split: if_splits)
qed

lemma redeem_count:
  "enroll_inv st \<Longrightarrow> length (filter (redeems h) (succeeded st es)) \<le>
     length (filter (mints h) (succeeded st es)) + (if open_invite st h then 1 else 0)"
proof (induction es arbitrary: st)
  case (Cons e es)
  obtain ok st' where s: "enroll_step e st = (ok, st')" by fastforce
  have inv': "enroll_inv st'" using event.keeps_inv [OF Cons.prems, of e] s by simp
  note IH = Cons.IH [OF inv']
  consider (red) "ok" "redeems h e" | (mint) "ok" "mints h e" "\<not> redeems h e" | (other) "\<not> (ok \<and> redeems h e)" "\<not> (ok \<and> mints h e)" by blast
  then show ?case
  proof cases
    case red
    then obtain i pk l now where e: "e = Redeem h i pk l now" by (cases e) auto
    then obtain k where "redeem_invite h i pk l now st = (Inr k, st')"
      using s red(1) by (cases "fst (redeem_invite h i pk l now st)") (auto split: prod.splits)
    then show ?thesis using redeem_closes [OF Cons.prems] IH s red e by (auto split: if_splits)
  next
    case mint
    then show ?thesis using IH s by (auto split: if_splits)
  next
    case other
    then have "open_invite st' h \<Longrightarrow> open_invite st h" using open_invite_step [OF Cons.prems, of e h] s by auto
    then show ?thesis using IH s other by (auto split: if_splits)
  qed
qed simp

lemma claim_count:
  "length (filter (claims_with h) (succeeded st es)) \<le>
     length (filter (sets_token h) (succeeded st es)) + (if open_token st h then 1 else 0)"
proof (induction es arbitrary: st)
  case (Cons e es)
  obtain ok st' where s: "enroll_step e st = (ok, st')" by fastforce
  note IH = Cons.IH [of st']
  consider (claim) i pk l now where "ok" "e = Claim h i pk l now" | (other) "\<not> (ok \<and> claims_with h e)" by (cases e) auto
  then show ?case
  proof cases
    case claim
    then have "open_token st h" "\<not> open_token st' h"
      using s by (auto simp: claim_bootstrap_def open_token_def split: option.splits if_splits)
    then show ?thesis using IH s claim by simp
  next
    case other
    have "open_token st' h \<Longrightarrow> open_token st h \<or> ok \<and> sets_token h e"
    proof (cases e)
      case (Redeem g i pk l now)
      moreover assume "open_token st' h"
      ultimately show ?thesis using s
        by (auto simp: redeem_invite_def mark_used_def open_token_def dest!: insert_device_frame split: option.splits prod.splits if_splits)
    qed (use s in \<open>auto simp: open_token_def set_bootstrap_token_def claim_bootstrap_def insert_invite_def revoke_invite_def touch_last_seen_def
        revoke_device_def Let_def dest!: insert_device_frame split: option.splits prod.splits if_splits\<close>)
    then show ?thesis using IH s other by (auto split: if_splits)
  qed
qed simp

text \<open>Every invite in the store was minted with its code hash and expiry.\<close>

lemma invite_source:
  assumes "enroll_inv st" and "map_of (invites (enroll_run es st)) k = Some v"
  shows "(\<exists>w. map_of (invites st) k = Some w \<and> inv_code_hash w = inv_code_hash v \<and> inv_expires_at w = inv_expires_at v) \<or>
     (\<exists>l own c. Mint k (inv_code_hash v) l own c (inv_expires_at v) \<in> set (succeeded st es))"
  using assms
proof (induction es arbitrary: st)
  case (Cons e es)
  obtain ok st' where s: "enroll_step e st = (ok, st')" by fastforce
  have inv': "enroll_inv st'" using event.keeps_inv [OF Cons.prems(1), of e] s by simp
  have "map_of (invites (enroll_run es st')) k = Some v" using Cons.prems(2) s by simp
  from Cons.IH [OF inv' this] show ?case
  proof (elim disjE exE conjE)
    fix w assume w: "map_of (invites st') k = Some w" "inv_code_hash w = inv_code_hash v" "inv_expires_at w = inv_expires_at v"
    have "set (succeeded st (e # es)) = (if ok then {e} else {}) \<union> set (succeeded st' es)" using s by simp
    moreover have "map_of (invites (snd (enroll_step e st))) k = Some w" using w(1) s by simp
    from step_invites [OF Cons.prems(1) this] show ?thesis
    proof (elim disjE exE conjE)
      fix h l own c x
      assume m: "fst (enroll_step e st)" "e = Mint k h l own c x"
        "w = \<lparr>inv_code_hash = h, inv_label = l, inv_issued_by = own, inv_created_at = c, inv_expires_at = x, inv_used_by = None, inv_used_at = None\<rparr>"
      then have "Mint k (inv_code_hash v) l own c (inv_expires_at v) \<in> set (succeeded st (e # es))"
        using w(2,3) by (auto split: prod.splits)
      then show ?thesis by blast
    qed (use w(2,3) in \<open>auto simp: used_invite_def\<close>)
  next
    fix l own c assume "Mint k (inv_code_hash v) l own c (inv_expires_at v) \<in> set (succeeded st' es)"
    then have "Mint k (inv_code_hash v) l own c (inv_expires_at v) \<in> set (succeeded st (e # es))" by (simp add: s)
    then show ?thesis by blast
  qed
qed auto


subsection \<open>Properties\<close>

definition after :: "enroll_event list \<Rightarrow> EnrollmentStore" where
  "after es = enroll_run es EnrollmentStore_empty"

lemma after_inv [simp]: "enroll_inv (after es)"
  unfolding after_def by (rule history.keeps_inv) simp

lemma after_append: "after (es @ fs) = enroll_run fs (after es)"
  by (simp add: after_def)

text \<open>
  C18. Invite codes and bootstrap tokens are single-use: over every history of store operations from
  an empty database, a code is redeemed at most as often as it was minted and a token claimed at
  most as often as it was set.  A redemption that succeeds consumes an invite minted with that code,
  strictly before its expiry, and enrols a member; a claim that succeeds enrols an owner and wipes
  the token; a failed claim or redemption changes nothing.
\<close>
theorem enrollment_single_use:
  "length (filter (redeems h) (succeeded EnrollmentStore_empty es)) \<le> length (filter (mints h) (succeeded EnrollmentStore_empty es)) \<and>
   length (filter (claims_with h) (succeeded EnrollmentStore_empty es)) \<le> length (filter (sets_token h) (succeeded EnrollmentStore_empty es)) \<and>
   (case redeem_invite h i pk l now (after es) of
      (Inl e, st) \<Rightarrow> st = after es
    | (Inr k, st) \<Rightarrow>
        (\<exists>l' own c x. Mint k h l' own c x \<in> set (succeeded EnrollmentStore_empty es) \<and> now < x) \<and>
        map_of (devices (after es)) i = None \<and> map_of (devices st) i = Some (new_device pk l False now)) \<and>
   (case claim_bootstrap h i pk l now (after es) of
      (Inl e, st) \<Rightarrow> st = after es
    | (Inr u, st) \<Rightarrow> bootstrap_token st = None \<and> map_of (devices (after es)) i = None \<and>
        map_of (devices st) i = Some (new_device pk l True now))"
proof (intro conjI)
  show "length (filter (redeems h) (succeeded EnrollmentStore_empty es)) \<le> length (filter (mints h) (succeeded EnrollmentStore_empty es))"
    using redeem_count [OF enroll_inv_empty, of h es] by (simp add: open_invite_def EnrollmentStore_empty_def)
  show "length (filter (claims_with h) (succeeded EnrollmentStore_empty es)) \<le> length (filter (sets_token h) (succeeded EnrollmentStore_empty es))"
    using claim_count [of h EnrollmentStore_empty es] by (simp add: open_token_def EnrollmentStore_empty_def)
  show "case redeem_invite h i pk l now (after es) of (Inl e, st) \<Rightarrow> st = after es
    | (Inr k, st) \<Rightarrow> (\<exists>l' own c x. Mint k h l' own c x \<in> set (succeeded EnrollmentStore_empty es) \<and> now < x) \<and>
        map_of (devices (after es)) i = None \<and> map_of (devices st) i = Some (new_device pk l False now)"
  proof (cases "redeem_invite h i pk l now (after es)")
    case (Pair r st)
    show ?thesis
    proof (cases r)
      case (Inr k)
      obtain v st1 where v: "map_of (invites (after es)) k = Some v" "redeemable h now v"
          and s: "insert_device i pk l False now (after es) = Some st1"
          and st: "st = st1\<lparr>invites := AList.update k (used_invite i now v) (invites st1)\<rparr>"
        using redeem_success [OF after_inv, of h i pk l now es k st] Pair Inr by auto
      have "\<exists>l' own c. Mint k h l' own c (inv_expires_at v) \<in> set (succeeded EnrollmentStore_empty es)"
        using invite_source [OF enroll_inv_empty v(1) [unfolded after_def]] v(2)
        by (auto simp: EnrollmentStore_empty_def redeemable_def)
      then show ?thesis using Pair Inr v(2) insert_device_Some [OF enroll_invD(1) [OF after_inv] s] st by (auto simp: redeemable_def)
    qed (use Pair redeem_failure in auto)
  qed
  show "case claim_bootstrap h i pk l now (after es) of (Inl e, st) \<Rightarrow> st = after es
    | (Inr u, st) \<Rightarrow> bootstrap_token st = None \<and> map_of (devices (after es)) i = None \<and>
        map_of (devices st) i = Some (new_device pk l True now)"
    using insert_device_Some [OF enroll_invD(1) [OF after_inv [of es]], of i pk l True now]
    by (auto simp: claim_bootstrap_def split: option.splits if_splits)
qed

text \<open>
  Enrolled devices: over every history the identifiers, public keys and code hashes are unique
  and used invites name the member enrolled with them; no later history removes a device, changes its
  public key, label or owner bit, or lifts a revocation; and once an active owner exists one exists
  forever, so the count that decides \<open>bootstrapped\<close> stays positive.
\<close>
theorem enrolled_devices_persist:
  "enroll_inv (after es) \<and> devices_evolve (after es) (after (es @ fs)) \<and>
   (0 < count_owners (after es) \<longrightarrow> 0 < count_owners (after (es @ fs)))"
proof (intro conjI impI)
  show "devices_evolve (after es) (after (es @ fs))" unfolding after_append by (rule history.evolves) simp
  assume "0 < count_owners (after es)"
  then have "has_owner (after (es @ fs))" unfolding after_append
    using history.keeps_owner [OF after_inv] count_owners_pos [OF enroll_invD(1) [OF after_inv]] by blast
  then show "0 < count_owners (after (es @ fs))" using count_owners_pos [OF enroll_invD(1) [OF after_inv]] by blast
qed simp

theorem enrolled_devices_persist_witness:
  "0 < count_owners (after ([SetToken [1] 0 100, Claim [1] ''a'' [7] ''A'' 50] @ [RevokeDevice ''a'' 60]))"
  using enrolled_devices_persist [of "[SetToken [1] 0 100, Claim [1] ''a'' [7] ''A'' 50]" "[RevokeDevice ''a'' 60]", THEN conjunct2, THEN conjunct2]
  by (simp add: after_def EnrollmentStore_empty_def set_bootstrap_token_def claim_bootstrap_def insert_device_def count_owners_def active_owner_def)

end
