(* ===== verification/Enrollment_Admin.thy ===== *)
theory Enrollment_Admin
  imports Enrollment_Store Relay_Auth
begin

text \<open>
  The admin surface of restricted enrollment (\<open>byo-relay/src/enrollment_admin.rs\<close>, the \<open>/relay/info\<close>
  handler of \<open>enrollment.rs\<close>, the routes of \<open>main.rs\<close> and the recovery command of \<open>bin/admin.rs\<close>):
  device cookies, invite codes, claim, redeem, invite and device management, and the two middlewares.

  HMAC-SHA256 is a field of the record of primitives.  Device tokens are encoded and decoded by the
  crate \<open>jsonwebtoken\<close>, base64 by the crate \<open>base64\<close>: both are parameters, \<open>device_jwt_correct\<close> is the
  documented behaviour of the token scheme with the leeway the code sets.  Random values and the
  clocks are arguments, collected in \<open>AdminEnv\<close>.  A handler returns its response, the cookies it sets,
  and the new state.  A middleware gets the rest of the request as a function.
\<close>

declare map_of_eq_Some_iff [simp del] Some_eq_map_of_iff [simp del]

subsection \<open>Cookies and device tokens\<close>

definition COOKIE_NAME_DEVICE :: string where "COOKIE_NAME_DEVICE = ''wattcloud_device''"
definition DEVICE_COOKIE_TTL_SECS :: int where "DEVICE_COOKIE_TTL_SECS = 90 * 24 * 3600"
definition DEVICE_COOKIE_REFRESH_WINDOW_SECS :: int where "DEVICE_COOKIE_REFRESH_WINDOW_SECS = 7 * 24 * 3600"

record DeviceClaims =
  dc_sub :: string
  dc_kind :: string
  dc_is_owner :: bool
  dc_iat :: int
  dc_exp :: int
  dc_jti :: string

text \<open>\<open>jsonwebtoken::encode\<close>, and \<open>jsonwebtoken::decode\<close> at a time with a leeway.\<close>

record device_jwt =
  dj_encode :: "bytes \<Rightarrow> DeviceClaims \<Rightarrow> string option"
  dj_decode :: "bytes \<Rightarrow> int \<Rightarrow> int \<Rightarrow> string \<Rightarrow> jwt_error + DeviceClaims"

definition device_jwt_correct :: "device_jwt \<Rightarrow> bool" where
  "device_jwt_correct J \<longleftrightarrow> (\<forall>key c tok leeway now. dj_encode J key c = Some tok \<longrightarrow>
     dj_decode J key leeway now tok = (if dc_exp c < now - leeway then Inl ExpiredSignature else Inr c))"

definition mint_device_jwt :: "device_jwt \<Rightarrow> int \<Rightarrow> string \<Rightarrow> bytes \<Rightarrow> string \<Rightarrow> bool \<Rightarrow> (string \<times> DeviceClaims) option" where
  "mint_device_jwt J now uuid signing_key device_id is_owner =
     (let claims = \<lparr>dc_sub = device_id, dc_kind = ''device'', dc_is_owner = is_owner, dc_iat = now,
                    dc_exp = now + DEVICE_COOKIE_TTL_SECS, dc_jti = uuid\<rparr> in
      map_option (\<lambda>tok. (tok, claims)) (dj_encode J signing_key claims))"

definition verify_device_jwt :: "device_jwt \<Rightarrow> int \<Rightarrow> bytes \<Rightarrow> string \<Rightarrow> jwt_error + DeviceClaims" where
  "verify_device_jwt J now signing_key token =
     and_then (dj_decode J signing_key 5 now token) (\<lambda>claims.
     if dc_kind claims \<noteq> ''device'' then Inl OtherJwtError else Inr claims)"

record Cookie =
  cookie_name :: string
  cookie_value :: string
  http_only :: bool
  secure :: bool
  cookie_path :: string
  same_site :: string
  max_age :: int

definition set_device_cookie :: "string \<Rightarrow> Cookie list" where
  "set_device_cookie token = [\<lparr>cookie_name = COOKIE_NAME_DEVICE, cookie_value = token, http_only = True, secure = True,
     cookie_path = ''/'', same_site = ''Strict'', max_age = DEVICE_COOKIE_TTL_SECS\<rparr>]"

definition clear_device_cookie :: "Cookie list" where
  "clear_device_cookie = [\<lparr>cookie_name = COOKIE_NAME_DEVICE, cookie_value = [], http_only = True, secure = True,
     cookie_path = ''/'', same_site = ''Strict'', max_age = 0\<rparr>]"

subsection \<open>Invite codes and bootstrap tokens\<close>

definition INVITE_ALPHABET :: string where "INVITE_ALPHABET = ''ABCDEFGHJKMNPQRSTUVWXYZ23456789''"
definition INVITE_LEN :: nat where "INVITE_LEN = 11"

text \<open>The random bytes are an argument, one per position.\<close>

definition generate_invite_code :: "bytes \<Rightarrow> string" where
  "generate_invite_code random =
     (let chars = map (\<lambda>b. INVITE_ALPHABET ! (unat b mod length INVITE_ALPHABET)) (take INVITE_LEN random) in
      take 4 chars @ ''-'' @ take 4 (drop 4 chars) @ ''-'' @ take 3 (drop 8 chars))"

definition to_ascii_uppercase :: "char \<Rightarrow> char" where
  "to_ascii_uppercase c = (let n = of_char c :: nat in if 97 \<le> n \<and> n \<le> 122 then char_of (n - 32) else c)"

definition normalize_invite_code :: "string \<Rightarrow> string" where
  "normalize_invite_code input = map to_ascii_uppercase (filter is_ascii_alphanumeric input)"

definition hash_invite_code :: "prims \<Rightarrow> bytes \<Rightarrow> string \<Rightarrow> bytes" where
  "hash_invite_code P signing_key normalized = hmac_raw P signing_key (as_bytes normalized)"

definition generate_bootstrap_token :: "bytes \<Rightarrow> string" where
  "generate_bootstrap_token random = hex_encode random"

definition hash_bootstrap_token :: "prims \<Rightarrow> bytes \<Rightarrow> string \<Rightarrow> bytes" where
  "hash_bootstrap_token P signing_key token = hmac_raw P signing_key (as_bytes (trim token))"

subsection \<open>Limiters\<close>

definition RATE_LIMITER_MAX_KEYS :: nat where "RATE_LIMITER_MAX_KEYS = 50000"

text \<open>\<open>ClaimLimiter\<close> and \<open>RedeemLimiter\<close> have the same fields and methods.\<close>

record TwoTierLimiter =
  per_5min :: "IpBucket SlidingWindowLimiterByKey"
  per_hour :: "IpBucket SlidingWindowLimiterByKey"

definition ClaimLimiter_new :: TwoTierLimiter where
  "ClaimLimiter_new =
     \<lparr>per_5min = SlidingWindowLimiterByKey_new_with_cap (5 * 60) 5 (Some RATE_LIMITER_MAX_KEYS),
      per_hour = SlidingWindowLimiterByKey_new_with_cap 3600 10 (Some RATE_LIMITER_MAX_KEYS)\<rparr>"

definition RedeemLimiter_new :: TwoTierLimiter where
  "RedeemLimiter_new =
     \<lparr>per_5min = SlidingWindowLimiterByKey_new_with_cap (5 * 60) 5 (Some RATE_LIMITER_MAX_KEYS),
      per_hour = SlidingWindowLimiterByKey_new_with_cap 3600 10 (Some RATE_LIMITER_MAX_KEYS)\<rparr>"

definition TwoTierLimiter_check :: "instant \<Rightarrow> instant \<Rightarrow> IpAddr \<Rightarrow> TwoTierLimiter \<Rightarrow> bool \<times> TwoTierLimiter" where
  "TwoTierLimiter_check now now' ip l =
     (let bucket = IpBucket_from ip in
      case SlidingWindowLimiterByKey_check_and_record now bucket (per_5min l) of
        (False, a) \<Rightarrow> (False, l\<lparr>per_5min := a\<rparr>)
      | (True, a) \<Rightarrow>
          (case SlidingWindowLimiterByKey_check_and_record now' bucket (per_hour l) of
             (ok, b) \<Rightarrow> (ok, l\<lparr>per_5min := a, per_hour := b\<rparr>)))"

definition InviteMintLimiter_new :: "IpBucket SlidingWindowLimiterByKey" where
  "InviteMintLimiter_new = SlidingWindowLimiterByKey_new_with_cap 3600 10 (Some RATE_LIMITER_MAX_KEYS)"

definition INFO_LIMITER_MAX_KEYS :: nat where "INFO_LIMITER_MAX_KEYS = 50000"

definition EnrollmentInfoLimiter_new :: "nat \<Rightarrow> IpBucket SlidingWindowLimiterByKey" where
  "EnrollmentInfoLimiter_new max_per_min =
     SlidingWindowLimiterByKey_new_with_cap 60 max_per_min (Some INFO_LIMITER_MAX_KEYS)"

text \<open>\<open>InviteMintLimiter::check\<close> and \<open>EnrollmentInfoLimiter::check_and_record\<close>.\<close>

definition bucket_check :: "instant \<Rightarrow> IpAddr \<Rightarrow> IpBucket SlidingWindowLimiterByKey \<Rightarrow> bool \<times> IpBucket SlidingWindowLimiterByKey" where
  "bucket_check now ip l = SlidingWindowLimiterByKey_check_and_record now (IpBucket_from ip) l"

subsection \<open>State, requests and responses\<close>

record EnrollConfig = AuthConfig +
  enrollment_mode :: EnrollmentMode

record EnrollState = AuthState +
  enrollment_store :: EnrollmentStore
  enrollment_claim_limiter :: TwoTierLimiter
  enrollment_redeem_limiter :: TwoTierLimiter
  enrollment_invite_limiter :: "IpBucket SlidingWindowLimiterByKey"
  enrollment_info_limiter :: "IpBucket SlidingWindowLimiterByKey"

text \<open>
  What a request brings and reads from outside: the peer, the forwarded header, the cookies, the
  monotonic clock at up to three places, the Unix clock at up to three, identifiers and random bytes.
\<close>

record AdminEnv =
  ae_peer :: IpAddr
  ae_xff :: "string option"
  ae_cookies :: "(string, string) hmap"
  ae_inst :: instant
  ae_inst2 :: instant
  ae_inst3 :: instant
  ae_now :: int
  ae_now2 :: int
  ae_now3 :: int
  ae_uuid :: string
  ae_jti :: string
  ae_random :: bytes

record base64_engines =
  url_safe_no_pad :: "string \<Rightarrow> bytes option"
  standard_b64 :: "string \<Rightarrow> bytes option"

record ClaimBody =
  cb_token :: string
  cb_label :: string
  cb_pubkey_b64 :: string
  cb_nonce_id :: string
  cb_answer :: "64 word"

record RedeemBody =
  rb_code :: string
  rb_label :: string
  rb_pubkey_b64 :: string
  rb_nonce_id :: string
  rb_answer :: "64 word"

record InviteCreateBody =
  ic_label :: string
  ic_ttl_secs :: int

datatype AdminResponse =
    AdminError nat string
  | AdminStatus nat
  | AdminChallenge string string nat
  | ClaimOrRedeemResponse string bool
  | InviteCreateResponse string string string int
  | InviteRows "InviteRow list"
  | DeviceRows "DeviceRow list"
  | MeResponse string "(string \<times> bool \<times> string) option"
  | InfoResponse string bool

type_synonym 's admin_result = "AdminResponse \<times> Cookie list \<times> 's"

definition PUBKEY_LEN :: nat where "PUBKEY_LEN = 32"
definition MAX_LABEL_CHARS :: nat where "MAX_LABEL_CHARS = 64"

text \<open>\<open>chars().count()\<close>: the code units that do not continue a character.\<close>

definition chars_count :: "string \<Rightarrow> nat" where
  "chars_count s = length (filter (\<lambda>c. (of_char c :: nat) < 128 \<or> 192 \<le> (of_char c :: nat)) s)"

definition decode_pubkey :: "base64_engines \<Rightarrow> string \<Rightarrow> (nat \<times> string) + bytes" where
  "decode_pubkey B b64 =
     (let trimmed = trim b64 in
      case (case url_safe_no_pad B trimmed of Some bs \<Rightarrow> Some bs | None \<Rightarrow> standard_b64 B trimmed) of
        None \<Rightarrow> Inl (400, ''pubkey_b64 not base64'')
      | Some bs \<Rightarrow> if length bs \<noteq> PUBKEY_LEN then Inl (400, ''pubkey must decode to 32 bytes'') else Inr bs)"

definition trim_label :: "string \<Rightarrow> (nat \<times> string) + string" where
  "trim_label label =
     (let trimmed = trim label in
      if trimmed = [] then Inl (400, ''label required'')
      else if chars_count trimmed > MAX_LABEL_CHARS then Inl (400, ''label too long'')
      else Inr trimmed)"

fun store_error_to_status :: "EnrollmentStoreError \<Rightarrow> nat \<times> string" where
  "store_error_to_status InvalidBootstrapToken = (401, ''invalid_token'')"
| "store_error_to_status InvalidInvite = (401, ''invalid_invite'')"
| "store_error_to_status LastOwner = (409, ''last_owner'')"
| "store_error_to_status DeviceNotFound = (404, ''device_not_found'')"
| "store_error_to_status EnrollConflict = (409, ''conflict'')"
| "store_error_to_status EnrollSqlite = (500, ''internal'')"
| "store_error_to_status EnrollLockPoisoned = (500, ''internal'')"

definition error_response :: "nat \<times> string \<Rightarrow> AdminResponse" where
  "error_response e = AdminError (fst e) (snd e)"

subsection \<open>Claim and redeem\<close>

abbreviation client_of :: "EnrollConfig \<Rightarrow> AdminEnv \<Rightarrow> IpAddr" where
  "client_of cfg env \<equiv> extract_client_ip (ae_peer env) (ae_xff env) (trusted_proxies cfg)"

definition issue_admin_challenge :: "EnrollConfig \<Rightarrow> AdminEnv \<Rightarrow> string \<Rightarrow> EnrollState \<Rightarrow> EnrollState admin_result" where
  "issue_admin_challenge cfg env purpose st =
     (let client_ip = client_of cfg env in
      case SlidingWindowLimiter_check_and_record (ae_inst env) client_ip (auth_challenge_limiter st) of
        (False, l) \<Rightarrow> (AdminStatus 429, [], st\<lparr>auth_challenge_limiter := l\<rparr>)
      | (True, l) \<Rightarrow>
          let st = st\<lparr>auth_challenge_limiter := l\<rparr>;
              nonce = hex_encode (ae_random env) in
          (AdminChallenge (ae_uuid env) nonce (pow_difficulty_bits cfg), [],
           st\<lparr>challenge_store := ChallengeStore_insert (ae_inst2 env) (ae_uuid env) purpose nonce client_ip (challenge_store st)\<rparr>))"

definition get_claim_challenge :: "EnrollConfig \<Rightarrow> AdminEnv \<Rightarrow> EnrollState \<Rightarrow> EnrollState admin_result" where
  "get_claim_challenge cfg env st = issue_admin_challenge cfg env ''admin:claim'' st"

definition get_redeem_challenge :: "EnrollConfig \<Rightarrow> AdminEnv \<Rightarrow> EnrollState \<Rightarrow> EnrollState admin_result" where
  "get_redeem_challenge cfg env st = issue_admin_challenge cfg env ''admin:redeem'' st"

text \<open>The common end of \<open>post_claim\<close> and \<open>post_redeem\<close>: mint the token and set the cookie.\<close>

definition enrol_response :: "device_jwt \<Rightarrow> EnrollConfig \<Rightarrow> AdminEnv \<Rightarrow> bool \<Rightarrow> EnrollState \<Rightarrow> EnrollState admin_result" where
  "enrol_response J cfg env is_owner st =
     (case mint_device_jwt J (ae_now2 env) (ae_jti env) (relay_signing_key cfg) (ae_uuid env) is_owner of
        None \<Rightarrow> (AdminError 500 ''internal'', [], st)
      | Some (tok, _) \<Rightarrow> (ClaimOrRedeemResponse (ae_uuid env) is_owner, set_device_cookie tok, st))"

definition post_claim :: "prims \<Rightarrow> device_jwt \<Rightarrow> base64_engines \<Rightarrow> EnrollConfig \<Rightarrow> AdminEnv \<Rightarrow> ClaimBody \<Rightarrow> EnrollState \<Rightarrow>
    EnrollState admin_result" where
  "post_claim P J B cfg env body st =
     (let client_ip = client_of cfg env in
      case TwoTierLimiter_check (ae_inst env) (ae_inst2 env) client_ip (enrollment_claim_limiter st) of
        (False, l) \<Rightarrow> (AdminError 429 ''rate_limited'', [], st\<lparr>enrollment_claim_limiter := l\<rparr>)
      | (True, l) \<Rightarrow>
          let st = st\<lparr>enrollment_claim_limiter := l\<rparr> in
          (case consume_and_verify P (ae_inst3 env) (cb_nonce_id body) client_ip ''admin:claim'' (pow_difficulty_bits cfg)
                  (cb_answer body) (challenge_store st) of
             (Inl _, s) \<Rightarrow> (AdminError 403 ''bad_pow'', [], st\<lparr>challenge_store := s\<rparr>)
           | (Inr _, s) \<Rightarrow>
               let st = st\<lparr>challenge_store := s\<rparr> in
               (case trim_label (cb_label body) of
                  Inl e \<Rightarrow> (error_response e, [], st)
                | Inr label \<Rightarrow>
               (case decode_pubkey B (cb_pubkey_b64 body) of
                  Inl e \<Rightarrow> (error_response e, [], st)
                | Inr pubkey \<Rightarrow>
               if trim (cb_token body) = [] then (AdminError 400 ''token required'', [], st)
               else
                 let candidate_hash = hash_bootstrap_token P (relay_signing_key cfg) (cb_token body) in
                 (case claim_bootstrap candidate_hash (ae_uuid env) pubkey label (ae_now env) (enrollment_store st) of
                    (Inl e, es) \<Rightarrow> (error_response (store_error_to_status e), [], st\<lparr>enrollment_store := es\<rparr>)
                  | (Inr _, es) \<Rightarrow> enrol_response J cfg env True (st\<lparr>enrollment_store := es\<rparr>))))))"

definition post_redeem :: "prims \<Rightarrow> device_jwt \<Rightarrow> base64_engines \<Rightarrow> EnrollConfig \<Rightarrow> AdminEnv \<Rightarrow> RedeemBody \<Rightarrow> EnrollState \<Rightarrow>
    EnrollState admin_result" where
  "post_redeem P J B cfg env body st =
     (let client_ip = client_of cfg env in
      case TwoTierLimiter_check (ae_inst env) (ae_inst2 env) client_ip (enrollment_redeem_limiter st) of
        (False, l) \<Rightarrow> (AdminError 429 ''rate_limited'', [], st\<lparr>enrollment_redeem_limiter := l\<rparr>)
      | (True, l) \<Rightarrow>
          let st = st\<lparr>enrollment_redeem_limiter := l\<rparr> in
          (case consume_and_verify P (ae_inst3 env) (rb_nonce_id body) client_ip ''admin:redeem'' (pow_difficulty_bits cfg)
                  (rb_answer body) (challenge_store st) of
             (Inl _, s) \<Rightarrow> (AdminError 403 ''bad_pow'', [], st\<lparr>challenge_store := s\<rparr>)
           | (Inr _, s) \<Rightarrow>
               let st = st\<lparr>challenge_store := s\<rparr> in
               (case trim_label (rb_label body) of
                  Inl e \<Rightarrow> (error_response e, [], st)
                | Inr label \<Rightarrow>
               (case decode_pubkey B (rb_pubkey_b64 body) of
                  Inl e \<Rightarrow> (error_response e, [], st)
                | Inr pubkey \<Rightarrow>
               let normalized = normalize_invite_code (rb_code body) in
               if chars_count normalized \<noteq> INVITE_LEN then (AdminError 401 ''invalid_invite'', [], st)
               else
                 let candidate_hash = hash_invite_code P (relay_signing_key cfg) normalized in
                 (case redeem_invite candidate_hash (ae_uuid env) pubkey label (ae_now env) (enrollment_store st) of
                    (Inl e, es) \<Rightarrow> (error_response (store_error_to_status e), [], st\<lparr>enrollment_store := es\<rparr>)
                  | (Inr _, es) \<Rightarrow> enrol_response J cfg env False (st\<lparr>enrollment_store := es\<rparr>))))))"

subsection \<open>Owner handlers\<close>

definition i64_max_secs :: int where "i64_max_secs = 9223372036854775807"

definition saturating_add_i64 :: "int \<Rightarrow> int \<Rightarrow> int" where
  "saturating_add_i64 a b = max (- i64_max_secs - 1) (min i64_max_secs (a + b))"

definition post_invite :: "prims \<Rightarrow> EnrollConfig \<Rightarrow> AdminEnv \<Rightarrow> string \<Rightarrow> InviteCreateBody \<Rightarrow> EnrollState \<Rightarrow> AdminResponse \<times> EnrollState" where
  "post_invite P cfg env owner body st =
     (case bucket_check (ae_inst env) (client_of cfg env) (enrollment_invite_limiter st) of
        (False, l) \<Rightarrow> (AdminError 429 ''rate_limited'', st\<lparr>enrollment_invite_limiter := l\<rparr>)
      | (True, l) \<Rightarrow>
          let st = st\<lparr>enrollment_invite_limiter := l\<rparr>;
              label = trim (ic_label body) in
          if chars_count label > MAX_LABEL_CHARS then (AdminError 400 ''label too long'', st)
          else
            let ttl_secs = max 60 (min (7 * 24 * 3600) (ic_ttl_secs body));
                now = ae_now3 env;
                expires_at = saturating_add_i64 now ttl_secs;
                code = generate_invite_code (ae_random env);
                code_hash = hash_invite_code P (relay_signing_key cfg) (normalize_invite_code code) in
            (case insert_invite (ae_uuid env) code_hash label owner now expires_at (enrollment_store st) of
               (Inl e, es) \<Rightarrow> (error_response (store_error_to_status e), st\<lparr>enrollment_store := es\<rparr>)
             | (Inr _, es) \<Rightarrow> (InviteCreateResponse (ae_uuid env) code label expires_at, st\<lparr>enrollment_store := es\<rparr>)))"

definition get_invites :: "EnrollState \<Rightarrow> AdminResponse \<times> EnrollState" where
  "get_invites st =
     (case list_invites (enrollment_store st) of
        Inr rows \<Rightarrow> (InviteRows rows, st)
      | Inl e \<Rightarrow> (error_response (store_error_to_status e), st))"

definition delete_invite :: "string \<Rightarrow> EnrollState \<Rightarrow> AdminResponse \<times> EnrollState" where
  "delete_invite i st =
     (case revoke_invite i (enrollment_store st) of
        (Inr _, es) \<Rightarrow> (AdminStatus 204, st\<lparr>enrollment_store := es\<rparr>)
      | (Inl e, es) \<Rightarrow> (error_response (store_error_to_status e), st\<lparr>enrollment_store := es\<rparr>))"

definition get_devices :: "EnrollState \<Rightarrow> AdminResponse \<times> EnrollState" where
  "get_devices st =
     (case list_devices (enrollment_store st) of
        Inr rows \<Rightarrow> (DeviceRows rows, st)
      | Inl e \<Rightarrow> (error_response (store_error_to_status e), st))"

definition delete_device :: "AdminEnv \<Rightarrow> string \<Rightarrow> EnrollState \<Rightarrow> AdminResponse \<times> EnrollState" where
  "delete_device env i st =
     (case revoke_device i (ae_now3 env) (enrollment_store st) of
        (Inr _, es) \<Rightarrow> (AdminStatus 204, st\<lparr>enrollment_store := es\<rparr>)
      | (Inl e, es) \<Rightarrow> (error_response (store_error_to_status e), st\<lparr>enrollment_store := es\<rparr>))"

subsection \<open>Device authentication\<close>

definition authenticate_device :: "device_jwt \<Rightarrow> EnrollConfig \<Rightarrow> AdminEnv \<Rightarrow> EnrollState \<Rightarrow> (nat \<times> string) + (DeviceClaims \<times> DeviceRow)" where
  "authenticate_device J cfg env st =
     and_then (ok_or (401, ''device_cookie_missing'') (map_of (ae_cookies env) COOKIE_NAME_DEVICE)) (\<lambda>token.
     and_then (map_err (\<lambda>_. (401, ''device_cookie_invalid'')) (verify_device_jwt J (ae_now env) (relay_signing_key cfg) token)) (\<lambda>claims.
     and_then (map_err store_error_to_status (get_device (dc_sub claims) (enrollment_store st))) (\<lambda>found.
     and_then (ok_or (401, ''device_unknown'') found) (\<lambda>device.
     if dr_revoked_at device \<noteq> None then Inl (401, ''device_revoked'') else Inr (claims, device)))))"

definition refresh_and_touch :: "device_jwt \<Rightarrow> EnrollConfig \<Rightarrow> AdminEnv \<Rightarrow> DeviceClaims \<Rightarrow> DeviceRow \<Rightarrow> EnrollState \<Rightarrow> Cookie list \<times> EnrollState" where
  "refresh_and_touch J cfg env claims device st =
     (let now = ae_now2 env;
          cookies = (if dc_exp claims - now < DEVICE_COOKIE_REFRESH_WINDOW_SECS
                     then (case mint_device_jwt J (ae_now3 env) (ae_jti env) (relay_signing_key cfg) (dr_device_id device) (dr_is_owner device) of
                             Some (tok, _) \<Rightarrow> set_device_cookie tok
                           | None \<Rightarrow> [])
                     else []) in
      (cookies, st\<lparr>enrollment_store := snd (touch_last_seen (dr_device_id device) now (enrollment_store st))\<rparr>))"

text \<open>A middleware either answers itself or passes on what the rest of the request returns.\<close>

datatype 'r gated = Denied nat string | Passed 'r

definition require_device_cookie :: "device_jwt \<Rightarrow> EnrollConfig \<Rightarrow> AdminEnv \<Rightarrow> ((string \<times> bool) option \<Rightarrow> EnrollState \<Rightarrow> 'r \<times> EnrollState) \<Rightarrow>
    EnrollState \<Rightarrow> 'r gated \<times> Cookie list \<times> EnrollState" where
  "require_device_cookie J cfg env next st =
     (if enrollment_mode cfg = Open then (case next None st of (r, st) \<Rightarrow> (Passed r, [], st))
      else
        (case authenticate_device J cfg env st of
           Inl (code, msg) \<Rightarrow> (Denied code msg, if code = 401 then clear_device_cookie else [], st)
         | Inr (claims, device) \<Rightarrow>
             (case refresh_and_touch J cfg env claims device st of
                (cookies, st) \<Rightarrow>
                  (case next (Some (dr_device_id device, dr_is_owner device)) st of (r, st) \<Rightarrow> (Passed r, cookies, st)))))"

definition require_owner_device :: "device_jwt \<Rightarrow> EnrollConfig \<Rightarrow> AdminEnv \<Rightarrow> (string \<Rightarrow> EnrollState \<Rightarrow> 'r \<times> EnrollState) \<Rightarrow>
    EnrollState \<Rightarrow> 'r gated \<times> Cookie list \<times> EnrollState" where
  "require_owner_device J cfg env next st =
     (case authenticate_device J cfg env st of
        Inl (code, msg) \<Rightarrow> (Denied code msg, [], st)
      | Inr (claims, device) \<Rightarrow>
          if \<not> dr_is_owner device then (Denied 403 ''owner_required'', [], st)
          else
            (case refresh_and_touch J cfg env claims device st of
               (cookies, st) \<Rightarrow> (case next (dr_device_id device) st of (r, st) \<Rightarrow> (Passed r, cookies, st))))"

definition post_signout :: "device_jwt \<Rightarrow> EnrollConfig \<Rightarrow> AdminEnv \<Rightarrow> EnrollState \<Rightarrow> EnrollState admin_result" where
  "post_signout J cfg env st =
     (if enrollment_mode cfg = Open then (AdminStatus 204, clear_device_cookie, st)
      else
        (case authenticate_device J cfg env st of
           Inl e \<Rightarrow> (error_response e, clear_device_cookie, st)
         | Inr (_, device) \<Rightarrow>
             (case revoke_device (dr_device_id device) (ae_now2 env) (enrollment_store st) of
                (Inr _, es) \<Rightarrow> (AdminStatus 204, clear_device_cookie, st\<lparr>enrollment_store := es\<rparr>)
              | (Inl e, es) \<Rightarrow> (error_response (store_error_to_status e), [], st\<lparr>enrollment_store := es\<rparr>))))"

definition get_me :: "device_jwt \<Rightarrow> EnrollConfig \<Rightarrow> AdminEnv \<Rightarrow> EnrollState \<Rightarrow> EnrollState admin_result" where
  "get_me J cfg env st =
     (let mode = EnrollmentMode_as_str (enrollment_mode cfg) in
      if enrollment_mode cfg = Open then (MeResponse mode None, [], st)
      else
        (case authenticate_device J cfg env st of
           Inr (claims, device) \<Rightarrow>
             (case refresh_and_touch J cfg env claims device st of
                (cookies, st) \<Rightarrow> (MeResponse mode (Some (dr_device_id device, dr_is_owner device, dr_label device)), cookies, st))
         | Inl _ \<Rightarrow> (MeResponse mode None, [], st)))"

definition get_info :: "EnrollConfig \<Rightarrow> AdminEnv \<Rightarrow> EnrollState \<Rightarrow> EnrollState admin_result" where
  "get_info cfg env st =
     (case bucket_check (ae_inst env) (client_of cfg env) (enrollment_info_limiter st) of
        (False, l) \<Rightarrow> (AdminStatus 429, [], st\<lparr>enrollment_info_limiter := l\<rparr>)
      | (True, l) \<Rightarrow>
          let st = st\<lparr>enrollment_info_limiter := l\<rparr> in
          (case owner_count (enrollment_store st) of
             Inr n \<Rightarrow> (InfoResponse (EnrollmentMode_as_str (enrollment_mode cfg)) (n > 0), [], st)
           | Inl _ \<Rightarrow> (AdminStatus 500, [], st)))"

subsection \<open>Bootstrap and recovery\<close>

definition BOOTSTRAP_TOKEN_TTL :: int where "BOOTSTRAP_TOKEN_TTL = 24 * 3600"

definition bootstrap_if_needed :: "prims \<Rightarrow> EnrollConfig \<Rightarrow> AdminEnv \<Rightarrow> EnrollState \<Rightarrow> (EnrollmentStoreError + string option) \<times> EnrollState" where
  "bootstrap_if_needed P cfg env st =
     (if enrollment_mode cfg = Open then (Inr None, st)
      else
        (case owner_count (enrollment_store st) of
           Inl e \<Rightarrow> (Inl e, st)
         | Inr n \<Rightarrow>
             if n > 0 then (Inr None, st)
             else
               let now = ae_now env in
               (case has_bootstrap_token now (enrollment_store st) of
                  Inl e \<Rightarrow> (Inl e, st)
                | Inr True \<Rightarrow> (Inr None, st)
                | Inr False \<Rightarrow>
                    let token = generate_bootstrap_token (ae_random env) in
                    (case set_bootstrap_token (hash_bootstrap_token P (relay_signing_key cfg) token) now (now + BOOTSTRAP_TOKEN_TTL)
                            (enrollment_store st) of
                       (Inl e, es) \<Rightarrow> (Inl e, st\<lparr>enrollment_store := es\<rparr>)
                     | (Inr _, es) \<Rightarrow> (Inr (Some token), st\<lparr>enrollment_store := es\<rparr>)))))"

text \<open>The recovery command opens the same database; the result is the token it prints or writes.\<close>

definition cmd_regenerate_bootstrap_token :: "prims \<Rightarrow> bytes \<Rightarrow> int \<Rightarrow> int \<Rightarrow> bytes \<Rightarrow> EnrollmentStore \<Rightarrow> string store_result" where
  "cmd_regenerate_bootstrap_token P signing_key ttl_secs now random es =
     (let token = generate_bootstrap_token random in
      case set_bootstrap_token (hash_bootstrap_token P signing_key token) now (saturating_add_i64 now ttl_secs) es of
        (Inl e, es) \<Rightarrow> (Inl e, es)
      | (Inr _, es) \<Rightarrow> (Inr token, es))"

subsection \<open>Requests\<close>

datatype OwnerRequest =
    PostInvite InviteCreateBody
  | GetInvites
  | DeleteInvite string
  | GetDevices
  | DeleteDevice string

fun owner_handler :: "prims \<Rightarrow> EnrollConfig \<Rightarrow> AdminEnv \<Rightarrow> OwnerRequest \<Rightarrow> string \<Rightarrow> EnrollState \<Rightarrow> AdminResponse \<times> EnrollState" where
  "owner_handler P cfg env (PostInvite body) owner st = post_invite P cfg env owner body st"
| "owner_handler P cfg env GetInvites owner st = get_invites st"
| "owner_handler P cfg env (DeleteInvite i) owner st = delete_invite i st"
| "owner_handler P cfg env GetDevices owner st = get_devices st"
| "owner_handler P cfg env (DeleteDevice i) owner st = delete_device env i st"

text \<open>
  The requests that reach the store: the public admin routes, the owner routes behind their
  middleware, an operational route behind the device middleware, the start of the relay and the
  recovery command.
\<close>

datatype AdminRequest =
    GetClaimChallenge
  | GetRedeemChallenge
  | PostClaim ClaimBody
  | PostRedeem RedeemBody
  | GetMe
  | PostSignout
  | GetInfo
  | OwnerRoute OwnerRequest
  | GatedRoute
  | Startup
  | Regenerate bytes int

fun admin_apply :: "prims \<Rightarrow> device_jwt \<Rightarrow> base64_engines \<Rightarrow> EnrollConfig \<Rightarrow> EnrollState \<Rightarrow> AdminEnv \<times> AdminRequest \<Rightarrow> EnrollState" where
  "admin_apply P J B cfg st (env, GetClaimChallenge) = snd (snd (get_claim_challenge cfg env st))"
| "admin_apply P J B cfg st (env, GetRedeemChallenge) = snd (snd (get_redeem_challenge cfg env st))"
| "admin_apply P J B cfg st (env, PostClaim body) = snd (snd (post_claim P J B cfg env body st))"
| "admin_apply P J B cfg st (env, PostRedeem body) = snd (snd (post_redeem P J B cfg env body st))"
| "admin_apply P J B cfg st (env, GetMe) = snd (snd (get_me J cfg env st))"
| "admin_apply P J B cfg st (env, PostSignout) = snd (snd (post_signout J cfg env st))"
| "admin_apply P J B cfg st (env, GetInfo) = snd (snd (get_info cfg env st))"
| "admin_apply P J B cfg st (env, OwnerRoute req) = snd (snd (require_owner_device J cfg env (owner_handler P cfg env req) st))"
| "admin_apply P J B cfg st (env, GatedRoute) = snd (snd (require_device_cookie J cfg env (\<lambda>_ st. ((), st)) st))"
| "admin_apply P J B cfg st (env, Startup) = snd (bootstrap_if_needed P cfg env st)"
| "admin_apply P J B cfg st (env, Regenerate key ttl) =
     st\<lparr>enrollment_store := snd (cmd_regenerate_bootstrap_token P key ttl (ae_now env) (ae_random env) (enrollment_store st))\<rparr>"

definition admin_run :: "prims \<Rightarrow> device_jwt \<Rightarrow> base64_engines \<Rightarrow> EnrollConfig \<Rightarrow> (AdminEnv \<times> AdminRequest) list \<Rightarrow> EnrollState \<Rightarrow> EnrollState" where
  "admin_run P J B cfg rs st = foldl (admin_apply P J B cfg) st rs"

subsection \<open>Every request is a sequence of store operations\<close>

definition reaches :: "EnrollmentStore \<Rightarrow> EnrollmentStore \<Rightarrow> bool" where
  "reaches es es' \<longleftrightarrow> (\<exists>evs. es' = enroll_run evs es)"

lemma reaches_refl [simp, intro]: "reaches es es"
  by (auto simp: reaches_def intro: exI [of _ "[]"])

lemma reaches_trans: "reaches a b \<Longrightarrow> reaches b c \<Longrightarrow> reaches a c"
  unfolding reaches_def by (metis enroll_run_simps(3))

lemma reaches_step [intro]: "reaches es (snd (enroll_step e es))"
  by (auto simp: reaches_def intro: exI [of _ "[e]"])

lemma reaches_ops [intro]:
  "claim_bootstrap h i pk l now es = (r1, es') \<Longrightarrow> reaches es es'"
  "redeem_invite h i pk l now es = (r2, es') \<Longrightarrow> reaches es es'"
  "insert_invite k h l own c x es = (r3, es') \<Longrightarrow> reaches es es'"
  "revoke_invite k es = (r4, es') \<Longrightarrow> reaches es es'"
  "revoke_device i now es = (r5, es') \<Longrightarrow> reaches es es'"
  "set_bootstrap_token h c x es = (r6, es') \<Longrightarrow> reaches es es'"
  "reaches es (snd (touch_last_seen i now es))"
  using reaches_step [of es "Claim h i pk l now"] reaches_step [of es "Redeem h i pk l now"] reaches_step [of es "Mint k h l own c x"]
    reaches_step [of es "DropInvite k"] reaches_step [of es "RevokeDevice i now"] reaches_step [of es "SetToken h c x"]
    reaches_step [of es "Touch i now"] by (simp_all add: case_prod_beta)

lemma post_claim_via: "reaches (enrollment_store st) (enrollment_store (snd (snd (post_claim P J B cfg env body st))))"
  by (auto simp: post_claim_def Let_def enrol_response_def split: prod.splits bool.splits sum.splits if_splits option.splits)

lemma post_redeem_via: "reaches (enrollment_store st) (enrollment_store (snd (snd (post_redeem P J B cfg env body st))))"
  by (auto simp: post_redeem_def Let_def enrol_response_def split: prod.splits bool.splits sum.splits if_splits option.splits)

lemma owner_handler_via: "reaches (enrollment_store st) (enrollment_store (snd (owner_handler P cfg env req owner st)))"
  by (cases req) (auto simp: post_invite_def get_invites_def delete_invite_def get_devices_def delete_device_def Let_def
      split: prod.splits bool.splits sum.splits if_splits)

lemma refresh_via [simp]: "reaches (enrollment_store st) (enrollment_store (snd (refresh_and_touch J cfg env c d st)))"
  by (auto simp: refresh_and_touch_def Let_def)

lemma refresh_next_via:
  assumes "\<And>w st. reaches (enrollment_store st) (enrollment_store (snd (next w st)))"
  shows "reaches (enrollment_store st) (enrollment_store (snd (next w (snd (refresh_and_touch J cfg env c d st)))))"
  by (rule reaches_trans [OF refresh_via assms])

lemma owner_route_via:
  assumes "\<And>w st. reaches (enrollment_store st) (enrollment_store (snd (next w st)))"
  shows "reaches (enrollment_store st) (enrollment_store (snd (snd (require_owner_device J cfg env next st))))"
  using refresh_next_via [of "next", OF assms]
  by (simp add: require_owner_device_def case_prod_beta split: sum.splits)

lemma device_route_via:
  assumes "\<And>w st. reaches (enrollment_store st) (enrollment_store (snd (next w st)))"
  shows "reaches (enrollment_store st) (enrollment_store (snd (snd (require_device_cookie J cfg env next st))))"
  using refresh_next_via [of "next", OF assms] assms
  by (simp add: require_device_cookie_def case_prod_beta split: sum.splits)

lemma admin_apply_via: "reaches (enrollment_store st) (enrollment_store (admin_apply P J B cfg st r))"
proof (cases r)
  case (Pair env req)
  show ?thesis
  proof (cases req)
    case (OwnerRoute q)
    then show ?thesis using Pair owner_route_via [OF owner_handler_via] by simp
  next
    case GatedRoute
    then show ?thesis using Pair device_route_via [of "\<lambda>_ st. ((), st)"] by simp
  next
    case GetMe
    then show ?thesis using Pair by (simp add: get_me_def Let_def case_prod_beta split: sum.splits)
  qed (use Pair post_claim_via post_redeem_via in \<open>auto simp: get_claim_challenge_def get_redeem_challenge_def issue_admin_challenge_def
      post_signout_def get_info_def bootstrap_if_needed_def cmd_regenerate_bootstrap_token_def Let_def
      split: prod.splits bool.splits sum.splits if_splits\<close>)
qed

lemma admin_run_via: "reaches (enrollment_store st) (enrollment_store (admin_run P J B cfg rs st))"
  unfolding admin_run_def
proof (induction rs arbitrary: st)
  case (Cons r rs)
  then show ?case using admin_apply_via [of st P J B cfg r] reaches_trans by fastforce
qed simp

lemma reaches_contract:
  assumes "reaches es es'" and "enroll_inv es"
  shows "enroll_inv es'" and "devices_evolve es es'" and "has_owner es \<Longrightarrow> has_owner es'"
  using assms history.keeps_inv history.evolves history.keeps_owner by (auto simp: reaches_def)

subsection \<open>Who passes the middlewares\<close>

text \<open>The device that the cookie of a request names, if the cookie is valid.\<close>

definition cookie_device :: "device_jwt \<Rightarrow> EnrollConfig \<Rightarrow> AdminEnv \<Rightarrow> DeviceClaims option" where
  "cookie_device J cfg env =
     (case map_of (ae_cookies env) COOKIE_NAME_DEVICE of
        None \<Rightarrow> None
      | Some tok \<Rightarrow> (case verify_device_jwt J (ae_now env) (relay_signing_key cfg) tok of Inl _ \<Rightarrow> None | Inr c \<Rightarrow> Some c))"

lemma authenticate_iff:
  "authenticate_device J cfg env st = Inr (c, row) \<longleftrightarrow>
     cookie_device J cfg env = Some c \<and>
     (\<exists>d. map_of (devices (enrollment_store st)) (dc_sub c) = Some d \<and> dev_revoked_at d = None \<and> row = device_row (dc_sub c) d)"
  by (auto simp: authenticate_device_def cookie_device_def ok_or_def map_err_def and_then_def get_device_def device_row_def
      split: option.splits sum.splits if_splits)

lemma authenticate_error: "authenticate_device J cfg env st = Inl e \<Longrightarrow> fst e = 401"
  by (auto simp: authenticate_device_def ok_or_def map_err_def and_then_def get_device_def split: option.splits sum.splits if_splits)

lemma authenticate_revoked:
  assumes "cookie_device J cfg env = Some c" and "map_of (devices (enrollment_store st)) (dc_sub c) = Some d" and "dev_revoked_at d \<noteq> None"
  shows "authenticate_device J cfg env st = Inl (401, ''device_revoked'')"
  using assms
  by (auto simp: authenticate_device_def cookie_device_def ok_or_def map_err_def and_then_def get_device_def device_row_def
      split: option.splits sum.splits)

definition passes :: "'r gated \<times> Cookie list \<times> EnrollState \<Rightarrow> bool" where
  "passes g \<longleftrightarrow> (\<exists>r. fst g = Passed r)"

lemma device_gate_passes:
  "passes (require_device_cookie J cfg env next st) \<longleftrightarrow>
     enrollment_mode cfg = Open \<or> (\<exists>c row. authenticate_device J cfg env st = Inr (c, row))"
  by (auto simp: require_device_cookie_def passes_def case_prod_beta split: sum.splits)

lemma owner_gate_passes:
  "passes (require_owner_device J cfg env next st) \<longleftrightarrow> (\<exists>c row. authenticate_device J cfg env st = Inr (c, row) \<and> dr_is_owner row)"
  by (auto simp: require_owner_device_def passes_def case_prod_beta split: sum.splits)

lemma gate_denied_state:
  "\<not> passes (require_device_cookie J cfg env next st) \<Longrightarrow> snd (snd (require_device_cookie J cfg env next st)) = st"
  "\<not> passes (require_owner_device J cfg env handler st) \<Longrightarrow> snd (snd (require_owner_device J cfg env handler st)) = st"
  by (auto simp: require_device_cookie_def require_owner_device_def passes_def case_prod_beta split: sum.splits)

subsection \<open>Properties\<close>

text \<open>
  C19. The gates are exact: in restricted mode an operational request passes exactly when its cookie
  is a valid device token and the store has that device, not revoked; in open mode every request
  passes; an owner route passes exactly when the store moreover has that device as an owner, whatever
  owner bit the token carries, and in both modes.  A request that is denied changes nothing.
\<close>
theorem device_gates_exact:
  "(passes (require_device_cookie J cfg env next st) \<longleftrightarrow>
      enrollment_mode cfg = Open \<or>
      (\<exists>c d. cookie_device J cfg env = Some c \<and> map_of (devices (enrollment_store st)) (dc_sub c) = Some d \<and> dev_revoked_at d = None)) \<and>
   (passes (require_owner_device J cfg env handler st) \<longleftrightarrow>
      (\<exists>c d. cookie_device J cfg env = Some c \<and> map_of (devices (enrollment_store st)) (dc_sub c) = Some d \<and> active_owner d)) \<and>
   (passes (require_device_cookie J cfg env next st) \<or> snd (snd (require_device_cookie J cfg env next st)) = st) \<and>
   (passes (require_owner_device J cfg env handler st) \<or> snd (snd (require_owner_device J cfg env handler st)) = st)"
proof (intro conjI)
  show "passes (require_device_cookie J cfg env next st) \<longleftrightarrow> enrollment_mode cfg = Open \<or>
      (\<exists>c d. cookie_device J cfg env = Some c \<and> map_of (devices (enrollment_store st)) (dc_sub c) = Some d \<and> dev_revoked_at d = None)"
    by (auto simp: device_gate_passes authenticate_iff)
  show "passes (require_owner_device J cfg env handler st) \<longleftrightarrow>
      (\<exists>c d. cookie_device J cfg env = Some c \<and> map_of (devices (enrollment_store st)) (dc_sub c) = Some d \<and> active_owner d)"
    by (auto simp: owner_gate_passes authenticate_iff device_row_def active_owner_def)
qed (use gate_denied_state in blast)+

text \<open>
  C20. Revocation is final, in restricted mode (in open mode the operational gate admits everyone):
  after a device has been revoked, whatever requests, restarts and
  recoveries follow, a request with a valid token of that device gets 401 \<open>device_revoked\<close> at both
  gates, with the cookie cleared at the operational one, without running the handler and without
  effect, and the identity probe reports no device.
\<close>
theorem revocation_final:
  assumes "enroll_inv (enrollment_store st)"
    and "revoke_device i t (enrollment_store st) = (Inr (), es)"
    and "st' = admin_run P J B cfg rs (st\<lparr>enrollment_store := es\<rparr>)"
    and "enrollment_mode cfg = Restricted"
    and "cookie_device J cfg env = Some c" and "dc_sub c = i"
  shows "require_device_cookie J cfg env next st' = (Denied 401 ''device_revoked'', clear_device_cookie, st') \<and>
    require_owner_device J cfg env handler st' = (Denied 401 ''device_revoked'', [], st') \<and>
    get_me J cfg env st' = (MeResponse ''restricted'' None, [], st')"
proof -
  obtain d where d: "map_of (devices es) i = Some d" "dev_revoked_at d \<noteq> None"
    using assms(2) by (auto simp: revoke_device_def split: option.splits if_splits)
  have inv: "enroll_inv es" using revoke_dev.keeps_inv [OF assms(1), of i t] assms(2) by simp
  have v: "reaches es (enrollment_store st')" using admin_run_via [of "st\<lparr>enrollment_store := es\<rparr>" P J B cfg rs] assms(3) by simp
  obtain d' where "map_of (devices (enrollment_store st')) i = Some d'" "dev_revoked_at d' \<noteq> None"
    using devices_evolveD [OF reaches_contract(2) [OF v inv] d(1)] d(2) by (auto simp: device_evolves_def)
  then have "authenticate_device J cfg env st' = Inl (401, ''device_revoked'')"
    using authenticate_revoked [OF assms(5)] assms(6) by simp
  then show ?thesis
    using assms(4) by (simp add: require_device_cookie_def require_owner_device_def get_me_def)
qed

text \<open>A token scheme that writes its claims down, which shows that \<open>device_jwt_correct\<close> can hold.\<close>

definition toy_claims :: "DeviceClaims list" where
  "toy_claims = [\<lparr>dc_sub = ''dev-b'', dc_kind = ''device'', dc_is_owner = False, dc_iat = 1000, dc_exp = 7777000, dc_jti = ''j''\<rparr>]"

definition toy_device_jwt :: device_jwt where
  "toy_device_jwt = \<lparr>dj_encode = (\<lambda>key c. if c = hd toy_claims then Some ''tok'' else None),
     dj_decode = (\<lambda>key leeway now tok. if tok \<noteq> ''tok'' then Inl OtherJwtError
        else if dc_exp (hd toy_claims) < now - leeway then Inl ExpiredSignature else Inr (hd toy_claims))\<rparr>"

lemma toy_device_jwt_correct: "device_jwt_correct toy_device_jwt"
  by (simp add: device_jwt_correct_def toy_device_jwt_def)


definition sample_enroll_cfg :: EnrollConfig where
  "sample_enroll_cfg = \<lparr>trusted_proxies = [], pow_difficulty_bits = 0, relay_signing_key = [1], relay_cookie_ttl_secs = 600,
     enrollment_mode = Restricted\<rparr>"

definition sample_env :: AdminEnv where
  "sample_env = \<lparr>ae_peer = IpV4 [1,2,3,4], ae_xff = None, ae_cookies = [(COOKIE_NAME_DEVICE, ''tok'')], ae_inst = 0, ae_inst2 = 0, ae_inst3 = 0,
     ae_now = 1000, ae_now2 = 1000, ae_now3 = 1000, ae_uuid = ''dev-b'', ae_jti = ''j'', ae_random = [0, 1, 2, 3, 4, 5, 6, 7, 8, 9, 10]\<rparr>"

definition sample_enroll :: EnrollState where
  "sample_enroll = \<lparr>challenge_store = [], auth_challenge_limiter = AuthChallengeLimiter_new 10, jti_consumed = [],
     enrollment_store = after [SetToken [1] 0 100, Claim [1] ''dev-a'' [7] ''A'' 50, SetToken [1] 0 100, Claim [1] ''dev-b'' [8] ''B'' 60],
     enrollment_claim_limiter = ClaimLimiter_new, enrollment_redeem_limiter = RedeemLimiter_new,
     enrollment_invite_limiter = InviteMintLimiter_new, enrollment_info_limiter = EnrollmentInfoLimiter_new 60\<rparr>"

lemma sample_cookie: "cookie_device toy_device_jwt sample_enroll_cfg sample_env = Some (hd toy_claims)"
  by (simp add: cookie_device_def sample_env_def toy_device_jwt_def verify_device_jwt_def toy_claims_def)

theorem revocation_final_witness:
  "\<exists>es. revoke_device ''dev-b'' 70 (enrollment_store sample_enroll) = (Inr (), es) \<and>
     (let st' = admin_run toy_prims toy_device_jwt \<lparr>url_safe_no_pad = (\<lambda>_. None), standard_b64 = (\<lambda>_. None)\<rparr> sample_enroll_cfg
                  [(sample_env, OwnerRoute GetDevices), (sample_env, Startup)] (sample_enroll\<lparr>enrollment_store := es\<rparr>) in
      get_me toy_device_jwt sample_enroll_cfg sample_env st' = (MeResponse ''restricted'' None, [], st'))"
proof -
  have "\<exists>es. revoke_device ''dev-b'' 70 (enrollment_store sample_enroll) = (Inr (), es)"
    by (simp add: sample_enroll_def after_def EnrollmentStore_empty_def set_bootstrap_token_def claim_bootstrap_def insert_device_def
        revoke_device_def count_owners_def active_owner_def)
  then obtain es where es: "revoke_device ''dev-b'' 70 (enrollment_store sample_enroll) = (Inr (), es)" by blast
  have "enroll_inv (enrollment_store sample_enroll)" by (simp add: sample_enroll_def)
  moreover have "enrollment_mode sample_enroll_cfg = Restricted" by (simp add: sample_enroll_cfg_def)
  moreover have "dc_sub (hd toy_claims) = ''dev-b''" by (simp add: toy_claims_def)
  ultimately show ?thesis
    using revocation_final [OF _ es refl _ sample_cookie, THEN conjunct2, THEN conjunct2] es unfolding Let_def by blast
qed


subsection \<open>An invite code enrols its bearer\<close>

lemma alphabet_normal: "list_all (\<lambda>c. is_ascii_alphanumeric c \<and> to_ascii_uppercase c = c \<and> (of_char c :: nat) < 128) INVITE_ALPHABET"
  by (simp add: INVITE_ALPHABET_def is_ascii_alphanumeric_def to_ascii_uppercase_def)

lemma alphabet_nth:
  "is_ascii_alphanumeric (INVITE_ALPHABET ! (n mod length INVITE_ALPHABET)) \<and>
   to_ascii_uppercase (INVITE_ALPHABET ! (n mod length INVITE_ALPHABET)) = INVITE_ALPHABET ! (n mod length INVITE_ALPHABET) \<and>
   (of_char (INVITE_ALPHABET ! (n mod length INVITE_ALPHABET)) :: nat) < 128"
proof -
  have "n mod length INVITE_ALPHABET < length INVITE_ALPHABET" by (rule mod_less_divisor) (simp add: INVITE_ALPHABET_def)
  then show ?thesis using alphabet_normal unfolding list_all_length by blast
qed

definition code_chars :: "bytes \<Rightarrow> string" where
  "code_chars random = map (\<lambda>b. INVITE_ALPHABET ! (unat b mod length INVITE_ALPHABET)) random"

lemma code_chars_normal:
  "filter is_ascii_alphanumeric (code_chars r) = code_chars r" "map to_ascii_uppercase (code_chars r) = code_chars r"
  "chars_count (code_chars r) = length r"
  using alphabet_nth by (simp_all add: code_chars_def chars_count_def comp_def filter_True)

lemma normalize_append: "normalize_invite_code (a @ b) = normalize_invite_code a @ normalize_invite_code b"
  by (simp add: normalize_invite_code_def)

lemma normalize_code_chars: "normalize_invite_code (code_chars r) = code_chars r"
  by (simp add: normalize_invite_code_def code_chars_normal)

lemma normalize_generated:
  assumes "length r = 11"
  shows "normalize_invite_code (generate_invite_code r) = code_chars r"
proof -
  have g: "generate_invite_code r = code_chars (take 4 r) @ ''-'' @ code_chars (take 4 (drop 4 r)) @ ''-'' @ code_chars (take 3 (drop 8 r))"
    using assms by (simp add: generate_invite_code_def code_chars_def INVITE_LEN_def take_map drop_map)
  have dash: "normalize_invite_code (CHR ''-'' # t) = normalize_invite_code t" for t
    by (simp add: normalize_invite_code_def is_ascii_alphanumeric_def)
  have "take 3 (drop 8 r) = drop 8 r" using assms by simp
  moreover have "take 4 (drop 4 r) @ drop 8 r = drop 4 r" using append_take_drop_id [of 4 "drop 4 r"] by simp
  ultimately have "take 4 r @ take 4 (drop 4 r) @ take 3 (drop 8 r) = r" by simp
  then have "code_chars (take 4 r) @ code_chars (take 4 (drop 4 r)) @ code_chars (take 3 (drop 8 r)) = code_chars r"
    by (simp add: code_chars_def flip: map_append)
  then show ?thesis by (simp add: g normalize_append normalize_code_chars dash)
qed


lemma post_invite_success:
  assumes "enroll_inv (enrollment_store st)" and "post_invite P cfg env owner body st = (InviteCreateResponse k code label x, st1)"
  shows "code = generate_invite_code (ae_random env)"
    and "\<exists>v. map_of (invites (enrollment_store st1)) k = Some v \<and> inv_used_by v = None \<and> inv_expires_at v = x \<and>
       inv_code_hash v = hash_invite_code P (relay_signing_key cfg) (normalize_invite_code code)"
  using assms(2) by (auto simp: post_invite_def insert_invite_def error_response_def Let_def split: prod.splits bool.splits if_splits sum.splits)

lemma redeem_succeeds:
  assumes inv: "enroll_inv st" and v: "map_of (invites st) k = Some v" "redeemable h now v"
    and s: "insert_device i pk l False now st = Some st1"
  shows "redeem_invite h i pk l now st = (Inr k, st1\<lparr>invites := AList.update k (used_invite i now v) (invites st1)\<rparr>)"
proof -
  obtain k' v' where f: "find (\<lambda>(_, v). redeemable h now v) (invites st) = Some (k', v')"
    using hm_find_None [OF enroll_invD(2) [OF inv], of "redeemable h now"] v by fastforce
  have "map_of (invites st) k' = Some v'" "redeemable h now v'" using hm_findD [OF enroll_invD(2) [OF inv] f] by auto
  then have "k' = k" "v' = v" using enroll_invD(4) [OF inv, of k' v' k v] v by (auto simp: redeemable_def)
  moreover have "mark_used i now k st = (1, st\<lparr>invites := AList.update k (used_invite i now v) (invites st)\<rparr>)"
    using v by (simp add: mark_used_def redeemable_def used_invite_def)
  ultimately show ?thesis using f s insert_device_frame [OF s] by (simp add: redeem_invite_def insert_device_invites)
qed

text \<open>
  C21. An invite code enrols its bearer: the code an owner receives, typed in any case and with any
  separators, is accepted as long as the invite is in the store unused and unexpired, if the limiter,
  the proof of work, the label and the public key pass and the key is new; the bearer becomes a
  member, the invite is marked as used by them, and the cookie of the response authenticates that
  device for the next 90 days (and the 5 seconds of leeway).
\<close>
theorem invite_enrols:
  assumes inv: "enroll_inv (enrollment_store st)"
    and mint: "post_invite P cfg env owner ibody st = (InviteCreateResponse k code ilabel x, st1)" "length (ae_random env) = 11"
    and later: "enroll_inv (enrollment_store st2)" "map_of (invites (enrollment_store st2)) k = map_of (invites (enrollment_store st1)) k"
    and typed: "normalize_invite_code (rb_code body) = normalize_invite_code code" and time: "ae_now renv < x"
    and lim: "TwoTierLimiter_check (ae_inst renv) (ae_inst2 renv) (client_of cfg renv) (enrollment_redeem_limiter st2) = (True, lim')"
    and pow: "consume_and_verify P (ae_inst3 renv) (rb_nonce_id body) (client_of cfg renv) ''admin:redeem'' (pow_difficulty_bits cfg)
       (rb_answer body) (challenge_store st2) = (Inr u, chs)"
    and fields: "trim_label (rb_label body) = Inr label" "decode_pubkey B (rb_pubkey_b64 body) = Inr pk"
    and fresh: "insert_device (ae_uuid renv) pk label False (ae_now renv) (enrollment_store st2) \<noteq> None"
    and tok: "mint_device_jwt J (ae_now2 renv) (ae_jti renv) (relay_signing_key cfg) (ae_uuid renv) False = Some (tok, c)"
    and J: "device_jwt_correct J"
  shows "\<exists>st3 v. post_redeem P J B cfg renv body st2 = (ClaimOrRedeemResponse (ae_uuid renv) False, set_device_cookie tok, st3) \<and>
     map_of (invites (enrollment_store st3)) k = Some v \<and> inv_used_by v = Some (ae_uuid renv) \<and>
     (\<forall>env'. map_of (ae_cookies env') COOKIE_NAME_DEVICE = Some tok \<and> ae_now env' \<le> ae_now2 renv + 90 * 24 * 3600 + 5 \<longrightarrow>
        authenticate_device J cfg env' st3 = Inr (c, device_row (ae_uuid renv) (new_device pk label False (ae_now renv))))"
proof -
  let ?h = "hash_invite_code P (relay_signing_key cfg) (normalize_invite_code code)"
  have code: "normalize_invite_code code = code_chars (ae_random env)"
    using post_invite_success(1) [OF inv mint(1)] normalize_generated [OF mint(2)] by simp
  obtain v where v: "map_of (invites (enrollment_store st2)) k = Some v" "redeemable ?h (ae_now renv) v"
    using post_invite_success(2) [OF inv mint(1)] later(2) time by (auto simp: redeemable_def)
  obtain es where s: "insert_device (ae_uuid renv) pk label False (ae_now renv) (enrollment_store st2) = Some es" using fresh by blast
  note R = redeem_succeeds [OF later(1) v s]
  define es' where "es' = es\<lparr>invites := AList.update k (used_invite (ae_uuid renv) (ae_now renv) v) (invites es)\<rparr>"
  define st3 where "st3 = st2\<lparr>enrollment_redeem_limiter := lim', challenge_store := chs, enrollment_store := es'\<rparr>"
  have "chars_count (normalize_invite_code (rb_code body)) = INVITE_LEN"
    using typed code code_chars_normal(3) mint(2) by (simp add: INVITE_LEN_def)
  then have post: "post_redeem P J B cfg renv body st2 = (ClaimOrRedeemResponse (ae_uuid renv) False, set_device_cookie tok, st3)"
    using lim pow fields tok R typed by (simp add: post_redeem_def Let_def enrol_response_def st3_def es'_def)
  have c: "dc_sub c = ae_uuid renv" "dc_kind c = ''device''" "dc_exp c = ae_now2 renv + 90 * 24 * 3600" "dj_encode J (relay_signing_key cfg) c = Some tok"
    using tok by (auto simp: mint_device_jwt_def Let_def DEVICE_COOKIE_TTL_SECS_def)
  have "map_of (devices es') (ae_uuid renv) = Some (new_device pk label False (ae_now renv))"
    using insert_device_Some(1) [OF enroll_invD(1) [OF later(1)] s] by (simp add: es'_def)
  then have "authenticate_device J cfg env' st3 = Inr (c, device_row (ae_uuid renv) (new_device pk label False (ae_now renv)))"
    if "map_of (ae_cookies env') COOKIE_NAME_DEVICE = Some tok" "ae_now env' \<le> ae_now2 renv + 90 * 24 * 3600 + 5" for env'
    using that c J by (auto simp: authenticate_iff cookie_device_def verify_device_jwt_def device_jwt_correct_def st3_def new_device_def)
  moreover have "map_of (invites (enrollment_store st3)) k = Some (used_invite (ae_uuid renv) (ae_now renv) v)" by (simp add: st3_def es'_def)
  ultimately show ?thesis using post by (auto simp: used_invite_def)
qed


definition owner_state :: EnrollState where
  "owner_state = sample_enroll\<lparr>enrollment_store := after [SetToken [1] 0 100, Claim [1] ''dev-a'' [7] ''A'' 50],
     challenge_store := [(''n'', \<lparr>nonce_hex = ''00'', ch_purpose = ''admin:redeem'', ch_created_at = 0, ch_client_ip = IpV4 [1,2,3,4]\<rparr>)]\<rparr>"

definition toy_base64 :: base64_engines where
  "toy_base64 = \<lparr>url_safe_no_pad = (\<lambda>_. Some (replicate 32 9)), standard_b64 = (\<lambda>_. None)\<rparr>"

definition redeem_body :: RedeemBody where
  "redeem_body = \<lparr>rb_code = ''abcd efgh jkm'', rb_label = ''Bob'', rb_pubkey_b64 = ''k'', rb_nonce_id = ''n'', rb_answer = 0\<rparr>"

lemma owner_store: "enrollment_store owner_state =
    \<lparr>devices = [(''dev-a'', new_device [7] ''A'' True 50)], invites = [], bootstrap_token = None\<rparr>"
  by (simp add: owner_state_def after_def EnrollmentStore_empty_def set_bootstrap_token_def claim_bootstrap_def insert_device_def new_device_def)

lemma sample_invite:
  "\<exists>st1. post_invite toy_prims sample_enroll_cfg (sample_env\<lparr>ae_uuid := ''inv''\<rparr>) ''dev-a'' \<lparr>ic_label = ''x'', ic_ttl_secs = 600\<rparr> owner_state =
     (InviteCreateResponse ''inv'' ''ABCD-EFGH-JKM'' (trim ''x'') 1600, st1) \<and> challenge_store st1 = challenge_store owner_state \<and>
     enrollment_redeem_limiter st1 = RedeemLimiter_new \<and> devices (enrollment_store st1) = [(''dev-a'', new_device [7] ''A'' True 50)] \<and>
     reaches (enrollment_store owner_state) (enrollment_store st1)"
proof -
  let ?r = "post_invite toy_prims sample_enroll_cfg (sample_env\<lparr>ae_uuid := ''inv''\<rparr>) ''dev-a'' \<lparr>ic_label = ''x'', ic_ttl_secs = 600\<rparr> owner_state"
  have "generate_invite_code [0, 1, 2, 3, 4, 5, 6, 7, 8, 9, 10] = ''ABCD-EFGH-JKM''" by code_simp
  moreover have "chars_count (trim ''x'') \<le> MAX_LABEL_CHARS"
    by (simp add: trim_graphic graphic_def chars_count_def MAX_LABEL_CHARS_def)
  moreover have "enrollment_redeem_limiter owner_state = RedeemLimiter_new" "enrollment_invite_limiter owner_state = InviteMintLimiter_new"
    by (simp_all add: owner_state_def sample_enroll_def)
  ultimately have "fst ?r = InviteCreateResponse ''inv'' ''ABCD-EFGH-JKM'' (trim ''x'') 1600 \<and> challenge_store (snd ?r) = challenge_store owner_state \<and>
      enrollment_redeem_limiter (snd ?r) = RedeemLimiter_new \<and> devices (enrollment_store (snd ?r)) = [(''dev-a'', new_device [7] ''A'' True 50)]"
    by (simp add: post_invite_def bucket_check_def SlidingWindowLimiterByKey_check_and_record_def keyed_check_and_record_def InviteMintLimiter_new_def
        SlidingWindowLimiterByKey_new_with_cap_def RATE_LIMITER_MAX_KEYS_def sample_env_def insert_invite_def owner_store saturating_add_i64_def
        i64_max_secs_def Let_def)
  then show ?thesis
    using owner_handler_via [of owner_state toy_prims sample_enroll_cfg "sample_env\<lparr>ae_uuid := ''inv''\<rparr>" "PostInvite \<lparr>ic_label = ''x'', ic_ttl_secs = 600\<rparr>" "''dev-a''"]
    by (metis owner_handler.simps(1) prod.collapse)
qed

theorem invite_enrols_witness:
  "\<exists>st1 st3. fst (post_redeem toy_prims toy_device_jwt toy_base64 sample_enroll_cfg sample_env redeem_body st1) = ClaimOrRedeemResponse ''dev-b'' False \<and>
     (\<exists>row. authenticate_device toy_device_jwt sample_enroll_cfg sample_env st3 = Inr (hd toy_claims, row))"
proof -
  let ?B = toy_base64 and ?cfg = sample_enroll_cfg and ?env = sample_env and ?ienv = "sample_env\<lparr>ae_uuid := ''inv''\<rparr>"
  obtain st1 where st1: "post_invite toy_prims ?cfg ?ienv ''dev-a'' \<lparr>ic_label = ''x'', ic_ttl_secs = 600\<rparr> owner_state =
       (InviteCreateResponse ''inv'' ''ABCD-EFGH-JKM'' (trim ''x'') 1600, st1)"
      and rest: "challenge_store st1 = challenge_store owner_state" "enrollment_redeem_limiter st1 = RedeemLimiter_new"
        "devices (enrollment_store st1) = [(''dev-a'', new_device [7] ''A'' True 50)]" "reaches (enrollment_store owner_state) (enrollment_store st1)"
    using sample_invite by blast
  have inv0: "enroll_inv (enrollment_store owner_state)" by (simp add: owner_state_def)
  have inv1: "enroll_inv (enrollment_store st1)" by (rule reaches_contract(1) [OF rest(4) inv0])
  have rnd: "length (ae_random ?ienv) = 11" by (simp add: sample_env_def)
  have typed: "normalize_invite_code (rb_code redeem_body) = normalize_invite_code ''ABCD-EFGH-JKM''" by code_simp
  have time: "ae_now ?env < 1600" by (simp add: sample_env_def)
  obtain lim' where lim: "TwoTierLimiter_check (ae_inst ?env) (ae_inst2 ?env) (client_of ?cfg ?env) (enrollment_redeem_limiter st1) = (True, lim')"
    by (simp add: rest TwoTierLimiter_check_def SlidingWindowLimiterByKey_check_and_record_def keyed_check_and_record_def RedeemLimiter_new_def
        SlidingWindowLimiterByKey_new_with_cap_def RATE_LIMITER_MAX_KEYS_def Let_def)
  obtain u chs where pow: "consume_and_verify toy_prims (ae_inst3 ?env) (rb_nonce_id redeem_body) (client_of ?cfg ?env) ''admin:redeem'' (pow_difficulty_bits ?cfg)
       (rb_answer redeem_body) (challenge_store st1) = (Inr u, chs)"
    by (simp add: rest consume_and_verify_def ChallengeStore_take_def owner_state_def redeem_body_def sample_env_def sample_enroll_cfg_def Let_def
        duration_since_def challenge_ttl_def CHALLENGE_TTL_SECS_def from_secs_def extract_client_ip_def verify_pow_def digit_value_def)
  have fields: "trim_label (rb_label redeem_body) = Inr ''Bob''" "decode_pubkey ?B (rb_pubkey_b64 redeem_body) = Inr (replicate 32 9)"
    by (simp_all add: trim_label_def redeem_body_def trim_graphic graphic_def chars_count_def MAX_LABEL_CHARS_def decode_pubkey_def toy_base64_def
        PUBKEY_LEN_def)
  have fresh: "insert_device (ae_uuid ?env) (replicate 32 9) ''Bob'' False (ae_now ?env) (enrollment_store st1) \<noteq> None"
    by (simp add: insert_device_def rest sample_env_def new_device_def numeral_eq_Suc)
  have tok: "mint_device_jwt toy_device_jwt (ae_now2 ?env) (ae_jti ?env) (relay_signing_key ?cfg) (ae_uuid ?env) False = Some (''tok'', hd toy_claims)"
    by (simp add: mint_device_jwt_def toy_device_jwt_def toy_claims_def sample_env_def DEVICE_COOKIE_TTL_SECS_def)
  have now: "map_of (ae_cookies ?env) COOKIE_NAME_DEVICE = Some ''tok'' \<and> ae_now ?env \<le> ae_now2 ?env + 90 * 24 * 3600 + 5" and u: "ae_uuid ?env = ''dev-b''"
    by (simp_all add: sample_env_def)
  from invite_enrols [OF inv0 st1 rnd inv1 refl typed time lim pow fields fresh tok toy_device_jwt_correct] now u show ?thesis by (metis fst_conv)
qed

end
