(* ===== verification/Enroll_Channel.thy ===== *)
theory Enroll_Channel
  imports Rate_Limit
begin

text \<open>
  The enrollment relay (\<open>byo-relay/src/channel.rs\<close>): channels of two clients that forward small
  messages to each other, the registry with its idle sweep, and the session loop.

  Channels are shared objects: the registry and the sessions hold references to them, and the sweep
  may drop the reference of the registry while sessions still hold theirs.  So the state has a store
  of channel objects, the registry maps an id to an object, and a session keeps the object it joined.
  The sender of a client is named by the session that holds the receiver.  A session is a state
  machine: each locked section of the code and each branch of its \<open>select!\<close> is one step, and the steps
  of all sessions, joins and sweeps interleave.  Three logs record, for the statements only, who
  joined where, what was forwarded and what was delivered.
\<close>

declare map_of_eq_Some_iff [simp del] Some_eq_map_of_iff [simp del]

subsection \<open>Channels\<close>

definition MAX_CLIENTS :: nat where "MAX_CLIENTS = 2"
definition CHANNEL_IDLE_TTL :: int where "CHANNEL_IDLE_TTL = from_secs 180"
definition MAX_MESSAGE_BYTES :: nat where "MAX_MESSAGE_BYTES = 1024"
definition MAX_CHANNEL_BYTES :: nat where "MAX_CHANNEL_BYTES = 8 * 1024"

record Channel =
  senders :: "nat option list"
  last_activity :: instant
  ch_total :: nat

definition Channel_new :: "instant \<Rightarrow> Channel" where
  "Channel_new now = \<lparr>senders = [None, None], last_activity = now, ch_total = 0\<rparr>"

definition active_slots :: "Channel \<Rightarrow> nat" where
  "active_slots ch = length (filter (\<lambda>s. s \<noteq> None) (senders ch))"

definition channel_first_empty_slot :: "Channel \<Rightarrow> nat option" where
  "channel_first_empty_slot ch = position (\<lambda>s. s = None) (senders ch)"

definition peer_sender :: "nat \<Rightarrow> Channel \<Rightarrow> nat option" where
  "peer_sender my_slot ch = senders ch ! (1 - my_slot)"

definition touch :: "instant \<Rightarrow> Channel \<Rightarrow> Channel" where
  "touch now ch = ch\<lparr>last_activity := now\<rparr>"

definition is_idle_expired :: "instant \<Rightarrow> Channel \<Rightarrow> bool" where
  "is_idle_expired now ch \<longleftrightarrow> duration_since now (last_activity ch) > CHANNEL_IDLE_TTL"

definition add_bytes :: "nat \<Rightarrow> Channel \<Rightarrow> bool \<times> Channel" where
  "add_bytes n ch =
     (let t = sat_add64 (ch_total ch) n in (t > MAX_CHANNEL_BYTES, ch\<lparr>ch_total := t\<rparr>))"

subsection \<open>Registry and sessions\<close>

datatype Message = Binary bytes | Text string

fun msg_len :: "Message \<Rightarrow> nat" where
  "msg_len (Binary data) = length data"
| "msg_len (Text text) = length text"

text \<open>A message in a receiver is paired with the session that sent it; \<open>pending\<close> is a counted message not yet forwarded.\<close>

record Session =
  s_channel :: nat
  s_channel_id :: bytes
  s_slot :: nat
  s_rx :: "(nat \<times> Message) list"
  s_pending :: "Message option"
  s_leaving :: bool

record ChannelRelay =
  objects :: "(nat, Channel) hmap"
  registry :: "(bytes, nat) hmap"
  sessions :: "(nat, Session) hmap"
  next_id :: nat
  joined :: "(nat, nat \<times> bytes \<times> nat) hmap"
  forwarded :: "(nat \<times> nat \<times> Message) list"
  delivered :: "(nat \<times> nat \<times> Message) list"

definition ChannelRegistry_new :: ChannelRelay where
  "ChannelRegistry_new = \<lparr>objects = [], registry = [], sessions = [], next_id = 0, joined = [], forwarded = [], delivered = []\<rparr>"

definition sweep_expired :: "instant \<Rightarrow> ChannelRelay \<Rightarrow> ChannelRelay" where
  "sweep_expired now st =
     st\<lparr>registry := hm_retain (\<lambda>_ ob. case map_of (objects st) ob of Some ch \<Rightarrow> \<not> is_idle_expired now ch | None \<Rightarrow> False) (registry st)\<rparr>"

text \<open>\<open>entry(channel_id).or_insert_with(Channel::new)\<close>: the object, the objects and the registry afterwards.\<close>

definition channel_entry :: "instant \<Rightarrow> bytes \<Rightarrow> ChannelRelay \<Rightarrow> nat \<times> Channel \<times> ChannelRelay" where
  "channel_entry now channel_id st =
     (case map_of (registry st) channel_id of
        Some ob \<Rightarrow> (ob, get_or (Channel_new now) (objects st) ob, st)
      | None \<Rightarrow>
          let ob = next_id st; ch = Channel_new now in
          (ob, ch, st\<lparr>objects := AList.update ob ch (objects st), registry := AList.update channel_id ob (registry st), next_id := ob + 1\<rparr>))"

text \<open>A successful join starts a session with a fresh receiver.\<close>

definition join :: "instant \<Rightarrow> bytes \<Rightarrow> ChannelRelay \<Rightarrow> (unit + nat) \<times> ChannelRelay" where
  "join now channel_id st =
     (case channel_entry now channel_id st of
        (ob, ch, st) \<Rightarrow>
          (case channel_first_empty_slot ch of
             None \<Rightarrow> (Inl (), st)
           | Some slot \<Rightarrow>
               let sid = next_id st;
                   ch = touch now (ch\<lparr>senders := (senders ch)[slot := Some sid]\<rparr>) in
               (Inr sid, st\<lparr>objects := AList.update ob ch (objects st),
                  sessions := AList.update sid \<lparr>s_channel = ob, s_channel_id = channel_id, s_slot = slot, s_rx = [], s_pending = None,
                    s_leaving = False\<rparr> (sessions st),
                  next_id := sid + 1,
                  joined := AList.update sid (ob, channel_id, slot) (joined st)\<rparr>)))"

text \<open>\<open>leave\<close> looks the channel up by its id.\<close>

definition leave :: "bytes \<Rightarrow> nat \<Rightarrow> ChannelRelay \<Rightarrow> ChannelRelay" where
  "leave channel_id slot st =
     (case map_of (registry st) channel_id of
        None \<Rightarrow> st
      | Some ob \<Rightarrow>
          (case map_of (objects st) ob of
             None \<Rightarrow> st
           | Some ch \<Rightarrow>
               let ch = ch\<lparr>senders := (senders ch)[slot := None]\<rparr>;
                   st = st\<lparr>objects := AList.update ob ch (objects st)\<rparr> in
               if active_slots ch = 0 then st\<lparr>registry := AList.delete channel_id (registry st)\<rparr> else st))"

subsection \<open>The session loop\<close>

definition set_session :: "nat \<Rightarrow> Session \<Rightarrow> ChannelRelay \<Rightarrow> ChannelRelay" where
  "set_session sid s st = st\<lparr>sessions := AList.update sid s (sessions st)\<rparr>"

definition update_channel :: "nat \<Rightarrow> Channel \<Rightarrow> ChannelRelay \<Rightarrow> ChannelRelay" where
  "update_channel ob ch st = st\<lparr>objects := AList.update ob ch (objects st)\<rparr>"

text \<open>A message from the client: the size check, then under the lock \<open>touch\<close> and \<open>add_bytes\<close>.\<close>

definition client_message :: "instant \<Rightarrow> nat \<Rightarrow> Session \<Rightarrow> Channel \<Rightarrow> Message \<Rightarrow> ChannelRelay \<Rightarrow> ChannelRelay" where
  "client_message now sid s ch m st =
     (if msg_len m > MAX_MESSAGE_BYTES then set_session sid (s\<lparr>s_leaving := True\<rparr>) st
      else
        (case add_bytes (msg_len m) (touch now ch) of
           (cap_exceeded, ch) \<Rightarrow>
             let st = update_channel (s_channel s) ch st in
             if cap_exceeded then set_session sid (s\<lparr>s_leaving := True\<rparr>) st
             else set_session sid (s\<lparr>s_pending := Some m\<rparr>) st))"

text \<open>Under the lock again: hand the message to the receiver of the peer, if there is one and it still exists.\<close>

definition forward_message :: "nat \<Rightarrow> Session \<Rightarrow> Channel \<Rightarrow> Message \<Rightarrow> ChannelRelay \<Rightarrow> ChannelRelay" where
  "forward_message sid s ch m st =
     (let st = set_session sid (s\<lparr>s_pending := None\<rparr>) st in
      case peer_sender (s_slot s) ch of
        None \<Rightarrow> st
      | Some peer \<Rightarrow>
          (case map_of (sessions st) peer of
             None \<Rightarrow> st
           | Some p \<Rightarrow>
               if s_leaving p then st
               else (set_session peer (p\<lparr>s_rx := s_rx p @ [(sid, m)]\<rparr>) st)\<lparr>forwarded := forwarded st @ [(sid, peer, m)]\<rparr>))"

text \<open>A message from the peer goes to the socket, which may fail.\<close>

definition deliver_message :: "instant \<Rightarrow> bool \<Rightarrow> nat \<Rightarrow> Session \<Rightarrow> Channel \<Rightarrow> nat \<times> Message \<Rightarrow> (nat \<times> Message) list \<Rightarrow> ChannelRelay \<Rightarrow> ChannelRelay" where
  "deliver_message now send_ok sid s ch fm rest st =
     (if \<not> send_ok then set_session sid (s\<lparr>s_rx := rest, s_leaving := True\<rparr>) st
      else (update_channel (s_channel s) (touch now ch) (set_session sid (s\<lparr>s_rx := rest\<rparr>) st))
             \<lparr>delivered := delivered st @ [(fst fm, sid, snd fm)]\<rparr>)"

text \<open>After the loop the receiver is gone and the session leaves.\<close>

definition end_session :: "nat \<Rightarrow> Session \<Rightarrow> ChannelRelay \<Rightarrow> ChannelRelay" where
  "end_session sid s st = (leave (s_channel_id s) (s_slot s) st)\<lparr>sessions := AList.delete sid (sessions st)\<rparr>"

definition running :: "ChannelRelay \<Rightarrow> nat \<Rightarrow> Session \<Rightarrow> Channel \<Rightarrow> bool" where
  "running st sid s ch \<longleftrightarrow>
     map_of (sessions st) sid = Some s \<and> map_of (objects st) (s_channel s) = Some ch \<and> \<not> s_leaving s"

inductive channel_step :: "ChannelRelay \<Rightarrow> ChannelRelay \<Rightarrow> bool" where
  Join: "channel_step st (snd (join now channel_id st))"
| Sweep: "channel_step st (sweep_expired now st)"
| Upload: "running st sid s ch \<Longrightarrow> s_pending s = None \<Longrightarrow> channel_step st (client_message now sid s ch m st)"
| Forward: "running st sid s ch \<Longrightarrow> s_pending s = Some m \<Longrightarrow> channel_step st (forward_message sid s ch m st)"
| Deliver: "running st sid s ch \<Longrightarrow> s_pending s = None \<Longrightarrow> s_rx s = fm # rest \<Longrightarrow>
    channel_step st (deliver_message now send_ok sid s ch fm rest st)"
| ReceiverClosed: "running st sid s ch \<Longrightarrow> s_pending s = None \<Longrightarrow> s_rx s = [] \<Longrightarrow> senders ch ! s_slot s \<noteq> Some sid \<Longrightarrow>
    channel_step st (set_session sid (s\<lparr>s_leaving := True\<rparr>) st)"
| Stop: "running st sid s ch \<Longrightarrow> s_pending s = None \<Longrightarrow> channel_step st (set_session sid (s\<lparr>s_leaving := True\<rparr>) st)"
| Leave: "map_of (sessions st) sid = Some s \<Longrightarrow> s_leaving s \<Longrightarrow> channel_step st (end_session sid s st)"

subsection \<open>Identities\<close>

lemma position_Some: "position p xs = Some i \<Longrightarrow> i < length xs \<and> p (xs ! i)"
  by (induction xs arbitrary: i) (auto split: if_splits)

lemma position_None: "position p xs = None \<longleftrightarrow> (\<forall>x\<in>set xs. \<not> p x)"
  by (induction xs) auto

text \<open>
  Sessions are the joins that have not ended; a channel object belongs to one channel id; a sender
  names the session that joined that object in that slot.
\<close>

definition names_inv :: "ChannelRelay \<Rightarrow> bool" where
  "names_inv st \<longleftrightarrow>
     hm_ok (sessions st) \<and> hm_ok (registry st) \<and>
     (\<forall>ob ch. map_of (objects st) ob = Some ch \<longrightarrow> ob < next_id st \<and> length (senders ch) = 2) \<and>
     (\<forall>sid ob c i. map_of (joined st) sid = Some (ob, c, i) \<longrightarrow> sid < next_id st \<and> ob < next_id st \<and> i < 2) \<and>
     (\<forall>sid s. map_of (sessions st) sid = Some s \<longrightarrow> map_of (joined st) sid = Some (s_channel s, s_channel_id s, s_slot s))"

definition refs_inv :: "ChannelRelay \<Rightarrow> bool" where
  "refs_inv st \<longleftrightarrow>
     (\<forall>c ob. map_of (registry st) c = Some ob \<longrightarrow> map_of (objects st) ob \<noteq> None) \<and>
     (\<forall>c c' ob. map_of (registry st) c = Some ob \<longrightarrow> map_of (registry st) c' = Some ob \<longrightarrow> c = c') \<and>
     (\<forall>c ob sid c' i. map_of (registry st) c = Some ob \<longrightarrow> map_of (joined st) sid = Some (ob, c', i) \<longrightarrow> c' = c) \<and>
     (\<forall>sid sid' ob c c' i j. map_of (joined st) sid = Some (ob, c, i) \<longrightarrow> map_of (joined st) sid' = Some (ob, c', j) \<longrightarrow> c = c') \<and>
     (\<forall>ob ch i sid. map_of (objects st) ob = Some ch \<longrightarrow> i < 2 \<longrightarrow> senders ch ! i = Some sid \<longrightarrow> (\<exists>c. map_of (joined st) sid = Some (ob, c, i)))"

definition ids_inv :: "ChannelRelay \<Rightarrow> bool" where
  "ids_inv st \<longleftrightarrow> names_inv st \<and> refs_inv st"

lemma ids_invI:
  assumes "hm_ok (sessions st)" and "hm_ok (registry st)"
    and "\<And>ob ch. map_of (objects st) ob = Some ch \<Longrightarrow> ob < next_id st \<and> length (senders ch) = 2"
    and "\<And>sid ob c i. map_of (joined st) sid = Some (ob, c, i) \<Longrightarrow> sid < next_id st \<and> ob < next_id st \<and> i < 2"
    and "\<And>sid s. map_of (sessions st) sid = Some s \<Longrightarrow> map_of (joined st) sid = Some (s_channel s, s_channel_id s, s_slot s)"
    and "\<And>c ob. map_of (registry st) c = Some ob \<Longrightarrow> map_of (objects st) ob \<noteq> None"
    and "\<And>c c' ob. map_of (registry st) c = Some ob \<Longrightarrow> map_of (registry st) c' = Some ob \<Longrightarrow> c = c'"
    and "\<And>c ob sid c' i. map_of (registry st) c = Some ob \<Longrightarrow> map_of (joined st) sid = Some (ob, c', i) \<Longrightarrow> c' = c"
    and "\<And>sid sid' ob c c' i j. map_of (joined st) sid = Some (ob, c, i) \<Longrightarrow> map_of (joined st) sid' = Some (ob, c', j) \<Longrightarrow> c = c'"
    and "\<And>ob ch i sid. map_of (objects st) ob = Some ch \<Longrightarrow> i < 2 \<Longrightarrow> senders ch ! i = Some sid \<Longrightarrow> \<exists>c. map_of (joined st) sid = Some (ob, c, i)"
  shows "ids_inv st"
proof -
  have "names_inv st" unfolding names_inv_def using assms(1-5) by blast
  moreover have "refs_inv st" unfolding refs_inv_def using assms(6-10) by blast
  ultimately show ?thesis by (simp add: ids_inv_def)
qed

lemma ids_invD:
  assumes "ids_inv st"
  shows "hm_ok (sessions st)" and "hm_ok (registry st)"
    and "map_of (objects st) ob = Some ch \<Longrightarrow> ob < next_id st \<and> length (senders ch) = 2"
    and "map_of (joined st) sid = Some (ob, c, i) \<Longrightarrow> sid < next_id st \<and> ob < next_id st \<and> i < 2"
    and "map_of (sessions st) sid = Some s \<Longrightarrow> map_of (joined st) sid = Some (s_channel s, s_channel_id s, s_slot s)"
    and "map_of (registry st) c = Some ob \<Longrightarrow> map_of (objects st) ob \<noteq> None"
    and "map_of (registry st) c = Some ob \<Longrightarrow> map_of (registry st) c' = Some ob \<Longrightarrow> c = c'"
    and "map_of (registry st) c = Some ob \<Longrightarrow> map_of (joined st) sid = Some (ob, c', i) \<Longrightarrow> c' = c"
    and "map_of (joined st) sid = Some (ob, c, i) \<Longrightarrow> map_of (joined st) sid' = Some (ob, c', j) \<Longrightarrow> c = c'"
    and "map_of (objects st) ob = Some ch \<Longrightarrow> i < 2 \<Longrightarrow> senders ch ! i = Some sid \<Longrightarrow> \<exists>c. map_of (joined st) sid = Some (ob, c, i)"
proof -
  have n: "names_inv st" and r: "refs_inv st" using assms by (simp_all add: ids_inv_def)
  show "hm_ok (sessions st)" "hm_ok (registry st)"
    "map_of (objects st) ob = Some ch \<Longrightarrow> ob < next_id st \<and> length (senders ch) = 2"
    "map_of (joined st) sid = Some (ob, c, i) \<Longrightarrow> sid < next_id st \<and> ob < next_id st \<and> i < 2"
    "map_of (sessions st) sid = Some s \<Longrightarrow> map_of (joined st) sid = Some (s_channel s, s_channel_id s, s_slot s)"
    using n unfolding names_inv_def by blast+
  show "map_of (registry st) c = Some ob \<Longrightarrow> map_of (objects st) ob \<noteq> None"
    "map_of (registry st) c = Some ob \<Longrightarrow> map_of (registry st) c' = Some ob \<Longrightarrow> c = c'"
    "map_of (registry st) c = Some ob \<Longrightarrow> map_of (joined st) sid = Some (ob, c', i) \<Longrightarrow> c' = c"
    "map_of (joined st) sid = Some (ob, c, i) \<Longrightarrow> map_of (joined st) sid' = Some (ob, c', j) \<Longrightarrow> c = c'"
    "map_of (objects st) ob = Some ch \<Longrightarrow> i < 2 \<Longrightarrow> senders ch ! i = Some sid \<Longrightarrow> \<exists>c. map_of (joined st) sid = Some (ob, c, i)"
    using r unfolding refs_inv_def by metis+
qed

text \<open>Changes of a session that keep its identity, and of a channel that keep or clear its senders.\<close>

lemma ids_sessions:
  "ids_inv st \<Longrightarrow> hm_ok m \<Longrightarrow> (\<And>sid s. map_of m sid = Some s \<Longrightarrow> map_of (joined st) sid = Some (s_channel s, s_channel_id s, s_slot s)) \<Longrightarrow>
     ids_inv (st\<lparr>sessions := m\<rparr>)"
  by (simp add: ids_inv_def names_inv_def refs_inv_def)

lemma ids_logs [simp]: "ids_inv (st\<lparr>forwarded := f\<rparr>) = ids_inv st" "ids_inv (st\<lparr>delivered := f\<rparr>) = ids_inv st"
  by (simp_all add: ids_inv_def names_inv_def refs_inv_def)

lemma ids_set_session:
  assumes inv: "ids_inv st" and s: "map_of (sessions st) sid = Some s"
    and same: "s_channel s' = s_channel s" "s_channel_id s' = s_channel_id s" "s_slot s' = s_slot s"
  shows "ids_inv (set_session sid s' st)"
  unfolding set_session_def
proof (rule ids_sessions [OF inv])
  show "hm_ok (AList.update sid s' (sessions st))" using ids_invD(1) [OF inv] by simp
  show "map_of (joined st) i = Some (s_channel r, s_channel_id r, s_slot r)" if "map_of (AList.update sid s' (sessions st)) i = Some r" for i r
    using that ids_invD(5) [OF inv s] ids_invD(5) [OF inv, of i r] same by (auto split: if_splits)
qed

lemma ids_update_channel:
  assumes inv: "ids_inv st" and ch: "map_of (objects st) ob = Some ch"
    and len: "length (senders ch') = 2" and sub: "\<And>i. i < 2 \<Longrightarrow> senders ch' ! i = senders ch ! i \<or> senders ch' ! i = None"
  shows "ids_inv (update_channel ob ch' st)"
proof -
  note D = ids_invD [OF inv]
  show ?thesis unfolding update_channel_def
  proof (rule ids_invI, goal_cases)
    case (3 a b) then show ?case using D(3) [OF ch] D(3) [of a b] len by (auto split: if_splits)
  next
    case (10 a b i sid) then show ?case using D(10) [OF ch, of i sid] D(10) [of a b i sid] sub [of i] by (auto split: if_splits)
  next
    case (8 c ob sid c' i) then show ?case using D(8) by simp
  next
    case (9 sid sid' ob c c' i j) then show ?case using D(9) by simp
  next
    case (6 c ob) then show ?case using D(6) [of c ob] by auto
  next
    case (4 sid ob c i) then show ?case using D(4) [of sid ob c i] by simp
  next
    case (5 sid s) then show ?case using D(5) [of sid s] by simp
  next
    case (7 c c' ob) then show ?case using D(7) by simp
  qed (use D(1,2) in simp_all)
qed

lemma ids_sub_registry:
  assumes inv: "ids_inv st" and ok: "hm_ok r" and sub: "\<And>c ob. map_of r c = Some ob \<Longrightarrow> map_of (registry st) c = Some ob"
  shows "ids_inv (st\<lparr>registry := r\<rparr>)"
proof -
  have "names_inv (st\<lparr>registry := r\<rparr>)" using inv ok by (simp add: ids_inv_def names_inv_def)
  moreover have "refs_inv (st\<lparr>registry := r\<rparr>)" using inv sub unfolding ids_inv_def refs_inv_def by (simp, metis)
  ultimately show ?thesis by (simp add: ids_inv_def)
qed

lemma ids_sweep: "ids_inv st \<Longrightarrow> ids_inv (sweep_expired now st)"
  unfolding sweep_expired_def
  by (rule ids_sub_registry) (auto simp: ids_invD hm_get_retain split: option.splits if_splits)

lemma ids_entry:
  assumes inv: "ids_inv st" and e: "channel_entry now c st = (ob, ch, st')"
  shows "ids_inv st'" and "map_of (objects st') ob = Some ch" and "map_of (registry st') c = Some ob"
    and "sessions st' = sessions st" "joined st' = joined st" "forwarded st' = forwarded st" "delivered st' = delivered st"
proof -
  note D = ids_invD [OF inv]
  have "ids_inv st' \<and> map_of (objects st') ob = Some ch \<and> map_of (registry st') c = Some ob \<and>
    sessions st' = sessions st \<and> joined st' = joined st \<and> forwarded st' = forwarded st \<and> delivered st' = delivered st"
  proof (cases "map_of (registry st) c")
    case (Some ob')
    then show ?thesis using e inv D(6) [OF Some] by (auto simp: channel_entry_def get_or_def)
  next
    case None
    have st': "ob = next_id st" "ch = Channel_new now"
      "st' = st\<lparr>objects := AList.update ob ch (objects st), registry := AList.update c ob (registry st), next_id := ob + 1\<rparr>"
      using e None by (auto simp: channel_entry_def Let_def)
    have fresh: "map_of (registry st) d \<noteq> Some ob" "map_of (joined st) sid \<noteq> Some (ob, d, i)" for d sid i
      using D(6) [of d ob] D(3) [of ob] D(4) [of sid ob d i] st'(1) by auto
    have "ids_inv st'"
    proof (rule ids_invI, goal_cases)
      case (3 a b) then show ?case using D(3) [of a b] st' by (auto simp: Channel_new_def split: if_splits)
    next
      case (4 sid a d i) then show ?case using D(4) [of sid a d i] st' by auto
    next
      case (5 sid s) then show ?case using D(5) [of sid s] st' by auto
    next
      case (6 d a) then show ?case using D(6) [of d a] st' by (auto split: if_splits)
    next
      case (7 d d' a) then show ?case using D(7) [of d a d'] fresh(1) st' by (auto split: if_splits)
    next
      case (8 d a sid d' i) then show ?case using D(8) [of d a sid d' i] fresh(2) st' by (auto split: if_splits)
    next
      case (9 sid sid' a d d' i j) then show ?case using D(9) [of sid a d i sid' d' j] st' by auto
    next
      case (10 a b i sid) then show ?case using D(10) [of a b i sid] st' by (auto simp: Channel_new_def less_Suc_eq numeral_2_eq_2 split: if_splits)
    qed (use D(1,2) st' in simp_all)
    then show ?thesis using st' by simp
  qed
  then show "ids_inv st'" "map_of (objects st') ob = Some ch" "map_of (registry st') c = Some ob"
    "sessions st' = sessions st" "joined st' = joined st" "forwarded st' = forwarded st" "delivered st' = delivered st" by simp_all
qed

lemma join_cases:
  assumes inv: "ids_inv st" and j: "join now c st = (r, st')"
  obtains (full) ob ch where "channel_entry now c st = (ob, ch, st')" "r = Inl ()"
  | (joins) ob ch st1 slot sid where "channel_entry now c st = (ob, ch, st1)" "slot < 2" "senders ch ! slot = None" "sid = next_id st1" "r = Inr sid"
      "st' = st1\<lparr>objects := AList.update ob (touch now (ch\<lparr>senders := (senders ch)[slot := Some sid]\<rparr>)) (objects st1),
         sessions := AList.update sid \<lparr>s_channel = ob, s_channel_id = c, s_slot = slot, s_rx = [], s_pending = None, s_leaving = False\<rparr> (sessions st1),
         next_id := sid + 1, joined := AList.update sid (ob, c, slot) (joined st1)\<rparr>"
proof -
  obtain ob ch st1 where e: "channel_entry now c st = (ob, ch, st1)" by (metis prod_cases3)
  note E = ids_entry [OF inv e]
  show thesis
  proof (cases "channel_first_empty_slot ch")
    case None
    then show thesis using full [OF _] e j by (auto simp: join_def)
  next
    case (Some slot)
    then have "slot < 2" "senders ch ! slot = None"
      using position_Some [of "\<lambda>s. s = None" "senders ch" slot] ids_invD(3) [OF E(1) E(2)] by (auto simp: channel_first_empty_slot_def)
    then show thesis using joins [OF e _ _ refl] Some e j by (auto simp: join_def Let_def)
  qed
qed

lemma ids_join:
  assumes inv: "ids_inv st" and j: "join now c st = (r, st')"
  shows "ids_inv st'"
  using assms
proof (cases rule: join_cases)
  case (full ob ch)
  then show ?thesis using ids_entry(1) [OF inv] by blast
next
  case (joins ob ch st1 slot sid)
  note E = ids_entry [OF inv joins(1)] and D = ids_invD [OF ids_entry(1) [OF inv joins(1)]]
  have ob: "ob < sid" "length (senders ch) = 2" using D(3) [OF E(2)] joins(4) by auto
  have fresh: "map_of (joined st1) sid = None" using D(4) [of sid] joins(4) by (cases "map_of (joined st1) sid") auto
  show ?thesis unfolding joins(6)
  proof (rule ids_invI, goal_cases)
    case (3 a b) then show ?case using D(3) [of a b] ob joins(4) by (auto simp: touch_def split: if_splits)
  next
    case (4 s a d i) then show ?case using D(4) [of s a d i] ob joins(2,4) by (auto split: if_splits)
  next
    case (5 s r) then show ?case using D(5) [of s r] fresh by (auto split: if_splits)
  next
    case (6 d a) then show ?case using D(6) [of d a] by auto
  next
    case (7 d d' a) then show ?case using D(7) [of d a d'] by simp
  next
    case (8 d a s d' i) then show ?case using D(8) [of d a s d' i] D(7) [of d ob c] E(3) by (auto split: if_splits)
  next
    case (9 s s' a d d' i k)
    then show ?case using D(9) [of s a d i s' d' k] D(8) [OF E(3), of s d i] D(8) [OF E(3), of s' d' k] by (auto split: if_splits)
  next
    case (10 a b i s)
    then show ?case using D(10) [of a b i s] D(10) [OF E(2), of i s] fresh ob(2)
      by (cases "i = slot") (auto simp: touch_def split: if_splits)
  qed (use D(1,2) in simp_all)
qed

lemma ids_leave:
  assumes inv: "ids_inv st"
  shows "ids_inv (leave c slot st)"
proof -
  have "ids_inv (update_channel ob (ch\<lparr>senders := (senders ch)[slot := None]\<rparr>) st)" if "map_of (objects st) ob = Some ch" for ob ch
  proof (rule ids_update_channel [OF inv that])
    have len: "length (senders ch) = 2" using ids_invD(3) [OF inv that] by simp
    then show "length (senders (ch\<lparr>senders := (senders ch)[slot := None]\<rparr>)) = 2" by simp
    show "senders (ch\<lparr>senders := (senders ch)[slot := None]\<rparr>) ! i = senders ch ! i \<or> senders (ch\<lparr>senders := (senders ch)[slot := None]\<rparr>) ! i = None"
      if "i < 2" for i using len that by (cases "i = slot") simp_all
  qed
  moreover have "ids_inv (st\<lparr>objects := ob, registry := AList.delete c (registry st)\<rparr>)" if "ids_inv (st\<lparr>objects := ob\<rparr>)" for ob
  proof -
    have "map_of (AList.delete c (registry st)) d = Some x \<Longrightarrow> map_of (registry (st\<lparr>objects := ob\<rparr>)) d = Some x" for d x
      by (simp split: if_splits)
    with ids_sub_registry [OF that, of "AList.delete c (registry st)"] ids_invD(2) [OF inv] show ?thesis by simp
  qed
  ultimately show ?thesis using inv by (auto simp: leave_def Let_def update_channel_def split: option.splits)
qed

lemma ids_end_session:
  assumes inv: "ids_inv st"
  shows "ids_inv (end_session sid s st)"
  unfolding end_session_def
proof (rule ids_sessions [OF ids_leave [OF inv]])
  show "hm_ok (AList.delete sid (sessions st))" using ids_invD(1) [OF inv] by simp
  have "joined (leave (s_channel_id s) (s_slot s) st) = joined st" by (auto simp: leave_def Let_def split: option.splits)
  then show "map_of (joined (leave (s_channel_id s) (s_slot s) st)) i = Some (s_channel r, s_channel_id r, s_slot r)"
    if "map_of (AList.delete sid (sessions st)) i = Some r" for i r
    using that ids_invD(5) [OF inv, of i r] by (simp split: if_splits)
qed

lemma set_update_commute: "set_session sid s (update_channel ob ch st) = update_channel ob ch (set_session sid s st)"
  by (simp add: set_session_def update_channel_def)

lemma session_frame [simp]:
  "sessions (set_session sid s st) = AList.update sid s (sessions st)" "objects (set_session sid s st) = objects st"
  "registry (set_session sid s st) = registry st" "joined (set_session sid s st) = joined st"
  "forwarded (set_session sid s st) = forwarded st" "delivered (set_session sid s st) = delivered st"
  "objects (update_channel ob ch st) = AList.update ob ch (objects st)" "sessions (update_channel ob ch st) = sessions st"
  "registry (update_channel ob ch st) = registry st" "joined (update_channel ob ch st) = joined st"
  "forwarded (update_channel ob ch st) = forwarded st" "delivered (update_channel ob ch st) = delivered st"
  by (simp_all add: set_session_def update_channel_def)

lemma runningD: "running st sid s ch \<Longrightarrow> map_of (sessions st) sid = Some s \<and> map_of (objects st) (s_channel s) = Some ch \<and> \<not> s_leaving s"
  by (simp add: running_def)

lemma ids_step: "channel_step st st' \<Longrightarrow> ids_inv st \<Longrightarrow> ids_inv st'"
proof (induction rule: channel_step.induct)
  case (Join st now c)
  then show ?case using ids_join [of st now c] by (metis prod.collapse)
next
  case (Upload st sid s ch now m)
  note R = runningD [OF Upload(1)]
  have "ids_inv (update_channel (s_channel s) ch' st)" if "senders ch' = senders ch" for ch'
    using R that ids_invD(3) [OF Upload(3)] by (intro ids_update_channel [OF Upload(3)]) auto
  then show ?case using R Upload(3)
    by (auto simp: client_message_def add_bytes_def touch_def Let_def intro!: ids_set_session)
next
  case (Forward st sid s ch m)
  note R = runningD [OF Forward(1)]
  define st1 where "st1 = set_session sid (s\<lparr>s_pending := None\<rparr>) st"
  have "ids_inv st1" unfolding st1_def using R by (intro ids_set_session [OF Forward(3)]) auto
  then show ?case
    unfolding forward_message_def st1_def [symmetric] Let_def by (auto intro!: ids_set_session split: option.splits)
next
  case (Deliver st sid s ch fm rest now send_ok)
  note R = runningD [OF Deliver(1)]
  have "ids_inv (set_session sid s' st)" if "s_channel s' = s_channel s" "s_channel_id s' = s_channel_id s" "s_slot s' = s_slot s" for s'
    using R that by (intro ids_set_session [OF Deliver(4)]) auto
  then show ?case using R ids_invD(3) [OF Deliver(4)]
    by (auto simp: deliver_message_def touch_def intro!: ids_update_channel)
next
  case (ReceiverClosed st sid s ch)
  then show ?case using runningD by (intro ids_set_session) auto
next
  case (Stop st sid s ch)
  then show ?case using runningD by (intro ids_set_session) auto
qed (simp_all add: ids_sweep ids_end_session)


subsection \<open>Who receives what\<close>

text \<open>The messages of a log for one session, with their senders.\<close>

definition log_to :: "nat \<Rightarrow> (nat \<times> nat \<times> Message) list \<Rightarrow> (nat \<times> Message) list" where
  "log_to t l = map (\<lambda>(f, _, m). (f, m)) (filter (\<lambda>(_, t', _). t' = t) l)"

lemma log_to_simps [simp]: "log_to t [] = []" "log_to t (l @ [(f, t', m)]) = log_to t l @ (if t' = t then [(f, m)] else [])"
  by (simp_all add: log_to_def)

definition flow_ok :: "ChannelRelay \<Rightarrow> nat \<times> nat \<times> Message \<Rightarrow> bool" where
  "flow_ok st e \<longleftrightarrow>
     (case e of (f, t, m) \<Rightarrow> msg_len m \<le> MAX_MESSAGE_BYTES \<and>
        (\<exists>ob c i. i < 2 \<and> map_of (joined st) f = Some (ob, c, i) \<and> map_of (joined st) t = Some (ob, c, 1 - i)))"

definition pending_ok :: "ChannelRelay \<Rightarrow> bool" where
  "pending_ok st \<longleftrightarrow> (\<forall>sid s m. map_of (sessions st) sid = Some s \<longrightarrow> s_pending s = Some m \<longrightarrow> \<not> s_leaving s \<and> msg_len m \<le> MAX_MESSAGE_BYTES)"

definition flow_inv :: "ChannelRelay \<Rightarrow> bool" where
  "flow_inv st \<longleftrightarrow> pending_ok st \<and> (\<forall>e\<in>set (forwarded st). flow_ok st e)"

definition queue_inv :: "ChannelRelay \<Rightarrow> bool" where
  "queue_inv st \<longleftrightarrow>
     (\<forall>t. \<exists>rest. log_to t (forwarded st) = log_to t (delivered st) @ rest \<and>
        (\<forall>s. map_of (sessions st) t = Some s \<longrightarrow> \<not> s_leaving s \<longrightarrow> rest = s_rx s))"

text \<open>Joins are never forgotten.\<close>

lemma joined_step:
  "channel_step st st' \<Longrightarrow> ids_inv st \<Longrightarrow> map_of (joined st) sid = Some x \<Longrightarrow> map_of (joined st') sid = Some x"
proof (induction rule: channel_step.induct)
  case (Join st now c)
  obtain r st' where j: "join now c st = (r, st')" by fastforce
  from Join(1) j have "map_of (joined st') sid = Some x"
  proof (cases rule: join_cases)
    case (full ob ch)
    then show ?thesis using ids_entry(5) [OF Join(1)] Join(2) by simp
  next
    case (joins ob ch st1 slot s)
    have "sid < next_id st1" using ids_invD(4) [OF ids_entry(1) [OF Join(1) joins(1)], of sid "fst x" "fst (snd x)" "snd (snd x)"]
      ids_entry(5) [OF Join(1) joins(1)] Join(2) by simp
    then show ?thesis using joins ids_entry(5) [OF Join(1) joins(1)] Join(2) by simp
  qed
  then show ?case using j by simp
qed (auto simp: sweep_expired_def client_message_def add_bytes_def Let_def forward_message_def deliver_message_def end_session_def leave_def
    split: option.splits)

lemma flow_ok_step: "channel_step st st' \<Longrightarrow> ids_inv st \<Longrightarrow> flow_ok st e \<Longrightarrow> flow_ok st' e"
  using joined_step unfolding flow_ok_def by (fastforce split: prod.splits)

lemma new_session:
  assumes "ids_inv st" and "join now c st = (r, st')"
  shows "forwarded st' = forwarded st \<and> delivered st' = delivered st \<and>
    (sessions st' = sessions st \<or> (\<exists>sid ob slot. map_of (joined st) sid = None \<and> map_of (sessions st) sid = None \<and>
       sessions st' = AList.update sid \<lparr>s_channel = ob, s_channel_id = c, s_slot = slot, s_rx = [], s_pending = None, s_leaving = False\<rparr> (sessions st)))"
  using assms
proof (cases rule: join_cases)
  case (full ob ch)
  then show ?thesis using ids_entry(4,6,7) [OF assms(1)] by blast
next
  case (joins ob ch st1 slot sid)
  note E = ids_entry [OF assms(1) joins(1)]
  have "map_of (joined st1) sid = None" using ids_invD(4) [OF E(1), of sid] joins(4) by (cases "map_of (joined st1) sid") auto
  moreover then have "map_of (sessions st1) sid = None" using ids_invD(5) [OF E(1), of sid] by (cases "map_of (sessions st1) sid") auto
  ultimately show ?thesis using E(4-7) joins(6) by auto
qed

lemma pending_ok_logs [simp]: "pending_ok (st\<lparr>forwarded := f\<rparr>) = pending_ok st"
  by (simp add: pending_ok_def)

lemma forward_cases:
  assumes "Q st1" and "\<And>peer p. peer_sender (s_slot s) ch = Some peer \<Longrightarrow> map_of (sessions st1) peer = Some p \<Longrightarrow> \<not> s_leaving p \<Longrightarrow>
      Q ((set_session peer (p\<lparr>s_rx := s_rx p @ [(sid, m)]\<rparr>) st1)\<lparr>forwarded := forwarded st1 @ [(sid, peer, m)]\<rparr>)"
    and "st1 = set_session sid (s\<lparr>s_pending := None\<rparr>) st"
  shows "Q (forward_message sid s ch m st)"
  unfolding forward_message_def assms(3) [symmetric] Let_def using assms(1,2) by (auto split: option.splits)

lemma flow_step: "channel_step st st' \<Longrightarrow> ids_inv st \<Longrightarrow> flow_inv st \<Longrightarrow> flow_inv st'"
proof -
  assume step: "channel_step st st'" and inv: "ids_inv st" and fl: "flow_inv st"
  have old: "flow_ok st' e" if "e \<in> set (forwarded st)" for e using flow_ok_step [OF step inv] fl that by (simp add: flow_inv_def)
  from step inv fl have "pending_ok st' \<and> (forwarded st' = forwarded st \<or> (\<exists>e. forwarded st' = forwarded st @ [e] \<and> flow_ok st e))"
  proof (induction rule: channel_step.induct)
    case (Join st now c)
    obtain r st' where j: "join now c st = (r, st')" by fastforce
    then show ?case using new_session [OF Join(1) j] Join(2) by (auto simp: flow_inv_def pending_ok_def split: if_splits)
  next
    case (Upload st sid s ch now m)
    then show ?case using runningD [OF Upload(1)]
      by (auto simp: client_message_def add_bytes_def Let_def flow_inv_def pending_ok_def split: if_splits)
  next
    case (Forward st sid s ch m)
    note R = runningD [OF Forward(1)]
    define st1 where "st1 = set_session sid (s\<lparr>s_pending := None\<rparr>) st"
    have p: "pending_ok st1" and m: "msg_len m \<le> MAX_MESSAGE_BYTES" and f: "forwarded st1 = forwarded st"
      using Forward R by (auto simp: flow_inv_def pending_ok_def st1_def split: if_splits)
    have J: "map_of (joined st) sid = Some (s_channel s, s_channel_id s, s_slot s)" using ids_invD(5) [OF Forward(3)] R by blast
    then have slot: "s_slot s < 2" using ids_invD(4) [OF Forward(3)] by blast
    have "flow_ok st (sid, peer, m)" if peer: "peer_sender (s_slot s) ch = Some peer" for peer
    proof -
      have "1 - s_slot s < 2" by linarith
      then obtain c where "map_of (joined st) peer = Some (s_channel s, c, 1 - s_slot s)"
        using ids_invD(10) [OF Forward(3), of "s_channel s" ch "1 - s_slot s" peer] R peer by (auto simp: peer_sender_def)
      moreover then have "c = s_channel_id s" using ids_invD(9) [OF Forward(3) J] by blast
      ultimately show ?thesis using J slot m by (auto simp: flow_ok_def)
    qed
    moreover have "pending_ok (set_session peer (q\<lparr>s_rx := x\<rparr>) st1)" if "map_of (sessions st1) peer = Some q" for peer q x
      using p that by (auto simp: pending_ok_def)
    ultimately show ?case
      by (intro forward_cases [where Q = "\<lambda>st'. pending_ok st' \<and> (forwarded st' = forwarded st \<or> (\<exists>e. forwarded st' = forwarded st @ [e] \<and> flow_ok st e))",
            OF _ _ st1_def]) (simp_all add: p f)
  next
    case (Deliver st sid s ch fm rest now send_ok)
    then show ?case using runningD [OF Deliver(1)] by (auto simp: deliver_message_def flow_inv_def pending_ok_def split: if_splits)
  next
    case (ReceiverClosed st sid s ch)
    then show ?case using runningD [OF ReceiverClosed(1)] by (auto simp: flow_inv_def pending_ok_def split: if_splits)
  next
    case (Stop st sid s ch)
    then show ?case using runningD [OF Stop(1)] by (auto simp: flow_inv_def pending_ok_def split: if_splits)
  next
    case (Leave st sid s)
    have "forwarded (leave c i st) = forwarded st" for c i by (auto simp: leave_def Let_def split: option.splits)
    then show ?case using Leave by (auto simp: end_session_def flow_inv_def pending_ok_def split: if_splits)
  qed (simp add: sweep_expired_def flow_inv_def pending_ok_def)
  then show ?thesis using old flow_ok_step [OF step inv] by (auto simp: flow_inv_def)
qed

lemma queue_invD:
  "queue_inv st \<Longrightarrow> \<exists>rest. log_to t (forwarded st) = log_to t (delivered st) @ rest \<and>
     (\<forall>s. map_of (sessions st) t = Some s \<longrightarrow> \<not> s_leaving s \<longrightarrow> rest = s_rx s)"
  by (simp add: queue_inv_def)

lemma queue_same:
  assumes "queue_inv st" and "forwarded st' = forwarded st" and "delivered st' = delivered st"
    and "\<And>t s. map_of (sessions st') t = Some s \<Longrightarrow> \<not> s_leaving s \<Longrightarrow> \<exists>s0. map_of (sessions st) t = Some s0 \<and> \<not> s_leaving s0 \<and> s_rx s = s_rx s0"
  shows "queue_inv st'"
  unfolding queue_inv_def
proof
  fix t
  obtain rest where "log_to t (forwarded st) = log_to t (delivered st) @ rest" "\<forall>s. map_of (sessions st) t = Some s \<longrightarrow> \<not> s_leaving s \<longrightarrow> rest = s_rx s"
    using queue_invD [OF assms(1), of t] by blast
  then show "\<exists>rest. log_to t (forwarded st') = log_to t (delivered st') @ rest \<and> (\<forall>s. map_of (sessions st') t = Some s \<longrightarrow> \<not> s_leaving s \<longrightarrow> rest = s_rx s)"
    using assms(2-4) by (intro exI [of _ rest]) fastforce
qed

lemma log_to_fresh:
  assumes "ids_inv st" and "flow_inv st" and "map_of (joined st) t = None"
  shows "log_to t (forwarded st) = []"
  using assms(2,3) by (fastforce simp: log_to_def flow_inv_def flow_ok_def filter_empty_conv)

lemma queue_step: "channel_step st st' \<Longrightarrow> ids_inv st \<Longrightarrow> flow_inv st \<Longrightarrow> queue_inv st \<Longrightarrow> queue_inv st'"
proof (induction rule: channel_step.induct)
  case (Join st now c)
  obtain r st' where j: "join now c st = (r, st')" by fastforce
  note N = new_session [OF Join(1) j]
  from N have "queue_inv st'"
  proof (elim conjE disjE exE)
    fix sid ob slot
    assume n: "forwarded st' = forwarded st" "delivered st' = delivered st" "map_of (joined st) sid = None" "map_of (sessions st) sid = None"
      "sessions st' = AList.update sid \<lparr>s_channel = ob, s_channel_id = c, s_slot = slot, s_rx = [], s_pending = None, s_leaving = False\<rparr> (sessions st)"
    show ?thesis unfolding queue_inv_def
    proof
      fix t
      obtain rest where "log_to t (forwarded st) = log_to t (delivered st) @ rest" "\<forall>s. map_of (sessions st) t = Some s \<longrightarrow> \<not> s_leaving s \<longrightarrow> rest = s_rx s"
        using queue_invD [OF Join(3), of t] by blast
      then show "\<exists>rest. log_to t (forwarded st') = log_to t (delivered st') @ rest \<and> (\<forall>s. map_of (sessions st') t = Some s \<longrightarrow> \<not> s_leaving s \<longrightarrow> rest = s_rx s)"
        using n log_to_fresh [OF Join(1,2) n(3)] by (intro exI [of _ rest]) (auto split: if_splits)
    qed
  next
    assume "forwarded st' = forwarded st" "delivered st' = delivered st" "sessions st' = sessions st"
    then show ?thesis by (intro queue_same [OF Join(3)]) auto
  qed
  then show ?case using j by simp
next
  case (Sweep st now)
  then show ?case by (auto simp: sweep_expired_def intro: queue_same)
next
  case (Upload st sid s ch now m)
  then show ?case using runningD [OF Upload(1)]
    by (intro queue_same [OF Upload(5)]) (auto simp: client_message_def add_bytes_def Let_def split: if_splits)
next
  case (Forward st sid s ch m)
  note R = runningD [OF Forward(1)]
  define st1 where "st1 = set_session sid (s\<lparr>s_pending := None\<rparr>) st"
  have q1: "queue_inv st1" unfolding st1_def using R by (intro queue_same [OF Forward(5)]) (auto split: if_splits)
  have "queue_inv ((set_session peer (p\<lparr>s_rx := s_rx p @ [(sid, m)]\<rparr>) st1)\<lparr>forwarded := forwarded st1 @ [(sid, peer, m)]\<rparr>)" (is "queue_inv ?st2")
    if p: "map_of (sessions st1) peer = Some p" "\<not> s_leaving p" for peer p
    unfolding queue_inv_def
  proof
    fix t
    obtain rest where r: "log_to t (forwarded st1) = log_to t (delivered st1) @ rest" "\<forall>s. map_of (sessions st1) t = Some s \<longrightarrow> \<not> s_leaving s \<longrightarrow> rest = s_rx s"
      using queue_invD [OF q1, of t] by blast
    then show "\<exists>rest. log_to t (forwarded ?st2) = log_to t (delivered ?st2) @ rest \<and> (\<forall>s. map_of (sessions ?st2) t = Some s \<longrightarrow> \<not> s_leaving s \<longrightarrow> rest = s_rx s)"
      using p by (intro exI [of _ "rest @ (if peer = t then [(sid, m)] else [])"]) (auto split: if_splits)
  qed
  then show ?case using forward_cases [where Q = queue_inv, OF q1 _ st1_def] by blast
next
  case (Deliver st sid s ch fm rest now send_ok)
  note R = runningD [OF Deliver(1)]
  show ?case
  proof (cases send_ok)
    case False
    then show ?thesis using R by (intro queue_same [OF Deliver(6)]) (auto simp: deliver_message_def split: if_splits)
  next
    case True
    show ?thesis unfolding queue_inv_def
    proof
      fix t
      obtain q where r: "log_to t (forwarded st) = log_to t (delivered st) @ q" "\<forall>s. map_of (sessions st) t = Some s \<longrightarrow> \<not> s_leaving s \<longrightarrow> q = s_rx s"
        using queue_invD [OF Deliver(6), of t] by blast
      then show "\<exists>q. log_to t (forwarded (deliver_message now send_ok sid s ch fm rest st)) = log_to t (delivered (deliver_message now send_ok sid s ch fm rest st)) @ q \<and>
          (\<forall>s'. map_of (sessions (deliver_message now send_ok sid s ch fm rest st)) t = Some s' \<longrightarrow> \<not> s_leaving s' \<longrightarrow> q = s_rx s')"
        using R True Deliver(3) by (intro exI [of _ "if sid = t then rest else q"]) (auto simp: deliver_message_def)
    qed
  qed
next
  case (ReceiverClosed st sid s ch)
  then show ?case using runningD [OF ReceiverClosed(1)] by (intro queue_same [OF ReceiverClosed(7)]) (auto split: if_splits)
next
  case (Stop st sid s ch)
  then show ?case using runningD [OF Stop(1)] by (intro queue_same [OF Stop(5)]) (auto split: if_splits)
next
  case (Leave st sid s)
  have "forwarded (leave c i st) = forwarded st" "delivered (leave c i st) = delivered st" for c i by (auto simp: leave_def Let_def split: option.splits)
  then show ?case by (intro queue_same [OF Leave(5)]) (auto simp: end_session_def split: if_splits)
qed


subsection \<open>Bytes\<close>

definition on_object :: "ChannelRelay \<Rightarrow> nat \<Rightarrow> nat \<Rightarrow> bool" where
  "on_object st ob f \<longleftrightarrow> (\<exists>c i. map_of (joined st) f = Some (ob, c, i))"

definition forwarded_bytes :: "ChannelRelay \<Rightarrow> nat \<Rightarrow> nat" where
  "forwarded_bytes st ob = sum_list (map (\<lambda>(f, _, m). if on_object st ob f then msg_len m else 0) (forwarded st))"

definition pend :: "nat \<Rightarrow> Session \<Rightarrow> nat" where
  "pend ob s = (if s_channel s = ob then (case s_pending s of Some m \<Rightarrow> msg_len m | None \<Rightarrow> 0) else 0)"

definition pending_bytes :: "ChannelRelay \<Rightarrow> nat \<Rightarrow> nat" where
  "pending_bytes st ob = sum_list (map (\<lambda>(_, s). pend ob s) (sessions st))"

definition bytes_inv :: "ChannelRelay \<Rightarrow> bool" where
  "bytes_inv st \<longleftrightarrow>
     (\<forall>ob. forwarded_bytes st ob + pending_bytes st ob \<le> MAX_CHANNEL_BYTES \<and>
        (\<forall>ch. map_of (objects st) ob = Some ch \<longrightarrow> forwarded_bytes st ob + pending_bytes st ob \<le> ch_total ch))"

lemma bytes_invD:
  "bytes_inv st \<Longrightarrow> forwarded_bytes st ob + pending_bytes st ob \<le> MAX_CHANNEL_BYTES"
  "bytes_inv st \<Longrightarrow> map_of (objects st) ob = Some ch \<Longrightarrow> forwarded_bytes st ob + pending_bytes st ob \<le> ch_total ch"
  by (simp_all add: bytes_inv_def)

lemma forwarded_bytes_cong:
  assumes "forwarded st' = forwarded st" and "\<And>f t m. (f, t, m) \<in> set (forwarded st) \<Longrightarrow> on_object st' ob f = on_object st ob f"
  shows "forwarded_bytes st' ob = forwarded_bytes st ob"
  unfolding forwarded_bytes_def using assms by (intro arg_cong [where f = sum_list]) (auto intro!: map_cong)

lemma pending_bytes_set:
  assumes "ids_inv st" and "map_of (sessions st) sid = Some s"
  shows "pending_bytes (set_session sid s' st) ob + pend ob s = pending_bytes st ob + pend ob s'"
  using sum_by_update [OF ids_invD(1) [OF assms(1)], of "pend ob" sid s'] assms(2) by (simp add: pending_bytes_def)

text \<open>Nothing was forwarded from or is pending on an object that no session joined.\<close>

lemma fresh_object:
  assumes "ids_inv st" and "flow_inv st" and "\<And>sid c i. map_of (joined st) sid \<noteq> Some (ob, c, i)"
  shows "forwarded_bytes st ob = 0" and "pending_bytes st ob = 0"
proof -
  show "forwarded_bytes st ob = 0"
    unfolding forwarded_bytes_def on_object_def using assms(3) by (auto simp: sum_list_eq_0_iff)
  have "s_channel s \<noteq> ob" if "(sid, s) \<in> set (sessions st)" for sid s
    using ids_invD(5) [OF assms(1) hm_SomeI [OF ids_invD(1) [OF assms(1)] that]] assms(3) by auto
  then show "pending_bytes st ob = 0" unfolding pending_bytes_def pend_def by (auto simp: sum_list_eq_0_iff)
qed

lemma pend_None: "s_pending s = None \<Longrightarrow> pend ob s = 0"
  by (simp add: pend_def)

lemma pend_rx [simp]: "pend ob (s\<lparr>s_rx := x\<rparr>) = pend ob s"
  by (simp add: pend_def cong: if_cong)

lemma bytes_same:
  assumes inv: "bytes_inv st" and f: "\<And>ob. forwarded_bytes st' ob + pending_bytes st' ob \<le> forwarded_bytes st ob + pending_bytes st ob"
    and o: "\<And>ob ch'. map_of (objects st') ob = Some ch' \<Longrightarrow> (\<exists>ch. map_of (objects st) ob = Some ch \<and> ch_total ch \<le> ch_total ch') \<or>
      forwarded_bytes st' ob + pending_bytes st' ob = 0"
  shows "bytes_inv st'"
  unfolding bytes_inv_def
proof (intro allI conjI impI)
  fix ob
  show "forwarded_bytes st' ob + pending_bytes st' ob \<le> MAX_CHANNEL_BYTES" using bytes_invD(1) [OF inv, of ob] f [of ob] by simp
  fix ch' assume "map_of (objects st') ob = Some ch'"
  from o [OF this] show "forwarded_bytes st' ob + pending_bytes st' ob \<le> ch_total ch'"
    using bytes_invD(2) [OF inv, of ob] f [of ob] by fastforce
qed

lemma forwarded_bytes_frame:
  assumes "forwarded st' = forwarded st" and "joined st' = joined st"
  shows "forwarded_bytes st' ob = forwarded_bytes st ob"
  using assms by (simp add: forwarded_bytes_def on_object_def)

lemma sat_add64_ge: "k \<le> t \<Longrightarrow> k \<le> MAX_CHANNEL_BYTES \<Longrightarrow> k \<le> sat_add64 t n"
  by (simp add: sat_add64_def MAX_CHANNEL_BYTES_def)

lemma sat_add64_below: "\<not> sat_add64 t n > MAX_CHANNEL_BYTES \<Longrightarrow> sat_add64 t n = t + n"
  by (simp add: sat_add64_def MAX_CHANNEL_BYTES_def min_def split: if_splits)

lemma leaving_pending:
  assumes "ids_inv st" and "map_of (sessions st) sid = Some s" and "s_pending s' = None" "s_pending s = None" "s_channel s' = s_channel s"
  shows "pending_bytes (set_session sid s' st) ob = pending_bytes st ob"
  using pending_bytes_set [OF assms(1,2), of s' ob] assms(3-5) by (simp add: pend_None)

lemma bytes_leaving:
  assumes ids: "ids_inv st" and R: "map_of (sessions st) sid = Some s" "s_pending s = None" and inv: "bytes_inv st"
  shows "bytes_inv (set_session sid (s\<lparr>s_leaving := True\<rparr>) st)"
proof -
  have "forwarded_bytes (set_session sid (s\<lparr>s_leaving := True\<rparr>) st) ob = forwarded_bytes st ob" for ob
    by (rule forwarded_bytes_frame) simp_all
  moreover have "pending_bytes (set_session sid (s\<lparr>s_leaving := True\<rparr>) st) ob = pending_bytes st ob" for ob
    using R by (intro leaving_pending [OF ids]) auto
  ultimately show ?thesis by (intro bytes_same [OF inv]) auto
qed

lemma bytes_upload:
  assumes ids: "ids_inv st" and R: "map_of (sessions st) sid = Some s" "map_of (objects st) (s_channel s) = Some ch" "s_pending s = None"
    and inv: "bytes_inv st"
  shows "bytes_inv (client_message now sid s ch m st)"
proof -
  let ?ch = "(touch now ch)\<lparr>ch_total := sat_add64 (ch_total ch) (msg_len m)\<rparr>"
  let ?st = "update_channel (s_channel s) ?ch st"
  have pb: "pending_bytes (set_session sid s' ?st) ob = pending_bytes (set_session sid s' st) ob" for s' ob by (simp add: pending_bytes_def)
  have fb: "forwarded_bytes (set_session sid s' st') ob = forwarded_bytes st ob" if "st' = st \<or> st' = ?st" for s' st' ob
    using that by (intro forwarded_bytes_frame) auto
  have "bytes_inv (set_session sid (s\<lparr>s_leaving := True\<rparr>) st)" by (rule bytes_leaving [OF ids R(1,3) inv])
  moreover have "bytes_inv (set_session sid (s\<lparr>s_leaving := True\<rparr>) ?st)" unfolding bytes_inv_def
    using leaving_pending [OF ids R(1), of "s\<lparr>s_leaving := True\<rparr>"] R fb [of ?st] pb bytes_invD [OF inv] sat_add64_ge
    by (auto simp: touch_def split: if_splits)
  moreover have "bytes_inv (set_session sid (s\<lparr>s_pending := Some m\<rparr>) ?st)" if "\<not> sat_add64 (ch_total ch) (msg_len m) > MAX_CHANNEL_BYTES"
  proof -
    have p: "pending_bytes (set_session sid (s\<lparr>s_pending := Some m\<rparr>) st) ob = pending_bytes st ob + (if ob = s_channel s then msg_len m else 0)" for ob
      using pending_bytes_set [OF ids R(1), of "s\<lparr>s_pending := Some m\<rparr>" ob] R(3) by (auto simp: pend_def)
    show ?thesis unfolding bytes_inv_def
    proof (intro allI conjI impI)
      fix ob
      show "forwarded_bytes (set_session sid (s\<lparr>s_pending := Some m\<rparr>) ?st) ob + pending_bytes (set_session sid (s\<lparr>s_pending := Some m\<rparr>) ?st) ob \<le> MAX_CHANNEL_BYTES"
        using bytes_invD(1) [OF inv, of ob] bytes_invD(2) [OF inv R(2)] p [of ob] pb fb [of ?st] that sat_add64_below [OF that] by (auto split: if_splits)
      fix ch' assume "map_of (objects (set_session sid (s\<lparr>s_pending := Some m\<rparr>) ?st)) ob = Some ch'"
      then show "forwarded_bytes (set_session sid (s\<lparr>s_pending := Some m\<rparr>) ?st) ob + pending_bytes (set_session sid (s\<lparr>s_pending := Some m\<rparr>) ?st) ob \<le> ch_total ch'"
        using bytes_invD(2) [OF inv, of ob ch'] bytes_invD(2) [OF inv R(2)] p [of ob] pb fb [of ?st] sat_add64_below [OF that] by (auto split: if_splits)
    qed
  qed
  ultimately show ?thesis by (auto simp: client_message_def add_bytes_def Let_def touch_def)
qed

lemma bytes_forward:
  assumes ids: "ids_inv st" and R: "map_of (sessions st) sid = Some s" "s_pending s = Some m" and inv: "bytes_inv st"
  shows "bytes_inv (forward_message sid s ch m st)"
proof -
  define st1 where "st1 = set_session sid (s\<lparr>s_pending := None\<rparr>) st"
  have ids1: "ids_inv st1" unfolding st1_def using R by (intro ids_set_session [OF ids]) auto
  have J: "on_object st ob sid \<longleftrightarrow> ob = s_channel s" for ob using ids_invD(5) [OF ids R(1)] by (auto simp: on_object_def)
  have p1: "pending_bytes st1 ob + (if ob = s_channel s then msg_len m else 0) = pending_bytes st ob" for ob
    using pending_bytes_set [OF ids R(1), of "s\<lparr>s_pending := None\<rparr>" ob] R(2) by (auto simp: pend_def st1_def)
  have f1: "forwarded_bytes st1 ob = forwarded_bytes st ob" for ob by (rule forwarded_bytes_frame) (simp_all add: st1_def)
  have "bytes_inv st1" using p1 f1 by (intro bytes_same [OF inv]) (auto simp: st1_def, metis le_add1)
  moreover have "bytes_inv ((set_session peer (p\<lparr>s_rx := s_rx p @ [(sid, m)]\<rparr>) st1)\<lparr>forwarded := forwarded st1 @ [(sid, peer, m)]\<rparr>)" (is "bytes_inv ?st2")
    if p: "map_of (sessions st1) peer = Some p" for peer p
  proof -
    have "pending_bytes ?st2 ob = pending_bytes st1 ob" for ob
      using pending_bytes_set [OF ids1 p, of "p\<lparr>s_rx := s_rx p @ [(sid, m)]\<rparr>" ob] by (simp add: pending_bytes_def)
    moreover have "forwarded_bytes ?st2 ob = forwarded_bytes st ob + (if ob = s_channel s then msg_len m else 0)" for ob
    proof -
      have "on_object ?st2 ob f = on_object st ob f" for f by (simp add: on_object_def st1_def)
      then show ?thesis using J by (simp add: forwarded_bytes_def st1_def)
    qed
    ultimately have "forwarded_bytes ?st2 ob + pending_bytes ?st2 ob = forwarded_bytes st ob + pending_bytes st ob" for ob using p1 [of ob] by simp
    then show ?thesis by (intro bytes_same [OF inv]) (auto simp: st1_def)
  qed
  ultimately show ?thesis using forward_cases [where Q = bytes_inv, OF _ _ st1_def] by blast
qed


lemma bytes_join:
  assumes ids: "ids_inv st" and fl: "flow_inv st" and j: "join now c st = (r, st')" and inv: "bytes_inv st"
  shows "bytes_inv st'"
proof -
  obtain ob ch st1 where e: "channel_entry now c st = (ob, ch, st1)" by (metis prod_cases3)
  note E = ids_entry [OF ids e]
  have same: "forwarded_bytes st1 x = forwarded_bytes st x" "pending_bytes st1 x = pending_bytes st x" for x
    using E(4) forwarded_bytes_frame [OF E(6,5)] by (simp_all add: pending_bytes_def)
  have b1: "bytes_inv st1"
  proof (cases "map_of (registry st) c")
    case None
    then have n: "ob = next_id st" "objects st1 = AList.update ob ch (objects st)" using e by (auto simp: channel_entry_def Let_def)
    have "map_of (joined st) sid \<noteq> Some (ob, d, i)" for sid d i using ids_invD(4) [OF ids, of sid ob d i] n(1) by auto
    from fresh_object [OF ids fl this] show ?thesis using same n(2) by (intro bytes_same [OF inv]) (auto split: if_splits)
  next
    case (Some x)
    then have "st1 = st" using e by (auto simp: channel_entry_def)
    then show ?thesis using inv by simp
  qed
  from ids j show ?thesis
  proof (cases rule: join_cases)
    case (full ob ch)
    then show ?thesis using b1 e by simp
  next
    case (joins ob' ch' st2 slot sid)
    then have eq: "st2 = st1" "ob' = ob" "ch' = ch" using e by auto
    have fresh: "map_of (joined st1) sid = None"
      using ids_invD(4) [OF E(1), of sid] joins(4) eq by (cases "map_of (joined st1) sid") auto
    then have s0: "map_of (sessions st1) sid = None" using ids_invD(5) [OF E(1), of sid] by (cases "map_of (sessions st1) sid") auto
    have "f \<noteq> sid" if "(f, t, m) \<in> set (forwarded st1)" for f t m
      using that fl E(5,6) fresh by (fastforce simp: flow_inv_def flow_ok_def)
    then have "forwarded_bytes st' x = forwarded_bytes st1 x" for x
      using joins(6) eq by (intro forwarded_bytes_cong) (auto simp: on_object_def)
    moreover have "pending_bytes st' x = pending_bytes st1 x" for x
      using sum_by_update [OF ids_invD(1) [OF E(1)], of "pend x" sid] s0 joins(6) eq by (simp add: pending_bytes_def pend_None)
    ultimately show ?thesis using joins(6) eq E(2) by (intro bytes_same [OF b1]) (auto simp: touch_def split: if_splits)
  qed
qed

lemma leave_frame:
  "forwarded (leave c i st) = forwarded st" "delivered (leave c i st) = delivered st" "joined (leave c i st) = joined st" "sessions (leave c i st) = sessions st"
  "map_of (objects (leave c i st)) ob = Some ch' \<Longrightarrow> \<exists>ch. map_of (objects st) ob = Some ch \<and> ch_total ch = ch_total ch'"
  by (auto simp: leave_def Let_def split: option.splits if_splits)

lemma bytes_step: "channel_step st st' \<Longrightarrow> ids_inv st \<Longrightarrow> flow_inv st \<Longrightarrow> bytes_inv st \<Longrightarrow> bytes_inv st'"
proof (induction rule: channel_step.induct)
  case (Join st now c)
  then show ?case using bytes_join by (metis prod.collapse)
next
  case (Sweep st now)
  then show ?case by (simp add: sweep_expired_def bytes_inv_def forwarded_bytes_def on_object_def pending_bytes_def)
next
  case (Upload st sid s ch now m)
  then show ?case using runningD [OF Upload(1)] by (intro bytes_upload) auto
next
  case (Forward st sid s ch m)
  then show ?case using runningD [OF Forward(1)] by (intro bytes_forward) auto
next
  case (Deliver st sid s ch fm rest now send_ok)
  note R = runningD [OF Deliver(1)]
  let ?st = "deliver_message now send_ok sid s ch fm rest st"
  have "forwarded_bytes ?st ob = forwarded_bytes st ob" for ob by (rule forwarded_bytes_frame) (simp_all add: deliver_message_def)
  moreover have "pending_bytes ?st ob = pending_bytes st ob" for ob
    using leaving_pending [OF Deliver(4), of sid s "s\<lparr>s_rx := rest\<rparr>" ob] leaving_pending [OF Deliver(4), of sid s "s\<lparr>s_rx := rest, s_leaving := True\<rparr>" ob]
      R Deliver(2) by (auto simp: deliver_message_def pending_bytes_def)
  ultimately show ?case using R by (intro bytes_same [OF Deliver(6)]) (auto simp: deliver_message_def touch_def split: if_splits)
next
  case (ReceiverClosed st sid s ch)
  then show ?case using runningD [OF ReceiverClosed(1)] by (intro bytes_leaving) auto
next
  case (Stop st sid s ch)
  then show ?case using runningD [OF Stop(1)] by (intro bytes_leaving) auto
next
  case (Leave st sid s)
  have "forwarded_bytes (end_session sid s st) ob = forwarded_bytes st ob" for ob
    by (rule forwarded_bytes_frame) (simp_all add: end_session_def leave_frame)
  moreover have "pending_bytes (end_session sid s st) ob \<le> pending_bytes st ob" for ob
    using sum_by_delete [OF ids_invD(1) [OF Leave(3)], of "pend ob" sid] by (simp add: pending_bytes_def end_session_def)
  ultimately show ?case by (intro bytes_same [OF Leave(5)]) (auto simp: end_session_def dest!: leave_frame(5))
qed

subsection \<open>Properties\<close>

inductive reachable :: "ChannelRelay \<Rightarrow> bool" where
  start: "reachable ChannelRegistry_new"
| step: "reachable st \<Longrightarrow> channel_step st st' \<Longrightarrow> reachable st'"

lemma reachable_inv: "reachable st \<Longrightarrow> ids_inv st \<and> flow_inv st \<and> queue_inv st \<and> bytes_inv st"
proof (induction rule: reachable.induct)
  case start
  show ?case by (auto simp: ChannelRegistry_new_def flow_inv_def pending_ok_def queue_inv_def bytes_inv_def forwarded_bytes_def pending_bytes_def
      intro!: ids_invI)
next
  case (step st st')
  then show ?case using ids_step flow_step queue_step bytes_step by blast
qed

text \<open>
  C22. The enrollment relay keeps channels apart and small: in every reachable state, under every
  interleaving of joins, sweeps and the steps of all sessions, each session has received a prefix
  of what was forwarded to it, in order and without loss or duplication; every forwarded message
  is at most 1 KB and went from one slot of a channel to the other slot of the same channel, whose
  clients both joined with the same channel id; and at most 8 KB were ever forwarded in a channel.
\<close>
theorem channel_isolation:
  assumes "reachable st"
  shows "(\<forall>t. \<exists>rest. log_to t (forwarded st) = log_to t (delivered st) @ rest) \<and>
    (\<forall>f t m. (f, t, m) \<in> set (forwarded st) \<longrightarrow> msg_len m \<le> 1024 \<and>
       (\<exists>ob c i. i < 2 \<and> map_of (joined st) f = Some (ob, c, i) \<and> map_of (joined st) t = Some (ob, c, 1 - i))) \<and>
    (\<forall>ob. forwarded_bytes st ob \<le> 8 * 1024)"
proof -
  note inv = reachable_inv [OF assms]
  have "forwarded_bytes st ob \<le> 8 * 1024" for ob
    using bytes_invD(1) [of st ob] inv by (simp add: MAX_CHANNEL_BYTES_def)
  moreover have "\<exists>rest. log_to t (forwarded st) = log_to t (delivered st) @ rest" for t using queue_invD [of st t] inv by blast
  moreover have "flow_ok st e" if "e \<in> set (forwarded st)" for e using inv that by (simp add: flow_inv_def)
  ultimately show ?thesis by (fastforce simp: flow_ok_def MAX_MESSAGE_BYTES_def)
qed

lemma stepE: "reachable st \<Longrightarrow> channel_step st st1 \<Longrightarrow> st1 = st2 \<Longrightarrow> reachable st2"
  using reachable.step by simp

definition client :: "nat \<Rightarrow> nat \<Rightarrow> bytes \<Rightarrow> Session" where
  "client ob slot c = \<lparr>s_channel = ob, s_channel_id = c, s_slot = slot, s_rx = [], s_pending = None, s_leaving = False\<rparr>"

lemmas channel_eval = join_def channel_entry_def Channel_new_def channel_first_empty_slot_def touch_def ChannelRegistry_new_def Let_def client_def
  get_or_def sweep_expired_def hm_retain_def is_idle_expired_def duration_since_def CHANNEL_IDLE_TTL_def from_secs_def set_session_def
  update_channel_def client_message_def add_bytes_def sat_add64_def MAX_MESSAGE_BYTES_def MAX_CHANNEL_BYTES_def forward_message_def peer_sender_def

text \<open>Two clients in channel 7; the first has sent a message.\<close>

definition paired :: ChannelRelay where
  "paired = \<lparr>objects = [(0, \<lparr>senders = [Some 1, Some 2], last_activity = 5, ch_total = 1\<rparr>)], registry = [([7], 0)],
     sessions = [(1, client 0 0 [7]), (2, client 0 1 [7])], next_id = 3, joined = [(1, 0, [7], 0), (2, 0, [7], 1)],
     forwarded = [], delivered = []\<rparr>"

lemma reachable_sent:
  "reachable (paired\<lparr>sessions := [(1, client 0 0 [7]), (2, (client 0 1 [7])\<lparr>s_rx := [(1, Binary [9])]\<rparr>)], forwarded := [(1, 2, Binary [9])]\<rparr>)"
proof -
  have "reachable (paired\<lparr>objects := [(0, \<lparr>senders = [Some 1, None], last_activity = 0, ch_total = 0\<rparr>)],
      sessions := [(1, client 0 0 [7])], next_id := 2, joined := [(1, 0, [7], 0)]\<rparr>)"
    by (rule stepE [OF reachable.start channel_step.Join [of _ 0 "[7]"]]) (simp add: channel_eval paired_def)
  then have "reachable (paired\<lparr>objects := [(0, \<lparr>senders = [Some 1, Some 2], last_activity = 0, ch_total = 0\<rparr>)]\<rparr>)"
    by (rule stepE [OF _ channel_step.Join [of _ 0 "[7]"]]) (simp add: channel_eval paired_def)
  then have "reachable (paired\<lparr>sessions := [(1, (client 0 0 [7])\<lparr>s_pending := Some (Binary [9])\<rparr>), (2, client 0 1 [7])]\<rparr>)"
    by (rule stepE [OF _ channel_step.Upload [of _ 1 "client 0 0 [7]" "\<lparr>senders = [Some 1, Some 2], last_activity = 0, ch_total = 0\<rparr>" 5 "Binary [9]"]])
      (simp_all add: channel_eval paired_def running_def)
  then show ?thesis
    by (rule stepE [OF _ channel_step.Forward [of _ 1 "(client 0 0 [7])\<lparr>s_pending := Some (Binary [9])\<rparr>"
          "\<lparr>senders = [Some 1, Some 2], last_activity = 5, ch_total = 1\<rparr>" "Binary [9]"]])
      (simp_all add: channel_eval paired_def running_def)
qed

theorem channel_isolation_witness:
  "\<exists>st. reachable st \<and> (1, 2, Binary [9]) \<in> set (forwarded st) \<and> forwarded_bytes st 0 \<le> 8192"
  using channel_isolation [OF reachable_sent] reachable_sent by fastforce

text \<open>
  C31. A stale leave evicts a stranger: a session leaves by channel id and slot, not by the channel it
  joined.  If the sweep has dropped that channel meanwhile (a client that only answers pings stays
  connected without counting as activity) and another client has since opened a channel of the same
  id and got the same slot, the leave closes the receiver of that other client, whose session then
  ends although nobody asked it to; if it was alone, its channel disappears from the registry, so its
  peer can no longer find it.
\<close>
theorem stale_leave_evicts:
  assumes "reachable st" and a: "map_of (sessions st) a = Some s" "s_leaving s"
    and reg: "map_of (registry st) (s_channel_id s) = Some ob" "ob \<noteq> s_channel s"
    and b: "running st b sb ch" "s_channel sb = ob" "s_slot sb = s_slot s" "s_pending sb = None" "s_rx sb = []"
    and sender: "senders ch ! s_slot s = Some b"
  shows "\<exists>ch'. running (end_session a s st) b sb ch' \<and> senders ch' ! s_slot sb = None \<and>
      channel_step (end_session a s st) (set_session b (sb\<lparr>s_leaving := True\<rparr>) (end_session a s st)) \<and>
      (active_slots ch = 1 \<longrightarrow> map_of (registry (end_session a s st)) (s_channel_id s) = None)"
proof -
  note ids = conjunct1 [OF reachable_inv [OF assms(1)]] and R = runningD [OF b(1)]
  let ?ch = "ch\<lparr>senders := (senders ch)[s_slot s := None]\<rparr>"
  have slot: "s_slot s < 2" using ids_invD(4) [OF ids ids_invD(5) [OF ids a(1)]] by simp
  have len: "length (senders ch) = 2" using ids_invD(3) [OF ids] R by blast
  have "a \<noteq> b" using a R by auto
  then have run: "running (end_session a s st) b sb ?ch" using R b(2) reg(1)
    by (auto simp: running_def end_session_def leave_def Let_def)
  moreover have none: "senders ?ch ! s_slot sb = None" using b(3) slot len by simp
  moreover have "channel_step (end_session a s st) (set_session b (sb\<lparr>s_leaving := True\<rparr>) (end_session a s st))"
    by (rule channel_step.ReceiverClosed [OF run b(4,5)]) (use none in simp)
  moreover have "active_slots ?ch = 0" if "active_slots ch = 1"
  proof -
    obtain x y where xy: "senders ch = [x, y]" using len by (cases "senders ch"; cases "tl (senders ch)") auto
    then show ?thesis using that sender slot by (auto simp: active_slots_def less_2_cases_iff split: if_splits)
  qed
  ultimately show ?thesis using R b(2) reg(1)
    by (intro exI [of _ ?ch]) (auto simp: end_session_def leave_def Let_def)
qed

text \<open>The first client is idle for 181 seconds, the channel is swept, a second client opens it again, the first one stops.\<close>

definition reopened :: ChannelRelay where
  "reopened = \<lparr>objects = [(0, \<lparr>senders = [Some 1, None], last_activity = 0, ch_total = 0\<rparr>),
       (2, \<lparr>senders = [Some 3, None], last_activity = from_secs 200, ch_total = 0\<rparr>)], registry = [([7], 2)],
     sessions = [(1, (client 0 0 [7])\<lparr>s_leaving := True\<rparr>), (3, client 2 0 [7])], next_id = 4, joined = [(1, 0, [7], 0), (3, 2, [7], 0)],
     forwarded = [], delivered = []\<rparr>"

lemma reachable_reopened: "reachable reopened"
proof -
  have "reachable (reopened\<lparr>objects := [(0, \<lparr>senders = [Some 1, None], last_activity = 0, ch_total = 0\<rparr>)], registry := [([7], 0)],
      sessions := [(1, client 0 0 [7])], next_id := 2, joined := [(1, 0, [7], 0)]\<rparr>)"
    by (rule stepE [OF reachable.start channel_step.Join [of _ 0 "[7]"]]) (simp add: channel_eval reopened_def)
  then have "reachable (reopened\<lparr>objects := [(0, \<lparr>senders = [Some 1, None], last_activity = 0, ch_total = 0\<rparr>)], registry := [],
      sessions := [(1, client 0 0 [7])], next_id := 2, joined := [(1, 0, [7], 0)]\<rparr>)"
    by (rule stepE [OF _ channel_step.Sweep [of _ "from_secs 181"]]) (simp add: channel_eval reopened_def)
  then have "reachable (reopened\<lparr>sessions := [(1, client 0 0 [7]), (3, client 2 0 [7])]\<rparr>)"
    by (rule stepE [OF _ channel_step.Join [of _ "from_secs 200" "[7]"]]) (simp add: channel_eval reopened_def)
  then show ?thesis
    by (rule stepE [OF _ channel_step.Stop [of _ 1 "client 0 0 [7]" "\<lparr>senders = [Some 1, None], last_activity = 0, ch_total = 0\<rparr>"]])
      (simp_all add: channel_eval reopened_def running_def)
qed

theorem stale_leave_evicts_witness:
  "reachable reopened \<and> map_of (registry reopened) [7] = Some 2 \<and>
   map_of (registry (end_session 1 ((client 0 0 [7])\<lparr>s_leaving := True\<rparr>) reopened)) [7] = None"
proof -
  let ?s = "(client 0 0 [7])\<lparr>s_leaving := True\<rparr>" and ?ch = "\<lparr>senders = [Some 3, None], last_activity = from_secs 200, ch_total = 0\<rparr>"
  have "running reopened 3 (client 2 0 [7]) ?ch" "active_slots ?ch = 1"
    by (simp_all add: running_def reopened_def client_def active_slots_def)
  then show ?thesis
    using stale_leave_evicts [OF reachable_reopened, of 1 ?s 2 3 "client 2 0 [7]" ?ch] reachable_reopened
    by (auto simp: reopened_def client_def)
qed

end
