(* ===== verification/Relay_Ws.thy ===== *)
theory Relay_Ws
  imports Relay_Auth
begin

text \<open>
  Admission of WebSockets (\<open>byo-relay/src/relay_ws.rs\<close>): the origin check, the cookie of the category
  and its purpose, single use, the port and host allow-lists, the failure block, the connection slot
  and the address filter, in the order of the code, up to the upgrade.

  \<open>str::to_lowercase\<close> lowers by the Unicode tables; the function is an argument \<open>lower\<close> of the
  definitions that use it, and nothing is assumed of it.  Base64 decoding and the resolver are
  arguments as well.  What the session does after the upgrade is in \<open>Enroll_Channel\<close> (enrollment) or
  not modelled (SFTP).
\<close>

declare map_of_eq_Some_iff [simp del] Some_eq_map_of_iff [simp del]

subsection \<open>Allow-lists\<close>

definition derive_sftp_purpose :: "prims \<Rightarrow> (string \<Rightarrow> string) \<Rightarrow> string \<Rightarrow> nat \<Rightarrow> string" where
  "derive_sftp_purpose P lower host port =
     (let input = lower host @ '':'' @ show_nat port in
      ''sftp:'' @ hex_encode (take 16 (sha256_raw P (as_bytes input))))"

definition is_port_allowed :: "nat \<Rightarrow> nat list \<Rightarrow> bool" where
  "is_port_allowed port allowed_ports \<longleftrightarrow> port \<in> set allowed_ports"

definition strip_suffix :: "string \<Rightarrow> string \<Rightarrow> string option" where
  "strip_suffix suf s =
     (if length suf \<le> length s \<and> drop (length s - length suf) s = suf then Some (take (length s - length suf) s) else None)"

fun host_matches :: "string \<Rightarrow> string list \<Rightarrow> bool" where
  "host_matches host_lower [] = False"
| "host_matches host_lower (pattern # ps) =
     (case strip_prefix ''*.'' pattern of
        Some suffix \<Rightarrow>
          (case strip_suffix suffix host_lower of
             Some rest \<Rightarrow>
               (case strip_suffix ''.'' rest of
                  Some label \<Rightarrow> if label \<noteq> [] \<and> CHR ''.'' \<notin> set label then True else host_matches host_lower ps
                | None \<Rightarrow> host_matches host_lower ps)
           | None \<Rightarrow> host_matches host_lower ps)
      | None \<Rightarrow> if pattern = host_lower then True else host_matches host_lower ps)"

definition is_host_allowed :: "(string \<Rightarrow> string) \<Rightarrow> string \<Rightarrow> string list \<Rightarrow> bool" where
  "is_host_allowed lower host allowlist = (if allowlist = [] then True else host_matches (lower host) allowlist)"

subsection \<open>Origin\<close>

definition is_loopback_origin :: "string \<Rightarrow> bool" where
  "is_loopback_origin origin =
     (let origin_lower = to_ascii_lowercase origin in
      case (case strip_prefix ''https://'' origin_lower of Some h \<Rightarrow> Some h | None \<Rightarrow> strip_prefix ''http://'' origin_lower) of
        None \<Rightarrow> False
      | Some hostport \<Rightarrow>
          if list_ex (\<lambda>c. c \<in> set [CHR ''/'', CHR ''?'', CHR ''#'', CHR ''@'', CHR 0x5C]) hostport then False
          else
            (case strip_prefix ''['' hostport of
               Some rest \<Rightarrow>
                 if CHR '']'' \<notin> set rest then False
                 else
                   let host = takeWhile (\<lambda>c. c \<noteq> CHR '']'') rest;
                       remainder = drop (length host + 1) rest in
                   if remainder \<noteq> [] \<and> hd remainder \<noteq> CHR '':'' then False
                   else host = ''localhost'' \<or> host = ''127.0.0.1'' \<or> host = ''::1''
             | None \<Rightarrow>
                 let host = takeWhile (\<lambda>c. c \<noteq> CHR '':'') hostport in
                 host = ''localhost'' \<or> host = ''127.0.0.1'' \<or> host = ''::1''))"

text \<open>The header: \<open>None\<close> when absent, \<open>Some None\<close> when it is not visible ASCII.\<close>

definition is_origin_allowed :: "string option option \<Rightarrow> string \<Rightarrow> bool" where
  "is_origin_allowed origin_header configured_domain =
     (case origin_header of
        None \<Rightarrow> configured_domain = ''localhost''
      | Some None \<Rightarrow> False
      | Some (Some origin) \<Rightarrow>
          if configured_domain = ''localhost'' then is_loopback_origin origin
          else to_ascii_lowercase (''https://'' @ configured_domain) = to_ascii_lowercase origin)"

subsection \<open>The upgrade handler\<close>

record RelayQuery =
  q_mode :: "string option"
  q_channel :: "string option"
  q_host :: "string option"
  q_port :: "nat option"

record WsConfig = AuthConfig +
  domain :: string
  sftp_allowed_ports :: "nat list"
  sftp_host_allowlist :: "string list"

record WsState = AuthState +
  join_limiter :: SlidingWindowLimiter
  sftp_tracker :: SftpConnectionTracker
  sftp_auth_tracker :: SftpAuthFailureTracker

record WsRequest =
  ws_peer :: IpAddr
  ws_xff :: "string option"
  ws_origin :: "string option option"
  ws_cookies :: "(string, string) hmap"
  ws_query :: RelayQuery
  ws_now :: int
  ws_now2 :: int
  ws_inst :: instant

text \<open>An upgrade carries what the session gets; an SFTP session holds the connection guard.\<close>

datatype WsResult =
    WsStatus nat
  | SftpUpgrade "IpAddr list" nat IpAddr string IpBucket
  | EnrollmentUpgrade bytes IpAddr

definition sftp_upgrade :: "prims \<Rightarrow> (string \<Rightarrow> string) \<Rightarrow> (string \<Rightarrow> string + IpAddr list) \<Rightarrow> WsConfig \<Rightarrow> WsRequest \<Rightarrow> RelayClaims \<Rightarrow> IpAddr \<Rightarrow>
    WsState \<Rightarrow> WsResult \<times> WsState" where
  "sftp_upgrade P lower lookup_ip cfg req claims client_ip st =
     (case q_host (ws_query req) of
        None \<Rightarrow> (WsStatus 400, st)
      | Some host \<Rightarrow>
     (case q_port (ws_query req) of
        None \<Rightarrow> (WsStatus 400, st)
      | Some port \<Rightarrow>
     if port = 0 then (WsStatus 400, st)
     else if \<not> is_port_allowed port (sftp_allowed_ports cfg) then (WsStatus 403, st)
     else if \<not> is_host_allowed lower host (sftp_host_allowlist cfg) then (WsStatus 403, st)
     else if claim_purpose claims \<noteq> derive_sftp_purpose P lower host port then (WsStatus 403, st)
     else
       (case JtiConsumedSet_try_consume (ws_now2 req) (claim_jti claims) (claim_exp claims) (jti_consumed st) of
          (False, j) \<Rightarrow> (WsStatus 403, st\<lparr>jti_consumed := j\<rparr>)
        | (True, j) \<Rightarrow>
            let st = st\<lparr>jti_consumed := j\<rparr> in
            if is_blocked (ws_inst req) client_ip (sftp_auth_tracker st) then (WsStatus 429, st)
            else
              (case SftpConnectionTracker_try_acquire client_ip (sftp_tracker st) of
                 (None, t) \<Rightarrow> (WsStatus 429, st\<lparr>sftp_tracker := t\<rparr>)
               | (Some guard, t) \<Rightarrow>
                   (case resolve_and_validate lookup_ip host of
                      Inl _ \<Rightarrow> (WsStatus 403, st\<lparr>sftp_tracker := SftpConnectionGuard_drop guard t\<rparr>)
                    | Inr addrs \<Rightarrow> (SftpUpgrade addrs port client_ip host guard, st\<lparr>sftp_tracker := t\<rparr>))))))"

definition enrollment_upgrade :: "(string \<Rightarrow> bytes option) \<Rightarrow> WsRequest \<Rightarrow> RelayClaims \<Rightarrow> IpAddr \<Rightarrow> WsState \<Rightarrow> WsResult \<times> WsState" where
  "enrollment_upgrade url_decode req claims client_ip st =
     (case q_channel (ws_query req) of
        None \<Rightarrow> (WsStatus 400, st)
      | Some channel_b64 \<Rightarrow>
     (case url_decode channel_b64 of
        None \<Rightarrow> (WsStatus 400, st)
      | Some channel_id \<Rightarrow>
     if length channel_id \<noteq> 16 then (WsStatus 400, st)
     else if claim_purpose claims \<noteq> derive_enrollment_purpose channel_b64 then (WsStatus 403, st)
     else
       (case JtiConsumedSet_try_consume (ws_now2 req) (claim_jti claims) (claim_exp claims) (jti_consumed st) of
          (False, j) \<Rightarrow> (WsStatus 403, st\<lparr>jti_consumed := j\<rparr>)
        | (True, j) \<Rightarrow>
            let st = st\<lparr>jti_consumed := j\<rparr> in
            (case SlidingWindowLimiter_check_and_record (ws_inst req) client_ip (join_limiter st) of
               (False, l) \<Rightarrow> (WsStatus 429, st\<lparr>join_limiter := l\<rparr>)
             | (True, l) \<Rightarrow> (EnrollmentUpgrade channel_id client_ip, st\<lparr>join_limiter := l\<rparr>)))))"

definition ws_handler :: "prims \<Rightarrow> jwt \<Rightarrow> (string \<Rightarrow> string) \<Rightarrow> (string \<Rightarrow> bytes option) \<Rightarrow> (string \<Rightarrow> string + IpAddr list) \<Rightarrow> WsConfig \<Rightarrow> WsRequest \<Rightarrow>
    WsState \<Rightarrow> WsResult \<times> WsState" where
  "ws_handler P J lower url_decode lookup_ip cfg req st =
     (if \<not> is_origin_allowed (ws_origin req) (domain cfg) then (WsStatus 403, st)
      else
        let mode = (case q_mode (ws_query req) of Some m \<Rightarrow> m | None \<Rightarrow> ''enrollment'');
            cookie_name = (if mode = ''sftp'' then RELAY_COOKIE_NAME_SFTP else RELAY_COOKIE_NAME_ENROLL) in
        (case verify_relay_cookie J (ws_now req) (ws_cookies req) cookie_name (relay_signing_key cfg) of
           Inl _ \<Rightarrow> (WsStatus 401, st)
         | Inr claims \<Rightarrow>
             let client_ip = extract_client_ip (ws_peer req) (ws_xff req) (trusted_proxies cfg) in
             if mode = ''sftp'' then sftp_upgrade P lower lookup_ip cfg req claims client_ip st
             else enrollment_upgrade url_decode req claims client_ip st))"

subsection \<open>What the checks accept\<close>

lemma strip_prefix_Some: "strip_prefix p s = Some t \<longleftrightarrow> s = p @ t"
  by (auto simp: strip_prefix_def) (metis append_take_drop_id)

lemma strip_suffix_Some: "strip_suffix p s = Some t \<longleftrightarrow> s = t @ p"
  by (auto simp: strip_suffix_def) (metis append_take_drop_id)

text \<open>A pattern is an exact name, or \<open>*.suffix\<close> for names with exactly one more label.\<close>

definition pattern_covers :: "string \<Rightarrow> string \<Rightarrow> bool" where
  "pattern_covers pattern h \<longleftrightarrow>
     (if \<exists>suffix. pattern = ''*.'' @ suffix
      then (\<exists>suffix label. pattern = ''*.'' @ suffix \<and> h = label @ ''.'' @ suffix \<and> label \<noteq> [] \<and> CHR ''.'' \<notin> set label)
      else pattern = h)"

lemma pattern_covers_strip:
  "pattern_covers pattern h \<longleftrightarrow>
     (case strip_prefix ''*.'' pattern of
        Some suffix \<Rightarrow> (case strip_suffix suffix h of
           Some rest \<Rightarrow> (case strip_suffix ''.'' rest of Some label \<Rightarrow> label \<noteq> [] \<and> CHR ''.'' \<notin> set label | None \<Rightarrow> False)
         | None \<Rightarrow> False)
      | None \<Rightarrow> pattern = h)"
proof (cases "strip_prefix ''*.'' pattern")
  case None
  then have "\<nexists>suffix. pattern = ''*.'' @ suffix" using strip_prefix_Some [of "''*.''" pattern] by fastforce
  then show ?thesis using None by (simp add: pattern_covers_def)
next
  case (Some suffix)
  then have p: "pattern = ''*.'' @ suffix" by (simp add: strip_prefix_Some)
  have "pattern_covers pattern h \<longleftrightarrow> (\<exists>label. h = label @ ''.'' @ suffix \<and> label \<noteq> [] \<and> CHR ''.'' \<notin> set label)"
    by (auto simp: pattern_covers_def p)
  also have "\<dots> \<longleftrightarrow> (\<exists>label. strip_suffix suffix h = Some (label @ ''.'') \<and> label \<noteq> [] \<and> CHR ''.'' \<notin> set label)"
    by (simp add: strip_suffix_Some)
  also have "\<dots> \<longleftrightarrow> (\<exists>rest label. strip_suffix suffix h = Some rest \<and> strip_suffix ''.'' rest = Some label \<and> label \<noteq> [] \<and> CHR ''.'' \<notin> set label)"
    by (auto simp: strip_suffix_Some)
  finally show ?thesis using Some by (auto split: option.splits)
qed

lemma host_matches_Cons: "host_matches h (p # ps) \<longleftrightarrow> pattern_covers p h \<or> host_matches h ps"
proof (cases "strip_prefix ''*.'' p")
  case (Some suffix)
  show ?thesis
  proof (cases "strip_suffix suffix h")
    case s: (Some rest)
    show ?thesis using Some s by (cases "strip_suffix ''.'' rest") (simp_all add: pattern_covers_strip)
  qed (use Some in \<open>simp add: pattern_covers_strip\<close>)
qed (simp add: pattern_covers_strip)

lemma host_matches_iff: "host_matches h ps \<longleftrightarrow> (\<exists>p\<in>set ps. pattern_covers p h)"
  by (induction ps) (simp_all add: host_matches_Cons del: host_matches.simps(2))

lemma is_host_allowed_iff: "is_host_allowed lower host ps \<longleftrightarrow> ps = [] \<or> (\<exists>p\<in>set ps. pattern_covers p (lower host))"
  by (simp add: is_host_allowed_def host_matches_iff)

definition slots :: "WsState \<Rightarrow> IpBucket \<Rightarrow> nat" where
  "slots st b = get_or 0 (sc_state (sftp_tracker st)) b"

lemma acquire_drop:
  assumes "SftpConnectionTracker_try_acquire ip t = (Some g, t')"
  shows "get_or 0 (sc_state (SftpConnectionGuard_drop g t')) b = get_or 0 (sc_state t) b"
  using assms by (auto simp: SftpConnectionTracker_try_acquire_def SftpConnectionGuard_drop_def Let_def get_or_def split: if_splits option.splits)

lemma resolve_public: "resolve_and_validate lookup_ip host = Inr addrs \<Longrightarrow> a \<in> set addrs \<Longrightarrow> \<not> is_ip_blocked a"
  by (cases "lookup_ip host")
    (auto simp: resolve_and_validate_def find_None_iff split: if_splits option.splits)

lemma sftp_upgrade_sound:
  assumes "sftp_upgrade P lower lookup_ip cfg req claims ip st = (SftpUpgrade addrs port ip' host g, st')"
  shows "q_host (ws_query req) = Some host \<and> q_port (ws_query req) = Some port \<and> ip' = ip \<and> 0 < port \<and> port \<in> set (sftp_allowed_ports cfg) \<and>
    is_host_allowed lower host (sftp_host_allowlist cfg) \<and> claim_purpose claims = derive_sftp_purpose P lower host port \<and>
    fst (JtiConsumedSet_try_consume (ws_now2 req) (claim_jti claims) (claim_exp claims) (jti_consumed st)) \<and>
    \<not> is_blocked (ws_inst req) ip (sftp_auth_tracker st) \<and> slots st (IpBucket_from ip) < max_per_ip (sftp_tracker st) \<and>
    slots st' b = slots st b + (if b = IpBucket_from ip then 1 else 0) \<and> g = IpBucket_from ip \<and> resolve_and_validate lookup_ip host = Inr addrs"
  using assms
  by (auto simp: sftp_upgrade_def is_port_allowed_def slots_def Let_def SftpConnectionTracker_try_acquire_def split: option.splits if_splits prod.splits bool.splits sum.splits)

lemma enrollment_upgrade_sound:
  assumes "enrollment_upgrade url_decode req claims ip st = (EnrollmentUpgrade c ip', st')"
  shows "\<exists>b64. q_channel (ws_query req) = Some b64 \<and> url_decode b64 = Some c \<and> length c = 16 \<and> ip' = ip \<and>
    claim_purpose claims = derive_enrollment_purpose b64 \<and>
    fst (JtiConsumedSet_try_consume (ws_now2 req) (claim_jti claims) (claim_exp claims) (jti_consumed st))"
  using assms by (auto simp: enrollment_upgrade_def Let_def split: option.splits if_splits prod.splits bool.splits)

lemma refused_slots:
  "sftp_upgrade P lower lookup_ip cfg req claims ip st = (WsStatus n, st') \<Longrightarrow> slots st' b = slots st b"
  by (auto simp: sftp_upgrade_def slots_def Let_def acquire_drop split: option.splits if_splits prod.splits bool.splits sum.splits)
    (auto simp: SftpConnectionTracker_try_acquire_def Let_def split: if_splits)


subsection \<open>Properties\<close>

lemma ws_handler_cases:
  assumes "ws_handler P J lower url_decode lookup_ip cfg req st = (r, st')"
  obtains (refused) n where "r = WsStatus n" "st' = st"
  | (sftp) claims where "is_origin_allowed (ws_origin req) (domain cfg)" "q_mode (ws_query req) = Some ''sftp''"
      "verify_relay_cookie J (ws_now req) (ws_cookies req) RELAY_COOKIE_NAME_SFTP (relay_signing_key cfg) = Inr claims"
      "sftp_upgrade P lower lookup_ip cfg req claims (extract_client_ip (ws_peer req) (ws_xff req) (trusted_proxies cfg)) st = (r, st')"
  | (enrol) claims where "is_origin_allowed (ws_origin req) (domain cfg)" "q_mode (ws_query req) \<noteq> Some ''sftp''"
      "verify_relay_cookie J (ws_now req) (ws_cookies req) RELAY_COOKIE_NAME_ENROLL (relay_signing_key cfg) = Inr claims"
      "enrollment_upgrade url_decode req claims (extract_client_ip (ws_peer req) (ws_xff req) (trusted_proxies cfg)) st = (r, st')"
  using assms that
  by (cases "q_mode (ws_query req)") (auto simp: ws_handler_def Let_def split: if_splits sum.splits)

lemma sftp_no_enrol: "fst (sftp_upgrade P lower lookup_ip cfg req claims ip st) \<noteq> EnrollmentUpgrade c ip'"
  by (simp add: sftp_upgrade_def Let_def split: option.splits prod.splits bool.splits sum.splits)

lemma enrol_no_sftp: "fst (enrollment_upgrade url_decode req claims ip st) \<noteq> SftpUpgrade addrs port ip' host g"
  by (simp add: enrollment_upgrade_def Let_def split: option.splits prod.splits bool.splits)

lemma enrol_slots: "slots (snd (enrollment_upgrade url_decode req claims ip st)) b = slots st b"
  by (simp add: enrollment_upgrade_def slots_def Let_def split: option.splits prod.splits bool.splits)

text \<open>
  C23. A WebSocket is upgraded only for what its cookie was issued for: an SFTP upgrade needs an
  allowed origin, a valid cookie of the SFTP category whose purpose is derived from exactly this host
  and port, a token id without a record of consumption that has not expired, an allowed port, a host covered by the allow-list (an
  exact name or one label under a wildcard), an address that is not blocked and below its
  connection limit, and a host all of whose addresses are public; it takes one slot.  An enrollment
  upgrade needs the cookie of that category for exactly this 16-byte channel.  A refused request, and
  an enrollment upgrade, leaves every connection count as it was.
\<close>
theorem ws_upgrade_authorized:
  assumes "ws_handler P J lower url_decode lookup_ip cfg req st = (r, st')" and "hm_ok (jti_consumed st)"
    and "ip = extract_client_ip (ws_peer req) (ws_xff req) (trusted_proxies cfg)"
  shows "case r of
      WsStatus n \<Rightarrow> (\<forall>b. slots st' b = slots st b)
    | SftpUpgrade addrs port ip' host g \<Rightarrow>
        is_origin_allowed (ws_origin req) (domain cfg) \<and> ip' = ip \<and> 0 < port \<and> port \<in> set (sftp_allowed_ports cfg) \<and>
        (\<exists>c. verify_relay_cookie J (ws_now req) (ws_cookies req) RELAY_COOKIE_NAME_SFTP (relay_signing_key cfg) = Inr c \<and>
           claim_purpose c = derive_sftp_purpose P lower host port \<and> \<not> (\<exists>e. map_of (jti_consumed st) (claim_jti c) = Some e \<and> ws_now2 req < e)) \<and>
        (sftp_host_allowlist cfg = [] \<or> (\<exists>p\<in>set (sftp_host_allowlist cfg). pattern_covers p (lower host))) \<and>
        \<not> is_blocked (ws_inst req) ip (sftp_auth_tracker st) \<and> (\<forall>a\<in>set addrs. \<not> is_ip_blocked a) \<and>
        slots st (IpBucket_from ip) < max_per_ip (sftp_tracker st) \<and>
        (\<forall>b. slots st' b = slots st b + (if b = IpBucket_from ip then 1 else 0))
    | EnrollmentUpgrade channel_id ip' \<Rightarrow>
        is_origin_allowed (ws_origin req) (domain cfg) \<and> ip' = ip \<and> length channel_id = 16 \<and>
        (\<exists>c b64. q_channel (ws_query req) = Some b64 \<and> url_decode b64 = Some channel_id \<and>
           verify_relay_cookie J (ws_now req) (ws_cookies req) RELAY_COOKIE_NAME_ENROLL (relay_signing_key cfg) = Inr c \<and>
           claim_purpose c = ''enroll:'' @ b64 \<and> \<not> (\<exists>e. map_of (jti_consumed st) (claim_jti c) = Some e \<and> ws_now2 req < e)) \<and>
        (\<forall>b. slots st' b = slots st b)"
  using assms(1)
proof (cases rule: ws_handler_cases)
  case (refused n)
  then show ?thesis by simp
next
  case (sftp claims)
  show ?thesis
  proof (cases r)
    case (WsStatus n)
    then show ?thesis using refused_slots sftp(4) by fastforce
  next
    case (SftpUpgrade addrs port ip' host g)
    note S = sftp_upgrade_sound [OF sftp(4) [unfolded SftpUpgrade]]
    have j: "\<not> (\<exists>e. map_of (jti_consumed st) (claim_jti claims) = Some e \<and> ws_now2 req < e)"
      using S try_consume_get(1) [OF assms(2)] by blast
    have a: "\<forall>a\<in>set addrs. \<not> is_ip_blocked a" using S resolve_public by blast
    have h: "sftp_host_allowlist cfg = [] \<or> (\<exists>p\<in>set (sftp_host_allowlist cfg). pattern_covers p (lower host))"
      using S is_host_allowed_iff by blast
    show ?thesis unfolding SftpUpgrade WsResult.case using S sftp(1,3) j a h assms(3) by blast
  next
    case (EnrollmentUpgrade c ip')
    then show ?thesis using sftp_no_enrol sftp(4) by (metis fst_conv)
  qed
next
  case (enrol claims)
  have b: "\<forall>b. slots st' b = slots st b" using enrol_slots enrol(4) by (metis snd_conv)
  show ?thesis
  proof (cases r)
    case (WsStatus n)
    then show ?thesis using b by simp
  next
    case (SftpUpgrade addrs port ip' host g)
    then show ?thesis using enrol_no_sftp enrol(4) by (metis fst_conv)
  next
    case (EnrollmentUpgrade c ip')
    obtain b64 where S: "q_channel (ws_query req) = Some b64" "url_decode b64 = Some c" "length c = 16" "ip' = ip"
        "claim_purpose claims = derive_enrollment_purpose b64"
        "fst (JtiConsumedSet_try_consume (ws_now2 req) (claim_jti claims) (claim_exp claims) (jti_consumed st))"
      using enrollment_upgrade_sound [OF enrol(4) [unfolded EnrollmentUpgrade]] assms(3) by blast
    have j: "\<not> (\<exists>e. map_of (jti_consumed st) (claim_jti claims) = Some e \<and> ws_now2 req < e)"
      using S(6) try_consume_get(1) [OF assms(2)] by blast
    have p: "claim_purpose claims = ''enroll:'' @ b64" using S(5) by (simp add: derive_enrollment_purpose_def)
    show ?thesis unfolding EnrollmentUpgrade WsResult.case using S(1-4) p j enrol(1,3) b by blast
  qed
qed

definition sftp_claims :: RelayClaims where
  "sftp_claims = \<lparr>claim_jti = ''j'', claim_purpose = derive_sftp_purpose toy_prims id ''8.8.8.8'' 22, claim_iat = 1000, claim_exp = 1600\<rparr>"

definition sftp_jwt :: jwt where
  "sftp_jwt = \<lparr>jwt_encode = (\<lambda>_ _. None), jwt_decode = (\<lambda>_ _ tok. if tok = ''tok'' then Inr sftp_claims else Inl OtherJwtError)\<rparr>"

definition ws_cfg :: WsConfig where
  "ws_cfg = \<lparr>trusted_proxies = [], pow_difficulty_bits = 18, relay_signing_key = [1], relay_cookie_ttl_secs = 600, domain = ''byo.example'',
     sftp_allowed_ports = [22], sftp_host_allowlist = []\<rparr>"

definition ws_req :: WsRequest where
  "ws_req = \<lparr>ws_peer = IpV4 [1,2,3,4], ws_xff = None, ws_origin = Some (Some ''https://byo.example''), ws_cookies = [(RELAY_COOKIE_NAME_SFTP, ''tok'')],
     ws_query = \<lparr>q_mode = Some ''sftp'', q_channel = None, q_host = Some ''8.8.8.8'', q_port = Some 22\<rparr>, ws_now = 1000, ws_now2 = 1000, ws_inst = 0\<rparr>"

definition ws_state :: WsState where
  "ws_state = \<lparr>challenge_store = [], auth_challenge_limiter = AuthChallengeLimiter_new 10, jti_consumed = [], join_limiter = ChannelJoinLimiter_new,
     sftp_tracker = SftpConnectionTracker_with_max 8, sftp_auth_tracker = SftpAuthFailureTracker_new\<rparr>"

theorem ws_upgrade_authorized_witness:
  "\<exists>st'. ws_handler toy_prims sftp_jwt id (\<lambda>_. None) (\<lambda>_. Inl ''down'') ws_cfg ws_req ws_state =
      (SftpUpgrade [IpV4 [8, 8, 8, 8]] 22 (IpV4 [1,2,3,4]) ''8.8.8.8'' (BucketV4 [1,2,3,4]), st') \<and> slots st' (BucketV4 [1,2,3,4]) = 1"
proof -
  have r: "resolve_and_validate (\<lambda>_. Inl ''down'') ''8.8.8.8'' = Inr [IpV4 [8, 8, 8, 8]]"
    by (simp add: resolve_and_validate_def sample_parse is_ipv4_blocked_cidr blocked_cidrs_def in_cidr_unfold)
  have ip: "extract_client_ip (IpV4 [1,2,3,4]) None [] = IpV4 [1,2,3,4]" by (simp add: extract_client_ip_def)
  have "\<exists>st'. ws_handler toy_prims sftp_jwt id (\<lambda>_. None) (\<lambda>_. Inl ''down'') ws_cfg ws_req ws_state =
      (SftpUpgrade [IpV4 [8, 8, 8, 8]] 22 (IpV4 [1,2,3,4]) ''8.8.8.8'' (BucketV4 [1,2,3,4]), st')"
    by (simp add: ws_handler_def ws_cfg_def ws_req_def ws_state_def is_origin_allowed_def verify_relay_cookie_def ok_or_def map_err_def sftp_jwt_def
        sftp_upgrade_def is_port_allowed_def is_host_allowed_def sftp_claims_def JtiConsumedSet_try_consume_def hm_retain_def is_blocked_def
        SftpAuthFailureTracker_new_def SftpAuthFailureTracker_with_config_def SftpConnectionTracker_try_acquire_def SftpConnectionTracker_with_max_def
        get_or_def r ip Let_def)
  then obtain st' where st': "ws_handler toy_prims sftp_jwt id (\<lambda>_. None) (\<lambda>_. Inl ''down'') ws_cfg ws_req ws_state =
      (SftpUpgrade [IpV4 [8, 8, 8, 8]] 22 (IpV4 [1,2,3,4]) ''8.8.8.8'' (BucketV4 [1,2,3,4]), st')" by blast
  have "slots ws_state (BucketV4 [1,2,3,4]) = 0" by (simp add: slots_def ws_state_def SftpConnectionTracker_with_max_def get_or_def)
  with ws_upgrade_authorized [OF st' _ refl] st' show ?thesis by (auto simp: ws_state_def ws_cfg_def ws_req_def ip)
qed

end
