(* ===== verification/Relay_Client.thy ===== *)
theory Relay_Client
  imports Share_Lifecycle Json_Value Relay_Ws
begin

text \<open>
  The SDK side of the relay's HTTP interface: requests (\<open>sdk-core/src/api/provider_http.rs\<close>), tickets and the
  proof-of-work solver (\<open>byo/relay_auth.rs\<close>) and the share client (\<open>byo/share_relay_client.rs\<close>), and their
  composition with the handlers of the relay.  The HTTP client is a function on the state \<open>'w\<close> of the
  network; of its errors the code only uses the text.
\<close>

type_synonym u64 = "64 word"

subsection \<open>Requests\<close>

record ProviderHttpRequest =
  hr_method :: string
  hr_url :: string
  hr_headers :: "(string \<times> string) list"
  hr_body :: "bytes option"

record ProviderHttpResponse =
  hs_status :: nat
  hs_headers :: "(string \<times> string) list"
  hs_body :: bytes

definition ProviderHttpRequest_new :: "string \<Rightarrow> string \<Rightarrow> ProviderHttpRequest" where
  "ProviderHttpRequest_new method url = \<lparr>hr_method = method, hr_url = url, hr_headers = [], hr_body = None\<rparr>"

abbreviation http_get :: "string \<Rightarrow> ProviderHttpRequest" where "http_get \<equiv> ProviderHttpRequest_new ''GET''"
abbreviation http_post :: "string \<Rightarrow> ProviderHttpRequest" where "http_post \<equiv> ProviderHttpRequest_new ''POST''"
abbreviation http_delete :: "string \<Rightarrow> ProviderHttpRequest" where "http_delete \<equiv> ProviderHttpRequest_new ''DELETE''"

definition req_header :: "string \<Rightarrow> string \<Rightarrow> ProviderHttpRequest \<Rightarrow> ProviderHttpRequest" where
  "req_header k v r = r\<lparr>hr_headers := hr_headers r @ [(k, v)]\<rparr>"

definition req_body :: "bytes \<Rightarrow> ProviderHttpRequest \<Rightarrow> ProviderHttpRequest" where
  "req_body b r = r\<lparr>hr_body := Some b\<rparr>"

text \<open>\<open>lower\<close> is \<open>str::to_lowercase\<close>.\<close>

definition ProviderHttpResponse_header :: "(string \<Rightarrow> string) \<Rightarrow> string \<Rightarrow> ProviderHttpResponse \<Rightarrow> string option" where
  "ProviderHttpResponse_header lower name r =
     map_option snd (find (\<lambda>(k, _). lower k = lower name) (hs_headers r))"

definition is_success :: "ProviderHttpResponse \<Rightarrow> bool" where
  "is_success r \<longleftrightarrow> hs_status r \<ge> 200 \<and> hs_status r < 300"

type_synonym 'w http = "ProviderHttpRequest \<Rightarrow> 'w \<Rightarrow> (string + ProviderHttpResponse) \<times> 'w"

subsection \<open>Tickets\<close>

definition RELAY_TICKET_TTL_MS :: nat where "RELAY_TICKET_TTL_MS = 570000"

record TicketEntry =
  te_ticket :: string
  te_expires_at_ms :: nat

type_synonym RelayTicketCache = "string \<Rightarrow> TicketEntry option"

definition RelayTicketCache_new :: RelayTicketCache where "RelayTicketCache_new = Map.empty"

definition RelayTicketCache_get :: "string \<Rightarrow> nat \<Rightarrow> RelayTicketCache \<Rightarrow> string option" where
  "RelayTicketCache_get purpose now_ms c =
     Option.bind (c purpose) (\<lambda>e. if now_ms < te_expires_at_ms e then Some (te_ticket e) else None)"

definition RelayTicketCache_set :: "string \<Rightarrow> string \<Rightarrow> nat \<Rightarrow> RelayTicketCache \<Rightarrow> RelayTicketCache" where
  "RelayTicketCache_set purpose ticket expires_at_ms c = c(purpose \<mapsto> \<lparr>te_ticket = ticket, te_expires_at_ms = expires_at_ms\<rparr>)"

text \<open>The addition overflows, and panics or wraps, only for clocks beyond the year five hundred million.\<close>

definition RelayTicketCache_set_with_default_ttl :: "string \<Rightarrow> string \<Rightarrow> nat \<Rightarrow> RelayTicketCache \<Rightarrow> RelayTicketCache option" where
  "RelayTicketCache_set_with_default_ttl purpose ticket now_ms c =
     (if now_ms + RELAY_TICKET_TTL_MS > u64_max then None
      else Some (RelayTicketCache_set purpose ticket (now_ms + RELAY_TICKET_TTL_MS) c))"

definition RelayTicketCache_invalidate :: "string \<Rightarrow> RelayTicketCache \<Rightarrow> RelayTicketCache" where
  "RelayTicketCache_invalidate purpose c = c(purpose := None)"

definition RelayTicketCache_evict_expired :: "nat \<Rightarrow> RelayTicketCache \<Rightarrow> RelayTicketCache" where
  "RelayTicketCache_evict_expired now_ms c =
     (\<lambda>p. Option.bind (c p) (\<lambda>e. if te_expires_at_ms e > now_ms then Some e else None))"

lemma get_after_set: "RelayTicketCache_get q now (RelayTicketCache_set p t e c) =
    (if q = p then (if now < e then Some t else None) else RelayTicketCache_get q now c)"
  by (simp add: RelayTicketCache_get_def RelayTicketCache_set_def)

text \<open>Eviction is not observable by reads at the same or a later time.\<close>

lemma get_after_evict: "now \<le> later \<Longrightarrow> RelayTicketCache_get p later (RelayTicketCache_evict_expired now c) = RelayTicketCache_get p later c"
  by (auto simp: RelayTicketCache_get_def RelayTicketCache_evict_expired_def split: Option.bind_splits)

subsection \<open>Proof of work\<close>

text \<open>
  \<open>u8::from_str_radix\<close> accepts a sign, so that \<open>+f\<close> is the byte 15; a pair that splits a character has
  no slice and is refused, as are all bytes beyond ASCII.
\<close>

definition from_str_radix16 :: "char \<Rightarrow> char \<Rightarrow> u8 option" where
  "from_str_radix16 c d =
     (if c = CHR ''+'' then map_option word_of_nat (digit_value 16 d)
      else Option.bind (digit_value 16 c) (\<lambda>h. map_option (\<lambda>l. word_of_nat (h * 16 + l)) (digit_value 16 d)))"

fun sdk_hex_decode :: "string \<Rightarrow> bytes option" where
  "sdk_hex_decode [] = Some []"
| "sdk_hex_decode [c] = None"
| "sdk_hex_decode (c # d # cs) =
     Option.bind (from_str_radix16 c d) (\<lambda>b. map_option ((#) b) (sdk_hex_decode cs))"

definition pow_hash :: "prims \<Rightarrow> bytes \<Rightarrow> string \<Rightarrow> u64 \<Rightarrow> bytes" where
  "pow_hash P nonce purpose answer = sha256 P (nonce @ as_bytes purpose @ u64_to_le answer)"

text \<open>The loop and \<open>leading_zeros\<close> of the SDK are those of the relay.\<close>

abbreviation leading_zero_bits :: "bytes \<Rightarrow> nat" where "leading_zero_bits \<equiv> pow_leading_zero_bits"

definition MAX_POW_DIFFICULTY :: nat where "MAX_POW_DIFFICULTY = 24"

text \<open>\<open>for answer in 0..=u64::MAX\<close>, from \<open>n\<close> on.\<close>

function solve_from :: "prims \<Rightarrow> bytes \<Rightarrow> string \<Rightarrow> nat \<Rightarrow> nat \<Rightarrow> CryptoError + u64" where
  "solve_from P nonce purpose difficulty n =
     (if n > u64_max then Inl InvalidKeyMaterial
      else if leading_zero_bits (pow_hash P nonce purpose (word_of_nat n)) \<ge> difficulty then Inr (word_of_nat n)
      else solve_from P nonce purpose difficulty (n + 1))"
  by pat_completeness auto
termination by (relation "measure (\<lambda>(P, nonce, purpose, difficulty, n). Suc u64_max - n)") auto

declare solve_from.simps [simp del]

definition solve_pow :: "prims \<Rightarrow> string \<Rightarrow> string \<Rightarrow> nat \<Rightarrow> CryptoError + u64" where
  "solve_pow P nonce_s purpose difficulty =
     (if length purpose > 512 then Inl InvalidKeyMaterial
      else if difficulty > MAX_POW_DIFFICULTY then Inl InvalidKeyMaterial
      else and_then (ok_or InvalidKeyMaterial (sdk_hex_decode nonce_s)) (\<lambda>nonce. solve_from P nonce purpose difficulty 0))"

definition sdk_verify_pow :: "prims \<Rightarrow> string \<Rightarrow> string \<Rightarrow> nat \<Rightarrow> u64 \<Rightarrow> bool" where
  "sdk_verify_pow P nonce_s purpose difficulty answer =
     (case sdk_hex_decode nonce_s of
        None \<Rightarrow> False
      | Some nonce \<Rightarrow> leading_zero_bits (pow_hash P nonce purpose answer) \<ge> difficulty)"

lemma digit_value_plus: "digit_value 16 CHR ''+'' = None"
  by code_simp

text \<open>On what the relay can decode, the SDK decodes the same.\<close>

lemma sdk_hex_decode_agrees: "hex_decode s = Some bs \<Longrightarrow> sdk_hex_decode s = Some bs"
proof (induction s arbitrary: bs rule: hex_decode.induct)
  case (3 c d cs)
  then obtain h l bs' where hl: "digit_value 16 c = Some h" "digit_value 16 d = Some l" "hex_decode cs = Some bs'" "bs = of_nat (h * 16 + l) # bs'"
    by (auto split: option.splits)
  have "c \<noteq> CHR ''+''" using hl(1) digit_value_plus by auto
  then show ?case using hl 3 by (simp add: from_str_radix16_def)
qed simp_all

lemma solve_from_Inr:
  "solve_from P nonce purpose d n = Inr a \<Longrightarrow>
     \<exists>k. n \<le> k \<and> k \<le> u64_max \<and> a = word_of_nat k \<and> d \<le> leading_zero_bits (pow_hash P nonce purpose (word_of_nat k)) \<and>
       (\<forall>j. n \<le> j \<and> j < k \<longrightarrow> \<not> d \<le> leading_zero_bits (pow_hash P nonce purpose (word_of_nat j)))"
proof (induction P nonce purpose d n rule: solve_from.induct)
  case (1 P nonce purpose d n)
  show ?case
  proof (cases "n > u64_max \<or> d \<le> leading_zero_bits (pow_hash P nonce purpose (word_of_nat n))")
    case True
    then show ?thesis using 1(2) by (subst (asm) solve_from.simps) (auto split: if_splits intro: exI [of _ n])
  next
    case False
    then have "solve_from P nonce purpose d (n + 1) = Inr a" using 1(2) by (subst (asm) solve_from.simps) auto
    from 1(1) [OF _ _ this] False obtain k where k: "n + 1 \<le> k" "k \<le> u64_max" "a = word_of_nat k"
      "d \<le> leading_zero_bits (pow_hash P nonce purpose (word_of_nat k))"
      "\<forall>j. n + 1 \<le> j \<and> j < k \<longrightarrow> \<not> d \<le> leading_zero_bits (pow_hash P nonce purpose (word_of_nat j))" by auto
    have "\<not> d \<le> leading_zero_bits (pow_hash P nonce purpose (word_of_nat j))" if "n \<le> j" "j < k" for j
      using that k(5) False by (cases "j = n") auto
    then show ?thesis using k(1-4) by (intro exI [of _ k]) auto
  qed
qed

lemma solve_from_Inl:
  "solve_from P nonce purpose d n = Inl e \<Longrightarrow>
     e = InvalidKeyMaterial \<and> (\<forall>k. n \<le> k \<and> k \<le> u64_max \<longrightarrow> \<not> d \<le> leading_zero_bits (pow_hash P nonce purpose (word_of_nat k)))"
proof (induction P nonce purpose d n rule: solve_from.induct)
  case (1 P nonce purpose d n)
  show ?case
  proof (cases "n > u64_max \<or> d \<le> leading_zero_bits (pow_hash P nonce purpose (word_of_nat n))")
    case True
    then show ?thesis using 1(2) by (subst (asm) solve_from.simps) (auto split: if_splits)
  next
    case False
    then have "solve_from P nonce purpose d (n + 1) = Inl e" using 1(2) by (subst (asm) solve_from.simps) auto
    from 1(1) [OF _ _ this] False show ?thesis by (metis Suc_eq_plus1 le_antisym not_less_eq_eq)
  qed
qed

lemma pow_hash_eq: "pow_hash P nonce purpose a = sha256_raw P (nonce @ as_bytes purpose @ u64_to_le a)"
  by (simp add: pow_hash_def sha256_def)

text \<open>
  The solver against the relay's check: an answer is accepted, it is the smallest, and the
  solver gives up only when there is none.
\<close>

lemma solve_pow_correct:
  assumes "hex_decode nonce_s = Some nonce" and "length purpose \<le> 512" and "d \<le> MAX_POW_DIFFICULTY"
  shows "solve_pow P nonce_s purpose d = Inr a \<Longrightarrow> verify_pow P nonce_s purpose d a"
    and "solve_pow P nonce_s purpose d = Inr a \<Longrightarrow> verify_pow P nonce_s purpose d b \<Longrightarrow> a \<le> b"
    and "solve_pow P nonce_s purpose d = Inl e \<Longrightarrow> \<not> verify_pow P nonce_s purpose d b"
proof -
  have s: "solve_pow P nonce_s purpose d = solve_from P nonce purpose d 0"
    using assms by (simp add: solve_pow_def sdk_hex_decode_agrees)
  have v: "verify_pow P nonce_s purpose d a \<longleftrightarrow> d \<le> leading_zero_bits (pow_hash P nonce purpose a)" for a
    using assms by (simp add: verify_pow_def pow_hash_eq)
  have b: "word_of_nat (unat b) = b" "unat b \<le> u64_max" for b :: u64
    using unsigned_less [of b, where ?'a = nat] by simp_all
  show "solve_pow P nonce_s purpose d = Inr a \<Longrightarrow> verify_pow P nonce_s purpose d a"
    unfolding s v by (blast dest: solve_from_Inr)
  show "a \<le> b" if "solve_pow P nonce_s purpose d = Inr a" "verify_pow P nonce_s purpose d b"
  proof -
    note sol = that(1) [unfolded s]
    obtain k where k: "k \<le> u64_max" "a = word_of_nat k" "\<forall>j. 0 \<le> j \<and> j < k \<longrightarrow> \<not> d \<le> leading_zero_bits (pow_hash P nonce purpose (word_of_nat j))"
      using solve_from_Inr [OF sol] by blast
    have "\<not> unat b < k" using k(3) that(2) b(1) [of b] unfolding v by auto
    moreover have "unat a = k" using k(1,2) by (simp add: unat_of_nat)
    ultimately show ?thesis by (simp add: word_le_nat_alt)
  qed
  show "\<not> verify_pow P nonce_s purpose d b" if "solve_pow P nonce_s purpose d = Inl e"
    using solve_from_Inl [OF that [unfolded s], THEN conjunct2, THEN spec, of "unat b"] b [of b] unfolding v by simp
qed

subsection \<open>The share client\<close>

definition validate_share_id :: "string \<Rightarrow> SdkError + unit" where
  "validate_share_id value =
     (if value = [] then Inl (SdkShareRelay (ShareUnexpected 400))
      else if \<not> list_all (\<lambda>c. is_ascii_alphanumeric c \<or> c = CHR ''-'' \<or> c = CHR ''_'') value
      then Inl (SdkShareRelay (ShareUnexpected 400)) else Inr ())"

definition validate_header_value :: "string \<Rightarrow> SdkError + unit" where
  "validate_header_value value =
     (if list_ex (\<lambda>c. c = CHR 0x0D \<or> c = CHR 0x0A) value then Inl (SdkShareRelay (ShareUnexpected 400)) else Inr ())"

record ShareCreateResult =
  scr_share_id :: string
  scr_expires_at :: int
  scr_owner_token :: string

record B1GetResponse =
  b1_provider_url :: string
  b1_expires_at :: int

record ShareRelayClient =
  src_base_url :: string
  src_bytes_sent :: u64
  src_bytes_recv :: u64

definition ShareRelayClient_new :: "string \<Rightarrow> ShareRelayClient" where
  "ShareRelayClient_new base_url =
     \<lparr>src_base_url = (if base_url \<noteq> [] \<and> last base_url = CHR ''/'' then butlast base_url else base_url),
      src_bytes_sent = 0, src_bytes_recv = 0\<rparr>"

definition ShareRelayClient_bandwidth_and_reset :: "ShareRelayClient \<Rightarrow> (u64 \<times> u64) \<times> ShareRelayClient" where
  "ShareRelayClient_bandwidth_and_reset c =
     ((src_bytes_sent c, src_bytes_recv c), c\<lparr>src_bytes_sent := 0, src_bytes_recv := 0\<rparr>)"

definition json_str :: "Value \<Rightarrow> string \<Rightarrow> SdkError + string" where
  "json_str v key = ok_or (SdkApi (''missing '' @ [CHR 0x27] @ key @ [CHR 0x27] @ '' field in relay response'')) (Option.bind (Value_get key v) as_str)"

definition json_i64 :: "Value \<Rightarrow> string \<Rightarrow> SdkError + int" where
  "json_i64 v key = ok_or (SdkApi (''missing or invalid '' @ [CHR 0x27] @ key @ [CHR 0x27] @ '' field in relay response'')) (Option.bind (Value_get key v) as_i64)"

text \<open>\<open>serde_json::from_slice(&resp.body).map_err(..)\<close>; \<open>X\<close> is the text of the parser's error.\<close>

definition parse_body :: "json_codec \<Rightarrow> (bytes \<Rightarrow> string) \<Rightarrow> string \<Rightarrow> bytes \<Rightarrow> SdkError + Value" where
  "parse_body J X what body = ok_or (SdkApi (what @ '' response parse: '' @ X body)) (json_from_str J (of_bytes body))"

definition parse_created :: "json_codec \<Rightarrow> (bytes \<Rightarrow> string) \<Rightarrow> string \<Rightarrow> bytes \<Rightarrow> SdkError + ShareCreateResult" where
  "parse_created J X what body =
     and_then (parse_body J X what body) (\<lambda>v.
     and_then (json_str v ''share_id'') (\<lambda>sid.
     and_then (json_i64 v ''expires_at'') (\<lambda>e.
     and_then (json_str v ''owner_token'') (\<lambda>tok.
     Inr \<lparr>scr_share_id = sid, scr_expires_at = e, scr_owner_token = tok\<rparr>))))"

abbreviation share_err :: "ShareRelayError \<Rightarrow> SdkError + 'a" where "share_err e \<equiv> Inl (SdkShareRelay e)"

text \<open>
  A method validates its arguments, sends one request, and reads the response; \<open>sent\<close> and \<open>received\<close>
  are what a success adds to the counters, which wrap.
\<close>

definition exchange ::
  "'w http \<Rightarrow> SdkError + ProviderHttpRequest \<Rightarrow> (ProviderHttpResponse \<Rightarrow> SdkError + 'a) \<Rightarrow>
   (ProviderHttpResponse \<Rightarrow> nat) \<Rightarrow> (ProviderHttpResponse \<Rightarrow> nat) \<Rightarrow> ShareRelayClient \<Rightarrow> 'w \<Rightarrow>
   (SdkError + 'a) \<times> ShareRelayClient \<times> 'w" where
  "exchange H req read sent received c w =
     (case req of
        Inl e \<Rightarrow> (Inl e, c, w)
      | Inr r \<Rightarrow>
          (case H r w of
             (Inl e, w) \<Rightarrow> (Inl (SdkApi e), c, w)
           | (Inr resp, w) \<Rightarrow>
               (read resp, c\<lparr>src_bytes_sent := src_bytes_sent c + of_nat (sent resp),
                             src_bytes_recv := src_bytes_recv c + of_nat (received resp)\<rparr>, w)))"

definition read_created :: "json_codec \<Rightarrow> (bytes \<Rightarrow> string) \<Rightarrow> bool \<Rightarrow> string \<Rightarrow> ProviderHttpResponse \<Rightarrow> SdkError + ShareCreateResult" where
  "read_created J X sized what resp =
     (let status = hs_status resp in
      if status = 200 \<or> status = 201 then parse_created J X what (hs_body resp)
      else if status = 401 \<or> status = 403 then share_err ShareUnauthorized
      else if status = 409 then share_err ShareConflict
      else if sized \<and> status = 413 then share_err ShareTooLarge
      else if status = 429 then share_err ShareRateLimited
      else share_err (ShareUnexpected (word_of_nat status)))"

definition read_revoked :: "ProviderHttpResponse \<Rightarrow> SdkError + unit" where
  "read_revoked resp =
     (let status = hs_status resp in
      if status = 204 then Inr ()
      else if status = 401 \<or> status = 403 then share_err ShareUnauthorized
      else if status = 404 then share_err ShareNotFound
      else share_err (ShareUnexpected (word_of_nat status)))"

definition read_gotten :: "(bytes \<Rightarrow> SdkError + 'a) \<Rightarrow> ProviderHttpResponse \<Rightarrow> SdkError + 'a" where
  "read_gotten f resp =
     (let status = hs_status resp in
      if status = 200 then f (hs_body resp)
      else if status = 404 then share_err ShareNotFound
      else if status = 410 then share_err ShareRevoked
      else if status = 429 then share_err ShareRateLimited
      else share_err (ShareUnexpected (word_of_nat status)))"

definition create_b1 ::
  "'w http \<Rightarrow> json_codec \<Rightarrow> (bytes \<Rightarrow> string) \<Rightarrow> string \<Rightarrow> string \<Rightarrow> u32 \<Rightarrow> string \<Rightarrow> ShareRelayClient \<Rightarrow> 'w \<Rightarrow>
   (SdkError + ShareCreateResult) \<times> ShareRelayClient \<times> 'w" where
  "create_b1 H J X share_id provider_url expires_in_secs relay_cookie c =
     exchange H
       (and_then (validate_share_id share_id) (\<lambda>_. and_then (validate_header_value relay_cookie) (\<lambda>_.
        Inr (req_body (as_bytes (json_to_string J (Object [(''expires_in_secs'', Number (uint expires_in_secs)),
               (''provider_url'', String provider_url), (''share_id'', String share_id)])))
          (req_header ''Content-Type'' ''application/json'' (req_header ''Cookie'' relay_cookie
            (http_post (src_base_url c @ ''/relay/share/b1'')))))))) 
       (read_created J X False ''B1 create'') (\<lambda>_. 0) (\<lambda>_. 0) c"

definition get_b1 ::
  "'w http \<Rightarrow> json_codec \<Rightarrow> (bytes \<Rightarrow> string) \<Rightarrow> string \<Rightarrow> ShareRelayClient \<Rightarrow> 'w \<Rightarrow> (SdkError + B1GetResponse) \<times> ShareRelayClient \<times> 'w" where
  "get_b1 H J X share_id c =
     exchange H
       (and_then (validate_share_id share_id) (\<lambda>_. Inr (http_get (src_base_url c @ ''/relay/share/b1/'' @ share_id))))
       (read_gotten (\<lambda>body. and_then (parse_body J X ''B1 get'' body) (\<lambda>v.
          and_then (json_str v ''provider_url'') (\<lambda>u. and_then (json_i64 v ''expires_at'') (\<lambda>e.
          Inr \<lparr>b1_provider_url = u, b1_expires_at = e\<rparr>))))) (\<lambda>_. 0) (\<lambda>_. 0) c"

definition revoke_b1 :: "'w http \<Rightarrow> string \<Rightarrow> string \<Rightarrow> ShareRelayClient \<Rightarrow> 'w \<Rightarrow> (SdkError + unit) \<times> ShareRelayClient \<times> 'w" where
  "revoke_b1 H share_id owner_token c =
     exchange H
       (and_then (validate_share_id share_id) (\<lambda>_. and_then (validate_header_value owner_token) (\<lambda>_.
        Inr (req_header ''X-Owner-Token'' owner_token (http_delete (src_base_url c @ ''/relay/share/b1/'' @ share_id))))))
       read_revoked (\<lambda>_. 0) (\<lambda>_. 0) c"

definition upload_b2 ::
  "'w http \<Rightarrow> json_codec \<Rightarrow> (bytes \<Rightarrow> string) \<Rightarrow> string \<Rightarrow> bytes \<Rightarrow> u32 \<Rightarrow> string \<Rightarrow> ShareRelayClient \<Rightarrow> 'w \<Rightarrow>
   (SdkError + ShareCreateResult) \<times> ShareRelayClient \<times> 'w" where
  "upload_b2 H J X share_id ciphertext expires_in_secs relay_cookie c =
     exchange H
       (and_then (validate_share_id share_id) (\<lambda>_. and_then (validate_header_value relay_cookie) (\<lambda>_.
        Inr (req_body ciphertext
          (req_header ''X-Expires-In'' (show_nat (unat expires_in_secs)) (req_header ''X-Share-Id'' share_id
          (req_header ''Content-Type'' ''application/octet-stream'' (req_header ''Cookie'' relay_cookie
            (http_post (src_base_url c @ ''/relay/share/b2''))))))))))
       (read_created J X True ''B2 upload'')
       (\<lambda>resp. if hs_status resp = 200 \<or> hs_status resp = 201 then length ciphertext else 0) (\<lambda>_. 0) c"

definition get_b2 :: "'w http \<Rightarrow> string \<Rightarrow> ShareRelayClient \<Rightarrow> 'w \<Rightarrow> (SdkError + bytes) \<times> ShareRelayClient \<times> 'w" where
  "get_b2 H share_id c =
     exchange H
       (and_then (validate_share_id share_id) (\<lambda>_. Inr (http_get (src_base_url c @ ''/relay/share/b2/'' @ share_id))))
       (read_gotten Inr) (\<lambda>_. 0) (\<lambda>resp. if hs_status resp = 200 then length (hs_body resp) else 0) c"

definition revoke_b2 :: "'w http \<Rightarrow> string \<Rightarrow> string \<Rightarrow> ShareRelayClient \<Rightarrow> 'w \<Rightarrow> (SdkError + unit) \<times> ShareRelayClient \<times> 'w" where
  "revoke_b2 H share_id owner_token c =
     exchange H
       (and_then (validate_share_id share_id) (\<lambda>_. and_then (validate_header_value owner_token) (\<lambda>_.
        Inr (req_header ''X-Owner-Token'' owner_token (http_delete (src_base_url c @ ''/relay/share/b2/'' @ share_id))))))
       read_revoked (\<lambda>_. 0) (\<lambda>_. 0) c"

subsection \<open>The relay as the other side\<close>

text \<open>
  One request as the relay sees it: the verdict of the device gate (\<open>None\<close> admits, see the middlewares
  of the enrolment admin), the environment and the draws of the handler, the addresses, how the body
  arrives in chunks, the cookie parser, and the length the transport declares for a body.
\<close>

record relay_side =
  rs_P :: prims
  rs_jwt :: jwt
  rs_cfg :: ShareConfig
  rs_base :: string
  rs_gate :: "nat option"
  rs_env :: Env
  rs_nonce :: bytes
  rs_peer :: IpAddr
  rs_xff :: "string option"
  rs_cut :: "bytes \<Rightarrow> bytes list"
  rs_cookies :: "string \<Rightarrow> (string, string) hmap"
  rs_declared :: "bytes \<Rightarrow> string option"

definition relay_request :: "relay_side \<Rightarrow> ProviderHttpRequest \<Rightarrow> Request" where
  "relay_request R req =
     (let h = map_of (hr_headers req); body = (case hr_body req of None \<Rightarrow> [] | Some b \<Rightarrow> b) in
      \<lparr>r_peer = rs_peer R, r_xff = rs_xff R, r_cookies = (case h ''Cookie'' of None \<Rightarrow> [] | Some v \<Rightarrow> rs_cookies R v),
       x_share_id = h ''X-Share-Id'', x_expires_in = h ''X-Expires-In'', x_owner_token = h ''X-Owner-Token'',
       x_bundle_token = h ''X-Bundle-Token'', content_length_header = rs_declared R body,
       r_body = map Some (rs_cut R body)\<rparr>)"

fun http_response :: "json_codec \<Rightarrow> Response \<Rightarrow> string + ProviderHttpResponse" where
  "http_response J (Status n) = Inr \<lparr>hs_status = n, hs_headers = [], hs_body = []\<rparr>"
| "http_response J (LimitRejection n reason retry) = Inr \<lparr>hs_status = n, hs_headers = [], hs_body = []\<rparr>"
| "http_response J (ShareCreateResponse sid e tok) =
     Inr \<lparr>hs_status = 200, hs_headers = [], hs_body = as_bytes (json_to_string J (Object
       [(''expires_at'', Number e), (''owner_token'', String tok), (''share_id'', String sid)]))\<rparr>"
| "http_response J (StreamResponse bs bps) = Inr \<lparr>hs_status = 200, hs_headers = [], hs_body = bs\<rparr>"
| "http_response J _ = Inl ''connection closed''"

text \<open>The routes of \<open>main.rs\<close> this client can reach; there is no route for \<open>b1\<close>.\<close>

definition relay_route :: "relay_side \<Rightarrow> ProviderHttpRequest \<Rightarrow> AppState \<Rightarrow> Response \<times> AppState" where
  "relay_route R req st =
     (case strip_prefix (rs_base R) (hr_url req) of
        None \<Rightarrow> (Status 404, st)
      | Some path \<Rightarrow>
          if path = ''/relay/share/b2'' then
            if hr_method req \<noteq> ''POST'' then (Status 405, st)
            else (case rs_gate R of
                    Some denied \<Rightarrow> (Status denied, st)
                  | None \<Rightarrow> upload_b2_share (rs_P R) (rs_jwt R) (rs_cfg R) (rs_env R) (rs_nonce R) (relay_request R req) st)
          else (case strip_prefix ''/relay/share/b2/'' path of
                  None \<Rightarrow> (Status 404, st)
                | Some share_id \<Rightarrow>
                    if share_id = [] \<or> CHR ''/'' \<in> set share_id then (Status 404, st)
                    else if hr_method req = ''GET'' then get_b2_share (rs_cfg R) (rs_env R) share_id (relay_request R req) st
                    else if hr_method req = ''DELETE'' then revoke_b2_share (rs_P R) (rs_cfg R) (rs_env R) share_id (relay_request R req) st
                    else (Status 405, st)))"

definition relay_http :: "json_codec \<Rightarrow> relay_side \<Rightarrow> AppState http" where
  "relay_http J R req st = (case relay_route R req st of (resp, st') \<Rightarrow> (http_response J resp, st'))"

definition refuses :: "Response \<Rightarrow> bool" where
  "refuses r \<longleftrightarrow> (case r of Status n \<Rightarrow> n \<notin> {200, 201} | LimitRejection n _ _ \<Rightarrow> n \<notin> {200, 201} | _ \<Rightarrow> False)"

lemma upload_b2_finish_outcome:
  "(\<exists>s e tok. fst (upload_b2_finish P cfg env ip sid ex nonce req st) = ShareCreateResponse s e tok) \<or>
   refuses (fst (upload_b2_finish P cfg env ip sid ex nonce req st))"
proof -
  have "refuses (b2_stream_error e)" for e by (cases e) (simp_all add: refuses_def)
  then show ?thesis
    by (simp add: upload_b2_finish_def Let_def refuses_def split: prod.splits sum.splits)
qed

lemma upload_b2_share_outcome:
  "(\<exists>s e tok. fst (upload_b2_share P Jw cfg env nonce req st) = ShareCreateResponse s e tok) \<or>
   refuses (fst (upload_b2_share P Jw cfg env nonce req st))"
proof -
  have r: "refuses (Status 401)" "refuses (Status 400)" "refuses (Status 409)" "refuses (Status 500)" "refuses (LimitRejection 507 a b)"
    "refuses (LimitRejection 413 a b)" "refuses (LimitRejection 429 a b)" for a b
    by (simp_all add: refuses_def)
  show ?thesis
    using upload_b2_finish_outcome
    by (simp add: upload_b2_share_def Let_def r split: prod.splits sum.splits option.splits bool.splits StoreError.splits
        ShareCreationDecision.splits)
qed

lemma validate_share_id_Inr: "validate_share_id s = Inr u \<longleftrightarrow> s \<noteq> [] \<and>
    list_all (\<lambda>c. is_ascii_alphanumeric c \<or> c = CHR ''-'' \<or> c = CHR ''_'') s"
  by (auto simp: validate_share_id_def)

lemma valid_share_id_no_slash: "validate_share_id s = Inr u \<Longrightarrow> s \<noteq> [] \<and> CHR ''/'' \<notin> set s"
  by (auto simp: validate_share_id_Inr list_all_iff is_ascii_alphanumeric_def)

text \<open>Every id the relay accepts passes the client; the client also lets ids through that the relay refuses.\<close>

lemma relay_id_valid_for_client: "is_valid_share_id s \<Longrightarrow> validate_share_id s = Inr ()"
  by (auto simp: is_valid_share_id_def validate_share_id_Inr list_all_iff uuid_char_def)

lemma created_value_ok: "- (2 ^ 63) \<le> e \<Longrightarrow> e < 2 ^ 63 \<Longrightarrow>
    value_ok (Object [(''expires_at'', Number e), (''owner_token'', String tok), (''share_id'', String sid)])"
proof -
  have "str_lt ''expires_at'' ''owner_token''" "str_lt ''expires_at'' ''share_id''" "str_lt ''owner_token'' ''share_id''" by code_simp+
  then show "- (2 ^ 63) \<le> e \<Longrightarrow> e < 2 ^ 63 \<Longrightarrow> ?thesis" by simp
qed

lemma parse_created_ok:
  assumes "codec_ok J" and "- (2 ^ 63) \<le> e" and "e < 2 ^ 63"
  shows "parse_created J X what (as_bytes (json_to_string J (Object
      [(''expires_at'', Number e), (''owner_token'', String tok), (''share_id'', String sid)]))) =
    Inr \<lparr>scr_share_id = sid, scr_expires_at = e, scr_owner_token = tok\<rparr>"
  using assms codec_okD [OF assms(1) created_value_ok [OF assms(2,3), of tok sid]]
  by (simp add: parse_created_def parse_body_def json_str_def json_i64_def)

definition b2_request :: "string \<Rightarrow> bytes \<Rightarrow> u32 \<Rightarrow> string \<Rightarrow> string \<Rightarrow> ProviderHttpRequest" where
  "b2_request share_id ciphertext secs cookie base =
     req_body ciphertext (req_header ''X-Expires-In'' (show_nat (unat secs)) (req_header ''X-Share-Id'' share_id
       (req_header ''Content-Type'' ''application/octet-stream'' (req_header ''Cookie'' cookie (http_post (base @ ''/relay/share/b2''))))))"

lemma b2_request_fields:
  "relay_request R (b2_request sid ct secs cookie base) =
     \<lparr>r_peer = rs_peer R, r_xff = rs_xff R, r_cookies = rs_cookies R cookie, x_share_id = Some sid, x_expires_in = Some (show_nat (unat secs)),
      x_owner_token = None, x_bundle_token = None, content_length_header = rs_declared R ct, r_body = map Some (rs_cut R ct)\<rparr>"
  by (simp add: relay_request_def b2_request_def req_body_def req_header_def ProviderHttpRequest_new_def Let_def)

lemma relay_route_upload:
  "rs_gate R = None \<Longrightarrow> relay_route R (b2_request sid ct secs cookie (rs_base R)) st =
     upload_b2_share (rs_P R) (rs_jwt R) (rs_cfg R) (rs_env R) (rs_nonce R) (relay_request R (b2_request sid ct secs cookie (rs_base R))) st"
  by (simp add: relay_route_def b2_request_def req_body_def req_header_def ProviderHttpRequest_new_def)

lemma upload_b2_relay:
  assumes "upload_b2 (relay_http J R) J X sid ct secs cookie c st = (Inr res, c', st')"
    and "src_base_url c = rs_base R" and "codec_ok J" and "\<bar>e_now (rs_env R)\<bar> < 2 ^ 62"
    and "rs_gate R = None"
  shows "upload_b2_share (rs_P R) (rs_jwt R) (rs_cfg R) (rs_env R) (rs_nonce R) (relay_request R (b2_request sid ct secs cookie (rs_base R))) st =
      (ShareCreateResponse sid (scr_expires_at res) (scr_owner_token res), st') \<and> scr_share_id res = sid"
proof -
  let ?req = "relay_request R (b2_request sid ct secs cookie (rs_base R))"
  let ?up = "upload_b2_share (rs_P R) (rs_jwt R) (rs_cfg R) (rs_env R) (rs_nonce R) ?req st"
  have ok: "validate_share_id sid = Inr ()" "validate_header_value cookie = Inr ()"
    using assms(1) by (auto simp: upload_b2_def exchange_def and_then_def split: sum.splits)
  obtain resp where resp: "http_response J (fst ?up) = Inr resp" "read_created J X True ''B2 upload'' resp = Inr res" "st' = snd ?up"
    using assms(1,2,5) relay_route_upload [OF assms(5), of sid ct secs cookie st]
    by (auto simp: upload_b2_def exchange_def ok relay_http_def b2_request_def [symmetric] split: sum.splits prod.splits)
  have "\<not> refuses (fst ?up)" using resp(1,2) by (auto simp: refuses_def read_created_def Let_def split: Response.splits if_splits)
  then obtain s e tok where up: "?up = (ShareCreateResponse s e tok, st')"
    using upload_b2_share_outcome [of "rs_P R" "rs_jwt R" "rs_cfg R" "rs_env R" "rs_nonce R" ?req st] resp(3) by (metis prod.collapse)
  note U = upload_b2_share_created [OF up]
  have s: "s = sid" using U by (simp add: b2_request_fields)
  have range: "- (2 ^ 63) \<le> e" "e < 2 ^ 63" using U assms(4) by (auto simp: MAX_EXPIRES_SECS_def)
  then have "res = \<lparr>scr_share_id = s, scr_expires_at = e, scr_owner_token = tok\<rparr>"
    using resp(1,2) parse_created_ok [OF assms(3) range, of X "''B2 upload''" tok s] by (auto simp: up read_created_def)
  then show ?thesis using up s by simp
qed

lemma relay_route_get:
  "sid \<noteq> [] \<Longrightarrow> CHR ''/'' \<notin> set sid \<Longrightarrow> relay_route R (http_get (rs_base R @ ''/relay/share/b2/'' @ sid)) st =
     get_b2_share (rs_cfg R) (rs_env R) sid (relay_request R (http_get (rs_base R @ ''/relay/share/b2/'' @ sid))) st"
proof -
  have "strip_prefix ''/relay/share/b2/'' (''/relay/share/b2/'' @ sid) = Some sid" by (rule strip_prefix_append)
  then show "sid \<noteq> [] \<Longrightarrow> CHR ''/'' \<notin> set sid \<Longrightarrow> ?thesis"
    by (simp add: relay_route_def ProviderHttpRequest_new_def)
qed

lemma relay_route_revoke:
  "sid \<noteq> [] \<Longrightarrow> CHR ''/'' \<notin> set sid \<Longrightarrow>
     relay_route R (req_header k v (http_delete (rs_base R @ ''/relay/share/b2/'' @ sid))) st =
     revoke_b2_share (rs_P R) (rs_cfg R) (rs_env R) sid (relay_request R (req_header k v (http_delete (rs_base R @ ''/relay/share/b2/'' @ sid)))) st"
proof -
  have "strip_prefix ''/relay/share/b2/'' (''/relay/share/b2/'' @ sid) = Some sid" by (rule strip_prefix_append)
  then show "sid \<noteq> [] \<Longrightarrow> CHR ''/'' \<notin> set sid \<Longrightarrow> ?thesis"
    by (simp add: relay_route_def ProviderHttpRequest_new_def req_header_def)
qed

text \<open>The request of a read, and the one of a revocation with its token.\<close>

definition get_request :: "relay_side \<Rightarrow> string \<Rightarrow> Request" where
  "get_request R sid = relay_request R (http_get (rs_base R @ ''/relay/share/b2/'' @ sid))"

definition revoke_request :: "relay_side \<Rightarrow> string \<Rightarrow> string \<Rightarrow> Request" where
  "revoke_request R sid tok = relay_request R (req_header ''X-Owner-Token'' tok (http_delete (rs_base R @ ''/relay/share/b2/'' @ sid)))"

lemma revoke_request_token [simp]: "x_owner_token (revoke_request R sid tok) = Some tok"
  by (simp add: revoke_request_def relay_request_def req_header_def ProviderHttpRequest_new_def Let_def)

lemma get_b2_share_outcome:
  "(\<exists>bs bps. fst (get_b2_share cfg env sid req st) = StreamResponse bs bps) \<or> refuses (fst (get_b2_share cfg env sid req st)) \<or>
   fst (get_b2_share cfg env sid req st) = Panicked"
  by (simp add: get_b2_share_def serve_blob_def Let_def refuses_def split: prod.splits sum.splits option.splits bool.splits)

lemma read_gotten_refused: "refuses r \<Longrightarrow> http_response J r = Inr resp \<Longrightarrow> \<exists>e. read_gotten f resp = Inl e"
  by (auto simp: refuses_def read_gotten_def Let_def split: Response.splits)

lemma get_b2_relay:
  assumes "validate_share_id sid = Inr ()" and "src_base_url c = rs_base R"
  shows "fst (get_b2 (relay_http J R) sid c st) = Inr bs \<longleftrightarrow>
    (\<exists>bps. fst (get_b2_share (rs_cfg R) (rs_env R) sid (get_request R sid) st) = StreamResponse bs bps)"
proof -
  let ?g = "get_b2_share (rs_cfg R) (rs_env R) sid (get_request R sid) st"
  have H: "relay_http J R (http_get (rs_base R @ ''/relay/share/b2/'' @ sid)) st = (http_response J (fst ?g), snd ?g)"
    using relay_route_get [of sid R st] valid_share_id_no_slash [OF assms(1)]
    by (simp add: relay_http_def get_request_def split: prod.splits)
  have F: "fst (get_b2 (relay_http J R) sid c st) =
      (case http_response J (fst ?g) of Inl e \<Rightarrow> Inl (SdkApi e) | Inr resp \<Rightarrow> read_gotten Inr resp)"
    using H by (simp add: get_b2_def exchange_def assms split: sum.splits)
  from get_b2_share_outcome [of "rs_cfg R" "rs_env R" sid "get_request R sid" st]
  consider b p where "fst ?g = StreamResponse b p" | "refuses (fst ?g)" | "fst ?g = Panicked" by blast
  then show ?thesis
  proof cases
    case 1 then show ?thesis by (auto simp: F read_gotten_def)
  next
    case 2
    then have "fst ?g \<noteq> StreamResponse bs p" for p by (auto simp: refuses_def)
    then show ?thesis using read_gotten_refused [OF 2, where J = J and f = Inr] by (cases "http_response J (fst ?g)") (fastforce simp: F)+
  next
    case 3 then show ?thesis by (auto simp: F)
  qed
qed

lemma revoke_b2_relay:
  assumes "validate_share_id sid = Inr ()" and "validate_header_value tok = Inr ()" and "src_base_url c = rs_base R"
    and "revoke_b2_share (rs_P R) (rs_cfg R) (rs_env R) sid (revoke_request R sid tok) st = (Status n, st')"
  shows "\<exists>c'. revoke_b2 (relay_http J R) sid tok c st = (read_revoked \<lparr>hs_status = n, hs_headers = [], hs_body = []\<rparr>, c', st')"
  using assms relay_route_revoke [of sid R "''X-Owner-Token''" tok st] valid_share_id_no_slash [OF assms(1)]
  by (simp add: revoke_b2_def exchange_def relay_http_def revoke_request_def)

lemma hex_digit_header:
  assumes "n < 16"
  shows "hex_digit n \<noteq> CHR 0x0D \<and> hex_digit n \<noteq> CHR 0x0A"
proof -
  have "of_char (hex_digit n) \<ge> (48 :: nat)" using assms by (simp add: hex_digit_def)
  then show ?thesis by auto
qed

lemma hex_encode_header: "validate_header_value (hex_encode bs) = Inr ()"
proof -
  have "unat b div 16 < 16" "unat b mod 16 < 16" for b :: u8 using u8_less [of b] by simp_all
  then have "\<not> list_ex (\<lambda>c. c = CHR 0x0D \<or> c = CHR 0x0A) (hex_encode bs)"
    by (induction bs) (simp_all add: hex_encode_def hex_digit_header)
  then show ?thesis by (simp add: validate_header_value_def)
qed

subsection \<open>Properties\<close>

text \<open>The state after a successful upload of the client and an undisturbed history.\<close>

lemma client_upload_state:
  assumes "share_store init = ShareStore_empty" and "st = foldl (relay_apply (rs_P R) (rs_jwt R) (rs_cfg R)) init before"
    and "upload_b2_share (rs_P R) (rs_jwt R) (rs_cfg R) (rs_env R) (rs_nonce R) (relay_request R (b2_request sid ct secs cookie (rs_base R))) st =
      (ShareCreateResponse sid e tok, st')"
    and "concat (rs_cut R ct) = ct" and "undisturbed (rs_P R) (rs_jwt R) (rs_cfg R) st' sid evs"
  shows "\<exists>n. map_of (shares (share_store (foldl (relay_apply (rs_P R) (rs_jwt R) (rs_cfg R)) st' evs))) sid =
      Some \<lparr>kind = KindFile, created_at = e_now (rs_env R), expires_at = e, revoked = False, sealed = True,
        token_nonce = rs_nonce R, total_bytes = n, bundle_token = None\<rparr>"
    and "content (share_store (foldl (relay_apply (rs_P R) (rs_jwt R) (rs_cfg R)) st' evs)) sid ''main'' = Some ct"
proof -
  let ?req = "relay_request R (b2_request sid ct secs cookie (rs_base R))"
  note U = upload_b2_share_created [OF assms(3)]
  obtain w n where w: "accepted_body (rs_cfg R) ?req w" "content (share_store st') sid ''main'' = Some w"
    and row: "map_of (shares (share_store st')) sid = Some \<lparr>kind = KindFile, created_at = e_now (rs_env R), expires_at = e, revoked = False,
       sealed = True, token_nonce = rs_nonce R, total_bytes = n, bundle_token = None\<rparr>"
    using U by blast
  have ct: "w = ct" using w(1) assms(4) by (simp add: accepted_body_def b2_request_fields comp_def)
  have "store_inv (share_store st)" unfolding assms(2) by (rule relay_run_inv) (simp add: assms(1))
  then have inv: "store_inv (share_store st')" using via_inv [OF upload_b2_share_via [OF assms(3)]] U by blast
  have "phase (share_store st') sid = Published" using row by (simp add: phase_def)
  from view_run [OF inv this assms(5)] row w(2) ct
  show "\<exists>n. map_of (shares (share_store (foldl (relay_apply (rs_P R) (rs_jwt R) (rs_cfg R)) st' evs))) sid =
      Some \<lparr>kind = KindFile, created_at = e_now (rs_env R), expires_at = e, revoked = False, sealed = True,
        token_nonce = rs_nonce R, total_bytes = n, bundle_token = None\<rparr>"
    and "content (share_store (foldl (relay_apply (rs_P R) (rs_jwt R) (rs_cfg R)) st' evs)) sid ''main'' = Some ct"
    by (simp_all add: share_view_def)
qed

text \<open>
  C3.  The share client against the relay: when \<open>upload_b2\<close> of the SDK reports success, the result carries
  the id that was asked for, and after any history of requests of any clients that contains no authorised
  revocation of the share and no sweep after its expiry, \<open>get_b2\<close> returns nothing but exactly the uploaded
  ciphertext, which it does return before the reported expiry when the gates of the relay let it pass.  The reported owner
  token revokes the share: \<open>revoke_b2\<close> succeeds at once, and until a sweep frees the id no \<open>get_b2\<close>
  of anyone succeeds again.
\<close>
theorem share_client_delivers:
  assumes start: "share_store init = ShareStore_empty" "st = foldl (relay_apply (rs_P R) (rs_jwt R) (rs_cfg R)) init before"
    and up: "upload_b2 (relay_http J R) J X sid ct secs cookie c st = (Inr res, c', st')"
    and side: "src_base_url c = rs_base R" "codec_ok J" "\<bar>e_now (rs_env R)\<bar> < 2 ^ 62" "rs_gate R = None" "length (rs_nonce R) = 16"
      "concat (rs_cut R ct) = ct"
    and quiet: "undisturbed (rs_P R) (rs_jwt R) (rs_cfg R) st' sid evs"
    and later: "later = foldl (relay_apply (rs_P R) (rs_jwt R) (rs_cfg R)) st' evs"
    and other: "rs_P R2 = rs_P R" "rs_jwt R2 = rs_jwt R" "rs_cfg R2 = rs_cfg R" "src_base_url c2 = rs_base R2"
  shows "scr_share_id res = sid \<and>
    (\<forall>bs. fst (get_b2 (relay_http J R2) sid c2 later) = Inr bs \<longrightarrow> bs = ct) \<and>
    (\<forall>l t n. e_now (rs_env R2) < scr_expires_at res \<and> e_open (rs_env R2) \<and> e_stat (rs_env R2) \<and>
       ShareGetLimiter_check_and_record (e_inst (rs_env R2)) (e_inst2 (rs_env R2)) sid (client_ip_of (rs_cfg R) (get_request R2 sid))
         (share_get_limiter later) = (True, l) \<and>
       ShareBytesPerShareTracker_try_consume (e_inst (rs_env R2)) sid (length ct) (share_download_bytes later) = Some (True, t) \<and>
       conc_try_acquire sid (share_concurrency later) = (True, n) \<longrightarrow>
       fst (get_b2 (relay_http J R2) sid c2 later) = Inr ct) \<and>
    (\<exists>c3 st2. revoke_b2 (relay_http J R2) sid (scr_owner_token res) c2 later = (Inr (), c3, st2) \<and>
       (\<forall>evs' R3 c4 bs. \<not> list_ex is_sweep evs' \<and> rs_cfg R3 = rs_cfg R \<and> src_base_url c4 = rs_base R3 \<longrightarrow>
          fst (get_b2 (relay_http J R3) sid c4 (foldl (relay_apply (rs_P R) (rs_jwt R) (rs_cfg R)) st2 evs')) \<noteq> Inr bs))"
proof -
  note U = upload_b2_relay [OF up side(1-4)]
  note C = upload_b2_share_created [OF U [THEN conjunct1]]
  have id: "validate_share_id sid = Inr ()" using C by (simp add: relay_id_valid_for_client)
  from client_upload_state [OF start U [THEN conjunct1] side(6) quiet]
  obtain n where row: "map_of (shares (share_store later)) sid = Some \<lparr>kind = KindFile, created_at = e_now (rs_env R),
      expires_at = scr_expires_at res, revoked = False, sealed = True, token_nonce = rs_nonce R, total_bytes = n, bundle_token = None\<rparr>" (is "_ = Some ?row")
    and ct: "content (share_store later) sid ''main'' = Some ct" unfolding later by blast
  have only: "bs = ct" if "fst (get_b2 (relay_http J R2) sid c2 later) = Inr bs" for bs
    using that get_b2_share_Stream ct unfolding get_b2_relay [OF id other(4)] by (metis option.inject prod.collapse)
  have live: "live (share_store later) sid t" if "t < scr_expires_at res" for t using row that by (simp add: live_def)
  have gets: "fst (get_b2 (relay_http J R2) sid c2 later) = Inr ct"
    if "e_now (rs_env R2) < scr_expires_at res" "e_open (rs_env R2)" "e_stat (rs_env R2)"
      "ShareGetLimiter_check_and_record (e_inst (rs_env R2)) (e_inst2 (rs_env R2)) sid (client_ip_of (rs_cfg R) (get_request R2 sid))
         (share_get_limiter later) = (True, l)"
      "ShareBytesPerShareTracker_try_consume (e_inst (rs_env R2)) sid (length ct) (share_download_bytes later) = Some (True, t)"
      "conc_try_acquire sid (share_concurrency later) = (True, n)" for l t n
    using get_b2_share_passes [OF row _ live [OF that(1)] ct that(2-6)] unfolding get_b2_relay [OF id other(4)] other(3) by force
  have tok: "scr_owner_token res = compute_owner_token (rs_P R) (share_signing_key (rs_cfg R)) sid (rs_nonce R)" using C by blast
  then have hdr: "validate_header_value (scr_owner_token res) = Inr ()" by (simp add: compute_owner_token_def hex_encode_header)
  have V: "verify_owner_token (rs_P R) (share_signing_key (rs_cfg R)) sid (rs_nonce R) (scr_owner_token res)"
    using side(5) by (simp add: verify_owner_token_def tok compute_owner_token_def hex_roundtrip)
  obtain st2 where rev: "revoke_b2_share (rs_P R2) (rs_cfg R2) (rs_env R2) sid (revoke_request R2 sid (scr_owner_token res)) later = (Status 204, st2)"
      and ph: "phase (share_store st2) sid = Withdrawn"
    using row V side(5) by (auto simp: revoke_b2_share_def get_meta_def meta_of_def revoke_share_def Let_def phase_def other)
  obtain c3 where rc: "revoke_b2 (relay_http J R2) sid (scr_owner_token res) c2 later = (Inr (), c3, st2)"
    using revoke_b2_relay [OF id hdr other(4) rev] by (auto simp: read_revoked_def)
  have gone: "fst (get_b2 (relay_http J R3) sid c4 (foldl (relay_apply (rs_P R) (rs_jwt R) (rs_cfg R)) st2 evs')) \<noteq> Inr bs"
    if "\<not> list_ex is_sweep evs'" "src_base_url c4 = rs_base R3" for evs' R3 c4 bs
    using live_phase withdrawn_run [OF ph that(1)] get_b2_share_Stream unfolding get_b2_relay [OF id that(2)]
    by (metis SharePhase.distinct(11) prod.collapse)
  show ?thesis using U only gets rc gone by blast
qed

definition sample_side :: "int \<Rightarrow> relay_side" where
  "sample_side t = \<lparr>rs_P = toy_prims, rs_jwt = toy_jwt, rs_cfg = sample_share_cfg, rs_base = ''r'', rs_gate = None,
     rs_env = Share_Lifecycle.sample_env t, rs_nonce = replicate 16 9, rs_peer = IpV4 [1,2,3,4], rs_xff = None, rs_cut = (\<lambda>b. [b]),
     rs_cookies = (\<lambda>v. [(RELAY_COOKIE_NAME_SHARE, v)]), rs_declared = (\<lambda>_. None)\<rparr>"

lemma sample_side_request: "relay_request (sample_side t) (b2_request sample_id sample_blob 60 ''tok'' ''r'') = sample_req"
proof -
  have "show_nat 60 = ''60''" by code_simp
  then show ?thesis unfolding b2_request_fields by (simp add: sample_side_def sample_req_def)
qed

lemma sample_client_upload:
  assumes "upload_b2_share toy_prims toy_jwt sample_share_cfg (Share_Lifecycle.sample_env 1100) (replicate 16 9) sample_req sample_app =
     (ShareCreateResponse sample_id 1160 tok, st')"
  shows "\<exists>c'. upload_b2 (relay_http toy_codec (sample_side 1100)) toy_codec X sample_id sample_blob 60 ''tok'' (ShareRelayClient_new ''r/'') sample_app =
     (Inr \<lparr>scr_share_id = sample_id, scr_expires_at = 1160, scr_owner_token = tok\<rparr>, c', st')"
proof -
  have b: "src_base_url (ShareRelayClient_new ''r/'') = ''r''" by (simp add: ShareRelayClient_new_def)
  have id: "validate_share_id sample_id = Inr ()" by (rule relay_id_valid_for_client [OF sample_id_valid])
  have ck: "validate_header_value ''tok'' = Inr ()" by (simp add: validate_header_value_def)
  have route: "relay_route (sample_side 1100) (b2_request sample_id sample_blob 60 ''tok'' ''r'') sample_app = (ShareCreateResponse sample_id 1160 tok, st')"
    using relay_route_upload [of "sample_side 1100" sample_id sample_blob 60 "''tok''" sample_app] assms sample_side_request [of 1100]
    by (simp add: sample_side_def)
  show ?thesis
    using parse_created_ok [OF codec_ok_toy, of 1160 X "''B2 upload''" tok sample_id] route [unfolded b2_request_def]
    by (simp add: upload_b2_def exchange_def id ck b relay_http_def read_created_def)
qed

theorem share_client_delivers_witness:
  "\<exists>res c' st' c3 st2. upload_b2 (relay_http toy_codec (sample_side 1100)) toy_codec (\<lambda>_. []) sample_id sample_blob 60 ''tok''
      (ShareRelayClient_new ''r/'') sample_app = (Inr res, c', st') \<and> scr_share_id res = sample_id \<and>
    fst (get_b2 (relay_http toy_codec (sample_side 1110)) sample_id (ShareRelayClient_new ''r'') st') = Inr sample_blob \<and>
    revoke_b2 (relay_http toy_codec (sample_side 1110)) sample_id (scr_owner_token res) (ShareRelayClient_new ''r'') st' = (Inr (), c3, st2)"
proof -
  obtain tok st' where up: "upload_b2_share toy_prims toy_jwt sample_share_cfg (Share_Lifecycle.sample_env 1100) (replicate 16 9) sample_req sample_app =
      (ShareCreateResponse sample_id 1160 tok, st')"
    and g: "share_get_limiter st' = ShareGetLimiter_default" "share_download_bytes st' = ShareBytesPerShareTracker_new 100000"
      "share_concurrency st' = ShareConcurrencyTracker_new 1" using sample_upload by blast
  obtain c' where cup: "upload_b2 (relay_http toy_codec (sample_side 1100)) toy_codec (\<lambda>_. []) sample_id sample_blob 60 ''tok''
      (ShareRelayClient_new ''r/'') sample_app = (Inr \<lparr>scr_share_id = sample_id, scr_expires_at = 1160, scr_owner_token = tok\<rparr>, c', st')" (is "_ = (Inr ?res, _, _)")
    using sample_client_upload [OF up] by blast
  let ?env = "Share_Lifecycle.sample_env 1110"
  obtain l where L: "ShareGetLimiter_check_and_record (e_inst ?env) (e_inst2 ?env) sample_id
      (client_ip_of sample_share_cfg (get_request (sample_side 1110) sample_id)) (share_get_limiter st') = (True, l)"
    by (simp add: g ShareGetLimiter_check_and_record_def ShareGetLimiter_default_def SlidingWindowLimiterByKey_check_and_record_def
        keyed_check_and_record_def SlidingWindowLimiterByKey_new_with_cap_def SHARE_LIMITER_MAX_KEYS_def Let_def)
  obtain t where T: "ShareBytesPerShareTracker_try_consume (e_inst ?env) sample_id (length sample_blob) (share_download_bytes st') = Some (True, t)"
    by (simp add: g ShareBytesPerShareTracker_try_consume_def ShareBytesPerShareTracker_new_def Let_def sample_blob_facts)
  obtain n where N: "conc_try_acquire sample_id (share_concurrency st') = (True, n)"
    by (simp add: g conc_try_acquire_def conc_fetch_add_def ShareConcurrencyTracker_new_def Let_def get_or_def)
  have E: "e_now ?env < 1160" "e_open ?env" "e_stat ?env" by (simp_all add: Share_Lifecycle.sample_env_def)
  have side: "rs_P (sample_side t) = toy_prims" "rs_jwt (sample_side t) = toy_jwt" "rs_cfg (sample_side t) = sample_share_cfg" "rs_base (sample_side t) = ''r''"
    "rs_env (sample_side t) = Share_Lifecycle.sample_env t" "rs_gate (sample_side t) = None" "rs_nonce (sample_side t) = replicate 16 9"
    "rs_cut (sample_side t) b = [b]" for t b
    by (simp_all add: sample_side_def)
  have base: "src_base_url (ShareRelayClient_new ''r/'') = ''r''" "src_base_url (ShareRelayClient_new ''r'') = ''r''" by (simp_all add: ShareRelayClient_new_def)
  have now: "e_now (Share_Lifecycle.sample_env 1100) = 1100" by (simp add: Share_Lifecycle.sample_env_def)
  have init: "share_store sample_app = ShareStore_empty" by (simp add: sample_app_def)
  have D: "scr_share_id ?res = sample_id \<and>
      fst (get_b2 (relay_http toy_codec (sample_side 1110)) sample_id (ShareRelayClient_new ''r'') st') = Inr sample_blob \<and>
      (\<exists>c3 st2. revoke_b2 (relay_http toy_codec (sample_side 1110)) sample_id tok (ShareRelayClient_new ''r'') st' = (Inr (), c3, st2))"
    using share_client_delivers [OF init, of sample_app "sample_side 1100" "[]" toy_codec "\<lambda>_. []" sample_id sample_blob 60 "''tok''"
        "ShareRelayClient_new ''r/''" ?res c' st' "[]" st' "sample_side 1110" "ShareRelayClient_new ''r''"] cup L T N E
    by (simp add: side base now codec_ok_toy) blast
  show ?thesis using cup D by (intro exI [of _ ?res]) auto
qed

lemma solve_pow_guards: "solve_pow P n purpose d = Inr a \<Longrightarrow> length purpose \<le> 512 \<and> d \<le> MAX_POW_DIFFICULTY"
  by (simp add: solve_pow_def split: if_splits)

lemma ticket_consumed_once:
  assumes "hm_ok s" and "map_of s jti = None" and "u2 < e" and "u1 \<le> u2"
  shows "jti_run s [(u1, jti, e), (u2, jti, e)] = [True, False]"
proof -
  obtain ok s' where c: "JtiConsumedSet_try_consume u1 jti e s = (ok, s')" by fastforce
  note G = try_consume_get [OF assms(1), of u1 jti e, unfolded c fst_conv snd_conv]
  have ok: "ok" using G(1) assms(2) by simp
  then have "map_of s' jti = Some e" using G(2) [of jti] by simp
  then have "\<not> fst (JtiConsumedSet_try_consume u2 jti e s')" using try_consume_get(1) [OF G(3)] assms(3) by blast
  then show ?thesis using c ok by (cases "JtiConsumedSet_try_consume u2 jti e s'") simp
qed

text \<open>
  C39.  The ticket funnel from both ends: for a challenge the relay just issued, the answer the SDK's solver
  computes earns a cookie when it is posted from the same address within 60 seconds and the challenge is still pending; if the
  solver gives up although the difficulty and the purpose are within its limits, no answer would have earned one.
  The cookie verifies until it expires but is consumed by its first use, while the ticket cache
  keeps offering it for nine and a half minutes.
\<close>
theorem ticket_funnel:
  assumes "hm_ok (challenge_store st)" and "trim purpose = purpose"
    and get: "get_challenge cfg t0 t1 peer xff purpose uuid nb st = (Inr (nid, nonce, d), st1)"
    and kept: "map_of (challenge_store st2) nid = map_of (challenge_store st1) nid" and fresh: "duration_since t2 t1 < from_secs 60"
    and ttl: "ttl = (if purpose = ''stats'' then 120 else int (relay_cookie_ttl_secs cfg))"
    and claims: "claims = \<lparr>claim_jti = jti, claim_purpose = purpose, claim_iat = now, claim_exp = now + ttl\<rparr>"
    and jwt: "jwt_correct J" "jwt_encode J (relay_signing_key cfg) claims = Some tok"
    and name: "name = cookie_name_for_purpose purpose"
    and ms: "now_ms + RELAY_TICKET_TTL_MS \<le> u64_max"
  shows "(\<forall>a. solve_pow P nonce purpose d = Inr a \<longrightarrow>
       (\<exists>st3. post_relay_auth P J cfg t2 now peer xff nid a jti st2 = (Inr (name, tok, ttl), st3))) \<and>
    (\<forall>e a r. solve_pow P nonce purpose d = Inl e \<and> d \<le> 24 \<and> length purpose \<le> 512 \<longrightarrow>
       fst (post_relay_auth P J cfg t2 now peer xff nid a jti st2) \<noteq> Inr r) \<and>
    (\<forall>u1 u2 s. u1 \<le> u2 \<and> u2 < now + ttl \<and> hm_ok s \<and> map_of s jti = None \<longrightarrow>
       verify_relay_cookie J u1 [(name, tok)] name (relay_signing_key cfg) = Inr claims \<and>
       verify_relay_cookie J u2 [(name, tok)] name (relay_signing_key cfg) = Inr claims \<and>
       jti_run s [(u1, jti, now + ttl), (u2, jti, now + ttl)] = [True, False]) \<and>
    (\<exists>cache. RelayTicketCache_set_with_default_ttl purpose tok now_ms c = Some cache \<and>
       (\<forall>m. RelayTicketCache_get purpose m cache = (if m < now_ms + 570000 then Some tok else None)))"
proof (intro conjI)
  let ?ip = "extract_client_ip peer xff (trusted_proxies cfg)"
  have n: "nid = uuid" "nonce = hex_encode nb" "d = pow_difficulty_bits cfg" and
    st1: "challenge_store st1 = ChallengeStore_insert t1 uuid purpose nonce ?ip (challenge_store st)"
    using get by (auto simp: get_challenge_def Let_def assms(2) split: prod.splits bool.splits if_splits)
  let ?ch = "\<lparr>nonce_hex = nonce, ch_purpose = purpose, ch_created_at = t1, ch_client_ip = ?ip\<rparr>"
  have ch: "map_of (challenge_store st2) nid = Some ?ch" using kept by (simp add: st1 n(1) insert_get assms(1))
  have take: "ChallengeStore_take t2 nid (challenge_store st2) = (Some ?ch, AList.delete nid (challenge_store st2))"
    using ch fresh by (simp add: ChallengeStore_take_def Let_def challenge_ttl_def CHALLENGE_TTL_SECS_def)
  have post: "post_relay_auth P J cfg t2 now peer xff nid a jti st2 =
      (if verify_pow P nonce purpose d a then Inr (name, tok, ttl) else Inl 403,
       st2\<lparr>challenge_store := AList.delete nid (challenge_store st2)\<rparr>)" for a
    using take jwt(2) n by (cases "purpose = ''stats''") (simp_all add: post_relay_auth_def Let_def name ttl claims STATS_COOKIE_TTL_SECS_def)
  have dec: "hex_decode nonce = Some nb" by (simp add: n hex_roundtrip)
  note S = solve_pow_correct [OF dec]
  show "\<forall>a. solve_pow P nonce purpose d = Inr a \<longrightarrow>
      (\<exists>st3. post_relay_auth P J cfg t2 now peer xff nid a jti st2 = (Inr (name, tok, ttl), st3))"
    using S(1) solve_pow_guards by (auto simp: post)
  show "\<forall>e a r. solve_pow P nonce purpose d = Inl e \<and> d \<le> 24 \<and> length purpose \<le> 512 \<longrightarrow>
      fst (post_relay_auth P J cfg t2 now peer xff nid a jti st2) \<noteq> Inr r"
    using S(3) by (auto simp: post MAX_POW_DIFFICULTY_def)
next
  have V: "verify_relay_cookie J u [(name, tok)] name (relay_signing_key cfg) = Inr claims" if "u < now + ttl" for u
  proof -
    have "jwt_decode J (relay_signing_key cfg) u tok = Inr claims"
      using jwt that unfolding jwt_correct_def by (simp add: jwt_leeway_def claims)
    then show ?thesis by (simp add: verify_relay_cookie_def map_err_def)
  qed
  show "\<forall>u1 u2 s. u1 \<le> u2 \<and> u2 < now + ttl \<and> hm_ok s \<and> map_of s jti = None \<longrightarrow>
       verify_relay_cookie J u1 [(name, tok)] name (relay_signing_key cfg) = Inr claims \<and>
       verify_relay_cookie J u2 [(name, tok)] name (relay_signing_key cfg) = Inr claims \<and>
       jti_run s [(u1, jti, now + ttl), (u2, jti, now + ttl)] = [True, False]"
  proof (intro allI impI, elim conjE)
    fix u1 u2 :: int and s :: JtiConsumedSet
    assume u: "u1 \<le> u2" "u2 < now + ttl" "hm_ok s" "map_of s jti = None"
    have "u1 < now + ttl" using u(1,2) by simp
    then show "verify_relay_cookie J u1 [(name, tok)] name (relay_signing_key cfg) = Inr claims \<and>
       verify_relay_cookie J u2 [(name, tok)] name (relay_signing_key cfg) = Inr claims \<and>
       jti_run s [(u1, jti, now + ttl), (u2, jti, now + ttl)] = [True, False]"
      using V [OF u(2)] V [of u1] ticket_consumed_once [OF u(3,4,2,1)] by blast
  qed
  have "RelayTicketCache_set_with_default_ttl purpose tok now_ms c = Some (RelayTicketCache_set purpose tok (now_ms + 570000) c)"
    using ms by (simp add: RelayTicketCache_set_with_default_ttl_def RELAY_TICKET_TTL_MS_def)
  then show "\<exists>cache. RelayTicketCache_set_with_default_ttl purpose tok now_ms c = Some cache \<and>
       (\<forall>m. RelayTicketCache_get purpose m cache = (if m < now_ms + 570000 then Some tok else None))"
    by (simp add: get_after_set)
qed

definition sample_ticket_state :: AuthState where
  "sample_ticket_state = \<lparr>challenge_store = [], auth_challenge_limiter = AuthChallengeLimiter_new 10, jti_consumed = []\<rparr>"

lemma sample_solve: "solve_pow toy_prims (hex_encode [7]) ''share:b2'' 0 = Inr 0"
proof -
  have "sdk_hex_decode (hex_encode [7]) = Some [7]" by (rule sdk_hex_decode_agrees [OF hex_roundtrip])
  then show ?thesis by (simp add: solve_pow_def solve_from.simps)
qed

theorem ticket_funnel_witness:
  "\<exists>st1 st3. get_challenge sample_cfg 5 5 (IpV4 [1,2,3,4]) None ''share:b2'' ''n'' [7] sample_ticket_state = (Inr (''n'', hex_encode [7], 0), st1) \<and>
     post_relay_auth toy_prims toy_jwt sample_cfg 6 1000 (IpV4 [1,2,3,4]) None ''n'' 0 ''u'' st1 =
       (Inr (cookie_name_for_purpose ''share:b2'', ''tok'', 300), st3)"
proof -
  have v: "is_valid_purpose ''share:b2''" "trim ''share:b2'' = ''share:b2''" by code_simp+
  obtain l where l: "SlidingWindowLimiter_check_and_record 5 (IpV4 [1,2,3,4]) (auth_challenge_limiter sample_ticket_state) = (True, l)"
    by (simp add: sample_ticket_state_def AuthChallengeLimiter_new_def SlidingWindowLimiter_check_and_record_def sliding_check_and_record_def
        keyed_check_and_record_def SlidingWindowLimiter_new_def Let_def get_or_def hm_retain_def split: prod.splits)
  define st1 where "st1 = sample_ticket_state\<lparr>auth_challenge_limiter := l, challenge_store := ChallengeStore_insert 5 ''n'' ''share:b2'' (hex_encode [7])
      (IpV4 [1,2,3,4]) []\<rparr>"
  have get: "get_challenge sample_cfg 5 5 (IpV4 [1,2,3,4]) None ''share:b2'' ''n'' [7] sample_ticket_state = (Inr (''n'', hex_encode [7], 0), st1)"
    using l v by (simp add: get_challenge_def extract_client_ip_def sample_cfg_def Let_def st1_def) (simp add: sample_ticket_state_def)
  let ?claims = "\<lparr>claim_jti = ''u'', claim_purpose = ''share:b2'', claim_iat = 1000, claim_exp = 1000 + 300\<rparr> :: RelayClaims"
  have enc: "jwt_encode toy_jwt (relay_signing_key sample_cfg) ?claims = Some ''tok''" by (simp add: toy_jwt_def)
  have "\<exists>st3. post_relay_auth toy_prims toy_jwt sample_cfg 6 1000 (IpV4 [1,2,3,4]) None ''n'' 0 ''u'' st1 =
       (Inr (cookie_name_for_purpose ''share:b2'', ''tok'', 300), st3)"
    using ticket_funnel [OF _ v(2) get refl _ _ refl toy_jwt_correct enc refl, of 6 0 toy_prims Map.empty, THEN conjunct1] sample_solve
    by (simp add: sample_ticket_state_def sample_cfg_def duration_since_def from_secs_def RELAY_TICKET_TTL_MS_def)
  with get show ?thesis by blast
qed

end
