(* ===== verification/Sftp_Relay.thy ===== *)
theory Sftp_Relay
  imports Rate_Limit Json_Value
begin

text \<open>
  The SFTP gateway of the relay (\<open>byo-relay/src/sftp_relay.rs\<close>): the session set-up with its
  host-key confirmation and its failure accounting, and the command loop that turns JSON-RPC frames
  of the browser into SFTP operations.

  The SSH server and the crates that talk to it (\<open>russh\<close>, \<open>russh_sftp\<close>) are the records \<open>ssh_env\<close> and
  \<open>sftp_server\<close>, parameters of the definitions; the state of the remote side is the type \<open>'s\<close> they
  act on, an open remote file is an \<open>'f\<close>.  What arrives on the WebSocket is a list of events; a loop
  that has consumed the list without ending waits for more, which is the result \<open>None\<close>.  Each event
  says whether the sending half of the socket still takes frames (\<open>alive\<close>), since only the answers
  that are sent are seen by the client.  Logging is left out.
\<close>

subsection \<open>Wire types\<close>

datatype WsMessage = MsgText string | MsgBinary bytes | MsgPing | MsgPong | MsgClose

datatype SftpRelayError =
    SshConnect string | SshAuth | SftpInit string | UnexpectedMessage | SftpTimeout
  | HostKeyRejected | NotSshServer

definition IDLE_TIMEOUT :: int where "IDLE_TIMEOUT = from_secs (30 * 60)"
definition MAX_BINARY_FRAME :: nat where "MAX_BINARY_FRAME = 16 * 1024 * 1024"
definition MAX_STREAM_BUFFER :: nat where "MAX_STREAM_BUFFER = 200 * 1024 * 1024"
definition READ_CHUNK_SIZE :: nat where "READ_CHUNK_SIZE = 256 * 1024"
definition MAX_READ_SESSIONS :: nat where "MAX_READ_SESSIONS = 8"
definition RELAY_PROTOCOL_VERSION :: nat where "RELAY_PROTOCOL_VERSION = 3"

definition is_ssh_banner :: "bytes \<Rightarrow> bool" where
  "is_ssh_banner buf \<longleftrightarrow>
     take 7 buf = as_bytes ''SSH-2.0'' \<or> take 8 buf = as_bytes ''SSH-1.99''"

record SftpRequest =
  rq_id :: u32
  rq_method :: string
  rq_params :: Value

text \<open>
  The derived reader of \<open>WsRequest\<close>: the three fields of an object, all required, or the three
  elements of an array.  A text that repeats a field is outside the model.
\<close>

definition request_of :: "Value \<Rightarrow> Value \<Rightarrow> Value \<Rightarrow> SftpRequest option" where
  "request_of i m p =
     Option.bind (u32_of_value i) (\<lambda>rid. Option.bind (as_str m) (\<lambda>meth.
       Some \<lparr>rq_id = rid, rq_method = meth, rq_params = p\<rparr>))"

fun WsRequest_of_value :: "Value \<Rightarrow> SftpRequest option" where
  "WsRequest_of_value (Object fs) =
     Option.bind (map_of fs ''id'') (\<lambda>i. Option.bind (map_of fs ''method'') (\<lambda>m.
       Option.bind (map_of fs ''params'') (request_of i m)))"
| "WsRequest_of_value (Array vs) = (case vs of [i, m, p] \<Rightarrow> request_of i m p | _ \<Rightarrow> None)"
| "WsRequest_of_value _ = None"

definition parse_request :: "json_codec \<Rightarrow> string \<Rightarrow> SftpRequest option" where
  "parse_request J text = Option.bind (json_from_str J text) WsRequest_of_value"

definition ok_json :: "json_codec \<Rightarrow> u32 \<Rightarrow> Value \<Rightarrow> string" where
  "ok_json J rid result = json_to_string J (Object [(''id'', Number (uint rid)), (''result'', result)])"

definition err_json :: "json_codec \<Rightarrow> u32 \<Rightarrow> string \<Rightarrow> string" where
  "err_json J rid msg = json_to_string J (Object [(''error'', String msg), (''id'', Number (uint rid))])"

definition param_str :: "Value \<Rightarrow> string \<Rightarrow> string option" where
  "param_str params key = Option.bind (Value_get key params) as_str"

subsection \<open>The remote side\<close>

text \<open>An error of the SFTP crate is its displayed text.  Sizes and times are unsigned.\<close>

record Metadata =
  md_size :: "nat option"
  md_mtime :: "nat option"
  md_is_dir :: bool

record DirEntry =
  de_name :: string
  de_metadata :: Metadata

record Statvfs =
  blocks :: nat
  blocks_avail :: nat
  fragment_size :: nat

record ('s, 'f) sftp_server =
  sv_metadata :: "string \<Rightarrow> 's \<Rightarrow> (string + Metadata) \<times> 's"
  sv_fs_info :: "string \<Rightarrow> 's \<Rightarrow> (string + Statvfs option) \<times> 's"
  sv_read_dir :: "string \<Rightarrow> 's \<Rightarrow> (string + DirEntry list) \<times> 's"
  sv_read :: "string \<Rightarrow> 's \<Rightarrow> (string + bytes) \<times> 's"
  sv_open_read :: "string \<Rightarrow> 's \<Rightarrow> (string + 'f) \<times> 's"
  sv_file_read :: "'f \<Rightarrow> nat \<Rightarrow> 's \<Rightarrow> (string + bytes \<times> 'f) \<times> 's"
  sv_open_write :: "string \<Rightarrow> 's \<Rightarrow> (string + 'f) \<times> 's"
  sv_write_all :: "'f \<Rightarrow> bytes \<Rightarrow> 's \<Rightarrow> (string + 'f) \<times> 's"
  sv_shutdown :: "'f \<Rightarrow> 's \<Rightarrow> 's"
  sv_create_dir :: "string \<Rightarrow> 's \<Rightarrow> (string + unit) \<times> 's"
  sv_remove_file :: "string \<Rightarrow> 's \<Rightarrow> (string + unit) \<times> 's"
  sv_remove_dir :: "string \<Rightarrow> 's \<Rightarrow> (string + unit) \<times> 's"
  sv_rename :: "string \<Rightarrow> string \<Rightarrow> 's \<Rightarrow> (string + unit) \<times> 's"

definition sftp_write_file :: "('s, 'f) sftp_server \<Rightarrow> string \<Rightarrow> bytes \<Rightarrow> 's \<Rightarrow> (string + unit) \<times> 's" where
  "sftp_write_file S path data s =
     (case sv_open_write S path s of
        (Inl e, s) \<Rightarrow> (Inl e, s)
      | (Inr file, s) \<Rightarrow>
          (case sv_write_all S file data s of
             (Inl e, s) \<Rightarrow> (Inl e, s)
           | (Inr file, s) \<Rightarrow> (Inr (), sv_shutdown S file s)))"

subsection \<open>Session state\<close>

record WriteSession =
  wr_path :: string
  wr_buffer :: bytes

record 'f ReadSession =
  rd_file :: 'f
  rd_path :: string

datatype PendingBinary =
    PendWrite (pend_id: u32) string
  | PendWriteChunk (pend_id: u32) string
  | PendDrain (pend_id: u32) string

record ('s, 'f) sftp_session =
  pending_binary :: "PendingBinary option"
  write_sessions :: "(string, WriteSession) hmap"
  read_sessions :: "(string, 'f ReadSession) hmap"
  total_buffered :: nat
  bytes_up :: nat
  bytes_down :: nat
  remote :: 's
  sent :: "WsMessage list"

record SessionStats =
  st_bytes_up :: nat
  st_bytes_down :: nat
  close_reason :: string

definition dispatch_init :: "'s \<Rightarrow> ('s, 'f) sftp_session" where
  "dispatch_init s = \<lparr>pending_binary = None, write_sessions = [], read_sessions = [], total_buffered = 0,
     bytes_up = 0, bytes_down = 0, remote = s, sent = []\<rparr>"

definition send :: "bool \<Rightarrow> WsMessage \<Rightarrow> ('s, 'f) sftp_session \<Rightarrow> ('s, 'f) sftp_session" where
  "send alive m st = (if alive then st\<lparr>sent := sent st @ [m]\<rparr> else st)"

definition session_stats :: "string \<Rightarrow> ('s, 'f) sftp_session \<Rightarrow> SessionStats" where
  "session_stats reason st = \<lparr>st_bytes_up = bytes_up st, st_bytes_down = bytes_down st, close_reason = reason\<rparr>"

definition reply_ok :: "json_codec \<Rightarrow> bool \<Rightarrow> u32 \<Rightarrow> Value \<Rightarrow> ('s, 'f) sftp_session \<Rightarrow> ('s, 'f) sftp_session" where
  "reply_ok J alive rid v st = send alive (MsgText (ok_json J rid v)) st"

definition reply_err :: "json_codec \<Rightarrow> bool \<Rightarrow> u32 \<Rightarrow> string \<Rightarrow> ('s, 'f) sftp_session \<Rightarrow> ('s, 'f) sftp_session" where
  "reply_err J alive rid e st = send alive (MsgText (err_json J rid e)) st"

text \<open>Run an operation on the remote side and answer with its outcome.\<close>

definition on_remote :: "('s \<Rightarrow> 'r \<times> 's) \<Rightarrow> ('r \<Rightarrow> ('s, 'f) sftp_session \<Rightarrow> ('s, 'f) sftp_session) \<Rightarrow>
    ('s, 'f) sftp_session \<Rightarrow> ('s, 'f) sftp_session" where
  "on_remote f k st = (case f (remote st) of (r, s) \<Rightarrow> k r (st\<lparr>remote := s\<rparr>))"

definition reply_result :: "json_codec \<Rightarrow> bool \<Rightarrow> u32 \<Rightarrow> ('a \<Rightarrow> Value) \<Rightarrow> string + 'a \<Rightarrow>
    ('s, 'f) sftp_session \<Rightarrow> ('s, 'f) sftp_session" where
  "reply_result J alive rid f r st = (case r of Inl e \<Rightarrow> reply_err J alive rid e st | Inr x \<Rightarrow> reply_ok J alive rid (f x) st)"

text \<open>A required string parameter: without it the command is answered with an error.\<close>

definition with_param :: "json_codec \<Rightarrow> bool \<Rightarrow> SftpRequest \<Rightarrow> string \<Rightarrow>
    (string \<Rightarrow> ('s, 'f) sftp_session \<Rightarrow> ('s, 'f) sftp_session) \<Rightarrow> ('s, 'f) sftp_session \<Rightarrow> ('s, 'f) sftp_session" where
  "with_param J alive req key k st =
     (case param_str (rq_params req) key of
        None \<Rightarrow> reply_err J alive (rq_id req) (''missing '' @ key) st
      | Some p \<Rightarrow> k p st)"


subsection \<open>Commands\<close>

definition empty_object :: Value where "empty_object = Object []"

definition metadata_fields :: "Metadata \<Rightarrow> Value" where
  "metadata_fields m = Object
     [(''isDir'', Bool (md_is_dir m)),
      (''mtime'', Number (int (case md_mtime m of Some t \<Rightarrow> t | None \<Rightarrow> 0))),
      (''size'', Number (int (case md_size m of Some n \<Rightarrow> n | None \<Rightarrow> 0)))]"

definition verb_stat :: "('s, 'f) sftp_server \<Rightarrow> json_codec \<Rightarrow> bool \<Rightarrow> SftpRequest \<Rightarrow> ('s, 'f) sftp_session \<Rightarrow> ('s, 'f) sftp_session" where
  "verb_stat S J alive req =
     with_param J alive req ''path'' (\<lambda>path.
       on_remote (sv_metadata S path) (reply_result J alive (rq_id req) metadata_fields))"

fun fs_info_value :: "string + Statvfs option \<Rightarrow> Value" where
  "fs_info_value (Inr (Some v)) = Object
     [(''freeBytes'', Number (int (sat_mul64 (blocks_avail v) (fragment_size v)))),
      (''supported'', Bool True),
      (''totalBytes'', Number (int (sat_mul64 (blocks v) (fragment_size v))))]"
| "fs_info_value (Inr None) = Object [(''supported'', Bool False)]"
| "fs_info_value (Inl e) = Object [(''reason'', String e), (''supported'', Bool False)]"

definition verb_fs_info :: "('s, 'f) sftp_server \<Rightarrow> json_codec \<Rightarrow> bool \<Rightarrow> SftpRequest \<Rightarrow> ('s, 'f) sftp_session \<Rightarrow> ('s, 'f) sftp_session" where
  "verb_fs_info S J alive req =
     (let path = (case param_str (rq_params req) ''path'' of Some p \<Rightarrow> p | None \<Rightarrow> ''/'') in
      on_remote (sv_fs_info S path) (\<lambda>r. reply_ok J alive (rq_id req) (fs_info_value r)))"

definition entry_value :: "string \<Rightarrow> DirEntry \<Rightarrow> Value" where
  "entry_value path e =
     (let m = de_metadata e in
      Object [(''isDir'', Bool (md_is_dir m)),
              (''mtime'', Number (int (case md_mtime m of Some t \<Rightarrow> t | None \<Rightarrow> 0))),
              (''name'', String (de_name e)),
              (''path'', String (trim_end_matches CHR ''/'' path @ ''/'' @ de_name e)),
              (''size'', Number (int (case md_size m of Some n \<Rightarrow> n | None \<Rightarrow> 0)))])"

definition verb_list :: "('s, 'f) sftp_server \<Rightarrow> json_codec \<Rightarrow> bool \<Rightarrow> SftpRequest \<Rightarrow> ('s, 'f) sftp_session \<Rightarrow> ('s, 'f) sftp_session" where
  "verb_list S J alive req =
     with_param J alive req ''path'' (\<lambda>path.
       on_remote (sv_read_dir S path) (reply_result J alive (rq_id req)
         (\<lambda>entries. Object [(''entries'', Array (map (entry_value path) entries))])))"

text \<open>The two frames of an answer that carries file data; a header that cannot be sent ends the answer.\<close>

definition send_data :: "json_codec \<Rightarrow> bool \<Rightarrow> u32 \<Rightarrow> bytes \<Rightarrow> ('s, 'f) sftp_session \<Rightarrow> ('s, 'f) sftp_session" where
  "send_data J alive rid data st =
     (let header = ok_json J rid (Object [(''size'', Number (int (length data)))]);
          st = send alive (MsgText header) st in
      if \<not> alive then st
      else
        let st = st\<lparr>bytes_down := sat_add64 (bytes_down st) (length header)\<rparr>;
            st = send alive (MsgBinary data) st in
        st\<lparr>bytes_down := sat_add64 (bytes_down st) (length data)\<rparr>)"

definition verb_read :: "('s, 'f) sftp_server \<Rightarrow> json_codec \<Rightarrow> bool \<Rightarrow> SftpRequest \<Rightarrow> ('s, 'f) sftp_session \<Rightarrow> ('s, 'f) sftp_session" where
  "verb_read S J alive req =
     with_param J alive req ''path'' (\<lambda>path.
       on_remote (sv_read S path) (\<lambda>r st.
         case r of Inl e \<Rightarrow> reply_err J alive (rq_id req) e st
                 | Inr data \<Rightarrow> send_data J alive (rq_id req) data st))"

definition verb_write :: "SftpRequest \<Rightarrow> ('s, 'f) sftp_session \<Rightarrow> ('s, 'f) sftp_session" where
  "verb_write req st =
     st\<lparr>pending_binary :=
       Some (case param_str (rq_params req) ''path'' of
               None \<Rightarrow> PendDrain (rq_id req) ''missing path''
             | Some path \<Rightarrow> PendWrite (rq_id req) path)\<rparr>"

definition hex_bytes :: "bytes \<Rightarrow> string" where
  "hex_bytes bs = concat (map (\<lambda>b. [hex_digit (unat b div 16), hex_digit (unat b mod 16)]) bs)"

text \<open>\<open>rnd\<close> is the sixteen random bytes drawn for the handle.\<close>

definition verb_write_open :: "json_codec \<Rightarrow> bytes \<Rightarrow> bool \<Rightarrow> SftpRequest \<Rightarrow> ('s, 'f) sftp_session \<Rightarrow> ('s, 'f) sftp_session" where
  "verb_write_open J rnd alive req =
     with_param J alive req ''path'' (\<lambda>path st.
       let handle = ''wh-'' @ hex_bytes rnd;
           st = st\<lparr>write_sessions := AList.update handle \<lparr>wr_path = path, wr_buffer = []\<rparr> (write_sessions st)\<rparr> in
       reply_ok J alive (rq_id req) (Object [(''handle'', String handle)]) st)"

definition verb_write_chunk :: "SftpRequest \<Rightarrow> ('s, 'f) sftp_session \<Rightarrow> ('s, 'f) sftp_session" where
  "verb_write_chunk req st =
     st\<lparr>pending_binary :=
       Some (case param_str (rq_params req) ''handle'' of
               None \<Rightarrow> PendDrain (rq_id req) ''missing handle''
             | Some handle \<Rightarrow>
                 if map_of (write_sessions st) handle = None then PendDrain (rq_id req) ''unknown write handle''
                 else PendWriteChunk (rq_id req) handle)\<rparr>"

definition write_reply :: "json_codec \<Rightarrow> bool \<Rightarrow> u32 \<Rightarrow> string \<Rightarrow> string + unit \<Rightarrow> ('s, 'f) sftp_session \<Rightarrow> ('s, 'f) sftp_session" where
  "write_reply J alive rid path r st =
     (case r of Inr _ \<Rightarrow> reply_ok J alive rid empty_object st
              | Inl e \<Rightarrow> reply_err J alive rid (''write to '' @ path @ '': '' @ e) st)"

definition verb_write_close :: "('s, 'f) sftp_server \<Rightarrow> json_codec \<Rightarrow> bool \<Rightarrow> SftpRequest \<Rightarrow> ('s, 'f) sftp_session \<Rightarrow> ('s, 'f) sftp_session" where
  "verb_write_close S J alive req =
     with_param J alive req ''handle'' (\<lambda>handle st.
       case map_of (write_sessions st) handle of
         None \<Rightarrow> reply_err J alive (rq_id req) ''unknown write handle'' st
       | Some session \<Rightarrow>
           let st = st\<lparr>write_sessions := AList.delete handle (write_sessions st),
                       total_buffered := total_buffered st - length (wr_buffer session)\<rparr> in
           on_remote (sftp_write_file S (wr_path session) (wr_buffer session))
             (write_reply J alive (rq_id req) (wr_path session)) st)"

definition verb_write_abort :: "json_codec \<Rightarrow> bool \<Rightarrow> SftpRequest \<Rightarrow> ('s, 'f) sftp_session \<Rightarrow> ('s, 'f) sftp_session" where
  "verb_write_abort J alive req =
     with_param J alive req ''handle'' (\<lambda>handle st.
       let st = (case map_of (write_sessions st) handle of
                   None \<Rightarrow> st
                 | Some session \<Rightarrow>
                     st\<lparr>write_sessions := AList.delete handle (write_sessions st),
                        total_buffered := total_buffered st - length (wr_buffer session)\<rparr>) in
       reply_ok J alive (rq_id req) empty_object st)"

definition verb_read_open :: "('s, 'f) sftp_server \<Rightarrow> json_codec \<Rightarrow> bytes \<Rightarrow> bool \<Rightarrow> SftpRequest \<Rightarrow> ('s, 'f) sftp_session \<Rightarrow> ('s, 'f) sftp_session" where
  "verb_read_open S J rnd alive req =
     with_param J alive req ''path'' (\<lambda>path st.
       if length (read_sessions st) \<ge> MAX_READ_SESSIONS
       then reply_err J alive (rq_id req) ''too many open read sessions'' st
       else on_remote (sv_open_read S path) (\<lambda>r st.
         case r of
           Inl e \<Rightarrow> reply_err J alive (rq_id req) e st
         | Inr file \<Rightarrow>
             let handle = ''rh-'' @ hex_bytes rnd;
                 st = st\<lparr>read_sessions := AList.update handle \<lparr>rd_file = file, rd_path = path\<rparr> (read_sessions st)\<rparr> in
             reply_ok J alive (rq_id req) (Object [(''handle'', String handle)]) st) st)"

definition verb_read_chunk :: "('s, 'f) sftp_server \<Rightarrow> json_codec \<Rightarrow> bool \<Rightarrow> SftpRequest \<Rightarrow> ('s, 'f) sftp_session \<Rightarrow> ('s, 'f) sftp_session" where
  "verb_read_chunk S J alive req =
     with_param J alive req ''handle'' (\<lambda>handle st.
       case map_of (read_sessions st) handle of
         None \<Rightarrow> reply_err J alive (rq_id req) ''unknown read handle'' st
       | Some session \<Rightarrow>
           on_remote (sv_file_read S (rd_file session) READ_CHUNK_SIZE) (\<lambda>r st.
             case r of
               Inl e \<Rightarrow>
                 (let st = reply_err J alive (rq_id req) e st in
                  st\<lparr>read_sessions := AList.delete handle (read_sessions st)\<rparr>)
             | Inr (buf, file) \<Rightarrow>
                 (let st = st\<lparr>read_sessions := AList.update handle (session\<lparr>rd_file := file\<rparr>) (read_sessions st)\<rparr> in
                  send_data J alive (rq_id req) buf st)) st)"

definition verb_read_close :: "json_codec \<Rightarrow> bool \<Rightarrow> SftpRequest \<Rightarrow> ('s, 'f) sftp_session \<Rightarrow> ('s, 'f) sftp_session" where
  "verb_read_close J alive req =
     with_param J alive req ''handle'' (\<lambda>handle st.
       let st = st\<lparr>read_sessions := AList.delete handle (read_sessions st)\<rparr> in
       reply_ok J alive (rq_id req) empty_object st)"

definition verb_mkdir :: "('s, 'f) sftp_server \<Rightarrow> json_codec \<Rightarrow> bool \<Rightarrow> SftpRequest \<Rightarrow> ('s, 'f) sftp_session \<Rightarrow> ('s, 'f) sftp_session" where
  "verb_mkdir S J alive req =
     with_param J alive req ''path'' (\<lambda>path.
       on_remote (sv_create_dir S path) (reply_result J alive (rq_id req) (\<lambda>_. empty_object)))"

text \<open>File first, then directory.\<close>

definition verb_delete :: "('s, 'f) sftp_server \<Rightarrow> json_codec \<Rightarrow> bool \<Rightarrow> SftpRequest \<Rightarrow> ('s, 'f) sftp_session \<Rightarrow> ('s, 'f) sftp_session" where
  "verb_delete S J alive req =
     with_param J alive req ''path'' (\<lambda>path.
       on_remote (sv_remove_file S path) (\<lambda>r st.
         case r of
           Inr _ \<Rightarrow> reply_ok J alive (rq_id req) empty_object st
         | Inl _ \<Rightarrow> on_remote (sv_remove_dir S path) (reply_result J alive (rq_id req) (\<lambda>_. empty_object)) st))"

definition or_param :: "Value \<Rightarrow> string \<Rightarrow> string \<Rightarrow> string option" where
  "or_param params key legacy = (case param_str params key of Some p \<Rightarrow> Some p | None \<Rightarrow> param_str params legacy)"

text \<open>The target is unlinked before the rename, whatever that answers.\<close>

definition verb_rename :: "('s, 'f) sftp_server \<Rightarrow> json_codec \<Rightarrow> bool \<Rightarrow> SftpRequest \<Rightarrow> ('s, 'f) sftp_session \<Rightarrow> ('s, 'f) sftp_session" where
  "verb_rename S J alive req st =
     (case or_param (rq_params req) ''from'' ''oldPath'' of
        None \<Rightarrow> reply_err J alive (rq_id req) ''missing from'' st
      | Some old \<Rightarrow>
          (case or_param (rq_params req) ''to'' ''newPath'' of
             None \<Rightarrow> reply_err J alive (rq_id req) ''missing to'' st
           | Some new \<Rightarrow>
               on_remote (sv_remove_file S new) (\<lambda>_.
                 on_remote (sv_rename S old new) (reply_result J alive (rq_id req) (\<lambda>_. empty_object))) st))"

definition handle_text_command :: "('s, 'f) sftp_server \<Rightarrow> json_codec \<Rightarrow> bytes \<Rightarrow> bool \<Rightarrow> SftpRequest \<Rightarrow> ('s, 'f) sftp_session \<Rightarrow> ('s, 'f) sftp_session" where
  "handle_text_command S J rnd alive req =
     (let meth = rq_method req in
      if meth = ''stat'' then verb_stat S J alive req
      else if meth = ''fs_info'' then verb_fs_info S J alive req
      else if meth = ''list'' then verb_list S J alive req
      else if meth = ''read'' then verb_read S J alive req
      else if meth = ''write'' then verb_write req
      else if meth = ''write_open'' then verb_write_open J rnd alive req
      else if meth = ''write_chunk'' then verb_write_chunk req
      else if meth = ''write_close'' then verb_write_close S J alive req
      else if meth = ''write_abort'' then verb_write_abort J alive req
      else if meth = ''read_open'' then verb_read_open S J rnd alive req
      else if meth = ''read_chunk'' then verb_read_chunk S J alive req
      else if meth = ''read_close'' then verb_read_close J alive req
      else if meth = ''mkdir'' then verb_mkdir S J alive req
      else if meth = ''delete'' then verb_delete S J alive req
      else if meth = ''rename'' then verb_rename S J alive req
      else reply_err J alive (rq_id req) ''unknown method'')"


subsection \<open>The command loop\<close>

text \<open>\<open>Elapsed now\<close>: the timer the loop waits on has fired, the clock reads \<open>now\<close>.\<close>

datatype ws_event = Frame WsMessage | Elapsed instant | StreamEnd | StreamError

definition stream_chunk :: "json_codec \<Rightarrow> bool \<Rightarrow> u32 \<Rightarrow> string \<Rightarrow> bytes \<Rightarrow> ('s, 'f) sftp_session \<Rightarrow> ('s, 'f) sftp_session" where
  "stream_chunk J alive req_id handle data st =
     (case map_of (write_sessions st) handle of
        None \<Rightarrow> reply_err J alive req_id ''unknown write handle'' st
      | Some session \<Rightarrow>
          if sat_add64 (total_buffered st) (length data) > MAX_STREAM_BUFFER
          then reply_err J alive req_id ''stream buffer limit exceeded'' st
          else
            let st = st\<lparr>write_sessions := AList.update handle (session\<lparr>wr_buffer := wr_buffer session @ data\<rparr>) (write_sessions st),
                        total_buffered := sat_add64 (total_buffered st) (length data)\<rparr> in
            reply_ok J alive req_id empty_object st)"

definition deliver_binary :: "('s, 'f) sftp_server \<Rightarrow> json_codec \<Rightarrow> bool \<Rightarrow> bytes \<Rightarrow> ('s, 'f) sftp_session \<Rightarrow> ('s, 'f) sftp_session" where
  "deliver_binary S J alive data st =
     (let pending = pending_binary st; st = st\<lparr>pending_binary := None\<rparr> in
      case pending of
        Some (PendDrain req_id reason) \<Rightarrow> reply_err J alive req_id reason st
      | Some (PendWrite req_id path) \<Rightarrow>
          on_remote (sftp_write_file S path data) (write_reply J alive req_id path) st
      | Some (PendWriteChunk req_id handle) \<Rightarrow> stream_chunk J alive req_id handle data st
      | None \<Rightarrow> st)"

definition reject_oversized :: "json_codec \<Rightarrow> bool \<Rightarrow> ('s, 'f) sftp_session \<Rightarrow> ('s, 'f) sftp_session" where
  "reject_oversized J alive st =
     (case pending_binary st of
        Some pb \<Rightarrow> reply_err J alive (pend_id pb) ''payload too large'' (st\<lparr>pending_binary := None\<rparr>)
      | None \<Rightarrow> reply_err J alive 0 ''unexpected oversized binary frame'' st)"

definition dispatch_step :: "('s, 'f) sftp_server \<Rightarrow> json_codec \<Rightarrow> bytes \<Rightarrow> bool \<Rightarrow> ws_event \<Rightarrow> ('s, 'f) sftp_session \<Rightarrow>
    (SftpRelayError + SessionStats) option \<times> ('s, 'f) sftp_session" where
  "dispatch_step S J rnd alive ev st =
     (case ev of
        Elapsed _ \<Rightarrow> (Some (Inl SftpTimeout), st)
      | StreamEnd \<Rightarrow> (Some (Inr (session_stats ''client_closed'' st)), st)
      | StreamError \<Rightarrow> (Some (Inr (session_stats ''client_closed'' st)), st)
      | Frame msg \<Rightarrow>
          (case msg of
             MsgText text \<Rightarrow>
               let st = st\<lparr>bytes_up := sat_add64 (bytes_up st) (length text)\<rparr> in
               (None, case parse_request J text of
                        None \<Rightarrow> st
                      | Some req \<Rightarrow> handle_text_command S J rnd alive req st)
           | MsgBinary data \<Rightarrow>
               if length data > MAX_BINARY_FRAME
               then let st = reject_oversized J alive st in (Some (Inr (session_stats ''oversized_binary_frame'' st)), st)
               else (None, deliver_binary S J alive data (st\<lparr>bytes_up := sat_add64 (bytes_up st) (length data)\<rparr>))
           | MsgClose \<Rightarrow> (Some (Inr (session_stats ''client_closed'' st)), st)
           | MsgPing \<Rightarrow> (None, st)
           | MsgPong \<Rightarrow> (None, st)))"

type_synonym ws_input = "bytes \<times> bool \<times> ws_event"

fun dispatch_loop :: "('s, 'f) sftp_server \<Rightarrow> json_codec \<Rightarrow> ws_input list \<Rightarrow> ('s, 'f) sftp_session \<Rightarrow>
    (SftpRelayError + SessionStats) option \<times> ('s, 'f) sftp_session" where
  "dispatch_loop S J [] st = (None, st)"
| "dispatch_loop S J ((rnd, alive, ev) # es) st =
     (case dispatch_step S J rnd alive ev st of
        (Some r, st') \<Rightarrow> (Some r, st')
      | (None, st') \<Rightarrow> dispatch_loop S J es st')"

subsection \<open>Session set-up\<close>

text \<open>
  Keepalive frames are skipped, and a ping is sent whenever the timer fires before the deadline;
  neither moves the deadline.
\<close>

fun recv_text_or_close :: "instant \<Rightarrow> ws_input list \<Rightarrow> WsMessage list \<Rightarrow> (SftpRelayError + WsMessage) option \<times> ws_input list \<times> WsMessage list" where
  "recv_text_or_close deadline [] out = (None, [], out)"
| "recv_text_or_close deadline ((rnd, alive, ev) # es) out =
     (case ev of
        Elapsed now \<Rightarrow>
          if now \<ge> deadline then (Some (Inl SftpTimeout), es, out)
          else recv_text_or_close deadline es (if alive then out @ [MsgPing] else out)
      | StreamEnd \<Rightarrow> (Some (Inl HostKeyRejected), es, out)
      | StreamError \<Rightarrow> (Some (Inl UnexpectedMessage), es, out)
      | Frame msg \<Rightarrow>
          (case msg of
             MsgPing \<Rightarrow> recv_text_or_close deadline es out
           | MsgPong \<Rightarrow> recv_text_or_close deadline es out
           | MsgText _ \<Rightarrow> (Some (Inr msg), es, out)
           | MsgClose \<Rightarrow> (Some (Inr msg), es, out)
           | MsgBinary _ \<Rightarrow> (Some (Inl UnexpectedMessage), es, out)))"

datatype Credential = Password string | PrivateKey string "string option"

record AuthParams =
  au_id :: u32
  au_username :: string
  au_credential :: Credential

definition parse_credential :: "Value \<Rightarrow> SftpRelayError + Credential" where
  "parse_credential params =
     (let kind = (case param_str params ''type'' of Some t \<Rightarrow> t | None \<Rightarrow> ''password'') in
      if kind = ''password'' then
        and_then (ok_or SshAuth (param_str params ''password'')) (\<lambda>pw. Inr (Password pw))
      else if kind = ''publickey'' then
        and_then (ok_or SshAuth (param_str params ''privateKey'')) (\<lambda>pem.
          Inr (PrivateKey pem (param_str params ''passphrase'')))
      else Inl SshAuth)"

definition parse_auth :: "json_codec \<Rightarrow> WsMessage \<Rightarrow> SftpRelayError + AuthParams" where
  "parse_auth J msg =
     (case msg of
        MsgText text \<Rightarrow>
          and_then (ok_or UnexpectedMessage (parse_request J text)) (\<lambda>req.
          if rq_method req \<noteq> ''auth'' then Inl UnexpectedMessage
          else and_then (ok_or SshAuth (param_str (rq_params req) ''username'')) (\<lambda>username.
            and_then (parse_credential (rq_params req)) (\<lambda>credential.
              Inr \<lparr>au_id = rq_id req, au_username = username, au_credential = credential\<rparr>)))
      | _ \<Rightarrow> Inl UnexpectedMessage)"

text \<open>
  The SSH side of one session: the connection attempt, the successive results of \<open>peek\<close> until its
  deadline, the handshake with the fingerprint it captured, authentication, and the SFTP
  subsystem with the state of the remote file system.
\<close>

record ('s, 'k) ssh_env =
  ssh_connect :: "string + unit"
  ssh_peeks :: "bytes option list"
  ssh_handshake :: "string + string option"
  ssh_password :: "string \<Rightarrow> string \<Rightarrow> string + bool"
  ssh_from_openssh :: "bytes \<Rightarrow> 'k option"
  ssh_decrypt_key :: "string \<Rightarrow> 'k \<Rightarrow> 'k option"
  ssh_publickey :: "string \<Rightarrow> 'k \<Rightarrow> string + bool"
  ssh_subsystem :: "string + 's"

fun await_banner :: "bytes option list \<Rightarrow> SftpRelayError + unit" where
  "await_banner [] = Inl NotSshServer"
| "await_banner (None # ps) = Inl NotSshServer"
| "await_banner (Some banner # ps) =
     (if length banner \<ge> 8 then (if \<not> is_ssh_banner banner then Inl NotSshServer else Inr ())
      else await_banner ps)"

definition auth_pubkey :: "('s, 'k) ssh_env \<Rightarrow> string \<Rightarrow> string \<Rightarrow> string option \<Rightarrow> SftpRelayError + bool" where
  "auth_pubkey E username pem passphrase =
     and_then (case passphrase of
                 Some pp \<Rightarrow> and_then (ok_or SshAuth (ssh_from_openssh E (as_bytes pem))) (\<lambda>k.
                              ok_or SshAuth (ssh_decrypt_key E pp k))
               | None \<Rightarrow> ok_or SshAuth (ssh_from_openssh E (as_bytes pem)))
       (\<lambda>key. map_err SshConnect (ssh_publickey E username key))"

definition authenticate :: "('s, 'k) ssh_env \<Rightarrow> AuthParams \<Rightarrow> SftpRelayError + bool" where
  "authenticate E au =
     (case au_credential au of
        Password pw \<Rightarrow> map_err SshConnect (ssh_password E (au_username au) pw)
      | PrivateKey pem passphrase \<Rightarrow> auth_pubkey E (au_username au) pem passphrase)"

definition host_key_frame :: "string \<Rightarrow> Value" where
  "host_key_frame fingerprint = Object
     [(''fingerprint'', String fingerprint), (''relay_version'', Number (int RELAY_PROTOCOL_VERSION)), (''type'', String ''host_key'')]"

definition check_ack :: "json_codec \<Rightarrow> WsMessage \<Rightarrow> SftpRelayError + unit" where
  "check_ack J ack =
     (case ack of
        MsgText t \<Rightarrow>
          and_then (ok_or UnexpectedMessage (json_from_str J t)) (\<lambda>v.
            if param_str v ''type'' \<noteq> Some ''host_key_accepted'' then Inl HostKeyRejected else Inr ())
      | _ \<Rightarrow> Inl HostKeyRejected)"

text \<open>The clock readings of a session: at its start, when each wait begins, and when the failure is recorded.\<close>

record session_clock =
  ck_start :: instant
  ck_ack :: instant
  ck_auth :: instant
  ck_fail :: instant

text \<open>The liveness of the sending half at the three answers of the set-up.\<close>

record set_up_alive =
  al_host_key :: bool
  al_auth :: bool

record session_end =
  en_result :: "(SftpRelayError + SessionStats) option"
  en_tracker :: SftpAuthFailureTracker
  en_sent :: "WsMessage list"

definition ended :: "SftpRelayError \<Rightarrow> SftpAuthFailureTracker \<Rightarrow> WsMessage list \<Rightarrow> session_end" where
  "ended e t out = \<lparr>en_result = Some (Inl e), en_tracker = t, en_sent = out\<rparr>"

definition run_authenticated :: "('s, 'f) sftp_server \<Rightarrow> json_codec \<Rightarrow> ('s, 'k) ssh_env \<Rightarrow> bool \<Rightarrow> AuthParams \<Rightarrow> ws_input list \<Rightarrow>
    WsMessage list \<Rightarrow> SftpAuthFailureTracker \<Rightarrow> session_end" where
  "run_authenticated S J E alive au es out t =
     (case ssh_subsystem E of
        Inl e \<Rightarrow> ended (SftpInit e) t out
      | Inr s \<Rightarrow>
          (let st = (dispatch_init s)\<lparr>sent := out\<rparr>;
               st = send alive (MsgText (ok_json J (au_id au) empty_object)) st in
           case dispatch_loop S J es st of
             (r, st') \<Rightarrow> \<lparr>en_result = r, en_tracker = t, en_sent = sent st'\<rparr>))"

definition run_auth :: "('s, 'f) sftp_server \<Rightarrow> json_codec \<Rightarrow> ('s, 'k) ssh_env \<Rightarrow> session_clock \<Rightarrow> bool \<Rightarrow> IpAddr \<Rightarrow> WsMessage \<Rightarrow>
    ws_input list \<Rightarrow> WsMessage list \<Rightarrow> SftpAuthFailureTracker \<Rightarrow> session_end" where
  "run_auth S J E ck alive client_ip auth_msg es out t =
     (case parse_auth J auth_msg of
        Inl e \<Rightarrow> ended e t out
      | Inr au \<Rightarrow>
          (let t = record_failure (ck_fail ck) client_ip t in
           case authenticate E au of
             Inl e \<Rightarrow> ended e t out
           | Inr ok \<Rightarrow>
               if \<not> ok
               then ended SshAuth t (if alive then out @ [MsgText (err_json J (au_id au) ''authentication failed'')] else out)
               else run_authenticated S J E alive au es out (refund_failure client_ip t)))"

definition run_session :: "('s, 'f) sftp_server \<Rightarrow> json_codec \<Rightarrow> ('s, 'k) ssh_env \<Rightarrow> session_clock \<Rightarrow> set_up_alive \<Rightarrow> IpAddr \<Rightarrow>
    ws_input list \<Rightarrow> SftpAuthFailureTracker \<Rightarrow> session_end" where
  "run_session S J E ck al client_ip es t =
     (case and_then (map_err SshConnect (ssh_connect E)) (\<lambda>_.
           and_then (await_banner (ssh_peeks E)) (\<lambda>_. map_err SshConnect (ssh_handshake E))) of
        Inl e \<Rightarrow> ended e t []
      | Inr captured \<Rightarrow>
          (let fingerprint = (case captured of Some fp \<Rightarrow> fp | None \<Rightarrow> []) in
           if \<not> al_host_key al then ended UnexpectedMessage t []
           else
             (case recv_text_or_close (ck_ack ck + from_secs 30) es [MsgText (json_to_string J (host_key_frame fingerprint))] of
                (None, _, out) \<Rightarrow> \<lparr>en_result = None, en_tracker = t, en_sent = out\<rparr>
              | (Some (Inl e), _, out) \<Rightarrow> ended e t out
              | (Some (Inr ack), es, out) \<Rightarrow>
                  (case check_ack J ack of
                     Inl e \<Rightarrow> ended e t out
                   | Inr _ \<Rightarrow>
                       (case recv_text_or_close (ck_auth ck + from_secs 30) es out of
                          (None, _, out) \<Rightarrow> \<lparr>en_result = None, en_tracker = t, en_sent = out\<rparr>
                        | (Some (Inl e), _, out) \<Rightarrow> ended e t out
                        | (Some (Inr auth_msg), es, out) \<Rightarrow> run_auth S J E ck (al_auth al) client_ip auth_msg es out t)))))"

definition handle_sftp_session :: "('s, 'f) sftp_server \<Rightarrow> json_codec \<Rightarrow> ('s, 'k) ssh_env \<Rightarrow> session_clock \<Rightarrow> set_up_alive \<Rightarrow> IpAddr \<Rightarrow>
    string \<Rightarrow> ws_input list \<Rightarrow> SftpAuthFailureTracker \<Rightarrow> session_end" where
  "handle_sftp_session S J E ck al client_ip remote_host es t =
     (case record_host (ck_start ck) client_ip remote_host t of
        (True, t) \<Rightarrow> \<lparr>en_result = None, en_tracker = t, en_sent = [MsgClose]\<rparr>
      | (False, t) \<Rightarrow> run_session S J E ck al client_ip es t)"

subsection \<open>Memory held by a session\<close>

definition buffered :: "(string, WriteSession) hmap \<Rightarrow> nat" where
  "buffered m = sum_list (map (\<lambda>(_, w). length (wr_buffer w)) m)"

definition session_bounded :: "('s, 'f) sftp_session \<Rightarrow> bool" where
  "session_bounded st \<longleftrightarrow>
     hm_ok (write_sessions st) \<and> hm_ok (read_sessions st) \<and>
     buffered (write_sessions st) \<le> total_buffered st \<and> total_buffered st \<le> MAX_STREAM_BUFFER \<and>
     length (read_sessions st) \<le> MAX_READ_SESSIONS"

lemma buffered_delete:
  "hm_ok m \<Longrightarrow> map_of m k = Some w \<Longrightarrow> buffered (AList.delete k m) + length (wr_buffer w) = buffered m"
proof (induction m)
  case (Cons kv m)
  obtain k' v where kv: "kv = (k', v)" by fastforce
  show ?case
  proof (cases "k' = k")
    case True
    then have "k \<notin> hm_keys m" using Cons.prems(1) kv by simp
    then show ?thesis using Cons.prems(2) True kv by (simp add: buffered_def AList.delete_idem)
  next
    case False
    then show ?thesis using Cons kv by (simp add: buffered_def)
  qed
qed simp

lemma buffered_update:
  "hm_ok m \<Longrightarrow> map_of m k = Some w \<Longrightarrow>
     buffered (AList.update k w' m) + length (wr_buffer w) = buffered m + length (wr_buffer w')"
proof (induction m)
  case (Cons kv m)
  obtain k' v where kv: "kv = (k', v)" by fastforce
  show ?case
  proof (cases "k' = k")
    case False
    then show ?thesis using Cons kv by (simp add: buffered_def)
  qed (use Cons.prems kv in \<open>simp add: buffered_def\<close>)
qed simp

lemma buffered_update_new: "map_of m k = None \<Longrightarrow> buffered (AList.update k w m) = buffered m + length (wr_buffer w)"
  by (induction m) (auto simp: buffered_def split: if_splits)

lemma length_delete_le: "length (AList.delete k m) \<le> length m"
  by (induction m) auto

lemma length_update_le: "length (AList.update k v m) \<le> Suc (length m)"
  by (induction m) auto

lemma length_update_old: "map_of m k = Some w \<Longrightarrow> length (AList.update k v m) = length m"
  by (induction m) (auto split: if_splits)

text \<open>Sending and acting on the remote side leave the buffers alone.\<close>

lemma send_sel [simp]:
  "pending_binary (send a m st) = pending_binary st" "write_sessions (send a m st) = write_sessions st"
  "read_sessions (send a m st) = read_sessions st" "total_buffered (send a m st) = total_buffered st"
  "remote (send a m st) = remote st" "bytes_up (send a m st) = bytes_up st" "bytes_down (send a m st) = bytes_down st"
  "sent (send a m st) = (if a then sent st @ [m] else sent st)"
  by (simp_all add: send_def)

locale session_op =
  fixes f :: "('s, 'f) sftp_session \<Rightarrow> ('s, 'f) sftp_session"
  assumes bounded: "session_bounded st \<Longrightarrow> session_bounded (f st)"
begin

lemma iterate_bounded: "session_bounded st \<Longrightarrow> session_bounded ((f ^^ n) st)"
  by (induction n) (simp_all add: bounded)

end

interpretation send_op: session_op "send alive m"
  by unfold_locales (simp add: session_bounded_def)

interpretation ok_op: session_op "reply_ok J alive rid v"
  by unfold_locales (simp add: reply_ok_def send_op.bounded)

interpretation err_op: session_op "reply_err J alive rid e"
  by unfold_locales (simp add: reply_err_def send_op.bounded)

interpretation result_op: session_op "reply_result J alive rid h r"
  by unfold_locales (simp add: reply_result_def ok_op.bounded err_op.bounded split: sum.splits)

interpretation write_reply_op: session_op "write_reply J alive rid path r"
  by unfold_locales (simp add: write_reply_def ok_op.bounded err_op.bounded split: sum.splits)

interpretation data_op: session_op "send_data J alive rid data"
  by unfold_locales (simp add: send_data_def Let_def session_bounded_def)

lemma on_remote_bounded:
  "(\<And>r st. session_bounded st \<Longrightarrow> session_bounded (k r st)) \<Longrightarrow> session_bounded st \<Longrightarrow> session_bounded (on_remote f k st)"
  by (simp add: on_remote_def session_bounded_def split: prod.splits)

lemma with_param_bounded:
  "(\<And>p st. session_bounded st \<Longrightarrow> session_bounded (k p st)) \<Longrightarrow> session_bounded st \<Longrightarrow> session_bounded (with_param J alive req key k st)"
  by (simp add: with_param_def err_op.bounded split: option.splits)

lemmas bounded_rules = on_remote_bounded with_param_bounded ok_op.bounded err_op.bounded result_op.bounded
  write_reply_op.bounded data_op.bounded

interpretation stat_op: session_op "verb_stat S J alive req"
  unfolding verb_stat_def by unfold_locales (intro bounded_rules)

interpretation fs_info_op: session_op "verb_fs_info S J alive req"
  unfolding verb_fs_info_def Let_def by unfold_locales (intro bounded_rules)

interpretation list_op: session_op "verb_list S J alive req"
  unfolding verb_list_def by unfold_locales (intro bounded_rules)

interpretation read_op: session_op "verb_read S J alive req"
  unfolding verb_read_def by unfold_locales (auto intro!: bounded_rules split: sum.splits)

interpretation write_op: session_op "verb_write req"
  unfolding verb_write_def by unfold_locales (simp add: session_bounded_def)

interpretation write_open_op: session_op "verb_write_open J rnd alive req"
proof unfold_locales
  fix st :: "('a, 'b) sftp_session"
  assume B: "session_bounded st"
  have *: "session_bounded (st\<lparr>write_sessions := AList.update h \<lparr>wr_path = path, wr_buffer = []\<rparr> (write_sessions st)\<rparr>)"
    if "session_bounded st" for h path and st :: "('a, 'b) sftp_session"
  proof (cases "map_of (write_sessions st) h")
    case None
    then show ?thesis using that by (simp add: session_bounded_def buffered_update_new)
  next
    case (Some w)
    then show ?thesis using that buffered_update [of "write_sessions st" h w "\<lparr>wr_path = path, wr_buffer = []\<rparr>"]
      by (simp add: session_bounded_def)
  qed
  show "session_bounded (verb_write_open J rnd alive req st)"
    unfolding verb_write_open_def Let_def by (intro bounded_rules * B)
qed

interpretation write_chunk_op: session_op "verb_write_chunk req"
  unfolding verb_write_chunk_def by unfold_locales (simp add: session_bounded_def)

lemma drop_session_bounded:
  assumes "session_bounded st" "map_of (write_sessions st) h = Some w"
  shows "session_bounded (st\<lparr>write_sessions := AList.delete h (write_sessions st), total_buffered := total_buffered st - length (wr_buffer w)\<rparr>)"
proof -
  have "buffered (AList.delete h (write_sessions st)) + length (wr_buffer w) = buffered (write_sessions st)"
    using assms by (intro buffered_delete) (simp_all add: session_bounded_def)
  then show ?thesis using assms(1) unfolding session_bounded_def by auto
qed

interpretation write_close_op: session_op "verb_write_close S J alive req"
  unfolding verb_write_close_def Let_def
  by unfold_locales (auto intro!: bounded_rules drop_session_bounded split: option.splits)

interpretation write_abort_op: session_op "verb_write_abort J alive req"
  unfolding verb_write_abort_def Let_def
  by unfold_locales (auto intro!: bounded_rules drop_session_bounded split: option.splits)

interpretation read_open_op: session_op "verb_read_open S J rnd alive req"
proof unfold_locales
  fix st :: "('a, 'b) sftp_session"
  assume B: "session_bounded st"
  have *: "session_bounded (verb_read_open S J rnd alive req st)" if "length (read_sessions st) < MAX_READ_SESSIONS"
    using B that length_update_le [where m = "read_sessions st"]
    by (auto simp: verb_read_open_def with_param_def on_remote_def session_bounded_def reply_ok_def reply_err_def Let_def
        less_eq_Suc_le intro: order_trans split: option.splits sum.splits prod.splits)
  show "session_bounded (verb_read_open S J rnd alive req st)"
  proof (cases "length (read_sessions st) < MAX_READ_SESSIONS")
    case False
    then show ?thesis using B
      by (auto simp: verb_read_open_def with_param_def err_op.bounded split: option.splits)
  qed (rule *)
qed

interpretation read_chunk_op: session_op "verb_read_chunk S J alive req"
proof unfold_locales
  fix st :: "('a, 'b) sftp_session"
  assume B: "session_bounded st"
  show "session_bounded (verb_read_chunk S J alive req st)"
    using B length_update_old [where m = "read_sessions st"]
    by (auto simp: verb_read_chunk_def with_param_def on_remote_def session_bounded_def reply_err_def send_data_def Let_def
        intro: order_trans [OF length_delete_le] split: option.splits sum.splits prod.splits)
qed

interpretation read_close_op: session_op "verb_read_close J alive req"
proof unfold_locales
  fix st :: "('a, 'b) sftp_session"
  assume "session_bounded st"
  then show "session_bounded (verb_read_close J alive req st)"
    by (auto simp: verb_read_close_def with_param_def session_bounded_def reply_ok_def reply_err_def Let_def
        intro: order_trans [OF length_delete_le] split: option.splits)
qed

interpretation mkdir_op: session_op "verb_mkdir S J alive req"
  unfolding verb_mkdir_def by unfold_locales (intro bounded_rules)

interpretation delete_op: session_op "verb_delete S J alive req"
  unfolding verb_delete_def by unfold_locales (auto intro!: bounded_rules split: sum.splits)

interpretation rename_op: session_op "verb_rename S J alive req"
  unfolding verb_rename_def by unfold_locales (auto intro!: bounded_rules split: option.splits)


interpretation command_op: session_op "handle_text_command S J rnd alive req"
  by unfold_locales
    (simp add: handle_text_command_def Let_def stat_op.bounded fs_info_op.bounded list_op.bounded read_op.bounded
      write_op.bounded write_open_op.bounded write_chunk_op.bounded write_close_op.bounded write_abort_op.bounded
      read_open_op.bounded read_chunk_op.bounded read_close_op.bounded mkdir_op.bounded delete_op.bounded
      rename_op.bounded err_op.bounded)

interpretation stream_chunk_op: session_op "stream_chunk J alive rid handle data"
proof unfold_locales
  fix st :: "('a, 'b) sftp_session"
  assume B: "session_bounded st"
  show "session_bounded (stream_chunk J alive rid handle data st)"
  proof (cases "map_of (write_sessions st) handle")
    case None
    then show ?thesis using B by (simp add: stream_chunk_def err_op.bounded)
  next
    case (Some w)
    let ?w = "w\<lparr>wr_buffer := wr_buffer w @ data\<rparr>"
    let ?t = "sat_add64 (total_buffered st) (length data)"
    have "MAX_STREAM_BUFFER < u64_max" by (simp add: MAX_STREAM_BUFFER_def)
    then have T: "?t = total_buffered st + length data" if "?t \<le> MAX_STREAM_BUFFER"
      using that by (intro sat_add64_exact)
    have U: "buffered (AList.update handle ?w (write_sessions st)) = buffered (write_sessions st) + length data"
      using buffered_update [OF _ Some, of ?w] B by (simp add: session_bounded_def)
    have "session_bounded (st\<lparr>write_sessions := AList.update handle ?w (write_sessions st), total_buffered := ?t\<rparr>)"
      if "?t \<le> MAX_STREAM_BUFFER"
      using B that T [OF that] by (simp add: session_bounded_def U)
    then show ?thesis using B Some by (auto simp: stream_chunk_def Let_def intro: bounded_rules)
  qed
qed

interpretation deliver_op: session_op "deliver_binary S J alive data"
proof unfold_locales
  fix st :: "('a, 'b) sftp_session"
  assume "session_bounded st"
  then have *: "session_bounded (st\<lparr>pending_binary := None\<rparr>)" by (simp add: session_bounded_def)
  then show "session_bounded (deliver_binary S J alive data st)"
    unfolding deliver_binary_def Let_def
    by (auto intro: bounded_rules stream_chunk_op.bounded split: option.splits PendingBinary.splits)
qed

interpretation step_op: session_op "\<lambda>st. snd (dispatch_step S J rnd alive ev st)"
proof unfold_locales
  fix st :: "('a, 'b) sftp_session"
  assume B: "session_bounded st"
  then have "session_bounded (st\<lparr>bytes_up := n\<rparr>)" "session_bounded (st\<lparr>pending_binary := p\<rparr>)" for n p
    by (simp_all add: session_bounded_def)
  then show "session_bounded (snd (dispatch_step S J rnd alive ev st))"
    using B by (auto simp: dispatch_step_def reject_oversized_def Let_def
        intro: command_op.bounded deliver_op.bounded err_op.bounded
        split: ws_event.splits WsMessage.splits option.splits)
qed

lemma dispatch_loop_bounded: "session_bounded st \<Longrightarrow> session_bounded (snd (dispatch_loop S J es st))"
proof (induction S J es st rule: dispatch_loop.induct)
  case (2 S J rnd alive ev es st)
  obtain r st' where D: "dispatch_step S J rnd alive ev st = (r, st')" by fastforce
  then have "session_bounded st'" using step_op.bounded [OF 2(2), of S J rnd alive ev] by simp
  then show ?case using 2(1) [OF D [symmetric]] D by (auto split: option.splits)
qed simp

text \<open>
  C29. Whatever a client sends on an SFTP session, the relay never buffers more than 200 MiB for all
  its streaming writes together, the counter it checks never falls below what is buffered, and it
  holds at most eight open remote files.
\<close>

theorem sftp_session_memory:
  fixes S :: "('s, 'f) sftp_server"
  shows "let st = snd (dispatch_loop S J es (dispatch_init s)) in
    sum_list (map (length \<circ> wr_buffer \<circ> snd) (write_sessions st)) \<le> total_buffered st \<and>
    total_buffered st \<le> 209715200 \<and> length (read_sessions st) \<le> 8"
proof -
  let ?st = "snd (dispatch_loop S J es (dispatch_init s))"
  have "session_bounded (dispatch_init s :: ('s, 'f) sftp_session)"
    by (simp add: dispatch_init_def session_bounded_def buffered_def)
  then have "session_bounded ?st" by (rule dispatch_loop_bounded)
  moreover have "(\<lambda>(_, w). length (wr_buffer w)) = length \<circ> wr_buffer \<circ> (snd :: string \<times> WriteSession \<Rightarrow> _)"
    by (auto simp: fun_eq_iff)
  ultimately show ?thesis
    by (simp add: session_bounded_def buffered_def MAX_STREAM_BUFFER_def MAX_READ_SESSIONS_def)
qed

subsection \<open>Every call is answered\<close>

definition answer_frames :: "json_codec \<Rightarrow> u32 \<Rightarrow> WsMessage list \<Rightarrow> bool" where
  "answer_frames J rid fs \<longleftrightarrow>
     (\<exists>e. fs = [MsgText (err_json J rid e)]) \<or> (\<exists>v. fs = [MsgText (ok_json J rid v)]) \<or>
     (\<exists>data. fs = [MsgText (ok_json J rid (Object [(''size'', Number (int (length data)))])), MsgBinary data])"

definition answered :: "json_codec \<Rightarrow> u32 \<Rightarrow> WsMessage list \<Rightarrow> ('s, 'f) sftp_session \<Rightarrow> bool" where
  "answered J rid out st' \<longleftrightarrow> (\<exists>fs. sent st' = out @ fs \<and> answer_frames J rid fs)"

lemma answered_basic:
  "sent st = out \<Longrightarrow> answered J rid out (reply_ok J True rid v st)"
  "sent st = out \<Longrightarrow> answered J rid out (reply_err J True rid e st)"
  "sent st = out \<Longrightarrow> answered J rid out (send_data J True rid data st)"
  by (auto simp: answered_def answer_frames_def reply_ok_def reply_err_def send_data_def Let_def)

lemma answered_result: "sent st = out \<Longrightarrow> answered J rid out (reply_result J True rid h r st)"
  by (simp add: reply_result_def answered_basic split: sum.splits)

lemma answered_write_reply: "sent st = out \<Longrightarrow> answered J rid out (write_reply J True rid path r st)"
  by (simp add: write_reply_def answered_basic split: sum.splits)

lemma answered_on_remote:
  "(\<And>r st'. sent st' = out \<Longrightarrow> answered J rid out (k r st')) \<Longrightarrow> sent st = out \<Longrightarrow> answered J rid out (on_remote f k st)"
  by (simp add: on_remote_def split: prod.splits)

lemma answered_with_param:
  "(\<And>p st'. sent st' = out \<Longrightarrow> answered J (rq_id req) out (k p st')) \<Longrightarrow> sent st = out \<Longrightarrow>
     answered J (rq_id req) out (with_param J True req key k st)"
  by (simp add: with_param_def answered_basic split: option.splits)

lemmas answered_rules = answered_on_remote answered_with_param answered_basic answered_result answered_write_reply

lemma answered_updates:
  "answered J rid out (st\<lparr>read_sessions := m\<rparr>) = answered J rid out st"
  by (simp add: answered_def)

lemma read_verbs_answered:
  assumes "sent st = out"
  shows "answered J (rq_id req) out (verb_stat S J True req st)" "answered J (rq_id req) out (verb_fs_info S J True req st)"
    "answered J (rq_id req) out (verb_list S J True req st)" "answered J (rq_id req) out (verb_read S J True req st)"
    "answered J (rq_id req) out (verb_read_open S J rnd True req st)"
    "answered J (rq_id req) out (verb_read_chunk S J True req st)" "answered J (rq_id req) out (verb_read_close J True req st)"
  unfolding verb_stat_def verb_fs_info_def verb_list_def verb_read_def verb_read_open_def verb_read_chunk_def
    verb_read_close_def Let_def
  using assms
  by (auto intro!: answered_rules simp: answered_updates split: sum.splits option.splits if_splits)

lemma write_verbs_answered:
  assumes "sent st = out"
  shows "answered J (rq_id req) out (verb_write_open J rnd True req st)"
    "answered J (rq_id req) out (verb_write_close S J True req st)" "answered J (rq_id req) out (verb_write_abort J True req st)"
    "answered J (rq_id req) out (verb_mkdir S J True req st)" "answered J (rq_id req) out (verb_delete S J True req st)"
    "answered J (rq_id req) out (verb_rename S J True req st)"
  unfolding verb_write_open_def verb_write_close_def verb_write_abort_def verb_mkdir_def verb_delete_def
    verb_rename_def Let_def
  using assms
  by (auto intro!: answered_rules split: sum.splits option.splits)

definition takes_body :: "SftpRequest \<Rightarrow> bool" where
  "takes_body req \<longleftrightarrow> rq_method req = ''write'' \<or> rq_method req = ''write_chunk''"

lemma command_answered:
  assumes "\<not> takes_body req"
  shows "answered J (rq_id req) (sent st) (handle_text_command S J rnd True req st)"
  using assms unfolding takes_body_def handle_text_command_def Let_def
  by (auto simp: read_verbs_answered write_verbs_answered answered_basic)

lemma body_awaited:
  assumes "takes_body req"
  obtains pb where "pend_id pb = rq_id req"
    and "handle_text_command S J rnd alive req st = st\<lparr>pending_binary := Some pb\<rparr>"
proof -
  have "handle_text_command S J rnd alive req st = st\<lparr>pending_binary := pending_binary (handle_text_command S J rnd alive req st)\<rparr>"
    "\<exists>pb. pending_binary (handle_text_command S J rnd alive req st) = Some pb \<and> pend_id pb = rq_id req"
    using assms by (auto simp: takes_body_def handle_text_command_def Let_def verb_write_def verb_write_chunk_def split: option.splits)
  then show thesis using that by (metis (no_types))
qed

lemma stream_chunk_answered: "sent st = out \<Longrightarrow> answered J rid out (stream_chunk J True rid handle data st)"
  by (auto simp: stream_chunk_def Let_def intro!: answered_basic split: option.splits)

lemma deliver_answered:
  "pending_binary st = Some pb \<Longrightarrow> sent st = out \<Longrightarrow> answered J (pend_id pb) out (deliver_binary S J True data st)"
  by (cases pb) (auto simp: deliver_binary_def Let_def intro!: answered_rules stream_chunk_answered)

lemma oversized_answered:
  "pending_binary st = Some pb \<Longrightarrow> sent st = out \<Longrightarrow> answered J (pend_id pb) out (reject_oversized J True st)"
  by (simp add: reject_oversized_def answered_basic)

text \<open>
  C30. On a live connection every JSON-RPC request is answered with its own id, exactly once: a
  request without a body by the frames sent when it arrives, a \<open>write\<close> or \<open>write_chunk\<close> (also one the
  relay refuses) by one answer when its binary frame arrives next (a second header before that frame
  replaces the first, whose request then stays unanswered).  Only a frame above the size limit
  ends the session, and it too is answered.
\<close>

theorem sftp_call_answered:
  fixes st :: "('s, 'f) sftp_session"
  assumes req: "parse_request J text = Some req"
  shows "if takes_body req
    then \<exists>r st' fs. dispatch_loop S J [(rnd, True, Frame (MsgText text)), (rnd', True, Frame (MsgBinary data))] st = (r, st') \<and>
           sent st' = sent st @ fs \<and> answer_frames J (rq_id req) fs \<and> (r = None \<longleftrightarrow> length data \<le> MAX_BINARY_FRAME)
    else \<exists>st' fs. dispatch_loop S J [(rnd, True, Frame (MsgText text))] st = (None, st') \<and>
           sent st' = sent st @ fs \<and> answer_frames J (rq_id req) fs"
proof (cases "takes_body req")
  case True
  let ?st = "st\<lparr>bytes_up := sat_add64 (bytes_up st) (length text)\<rparr>"
  obtain pb where pb: "pend_id pb = rq_id req"
    and H: "handle_text_command S J rnd True req ?st = ?st\<lparr>pending_binary := Some pb\<rparr>"
    using body_awaited [OF True] .
  show ?thesis
  proof (cases "length data \<le> MAX_BINARY_FRAME")
    case small: True
    then show ?thesis using True H pb
        deliver_answered [of "?st\<lparr>pending_binary := Some pb, bytes_up := sat_add64 (bytes_up ?st) (length data)\<rparr>" pb "sent st" J S data]
      by (simp add: dispatch_step_def req Let_def answered_def)
  next
    case False
    then show ?thesis using True H pb oversized_answered [of "?st\<lparr>pending_binary := Some pb\<rparr>" pb "sent st" J]
      by (simp add: dispatch_step_def req Let_def answered_def)
  qed
next
  case False
  then show ?thesis
    using command_answered [OF False, of J "st\<lparr>bytes_up := sat_add64 (bytes_up st) (length text)\<rparr>" S rnd]
    by (simp add: dispatch_step_def req Let_def answered_def)
qed

text \<open>A file store in memory, with open files as a path and an offset.\<close>

definition toy_server :: "((string, bytes) hmap, string \<times> nat) sftp_server" where
  "toy_server = \<lparr>
     sv_metadata = (\<lambda>p s. (case map_of s p of Some d \<Rightarrow> Inr \<lparr>md_size = Some (length d), md_mtime = Some 0, md_is_dir = False\<rparr>
                                             | None \<Rightarrow> Inl ''No such file'', s)),
     sv_fs_info = (\<lambda>p s. (Inr None, s)),
     sv_read_dir = (\<lambda>p s. (Inr [], s)),
     sv_read = (\<lambda>p s. (case map_of s p of Some d \<Rightarrow> Inr d | None \<Rightarrow> Inl ''No such file'', s)),
     sv_open_read = (\<lambda>p s. (case map_of s p of Some d \<Rightarrow> Inr (p, 0) | None \<Rightarrow> Inl ''No such file'', s)),
     sv_file_read = (\<lambda>(p, k) n s. let d = get_or [] s p in (Inr (take n (drop k d), p, k + n), s)),
     sv_open_write = (\<lambda>p s. (Inr (p, 0), AList.update p [] s)),
     sv_write_all = (\<lambda>(p, k) d s. (Inr (p, k + length d), AList.update p (take k (get_or [] s p) @ d) s)),
     sv_shutdown = (\<lambda>f s. s),
     sv_create_dir = (\<lambda>p s. (Inr (), s)),
     sv_remove_file = (\<lambda>p s. (if map_of s p = None then Inl ''No such file'' else Inr (), AList.delete p s)),
     sv_remove_dir = (\<lambda>p s. (Inl ''No such file'', s)),
     sv_rename = (\<lambda>p q s. case map_of s p of
                            None \<Rightarrow> (Inl ''No such file'', s)
                          | Some d \<Rightarrow> if map_of s q \<noteq> None then (Inl ''Failure'', s)
                                       else (Inr (), AList.update q d (AList.delete p s)))\<rparr>"

definition stat_text :: string where
  "stat_text = json_to_string toy_codec (Object [(''id'', Number 7), (''method'', String ''stat''), (''params'', Object [(''path'', String ''/a'')])])"

theorem sftp_call_answered_witness:
  "\<exists>st' fs. dispatch_loop toy_server toy_codec [([], True, Frame (MsgText stat_text))] (dispatch_init [(''/a'', [1, 2])]) = (None, st') \<and>
     sent st' = [] @ fs \<and> answer_frames toy_codec 7 fs"
proof -
  let ?req = "\<lparr>rq_id = 7, rq_method = ''stat'', rq_params = Object [(''path'', String ''/a'')]\<rparr>"
  have "parse_request toy_codec stat_text = Some ?req"
    using codec_okD [OF codec_ok_toy, of "Object [(''id'', Number 7), (''method'', String ''stat''), (''params'', Object [(''path'', String ''/a'')])]"]
    by (simp add: parse_request_def stat_text_def request_of_def u32_of_value_def)
  from sftp_call_answered [OF this, of toy_server "[]" "[]" "[]" "dispatch_init [(''/a'', [1, 2])]"]
  show ?thesis by (simp add: takes_body_def dispatch_init_def)
qed

end
