(* ===== verification/Sftp_Client.thy ===== *)
theory Sftp_Client
  imports Json_Value Net_Filter
begin

text \<open>
  The SDK's end of the SFTP protocol (\<open>sdk-core/src/byo/sftp\<close>): the request/response matching, the
  host-key handshake with trust on first use, and every verb of \<open>SftpRelayClient\<close>.

  The WebSocket is the record \<open>transport\<close>, a parameter, acting on a state \<open>'t\<close>; its \<open>recv\<close> may wait
  forever, which is \<open>None\<close>.  A method is a function from the client's state and the transport's to a
  result and the new states; the loops that skip frames are partial functions, so \<open>None\<close> also stands
  for a method that never returns.  The client is sequential, so its mutex is never contended nor
  poisoned.  \<open>Panic\<close> is a call that panics instead of returning.
\<close>

subsection \<open>Types\<close>

datatype ProviderError =
    Conflict string | PeNotFound | PeUnauthorized | PeForbidden | PeRateLimited | Network string
  | Provider string | InvalidResponse | SftpRelay string | InsufficientSpace nat nat

datatype fault = Fail ProviderError | Panic

datatype RelayFrame = RelayText string | RelayBinary bytes | RelayClosed

record 't transport =
  tp_send_text :: "string \<Rightarrow> 't \<Rightarrow> (ProviderError + unit) \<times> 't"
  tp_send_text_then_binary :: "string \<Rightarrow> bytes \<Rightarrow> 't \<Rightarrow> (ProviderError + unit) \<times> 't"
  tp_recv :: "'t \<Rightarrow> ((ProviderError + RelayFrame) \<times> 't) option"
  tp_close :: "'t \<Rightarrow> (ProviderError + unit) \<times> 't"

record sftp_client =
  request_counter :: u32
  cl_relay_version :: nat
  cl_fingerprint :: "string option"
  file_versions :: "(string, string) hmap"
  cl_ready :: bool
  cl_base_path :: string
  cl_bytes_sent :: nat
  cl_bytes_recv :: nat

record StorageEntry =
  se_ref :: string
  se_name :: string
  se_size :: nat
  se_is_folder :: bool
  se_modified_at :: "int option"

record UploadResult =
  ur_ref :: string
  ur_version :: string

definition VAULT_ROOT_NAME :: string where "VAULT_ROOT_NAME = ''/WattcloudVault''"
definition UPLOAD_CHUNK_SIZE :: nat where "UPLOAD_CHUNK_SIZE = 8 * 1024 * 1024"

subsection \<open>Methods\<close>

type_synonym ('t, 'a) act = "sftp_client \<times> 't \<Rightarrow> ((fault + 'a) \<times> sftp_client \<times> 't) option"

definition ret :: "'a \<Rightarrow> ('t, 'a) act" where
  "ret x s = Some (Inr x, s)"

definition throw :: "ProviderError \<Rightarrow> ('t, 'a) act" where
  "throw e s = Some (Inl (Fail e), s)"

definition seq :: "('t, 'a) act \<Rightarrow> ('a \<Rightarrow> ('t, 'b) act) \<Rightarrow> ('t, 'b) act" where
  "seq m k s = (case m s of None \<Rightarrow> None | Some (Inl e, s') \<Rightarrow> Some (Inl e, s') | Some (Inr x, s') \<Rightarrow> k x s')"

text \<open>Continue on both outcomes.\<close>

definition handle :: "('t, 'a) act \<Rightarrow> (fault + 'a \<Rightarrow> ('t, 'b) act) \<Rightarrow> ('t, 'b) act" where
  "handle m k s = (case m s of None \<Rightarrow> None | Some (r, s') \<Rightarrow> k r s')"

definition update_client :: "(sftp_client \<Rightarrow> sftp_client) \<Rightarrow> ('t, unit) act" where
  "update_client f s = Some (Inr (), f (fst s), snd s)"

definition of_result :: "ProviderError + 'a \<Rightarrow> ('t, 'a) act" where
  "of_result r s = Some (map_err Fail r, s)"

definition on_transport :: "('t \<Rightarrow> (ProviderError + 'a) \<times> 't) \<Rightarrow> ('t, 'a) act" where
  "on_transport f s = (case f (snd s) of (r, t) \<Rightarrow> Some (map_err Fail r, fst s, t))"

definition wrap_sftp_err :: "string \<Rightarrow> fault \<Rightarrow> fault" where
  "wrap_sftp_err label err = (case err of Fail (SftpRelay msg) \<Rightarrow> Fail (SftpRelay (label @ '': '' @ msg)) | _ \<Rightarrow> err)"

definition wrapped :: "string \<Rightarrow> ('t, 'a) act \<Rightarrow> ('t, 'a) act" where
  "wrapped label m s = map_option (\<lambda>(r, s'). (map_err (wrap_sftp_err label) r, s')) (m s)"

subsection \<open>Requests and responses\<close>

text \<open>The object of an \<open>RpcRequest\<close>.\<close>

definition RpcRequest :: "u32 \<Rightarrow> string \<Rightarrow> Value \<Rightarrow> Value" where
  "RpcRequest rid meth params = Object [(''id'', Number (uint rid)), (''method'', String meth), (''params'', params)]"

record RpcResponse =
  rp_id :: u32
  rp_result :: "Value option"
  rp_error :: "string option"

text \<open>The derived reader: the optional fields may be absent or \<open>null\<close>.\<close>

definition opt_value :: "Value option \<Rightarrow> Value option" where
  "opt_value v = (case v of None \<Rightarrow> None | Some Null \<Rightarrow> None | Some x \<Rightarrow> Some x)"

definition response_of :: "Value \<Rightarrow> Value option \<Rightarrow> Value option \<Rightarrow> RpcResponse option" where
  "response_of i result error =
     Option.bind (u32_of_value i) (\<lambda>rid.
       case opt_value error of
         None \<Rightarrow> Some \<lparr>rp_id = rid, rp_result = opt_value result, rp_error = None\<rparr>
       | Some e \<Rightarrow> Option.bind (as_str e) (\<lambda>msg. Some \<lparr>rp_id = rid, rp_result = opt_value result, rp_error = Some msg\<rparr>))"

fun RpcResponse_of_value :: "Value \<Rightarrow> RpcResponse option" where
  "RpcResponse_of_value (Object fs) =
     Option.bind (map_of fs ''id'') (\<lambda>i. response_of i (map_of fs ''result'') (map_of fs ''error''))"
| "RpcResponse_of_value (Array vs) = (case vs of [i, r, e] \<Rightarrow> response_of i (Some r) (Some e) | _ \<Rightarrow> None)"
| "RpcResponse_of_value _ = None"

definition parse_response :: "json_codec \<Rightarrow> string \<Rightarrow> RpcResponse option" where
  "parse_response J text = Option.bind (json_from_str J text) RpcResponse_of_value"

definition client_next_id :: "('t, u32) act" where
  "client_next_id s = (let n = request_counter (fst s) + 1 in Some (Inr n, (fst s)\<lparr>request_counter := n\<rparr>, snd s))"

text \<open>
  The message quotes the first hundred bytes of the text; slicing a string inside a character
  panics.
\<close>

definition malformed_json :: "string \<Rightarrow> fault" where
  "malformed_json text =
     (let n = min (length text) 100 in
      if n < length text \<and> cont_byte (as_bytes text ! n) then Panic
      else Fail (Provider (''malformed JSON: '' @ take n text)))"

partial_function (option) recv_response :: "'t transport \<Rightarrow> json_codec \<Rightarrow> u32 \<Rightarrow> ('t, Value) act" where
  "recv_response T J expected s =
     (case tp_recv T (snd s) of
        None \<Rightarrow> None
      | Some (Inl e, t) \<Rightarrow> Some (Inl (Fail e), fst s, t)
      | Some (Inr frame, t) \<Rightarrow>
          (case frame of
             RelayText text \<Rightarrow>
               (case parse_response J text of
                  None \<Rightarrow> Some (Inl (malformed_json text), fst s, t)
                | Some resp \<Rightarrow>
                    if rp_id resp \<noteq> expected then recv_response T J expected (fst s, t)
                    else (case rp_error resp of
                            Some err \<Rightarrow> Some (Inl (Fail (SftpRelay err)), fst s, t)
                          | None \<Rightarrow> Some (Inr (case rp_result resp of Some v \<Rightarrow> v | None \<Rightarrow> Null), fst s, t)))
           | RelayBinary _ \<Rightarrow> recv_response T J expected (fst s, t)
           | RelayClosed \<Rightarrow> Some (Inl (Fail (SftpRelay ''connection closed'')), fst s, t)))"

text \<open>Phase 1 of a two-frame answer: its JSON header.\<close>

partial_function (option) recv_header :: "'t transport \<Rightarrow> json_codec \<Rightarrow> u32 \<Rightarrow> ('t, unit) act" where
  "recv_header T J expected s =
     (case tp_recv T (snd s) of
        None \<Rightarrow> None
      | Some (Inl e, t) \<Rightarrow> Some (Inl (Fail e), fst s, t)
      | Some (Inr frame, t) \<Rightarrow>
          (case frame of
             RelayText text \<Rightarrow>
               (case parse_response J text of
                  None \<Rightarrow> Some (Inl (Fail (Provider ''malformed JSON'')), fst s, t)
                | Some resp \<Rightarrow>
                    if rp_id resp \<noteq> expected then recv_header T J expected (fst s, t)
                    else (case rp_error resp of
                            Some err \<Rightarrow> Some (Inl (Fail (SftpRelay err)), fst s, t)
                          | None \<Rightarrow> Some (Inr (), fst s, t)))
           | RelayBinary _ \<Rightarrow> recv_header T J expected (fst s, t)
           | RelayClosed \<Rightarrow> Some (Inl (Fail (SftpRelay ''connection closed'')), fst s, t)))"

text \<open>Phase 2: the binary frame.\<close>

partial_function (option) recv_body :: "'t transport \<Rightarrow> ('t, bytes) act" where
  "recv_body T s =
     (case tp_recv T (snd s) of
        None \<Rightarrow> None
      | Some (Inl e, t) \<Rightarrow> Some (Inl (Fail e), fst s, t)
      | Some (Inr frame, t) \<Rightarrow>
          (case frame of
             RelayBinary data \<Rightarrow>
               Some (Inr data, (fst s)\<lparr>cl_bytes_recv := (cl_bytes_recv (fst s) + length data) mod 2 ^ 64\<rparr>, t)
           | RelayText _ \<Rightarrow> recv_body T (fst s, t)
           | RelayClosed \<Rightarrow> Some (Inl (Fail (SftpRelay ''connection closed during binary read'')), fst s, t)))"

definition recv_response_then_binary :: "'t transport \<Rightarrow> json_codec \<Rightarrow> u32 \<Rightarrow> ('t, bytes) act" where
  "recv_response_then_binary T J expected = seq (recv_header T J expected) (\<lambda>_. recv_body T)"

definition client_call :: "'t transport \<Rightarrow> json_codec \<Rightarrow> string \<Rightarrow> Value \<Rightarrow> ('t, Value) act" where
  "client_call T J meth params =
     seq client_next_id (\<lambda>rid.
     seq (on_transport (tp_send_text T (json_to_string J (RpcRequest rid meth params)))) (\<lambda>_.
     recv_response T J rid))"

definition client_call_binary_write :: "'t transport \<Rightarrow> json_codec \<Rightarrow> string \<Rightarrow> Value \<Rightarrow> bytes \<Rightarrow> ('t, Value) act" where
  "client_call_binary_write T J meth params body =
     seq client_next_id (\<lambda>rid.
     seq (on_transport (tp_send_text_then_binary T (json_to_string J (RpcRequest rid meth params)) body)) (\<lambda>_.
     seq (update_client (\<lambda>c. c\<lparr>cl_bytes_sent := (cl_bytes_sent c + length body) mod 2 ^ 64\<rparr>)) (\<lambda>_.
     recv_response T J rid)))"

definition client_call_binary_read :: "'t transport \<Rightarrow> json_codec \<Rightarrow> string \<Rightarrow> Value \<Rightarrow> ('t, bytes) act" where
  "client_call_binary_read T J meth params =
     seq client_next_id (\<lambda>rid.
     seq (on_transport (tp_send_text T (json_to_string J (RpcRequest rid meth params)))) (\<lambda>_.
     recv_response_then_binary T J rid))"


subsection \<open>State accessors\<close>

definition normalize_base_path :: "string \<Rightarrow> string" where
  "normalize_base_path raw =
     (let trimmed = trim raw in
      if trimmed = [] then []
      else
        let without_trailing = trim_end_matches CHR ''/'' trimmed in
        if without_trailing = [] then []
        else if take 1 without_trailing = ''/'' then without_trailing
        else ''/'' @ without_trailing)"

definition SftpRelayClient_new :: "string \<Rightarrow> sftp_client" where
  "SftpRelayClient_new base_path =
     \<lparr>request_counter = 0, cl_relay_version = 0, cl_fingerprint = None, file_versions = [], cl_ready = False,
      cl_base_path = normalize_base_path base_path, cl_bytes_sent = 0, cl_bytes_recv = 0\<rparr>"

definition vault_root_path :: "sftp_client \<Rightarrow> string" where
  "vault_root_path c = cl_base_path c @ VAULT_ROOT_NAME"

definition relay_bandwidth_and_reset :: "sftp_client \<Rightarrow> (nat \<times> nat) \<times> sftp_client" where
  "relay_bandwidth_and_reset c = ((cl_bytes_sent c, cl_bytes_recv c), c\<lparr>cl_bytes_sent := 0, cl_bytes_recv := 0\<rparr>)"

definition set_stored_fingerprint :: "string \<Rightarrow> ('t, unit) act" where
  "set_stored_fingerprint fingerprint = update_client (\<lambda>c. c\<lparr>cl_fingerprint := Some fingerprint\<rparr>)"

definition show_int :: "int \<Rightarrow> string" where
  "show_int n = (if n < 0 then ''-'' else []) @ show_nat (nat \<bar>n\<bar>)"

definition version_string :: "int \<Rightarrow> nat \<Rightarrow> string" where
  "version_string mtime sz = show_int mtime @ '':'' @ show_nat sz"

definition set_version :: "string \<Rightarrow> int \<Rightarrow> nat \<Rightarrow> ('t, unit) act" where
  "set_version path mtime sz = update_client (\<lambda>c. c\<lparr>file_versions := AList.update path (version_string mtime sz) (file_versions c)\<rparr>)"

definition cached_version :: "string \<Rightarrow> sftp_client \<Rightarrow> string option" where
  "cached_version path c = map_of (file_versions c) path"

subsection \<open>Handshake and authentication\<close>

definition str_field :: "string \<Rightarrow> Value \<Rightarrow> string option" where
  "str_field key v = Option.bind (Value_get key v) as_str"

text \<open>The version the relay advertises; one that does not say is version 1.\<close>

definition advertised_version :: "Value \<Rightarrow> ProviderError + nat" where
  "advertised_version msg =
     (case Option.bind (Value_get ''relay_version'' msg) as_u64 of
        Some v \<Rightarrow> if 1 \<le> v \<and> v \<le> 3 then Inr v
                  else Inl (SftpRelay (''unsupported relay_version: '' @ show_nat v @ ''; expected 1'' @ [CHR 0xE2, CHR 0x80, CHR 0x93] @ ''3''))
      | None \<Rightarrow> Inr 1)"

definition parse_host_key :: "json_codec \<Rightarrow> RelayFrame \<Rightarrow> ProviderError + string \<times> nat" where
  "parse_host_key J frame =
     (case frame of
        RelayBinary _ \<Rightarrow> Inl (SftpRelay ''expected host_key text frame'')
      | RelayClosed \<Rightarrow> Inl (SftpRelay ''connection closed during handshake'')
      | RelayText text \<Rightarrow>
          and_then (ok_or (Provider ''malformed host_key frame'') (json_from_str J text)) (\<lambda>msg.
          if str_field ''type'' msg \<noteq> Some ''host_key''
          then Inl (SftpRelay (''expected host_key, got: '' @
                 (case str_field ''type'' msg of Some t \<Rightarrow> t | None \<Rightarrow> ''unknown'')))
          else and_then (ok_or (SftpRelay ''host_key missing fingerprint'') (str_field ''fingerprint'' msg)) (\<lambda>fingerprint.
            and_then (advertised_version msg) (\<lambda>relay_version. Inr (fingerprint, relay_version)))))"

definition client_recv :: "'t transport \<Rightarrow> ('t, RelayFrame) act" where
  "client_recv T s = map_option (\<lambda>(r, t). (map_err Fail r, fst s, t)) (tp_recv T (snd s))"

text \<open>Close the transport, ignoring whether that works, and fail.\<close>

definition close_and_throw :: "'t transport \<Rightarrow> ProviderError \<Rightarrow> ('t, 'a) act" where
  "close_and_throw T e = handle (on_transport (tp_close T)) (\<lambda>_. throw e)"

definition tofu_check :: "'t transport \<Rightarrow> (string \<Rightarrow> bool) \<Rightarrow> string \<Rightarrow> ('t, unit) act" where
  "tofu_check T on_first_host_key fingerprint s =
     (case cl_fingerprint (fst s) of
        Some known \<Rightarrow>
          if known = fingerprint then ret () s
          else close_and_throw T (SftpRelay (''host key changed: expected '' @ known @ '', got '' @ fingerprint)) s
      | None \<Rightarrow>
          if \<not> on_first_host_key fingerprint then close_and_throw T (SftpRelay ''host key rejected by user'') s
          else set_stored_fingerprint fingerprint s)"

definition host_key_accepted :: Value where
  "host_key_accepted = Object [(''type'', String ''host_key_accepted'')]"

definition client_handshake :: "'t transport \<Rightarrow> json_codec \<Rightarrow> (string \<Rightarrow> bool) \<Rightarrow> ('t, nat) act" where
  "client_handshake T J on_first_host_key =
     seq (client_recv T) (\<lambda>frame.
     seq (of_result (parse_host_key J frame)) (\<lambda>(fingerprint, relay_version).
     seq (tofu_check T on_first_host_key fingerprint) (\<lambda>_.
     seq (on_transport (tp_send_text T (json_to_string J host_key_accepted))) (\<lambda>_.
     seq (update_client (\<lambda>c. c\<lparr>cl_relay_version := relay_version\<rparr>)) (\<lambda>_.
     ret relay_version)))))"

definition auth_password :: "'t transport \<Rightarrow> json_codec \<Rightarrow> string \<Rightarrow> string \<Rightarrow> ('t, unit) act" where
  "auth_password T J username password =
     seq (client_call T J ''auth'' (Object
       [(''password'', String password), (''type'', String ''password''), (''username'', String username)])) (\<lambda>_.
     update_client (\<lambda>c. c\<lparr>cl_ready := True\<rparr>))"

definition auth_publickey :: "'t transport \<Rightarrow> json_codec \<Rightarrow> string \<Rightarrow> string \<Rightarrow> string option \<Rightarrow> ('t, unit) act" where
  "auth_publickey T J username private_key passphrase =
     seq (client_call T J ''auth'' (Object
       [(''passphrase'', case passphrase of Some pp \<Rightarrow> String pp | None \<Rightarrow> Null), (''privateKey'', String private_key),
        (''type'', String ''publickey''), (''username'', String username)])) (\<lambda>_.
     update_client (\<lambda>c. c\<lparr>cl_ready := True\<rparr>))"

subsection \<open>File system verbs\<close>

definition path_param :: "string \<Rightarrow> Value" where "path_param path = Object [(''path'', String path)]"
definition handle_param :: "string \<Rightarrow> Value" where "handle_param h = Object [(''handle'', String h)]"

definition or_default :: "'a \<Rightarrow> 'a option \<Rightarrow> 'a" where
  "or_default d v = (case v of Some x \<Rightarrow> x | None \<Rightarrow> d)"

definition client_fs_info :: "'t transport \<Rightarrow> json_codec \<Rightarrow> string \<Rightarrow> ('t, nat option) act" where
  "client_fs_info T J path =
     seq (client_call T J ''fs_info'' (path_param path)) (\<lambda>result.
     if \<not> or_default False (as_bool (Value_index result ''supported'')) then ret None
     else ret (as_u64 (Value_index result ''freeBytes'')))"

definition client_stat :: "'t transport \<Rightarrow> json_codec \<Rightarrow> string \<Rightarrow> ('t, int \<times> nat \<times> bool) act" where
  "client_stat T J path =
     seq (wrapped (''stat '' @ path) (client_call T J ''stat'' (path_param path))) (\<lambda>result.
     ret (or_default 0 (as_i64 (Value_index result ''mtime'')),
          or_default 0 (as_u64 (Value_index result ''size'')),
          or_default False (as_bool (Value_index result ''isDir''))))"

text \<open>\<open>i64\<close> multiplication of a release build.\<close>

definition wrap_i64 :: "int \<Rightarrow> int" where
  "wrap_i64 n = (n + 2 ^ 63) mod 2 ^ 64 - 2 ^ 63"

definition sftp_parse_entry :: "Value \<Rightarrow> ProviderError + StorageEntry" where
  "sftp_parse_entry e =
     and_then (ok_or InvalidResponse (as_str (Value_index e ''path''))) (\<lambda>path.
     and_then (ok_or InvalidResponse (as_str (Value_index e ''name''))) (\<lambda>name.
     Inr \<lparr>se_ref = path, se_name = name,
          se_size = or_default 0 (as_u64 (Value_index e ''size'')),
          se_is_folder = or_default False (as_bool (Value_index e ''isDir'')),
          se_modified_at = map_option (\<lambda>t. wrap_i64 (t * 1000)) (as_i64 (Value_index e ''mtime''))\<rparr>))"

definition client_list :: "'t transport \<Rightarrow> json_codec \<Rightarrow> string \<Rightarrow> ('t, StorageEntry list) act" where
  "client_list T J path =
     seq (wrapped (''list '' @ path) (client_call T J ''list'' (path_param path))) (\<lambda>result.
     seq (of_result (ok_or InvalidResponse (as_array (Value_index result ''entries'')))) (\<lambda>entries.
     of_result (try_map sftp_parse_entry entries)))"

definition client_mkdir :: "'t transport \<Rightarrow> json_codec \<Rightarrow> string \<Rightarrow> ('t, unit) act" where
  "client_mkdir T J path =
     handle (client_call T J ''mkdir'' (path_param path)) (\<lambda>r.
       case r of
         Inr _ \<Rightarrow> ret ()
       | Inl (Fail (SftpRelay msg)) \<Rightarrow>
           if contains ''already exists'' msg \<or> contains ''EEXIST'' msg \<or> contains ''SSH_FX_FILE_ALREADY_EXISTS'' msg
           then ret ()
           else throw (SftpRelay (''mkdir '' @ path @ '': '' @ msg))
       | Inl e \<Rightarrow> (\<lambda>s. Some (Inl e, s)))"

definition client_delete_file :: "'t transport \<Rightarrow> json_codec \<Rightarrow> string \<Rightarrow> ('t, unit) act" where
  "client_delete_file T J path =
     seq (wrapped (''delete '' @ path) (client_call T J ''delete'' (path_param path))) (\<lambda>_.
     update_client (\<lambda>c. c\<lparr>file_versions := AList.delete path (file_versions c)\<rparr>))"

definition client_rename :: "'t transport \<Rightarrow> json_codec \<Rightarrow> string \<Rightarrow> string \<Rightarrow> ('t, unit) act" where
  "client_rename T J old_path new_path =
     seq (wrapped (''rename '' @ old_path @ '' -> '' @ new_path)
       (client_call T J ''rename'' (Object [(''from'', String old_path), (''to'', String new_path)]))) (\<lambda>_.
     ret ())"

definition client_read :: "'t transport \<Rightarrow> json_codec \<Rightarrow> string \<Rightarrow> ('t, bytes) act" where
  "client_read T J path = wrapped (''read '' @ path) (client_call_binary_read T J ''read'' (path_param path))"

definition client_write :: "'t transport \<Rightarrow> json_codec \<Rightarrow> string \<Rightarrow> bytes \<Rightarrow> ('t, unit) act" where
  "client_write T J path data =
     seq (wrapped (''write '' @ path) (client_call_binary_write T J ''write''
       (Object [(''path'', String path), (''size'', Number (int (length data)))]) data)) (\<lambda>_.
     ret ())"

subsection \<open>Streaming transfers\<close>

definition stream_id :: "string \<Rightarrow> string \<Rightarrow> string \<Rightarrow> string" where
  "stream_id h temp_path final_path = ''v2:'' @ h @ '':'' @ temp_path @ '':'' @ final_path"

definition parse_stream_id_v2 :: "string \<Rightarrow> ProviderError + string \<times> string \<times> string" where
  "parse_stream_id_v2 sid =
     and_then (ok_or (Provider ''invalid v2 stream_id'') (strip_prefix ''v2:'' sid)) (\<lambda>rest.
     case splitn 3 CHR '':'' rest of
       [h, temp_path, final_path] \<Rightarrow> Inr (h, temp_path, final_path)
     | [h, temp_path] \<Rightarrow> Inl (Provider ''stream_id missing final_path'')
     | [h] \<Rightarrow> Inl (Provider ''stream_id missing temp_path'')
     | _ \<Rightarrow> Inl (Provider ''stream_id missing handle''))"

definition parse_stream_id_v2_handle :: "string \<Rightarrow> ProviderError + string" where
  "parse_stream_id_v2_handle sid = and_then (parse_stream_id_v2 sid) (\<lambda>(h, _, _). Inr h)"

definition get_client :: "('t, sftp_client) act" where "get_client s = Some (Inr (fst s), s)"

definition handle_of :: "Value \<Rightarrow> ProviderError + string" where
  "handle_of result = ok_or InvalidResponse (as_str (Value_index result ''handle''))"

definition upload_open :: "'t transport \<Rightarrow> json_codec \<Rightarrow> string \<Rightarrow> ('t, string) act" where
  "upload_open T J name =
     seq client_next_id (\<lambda>counter.
     seq get_client (\<lambda>c.
       let root = vault_root_path c;
           temp_path = root @ ''/data/'' @ name @ ''.tmp.'' @ show_nat (unat counter);
           final_path = root @ ''/data/'' @ name in
       seq (wrapped (''write_open '' @ temp_path) (client_call T J ''write_open'' (path_param temp_path))) (\<lambda>result.
       seq (of_result (handle_of result)) (\<lambda>h.
       ret (stream_id h temp_path final_path)))))"

definition upload_write_chunk :: "'t transport \<Rightarrow> json_codec \<Rightarrow> string \<Rightarrow> bytes \<Rightarrow> ('t, unit) act" where
  "upload_write_chunk T J sid chunk =
     seq (of_result (parse_stream_id_v2_handle sid)) (\<lambda>h.
     seq (wrapped (''write_chunk handle='' @ h) (client_call_binary_write T J ''write_chunk'' (handle_param h) chunk)) (\<lambda>_.
     ret ()))"

definition upload_close_v2 :: "'t transport \<Rightarrow> json_codec \<Rightarrow> string \<Rightarrow> ('t, UploadResult) act" where
  "upload_close_v2 T J sid =
     seq (of_result (parse_stream_id_v2 sid)) (\<lambda>(h, temp_path, final_path).
     seq (wrapped (''write_close handle='' @ h) (client_call T J ''write_close'' (handle_param h))) (\<lambda>_.
     seq (client_rename T J temp_path final_path) (\<lambda>_.
     seq (client_stat T J final_path) (\<lambda>(mtime, sz, _).
     seq (set_version final_path mtime sz) (\<lambda>_.
     ret \<lparr>ur_ref = final_path, ur_version = version_string mtime sz\<rparr>)))))"

definition upload_abort_v2 :: "'t transport \<Rightarrow> json_codec \<Rightarrow> string \<Rightarrow> ('t, unit) act" where
  "upload_abort_v2 T J sid =
     (case parse_stream_id_v2_handle sid of
        Inl _ \<Rightarrow> ret ()
      | Inr h \<Rightarrow> handle (client_call T J ''write_abort'' (handle_param h)) (\<lambda>_. ret ()))"

definition client_read_open :: "'t transport \<Rightarrow> json_codec \<Rightarrow> string \<Rightarrow> ('t, string) act" where
  "client_read_open T J path =
     seq (wrapped (''read_open '' @ path) (client_call T J ''read_open'' (path_param path))) (\<lambda>result.
     of_result (handle_of result))"

definition client_read_chunk :: "'t transport \<Rightarrow> json_codec \<Rightarrow> string \<Rightarrow> ('t, bytes option) act" where
  "client_read_chunk T J h =
     seq (wrapped (''read_chunk handle='' @ h) (client_call_binary_read T J ''read_chunk'' (handle_param h))) (\<lambda>data.
     if data = [] then ret None else ret (Some data))"

definition client_read_close :: "'t transport \<Rightarrow> json_codec \<Rightarrow> string \<Rightarrow> ('t, unit) act" where
  "client_read_close T J h =
     seq (wrapped (''read_close handle='' @ h) (client_call T J ''read_close'' (handle_param h))) (\<lambda>_. ret ())"

subsection \<open>Root folders\<close>

definition ensure_dir :: "'t transport \<Rightarrow> json_codec \<Rightarrow> string \<Rightarrow> ('t, unit) act" where
  "ensure_dir T J path =
     (if path = [] then ret ()
      else handle (client_stat T J path) (\<lambda>r.
        case r of
          Inr _ \<Rightarrow> ret ()
        | Inl (Fail (SftpRelay _)) \<Rightarrow> client_mkdir T J path
        | Inl e \<Rightarrow> (\<lambda>s. Some (Inl e, s))))"

fun ensure_components :: "'t transport \<Rightarrow> json_codec \<Rightarrow> string \<Rightarrow> string list \<Rightarrow> ('t, unit) act" where
  "ensure_components T J accumulator [] = ret ()"
| "ensure_components T J accumulator (part # parts) =
     (let accumulator = accumulator @ ''/'' @ part in
      seq (ensure_dir T J accumulator) (\<lambda>_. ensure_components T J accumulator parts))"

definition ensure_dir_recursive :: "'t transport \<Rightarrow> json_codec \<Rightarrow> string \<Rightarrow> ('t, unit) act" where
  "ensure_dir_recursive T J path =
     (let trimmed = trim_end_matches CHR ''/'' path in
      if trimmed = [] then ret ()
      else ensure_components T J [] (filter (\<lambda>p. p \<noteq> []) (split_on CHR ''/'' trimmed)))"

definition ensure_root_folders :: "'t transport \<Rightarrow> json_codec \<Rightarrow> ('t, unit) act" where
  "ensure_root_folders T J =
     seq get_client (\<lambda>c.
     seq (wrapped ''ensure base path'' (ensure_dir_recursive T J (cl_base_path c))) (\<lambda>_.
     seq (wrapped ''ensure vault root'' (ensure_dir T J (vault_root_path c))) (\<lambda>_.
     wrapped ''ensure vault data dir'' (ensure_dir T J (vault_root_path c @ ''/data'')))))"

definition client_disconnect :: "'t transport \<Rightarrow> ('t, unit) act" where
  "client_disconnect T = seq (update_client (\<lambda>c. c\<lparr>cl_ready := False\<rparr>)) (\<lambda>_. on_transport (tp_close T))"

end
