(* ===== verification/Sftp_Transfer.thy ===== *)
theory Sftp_Transfer
  imports Sftp_Relay Sftp_Client
begin

text \<open>
  The SDK's SFTP client and the relay's command loop composed: the transport of the client is the
  relay session itself, which handles each frame as it is sent, and whose answers the client
  receives in order.  On top of it, a file streamed up through the relay and down again.
\<close>

subsection \<open>The link\<close>

record ('s, 'f) link =
  lk_session :: "('s, 'f) sftp_session"
  lk_closed :: bool
  lk_rnd :: "nat \<Rightarrow> bytes"
  lk_steps :: nat

definition feed :: "('s, 'f) sftp_server \<Rightarrow> json_codec \<Rightarrow> WsMessage \<Rightarrow> ('s, 'f) link \<Rightarrow> ('s, 'f) link" where
  "feed S J m lk =
     (if lk_closed lk then lk
      else case dispatch_step S J (lk_rnd lk (lk_steps lk)) True (Frame m) (lk_session lk) of
             (r, st) \<Rightarrow> lk\<lparr>lk_session := st, lk_closed := r \<noteq> None, lk_steps := Suc (lk_steps lk)\<rparr>)"

fun relay_frame :: "WsMessage \<Rightarrow> RelayFrame" where
  "relay_frame (MsgText t) = RelayText t"
| "relay_frame (MsgBinary b) = RelayBinary b"
| "relay_frame _ = RelayClosed"

definition relay_transport :: "('s, 'f) sftp_server \<Rightarrow> json_codec \<Rightarrow> ('s, 'f) link transport" where
  "relay_transport S J = \<lparr>
     tp_send_text = (\<lambda>text lk. (Inr (), feed S J (MsgText text) lk)),
     tp_send_text_then_binary = (\<lambda>text body lk. (Inr (), feed S J (MsgBinary body) (feed S J (MsgText text) lk))),
     tp_recv = (\<lambda>lk. case sent (lk_session lk) of
                  m # ms \<Rightarrow> Some (Inr (relay_frame m), lk\<lparr>lk_session := (lk_session lk)\<lparr>sent := ms\<rparr>\<rparr>)
                | [] \<Rightarrow> if lk_closed lk then Some (Inr RelayClosed, lk) else None),
     tp_close = (\<lambda>lk. (Inr (), lk\<lparr>lk_closed := True\<rparr>))\<rparr>"

lemma u32_of_value_uint [simp]: "u32_of_value (Number (uint (w :: u32))) = Some w"
  using uint_bounded [of w] by (simp add: u32_of_value_def)

lemma value_ok_id [simp]: "- 9223372036854775808 \<le> uint (w :: u32)" "uint (w :: u32) < 18446744073709551616"
  using uint_bounded [of w] by (simp_all add: order_trans [OF _ uint_nonnegative])

lemma parse_request_print:
  assumes "codec_ok J" "value_ok params"
  shows "parse_request J (json_to_string J (RpcRequest rid meth params)) = Some \<lparr>rq_id = rid, rq_method = meth, rq_params = params\<rparr>"
proof -
  have "value_ok (RpcRequest rid meth params)" using assms(2) by (simp add: RpcRequest_def)
  from codec_okD [OF assms(1) this] show ?thesis by (simp add: parse_request_def RpcRequest_def request_of_def)
qed

lemma parse_response_ok:
  assumes "codec_ok J" "value_ok v" "v \<noteq> Null"
  shows "parse_response J (ok_json J rid v) = Some \<lparr>rp_id = rid, rp_result = Some v, rp_error = None\<rparr>"
proof -
  have "value_ok (Object [(''id'', Number (uint rid)), (''result'', v)])" using assms(2) by simp
  from codec_okD [OF assms(1) this] show ?thesis
    using assms(3) by (cases v) (simp_all add: parse_response_def ok_json_def response_of_def opt_value_def)
qed

lemma parse_response_err:
  assumes "codec_ok J"
  shows "parse_response J (err_json J rid e) = Some \<lparr>rp_id = rid, rp_result = None, rp_error = Some e\<rparr>"
proof -
  have "value_ok (Object [(''error'', String e), (''id'', Number (uint rid))])" by simp
  from codec_okD [OF assms(1) this] show ?thesis
    by (simp add: parse_response_def err_json_def response_of_def opt_value_def)
qed

text \<open>The client is waiting for nothing and the relay for no body.\<close>

definition idle :: "('s, 'f) link \<Rightarrow> bool" where
  "idle lk \<longleftrightarrow> \<not> lk_closed lk \<and> sent (lk_session lk) = [] \<and> pending_binary (lk_session lk) = None"

text \<open>The relay's session after it has counted an incoming frame.\<close>

definition counted :: "nat \<Rightarrow> ('s, 'f) link \<Rightarrow> ('s, 'f) sftp_session" where
  "counted n lk = (lk_session lk)\<lparr>bytes_up := sat_add64 (bytes_up (lk_session lk)) n\<rparr>"

lemma counted_sel [simp]:
  "write_sessions (counted n lk) = write_sessions (lk_session lk)" "read_sessions (counted n lk) = read_sessions (lk_session lk)"
  "remote (counted n lk) = remote (lk_session lk)" "total_buffered (counted n lk) = total_buffered (lk_session lk)"
  "sent (counted n lk) = sent (lk_session lk)" "pending_binary (counted n lk) = pending_binary (lk_session lk)"
  by (simp_all add: counted_def)

lemma feed_request:
  assumes "codec_ok J" "value_ok params" "\<not> lk_closed lk"
  shows "feed S J (MsgText (json_to_string J (RpcRequest rid meth params))) lk =
    lk\<lparr>lk_session := handle_text_command S J (lk_rnd lk (lk_steps lk)) True \<lparr>rq_id = rid, rq_method = meth, rq_params = params\<rparr>
         (counted (length (json_to_string J (RpcRequest rid meth params))) lk), lk_steps := Suc (lk_steps lk)\<rparr>"
  using assms parse_request_print [OF assms(1,2), of rid meth]
  by (simp add: feed_def dispatch_step_def Let_def counted_def)

lemma recv_response_ok:
  assumes "codec_ok J" "value_ok v" "v \<noteq> Null" "sent (lk_session lk) = MsgText (ok_json J rid v) # ms"
  shows "recv_response (relay_transport S J) J rid (c, lk) = Some (Inr v, c, lk\<lparr>lk_session := (lk_session lk)\<lparr>sent := ms\<rparr>\<rparr>)"
  using assms by (subst recv_response.simps) (simp add: relay_transport_def parse_response_ok)

lemma recv_response_err:
  assumes "codec_ok J" "sent (lk_session lk) = MsgText (err_json J rid e) # ms"
  shows "recv_response (relay_transport S J) J rid (c, lk) =
    Some (Inl (Fail (SftpRelay e)), c, lk\<lparr>lk_session := (lk_session lk)\<lparr>sent := ms\<rparr>\<rparr>)"
  using assms by (subst recv_response.simps) (simp add: relay_transport_def parse_response_err)

text \<open>A call whose command the relay answers with a result.\<close>

lemma call_ok:
  fixes lk :: "('s, 'f) link"
  assumes J: "codec_ok J" and p: "value_ok params" and i: "idle lk"
    and h: "\<And>n. handle_text_command S J (lk_rnd lk (lk_steps lk)) True
          \<lparr>rq_id = request_counter c + 1, rq_method = meth, rq_params = params\<rparr> (counted n lk) =
        reply_ok J True (request_counter c + 1) v (st n)"
    and s: "\<And>n. sent (st n) = []" "\<And>n. pending_binary (st n) = None"
    and v: "value_ok v" "v \<noteq> Null"
  obtains n where "client_call (relay_transport S J) J meth params (c, lk) =
      Some (Inr v, c\<lparr>request_counter := request_counter c + 1\<rparr>, lk\<lparr>lk_session := st n, lk_steps := Suc (lk_steps lk)\<rparr>)"
    and "idle (lk\<lparr>lk_session := st n, lk_steps := Suc (lk_steps lk)\<rparr>)"
proof -
  let ?r = "request_counter c + 1"
  let ?t = "json_to_string J (RpcRequest ?r meth params)"
  let ?n = "length ?t"
  let ?lk = "lk\<lparr>lk_session := reply_ok J True ?r v (st ?n), lk_steps := Suc (lk_steps lk)\<rparr>"
  have cl: "\<not> lk_closed lk" using i by (simp add: idle_def)
  have F: "feed S J (MsgText ?t) lk = ?lk"
    using feed_request [OF J p cl, of S ?r meth] h [of ?n] by simp
  have Q: "sent (lk_session ?lk) = [MsgText (ok_json J ?r v)]" using s(1) [of ?n] by (simp add: reply_ok_def)
  have Z: "(reply_ok J True ?r v (st ?n))\<lparr>sent := []\<rparr> = st ?n"
    using s(1) [of ?n] by (simp add: reply_ok_def send_def)
  have "client_call (relay_transport S J) J meth params (c, lk) =
      Some (Inr v, c\<lparr>request_counter := ?r\<rparr>, lk\<lparr>lk_session := st ?n, lk_steps := Suc (lk_steps lk)\<rparr>)"
    using recv_response_ok [OF J v Q, of S "c\<lparr>request_counter := ?r\<rparr>"] F Z
    by (simp add: client_call_def seq_def client_next_id_def Let_def on_transport_def relay_transport_def)
  moreover have "idle (lk\<lparr>lk_session := st ?n, lk_steps := Suc (lk_steps lk)\<rparr>)"
    using i s by (simp add: idle_def)
  ultimately show thesis by (rule that)
qed


text \<open>A call with a body.\<close>

lemma write_call_ok:
  fixes lk :: "('s, 'f) link"
  assumes J: "codec_ok J" and p: "value_ok params" and i: "idle lk" and b: "length body \<le> MAX_BINARY_FRAME"
    and h: "\<And>n. handle_text_command S J (lk_rnd lk (lk_steps lk)) True
          \<lparr>rq_id = request_counter c + 1, rq_method = meth, rq_params = params\<rparr> (counted n lk) = (counted n lk)\<lparr>pending_binary := Some pb\<rparr>"
    and d: "\<And>st. sent st = [] \<Longrightarrow> pending_binary st = Some pb \<Longrightarrow> write_sessions st = write_sessions (lk_session lk) \<Longrightarrow>
        total_buffered st = total_buffered (lk_session lk) \<Longrightarrow> remote st = remote (lk_session lk) \<Longrightarrow>
        read_sessions st = read_sessions (lk_session lk) \<Longrightarrow>
        \<exists>st'. deliver_binary S J True body st = reply_ok J True (request_counter c + 1) v st' \<and> sent st' = [] \<and>
          pending_binary st' = None \<and> Q st'"
    and v: "value_ok v" "v \<noteq> Null"
  obtains st' c' where "client_call_binary_write (relay_transport S J) J meth params body (c, lk) =
      Some (Inr v, c', lk\<lparr>lk_session := st', lk_steps := Suc (Suc (lk_steps lk))\<rparr>)"
    and "idle (lk\<lparr>lk_session := st', lk_steps := Suc (Suc (lk_steps lk))\<rparr>)" and "Q st'"
    and "c' = c\<lparr>request_counter := request_counter c + 1, cl_bytes_sent := (cl_bytes_sent c + length body) mod 2 ^ 64\<rparr>"
proof -
  let ?r = "request_counter c + 1"
  let ?t = "json_to_string J (RpcRequest ?r meth params)"
  let ?c = "c\<lparr>request_counter := ?r, cl_bytes_sent := (cl_bytes_sent c + length body) mod 2 ^ 64\<rparr>"
  let ?st = "(counted (length ?t) lk)\<lparr>pending_binary := Some pb\<rparr>"
  let ?st1 = "?st\<lparr>bytes_up := sat_add64 (bytes_up ?st) (length body)\<rparr>"
  have cl: "\<not> lk_closed lk" and s0: "sent (lk_session lk) = []" using i by (simp_all add: idle_def)
  have F: "feed S J (MsgText ?t) lk = lk\<lparr>lk_session := ?st, lk_steps := Suc (lk_steps lk)\<rparr>"
    using feed_request [OF J p cl, of S ?r meth] h [of "length ?t"] by simp
  obtain st' where D: "deliver_binary S J True body ?st1 = reply_ok J True ?r v st'"
    and st': "sent st' = []" "pending_binary st' = None" "Q st'"
    using d [of ?st1] s0 by auto
  let ?lk = "lk\<lparr>lk_session := reply_ok J True ?r v st', lk_steps := Suc (Suc (lk_steps lk))\<rparr>"
  have G: "feed S J (MsgBinary body) (lk\<lparr>lk_session := ?st, lk_steps := Suc (lk_steps lk)\<rparr>) = ?lk"
    using cl b D by (simp add: feed_def dispatch_step_def)
  have Q: "sent (lk_session ?lk) = [MsgText (ok_json J ?r v)]" using st'(1) by (simp add: reply_ok_def)
  have Z: "(reply_ok J True ?r v st')\<lparr>sent := []\<rparr> = st'" using st'(1) by (simp add: reply_ok_def send_def)
  have "client_call_binary_write (relay_transport S J) J meth params body (c, lk) =
      Some (Inr v, ?c, lk\<lparr>lk_session := st', lk_steps := Suc (Suc (lk_steps lk))\<rparr>)"
    using recv_response_ok [OF J v Q, of S ?c] F G Z
    by (simp add: client_call_binary_write_def seq_def client_next_id_def Let_def on_transport_def relay_transport_def update_client_def)
  moreover have "idle (lk\<lparr>lk_session := st', lk_steps := Suc (Suc (lk_steps lk))\<rparr>)"
    using cl st' by (simp add: idle_def)
  ultimately show thesis using st'(3) by (rule that) simp
qed

text \<open>A call answered with data.\<close>

lemma read_call_ok:
  fixes lk :: "('s, 'f) link"
  assumes J: "codec_ok J" and p: "value_ok params" and i: "idle lk"
    and h: "\<And>n. handle_text_command S J (lk_rnd lk (lk_steps lk)) True
          \<lparr>rq_id = request_counter c + 1, rq_method = meth, rq_params = params\<rparr> (counted n lk) =
        send_data J True (request_counter c + 1) data (st n)"
    and s: "\<And>n. sent (st n) = []" "\<And>n. pending_binary (st n) = None"
    and l: "length data < 2 ^ 64"
  obtains st' c' n m where "client_call_binary_read (relay_transport S J) J meth params (c, lk) =
      Some (Inr data, c', lk\<lparr>lk_session := st', lk_steps := Suc (lk_steps lk)\<rparr>)"
    and "idle (lk\<lparr>lk_session := st', lk_steps := Suc (lk_steps lk)\<rparr>)"
    and "st' = (st n)\<lparr>bytes_down := m\<rparr>"
    and "c' = c\<lparr>request_counter := request_counter c + 1, cl_bytes_recv := (cl_bytes_recv c + length data) mod 2 ^ 64\<rparr>"
proof -
  let ?r = "request_counter c + 1"
  let ?t = "json_to_string J (RpcRequest ?r meth params)"
  let ?n = "length ?t"
  let ?v = "Object [(''size'', Number (int (length data)))]"
  let ?m = "bytes_down (send_data J True ?r data (st ?n))"
  let ?st = "(st ?n)\<lparr>bytes_down := ?m\<rparr>"
  let ?lk = "lk\<lparr>lk_session := send_data J True ?r data (st ?n), lk_steps := Suc (lk_steps lk)\<rparr>"
  have cl: "\<not> lk_closed lk" using i by (simp add: idle_def)
  have F: "feed S J (MsgText ?t) lk = ?lk" using feed_request [OF J p cl, of S ?r meth] h [of ?n] by simp
  have q: "sent (send_data J True ?r data (st ?n)) = [MsgText (ok_json J ?r ?v), MsgBinary data]"
    using s(1) [of ?n] by (simp add: send_data_def Let_def)
  have ss: "st ?n = (st ?n)\<lparr>sent := []\<rparr>" using s(1) [of ?n] by simp
  have z: "(send_data J True ?r data (st ?n))\<lparr>sent := []\<rparr> = ?st"
    by (subst (3) ss) (simp add: send_data_def Let_def send_def)
  have vok: "value_ok ?v" using l by simp
  have "recv_header (relay_transport S J) J ?r (c1, ?lk) =
      Some (Inr (), c1, ?lk\<lparr>lk_session := (lk_session ?lk)\<lparr>sent := [MsgBinary data]\<rparr>\<rparr>)" for c1
    using parse_response_ok [OF J vok, of ?r] by (subst recv_header.simps) (simp add: relay_transport_def q)
  moreover have "recv_body (relay_transport S J) (c1, ?lk\<lparr>lk_session := (lk_session ?lk)\<lparr>sent := [MsgBinary data]\<rparr>\<rparr>) =
      Some (Inr data, c1\<lparr>cl_bytes_recv := (cl_bytes_recv c1 + length data) mod 2 ^ 64\<rparr>, lk\<lparr>lk_session := ?st, lk_steps := Suc (lk_steps lk)\<rparr>)" for c1
    using z by (subst recv_body.simps) (simp add: relay_transport_def)
  ultimately have "client_call_binary_read (relay_transport S J) J meth params (c, lk) =
      Some (Inr data, c\<lparr>request_counter := ?r, cl_bytes_recv := (cl_bytes_recv c + length data) mod 2 ^ 64\<rparr>,
        lk\<lparr>lk_session := ?st, lk_steps := Suc (lk_steps lk)\<rparr>)"
    using F by (simp add: client_call_binary_read_def recv_response_then_binary_def seq_def client_next_id_def Let_def
        on_transport_def relay_transport_def)
  moreover have "idle (lk\<lparr>lk_session := ?st, lk_steps := Suc (lk_steps lk)\<rparr>)"
    using cl s(1) [of ?n] s(2) [of ?n] by (simp add: idle_def)
  ultimately show thesis by (rule that) simp_all
qed

subsection \<open>A healthy server\<close>

text \<open>
  What the client may expect of an SFTP server that is up and has space.  \<open>V path s\<close> is the content of
  a file, \<open>R f s\<close> what is left to read of an open file.  Creating and writing a file makes its
  content what was written; removing a file leaves it absent; renaming to an absent name moves the
  content; reading hands out the rest of the file piece by piece, an empty piece at its end only.
\<close>

definition writes_ok :: "('s, 'f) sftp_server \<Rightarrow> (string \<Rightarrow> 's \<Rightarrow> bytes option) \<Rightarrow> bool" where
  "writes_ok S V \<longleftrightarrow>
     (\<forall>p d s. \<exists>f f' s1 s2. sv_open_write S p s = (Inr f, s1) \<and> sv_write_all S f d s1 = (Inr f', s2) \<and>
        V p (sv_shutdown S f' s2) = Some d)"

definition removes_ok :: "('s, 'f) sftp_server \<Rightarrow> (string \<Rightarrow> 's \<Rightarrow> bytes option) \<Rightarrow> bool" where
  "removes_ok S V \<longleftrightarrow>
     (\<forall>p s r s'. sv_remove_file S p s = (r, s') \<longrightarrow> V p s' = None \<and> (\<forall>q. q \<noteq> p \<longrightarrow> V q s' = V q s))"

definition renames_ok :: "('s, 'f) sftp_server \<Rightarrow> (string \<Rightarrow> 's \<Rightarrow> bytes option) \<Rightarrow> bool" where
  "renames_ok S V \<longleftrightarrow>
     (\<forall>p q d s. V p s = Some d \<longrightarrow> V q s = None \<longrightarrow> (\<exists>s'. sv_rename S p q s = (Inr (), s') \<and> V q s' = Some d))"

definition stats_ok :: "('s, 'f) sftp_server \<Rightarrow> (string \<Rightarrow> 's \<Rightarrow> bytes option) \<Rightarrow> bool" where
  "stats_ok S V \<longleftrightarrow>
     (\<forall>p d s. V p s = Some d \<longrightarrow>
        (\<exists>m. sv_metadata S p s = (Inr m, s) \<and> md_size m = Some (length d) \<and> or_default 0 (md_mtime m) < 2 ^ 32))"

definition reads_ok :: "('s, 'f) sftp_server \<Rightarrow> (string \<Rightarrow> 's \<Rightarrow> bytes option) \<Rightarrow> ('f \<Rightarrow> 's \<Rightarrow> bytes) \<Rightarrow> bool" where
  "reads_ok S V R \<longleftrightarrow>
     (\<forall>p d s. V p s = Some d \<longrightarrow> (\<exists>f s'. sv_open_read S p s = (Inr f, s') \<and> R f s' = d)) \<and>
     (\<forall>f n s. 0 < n \<longrightarrow> (\<exists>b f' s'. sv_file_read S f n s = (Inr (b, f'), s') \<and> R f s = b @ R f' s' \<and> length b \<le> n \<and>
        (b = [] \<longrightarrow> R f s = [])))"

definition healthy :: "('s, 'f) sftp_server \<Rightarrow> (string \<Rightarrow> 's \<Rightarrow> bytes option) \<Rightarrow> ('f \<Rightarrow> 's \<Rightarrow> bytes) \<Rightarrow> bool" where
  "healthy S V R \<longleftrightarrow> writes_ok S V \<and> removes_ok S V \<and> renames_ok S V \<and> stats_ok S V \<and> reads_ok S V R"

lemma healthy_write:
  assumes "healthy S V R"
  obtains s' where "sftp_write_file S p d s = (Inr (), s')" and "V p s' = Some d"
proof -
  have "writes_ok S V" using assms by (simp add: healthy_def)
  then obtain f f' s1 s2 where "sv_open_write S p s = (Inr f, s1)" "sv_write_all S f d s1 = (Inr f', s2)"
    "V p (sv_shutdown S f' s2) = Some d"
    unfolding writes_ok_def by blast
  then show thesis by (intro that [of "sv_shutdown S f' s2"]) (simp_all add: sftp_write_file_def)
qed

lemma healthy_move:
  assumes H: "healthy S V R" and p: "V p s = Some d" "p \<noteq> q"
  obtains r s1 s2 where "sv_remove_file S q s = (r, s1)" and "sv_rename S p q s1 = (Inr (), s2)" and "V q s2 = Some d"
proof -
  have H: "removes_ok S V" "renames_ok S V" using H by (simp_all add: healthy_def)
  obtain r s1 where 1: "sv_remove_file S q s = (r, s1)" by fastforce
  then have "V q s1 = None" "V p s1 = Some d" using H(1) p by (simp_all add: removes_ok_def)
  then obtain s2 where "sv_rename S p q s1 = (Inr (), s2)" "V q s2 = Some d"
    using H(2) unfolding renames_ok_def by blast
  with 1 show thesis by (rule that)
qed

lemma healthy_stat:
  assumes "healthy S V R" "V p s = Some d"
  obtains m where "sv_metadata S p s = (Inr m, s)" and "md_size m = Some (length d)" and "or_default 0 (md_mtime m) < 2 ^ 32"
proof -
  have "stats_ok S V" using assms by (simp add: healthy_def)
  then show thesis using that assms(2) unfolding stats_ok_def by blast
qed

lemma healthy_open:
  assumes "healthy S V R" "V p s = Some d"
  obtains f s' where "sv_open_read S p s = (Inr f, s')" and "R f s' = d"
proof -
  have "reads_ok S V R" using assms by (simp add: healthy_def)
  then show thesis using that assms(2) unfolding reads_ok_def by blast
qed

lemma healthy_read:
  assumes "healthy S V R" "0 < n"
  obtains b f' s' where "sv_file_read S f n s = (Inr (b, f'), s')" and "R f s = b @ R f' s'" and "length b \<le> n"
    and "b = [] \<Longrightarrow> R f s = []"
proof -
  have "reads_ok S V R" using assms by (simp add: healthy_def)
  then obtain b f' s' where "sv_file_read S f n s = (Inr (b, f'), s')" "R f s = b @ R f' s'" "length b \<le> n" "b = [] \<longrightarrow> R f s = []"
    using assms(2) unfolding reads_ok_def by blast
  then show thesis by (intro that) blast+
qed

subsection \<open>Streaming through the relay\<close>

fun upload_chunks :: "'t transport \<Rightarrow> json_codec \<Rightarrow> string \<Rightarrow> bytes list \<Rightarrow> ('t, unit) act" where
  "upload_chunks T J sid [] = ret ()"
| "upload_chunks T J sid (chunk # chunks) = seq (upload_write_chunk T J sid chunk) (\<lambda>_. upload_chunks T J sid chunks)"

text \<open>An upload: open the stream, write the chunks, close it.\<close>

definition stream_upload :: "'t transport \<Rightarrow> json_codec \<Rightarrow> string \<Rightarrow> bytes list \<Rightarrow> ('t, UploadResult) act" where
  "stream_upload T J name chunks =
     seq (upload_open T J name) (\<lambda>sid. seq (upload_chunks T J sid chunks) (\<lambda>_. upload_close_v2 T J sid))"

partial_function (option) read_all :: "'t transport \<Rightarrow> json_codec \<Rightarrow> string \<Rightarrow> bytes \<Rightarrow> ('t, bytes) act" where
  "read_all T J h acc s =
     (case client_read_chunk T J h s of
        None \<Rightarrow> None
      | Some (Inl e, s') \<Rightarrow> Some (Inl e, s')
      | Some (Inr None, s') \<Rightarrow> Some (Inr acc, s')
      | Some (Inr (Some data), s') \<Rightarrow> read_all T J h (acc @ data) s')"

text \<open>A download: open the file, read to its end, close it.\<close>

definition stream_download :: "'t transport \<Rightarrow> json_codec \<Rightarrow> string \<Rightarrow> ('t, bytes) act" where
  "stream_download T J path =
     seq (client_read_open T J path) (\<lambda>h. seq (read_all T J h []) (\<lambda>data. seq (client_read_close T J h) (\<lambda>_. ret data)))"

subsection \<open>Each operation over the link\<close>

lemma char_of_eq_colon: "char_of n = CHR '':'' \<Longrightarrow> n mod 256 = (58 :: nat)"
  by (drule arg_cong [where f = "of_char :: char \<Rightarrow> nat"]) simp

lemma hex_digit_colon: "n < 16 \<Longrightarrow> hex_digit n \<noteq> CHR '':''"
  using char_of_eq_colon [of "48 + n"] char_of_eq_colon [of "87 + n"] by (auto simp: hex_digit_def)

lemma colon_hex: "CHR '':'' \<notin> set (hex_bytes bs)"
proof -
  have "hex_digit (unat (b :: u8) div 16) \<noteq> CHR '':''" "hex_digit (unat b mod 16) \<noteq> CHR '':''" for b
    using unsigned_less [of b, where ?'a = nat] by (intro hex_digit_colon; simp)+
  then show ?thesis unfolding hex_bytes_def by (auto simp: eq_commute [of "CHR '':''"])
qed

lemma digit_colon: "CHR '':'' \<notin> set (show_nat n)"
proof (induction n rule: show_nat.induct)
  case (1 n)
  have "char_of (48 + k) \<noteq> CHR '':''" if "k < 10" for k :: nat
    using char_of_eq_colon [of "48 + k"] that by auto
  then have "CHR '':'' \<noteq> char_of (48 + n)" if "n < 10" "CHR '':'' \<noteq> char_of (48 + n mod 10)" for n :: nat
    using that by metis
  then show ?case using 1 char_of_eq_colon [of "48 + n mod 10"] char_of_eq_colon [of "48 + n"]
    by (subst show_nat.simps) (auto simp: eq_commute [of "CHR '':''"])
qed

lemma parse_stream_id_ok:
  assumes "CHR '':'' \<notin> set h" "CHR '':'' \<notin> set temp_path"
  shows "parse_stream_id_v2 (stream_id h temp_path final_path) = Inr (h, temp_path, final_path)"
  using assms splitn_append [of "CHR '':''" h 1 "temp_path @ '':'' @ final_path"] splitn_append [of "CHR '':''" temp_path 0 final_path]
  by (simp add: parse_stream_id_v2_def stream_id_def numeral_eq_Suc strip_prefix_def)


text \<open>What the link lemmas track of the relay: open writes and reads, the byte count, the remote side.\<close>

definition relay_view :: "('s, 'f) link \<Rightarrow> (string, WriteSession) hmap \<Rightarrow> (string, 'f ReadSession) hmap \<Rightarrow> nat \<Rightarrow> 's \<Rightarrow> bool" where
  "relay_view lk W Rd n s \<longleftrightarrow> idle lk \<and> write_sessions (lk_session lk) = W \<and> read_sessions (lk_session lk) = Rd \<and>
     total_buffered (lk_session lk) = n \<and> remote (lk_session lk) = s"

lemma relay_view_idle: "relay_view lk W Rd n s \<Longrightarrow> idle lk"
  by (simp add: relay_view_def)

lemma upload_open_link:
  fixes lk :: "('s, 'f) link"
  assumes J: "codec_ok J" and lk: "relay_view lk W Rd n s"
    and final_def: "final = vault_root_path c @ ''/data/'' @ name"
    and temp_def: "temp = vault_root_path c @ ''/data/'' @ name @ ''.tmp.'' @ show_nat (unat (request_counter c + 1))"
    and h_def: "h = ''wh-'' @ hex_bytes (lk_rnd lk (lk_steps lk))"
  obtains lk' where "upload_open (relay_transport S J) J name (c, lk) =
      Some (Inr (stream_id h temp final), c\<lparr>request_counter := request_counter c + 1 + 1\<rparr>, lk')"
    and "relay_view lk' (AList.update h \<lparr>wr_path = temp, wr_buffer = []\<rparr> W) Rd n s"
proof -
  let ?c = "c\<lparr>request_counter := request_counter c + 1\<rparr>"
  let ?st = "\<lambda>k. (counted k lk)\<lparr>write_sessions := AList.update h \<lparr>wr_path = temp, wr_buffer = []\<rparr> (write_sessions (lk_session lk))\<rparr>"
  have st: "sent (?st k) = []" "pending_binary (?st k) = None" for k
    using lk by (simp_all add: relay_view_def idle_def)
  obtain k where C: "client_call (relay_transport S J) J ''write_open'' (path_param temp) (?c, lk) =
      Some (Inr (Object [(''handle'', String h)]), ?c\<lparr>request_counter := request_counter ?c + 1\<rparr>,
        lk\<lparr>lk_session := ?st k, lk_steps := Suc (lk_steps lk)\<rparr>)"
    and I: "idle (lk\<lparr>lk_session := ?st k, lk_steps := Suc (lk_steps lk)\<rparr>)"
    by (rule call_ok [where st = ?st and v = "Object [(''handle'', String h)]" and c = ?c and meth = "''write_open''"
          and params = "path_param temp", OF J _ relay_view_idle [OF lk] _ st])
      (simp_all add: path_param_def handle_text_command_def verb_write_open_def with_param_def param_str_def h_def Let_def)
  show thesis
  proof (rule that)
    show "upload_open (relay_transport S J) J name (c, lk) =
      Some (Inr (stream_id h temp final), c\<lparr>request_counter := request_counter c + 1 + 1\<rparr>,
        lk\<lparr>lk_session := ?st k, lk_steps := Suc (lk_steps lk)\<rparr>)"
      using C by (simp add: upload_open_def seq_def client_next_id_def get_client_def Let_def wrapped_def of_result_def
          handle_of_def Value_index_def ret_def temp_def final_def vault_root_path_def)
    show "relay_view (lk\<lparr>lk_session := ?st k, lk_steps := Suc (lk_steps lk)\<rparr>)
      (AList.update h \<lparr>wr_path = temp, wr_buffer = []\<rparr> W) Rd n s"
      using lk I by (simp add: relay_view_def)
  qed
qed


lemma write_chunk_link:
  fixes lk :: "('s, 'f) link"
  assumes J: "codec_ok J" and lk: "relay_view lk W Rd n s" and w: "map_of W h = Some w"
    and sid: "parse_stream_id_v2 sid = Inr (h, temp, final)"
    and sz: "length chunk \<le> MAX_BINARY_FRAME" "n + length chunk \<le> MAX_STREAM_BUFFER"
  obtains c' lk' where "upload_write_chunk (relay_transport S J) J sid chunk (c, lk) = Some (Inr (), c', lk')"
    and "relay_view lk' (AList.update h (w\<lparr>wr_buffer := wr_buffer w @ chunk\<rparr>) W) Rd (n + length chunk) s"
    and "cl_base_path c' = cl_base_path c"
proof -
  let ?Q = "\<lambda>st'. write_sessions st' = AList.update h (w\<lparr>wr_buffer := wr_buffer w @ chunk\<rparr>) W \<and> read_sessions st' = Rd \<and>
      total_buffered st' = n + length chunk \<and> remote st' = s"
  have sat: "sat_add64 n (length chunk) = n + length chunk"
    using sz(2) by (simp add: sat_add64_def MAX_STREAM_BUFFER_def)
  obtain st' c' where C: "client_call_binary_write (relay_transport S J) J ''write_chunk'' (handle_param h) chunk (c, lk) =
      Some (Inr empty_object, c', lk\<lparr>lk_session := st', lk_steps := Suc (Suc (lk_steps lk))\<rparr>)"
    and I: "idle (lk\<lparr>lk_session := st', lk_steps := Suc (Suc (lk_steps lk))\<rparr>)" and Q: "?Q st'"
    and c': "c' = c\<lparr>request_counter := request_counter c + 1, cl_bytes_sent := (cl_bytes_sent c + length chunk) mod 2 ^ 64\<rparr>"
  proof (rule write_call_ok [OF J _ relay_view_idle [OF lk] sz(1), where params = "handle_param h" and meth = "''write_chunk''" and
        pb = "PendWriteChunk (request_counter c + 1) h" and Q = ?Q and v = empty_object and S = S and c = c])
    show "\<exists>st'. deliver_binary S J True chunk st = reply_ok J True (request_counter c + 1) empty_object st' \<and> sent st' = [] \<and>
        pending_binary st' = None \<and> ?Q st'"
      if "sent st = []" "pending_binary st = Some (PendWriteChunk (request_counter c + 1) h)"
        "write_sessions st = write_sessions (lk_session lk)" "total_buffered st = total_buffered (lk_session lk)"
        "remote st = remote (lk_session lk)" "read_sessions st = read_sessions (lk_session lk)" for st :: "('s, 'f) sftp_session"
      using that lk w sz(2) sat
      by (intro exI [of _ "st\<lparr>pending_binary := None, write_sessions := AList.update h (w\<lparr>wr_buffer := wr_buffer w @ chunk\<rparr>) W,
          total_buffered := n + length chunk\<rparr>"])
        (simp add: deliver_binary_def Let_def stream_chunk_def relay_view_def)
    show "handle_text_command S J (lk_rnd lk (lk_steps lk)) True
       \<lparr>rq_id = request_counter c + 1, rq_method = ''write_chunk'', rq_params = handle_param h\<rparr> (counted k lk) =
      (counted k lk)\<lparr>pending_binary := Some (PendWriteChunk (request_counter c + 1) h)\<rparr>" for k
      using lk w by (simp add: handle_text_command_def verb_write_chunk_def param_str_def handle_param_def relay_view_def)
  qed (simp_all add: handle_param_def empty_object_def)
  show thesis
  proof (rule that)
    show "upload_write_chunk (relay_transport S J) J sid chunk (c, lk) =
        Some (Inr (), c', lk\<lparr>lk_session := st', lk_steps := Suc (Suc (lk_steps lk))\<rparr>)"
      using C sid by (simp add: upload_write_chunk_def seq_def of_result_def parse_stream_id_v2_handle_def wrapped_def ret_def)
    show "relay_view (lk\<lparr>lk_session := st', lk_steps := Suc (Suc (lk_steps lk))\<rparr>)
        (AList.update h (w\<lparr>wr_buffer := wr_buffer w @ chunk\<rparr>) W) Rd (n + length chunk) s"
      using I Q by (simp add: relay_view_def)
  qed (simp add: c')
qed

lemma chunks_link:
  fixes lk :: "('s, 'f) link"
  assumes "codec_ok J" "relay_view lk W Rd n s" "map_of W h = Some w" "parse_stream_id_v2 sid = Inr (h, temp, final)"
    "\<forall>ch\<in>set chunks. length ch \<le> MAX_BINARY_FRAME" "n + length (concat chunks) \<le> MAX_STREAM_BUFFER"
  shows "\<exists>c' lk' W'. upload_chunks (relay_transport S J) J sid chunks (c, lk) = Some (Inr (), c', lk') \<and>
    relay_view lk' W' Rd (n + length (concat chunks)) s \<and> map_of W' h = Some (w\<lparr>wr_buffer := wr_buffer w @ concat chunks\<rparr>) \<and>
    cl_base_path c' = cl_base_path c"
  using assms(2,3,5,6)
proof (induction chunks arbitrary: lk W n w c)
  case Nil
  then show ?case by (auto simp: ret_def)
next
  case (Cons ch chunks)
  let ?w = "w\<lparr>wr_buffer := wr_buffer w @ ch\<rparr>"
  obtain c1 lk1 where 1: "upload_write_chunk (relay_transport S J) J sid ch (c, lk) = Some (Inr (), c1, lk1)"
    "relay_view lk1 (AList.update h ?w W) Rd (n + length ch) s" "cl_base_path c1 = cl_base_path c"
    using write_chunk_link [OF assms(1) Cons.prems(1,2) assms(4), of ch S c] Cons.prems(3,4) by auto
  show ?case
    using Cons.IH [OF 1(2), of ?w c1] Cons.prems(3,4) 1(1,3) by (auto simp: seq_def add.assoc)
qed


text \<open>A call that only acts on the remote side.\<close>

lemma remote_call:
  fixes lk :: "('s, 'f) link"
  assumes J: "codec_ok J" and p: "value_ok params" and lk: "relay_view lk W Rd n s"
    and h: "\<And>st :: ('s, 'f) sftp_session. remote st = s \<Longrightarrow> handle_text_command S J (lk_rnd lk (lk_steps lk)) True
          \<lparr>rq_id = request_counter c + 1, rq_method = meth, rq_params = params\<rparr> st = reply_ok J True (request_counter c + 1) v (st\<lparr>remote := s'\<rparr>)"
    and v: "value_ok v" "v \<noteq> Null"
  obtains lk' where "client_call (relay_transport S J) J meth params (c, lk) = Some (Inr v, c\<lparr>request_counter := request_counter c + 1\<rparr>, lk')"
    and "relay_view lk' W Rd n s'"
proof -
  let ?st = "\<lambda>k. (counted k lk)\<lparr>remote := s'\<rparr>"
  have st: "sent (?st k) = []" "pending_binary (?st k) = None" for k
    using lk by (simp_all add: relay_view_def idle_def)
  have hc: "handle_text_command S J (lk_rnd lk (lk_steps lk)) True \<lparr>rq_id = request_counter c + 1, rq_method = meth, rq_params = params\<rparr>
      (counted k lk) = reply_ok J True (request_counter c + 1) v (?st k)" for k
    using lk by (intro h) (simp add: relay_view_def)
  obtain k where C: "client_call (relay_transport S J) J meth params (c, lk) =
      Some (Inr v, c\<lparr>request_counter := request_counter c + 1\<rparr>, lk\<lparr>lk_session := ?st k, lk_steps := Suc (lk_steps lk)\<rparr>)"
    and I: "idle (lk\<lparr>lk_session := ?st k, lk_steps := Suc (lk_steps lk)\<rparr>)"
    using call_ok [where st = ?st, OF J p relay_view_idle [OF lk] hc st v] .
  show thesis by (rule that [OF C]) (use lk I in \<open>simp add: relay_view_def\<close>)
qed

lemma rename_link:
  fixes lk :: "('s, 'f) link"
  assumes J: "codec_ok J" and lk: "relay_view lk W Rd n s" and H: "healthy S V R" and p: "V temp s = Some d" "temp \<noteq> final"
  obtains lk' s' where "client_rename (relay_transport S J) J temp final (c, lk) =
      Some (Inr (), c\<lparr>request_counter := request_counter c + 1\<rparr>, lk')"
    and "relay_view lk' W Rd n s'" and "V final s' = Some d"
proof -
  obtain r s1 s2 where s: "sv_remove_file S final s = (r, s1)" "sv_rename S temp final s1 = (Inr (), s2)" "V final s2 = Some d"
    using healthy_move [OF H p] .
  have h: "handle_text_command S J (lk_rnd lk (lk_steps lk)) True
        \<lparr>rq_id = request_counter c + 1, rq_method = ''rename'', rq_params = Object [(''from'', String temp), (''to'', String final)]\<rparr> st =
      reply_ok J True (request_counter c + 1) empty_object (st\<lparr>remote := s2\<rparr>)" if "remote st = s" for st :: "('s, 'f) sftp_session"
    using that s by (simp add: handle_text_command_def verb_rename_def or_param_def param_str_def on_remote_def reply_result_def)
  have p: "value_ok (Object [(''from'', String temp), (''to'', String final)])" "value_ok empty_object" "empty_object \<noteq> Null"
    by (simp_all add: empty_object_def)
  obtain lk' where "client_call (relay_transport S J) J ''rename'' (Object [(''from'', String temp), (''to'', String final)]) (c, lk) =
      Some (Inr empty_object, c\<lparr>request_counter := request_counter c + 1\<rparr>, lk')" "relay_view lk' W Rd n s2"
    using remote_call [OF J p(1) lk h p(2,3)] .
  then show thesis using s(3) by (intro that [of lk' s2]) (simp_all add: client_rename_def seq_def wrapped_def ret_def)
qed

lemma stat_link:
  fixes lk :: "('s, 'f) link"
  assumes J: "codec_ok J" and lk: "relay_view lk W Rd n s" and H: "healthy S V R" and p: "V path s = Some d" "length d < 2 ^ 63"
  obtains lk' mtime dir where "client_stat (relay_transport S J) J path (c, lk) =
      Some (Inr (mtime, length d, dir), c\<lparr>request_counter := request_counter c + 1\<rparr>, lk')"
    and "relay_view lk' W Rd n s"
proof -
  obtain m where m: "sv_metadata S path s = (Inr m, s)" "md_size m = Some (length d)" "or_default 0 (md_mtime m) < 2 ^ 32"
    using healthy_stat [OF H p(1)] .
  have t: "metadata_fields m = Object [(''isDir'', Bool (md_is_dir m)), (''mtime'', Number (int (or_default 0 (md_mtime m)))), (''size'', Number (int (length d)))]"
    by (simp add: metadata_fields_def or_default_def m)
  have q: "value_ok (path_param path)" "value_ok (metadata_fields m)" "metadata_fields m \<noteq> Null"
    using m(3) p(2) by (simp_all add: path_param_def t)
  have h: "handle_text_command S J (lk_rnd lk (lk_steps lk)) True
        \<lparr>rq_id = request_counter c + 1, rq_method = ''stat'', rq_params = path_param path\<rparr> st =
      reply_ok J True (request_counter c + 1) (metadata_fields m) (st\<lparr>remote := s\<rparr>)" if "remote st = s" for st :: "('s, 'f) sftp_session"
    using that m(1) by (simp add: handle_text_command_def verb_stat_def with_param_def path_param_def param_str_def on_remote_def reply_result_def)
  obtain lk' where "client_call (relay_transport S J) J ''stat'' (path_param path) (c, lk) =
      Some (Inr (metadata_fields m), c\<lparr>request_counter := request_counter c + 1\<rparr>, lk')" "relay_view lk' W Rd n s"
    using remote_call [OF J q(1) lk h q(2,3)] .
  then show thesis using p(2)
    by (intro that) (simp_all add: client_stat_def seq_def wrapped_def ret_def t Value_index_def or_default_def)
qed

lemma write_close_link:
  fixes lk :: "('s, 'f) link"
  assumes J: "codec_ok J" and lk: "relay_view lk W Rd n s" and w: "map_of W h = Some w" and H: "healthy S V R"
  obtains lk' s' where "client_call (relay_transport S J) J ''write_close'' (handle_param h) (c, lk) =
      Some (Inr empty_object, c\<lparr>request_counter := request_counter c + 1\<rparr>, lk')"
    and "relay_view lk' (AList.delete h W) Rd (n - length (wr_buffer w)) s'" and "V (wr_path w) s' = Some (wr_buffer w)"
proof -
  obtain s' where s': "sftp_write_file S (wr_path w) (wr_buffer w) s = (Inr (), s')" "V (wr_path w) s' = Some (wr_buffer w)"
    using healthy_write [OF H] .
  let ?st = "\<lambda>k. (counted k lk)\<lparr>write_sessions := AList.delete h W, total_buffered := n - length (wr_buffer w), remote := s'\<rparr>"
  have st: "sent (?st k) = []" "pending_binary (?st k) = None" for k
    using lk by (simp_all add: relay_view_def idle_def)
  have q: "value_ok (handle_param h)" "value_ok empty_object" "empty_object \<noteq> Null"
    by (simp_all add: handle_param_def empty_object_def)
  have h: "handle_text_command S J (lk_rnd lk (lk_steps lk)) True
        \<lparr>rq_id = request_counter c + 1, rq_method = ''write_close'', rq_params = handle_param h\<rparr> (counted k lk) =
      reply_ok J True (request_counter c + 1) empty_object (?st k)" for k
    using lk w s'(1) by (simp add: handle_text_command_def verb_write_close_def with_param_def handle_param_def param_str_def
        on_remote_def write_reply_def relay_view_def Let_def)
  obtain k where C: "client_call (relay_transport S J) J ''write_close'' (handle_param h) (c, lk) =
      Some (Inr empty_object, c\<lparr>request_counter := request_counter c + 1\<rparr>, lk\<lparr>lk_session := ?st k, lk_steps := Suc (lk_steps lk)\<rparr>)"
    and I: "idle (lk\<lparr>lk_session := ?st k, lk_steps := Suc (lk_steps lk)\<rparr>)"
    using call_ok [where st = ?st, OF J q(1) relay_view_idle [OF lk] h st q(2,3)] .
  show thesis by (rule that [OF C _ s'(2)]) (use lk I in \<open>simp add: relay_view_def\<close>)
qed

lemma upload_close_link:
  fixes lk :: "('s, 'f) link"
  assumes J: "codec_ok J" and lk: "relay_view lk W Rd n s" and w: "map_of W h = Some w" and H: "healthy S V R"
    and sid: "parse_stream_id_v2 sid = Inr (h, wr_path w, final)" and ne: "wr_path w \<noteq> final" and sz: "length (wr_buffer w) < 2 ^ 63"
  obtains c' lk' s' mtime where "upload_close_v2 (relay_transport S J) J sid (c, lk) =
      Some (Inr \<lparr>ur_ref = final, ur_version = version_string mtime (length (wr_buffer w))\<rparr>, c', lk')"
    and "relay_view lk' (AList.delete h W) Rd (n - length (wr_buffer w)) s'" and "V final s' = Some (wr_buffer w)"
    and "cached_version final c' = Some (version_string mtime (length (wr_buffer w)))"
proof -
  obtain lk1 s1 where 1: "client_call (relay_transport S J) J ''write_close'' (handle_param h) (c, lk) =
      Some (Inr empty_object, c\<lparr>request_counter := request_counter c + 1\<rparr>, lk1)"
    "relay_view lk1 (AList.delete h W) Rd (n - length (wr_buffer w)) s1" "V (wr_path w) s1 = Some (wr_buffer w)"
    using write_close_link [OF J lk w H] .
  let ?c1 = "c\<lparr>request_counter := request_counter c + 1\<rparr>"
  obtain lk2 s2 where 2: "client_rename (relay_transport S J) J (wr_path w) final (?c1, lk1) =
      Some (Inr (), ?c1\<lparr>request_counter := request_counter ?c1 + 1\<rparr>, lk2)"
    "relay_view lk2 (AList.delete h W) Rd (n - length (wr_buffer w)) s2" "V final s2 = Some (wr_buffer w)"
    using rename_link [OF J 1(2) H 1(3) ne] .
  let ?c2 = "?c1\<lparr>request_counter := request_counter ?c1 + 1\<rparr>"
  obtain lk3 mtime dir where 3: "client_stat (relay_transport S J) J final (?c2, lk2) =
      Some (Inr (mtime, length (wr_buffer w), dir), ?c2\<lparr>request_counter := request_counter ?c2 + 1\<rparr>, lk3)"
    "relay_view lk3 (AList.delete h W) Rd (n - length (wr_buffer w)) s2"
    using stat_link [OF J 2(2) H 2(3) sz] .
  let ?v = "version_string mtime (length (wr_buffer w))"
  let ?c3 = "?c2\<lparr>request_counter := request_counter ?c2 + 1\<rparr>"
  let ?c4 = "?c3\<lparr>file_versions := AList.update final ?v (file_versions ?c3)\<rparr>"
  have "upload_close_v2 (relay_transport S J) J sid (c, lk) = Some (Inr \<lparr>ur_ref = final, ur_version = ?v\<rparr>, ?c4, lk3)"
    using 1(1) 2(1) 3(1) sid
    by (simp add: upload_close_v2_def seq_def of_result_def wrapped_def set_version_def update_client_def ret_def)
  then show thesis using 3(2) 2(3) by (rule that) (simp add: cached_version_def)
qed

lemma read_open_link:
  fixes lk :: "('s, 'f) link"
  assumes J: "codec_ok J" and lk: "relay_view lk W Rd n s" and H: "healthy S V R" and p: "V path s = Some d"
    and room: "length Rd < MAX_READ_SESSIONS"
  obtains h f s' lk' where "client_read_open (relay_transport S J) J path (c, lk) = Some (Inr h, c\<lparr>request_counter := request_counter c + 1\<rparr>, lk')"
    and "relay_view lk' W (AList.update h \<lparr>rd_file = f, rd_path = path\<rparr> Rd) n s'" and "R f s' = d"
proof -
  obtain f s' where f: "sv_open_read S path s = (Inr f, s')" "R f s' = d" using healthy_open [OF H p] .
  let ?h = "''rh-'' @ hex_bytes (lk_rnd lk (lk_steps lk))"
  let ?v = "Object [(''handle'', String ?h)]"
  let ?st = "\<lambda>k. (counted k lk)\<lparr>remote := s', read_sessions := AList.update ?h \<lparr>rd_file = f, rd_path = path\<rparr> Rd\<rparr>"
  have st: "sent (?st k) = []" "pending_binary (?st k) = None" for k
    using lk by (simp_all add: relay_view_def idle_def)
  have q: "value_ok (path_param path)" "value_ok ?v" "?v \<noteq> Null" by (simp_all add: path_param_def)
  have h: "handle_text_command S J (lk_rnd lk (lk_steps lk)) True
        \<lparr>rq_id = request_counter c + 1, rq_method = ''read_open'', rq_params = path_param path\<rparr> (counted k lk) =
      reply_ok J True (request_counter c + 1) ?v (?st k)" for k
    using lk f(1) room by (simp add: handle_text_command_def verb_read_open_def with_param_def path_param_def param_str_def
        on_remote_def relay_view_def Let_def)
  obtain k where C: "client_call (relay_transport S J) J ''read_open'' (path_param path) (c, lk) =
      Some (Inr ?v, c\<lparr>request_counter := request_counter c + 1\<rparr>, lk\<lparr>lk_session := ?st k, lk_steps := Suc (lk_steps lk)\<rparr>)"
    and I: "idle (lk\<lparr>lk_session := ?st k, lk_steps := Suc (lk_steps lk)\<rparr>)"
    using call_ok [where st = ?st, OF J q(1) relay_view_idle [OF lk] h st q(2,3)] .
  have "client_read_open (relay_transport S J) J path (c, lk) =
      Some (Inr ?h, c\<lparr>request_counter := request_counter c + 1\<rparr>, lk\<lparr>lk_session := ?st k, lk_steps := Suc (lk_steps lk)\<rparr>)"
    using C by (simp add: client_read_open_def seq_def wrapped_def of_result_def handle_of_def Value_index_def)
  moreover have "relay_view (lk\<lparr>lk_session := ?st k, lk_steps := Suc (lk_steps lk)\<rparr>) W (AList.update ?h \<lparr>rd_file = f, rd_path = path\<rparr> Rd) n s'"
    using lk I by (simp add: relay_view_def)
  ultimately show thesis using f(2) by (rule that)
qed

lemma read_chunk_link:
  fixes lk :: "('s, 'f) link"
  assumes J: "codec_ok J" and lk: "relay_view lk W Rd n s" and H: "healthy S V R" and r: "map_of Rd h = Some r"
  obtains b f' s' c' lk' where "client_read_chunk (relay_transport S J) J h (c, lk) = Some (Inr (if b = [] then None else Some b), c', lk')"
    and "relay_view lk' W (AList.update h (r\<lparr>rd_file := f'\<rparr>) Rd) n s'" and "R (rd_file r) s = b @ R f' s'"
    and "b = [] \<longrightarrow> R (rd_file r) s = []"
proof -
  have pos: "0 < READ_CHUNK_SIZE" by (simp add: READ_CHUNK_SIZE_def)
  obtain b f' s' where b: "sv_file_read S (rd_file r) READ_CHUNK_SIZE s = (Inr (b, f'), s')" "R (rd_file r) s = b @ R f' s'"
    "length b \<le> READ_CHUNK_SIZE" "b = [] \<longrightarrow> R (rd_file r) s = []"
    using healthy_read [OF H pos, of "rd_file r" s] by blast
  let ?st = "\<lambda>k. (counted k lk)\<lparr>remote := s', read_sessions := AList.update h (r\<lparr>rd_file := f'\<rparr>) Rd\<rparr>"
  have st: "sent (?st k) = []" "pending_binary (?st k) = None" for k
    using lk by (simp_all add: relay_view_def idle_def)
  have q: "value_ok (handle_param h)" "length b < 2 ^ 64" using b(3) by (simp_all add: handle_param_def READ_CHUNK_SIZE_def)
  have h: "handle_text_command S J (lk_rnd lk (lk_steps lk)) True
        \<lparr>rq_id = request_counter c + 1, rq_method = ''read_chunk'', rq_params = handle_param h\<rparr> (counted k lk) =
      send_data J True (request_counter c + 1) b (?st k)" for k
    using lk b(1) r by (simp add: handle_text_command_def verb_read_chunk_def with_param_def handle_param_def param_str_def
        on_remote_def relay_view_def Let_def)
  obtain st' c' k m where C: "client_call_binary_read (relay_transport S J) J ''read_chunk'' (handle_param h) (c, lk) =
      Some (Inr b, c', lk\<lparr>lk_session := st', lk_steps := Suc (lk_steps lk)\<rparr>)"
    and I: "idle (lk\<lparr>lk_session := st', lk_steps := Suc (lk_steps lk)\<rparr>)" and st': "st' = (?st k)\<lparr>bytes_down := m\<rparr>"
    using read_call_ok [where st = ?st, OF J q(1) relay_view_idle [OF lk] h st q(2)] .
  have "client_read_chunk (relay_transport S J) J h (c, lk) =
      Some (Inr (if b = [] then None else Some b), c', lk\<lparr>lk_session := st', lk_steps := Suc (lk_steps lk)\<rparr>)"
    using C by (simp add: client_read_chunk_def seq_def wrapped_def ret_def)
  moreover have "relay_view (lk\<lparr>lk_session := st', lk_steps := Suc (lk_steps lk)\<rparr>) W (AList.update h (r\<lparr>rd_file := f'\<rparr>) Rd) n s'"
    using lk I st' by (simp add: relay_view_def)
  ultimately show thesis using b(2,4) by (rule that)
qed

lemma read_all_link:
  fixes lk :: "('s, 'f) link"
  assumes J: "codec_ok J" and H: "healthy S V R"
  shows "relay_view lk W Rd n s \<Longrightarrow> map_of Rd h = Some r \<Longrightarrow>
    \<exists>c' lk' Rd' s'. read_all (relay_transport S J) J h acc (c, lk) = Some (Inr (acc @ R (rd_file r) s), c', lk') \<and>
      relay_view lk' W Rd' n s'"
proof (induction "length (R (rd_file r) s)" arbitrary: lk Rd s r acc c rule: less_induct)
  case less
  obtain b f' s' c' lk' where b: "client_read_chunk (relay_transport S J) J h (c, lk) = Some (Inr (if b = [] then None else Some b), c', lk')"
    "relay_view lk' W (AList.update h (r\<lparr>rd_file := f'\<rparr>) Rd) n s'" "R (rd_file r) s = b @ R f' s'"
    "b = [] \<longrightarrow> R (rd_file r) s = []"
    using read_chunk_link [OF J less.prems(1) H less.prems(2), of c] .
  show ?case
  proof (cases "b = []")
    case True
    then show ?thesis using b by (subst read_all.simps) auto
  next
    case False
    have "length (R (rd_file (r\<lparr>rd_file := f'\<rparr>)) s') < length (R (rd_file r) s)" using b(3) False by simp
    from less.hyps [OF this b(2), of "acc @ b" c']
    show ?thesis using b(1,3) False by (subst read_all.simps) simp
  qed
qed

lemma read_close_link:
  fixes lk :: "('s, 'f) link"
  assumes J: "codec_ok J" and lk: "relay_view lk W Rd n s"
  obtains lk' where "client_read_close (relay_transport S J) J h (c, lk) = Some (Inr (), c\<lparr>request_counter := request_counter c + 1\<rparr>, lk')"
    and "relay_view lk' W (AList.delete h Rd) n s"
proof -
  let ?st = "\<lambda>k. (counted k lk)\<lparr>read_sessions := AList.delete h Rd\<rparr>"
  have st: "sent (?st k) = []" "pending_binary (?st k) = None" for k
    using lk by (simp_all add: relay_view_def idle_def)
  have q: "value_ok (handle_param h)" "value_ok empty_object" "empty_object \<noteq> Null"
    by (simp_all add: handle_param_def empty_object_def)
  have h: "handle_text_command S J (lk_rnd lk (lk_steps lk)) True
        \<lparr>rq_id = request_counter c + 1, rq_method = ''read_close'', rq_params = handle_param h\<rparr> (counted k lk) =
      reply_ok J True (request_counter c + 1) empty_object (?st k)" for k
    using lk by (simp add: handle_text_command_def verb_read_close_def with_param_def handle_param_def param_str_def relay_view_def Let_def)
  obtain k where C: "client_call (relay_transport S J) J ''read_close'' (handle_param h) (c, lk) =
      Some (Inr empty_object, c\<lparr>request_counter := request_counter c + 1\<rparr>, lk\<lparr>lk_session := ?st k, lk_steps := Suc (lk_steps lk)\<rparr>)"
    and I: "idle (lk\<lparr>lk_session := ?st k, lk_steps := Suc (lk_steps lk)\<rparr>)"
    using call_ok [where st = ?st, OF J q(1) relay_view_idle [OF lk] h st q(2,3)] .
  have "client_read_close (relay_transport S J) J h (c, lk) =
      Some (Inr (), c\<lparr>request_counter := request_counter c + 1\<rparr>, lk\<lparr>lk_session := ?st k, lk_steps := Suc (lk_steps lk)\<rparr>)"
    using C by (simp add: client_read_close_def seq_def wrapped_def ret_def)
  then show thesis by (rule that) (use lk I in \<open>simp add: relay_view_def\<close>)
qed

lemma stream_download_link:
  fixes lk :: "('s, 'f) link"
  assumes J: "codec_ok J" and lk: "relay_view lk W Rd n s" and H: "healthy S V R" and p: "V path s = Some d"
    and room: "length Rd < MAX_READ_SESSIONS"
  shows "\<exists>c' lk'. stream_download (relay_transport S J) J path (c, lk) = Some (Inr d, c', lk') \<and> idle lk'"
proof -
  obtain h f s1 lk1 where 1: "client_read_open (relay_transport S J) J path (c, lk) = Some (Inr h, c\<lparr>request_counter := request_counter c + 1\<rparr>, lk1)"
    "relay_view lk1 W (AList.update h \<lparr>rd_file = f, rd_path = path\<rparr> Rd) n s1" "R f s1 = d"
    using read_open_link [OF J lk H p room] .
  obtain c2 lk2 Rd2 s2 where 2: "read_all (relay_transport S J) J h [] (c\<lparr>request_counter := request_counter c + 1\<rparr>, lk1) = Some (Inr d, c2, lk2)"
    "relay_view lk2 W Rd2 n s2"
    using read_all_link [OF J H 1(2), of h "\<lparr>rd_file = f, rd_path = path\<rparr>" "[]" "c\<lparr>request_counter := request_counter c + 1\<rparr>"] 1(3) by auto
  obtain lk3 where 3: "client_read_close (relay_transport S J) J h (c2, lk2) = Some (Inr (), c2\<lparr>request_counter := request_counter c2 + 1\<rparr>, lk3)"
    "relay_view lk3 W (AList.delete h Rd2) n s2"
    using read_close_link [OF J 2(2)] .
  show ?thesis using 1(1) 2(1) 3(1) relay_view_idle [OF 3(2)] by (simp add: stream_download_def seq_def ret_def)
qed

lemma stream_upload_link:
  fixes lk :: "('s, 'f) link"
  assumes J: "codec_ok J" and lk: "relay_view lk W Rd n s" and H: "healthy S V R"
    and colon: "CHR '':'' \<notin> set (cl_base_path c)" "CHR '':'' \<notin> set name"
    and sz: "\<forall>ch\<in>set chunks. length ch \<le> MAX_BINARY_FRAME" "n + length (concat chunks) \<le> MAX_STREAM_BUFFER"
    and final: "final = vault_root_path c @ ''/data/'' @ name"
  obtains c' lk' W' s' ver where "stream_upload (relay_transport S J) J name chunks (c, lk) = Some (Inr \<lparr>ur_ref = final, ur_version = ver\<rparr>, c', lk')"
    and "relay_view lk' W' Rd n s'" and "V final s' = Some (concat chunks)" and "cached_version final c' = Some ver"
proof -
  define temp where "temp = vault_root_path c @ ''/data/'' @ name @ ''.tmp.'' @ show_nat (unat (request_counter c + 1))"
  define h where "h = ''wh-'' @ hex_bytes (lk_rnd lk (lk_steps lk))"
  let ?w = "\<lparr>wr_path = temp, wr_buffer = []\<rparr>"
  obtain lk1 where 1: "upload_open (relay_transport S J) J name (c, lk) =
      Some (Inr (stream_id h temp final), c\<lparr>request_counter := request_counter c + 1 + 1\<rparr>, lk1)"
    "relay_view lk1 (AList.update h ?w W) Rd n s"
    using upload_open_link [OF J lk final temp_def h_def] .
  have "CHR '':'' \<notin> set h" "CHR '':'' \<notin> set temp"
    using colon colon_hex digit_colon by (simp_all add: h_def temp_def vault_root_path_def VAULT_ROOT_NAME_def)
  then have sid: "parse_stream_id_v2 (stream_id h temp final) = Inr (h, temp, final)" by (rule parse_stream_id_ok)
  obtain c2 lk2 W2 where 2: "upload_chunks (relay_transport S J) J (stream_id h temp final) chunks
        (c\<lparr>request_counter := request_counter c + 1 + 1\<rparr>, lk1) = Some (Inr (), c2, lk2)"
    "relay_view lk2 W2 Rd (n + length (concat chunks)) s" "map_of W2 h = Some (?w\<lparr>wr_buffer := concat chunks\<rparr>)"
    using chunks_link [OF J 1(2), of h ?w "stream_id h temp final" temp final chunks S "c\<lparr>request_counter := request_counter c + 1 + 1\<rparr>"] sid sz
    by auto
  let ?w' = "?w\<lparr>wr_buffer := concat chunks\<rparr>"
  have ne: "wr_path ?w' \<noteq> final" by (simp add: temp_def final)
  have small: "length (wr_buffer ?w') < 2 ^ 63" using sz(2) by (simp add: MAX_STREAM_BUFFER_def)
  have sid': "parse_stream_id_v2 (stream_id h temp final) = Inr (h, wr_path ?w', final)" using sid by simp
  obtain c3 lk3 s3 mtime where U: "upload_close_v2 (relay_transport S J) J (stream_id h temp final) (c2, lk2) =
      Some (Inr \<lparr>ur_ref = final, ur_version = version_string mtime (length (wr_buffer ?w'))\<rparr>, c3, lk3)"
    "relay_view lk3 (AList.delete h W2) Rd (n + length (concat chunks) - length (wr_buffer ?w')) s3" "V final s3 = Some (wr_buffer ?w')"
    "cached_version final c3 = Some (version_string mtime (length (wr_buffer ?w')))"
    using upload_close_link [OF J 2(2,3) H sid' ne small] .
  then have 3: "upload_close_v2 (relay_transport S J) J (stream_id h temp final) (c2, lk2) =
      Some (Inr \<lparr>ur_ref = final, ur_version = version_string mtime (length (concat chunks))\<rparr>, c3, lk3)"
    "relay_view lk3 (AList.delete h W2) Rd n s3" "V final s3 = Some (concat chunks)"
    "cached_version final c3 = Some (version_string mtime (length (concat chunks)))"
    by simp_all
  have "stream_upload (relay_transport S J) J name chunks (c, lk) =
      Some (Inr \<lparr>ur_ref = final, ur_version = version_string mtime (length (concat chunks))\<rparr>, c3, lk3)"
    using 1(1) 2(1) 3(1) by (simp add: stream_upload_def seq_def)
  then show thesis using 3(2-4) by (rule that)
qed


text \<open>
  A path with a colon is not recovered from the stream id: the temporary path is cut at its first
  colon, and the rest becomes part of the final one.
\<close>

lemma stream_id_colon:
  assumes "CHR '':'' \<notin> set h" "CHR '':'' \<notin> set a"
  shows "parse_stream_id_v2 (stream_id h (a @ '':'' @ b) final_path) = Inr (h, a, b @ '':'' @ final_path)"
  using assms splitn_append [of "CHR '':''" h 1 "a @ '':'' @ b @ '':'' @ final_path"] splitn_append [of "CHR '':''" a 0 "b @ '':'' @ final_path"]
  by (simp add: parse_stream_id_v2_def stream_id_def numeral_eq_Suc strip_prefix_def)

subsection \<open>A file through the relay and back\<close>

text \<open>
  C24. A file streamed up by the SDK's client through the relay arrives: with an SFTP server that is
  up, chunks within the frame limit and the session's buffer, and neither the base path nor the
  name containing a colon, the upload returns the final path and a version that is also cached,
  the server holds under that path exactly the concatenated chunks, and a streaming download of the
  path through the same session ends and returns them.
\<close>

theorem sftp_upload_download:
  fixes lk :: "('s, 'f) link"
  assumes "codec_ok J" and "healthy S V R" and "idle lk"
    and "CHR '':'' \<notin> set (cl_base_path c)" and "CHR '':'' \<notin> set name"
    and "\<forall>ch\<in>set chunks. length ch \<le> MAX_BINARY_FRAME"
    and "total_buffered (lk_session lk) + length (concat chunks) \<le> MAX_STREAM_BUFFER"
    and "length (read_sessions (lk_session lk)) < MAX_READ_SESSIONS"
  shows "let final = cl_base_path c @ ''/WattcloudVault/data/'' @ name in
    \<exists>ver c1 lk1 c2 lk2.
      stream_upload (relay_transport S J) J name chunks (c, lk) = Some (Inr \<lparr>ur_ref = final, ur_version = ver\<rparr>, c1, lk1) \<and>
      V final (remote (lk_session lk1)) = Some (concat chunks) \<and> cached_version final c1 = Some ver \<and>
      stream_download (relay_transport S J) J final (c1, lk1) = Some (Inr (concat chunks), c2, lk2)"
proof -
  let ?final = "cl_base_path c @ ''/WattcloudVault/data/'' @ name"
  let ?W = "write_sessions (lk_session lk)" and ?Rd = "read_sessions (lk_session lk)"
  let ?n = "total_buffered (lk_session lk)" and ?s = "remote (lk_session lk)"
  have lk: "relay_view lk ?W ?Rd ?n ?s" using assms(3) by (simp add: relay_view_def)
  have final: "?final = vault_root_path c @ ''/data/'' @ name" by (simp add: vault_root_path_def VAULT_ROOT_NAME_def)
  obtain c1 lk1 W1 s1 ver where U: "stream_upload (relay_transport S J) J name chunks (c, lk) =
      Some (Inr \<lparr>ur_ref = ?final, ur_version = ver\<rparr>, c1, lk1)"
    "relay_view lk1 W1 ?Rd ?n s1" "V ?final s1 = Some (concat chunks)" "cached_version ?final c1 = Some ver"
    using stream_upload_link [OF assms(1) lk assms(2,4,5,6,7) final] .
  moreover have "remote (lk_session lk1) = s1" using U(2) by (simp add: relay_view_def)
  moreover obtain c2 lk2 where "stream_download (relay_transport S J) J ?final (c1, lk1) = Some (Inr (concat chunks), c2, lk2)"
    using stream_download_link [where V = V and R = R, OF assms(1) U(2) assms(2) U(3) assms(8), of c1] by blast
  ultimately show ?thesis unfolding Let_def by blast
qed

definition toy_rest :: "string \<times> nat \<Rightarrow> (string, bytes) hmap \<Rightarrow> bytes" where
  "toy_rest f s = drop (snd f) (get_or [] s (fst f))"

lemma healthy_toy: "healthy toy_server (\<lambda>p s. map_of s p) toy_rest"
proof -
  have "writes_ok toy_server (\<lambda>p s. map_of s p)" by (simp add: writes_ok_def toy_server_def get_or_def)
  moreover have "removes_ok toy_server (\<lambda>p s. map_of s p)" by (simp add: removes_ok_def toy_server_def)
  moreover have "renames_ok toy_server (\<lambda>p s. map_of s p)" by (simp add: renames_ok_def toy_server_def)
  moreover have "stats_ok toy_server (\<lambda>p s. map_of s p)" by (auto simp: stats_ok_def toy_server_def or_default_def)
  moreover have "take n (drop k d) @ drop (k + n) d = drop k d" for n k and d :: bytes
    using append_take_drop_id [of n "drop k d"] by (simp add: add.commute)
  then have "reads_ok toy_server (\<lambda>p s. map_of s p) toy_rest"
    by (auto simp: reads_ok_def toy_server_def toy_rest_def get_or_def Let_def split: option.splits)
  ultimately show ?thesis by (simp add: healthy_def)
qed

definition toy_link :: "((string, bytes) hmap, string \<times> nat) link" where
  "toy_link = \<lparr>lk_session = dispatch_init [], lk_closed = False, lk_rnd = (\<lambda>n. replicate 16 (word_of_nat n)), lk_steps = 0\<rparr>"

theorem sftp_upload_download_witness:
  "let final = ''/WattcloudVault/data/blob'' in
    \<exists>ver c1 lk1 c2 lk2.
      stream_upload (relay_transport toy_server toy_codec) toy_codec ''blob'' [[1, 2], [3]] (SftpRelayClient_new [], toy_link) =
        Some (Inr \<lparr>ur_ref = final, ur_version = ver\<rparr>, c1, lk1) \<and>
      map_of (remote (lk_session lk1)) final = Some [1, 2, 3] \<and> cached_version final c1 = Some ver \<and>
      stream_download (relay_transport toy_server toy_codec) toy_codec final (c1, lk1) = Some (Inr [1, 2, 3], c2, lk2)"
proof -
  have b: "cl_base_path (SftpRelayClient_new []) = []"
    by (simp add: SftpRelayClient_new_def normalize_base_path_def trim_def trim_start_def trim_end_def)
  have "idle toy_link" by (simp add: idle_def toy_link_def dispatch_init_def)
  from sftp_upload_download [OF codec_ok_toy healthy_toy this, of "SftpRelayClient_new []" "''blob''" "[[1, 2], [3]]"] b
  show ?thesis by (simp add: toy_link_def dispatch_init_def MAX_BINARY_FRAME_def MAX_STREAM_BUFFER_def MAX_READ_SESSIONS_def)
qed

end
