(* ===== verification/Spec2Isabelle.thy ===== *)
theory Spec2Isabelle
  imports Streaming Vault_Journal Vault_Manifest Wasm_Keys Wasm_Plans Wasm_Enroll Wasm_Share Share_Quota Share_Throttle
    Enrollment_Admin Enroll_Channel Relay_Ws Relay_Client Sftp_Transfer
begin

text \<open>
  A verification development of Wattcloud, a client-side-encrypted file store whose users bring their
  own storage.  The program has two halves.  The SDK (\<open>src/sdk/sdk-core\<close>) encrypts files and the
  vault that indexes them, keeps the list of storage providers, and talks to providers and to the
  relay.  The relay (\<open>src/byo-relay\<close>) is the only server: it hands out proof-of-work cookies, enrols
  devices, joins two devices on an enrolment channel, gives browsers an SFTP client, and stores
  shared ciphertext for a limited time.  The two meet on the wire: the SFTP protocol is modelled on
  both sides and composed.

  \<^bold>\<open>How the model corresponds to the code.\<close>  A struct is a record, an enum a datatype, a function a
  definition of the same name (a prefix is added where two modules use one name).  A \<open>Result\<close> is a sum
  with the error on the left, \<open>?\<close> is \<open>and_then\<close>.  Bytes are \<open>8 word\<close> lists, counters that can wrap are
  words, saturating arithmetic is written out.  Methods with \<open>&mut self\<close> return the new state.  What a
  mutex or a database transaction makes atomic is one function or one step; where the code releases
  a lock in between, the steps are separate and interleave (\<open>Enroll_Channel\<close>, \<open>share_concurrency\<close> of
  \<open>Rate_Limit\<close>, the two halves of a bundle upload in \<open>Share_Relay\<close>).  Clock readings, random draws,
  hash-map iteration order and resolver answers are arguments.

  \<^bold>\<open>Third-party code\<close> is a parameter: cryptographic primitives (\<open>prims\<close> in \<open>Crypto_Prims\<close>), JSON web
  tokens (\<open>device_jwt\<close>, \<open>jwt\<close>), \<open>serde_json\<close> (\<open>json_codec\<close> in \<open>Json_Value\<close>), the SSH and SFTP crates
  (\<open>sftp_server\<close>, \<open>ssh_env\<close>), the WebSocket (\<open>transport\<close>), URL parsing (\<open>Url\<close>), base64 (\<open>b64_engines\<close>).  What a theorem needs of
  them is a named predicate (\<open>aead_correct\<close>, \<open>mac_lengths\<close>, \<open>kem_correct\<close>, \<open>codec_ok\<close>, \<open>healthy\<close>, ...)
  that a concrete instance in the same theory satisfies.

  \<^bold>\<open>SDK theories.\<close>
  \<^item> \<open>Wattcloud_Prelude\<close>: results, slices, byte codecs (a locale with its interpretations), strings,
    streaming parsers (a locale whose clients inherit independence of how the input is cut).
  \<^item> \<open>Crypto_Prims\<close> (\<open>crypto/symmetric.rs\<close>, \<open>hashing.rs\<close>, \<open>kdf.rs\<close>, \<open>pqc.rs\<close>, \<open>error.rs\<close>): the wrappers and
    the hybrid KEM; \<open>v7_chunk_nonce\<close> is injective, encapsulation is inverted by decapsulation.
  \<^item> \<open>Wire_Format\<close> (\<open>crypto/wire_format.rs\<close>): the V7 file format, one-shot and streaming; round trips,
    distinct nonces, rejection of truncated files, independence of how the stream is cut.
  \<^item> \<open>Streaming\<close> (\<open>byo/streaming\<close>): upload and download flows; what is uploaded is downloaded.
  \<^item> \<open>Vault_Format\<close>, \<open>Vault_Crypto\<close> (\<open>byo/vault_format.rs\<close>, \<open>vault_crypto.rs\<close>, \<open>vault_body.rs\<close>,
    \<open>per_vault_key.rs\<close>): headers of both versions, slots, migration, key wrapping, key separation.
  \<^item> \<open>Vault_Journal\<close> (\<open>byo/vault_journal.rs\<close>): the parser accepts exactly the authenticated files.
  \<^item> \<open>Vault_Manifest\<close> (\<open>byo/manifest.rs\<close>): last-writer-wins merge against a declarative
    specification, convergence, tombstones.
  \<^item> \<open>Enroll_Protocol\<close> (\<open>byo/enrollment.rs\<close>, \<open>crypto/asymmetric.rs\<close>): the key agreement of two devices, the
    six-digit code and the authenticated envelopes; transfers round trip and tampering is refused.
  \<^item> \<open>Multi_Vault\<close> (\<open>byo/multi_vault.rs\<close>, \<open>byo/cross_provider_move\<close>): unlock and save plans, move plans, and the
    decisions by which a crashed move is recovered from its journal (the host executes them).
  \<^item> \<open>Vault_Sync\<close> (\<open>byo/merge_rows.rs\<close>, \<open>byo/offline_monitor.rs\<close>): the row merge against an order of rows said
    on their contents,
    the backoff of the liveness probes.
  \<^bold>\<open>Browser bindings\<close> (\<open>src/sdk/sdk-wasm\<close>), over JavaScript values:
  \<^item> \<open>Wasm_Base\<close> (\<open>util.rs\<close>, \<open>crypto/webauthn.rs\<close>): values, base64, passkey wraps.
  \<^item> \<open>Wasm_Vault\<close>, \<open>Wasm_Keys\<close> (\<open>vault_session.rs\<close>, \<open>byo.rs\<close>): the registry of vault sessions with every function
    that opens, uses or closes one, and the functions that take keys as text; a vault opens again on
    every path, sessions do not interfere, both families agree.
  \<^item> \<open>Wasm_Enroll\<close> (\<open>enrollment_session.rs\<close>, \<open>byo.rs\<close>) and \<open>Wasm_Share\<close> (\<open>byo/share.rs\<close>, \<open>byo.rs\<close>): enrolment of a
    second device and share links, end to end through the bindings.
  \<^item> \<open>Wasm_Plans\<close> (\<open>byo_vault.rs\<close>): manifests, bodies, journals and plans with their JSON forms.
  \<^bold>\<open>Relay theories.\<close>
  \<^item> \<open>Relay_Base\<close>: hash maps as association lists, addresses, clocks.
  \<^item> \<open>Rate_Limit\<close> (\<open>rate_limit.rs\<close>): sliding windows against a log of all attempts, byte budgets,
    slots under every interleaving of the atomic accesses, the failure tracker, storage accounting.
  \<^item> \<open>Net_Filter\<close> (\<open>ip_filter.rs\<close>, \<open>dns.rs\<close>, \<open>client_ip.rs\<close>): the block list, resolution, client addresses.
  \<^item> \<open>Relay_Auth\<close> (\<open>relay_auth.rs\<close>): challenges, proof of work, cookies and their single use.
  \<^item> \<open>Share_Store\<close>, \<open>Share_Relay\<close>, \<open>Share_Lifecycle\<close>, \<open>Share_Quota\<close>, \<open>Share_Throttle\<close> (\<open>share_store.rs\<close>,
    \<open>share_relay.rs\<close>): the index and blob store, every handler and the sweeper, histories of requests,
    quota accounting, the slow-start throttle (with fuel in the number of pending bytes, shown
    to be enough).
  \<^item> \<open>Enrollment_Store\<close>, \<open>Enrollment_Admin\<close> (\<open>enrollment.rs\<close>, \<open>enrollment_admin.rs\<close>, \<open>bin/admin.rs\<close>): the
    tables with their SQL, every handler and both middlewares, histories with restarts.
  \<^item> \<open>Enroll_Channel\<close> (\<open>channel.rs\<close>): an inductive step relation over shared channel objects.
  \<^item> \<open>Relay_Ws\<close> (\<open>relay_ws.rs\<close>): admission of WebSocket upgrades.
  \<^item> \<open>Sftp_Relay\<close> (\<open>sftp_relay.rs\<close>): session set-up and command loop, memory bounds, one answer per call.
  \<^bold>\<open>Composition.\<close>  \<open>Sftp_Transfer\<close> runs the SDK's \<open>Sftp_Client\<close> (\<open>byo/sftp\<close>) against the relay's session:
  the loops that skip frames are partial functions with \<open>None\<close> for waiting forever, and the
  transfers are proved to return.  \<open>Relay_Client\<close> runs the SDK's ticket solver and share client
  (\<open>byo/relay_auth.rs\<close>, \<open>byo/share_relay_client.rs\<close>) against the relay's handlers through requests and responses.
  \<^bold>\<open>Granularity and idealisations.\<close>  A handler of the relay is one step of a history, as is a sweep; in
  the code a body arrives between two critical sections (\<open>upload_bundle_blob\<close> is therefore also
  split at its body) and the sweep releases the lock between its phases.  \<open>usize\<close> is unbounded where the code adds
  frame lengths, which agrees with 64-bit targets.  JSON objects are printed with their keys in order, where
  serde prints structs in declaration order; readers look keys up by name.  \<open>healthy\<close> (\<open>Sftp_Transfer\<close>) describes a flat
  store on which every path is writable.

  \<^bold>\<open>Interfaces\<close> are locales, interpreted on the model's own operations: codecs and stream parsers
  (\<open>Wattcloud_Prelude\<close>), operations that keep a store's invariant (\<open>Share_Store\<close>, \<open>Enrollment_Store\<close>,
  \<open>Sftp_Relay\<close>), limiter contracts (\<open>Rate_Limit\<close>), the functions that open a session (\<open>Wasm_Vault\<close>).

  \<^bold>\<open>Not modelled.\<close>  The HTTP providers (\<open>byo/providers\<close>: request building and response parsing for seven
  third-party REST services around an HTTP client trait), the browser bindings of those providers and
  the legacy bindings (argument conversion for functions modelled here), OAuth form encoding, tracing, Debug redaction and
  zeroization, process start-up and routing tables except where a middleware decides, and the
  TypeScript frontend.  The manifest lists every such part with its reason.
\<close>

end
